(* ===== verification/Nachos_Prelude.thy ===== *)
theory Nachos_Prelude
  imports Main "HOL-Library.Word" "HOL-Library.Signed_Division"
begin

unbundle bit_operations_syntax

section \<open>Shared vocabulary of the development\<close>

text \<open>
  What every component of the model uses: the ways a Nachos run can stop, a result type with
  its bind, C arrays with their bounds, C division, counted loops, and the little-endian byte
  layout of a 32-bit integer (the host is i386, see \<open>Makefile.dep\<close>: little-endian, 32-bit
  \<open>int\<close>, signed \<open>char\<close>).

  A C++ \<open>int\<close> that only counts, indexes or measures simulated time is an Isabelle
  \<^typ>\<open>int\<close>: overflowing it is undefined in C++ and not modelled, except where an overflow
  can be reached from a caller's arguments, which is \<open>SignedOverflow\<close>. Registers, memory
  words and bitmap words are \<open>32 word\<close>, bytes are \<open>8 word\<close>.
\<close>

subsection \<open>Failures and results\<close>

text \<open>
  \<open>AssertFailed\<close> is a failed \<open>ASSERT\<close> (the program aborts), \<open>Halted\<close> the orderly
  \<open>Interrupt::Halt\<close>; the others are C++ behaviour outside the language's guarantees.
\<close>

datatype nerror =
    AssertFailed
  | Halted
  | OutOfBounds
  | NullDeref
  | DanglingPointer
  | SignedOverflow
  | DivisionByZero

type_synonym 'a result = "nerror + 'a"

type_synonym byte = "8 word"

definition rbind :: "'a result \<Rightarrow> ('a \<Rightarrow> 'b result) \<Rightarrow> 'b result" where
  "rbind m f = (case m of Inl e \<Rightarrow> Inl e | Inr x \<Rightarrow> f x)"

text \<open>Case splits and unfolding rules for results, collected for the component proofs.\<close>

named_theorems result_simps
named_theorems result_elims

lemma rbind_Inl [simp, result_simps]: "rbind (Inl e) f = Inl e"
  by (simp add: rbind_def)

lemma rbind_Inr [simp, result_simps]: "rbind (Inr x) f = f x"
  by (simp add: rbind_def)

lemma rbind_eq_InrE [elim!, result_elims]:
  assumes "rbind m f = Inr y"
  obtains x where "m = Inr x" and "f x = Inr y"
  using assms by (cases m) auto

lemma rbind_eq_Inr_iff: "rbind m f = Inr y \<longleftrightarrow> (\<exists>x. m = Inr x \<and> f x = Inr y)"
  by (cases m) auto

lemma rbind_assoc: "rbind (rbind m f) g = rbind m (\<lambda>x. rbind (f x) g)"
  by (cases m) auto

lemma rbind_cong [fundef_cong]:
  assumes "m = m'" and "\<And>x. m' = Inr x \<Longrightarrow> f x = f' x"
  shows "rbind m f = rbind m' f'"
  using assms by (cases m') auto

text \<open>The same for programs with errors of their own.\<close>

definition ebind :: "'e + 'a \<Rightarrow> ('a \<Rightarrow> 'e + 'b) \<Rightarrow> 'e + 'b" where
  "ebind m f = (case m of Inl e \<Rightarrow> Inl e | Inr x \<Rightarrow> f x)"

lemma ebind_simps [simp]: "ebind (Inl e) f = Inl e" "ebind (Inr x) f = f x"
  by (simp_all add: ebind_def)

lemma ebind_eq_InrE [elim!]:
  assumes "ebind m f = Inr y"
  obtains x where "m = Inr x" and "f x = Inr y"
  using assms by (cases m) auto

definition ASSERT :: "bool \<Rightarrow> unit result" where
  "ASSERT c = (if c then Inr () else Inl AssertFailed)"

lemma ASSERT_True [simp, result_simps]: "ASSERT True = Inr ()"
  by (simp add: ASSERT_def)

lemma ASSERT_False [simp, result_simps]: "ASSERT False = Inl AssertFailed"
  by (simp add: ASSERT_def)

lemma ASSERT_eq_Inr [simp]: "ASSERT c = Inr u \<longleftrightarrow> c"
  by (cases c) (auto simp: ASSERT_def)

text \<open>
  The same for operations that need not return: \<^const>\<open>None\<close> is a run that goes on for ever.
\<close>

definition orbind :: "'a result option \<Rightarrow> ('a \<Rightarrow> 'b result option) \<Rightarrow> 'b result option" where
  "orbind m f = Option.bind m (\<lambda>r. case r of Inl e \<Rightarrow> Some (Inl e) | Inr x \<Rightarrow> f x)"

lemma orbind_simps [simp, result_simps]:
  "orbind None f = None" "orbind (Some (Inl e)) f = Some (Inl e)" "orbind (Some (Inr x)) f = f x"
  by (simp_all add: orbind_def)

lemma orbind_mono [partial_function_mono]:
  assumes "mono_option B" and "\<And>y. mono_option (\<lambda>f. C y f)"
  shows "mono_option (\<lambda>f. orbind (B f) (\<lambda>y. C y f))"
proof -
  have "mono_option (\<lambda>f. case r of Inl e \<Rightarrow> Some (Inl e) | Inr x \<Rightarrow> C x f)" for r
    using assms(2) by (cases r) (simp_all add: option.const_mono)
  with assms(1) show ?thesis unfolding orbind_def by (intro bind_mono)
qed

lemma orbind_eq_InrE [elim!, result_elims]:
  assumes "orbind m f = Some (Inr y)"
  obtains x where "m = Some (Inr x)" and "f x = Some (Inr y)"
  using assms by (auto simp: orbind_def split: sum.splits Option.bind_splits)

lemma orbind_Some: "orbind (Some r) f = (case r of Inl e \<Rightarrow> Some (Inl e) | Inr x \<Rightarrow> f x)"
  by (simp add: orbind_def)

subsection \<open>C integers\<close>

definition int_min :: int where "int_min = - (2 ^ 31)"

definition int_max :: int where "int_max = 2 ^ 31 - 1"

definition in_int :: "int \<Rightarrow> bool" where
  "in_int x \<longleftrightarrow> int_min \<le> x \<and> x \<le> int_max"

text \<open>Addition of two \<open>int\<close>s, where the sum can leave the type.\<close>

definition int_add :: "int \<Rightarrow> int \<Rightarrow> int result" where
  "int_add a b = (if in_int (a + b) then Inr (a + b) else Inl SignedOverflow)"

text \<open>The macros of \<open>utility.h\<close>; C's \<open>/\<close> and \<open>%\<close> truncate towards zero.\<close>

definition divRoundDown :: "int \<Rightarrow> int \<Rightarrow> int" where
  "divRoundDown n s = n sdiv s"

definition divRoundUp :: "int \<Rightarrow> int \<Rightarrow> int" where
  "divRoundUp n s = n sdiv s + (if n smod s > 0 then 1 else 0)"

lemma sdiv_nonneg [simp]: "0 \<le> a \<Longrightarrow> 0 < b \<Longrightarrow> a sdiv b = a div (b::int)"
  by (simp add: signed_divide_int_def sgn_if)

lemma smod_nonneg [simp]: "0 \<le> a \<Longrightarrow> 0 < b \<Longrightarrow> a smod b = a mod (b::int)"
  by (simp add: signed_modulo_int_def sgn_if minus_div_mult_eq_mod)

text \<open>The remainder \<open>a % b\<close>.\<close>

definition crem :: "int \<Rightarrow> int \<Rightarrow> int result" where
  "crem a b = (if b = 0 then Inl DivisionByZero else Inr (a smod b))"

lemma crem_pos [simp]: "0 \<le> a \<Longrightarrow> 0 < b \<Longrightarrow> crem a b = Inr (a mod b)"
  by (simp add: crem_def)

lemma divRoundUp_nonneg:
  assumes "0 \<le> n" and "0 < s"
  shows "divRoundUp n s = (n + s - 1) div s"
proof -
  have n: "n = s * (n div s) + n mod s" by simp
  have m: "0 \<le> n mod s" "n mod s < s" using assms by simp_all
  have eq: "n + s - 1 = s * (n div s) + (n mod s + s - 1)" using n by linarith
  have "(n + s - 1) div s = n div s + (n mod s + s - 1) div s"
    using assms unfolding eq by simp
  moreover have "(n mod s + s - 1) div s = (if n mod s > 0 then 1 else 0)"
  proof (cases "n mod s > 0")
    case True
    have "(n mod s + s - 1) = s * 1 + (n mod s - 1)" by simp
    then have "(n mod s + s - 1) div s = 1 + (n mod s - 1) div s"
      using assms by (metis div_mult_self2 less_irrefl mult.commute add.commute)
    moreover have "(n mod s - 1) div s = 0"
      using True m by (intro div_pos_pos_trivial) auto
    ultimately show ?thesis using True by simp
  next
    case False
    with m have "n mod s = 0" by simp
    then show ?thesis using assms by (simp add: div_pos_pos_trivial)
  qed
  ultimately show ?thesis using assms by (simp add: divRoundUp_def)
qed

lemma divRoundUp_bounds:
  assumes "0 \<le> n" and "0 < s"
  shows "n \<le> divRoundUp n s * s" and "divRoundUp n s * s < n + s"
proof -
  have eq: "n div s * s + n mod s = n" by simp
  have m: "0 \<le> n mod s" "n mod s < s" using assms by simp_all
  show "n \<le> divRoundUp n s * s"
  proof (cases "n mod s > 0")
    case True
    then have "divRoundUp n s * s = n div s * s + s"
      using assms by (simp add: divRoundUp_def distrib_right)
    with eq m show ?thesis by linarith
  next
    case False
    then have "divRoundUp n s * s = n div s * s"
      using assms by (simp add: divRoundUp_def)
    with eq m False show ?thesis by linarith
  qed
  show "divRoundUp n s * s < n + s"
  proof (cases "n mod s > 0")
    case True
    then have "divRoundUp n s * s = n div s * s + s"
      using assms by (simp add: divRoundUp_def distrib_right)
    with eq m True show ?thesis by linarith
  next
    case False
    then have "divRoundUp n s * s = n div s * s"
      using assms by (simp add: divRoundUp_def)
    with eq m assms show ?thesis by linarith
  qed
qed

lemma divRoundUp_nonneg_result: "0 \<le> n \<Longrightarrow> 0 < s \<Longrightarrow> 0 \<le> divRoundUp n s"
  by (simp add: divRoundUp_def pos_imp_zdiv_nonneg_iff)

subsection \<open>C arrays\<close>

text \<open>An access outside the array is \<open>OutOfBounds\<close>; the index is a C \<open>int\<close>.\<close>

definition aget :: "'a list \<Rightarrow> int \<Rightarrow> 'a result" where
  "aget xs i = (if 0 \<le> i \<and> i < int (length xs) then Inr (xs ! nat i) else Inl OutOfBounds)"

definition aset :: "'a list \<Rightarrow> int \<Rightarrow> 'a \<Rightarrow> 'a list result" where
  "aset xs i x = (if 0 \<le> i \<and> i < int (length xs) then Inr (xs[nat i := x]) else Inl OutOfBounds)"

lemma aget_ok [simp]: "0 \<le> i \<Longrightarrow> i < int (length xs) \<Longrightarrow> aget xs i = Inr (xs ! nat i)"
  by (simp add: aget_def)

lemma aset_ok [simp]: "0 \<le> i \<Longrightarrow> i < int (length xs) \<Longrightarrow> aset xs i x = Inr (xs[nat i := x])"
  by (simp add: aset_def)

lemma aget_eq_Inr: "aget xs i = Inr x \<longleftrightarrow> 0 \<le> i \<and> i < int (length xs) \<and> x = xs ! nat i"
  by (auto simp: aget_def)

lemma aset_eq_Inr:
  "aset xs i x = Inr ys \<longleftrightarrow> 0 \<le> i \<and> i < int (length xs) \<and> ys = xs[nat i := x]"
  by (auto simp: aset_def)

lemma aset_length: "aset xs i x = Inr ys \<Longrightarrow> length ys = length xs"
  by (auto simp: aset_eq_Inr)

lemma take_nat_Suc:
  "0 \<le> j \<Longrightarrow> j < int (length xs) \<Longrightarrow> take (nat (j + 1)) xs = take (nat j) xs @ [xs ! nat j]"
  by (simp add: nat_add_distrib take_Suc_conv_app_nth)

lemma take_nat_update:
  "0 \<le> j \<Longrightarrow> j < int (length xs) \<Longrightarrow>
    take (nat (j + 1)) (xs[nat j := x]) = take (nat j) xs @ [x]"
  by (simp add: take_nat_Suc)

lemma drop_Suc_eq: "drop k xs = drop k ys \<Longrightarrow> drop (Suc k) xs = drop (Suc k) ys"
  by (simp add: drop_Suc flip: tl_drop)

text \<open>\<open>bcopy\<close>: \<open>n\<close> bytes of \<open>src\<close> from offset \<open>i\<close> to \<open>dst\<close> at offset \<open>j\<close>.\<close>

definition bcopy :: "'a list \<Rightarrow> int \<Rightarrow> 'a list \<Rightarrow> int \<Rightarrow> int \<Rightarrow> 'a list result" where
  "bcopy src i dst j n =
     (if n \<le> 0 then Inr dst
      else if 0 \<le> i \<and> i + n \<le> int (length src) \<and> 0 \<le> j \<and> j + n \<le> int (length dst)
      then Inr (take (nat j) dst @ take (nat n) (drop (nat i) src) @ drop (nat (j + n)) dst)
      else Inl OutOfBounds)"

lemma bcopy_length: "bcopy src i dst j n = Inr r \<Longrightarrow> length r = length dst"
  by (auto simp: bcopy_def split: if_splits)

lemma bcopy_ok:
  assumes "0 < n" and "0 \<le> i" and "i + n \<le> int (length src)" and "0 \<le> j" and "j + n \<le> int (length dst)"
  shows "\<exists>r. bcopy src i dst j n = Inr r \<and> length r = length dst \<and>
    (\<forall>q. 0 \<le> q \<and> q < int (length dst) \<longrightarrow>
      r ! nat q = (if j \<le> q \<and> q < j + n then src ! nat (q - j + i) else dst ! nat q))"
proof -
  define r where "r = take (nat j) dst @ take (nat n) (drop (nat i) src) @ drop (nat (j + n)) dst"
  have run: "bcopy src i dst j n = Inr r" using assms by (simp add: bcopy_def r_def)
  have len: "length (take (nat j) dst) = nat j" "length (take (nat n) (drop (nat i) src)) = nat n"
    using assms by auto
  have "r ! nat q = (if j \<le> q \<and> q < j + n then src ! nat (q - j + i) else dst ! nat q)"
    if q: "0 \<le> q" "q < int (length dst)" for q
  proof -
    consider "q < j" | "j \<le> q" "q < j + n" | "j + n \<le> q" by linarith
    then show ?thesis
    proof cases
      case 1
      with q assms have "nat q < nat j" by linarith
      with 1 len show ?thesis by (simp add: r_def nth_append)
    next
      case 2
      with assms have "\<not> nat q < nat j" "nat q - nat j < nat n" "nat q - nat j = nat (q - j)"
        "nat i + nat (q - j) = nat (q - j + i)"
        "nat i \<le> length src"
        by linarith+
      with 2 len assms show ?thesis by (simp add: r_def nth_append)
    next
      case 3
      with assms have "\<not> nat q < nat j" "\<not> nat q - nat j < nat n" "nat (j + n) + (nat q - nat j - nat n) = nat q"
        "nat (j + n) \<le> length dst"
        by linarith+
      with 3 len assms q show ?thesis by (simp add: r_def nth_append)
    qed
  qed
  with run show ?thesis using bcopy_length by blast
qed

lemma splice_eq:
  assumes "0 < n" and "0 \<le> j" and "j + n \<le> int (length dst)" and "int (length mid) = n"
    and "length r = length dst"
    and "\<And>q. 0 \<le> q \<Longrightarrow> q < int (length dst) \<Longrightarrow>
      r ! nat q = (if j \<le> q \<and> q < j + n then mid ! nat (q - j) else dst ! nat q)"
  shows "r = take (nat j) dst @ mid @ drop (nat (j + n)) dst"
proof -
  have len: "0 + n \<le> int (length mid)" using assms by simp
  obtain r' where r': "bcopy mid 0 dst j n = Inr r'" "length r' = length dst"
    "\<forall>q. 0 \<le> q \<and> q < int (length dst) \<longrightarrow>
      r' ! nat q = (if j \<le> q \<and> q < j + n then mid ! nat (q - j + 0) else dst ! nat q)"
    using bcopy_ok [of n 0 mid j dst] len assms(1-3) by auto
  have "r = r'"
  proof (rule nth_equalityI)
    show "length r = length r'" using r'(2) assms(5) by simp
    fix i assume "i < length r"
    then show "r ! i = r' ! i"
      using r'(3) [rule_format, of "int i"] assms(5) assms(6) [of "int i"] by simp
  qed
  moreover have "take (nat n) mid = mid" using assms by simp
  ultimately show ?thesis using r'(1) assms by (simp add: bcopy_def split: if_splits)
qed

text \<open>The \<open>n\<close> elements from index \<open>i\<close> on, as a callee reads them through a pointer.\<close>

definition subarray :: "'a list \<Rightarrow> int \<Rightarrow> int \<Rightarrow> 'a list result" where
  "subarray xs i n =
     (if 0 \<le> i \<and> 0 \<le> n \<and> i + n \<le> int (length xs)
      then Inr (take (nat n) (drop (nat i) xs)) else Inl OutOfBounds)"

subsection \<open>Counted loops\<close>

text \<open>\<open>for (i = lo; i < hi; i++) s = body(i, s)\<close>, stopping at the first failure.\<close>

function for_range :: "int \<Rightarrow> int \<Rightarrow> (int \<Rightarrow> 's \<Rightarrow> 's result) \<Rightarrow> 's \<Rightarrow> 's result" where
  "for_range i n body s =
     (if i < n then rbind (body i s) (\<lambda>s'. for_range (i + 1) n body s') else Inr s)"
  by pat_completeness auto
termination
  by (relation "measure (\<lambda>(i, n, _). nat (n - i))") auto

declare for_range.simps [simp del]

lemma for_range_done [simp]: "n \<le> i \<Longrightarrow> for_range i n body s = Inr s"
  by (simp add: for_range.simps)

lemma for_range_step:
  "i < n \<Longrightarrow> for_range i n body s = rbind (body i s) (\<lambda>s'. for_range (i + 1) n body s')"
  by (subst for_range.simps) simp

lemma for_range_split:
  assumes "i \<le> k" and "k \<le> n"
  shows "for_range i n body s = rbind (for_range i k body s) (for_range k n body)"
  using assms
proof (induction i n body s rule: for_range.induct)
  case (1 i n body s)
  show ?case
  proof (cases "i < k")
    case True
    then have "i < n" using "1.prems" by simp
    with True "1.IH" [OF \<open>i < n\<close>] "1.prems" show ?thesis
      by (auto simp: for_range_step rbind_assoc intro!: rbind_cong)
  next
    case False
    with "1.prems" have "k = i" by simp
    then show ?thesis by simp
  qed
qed

text \<open>The loop rule: an invariant indexed by the counter.\<close>

lemma for_range_rule:
  assumes "P i s" and "i \<le> n"
    and "\<And>j t. i \<le> j \<Longrightarrow> j < n \<Longrightarrow> P j t \<Longrightarrow> \<exists>t'. body j t = Inr t' \<and> P (j + 1) t'"
  shows "\<exists>s'. for_range i n body s = Inr s' \<and> P n s'"
  using assms
proof (induction i n body s rule: for_range.induct)
  case (1 i n body s)
  show ?case
  proof (cases "i < n")
    case True
    then obtain t where t: "body i s = Inr t" "P (i + 1) t"
      using "1.prems" by blast
    have "\<exists>s'. for_range (i + 1) n body t = Inr s' \<and> P n s'"
      by (rule "1.IH") (use True t "1.prems" in auto)
    with t True show ?thesis by (simp add: for_range_step)
  next
    case False
    with "1.prems" show ?thesis by (auto simp: order_antisym)
  qed
qed

text \<open>The same for a loop known to have returned.\<close>

lemma for_range_inv:
  assumes "for_range i n body s = Inr s'" and "P i s" and "i \<le> n"
    and "\<And>j t t'. i \<le> j \<Longrightarrow> j < n \<Longrightarrow> P j t \<Longrightarrow> body j t = Inr t' \<Longrightarrow> P (j + 1) t'"
  shows "P n s'"
  using assms
proof (induction i n body s rule: for_range.induct)
  case (1 i n body s)
  show ?case
  proof (cases "i < n")
    case True
    with "1.prems"(1) obtain t where t: "body i s = Inr t" "for_range (i + 1) n body t = Inr s'"
      by (auto simp: for_range_step)
    show ?thesis
      by (rule "1.IH" [OF True t]) (use True t "1.prems" in auto)
  next
    case False
    with "1.prems" show ?thesis by (auto simp: order_antisym)
  qed
qed

text \<open>\<open>for (i = lo; i < hi; i++) if (test(i)) return i; return -1\<close>\<close>

function find_range :: "int \<Rightarrow> int \<Rightarrow> (int \<Rightarrow> bool result) \<Rightarrow> int result" where
  "find_range i n test =
     (if i < n then rbind (test i) (\<lambda>b. if b then Inr i else find_range (i + 1) n test)
      else Inr (- 1))"
  by pat_completeness auto
termination
  by (relation "measure (\<lambda>(i, n, _). nat (n - i))") auto

declare find_range.simps [simp del]

lemma find_range_spec:
  assumes "\<And>j. i \<le> j \<Longrightarrow> j < n \<Longrightarrow> test j = Inr (P j)"
  shows "\<exists>r. find_range i n test = Inr r \<and>
    (r = - 1 \<and> (\<forall>j. i \<le> j \<and> j < n \<longrightarrow> \<not> P j) \<or>
     i \<le> r \<and> r < n \<and> P r \<and> (\<forall>j. i \<le> j \<and> j < r \<longrightarrow> \<not> P j))"
  using assms
proof (induction i n test rule: find_range.induct)
  case (1 i n test)
  show ?case
  proof (cases "i < n")
    case True
    have t: "test i = Inr (P i)" by (rule "1.prems") (use True in auto)
    show ?thesis
    proof (cases "P i")
      case True
      with \<open>i < n\<close> t show ?thesis by (subst find_range.simps) auto
    next
      case False
      have eq: "find_range i n test = find_range (i + 1) n test"
        using True t False by (subst find_range.simps) simp
      have "\<exists>r. find_range (i + 1) n test = Inr r \<and>
          (r = - 1 \<and> (\<forall>j. i + 1 \<le> j \<and> j < n \<longrightarrow> \<not> P j) \<or>
           i + 1 \<le> r \<and> r < n \<and> P r \<and> (\<forall>j. i + 1 \<le> j \<and> j < r \<longrightarrow> \<not> P j))"
        by (rule "1.IH" [OF True t False]) (use "1.prems" in auto)
      moreover have "i + 1 \<le> j \<longleftrightarrow> i \<le> j \<and> j \<noteq> i" for j by auto
      ultimately show ?thesis unfolding eq using False by auto
    qed
  next
    case False
    then show ?thesis by (subst find_range.simps) auto
  qed
qed

subsection \<open>Little-endian layout of 32-bit integers\<close>

definition word_bytes :: "32 word \<Rightarrow> byte list" where
  "word_bytes w = [ucast w, ucast (drop_bit 8 w), ucast (drop_bit 16 w), ucast (drop_bit 24 w)]"

definition bytes_word :: "byte list \<Rightarrow> 32 word" where
  "bytes_word bs =
     ucast (bs ! 0) OR push_bit 8 (ucast (bs ! 1)) OR
     push_bit 16 (ucast (bs ! 2)) OR push_bit 24 (ucast (bs ! 3))"

definition int_bytes :: "int \<Rightarrow> byte list" where
  "int_bytes x = word_bytes (word_of_int x)"

definition bytes_int :: "byte list \<Rightarrow> int" where
  "bytes_int bs = sint (bytes_word bs)"

lemma length_word_bytes [simp]: "length (word_bytes w) = 4"
  by (simp add: word_bytes_def)

lemma length_int_bytes [simp]: "length (int_bytes x) = 4"
  by (simp add: int_bytes_def)

lemma bytes_word_word_bytes [simp]: "bytes_word (word_bytes w) = w"
proof (rule bit_word_eqI)
  fix n assume n: "n < LENGTH(32)"
  consider "n < 8" | "8 \<le> n" "n < 16" | "16 \<le> n" "n < 24" | "24 \<le> n" by linarith
  then show "bit (bytes_word (word_bytes w)) n = bit w n"
    by cases
      (use n in \<open>auto simp: bytes_word_def word_bytes_def bit_simps\<close>)
qed

lemma word_bytes_bytes_word [simp]:
  assumes "length bs = 4"
  shows "word_bytes (bytes_word bs) = bs"
proof -
  from assms obtain b0 b1 b2 b3 where bs: "bs = [b0, b1, b2, b3]"
    by (auto simp: numeral_eq_Suc length_Suc_conv)
  show ?thesis
    unfolding bs word_bytes_def bytes_word_def
    by (auto simp: bit_eq_iff bit_simps dest: bit_imp_le_length)
qed

lemma bytes_int_int_bytes [simp]: "in_int x \<Longrightarrow> bytes_int (int_bytes x) = x"
  by (simp add: bytes_int_def int_bytes_def in_int_def int_min_def int_max_def
      sint_sbintrunc' signed_take_bit_int_eq_self)

lemma in_int_bytes_int [simp]: "in_int (bytes_int bs)"
  using sint_greater_eq [of "bytes_word bs"] sint_less [of "bytes_word bs"]
  by (simp add: bytes_int_def in_int_def int_min_def int_max_def)

lemma int_bytes_bytes_int [simp]: "length bs = 4 \<Longrightarrow> int_bytes (bytes_int bs) = bs"
  by (simp add: int_bytes_def bytes_int_def)

text \<open>The low bits of an address.\<close>

lemma and_3_iff: "(w :: 32 word) AND 3 = 0 \<longleftrightarrow> uint w mod 4 = 0"
proof -
  have "w AND 3 = take_bit 2 w" by (simp add: take_bit_eq_mask mask_eq_exp_minus_1)
  then show ?thesis by (simp add: word_uint_eq_iff uint_mod take_bit_eq_mod)
qed

lemma and_1_iff: "(w :: 32 word) AND 1 = 0 \<longleftrightarrow> uint w mod 2 = 0"
proof -
  have "w AND 1 = take_bit 1 w" by (simp add: take_bit_eq_mask mask_eq_exp_minus_1)
  then show ?thesis by (simp add: word_uint_eq_iff uint_mod take_bit_eq_mod)
qed

end
