(* ===== verification/Linked_List.thy ===== *)
theory Linked_List
  imports Nachos_Prelude "HOL-Library.Multiset"
begin

section \<open>The singly linked list of threads/list.cc\<close>

text \<open>
  The list is modelled twice. First as the code has it: \<open>ListElement\<close>s in a store indexed by
  address (address 0 is \<open>NULL\<close>), a \<open>List\<close> with its \<open>first\<close> and \<open>last\<close> pointers, and each
  operation of \<open>list.cc\<close> as a transformation of the store that fails on a null or a dangling
  pointer. The address \<open>operator new\<close> returns is an argument of the operations that allocate.
  Then as what it promises: a list of (key, item) pairs, with \<open>sorted_insert\<close> for
  \<open>SortedInsert\<close>. The lemmas show that the pointer operations implement the abstract ones;
  the components that keep a \<open>List\<close> (the interrupt queue, the ready list, the semaphores'
  queues) are modelled over the abstract ones.
\<close>

subsection \<open>The data structure\<close>

type_synonym addr = nat

record ListElement =
  el_next :: addr
  el_key :: int
  el_item :: addr

type_synonym store = "addr \<Rightarrow> ListElement option"

record NList =
  l_first :: addr
  l_last :: addr

definition deref :: "store \<Rightarrow> addr \<Rightarrow> ListElement result" where
  "deref h p =
     (if p = 0 then Inl NullDeref
      else case h p of None \<Rightarrow> Inl DanglingPointer | Some e \<Rightarrow> Inr e)"

definition ListElement_new :: "addr \<Rightarrow> int \<Rightarrow> ListElement" where
  "ListElement_new itemPtr sortKey = \<lparr>el_next = 0, el_key = sortKey, el_item = itemPtr\<rparr>"

definition List_new :: NList where
  "List_new = \<lparr>l_first = 0, l_last = 0\<rparr>"

definition List_IsEmpty :: "NList \<Rightarrow> bool" where
  "List_IsEmpty l \<longleftrightarrow> l_first l = 0"

definition List_Append :: "addr \<Rightarrow> addr \<Rightarrow> store \<times> NList \<Rightarrow> (store \<times> NList) result" where
  "List_Append element it = (\<lambda>(h, l).
     let h = h(element \<mapsto> ListElement_new it 0) in
     if List_IsEmpty l then Inr (h, l\<lparr>l_first := element, l_last := element\<rparr>)
     else rbind (deref h (l_last l)) (\<lambda>e.
       Inr (h(l_last l \<mapsto> e\<lparr>el_next := element\<rparr>), l\<lparr>l_last := element\<rparr>)))"

definition List_Prepend :: "addr \<Rightarrow> addr \<Rightarrow> store \<times> NList \<Rightarrow> (store \<times> NList) result" where
  "List_Prepend element it = (\<lambda>(h, l).
     let h = h(element \<mapsto> ListElement_new it 0) in
     if List_IsEmpty l then Inr (h, l\<lparr>l_first := element, l_last := element\<rparr>)
     else rbind (deref h element) (\<lambda>e.
       Inr (h(element \<mapsto> e\<lparr>el_next := l_first l\<rparr>), l\<lparr>l_first := element\<rparr>)))"

text \<open>
  The loop of \<open>SortedInsert\<close>: it may not end on a cyclic chain (then there is no result,
  \<^const>\<open>None\<close>); the flag says whether it returned from inside the loop.
\<close>

partial_function (option) insert_walk ::
  "addr \<Rightarrow> int \<Rightarrow> store \<Rightarrow> addr \<Rightarrow> (store \<times> bool) result option" where
  "insert_walk element sortKey h ptr =
     (case deref h ptr of
        Inl e \<Rightarrow> Some (Inl e)
      | Inr p \<Rightarrow>
          if el_next p = 0 then Some (Inr (h, False))
          else (case deref h (el_next p) of
                  Inl e \<Rightarrow> Some (Inl e)
                | Inr n \<Rightarrow>
                    if sortKey < el_key n
                    then Some (rbind (deref h element) (\<lambda>el.
                           let h = h(element \<mapsto> el\<lparr>el_next := el_next p\<rparr>)
                           in Inr (h(ptr \<mapsto> p\<lparr>el_next := element\<rparr>), True)))
                    else insert_walk element sortKey h (el_next p)))"

definition List_SortedInsert ::
  "addr \<Rightarrow> addr \<Rightarrow> int \<Rightarrow> store \<times> NList \<Rightarrow> (store \<times> NList) result option" where
  "List_SortedInsert element it sortKey = (\<lambda>(h, l).
     let h = h(element \<mapsto> ListElement_new it sortKey) in
     if List_IsEmpty l then Some (Inr (h, l\<lparr>l_first := element, l_last := element\<rparr>))
     else (case deref h (l_first l) of
             Inl e \<Rightarrow> Some (Inl e)
           | Inr f \<Rightarrow>
               if sortKey < el_key f
               then Some (rbind (deref h element) (\<lambda>el.
                      Inr (h(element \<mapsto> el\<lparr>el_next := l_first l\<rparr>), l\<lparr>l_first := element\<rparr>)))
               else (case insert_walk element sortKey h (l_first l) of
                       None \<Rightarrow> None
                     | Some (Inl e) \<Rightarrow> Some (Inl e)
                     | Some (Inr (h', True)) \<Rightarrow> Some (Inr (h', l))
                     | Some (Inr (h', False)) \<Rightarrow>
                         Some (rbind (deref h' (l_last l)) (\<lambda>e.
                           Inr (h'(l_last l \<mapsto> e\<lparr>el_next := element\<rparr>), l\<lparr>l_last := element\<rparr>))))))"

text \<open>
  \<open>SortedRemove\<close> returns the item (\<open>NULL\<close> on an empty list) and, when an element was removed,
  the key it stores through \<open>keyPtr\<close>; the element is deleted from the store.
\<close>

definition List_SortedRemove ::
  "store \<times> NList \<Rightarrow> (addr \<times> int option \<times> store \<times> NList) result" where
  "List_SortedRemove = (\<lambda>(h, l).
     if List_IsEmpty l then Inr (0, None, h, l)
     else rbind (deref h (l_first l)) (\<lambda>e.
       let l' = (if l_first l = l_last l then l\<lparr>l_first := 0, l_last := 0\<rparr>
                 else l\<lparr>l_first := el_next e\<rparr>)
       in Inr (el_item e, Some (el_key e), h(l_first l := None), l')))"

definition List_Remove :: "store \<times> NList \<Rightarrow> (addr \<times> store \<times> NList) result" where
  "List_Remove s = rbind (List_SortedRemove s) (\<lambda>(thing, _, s'). Inr (thing, s'))"

text \<open>\<open>~List\<close>: remove until an item is \<open>NULL\<close>.\<close>

partial_function (option) List_delete :: "store \<times> NList \<Rightarrow> (store \<times> NList) result option" where
  "List_delete s =
     (case List_Remove s of
        Inl e \<Rightarrow> Some (Inl e)
      | Inr r \<Rightarrow> if fst r \<noteq> 0 then List_delete (snd r) else Some (Inr (snd r)))"

partial_function (option) mapcar_walk ::
  "(addr \<Rightarrow> 's \<Rightarrow> 's) \<Rightarrow> store \<Rightarrow> addr \<Rightarrow> 's \<Rightarrow> 's result option" where
  "mapcar_walk func h ptr s =
     (if ptr = 0 then Some (Inr s)
      else (case deref h ptr of
              Inl e \<Rightarrow> Some (Inl e)
            | Inr p \<Rightarrow> mapcar_walk func h (el_next p) (func (el_item p) s)))"

definition List_Mapcar ::
  "(addr \<Rightarrow> 's \<Rightarrow> 's) \<Rightarrow> store \<times> NList \<Rightarrow> 's \<Rightarrow> 's result option" where
  "List_Mapcar func = (\<lambda>(h, l) s. mapcar_walk func h (l_first l) s)"

text \<open>\<open>ShowList\<close>: the keys it prints; \<^const>\<open>None\<close> inside is the output \<open>NULL\<close> of an empty list.\<close>

partial_function (option) show_walk :: "store \<Rightarrow> ListElement \<Rightarrow> int list \<Rightarrow> int list result option" where
  "show_walk h p out =
     (if el_next p = 0 then Some (Inr out)
      else (case deref h (el_next p) of
              Inl e \<Rightarrow> Some (Inl e)
            | Inr n \<Rightarrow> show_walk h n (out @ [el_key n])))"

definition List_ShowList :: "store \<times> NList \<Rightarrow> int list option result option" where
  "List_ShowList = (\<lambda>(h, l).
     if List_IsEmpty l then Some (Inr None)
     else (case deref h (l_first l) of
             Inl e \<Rightarrow> Some (Inl e)
           | Inr p \<Rightarrow>
               if l_first l = l_last l then Some (Inr (Some [el_key p]))
               else map_option (map_sum id Some) (show_walk h p [el_key p])))"

subsection \<open>What the list promises\<close>

text \<open>Insertion behind every element whose key is not larger.\<close>

definition sorted_insert :: "int \<Rightarrow> 'a \<Rightarrow> (int \<times> 'a) list \<Rightarrow> (int \<times> 'a) list" where
  "sorted_insert k x xs =
     takeWhile (\<lambda>e. fst e \<le> k) xs @ (k, x) # dropWhile (\<lambda>e. fst e \<le> k) xs"

lemma sorted_insert_Nil [simp]: "sorted_insert k x [] = [(k, x)]"
  by (simp add: sorted_insert_def)

lemma sorted_insert_Cons:
  "sorted_insert k x (e # xs) =
     (if fst e \<le> k then e # sorted_insert k x xs else (k, x) # e # xs)"
  by (simp add: sorted_insert_def)

lemma length_sorted_insert [simp]: "length (sorted_insert k x xs) = Suc (length xs)"
  by (induction xs) (auto simp: sorted_insert_Cons)

lemma sorted_insert_not_Nil [simp]: "sorted_insert k x xs \<noteq> []"
  by (simp add: sorted_insert_def)

lemma mset_sorted_insert [simp]: "mset (sorted_insert k x xs) = add_mset (k, x) (mset xs)"
  by (induction xs) (auto simp: sorted_insert_Cons)

lemma set_sorted_insert [simp]: "set (sorted_insert k x xs) = insert (k, x) (set xs)"
  by (induction xs) (auto simp: sorted_insert_Cons)

lemma sorted_sorted_insert:
  "sorted (map fst xs) \<Longrightarrow> sorted (map fst (sorted_insert k x xs))"
  by (induction xs) (auto simp: sorted_insert_Cons)

lemma filter_sorted_insert:
  assumes "sorted (map fst xs)"
  shows "filter (\<lambda>e. fst e = j) (sorted_insert k x xs) =
         filter (\<lambda>e. fst e = j) xs @ (if k = j then [(k, x)] else [])"
  using assms
proof (induction xs)
  case Nil
  then show ?case by simp
next
  case (Cons e xs)
  then show ?case
  proof (cases "fst e \<le> k")
    case True
    with Cons show ?thesis by (simp add: sorted_insert_Cons)
  next
    case False
    then have "filter (\<lambda>e. fst e = k) (e # xs) = []"
      using Cons.prems by (auto simp: filter_empty_conv)
    with False Cons.prems show ?thesis
      by (auto simp: sorted_insert_Cons)
  qed
qed

lemma sorted_insert_filter:
  "sorted (map fst xs) \<Longrightarrow>
    sorted_insert k x xs = filter (\<lambda>e. fst e \<le> k) xs @ (k, x) # filter (\<lambda>e. k < fst e) xs"
proof (induction xs)
  case Nil
  then show ?case by simp
next
  case (Cons e xs)
  then show ?case
  proof (cases "fst e \<le> k")
    case True
    with Cons show ?thesis by (simp add: sorted_insert_Cons)
  next
    case False
    with Cons.prems have "filter (\<lambda>e. fst e \<le> k) xs = []" "filter (\<lambda>e. k < fst e) xs = xs"
      by (auto simp: filter_empty_conv filter_id_conv)
    with False show ?thesis by (simp add: sorted_insert_Cons)
  qed
qed

text \<open>A run of insertions is a stable sort by key: equal keys keep their order of insertion.\<close>

definition insert_all :: "(int \<times> 'a) list \<Rightarrow> (int \<times> 'a) list \<Rightarrow> (int \<times> 'a) list" where
  "insert_all es xs = fold (\<lambda>e. sorted_insert (fst e) (snd e)) es xs"

lemma insert_all_props:
  assumes "sorted (map fst xs)"
  shows "sorted (map fst (insert_all es xs))"
    and "mset (insert_all es xs) = mset xs + mset es"
    and "filter (\<lambda>e. fst e = j) (insert_all es xs) =
         filter (\<lambda>e. fst e = j) xs @ filter (\<lambda>e. fst e = j) es"
  using assms
proof (induction es arbitrary: xs)
  case Nil
  { case 1 then show ?case by (simp add: insert_all_def) }
  { case 2 then show ?case by (simp add: insert_all_def) }
  { case 3 then show ?case by (simp add: insert_all_def) }
next
  case (Cons e es)
  have step: "insert_all (e # es) xs = insert_all es (sorted_insert (fst e) (snd e) xs)" for xs
    by (simp add: insert_all_def)
  { case 1 then show ?case
      by (simp only: step) (intro Cons.IH sorted_sorted_insert) }
  { case 2 then show ?case
      by (simp add: step Cons.IH(2) [OF sorted_sorted_insert]) }
  { case 3
    have "(j, snd e) = e \<longleftrightarrow> fst e = j" by (cases e) auto
    with 3 show ?case
      by (auto simp: step Cons.IH(3) [OF sorted_sorted_insert] filter_sorted_insert) }
qed

lemma insert_all_sort_key: "insert_all es [] = sort_key fst es"
proof (rule sym, rule properties_for_sort_key)
  show "mset (insert_all es []) = mset es"
    by (simp add: insert_all_props(2))
  show "sorted (map fst (insert_all es []))"
    by (simp add: insert_all_props(1))
  fix k assume "k \<in> set (insert_all es [])"
  show "filter (\<lambda>x. fst k = fst x) (insert_all es []) = filter (\<lambda>x. fst k = fst x) es"
    using insert_all_props(3) [of "[]" "fst k" es] by (simp add: eq_commute)
qed

subsection \<open>The list as the store holds it\<close>

text \<open>
  \<open>path h p xs\<close>: following the \<open>next\<close> pointers from \<open>p\<close> gives exactly the elements \<open>xs\<close>,
  each with its address, key and item, and ends in \<open>NULL\<close>.
\<close>

fun path :: "store \<Rightarrow> addr \<Rightarrow> (int \<times> addr \<times> addr) list \<Rightarrow> bool" where
  "path h p [] \<longleftrightarrow> p = 0"
| "path h p ((k, a, it) # xs) \<longleftrightarrow>
     p = a \<and> a \<noteq> 0 \<and>
     (\<exists>q. h a = Some \<lparr>el_next = q, el_key = k, el_item = it\<rparr> \<and> path h q xs)"

fun addrs :: "(int \<times> addr \<times> addr) list \<Rightarrow> addr list" where
  "addrs [] = []"
| "addrs ((k, a, it) # xs) = a # addrs xs"

abbreviation cells :: "(int \<times> addr \<times> addr) list \<Rightarrow> addr set" where
  "cells xs \<equiv> set (addrs xs)"

lemma addrs_append [simp]: "addrs (xs @ ys) = addrs xs @ addrs ys"
  by (induction xs rule: addrs.induct) auto

definition list_rep :: "store \<times> NList \<Rightarrow> (int \<times> addr \<times> addr) list \<Rightarrow> bool" where
  "list_rep s xs \<longleftrightarrow>
     path (fst s) (l_first (snd s)) xs \<and>
     distinct (addrs xs) \<and>
     l_last (snd s) = (if xs = [] then 0 else fst (snd (last xs)))"

lemma path_cong:
  "(\<And>a. a \<in> cells xs \<Longrightarrow> h' a = h a) \<Longrightarrow> path h' p xs = path h p xs"
  by (induction xs arbitrary: p rule: addrs.induct) auto

lemma path_cells: "path h p xs \<Longrightarrow> a \<in> cells xs \<Longrightarrow> a \<noteq> 0 \<and> h a \<noteq> None"
  by (induction xs arbitrary: p rule: addrs.induct) auto

lemma path_upd_other [simp]: "a \<notin> cells xs \<Longrightarrow> path (h(a := v)) p xs = path h p xs"
  by (rule path_cong) auto

lemma path_first_null [simp]: "path h 0 xs \<longleftrightarrow> xs = []"
  by (cases xs) auto

lemma path_not_Nil: "path h p xs \<Longrightarrow> p \<noteq> 0 \<longleftrightarrow> xs \<noteq> []"
  by (cases xs) auto

text \<open>Linking a fresh cell behind the last one.\<close>

lemma path_snoc:
  assumes "path h p (xs @ [(k, b, it)])" and "distinct (addrs (xs @ [(k, b, it)]))"
    and "a \<notin> cells (xs @ [(k, b, it)])" and "a \<noteq> 0"
    and "h a = Some \<lparr>el_next = 0, el_key = j, el_item = jt\<rparr>"
  shows "path (h(b \<mapsto> \<lparr>el_next = a, el_key = k, el_item = it\<rparr>)) p
           (xs @ [(k, b, it), (j, a, jt)])"
  using assms
proof (induction xs arbitrary: p)
  case Nil
  then show ?case by auto
next
  case (Cons x xs)
  obtain kx ax ix where x: "x = (kx, ax, ix)" by (cases x)
  from Cons.prems(1) x obtain q where q:
    "p = ax" "ax \<noteq> 0" "h ax = Some \<lparr>el_next = q, el_key = kx, el_item = ix\<rparr>"
    "path h q (xs @ [(k, b, it)])" by auto
  define h' where "h' = h(b \<mapsto> \<lparr>el_next = a, el_key = k, el_item = it\<rparr>)"
  have "b \<noteq> ax" using Cons.prems(2) x by auto
  then have "h' ax = h ax" by (simp add: h'_def)
  moreover have "path h' q (xs @ [(k, b, it), (j, a, jt)])"
    unfolding h'_def by (rule Cons.IH) (use q(4) Cons.prems x in auto)
  ultimately show ?case using q x by (simp flip: h'_def)
qed

lemma path_last:
  assumes "path h p xs" and "xs \<noteq> []" and "last xs = (k, b, it)"
  shows "h b = Some \<lparr>el_next = 0, el_key = k, el_item = it\<rparr> \<and> b \<noteq> 0"
  using assms
proof (induction xs arbitrary: p)
  case (Cons x xs)
  then show ?case by (cases x; cases xs) auto
qed simp

text \<open>The walk of \<open>SortedInsert\<close> from an element whose key is not larger than the new one.\<close>

lemma insert_walk_spec:
  assumes "path h p ((kp, p, ip) # xs)" and "distinct (addrs ((kp, p, ip) # xs))"
    and "a \<notin> cells ((kp, p, ip) # xs)"
    and "h a = Some \<lparr>el_next = 0, el_key = k, el_item = it\<rparr>" and "a \<noteq> 0"
  shows "\<exists>h'. insert_walk a k h p =
      Some (Inr (h', dropWhile (\<lambda>e. fst e \<le> k) xs \<noteq> [])) \<and>
    (if dropWhile (\<lambda>e. fst e \<le> k) xs = [] then h' = h
     else path h' p ((kp, p, ip) # sorted_insert k (a, it) xs)) \<and>
    (\<forall>b. b \<notin> insert a (cells ((kp, p, ip) # xs)) \<longrightarrow> h' b = h b)"
  using assms
proof (induction xs arbitrary: p kp ip)
  case Nil
  then show ?case
    by (subst insert_walk.simps) (auto simp: deref_def)
next
  case (Cons x xs)
  obtain kx ax ix where x: "x = (kx, ax, ix)" by (cases x)
  from Cons.prems(1) x obtain q where
    p: "p \<noteq> 0" "h p = Some \<lparr>el_next = ax, el_key = kp, el_item = ip\<rparr>"
    and ax: "ax \<noteq> 0" "h ax = Some \<lparr>el_next = q, el_key = kx, el_item = ix\<rparr>" "path h q xs"
    by auto
  have ne: "p \<noteq> ax" "a \<noteq> p" "a \<noteq> ax" "a \<notin> cells xs" "p \<notin> cells xs" "ax \<notin> cells xs"
    using Cons.prems(2,3) x by force+
  show ?case
  proof (cases "k < kx")
    case True
    let ?h = "h(a \<mapsto> \<lparr>el_next = ax, el_key = k, el_item = it\<rparr>,
                p \<mapsto> \<lparr>el_next = a, el_key = kp, el_item = ip\<rparr>)"
    have "insert_walk a k h p = Some (Inr (?h, True))"
      using p ax True Cons.prems(4,5)
      by (subst insert_walk.simps) (simp add: deref_def Let_def)
    moreover have "path ?h p ((kp, p, ip) # sorted_insert k (a, it) (x # xs))"
      using True x p ax ne Cons.prems(5) by (simp add: sorted_insert_Cons)
    ultimately show ?thesis using True x by auto
  next
    case False
    have walk: "insert_walk a k h p = insert_walk a k h ax"
      using p ax False by (subst insert_walk.simps) (simp add: deref_def)
    have "\<exists>h'. insert_walk a k h ax =
        Some (Inr (h', dropWhile (\<lambda>e. fst e \<le> k) xs \<noteq> [])) \<and>
      (if dropWhile (\<lambda>e. fst e \<le> k) xs = [] then h' = h
       else path h' ax ((kx, ax, ix) # sorted_insert k (a, it) xs)) \<and>
      (\<forall>b. b \<notin> insert a (cells ((kx, ax, ix) # xs)) \<longrightarrow> h' b = h b)"
      by (rule Cons.IH) (use ax ne Cons.prems(2,4,5) x in auto)
    then obtain h' where h':
      "insert_walk a k h ax = Some (Inr (h', dropWhile (\<lambda>e. fst e \<le> k) xs \<noteq> []))"
      "if dropWhile (\<lambda>e. fst e \<le> k) xs = [] then h' = h
       else path h' ax ((kx, ax, ix) # sorted_insert k (a, it) xs)"
      "\<forall>b. b \<notin> insert a (cells ((kx, ax, ix) # xs)) \<longrightarrow> h' b = h b"
      by blast
    have "h' p = h p" using h'(3) ne by auto
    with h' False x p ne walk show ?thesis
      by (auto simp: sorted_insert_Cons split: if_splits)
  qed
qed

subsection \<open>The pointer operations implement the abstract ones\<close>

lemma list_rep_empty: "list_rep (h, l) [] \<longleftrightarrow> l_first l = 0 \<and> l_last l = 0"
  by (simp add: list_rep_def)

lemma list_rep_IsEmpty: "list_rep (h, l) xs \<Longrightarrow> List_IsEmpty l \<longleftrightarrow> xs = []"
  by (auto simp: list_rep_def List_IsEmpty_def)

lemma list_rep_single:
  "h a = Some \<lparr>el_next = 0, el_key = k, el_item = it\<rparr> \<Longrightarrow> a \<noteq> 0 \<Longrightarrow>
    list_rep (h, l\<lparr>l_first := a, l_last := a\<rparr>) [(k, a, it)]"
  by (simp add: list_rep_def)

lemma list_rep_fresh: "list_rep (h, l) xs \<Longrightarrow> h a = None \<Longrightarrow> a \<notin> cells xs"
  by (auto simp: list_rep_def dest: path_cells)

text \<open>Putting a cell behind the last one, shared by \<open>Append\<close> and \<open>SortedInsert\<close>.\<close>

lemma link_last:
  assumes rep: "list_rep (h, l) xs" and ne: "xs \<noteq> []" and fresh: "a \<notin> cells xs" "a \<noteq> 0"
    and cell: "h a = Some \<lparr>el_next = 0, el_key = k, el_item = it\<rparr>"
  shows "\<exists>e. deref h (l_last l) = Inr e \<and>
    list_rep (h(l_last l \<mapsto> e\<lparr>el_next := a\<rparr>), l\<lparr>l_last := a\<rparr>) (xs @ [(k, a, it)])"
proof -
  obtain ys kb b ib where xs: "xs = ys @ [(kb, b, ib)]"
    using ne by (metis append_butlast_last_id prod_cases3)
  from rep xs have p: "path h (l_first l) (ys @ [(kb, b, ib)])"
    and d: "distinct (addrs (ys @ [(kb, b, ib)]))" and last: "l_last l = b"
    by (auto simp: list_rep_def)
  have b: "h b = Some \<lparr>el_next = 0, el_key = kb, el_item = ib\<rparr> \<and> b \<noteq> 0"
    by (rule path_last [OF p]) simp_all
  have "path (h(b \<mapsto> \<lparr>el_next = a, el_key = kb, el_item = ib\<rparr>)) (l_first l)
      (ys @ [(kb, b, ib), (k, a, it)])"
    by (rule path_snoc [OF p d _ fresh(2) cell]) (use fresh(1) xs in simp)
  with b d last fresh xs show ?thesis
    by (auto simp: deref_def list_rep_def)
qed

lemma List_Append_rep:
  assumes rep: "list_rep (h, l) xs" and fresh: "h a = None" "a \<noteq> 0"
  shows "\<exists>h' l'. List_Append a it (h, l) = Inr (h', l') \<and> list_rep (h', l') (xs @ [(0, a, it)]) \<and>
    (\<forall>b. b \<notin> insert a (cells xs) \<longrightarrow> h' b = h b)"
proof -
  let ?h = "h(a \<mapsto> ListElement_new it 0)"
  have na: "a \<notin> cells xs" using list_rep_fresh [OF rep fresh(1)] .
  show ?thesis
  proof (cases "xs = []")
    case True
    with rep fresh list_rep_single [of ?h a 0 it l] show ?thesis
      by (auto simp: List_Append_def list_rep_IsEmpty ListElement_new_def)
  next
    case False
    have rep': "list_rep (?h, l) xs" using rep na by (simp add: list_rep_def)
    obtain e where e: "deref ?h (l_last l) = Inr e"
      "list_rep (?h(l_last l \<mapsto> e\<lparr>el_next := a\<rparr>), l\<lparr>l_last := a\<rparr>) (xs @ [(0, a, it)])"
      using link_last [OF rep' False na fresh(2), of 0 it] by (auto simp: ListElement_new_def)
    have "l_last l \<in> cells xs"
      using rep False by (cases xs rule: rev_cases) (auto simp: list_rep_def)
    with e rep False show ?thesis
      by (auto simp: List_Append_def list_rep_IsEmpty Let_def)
  qed
qed

lemma List_Prepend_rep:
  assumes rep: "list_rep (h, l) xs" and fresh: "h a = None" "a \<noteq> 0"
  shows "\<exists>h' l'. List_Prepend a it (h, l) = Inr (h', l') \<and> list_rep (h', l') ((0, a, it) # xs) \<and>
    (\<forall>b. b \<notin> insert a (cells xs) \<longrightarrow> h' b = h b)"
proof -
  have na: "a \<notin> cells xs" using list_rep_fresh [OF rep fresh(1)] .
  show ?thesis
    using rep fresh na list_rep_IsEmpty [OF rep]
    by (auto simp: List_Prepend_def list_rep_def ListElement_new_def deref_def Let_def)
qed

lemma deref_Some: "h p = Some e \<Longrightarrow> p \<noteq> 0 \<Longrightarrow> deref h p = Inr e"
  by (simp add: deref_def)

lemma cells_sorted_insert [simp]: "cells (sorted_insert k (a, it) xs) = insert a (cells xs)"
  by (induction xs rule: addrs.induct) (auto simp: sorted_insert_Cons)

lemma distinct_sorted_insert:
  "distinct (addrs xs) \<Longrightarrow> a \<notin> cells xs \<Longrightarrow> distinct (addrs (sorted_insert k (a, it) xs))"
  by (induction xs rule: addrs.induct) (auto simp: sorted_insert_Cons)

lemma last_sorted_insert:
  "dropWhile (\<lambda>e. fst e \<le> k) xs \<noteq> [] \<Longrightarrow> last (sorted_insert k x xs) = last xs"
  by (induction xs) (auto simp: sorted_insert_Cons)

lemma sorted_insert_at_end:
  "dropWhile (\<lambda>e. fst e \<le> k) xs = [] \<Longrightarrow> sorted_insert k x xs = xs @ [(k, x)]"
  by (induction xs) (auto simp: sorted_insert_Cons split: if_splits)

lemma list_rep_last_cell: "list_rep (h, l) xs \<Longrightarrow> xs \<noteq> [] \<Longrightarrow> l_last l \<in> cells xs"
  by (cases xs rule: rev_cases) (auto simp: list_rep_def)

text \<open>\<open>SortedInsert\<close> into a nonempty list, after the new cell has been written to the store.\<close>

lemma SortedInsert_nonempty:
  assumes rep: "list_rep (H, l) ((kf, f, itf) # xs)" and na: "a \<notin> cells ((kf, f, itf) # xs)"
    and a0: "a \<noteq> 0" and ha: "H a = Some \<lparr>el_next = 0, el_key = k, el_item = it\<rparr>"
    and not_front: "\<not> k < kf"
  shows "\<exists>h' b. insert_walk a k H f = Some (Inr (h', b)) \<and>
    (if b then list_rep (h', l) (sorted_insert k (a, it) ((kf, f, itf) # xs))
     else \<exists>e. deref h' (l_last l) = Inr e \<and>
       list_rep (h'(l_last l \<mapsto> e\<lparr>el_next := a\<rparr>), l\<lparr>l_last := a\<rparr>)
         (sorted_insert k (a, it) ((kf, f, itf) # xs))) \<and>
    (\<forall>c. c \<notin> insert a (cells ((kf, f, itf) # xs)) \<longrightarrow> h' c = H c)"
proof -
  let ?xs = "(kf, f, itf) # xs"
  from rep have first: "l_first l = f" and p: "path H f ?xs" and d: "distinct (addrs ?xs)"
    and lst: "l_last l = fst (snd (last ?xs))"
    by (auto simp: list_rep_def)
  obtain h' where h': "insert_walk a k H f =
      Some (Inr (h', dropWhile (\<lambda>e. fst e \<le> k) xs \<noteq> []))"
    "if dropWhile (\<lambda>e. fst e \<le> k) xs = [] then h' = H
     else path h' f ((kf, f, itf) # sorted_insert k (a, it) xs)"
    "\<forall>b. b \<notin> insert a (cells ?xs) \<longrightarrow> h' b = H b"
    using insert_walk_spec [OF p d na ha a0] by blast
  show ?thesis
  proof (cases "dropWhile (\<lambda>e. fst e \<le> k) xs = []")
    case True
    then have "sorted_insert k (a, it) ?xs = ?xs @ [(k, a, it)]"
      using not_front by (intro sorted_insert_at_end) simp
    with link_last [OF rep _ na a0 ha] True h' show ?thesis by auto
  next
    case False
    then have "last (sorted_insert k (a, it) ?xs) = last ?xs"
      using not_front by (intro last_sorted_insert) simp
    moreover have "distinct (addrs (sorted_insert k (a, it) ?xs))"
      by (rule distinct_sorted_insert [OF d na])
    moreover have "path h' f (sorted_insert k (a, it) ?xs)"
      using h'(2) not_front by (simp only: False if_False sorted_insert_Cons) simp
    ultimately have "list_rep (h', l) (sorted_insert k (a, it) ?xs)"
      using first lst by (simp only: list_rep_def fst_conv snd_conv) simp
    with False h'(1,3) show ?thesis by auto
  qed
qed

lemma List_SortedInsert_rep:
  assumes rep: "list_rep (h, l) xs" and fresh: "h a = None" "a \<noteq> 0"
  shows "\<exists>h' l'. List_SortedInsert a it k (h, l) = Some (Inr (h', l')) \<and>
    list_rep (h', l') (sorted_insert k (a, it) xs) \<and>
    (\<forall>b. b \<notin> insert a (cells xs) \<longrightarrow> h' b = h b)"
proof (cases xs)
  case Nil
  with rep fresh list_rep_single [of "h(a \<mapsto> ListElement_new it k)" a k it l] show ?thesis
    by (auto simp: List_SortedInsert_def list_rep_IsEmpty ListElement_new_def)
next
  case (Cons x xs')
  obtain kf f itf where x: "x = (kf, f, itf)" by (cases x)
  define H where "H = h(a \<mapsto> ListElement_new it k)"
  have na: "a \<notin> cells xs" using list_rep_fresh [OF rep fresh(1)] .
  have rep': "list_rep (H, l) ((kf, f, itf) # xs')"
    using rep na Cons x by (auto simp: list_rep_def H_def)
  have ha: "H a = Some \<lparr>el_next = 0, el_key = k, el_item = it\<rparr>"
    by (simp add: ListElement_new_def H_def)
  have other: "b \<noteq> a \<Longrightarrow> H b = h b" for b by (simp add: H_def)
  from rep' obtain q where first: "l_first l = f" "f \<noteq> 0"
    and f: "H f = Some \<lparr>el_next = q, el_key = kf, el_item = itf\<rparr>"
    by (auto simp: list_rep_def)
  have ne: "\<not> List_IsEmpty l" using rep Cons by (simp add: list_rep_IsEmpty)
  have unf: "List_SortedInsert a it k (h, l) =
    (if k < kf then Some (Inr (H(a \<mapsto> \<lparr>el_next = f, el_key = k, el_item = it\<rparr>), l\<lparr>l_first := a\<rparr>))
     else (case insert_walk a k H f of
             None \<Rightarrow> None
           | Some (Inl e) \<Rightarrow> Some (Inl e)
           | Some (Inr (h', True)) \<Rightarrow> Some (Inr (h', l))
           | Some (Inr (h', False)) \<Rightarrow>
               Some (rbind (deref h' (l_last l)) (\<lambda>e.
                 Inr (h'(l_last l \<mapsto> e\<lparr>el_next := a\<rparr>), l\<lparr>l_last := a\<rparr>)))))"
    using ne first deref_Some [of H, OF f first(2)] deref_Some [of H, OF ha fresh(2)]
    by (simp add: List_SortedInsert_def flip: H_def)
  show ?thesis
  proof (cases "k < kf")
    case True
    have "list_rep (H(a \<mapsto> \<lparr>el_next = f, el_key = k, el_item = it\<rparr>), l\<lparr>l_first := a\<rparr>)
        (sorted_insert k (a, it) xs)"
      using True rep' na x Cons fresh by (auto simp: sorted_insert_Cons list_rep_def)
    with True unf other show ?thesis by auto
  next
    case False
    obtain h' b where "insert_walk a k H f = Some (Inr (h', b))"
      "if b then list_rep (h', l) (sorted_insert k (a, it) xs)
       else \<exists>e. deref h' (l_last l) = Inr e \<and>
         list_rep (h'(l_last l \<mapsto> e\<lparr>el_next := a\<rparr>), l\<lparr>l_last := a\<rparr>) (sorted_insert k (a, it) xs)"
      "\<forall>c. c \<notin> insert a (cells xs) \<longrightarrow> h' c = H c"
      using SortedInsert_nonempty [OF rep' _ fresh(2) ha False] na Cons x by auto
    with unf False other list_rep_last_cell [OF rep] Cons show ?thesis
      by (cases b) auto
  qed
qed

lemma List_SortedRemove_empty:
  "list_rep (h, l) [] \<Longrightarrow> List_SortedRemove (h, l) = Inr (0, None, h, l)"
  by (simp add: List_SortedRemove_def list_rep_IsEmpty)

lemma List_SortedRemove_rep:
  assumes rep: "list_rep (h, l) ((k, a, it) # xs)"
  shows "\<exists>l'. List_SortedRemove (h, l) = Inr (it, Some k, h(a := None), l') \<and>
    list_rep (h(a := None), l') xs"
proof -
  from rep obtain q where first: "l_first l = a" "a \<noteq> 0"
    and ha: "h a = Some \<lparr>el_next = q, el_key = k, el_item = it\<rparr>" and p: "path h q xs"
    and d: "a \<notin> cells xs" "distinct (addrs xs)"
    by (auto simp: list_rep_def)
  have "l_first l = l_last l \<longleftrightarrow> xs = []"
    using rep first d by (cases xs rule: rev_cases) (auto simp: list_rep_def)
  with rep first ha p d show ?thesis
    by (auto simp: List_SortedRemove_def List_IsEmpty_def deref_def list_rep_def)
qed

text \<open>\<open>Mapcar\<close> visits every item once, in list order.\<close>

lemma mapcar_walk_path:
  "path h p xs \<Longrightarrow>
    mapcar_walk func h p s = Some (Inr (fold (\<lambda>e. func (snd (snd e))) xs s))"
proof (induction xs arbitrary: p s rule: addrs.induct)
  case 1
  then show ?case by (subst mapcar_walk.simps) simp
next
  case (2 k a it xs)
  then show ?case by (subst mapcar_walk.simps) (auto simp: deref_def)
qed

lemma show_walk_path:
  "path h (el_next p) xs \<Longrightarrow> show_walk h p out = Some (Inr (out @ map fst xs))"
proof (induction xs arbitrary: p out rule: addrs.induct)
  case 1
  then show ?case by (subst show_walk.simps) simp
next
  case (2 k a it xs)
  then show ?case by (subst show_walk.simps) (auto simp: deref_def)
qed

text \<open>\<open>ShowList\<close> prints the keys of a well-formed list in list order.\<close>

lemma List_ShowList_rep:
  assumes "list_rep (h, l) xs"
  shows "List_ShowList (h, l) = Some (Inr (if xs = [] then None else Some (map fst xs)))"
proof (cases xs)
  case Nil
  with assms show ?thesis by (simp add: List_ShowList_def list_rep_IsEmpty)
next
  case (Cons x xs')
  obtain k a it where x: "x = (k, a, it)" by (cases x)
  from assms Cons x obtain q where first: "l_first l = a" "a \<noteq> 0"
    and ha: "h a = Some \<lparr>el_next = q, el_key = k, el_item = it\<rparr>" and p: "path h q xs'"
    and d: "a \<notin> cells xs'"
    by (auto simp: list_rep_def)
  have "l_first l = l_last l \<longleftrightarrow> xs' = []"
    using assms first d x Cons by (cases xs' rule: rev_cases) (auto simp: list_rep_def)
  moreover have "show_walk h \<lparr>el_next = q, el_key = k, el_item = it\<rparr> [k] = Some (Inr (k # map fst xs'))"
    using show_walk_path [of h "\<lparr>el_next = q, el_key = k, el_item = it\<rparr>" xs'] p by simp
  moreover have "\<not> List_IsEmpty l" using assms Cons by (simp add: list_rep_IsEmpty)
  ultimately show ?thesis
    using Cons x first ha by (simp add: List_ShowList_def deref_def)
qed

text \<open>\<open>~List\<close> ends, and frees every cell when no item is \<open>NULL\<close>.\<close>

lemma List_delete_rep:
  assumes "list_rep (h, l) xs" and "\<forall>e \<in> set xs. snd (snd e) \<noteq> 0"
  shows "\<exists>h' l'. List_delete (h, l) = Some (Inr (h', l')) \<and> list_rep (h', l') [] \<and>
    (\<forall>b. h' b = (if b \<in> cells xs then None else h b))"
  using assms
proof (induction xs arbitrary: h l rule: addrs.induct)
  case 1
  then show ?case
    by (subst List_delete.simps) (simp add: List_Remove_def List_SortedRemove_empty)
next
  case (2 k a it xs)
  define h1 where "h1 = h(a := None)"
  then have h1: "h1 b = (if b = a then None else h b)" for b by simp
  obtain l1 where l1: "List_SortedRemove (h, l) = Inr (it, Some k, h1, l1)"
    "list_rep (h1, l1) xs"
    unfolding h1_def using List_SortedRemove_rep [OF "2.prems"(1)] by blast
  obtain h' l' where "List_delete (h1, l1) = Some (Inr (h', l'))"
    "list_rep (h', l') []" "\<forall>b. h' b = (if b \<in> cells xs then None else h1 b)"
    using "2.IH" [OF l1(2)] "2.prems"(2) by auto
  with l1 "2.prems"(2) h1 show ?case
    by (subst List_delete.simps) (auto simp: List_Remove_def)
qed

subsection \<open>The interface of a keyed queue\<close>

text \<open>
  What the kernel relies on when it keeps its ready threads and its pending interrupts in a
  \<open>List\<close>: a representation of (key, item) pairs, and the effect of the three operations on it.
  \<open>fresh c q\<close> says that the cell \<open>c\<close> is not in use.
\<close>

primrec append_run :: "('c \<Rightarrow> 'i \<Rightarrow> 'q \<Rightarrow> 'q result) \<Rightarrow> ('c \<times> 'i) list \<Rightarrow> 'q \<Rightarrow> 'q result" where
  "append_run app [] q = Inr q"
| "append_run app (e # es) q = rbind (app (fst e) (snd e) q) (append_run app es)"

primrec insert_run ::
  "('c \<Rightarrow> 'i \<Rightarrow> int \<Rightarrow> 'q \<Rightarrow> 'q result option) \<Rightarrow> ('c \<times> int \<times> 'i) list \<Rightarrow> 'q \<Rightarrow> 'q result option"
where
  "insert_run ins [] q = Some (Inr q)"
| "insert_run ins (e # es) q =
     (case ins (fst e) (snd (snd e)) (fst (snd e)) q of
        None \<Rightarrow> None
      | Some (Inl err) \<Rightarrow> Some (Inl err)
      | Some (Inr q') \<Rightarrow> insert_run ins es q')"

primrec drain_run ::
  "('q \<Rightarrow> ('i \<times> int option \<times> 'q) result) \<Rightarrow> nat \<Rightarrow> 'q \<Rightarrow> ((int option \<times> 'i) list \<times> 'q) result"
where
  "drain_run rem 0 q = Inr ([], q)"
| "drain_run rem (Suc n) q =
     rbind (rem q) (\<lambda>(i, k, q'). rbind (drain_run rem n q') (\<lambda>(out, q''). Inr ((k, i) # out, q'')))"

locale keyed_queue =
  fixes rep :: "'q \<Rightarrow> (int \<times> 'i) list \<Rightarrow> bool"
    and fresh :: "'c \<Rightarrow> 'q \<Rightarrow> bool"
    and append_op :: "'c \<Rightarrow> 'i \<Rightarrow> 'q \<Rightarrow> 'q result"
    and insert_op :: "'c \<Rightarrow> 'i \<Rightarrow> int \<Rightarrow> 'q \<Rightarrow> 'q result option"
    and remove_op :: "'q \<Rightarrow> ('i \<times> int option \<times> 'q) result"
  assumes append_law: "rep q xs \<Longrightarrow> fresh c q \<Longrightarrow>
      \<exists>q'. append_op c i q = Inr q' \<and> rep q' (xs @ [(0, i)]) \<and>
        (\<forall>d. fresh d q \<longrightarrow> d \<noteq> c \<longrightarrow> fresh d q')"
    and insert_law: "rep q xs \<Longrightarrow> fresh c q \<Longrightarrow>
      \<exists>q'. insert_op c i k q = Some (Inr q') \<and> rep q' (sorted_insert k i xs) \<and>
        (\<forall>d. fresh d q \<longrightarrow> d \<noteq> c \<longrightarrow> fresh d q')"
    and remove_law: "rep q ((k, i) # xs) \<Longrightarrow>
      \<exists>q'. remove_op q = Inr (i, Some k, q') \<and> rep q' xs"
begin

lemma drain_rep:
  "rep q xs \<Longrightarrow> \<exists>q'. drain_run remove_op (length xs) q =
     Inr (map (\<lambda>e. (Some (fst e), snd e)) xs, q') \<and> rep q' []"
proof (induction xs arbitrary: q)
  case Nil
  then show ?case by auto
next
  case (Cons e xs)
  obtain k i where e: "e = (k, i)" by (cases e)
  obtain q1 where q1: "remove_op q = Inr (i, Some k, q1)" "rep q1 xs"
    using remove_law Cons.prems e by blast
  with Cons.IH [OF q1(2)] e show ?case by auto
qed

lemma append_run_rep:
  "rep q xs \<Longrightarrow> \<forall>e \<in> set es. fresh (fst e) q \<Longrightarrow> distinct (map fst es) \<Longrightarrow>
   \<exists>q'. append_run append_op es q = Inr q' \<and> rep q' (xs @ map (\<lambda>e. (0, snd e)) es)"
proof (induction es arbitrary: q xs)
  case Nil
  then show ?case by auto
next
  case (Cons e es)
  obtain q1 where q1: "append_op (fst e) (snd e) q = Inr q1" "rep q1 (xs @ [(0, snd e)])"
    "\<forall>d. fresh d q \<longrightarrow> d \<noteq> fst e \<longrightarrow> fresh d q1"
    using append_law [OF Cons.prems(1), of "fst e" "snd e"] Cons.prems(2) by auto
  have "\<forall>e' \<in> set es. fst e' \<noteq> fst e" using Cons.prems(3) by (auto simp: rev_image_eqI)
  then have "\<forall>e' \<in> set es. fresh (fst e') q1"
    using q1(3) Cons.prems(2) by simp
  from Cons.IH [OF q1(2) this] Cons.prems(3) q1(1) show ?case by auto
qed

lemma insert_run_rep:
  "rep q xs \<Longrightarrow> \<forall>e \<in> set es. fresh (fst e) q \<Longrightarrow> distinct (map fst es) \<Longrightarrow>
   \<exists>q'. insert_run insert_op es q = Some (Inr q') \<and> rep q' (insert_all (map snd es) xs)"
proof (induction es arbitrary: q xs)
  case Nil
  then show ?case by (auto simp: insert_all_def)
next
  case (Cons e es)
  obtain q1 where q1: "insert_op (fst e) (snd (snd e)) (fst (snd e)) q = Some (Inr q1)"
    "rep q1 (sorted_insert (fst (snd e)) (snd (snd e)) xs)"
    "\<forall>d. fresh d q \<longrightarrow> d \<noteq> fst e \<longrightarrow> fresh d q1"
    using insert_law [OF Cons.prems(1), of "fst e" "snd (snd e)" "fst (snd e)"] Cons.prems(2) by auto
  have "\<forall>e' \<in> set es. fst e' \<noteq> fst e" using Cons.prems(3) by (auto simp: rev_image_eqI)
  then have "\<forall>e' \<in> set es. fresh (fst e') q1"
    using q1(3) Cons.prems(2) by simp
  from Cons.IH [OF q1(2) this] Cons.prems(3) q1(1) show ?case by (auto simp: insert_all_def)
qed

text \<open>A queue filled by \<open>Append\<close> is emptied in the same order.\<close>

lemma fifo:
  assumes "rep q []" and "\<forall>e \<in> set es. fresh (fst e) q" and "distinct (map fst es)"
  shows "\<exists>q1 q2. append_run append_op es q = Inr q1 \<and>
    drain_run remove_op (length es) q1 = Inr (map (\<lambda>e. (Some 0, snd e)) es, q2) \<and> rep q2 []"
proof -
  obtain q1 where q1: "append_run append_op es q = Inr q1" "rep q1 (map (\<lambda>e. (0, snd e)) es)"
    using append_run_rep [OF assms] by auto
  with drain_rep [OF q1(2)] show ?thesis by (auto simp: comp_def)
qed

text \<open>A queue filled by \<open>SortedInsert\<close> is emptied in key order, equal keys first in first out.\<close>

lemma priority:
  assumes "rep q []" and "\<forall>e \<in> set es. fresh (fst e) q" and "distinct (map fst es)"
  shows "\<exists>q1 q2. insert_run insert_op es q = Some (Inr q1) \<and>
    drain_run remove_op (length es) q1 =
      Inr (map (\<lambda>e. (Some (fst e), snd e)) (sort_key fst (map snd es)), q2) \<and> rep q2 []"
proof -
  obtain q1 where q1: "insert_run insert_op es q = Some (Inr q1)"
    "rep q1 (sort_key fst (map snd es))"
    using insert_run_rep [OF assms] by (auto simp: insert_all_sort_key)
  with drain_rep [OF q1(2)] show ?thesis by auto
qed

end

definition contents_rep :: "store \<times> NList \<Rightarrow> (int \<times> addr) list \<Rightarrow> bool" where
  "contents_rep s xs \<longleftrightarrow> (\<exists>ys. list_rep s ys \<and> xs = map (\<lambda>(k, a, it). (k, it)) ys)"

definition fresh_cell :: "addr \<Rightarrow> store \<times> NList \<Rightarrow> bool" where
  "fresh_cell a s \<longleftrightarrow> a \<noteq> 0 \<and> fst s a = None"

lemma contents_sorted_insert:
  "map (\<lambda>(k, a, it). (k, it)) (sorted_insert k (a, it) ys) =
   sorted_insert k it (map (\<lambda>(k, a, it). (k, it)) ys)"
  by (induction ys) (auto simp: sorted_insert_Cons split: prod.splits)

lemma fresh_not_cell: "list_rep s ys \<Longrightarrow> fresh_cell a s \<Longrightarrow> a \<notin> cells ys"
  by (cases s) (auto simp: fresh_cell_def dest: list_rep_fresh)

interpretation nachos_list:
  keyed_queue contents_rep fresh_cell List_Append List_SortedInsert List_SortedRemove
proof
  fix s :: "store \<times> NList" and xs :: "(int \<times> addr) list" and c i k
  obtain h l where s: "s = (h, l)" by (cases s)
  {
    assume rep: "contents_rep s xs" and fresh: "fresh_cell c s"
    then obtain ys where ys: "list_rep (h, l) ys" "xs = map (\<lambda>(k, a, it). (k, it)) ys"
      by (auto simp: contents_rep_def s)
    have c: "h c = None" "c \<noteq> 0" using fresh by (auto simp: fresh_cell_def s)
    have other: "fresh_cell d s \<Longrightarrow> d \<notin> cells ys" for d
      using fresh_not_cell ys(1) s by blast
    show "\<exists>s'. List_Append c i s = Inr s' \<and> contents_rep s' (xs @ [(0, i)]) \<and>
        (\<forall>d. fresh_cell d s \<longrightarrow> d \<noteq> c \<longrightarrow> fresh_cell d s')"
      using List_Append_rep [OF ys(1) c, of i] other
      by (force simp: contents_rep_def fresh_cell_def s ys(2))
    obtain h' l' where ins: "List_SortedInsert c i k (h, l) = Some (Inr (h', l'))"
      "list_rep (h', l') (sorted_insert k (c, i) ys)"
      "\<forall>b. b \<notin> insert c (cells ys) \<longrightarrow> h' b = h b"
      using List_SortedInsert_rep [OF ys(1) c, of i k] by blast
    then have "contents_rep (h', l') (sorted_insert k i xs)"
      unfolding contents_rep_def ys(2) by (metis contents_sorted_insert)
    with ins other show "\<exists>s'. List_SortedInsert c i k s = Some (Inr s') \<and>
        contents_rep s' (sorted_insert k i xs) \<and>
        (\<forall>d. fresh_cell d s \<longrightarrow> d \<noteq> c \<longrightarrow> fresh_cell d s')"
      by (auto simp: fresh_cell_def s)
  }
  {
    assume "contents_rep s ((k, i) # xs)"
    then obtain a ys where "list_rep (h, l) ((k, a, i) # ys)" "xs = map (\<lambda>(k, a, it). (k, it)) ys"
      by (auto simp: contents_rep_def s Cons_eq_map_conv)
    with List_SortedRemove_rep [of h l k a i ys]
    show "\<exists>s'. List_SortedRemove s = Inr (i, Some k, s') \<and> contents_rep s' xs"
      by (auto simp: contents_rep_def s)
  }
qed

subsection \<open>Properties\<close>

text \<open>
  Filling an empty list with \<open>SortedInsert\<close> and then emptying it with \<open>SortedRemove\<close>
  returns the items in the order of a stable sort by key: ascending keys, and among equal keys
  the one inserted first comes out first. Neither operation fails or loops.
\<close>

theorem List_priority_order:
  assumes "contents_rep s []" and "\<forall>e \<in> set es. fresh_cell (fst e) s" and "distinct (map fst es)"
  shows "\<exists>s1 s2. insert_run List_SortedInsert es s = Some (Inr s1) \<and>
    drain_run List_SortedRemove (length es) s1 =
      Inr (map (\<lambda>e. (Some (fst e), snd e)) (sort_key fst (map snd es)), s2) \<and>
    contents_rep s2 []"
  using assms by (rule nachos_list.priority)

lemma empty_list_rep: "contents_rep (Map.empty, List_new) []"
  by (auto simp: contents_rep_def list_rep_def List_new_def)

theorem List_priority_order_witness:
  "\<exists>s1 s2. insert_run List_SortedInsert [(1, 5, 10), (2, 3, 11), (3, 5, 12)] (Map.empty, List_new) =
      Some (Inr s1) \<and>
    drain_run List_SortedRemove 3 s1 = Inr ([(Some 3, 11), (Some 5, 10), (Some 5, 12)], s2) \<and>
    contents_rep s2 []"
  using List_priority_order [OF empty_list_rep, of "[(1, 5, 10), (2, 3, 11), (3, 5, 12)]"]
  by (simp add: fresh_cell_def numeral_3_eq_3)

text \<open>
  \<open>SortedInsert\<close> of a fresh element into a well-formed list whose keys are sorted ends
  without touching a null or dangling pointer, leaves a well-formed list whose keys are sorted
  again, with the new element behind every element whose key is not larger and in front of all
  others, and writes to no cell outside the list and the new element.
\<close>

theorem List_SortedInsert_keeps_sorted:
  assumes "list_rep (h, l) xs" and "sorted (map fst xs)" and "h a = None" and "a \<noteq> 0"
  shows "\<exists>h' l'. List_SortedInsert a it k (h, l) = Some (Inr (h', l')) \<and>
    list_rep (h', l') (filter (\<lambda>e. fst e \<le> k) xs @ (k, a, it) # filter (\<lambda>e. k < fst e) xs) \<and>
    (\<forall>b. b \<notin> insert a (cells xs) \<longrightarrow> h' b = h b)"
  using List_SortedInsert_rep [OF assms(1,3,4), of it k] sorted_insert_filter [OF assms(2)] by simp

theorem List_SortedInsert_keeps_sorted_witness:
  "\<exists>h' l'. List_SortedInsert 2 20 5 ([1 \<mapsto> ListElement_new 10 5], \<lparr>l_first = 1, l_last = 1\<rparr>) =
      Some (Inr (h', l')) \<and>
    list_rep (h', l') [(5, 1, 10), (5, 2, 20)] \<and> (\<forall>b. b \<notin> {2, 1} \<longrightarrow> h' b = None)"
  using List_SortedInsert_keeps_sorted [of "[1 \<mapsto> ListElement_new 10 5]"
      "\<lparr>l_first = 1, l_last = 1\<rparr>" "[(5, 1, 10)]" 2 20 5]
  by (simp add: list_rep_def ListElement_new_def)

text \<open>
  Items put into an empty list with \<open>Append\<close> come out of \<open>Remove\<close> in the same order
  (this is the queue of the ready threads and of the waiters of a semaphore), and the destructor
  of a well-formed list without \<open>NULL\<close> items ends, frees every cell of the list and no other.
\<close>

theorem List_fifo_and_delete:
  assumes "contents_rep s []" and "\<forall>e \<in> set es. fresh_cell (fst e) s" and "distinct (map fst es)"
    and "list_rep (h, l) xs" and "\<forall>e \<in> set xs. snd (snd e) \<noteq> 0"
  shows "(\<exists>s1 s2. append_run List_Append es s = Inr s1 \<and>
      drain_run List_SortedRemove (length es) s1 = Inr (map (\<lambda>e. (Some 0, snd e)) es, s2) \<and>
      contents_rep s2 []) \<and>
    (\<exists>h' l'. List_delete (h, l) = Some (Inr (h', l')) \<and> list_rep (h', l') [] \<and>
      (\<forall>b. h' b = (if b \<in> cells xs then None else h b)))"
  using nachos_list.fifo [OF assms(1-3)] List_delete_rep [OF assms(4,5)] by blast

theorem List_fifo_and_delete_witness:
  "(\<exists>s1 s2. append_run List_Append [(7, 4), (8, 6)] (Map.empty, List_new) = Inr s1 \<and>
      drain_run List_SortedRemove 2 s1 = Inr ([(Some 0, 4), (Some 0, 6)], s2) \<and>
      contents_rep s2 []) \<and>
    (\<exists>h' l'. List_delete ([1 \<mapsto> ListElement_new 10 5], \<lparr>l_first = 1, l_last = 1\<rparr>) =
        Some (Inr (h', l')) \<and> list_rep (h', l') [] \<and> h' 1 = None)"
proof -
  have "list_rep ([1 \<mapsto> ListElement_new 10 5], \<lparr>l_first = 1, l_last = 1\<rparr>) [(5, 1, 10)]"
    by (simp add: list_rep_def ListElement_new_def)
  from List_fifo_and_delete [OF empty_list_rep _ _ this, of "[(7, 4), (8, 6)]"]
  show ?thesis by (simp add: fresh_cell_def numeral_2_eq_2) metis
qed

end
