(* ===== verification/Interrupts.thy ===== *)
theory Interrupts
  imports Linked_List
begin

section \<open>Simulated time and interrupts, machine/interrupt.cc, stats.cc, timer.cc\<close>

text \<open>
  The kernel's global state is one record: the statistics (with the simulated clock), the
  interrupt simulation, the scheduler's ready list and the thread control blocks; devices and
  synchronisation objects extend it. The list of pending interrupts is the abstract list of the
  theory \<open>Linked_List\<close>, ordered by time. An interrupt handler, \<open>(*handler)(arg)\<close>, is a value of
  a type \<open>'h\<close>; what calling it does is a field of the record \<open>cpu\<close>, with the assembly routine
  \<open>SWITCH\<close> and the hooks for user programs. The locale \<open>device_handlers\<close> states what the
  interrupt simulation relies on.
\<close>

subsection \<open>The data\<close>

record Statistics =
  totalTicks :: int
  idleTicks :: int
  systemTicks :: int
  userTicks :: int
  numDiskReads :: int
  numDiskWrites :: int
  numConsoleCharsRead :: int
  numConsoleCharsWritten :: int
  numPageFaults :: int
  numPacketsSent :: int
  numPacketsRecvd :: int

definition Statistics_new :: Statistics where
  "Statistics_new = \<lparr>totalTicks = 0, idleTicks = 0, systemTicks = 0, userTicks = 0,
     numDiskReads = 0, numDiskWrites = 0, numConsoleCharsRead = 0, numConsoleCharsWritten = 0,
     numPageFaults = 0, numPacketsSent = 0, numPacketsRecvd = 0\<rparr>"

definition UserTick :: int where "UserTick = 1"
definition SystemTick :: int where "SystemTick = 10"
definition RotationTime :: int where "RotationTime = 500"
definition SeekTime :: int where "SeekTime = 500"
definition ConsoleTime :: int where "ConsoleTime = 100"
definition NetworkTime :: int where "NetworkTime = 100"
definition TimerTicks :: int where "TimerTicks = 100"

datatype IntStatus = IntOff | IntOn

datatype MachineStatus = IdleMode | SystemMode | UserMode

datatype IntType = TimerInt | DiskInt | ConsoleWriteInt | ConsoleReadInt | NetworkSendInt | NetworkRecvInt

record 'h PendingInterrupt =
  handler :: 'h
  arg :: int
  whenDue :: int
  itype :: IntType

datatype ThreadStatus = JUST_CREATED | RUNNING | READY | BLOCKED

type_synonym tid = nat

text \<open>
  A thread control block: \<open>stack\<close> is the word at the bottom of the execution stack (the
  fencepost), \<^const>\<open>None\<close> for a thread without a stack of its own; \<open>initial\<close> is the procedure
  and argument that \<open>StackAllocate\<close> puts into the saved registers.
\<close>

record 'h Thread =
  tname :: string
  stack :: "32 word option"
  tstatus :: ThreadStatus
  initial :: "('h \<times> int) option"
  space :: "nat option"

record 'h kernel =
  stats :: Statistics
  level :: IntStatus
  pending :: "(int \<times> 'h PendingInterrupt) list"
  inHandler :: bool
  yieldOnReturn :: bool
  status :: MachineStatus
  readyList :: "tid list"
  threads :: "tid \<Rightarrow> 'h Thread option"
  currentThread :: tid
  threadToBeDestroyed :: "tid option"

abbreviation now :: "('h, 'm) kernel_scheme \<Rightarrow> int" where
  "now k \<equiv> totalTicks (stats k)"

text \<open>
  What surrounds the kernel: calling a handler, \<open>machine->DelayedLoad(0, 0)\<close> (the identity
  without a user-level machine), \<open>SWITCH\<close> from one thread to another, which returns when the
  first is switched to again, and saving and restoring the user-level state of a thread.
\<close>

record ('h, 's) cpu =
  invoke :: "'h \<Rightarrow> int \<Rightarrow> 's \<Rightarrow> 's result"
  flush_load :: "'s \<Rightarrow> 's"
  SWITCH :: "tid \<Rightarrow> tid \<Rightarrow> 's \<Rightarrow> 's result option"
  save_user :: "tid \<Rightarrow> 's \<Rightarrow> 's"
  restore_user :: "tid \<Rightarrow> 's \<Rightarrow> 's"

text \<open>\<open>Thread::Thread\<close>, and the kernel that \<open>Initialize\<close> sets up before it enables interrupts.\<close>

definition Thread_new :: "string \<Rightarrow> 'h Thread" where
  "Thread_new threadName =
     \<lparr>tname = threadName, stack = None, tstatus = JUST_CREATED, initial = None, space = None\<rparr>"

definition Initialize :: "'h kernel" where
  "Initialize =
     \<lparr>stats = Statistics_new, level = IntOff, pending = [], inHandler = False,
      yieldOnReturn = False, status = SystemMode, readyList = [],
      threads = [0 \<mapsto> (Thread_new ''main'')\<lparr>tstatus := RUNNING\<rparr>], currentThread = 0,
      threadToBeDestroyed = None\<rparr>"

subsection \<open>The operations that do not switch threads\<close>

definition ChangeLevel :: "IntStatus \<Rightarrow> IntStatus \<Rightarrow> ('h, 'm) kernel_scheme \<Rightarrow> ('h, 'm) kernel_scheme" where
  "ChangeLevel old new k = k\<lparr>level := new\<rparr>"

definition Interrupt_init :: "('h, 'm) kernel_scheme \<Rightarrow> ('h, 'm) kernel_scheme" where
  "Interrupt_init k = k\<lparr>level := IntOff, pending := [], inHandler := False,
     yieldOnReturn := False, status := SystemMode\<rparr>"

definition Schedule ::
  "'h \<Rightarrow> int \<Rightarrow> int \<Rightarrow> IntType \<Rightarrow> ('h, 'm) kernel_scheme \<Rightarrow> ('h, 'm) kernel_scheme result" where
  "Schedule h a fromNow kind k =
     (let w = now k + fromNow;
          toOccur = \<lparr>handler = h, arg = a, whenDue = w, itype = kind\<rparr>
      in rbind (ASSERT (fromNow > 0)) (\<lambda>_.
         Inr (k\<lparr>pending := sorted_insert w toOccur (pending k)\<rparr>)))"

definition YieldOnReturn :: "('h, 'm) kernel_scheme \<Rightarrow> ('h, 'm) kernel_scheme result" where
  "YieldOnReturn k = rbind (ASSERT (inHandler k)) (\<lambda>_. Inr (k\<lparr>yieldOnReturn := True\<rparr>))"

definition CheckIfDue ::
  "('h, ('h, 'm) kernel_scheme) cpu \<Rightarrow> bool \<Rightarrow> ('h, 'm) kernel_scheme \<Rightarrow>
    (bool \<times> ('h, 'm) kernel_scheme) result" where
  "CheckIfDue cpu advanceClock k =
     (let old = status k in
      rbind (ASSERT (level k = IntOff)) (\<lambda>_.
      case pending k of
        [] \<Rightarrow> Inr (False, k)
      | (w, toOccur) # rest \<Rightarrow>
          let k = k\<lparr>pending := rest\<rparr> in
          if \<not> (advanceClock \<and> w > now k) \<and> w > now k
          then Inr (False, k\<lparr>pending := sorted_insert w toOccur (pending k)\<rparr>)
          else
            let k = (if advanceClock \<and> w > now k
                     then k\<lparr>stats := (stats k)\<lparr>idleTicks := idleTicks (stats k) + (w - now k),
                                              totalTicks := w\<rparr>\<rparr>
                     else k) in
            if status k = IdleMode \<and> itype toOccur = TimerInt \<and> pending k = []
            then Inr (False, k\<lparr>pending := sorted_insert w toOccur (pending k)\<rparr>)
            else
              let k = (flush_load cpu k)\<lparr>inHandler := True, status := SystemMode\<rparr> in
              rbind (invoke cpu (handler toOccur) (arg toOccur) k) (\<lambda>k.
              Inr (True, k\<lparr>status := old, inHandler := False\<rparr>))))"

text \<open>\<open>while (CheckIfDue(FALSE));\<close> a handler may schedule new interrupts.\<close>

partial_function (option) fire_due ::
  "('h, ('h, 'm) kernel_scheme) cpu \<Rightarrow> ('h, 'm) kernel_scheme \<Rightarrow>
    ('h, 'm) kernel_scheme result option" where
  "fire_due cpu k =
     (case CheckIfDue cpu False k of
        Inl e \<Rightarrow> Some (Inl e)
      | Inr r \<Rightarrow> if fst r then fire_due cpu (snd r) else Some (Inr (snd r)))"

definition Halt :: "('h, 'm) kernel_scheme \<Rightarrow> 'a result" where
  "Halt k = Inl Halted"

definition Idle ::
  "('h, ('h, 'm) kernel_scheme) cpu \<Rightarrow> ('h, 'm) kernel_scheme \<Rightarrow>
    ('h, 'm) kernel_scheme result option" where
  "Idle cpu k =
     (case CheckIfDue cpu True (k\<lparr>status := IdleMode\<rparr>) of
        Inl e \<Rightarrow> Some (Inl e)
      | Inr (True, k) \<Rightarrow>
          (case fire_due cpu k of
             None \<Rightarrow> None
           | Some (Inl e) \<Rightarrow> Some (Inl e)
           | Some (Inr k) \<Rightarrow> Some (Inr (k\<lparr>yieldOnReturn := False, status := SystemMode\<rparr>)))
      | Inr (False, k) \<Rightarrow> Some (Halt k))"

text \<open>The clock part of \<open>OneTick\<close>.\<close>

definition advance_clock :: "('h, 'm) kernel_scheme \<Rightarrow> ('h, 'm) kernel_scheme" where
  "advance_clock k =
     (let s = stats k in
      if status k = SystemMode
      then k\<lparr>stats := s\<lparr>totalTicks := totalTicks s + SystemTick, systemTicks := systemTicks s + SystemTick\<rparr>\<rparr>
      else k\<lparr>stats := s\<lparr>totalTicks := totalTicks s + UserTick, userTicks := userTicks s + UserTick\<rparr>\<rparr>)"

subsection \<open>The timer, machine/timer.cc and TimerInterruptHandler\<close>

text \<open>\<open>random\<close> is what \<open>Random()\<close> returns, a non-negative number.\<close>

definition TimeOfNextInterrupt :: "bool \<Rightarrow> int \<Rightarrow> int" where
  "TimeOfNextInterrupt randomize random =
     (if randomize then 1 + random smod (TimerTicks * 2) else TimerTicks)"

definition TimerExpired ::
  "'h \<Rightarrow> int \<Rightarrow> bool \<Rightarrow> int \<Rightarrow> (('h, 'm) kernel_scheme \<Rightarrow> ('h, 'm) kernel_scheme result) \<Rightarrow>
    ('h, 'm) kernel_scheme \<Rightarrow> ('h, 'm) kernel_scheme result" where
  "TimerExpired timerHandler this randomize random callee k =
     rbind (Schedule timerHandler this (TimeOfNextInterrupt randomize random) TimerInt k) callee"

definition TimerInterruptHandler :: "('h, 'm) kernel_scheme \<Rightarrow> ('h, 'm) kernel_scheme result" where
  "TimerInterruptHandler k = (if status k \<noteq> IdleMode then YieldOnReturn k else Inr k)"

subsection \<open>The order of pending interrupts\<close>

text \<open>Ordered by time, every entry keyed by its own time.\<close>

definition pending_ok :: "('h, 'm) kernel_scheme \<Rightarrow> bool" where
  "pending_ok k \<longleftrightarrow> sorted (map fst (pending k)) \<and> (\<forall>e \<in> set (pending k). fst e = whenDue (snd e))"

text \<open>Nothing pending is due: the state between two ticks.\<close>

definition none_due :: "('h, 'm) kernel_scheme \<Rightarrow> bool" where
  "none_due k \<longleftrightarrow> (\<forall>e \<in> set (pending k). now k < fst e)"

definition due :: "('h, 'm) kernel_scheme \<Rightarrow> nat" where
  "due k = size (filter_mset (\<lambda>e. fst e \<le> now k) (mset (pending k)))"

text \<open>The clock and how it is accounted for: what a handler leaves alone of the statistics.\<close>

definition clock :: "('h, 'm) kernel_scheme \<Rightarrow> int \<times> int \<times> int \<times> int" where
  "clock k = (now k, idleTicks (stats k), systemTicks (stats k), userTicks (stats k))"

definition ticks_ok :: "('h, 'm) kernel_scheme \<Rightarrow> bool" where
  "ticks_ok k \<longleftrightarrow> now k = idleTicks (stats k) + systemTicks (stats k) + userTicks (stats k)"

lemma clockD:
  assumes "clock k' = clock k"
  shows "now k' = now k" and "ticks_ok k' = ticks_ok k"
  using assms by (simp_all add: clock_def ticks_ok_def)

lemma clock_update [simp]:
  "clock (k\<lparr>level := l\<rparr>) = clock k" "clock (k\<lparr>status := s\<rparr>) = clock k" "clock (k\<lparr>inHandler := b\<rparr>) = clock k"
  "clock (k\<lparr>yieldOnReturn := b\<rparr>) = clock k" "clock (k\<lparr>pending := q\<rparr>) = clock k"
  by (simp_all add: clock_def)

text \<open>These depend on the queue and the statistics only.\<close>

lemma pending_ok_update [simp]:
  "pending_ok (k\<lparr>stats := t\<rparr>) = pending_ok k" "pending_ok (k\<lparr>level := l\<rparr>) = pending_ok k"
  "pending_ok (k\<lparr>status := s\<rparr>) = pending_ok k" "pending_ok (k\<lparr>inHandler := b\<rparr>) = pending_ok k"
  "pending_ok (k\<lparr>yieldOnReturn := b\<rparr>) = pending_ok k"
  by (simp_all add: pending_ok_def)

lemma none_due_update [simp]:
  "none_due (k\<lparr>level := l\<rparr>) = none_due k" "none_due (k\<lparr>status := s\<rparr>) = none_due k"
  "none_due (k\<lparr>inHandler := b\<rparr>) = none_due k" "none_due (k\<lparr>yieldOnReturn := b\<rparr>) = none_due k"
  by (simp_all add: none_due_def)

lemma ticks_ok_update [simp]:
  "ticks_ok (k\<lparr>level := l\<rparr>) = ticks_ok k" "ticks_ok (k\<lparr>status := s\<rparr>) = ticks_ok k"
  "ticks_ok (k\<lparr>inHandler := b\<rparr>) = ticks_ok k" "ticks_ok (k\<lparr>yieldOnReturn := b\<rparr>) = ticks_ok k"
  "ticks_ok (k\<lparr>pending := q\<rparr>) = ticks_ok k"
  by (simp_all add: ticks_ok_def)

lemma stats_pending:
  "k\<lparr>pending := q, stats := t\<rparr> = (k :: ('h, 'm) kernel_scheme)\<lparr>stats := t, pending := q\<rparr>"
  by simp

lemma Schedule_spec:
  "0 < fromNow \<Longrightarrow> Schedule h a fromNow kind k =
    Inr (k\<lparr>pending := sorted_insert (now k + fromNow)
      \<lparr>handler = h, arg = a, whenDue = now k + fromNow, itype = kind\<rparr> (pending k)\<rparr>)"
  by (simp add: Schedule_def Let_def)

lemma filter_mset_empty_iff: "filter_mset P M = {#} \<longleftrightarrow> (\<forall>x \<in># M. \<not> P x)"
  by auto

lemma mset_insert_all: "mset (insert_all es xs) = mset xs + mset es"
  by (induction es arbitrary: xs) (simp_all add: insert_all_def)

lemma set_insert_all: "set (insert_all es xs) = set xs \<union> set es"
  by (metis mset_insert_all set_mset_mset set_mset_union)

text \<open>
  What the simulation relies on when it fires the first pending interrupt: the handler returns,
  leaves the clock, the interrupt level and the machine status alone, and adds only interrupts
  that are in the future. \<open>dev_ok\<close> is the invariant of the devices; it may depend on the pending
  interrupts but not on the clock, the level, the status or the two flags.
\<close>

locale device_handlers =
  fixes cpu :: "('h, ('h, 'm) kernel_scheme) cpu"
    and dev_ok :: "('h, 'm) kernel_scheme \<Rightarrow> bool"
  assumes fire_law: "dev_ok k \<Longrightarrow> pending k = (w, p) # rest \<Longrightarrow> level k = IntOff \<Longrightarrow> pending_ok k \<Longrightarrow>
      \<exists>k' new. invoke cpu (handler p) (arg p)
          ((flush_load cpu (k\<lparr>pending := rest\<rparr>))\<lparr>inHandler := True, status := SystemMode\<rparr>) = Inr k' \<and>
        dev_ok (k'\<lparr>inHandler := False\<rparr>) \<and> level k' = IntOff \<and> clock k' = clock k \<and> status k' = SystemMode \<and>
        pending k' = insert_all new rest \<and> (\<forall>e \<in> set new. now k < fst e \<and> fst e = whenDue (snd e))"
    and dev_level: "dev_ok k \<Longrightarrow> dev_ok (k\<lparr>level := l\<rparr>)"
    and dev_status: "dev_ok k \<Longrightarrow> dev_ok (k\<lparr>status := s\<rparr>)"
    and dev_flag: "dev_ok k \<Longrightarrow> dev_ok (k\<lparr>yieldOnReturn := b\<rparr>)"
    and dev_order: "dev_ok k \<Longrightarrow> mset q = mset (pending k) \<Longrightarrow> dev_ok (k\<lparr>pending := q\<rparr>)"
    and dev_clock: "dev_ok k \<Longrightarrow> totalTicks t = now k + d \<Longrightarrow> 0 \<le> d \<Longrightarrow> dev_ok (k\<lparr>stats := t\<rparr>)"
begin

lemma CheckIfDue_fires:
  assumes dev: "dev_ok k" and off: "level k = IntOff" and ok: "pending_ok k"
    and p: "pending k = (w, p) # rest" and w: "w \<le> now k"
    and idle: "status k = IdleMode \<and> itype p = TimerInt \<longrightarrow> rest \<noteq> []"
  shows "\<exists>k' new. CheckIfDue cpu False k = Inr (True, k') \<and> dev_ok k' \<and> level k' = IntOff \<and>
    clock k' = clock k \<and> status k' = status k \<and> pending_ok k' \<and> \<not> inHandler k' \<and>
    pending k' = insert_all new rest \<and> (\<forall>e \<in> set new. now k < fst e)"
proof -
  obtain k' new where k': "invoke cpu (handler p) (arg p)
      ((flush_load cpu (k\<lparr>pending := rest\<rparr>))\<lparr>inHandler := True, status := SystemMode\<rparr>) = Inr k'"
    "dev_ok (k'\<lparr>inHandler := False\<rparr>)" "level k' = IntOff" "clock k' = clock k"
    "pending k' = insert_all new rest" "\<forall>e \<in> set new. now k < fst e \<and> fst e = whenDue (snd e)"
    using fire_law [OF dev p off ok] by blast
  have "CheckIfDue cpu False k = Inr (True, k'\<lparr>status := status k, inHandler := False\<rparr>)"
    using off p w idle k'(1) by (auto simp: CheckIfDue_def Let_def)
  moreover have "k'\<lparr>status := status k, inHandler := False\<rparr> = k'\<lparr>inHandler := False, status := status k\<rparr>"
    by simp
  moreover have "sorted (map fst rest)" "\<forall>e \<in> set rest. fst e = whenDue (snd e)"
    using ok p by (auto simp: pending_ok_def)
  moreover have "sorted (map fst (insert_all new rest))"
    by (rule insert_all_props(1) [OF \<open>sorted (map fst rest)\<close>])
  moreover have "dev_ok (k'\<lparr>inHandler := False, status := status k\<rparr>)"
    by (rule dev_status [OF k'(2)])
  ultimately show ?thesis using k'(3-6) by (auto simp: pending_ok_def set_insert_all)
qed

text \<open>
  An interrupt that is not due yet is put back, behind others of the same time: the pending
  interrupts stay the same, their order may not.
\<close>

lemma CheckIfDue_waits:
  assumes dev: "dev_ok k" and off: "level k = IntOff" and ok: "pending_ok k" and none: "none_due k"
  shows "\<exists>q. CheckIfDue cpu False k = Inr (False, k\<lparr>pending := q\<rparr>) \<and> mset q = mset (pending k) \<and>
    dev_ok (k\<lparr>pending := q\<rparr>) \<and> pending_ok (k\<lparr>pending := q\<rparr>)"
proof (cases "pending k")
  case Nil
  then have eq: "k\<lparr>pending := []\<rparr> = k" by (cases k) simp
  have "CheckIfDue cpu False k = Inr (False, k)" using Nil off by (simp add: CheckIfDue_def)
  with dev ok Nil show ?thesis by (intro exI [of _ "[]"]) (simp add: eq)
next
  case (Cons e rest)
  obtain w p where e: "e = (w, p)" by (cases e)
  have w: "now k < w" using none Cons e by (simp add: none_due_def)
  let ?q = "sorted_insert w p rest"
  have "CheckIfDue cpu False k = Inr (False, k\<lparr>pending := ?q\<rparr>)"
    using off Cons e w by (simp add: CheckIfDue_def)
  moreover have m: "mset ?q = mset (pending k)" using Cons e by simp
  moreover have "pending_ok (k\<lparr>pending := ?q\<rparr>)"
    using ok Cons e by (auto simp: pending_ok_def intro: sorted_sorted_insert)
  ultimately show ?thesis using dev_order [OF dev m] by blast
qed

lemma CheckIfDue_timer_only:
  assumes off: "level k = IntOff" and p: "pending k = [(w, p)]" and w: "w \<le> now k"
    and idle: "status k = IdleMode" "itype p = TimerInt"
  shows "CheckIfDue cpu False k = Inr (False, k)"
  using assms by (auto simp: CheckIfDue_def Let_def)

lemma due_zero: "pending_ok k \<Longrightarrow> due k = 0 \<longleftrightarrow> none_due k"
  by (force simp: due_def none_due_def not_le)

text \<open>The loop ends, since every pass fires a due interrupt and adds none.\<close>

lemma fire_due_law_inv:
  assumes "dev_ok k" and "level k = IntOff" and "pending_ok k" and "\<not> inHandler k" and "Q k"
    and step: "\<And>k b k'. dev_ok k \<Longrightarrow> level k = IntOff \<Longrightarrow> pending_ok k \<Longrightarrow>
      CheckIfDue cpu False k = Inr (b, k') \<Longrightarrow> Q k \<Longrightarrow> Q k'"
  shows "\<exists>k'. fire_due cpu k = Some (Inr k') \<and> dev_ok k' \<and> level k' = IntOff \<and> pending_ok k' \<and>
    clock k' = clock k \<and> status k' = status k \<and> \<not> inHandler k' \<and> Q k' \<and>
    (none_due k' \<or> status k = IdleMode \<and> (\<exists>w p. pending k' = [(w, p)] \<and> itype p = TimerInt))"
  using assms(1-5)
proof (induction "due k" arbitrary: k rule: less_induct)
  case less
  show ?case
  proof (cases "none_due k")
    case True
    then obtain q where q: "CheckIfDue cpu False k = Inr (False, k\<lparr>pending := q\<rparr>)"
      "mset q = mset (pending k)" "dev_ok (k\<lparr>pending := q\<rparr>)" "pending_ok (k\<lparr>pending := q\<rparr>)"
      using CheckIfDue_waits [OF less.prems(1-3)] by blast
    have "set q = set (pending k)" using q(2) by (metis set_mset_mset)
    then have "none_due (k\<lparr>pending := q\<rparr>)" using True by (simp add: none_due_def)
    moreover have "Q (k\<lparr>pending := q\<rparr>)" by (rule step [OF less.prems(1-3) q(1) less.prems(5)])
    ultimately show ?thesis using q less.prems by (subst fire_due.simps) simp
  next
    case False
    then obtain e rest where e: "pending k = e # rest" by (cases "pending k") (auto simp: none_due_def)
    obtain w p where wp: "e = (w, p)" by (cases e)
    obtain e' where e': "e' \<in> set (pending k)" "fst e' \<le> now k"
      using False by (auto simp: none_due_def not_less)
    have "w \<le> fst e'" using less.prems(3) e wp e'(1) by (auto simp: pending_ok_def)
    with e'(2) have w: "w \<le> now k" by linarith
    show ?thesis
    proof (cases "status k = IdleMode \<and> itype p = TimerInt \<and> rest = []")
      case True
      then have "CheckIfDue cpu False k = Inr (False, k)"
        using less.prems(2) e wp w by (intro CheckIfDue_timer_only) auto
      with True less.prems e wp show ?thesis by (subst fire_due.simps) auto
    next
      case False
      have p: "pending k = (w, p) # rest" using e wp by simp
      obtain k1 new where k1: "CheckIfDue cpu False k = Inr (True, k1)" "dev_ok k1" "level k1 = IntOff"
        "clock k1 = clock k" "status k1 = status k" "pending_ok k1" "\<not> inHandler k1"
        "pending k1 = insert_all new rest" "\<forall>e \<in> set new. now k < fst e"
        using CheckIfDue_fires [OF less.prems(1-3) p w] False by blast
      have "filter_mset (\<lambda>e. fst e \<le> now k) (mset new) = {#}"
        using k1(9) by (simp add: filter_mset_empty_iff not_le)
      then have "due k1 < due k"
        using w by (simp add: due_def clockD(1) [OF k1(4)] k1(8) p mset_insert_all)
      moreover have "Q k1" by (rule step [OF less.prems(1-3) k1(1) less.prems(5)])
      ultimately show ?thesis using less.hyps [OF _ k1(2,3,6,7)] k1(1,4,5)
        by (subst fire_due.simps) simp
    qed
  qed
qed

lemmas fire_due_law = fire_due_law_inv [where Q = "\<lambda>_. True", simplified]

text \<open>
  \<open>Idle\<close> moves the clock to the earliest pending interrupt and fires it, with all others due by
  then; it halts the machine when nothing is pending or only the timer is.
\<close>

lemma CheckIfDue_advances:
  assumes dev: "dev_ok k" and off: "level k = IntOff" and ok: "pending_ok k"
    and p: "pending k = (w, p) # rest" and more: "itype p = TimerInt \<longrightarrow> rest \<noteq> []"
    and ticks: "ticks_ok k"
  shows "\<exists>k'. CheckIfDue cpu True k = Inr (True, k') \<and> dev_ok k' \<and> level k' = IntOff \<and>
    now k' = max w (now k) \<and> ticks_ok k' \<and> status k' = status k \<and> pending_ok k' \<and> \<not> inHandler k'"
proof (cases "w > now k")
  case True
  define t where "t = (stats k)\<lparr>idleTicks := idleTicks (stats k) + (w - now k), totalTicks := w\<rparr>"
  define k1 where "k1 = k\<lparr>stats := t\<rparr>"
  have k1: "dev_ok k1" "level k1 = IntOff" "pending_ok k1" "pending k1 = (w, p) # rest"
    "w \<le> now k1" "status k1 = status k" "ticks_ok k1" "now k1 = w"
    using dev_clock [OF dev, of t "w - now k"] off ok p ticks True
    by (simp_all add: k1_def t_def ticks_ok_def)
  have "CheckIfDue cpu True k = CheckIfDue cpu False k1"
    using True k1(1-8) off p unfolding k1_def t_def
    by (auto simp: CheckIfDue_def Let_def stats_pending)
  moreover have "status k1 = IdleMode \<and> itype p = TimerInt \<longrightarrow> rest \<noteq> []" using more by blast
  note CheckIfDue_fires [OF k1(1-5) this]
  moreover have "max w (now k) = now k1" using True k1(8) by simp
  ultimately show ?thesis using k1(6,7) by (auto simp: clock_def ticks_ok_def)
next
  case False
  then have w: "w \<le> now k" by simp
  have "CheckIfDue cpu True k = CheckIfDue cpu False k"
    using False off p by (auto simp: CheckIfDue_def Let_def)
  moreover have "status k = IdleMode \<and> itype p = TimerInt \<longrightarrow> rest \<noteq> []" using more by blast
  note CheckIfDue_fires [OF dev off ok p w this]
  moreover have "max w (now k) = now k" using w by simp
  ultimately show ?thesis using ticks by (auto simp: clock_def ticks_ok_def)
qed

lemma Idle_law:
  assumes dev: "dev_ok k" and off: "level k = IntOff" and ok: "pending_ok k"
    and p: "pending k = (w, p) # rest" and more: "itype p = TimerInt \<longrightarrow> rest \<noteq> []"
    and ticks: "ticks_ok k"
  shows "\<exists>k'. Idle cpu k = Some (Inr k') \<and> dev_ok k' \<and> level k' = IntOff \<and> pending_ok k' \<and>
    now k' = max w (now k) \<and> ticks_ok k' \<and> status k' = SystemMode \<and> \<not> inHandler k' \<and>
    \<not> yieldOnReturn k' \<and> (none_due k' \<or> (\<exists>w p. pending k' = [(w, p)] \<and> itype p = TimerInt))"
proof -
  let ?k = "k\<lparr>status := IdleMode\<rparr>"
  have 1: "dev_ok ?k" "level ?k = IntOff" "pending_ok ?k" "pending ?k = (w, p) # rest" "ticks_ok ?k"
    using dev_status [OF dev] off ok p ticks by simp_all
  obtain k1 where k1: "CheckIfDue cpu True ?k = Inr (True, k1)" "dev_ok k1" "level k1 = IntOff"
    "now k1 = max w (now k)" "ticks_ok k1" "status k1 = IdleMode" "pending_ok k1" "\<not> inHandler k1"
    using CheckIfDue_advances [OF 1(1-4) more 1(5)] by auto
  obtain k2 where k2: "fire_due cpu k1 = Some (Inr k2)" "dev_ok k2" "level k2 = IntOff" "pending_ok k2"
    "clock k2 = clock k1" "\<not> inHandler k2"
    "none_due k2 \<or> (\<exists>w p. pending k2 = [(w, p)] \<and> itype p = TimerInt)"
    using fire_due_law [OF k1(2,3,7,8)] by blast
  let ?r = "k2\<lparr>yieldOnReturn := False, status := SystemMode\<rparr>"
  have "Idle cpu k = Some (Inr ?r)" using k1(1) k2(1) by (simp add: Idle_def)
  moreover have "dev_ok ?r" by (rule dev_status [OF dev_flag [OF k2(2)]])
  moreover have "pending_ok ?r" "ticks_ok ?r" "now ?r = max w (now k)"
    using k2(4) k1(4,5) clockD [OF k2(5)] by simp_all
  moreover have "none_due ?r \<or> (\<exists>w p. pending ?r = [(w, p)] \<and> itype p = TimerInt)"
    using k2(7) by simp
  ultimately show ?thesis using k2(3,6) by (intro exI [of _ ?r]) simp
qed

lemma Idle_halts:
  assumes "level k = IntOff" and "pending k = [] \<or> (\<exists>w p. pending k = [(w, p)] \<and> itype p = TimerInt)"
  shows "Idle cpu k = Some (Inl Halted)"
  using assms by (auto simp: Idle_def CheckIfDue_def Let_def Halt_def)

end

subsection \<open>The machine with a timer\<close>

text \<open>
  The contract holds for the kernel whose only device is the timer, installed with
  \<open>TimerInterruptHandler\<close> as \<open>Initialize\<close> does it. \<open>timerH\<close> is the address of \<open>TimerHandler\<close>,
  \<open>rnd\<close> what \<open>Random()\<close> returns.
\<close>

definition timer_cpu ::
  "'h \<Rightarrow> bool \<Rightarrow> (('h, 'm) kernel_scheme \<Rightarrow> nat) \<Rightarrow> ('h, ('h, 'm) kernel_scheme) cpu \<Rightarrow>
    ('h, ('h, 'm) kernel_scheme) cpu" where
  "timer_cpu timerH randomize rnd c = c\<lparr>
     invoke := (\<lambda>h a k. if h = timerH
       then TimerExpired timerH a randomize (int (rnd k)) TimerInterruptHandler k
       else Inl DanglingPointer),
     flush_load := (\<lambda>k. k)\<rparr>"

definition Timer_new ::
  "'h \<Rightarrow> int \<Rightarrow> bool \<Rightarrow> int \<Rightarrow> ('h, 'm) kernel_scheme \<Rightarrow> ('h, 'm) kernel_scheme result" where
  "Timer_new timerH this doRandom random k =
     Schedule timerH this (TimeOfNextInterrupt doRandom random) TimerInt k"

definition only_timer :: "'h \<Rightarrow> ('h, 'm) kernel_scheme \<Rightarrow> bool" where
  "only_timer timerH k \<longleftrightarrow> (\<forall>e \<in> set (pending k). handler (snd e) = timerH)"

lemma TimeOfNextInterrupt_bounds:
  assumes "0 \<le> random"
  shows "0 < TimeOfNextInterrupt r random" and "TimeOfNextInterrupt r random \<le> 2 * TimerTicks"
  using assms pos_mod_bound [of 200 random] pos_mod_sign [of 200 random]
  by (simp_all add: TimeOfNextInterrupt_def TimerTicks_def del: pos_mod_bound pos_mod_sign)

lemma TimerExpired_spec:
  assumes "0 \<le> random" and "inHandler k" and "status k \<noteq> IdleMode"
  shows "TimerExpired h this r random TimerInterruptHandler k =
    Inr (k\<lparr>pending := sorted_insert (now k + TimeOfNextInterrupt r random)
        \<lparr>handler = h, arg = this, whenDue = now k + TimeOfNextInterrupt r random, itype = TimerInt\<rparr>
        (pending k),
      yieldOnReturn := True\<rparr>)"
  using assms TimeOfNextInterrupt_bounds(1) [OF assms(1), of r]
  by (simp add: TimerExpired_def Schedule_spec TimerInterruptHandler_def YieldOnReturn_def)

interpretation timer: device_handlers "timer_cpu h r rnd c" "only_timer h"
  for h :: 'h and r and rnd :: "('h, 'm) kernel_scheme \<Rightarrow> nat" and c
proof
  fix k :: "('h, 'm) kernel_scheme" and w p rest
  assume k: "only_timer h k" "pending k = (w, p) # rest" "level k = IntOff" "pending_ok k"
  define k1 where "k1 = k\<lparr>pending := rest, inHandler := True, status := SystemMode\<rparr>"
  define d where "d = TimeOfNextInterrupt r (int (rnd k1))"
  define e where "e = \<lparr>handler = h, arg = arg p, whenDue = now k + d, itype = TimerInt\<rparr>"
  have "handler p = h" using k(1,2) by (simp add: only_timer_def)
  moreover have "TimerExpired h (arg p) r (int (rnd k1)) TimerInterruptHandler k1 =
    Inr (k1\<lparr>pending := insert_all [(now k + d, e)] rest, yieldOnReturn := True\<rparr>)"
    using TimerExpired_spec [of "int (rnd k1)" k1 h "arg p" r]
    by (simp add: k1_def d_def e_def insert_all_def)
  moreover have "0 < d" by (simp add: d_def TimeOfNextInterrupt_bounds)
  ultimately show "\<exists>k' new. invoke (timer_cpu h r rnd c) (handler p) (arg p)
      ((flush_load (timer_cpu h r rnd c) (k\<lparr>pending := rest\<rparr>))\<lparr>inHandler := True, status := SystemMode\<rparr>) = Inr k' \<and>
    only_timer h (k'\<lparr>inHandler := False\<rparr>) \<and> level k' = IntOff \<and> clock k' = clock k \<and> status k' = SystemMode \<and>
    pending k' = insert_all new rest \<and> (\<forall>e \<in> set new. now k < fst e \<and> fst e = whenDue (snd e))"
    using k(1-3)
    by (intro exI [of _ "k1\<lparr>pending := insert_all [(now k + d, e)] rest, yieldOnReturn := True\<rparr>"]
        exI [of _ "[(now k + d, e)]"])
      (auto simp: timer_cpu_def k1_def only_timer_def set_insert_all e_def clock_def)
qed (auto simp: only_timer_def dest: mset_eq_setD)

subsection \<open>Properties\<close>

text \<open>
  C29: The loop \<open>while (CheckIfDue(FALSE))\<close> ends, whatever the handlers schedule (the future
  only), without moving the clock; afterwards no pending interrupt is due, except that an idle
  machine leaves the timer alone when nothing else is pending. The queue stays ordered by time.
\<close>

theorem fire_due_complete:
  assumes "device_handlers cpu dev_ok" and "dev_ok k" and "level k = IntOff" and "pending_ok k"
    and "\<not> inHandler k"
  shows "\<exists>k'. fire_due cpu k = Some (Inr k') \<and> dev_ok k' \<and> level k' = IntOff \<and> pending_ok k' \<and>
    clock k' = clock k \<and> status k' = status k \<and> \<not> inHandler k' \<and>
    (none_due k' \<or> status k = IdleMode \<and> (\<exists>w p. pending k' = [(w, p)] \<and> itype p = TimerInt))"
  by (rule device_handlers.fire_due_law [OF assms])

definition timer_example :: "nat kernel" where
  "timer_example = Initialize\<lparr>stats := Statistics_new\<lparr>totalTicks := 100, systemTicks := 100\<rparr>,
     pending := [(100, \<lparr>handler = 7, arg = 1, whenDue = 100, itype = TimerInt\<rparr>)]\<rparr>"

definition base_cpu :: "('h, 's) cpu" where
  "base_cpu = \<lparr>invoke = \<lambda>_ _ k. Inr k, flush_load = \<lambda>k. k, SWITCH = \<lambda>_ _ k. Some (Inr k),
     save_user = \<lambda>_ k. k, restore_user = \<lambda>_ k. k\<rparr>"

definition timer_example_cpu :: "(nat, nat kernel) cpu" where
  "timer_example_cpu = timer_cpu 7 False (\<lambda>_. 0) base_cpu"

theorem fire_due_complete_witness:
  "\<exists>k'. fire_due timer_example_cpu timer_example = Some (Inr k') \<and> only_timer 7 k' \<and>
    level k' = IntOff \<and> pending_ok k' \<and> clock k' = clock timer_example \<and> status k' = SystemMode \<and>
    \<not> inHandler k' \<and> (none_due k' \<or> SystemMode = IdleMode \<and>
      (\<exists>w p. pending k' = [(w, p)] \<and> itype p = TimerInt))"
  using fire_due_complete [OF timer.device_handlers_axioms [of 7 False "\<lambda>_. 0" base_cpu], of timer_example]
  by (simp add: timer_example_cpu_def timer_example_def only_timer_def pending_ok_def Initialize_def)

text \<open>
  \<open>Idle\<close> halts the machine exactly when nothing is pending or the timer is all there is;
  otherwise it moves the clock to the earliest pending interrupt (never back), books the time as
  idle, fires what is due and returns in system mode with no interrupt left due but the timer.
\<close>

theorem Idle_advances_clock:
  assumes "device_handlers cpu dev_ok" and "dev_ok k" and "level k = IntOff" and "pending_ok k"
    and "ticks_ok k"
  shows "if pending k = [] \<or> (\<exists>w p. pending k = [(w, p)] \<and> itype p = TimerInt)
    then Idle cpu k = Some (Inl Halted)
    else \<exists>k'. Idle cpu k = Some (Inr k') \<and> now k' = max (fst (hd (pending k))) (now k) \<and>
      ticks_ok k' \<and> status k' = SystemMode \<and> level k' = IntOff \<and> pending_ok k' \<and>
      \<not> yieldOnReturn k' \<and> dev_ok k' \<and>
      (none_due k' \<or> (\<exists>w p. pending k' = [(w, p)] \<and> itype p = TimerInt))"
proof (cases "pending k = [] \<or> (\<exists>w p. pending k = [(w, p)] \<and> itype p = TimerInt)")
  case True
  with device_handlers.Idle_halts [OF assms(1,3)] show ?thesis by auto
next
  case False
  then obtain e rest where e: "pending k = e # rest" by (cases "pending k") auto
  obtain w p where "e = (w, p)" by (cases e)
  with e have p: "pending k = (w, p) # rest" by simp
  have "itype p = TimerInt \<longrightarrow> rest \<noteq> []" using False p by auto
  from device_handlers.Idle_law [OF assms(1-4) p this assms(5)] False p show ?thesis by auto
qed

definition idle_example :: "nat kernel" where
  "idle_example = Initialize\<lparr>pending :=
     [(30, \<lparr>handler = 7, arg = 1, whenDue = 30, itype = DiskInt\<rparr>),
      (90, \<lparr>handler = 7, arg = 1, whenDue = 90, itype = TimerInt\<rparr>)]\<rparr>"

theorem Idle_advances_clock_witness:
  "\<exists>k'. Idle timer_example_cpu idle_example = Some (Inr k') \<and> now k' = 30 \<and> ticks_ok k'"
proof -
  have 1: "only_timer 7 idle_example" "level idle_example = IntOff" "pending_ok idle_example"
    "ticks_ok idle_example" "pending idle_example \<noteq> []" "length (pending idle_example) = 2"
    "fst (hd (pending idle_example)) = 30" "now idle_example = 0"
    by (simp_all add: idle_example_def only_timer_def pending_ok_def ticks_ok_def Initialize_def
        Statistics_new_def)
  from 1(6) have "\<not> (\<exists>w p. pending idle_example = [(w, p)] \<and> itype p = TimerInt)" by auto
  with Idle_advances_clock [OF timer.device_handlers_axioms 1(1-4),
      of False "\<lambda>_. 0" base_cpu] 1(5,7,8)
  show ?thesis unfolding timer_example_cpu_def by auto
qed

text \<open>
  A timer interrupt re-arms the timer strictly in the future, at most \<open>2 * TimerTicks\<close>
  away, keeps the queue of pending interrupts ordered, and asks for a context switch. The handler
  runs in system mode, so its test for \<open>IdleMode\<close> never suppresses that request.
\<close>

theorem CheckIfDue_timer:
  assumes "level k = IntOff" and "pending_ok k" and "pending k = (w, p) # rest" and "w \<le> now k"
    and "handler p = h" and "status k = IdleMode \<longrightarrow> rest \<noteq> []"
  shows "\<exists>k' d. CheckIfDue (timer_cpu h r rnd c) False k = Inr (True, k') \<and> 0 < d \<and>
    d \<le> 2 * TimerTicks \<and> (\<not> r \<longrightarrow> d = TimerTicks) \<and>
    pending k' = sorted_insert (now k + d)
      \<lparr>handler = h, arg = arg p, whenDue = now k + d, itype = TimerInt\<rparr> rest \<and>
    pending_ok k' \<and> yieldOnReturn k' \<and> \<not> inHandler k' \<and> status k' = status k"
proof -
  define k1 where "k1 = k\<lparr>pending := rest, inHandler := True, status := SystemMode\<rparr>"
  define d where "d = TimeOfNextInterrupt r (int (rnd k1))"
  define e where "e = \<lparr>handler = h, arg = arg p, whenDue = now k + d, itype = TimerInt\<rparr>"
  define k2 where "k2 = k1\<lparr>pending := sorted_insert (now k + d) e rest, yieldOnReturn := True\<rparr>"
  have "TimerExpired h (arg p) r (int (rnd k1)) TimerInterruptHandler k1 = Inr k2"
    using TimerExpired_spec [of "int (rnd k1)" k1 h "arg p" r]
    by (simp add: k1_def d_def e_def k2_def)
  then have "CheckIfDue (timer_cpu h r rnd c) False k =
      Inr (True, k2\<lparr>status := status k, inHandler := False\<rparr>)"
    using assms by (auto simp: CheckIfDue_def Let_def timer_cpu_def k1_def)
  moreover have "sorted (map fst rest)" "\<forall>e \<in> set rest. fst e = whenDue (snd e)"
    using assms(2,3) by (auto simp: pending_ok_def)
  then have "pending_ok k2"
    by (auto simp: pending_ok_def k2_def e_def intro: sorted_sorted_insert)
  moreover have "pending_ok (k2\<lparr>status := status k, inHandler := False\<rparr>)"
    using \<open>pending_ok k2\<close> by simp
  moreover have "\<not> r \<longrightarrow> d = TimerTicks" by (simp add: d_def TimeOfNextInterrupt_def)
  moreover have "0 < d" "d \<le> 2 * TimerTicks" by (simp_all add: d_def TimeOfNextInterrupt_bounds)
  moreover have "pending (k2\<lparr>status := status k, inHandler := False\<rparr>) = sorted_insert (now k + d) e rest"
    "yieldOnReturn (k2\<lparr>status := status k, inHandler := False\<rparr>)" by (simp_all add: k2_def)
  ultimately show ?thesis unfolding e_def
    by (intro exI [of _ "k2\<lparr>status := status k, inHandler := False\<rparr>"] exI [of _ d]) simp
qed

theorem CheckIfDue_timer_witness:
  "\<exists>k'. CheckIfDue timer_example_cpu False timer_example = Inr (True, k') \<and>
    map fst (pending k') = [200] \<and> yieldOnReturn k'"
proof -
  have 1: "level timer_example = IntOff" "pending_ok timer_example" "now timer_example = 100"
    "pending timer_example = [(100, \<lparr>handler = 7, arg = 1, whenDue = 100, itype = TimerInt\<rparr>)]"
    "status timer_example = SystemMode"
    by (simp_all add: timer_example_def pending_ok_def Initialize_def)
  from CheckIfDue_timer [OF 1(1,2,4), of 7 False "\<lambda>_. 0" base_cpu] 1(3,5)
  show ?thesis by (auto simp: timer_example_cpu_def TimerTicks_def sorted_insert_def)
qed

end
