(* ===== verification/Threads.thy ===== *)
theory Threads
  imports Interrupts
begin

section \<open>Threads and the scheduler, threads/scheduler.cc and threads/thread.cc\<close>

text \<open>
  The operations that switch threads. \<open>Run\<close> is cut at \<open>SWITCH\<close>: \<open>Run_before\<close> is what the old
  thread does, \<open>Run_after\<close> what a thread does when it is resumed there. A caller's own view of
  \<open>Run\<close>, \<open>Yield\<close>, \<open>Sleep\<close>, \<open>SetLevel\<close> composes the two with the \<open>SWITCH\<close> of the record \<open>cpu\<close>;
  the view of the whole machine is a transition system whose steps are the switches.
\<close>

subsection \<open>Thread control blocks and the ready list\<close>

definition STACK_FENCEPOST :: "32 word" where "STACK_FENCEPOST = 0xdeadbeef"

definition thread_at :: "tid \<Rightarrow> ('h, 'm) kernel_scheme \<Rightarrow> 'h Thread result" where
  "thread_at t k = (case threads k t of None \<Rightarrow> Inl DanglingPointer | Some c \<Rightarrow> Inr c)"

definition put_thread :: "tid \<Rightarrow> 'h Thread \<Rightarrow> ('h, 'm) kernel_scheme \<Rightarrow> ('h, 'm) kernel_scheme" where
  "put_thread t c k = k\<lparr>threads := (threads k)(t \<mapsto> c)\<rparr>"

definition setStatus :: "tid \<Rightarrow> ThreadStatus \<Rightarrow> ('h, 'm) kernel_scheme \<Rightarrow> ('h, 'm) kernel_scheme result" where
  "setStatus t st k = rbind (thread_at t k) (\<lambda>c. Inr (put_thread t (c\<lparr>tstatus := st\<rparr>) k))"

definition ReadyToRun :: "tid \<Rightarrow> ('h, 'm) kernel_scheme \<Rightarrow> ('h, 'm) kernel_scheme result" where
  "ReadyToRun t k = rbind (setStatus t READY k) (\<lambda>k. Inr (k\<lparr>readyList := readyList k @ [t]\<rparr>))"

definition FindNextToRun :: "('h, 'm) kernel_scheme \<Rightarrow> tid option \<times> ('h, 'm) kernel_scheme" where
  "FindNextToRun k =
     (case readyList k of [] \<Rightarrow> (None, k) | t # ts \<Rightarrow> (Some t, k\<lparr>readyList := ts\<rparr>))"

definition CheckOverflow :: "tid \<Rightarrow> ('h, 'm) kernel_scheme \<Rightarrow> unit result" where
  "CheckOverflow t k =
     rbind (thread_at t k) (\<lambda>c.
       case stack c of None \<Rightarrow> Inr () | Some bottom \<Rightarrow> ASSERT (bottom = STACK_FENCEPOST))"

text \<open>\<open>~Thread\<close>; the stack goes with the control block.\<close>

definition Thread_delete :: "tid \<Rightarrow> ('h, 'm) kernel_scheme \<Rightarrow> ('h, 'm) kernel_scheme result" where
  "Thread_delete t k =
     rbind (thread_at t k) (\<lambda>c.
     rbind (ASSERT (t \<noteq> currentThread k)) (\<lambda>_.
     Inr (k\<lparr>threads := (threads k)(t := None)\<rparr>)))"

definition StackAllocate ::
  "tid \<Rightarrow> 'h \<Rightarrow> int \<Rightarrow> ('h, 'm) kernel_scheme \<Rightarrow> ('h, 'm) kernel_scheme result" where
  "StackAllocate t func a k =
     rbind (thread_at t k) (\<lambda>c.
     Inr (put_thread t (c\<lparr>stack := Some STACK_FENCEPOST, initial := Some (func, a)\<rparr>) k))"

subsection \<open>Run\<close>

definition Run_before ::
  "('h, ('h, 'm) kernel_scheme) cpu \<Rightarrow> tid \<Rightarrow> ('h, 'm) kernel_scheme \<Rightarrow> ('h, 'm) kernel_scheme result" where
  "Run_before cpu nextThread k =
     (let oldThread = currentThread k in
      rbind (thread_at oldThread k) (\<lambda>c.
      let k = (if space c \<noteq> None then save_user cpu oldThread k else k) in
      rbind (CheckOverflow oldThread k) (\<lambda>_.
      setStatus nextThread RUNNING (k\<lparr>currentThread := nextThread\<rparr>))))"

definition Run_after ::
  "('h, ('h, 'm) kernel_scheme) cpu \<Rightarrow> ('h, 'm) kernel_scheme \<Rightarrow> ('h, 'm) kernel_scheme result" where
  "Run_after cpu k =
     rbind (case threadToBeDestroyed k of
              None \<Rightarrow> Inr k
            | Some t \<Rightarrow> rbind (Thread_delete t k) (\<lambda>k. Inr (k\<lparr>threadToBeDestroyed := None\<rparr>))) (\<lambda>k.
     rbind (thread_at (currentThread k) k) (\<lambda>c.
     Inr (if space c \<noteq> None then restore_user cpu (currentThread k) k else k)))"

text \<open>\<open>SWITCH\<close> to the running thread itself saves and reloads the same registers.\<close>

definition Run ::
  "('h, ('h, 'm) kernel_scheme) cpu \<Rightarrow> tid \<Rightarrow> ('h, 'm) kernel_scheme \<Rightarrow>
    ('h, 'm) kernel_scheme result option" where
  "Run cpu nextThread k =
     orbind (Some (Run_before cpu nextThread k)) (\<lambda>k1.
     orbind (if nextThread = currentThread k then Some (Inr k1)
             else SWITCH cpu (currentThread k) nextThread k1) (\<lambda>k2.
     Some (Run_after cpu k2)))"

subsection \<open>SetLevel, OneTick and Yield\<close>

text \<open>
  \<open>SetLevel\<close> calls \<open>OneTick\<close> when it enables interrupts, \<open>OneTick\<close> calls \<open>Yield\<close> when a handler
  asked for it, and \<open>Yield\<close> calls \<open>SetLevel\<close>. The argument \<open>tick\<close> stands for \<open>OneTick\<close>.
\<close>

definition SetLevel_with ::
  "(('h, 'm) kernel_scheme \<Rightarrow> ('h, 'm) kernel_scheme result option) \<Rightarrow> IntStatus \<Rightarrow>
    ('h, 'm) kernel_scheme \<Rightarrow> (IntStatus \<times> ('h, 'm) kernel_scheme) result option" where
  "SetLevel_with tick new k =
     (let old = level k in
      orbind (Some (ASSERT (new = IntOff \<or> \<not> inHandler k))) (\<lambda>_.
      let k = ChangeLevel old new k in
      orbind (if new = IntOn \<and> old = IntOff then tick k else Some (Inr k)) (\<lambda>k.
      Some (Inr (old, k)))))"

definition Yield_with ::
  "(('h, 'm) kernel_scheme \<Rightarrow> ('h, 'm) kernel_scheme result option) \<Rightarrow>
    ('h, ('h, 'm) kernel_scheme) cpu \<Rightarrow> tid \<Rightarrow> ('h, 'm) kernel_scheme \<Rightarrow>
    ('h, 'm) kernel_scheme result option" where
  "Yield_with tick cpu this k =
     orbind (SetLevel_with tick IntOff k) (\<lambda>(oldLevel, k).
     orbind (Some (ASSERT (this = currentThread k))) (\<lambda>_.
     orbind (case FindNextToRun k of
               (None, k) \<Rightarrow> Some (Inr k)
             | (Some nextThread, k) \<Rightarrow>
                 orbind (Some (ReadyToRun this k)) (Run cpu nextThread)) (\<lambda>k.
     orbind (SetLevel_with tick oldLevel k) (\<lambda>(_, k).
     Some (Inr k)))))"

lemma SetLevel_with_mono [partial_function_mono]:
  assumes "\<And>k. mono_option (\<lambda>f. T f k)"
  shows "mono_option (\<lambda>f. SetLevel_with (T f) new k)"
  unfolding SetLevel_with_def Let_def
  by (intro orbind_mono option.const_mono, cases "new = IntOn \<and> level k = IntOff")
    (auto simp: assms option.const_mono)

lemma Yield_with_mono [partial_function_mono]:
  assumes "\<And>k. mono_option (\<lambda>f. T f k)"
  shows "mono_option (\<lambda>f. Yield_with (T f) cpu this k)"
  unfolding Yield_with_def case_prod_beta
  by (intro orbind_mono option.const_mono SetLevel_with_mono assms)

partial_function (option) OneTick ::
  "('h, ('h, 'm) kernel_scheme) cpu \<Rightarrow> ('h, 'm) kernel_scheme \<Rightarrow>
    ('h, 'm) kernel_scheme result option" where
  "OneTick cpu k =
     (let old = status k in
      orbind (fire_due cpu (ChangeLevel IntOn IntOff (advance_clock k))) (\<lambda>k.
      let k = ChangeLevel IntOff IntOn k in
      if yieldOnReturn k
      then orbind (Yield_with (OneTick cpu) cpu (currentThread k)
                     (k\<lparr>yieldOnReturn := False, status := SystemMode\<rparr>)) (\<lambda>k.
           Some (Inr (k\<lparr>status := old\<rparr>)))
      else Some (Inr k)))"

definition SetLevel ::
  "('h, ('h, 'm) kernel_scheme) cpu \<Rightarrow> IntStatus \<Rightarrow> ('h, 'm) kernel_scheme \<Rightarrow>
    (IntStatus \<times> ('h, 'm) kernel_scheme) result option" where
  "SetLevel cpu = SetLevel_with (OneTick cpu)"

definition Enable ::
  "('h, ('h, 'm) kernel_scheme) cpu \<Rightarrow> ('h, 'm) kernel_scheme \<Rightarrow>
    ('h, 'm) kernel_scheme result option" where
  "Enable cpu k = orbind (SetLevel cpu IntOn k) (\<lambda>(_, k). Some (Inr k))"

definition Thread_Yield ::
  "('h, ('h, 'm) kernel_scheme) cpu \<Rightarrow> tid \<Rightarrow> ('h, 'm) kernel_scheme \<Rightarrow>
    ('h, 'm) kernel_scheme result option" where
  "Thread_Yield cpu = Yield_with (OneTick cpu) cpu"

subsection \<open>Fork, Sleep and Finish\<close>

definition Fork ::
  "('h, ('h, 'm) kernel_scheme) cpu \<Rightarrow> tid \<Rightarrow> 'h \<Rightarrow> int \<Rightarrow> ('h, 'm) kernel_scheme \<Rightarrow>
    ('h, 'm) kernel_scheme result option" where
  "Fork cpu this func a k =
     orbind (Some (StackAllocate this func a k)) (\<lambda>k.
     orbind (SetLevel cpu IntOff k) (\<lambda>(oldLevel, k).
     orbind (Some (ReadyToRun this k)) (\<lambda>k.
     orbind (SetLevel cpu oldLevel k) (\<lambda>(_, k).
     Some (Inr k)))))"

text \<open>\<open>while ((nextThread = scheduler->FindNextToRun()) == NULL) interrupt->Idle();\<close>\<close>

partial_function (option) wait_for_ready ::
  "('h, ('h, 'm) kernel_scheme) cpu \<Rightarrow> ('h, 'm) kernel_scheme \<Rightarrow>
    (tid \<times> ('h, 'm) kernel_scheme) result option" where
  "wait_for_ready cpu k =
     (case FindNextToRun k of
        (Some t, k) \<Rightarrow> Some (Inr (t, k))
      | (None, k) \<Rightarrow> orbind (Idle cpu k) (wait_for_ready cpu))"

definition Sleep ::
  "('h, ('h, 'm) kernel_scheme) cpu \<Rightarrow> tid \<Rightarrow> ('h, 'm) kernel_scheme \<Rightarrow>
    ('h, 'm) kernel_scheme result option" where
  "Sleep cpu this k =
     orbind (Some (ASSERT (this = currentThread k))) (\<lambda>_.
     orbind (Some (ASSERT (level k = IntOff))) (\<lambda>_.
     orbind (Some (setStatus this BLOCKED k)) (\<lambda>k.
     orbind (wait_for_ready cpu k) (\<lambda>(nextThread, k).
     Run cpu nextThread k))))"

definition Finish ::
  "('h, ('h, 'm) kernel_scheme) cpu \<Rightarrow> tid \<Rightarrow> ('h, 'm) kernel_scheme \<Rightarrow>
    ('h, 'm) kernel_scheme result option" where
  "Finish cpu this k =
     orbind (SetLevel cpu IntOff k) (\<lambda>(_, k).
     orbind (Some (ASSERT (this = currentThread k))) (\<lambda>_.
     Sleep cpu this (k\<lparr>threadToBeDestroyed := Some (currentThread k)\<rparr>)))"

subsection \<open>User-level state\<close>

text \<open>
  The kernel's own part of the state is \<^const>\<open>kernel.truncate\<close>; saving and restoring the
  registers and address space of a user program leaves it alone.
\<close>

locale user_state =
  fixes cpu :: "('h, ('h, 'm) kernel_scheme) cpu"
  assumes save_law: "kernel.truncate (save_user cpu t k) = kernel.truncate k"
    and restore_law: "kernel.truncate (restore_user cpu t k) = kernel.truncate k"

interpretation no_user_programs: user_state base_cpu
  by unfold_locales (simp_all add: base_cpu_def)

lemma truncate_eqD:
  assumes "kernel.truncate a = kernel.truncate b"
  shows "threads a = threads b" and "readyList a = readyList b" and "currentThread a = currentThread b"
    and "threadToBeDestroyed a = threadToBeDestroyed b" and "level a = level b"
    and "pending a = pending b" and "stats a = stats b" and "status a = status b"
    and "inHandler a = inHandler b" and "yieldOnReturn a = yieldOnReturn b"
  using assms by (simp_all add: kernel.truncate_def)

subsection \<open>The machine as a transition system\<close>

text \<open>
  A thread that was never dispatched resumes in \<open>ThreadRoot\<close>, every other one behind the
  \<open>SWITCH\<close> in \<open>Run\<close>: \<open>fresh\<close> are the former. \<open>finished\<close> are the threads that called \<open>Finish\<close>.
\<close>

record ('h, 'm) machine_state =
  kern :: "('h, 'm) kernel_scheme"
  fresh :: "tid set"
  finished :: "tid set"

definition switch_to ::
  "('h, ('h, 'm) kernel_scheme) cpu \<Rightarrow> tid \<Rightarrow> ('h, 'm) machine_state \<Rightarrow> ('h, 'm) machine_state result" where
  "switch_to cpu t s =
     rbind (Run_before cpu t (kern s)) (\<lambda>k.
     if t \<in> fresh s then Inr (s\<lparr>kern := k, fresh := fresh s - {t}\<rparr>)
     else rbind (Run_after cpu k) (\<lambda>k. Inr (s\<lparr>kern := k\<rparr>)))"

text \<open>The running thread yields.\<close>

definition yield_step ::
  "('h, ('h, 'm) kernel_scheme) cpu \<Rightarrow> ('h, 'm) machine_state \<Rightarrow> ('h, 'm) machine_state result" where
  "yield_step cpu s =
     (case FindNextToRun (kern s) of
        (None, k) \<Rightarrow> Inr (s\<lparr>kern := k\<rparr>)
      | (Some t, k) \<Rightarrow>
          rbind (ReadyToRun (currentThread k) k) (\<lambda>k. switch_to cpu t (s\<lparr>kern := k\<rparr>)))"

text \<open>
  The running thread goes to sleep. While it waits for a ready thread (in \<open>Idle\<close>) it is the
  current thread but not running; interrupt handlers may wake threads, it included.
\<close>

definition sleep_step :: "('h, 'm) machine_state \<Rightarrow> ('h, 'm) machine_state result" where
  "sleep_step s =
     rbind (setStatus (currentThread (kern s)) BLOCKED (kern s)) (\<lambda>k. Inr (s\<lparr>kern := k\<rparr>))"

definition dispatch_step ::
  "('h, ('h, 'm) kernel_scheme) cpu \<Rightarrow> ('h, 'm) machine_state \<Rightarrow> ('h, 'm) machine_state result" where
  "dispatch_step cpu s =
     (case FindNextToRun (kern s) of
        (None, k) \<Rightarrow> Inr (s\<lparr>kern := k\<rparr>)
      | (Some t, k) \<Rightarrow> switch_to cpu t (s\<lparr>kern := k\<rparr>))"

definition finish_step :: "('h, 'm) machine_state \<Rightarrow> ('h, 'm) machine_state result" where
  "finish_step s =
     (let t = currentThread (kern s) in
      sleep_step (s\<lparr>kern := (kern s)\<lparr>threadToBeDestroyed := Some t\<rparr>, finished := insert t (finished s)\<rparr>))"

text \<open>A thread asleep on a synchronisation variable is woken.\<close>

definition wake_step :: "tid \<Rightarrow> ('h, 'm) machine_state \<Rightarrow> ('h, 'm) machine_state result" where
  "wake_step t s = rbind (ReadyToRun t (kern s)) (\<lambda>k. Inr (s\<lparr>kern := k\<rparr>))"

text \<open>A thread is created at a free address and forked.\<close>

definition fork_step ::
  "tid \<Rightarrow> string \<Rightarrow> 'h \<Rightarrow> int \<Rightarrow> ('h, 'm) machine_state \<Rightarrow> ('h, 'm) machine_state result" where
  "fork_step t name func a s =
     rbind (StackAllocate t func a (put_thread t (Thread_new name) (kern s))) (\<lambda>k.
     rbind (ReadyToRun t k) (\<lambda>k.
     Inr (s\<lparr>kern := k, fresh := insert t (fresh s), finished := finished s - {t}\<rparr>)))"

definition running :: "('h, 'm) machine_state \<Rightarrow> bool" where
  "running s \<longleftrightarrow> (\<exists>c. threads (kern s) (currentThread (kern s)) = Some c \<and> tstatus c = RUNNING)"

inductive sched_step ::
  "('h, ('h, 'm) kernel_scheme) cpu \<Rightarrow> ('h, 'm) machine_state \<Rightarrow> ('h, 'm) machine_state \<Rightarrow> bool"
  for cpu where
  yields: "running s \<Longrightarrow> yield_step cpu s = Inr s' \<Longrightarrow> sched_step cpu s s'"
| sleeps: "running s \<Longrightarrow> sleep_step s = Inr s' \<Longrightarrow> sched_step cpu s s'"
| finishes: "running s \<Longrightarrow> finish_step s = Inr s' \<Longrightarrow> sched_step cpu s s'"
| dispatches: "\<not> running s \<Longrightarrow> dispatch_step cpu s = Inr s' \<Longrightarrow> sched_step cpu s s'"
| wakes: "threads (kern s) t = Some c \<Longrightarrow> tstatus c = BLOCKED \<Longrightarrow> t \<notin> finished s \<Longrightarrow>
    wake_step t s = Inr s' \<Longrightarrow> sched_step cpu s s'"
| forks: "running s \<Longrightarrow> threads (kern s) t = None \<Longrightarrow> fork_step t name func a s = Inr s' \<Longrightarrow>
    sched_step cpu s s'"

text \<open>
  The invariant: at most the current thread runs, the ready list holds exactly the ready threads,
  each once, all stacks are intact, and what waits to be destroyed is a finished thread.
\<close>

definition status_of :: "(tid \<Rightarrow> 'h Thread option) \<Rightarrow> tid \<Rightarrow> ThreadStatus option" where
  "status_of T t = map_option tstatus (T t)"

definition stack_ok :: "'h Thread option \<Rightarrow> bool" where
  "stack_ok x \<longleftrightarrow> (case x of None \<Rightarrow> True | Some c \<Rightarrow> stack c = None \<or> stack c = Some STACK_FENCEPOST)"

definition sched_inv ::
  "(tid \<Rightarrow> 'h Thread option) \<Rightarrow> tid \<Rightarrow> tid list \<Rightarrow> tid option \<Rightarrow> tid set \<Rightarrow> tid set \<Rightarrow> bool" where
  "sched_inv T cur ready tbd new done \<longleftrightarrow>
     status_of T cur \<noteq> None \<and> cur \<notin> new \<and> new \<subseteq> set ready \<and> distinct ready \<and>
     (\<forall>t. t \<in> set ready \<longleftrightarrow> status_of T t = Some READY) \<and>
     (\<forall>t. t \<noteq> cur \<longrightarrow> status_of T t \<noteq> Some RUNNING) \<and>
     (\<forall>t. stack_ok (T t)) \<and>
     (\<forall>t. tbd = Some t \<longrightarrow> t \<in> done \<and> status_of T t \<noteq> None) \<and>
     (\<forall>t \<in> done. status_of T t = None \<or> status_of T t = Some BLOCKED)"

definition sched_ok :: "('h, 'm) machine_state \<Rightarrow> bool" where
  "sched_ok s \<longleftrightarrow> sched_inv (threads (kern s)) (currentThread (kern s)) (readyList (kern s))
     (threadToBeDestroyed (kern s)) (fresh s) (finished s)"

definition Initialize_machine :: "('h, unit) machine_state" where
  "Initialize_machine = \<lparr>kern = Initialize, fresh = {}, finished = {}\<rparr>"

lemma thread_at_Some [simp]: "threads k t = Some c \<Longrightarrow> thread_at t k = Inr c"
  by (simp add: thread_at_def)

lemma setStatus_Some [simp]: "threads k t = Some c \<Longrightarrow>
    setStatus t st k = Inr (put_thread t (c\<lparr>tstatus := st\<rparr>) k)"
  by (simp add: setStatus_def)

lemma put_thread_simps [simp]:
  "threads (put_thread t c k) = (threads k)(t \<mapsto> c)" "currentThread (put_thread t c k) = currentThread k"
  "readyList (put_thread t c k) = readyList k"
  "threadToBeDestroyed (put_thread t c k) = threadToBeDestroyed k"
  by (simp_all add: put_thread_def)

lemma status_of_upd [simp]: "status_of (T(t := x)) = (status_of T)(t := map_option tstatus x)"
  by (auto simp: status_of_def)

lemma status_of_Some: "T t = Some c \<Longrightarrow> status_of T t = Some (tstatus c)"
  by (simp add: status_of_def)

lemma stack_ok_simps [simp]:
  "stack_ok None" "stack_ok (Some (c\<lparr>tstatus := st\<rparr>)) = stack_ok (Some c)"
  by (simp_all add: stack_ok_def)

lemma sched_inv_ready:
  assumes "sched_inv T cur ready tbd new done" and "T t = Some c"
  shows "t \<in> set ready \<longleftrightarrow> tstatus c = READY" and "stack_ok (Some c)"
  using assms unfolding sched_inv_def by (simp add: status_of_Some, metis)

lemma sched_inv_dead:
  assumes "sched_inv T cur ready tbd new done" and "tbd = Some d"
  shows "d \<in> done" and "T d \<noteq> None" and "d \<notin> set ready"
proof -
  have 1: "d \<in> done" "status_of T d \<noteq> None" using assms unfolding sched_inv_def by blast+
  then show "d \<in> done" "T d \<noteq> None" by (simp_all add: status_of_def)
  have "status_of T d = Some BLOCKED" using assms(1) 1 unfolding sched_inv_def by metis
  then show "d \<notin> set ready" using assms(1) unfolding sched_inv_def by simp
qed

lemma sched_inv_forget: "sched_inv T cur ready tbd new done \<Longrightarrow> sched_inv T cur ready None new done"
  by (simp add: sched_inv_def)

lemma sched_inv_delete:
  assumes inv: "sched_inv T cur ready (Some d) new done" and d: "d \<noteq> cur"
  shows "sched_inv (T(d := None)) cur ready None new done"
  using inv d sched_inv_dead(3) [OF inv refl] unfolding sched_inv_def by simp

context user_state
begin

text \<open>What a switch does to the scheduler's part of the state.\<close>

lemma switch_to_spec:
  assumes inv: "sched_inv (threads k) (currentThread k) (t # ts) (threadToBeDestroyed k) new done"
    and k: "kern s = k\<lparr>readyList := ts\<rparr>" "fresh s = new" "finished s = done"
    and c: "threads k t = Some c"
  shows "\<exists>s'. switch_to cpu t s = Inr s' \<and> currentThread (kern s') = t \<and> readyList (kern s') = ts \<and>
    fresh s' = new - {t} \<and> finished s' = done \<and>
    threadToBeDestroyed (kern s') = (if t \<in> new then threadToBeDestroyed k else None) \<and>
    threads (kern s') = (let T = (threads k)(t \<mapsto> c\<lparr>tstatus := RUNNING\<rparr>) in
      if t \<in> new then T else case threadToBeDestroyed k of None \<Rightarrow> T | Some d \<Rightarrow> T(d := None))"
proof -
  obtain c0 where c0: "threads k (currentThread k) = Some c0"
    using inv by (auto simp: sched_inv_def status_of_def)
  define k1 where "k1 = (if space c0 \<noteq> None then save_user cpu (currentThread k) (kern s) else kern s)"
  have t1: "kernel.truncate k1 = kernel.truncate (kern s)" by (simp add: k1_def save_law)
  have k1: "threads k1 = threads k" "readyList k1 = ts" "currentThread k1 = currentThread k"
    "threadToBeDestroyed k1 = threadToBeDestroyed k"
    using truncate_eqD(1-4) [OF t1] k(1) by simp_all
  have "stack_ok (Some c0)" by (rule sched_inv_ready(2) [OF inv c0])
  then have "CheckOverflow (currentThread k) k1 = Inr ()"
    using c0 k1(1) by (auto simp: CheckOverflow_def stack_ok_def)
  moreover have "Run_before cpu t (kern s) = rbind (CheckOverflow (currentThread k) k1)
      (\<lambda>_. setStatus t RUNNING (k1\<lparr>currentThread := t\<rparr>))"
    using c0 k(1) by (simp add: Run_before_def Let_def k1_def)
  ultimately have before: "Run_before cpu t (kern s) =
      Inr (put_thread t (c\<lparr>tstatus := RUNNING\<rparr>) (k1\<lparr>currentThread := t\<rparr>))"
    using c k1(1) by simp
  define k2 where "k2 = put_thread t (c\<lparr>tstatus := RUNNING\<rparr>) (k1\<lparr>currentThread := t\<rparr>)"
  have k2: "threads k2 = (threads k)(t \<mapsto> c\<lparr>tstatus := RUNNING\<rparr>)" "readyList k2 = ts"
    "currentThread k2 = t" "threadToBeDestroyed k2 = threadToBeDestroyed k"
    by (simp_all add: k2_def k1)
  show ?thesis
  proof (cases "t \<in> new")
    case True
    then show ?thesis using before k k2 by (simp add: switch_to_def k2_def [symmetric])
  next
    case False
    define k3 where "k3 = (case threadToBeDestroyed k of None \<Rightarrow> k2
      | Some d \<Rightarrow> k2\<lparr>threads := (threads k2)(d := None), threadToBeDestroyed := None\<rparr>)"
    have dead: "d \<noteq> t \<and> threads k d \<noteq> None" if "threadToBeDestroyed k = Some d" for d
      using sched_inv_dead [OF inv that] by auto
    have k3: "currentThread k3 = t" "readyList k3 = ts" "threadToBeDestroyed k3 = None"
      "threads k3 t = Some (c\<lparr>tstatus := RUNNING\<rparr>)"
      "threads k3 = (case threadToBeDestroyed k of None \<Rightarrow> (threads k)(t \<mapsto> c\<lparr>tstatus := RUNNING\<rparr>)
        | Some d \<Rightarrow> (threads k)(t \<mapsto> c\<lparr>tstatus := RUNNING\<rparr>, d := None))"
      using dead k2 by (auto simp: k3_def split: option.splits)
    define k4 where "k4 = (if space c \<noteq> None then restore_user cpu t k3 else k3)"
    have "kernel.truncate k4 = kernel.truncate k3" by (simp add: k4_def restore_law)
    note k4 = truncate_eqD(1-4) [OF this]
    have "(case threadToBeDestroyed k2 of None \<Rightarrow> Inr k2
        | Some t \<Rightarrow> rbind (Thread_delete t k2) (\<lambda>k. Inr (k\<lparr>threadToBeDestroyed := None\<rparr>))) = Inr k3"
      using dead k2 by (auto simp: k3_def Thread_delete_def thread_at_def split: option.splits)
    then have "Run_after cpu k2 = Inr k4"
      using k3(1,4) by (simp add: Run_after_def k4_def)
    then show ?thesis
      using before False k k3 k4 by (simp add: switch_to_def k2_def [symmetric] split: option.splits)
  qed
qed

end

text \<open>The invariant over a switch, when no thread is running.\<close>

lemma sched_inv_switch:
  assumes inv: "sched_inv T cur (t # ts) tbd new done" and c: "T t = Some c"
    and none: "\<forall>d c. T d = Some c \<longrightarrow> tstatus c \<noteq> RUNNING"
    and T': "T' = (let T = T(t \<mapsto> c\<lparr>tstatus := RUNNING\<rparr>) in
      if t \<in> new then T else case tbd of None \<Rightarrow> T | Some d \<Rightarrow> T(d := None))"
  shows "sched_inv T' t ts (if t \<in> new then tbd else None) (new - {t}) done"
proof -
  have rdy: "tstatus c = READY"
    using sched_inv_ready(1) [OF inv c] by simp
  have dead: "d \<noteq> t \<and> d \<notin> set ts" if "tbd = Some d" for d
    using sched_inv_dead(3) [OF inv that] by auto
  let ?T = "T(t \<mapsto> c\<lparr>tstatus := RUNNING\<rparr>)"
  have 1: "sched_inv ?T t ts tbd (new - {t}) done"
    using inv none rdy sched_inv_ready(2) [OF inv c] status_of_Some [of T, OF c]
    unfolding sched_inv_def by (auto simp: status_of_def)
  have 2: "sched_inv (?T(d := None)) t ts None (new - {t}) done" if "tbd = Some d" for d
    using sched_inv_delete [of ?T t ts d] 1 dead [OF that] that by blast
  have 3: "sched_inv ?T t ts None (new - {t}) done"
    by (rule sched_inv_forget [OF 1])
  have "new - {t} = new" if "t \<notin> new" using that by simp
  with 1 2 3 show ?thesis by (auto simp: T' Let_def split: option.splits)
qed

subsection \<open>The steps keep the invariant and do not fail\<close>

lemma sched_okD:
  assumes "sched_ok s"
  shows "sched_inv (threads (kern s)) (currentThread (kern s)) (readyList (kern s))
    (threadToBeDestroyed (kern s)) (fresh s) (finished s)"
  using assms by (simp add: sched_ok_def)

lemma sched_inv_wake:
  assumes inv: "sched_inv T cur ready tbd new done" and c: "T t = Some c" and t: "t \<notin> done"
    and n: "tstatus c \<noteq> READY"
  shows "sched_inv (T(t \<mapsto> c\<lparr>tstatus := READY\<rparr>)) cur (ready @ [t]) tbd new done"
  using inv t n sched_inv_ready [OF inv c] status_of_Some [of T, OF c]
  unfolding sched_inv_def by auto

lemma sched_inv_block:
  assumes inv: "sched_inv T cur ready tbd new done" and c: "T cur = Some c" "tstatus c = RUNNING"
  shows "sched_inv (T(cur \<mapsto> c\<lparr>tstatus := BLOCKED\<rparr>)) cur ready tbd new done"
proof -
  have st: "status_of T cur = Some RUNNING" using c by (simp add: status_of_def)
  have "cur \<notin> set ready" using sched_inv_ready(1) [OF inv c(1)] c(2) by simp
  with inv st sched_inv_ready(2) [OF inv c(1)] show ?thesis
    unfolding sched_inv_def by auto
qed

lemma sched_inv_running:
  assumes "sched_inv T cur ready tbd new done" and "status_of T t = Some RUNNING"
  shows "t = cur" and "t \<notin> done" and "t \<notin> set ready"
  using assms unfolding sched_inv_def by auto

text \<open>Of the threads only the one that waits to be destroyed can go.\<close>

definition keeps :: "('h, 'm) machine_state \<Rightarrow> ('h, 'm) machine_state \<Rightarrow> bool" where
  "keeps s s' \<longleftrightarrow>
     (\<forall>d. threadToBeDestroyed (kern s) \<noteq> Some d \<longrightarrow> threads (kern s) d \<noteq> None \<longrightarrow>
        threads (kern s') d \<noteq> None) \<and>
     (threadToBeDestroyed (kern s') = threadToBeDestroyed (kern s) \<or>
      threadToBeDestroyed (kern s') = None)"

lemma running_iff: "running s \<longleftrightarrow> status_of (threads (kern s)) (currentThread (kern s)) = Some RUNNING"
  by (auto simp: running_def status_of_def)

context user_state
begin

lemma switch_to_ok:
  assumes inv: "sched_inv (threads k) (currentThread k) (t # ts) (threadToBeDestroyed k) (fresh s) (finished s)"
    and none: "\<forall>d. status_of (threads k) d \<noteq> Some RUNNING" and k: "kern s = k\<lparr>readyList := ts\<rparr>"
  shows "\<exists>s'. switch_to cpu t s = Inr s' \<and> sched_ok s' \<and> running s' \<and> currentThread (kern s') = t \<and>
    readyList (kern s') = ts \<and> finished s' = finished s \<and> keeps s s'"
proof -
  have "status_of (threads k) t = Some READY" using inv unfolding sched_inv_def by (metis list.set_intros(1))
  then obtain c where c: "threads k t = Some c" by (auto simp: status_of_def)
  obtain s' where s': "switch_to cpu t s = Inr s'" "currentThread (kern s') = t" "readyList (kern s') = ts"
    "fresh s' = fresh s - {t}" "finished s' = finished s"
    "threadToBeDestroyed (kern s') = (if t \<in> fresh s then threadToBeDestroyed k else None)"
    and T: "threads (kern s') = (let T = (threads k)(t \<mapsto> c\<lparr>tstatus := RUNNING\<rparr>) in
      if t \<in> fresh s then T else case threadToBeDestroyed k of None \<Rightarrow> T | Some d \<Rightarrow> T(d := None))"
    using switch_to_spec [OF inv k refl refl c] by blast
  have "\<forall>d c. threads k d = Some c \<longrightarrow> tstatus c \<noteq> RUNNING"
    using none by (force simp: status_of_def)
  from sched_inv_switch [OF inv c this T] have ok: "sched_ok s'"
    using s' by (simp add: sched_ok_def)
  have dead: "d \<noteq> t" if "threadToBeDestroyed k = Some d" for d
    using sched_inv_dead(3) [OF inv that] by auto
  then have "threads (kern s') t = Some (c\<lparr>tstatus := RUNNING\<rparr>)"
    using T by (auto simp: Let_def split: option.splits)
  then have "running s'" using s'(2) by (simp add: running_def)
  moreover have "threads (kern s') d \<noteq> None" if "threadToBeDestroyed k \<noteq> Some d" "threads k d \<noteq> None" for d
    using that T by (auto simp: Let_def split: option.splits if_splits)
  then have "keeps s s'" using s'(6) k by (simp add: keeps_def)
  ultimately show ?thesis using s' ok by (intro exI [of _ s']) auto
qed

lemma yield_step_ok:
  assumes ok: "sched_ok s" and run: "running s"
  shows "\<exists>s'. yield_step cpu s = Inr s' \<and> sched_ok s' \<and> running s' \<and>
    currentThread (kern s') # readyList (kern s') = rotate1 (currentThread (kern s) # readyList (kern s)) \<and>
    finished s' = finished s \<and> keeps s s'"
proof (cases "readyList (kern s)")
  case Nil
  then have "yield_step cpu s = Inr s" by (simp add: yield_step_def FindNextToRun_def)
  with Nil ok run show ?thesis by (simp add: keeps_def)
next
  case (Cons t ts)
  define k where "k = kern s"
  define cur where "cur = currentThread k"
  obtain c where c: "threads k cur = Some c" "tstatus c = RUNNING"
    using run by (auto simp: running_def k_def cur_def)
  define k2 where "k2 = put_thread cur (c\<lparr>tstatus := READY\<rparr>) k"
  let ?s = "s\<lparr>kern := k2\<lparr>readyList := ts @ [cur]\<rparr>\<rparr>"
  have st: "status_of (threads k) cur = Some RUNNING" using c by (simp add: status_of_def)
  have inv: "sched_inv (threads k) cur (t # ts) (threadToBeDestroyed k) (fresh s) (finished s)"
    using sched_okD [OF ok] Cons by (simp add: k_def cur_def)
  have "cur \<notin> finished s" by (rule sched_inv_running(2) [OF inv st])
  from sched_inv_wake [OF inv c(1) this] c(2)
  have inv2: "sched_inv (threads k2) (currentThread k2) (t # ts @ [cur]) (threadToBeDestroyed k2)
      (fresh ?s) (finished ?s)"
    by (simp add: k2_def cur_def)
  have "status_of (threads k2) d \<noteq> Some RUNNING" for d
    using sched_inv_running(1) [OF inv, of d] by (auto simp: k2_def)
  then obtain s' where s': "switch_to cpu t ?s = Inr s'" "sched_ok s'" "running s'"
    "currentThread (kern s') = t" "readyList (kern s') = ts @ [cur]" "finished s' = finished s"
    "keeps ?s s'"
    using switch_to_ok [OF inv2] by auto
  from s'(7) have "keeps s s'" by (auto simp: keeps_def k2_def k_def)
  have "yield_step cpu s = switch_to cpu t ?s"
    using Cons c by (simp add: yield_step_def FindNextToRun_def ReadyToRun_def k_def cur_def k2_def
        put_thread_def setStatus_def thread_at_def)
  with s' Cons \<open>keeps s s'\<close> show ?thesis by (simp add: k_def cur_def)
qed

lemma dispatch_step_ok:
  assumes ok: "sched_ok s" and run: "\<not> running s"
  shows "\<exists>s'. dispatch_step cpu s = Inr s' \<and> sched_ok s' \<and> (running s' \<longleftrightarrow> readyList (kern s) \<noteq> []) \<and>
    finished s' = finished s \<and> keeps s s'"
proof (cases "readyList (kern s)")
  case Nil
  then have "dispatch_step cpu s = Inr s" by (simp add: dispatch_step_def FindNextToRun_def)
  with Nil ok run show ?thesis by (simp add: keeps_def)
next
  case (Cons t ts)
  let ?s = "s\<lparr>kern := (kern s)\<lparr>readyList := ts\<rparr>\<rparr>"
  have inv: "sched_inv (threads (kern s)) (currentThread (kern s)) (t # ts)
      (threadToBeDestroyed (kern s)) (fresh ?s) (finished ?s)"
    using sched_okD [OF ok] Cons by simp
  have "status_of (threads (kern s)) d \<noteq> Some RUNNING" for d
    using sched_inv_running(1) [OF inv, of d] run by (auto simp: running_iff)
  then obtain s' where s': "switch_to cpu t ?s = Inr s'" "sched_ok s'" "running s'"
    "finished s' = finished s" "keeps ?s s'"
    using switch_to_ok [OF inv] by auto
  from s'(5) have "keeps s s'" by (auto simp: keeps_def)
  with s' Cons show ?thesis by (simp add: dispatch_step_def FindNextToRun_def)
qed

end

lemma sleep_step_ok:
  assumes ok: "sched_ok s" and run: "running s"
  shows "\<exists>s'. sleep_step s = Inr s' \<and> sched_ok s' \<and> \<not> running s'"
proof -
  let ?cur = "currentThread (kern s)"
  obtain c where c: "threads (kern s) ?cur = Some c" "tstatus c = RUNNING"
    using run by (auto simp: running_def)
  with sched_inv_block [OF sched_okD [OF ok] c] show ?thesis
    by (simp add: sleep_step_def sched_ok_def running_iff put_thread_def)
qed

lemma finish_step_ok:
  assumes ok: "sched_ok s" and run: "running s"
  shows "\<exists>s'. finish_step s = Inr s' \<and> sched_ok s' \<and> \<not> running s' \<and>
    threadToBeDestroyed (kern s') = Some (currentThread (kern s))"
proof -
  let ?cur = "currentThread (kern s)"
  obtain c where c: "threads (kern s) ?cur = Some c" "tstatus c = RUNNING"
    using run by (auto simp: running_def)
  have "sched_inv ((threads (kern s))(?cur \<mapsto> c\<lparr>tstatus := BLOCKED\<rparr>)) ?cur (readyList (kern s))
      (Some ?cur) (fresh s) (insert ?cur (finished s))"
    using sched_inv_block [OF sched_okD [OF ok] c] unfolding sched_inv_def by auto
  with c show ?thesis
    by (simp add: finish_step_def Let_def sleep_step_def sched_ok_def running_iff put_thread_def)
qed

lemma wake_step_ok:
  assumes ok: "sched_ok s" and c: "threads (kern s) t = Some c" "tstatus c = BLOCKED" "t \<notin> finished s"
  shows "\<exists>s'. wake_step t s = Inr s' \<and> sched_ok s' \<and> readyList (kern s') = readyList (kern s) @ [t]"
  using sched_inv_wake [OF sched_okD [OF ok] c(1,3)] c
  by (simp add: wake_step_def ReadyToRun_def sched_ok_def put_thread_def)

lemma fork_step_ok:
  assumes ok: "sched_ok s" and t: "threads (kern s) t = None"
  shows "\<exists>s'. fork_step t name func a s = Inr s' \<and> sched_ok s' \<and> readyList (kern s') = readyList (kern s) @ [t]"
proof -
  have st: "status_of (threads (kern s)) t = None" using t by (simp add: status_of_def)
  have "sched_inv ((threads (kern s))(t \<mapsto> (Thread_new name)\<lparr>stack := Some STACK_FENCEPOST,
      initial := Some (func, a), tstatus := READY\<rparr>)) (currentThread (kern s))
      (readyList (kern s) @ [t]) (threadToBeDestroyed (kern s)) (insert t (fresh s)) (finished s - {t})"
    using sched_okD [OF ok] st unfolding sched_inv_def
    by (auto simp: stack_ok_def Thread_new_def)
  then show ?thesis
    by (simp add: fork_step_def StackAllocate_def ReadyToRun_def sched_ok_def put_thread_def
        setStatus_def thread_at_def)
qed

context user_state
begin

lemma sched_step_ok: "sched_step cpu s s' \<Longrightarrow> sched_ok s \<Longrightarrow> sched_ok s'"
proof (induction rule: sched_step.induct)
  case (yields s s')
  then show ?case using yield_step_ok [of s] by auto
next
  case (sleeps s s')
  then show ?case using sleep_step_ok [of s] by auto
next
  case (finishes s s')
  then show ?case using finish_step_ok [of s] by auto
next
  case (dispatches s s')
  then show ?case using dispatch_step_ok [of s] by auto
next
  case (wakes s t c s')
  then show ?case using wake_step_ok [of s t c] by auto
next
  case (forks s t name func a s')
  then show ?case using fork_step_ok [of s t name func a] by auto
qed

lemma reachable_ok: "rtranclp (sched_step cpu) s s' \<Longrightarrow> sched_ok s \<Longrightarrow> sched_ok s'"
  by (induction rule: rtranclp_induct) (auto dest: sched_step_ok)

end

lemma Initialize_ok: "sched_ok Initialize_machine" "running Initialize_machine"
  by (auto simp: sched_ok_def sched_inv_def running_def Initialize_machine_def Initialize_def
      status_of_def stack_ok_def Thread_new_def)

text \<open>\<open>n\<close> times the running thread yields.\<close>

primrec yields ::
  "('h, ('h, 'm) kernel_scheme) cpu \<Rightarrow> nat \<Rightarrow> ('h, 'm) machine_state \<Rightarrow> ('h, 'm) machine_state result" where
  "yields cpu 0 s = Inr s"
| "yields cpu (Suc n) s = rbind (yields cpu n s) (yield_step cpu)"

context user_state
begin

lemma yields_ok:
  assumes "sched_ok s" and "running s"
  shows "\<exists>s'. yields cpu n s = Inr s' \<and> sched_ok s' \<and> running s' \<and>
    currentThread (kern s') # readyList (kern s') = rotate n (currentThread (kern s) # readyList (kern s))"
proof (induction n)
  case 0
  then show ?case using assms by simp
next
  case (Suc n)
  then obtain s1 where s1: "yields cpu n s = Inr s1" "sched_ok s1" "running s1"
    "currentThread (kern s1) # readyList (kern s1) = rotate n (currentThread (kern s) # readyList (kern s))"
    by blast
  obtain s2 where s2: "yield_step cpu s1 = Inr s2" "sched_ok s2" "running s2"
    "currentThread (kern s2) # readyList (kern s2) = rotate1 (currentThread (kern s1) # readyList (kern s1))"
    using yield_step_ok [OF s1(2,3)] by blast
  have "yields cpu (Suc n) s = Inr s2" using s1(1) s2(1) by simp
  moreover have "currentThread (kern s2) # readyList (kern s2) =
      rotate (Suc n) (currentThread (kern s) # readyList (kern s))"
    by (simp only: s2(4) s1(4) rotate_Suc)
  ultimately show ?case using s2(2,3) by blast
qed

end

text \<open>A finished thread that nobody will destroy any more.\<close>

definition leaked :: "tid \<Rightarrow> ('h, 'm) machine_state \<Rightarrow> bool" where
  "leaked t s \<longleftrightarrow> t \<in> finished s \<and> threads (kern s) t \<noteq> None \<and>
     threadToBeDestroyed (kern s) \<noteq> Some t \<and> (running s \<longrightarrow> t \<noteq> currentThread (kern s))"

lemma put_thread_exists: "threads k d \<noteq> None \<Longrightarrow> threads (put_thread t c k) d \<noteq> None"
  by (simp add: put_thread_def)

lemma running_not_finished:
  assumes "sched_ok s" and "running s"
  shows "currentThread (kern s) \<notin> finished s"
  using sched_inv_running(2) [OF sched_okD [OF assms(1)]] assms(2) by (simp add: running_iff)

context user_state
begin

lemma leaked_step:
  assumes step: "sched_step cpu s s'" and ok: "sched_ok s" and leak: "leaked t s"
  shows "leaked t s'"
proof -
  have ok': "sched_ok s'" by (rule sched_step_ok [OF step ok])
  have part: "leaked t s'" if "finished s' = finished s" "keeps s s'"
    using leak that running_not_finished [OF ok'] unfolding leaked_def keeps_def by auto
  show ?thesis
    using step
  proof cases
    case yields
    then show ?thesis using yield_step_ok [OF ok] part by auto
  next
    case dispatches
    then show ?thesis using dispatch_step_ok [OF ok] part by auto
  next
    case sleeps
    then have "finished s' = finished s" "keeps s s'"
      by (auto simp: sleep_step_def keeps_def setStatus_def put_thread_def)
    then show ?thesis by (rule part)
  next
    case finishes
    then obtain c where c: "threads (kern s) (currentThread (kern s)) = Some c"
      by (auto simp: running_def)
    have "t \<noteq> currentThread (kern s)" using leak finishes(1) by (simp add: leaked_def)
    moreover obtain s'' where "finish_step s = Inr s''" "\<not> running s''"
      using finish_step_ok [OF ok finishes(1)] by blast
    ultimately show ?thesis
      using leak finishes(2) c by (auto simp: leaked_def finish_step_def Let_def sleep_step_def put_thread_def)
  next
    case (wakes t' c)
    then have "finished s' = finished s" "keeps s s'"
      by (auto simp: wake_step_def ReadyToRun_def keeps_def setStatus_def put_thread_def)
    then show ?thesis by (rule part)
  next
    case (forks t' name func a)
    moreover from this leak have "t \<noteq> t'" by (auto simp: leaked_def)
    ultimately show ?thesis using leak running_not_finished [OF ok']
      by (auto simp: leaked_def fork_step_def StackAllocate_def ReadyToRun_def setStatus_def
          thread_at_def put_thread_def)
  qed
qed

lemma leaked_for_ever:
  "rtranclp (sched_step cpu) s s' \<Longrightarrow> sched_ok s \<Longrightarrow> leaked t s \<Longrightarrow> leaked t s'"
  by (induction rule: rtranclp_induct) (blast intro: leaked_step reachable_ok)+

lemma finish_leaks:
  assumes ok: "sched_ok s" and run: "running s" and t: "threadToBeDestroyed (kern s) = Some t"
    and step: "finish_step s = Inr s1"
  shows "leaked t s1"
proof -
  obtain c where c: "threads (kern s) (currentThread (kern s)) = Some c"
    using run by (auto simp: running_def)
  have t': "t \<in> finished s" "threads (kern s) t \<noteq> None"
    using sched_inv_dead(1,2) [OF sched_okD [OF ok] t] by blast+
  then have "t \<noteq> currentThread (kern s)" using running_not_finished [OF ok run] by auto
  moreover obtain s'' where "finish_step s = Inr s''" "\<not> running s''"
    using finish_step_ok [OF ok run] by blast
  ultimately show ?thesis using t' c step
    by (auto simp: leaked_def finish_step_def Let_def sleep_step_def put_thread_def)
qed

end

subsection \<open>Ticks without a context switch\<close>

text \<open>
  Devices whose handlers never ask for a yield (every device but the timer): enabling
  interrupts moves the clock by one tick and fires what is due, in the calling thread.
\<close>

locale quiet_devices = device_handlers +
  assumes quiet_law: "dev_ok k \<Longrightarrow> pending k = (w, p) # rest \<Longrightarrow> level k = IntOff \<Longrightarrow>
      pending_ok k \<Longrightarrow> invoke cpu (handler p) (arg p)
        ((flush_load cpu (k\<lparr>pending := rest\<rparr>))\<lparr>inHandler := True, status := SystemMode\<rparr>) = Inr k' \<Longrightarrow>
      yieldOnReturn k' = yieldOnReturn k"
begin

lemma CheckIfDue_quiet:
  assumes "dev_ok k" and "level k = IntOff" and "pending_ok k"
    and run: "CheckIfDue cpu False k = Inr (b, k')"
  shows "yieldOnReturn k' = yieldOnReturn k"
proof (cases "pending k")
  case Nil
  then show ?thesis using assms by (simp add: CheckIfDue_def Let_def)
next
  case (Cons e rest)
  obtain w p where e: "e = (w, p)" by (cases e)
  show ?thesis
    using run quiet_law [OF assms(1) Cons [unfolded e] assms(2,3)] Cons e assms(2)
    by (auto simp: CheckIfDue_def Let_def split: if_splits)
qed

lemma fire_due_quiet:
  assumes "dev_ok k" and "level k = IntOff" and "pending_ok k" and "\<not> inHandler k"
    and none: "status k \<noteq> IdleMode"
  shows "\<exists>k'. fire_due cpu k = Some (Inr k') \<and> dev_ok k' \<and> level k' = IntOff \<and> pending_ok k' \<and>
    clock k' = clock k \<and> status k' = status k \<and> \<not> inHandler k' \<and> none_due k' \<and>
    yieldOnReturn k' = yieldOnReturn k"
  using fire_due_law_inv [OF assms(1-4), where Q = "\<lambda>k'. yieldOnReturn k' = yieldOnReturn k"] none
    CheckIfDue_quiet by auto

lemma OneTick_quiet:
  assumes "dev_ok k" and "pending_ok k" and "\<not> inHandler k" and "\<not> yieldOnReturn k"
    and st: "status k \<noteq> IdleMode" and ticks: "ticks_ok k"
  shows "\<exists>k'. OneTick cpu k = Some (Inr k') \<and> dev_ok k' \<and> level k' = IntOn \<and> pending_ok k' \<and>
    now k' = now k + (if status k = SystemMode then SystemTick else UserTick) \<and> ticks_ok k' \<and>
    status k' = status k \<and> \<not> inHandler k' \<and> none_due k' \<and> \<not> yieldOnReturn k'"
proof -
  define k0 where "k0 = advance_clock k"
  define d where "d = (if status k = SystemMode then SystemTick else UserTick)"
  have k0: "now k0 = now k + d" "status k0 = status k" "inHandler k0 = inHandler k"
    "yieldOnReturn k0 = yieldOnReturn k" "pending_ok k0" "ticks_ok k0"
    using assms by (auto simp: k0_def advance_clock_def d_def Let_def ticks_ok_def)
  obtain t where t: "k0 = k\<lparr>stats := t\<rparr>" "totalTicks t = now k + d"
    using k0(1) by (auto simp: k0_def advance_clock_def Let_def d_def split: if_splits)
  have "dev_ok k0"
    unfolding t(1) by (rule dev_clock [OF assms(1) t(2)]) (simp add: d_def SystemTick_def UserTick_def)
  then have 1: "dev_ok (k0\<lparr>level := IntOff\<rparr>)" by (rule dev_level)
  obtain k1 where k1: "fire_due cpu (k0\<lparr>level := IntOff\<rparr>) = Some (Inr k1)" "dev_ok k1"
    "pending_ok k1" "clock k1 = clock k0" "status k1 = status k" "\<not> inHandler k1" "none_due k1"
    "yieldOnReturn k1 = yieldOnReturn k"
    using fire_due_quiet [OF 1] k0 assms(3) st by auto
  have "OneTick cpu k = Some (Inr (k1\<lparr>level := IntOn\<rparr>))"
    using k1(1,8) assms(4)
    by (subst OneTick.simps) (simp add: Let_def ChangeLevel_def k0_def [symmetric])
  moreover have "dev_ok (k1\<lparr>level := IntOn\<rparr>)" by (rule dev_level [OF k1(2)])
  ultimately show ?thesis using k1 k0 assms(4) clockD [OF k1(4)] unfolding d_def by simp
qed

text \<open>Turning interrupts off costs nothing; turning them on again is one tick.\<close>

lemma SetLevel_off: "SetLevel cpu IntOff k = Some (Inr (level k, k\<lparr>level := IntOff\<rparr>))"
  by (simp add: SetLevel_def SetLevel_with_def Let_def ChangeLevel_def)

lemma SetLevel_same: "level k = l \<Longrightarrow> \<not> inHandler k \<Longrightarrow> SetLevel cpu l k = Some (Inr (l, k))"
  by (cases l) (auto simp: SetLevel_def SetLevel_with_def Let_def ChangeLevel_def)

lemma SetLevel_on:
  assumes "dev_ok k" and "pending_ok k" and "\<not> inHandler k" and "\<not> yieldOnReturn k"
    and st: "status k = SystemMode" and ticks: "ticks_ok k" and "level k = IntOff"
  shows "\<exists>k'. SetLevel cpu IntOn k = Some (Inr (IntOff, k')) \<and> dev_ok k' \<and> level k' = IntOn \<and>
    pending_ok k' \<and> now k' = now k + SystemTick \<and> ticks_ok k' \<and> status k' = SystemMode \<and>
    \<not> inHandler k' \<and> none_due k' \<and> \<not> yieldOnReturn k'"
proof -
  have "dev_ok (k\<lparr>level := IntOn\<rparr>)" by (rule dev_level [OF assms(1)])
  from OneTick_quiet [OF this] assms show ?thesis
    by (auto simp: SetLevel_def SetLevel_with_def Let_def ChangeLevel_def)
qed

end

subsection \<open>Properties\<close>

text \<open>
  C5: In every state the scheduler can reach, at most the current thread is running, the ready
  list holds exactly the threads in state \<open>READY\<close> and each of them once, every stack still has its
  fencepost, a thread waiting to be destroyed exists and has finished; and none of the scheduler's
  operations fails there: no null or dangling thread, no overflow found, no \<open>ASSERT\<close> in \<open>~Thread\<close>.
  The operations are \<open>Yield\<close>, \<open>Sleep\<close> and \<open>Finish\<close> of a running thread, the dispatch while no
  thread runs, \<open>ReadyToRun\<close> on any blocked thread that has not finished, and \<open>Fork\<close> by a running
  thread of one at any free address; the last two put their thread behind the ready list.
\<close>

theorem scheduler_safe:
  assumes "user_state cpu" and "sched_ok s0" and "rtranclp (sched_step cpu) s0 s"
  shows "sched_ok s \<and>
    (running s \<longrightarrow> (\<exists>s'. yield_step cpu s = Inr s' \<and> running s') \<and>
      (\<exists>s'. sleep_step s = Inr s') \<and> (\<exists>s'. finish_step s = Inr s')) \<and>
    (\<not> running s \<longrightarrow> (\<exists>s'. dispatch_step cpu s = Inr s' \<and> (running s' \<longleftrightarrow> readyList (kern s) \<noteq> []))) \<and>
    (\<forall>t c. threads (kern s) t = Some c \<and> tstatus c = BLOCKED \<and> t \<notin> finished s \<longrightarrow>
      (\<exists>s'. wake_step t s = Inr s' \<and> readyList (kern s') = readyList (kern s) @ [t])) \<and>
    (\<forall>t name func a. running s \<and> threads (kern s) t = None \<longrightarrow>
      (\<exists>s'. fork_step t name func a s = Inr s' \<and> readyList (kern s') = readyList (kern s) @ [t]))"
proof -
  have ok: "sched_ok s" by (rule user_state.reachable_ok [OF assms(1,3,2)])
  have y: "\<exists>s'. yield_step cpu s = Inr s' \<and> running s'" if "running s"
    using user_state.yield_step_ok [OF assms(1) ok that] by blast
  have d: "\<exists>s'. dispatch_step cpu s = Inr s' \<and> (running s' \<longleftrightarrow> readyList (kern s) \<noteq> [])"
    if "\<not> running s"
    using user_state.dispatch_step_ok [OF assms(1) ok that] by blast
  have sf: "\<exists>s'. sleep_step s = Inr s'" "\<exists>s'. finish_step s = Inr s'" if "running s"
    using sleep_step_ok [OF ok that] finish_step_ok [OF ok that] by blast+
  have w: "\<exists>s'. wake_step t s = Inr s' \<and> readyList (kern s') = readyList (kern s) @ [t]"
    if "threads (kern s) t = Some c" "tstatus c = BLOCKED" "t \<notin> finished s" for t c
    using wake_step_ok [OF ok that] by blast
  have f: "\<exists>s'. fork_step t name func a s = Inr s' \<and> readyList (kern s') = readyList (kern s) @ [t]"
    if "threads (kern s) t = None" for t name func a
    using fork_step_ok [OF ok that] by blast
  show ?thesis by (intro conjI allI impI; (elim conjE)?; rule ok y d sf w f; assumption)
qed

theorem scheduler_safe_witness:
  "sched_ok (Initialize_machine :: (unit, unit) machine_state) \<and>
    (\<exists>s'. yield_step base_cpu (Initialize_machine :: (unit, unit) machine_state) = Inr s' \<and> running s') \<and>
    (\<exists>s'. fork_step 1 ''a'' () 0 (Initialize_machine :: (unit, unit) machine_state) = Inr s' \<and>
      readyList (kern s') = [1])"
proof -
  have "threads (kern (Initialize_machine :: (unit, unit) machine_state)) 1 = None"
    "readyList (kern (Initialize_machine :: (unit, unit) machine_state)) = []"
    by (simp_all add: Initialize_machine_def Initialize_def)
  then show ?thesis
    using scheduler_safe [OF no_user_programs.user_state_axioms Initialize_ok(1) rtranclp.rtrancl_refl]
      Initialize_ok by fastforce
qed

text \<open>
  C23: The scheduler is round robin: after \<open>n\<close> calls of \<open>Yield\<close>, by whichever thread then has the
  CPU, the running thread and the ready list behind it are the original ones rotated by \<open>n\<close>; so a
  ready thread at position \<open>i\<close> runs after \<open>i + 1\<close> yields and nobody starves.
\<close>

theorem Yield_round_robin:
  assumes "user_state cpu" and "sched_ok s" and "running s"
  shows "\<exists>s'. yields cpu n s = Inr s' \<and> running s' \<and>
    currentThread (kern s') # readyList (kern s') =
      rotate n (currentThread (kern s) # readyList (kern s))"
  using user_state.yields_ok [OF assms] by blast

definition two_ready :: "(unit, unit) machine_state" where
  "two_ready = \<lparr>kern = Initialize\<lparr>readyList := [1, 2],
      threads := [0 \<mapsto> (Thread_new ''main'')\<lparr>tstatus := RUNNING\<rparr>,
        1 \<mapsto> (Thread_new ''a'')\<lparr>tstatus := READY, stack := Some STACK_FENCEPOST\<rparr>,
        2 \<mapsto> (Thread_new ''b'')\<lparr>tstatus := READY, stack := Some STACK_FENCEPOST\<rparr>]\<rparr>,
     fresh = {1, 2}, finished = {}\<rparr>"

lemma two_ready_ok: "sched_ok two_ready" "running two_ready"
  by (auto simp: sched_ok_def sched_inv_def running_def two_ready_def Initialize_def status_of_def
      stack_ok_def Thread_new_def)

theorem Yield_round_robin_witness:
  "\<exists>s'. yields base_cpu 2 two_ready = Inr s' \<and> currentThread (kern s') = 2 \<and> readyList (kern s') = [0, 1]"
  using Yield_round_robin [OF no_user_programs.user_state_axioms two_ready_ok, of 2]
  by (auto simp: two_ready_def Initialize_def numeral_2_eq_2 rotate_Suc)

text \<open>
  A finished thread waits in \<open>threadToBeDestroyed\<close> for the next \<open>Run\<close> that returns. When the
  thread dispatched next is a new one, which starts in \<open>ThreadRoot\<close>, and it too finishes, the
  pointer is overwritten: the first thread's control block and stack are never freed afterwards,
  whatever the scheduler does.
\<close>

theorem finished_thread_leaks:
  assumes "user_state cpu" and "sched_ok s" and "running s"
    and "threadToBeDestroyed (kern s) = Some t" and "finish_step s = Inr s1"
    and "rtranclp (sched_step cpu) s1 s2"
  shows "t \<in> finished s2 \<and> threads (kern s2) t \<noteq> None \<and> threadToBeDestroyed (kern s2) \<noteq> Some t"
proof -
  have ok: "sched_ok s1" using finish_step_ok [OF assms(2,3)] assms(5) by auto
  have "leaked t s1" by (rule user_state.finish_leaks [OF assms(1-5)])
  with user_state.leaked_for_ever [OF assms(1,6) ok] show ?thesis by (simp add: leaked_def)
qed

text \<open>The main thread forks two threads and yields; the first one finishes, the second one runs.\<close>

definition leak_run :: "(unit, unit) machine_state result" where
  "leak_run =
     rbind (fork_step 1 ''a'' () 0 Initialize_machine) (\<lambda>s.
     rbind (fork_step 2 ''b'' () 0 s) (\<lambda>s.
     rbind (yield_step base_cpu s) (\<lambda>s.
     rbind (finish_step s) (dispatch_step base_cpu))))"

lemma leak_run_ok:
  "\<exists>s. leak_run = Inr s \<and> sched_ok s \<and> running s \<and> threadToBeDestroyed (kern s) = Some 1 \<and>
    currentThread (kern s) = 2"
  by (auto simp: leak_run_def fork_step_def Initialize_machine_def Initialize_def StackAllocate_def
      ReadyToRun_def put_thread_def thread_at_def setStatus_def yield_step_def FindNextToRun_def
      switch_to_def Run_before_def Let_def CheckOverflow_def Thread_new_def finish_step_def
      sleep_step_def dispatch_step_def sched_ok_def sched_inv_def running_def status_of_def stack_ok_def)

theorem finished_thread_leaks_witness:
  "\<exists>s s1. leak_run = Inr s \<and> finish_step s = Inr s1 \<and> 1 \<in> finished s1 \<and> threads (kern s1) 1 \<noteq> None \<and>
    threadToBeDestroyed (kern s1) \<noteq> Some 1"
proof -
  obtain s where s: "leak_run = Inr s" "sched_ok s" "running s" "threadToBeDestroyed (kern s) = Some 1"
    using leak_run_ok by blast
  obtain s1 where s1: "finish_step s = Inr s1" using finish_step_ok [OF s(2,3)] by blast
  from finished_thread_leaks [OF no_user_programs.user_state_axioms s(2-4) s1 rtranclp.rtrancl_refl] s(1) s1
  show ?thesis by blast
qed

end
