(* ===== verification/Sector_Device.thy ===== *)
theory Sector_Device
  imports Nachos_Prelude
begin

section \<open>The disk as the file system sees it\<close>

text \<open>
  The files of \<open>filesys/\<close> reach the disk only through the global \<open>synchDisk\<close>, by
  \<open>ReadSector\<close> and \<open>WriteSector\<close>, and the heap only through \<open>new\<close>. Both are one argument of
  the file system's operations, a record \<open>fs_env\<close> over the state \<open>'w\<close> of the rest of the
  machine. The locale \<open>sector_device\<close> states what they rely on: 1024 sectors of 128 bytes,
  read and written as a whole, and a failed assertion for a sector number out of range. It is
  interpreted here on a disk held in memory and, in \<open>Synch_Disk\<close>, on the model of
  \<open>filesys/synchdisk.cc\<close> over the simulated disk with its interrupts.
\<close>

definition SectorSize :: int where "SectorSize = 128"

definition SectorsPerTrack :: int where "SectorsPerTrack = 32"

definition NumTracks :: int where "NumTracks = 32"

definition NumSectors :: int where "NumSectors = SectorsPerTrack * NumTracks"

lemma NumSectors_value: "NumSectors = 1024"
  by (simp add: NumSectors_def SectorsPerTrack_def NumTracks_def)

text \<open>
  \<open>fresh_mem E k w i\<close> is byte \<open>i\<close> of the block that the \<open>new\<close> expression number \<open>k\<close> of a
  function returns in the state \<open>w\<close>: nothing initialises it.
\<close>

record 'w fs_env =
  ReadSector :: "int \<Rightarrow> 'w \<Rightarrow> (byte list \<times> 'w) result"
  WriteSector :: "int \<Rightarrow> byte list \<Rightarrow> 'w \<Rightarrow> 'w result"
  fresh_mem :: "nat \<Rightarrow> 'w \<Rightarrow> nat \<Rightarrow> byte"

definition new_bytes :: "'w fs_env \<Rightarrow> nat \<Rightarrow> 'w \<Rightarrow> int \<Rightarrow> byte list" where
  "new_bytes E k w n = map (fresh_mem E k w) [0..<nat n]"

lemma length_new_bytes [simp]: "length (new_bytes E k w n) = nat n"
  by (simp add: new_bytes_def)

definition sector_number :: "int \<Rightarrow> bool" where
  "sector_number s \<longleftrightarrow> 0 \<le> s \<and> s < NumSectors"

lemma sector_number_iff: "sector_number s \<longleftrightarrow> 0 \<le> s \<and> s < 1024"
  by (simp add: sector_number_def NumSectors_value)

locale sector_device =
  fixes E :: "'w fs_env"
    and ok :: "'w \<Rightarrow> bool"
    and sectors :: "'w \<Rightarrow> int \<Rightarrow> byte list"
  assumes sector_length: "ok w \<Longrightarrow> sector_number s \<Longrightarrow> length (sectors w s) = 128"
    and read_law: "ok w \<Longrightarrow> sector_number s \<Longrightarrow>
      \<exists>w'. ReadSector E s w = Inr (sectors w s, w') \<and> ok w' \<and> sectors w' = sectors w"
    and write_law: "ok w \<Longrightarrow> sector_number s \<Longrightarrow> length data = 128 \<Longrightarrow>
      \<exists>w'. WriteSector E s data w = Inr w' \<and> ok w' \<and> sectors w' = (sectors w)(s := data)"
    and read_range: "ok w \<Longrightarrow> \<not> sector_number s \<Longrightarrow> ReadSector E s w = Inl AssertFailed"
    and write_range: "ok w \<Longrightarrow> \<not> sector_number s \<Longrightarrow> length data = 128 \<Longrightarrow>
      WriteSector E s data w = Inl AssertFailed"

subsection \<open>A disk in memory\<close>

definition mem_env :: "(int \<Rightarrow> byte list) fs_env" where
  "mem_env = \<lparr>
     ReadSector = (\<lambda>s w. rbind (ASSERT (s \<ge> 0 \<and> s < NumSectors)) (\<lambda>_. Inr (w s, w))),
     WriteSector = (\<lambda>s data w. rbind (ASSERT (s \<ge> 0 \<and> s < NumSectors)) (\<lambda>_. Inr (w(s := data)))),
     fresh_mem = (\<lambda>k w i. 0xA5)\<rparr>"

definition mem_ok :: "(int \<Rightarrow> byte list) \<Rightarrow> bool" where
  "mem_ok w \<longleftrightarrow> (\<forall>s. sector_number s \<longrightarrow> length (w s) = 128)"

interpretation mem_disk: sector_device mem_env mem_ok "\<lambda>w. w"
  by unfold_locales (auto simp: mem_env_def mem_ok_def sector_number_def)

definition blank_disk :: "int \<Rightarrow> byte list" where
  "blank_disk s = replicate 128 0"

lemma blank_disk_ok: "mem_ok blank_disk"
  by (simp add: mem_ok_def blank_disk_def)

end
