(* ===== verification/Mips_Machine.thy ===== *)
theory Mips_Machine
  imports Threads Sector_Device
begin

section \<open>The simulated machine, machine/machine.cc and machine/translate.cc\<close>

text \<open>
  Registers, main memory and address translation. A register is a \<open>32 word\<close>: C++ leaves the
  overflow of \<open>int\<close> additions open, the simulator relies on the two's complement wrap-around of
  its hosts, which is what is modelled. Arrays of translation entries live in a heap of tables,
  since the machine and an address space share one by pointer. The kernel reached through
  \<open>ExceptionHandler\<close> is an argument of what can trap, as in \<open>RaiseException\<close>.
\<close>

subsection \<open>The data\<close>

definition PageSize :: int where "PageSize = SectorSize"
definition NumPhysPages :: int where "NumPhysPages = 32"
definition MemorySize :: int where "MemorySize = NumPhysPages * PageSize"
definition TLBSize :: int where "TLBSize = 4"

datatype ExceptionType = NoException | SyscallException | PageFaultException | ReadOnlyException
  | BusErrorException | AddressErrorException | OverflowException | IllegalInstrException

definition StackReg :: nat where "StackReg = 29"
definition RetAddrReg :: nat where "RetAddrReg = 31"
definition NumGPRegs :: nat where "NumGPRegs = 32"
definition HiReg :: nat where "HiReg = 32"
definition LoReg :: nat where "LoReg = 33"
definition PCReg :: nat where "PCReg = 34"
definition NextPCReg :: nat where "NextPCReg = 35"
definition PrevPCReg :: nat where "PrevPCReg = 36"
definition LoadReg :: nat where "LoadReg = 37"
definition LoadValueReg :: nat where "LoadValueReg = 38"
definition BadVAddrReg :: nat where "BadVAddrReg = 39"
definition NumTotalRegs :: nat where "NumTotalRegs = 40"

lemmas reg_numbers = StackReg_def RetAddrReg_def NumGPRegs_def HiReg_def LoReg_def PCReg_def
  NextPCReg_def PrevPCReg_def LoadReg_def LoadValueReg_def BadVAddrReg_def NumTotalRegs_def

lemmas page_sizes = PageSize_def SectorSize_def NumPhysPages_def MemorySize_def TLBSize_def

record TranslationEntry =
  virtualPage :: "32 word"
  physicalPage :: "32 word"
  valid :: bool
  readOnly :: bool
  used :: bool
  dirty :: bool

record Machine =
  mainMemory :: "byte list"
  registers :: "nat \<Rightarrow> 32 word"
  tlb :: "nat option"
  pageTable :: "nat option"
  pageTableSize :: "32 word"
  singleStep :: bool
  runUntilTime :: int

record 'h ukernel = "'h kernel" +
  mach :: Machine
  tables :: "nat \<Rightarrow> TranslationEntry list option"
  userRegisters :: "tid \<Rightarrow> nat \<Rightarrow> 32 word"

abbreviation reg :: "nat \<Rightarrow> ('h, 'm) ukernel_scheme \<Rightarrow> 32 word" where
  "reg i k \<equiv> registers (mach k) i"

definition set_reg :: "nat \<Rightarrow> 32 word \<Rightarrow> ('h, 'm) ukernel_scheme \<Rightarrow> ('h, 'm) ukernel_scheme" where
  "set_reg i v k = k\<lparr>mach := (mach k)\<lparr>registers := (registers (mach k))(i := v)\<rparr>\<rparr>"

definition set_memory :: "byte list \<Rightarrow> ('h, 'm) ukernel_scheme \<Rightarrow> ('h, 'm) ukernel_scheme" where
  "set_memory mem k = k\<lparr>mach := (mach k)\<lparr>mainMemory := mem\<rparr>\<rparr>"

text \<open>
  Without \<open>USE_TLB\<close>. \<open>pageTableSize\<close> and \<open>runUntilTime\<close> are not initialised: \<open>junk\<close> is what
  they hold.
\<close>

definition Machine_new :: "bool \<Rightarrow> 32 word \<Rightarrow> int \<Rightarrow> Machine" where
  "Machine_new debug junk1 junk2 = \<lparr>mainMemory = replicate (nat MemorySize) 0, registers = (\<lambda>_. 0),
     tlb = None, pageTable = None, pageTableSize = junk1, singleStep = debug, runUntilTime = junk2\<rparr>"

definition ReadRegister :: "int \<Rightarrow> ('h, 'm) ukernel_scheme \<Rightarrow> 32 word result" where
  "ReadRegister num k =
     rbind (ASSERT (num \<ge> 0 \<and> num < int NumTotalRegs)) (\<lambda>_. Inr (reg (nat num) k))"

definition WriteRegister ::
  "int \<Rightarrow> 32 word \<Rightarrow> ('h, 'm) ukernel_scheme \<Rightarrow> ('h, 'm) ukernel_scheme result" where
  "WriteRegister num v k =
     rbind (ASSERT (num \<ge> 0 \<and> num < int NumTotalRegs)) (\<lambda>_. Inr (set_reg (nat num) v k))"

subsection \<open>Exceptions\<close>

text \<open>\<open>registers[registers[LoadReg]]\<close>: the index is whatever the register holds.\<close>

definition DelayedLoad ::
  "32 word \<Rightarrow> 32 word \<Rightarrow> ('h, 'm) ukernel_scheme \<Rightarrow> ('h, 'm) ukernel_scheme result" where
  "DelayedLoad nextReg nextValue k =
     (let i = unat (reg LoadReg k) in
      if i < NumTotalRegs
      then Inr (set_reg 0 0
                 (set_reg LoadValueReg nextValue
                   (set_reg LoadReg nextReg
                     (set_reg i (reg LoadValueReg k) k))))
      else Inl OutOfBounds)"

type_synonym ('h, 'm) exception_handler =
  "ExceptionType \<Rightarrow> ('h, 'm) ukernel_scheme \<Rightarrow> ('h, 'm) ukernel_scheme result"

definition RaiseException ::
  "('h, 'm) exception_handler \<Rightarrow> ExceptionType \<Rightarrow> 32 word \<Rightarrow> ('h, 'm) ukernel_scheme \<Rightarrow>
    ('h, 'm) ukernel_scheme result" where
  "RaiseException eh which badVAddr k =
     rbind (DelayedLoad 0 0 (set_reg BadVAddrReg badVAddr k)) (\<lambda>k.
     rbind (eh which (k\<lparr>status := SystemMode\<rparr>)) (\<lambda>k.
     Inr (k\<lparr>status := UserMode\<rparr>)))"

definition SC_Halt :: "32 word" where "SC_Halt = 0"

text \<open>userprog/exception.cc: the only system call is Halt.\<close>

definition ExceptionHandler :: "('h, 'm) exception_handler" where
  "ExceptionHandler which k =
     rbind (ReadRegister 2 k) (\<lambda>type.
     if which = SyscallException \<and> type = SC_Halt then Halt k
     else rbind (ASSERT False) (\<lambda>_. Inr k))"

subsection \<open>Address translation\<close>

definition entry_at ::
  "nat \<Rightarrow> nat \<Rightarrow> ('h, 'm) ukernel_scheme \<Rightarrow> TranslationEntry result" where
  "entry_at p i k =
     (case tables k p of None \<Rightarrow> Inl DanglingPointer | Some es \<Rightarrow> aget es (int i))"

definition put_entry ::
  "nat \<Rightarrow> nat \<Rightarrow> TranslationEntry \<Rightarrow> ('h, 'm) ukernel_scheme \<Rightarrow> ('h, 'm) ukernel_scheme" where
  "put_entry p i e k = k\<lparr>tables := (tables k)(p := map_option (\<lambda>es. es[i := e]) (tables k p))\<rparr>"

text \<open>The entry for a virtual page, as the table and index it is at, or the exception.\<close>

definition find_entry ::
  "32 word \<Rightarrow> ('h, 'm) ukernel_scheme \<Rightarrow> (ExceptionType + nat \<times> nat) result" where
  "find_entry vpn k =
     (case tlb (mach k) of
        None \<Rightarrow>
          (case pageTable (mach k) of
             None \<Rightarrow> Inl NullDeref
           | Some p \<Rightarrow>
               if vpn \<ge> pageTableSize (mach k) then Inr (Inl AddressErrorException)
               else rbind (entry_at p (unat vpn) k) (\<lambda>e.
                 if \<not> valid e then Inr (Inl PageFaultException) else Inr (Inr (p, unat vpn))))
      | Some p \<Rightarrow>
          rbind (find_range 0 TLBSize (\<lambda>i. rbind (entry_at p (nat i) k) (\<lambda>e.
                   Inr (valid e \<and> virtualPage e = vpn)))) (\<lambda>i.
          if i = - 1 then Inr (Inl PageFaultException) else Inr (Inr (p, nat i))))"

text \<open>\<open>*physAddr\<close> is written only with \<^const>\<open>NoException\<close>.\<close>

definition Translate ::
  "32 word \<Rightarrow> int \<Rightarrow> bool \<Rightarrow> ('h, 'm) ukernel_scheme \<Rightarrow>
    (ExceptionType \<times> int option \<times> ('h, 'm) ukernel_scheme) result" where
  "Translate virtAddr sz writing k =
     (if sz = 4 \<and> virtAddr AND 0x3 \<noteq> 0 \<or> sz = 2 \<and> virtAddr AND 0x1 \<noteq> 0
      then Inr (AddressErrorException, None, k)
      else
        rbind (ASSERT (tlb (mach k) = None \<or> pageTable (mach k) = None)) (\<lambda>_.
        rbind (ASSERT (tlb (mach k) \<noteq> None \<or> pageTable (mach k) \<noteq> None)) (\<lambda>_.
        let vpn = virtAddr div word_of_int PageSize;
            offset = virtAddr mod word_of_int PageSize in
        rbind (find_entry vpn k) (\<lambda>found.
        case found of
          Inl exn \<Rightarrow> Inr (exn, None, k)
        | Inr (p, i) \<Rightarrow>
            rbind (entry_at p i k) (\<lambda>entry.
            if readOnly entry \<and> writing then Inr (ReadOnlyException, None, k)
            else
              let pageFrame = physicalPage entry in
              if pageFrame \<ge> word_of_int NumPhysPages then Inr (BusErrorException, None, k)
              else
                let k = put_entry p i (entry\<lparr>used := True, dirty := dirty entry \<or> writing\<rparr>) k;
                    physAddr = sint (pageFrame * word_of_int PageSize + offset) in
                rbind (ASSERT (physAddr \<ge> 0 \<and> physAddr + sz \<le> MemorySize)) (\<lambda>_.
                Inr (NoException, Some physAddr, k)))))))"

subsection \<open>Reading and writing user memory\<close>

text \<open>The host is little-endian, so \<open>WordToHost\<close> and its relatives are the identity.\<close>

definition WordToHost :: "32 word \<Rightarrow> 32 word" where "WordToHost w = w"
definition ShortToHost :: "16 word \<Rightarrow> 16 word" where "ShortToHost s = s"
definition WordToMachine :: "32 word \<Rightarrow> 32 word" where "WordToMachine w = WordToHost w"
definition ShortToMachine :: "16 word \<Rightarrow> 16 word" where "ShortToMachine s = ShortToHost s"

definition short_bytes :: "16 word \<Rightarrow> byte list" where
  "short_bytes s = [ucast s, ucast (drop_bit 8 s)]"

definition bytes_short :: "byte list \<Rightarrow> 16 word" where
  "bytes_short bs = ucast (bs ! 0) OR push_bit 8 (ucast (bs ! 1))"

text \<open>The bytes in memory as the register value they load as: \<open>char\<close> is signed.\<close>

definition load_bytes :: "int \<Rightarrow> byte list \<Rightarrow> 32 word result" where
  "load_bytes sz bs =
     (if sz = 1 then Inr (scast (bs ! 0))
      else if sz = 2 then Inr (ucast (ShortToHost (bytes_short bs)))
      else if sz = 4 then Inr (WordToHost (bytes_word bs))
      else rbind (ASSERT False) (\<lambda>_. Inr 0))"

definition store_bytes :: "int \<Rightarrow> 32 word \<Rightarrow> byte list result" where
  "store_bytes sz v =
     (if sz = 1 then Inr [ucast (v AND 0xff)]
      else if sz = 2 then Inr (short_bytes (ShortToMachine (ucast (v AND 0xffff))))
      else if sz = 4 then Inr (word_bytes (WordToMachine v))
      else rbind (ASSERT False) (\<lambda>_. Inr []))"

text \<open>
  \<open>Translate\<close> sets the physical address exactly when it returns \<^const>\<open>NoException\<close>, so the case on it is
  the test of the exception. A read that returns \<^const>\<open>None\<close> returned FALSE.
\<close>

definition ReadMem ::
  "('h, 'm) exception_handler \<Rightarrow> 32 word \<Rightarrow> int \<Rightarrow> ('h, 'm) ukernel_scheme \<Rightarrow>
    (32 word option \<times> ('h, 'm) ukernel_scheme) result" where
  "ReadMem eh addr sz k =
     rbind (Translate addr sz False k) (\<lambda>(exn, phys, k).
     case phys of
       None \<Rightarrow> rbind (RaiseException eh exn addr k) (\<lambda>k. Inr (None, k))
     | Some physicalAddress \<Rightarrow>
         rbind (subarray (mainMemory (mach k)) physicalAddress sz) (\<lambda>bs.
         rbind (load_bytes sz bs) (\<lambda>v.
         Inr (Some v, k))))"

definition WriteMem ::
  "('h, 'm) exception_handler \<Rightarrow> 32 word \<Rightarrow> int \<Rightarrow> 32 word \<Rightarrow> ('h, 'm) ukernel_scheme \<Rightarrow>
    (bool \<times> ('h, 'm) ukernel_scheme) result" where
  "WriteMem eh addr sz v k =
     rbind (Translate addr sz True k) (\<lambda>(exn, phys, k).
     case phys of
       None \<Rightarrow> rbind (RaiseException eh exn addr k) (\<lambda>k. Inr (False, k))
     | Some physicalAddress \<Rightarrow>
         rbind (store_bytes sz v) (\<lambda>bs.
         rbind (bcopy bs 0 (mainMemory (mach k)) physicalAddress sz) (\<lambda>mem.
         Inr (True, set_memory mem k))))"

subsection \<open>Well-formed machines\<close>

text \<open>Exactly one of the TLB and a page table is installed, of the size the hardware assumes.\<close>

definition translation_ok :: "('h, 'm) ukernel_scheme \<Rightarrow> bool" where
  "translation_ok k \<longleftrightarrow>
     (\<exists>p es. tables k p = Some es \<and>
        (tlb (mach k) = None \<and> pageTable (mach k) = Some p \<and>
           uint (pageTableSize (mach k)) \<le> int (length es) \<or>
         tlb (mach k) = Some p \<and> pageTable (mach k) = None \<and> int (length es) = TLBSize))"

definition mach_ok0 :: "('h, 'm) ukernel_scheme \<Rightarrow> bool" where
  "mach_ok0 k \<longleftrightarrow> int (length (mainMemory (mach k))) = MemorySize \<and>
     unat (reg LoadReg k) < NumGPRegs \<and> translation_ok k"

text \<open>Between two instructions register 0 is 0 as well.\<close>

definition mach_ok :: "('h, 'm) ukernel_scheme \<Rightarrow> bool" where
  "mach_ok k \<longleftrightarrow> int (length (mainMemory (mach k))) = MemorySize \<and> reg 0 k = 0 \<and>
     unat (reg LoadReg k) < NumGPRegs \<and> translation_ok k"

lemma mach_ok_ok0: "mach_ok k \<longleftrightarrow> mach_ok0 k \<and> reg 0 k = 0"
  by (auto simp: mach_ok_def mach_ok0_def)

lemma reg_set_reg [simp]: "reg i (set_reg j v k) = (if i = j then v else reg i k)"
  by (simp add: set_reg_def)

lemma set_reg_frame [simp]:
  "mainMemory (mach (set_reg j v k)) = mainMemory (mach k)" "tables (set_reg j v k) = tables k"
  "tlb (mach (set_reg j v k)) = tlb (mach k)" "pageTable (mach (set_reg j v k)) = pageTable (mach k)"
  "pageTableSize (mach (set_reg j v k)) = pageTableSize (mach k)" "status (set_reg j v k) = status k"
  by (simp_all add: set_reg_def)

lemma translation_ok_set_reg [simp]: "translation_ok (set_reg j v k) = translation_ok k"
  by (simp add: translation_ok_def)

lemma translation_ok_status [simp]: "translation_ok (k\<lparr>status := st\<rparr>) = translation_ok k"
  by (simp add: translation_ok_def)

lemma mach_ok_status [simp]: "mach_ok (k\<lparr>status := st\<rparr>) = mach_ok k"
  by (simp add: mach_ok_def)

lemma mach_ok_set_reg: "mach_ok k \<Longrightarrow> j \<noteq> 0 \<Longrightarrow> j \<noteq> LoadReg \<Longrightarrow> mach_ok (set_reg j v k)"
  by (simp add: mach_ok_def)

lemma mach_ok0_set_reg: "mach_ok0 k \<Longrightarrow> j \<noteq> LoadReg \<Longrightarrow> mach_ok0 (set_reg j v k)"
  by (simp add: mach_ok0_def)

lemma put_entry_frame [simp]:
  "mach (put_entry p i e k) = mach k" "status (put_entry p i e k) = status k"
  by (simp_all add: put_entry_def)

lemma translation_ok_put_entry [simp]: "translation_ok k \<Longrightarrow> translation_ok (put_entry p i e k)"
  unfolding translation_ok_def put_entry_def by fastforce

lemma mach_ok_put_entry: "mach_ok k \<Longrightarrow> mach_ok (put_entry p i e k)"
  by (simp add: mach_ok_def)

lemma set_memory_frame [simp]:
  "registers (mach (set_memory m k)) = registers (mach k)" "tables (set_memory m k) = tables k"
  "mainMemory (mach (set_memory m k)) = m" "tlb (mach (set_memory m k)) = tlb (mach k)"
  "pageTable (mach (set_memory m k)) = pageTable (mach k)" "status (set_memory m k) = status k"
  "pageTableSize (mach (set_memory m k)) = pageTableSize (mach k)"
  by (simp_all add: set_memory_def)

lemma mach_ok_set_memory:
  "mach_ok k \<Longrightarrow> length m = length (mainMemory (mach k)) \<Longrightarrow> mach_ok (set_memory m k)"
  by (simp add: mach_ok_def translation_ok_def)

lemma DelayedLoad_ok:
  assumes "mach_ok0 k" and "unat nextReg < NumGPRegs"
  shows "\<exists>k'. DelayedLoad nextReg v k = Inr k' \<and> mach_ok k' \<and>
    mainMemory (mach k') = mainMemory (mach k) \<and> status k' = status k"
  using assms by (auto simp: DelayedLoad_def Let_def mach_ok_def mach_ok0_def reg_numbers)

subsection \<open>Translation\<close>

text \<open>An aligned access of 1, 2 or 4 bytes stays inside its page.\<close>

lemma offset_room:
  assumes "sz = 1 \<or> sz = 2 \<or> sz = 4" and "sz = 4 \<longrightarrow> a mod 4 = 0" and "sz = 2 \<longrightarrow> a mod 2 = (0::int)"
  shows "a mod 128 + sz \<le> 128"
proof -
  define m where "m = a mod 128"
  have m: "0 \<le> m" "m < 128" "m mod 4 = a mod 4" "m mod 2 = a mod 2"
    by (simp_all add: m_def mod_mod_cancel)
  have 4: "m + 4 \<le> 128" if "m mod 4 = 0" using that m(1,2) by presburger
  have 2: "m + 2 \<le> 128" if "m mod 2 = 0" using that m(1,2) by presburger
  from assms m 2 4 show ?thesis unfolding m_def [symmetric] by auto
qed

lemma frame_address:
  fixes f w :: "32 word"
  assumes "f < 32"
  shows "sint (f * 128 + w mod 128) = uint f * 128 + uint w mod 128"
proof -
  have f: "uint f < 32" using assms by (simp add: word_less_def)
  have m: "0 \<le> uint w mod 128" "uint w mod 128 < 128" by simp_all
  have u: "uint (w mod 128) = uint w mod 128" by (simp add: uint_mod)
  have bd: "uint f * 128 + uint w mod 128 < 2 ^ 31" "0 \<le> uint f * 128 + uint w mod 128"
    using f m by simp_all
  then have eq: "uint (f * 128 + w mod 128) = uint f * 128 + uint w mod 128"
    using f u by (simp add: uint_word_ariths)
  have "sint (f * 128 + w mod 128) = uint (f * 128 + w mod 128)"
  proof -
    have "signed_take_bit 31 (uint f * 128 + uint w mod 128) = uint f * 128 + uint w mod 128"
      by (rule signed_take_bit_int_eq_self; use bd in linarith)
    then show ?thesis using eq by (simp add: sint_uint)
  qed
  with eq show ?thesis by simp
qed

text \<open>The entry that translates a virtual page, in the page table or in the TLB.\<close>

definition maps_page :: "('h, 'm) ukernel_scheme \<Rightarrow> 32 word \<Rightarrow> nat \<Rightarrow> nat \<Rightarrow> TranslationEntry \<Rightarrow> bool" where
  "maps_page k vpn p i e \<longleftrightarrow>
     (\<exists>es. tables k p = Some es \<and> i < length es \<and> e = es ! i \<and> valid e \<and>
        (tlb (mach k) = None \<and> pageTable (mach k) = Some p \<and> i = unat vpn \<and>
           vpn < pageTableSize (mach k) \<or>
         tlb (mach k) = Some p \<and> virtualPage e = vpn))"

lemma unat_less_int: "unat w < n \<longleftrightarrow> uint w < int n"
proof -
  have "unat w < n \<longleftrightarrow> int (unat w) < int n" by (simp only: of_nat_less_iff)
  then show ?thesis by simp
qed

lemma entry_at_nth: "tables k p = Some es \<Longrightarrow> i < length es \<Longrightarrow> entry_at p i k = Inr (es ! i)"
  by (simp add: entry_at_def)

lemma find_entry_spec:
  assumes "translation_ok k"
  shows "\<exists>r. find_entry vpn k = Inr r \<and>
    (case r of Inl exn \<Rightarrow> exn = AddressErrorException \<or> exn = PageFaultException
     | Inr (p, i) \<Rightarrow> \<exists>e. maps_page k vpn p i e)"
proof -
  obtain p es where es: "tables k p = Some es" and
    t: "tlb (mach k) = None \<and> pageTable (mach k) = Some p \<and> uint (pageTableSize (mach k)) \<le> int (length es) \<or>
        tlb (mach k) = Some p \<and> pageTable (mach k) = None \<and> int (length es) = TLBSize"
    using assms by (auto simp: translation_ok_def)
  from t show ?thesis
  proof (elim disjE conjE)
    assume pt: "tlb (mach k) = None" "pageTable (mach k) = Some p"
      "uint (pageTableSize (mach k)) \<le> int (length es)"
    show ?thesis
    proof (cases "vpn < pageTableSize (mach k)")
      case False
      then show ?thesis using pt by (simp add: find_entry_def not_less)
    next
      case True
      then have "uint vpn < int (length es)" using pt(3) by (simp add: word_less_def)
      then have "unat vpn < length es" by (simp add: unat_less_int)
      with True pt es show ?thesis
        by (auto simp: find_entry_def entry_at_nth not_le maps_page_def)
    qed
  next
    assume tb: "tlb (mach k) = Some p" "pageTable (mach k) = None" "int (length es) = TLBSize"
    define P where "P i = (valid (es ! nat i) \<and> virtualPage (es ! nat i) = vpn)" for i :: int
    define test where "test i = rbind (entry_at p (nat i) k) (\<lambda>e. Inr (valid e \<and> virtualPage e = vpn))"
      for i :: int
    have step: "test i = Inr (P i)" if "0 \<le> i" "i < TLBSize" for i
      using that tb(3) es by (simp add: entry_at_def P_def aget_def test_def)
    obtain r where r: "find_range 0 TLBSize test = Inr r"
      "r = - 1 \<and> (\<forall>j. 0 \<le> j \<and> j < TLBSize \<longrightarrow> \<not> P j) \<or>
       0 \<le> r \<and> r < TLBSize \<and> P r \<and> (\<forall>j. 0 \<le> j \<and> j < r \<longrightarrow> \<not> P j)"
      using find_range_spec [of 0 TLBSize test P, OF step] by blast
    note r(1) [unfolded test_def]
    then have r1: "find_range 0 TLBSize (\<lambda>i. rbind (entry_at p (nat i) k) (\<lambda>e.
          Inr (valid e \<and> virtualPage e = vpn))) = Inr r" .
    show ?thesis
    proof (cases "r = - 1")
      case True
      then show ?thesis using r1 tb by (simp add: find_entry_def)
    next
      case False
      then have r': "0 \<le> r" "r < TLBSize" "P r" using r(2) by auto
      then have "nat r < length es" using tb(3) by linarith
      then have "maps_page k vpn p (nat r) (es ! nat r)"
        using es tb(1) r'(3) by (simp add: maps_page_def P_def)
      then show ?thesis using False r1 tb(1) by (simp add: find_entry_def) blast
    qed
  qed
qed

lemma maps_page_entry: "maps_page k vpn p i e \<Longrightarrow> entry_at p i k = Inr e"
  unfolding maps_page_def by (metis entry_at_nth)

definition physical :: "TranslationEntry \<Rightarrow> 32 word \<Rightarrow> int" where
  "physical e virtAddr = uint (physicalPage e) * 128 + uint virtAddr mod 128"

lemma physical_bounds:
  assumes "sz = 1 \<or> sz = 2 \<or> sz = 4" and "sz = 4 \<longrightarrow> uint a mod 4 = 0" and "sz = 2 \<longrightarrow> uint a mod 2 = 0"
  shows "uint (physicalPage e) * 128 \<le> physical e a \<and>
    physical e a + sz \<le> (uint (physicalPage e) + 1) * 128"
  using offset_room [OF assms] by (simp add: physical_def algebra_simps)

lemma Translate_unfold:
  assumes ok: "translation_ok k" and sz: "sz = 1 \<or> sz = 2 \<or> sz = 4"
    and al: "sz = 4 \<longrightarrow> uint a mod 4 = 0" "sz = 2 \<longrightarrow> uint a mod 2 = 0"
    and r: "find_entry (a div 128) k = Inr r"
  shows "Translate a sz wr k =
      (case r of
          Inl exn \<Rightarrow> Inr (exn, None, k)
        | Inr (p, i) \<Rightarrow>
            rbind (entry_at p i k) (\<lambda>entry.
            if readOnly entry \<and> wr then Inr (ReadOnlyException, None, k)
            else if physicalPage entry \<ge> 32 then Inr (BusErrorException, None, k)
            else rbind (ASSERT (sint (physicalPage entry * 128 + a mod 128) \<ge> 0 \<and>
                   sint (physicalPage entry * 128 + a mod 128) + sz \<le> MemorySize)) (\<lambda>_.
                 Inr (NoException, Some (sint (physicalPage entry * 128 + a mod 128)),
                   put_entry p i (entry\<lparr>used := True, dirty := dirty entry \<or> wr\<rparr>) k))))"
proof -
  have "(tlb (mach k) = None \<or> pageTable (mach k) = None) \<and>
      (tlb (mach k) \<noteq> None \<or> pageTable (mach k) \<noteq> None)"
    using ok by (auto simp: translation_ok_def)
  then show ?thesis
    using al r unfolding Translate_def and_3_iff and_1_iff
    by (auto simp: Let_def PageSize_def SectorSize_def NumPhysPages_def split: sum.split cong: if_cong)
qed

lemma Translate_found:
  assumes ok: "translation_ok k" and sz: "sz = 1 \<or> sz = 2 \<or> sz = 4"
    and al: "sz = 4 \<longrightarrow> uint a mod 4 = 0" "sz = 2 \<longrightarrow> uint a mod 2 = 0"
    and found: "find_entry (a div 128) k = Inr (Inr (p, i))" and e: "entry_at p i k = Inr e"
    and f: "\<not> (readOnly e \<and> wr \<or> physicalPage e \<ge> 32)"
  shows "Translate a sz wr k = Inr (NoException, Some (physical e a),
      put_entry p i (e\<lparr>used := True, dirty := dirty e \<or> wr\<rparr>) k)"
proof -
  have lt: "physicalPage e < 32" using f by (simp add: not_le)
  then have "uint (physicalPage e) < 32" by (simp add: word_less_def)
  then have "0 \<le> physical e a" "physical e a + sz \<le> MemorySize"
    using physical_bounds [OF sz al, of e] by (simp_all add: physical_def page_sizes)
  moreover have "sint (physicalPage e * 128 + a mod 128) = physical e a"
    by (simp add: physical_def frame_address [OF lt])
  ultimately show ?thesis using Translate_unfold [OF ok sz al found] e f by simp
qed

text \<open>
  Translation never fails an assertion. It returns an exception and changes nothing, or the
  address in the frame of the entry that maps the page, and marks that entry used.
\<close>

lemma Translate_spec:
  assumes ok: "translation_ok k" and sz: "sz = 1 \<or> sz = 2 \<or> sz = 4"
  shows "(\<exists>exn. Translate a sz wr k = Inr (exn, None, k) \<and> exn \<noteq> NoException) \<or>
    (\<exists>p i e. maps_page k (a div 128) p i e \<and> physicalPage e < 32 \<and> (wr \<longrightarrow> \<not> readOnly e) \<and>
      (sz = 4 \<longrightarrow> uint a mod 4 = 0) \<and> (sz = 2 \<longrightarrow> uint a mod 2 = 0) \<and>
      find_entry (a div 128) k = Inr (Inr (p, i)) \<and>
      Translate a sz wr k = Inr (NoException, Some (physical e a),
        put_entry p i (e\<lparr>used := True, dirty := dirty e \<or> wr\<rparr>) k))"
proof (cases "sz = 4 \<and> a AND 3 \<noteq> 0 \<or> sz = 2 \<and> a AND 1 \<noteq> 0")
  case True
  then have "Translate a sz wr k = Inr (AddressErrorException, None, k)"
    unfolding Translate_def by simp
  then show ?thesis by blast
next
  case False
  then have al: "sz = 4 \<longrightarrow> uint a mod 4 = 0" "sz = 2 \<longrightarrow> uint a mod 2 = 0"
    by (simp_all add: and_3_iff and_1_iff)
  obtain r where r: "find_entry (a div 128) k = Inr r"
    "case r of Inl exn \<Rightarrow> exn = AddressErrorException \<or> exn = PageFaultException
     | Inr (p, i) \<Rightarrow> \<exists>e. maps_page k (a div 128) p i e"
    using find_entry_spec [OF ok] by blast
  note unf = Translate_unfold [OF ok sz al r(1)]
  show ?thesis
  proof (cases r)
    case (Inl exn)
    with r(2) unf show ?thesis by auto
  next
    case (Inr pi)
    obtain p i where pi: "pi = (p, i)" by (cases pi)
    then obtain e where e: "maps_page k (a div 128) p i e" using r(2) Inr by auto
    show ?thesis
    proof (cases "readOnly e \<and> wr \<or> physicalPage e \<ge> 32")
      case True
      then show ?thesis using unf Inr pi maps_page_entry [OF e] by auto
    next
      case f: False
      then have lt: "physicalPage e < 32" by (simp add: not_le)
      then have "Translate a sz wr k = Inr (NoException, Some (physical e a),
          put_entry p i (e\<lparr>used := True, dirty := dirty e \<or> wr\<rparr>) k)"
        using Translate_found [OF ok sz al _ maps_page_entry [OF e]] r(1) Inr pi f by blast
      moreover have "find_entry (a div 128) k = Inr (Inr (p, i))" using r(1) Inr pi by simp
      ultimately      have "\<exists>e. maps_page k (a div 128) p i e \<and> physicalPage e < 32 \<and>
          (wr \<longrightarrow> \<not> readOnly e) \<and> (sz = 4 \<longrightarrow> uint a mod 4 = 0) \<and> (sz = 2 \<longrightarrow> uint a mod 2 = 0) \<and>
          find_entry (a div 128) k = Inr (Inr (p, i)) \<and>
          Translate a sz wr k = Inr (NoException, Some (physical e a),
            put_entry p i (e\<lparr>used := True, dirty := dirty e \<or> wr\<rparr>) k)" using e lt f al by auto
      then show ?thesis by - (rule disjI2, rule exI [of _ p], rule exI [of _ i])
    qed
  qed
qed

subsection \<open>Results that keep the machine well-formed\<close>

text \<open>
  \<open>good eh m Q\<close>: the operation returns with \<open>Q\<close>, or fails as the kernel's exception handler
  failed, or by an \<open>ASSERT\<close> or an integer division that overflows; never by an access outside an
  array or through a bad pointer.
\<close>

definition eh_ok :: "('h, 'm) exception_handler \<Rightarrow> bool" where
  "eh_ok eh \<longleftrightarrow> (\<forall>which k k'. mach_ok k \<longrightarrow> eh which k = Inr k' \<longrightarrow> mach_ok k')"

definition blame :: "('h, 'm) exception_handler \<Rightarrow> nerror \<Rightarrow> bool" where
  "blame eh e \<longleftrightarrow> e = AssertFailed \<or> e = SignedOverflow \<or> (\<exists>which k. mach_ok k \<and> eh which k = Inl e)"

definition good :: "('h, 'm) exception_handler \<Rightarrow> 'a result \<Rightarrow> ('a \<Rightarrow> bool) \<Rightarrow> bool" where
  "good eh m Q \<longleftrightarrow> (case m of Inl e \<Rightarrow> blame eh e | Inr x \<Rightarrow> Q x)"

named_theorems good_rules

lemma good_Inr [simp]: "good eh (Inr x) Q \<longleftrightarrow> Q x"
  by (simp add: good_def)

lemma good_ASSERT [simp]: "good eh (ASSERT c) Q \<longleftrightarrow> (c \<longrightarrow> Q ())"
  by (cases c) (simp_all add: good_def blame_def)

lemma good_overflow [simp]: "good eh (Inl SignedOverflow) Q"
  by (simp add: good_def blame_def)

lemma good_assert_failed [simp]: "good eh (Inl AssertFailed) Q"
  by (simp add: good_def blame_def)

lemma good_rbind [simp]: "good eh (rbind m f) Q \<longleftrightarrow> good eh m (\<lambda>x. good eh (f x) Q)"
  by (cases m) (simp_all add: good_def)

lemma good_mono: "good eh m P \<Longrightarrow> (\<And>x. P x \<Longrightarrow> Q x) \<Longrightarrow> good eh m Q"
  by (cases m) (simp_all add: good_def)

lemma RaiseException_good:
  assumes ok: "mach_ok k" and eh: "eh_ok eh"
  shows "good eh (RaiseException eh which a k) mach_ok"
proof -
  have "mach_ok (set_reg BadVAddrReg a k)"
    by (rule mach_ok_set_reg [OF ok]) (simp_all add: reg_numbers)
  then have "mach_ok0 (set_reg BadVAddrReg a k)" by (simp add: mach_ok_ok0)
  from DelayedLoad_ok [OF this, of 0 0] obtain k1 where
    k1: "DelayedLoad 0 0 (set_reg BadVAddrReg a k) = Inr k1" "mach_ok k1"
    by (auto simp: reg_numbers)
  define k2 where "k2 = k1\<lparr>status := SystemMode\<rparr>"
  have "mach_ok k2" using k1 by (simp add: k2_def)
  with eh have "good eh (eh which k2) mach_ok"
    by (cases "eh which k2") (auto simp: good_def blame_def eh_ok_def)
  note this [unfolded k2_def]
  then show ?thesis using k1 by (simp add: RaiseException_def)
qed

lemma load_bytes_total: "sz = 1 \<or> sz = 2 \<or> sz = 4 \<Longrightarrow> \<exists>v. load_bytes sz bs = Inr v"
  by (auto simp: load_bytes_def)

lemma store_bytes_total:
  "sz = 1 \<or> sz = 2 \<or> sz = 4 \<Longrightarrow> \<exists>bs. store_bytes sz v = Inr bs \<and> int (length bs) = sz"
  by (auto simp: store_bytes_def short_bytes_def)

text \<open>What an access does when it translates.\<close>

lemma ReadMem_hit:
  assumes ok: "mach_ok k" and sz: "sz = 1 \<or> sz = 2 \<or> sz = 4"
    and tr: "Translate a sz False k = Inr (NoException, Some pa, k')"
  shows "0 \<le> pa \<and> pa + sz \<le> MemorySize \<and> mach k' = mach k \<and>
    ReadMem eh a sz k = rbind (load_bytes sz (take (nat sz) (drop (nat pa) (mainMemory (mach k)))))
      (\<lambda>v. Inr (Some v, k'))"
proof -
  obtain p i e where e: "physicalPage e < 32" "sz = 4 \<longrightarrow> uint a mod 4 = 0" "sz = 2 \<longrightarrow> uint a mod 2 = 0"
    "pa = physical e a" "k' = put_entry p i (e\<lparr>used := True, dirty := dirty e \<or> False\<rparr>) k"
    using Translate_spec [of k sz a False] ok sz tr by (auto simp: mach_ok_def)
  have "uint (physicalPage e) < 32" using e(1) by (simp add: word_less_def)
  then have "0 \<le> pa" "pa + sz \<le> MemorySize"
    using physical_bounds [OF sz e(2,3), of e] e(4) by (simp_all add: physical_def page_sizes)
  moreover have "subarray (mainMemory (mach k)) pa sz =
      Inr (take (nat sz) (drop (nat pa) (mainMemory (mach k))))"
    using calculation ok sz by (auto simp: subarray_def mach_ok_def)
  ultimately show ?thesis using tr e(5) by (simp add: ReadMem_def)
qed

lemma WriteMem_hit:
  assumes ok: "mach_ok k" and sz: "sz = 1 \<or> sz = 2 \<or> sz = 4"
    and tr: "Translate a sz True k = Inr (NoException, Some pa, k')" and bs: "store_bytes sz v = Inr bs"
  shows "0 \<le> pa \<and> pa + sz \<le> MemorySize \<and> mach k' = mach k \<and>
    WriteMem eh a sz v k = Inr (True, set_memory (take (nat pa) (mainMemory (mach k)) @ bs @
      drop (nat (pa + sz)) (mainMemory (mach k))) k')"
proof -
  obtain p i e where e: "physicalPage e < 32" "sz = 4 \<longrightarrow> uint a mod 4 = 0" "sz = 2 \<longrightarrow> uint a mod 2 = 0"
    "pa = physical e a" "k' = put_entry p i (e\<lparr>used := True, dirty := dirty e \<or> True\<rparr>) k"
    using Translate_spec [of k sz a True] ok sz tr by (auto simp: mach_ok_def)
  have "uint (physicalPage e) < 32" using e(1) by (simp add: word_less_def)
  then have pa: "0 \<le> pa" "pa + sz \<le> MemorySize"
    using physical_bounds [OF sz e(2,3), of e] e(4) by (simp_all add: physical_def page_sizes)
  have len: "int (length bs) = sz" using store_bytes_total [OF sz, of v] bs by auto
  then have "take (nat sz) bs = bs" by simp
  then have "bcopy bs 0 (mainMemory (mach k)) pa sz = Inr (take (nat pa) (mainMemory (mach k)) @ bs @
      drop (nat (pa + sz)) (mainMemory (mach k)))"
    using pa len ok sz by (auto simp: bcopy_def mach_ok_def)
  with pa show ?thesis using tr e(5) bs by (simp add: WriteMem_def)
qed

lemma ReadMem_good:
  assumes ok: "mach_ok k" and eh: "eh_ok eh" and sz: "sz = 1 \<or> sz = 2 \<or> sz = 4"
  shows "good eh (ReadMem eh a sz k) (\<lambda>(v, k'). mach_ok k')"
proof -
  have "translation_ok k" using ok by (simp add: mach_ok_def)
  from Translate_spec [OF this sz, of a False] show ?thesis
  proof (elim disjE exE conjE)
    fix exn assume "Translate a sz False k = Inr (exn, None, k)"
    then show ?thesis using RaiseException_good [OF ok eh, of exn a] by (simp add: ReadMem_def)
  next
    fix p i e
    let ?k = "put_entry p i (e\<lparr>used := True, dirty := dirty e \<or> False\<rparr>) k"
    assume "Translate a sz False k = Inr (NoException, Some (physical e a), ?k)"
    moreover obtain v where "load_bytes sz (take (nat sz) (drop (nat (physical e a)) (mainMemory (mach k)))) = Inr v"
      using load_bytes_total [OF sz] by blast
    ultimately have "ReadMem eh a sz k = Inr (Some v, ?k)" using ReadMem_hit [OF ok sz] by simp
    then show ?thesis using mach_ok_put_entry [OF ok] by simp
  qed
qed

lemma WriteMem_good:
  assumes ok: "mach_ok k" and eh: "eh_ok eh" and sz: "sz = 1 \<or> sz = 2 \<or> sz = 4"
  shows "good eh (WriteMem eh a sz v k) (\<lambda>(b, k'). mach_ok k')"
proof -
  have "translation_ok k" using ok by (simp add: mach_ok_def)
  from Translate_spec [OF this sz, of a True] show ?thesis
  proof (elim disjE exE conjE)
    fix exn assume "Translate a sz True k = Inr (exn, None, k)"
    then show ?thesis using RaiseException_good [OF ok eh, of exn a] by (simp add: WriteMem_def)
  next
    fix p i e
    let ?k = "put_entry p i (e\<lparr>used := True, dirty := dirty e \<or> True\<rparr>) k" and ?pa = "physical e a"
    assume tr: "Translate a sz True k = Inr (NoException, Some ?pa, ?k)"
    obtain bs where bs: "store_bytes sz v = Inr bs" "int (length bs) = sz"
      using store_bytes_total [OF sz] by blast
    note hit = WriteMem_hit [OF ok sz tr bs(1), of eh]
    have "mach_ok (set_memory (take (nat ?pa) (mainMemory (mach k)) @ bs @
        drop (nat (?pa + sz)) (mainMemory (mach k))) ?k)"
      by (rule mach_ok_set_memory [OF mach_ok_put_entry [OF ok]])
        (use hit bs(2) ok sz in \<open>auto simp: mach_ok_def\<close>)
    with hit show ?thesis by simp
  qed
qed

subsection \<open>Reading back what was written\<close>

lemma entry_at_put:
  assumes "entry_at p i k = Inr e"
  shows "entry_at q j (put_entry p i e' k) = (if q = p \<and> j = i then Inr e' else entry_at q j k)"
  using assms unfolding entry_at_def put_entry_def
  by (auto simp: aget_def nth_list_update unat_less_int split: option.splits if_splits)

lemma find_entry_used:
  assumes e: "entry_at p i k = Inr e"
  shows "find_entry vpn (put_entry p i (e\<lparr>used := u, dirty := d\<rparr>) k) = find_entry vpn k"
proof -
  let ?k = "put_entry p i (e\<lparr>used := u, dirty := d\<rparr>) k"
  have 1: "rbind (entry_at q j ?k) (\<lambda>e. Inr (valid e \<and> virtualPage e = vpn)) =
      rbind (entry_at q j k) (\<lambda>e. Inr (valid e \<and> virtualPage e = vpn))" for q j
    using e by (simp add: entry_at_put [OF e])
  have 2: "rbind (entry_at q j ?k) (\<lambda>e. if \<not> valid e then Inr (Inl PageFaultException) else Inr (Inr (q, j))) =
      rbind (entry_at q j k) (\<lambda>e. if \<not> valid e then Inr (Inl PageFaultException) else Inr (Inr (q, j)))" for q j
    using e by (simp add: entry_at_put [OF e])
  show ?thesis unfolding find_entry_def put_entry_frame 1 2 ..
qed

lemma entry_at_memory [simp]: "entry_at p i (set_memory m k) = entry_at p i k"
  by (simp add: entry_at_def)

lemma find_entry_memory [simp]: "find_entry vpn (set_memory m k) = find_entry vpn k"
  unfolding find_entry_def entry_at_memory set_memory_frame ..

definition stored_value :: "int \<Rightarrow> 32 word \<Rightarrow> 32 word" where
  "stored_value sz v = (if sz = 4 then v else if sz = 2 then v AND 0xffff
     else scast (ucast v :: byte))"

lemma bytes_short_short_bytes: "bytes_short (short_bytes s) = s"
  by (auto simp: bytes_short_def short_bytes_def bit_eq_iff bit_simps dest: bit_imp_le_length)

lemma load_store:
  assumes "sz = 1 \<or> sz = 2 \<or> sz = 4" and "store_bytes sz v = Inr bs"
  shows "load_bytes sz bs = Inr (stored_value sz v)"
proof -
  have m: "(0xff :: 32 word) = mask 8" "(0xffff :: 32 word) = mask 16"
    by (simp_all add: mask_eq_exp_minus_1)
  have "ucast (v AND 0xff) = (ucast v :: byte)"
    unfolding m by (auto simp: bit_eq_iff bit_simps)
  moreover have "ucast (ucast (v AND 0xffff) :: 16 word) = v AND 0xffff"
    unfolding m by (auto simp: bit_eq_iff bit_simps)
  ultimately show ?thesis
    using assms by (auto simp: load_bytes_def store_bytes_def stored_value_def ShortToHost_def
        ShortToMachine_def WordToHost_def WordToMachine_def bytes_short_short_bytes)
qed

lemma WriteMem_ReadMem_spec:
  assumes ok: "mach_ok k" and sz: "sz = 1 \<or> sz = 2 \<or> sz = 4"
    and wr: "WriteMem eh a sz v k = Inr (True, k1)"
  shows "\<exists>pa k2. 0 \<le> pa \<and> pa + sz \<le> MemorySize \<and>
    ReadMem eh' a sz k1 = Inr (Some (stored_value sz v), k2) \<and> registers (mach k1) = registers (mach k) \<and>
    (\<forall>q. 0 \<le> q \<and> q < MemorySize \<and> (q < pa \<or> pa + sz \<le> q) \<longrightarrow>
      mainMemory (mach k1) ! nat q = mainMemory (mach k) ! nat q)"
proof -
  have tok: "translation_ok k" using ok by (simp add: mach_ok_def)
  have nofail: "\<not> Translate a sz True k = Inr (exn, None, k)" for exn
  proof
    assume "Translate a sz True k = Inr (exn, None, k)"
    then have "WriteMem eh a sz v k = rbind (RaiseException eh exn a k) (\<lambda>k. Inr (False, k))"
      by (simp add: WriteMem_def)
    with wr show False by auto
  qed
  obtain p i e where e: "maps_page k (a div 128) p i e" "physicalPage e < 32"
    "sz = 4 \<longrightarrow> uint a mod 4 = 0" "sz = 2 \<longrightarrow> uint a mod 2 = 0"
    "find_entry (a div 128) k = Inr (Inr (p, i))"
    "Translate a sz True k = Inr (NoException, Some (physical e a),
        put_entry p i (e\<lparr>used := True, dirty := dirty e \<or> True\<rparr>) k)"
    using Translate_spec [OF tok sz, of a True] by (elim disjE exE conjE) (simp add: nofail, rule that)
  define e' where "e' = e\<lparr>used := True, dirty := dirty e \<or> True\<rparr>"
  define pa where "pa = physical e a"
  obtain bs where bs: "store_bytes sz v = Inr bs" "int (length bs) = sz"
    using store_bytes_total [OF sz] by blast
  define mem where "mem = mainMemory (mach k)"
  define mem' where "mem' = take (nat pa) mem @ bs @ drop (nat (pa + sz)) mem"
  note hit = WriteMem_hit [OF ok sz e(6) bs(1), of eh, folded pa_def mem_def e'_def, folded mem'_def]
  have k1: "k1 = set_memory mem' (put_entry p i e' k)" using hit wr by simp
  have pa: "0 \<le> pa" "pa + sz \<le> MemorySize" using hit by auto
  have len: "int (length mem) = MemorySize" using ok by (simp add: mach_ok_def mem_def)
  have lt: "nat pa \<le> length mem" using pa len sz by linarith
  have entry: "entry_at p i k = Inr e" by (rule maps_page_entry [OF e(1)])
  have tr: "Translate a sz False k1 = Inr (NoException, Some (physical e' a),
      put_entry p i (e'\<lparr>used := True, dirty := dirty e' \<or> False\<rparr>) k1)"
  proof (rule Translate_found [OF _ sz e(3,4)])
    have "translation_ok (put_entry p i e' k)" using tok by simp
    then show "translation_ok k1" by (simp add: k1 translation_ok_def)
    show "find_entry (a div 128) k1 = Inr (Inr (p, i))"
      unfolding k1 e'_def find_entry_memory find_entry_used [OF entry] by (rule e(5))
    show "entry_at p i k1 = Inr e'" by (simp add: k1 entry_at_put [OF entry])
    show "\<not> (readOnly e' \<and> False \<or> physicalPage e' \<ge> 32)" using e(2) by (simp add: e'_def)
  qed
  have pa': "physical e' a = pa" by (simp add: physical_def e'_def pa_def)
  have "mach_ok (put_entry p i e' k)" by (rule mach_ok_put_entry [OF ok])
  then have ok1: "mach_ok k1"
    unfolding k1 by (rule mach_ok_set_memory) (use pa bs(2) len lt in \<open>simp add: mem'_def mem_def [symmetric]\<close>)
  have mem1: "mainMemory (mach k1) = mem'" by (simp add: k1)
  have "take (nat sz) (drop (nat pa) mem') = bs"
    using lt bs(2) by (simp add: mem'_def)
  then have "load_bytes sz (take (nat sz) (drop (nat pa) mem')) = Inr (stored_value sz v)"
    using load_store [OF sz bs(1)] by simp
  then obtain k2 where "ReadMem eh' a sz k1 = Inr (Some (stored_value sz v), k2)"
    using ReadMem_hit [OF ok1 sz tr, of eh'] by (simp add: pa' mem1)
  moreover have "mem' ! nat q = mem ! nat q" if q: "0 \<le> q" "q < MemorySize" "q < pa \<or> pa + sz \<le> q" for q
  proof (cases "q < pa")
    case True
    then have "nat q < nat pa" using q by linarith
    with lt show ?thesis by (simp add: mem'_def nth_append)
  next
    case False
    with q sz bs(2) len pa have "\<not> nat q < nat pa" "nat q - nat pa - length bs = nat q - nat (pa + sz)"
      "\<not> nat q - nat pa < length bs" "nat (pa + sz) \<le> length mem" "nat (pa + sz) \<le> nat q"
      by linarith+
    with lt show ?thesis by (simp add: mem'_def nth_append)
  qed
  ultimately show ?thesis using pa mem1 by (simp add: mem_def k1) blast
qed

subsection \<open>Properties\<close>

text \<open>A machine with one page mapped, for the witnesses: page 0 is in frame 3.\<close>

definition one_page :: "(unit, unit) ukernel_scheme" where
  "one_page = kernel.extend Initialize (ukernel.fields
     ((Machine_new False 1 0)\<lparr>pageTable := Some 1\<rparr>)
     [1 \<mapsto> [\<lparr>virtualPage = 0, physicalPage = 3, valid = True, readOnly = False, used = False, dirty = False\<rparr>]]
     (\<lambda>_ _. 0))"

lemma one_page_simps [simp]:
  "mach one_page = (Machine_new False 1 0)\<lparr>pageTable := Some 1\<rparr>"
  "tables one_page = [1 \<mapsto>
     [\<lparr>virtualPage = 0, physicalPage = 3, valid = True, readOnly = False, used = False, dirty = False\<rparr>]]"
  by (simp_all add: one_page_def kernel.defs ukernel.defs)

lemma one_page_ok: "mach_ok one_page"
  by (simp add: mach_ok_def Machine_new_def translation_ok_def reg_numbers page_sizes)

lemma ExceptionHandler_ok: "eh_ok ExceptionHandler"
  by (auto simp: eh_ok_def ExceptionHandler_def Halt_def split: if_splits)

lemma one_page_translate:
  "Translate 8 4 True one_page = Inr (NoException, Some 392, put_entry 1 0
     \<lparr>virtualPage = 0, physicalPage = 3, valid = True, readOnly = False, used = True, dirty = True\<rparr> one_page)"
proof -
  have "find_entry (8 div 128) one_page = Inr (Inr (1, 0))"
    by (simp add: find_entry_def Machine_new_def entry_at_def)
  moreover have "translation_ok one_page" using one_page_ok by (simp add: mach_ok_def)
  ultimately show ?thesis
    using Translate_found [of one_page 4 8 1 0 "\<lparr>virtualPage = 0, physicalPage = 3, valid = True,
        readOnly = False, used = False, dirty = False\<rparr>" True]
    by (simp add: entry_at_def physical_def)
qed

text \<open>
  C3: Translation on a well-formed machine never fails. It returns an exception and changes
  nothing, or an address inside the frame of a valid entry that maps the virtual page (writable
  when the access writes), with the whole access inside that frame and inside main memory, and
  marks that entry used, and dirty by a write. A program reaches no other frame.
\<close>

theorem Translate_isolates:
  assumes "mach_ok k" and "sz = 1 \<or> sz = 2 \<or> sz = 4"
  shows "\<exists>exn pa k'. Translate a sz wr k = Inr (exn, pa, k') \<and>
    (case pa of
       None \<Rightarrow> exn \<noteq> NoException \<and> k' = k
     | Some x \<Rightarrow> exn = NoException \<and>
         (\<exists>p i e. maps_page k (a div word_of_int PageSize) p i e \<and> (wr \<longrightarrow> \<not> readOnly e) \<and>
            x = uint (physicalPage e) * PageSize + uint a mod PageSize \<and>
            x + sz \<le> (uint (physicalPage e) + 1) * PageSize \<and> x + sz \<le> MemorySize \<and>
            k' = put_entry p i (e\<lparr>used := True, dirty := dirty e \<or> wr\<rparr>) k))"
proof -
  have "translation_ok k" using assms(1) by (simp add: mach_ok_def)
  from Translate_spec [OF this assms(2), of a wr] show ?thesis
  proof (elim disjE exE conjE)
    fix exn assume "Translate a sz wr k = Inr (exn, None, k)" "exn \<noteq> NoException"
    then show ?thesis by auto
  next
    fix p i e
    let ?k = "put_entry p i (e\<lparr>used := True, dirty := dirty e \<or> wr\<rparr>) k"
    assume t: "Translate a sz wr k = Inr (NoException, Some (physical e a), ?k)"
      and e: "maps_page k (a div 128) p i e" "physicalPage e < 32" "wr \<longrightarrow> \<not> readOnly e"
        "sz = 4 \<longrightarrow> uint a mod 4 = 0" "sz = 2 \<longrightarrow> uint a mod 2 = 0"
    have b: "physical e a + sz \<le> (uint (physicalPage e) + 1) * 128"
      using physical_bounds [OF assms(2) e(4,5), of e] by simp
    have "uint (physicalPage e) < 32" using e(2) by (simp add: word_less_def)
    with b have "physical e a + sz \<le> MemorySize" by (simp add: page_sizes)
    with b e have "\<exists>p i e'. maps_page k (a div word_of_int PageSize) p i e' \<and> (wr \<longrightarrow> \<not> readOnly e') \<and>
        physical e a = uint (physicalPage e') * PageSize + uint a mod PageSize \<and>
        physical e a + sz \<le> (uint (physicalPage e') + 1) * PageSize \<and> physical e a + sz \<le> MemorySize \<and>
        ?k = put_entry p i (e'\<lparr>used := True, dirty := dirty e' \<or> wr\<rparr>) k"
      by - (rule exI [of _ p], rule exI [of _ i], rule exI [of _ e],
          simp add: PageSize_def SectorSize_def physical_def)
    then show ?thesis unfolding t by (intro exI conjI) (rule refl, simp)
  qed
qed

theorem Translate_isolates_witness:
  "\<exists>p i e. maps_page one_page (8 div word_of_int PageSize) p i e \<and>
    392 = uint (physicalPage e) * PageSize + 8 mod PageSize"
  using Translate_isolates [OF one_page_ok, of 4 8 True] one_page_translate by auto

text \<open>
  C17: What a program stores it loads again: after a store of 1, 2 or 4 bytes that returned, a
  load of that size from the same address translates and returns the stored value (two bytes
  zero-extended, one byte sign-extended, as \<open>ReadMem\<close> returns them), and no other byte of main
  memory and no register changed.
\<close>

theorem WriteMem_then_ReadMem:
  assumes "mach_ok k" and "sz = 1 \<or> sz = 2 \<or> sz = 4" and "WriteMem eh a sz v k = Inr (True, k1)"
  shows "\<exists>pa k2. 0 \<le> pa \<and> pa + sz \<le> MemorySize \<and>
    ReadMem eh' a sz k1 = Inr (Some (stored_value sz v), k2) \<and> registers (mach k1) = registers (mach k) \<and>
    (\<forall>q. 0 \<le> q \<and> q < MemorySize \<and> (q < pa \<or> pa + sz \<le> q) \<longrightarrow>
      mainMemory (mach k1) ! nat q = mainMemory (mach k) ! nat q)"
  by (rule WriteMem_ReadMem_spec [OF assms])

theorem WriteMem_then_ReadMem_witness:
  "\<exists>k1 k2. WriteMem ExceptionHandler 8 4 77 one_page = Inr (True, k1) \<and>
    ReadMem ExceptionHandler 8 4 k1 = Inr (Some 77, k2)"
proof -
  obtain k1 where k1: "WriteMem ExceptionHandler 8 4 77 one_page = Inr (True, k1)"
    using WriteMem_hit [OF one_page_ok _ one_page_translate, of 77 "word_bytes 77" ExceptionHandler]
    by (auto simp: store_bytes_def WordToMachine_def WordToHost_def)
  from WriteMem_then_ReadMem [OF one_page_ok _ k1] show ?thesis using k1
    by (auto simp: stored_value_def)
qed

end
