(* ===== verification/Mips_Mult.thy ===== *)
theory Mips_Mult
  imports Nachos_Prelude
begin

section \<open>Multiplication, machine/mipssim.cc\<close>

text \<open>
  The simulated multiplication \<open>Mult\<close> and its proof against the 64-bit product.
\<close>

text \<open>
  The loop of \<open>Mult\<close> from its \<open>n\<close>-th last pass on: the shift of the signed \<open>a\<close> is arithmetic.
  It returns \<open>hi\<close> and \<open>lo\<close>.
\<close>

primrec mult_loop ::
  "nat \<Rightarrow> 32 word \<Rightarrow> 32 word \<Rightarrow> 32 word \<Rightarrow> 32 word \<Rightarrow> 32 word \<Rightarrow> 32 word \<times> 32 word" where
  "mult_loop 0 a bHi bLo hi lo = (hi, lo)"
| "mult_loop (Suc n) a bHi bLo hi lo =
     (let one = a AND 1 \<noteq> 0;
          lo' = (if one then lo + bLo else lo);
          hi' = (if one then (if lo' < bLo then hi + 1 else hi) + bHi else hi) in
      if one \<and> a AND 0xfffffffe = 0 then (hi', lo')
      else mult_loop n (signed_drop_bit 1 a)
             (if bLo AND 0x80000000 \<noteq> 0 then push_bit 1 bHi OR 1 else push_bit 1 bHi)
             (push_bit 1 bLo) hi' lo')"

definition Mult :: "32 word \<Rightarrow> 32 word \<Rightarrow> bool \<Rightarrow> 32 word \<times> 32 word" where
  "Mult a b signedArith =
     (if a = 0 \<or> b = 0 then (0, 0)
      else
        let negative = (signedArith \<and> (a <s 0) \<noteq> (b <s 0));
            a = (if signedArith \<and> a <s 0 then - a else a);
            b = (if signedArith \<and> b <s 0 then - b else b);
            (hi, lo) = mult_loop 32 a 0 b 0 0 in
        if negative
        then (if NOT lo + 1 = 0 then NOT hi + 1 else NOT hi, NOT lo + 1)
        else (hi, lo))"


text \<open>The double word in two registers.\<close>

definition join :: "32 word \<Rightarrow> 32 word \<Rightarrow> 64 word" where
  "join hi lo = word_of_int (uint hi * 2 ^ 32 + uint lo)"

lemma hi_mod: "word_of_int (x mod 2 ^ 32 * 2 ^ 32 + y) = (word_of_int (x * 2 ^ 32 + y) :: 64 word)"
proof -
  have "x mod 2 ^ 32 * 2 ^ 32 = x * 2 ^ 32 mod (2 ^ 64 :: int)"
    using mult_mod_right [of "2 ^ 32" x "2 ^ 32"] by (simp add: mult.commute)
  then have "(x mod 2 ^ 32 * 2 ^ 32 + y) mod 2 ^ 64 = (x * 2 ^ 32 + y) mod 2 ^ 64"
    by (simp add: mod_add_left_eq)
  then show ?thesis by (simp only: word_of_int_eq_iff take_bit_eq_mod) simp
qed

lemma join_add:
  "join (hi + bHi + (if lo + bLo < bLo then 1 else 0)) (lo + bLo) = join hi lo + join bHi bLo"
proof -
  let ?c = "if lo + bLo < bLo then 1 else (0::int)"
  have b: "0 \<le> uint lo" "uint lo < 2 ^ 32" "0 \<le> uint bLo" "uint bLo < 2 ^ 32"
    using uint_bounded [of lo] uint_bounded [of bLo] by simp_all
  have plus: "uint (lo + bLo) = (uint lo + uint bLo) mod 2 ^ 32" by (simp add: uint_word_ariths)
  have "uint (lo + bLo) = uint lo + uint bLo - ?c * 2 ^ 32"
  proof (cases "uint lo + uint bLo < 2 ^ 32")
    case True
    then have "uint (lo + bLo) = uint lo + uint bLo" using plus b by simp
    moreover from this have "\<not> lo + bLo < bLo" using b by (simp add: word_less_def)
    ultimately show ?thesis by simp
  next
    case False
    have "(uint lo + uint bLo - 2 ^ 32) mod 2 ^ 32 = uint lo + uint bLo - 2 ^ 32"
      by (rule mod_pos_pos_trivial) (use False b in linarith)+
    then have "uint (lo + bLo) = uint lo + uint bLo - 2 ^ 32"
      using plus by simp
    moreover from this have "lo + bLo < bLo" using b by (simp add: word_less_def)
    ultimately show ?thesis by simp
  qed
  moreover have "uint (hi + bHi + (if lo + bLo < bLo then 1 else 0)) = (uint hi + uint bHi + ?c) mod 2 ^ 32"
    by (simp add: uint_word_ariths mod_simps)
  moreover have "(uint hi + uint bHi + c) * 2 ^ 32 + (uint lo + uint bLo - c * 2 ^ 32) =
      (uint hi * 2 ^ 32 + uint lo) + (uint bHi * 2 ^ 32 + uint bLo)" for c :: int
    by (simp add: algebra_simps)
  ultimately show ?thesis unfolding join_def by (simp only: hi_mod of_int_add [symmetric])
qed

lemma join_bit: "bit (join hi lo) n \<longleftrightarrow> (if n < 32 then bit lo n else bit hi (n - 32))"
proof -
  have "uint hi * 2 ^ 32 + uint lo = push_bit 32 (uint hi) OR uint lo"
  proof -
    have "push_bit 32 (uint hi) AND uint lo = 0"
      by (auto simp: bit_eq_iff bit_simps dest: bit_imp_le_length)
    then have "push_bit 32 (uint hi) + uint lo = push_bit 32 (uint hi) OR uint lo"
      by (rule disjunctive_add_eq_or)
    then show ?thesis by (simp add: push_bit_eq_mult)
  qed
  then show ?thesis
    by (auto simp: join_def bit_simps dest: bit_imp_le_length)
qed

lemma bit_twice: "bit (x * 2) n \<longleftrightarrow> n < LENGTH('a) \<and> 0 < n \<and> bit x (n - 1)" for x :: "'a::len word"
  using bit_push_bit_iff [of 1 x n] by (auto simp: push_bit_eq_mult)

lemma join_shift:
  "join (if bLo AND 0x80000000 \<noteq> 0 then push_bit 1 bHi OR 1 else push_bit 1 bHi) (push_bit 1 bLo) =
    2 * join bHi bLo"
proof -
  have m: "bLo AND 0x80000000 \<noteq> 0 \<longleftrightarrow> bit bLo 31"
  proof -
    have e: "(0x80000000 :: 32 word) = 2 ^ 31" by simp
    show ?thesis unfolding e by (simp add: and_exp_eq_0_iff_not_bit del: power_numeral)
  qed
  have "join (if bit bLo 31 then push_bit 1 bHi OR 1 else push_bit 1 bHi) (push_bit 1 bLo) =
      join bHi bLo * 2"
  proof (rule bit_word_eqI)
    fix n assume "n < LENGTH(64)"
    then show "bit (join (if bit bLo 31 then push_bit 1 bHi OR 1 else push_bit 1 bHi) (push_bit 1 bLo)) n =
        bit (join bHi bLo * 2) n"
      by (cases "n = 32") (auto simp: join_bit bit_simps bit_twice not_less split: if_splits)
  qed
  then show ?thesis unfolding m by (simp add: mult.commute)
qed

text \<open>What is left of the factor \<open>a\<close> after some arithmetic shifts: its low bits are right.\<close>

lemma shift_low:
  "n \<le> 31 \<Longrightarrow> take_bit n (uint (signed_drop_bit 1 a)) = take_bit n (uint a div 2)" for a :: "32 word"
proof (rule bit_eqI)
  fix k
  assume n: "n \<le> 31"
  have "uint a div 2 = drop_bit 1 (uint a)" by (simp add: drop_bit_eq_div)
  then have 1: "bit (uint a div 2) k \<longleftrightarrow> bit a (1 + k)"
    by (simp add: bit_drop_bit_eq bit_uint_iff del: drop_bit_Suc) (auto dest: bit_imp_le_length)
  have 2: "bit (signed_drop_bit 1 a) k \<longleftrightarrow> bit a (1 + k)" if "k < n"
    using that n by (simp only: bit_signed_drop_bit_iff) auto
  have "bit (uint (signed_drop_bit 1 a)) k \<longleftrightarrow> bit (uint a div 2) k" if "k < n"
    using that n unfolding 1 bit_uint_iff 2 [OF that] by auto
  then show "bit (take_bit n (uint (signed_drop_bit 1 a))) k = bit (take_bit n (uint a div 2)) k"
    by (cases "k < n") (simp_all only: bit_take_bit_iff simp_thms)
qed

lemma low_bits:
  "take_bit (Suc n) (uint a) = (if a AND 1 \<noteq> 0 then 1 else 0) + 2 * take_bit n (uint a div 2)" for a :: "32 word"
proof -
  have "uint a mod 2 = (if a AND 1 \<noteq> 0 then 1 else 0)"
    unfolding and_1_iff by (simp add: mod_2_eq_odd)
  then show ?thesis by (simp only: take_bit_Suc mult.commute add.commute)
qed

lemma last_bit:
  "a AND 1 \<noteq> 0 \<Longrightarrow> a AND 0xfffffffe = 0 \<Longrightarrow> a = 1" for a :: "32 word"
proof -
  assume a: "a AND 1 \<noteq> 0" "a AND 0xfffffffe = 0"
  have "a = (a AND 1) OR (a AND NOT 1)" by (simp add: bit_eq_iff bit_simps) auto
  moreover have "(0xfffffffe :: 32 word) = NOT 1" by simp
  then have "a AND NOT 1 = 0" using a(2) by argo
  ultimately have "a = a AND 1" by (metis or.right_neutral)
  moreover have "a AND 1 = 1" using a(1) by (simp add: and_one_eq split: if_splits)
  ultimately show "a = 1" by simp
qed

lemma mult_loop_spec:
  "n \<le> 32 \<Longrightarrow> case_prod join (mult_loop n a bHi bLo hi lo) =
    join hi lo + join bHi bLo * word_of_int (take_bit n (uint a))"
proof (induction n arbitrary: a bHi bLo hi lo)
  case 0
  then show ?case by simp
next
  case (Suc n)
  define one where "one = (a AND 1 \<noteq> 0)"
  define lo' where "lo' = (if one then lo + bLo else lo)"
  define hi' where "hi' = (if one then (if lo' < bLo then hi + 1 else hi) + bHi else hi)"
  have sum: "join hi' lo' = join hi lo + join bHi bLo * (if one then 1 else 0)"
  proof (cases one)
    case True
    then have "hi' = hi + bHi + (if lo + bLo < bLo then 1 else 0)" by (simp add: hi'_def lo'_def)
    with True join_add [of hi bHi lo bLo] show ?thesis by (simp add: lo'_def)
  next
    case False
    then show ?thesis by (simp add: hi'_def lo'_def)
  qed
  have run: "mult_loop (Suc n) a bHi bLo hi lo =
      (if one \<and> a AND 0xfffffffe = 0 then (hi', lo')
       else mult_loop n (signed_drop_bit 1 a)
             (if bLo AND 0x80000000 \<noteq> 0 then push_bit 1 bHi OR 1 else push_bit 1 bHi)
             (push_bit 1 bLo) hi' lo')"
    by (simp add: Let_def one_def lo'_def hi'_def)
  have low: "take_bit (Suc n) (uint a) = (if one then 1 else 0) + 2 * take_bit n (uint a div 2)"
    unfolding one_def by (rule low_bits)
  show ?case
  proof (cases "one \<and> a AND 0xfffffffe = 0")
    case True
    then have "a = 1" using last_bit one_def by blast
    then have "take_bit (Suc n) (uint a) = 1" by simp
    with True run sum show ?thesis by simp
  next
    case False
    have "n \<le> 31" using Suc.prems by simp
    have "case_prod join (mult_loop (Suc n) a bHi bLo hi lo) =
        join hi' lo' + 2 * join bHi bLo * word_of_int (take_bit n (uint a div 2))"
      unfolding run if_not_P [OF False] join_shift [symmetric] shift_low [OF \<open>n \<le> 31\<close>, symmetric]
      by (rule Suc.IH) (use Suc.prems in simp)
    then show ?thesis unfolding sum low by (simp add: algebra_simps)
  qed
qed

lemma join_negate:
  "join (if NOT lo + 1 = 0 then NOT hi + 1 else NOT hi) (NOT lo + 1) = - join hi lo"
proof -
  have n: "NOT x + 1 = - x" for x :: "32 word" by (simp add: not_eq_complement)
  have m: "NOT x = - x - 1" for x :: "32 word" by (simp add: not_eq_complement)
  have "join (if - lo = 0 then - hi else - hi - 1) (- lo) = - join hi lo"
  proof (cases "lo = 0")
    case True
    have "uint (- hi) = (- uint hi) mod 2 ^ 32" by (simp add: uint_word_ariths)
    with True show ?thesis unfolding join_def
      by (simp only: neg_equal_zero simp_thms if_True minus_zero hi_mod hi_mod [where y = 0, simplified]) simp
  next
    case False
    then have pos: "0 < uint lo" "uint lo < 2 ^ 32"
      using uint_bounded [of lo] by (simp_all add: word_gt_0_no [symmetric] uint_0_iff order.strict_iff_order)
    have "(2 ^ 32 - uint lo) mod 2 ^ 32 = 2 ^ 32 - uint lo"
      by (rule mod_pos_pos_trivial) (use pos in linarith)+
    then have l: "uint (- lo) = 2 ^ 32 - uint lo" by (simp add: uint_word_ariths)
    have h: "uint (- hi - 1) = (- uint hi - 1) mod 2 ^ 32" by (simp add: uint_word_ariths mod_simps)
    have "(- uint hi - 1) * 2 ^ 32 + (2 ^ 32 - uint lo) = - (uint hi * 2 ^ 32 + uint lo)"
      by (simp add: algebra_simps)
    moreover have "- lo \<noteq> 0" using False by simp
    ultimately show ?thesis unfolding join_def by (simp only: if_False l h hi_mod of_int_minus)
  qed
  then show ?thesis unfolding n by (simp only: m)
qed

lemma sint_abs:
  "uint (if a <s 0 then - a else a) = \<bar>sint a\<bar>" for a :: "32 word"
proof -
  have "- (2 ^ 31) \<le> sint a" "sint a < 2 ^ 31"
    using sint_greater_eq [of a] sint_less [of a] by simp_all
  moreover have u: "uint a = sint a mod 2 ^ 32" by (simp add: uint_sint take_bit_eq_mod)
  moreover have "uint (- a) = (- sint a) mod 2 ^ 32" by (simp add: uint_word_ariths u mod_simps)
  ultimately show ?thesis by (auto simp: word_sless_alt mod_pos_pos_trivial)
qed

text \<open>\<open>Mult\<close> is the 64-bit product, of the signed or of the unsigned readings.\<close>

lemma Mult_spec:
  "case_prod join (Mult a b signedArith) =
    (if signedArith then word_of_int (sint a * sint b) else word_of_int (uint a * uint b))"
proof (cases "a = 0 \<or> b = 0")
  case True
  then show ?thesis by (auto simp: Mult_def join_def)
next
  case False
  define x where "x = (if signedArith \<and> a <s 0 then - a else a)"
  define y where "y = (if signedArith \<and> b <s 0 then - b else b)"
  obtain hi lo where r: "mult_loop 32 x 0 y 0 0 = (hi, lo)" by (cases "mult_loop 32 x 0 y 0 0")
  have "take_bit 32 (uint x) = uint x"
    using uint_bounded [of x] by (intro take_bit_int_eq_self) simp_all
  then have p: "join hi lo = word_of_int (uint y * uint x)"
    using mult_loop_spec [of 32 x 0 y 0 0] by (simp add: r join_def)
  have M: "Mult a b signedArith =
      (if signedArith \<and> (a <s 0) \<noteq> (b <s 0)
       then (if NOT lo + 1 = 0 then NOT hi + 1 else NOT hi, NOT lo + 1) else (hi, lo))"
    using False r by (simp add: Mult_def Let_def x_def y_def)
  show ?thesis
  proof (cases signedArith)
    case u: False
    have "Mult a b signedArith = (hi, lo)" unfolding M using u by simp
    moreover have "x = a" "y = b" using u by (simp_all add: x_def y_def)
    ultimately show ?thesis using p u by (simp add: mult.commute)
  next
    case s: True
    have xy: "uint x = \<bar>sint a\<bar>" "uint y = \<bar>sint b\<bar>" using s by (simp_all add: x_def y_def sint_abs)
    have neg: "(a <s 0) = (sint a < 0)" "(b <s 0) = (sint b < 0)" by (simp_all add: word_sless_alt)
    have "case_prod join (Mult a b signedArith) =
        (if (a <s 0) \<noteq> (b <s 0) then - join hi lo else join hi lo)"
      unfolding M using s by (simp add: join_negate)
    then show ?thesis using s unfolding neg p xy
      by (auto simp: abs_if mult.commute)
  qed
qed

subsection \<open>Properties\<close>

text \<open>
  C13: \<open>Mult\<close>, the shift-and-add loop over two 32-bit halves, leaves in \<open>hi\<close> and \<open>lo\<close> the full
  64-bit product: of the signed values for MULT (the most negative factor included), of the
  unsigned ones for MULTU.
\<close>

theorem Mult_is_product:
  "(case Mult a b signedArith of (hi, lo) \<Rightarrow> join hi lo) =
    (if signedArith then word_of_int (sint a * sint b) else word_of_int (uint a * uint b))"
  by (rule Mult_spec)

end
