(* ===== verification/Mips_Instructions.thy ===== *)
theory Mips_Instructions
  imports Mips_Machine Mips_Decode Mips_Mult
begin

section \<open>The instructions of the simulated CPU, machine/mipssim.cc\<close>

text \<open>
  One definition per case of the switch in \<open>OneInstruction\<close>, and the loop of \<open>Run\<close>.
  A case either breaks out of the switch, with the program counter after the next instruction
  and the delayed load to start, or returns from \<open>OneInstruction\<close> because it trapped.
\<close>

subsection \<open>Leaving the switch\<close>

datatype 'k flow =
    Break 'k (pc_after: "32 word") (next_load_reg: nat) (next_load_value: "32 word")
  | Return 'k

type_synonym ('h, 'm) exec =
  "('h, 'm) exception_handler \<Rightarrow> Instruction \<Rightarrow> 32 word \<Rightarrow> ('h, 'm) ukernel_scheme \<Rightarrow>
    ('h, 'm) ukernel_scheme flow result"

text \<open>\<open>break\<close> with the program counters unchanged from their defaults; \<open>pcAfter\<close> is \<open>NextPC + 4\<close>.\<close>

abbreviation break_with :: "32 word \<Rightarrow> ('h, 'm) ukernel_scheme \<Rightarrow> ('h, 'm) ukernel_scheme flow result" where
  "break_with pcAfter k \<equiv> Inr (Break k pcAfter 0 0)"

definition trap ::
  "('h, 'm) exception_handler \<Rightarrow> ExceptionType \<Rightarrow> 32 word \<Rightarrow> ('h, 'm) ukernel_scheme \<Rightarrow>
    ('h, 'm) ukernel_scheme flow result" where
  "trap eh which badVAddr k = rbind (RaiseException eh which badVAddr k) (\<lambda>k. Inr (Return k))"

text \<open>\<open>if (!machine->ReadMem(...)) return;\<close> and the same for \<open>WriteMem\<close>.\<close>

definition reading ::
  "('h, 'm) exception_handler \<Rightarrow> 32 word \<Rightarrow> int \<Rightarrow> ('h, 'm) ukernel_scheme \<Rightarrow>
    (32 word \<Rightarrow> ('h, 'm) ukernel_scheme \<Rightarrow> ('h, 'm) ukernel_scheme flow result) \<Rightarrow>
    ('h, 'm) ukernel_scheme flow result" where
  "reading eh addr sz k f =
     rbind (ReadMem eh addr sz k) (\<lambda>(v, k). case v of None \<Rightarrow> Inr (Return k) | Some x \<Rightarrow> f x k)"

definition writing ::
  "('h, 'm) exception_handler \<Rightarrow> 32 word \<Rightarrow> int \<Rightarrow> 32 word \<Rightarrow> ('h, 'm) ukernel_scheme \<Rightarrow>
    (('h, 'm) ukernel_scheme \<Rightarrow> ('h, 'm) ukernel_scheme flow result) \<Rightarrow>
    ('h, 'm) ukernel_scheme flow result" where
  "writing eh addr sz v k f =
     rbind (WriteMem eh addr sz v k) (\<lambda>(b, k). if b then f k else Inr (Return k))"

subsection \<open>Addition and logic\<close>

definition exec_ADD :: "('h, 'm) exec" where
  "exec_ADD eh i pcAfter k =
     (let sum = reg (rs i) k + reg (rt i) k in
      if (reg (rs i) k XOR reg (rt i) k) AND SIGN_BIT = 0 \<and> (reg (rs i) k XOR sum) AND SIGN_BIT \<noteq> 0
      then trap eh OverflowException 0 k
      else break_with pcAfter (set_reg (rd i) sum k))"

definition exec_ADDI :: "('h, 'm) exec" where
  "exec_ADDI eh i pcAfter k =
     (let sum = reg (rs i) k + extra i in
      if (reg (rs i) k XOR extra i) AND SIGN_BIT = 0 \<and> (extra i XOR sum) AND SIGN_BIT \<noteq> 0
      then trap eh OverflowException 0 k
      else break_with pcAfter (set_reg (rt i) sum k))"

definition exec_ADDIU :: "('h, 'm) exec" where
  "exec_ADDIU eh i pcAfter k =
     break_with pcAfter (set_reg (rt i) (reg (rs i) k + extra i) k)"

definition exec_ADDU :: "('h, 'm) exec" where
  "exec_ADDU eh i pcAfter k =
     break_with pcAfter (set_reg (rd i) (reg (rs i) k + reg (rt i) k) k)"

definition exec_AND :: "('h, 'm) exec" where
  "exec_AND eh i pcAfter k =
     break_with pcAfter (set_reg (rd i) (reg (rs i) k AND reg (rt i) k) k)"

definition exec_ANDI :: "('h, 'm) exec" where
  "exec_ANDI eh i pcAfter k =
     break_with pcAfter (set_reg (rt i) (reg (rs i) k AND (extra i AND 0xffff)) k)"

subsection \<open>Branches\<close>

definition exec_BEQ :: "('h, 'm) exec" where
  "exec_BEQ eh i pcAfter k =
     break_with (if reg (rs i) k = reg (rt i) k then reg NextPCReg k + IndexToAddr (extra i) else pcAfter) k"

definition exec_BGEZ :: "('h, 'm) exec" where
  "exec_BGEZ eh i pcAfter k =
     break_with (if reg (rs i) k AND SIGN_BIT = 0 then reg NextPCReg k + IndexToAddr (extra i) else pcAfter) k"

definition exec_BGEZAL :: "('h, 'm) exec" where
  "exec_BGEZAL eh i pcAfter k =
     exec_BGEZ eh i pcAfter (set_reg R31 (reg NextPCReg k + 4) k)"

definition exec_BGTZ :: "('h, 'm) exec" where
  "exec_BGTZ eh i pcAfter k =
     break_with (if 0 <s reg (rs i) k then reg NextPCReg k + IndexToAddr (extra i) else pcAfter) k"

definition exec_BLEZ :: "('h, 'm) exec" where
  "exec_BLEZ eh i pcAfter k =
     break_with (if reg (rs i) k \<le>s 0 then reg NextPCReg k + IndexToAddr (extra i) else pcAfter) k"

definition exec_BLTZ :: "('h, 'm) exec" where
  "exec_BLTZ eh i pcAfter k =
     break_with (if reg (rs i) k AND SIGN_BIT \<noteq> 0 then reg NextPCReg k + IndexToAddr (extra i) else pcAfter) k"

definition exec_BLTZAL :: "('h, 'm) exec" where
  "exec_BLTZAL eh i pcAfter k =
     exec_BLTZ eh i pcAfter (set_reg R31 (reg NextPCReg k + 4) k)"

definition exec_BNE :: "('h, 'm) exec" where
  "exec_BNE eh i pcAfter k =
     break_with (if reg (rs i) k \<noteq> reg (rt i) k then reg NextPCReg k + IndexToAddr (extra i) else pcAfter) k"

subsection \<open>Division, jumps\<close>

definition exec_DIV :: "('h, 'm) exec" where
  "exec_DIV eh i pcAfter k =
     (if reg (rt i) k = 0 then break_with pcAfter (set_reg HiReg 0 (set_reg LoReg 0 k))
      else if reg (rs i) k = SIGN_BIT \<and> reg (rt i) k = - 1 then Inl SignedOverflow
      else break_with pcAfter
        (set_reg HiReg (word_of_int (sint (reg (rs i) k) smod sint (reg (rt i) k)))
          (set_reg LoReg (word_of_int (sint (reg (rs i) k) sdiv sint (reg (rt i) k))) k)))"

definition exec_DIVU :: "('h, 'm) exec" where
  "exec_DIVU eh i pcAfter k =
     (if reg (rt i) k = 0 then break_with pcAfter (set_reg HiReg 0 (set_reg LoReg 0 k))
      else break_with pcAfter (set_reg HiReg (reg (rs i) k mod reg (rt i) k)
        (set_reg LoReg (reg (rs i) k div reg (rt i) k) k)))"

definition exec_J :: "('h, 'm) exec" where
  "exec_J eh i pcAfter k =
     break_with ((pcAfter AND 0xf0000000) OR IndexToAddr (extra i)) k"

definition exec_JAL :: "('h, 'm) exec" where
  "exec_JAL eh i pcAfter k =
     exec_J eh i pcAfter (set_reg R31 (reg NextPCReg k + 4) k)"

definition exec_JR :: "('h, 'm) exec" where
  "exec_JR eh i pcAfter k =
     break_with (reg (rs i) k) k"

definition exec_JALR :: "('h, 'm) exec" where
  "exec_JALR eh i pcAfter k =
     exec_JR eh i pcAfter (set_reg (rd i) (reg NextPCReg k + 4) k)"

subsection \<open>Loads\<close>

definition exec_LB :: "('h, 'm) exec" where
  "exec_LB eh i pcAfter k =
     reading eh (reg (rs i) k + extra i) 1 k (\<lambda>value k.
       Inr (Break k pcAfter (rt i)
         (if value AND 0x80 \<noteq> 0 \<and> opCode i = OP_LB then value OR 0xffffff00 else value AND 0xff)))"

definition exec_LH :: "('h, 'm) exec" where
  "exec_LH eh i pcAfter k =
     (let tmp = reg (rs i) k + extra i in
      if tmp AND 0x1 \<noteq> 0 then trap eh AddressErrorException tmp k
      else reading eh tmp 2 k (\<lambda>value k.
        Inr (Break k pcAfter (rt i)
          (if value AND 0x8000 \<noteq> 0 \<and> opCode i = OP_LH then value OR 0xffff0000 else value AND 0xffff))))"

definition exec_LUI :: "('h, 'm) exec" where
  "exec_LUI eh i pcAfter k =
     break_with pcAfter (set_reg (rt i) (push_bit 16 (extra i)) k)"

definition exec_LW :: "('h, 'm) exec" where
  "exec_LW eh i pcAfter k =
     (let tmp = reg (rs i) k + extra i in
      if tmp AND 0x3 \<noteq> 0 then trap eh AddressErrorException tmp k
      else reading eh tmp 4 k (\<lambda>value k. Inr (Break k pcAfter (rt i) value)))"

definition exec_LWL :: "('h, 'm) exec" where
  "exec_LWL eh i pcAfter k =
     (let tmp = reg (rs i) k + extra i in
      rbind (ASSERT (tmp AND 0x3 = 0)) (\<lambda>_.
      reading eh tmp 4 k (\<lambda>value k.
        let old = (if reg LoadReg k = word_of_nat (rt i) then reg LoadValueReg k else reg (rt i) k)
        in Inr (Break k pcAfter (rt i)
             (if tmp AND 0x3 = 0 then value
              else if tmp AND 0x3 = 1 then (old AND 0xff) OR push_bit 8 value
              else if tmp AND 0x3 = 2 then (old AND 0xffff) OR push_bit 16 value
              else (old AND 0xffffff) OR push_bit 24 value)))))"

definition exec_LWR :: "('h, 'm) exec" where
  "exec_LWR eh i pcAfter k =
     (let tmp = reg (rs i) k + extra i in
      rbind (ASSERT (tmp AND 0x3 = 0)) (\<lambda>_.
      reading eh tmp 4 k (\<lambda>value k.
        let old = (if reg LoadReg k = word_of_nat (rt i) then reg LoadValueReg k else reg (rt i) k)
        in Inr (Break k pcAfter (rt i)
             (if tmp AND 0x3 = 0 then (old AND 0xffffff00) OR (signed_drop_bit 24 value AND 0xff)
              else if tmp AND 0x3 = 1 then (old AND 0xffff0000) OR (signed_drop_bit 16 value AND 0xffff)
              else if tmp AND 0x3 = 2 then (old AND 0xff000000) OR (signed_drop_bit 8 value AND 0xffffff)
              else value)))))"

subsection \<open>The double register\<close>

definition exec_MFHI :: "('h, 'm) exec" where
  "exec_MFHI eh i pcAfter k =
     break_with pcAfter (set_reg (rd i) (reg HiReg k) k)"

definition exec_MFLO :: "('h, 'm) exec" where
  "exec_MFLO eh i pcAfter k =
     break_with pcAfter (set_reg (rd i) (reg LoReg k) k)"

definition exec_MTHI :: "('h, 'm) exec" where
  "exec_MTHI eh i pcAfter k =
     break_with pcAfter (set_reg HiReg (reg (rs i) k) k)"

definition exec_MTLO :: "('h, 'm) exec" where
  "exec_MTLO eh i pcAfter k =
     break_with pcAfter (set_reg LoReg (reg (rs i) k) k)"

definition exec_MULT :: "('h, 'm) exec" where
  "exec_MULT eh i pcAfter k =
     (let (hi, lo) = Mult (reg (rs i) k) (reg (rt i) k) True
      in break_with pcAfter (set_reg LoReg lo (set_reg HiReg hi k)))"

definition exec_MULTU :: "('h, 'm) exec" where
  "exec_MULTU eh i pcAfter k =
     (let (hi, lo) = Mult (reg (rs i) k) (reg (rt i) k) False
      in break_with pcAfter (set_reg LoReg lo (set_reg HiReg hi k)))"

definition exec_NOR :: "('h, 'm) exec" where
  "exec_NOR eh i pcAfter k =
     break_with pcAfter (set_reg (rd i) (NOT (reg (rs i) k OR reg (rt i) k)) k)"

definition exec_OR :: "('h, 'm) exec" where
  "exec_OR eh i pcAfter k =
     break_with pcAfter (set_reg (rd i) (reg (rs i) k OR reg (rs i) k) k)"

definition exec_ORI :: "('h, 'm) exec" where
  "exec_ORI eh i pcAfter k =
     break_with pcAfter (set_reg (rt i) (reg (rs i) k OR (extra i AND 0xffff)) k)"

subsection \<open>Stores and shifts\<close>

definition exec_SB :: "('h, 'm) exec" where
  "exec_SB eh i pcAfter k =
     writing eh (reg (rs i) k + extra i) 1 (reg (rt i) k) k (break_with pcAfter)"

definition exec_SH :: "('h, 'm) exec" where
  "exec_SH eh i pcAfter k =
     writing eh (reg (rs i) k + extra i) 2 (reg (rt i) k) k (break_with pcAfter)"

definition exec_SLL :: "('h, 'm) exec" where
  "exec_SLL eh i pcAfter k =
     break_with pcAfter (set_reg (rd i) (push_bit (unat (extra i)) (reg (rt i) k)) k)"

definition exec_SLLV :: "('h, 'm) exec" where
  "exec_SLLV eh i pcAfter k =
     break_with pcAfter (set_reg (rd i) (push_bit (unat (reg (rs i) k AND 0x1f)) (reg (rt i) k)) k)"

definition exec_SLT :: "('h, 'm) exec" where
  "exec_SLT eh i pcAfter k =
     break_with pcAfter (set_reg (rd i) (if reg (rs i) k <s reg (rt i) k then 1 else 0) k)"

definition exec_SLTI :: "('h, 'm) exec" where
  "exec_SLTI eh i pcAfter k =
     break_with pcAfter (set_reg (rt i) (if reg (rs i) k <s extra i then 1 else 0) k)"

definition exec_SLTIU :: "('h, 'm) exec" where
  "exec_SLTIU eh i pcAfter k =
     break_with pcAfter (set_reg (rt i) (if reg (rs i) k < extra i then 1 else 0) k)"

definition exec_SLTU :: "('h, 'm) exec" where
  "exec_SLTU eh i pcAfter k =
     break_with pcAfter (set_reg (rd i) (if reg (rs i) k < reg (rt i) k then 1 else 0) k)"

definition exec_SRA :: "('h, 'm) exec" where
  "exec_SRA eh i pcAfter k =
     break_with pcAfter (set_reg (rd i) (signed_drop_bit (unat (extra i)) (reg (rt i) k)) k)"

definition exec_SRAV :: "('h, 'm) exec" where
  "exec_SRAV eh i pcAfter k =
     break_with pcAfter (set_reg (rd i) (signed_drop_bit (unat (reg (rs i) k AND 0x1f)) (reg (rt i) k)) k)"

definition exec_SRL :: "('h, 'm) exec" where
  "exec_SRL eh i pcAfter k =
     break_with pcAfter (set_reg (rd i) (signed_drop_bit (unat (extra i)) (reg (rt i) k)) k)"

definition exec_SRLV :: "('h, 'm) exec" where
  "exec_SRLV eh i pcAfter k =
     break_with pcAfter (set_reg (rd i) (signed_drop_bit (unat (reg (rs i) k AND 0x1f)) (reg (rt i) k)) k)"

definition exec_SUB :: "('h, 'm) exec" where
  "exec_SUB eh i pcAfter k =
     (let diff = reg (rs i) k - reg (rt i) k in
      if (reg (rs i) k XOR reg (rt i) k) AND SIGN_BIT \<noteq> 0 \<and> (reg (rs i) k XOR diff) AND SIGN_BIT \<noteq> 0
      then trap eh OverflowException 0 k
      else break_with pcAfter (set_reg (rd i) diff k))"

definition exec_SUBU :: "('h, 'm) exec" where
  "exec_SUBU eh i pcAfter k =
     break_with pcAfter (set_reg (rd i) (reg (rs i) k - reg (rt i) k) k)"

definition exec_SW :: "('h, 'm) exec" where
  "exec_SW eh i pcAfter k =
     writing eh (reg (rs i) k + extra i) 4 (reg (rt i) k) k (break_with pcAfter)"

definition exec_SWL :: "('h, 'm) exec" where
  "exec_SWL eh i pcAfter k =
     (let tmp = reg (rs i) k + extra i in
      rbind (ASSERT (tmp AND 0x3 = 0)) (\<lambda>_.
      reading eh (tmp AND NOT 0x3) 4 k (\<lambda>value k.
        let value =
          (if tmp AND 0x3 = 0 then reg (rt i) k
           else if tmp AND 0x3 = 1
           then (value AND 0xff000000) OR (signed_drop_bit 8 (reg (rt i) k) AND 0xffffff)
           else if tmp AND 0x3 = 2
           then (value AND 0xffff0000) OR (signed_drop_bit 16 (reg (rt i) k) AND 0xffff)
           else (value AND 0xffffff00) OR (signed_drop_bit 24 (reg (rt i) k) AND 0xff))
        in writing eh (tmp AND NOT 0x3) 4 value k (break_with pcAfter))))"

definition exec_SWR :: "('h, 'm) exec" where
  "exec_SWR eh i pcAfter k =
     (let tmp = reg (rs i) k + extra i in
      rbind (ASSERT (tmp AND 0x3 = 0)) (\<lambda>_.
      reading eh (tmp AND NOT 0x3) 4 k (\<lambda>value k.
        let value =
          (if tmp AND 0x3 = 0 then (value AND 0xffffff) OR push_bit 24 (reg (rt i) k)
           else if tmp AND 0x3 = 1 then (value AND 0xffff) OR push_bit 16 (reg (rt i) k)
           else if tmp AND 0x3 = 2 then (value AND 0xff) OR push_bit 8 (reg (rt i) k)
           else reg (rt i) k)
        in writing eh (tmp AND NOT 0x3) 4 value k (break_with pcAfter))))"

subsection \<open>System calls, and what is left\<close>

definition exec_SYSCALL :: "('h, 'm) exec" where
  "exec_SYSCALL eh i pcAfter k =
     trap eh SyscallException 0 k"

definition exec_XOR :: "('h, 'm) exec" where
  "exec_XOR eh i pcAfter k =
     break_with pcAfter (set_reg (rd i) (reg (rs i) k XOR reg (rt i) k) k)"

definition exec_XORI :: "('h, 'm) exec" where
  "exec_XORI eh i pcAfter k =
     break_with pcAfter (set_reg (rt i) (reg (rs i) k XOR (extra i AND 0xffff)) k)"

definition exec_RES :: "('h, 'm) exec" where
  "exec_RES eh i pcAfter k =
     trap eh IllegalInstrException 0 k"

subsection \<open>One instruction\<close>

text \<open>The switch; its default case aborts.\<close>

definition execute :: "('h, 'm) exec" where
  "execute eh i pcAfter k =
     (case opCode i of
        OP_ADD \<Rightarrow> exec_ADD eh i pcAfter k
      | OP_ADDI \<Rightarrow> exec_ADDI eh i pcAfter k
      | OP_ADDIU \<Rightarrow> exec_ADDIU eh i pcAfter k
      | OP_ADDU \<Rightarrow> exec_ADDU eh i pcAfter k
      | OP_AND \<Rightarrow> exec_AND eh i pcAfter k
      | OP_ANDI \<Rightarrow> exec_ANDI eh i pcAfter k
      | OP_BEQ \<Rightarrow> exec_BEQ eh i pcAfter k
      | OP_BGEZ \<Rightarrow> exec_BGEZ eh i pcAfter k
      | OP_BGEZAL \<Rightarrow> exec_BGEZAL eh i pcAfter k
      | OP_BGTZ \<Rightarrow> exec_BGTZ eh i pcAfter k
      | OP_BLEZ \<Rightarrow> exec_BLEZ eh i pcAfter k
      | OP_BLTZ \<Rightarrow> exec_BLTZ eh i pcAfter k
      | OP_BLTZAL \<Rightarrow> exec_BLTZAL eh i pcAfter k
      | OP_BNE \<Rightarrow> exec_BNE eh i pcAfter k
      | OP_DIV \<Rightarrow> exec_DIV eh i pcAfter k
      | OP_DIVU \<Rightarrow> exec_DIVU eh i pcAfter k
      | OP_J \<Rightarrow> exec_J eh i pcAfter k
      | OP_JAL \<Rightarrow> exec_JAL eh i pcAfter k
      | OP_JALR \<Rightarrow> exec_JALR eh i pcAfter k
      | OP_JR \<Rightarrow> exec_JR eh i pcAfter k
      | OP_LB \<Rightarrow> exec_LB eh i pcAfter k
      | OP_LBU \<Rightarrow> exec_LB eh i pcAfter k
      | OP_LH \<Rightarrow> exec_LH eh i pcAfter k
      | OP_LHU \<Rightarrow> exec_LH eh i pcAfter k
      | OP_LUI \<Rightarrow> exec_LUI eh i pcAfter k
      | OP_LW \<Rightarrow> exec_LW eh i pcAfter k
      | OP_LWL \<Rightarrow> exec_LWL eh i pcAfter k
      | OP_LWR \<Rightarrow> exec_LWR eh i pcAfter k
      | OP_MFHI \<Rightarrow> exec_MFHI eh i pcAfter k
      | OP_MFLO \<Rightarrow> exec_MFLO eh i pcAfter k
      | OP_MTHI \<Rightarrow> exec_MTHI eh i pcAfter k
      | OP_MTLO \<Rightarrow> exec_MTLO eh i pcAfter k
      | OP_MULT \<Rightarrow> exec_MULT eh i pcAfter k
      | OP_MULTU \<Rightarrow> exec_MULTU eh i pcAfter k
      | OP_NOR \<Rightarrow> exec_NOR eh i pcAfter k
      | OP_OR \<Rightarrow> exec_OR eh i pcAfter k
      | OP_ORI \<Rightarrow> exec_ORI eh i pcAfter k
      | OP_SB \<Rightarrow> exec_SB eh i pcAfter k
      | OP_SH \<Rightarrow> exec_SH eh i pcAfter k
      | OP_SLL \<Rightarrow> exec_SLL eh i pcAfter k
      | OP_SLLV \<Rightarrow> exec_SLLV eh i pcAfter k
      | OP_SLT \<Rightarrow> exec_SLT eh i pcAfter k
      | OP_SLTI \<Rightarrow> exec_SLTI eh i pcAfter k
      | OP_SLTIU \<Rightarrow> exec_SLTIU eh i pcAfter k
      | OP_SLTU \<Rightarrow> exec_SLTU eh i pcAfter k
      | OP_SRA \<Rightarrow> exec_SRA eh i pcAfter k
      | OP_SRAV \<Rightarrow> exec_SRAV eh i pcAfter k
      | OP_SRL \<Rightarrow> exec_SRL eh i pcAfter k
      | OP_SRLV \<Rightarrow> exec_SRLV eh i pcAfter k
      | OP_SUB \<Rightarrow> exec_SUB eh i pcAfter k
      | OP_SUBU \<Rightarrow> exec_SUBU eh i pcAfter k
      | OP_SW \<Rightarrow> exec_SW eh i pcAfter k
      | OP_SWL \<Rightarrow> exec_SWL eh i pcAfter k
      | OP_SWR \<Rightarrow> exec_SWR eh i pcAfter k
      | OP_XOR \<Rightarrow> exec_XOR eh i pcAfter k
      | OP_XORI \<Rightarrow> exec_XORI eh i pcAfter k
      | OP_SYSCALL \<Rightarrow> exec_SYSCALL eh i pcAfter k
      | OP_UNIMP \<Rightarrow> exec_RES eh i pcAfter k
      | OP_RES \<Rightarrow> exec_RES eh i pcAfter k
      | _ \<Rightarrow> rbind (ASSERT False) (\<lambda>_. break_with pcAfter k))"

text \<open>\<open>OneInstruction\<close>; the tracing under \<open>DebugIsEnabled\<close> only prints.\<close>

definition OneInstruction ::
  "('h, 'm) exception_handler \<Rightarrow> ('h, 'm) ukernel_scheme \<Rightarrow> ('h, 'm) ukernel_scheme result" where
  "OneInstruction eh k =
     rbind (ReadMem eh (reg PCReg k) 4 k) (\<lambda>(raw, k).
     case raw of
       None \<Rightarrow> Inr k
     | Some w \<Rightarrow>
         rbind (execute eh (Decode w) (reg NextPCReg k + 4) k) (\<lambda>fl.
         case fl of
           Return k \<Rightarrow> Inr k
         | Break k pcAfter nextLoadReg nextLoadValue \<Rightarrow>
             rbind (DelayedLoad (word_of_nat nextLoadReg) nextLoadValue k) (\<lambda>k.
             let k = set_reg PrevPCReg (reg PCReg k) k;
                 k = set_reg PCReg (reg NextPCReg k) k in
             Inr (set_reg NextPCReg pcAfter k))))"

subsection \<open>Every instruction keeps the machine well-formed\<close>

definition instr_ok :: "Instruction \<Rightarrow> bool" where
  "instr_ok i \<longleftrightarrow> rs i < NumGPRegs \<and> rt i < NumGPRegs \<and> rd i < NumGPRegs"

text \<open>
  After a break the machine is as it must be but for register 0, which \<open>DelayedLoad\<close> clears; the
  target of the new delayed load is a general register.
\<close>

definition flow_ok :: "('h, 'm) ukernel_scheme flow \<Rightarrow> bool" where
  "flow_ok fl \<longleftrightarrow> (case fl of Break k pc r v \<Rightarrow> mach_ok0 k \<and> r < NumGPRegs | Return k \<Rightarrow> mach_ok k)"

lemma flow_ok_simps [simp]:
  "flow_ok (Break k pc r v) \<longleftrightarrow> mach_ok0 k \<and> r < NumGPRegs" "flow_ok (Return k) \<longleftrightarrow> mach_ok k"
  by (simp_all add: flow_ok_def)

lemma trap_good: "mach_ok k \<Longrightarrow> eh_ok eh \<Longrightarrow> good eh (trap eh which a k) flow_ok"
  by (auto simp: trap_def intro: good_mono [OF RaiseException_good])

lemma reading_good:
  assumes "mach_ok k" and "eh_ok eh" and "sz = 1 \<or> sz = 2 \<or> sz = 4"
    and "\<And>v k'. mach_ok k' \<Longrightarrow> good eh (f v k') flow_ok"
  shows "good eh (reading eh a sz k f) flow_ok"
  unfolding reading_def good_rbind
  by (rule good_mono [OF ReadMem_good [OF assms(1-3)]]) (auto split: option.split intro: assms(4))

lemma writing_good:
  assumes "mach_ok k" and "eh_ok eh" and "sz = 1 \<or> sz = 2 \<or> sz = 4"
    and "\<And>k'. mach_ok k' \<Longrightarrow> good eh (f k') flow_ok"
  shows "good eh (writing eh a sz v k f) flow_ok"
  unfolding writing_def good_rbind
  by (rule good_mono [OF WriteMem_good [OF assms(1-3)]]) (auto intro: assms(4))

text \<open>Writing a result register.\<close>

lemma result_ok:
  "mach_ok0 k \<Longrightarrow> j < NumGPRegs \<or> j = HiReg \<or> j = LoReg \<Longrightarrow> mach_ok0 (set_reg j v k)"
  by (rule mach_ok0_set_reg) (auto simp: reg_numbers)

lemma result_ok_R31: "mach_ok0 k \<Longrightarrow> mach_ok0 (set_reg R31 v k)"
  by (rule result_ok) (simp_all add: R31_def reg_numbers)

lemma zero_reg: "0 < NumGPRegs"
  by (simp add: reg_numbers)

text \<open>The instructions that only compute.\<close>

lemmas alu_defs = exec_ADDIU_def exec_ADDU_def exec_AND_def exec_ANDI_def exec_BEQ_def exec_BGEZ_def
  exec_BGEZAL_def exec_BGTZ_def exec_BLEZ_def exec_BLTZ_def exec_BLTZAL_def exec_BNE_def exec_DIV_def
  exec_DIVU_def exec_J_def exec_JAL_def exec_JR_def exec_JALR_def exec_LUI_def exec_MFHI_def
  exec_MFLO_def exec_MTHI_def exec_MTLO_def exec_MULT_def exec_MULTU_def exec_NOR_def exec_OR_def
  exec_ORI_def exec_SLL_def exec_SLLV_def exec_SLT_def exec_SLTI_def exec_SLTIU_def exec_SLTU_def
  exec_SRA_def exec_SRAV_def exec_SRL_def exec_SRLV_def exec_SUBU_def exec_XOR_def exec_XORI_def

lemmas mem_defs = exec_LB_def exec_LH_def exec_LW_def exec_LWL_def exec_LWR_def exec_SB_def exec_SH_def
  exec_SW_def exec_SWL_def exec_SWR_def

lemmas trap_defs = exec_ADD_def exec_ADDI_def exec_SUB_def exec_SYSCALL_def exec_RES_def

lemma execute_good:
  assumes eh: "eh_ok eh" and i: "instr_ok i" and k: "mach_ok k"
  shows "good eh (execute eh i pc k) flow_ok"
proof -
  have r: "rs i < NumGPRegs" "rt i < NumGPRegs" "rd i < NumGPRegs" "mach_ok0 k"
    using i k by (simp_all add: instr_ok_def mach_ok_ok0)
  note ok = r zero_reg result_ok result_ok_R31
  have break0: "mach_ok k' \<Longrightarrow> mach_ok0 k'" for k' :: "('a, 'b) ukernel_scheme"
    by (simp add: mach_ok_ok0)
  show ?thesis
    by (cases "opCode i")
      (simp_all add: execute_def alu_defs ok Let_def case_prod_beta,
       auto simp: mem_defs trap_defs Let_def ok eh k break0
         intro!: reading_good [OF _ eh] writing_good [OF _ eh] trap_good [OF _ eh])
qed

lemma reg_field: "unat (w AND 0x1f) < 32" for w :: "32 word"
proof -
  have "w AND 0x1f \<le> 0x1f" by (rule word_and_le1)
  then have "unat (w AND 0x1f) \<le> unat (0x1f :: 32 word)" by (simp only: word_le_nat_alt)
  then show ?thesis by simp
qed

lemma Decode_ok: "instr_ok (Decode w)"
  by (simp add: Decode_def instr_ok_def case_prod_beta Let_def reg_field NumGPRegs_def)

text \<open>What the two tables can yield.\<close>

definition handled_op :: "OpCode \<Rightarrow> bool" where
  "handled_op oc \<longleftrightarrow> oc \<noteq> OP_RFE \<and> oc \<noteq> SPECIAL \<and> oc \<noteq> BCOND"

lemma opTable_entries: "length opTable = 64" "list_all (\<lambda>e. fst e \<noteq> OP_RFE) opTable"
  by (simp_all add: opTable_def)

lemma specialTable_entries: "length specialTable = 64" "list_all handled_op specialTable"
  by (simp_all add: specialTable_def handled_op_def)

lemma six_bits: "unat (w AND 0x3f) < 64" for w :: "32 word"
proof -
  have "w AND 0x3f \<le> 0x3f" by (rule word_and_le1)
  then have "unat (w AND 0x3f) \<le> unat (0x3f :: 32 word)" by (simp only: word_le_nat_alt)
  then show ?thesis by simp
qed

lemma Decode_handled: "handled_op (opCode (Decode w))"
proof -
  have 1: "fst (opTable ! unat (drop_bit 26 w AND 0x3f)) \<noteq> OP_RFE"
    using opTable_entries six_bits [of "drop_bit 26 w"] by (simp add: list_all_length)
  have 2: "handled_op (specialTable ! unat (w AND 0x3f))"
    using specialTable_entries six_bits [of w] by (simp add: list_all_length)
  show ?thesis
    using 1 2 by (simp add: Decode_def case_prod_beta Let_def decode_op_def) (simp add: handled_op_def)
qed

text \<open>The immediate of a decoded instruction is the low half of the word, sign extended.\<close>

lemma bit_low_half: "bit (0xffff :: int) n \<longleftrightarrow> n < 16"
proof -
  have "(0xffff :: int) = mask 16" by (simp add: mask_eq_exp_minus_1)
  then show ?thesis by (simp only: bit_mask_iff) simp
qed

lemma bit_high_half: "bit (0xffff0000 :: int) n \<longleftrightarrow> 16 \<le> n \<and> n < 32"
proof -
  have "(0xffff0000 :: int) = push_bit 16 (mask 16)" by (simp add: mask_eq_exp_minus_1 push_bit_eq_mult)
  then show ?thesis by (simp only: bit_push_bit_iff bit_mask_iff) auto
qed

lemma half_sign: "(v AND 0xffff) AND 0x8000 \<noteq> 0 \<longleftrightarrow> bit v 15" for v :: "32 word"
proof -
  have e: "(0x8000 :: 32 word) = 2 ^ 15" by simp
  have "(v AND 0xffff) AND 0x8000 = v AND 2 ^ 15" unfolding and.assoc by simp
  then show ?thesis by (simp only:) (simp add: and_exp_eq_0_iff_not_bit del: power_numeral)
qed

lemma immediate: "decode_extra IFMT v = signed_take_bit 15 v"
proof (rule bit_word_eqI)
  fix n assume "n < LENGTH(32)"
  then show "bit (decode_extra IFMT v) n \<longleftrightarrow> bit (signed_take_bit 15 v :: 32 word) n"
    by (cases "n = 15")
      (auto simp: decode_extra_def Let_def half_sign bit_signed_take_bit_iff bit_or_iff bit_and_iff bit_low_half bit_high_half
        min_def not_le)
qed

lemma immediate_range: "- (2 ^ 15) \<le> sint (decode_extra IFMT v) \<and> sint (decode_extra IFMT v) < 2 ^ 15"
proof -
  have "sint (decode_extra IFMT v) = signed_take_bit 15 (sint v)"
    by (rule bit_eqI) (auto simp: immediate bit_sint_iff bit_signed_take_bit_iff min_def)
  then show ?thesis
    using signed_take_bit_int_greater_eq_minus_exp [of 15 "sint v"] signed_take_bit_int_less_exp [of 15 "sint v"] by simp
qed

text \<open>
  C19: Every word decodes to an instruction that the simulator can execute: the two tables are indexed within
  their bounds, the operation is none of the table entries that only select another table and none that
  \<open>OneInstruction\<close> lacks, the registers exist, and the extra field is within the range of its format,
  the immediate being the low half of the word, sign extended.
\<close>

theorem Decode_typed:
  "unat (drop_bit 26 w AND 0x3f) < length opTable \<and> unat (w AND 0x3f) < length specialTable \<and>
   opCode (Decode w) \<notin> {SPECIAL, BCOND, OP_RFE} \<and>
   rs (Decode w) < NumGPRegs \<and> rt (Decode w) < NumGPRegs \<and> rd (Decode w) < NumGPRegs \<and>
   (case snd (opTable ! unat (drop_bit 26 w AND 0x3f)) of
      IFMT \<Rightarrow> extra (Decode w) = signed_take_bit 15 w \<and> - (2 ^ 15) \<le> sint (extra (Decode w)) \<and> sint (extra (Decode w)) < 2 ^ 15
    | RFMT \<Rightarrow> extra (Decode w) < 32
    | JFMT \<Rightarrow> extra (Decode w) < 2 ^ 26)"
proof (intro conjI)
  show "unat (drop_bit 26 w AND 0x3f) < length opTable" "unat (w AND 0x3f) < length specialTable"
    by (simp_all only: opTable_entries specialTable_entries six_bits)
  show "opCode (Decode w) \<notin> {SPECIAL, BCOND, OP_RFE}" using Decode_handled [of w] by (simp add: handled_op_def)
  show "rs (Decode w) < NumGPRegs" "rt (Decode w) < NumGPRegs" "rd (Decode w) < NumGPRegs"
    using Decode_ok [of w] by (simp_all add: instr_ok_def)
  obtain oc fmt where e: "opTable ! unat (drop_bit 26 w AND 0x3f) = (oc, fmt)" by fastforce
  have x: "extra (Decode w) = decode_extra fmt w" by (simp only: Decode_def e Let_def prod.case Instruction.select_convs)
  have m5: "drop_bit 6 w AND 0x1f < 2 ^ 5" by (rule le_less_trans [OF word_and_le1]) simp
  have m26: "w AND 0x3ffffff < 2 ^ 26" by (rule le_less_trans [OF word_and_le1]) simp
  show "case snd (opTable ! unat (drop_bit 26 w AND 0x3f)) of
      IFMT \<Rightarrow> extra (Decode w) = signed_take_bit 15 w \<and> - (2 ^ 15) \<le> sint (extra (Decode w)) \<and> sint (extra (Decode w)) < 2 ^ 15
    | RFMT \<Rightarrow> extra (Decode w) < 32
    | JFMT \<Rightarrow> extra (Decode w) < 2 ^ 26"
  proof (cases fmt)
    case IFMT
    then show ?thesis using immediate_range [of w] by (simp add: e x immediate)
  next
    case JFMT
    then show ?thesis using m26 by (simp add: e x decode_extra_def)
  next
    case RFMT
    then show ?thesis using m5 by (simp add: e x decode_extra_def)
  qed
qed

lemma OneInstruction_good:
  assumes k: "mach_ok k" and eh: "eh_ok eh"
  shows "good eh (OneInstruction eh k) mach_ok"
proof -
  have step: "good eh (rbind (execute eh (Decode w) (reg NextPCReg k' + 4) k') (\<lambda>fl.
         case fl of
           Return k \<Rightarrow> Inr k
         | Break k pcAfter nextLoadReg nextLoadValue \<Rightarrow>
             rbind (DelayedLoad (word_of_nat nextLoadReg) nextLoadValue k) (\<lambda>k.
             let k = set_reg PrevPCReg (reg PCReg k) k;
                 k = set_reg PCReg (reg NextPCReg k) k in
             Inr (set_reg NextPCReg pcAfter k)))) mach_ok" if k': "mach_ok k'" for w k'
    unfolding good_rbind
  proof (rule good_mono [OF execute_good [OF eh Decode_ok k']])
    fix fl :: "('a, 'b) ukernel_scheme flow"
    assume fl: "flow_ok fl"
    show "good eh (case fl of
           Return k \<Rightarrow> Inr k
         | Break k pcAfter nextLoadReg nextLoadValue \<Rightarrow>
             rbind (DelayedLoad (word_of_nat nextLoadReg) nextLoadValue k) (\<lambda>k.
             let k = set_reg PrevPCReg (reg PCReg k) k;
                 k = set_reg PCReg (reg NextPCReg k) k in
             Inr (set_reg NextPCReg pcAfter k))) mach_ok"
    proof (cases fl)
      case (Return k1)
      with fl show ?thesis by simp
    next
      case (Break k1 pc r v)
      with fl have k1: "mach_ok0 k1" "r < 32" by (simp_all add: NumGPRegs_def)
      have "unat (word_of_nat r :: 32 word) = r" using k1(2) by (simp add: unat_of_nat)
      with DelayedLoad_ok [OF k1(1), of "word_of_nat r" v] k1(2) obtain k2 where
        k2: "DelayedLoad (word_of_nat r) v k1 = Inr k2" "mach_ok k2" by (auto simp: NumGPRegs_def)
      have "mach_ok (set_reg NextPCReg pc (set_reg PCReg (reg NextPCReg k2) (set_reg PrevPCReg (reg PCReg k2) k2)))"
        by (intro mach_ok_set_reg k2(2)) (simp_all add: reg_numbers)
      with Break k2(1) show ?thesis by (simp add: Let_def reg_numbers)
    qed
  qed
  show ?thesis
    unfolding OneInstruction_def good_rbind
  proof (rule good_mono [OF ReadMem_good [OF k eh]])
    show "(4::int) = 1 \<or> (4::int) = 2 \<or> (4::int) = 4" by simp
    fix vk :: "32 word option \<times> ('a, 'b) ukernel_scheme"
    assume ok: "case vk of (v, k') \<Rightarrow> mach_ok k'"
    obtain v k' where vk: "vk = (v, k')" by (cases vk)
    with ok have k': "mach_ok k'" by simp
    show "good eh (case vk of (raw, k) \<Rightarrow>
        case raw of
          None \<Rightarrow> Inr k
        | Some w \<Rightarrow>
            rbind (execute eh (Decode w) (reg NextPCReg k + 4) k) (\<lambda>fl.
            case fl of
              Return k \<Rightarrow> Inr k
            | Break k pcAfter nextLoadReg nextLoadValue \<Rightarrow>
                rbind (DelayedLoad (word_of_nat nextLoadReg) nextLoadValue k) (\<lambda>k.
                let k = set_reg PrevPCReg (reg PCReg k) k;
                    k = set_reg PCReg (reg NextPCReg k) k in
                Inr (set_reg NextPCReg pcAfter k)))) mach_ok"
      unfolding vk prod.case
      by (cases v; simp only: option.case good_Inr k' step [OF k'])
  qed
qed

subsection \<open>Overflow of ADD, ADDI and SUB\<close>

lemma and_sign_bit: "w AND SIGN_BIT \<noteq> 0 \<longleftrightarrow> bit w 31"
proof -
  have e: "SIGN_BIT = 2 ^ 31" by (simp add: SIGN_BIT_def)
  show ?thesis unfolding e by (simp add: and_exp_eq_0_iff_not_bit del: power_numeral)
qed

lemma bit_sign: "bit w 31 \<longleftrightarrow> sint w < 0" for w :: "32 word"
  using bit_last_iff [of w] by simp

lemma sign_bit_iff: "w AND SIGN_BIT \<noteq> 0 \<longleftrightarrow> sint w < 0"
  by (simp only: and_sign_bit bit_sign)

lemma same_sign_iff: "(v XOR w) AND SIGN_BIT = 0 \<longleftrightarrow> (sint v < 0) = (sint w < 0)"
  using and_sign_bit [of "v XOR w", unfolded bit_xor_iff, unfolded bit_sign] by blast

definition in_range :: "int \<Rightarrow> bool" where
  "in_range x \<longleftrightarrow> - (2 ^ 31) \<le> x \<and> x < 2 ^ 31"

lemma sint_wrap: "signed_take_bit 31 x = (x + 2 ^ 31) mod 2 ^ 32 - (2 ^ 31 :: int)"
  by (simp add: signed_take_bit_eq_take_bit_shift take_bit_eq_mod)

lemma sint_range: "- (2 ^ 31) \<le> sint w \<and> sint w < 2 ^ 31" for w :: "32 word"
  using sint_greater_eq [of w] sint_less [of w] by simp

lemma wrap_cases:
  fixes x :: int
  assumes "- (2 ^ 32) \<le> x" and "x < 2 ^ 32"
  shows "signed_take_bit 31 x = (if x < - (2 ^ 31) then x + 2 ^ 32 else if x < 2 ^ 31 then x else x - 2 ^ 32)"
proof -
  consider "x < - (2 ^ 31)" | "- (2 ^ 31) \<le> x" "x < 2 ^ 31" | "2 ^ 31 \<le> x" by linarith
  then show ?thesis
  proof cases
    case 1
    have "(x + 2 ^ 31 + 2 ^ 32) mod 2 ^ 32 = x + 2 ^ 31 + 2 ^ 32"
      by (rule mod_pos_pos_trivial) (use 1 assms in simp_all)
    moreover have "(x + 2 ^ 31 + 2 ^ 32) mod 2 ^ 32 = (x + 2 ^ 31) mod 2 ^ 32" by (simp only: mod_add_self2)
    ultimately show ?thesis unfolding sint_wrap using 1 by simp
  next
    case 2
    have "(x + 2 ^ 31) mod 2 ^ 32 = x + 2 ^ 31"
      by (rule mod_pos_pos_trivial) (use 2 in simp_all)
    with 2 show ?thesis unfolding sint_wrap by simp
  next
    case 3
    have "(x + 2 ^ 31 - 2 ^ 32) mod 2 ^ 32 = x + 2 ^ 31 - 2 ^ 32"
      by (rule mod_pos_pos_trivial) (use 3 assms in simp_all)
    moreover have "(x + 2 ^ 31 - 2 ^ 32) mod 2 ^ 32 = (x + 2 ^ 31) mod 2 ^ 32" by (simp only: minus_mod_self2)
    ultimately show ?thesis unfolding sint_wrap using 3 by simp
  qed
qed

lemma sint_add_cases:
  "sint (a + b) = (let x = sint a + sint b in
    if x < - (2 ^ 31) then x + 2 ^ 32 else if x < 2 ^ 31 then x else x - 2 ^ 32)" for a b :: "32 word"
  using sint_range [of a] sint_range [of b] wrap_cases [of "sint a + sint b"]
  by (simp add: sint_word_ariths Let_def)

lemma sint_sub_cases:
  "sint (a - b) = (let x = sint a - sint b in
    if x < - (2 ^ 31) then x + 2 ^ 32 else if x < 2 ^ 31 then x else x - 2 ^ 32)" for a b :: "32 word"
  using sint_range [of a] sint_range [of b] wrap_cases [of "sint a - sint b"]
  by (simp add: sint_word_ariths Let_def)

lemma add_overflow:
  "((a XOR b) AND SIGN_BIT = 0 \<and> (a XOR (a + b)) AND SIGN_BIT \<noteq> 0) \<longleftrightarrow> \<not> in_range (sint a + sint b)"
  using sint_range [of a] sint_range [of b]
  unfolding same_sign_iff sint_add_cases Let_def in_range_def by (auto split: if_splits)

lemma addi_overflow:
  "((a XOR b) AND SIGN_BIT = 0 \<and> (b XOR (a + b)) AND SIGN_BIT \<noteq> 0) \<longleftrightarrow> \<not> in_range (sint a + sint b)"
  using sint_range [of a] sint_range [of b]
  unfolding same_sign_iff sint_add_cases Let_def in_range_def by (auto split: if_splits)

lemma sub_overflow:
  "((a XOR b) AND SIGN_BIT \<noteq> 0 \<and> (a XOR (a - b)) AND SIGN_BIT \<noteq> 0) \<longleftrightarrow> \<not> in_range (sint a - sint b)"
  using sint_range [of a] sint_range [of b]
  unfolding same_sign_iff sint_sub_cases Let_def in_range_def by (auto split: if_splits)

subsection \<open>The fetch and execute loop\<close>

text \<open>
  \<open>Run\<close>: one instruction and one tick for ever; \<open>debugger\<close> is the interactive \<open>Debugger()\<close>.
\<close>

definition user_step ::
  "('h, 'm) exception_handler \<Rightarrow> ('h, ('h, 'm) ukernel_scheme) cpu \<Rightarrow>
    (('h, 'm) ukernel_scheme \<Rightarrow> ('h, 'm) ukernel_scheme result) \<Rightarrow> ('h, 'm) ukernel_scheme \<Rightarrow>
    ('h, 'm) ukernel_scheme result option" where
  "user_step eh cpu debugger k =
     orbind (Some (OneInstruction eh k)) (\<lambda>k.
     orbind (OneTick cpu k) (\<lambda>k.
     Some (if singleStep (mach k) \<and> runUntilTime (mach k) \<le> now k then debugger k else Inr k)))"

partial_function (option) run_loop ::
  "('h, 'm) exception_handler \<Rightarrow> ('h, ('h, 'm) ukernel_scheme) cpu \<Rightarrow>
    (('h, 'm) ukernel_scheme \<Rightarrow> ('h, 'm) ukernel_scheme result) \<Rightarrow> ('h, 'm) ukernel_scheme \<Rightarrow>
    ('h, 'm) ukernel_scheme result option" where
  "run_loop eh cpu debugger k = orbind (user_step eh cpu debugger k) (run_loop eh cpu debugger)"

definition Machine_Run ::
  "('h, 'm) exception_handler \<Rightarrow> ('h, ('h, 'm) ukernel_scheme) cpu \<Rightarrow>
    (('h, 'm) ukernel_scheme \<Rightarrow> ('h, 'm) ukernel_scheme result) \<Rightarrow> ('h, 'm) ukernel_scheme \<Rightarrow>
    ('h, 'm) ukernel_scheme result option" where
  "Machine_Run eh cpu debugger k = run_loop eh cpu debugger (k\<lparr>status := UserMode\<rparr>)"

text \<open>\<open>Run\<close> never returns normally: it ends in a failure or halts the machine, or goes on.\<close>

lemma run_loop_no_return: "run_loop eh cpu debugger k \<noteq> Some (Inr k')"
proof
  assume "run_loop eh cpu debugger k = Some (Inr k')"
  then have "\<exists>e. (Inr k' :: ('a, 'b) ukernel_scheme result) = Inl e"
  proof (rule run_loop.raw_induct [where P = "\<lambda>eh cpu debugger k r. \<exists>e. r = Inl e", rotated])
    fix f :: "('a, 'b) exception_handler \<Rightarrow> ('a, ('a, 'b) ukernel_scheme) cpu \<Rightarrow>
        (('a, 'b) ukernel_scheme \<Rightarrow> ('a, 'b) ukernel_scheme result) \<Rightarrow> ('a, 'b) ukernel_scheme \<Rightarrow>
        ('a, 'b) ukernel_scheme result option"
      and eh cpu debugger k r
    assume "\<And>eh cpu debugger k r. f eh cpu debugger k = Some r \<Longrightarrow> \<exists>e. r = Inl e"
      and "orbind (user_step eh cpu debugger k) (f eh cpu debugger) = Some r"
    then show "\<exists>e. r = Inl e"
      by (cases "user_step eh cpu debugger k") (auto simp: orbind_Some split: sum.splits)
  qed
  then show False by simp
qed

subsection \<open>Arithmetic and logical instructions\<close>

text \<open>
  What every arithmetic, logical, shift, comparison, multiply and divide instruction is to do, from
  the contents \<open>r\<close> of the registers: the registers it writes, or the overflow exception, or the
  division that overflows on the host.
\<close>

datatype alu_outcome = Writes "(nat \<times> 32 word) list" | Overflows | HostOverflows

definition alu_outcome :: "Instruction \<Rightarrow> (nat \<Rightarrow> 32 word) \<Rightarrow> alu_outcome option" where
  "alu_outcome i r =
     (let a = r (rs i); b = r (rt i); imm = extra i; low = imm AND 0xffff;
          sh = unat imm; shv = unat (a AND 0x1f);
          checked = (\<lambda>d x. if in_range x then Writes [(d, word_of_int x)] else Overflows);
          double = (\<lambda>x. Writes [(HiReg, word_of_int (x div 2 ^ 32)), (LoReg, word_of_int x)])
      in case opCode i of
        OP_ADD \<Rightarrow> Some (checked (rd i) (sint a + sint b))
      | OP_ADDI \<Rightarrow> Some (checked (rt i) (sint a + sint imm))
      | OP_SUB \<Rightarrow> Some (checked (rd i) (sint a - sint b))
      | OP_ADDIU \<Rightarrow> Some (Writes [(rt i, a + imm)])
      | OP_ADDU \<Rightarrow> Some (Writes [(rd i, a + b)])
      | OP_SUBU \<Rightarrow> Some (Writes [(rd i, a - b)])
      | OP_AND \<Rightarrow> Some (Writes [(rd i, a AND b)])
      | OP_ANDI \<Rightarrow> Some (Writes [(rt i, a AND low)])
      | OP_OR \<Rightarrow> Some (Writes [(rd i, a)])
      | OP_ORI \<Rightarrow> Some (Writes [(rt i, a OR low)])
      | OP_XOR \<Rightarrow> Some (Writes [(rd i, a XOR b)])
      | OP_XORI \<Rightarrow> Some (Writes [(rt i, a XOR low)])
      | OP_NOR \<Rightarrow> Some (Writes [(rd i, NOT (a OR b))])
      | OP_LUI \<Rightarrow> Some (Writes [(rt i, push_bit 16 imm)])
      | OP_SLT \<Rightarrow> Some (Writes [(rd i, if sint a < sint b then 1 else 0)])
      | OP_SLTI \<Rightarrow> Some (Writes [(rt i, if sint a < sint imm then 1 else 0)])
      | OP_SLTU \<Rightarrow> Some (Writes [(rd i, if uint a < uint b then 1 else 0)])
      | OP_SLTIU \<Rightarrow> Some (Writes [(rt i, if uint a < uint imm then 1 else 0)])
      | OP_SLL \<Rightarrow> Some (Writes [(rd i, push_bit sh b)])
      | OP_SLLV \<Rightarrow> Some (Writes [(rd i, push_bit shv b)])
      | OP_SRA \<Rightarrow> Some (Writes [(rd i, signed_drop_bit sh b)])
      | OP_SRAV \<Rightarrow> Some (Writes [(rd i, signed_drop_bit shv b)])
      | OP_SRL \<Rightarrow> Some (Writes [(rd i, signed_drop_bit sh b)])
      | OP_SRLV \<Rightarrow> Some (Writes [(rd i, signed_drop_bit shv b)])
      | OP_MULT \<Rightarrow> Some (double (sint a * sint b))
      | OP_MULTU \<Rightarrow> Some (double (uint a * uint b))
      | OP_DIV \<Rightarrow> Some (if b = 0 then Writes [(HiReg, 0), (LoReg, 0)]
          else if sint a = - (2 ^ 31) \<and> sint b = - 1 then HostOverflows
          else Writes [(HiReg, word_of_int (sint a smod sint b)), (LoReg, word_of_int (sint a sdiv sint b))])
      | OP_DIVU \<Rightarrow> Some (if b = 0 then Writes [(HiReg, 0), (LoReg, 0)]
          else Writes [(HiReg, word_of_int (uint a mod uint b)), (LoReg, word_of_int (uint a div uint b))])
      | OP_MFHI \<Rightarrow> Some (Writes [(rd i, r HiReg)])
      | OP_MFLO \<Rightarrow> Some (Writes [(rd i, r LoReg)])
      | OP_MTHI \<Rightarrow> Some (Writes [(HiReg, a)])
      | OP_MTLO \<Rightarrow> Some (Writes [(LoReg, a)])
      | _ \<Rightarrow> None)"

definition updated :: "(nat \<times> 32 word) list \<Rightarrow> (nat \<Rightarrow> 32 word) \<Rightarrow> nat \<Rightarrow> 32 word" where
  "updated ws r j = (case map_of ws j of None \<Rightarrow> r j | Some v \<Rightarrow> v)"

text \<open>
  All registers behind the instruction: what it wrote, the pending load delivered over it, no load
  pending, register 0 zero, and the program counters moved on.
\<close>

definition registers_after :: "(nat \<times> 32 word) list \<Rightarrow> (nat \<Rightarrow> 32 word) \<Rightarrow> nat \<Rightarrow> 32 word" where
  "registers_after ws r j =
     (if j = 0 \<or> j = LoadReg \<or> j = LoadValueReg then 0
      else if j = PCReg then r NextPCReg
      else if j = NextPCReg then r NextPCReg + 4
      else if j = PrevPCReg then r PCReg
      else if j = unat (r LoadReg) then r LoadValueReg
      else updated ws r j)"

lemma updated_one: "k\<lparr>mach := (mach k)\<lparr>registers := updated [(d, v)] (registers (mach k))\<rparr>\<rparr> = set_reg d v k"
proof -
  have u: "updated [(d, v)] r = r(d := v)" for r by (auto simp: updated_def fun_eq_iff)
  show ?thesis by (simp add: u set_reg_def)
qed

lemma updated_two: "k\<lparr>mach := (mach k)\<lparr>registers := updated [(d, v), (e, w)] (registers (mach k))\<rparr>\<rparr> = set_reg d v (set_reg e w k)"
proof -
  have u: "updated [(d, v), (e, w)] r = r(e := w, d := v)" for r by (auto simp: updated_def fun_eq_iff)
  show ?thesis by (simp add: u set_reg_def)
qed

lemma set_hi_lo: "set_reg LoReg w (set_reg HiReg v k) = set_reg HiReg v (set_reg LoReg w k)"
  by (simp add: set_reg_def reg_numbers fun_upd_twist)

lemma word_of_int_mod32: "word_of_int (x mod 2 ^ 32) = (word_of_int x :: 32 word)"
  by (simp add: word_of_int_eq_iff take_bit_eq_mod)

lemma word_of_uint_mod32: "uint (w :: 32 word) = x mod 2 ^ 32 \<Longrightarrow> w = word_of_int x"
  by (metis word_of_int_mod32 word_of_int_uint)

lemma join_halves:
  assumes "join hi lo = word_of_int x"
  shows "hi = word_of_int (x div 2 ^ 32)" and "lo = word_of_int x"
proof -
  have "uint (word_of_int (uint hi * 2 ^ 32 + uint lo) :: 64 word) = uint (word_of_int x :: 64 word)"
    using assms by (simp only: join_def)
  then have "(uint hi * 2 ^ 32 + uint lo) mod 2 ^ 64 = x mod 2 ^ 64" by (simp only: uint_word_of_int) simp
  moreover have h: "0 \<le> uint hi" "uint hi < 2 ^ 32" "0 \<le> uint lo" "uint lo < 2 ^ 32"
    using uint_bounded [of hi] uint_bounded [of lo] by simp_all
  ultimately have e: "uint hi * 2 ^ 32 + uint lo = x mod 2 ^ 64" by simp
  have "uint lo = x mod 2 ^ 64 mod 2 ^ 32" unfolding e [symmetric] using h by simp
  also have "\<dots> = x mod 2 ^ 32" by (rule mod_mod_cancel) simp
  finally show "lo = word_of_int x" by (rule word_of_uint_mod32)
  have "(uint hi * 2 ^ 32 + uint lo) div 2 ^ 32 = uint hi" using h by simp
  then have "uint hi = x mod (2 ^ 32 * 2 ^ 32) div 2 ^ 32" unfolding e by simp
  also have "x mod (2 ^ 32 * 2 ^ 32) = 2 ^ 32 * (x div 2 ^ 32 mod 2 ^ 32) + x mod 2 ^ 32" by (rule zmod_zmult2_eq) simp
  also have "(2 ^ 32 * (x div 2 ^ 32 mod 2 ^ 32) + x mod 2 ^ 32) div 2 ^ 32 = x div 2 ^ 32 mod 2 ^ 32" by simp
  finally show "hi = word_of_int (x div 2 ^ 32)" by (rule word_of_uint_mod32)
qed

lemma Mult_halves:
  "Mult a b True = (word_of_int (sint a * sint b div 2 ^ 32), word_of_int (sint a * sint b))"
  "Mult a b False = (word_of_int (uint a * uint b div 2 ^ 32), word_of_int (uint a * uint b))"
proof -
  obtain h l where m: "Mult a b True = (h, l)" by (cases "Mult a b True")
  have "join h l = word_of_int (sint a * sint b)" using Mult_spec [of a b True] m by simp
  from join_halves [OF this] show "Mult a b True = (word_of_int (sint a * sint b div 2 ^ 32), word_of_int (sint a * sint b))"
    unfolding m by (simp only: prod.inject)
  obtain h l where m: "Mult a b False = (h, l)" by (cases "Mult a b False")
  have "join h l = word_of_int (uint a * uint b)" using Mult_spec [of a b False] m by simp
  from join_halves [OF this] show "Mult a b False = (word_of_int (uint a * uint b div 2 ^ 32), word_of_int (uint a * uint b))"
    unfolding m by (simp only: prod.inject)
qed

text \<open>One case of the switch, and then the rest of \<open>OneInstruction\<close>.\<close>

lemma sum_in_range:
  "exec_ADD eh i pc k = (if in_range (sint (reg (rs i) k) + sint (reg (rt i) k))
     then break_with pc (set_reg (rd i) (word_of_int (sint (reg (rs i) k) + sint (reg (rt i) k))) k)
     else trap eh OverflowException 0 k)"
  "exec_ADDI eh i pc k = (if in_range (sint (reg (rs i) k) + sint (extra i))
     then break_with pc (set_reg (rt i) (word_of_int (sint (reg (rs i) k) + sint (extra i))) k)
     else trap eh OverflowException 0 k)"
  "exec_SUB eh i pc k = (if in_range (sint (reg (rs i) k) - sint (reg (rt i) k))
     then break_with pc (set_reg (rd i) (word_of_int (sint (reg (rs i) k) - sint (reg (rt i) k))) k)
     else trap eh OverflowException 0 k)"
  unfolding exec_ADD_def exec_ADDI_def exec_SUB_def Let_def add_overflow addi_overflow sub_overflow by simp_all

lemma min_word: "a = SIGN_BIT \<longleftrightarrow> sint a = - (2 ^ 31)" "a = - 1 \<longleftrightarrow> sint a = - 1" for a :: "32 word"
proof -
  have "sint SIGN_BIT = - (2 ^ 31)" by (simp add: SIGN_BIT_def)
  then show "a = SIGN_BIT \<longleftrightarrow> sint a = - (2 ^ 31)" by (metis signed_word_eqI)
  have "sint (- 1 :: 32 word) = - 1" by simp
  then show "a = - 1 \<longleftrightarrow> sint a = - 1" by (metis signed_word_eqI)
qed

lemma exec_alu:
  assumes "alu_outcome i (registers (mach k)) = Some out"
  shows "execute eh i pc k =
    (case out of
       Writes ws \<Rightarrow> break_with pc (k\<lparr>mach := (mach k)\<lparr>registers := updated ws (registers (mach k))\<rparr>\<rparr>)
     | Overflows \<Rightarrow> trap eh OverflowException 0 k
     | HostOverflows \<Rightarrow> Inl SignedOverflow)"
proof -
  note simps = alu_outcome_def execute_def sum_in_range alu_defs Mult_halves updated_one updated_two set_hi_lo min_word
    word_sless_alt word_less_def word_div_def word_mod_def Let_def
  show ?thesis using assms by (cases "opCode i") (auto simp: simps split: if_splits)
qed

lemma ReadMem_Some_mach:
  assumes "mach_ok k" and "ReadMem eh a 4 k = Inr (Some w, k1)"
  shows "mach k1 = mach k"
proof -
  have "translation_ok k" using assms(1) by (simp add: mach_ok_def)
  have "(4::int) = 1 \<or> (4::int) = 2 \<or> (4::int) = 4" by simp
  from Translate_spec [OF \<open>translation_ok k\<close> this, of a False] show ?thesis
  proof (elim disjE exE conjE)
    fix exn assume "Translate a 4 False k = Inr (exn, None, k)"
    with assms(2) show ?thesis by (auto simp: ReadMem_def)
  next
    fix p i e
    assume "Translate a 4 False k = Inr (NoException, Some (physical e a),
        put_entry p i (e\<lparr>used := True, dirty := dirty e \<or> False\<rparr>) k)"
    with assms(2) show ?thesis by (auto simp: ReadMem_def)
  qed
qed

text \<open>The special registers behind \<open>LoReg\<close> are written by no such instruction.\<close>

lemma alu_writes:
  assumes "alu_outcome (Decode w) r = Some (Writes ws)" and "LoReg < j"
  shows "updated ws q j = q j"
proof -
  have "rd (Decode w) < 32" "rt (Decode w) < 32" using Decode_ok [of w] by (simp_all add: instr_ok_def NumGPRegs_def)
  moreover have "fst ` set ws \<subseteq> {rd (Decode w), rt (Decode w), HiReg, LoReg}"
    using assms(1) by (cases "opCode (Decode w)") (auto simp: alu_outcome_def Let_def split: if_splits)
  ultimately have "j \<notin> fst ` set ws" using assms(2) by (auto simp: reg_numbers)
  then have "map_of ws j = None" by (simp add: map_of_eq_None_iff)
  then show ?thesis by (simp add: updated_def)
qed

lemma OneInstruction_alu:
  assumes ok: "mach_ok k" and fetch: "ReadMem eh (reg PCReg k) 4 k = Inr (Some w, k1)"
    and out: "alu_outcome (Decode w) (registers (mach k)) = Some out"
  shows "OneInstruction eh k =
    (case out of
       Writes ws \<Rightarrow> Inr (k1\<lparr>mach := (mach k)\<lparr>registers := registers_after ws (registers (mach k))\<rparr>\<rparr>)
     | Overflows \<Rightarrow> RaiseException eh OverflowException 0 k1
     | HostOverflows \<Rightarrow> Inl SignedOverflow)"
proof -
  have m: "mach k1 = mach k" by (rule ReadMem_Some_mach [OF ok fetch])
  have ex: "execute eh (Decode w) (reg NextPCReg k1 + 4) k1 =
    (case out of
       Writes ws \<Rightarrow> break_with (reg NextPCReg k1 + 4) (k1\<lparr>mach := (mach k1)\<lparr>registers := updated ws (registers (mach k1))\<rparr>\<rparr>)
     | Overflows \<Rightarrow> trap eh OverflowException 0 k1
     | HostOverflows \<Rightarrow> Inl SignedOverflow)"
    by (rule exec_alu) (simp add: m out)
  show ?thesis
  proof (cases out)
    case (Writes ws)
    let ?r = "registers (mach k)" and ?l = "reg LoadReg k"
    have l: "unat ?l < 32" using ok by (simp add: mach_ok_def NumGPRegs_def)
    note u = alu_writes [OF out [unfolded Writes], of _ "registers (mach k)"]
    have "DelayedLoad 0 0 (k1\<lparr>mach := (mach k1)\<lparr>registers := updated ws (registers (mach k1))\<rparr>\<rparr>) =
        Inr (set_reg 0 0 (set_reg LoadValueReg 0 (set_reg LoadReg 0 (set_reg (unat ?l) (reg LoadValueReg k)
          (k1\<lparr>mach := (mach k1)\<lparr>registers := updated ws (registers (mach k1))\<rparr>\<rparr>)))))"
      using l u by (simp add: DelayedLoad_def m Let_def reg_numbers)
    moreover have "(updated ws ?r)(unat ?l := reg LoadValueReg k, LoadReg := 0, LoadValueReg := 0, 0 := 0,
        PrevPCReg := reg PCReg k, PCReg := reg NextPCReg k, NextPCReg := reg NextPCReg k + 4) = registers_after ws ?r"
      using l by (auto simp: fun_eq_iff registers_after_def reg_numbers)
    ultimately show ?thesis
      using fetch ex Writes l u by (simp add: OneInstruction_def Let_def m set_reg_def reg_numbers)
  qed (use ex fetch in \<open>cases "RaiseException eh OverflowException 0 k1";
      simp add: OneInstruction_def trap_def Let_def\<close>)+
qed

subsection \<open>Properties\<close>

text \<open>
  C4: One instruction of any program on a well-formed machine leaves it well-formed (register 0
  is zero, the target of the pending load is a general register, memory and translation tables
  intact), or fails as the kernel's handler failed for the exception it raised, or by an
  \<open>ASSERT\<close> or by the division of the most negative number by -1: never by an access outside an
  array or through a bad pointer. No instruction word decodes to an operation that the switch
  does not handle.
\<close>

theorem OneInstruction_safe:
  assumes "mach_ok k" and "eh_ok eh"
  shows "(case OneInstruction eh k of
      Inr k' \<Rightarrow> mach_ok k'
    | Inl e \<Rightarrow> e = AssertFailed \<or> e = SignedOverflow \<or> (\<exists>which k1. mach_ok k1 \<and> eh which k1 = Inl e)) \<and>
    opCode (Decode w) \<noteq> OP_RFE \<and> opCode (Decode w) \<noteq> SPECIAL \<and> opCode (Decode w) \<noteq> BCOND"
  using OneInstruction_good [OF assms] Decode_handled [of w]
  by (simp add: good_def blame_def handled_op_def split: sum.splits)

theorem OneInstruction_safe_witness:
  "case OneInstruction ExceptionHandler one_page of
      Inr k' \<Rightarrow> mach_ok k'
    | Inl e \<Rightarrow> e = AssertFailed \<or> e = SignedOverflow \<or>
        (\<exists>which k1. mach_ok (k1 :: (unit, unit) ukernel_scheme) \<and> ExceptionHandler which k1 = Inl e)"
  using OneInstruction_safe [OF one_page_ok ExceptionHandler_ok, of 0] by blast

text \<open>
  ADD, ADDI and SUB raise \<open>OverflowException\<close>, and then leave their target alone, exactly when
  the sum or difference of the signed operands is no 32-bit integer; otherwise they store it.
\<close>

theorem add_sub_overflow:
  "exec_ADD eh i pc k =
     (let x = sint (reg (rs i) k) + sint (reg (rt i) k) in
      if - (2 ^ 31) \<le> x \<and> x < 2 ^ 31 then break_with pc (set_reg (rd i) (word_of_int x) k)
      else trap eh OverflowException 0 k) \<and>
   exec_ADDI eh i pc k =
     (let x = sint (reg (rs i) k) + sint (extra i) in
      if - (2 ^ 31) \<le> x \<and> x < 2 ^ 31 then break_with pc (set_reg (rt i) (word_of_int x) k)
      else trap eh OverflowException 0 k) \<and>
   exec_SUB eh i pc k =
     (let x = sint (reg (rs i) k) - sint (reg (rt i) k) in
      if - (2 ^ 31) \<le> x \<and> x < 2 ^ 31 then break_with pc (set_reg (rd i) (word_of_int x) k)
      else trap eh OverflowException 0 k)"
  unfolding exec_ADD_def exec_ADDI_def exec_SUB_def Let_def add_overflow addi_overflow sub_overflow
  by (simp add: in_range_def)

text \<open>
  C20: What an arithmetic, logical, shift, comparison, multiply, divide or hi/lo instruction does to
  the whole machine, fetched, decoded and executed in any state. The machine afterwards is the
  one after the fetch with exactly the registers of \<open>registers_after\<close>: the result in rd, rt or the double
  register, the pending load delivered over it, register 0 zero and the program counters moved on. ADD,
  ADDI and SUB whose signed result is no 32-bit integer raise \<open>OverflowException\<close> instead, and DIV of
  the most negative integer by -1 overflows on the host. The results (\<open>alu_outcome\<close>) are those of the MIPS
  manual, with three exceptions: OR copies rs whatever rt holds, and SRL and SRLV shift in copies of the
  sign bit like SRA and SRAV.
\<close>

theorem OneInstruction_computes:
  assumes "mach_ok k" and "ReadMem eh (reg PCReg k) 4 k = Inr (Some w, k1)"
    and "alu_outcome (Decode w) (registers (mach k)) = Some out"
  shows "OneInstruction eh k =
    (case out of
       Writes ws \<Rightarrow> Inr (k1\<lparr>mach := (mach k)\<lparr>registers := registers_after ws (registers (mach k))\<rparr>\<rparr>)
     | Overflows \<Rightarrow> RaiseException eh OverflowException 0 k1
     | HostOverflows \<Rightarrow> Inl SignedOverflow)"
  by (rule OneInstruction_alu [OF assms])

text \<open>The word 0x00430825 is OR r1,r2,r3; with 4 and 8 in r2 and r3 it leaves 4 in r1.\<close>

definition or_program :: "(unit, unit) ukernel_scheme" where
  "or_program = set_reg 3 8 (set_reg 2 4 (set_memory
     (replicate 384 0 @ word_bytes 0x00430825 @ replicate 3708 0) one_page))"

lemma or_program_ok: "mach_ok or_program"
  using one_page_ok by (simp add: or_program_def mach_ok_def translation_ok_def reg_numbers page_sizes)

lemma or_program_fetch: "\<exists>k1. ReadMem ExceptionHandler 0 4 or_program = Inr (Some 0x00430825, k1)"
proof -
  let ?e = "\<lparr>virtualPage = 0, physicalPage = 3, valid = True, readOnly = False, used = False, dirty = False\<rparr>"
  have f: "find_entry (0 div 128) or_program = Inr (Inr (1, 0))"
    by (simp add: or_program_def find_entry_def Machine_new_def entry_at_def)
  have "translation_ok or_program" using or_program_ok by (simp add: mach_ok_def)
  moreover have "(4::int) = 1 \<or> (4::int) = 2 \<or> (4::int) = 4" by simp
  ultimately have "\<exists>k1. Translate 0 4 False or_program = Inr (NoException, Some (physical ?e 0), k1)"
    using Translate_found [of or_program 4 0 1 0 ?e False] f
    by (simp add: or_program_def entry_at_def)
  then obtain k1 where t: "Translate 0 4 False or_program = Inr (NoException, Some 384, k1)"
    by (auto simp: physical_def)
  have "take 4 (drop 384 (mainMemory (mach or_program))) = word_bytes 0x00430825"
    by (simp add: or_program_def)
  with ReadMem_hit [OF or_program_ok _ t, of ExceptionHandler] show ?thesis
    by (simp add: load_bytes_def WordToHost_def)
qed

theorem OneInstruction_computes_witness:
  "\<exists>k'. OneInstruction ExceptionHandler or_program = Inr k' \<and> reg 1 k' = 4 \<and> (4 :: 32 word) \<noteq> 4 OR 8"
proof -
  define i where "i = Decode 0x00430825"
  have d: "opCode i = OP_OR" "rs i = 2" "rt i = 3" "rd i = 1"
    by (simp_all add: i_def Decode_def decode_op_def opTable_def specialTable_def)
  have r: "reg PCReg or_program = 0" "reg LoadReg or_program = 0" "reg 2 or_program = 4"
    by (simp_all add: or_program_def reg_numbers Machine_new_def)
  obtain k1 where f: "ReadMem ExceptionHandler (reg PCReg or_program) 4 or_program = Inr (Some 0x00430825, k1)"
    using or_program_fetch r(1) by auto
  have "alu_outcome (Decode 0x00430825) (registers (mach or_program)) = Some (Writes [(1, 4)])"
    using d r(3) unfolding i_def [symmetric] by (simp add: alu_outcome_def Let_def)
  from OneInstruction_computes [OF or_program_ok f this] r(2) show ?thesis
    by (simp add: registers_after_def updated_def reg_numbers)
qed

end
