(* ===== verification/Bitmap.thy ===== *)
theory Bitmap
  imports Nachos_Prelude
begin

section \<open>The bitmap of userprog/bitmap.cc\<close>

text \<open>
  \<open>BitMap\<close>: \<open>numBits\<close> bits in an array of 32-bit words, with \<open>Mark\<close>, \<open>Clear\<close>, \<open>Test\<close>,
  \<open>Find\<close>, \<open>NumClear\<close> and \<open>Print\<close>. The abstraction is the set of marked bit numbers
  (\<open>marked\<close>); the interface the file headers use is the locale \<open>allocation_map\<close>, interpreted
  at the end on the code's model. \<open>FetchFrom\<close> and \<open>WriteBack\<close>, which go through a file, are in
  the theory \<open>File_System\<close>.
\<close>

subsection \<open>State and operations\<close>

definition BitsInWord :: int where "BitsInWord = 32"

record BitMap =
  numBits :: int
  numWords :: int
  bwords :: "32 word list"

definition bit_of :: "int \<Rightarrow> 32 word" where
  "bit_of which = push_bit (nat (which smod BitsInWord)) 1"

definition BitMap_Mark :: "BitMap \<Rightarrow> int \<Rightarrow> BitMap result" where
  "BitMap_Mark b which =
     rbind (ASSERT (which \<ge> 0 \<and> which < numBits b)) (\<lambda>_.
     rbind (aget (bwords b) (which sdiv BitsInWord)) (\<lambda>w.
     rbind (aset (bwords b) (which sdiv BitsInWord) (w OR bit_of which)) (\<lambda>ws.
     Inr (b\<lparr>bwords := ws\<rparr>))))"

definition BitMap_Clear :: "BitMap \<Rightarrow> int \<Rightarrow> BitMap result" where
  "BitMap_Clear b which =
     rbind (ASSERT (which \<ge> 0 \<and> which < numBits b)) (\<lambda>_.
     rbind (aget (bwords b) (which sdiv BitsInWord)) (\<lambda>w.
     rbind (aset (bwords b) (which sdiv BitsInWord) (w AND NOT (bit_of which))) (\<lambda>ws.
     Inr (b\<lparr>bwords := ws\<rparr>))))"

definition BitMap_Test :: "BitMap \<Rightarrow> int \<Rightarrow> bool result" where
  "BitMap_Test b which =
     rbind (ASSERT (which \<ge> 0 \<and> which < numBits b)) (\<lambda>_.
     rbind (aget (bwords b) (which sdiv BitsInWord)) (\<lambda>w.
     Inr (if w AND bit_of which \<noteq> 0 then True else False)))"

text \<open>The constructor: the array \<open>operator new[]\<close> returns holds whatever \<open>raw\<close> says.\<close>

definition BitMap_new :: "(nat \<Rightarrow> 32 word) \<Rightarrow> int \<Rightarrow> BitMap result" where
  "BitMap_new raw nitems =
     (let words = divRoundUp nitems BitsInWord;
          b = \<lparr>numBits = nitems, numWords = words, bwords = map raw [0..<nat words]\<rparr>
      in for_range 0 nitems (\<lambda>i b. BitMap_Clear b i) b)"

function BitMap_Find_from :: "BitMap \<Rightarrow> int \<Rightarrow> (int \<times> BitMap) result" where
  "BitMap_Find_from b i =
     (if i < numBits b
      then rbind (BitMap_Test b i) (\<lambda>t.
        if \<not> t then rbind (BitMap_Mark b i) (\<lambda>b'. Inr (i, b'))
        else BitMap_Find_from b (i + 1))
      else Inr (- 1, b))"
  by pat_completeness auto
termination
  by (relation "measure (\<lambda>(b, i). nat (numBits b - i))") auto

declare BitMap_Find_from.simps [simp del]

definition BitMap_Find :: "BitMap \<Rightarrow> (int \<times> BitMap) result" where
  "BitMap_Find b = BitMap_Find_from b 0"

definition BitMap_NumClear :: "BitMap \<Rightarrow> int result" where
  "BitMap_NumClear b =
     for_range 0 (numBits b)
       (\<lambda>i count. rbind (BitMap_Test b i) (\<lambda>t. Inr (if \<not> t then count + 1 else count))) 0"

text \<open>\<open>Print\<close>: the bit numbers it prints, in order.\<close>

definition BitMap_Print :: "BitMap \<Rightarrow> int list result" where
  "BitMap_Print b =
     for_range 0 (numBits b)
       (\<lambda>i out. rbind (BitMap_Test b i) (\<lambda>t. Inr (if t then out @ [i] else out))) []"

subsection \<open>The set of marked bits\<close>

definition marked :: "BitMap \<Rightarrow> int set" where
  "marked b = {i. 0 \<le> i \<and> i < numBits b \<and> bit (bwords b ! nat (i div 32)) (nat (i mod 32))}"

definition bitmap_ok :: "BitMap \<Rightarrow> bool" where
  "bitmap_ok b \<longleftrightarrow>
     0 \<le> numBits b \<and> numWords b = divRoundUp (numBits b) BitsInWord \<and>
     int (length (bwords b)) = numWords b"

lemma marked_range: "marked b \<subseteq> {0..<numBits b}"
  by (auto simp: marked_def)

lemma finite_marked [simp]: "finite (marked b)"
  by (rule finite_subset [OF marked_range]) simp

text \<open>The word of a bit lies in the array, and two bits share word and position only if equal.\<close>

lemma word_index:
  assumes "bitmap_ok b" and "0 \<le> i" and "i < numBits b"
  shows "0 \<le> i div 32" and "i div 32 < int (length (bwords b))" and "nat (i div 32) < length (bwords b)"
proof -
  show "0 \<le> i div 32" using assms by simp
  have "numBits b \<le> divRoundUp (numBits b) 32 * 32"
    using assms by (intro divRoundUp_bounds) (auto simp: bitmap_ok_def)
  then have "i < int (length (bwords b)) * 32"
    using assms by (simp add: bitmap_ok_def BitsInWord_def)
  then show "i div 32 < int (length (bwords b))" by linarith
  then show "nat (i div 32) < length (bwords b)" using assms by linarith
qed

lemma bit_of_exp: "0 \<le> i \<Longrightarrow> bit_of i = 2 ^ nat (i mod 32)"
  by (simp add: bit_of_def BitsInWord_def push_bit_eq_mult)

lemma bit_number_eq:
  "0 \<le> i \<Longrightarrow> 0 \<le> j \<Longrightarrow>
    nat (i div 32) = nat (j div 32) \<and> nat (i mod 32) = nat (j mod 32) \<longleftrightarrow> i = (j::int)"
  by (metis eq_nat_nat_iff div_mult_mod_eq pos_imp_zdiv_nonneg_iff pos_mod_sign zero_less_numeral)

lemma Test_spec:
  assumes "bitmap_ok b" and "0 \<le> i" and "i < numBits b"
  shows "BitMap_Test b i = Inr (i \<in> marked b)"
  using assms word_index [OF assms]
  by (simp add: BitMap_Test_def BitsInWord_def bit_of_exp and_exp_eq_0_iff_not_bit marked_def)

lemma bit_list_update:
  "p < length ws \<Longrightarrow> bit (ws[p := w] ! q) m = (if q = p then bit w m else bit (ws ! q) m)"
  by (simp add: nth_list_update)

lemma update_word_spec:
  assumes ok: "bitmap_ok b" and i: "0 \<le> i" "i < numBits b"
    and bits: "\<And>n. n < 32 \<Longrightarrow>
      bit w n \<longleftrightarrow> (if n = nat (i mod 32) then v else bit (bwords b ! nat (i div 32)) n)"
  shows "bitmap_ok (b\<lparr>bwords := (bwords b)[nat (i div 32) := w]\<rparr>)"
    and "marked (b\<lparr>bwords := (bwords b)[nat (i div 32) := w]\<rparr>) =
         (if v then insert i (marked b) else marked b - {i})"
proof -
  show "bitmap_ok (b\<lparr>bwords := (bwords b)[nat (i div 32) := w]\<rparr>)"
    using ok by (simp add: bitmap_ok_def)
  let ?b = "b\<lparr>bwords := (bwords b)[nat (i div 32) := w]\<rparr>"
  have mem: "j \<in> marked ?b \<longleftrightarrow> (if j = i then v else j \<in> marked b)" for j
  proof (cases "0 \<le> j \<and> j < numBits b")
    case True
    then have "nat (j mod 32) < 32" by (simp add: nat_less_iff)
    then have n: "nat (j mod 32) < 32" .
    have "bit ((bwords b)[nat (i div 32) := w] ! nat (j div 32)) (nat (j mod 32)) \<longleftrightarrow>
        (if j = i then v else bit (bwords b ! nat (j div 32)) (nat (j mod 32)))"
      using bits [OF n] bit_number_eq [of j i] i True
      by (simp only: bit_list_update [OF word_index(3) [OF ok i]] split: if_split) metis
    then show ?thesis
      using True i by (simp add: marked_def)
  next
    case False
    with i show ?thesis by (auto simp: marked_def)
  qed
  show "marked ?b = (if v then insert i (marked b) else marked b - {i})"
  proof (rule set_eqI)
    fix j
    show "j \<in> marked ?b \<longleftrightarrow> j \<in> (if v then insert i (marked b) else marked b - {i})"
      using mem [of j] by (cases "j = i") simp_all
  qed
qed

lemma Mark_spec:
  assumes ok: "bitmap_ok b" and i: "0 \<le> i" "i < numBits b"
  shows "\<exists>b'. BitMap_Mark b i = Inr b' \<and> bitmap_ok b' \<and> numBits b' = numBits b \<and>
    marked b' = insert i (marked b)"
proof -
  let ?w = "bwords b ! nat (i div 32) OR bit_of i"
  have "bit ?w n \<longleftrightarrow> (if n = nat (i mod 32) then True else bit (bwords b ! nat (i div 32)) n)"
    if "n < 32" for n
    using that i by (auto simp: bit_of_exp bit_simps)
  note upd = update_word_spec [OF ok i this]
  with i word_index [OF ok i] show ?thesis
    by (simp add: BitMap_Mark_def BitsInWord_def)
qed

lemma Clear_spec:
  assumes ok: "bitmap_ok b" and i: "0 \<le> i" "i < numBits b"
  shows "\<exists>b'. BitMap_Clear b i = Inr b' \<and> bitmap_ok b' \<and> numBits b' = numBits b \<and>
    marked b' = marked b - {i}"
proof -
  let ?w = "bwords b ! nat (i div 32) AND NOT (bit_of i)"
  have "bit ?w n \<longleftrightarrow> (if n = nat (i mod 32) then False else bit (bwords b ! nat (i div 32)) n)"
    if "n < 32" for n
    using that i by (auto simp: bit_of_exp bit_simps)
  note upd = update_word_spec [OF ok i this]
  with i word_index [OF ok i] show ?thesis
    by (simp add: BitMap_Clear_def BitsInWord_def)
qed

subsection \<open>The loops\<close>

lemma BitMap_new_spec:
  assumes "0 \<le> n"
  shows "\<exists>b. BitMap_new raw n = Inr b \<and> bitmap_ok b \<and> numBits b = n \<and> marked b = {}"
proof -
  let ?b = "\<lparr>numBits = n, numWords = divRoundUp n BitsInWord,
    bwords = map raw [0..<nat (divRoundUp n BitsInWord)]\<rparr>"
  let ?P = "\<lambda>i b. bitmap_ok b \<and> numBits b = n \<and> marked b \<subseteq> {i..<n}"
  have "?P 0 ?b"
    using assms marked_range [of ?b] divRoundUp_nonneg_result [OF assms, of 32]
    by (simp add: bitmap_ok_def BitsInWord_def)
  then have "\<exists>b. for_range 0 n (\<lambda>i b. BitMap_Clear b i) ?b = Inr b \<and> ?P n b"
  proof (rule for_range_rule [OF _ assms])
    fix j b assume j: "0 \<le> j" "j < n" and P: "?P j b"
    then obtain b' where "BitMap_Clear b j = Inr b'" "bitmap_ok b'" "numBits b' = n"
      "marked b' = marked b - {j}"
      using Clear_spec [of b j] by auto
    moreover from P this have "marked b' \<subseteq> {j + 1..<n}" by force
    ultimately show "\<exists>b'. BitMap_Clear b j = Inr b' \<and> ?P (j + 1) b'" by auto
  qed
  then show ?thesis by (auto simp: BitMap_new_def Let_def)
qed

text \<open>\<open>Find\<close> marks the least clear bit, and answers -1 only when there is none.\<close>

lemma Find_from_spec:
  assumes "bitmap_ok b" and "0 \<le> i" and "\<forall>j. 0 \<le> j \<and> j < i \<longrightarrow> j \<in> marked b"
  shows "if {0..<numBits b} \<subseteq> marked b then BitMap_Find_from b i = Inr (- 1, b)
    else \<exists>n b'. BitMap_Find_from b i = Inr (n, b') \<and> 0 \<le> n \<and> n < numBits b \<and> n \<notin> marked b \<and>
      (\<forall>j. 0 \<le> j \<and> j < n \<longrightarrow> j \<in> marked b) \<and>
      bitmap_ok b' \<and> numBits b' = numBits b \<and> marked b' = insert n (marked b)"
  using assms
proof (induction b i rule: BitMap_Find_from.induct)
  case (1 b i)
  show ?case
  proof (cases "i < numBits b")
    case True
    have t: "BitMap_Test b i = Inr (i \<in> marked b)"
      by (rule Test_spec) (use 1 True in auto)
    show ?thesis
    proof (cases "i \<in> marked b")
      case True
      have "\<forall>j. 0 \<le> j \<and> j < i + 1 \<longrightarrow> j \<in> marked b"
        using "1.prems"(3) True by (auto simp: le_less)
      with "1.IH" [OF \<open>i < numBits b\<close> t] True "1.prems"(1,2) \<open>i < numBits b\<close> t show ?thesis
        by (simp add: BitMap_Find_from.simps [of b i])
    next
      case False
      obtain b' where "BitMap_Mark b i = Inr b'" "bitmap_ok b'" "numBits b' = numBits b"
        "marked b' = insert i (marked b)"
        using Mark_spec [of b i] 1 True by auto
      with False True t "1.prems" show ?thesis
        by (auto simp: BitMap_Find_from.simps [of b i])
    qed
  next
    case False
    with "1.prems" show ?thesis
      by (auto simp: BitMap_Find_from.simps [of b i])
  qed
qed

lemma Find_spec:
  assumes "bitmap_ok b"
  shows "if {0..<numBits b} \<subseteq> marked b then BitMap_Find b = Inr (- 1, b)
    else \<exists>n b'. BitMap_Find b = Inr (n, b') \<and> 0 \<le> n \<and> n < numBits b \<and> n \<notin> marked b \<and>
      (\<forall>j. 0 \<le> j \<and> j < n \<longrightarrow> j \<in> marked b) \<and>
      bitmap_ok b' \<and> numBits b' = numBits b \<and> marked b' = insert n (marked b)"
  unfolding BitMap_Find_def by (rule Find_from_spec [OF assms]) auto

lemma NumClear_spec:
  assumes ok: "bitmap_ok b"
  shows "BitMap_NumClear b = Inr (numBits b - int (card (marked b)))"
proof -
  let ?body = "\<lambda>i count. rbind (BitMap_Test b i) (\<lambda>t. Inr (if \<not> t then count + 1 else count))"
  let ?P = "\<lambda>i c. c = i - int (card (marked b \<inter> {0..<i}))"
  have n: "0 \<le> numBits b" using ok by (simp add: bitmap_ok_def)
  have "\<exists>c. for_range 0 (numBits b) ?body 0 = Inr c \<and> ?P (numBits b) c"
  proof (rule for_range_rule [where P = ?P, OF _ n])
    fix j c assume j: "0 \<le> j" "j < numBits b" and c: "?P j c"
    have "{0..<j + 1} = insert j {0..<j}" using j by auto
    then have "marked b \<inter> {0..<j + 1} =
        (if j \<in> marked b then insert j (marked b \<inter> {0..<j}) else marked b \<inter> {0..<j})"
      by auto
    with c show "\<exists>c'. ?body j c = Inr c' \<and> ?P (j + 1) c'"
      by (simp add: Test_spec [OF ok j])
  qed simp
  moreover have "marked b \<inter> {0..<numBits b} = marked b" using marked_range [of b] by auto
  ultimately show ?thesis by (auto simp: BitMap_NumClear_def)
qed

text \<open>\<open>Print\<close> lists exactly the marked bits, in increasing order.\<close>

lemma Print_spec:
  assumes ok: "bitmap_ok b"
  shows "\<exists>out. BitMap_Print b = Inr out \<and> sorted_wrt (<) out \<and> set out = marked b"
proof -
  let ?body = "\<lambda>i out. rbind (BitMap_Test b i) (\<lambda>t. Inr (if t then out @ [i] else out))"
  let ?P = "\<lambda>i out. sorted_wrt (<) out \<and> set out = marked b \<inter> {0..<i}"
  have n: "0 \<le> numBits b" using ok by (simp add: bitmap_ok_def)
  have "\<exists>out. for_range 0 (numBits b) ?body [] = Inr out \<and> ?P (numBits b) out"
  proof (rule for_range_rule [where P = ?P, OF _ n])
    fix j out assume j: "0 \<le> j" "j < numBits b" and c: "?P j out"
    then show "\<exists>out'. ?body j out = Inr out' \<and> ?P (j + 1) out'"
      by (force simp: Test_spec [OF ok j] sorted_wrt_append)
  qed simp
  moreover have "marked b \<inter> {0..<numBits b} = marked b" using marked_range [of b] by auto
  ultimately show ?thesis by (auto simp: BitMap_Print_def)
qed

subsection \<open>The interface of an allocation map\<close>

text \<open>
  What a file header relies on when it takes and returns disk sectors: a set of used numbers
  below a fixed size, and the effect of the four operations on it.
\<close>

locale allocation_map =
  fixes ok :: "'m \<Rightarrow> bool"
    and size_of :: "'m \<Rightarrow> int"
    and used :: "'m \<Rightarrow> int set"
    and test :: "'m \<Rightarrow> int \<Rightarrow> bool result"
    and clear :: "'m \<Rightarrow> int \<Rightarrow> 'm result"
    and find :: "'m \<Rightarrow> (int \<times> 'm) result"
    and num_clear :: "'m \<Rightarrow> int result"
  assumes used_range: "ok m \<Longrightarrow> used m \<subseteq> {0..<size_of m}"
    and test_law: "ok m \<Longrightarrow> 0 \<le> i \<Longrightarrow> i < size_of m \<Longrightarrow> test m i = Inr (i \<in> used m)"
    and clear_law: "ok m \<Longrightarrow> 0 \<le> i \<Longrightarrow> i < size_of m \<Longrightarrow>
      \<exists>m'. clear m i = Inr m' \<and> ok m' \<and> size_of m' = size_of m \<and> used m' = used m - {i}"
    and find_law: "ok m \<Longrightarrow> \<not> {0..<size_of m} \<subseteq> used m \<Longrightarrow>
      \<exists>n m'. find m = Inr (n, m') \<and> 0 \<le> n \<and> n < size_of m \<and> n \<notin> used m \<and>
        ok m' \<and> size_of m' = size_of m \<and> used m' = insert n (used m)"
    and num_clear_law: "ok m \<Longrightarrow> num_clear m = Inr (size_of m - int (card (used m)))"
    and size_nonneg: "ok m \<Longrightarrow> 0 \<le> size_of m"

interpretation bitmap:
  allocation_map bitmap_ok numBits marked BitMap_Test BitMap_Clear BitMap_Find BitMap_NumClear
proof
  fix b :: BitMap and i :: int
  assume ok: "bitmap_ok b"
  show "marked b \<subseteq> {0..<numBits b}" by (rule marked_range)
  show "BitMap_NumClear b = Inr (numBits b - int (card (marked b)))" by (rule NumClear_spec [OF ok])
  show "0 \<le> numBits b" using ok by (simp add: bitmap_ok_def)
  show "\<not> {0..<numBits b} \<subseteq> marked b \<Longrightarrow>
      \<exists>n b'. BitMap_Find b = Inr (n, b') \<and> 0 \<le> n \<and> n < numBits b \<and> n \<notin> marked b \<and>
        bitmap_ok b' \<and> numBits b' = numBits b \<and> marked b' = insert n (marked b)"
    using Find_spec [OF ok] by auto
  assume i: "0 \<le> i" "i < numBits b"
  show "BitMap_Test b i = Inr (i \<in> marked b)" by (rule Test_spec [OF ok i])
  show "\<exists>b'. BitMap_Clear b i = Inr b' \<and> bitmap_ok b' \<and> numBits b' = numBits b \<and>
      marked b' = marked b - {i}"
    by (rule Clear_spec [OF ok i])
qed

subsection \<open>Properties\<close>

text \<open>
  On a well-formed bitmap \<open>Find\<close> returns the least clear bit and marks exactly that bit; it
  returns -1 and changes nothing exactly when every bit is marked. \<open>NumClear\<close> is the number of
  calls of \<open>Find\<close> that still succeed: it is positive iff \<open>Find\<close> does, and each success
  lowers it by one.
\<close>

theorem BitMap_Find_least_clear:
  assumes "bitmap_ok b"
  shows "if {0..<numBits b} \<subseteq> marked b
    then BitMap_Find b = Inr (- 1, b) \<and> BitMap_NumClear b = Inr 0
    else \<exists>n b' c. BitMap_Find b = Inr (n, b') \<and> 0 \<le> n \<and> n < numBits b \<and> n \<notin> marked b \<and>
      (\<forall>j. 0 \<le> j \<and> j < n \<longrightarrow> j \<in> marked b) \<and>
      bitmap_ok b' \<and> marked b' = insert n (marked b) \<and>
      BitMap_NumClear b = Inr c \<and> 0 < c \<and> BitMap_NumClear b' = Inr (c - 1)"
proof (cases "{0..<numBits b} \<subseteq> marked b")
  case True
  then have "marked b = {0..<numBits b}" using marked_range [of b] by auto
  with True Find_spec [OF assms] NumClear_spec [OF assms] bitmap.size_nonneg [OF assms]
  show ?thesis by simp
next
  case False
  then obtain n b' where f: "BitMap_Find b = Inr (n, b')" "0 \<le> n" "n < numBits b"
    "n \<notin> marked b" "\<forall>j. 0 \<le> j \<and> j < n \<longrightarrow> j \<in> marked b" "bitmap_ok b'"
    "numBits b' = numBits b" "marked b' = insert n (marked b)"
    using Find_spec [OF assms] by auto
  have "card (insert n (marked b)) \<le> card {0..<numBits b}"
    using f(2,3) marked_range [of b] by (intro card_mono) auto
  then have "int (card (marked b)) < numBits b" using f(2-4) by simp
  with False f NumClear_spec [OF assms] NumClear_spec [OF f(6)] show ?thesis by auto
qed

definition two_bits :: BitMap where
  "two_bits = \<lparr>numBits = 2, numWords = 1, bwords = [1]\<rparr>"

lemma two_bits_ok: "bitmap_ok two_bits" and marked_two_bits: "marked two_bits = {0}"
proof -
  show "bitmap_ok two_bits"
    by (simp add: bitmap_ok_def two_bits_def BitsInWord_def divRoundUp_def)
  have "i \<in> marked two_bits \<longleftrightarrow> i = 0" for i
  proof -
    have "0 \<le> i \<and> i < 2 \<longleftrightarrow> i = 0 \<or> i = (1::int)" by auto
    then show ?thesis by (auto simp: marked_def two_bits_def bit_simps)
  qed
  then show "marked two_bits = {0}" by auto
qed

theorem BitMap_Find_least_clear_witness:
  "\<exists>b' c. BitMap_Find two_bits = Inr (1, b') \<and> marked b' = {0, 1} \<and>
    BitMap_NumClear two_bits = Inr c \<and> BitMap_NumClear b' = Inr (c - 1)"
proof -
  have "\<not> {0..<numBits two_bits} \<subseteq> marked two_bits"
    using subsetD [of "{0..<2::int}" "{0}" 1] by (auto simp: marked_two_bits) (auto simp: two_bits_def)
  with BitMap_Find_least_clear [OF two_bits_ok] obtain n b' c where
    f: "BitMap_Find two_bits = Inr (n, b')" "0 \<le> n" "n < numBits two_bits" "n \<notin> marked two_bits"
    "marked b' = insert n (marked two_bits)"
    "BitMap_NumClear two_bits = Inr c" "BitMap_NumClear b' = Inr (c - 1)"
    by auto
  then have "n = 1" by (simp add: marked_two_bits) (simp add: two_bits_def)
  with f show ?thesis by (auto simp: marked_two_bits)
qed

text \<open>
  \<open>Mark\<close>, \<open>Clear\<close> and \<open>Test\<close> are insertion, deletion and membership of one bit: after
  \<open>Mark\<close> (or \<open>Clear\<close>) of a bit \<open>i\<close> in range, \<open>Test\<close> of \<open>i\<close> says true (false), and \<open>Test\<close>
  of every other bit says what it said before; a bit number out of range fails the assertion of
  all three. A new bitmap of any size has every bit clear, whatever the array held before.
\<close>

theorem BitMap_set_semantics:
  assumes "bitmap_ok b" and "0 \<le> i" and "i < numBits b" and "0 \<le> n"
  shows "(\<exists>b'. BitMap_Mark b i = Inr b' \<and> bitmap_ok b' \<and>
      (\<forall>j. BitMap_Test b' j = (if j = i then Inr True else BitMap_Test b j))) \<and>
    (\<exists>b'. BitMap_Clear b i = Inr b' \<and> bitmap_ok b' \<and>
      (\<forall>j. BitMap_Test b' j = (if j = i then Inr False else BitMap_Test b j))) \<and>
    (\<exists>b0. BitMap_new raw n = Inr b0 \<and> bitmap_ok b0 \<and>
      (\<forall>j. BitMap_Test b0 j = (if 0 \<le> j \<and> j < n then Inr False else Inl AssertFailed)))"
proof (intro conjI)
  have test: "BitMap_Test c j = (if 0 \<le> j \<and> j < numBits c then Inr (j \<in> marked c) else Inl AssertFailed)"
    if "bitmap_ok c" for c j
    using Test_spec [OF that, of j] by (auto simp: BitMap_Test_def ASSERT_def)
  show "\<exists>b'. BitMap_Mark b i = Inr b' \<and> bitmap_ok b' \<and>
      (\<forall>j. BitMap_Test b' j = (if j = i then Inr True else BitMap_Test b j))"
    using Mark_spec [OF assms(1-3)] test assms by fastforce
  show "\<exists>b'. BitMap_Clear b i = Inr b' \<and> bitmap_ok b' \<and>
      (\<forall>j. BitMap_Test b' j = (if j = i then Inr False else BitMap_Test b j))"
    using Clear_spec [OF assms(1-3)] test assms by fastforce
  show "\<exists>b0. BitMap_new raw n = Inr b0 \<and> bitmap_ok b0 \<and>
      (\<forall>j. BitMap_Test b0 j = (if 0 \<le> j \<and> j < n then Inr False else Inl AssertFailed))"
    using BitMap_new_spec [OF assms(4), of raw] test by fastforce
qed

theorem BitMap_set_semantics_witness:
  "(\<exists>b'. BitMap_Mark two_bits 1 = Inr b' \<and> BitMap_Test b' 1 = Inr True) \<and>
   (\<exists>b'. BitMap_Clear two_bits 1 = Inr b' \<and> BitMap_Test b' 1 = Inr False) \<and>
   (\<exists>b0. BitMap_new (\<lambda>_. 77) 5 = Inr b0 \<and> BitMap_Test b0 4 = Inr False)"
proof -
  have i: "(0::int) \<le> 1" "1 < numBits two_bits" "(0::int) \<le> 5" by (simp_all add: two_bits_def)
  show ?thesis using BitMap_set_semantics [OF two_bits_ok i, of "\<lambda>_. 77"] by fastforce
qed

end
