(* ===== verification/File_Header.thy ===== *)
theory File_Header
  imports Sector_Device Bitmap
begin

section \<open>File headers, filesys/filehdr.cc\<close>

text \<open>
  A file header is the size of a file, the number of its data sectors and their numbers; on
  disk it is the 128 bytes of its in-memory representation, one sector. \<open>Allocate\<close> takes the
  data sectors from a bitmap of used sectors, \<open>Deallocate\<close> returns them. The loops over the
  map of free sectors are reasoned about once, for every allocation map.
\<close>

definition NumDirect :: int where "NumDirect = (SectorSize - 2 * 4) div 4"

definition MaxFileSize :: int where "MaxFileSize = NumDirect * SectorSize"

lemma NumDirect_value [simp]: "NumDirect = 30"
  by (simp add: NumDirect_def SectorSize_def)

lemma MaxFileSize_value: "MaxFileSize = 3840"
  by (simp add: MaxFileSize_def SectorSize_def)

record FileHeader =
  numBytes :: int
  numSectors :: int
  dataSectors :: "int list"

subsection \<open>The object as bytes\<close>

definition ints_bytes :: "int list \<Rightarrow> byte list" where
  "ints_bytes xs = concat (map int_bytes xs)"

fun bytes_ints :: "byte list \<Rightarrow> int list" where
  "bytes_ints (a # b # c # d # bs) = bytes_int [a, b, c, d] # bytes_ints bs"
| "bytes_ints _ = []"

definition FileHeader_bytes :: "FileHeader \<Rightarrow> byte list" where
  "FileHeader_bytes h = ints_bytes (numBytes h # numSectors h # dataSectors h)"

definition FileHeader_of_bytes :: "byte list \<Rightarrow> FileHeader" where
  "FileHeader_of_bytes bs =
     (let xs = bytes_ints bs in
      \<lparr>numBytes = xs ! 0, numSectors = xs ! 1, dataSectors = drop 2 xs\<rparr>)"

lemma length_ints_bytes [simp]: "length (ints_bytes xs) = 4 * length xs"
  by (induction xs) (simp_all add: ints_bytes_def)

lemma bytes_ints_append:
  assumes "length bs = 4"
  shows "bytes_ints (bs @ cs) = bytes_int bs # bytes_ints cs"
proof -
  from assms obtain a b c d where "bs = [a, b, c, d]"
    by (auto simp: numeral_eq_Suc length_Suc_conv)
  then show ?thesis by simp
qed

lemma bytes_ints_ints_bytes [simp]:
  "\<forall>x \<in> set xs. in_int x \<Longrightarrow> bytes_ints (ints_bytes xs) = xs"
  by (induction xs) (simp_all add: ints_bytes_def bytes_ints_append)

lemma length_bytes_ints [simp]: "length (bytes_ints bs) = length bs div 4"
  by (induction bs rule: bytes_ints.induct) auto

lemma in_int_bytes_ints: "\<forall>x \<in> set (bytes_ints bs). in_int x"
  by (induction bs rule: bytes_ints.induct) auto

lemma ints_bytes_bytes_ints:
  "length bs mod 4 = 0 \<Longrightarrow> ints_bytes (bytes_ints bs) = bs"
  by (induction bs rule: bytes_ints.induct) (auto simp: ints_bytes_def)

text \<open>The C++ object exists: its fields fit their types, and the array has its 30 entries.\<close>

definition header_typed :: "FileHeader \<Rightarrow> bool" where
  "header_typed h \<longleftrightarrow> in_int (numBytes h) \<and> in_int (numSectors h) \<and>
     (\<forall>s \<in> set (dataSectors h). in_int s) \<and> length (dataSectors h) = 30"

lemma FileHeader_of_bytes_typed:
  assumes "length bs = 128"
  shows "header_typed (FileHeader_of_bytes bs)"
proof -
  have len: "length (bytes_ints bs) = 32" using assms by simp
  have "\<forall>x \<in> set (bytes_ints bs). in_int x" by (rule in_int_bytes_ints)
  moreover have "bytes_ints bs ! 0 \<in> set (bytes_ints bs)" "bytes_ints bs ! 1 \<in> set (bytes_ints bs)"
    using len by (auto intro: nth_mem)
  ultimately show ?thesis
    using len by (auto simp: header_typed_def FileHeader_of_bytes_def Let_def dest: in_set_dropD)
qed

lemma FileHeader_bytes_length: "header_typed h \<Longrightarrow> length (FileHeader_bytes h) = 128"
  by (simp add: FileHeader_bytes_def header_typed_def)

lemma FileHeader_roundtrip:
  assumes "header_typed h"
  shows "FileHeader_of_bytes (FileHeader_bytes h) = h"
proof -
  have "bytes_ints (FileHeader_bytes h) = numBytes h # numSectors h # dataSectors h"
    unfolding FileHeader_bytes_def
    by (rule bytes_ints_ints_bytes) (use assms in \<open>auto simp: header_typed_def\<close>)
  then show ?thesis by (simp add: FileHeader_of_bytes_def)
qed

lemma FileHeader_bytes_roundtrip:
  assumes "length bs = 128"
  shows "FileHeader_bytes (FileHeader_of_bytes bs) = bs"
proof -
  have "length (bytes_ints bs) = 32" using assms by simp
  then obtain a b xs where "bytes_ints bs = a # b # xs"
    by (metis length_0_conv length_Cons numeral_eq_Suc list.exhaust One_nat_def
        nat.distinct(1) nat.inject pred_numeral_simps(3) eval_nat_numeral(2) Suc_eq_numeral)
  then have "FileHeader_bytes (FileHeader_of_bytes bs) = ints_bytes (bytes_ints bs)"
    by (simp add: FileHeader_bytes_def FileHeader_of_bytes_def)
  also have "\<dots> = bs" by (rule ints_bytes_bytes_ints) (simp add: assms)
  finally show ?thesis .
qed

subsection \<open>The operations\<close>

text \<open>
  The loop of \<open>Allocate\<close> over any map of free sectors: the array entry is assigned without a
  check, so an index past the array is \<open>OutOfBounds\<close>.
\<close>

definition alloc_loop ::
  "('m \<Rightarrow> (int \<times> 'm) result) \<Rightarrow> int \<Rightarrow> int list \<times> 'm \<Rightarrow> (int list \<times> 'm) result" where
  "alloc_loop finder n =
     for_range 0 n (\<lambda>i (ds, m).
       rbind (finder m) (\<lambda>(s, m'). rbind (aset ds i s) (\<lambda>ds'. Inr (ds', m'))))"

definition FileHeader_Allocate ::
  "FileHeader \<Rightarrow> BitMap \<Rightarrow> int \<Rightarrow> (bool \<times> FileHeader \<times> BitMap) result" where
  "FileHeader_Allocate h freeMap fileSize =
     (let h = h\<lparr>numBytes := fileSize, numSectors := divRoundUp fileSize SectorSize\<rparr> in
      rbind (BitMap_NumClear freeMap) (\<lambda>clear.
        if clear < numSectors h then Inr (False, h, freeMap)
        else rbind (alloc_loop BitMap_Find (numSectors h) (dataSectors h, freeMap)) (\<lambda>(ds, m).
               Inr (True, h\<lparr>dataSectors := ds\<rparr>, m))))"

definition dealloc_loop ::
  "('m \<Rightarrow> int \<Rightarrow> bool result) \<Rightarrow> ('m \<Rightarrow> int \<Rightarrow> 'm result) \<Rightarrow> int \<Rightarrow> int list \<Rightarrow> 'm \<Rightarrow> 'm result" where
  "dealloc_loop test clear n ds =
     for_range 0 n (\<lambda>i m.
       rbind (aget ds i) (\<lambda>s.
       rbind (test m s) (\<lambda>t.
       rbind (ASSERT t) (\<lambda>_. clear m s))))"

definition FileHeader_Deallocate :: "FileHeader \<Rightarrow> BitMap \<Rightarrow> BitMap result" where
  "FileHeader_Deallocate h freeMap =
     dealloc_loop BitMap_Test BitMap_Clear (numSectors h) (dataSectors h) freeMap"

definition FileHeader_FetchFrom :: "'w fs_env \<Rightarrow> int \<Rightarrow> 'w \<Rightarrow> (FileHeader \<times> 'w) result" where
  "FileHeader_FetchFrom E sector w =
     rbind (ReadSector E sector w) (\<lambda>(bs, w'). Inr (FileHeader_of_bytes bs, w'))"

definition FileHeader_WriteBack :: "'w fs_env \<Rightarrow> FileHeader \<Rightarrow> int \<Rightarrow> 'w \<Rightarrow> 'w result" where
  "FileHeader_WriteBack E h sector w = WriteSector E sector (FileHeader_bytes h) w"

definition FileHeader_ByteToSector :: "FileHeader \<Rightarrow> int \<Rightarrow> int result" where
  "FileHeader_ByteToSector h offset = aget (dataSectors h) (offset sdiv SectorSize)"

definition FileHeader_FileLength :: "FileHeader \<Rightarrow> int" where
  "FileHeader_FileLength h = numBytes h"

text \<open>
  \<open>Print\<close>: the sector numbers it lists, and for every sector the bytes of the file it shows,
  each as the character itself when it is printable and in hexadecimal otherwise.
\<close>

datatype printed = Char byte | Hex byte

definition print_byte :: "byte \<Rightarrow> printed" where
  "print_byte b = (if 32 \<le> sint b \<and> sint b \<le> 126 then Char b else Hex b)"

definition FileHeader_Print ::
  "'w fs_env \<Rightarrow> FileHeader \<Rightarrow> 'w \<Rightarrow> ((int list \<times> printed list list) \<times> 'w) result" where
  "FileHeader_Print E h w =
     rbind (for_range 0 (numSectors h) (\<lambda>i out. rbind (aget (dataSectors h) i) (\<lambda>s. Inr (out @ [s]))) [])
       (\<lambda>blocks.
     rbind (for_range 0 (numSectors h) (\<lambda>i (out, k, w).
         rbind (aget (dataSectors h) i) (\<lambda>s.
         rbind (ReadSector E s w) (\<lambda>(data, w').
         let shown = take (nat (min SectorSize (numBytes h - k))) data
         in Inr (out @ [map print_byte shown], k + int (length shown), w'))))
       ([], 0, w)) (\<lambda>(out, k, w').
     Inr ((blocks, out), w')))"

subsection \<open>Allocation and deallocation over an allocation map\<close>

context allocation_map
begin

definition alloc_state :: "'m \<Rightarrow> int list \<Rightarrow> int \<Rightarrow> int list \<times> 'm \<Rightarrow> bool" where
  "alloc_state m ds j s \<longleftrightarrow>
     (case s of (ds', m') \<Rightarrow>
       ok m' \<and> size_of m' = size_of m \<and> length ds' = length ds \<and>
       distinct (take (nat j) ds') \<and> set (take (nat j) ds') \<inter> used m = {} \<and>
       set (take (nat j) ds') \<subseteq> {0..<size_of m} \<and>
       used m' = used m \<union> set (take (nat j) ds'))"

lemma alloc_state_card:
  assumes "ok m" and "alloc_state m ds j (ds', m')" and "0 \<le> j" and "j \<le> int (length ds)"
  shows "int (card (used m')) = int (card (used m)) + j"
proof -
  have "card (set (take (nat j) ds')) = nat j"
    using assms by (simp add: alloc_state_def distinct_card nat_le_iff)
  moreover have "finite (used m)" using finite_subset [OF used_range [OF assms(1)]] by simp
  ultimately show ?thesis
    using assms by (simp add: alloc_state_def card_Un_disjoint Int_commute)
qed

lemma alloc_step:
  assumes ok: "ok m" and st: "alloc_state m ds j (ds', m')" and j: "0 \<le> j" "j \<le> int (length ds)"
    and room: "j < size_of m - int (card (used m))"
  shows "\<exists>s m''. find m' = Inr (s, m'') \<and>
    (j < int (length ds) \<longrightarrow> alloc_state m ds (j + 1) (ds'[nat j := s], m''))"
proof -
  have m': "ok m'" "size_of m' = size_of m" "length ds' = length ds"
    using st by (simp_all add: alloc_state_def)
  have "int (card (used m')) < size_of m'"
    using alloc_state_card [OF ok st j] room m' by simp
  moreover have "card {0..<size_of m'} \<le> card (used m')" if "{0..<size_of m'} \<subseteq> used m'"
    using that finite_subset [OF used_range [OF m'(1)]] by (intro card_mono) auto
  ultimately have "\<not> {0..<size_of m'} \<subseteq> used m'" by auto
  then obtain s m'' where s: "find m' = Inr (s, m'')" "0 \<le> s" "s < size_of m'" "s \<notin> used m'"
    "ok m''" "size_of m'' = size_of m'" "used m'' = insert s (used m')"
    using find_law [OF m'(1)] by blast
  have "alloc_state m ds (j + 1) (ds'[nat j := s], m'')" if "j < int (length ds)"
    using st s m' j that take_nat_update [of j ds' s]
    by (auto simp: alloc_state_def)
  with s(1) show ?thesis by blast
qed

lemma alloc_loop_law:
  assumes ok: "ok m" and n: "0 \<le> n" "n \<le> int (length ds)"
    and room: "n \<le> size_of m - int (card (used m))"
  shows "\<exists>ds' m'. alloc_loop find n (ds, m) = Inr (ds', m') \<and> alloc_state m ds n (ds', m')"
proof -
  have "\<exists>s. alloc_loop find n (ds, m) = Inr s \<and> alloc_state m ds n s"
    unfolding alloc_loop_def
  proof (rule for_range_rule [OF _ n(1)])
    show "alloc_state m ds 0 (ds, m)" using ok by (simp add: alloc_state_def)
  next
    fix j s assume j: "0 \<le> j" "j < n" and st: "alloc_state m ds j s"
    obtain ds' m' where s: "s = (ds', m')" by (cases s)
    have len: "length ds' = length ds" using st s by (simp add: alloc_state_def)
    obtain x m'' where x: "find m' = Inr (x, m'')"
      and st': "alloc_state m ds (j + 1) (ds'[nat j := x], m'')"
      using alloc_step [OF ok, of ds j ds' m'] st s j n room by auto
    have "aset ds' j x = Inr (ds'[nat j := x])" using j n len by simp
    with x st' show "\<exists>t. (case s of (ds, m) \<Rightarrow> rbind (find m) (\<lambda>(s, m').
        rbind (aset ds j s) (\<lambda>ds'. Inr (ds', m')))) = Inr t \<and> alloc_state m ds (j + 1) t"
      by (auto simp: s)
  qed
  then show ?thesis by auto
qed

text \<open>More sectors than the array has entries: the loop writes past its end.\<close>

lemma alloc_loop_overflow:
  assumes ok: "ok m" and n: "int (length ds) < n"
    and room: "n \<le> size_of m - int (card (used m))"
  shows "alloc_loop find n (ds, m) = Inl OutOfBounds"
proof -
  let ?L = "int (length ds)"
  obtain ds' m' where fill: "alloc_loop find ?L (ds, m) = Inr (ds', m')"
    "alloc_state m ds ?L (ds', m')"
    using alloc_loop_law [OF ok, of ?L ds] n room by auto
  then obtain x m'' where x: "find m' = Inr (x, m'')"
    using alloc_step [OF ok fill(2)] n room by auto
  have len: "length ds' = length ds" using fill(2) by (simp add: alloc_state_def)
  have "aset ds' ?L x = Inl OutOfBounds" by (simp add: aset_def len)
  with fill(1) x n show ?thesis
    unfolding alloc_loop_def
    by (subst for_range_split [of 0 ?L]) (simp_all add: for_range_step)
qed

lemma dealloc_loop_law:
  assumes ok: "ok m" and n: "0 \<le> n" "n \<le> int (length ds)"
    and dist: "distinct (take (nat n) ds)" and used: "set (take (nat n) ds) \<subseteq> used m"
  shows "\<exists>m'. dealloc_loop test clear n ds m = Inr m' \<and> ok m' \<and> size_of m' = size_of m \<and>
    used m' = used m - set (take (nat n) ds)"
  unfolding dealloc_loop_def
proof (rule for_range_rule [where P = "\<lambda>j m'. ok m' \<and> size_of m' = size_of m \<and>
    used m' = used m - set (take (nat j) ds)", OF _ n(1)])
  fix j m' assume j: "0 \<le> j" "j < n"
    and m': "ok m' \<and> size_of m' = size_of m \<and> used m' = used m - set (take (nat j) ds)"
  let ?s = "ds ! nat j"
  have jn: "nat j < nat n" "nat j < length ds" using j n by linarith+
  have split: "take (nat (j + 1)) ds = take (nat j) ds @ [?s]"
    using j n by (intro take_nat_Suc) auto
  have s: "?s \<in> used m" "?s \<notin> set (take (nat j) ds)"
  proof -
    have "?s \<in> set (take (nat n) ds)"
      unfolding in_set_conv_nth using jn by (intro exI [of _ "nat j"]) simp
    with used show "?s \<in> used m" by blast
    have "nat (j + 1) \<le> nat n" using j by (intro nat_mono) simp
    then have "distinct (take (nat (j + 1)) ds)"
      using distinct_take [OF dist, of "nat (j + 1)"] by (simp add: min.absorb1)
    then show "?s \<notin> set (take (nat j) ds)" using split by simp
  qed
  have range: "0 \<le> ?s" "?s < size_of m'"
    using s(1) used_range [OF ok] m' by auto
  obtain m'' where "clear m' ?s = Inr m''" "ok m''" "size_of m'' = size_of m'"
    "used m'' = used m' - {?s}"
    using clear_law [OF _ range] m' by blast
  moreover have "test m' ?s = Inr True"
    using test_law [OF _ range] m' s by simp
  moreover have "aget ds j = Inr ?s" using j n by simp
  ultimately show "\<exists>t. rbind (aget ds j) (\<lambda>s. rbind (test m' s) (\<lambda>t. rbind (ASSERT t) (\<lambda>_. clear m' s))) =
      Inr t \<and> ok t \<and> size_of t = size_of m \<and> used t = used m - set (take (nat (j + 1)) ds)"
    using m' split by auto
qed (use ok in simp)

end

subsection \<open>Well-formed headers\<close>

definition data_list :: "FileHeader \<Rightarrow> int list" where
  "data_list h = take (nat (numSectors h)) (dataSectors h)"

definition header_ok :: "FileHeader \<Rightarrow> bool" where
  "header_ok h \<longleftrightarrow>
     header_typed h \<and> 0 \<le> numBytes h \<and> numBytes h \<le> MaxFileSize \<and>
     numSectors h = divRoundUp (numBytes h) SectorSize \<and>
     distinct (data_list h) \<and> (\<forall>s \<in> set (data_list h). sector_number s)"

lemma sectors_of_size:
  assumes "0 \<le> n"
  shows "0 \<le> divRoundUp n SectorSize" and "n \<le> MaxFileSize \<longleftrightarrow> divRoundUp n SectorSize \<le> NumDirect"
proof -
  show "0 \<le> divRoundUp n SectorSize"
    using divRoundUp_nonneg_result [OF assms] by (simp add: SectorSize_def)
  have "n \<le> divRoundUp n 128 * 128" "divRoundUp n 128 * 128 < n + 128"
    using divRoundUp_bounds [OF assms, of 128] by simp_all
  then show "n \<le> MaxFileSize \<longleftrightarrow> divRoundUp n SectorSize \<le> NumDirect"
    unfolding MaxFileSize_value SectorSize_def NumDirect_value by linarith
qed

text \<open>
  \<open>Allocate\<close> into a map with room gives a well-formed header of fresh, distinct sectors; without
  room it says so and takes nothing; a file too big for the header overruns the array.
\<close>

lemma Allocate_spec:
  assumes typed: "header_typed h" and ok: "bitmap_ok m" and size: "numBits m = NumSectors"
    and n: "0 \<le> n" "n \<le> MaxFileSize"
    and room: "divRoundUp n SectorSize \<le> numBits m - int (card (marked m))"
  shows "\<exists>h' m'. FileHeader_Allocate h m n = Inr (True, h', m') \<and> header_ok h' \<and>
    numBytes h' = n \<and> bitmap_ok m' \<and> numBits m' = NumSectors \<and>
    set (data_list h') \<inter> marked m = {} \<and> marked m' = marked m \<union> set (data_list h')"
proof -
  let ?k = "divRoundUp n SectorSize"
  have k: "0 \<le> ?k" "?k \<le> 30" using sectors_of_size [OF n(1)] n(2) by simp_all
  have len: "length (dataSectors h) = 30" using typed by (simp add: header_typed_def)
  obtain ds m' where run: "alloc_loop BitMap_Find ?k (dataSectors h, m) = Inr (ds, m')"
    and st: "bitmap.alloc_state m (dataSectors h) ?k (ds, m')"
    using bitmap.alloc_loop_law [OF ok k(1), of "dataSectors h"] k(2) len room by auto
  have drop: "drop (nat ?k) ds = drop (nat ?k) (dataSectors h)"
  proof -
    have "drop (nat j) (fst s) = drop (nat j) (dataSectors h)"
      if "for_range 0 j (\<lambda>i (ds, m). rbind (BitMap_Find m) (\<lambda>(s, m').
          rbind (aset ds i s) (\<lambda>ds'. Inr (ds', m')))) (dataSectors h, m) = Inr s" "0 \<le> j" for j s
      by (rule for_range_inv [OF that(1), where P = "\<lambda>j s. drop (nat j) (fst s) = drop (nat j) (dataSectors h)"])
        (use that(2) in \<open>auto simp: aset_eq_Inr nat_add_distrib drop_update_cancel
           intro: drop_Suc_eq split: prod.splits\<close>)
    from this [of ?k "(ds, m')"] run k(1) show ?thesis by (simp add: alloc_loop_def)
  qed
  let ?h = "h\<lparr>numBytes := n, numSectors := ?k, dataSectors := ds\<rparr>"
  have dl: "data_list ?h = take (nat ?k) ds" by (simp add: data_list_def)
  have sec: "\<forall>s \<in> set (take (nat ?k) ds). sector_number s"
    using st size by (auto simp: bitmap.alloc_state_def sector_number_def)
  have "\<forall>s \<in> set ds. in_int s"
  proof
    fix s assume "s \<in> set ds"
    then have "s \<in> set (take (nat ?k) ds @ drop (nat ?k) ds)" by simp
    then consider "s \<in> set (take (nat ?k) ds)" | "s \<in> set (drop (nat ?k) (dataSectors h))"
      unfolding set_append drop by blast
    then show "in_int s"
      by cases (use sec typed in \<open>auto simp: sector_number_iff in_int_def int_min_def int_max_def
        header_typed_def dest: in_set_dropD\<close>)
  qed
  then have "header_ok ?h"
    using st sec n k len
    by (simp add: header_ok_def header_typed_def dl bitmap.alloc_state_def
        in_int_def int_min_def int_max_def MaxFileSize_value)
  moreover have "FileHeader_Allocate h m n = Inr (True, ?h, m')"
    using NumClear_spec [OF ok] room run by (simp add: FileHeader_Allocate_def)
  ultimately show ?thesis
    using st size by (auto simp: dl bitmap.alloc_state_def)
qed

lemma Allocate_no_room:
  assumes "bitmap_ok m" and "numBits m - int (card (marked m)) < divRoundUp n SectorSize"
  shows "FileHeader_Allocate h m n =
    Inr (False, h\<lparr>numBytes := n, numSectors := divRoundUp n SectorSize\<rparr>, m)"
  using NumClear_spec [OF assms(1)] assms(2) by (simp add: FileHeader_Allocate_def)

lemma Allocate_too_big:
  assumes typed: "header_typed h" and ok: "bitmap_ok m" and n: "MaxFileSize < n"
    and room: "divRoundUp n SectorSize \<le> numBits m - int (card (marked m))"
  shows "FileHeader_Allocate h m n = Inl OutOfBounds"
proof -
  have "0 \<le> n" using n by (simp add: MaxFileSize_value)
  then have "int (length (dataSectors h)) < divRoundUp n SectorSize"
    using sectors_of_size(2) [of n] n typed by (simp add: header_typed_def)
  from bitmap.alloc_loop_overflow [OF ok this room] NumClear_spec [OF ok] room
  show ?thesis by (simp add: FileHeader_Allocate_def)
qed

lemma Deallocate_spec:
  assumes h: "header_ok h" and ok: "bitmap_ok m" and used: "set (data_list h) \<subseteq> marked m"
  shows "\<exists>m'. FileHeader_Deallocate h m = Inr m' \<and> bitmap_ok m' \<and> numBits m' = numBits m \<and>
    marked m' = marked m - set (data_list h)"
proof -
  have "0 \<le> numSectors h" "numSectors h \<le> int (length (dataSectors h))"
    using h sectors_of_size [of "numBytes h"] by (auto simp: header_ok_def header_typed_def)
  from bitmap.dealloc_loop_law [OF ok this] h used show ?thesis
    unfolding FileHeader_Deallocate_def header_ok_def data_list_def by blast
qed

subsection \<open>Headers on the disk\<close>

context sector_device
begin

lemma header_fetch_law:
  assumes "ok w" and "sector_number s"
  shows "\<exists>w'. FileHeader_FetchFrom E s w = Inr (FileHeader_of_bytes (sectors w s), w') \<and>
    ok w' \<and> sectors w' = sectors w"
  using read_law [OF assms] by (auto simp: FileHeader_FetchFrom_def)

lemma header_write_law:
  assumes "ok w" and "sector_number s" and "header_typed h"
  shows "\<exists>w'. FileHeader_WriteBack E h s w = Inr w' \<and> ok w' \<and>
    sectors w' = (sectors w)(s := FileHeader_bytes h)"
  using write_law [OF assms(1,2) FileHeader_bytes_length [OF assms(3)]]
  by (simp add: FileHeader_WriteBack_def)

lemma header_write_fetch:
  assumes "ok w" and "sector_number s" and "header_typed h"
  shows "\<exists>w' w''. FileHeader_WriteBack E h s w = Inr w' \<and>
    FileHeader_FetchFrom E s w' = Inr (h, w'') \<and> ok w'' \<and>
    sectors w'' = (sectors w)(s := FileHeader_bytes h)"
proof -
  obtain w' where w': "FileHeader_WriteBack E h s w = Inr w'" "ok w'"
    "sectors w' = (sectors w)(s := FileHeader_bytes h)"
    using header_write_law [OF assms] by blast
  with header_fetch_law [OF w'(2) assms(2)] FileHeader_roundtrip [OF assms(3)] show ?thesis
    by auto
qed

end

subsection \<open>Properties\<close>

definition sample_header :: FileHeader where
  "sample_header = \<lparr>numBytes = 200, numSectors = 2, dataSectors = [5, 9] @ replicate 28 0\<rparr>"

lemma sample_header_ok: "header_ok sample_header" "header_typed sample_header"
proof -
  show "header_typed sample_header"
    by (auto simp: header_typed_def sample_header_def in_int_def int_min_def int_max_def)
  then show "header_ok sample_header"
    by (simp add: header_ok_def sample_header_def MaxFileSize_value divRoundUp_def SectorSize_def
        data_list_def sector_number_iff numeral_2_eq_2)
qed

lemma full_size_map:
  "\<exists>m. bitmap_ok m \<and> numBits m = NumSectors \<and> marked m = {}"
  using BitMap_new_spec [of NumSectors "\<lambda>_. 0"] by (auto simp: NumSectors_value)

text \<open>
  \<open>Allocate\<close> for a file of \<open>n\<close> bytes on a disk with enough free sectors and \<open>n\<close> at most
  \<open>MaxFileSize\<close> returns true with a well-formed header of that size whose data sectors are
  distinct, valid and were free, and marks exactly those; without enough free sectors it returns
  false and marks nothing; and for a larger file it writes past the end of the array of sectors,
  since it checks neither \<open>NumDirect\<close> nor \<open>MaxFileSize\<close>.
\<close>

theorem FileHeader_Allocate_outcome:
  assumes "header_typed h" and "bitmap_ok m" and "numBits m = NumSectors" and "0 \<le> n"
  shows "if NumSectors - int (card (marked m)) < divRoundUp n SectorSize
    then \<exists>h'. FileHeader_Allocate h m n = Inr (False, h', m)
    else if MaxFileSize < n then FileHeader_Allocate h m n = Inl OutOfBounds
    else \<exists>h' m'. FileHeader_Allocate h m n = Inr (True, h', m') \<and> header_ok h' \<and>
      FileHeader_FileLength h' = n \<and> bitmap_ok m' \<and>
      set (data_list h') \<inter> marked m = {} \<and> marked m' = marked m \<union> set (data_list h')"
  using Allocate_no_room [OF assms(2), of n h] Allocate_too_big [OF assms(1,2), of n]
    Allocate_spec [OF assms(1-4)] assms(3)
  by (auto simp: FileHeader_FileLength_def)

theorem FileHeader_Allocate_outcome_witness:
  "\<exists>m h' m'. FileHeader_Allocate sample_header m 3840 = Inr (True, h', m') \<and>
    FileHeader_Allocate sample_header m 3841 = Inl OutOfBounds"
proof -
  obtain m where m: "bitmap_ok m" "numBits m = NumSectors" "marked m = {}" using full_size_map by blast
  have "divRoundUp 3840 SectorSize = 30" "divRoundUp 3841 SectorSize = 31"
    by (simp_all add: divRoundUp_def SectorSize_def)
  with FileHeader_Allocate_outcome [OF sample_header_ok(2) m(1,2), of 3840]
    FileHeader_Allocate_outcome [OF sample_header_ok(2) m(1,2), of 3841] m(3)
  show ?thesis by (auto simp: NumSectors_value MaxFileSize_value)
qed

text \<open>
  \<open>Deallocate\<close> undoes \<open>Allocate\<close>: it passes its own assertion on every data sector of a
  file allocated before and leaves exactly the sectors marked that were marked before.
\<close>

theorem FileHeader_Deallocate_inverse:
  assumes "header_typed h" and "bitmap_ok m" and "numBits m = NumSectors"
    and "0 \<le> n" and "n \<le> MaxFileSize"
    and "divRoundUp n SectorSize \<le> NumSectors - int (card (marked m))"
  shows "\<exists>h' m' m''. FileHeader_Allocate h m n = Inr (True, h', m') \<and>
    FileHeader_Deallocate h' m' = Inr m'' \<and> bitmap_ok m'' \<and> marked m'' = marked m"
proof -
  obtain h' m' where a: "FileHeader_Allocate h m n = Inr (True, h', m')" "header_ok h'" "bitmap_ok m'"
    "set (data_list h') \<inter> marked m = {}" "marked m' = marked m \<union> set (data_list h')"
    using Allocate_spec [OF assms(1-5)] assms(3,6) by auto
  moreover obtain m'' where "FileHeader_Deallocate h' m' = Inr m''" "bitmap_ok m''"
    "marked m'' = marked m' - set (data_list h')"
    using Deallocate_spec [OF a(2,3)] a(5) by auto
  moreover have "marked m' - set (data_list h') = marked m" using a(4,5) by blast
  ultimately show ?thesis by auto
qed

theorem FileHeader_Deallocate_inverse_witness:
  "\<exists>m h' m' m''. FileHeader_Allocate sample_header m 1000 = Inr (True, h', m') \<and>
    FileHeader_Deallocate h' m' = Inr m'' \<and> marked m'' = {}"
proof -
  obtain m where m: "bitmap_ok m" "numBits m = NumSectors" "marked m = {}" using full_size_map by blast
  have "divRoundUp 1000 SectorSize = 8" by (simp add: divRoundUp_def SectorSize_def)
  with FileHeader_Deallocate_inverse [OF sample_header_ok(2) m(1,2), of 1000] m(3) show ?thesis
    by (auto simp: NumSectors_value MaxFileSize_value)
qed

text \<open>
  On every disk that keeps the sector contract, a header written back to a sector and
  fetched from it again is the same header, and no other sector changes.
\<close>

theorem FileHeader_disk_roundtrip:
  assumes "sector_device E ok sectors" and "ok w" and "sector_number s" and "header_typed h"
  shows "\<exists>w' w''. FileHeader_WriteBack E h s w = Inr w' \<and>
    FileHeader_FetchFrom E s w' = Inr (h, w'') \<and> ok w'' \<and>
    (\<forall>t. t \<noteq> s \<longrightarrow> sectors w'' t = sectors w t)"
  using sector_device.header_write_fetch [OF assms(1), OF assms(2-4)] by auto

theorem FileHeader_disk_roundtrip_witness:
  "\<exists>w' w''. FileHeader_WriteBack mem_env sample_header 7 blank_disk = Inr w' \<and>
    FileHeader_FetchFrom mem_env 7 w' = Inr (sample_header, w'') \<and> w'' 8 = blank_disk 8"
  using FileHeader_disk_roundtrip [OF mem_disk.sector_device_axioms, OF blank_disk_ok _ sample_header_ok(2), of 7]
  by (auto simp: sector_number_iff)

end
