(* ===== verification/Open_File.thy ===== *)
theory Open_File
  imports File_Header
begin

section \<open>Open files, filesys/openfile.cc\<close>

text \<open>
  An open file is its header, in memory, and a seek position. \<open>ReadAt\<close> and \<open>WriteAt\<close> transfer
  any range of bytes although the disk only transfers whole sectors. The lemmas describe a file
  by its bytes (\<open>file_byte\<close>): \<open>ReadAt\<close> returns them, \<open>WriteAt\<close> changes those of the range and
  no others, and no other sector of the disk.
\<close>

record OpenFile =
  hdr :: FileHeader
  seekPosition :: int

definition OpenFile_new :: "'w fs_env \<Rightarrow> int \<Rightarrow> 'w \<Rightarrow> (OpenFile \<times> 'w) result" where
  "OpenFile_new E sector w =
     rbind (FileHeader_FetchFrom E sector w) (\<lambda>(h, w'). Inr (\<lparr>hdr = h, seekPosition = 0\<rparr>, w'))"

definition OpenFile_Seek :: "OpenFile \<Rightarrow> int \<Rightarrow> OpenFile" where
  "OpenFile_Seek f position = f\<lparr>seekPosition := position\<rparr>"

text \<open>The sectors \<open>i\<close> to \<open>n - 1\<close> of the file into the buffer, which starts at sector \<open>firstSector\<close>.\<close>

definition read_sectors ::
  "'w fs_env \<Rightarrow> FileHeader \<Rightarrow> int \<Rightarrow> int \<Rightarrow> byte list \<times> 'w \<Rightarrow> (byte list \<times> 'w) result" where
  "read_sectors E h firstSector lastSector =
     for_range firstSector (lastSector + 1) (\<lambda>i (buf, w).
       rbind (FileHeader_ByteToSector h (i * SectorSize)) (\<lambda>s.
       rbind (ReadSector E s w) (\<lambda>(data, w').
       rbind (bcopy data 0 buf ((i - firstSector) * SectorSize) SectorSize) (\<lambda>buf'.
       Inr (buf', w')))))"

definition write_sectors ::
  "'w fs_env \<Rightarrow> FileHeader \<Rightarrow> byte list \<Rightarrow> int \<Rightarrow> int \<Rightarrow> 'w \<Rightarrow> 'w result" where
  "write_sectors E h buf firstSector lastSector =
     for_range firstSector (lastSector + 1) (\<lambda>i w.
       rbind (FileHeader_ByteToSector h (i * SectorSize)) (\<lambda>s.
       rbind (subarray buf ((i - firstSector) * SectorSize) SectorSize) (\<lambda>data.
       WriteSector E s data w)))"

text \<open>\<open>into\<close> is the caller's array and \<open>off\<close> the index the pointer passed points to.\<close>

definition OpenFile_ReadAt ::
  "'w fs_env \<Rightarrow> OpenFile \<Rightarrow> byte list \<Rightarrow> int \<Rightarrow> int \<Rightarrow> int \<Rightarrow> 'w \<Rightarrow> (int \<times> byte list \<times> 'w) result" where
  "OpenFile_ReadAt E f into off n position w =
     (let fileLength = FileHeader_FileLength (hdr f) in
      if n \<le> 0 \<or> position \<ge> fileLength then Inr (0, into, w)
      else rbind (int_add position n) (\<lambda>upto.
        let n = (if upto > fileLength then fileLength - position else n);
            firstSector = divRoundDown position SectorSize;
            lastSector = divRoundDown (position + n - 1) SectorSize;
            sectors = 1 + lastSector - firstSector;
            buf = new_bytes E 0 w (sectors * SectorSize)
        in rbind (read_sectors E (hdr f) firstSector lastSector (buf, w)) (\<lambda>(buf, w).
           rbind (bcopy buf (position - firstSector * SectorSize) into off n) (\<lambda>into'.
           Inr (n, into', w)))))"

definition OpenFile_WriteAt ::
  "'w fs_env \<Rightarrow> OpenFile \<Rightarrow> byte list \<Rightarrow> int \<Rightarrow> int \<Rightarrow> 'w \<Rightarrow> (int \<times> 'w) result" where
  "OpenFile_WriteAt E f src n position w =
     (let fileLength = FileHeader_FileLength (hdr f) in
      if n \<le> 0 \<or> position \<ge> fileLength then Inr (0, w)
      else rbind (int_add position n) (\<lambda>upto.
        let n = (if upto > fileLength then fileLength - position else n);
            firstSector = divRoundDown position SectorSize;
            lastSector = divRoundDown (position + n - 1) SectorSize;
            sectors = 1 + lastSector - firstSector;
            buf = new_bytes E 0 w (sectors * SectorSize);
            firstAligned = (position = firstSector * SectorSize);
            lastAligned = (position + n = (lastSector + 1) * SectorSize)
        in rbind (if \<not> firstAligned
                  then OpenFile_ReadAt E f buf 0 SectorSize (firstSector * SectorSize) w
                  else Inr (0, buf, w)) (\<lambda>(_, buf, w).
           rbind (if \<not> lastAligned \<and> (firstSector \<noteq> lastSector \<or> firstAligned)
                  then OpenFile_ReadAt E f buf ((lastSector - firstSector) * SectorSize)
                         SectorSize (lastSector * SectorSize) w
                  else Inr (0, buf, w)) (\<lambda>(_, buf, w).
           rbind (bcopy src 0 buf (position - firstSector * SectorSize) n) (\<lambda>buf.
           rbind (write_sectors E (hdr f) buf firstSector lastSector w) (\<lambda>w.
           Inr (n, w)))))))"

definition OpenFile_Read ::
  "'w fs_env \<Rightarrow> OpenFile \<Rightarrow> byte list \<Rightarrow> int \<Rightarrow> int \<Rightarrow> 'w \<Rightarrow> (int \<times> OpenFile \<times> byte list \<times> 'w) result" where
  "OpenFile_Read E f into off n w =
     rbind (OpenFile_ReadAt E f into off n (seekPosition f) w) (\<lambda>(r, into', w').
     rbind (int_add (seekPosition f) r) (\<lambda>p. Inr (r, f\<lparr>seekPosition := p\<rparr>, into', w')))"

definition OpenFile_Write ::
  "'w fs_env \<Rightarrow> OpenFile \<Rightarrow> byte list \<Rightarrow> int \<Rightarrow> 'w \<Rightarrow> (int \<times> OpenFile \<times> 'w) result" where
  "OpenFile_Write E f src n w =
     rbind (OpenFile_WriteAt E f src n (seekPosition f) w) (\<lambda>(r, w').
     rbind (int_add (seekPosition f) r) (\<lambda>p. Inr (r, f\<lparr>seekPosition := p\<rparr>, w')))"

definition OpenFile_Length :: "OpenFile \<Rightarrow> int" where
  "OpenFile_Length f = FileHeader_FileLength (hdr f)"

subsection \<open>A file as its bytes\<close>

definition file_byte :: "FileHeader \<Rightarrow> (int \<Rightarrow> byte list) \<Rightarrow> int \<Rightarrow> byte" where
  "file_byte h D k = D (dataSectors h ! nat (k div 128)) ! nat (k mod 128)"

definition file_bytes :: "FileHeader \<Rightarrow> (int \<Rightarrow> byte list) \<Rightarrow> byte list" where
  "file_bytes h D = map (\<lambda>k. file_byte h D (int k)) [0..<nat (numBytes h)]"

lemma length_file_bytes [simp]: "length (file_bytes h D) = nat (numBytes h)"
  by (simp add: file_bytes_def)

lemma header_sector:
  assumes h: "header_ok h" and k: "0 \<le> i" "i * 128 < numBytes h"
  shows "i < numSectors h" and "i < 30" and "i < int (length (dataSectors h))"
    and "sector_number (dataSectors h ! nat i)" and "dataSectors h ! nat i \<in> set (data_list h)"
proof -
  have "numBytes h \<le> numSectors h * 128" "numSectors h \<le> 30" "length (dataSectors h) = 30"
    using h sectors_of_size(2) [of "numBytes h"] divRoundUp_bounds(1) [of "numBytes h" 128]
    by (auto simp: header_ok_def header_typed_def SectorSize_def)
  with k show "i < numSectors h" "i < 30" "i < int (length (dataSectors h))" by linarith+
  then have "nat i < nat (numSectors h)" "nat i < length (dataSectors h)" using k by linarith+
  then show "dataSectors h ! nat i \<in> set (data_list h)"
    by (auto simp: data_list_def in_set_conv_nth intro!: exI [of _ "nat i"])
  then show "sector_number (dataSectors h ! nat i)" using h by (auto simp: header_ok_def)
qed

lemma header_sector_inj:
  assumes h: "header_ok h" and i: "0 \<le> i" "i * 128 < numBytes h" and j: "0 \<le> j" "j * 128 < numBytes h"
    and eq: "dataSectors h ! nat i = dataSectors h ! nat j"
  shows "i = j"
proof -
  have *: "nat x < length (data_list h) \<and> data_list h ! nat x = dataSectors h ! nat x"
    if "0 \<le> x" "x * 128 < numBytes h" for x
    using header_sector(1,3) [OF h that] that by (auto simp: data_list_def)
  have "nat i = nat j"
    using nth_eq_iff_index_eq [of "data_list h" "nat i" "nat j"] * [OF i] * [OF j] h eq
    by (simp add: header_ok_def)
  with i j show ?thesis by simp
qed

lemma ByteToSector_ok:
  "header_ok h \<Longrightarrow> 0 \<le> i \<Longrightarrow> i * 128 < numBytes h \<Longrightarrow>
    FileHeader_ByteToSector h (i * SectorSize) = Inr (dataSectors h ! nat i)"
  using header_sector(3) [of h i] by (simp add: FileHeader_ByteToSector_def SectorSize_def)

lemma file_byte_in_sector:
  assumes "0 \<le> i" and "0 \<le> q" and "q < 128"
  shows "file_byte h D (i * 128 + q) = D (dataSectors h ! nat i) ! nat q"
  using assms by (simp add: file_byte_def)

lemma sector_range:
  assumes "0 \<le> (pos::int)" and "0 < c" and "pos + c \<le> len"
  shows "0 \<le> pos div 128 \<and> pos div 128 \<le> (pos + c - 1) div 128 \<and> (pos + c - 1) div 128 * 128 < len \<and>
    pos div 128 * 128 \<le> pos \<and> pos < pos div 128 * 128 + 128 \<and>
    pos + c \<le> ((pos + c - 1) div 128 + 1) * 128 \<and> (pos + c - 1) div 128 * 128 < pos + c"
proof -
  define a where "a = pos div 128"
  define b where "b = (pos + c - 1) div 128"
  have "0 \<le> a" using assms by (simp add: a_def)
  moreover have "a \<le> b" using zdiv_mono1 [of pos "pos + c - 1" 128] assms by (simp add: a_def b_def)
  moreover have "a * 128 \<le> pos" "pos < a * 128 + 128" unfolding a_def by presburger+
  moreover have "b * 128 \<le> pos + c - 1" "pos + c - 1 < b * 128 + 128" unfolding b_def by presburger+
  ultimately show ?thesis using assms
    unfolding a_def [symmetric] b_def [symmetric] by (simp add: distrib_right)
qed

subsection \<open>Reading\<close>

context sector_device
begin

definition read_state :: "FileHeader \<Rightarrow> 'w \<Rightarrow> int \<Rightarrow> nat \<Rightarrow> int \<Rightarrow> byte list \<times> 'w \<Rightarrow> bool" where
  "read_state h w first L j s \<longleftrightarrow>
     ok (snd s) \<and> sectors (snd s) = sectors w \<and> length (fst s) = L \<and>
     (\<forall>q. 0 \<le> q \<and> q < (j - first) * 128 \<longrightarrow>
       fst s ! nat q = file_byte h (sectors w) (first * 128 + q))"

lemma read_sectors_law:
  assumes h: "header_ok h" and ok: "ok w"
    and first: "0 \<le> first" "first \<le> lst" and lst: "lst * 128 < numBytes h"
    and L: "int (length buf) = (lst + 1 - first) * 128"
  shows "\<exists>buf' w'. read_sectors E h first lst (buf, w) = Inr (buf', w') \<and>
    read_state h w first (length buf) (lst + 1) (buf', w')"
proof -
  let ?P = "read_state h w first (length buf)"
  have "\<exists>s. read_sectors E h first lst (buf, w) = Inr s \<and> ?P (lst + 1) s"
    unfolding read_sectors_def
  proof (rule for_range_rule)
    show "?P first (buf, w)" using ok by (auto simp: read_state_def)
    show "first \<le> lst + 1" using first by simp
  next
    fix j s assume j: "first \<le> j" "j < lst + 1" and st: "?P j s"
    obtain b v where s: "s = (b, v)" by (cases s)
    have b: "ok v" "sectors v = sectors w" "length b = length buf"
      "\<forall>q. 0 \<le> q \<and> q < (j - first) * 128 \<longrightarrow> b ! nat q = file_byte h (sectors w) (first * 128 + q)"
      using st s by (auto simp: read_state_def)
    have j': "0 \<le> j" "j * 128 < numBytes h" using j first lst by linarith+
    let ?s = "dataSectors h ! nat j"
    have sec: "sector_number ?s" by (rule header_sector(4) [OF h j'])
    obtain v' where v': "ReadSector E ?s v = Inr (sectors w ?s, v')" "ok v'" "sectors v' = sectors w"
      using read_law [OF b(1) sec] b(2) by auto
    have len: "length (sectors w ?s) = 128" using sector_length [OF ok sec] .
    have "0 \<le> (j - first) * 128" "(j - first) * 128 + 128 \<le> int (length b)"
      using j L b(3) by simp_all
    then obtain b' where b': "bcopy (sectors w ?s) 0 b ((j - first) * 128) 128 = Inr b'"
      "length b' = length b"
      "\<forall>q. 0 \<le> q \<and> q < int (length b) \<longrightarrow> b' ! nat q =
        (if (j - first) * 128 \<le> q \<and> q < (j - first) * 128 + 128
         then sectors w ?s ! nat (q - (j - first) * 128 + 0) else b ! nat q)"
      using bcopy_ok [of 128 0 "sectors w ?s" "(j - first) * 128" b] len by auto
    have "b' ! nat q = file_byte h (sectors w) (first * 128 + q)"
      if q: "0 \<le> q" "q < (j + 1 - first) * 128" for q
    proof -
      have qb: "q < int (length b)" 
      proof -
        have "(j + 1 - first) * 128 \<le> (lst + 1 - first) * 128" using j by simp
        with q(2) L b(3) show ?thesis by simp
      qed
      show ?thesis
      proof (cases "(j - first) * 128 \<le> q")
        case True
        then have r: "0 \<le> q - (j - first) * 128" "q - (j - first) * 128 < 128"
          using q by (simp_all add: algebra_simps)
        have eq: "first * 128 + q = j * 128 + (q - (j - first) * 128)" by (simp add: algebra_simps)
        have "file_byte h (sectors w) (first * 128 + q) = sectors w ?s ! nat (q - (j - first) * 128)"
          unfolding eq by (rule file_byte_in_sector [OF j'(1) r])
        with True q qb b'(3) r show ?thesis by simp
      next
        case False
        with q qb b'(3) b(4) show ?thesis by simp
      qed
    qed
    then have "?P (j + 1) (b', v')"
      using v' b' b(3) by (auto simp: read_state_def algebra_simps)
    moreover have "FileHeader_ByteToSector h (j * SectorSize) = Inr ?s"
      by (rule ByteToSector_ok [OF h j'])
    ultimately show "\<exists>t. (case s of (buf, w) \<Rightarrow>
        rbind (FileHeader_ByteToSector h (j * SectorSize)) (\<lambda>s. rbind (ReadSector E s w)
          (\<lambda>(data, w'). rbind (bcopy data 0 buf ((j - first) * SectorSize) SectorSize)
            (\<lambda>buf'. Inr (buf', w'))))) = Inr t \<and> ?P (j + 1) t"
      using v'(1) b'(1) by (auto simp: s SectorSize_def)
  qed
  then show ?thesis by auto
qed

lemma ReadAt_law:
  assumes h: "header_ok (hdr f)" and ok: "ok w" and n: "0 < n"
    and pos: "0 \<le> pos" "pos < numBytes (hdr f)" and fit: "in_int (pos + n)"
    and c: "c = min n (numBytes (hdr f) - pos)"
    and into: "0 \<le> off" "off + c \<le> int (length into)"
  shows "\<exists>into' w'. OpenFile_ReadAt E f into off n pos w = Inr (c, into', w') \<and>
    ok w' \<and> sectors w' = sectors w \<and> length into' = length into \<and>
    (\<forall>q. 0 \<le> q \<and> q < int (length into) \<longrightarrow> into' ! nat q =
      (if off \<le> q \<and> q < off + c then file_byte (hdr f) (sectors w) (pos + (q - off))
       else into ! nat q))"
proof -
  let ?h = "hdr f"
  have c_eq: "(if pos + n > numBytes ?h then numBytes ?h - pos else n) = c"
    using c by (simp add: min_def)
  have c0: "0 < c" "pos + c \<le> numBytes ?h" using c n pos by auto
  define first where "first = pos div 128"
  define lst where "lst = (pos + c - 1) div 128"
  have bounds: "0 \<le> first" "first \<le> lst" "lst * 128 < numBytes ?h"
    "first * 128 \<le> pos" "pos < first * 128 + 128" "pos + c \<le> (lst + 1) * 128"
    using sector_range [OF pos(1) c0, folded first_def lst_def] by simp_all
  let ?buf = "new_bytes E 0 w ((1 + lst - first) * 128)"
  have L: "int (length ?buf) = (lst + 1 - first) * 128" using bounds by simp
  obtain buf w' where run: "read_sectors E ?h first lst (?buf, w) = Inr (buf, w')"
    and st: "read_state ?h w first (length ?buf) (lst + 1) (buf, w')"
    using read_sectors_law [OF h ok bounds(1,2,3) L] by blast
  have buf: "ok w'" "sectors w' = sectors w" "int (length buf) = (lst + 1 - first) * 128"
    "\<forall>q. 0 \<le> q \<and> q < (lst + 1 - first) * 128 \<longrightarrow>
      buf ! nat q = file_byte ?h (sectors w) (first * 128 + q)"
    using st L by (auto simp: read_state_def)
  have i: "0 \<le> pos - first * 128" "pos - first * 128 + c \<le> int (length buf)"
    using bounds buf(3) by (simp_all add: algebra_simps)
  obtain into' where into': "bcopy buf (pos - first * 128) into off c = Inr into'"
    "length into' = length into"
    "\<forall>q. 0 \<le> q \<and> q < int (length into) \<longrightarrow> into' ! nat q =
      (if off \<le> q \<and> q < off + c then buf ! nat (q - off + (pos - first * 128)) else into ! nat q)"
    using bcopy_ok [OF c0(1) i into] by blast
  have "buf ! nat (q - off + (pos - first * 128)) = file_byte ?h (sectors w) (pos + (q - off))"
    if "off \<le> q" "q < off + c" for q
  proof -
    have "0 \<le> q - off + (pos - first * 128)" "q - off + (pos - first * 128) < (lst + 1 - first) * 128"
      using that bounds by (simp_all add: algebra_simps)
    with buf(4) show ?thesis by (simp add: algebra_simps)
  qed
  with into' have bytes: "\<forall>q. 0 \<le> q \<and> q < int (length into) \<longrightarrow> into' ! nat q =
      (if off \<le> q \<and> q < off + c then file_byte ?h (sectors w) (pos + (q - off)) else into ! nat q)"
    by simp
  have "divRoundDown pos SectorSize = first" "divRoundDown (pos + c - 1) SectorSize = lst"
    using pos c0 by (simp_all add: divRoundDown_def SectorSize_def first_def lst_def)
  then have "OpenFile_ReadAt E f into off n pos w = Inr (c, into', w')"
    using n pos fit run into'(1)
    by (simp add: OpenFile_ReadAt_def FileHeader_FileLength_def Let_def int_add_def c_eq
        SectorSize_def)
  with buf(1,2) into'(2) bytes show ?thesis by blast
qed

subsection \<open>Writing\<close>

text \<open>One sector of the file into its place in the buffer: what \<open>WriteAt\<close> does before it copies.\<close>

lemma fill_law:
  assumes h: "header_ok (hdr f)" and ok: "ok w"
    and i: "0 \<le> first" "first \<le> i" "i \<le> lst" and lst: "lst * 128 < numBytes (hdr f)"
    and L: "int (length buf) = (lst + 1 - first) * 128"
  shows "\<exists>n buf' w'. OpenFile_ReadAt E f buf ((i - first) * SectorSize) SectorSize (i * SectorSize) w =
      Inr (n, buf', w') \<and> ok w' \<and> sectors w' = sectors w \<and> length buf' = length buf \<and>
    (\<forall>q. 0 \<le> q \<and> q < int (length buf) \<longrightarrow> buf' ! nat q =
      (if i * 128 \<le> first * 128 + q \<and> first * 128 + q < i * 128 + 128 \<and> first * 128 + q < numBytes (hdr f)
       then file_byte (hdr f) (sectors w) (first * 128 + q) else buf ! nat q))"
proof -
  let ?c = "min 128 (numBytes (hdr f) - i * 128)"
  have len: "numBytes (hdr f) \<le> 3840" using h by (simp add: header_ok_def MaxFileSize_value)
  have i1: "0 \<le> i * 128" "i * 128 < numBytes (hdr f)" using i lst by linarith+
  have fit: "in_int (i * 128 + 128)"
    using i1 len by (simp add: in_int_def int_min_def int_max_def)
  have "(i - first) * 128 + 128 \<le> (lst + 1 - first) * 128" using i by simp
  then have into: "0 \<le> (i - first) * 128" "(i - first) * 128 + ?c \<le> int (length buf)"
    using i L by simp_all
  obtain buf' w' where r: "OpenFile_ReadAt E f buf ((i - first) * 128) 128 (i * 128) w = Inr (?c, buf', w')"
    "ok w'" "sectors w' = sectors w" "length buf' = length buf"
    "\<forall>q. 0 \<le> q \<and> q < int (length buf) \<longrightarrow> buf' ! nat q =
      (if (i - first) * 128 \<le> q \<and> q < (i - first) * 128 + ?c
       then file_byte (hdr f) (sectors w) (i * 128 + (q - (i - first) * 128)) else buf ! nat q)"
    using ReadAt_law [OF h ok _ i1 fit refl into] by auto
  have "buf' ! nat q =
      (if i * 128 \<le> first * 128 + q \<and> first * 128 + q < i * 128 + 128 \<and> first * 128 + q < numBytes (hdr f)
       then file_byte (hdr f) (sectors w) (first * 128 + q) else buf ! nat q)"
    if q: "0 \<le> q" "q < int (length buf)" for q
  proof -
    have eq: "i * 128 + (q - (i - first) * 128) = first * 128 + q" by (simp add: algebra_simps)
    have iff: "(i - first) * 128 \<le> q \<and> q < (i - first) * 128 + ?c \<longleftrightarrow>
        i * 128 \<le> first * 128 + q \<and> first * 128 + q < i * 128 + 128 \<and> first * 128 + q < numBytes (hdr f)"
      by (auto simp: min_def algebra_simps)
    show ?thesis using r(5) [rule_format, of q] q unfolding eq iff by blast
  qed
  with r show ?thesis by (simp add: SectorSize_def)
qed

definition write_state :: "FileHeader \<Rightarrow> 'w \<Rightarrow> int \<Rightarrow> byte list \<Rightarrow> int \<Rightarrow> 'w \<Rightarrow> bool" where
  "write_state h w first buf j v \<longleftrightarrow>
     ok v \<and>
     (\<forall>i. first \<le> i \<and> i < j \<longrightarrow>
       sectors v (dataSectors h ! nat i) = take 128 (drop (nat ((i - first) * 128)) buf)) \<and>
     (\<forall>s. (\<forall>i. first \<le> i \<and> i < j \<longrightarrow> s \<noteq> dataSectors h ! nat i) \<longrightarrow> sectors v s = sectors w s)"

lemma write_sectors_law:
  assumes h: "header_ok h" and ok: "ok w"
    and first: "0 \<le> first" "first \<le> lst" and lst: "lst * 128 < numBytes h"
    and L: "int (length buf) = (lst + 1 - first) * 128"
  shows "\<exists>v. write_sectors E h buf first lst w = Inr v \<and> write_state h w first buf (lst + 1) v"
  unfolding write_sectors_def
proof (rule for_range_rule)
  show "write_state h w first buf first w" using ok by (auto simp: write_state_def)
  show "first \<le> lst + 1" using first by simp
next
  fix j v assume j: "first \<le> j" "j < lst + 1" and st: "write_state h w first buf j v"
  have j': "0 \<le> j" "j * 128 < numBytes h" using j first lst by linarith+
  let ?s = "dataSectors h ! nat j"
  let ?d = "take 128 (drop (nat ((j - first) * 128)) buf)"
  have sec: "sector_number ?s" by (rule header_sector(4) [OF h j'])
  have "(j - first) * 128 + 128 \<le> (lst + 1 - first) * 128" using j by simp
  then have bnd: "0 \<le> (j - first) * 128" "(j - first) * 128 + 128 \<le> int (length buf)"
    using j L by simp_all
  then have sub: "subarray buf ((j - first) * 128) 128 = Inr ?d" by (simp add: subarray_def)
  have len: "length ?d = 128" using bnd by simp
  obtain v' where v': "WriteSector E ?s ?d v = Inr v'" "ok v'" "sectors v' = (sectors v)(?s := ?d)"
    using write_law [OF _ sec len, of v] st by (auto simp: write_state_def)
  have inj: "dataSectors h ! nat i \<noteq> ?s" if "first \<le> i" "i < j" for i
    using header_sector_inj [OF h _ _ j', of i] that first j' by auto
  have "write_state h w first buf (j + 1) v'"
    unfolding write_state_def
  proof (intro conjI allI impI)
    show "ok v'" by (rule v'(2))
  next
    fix i assume i: "first \<le> i \<and> i < j + 1"
    show "sectors v' (dataSectors h ! nat i) = take 128 (drop (nat ((i - first) * 128)) buf)"
    proof (cases "i = j")
      case False
      then have "i < j" using i by simp
      with i inj st v'(3) show ?thesis by (simp add: write_state_def)
    qed (simp add: v'(3))
  next
    fix s assume s: "\<forall>i. first \<le> i \<and> i < j + 1 \<longrightarrow> s \<noteq> dataSectors h ! nat i"
    then have "s \<noteq> ?s" "\<forall>i. first \<le> i \<and> i < j \<longrightarrow> s \<noteq> dataSectors h ! nat i" using j by auto
    with st v'(3) show "sectors v' s = sectors w s" by (simp add: write_state_def)
  qed
  with v'(1) sub ByteToSector_ok [OF h j']
  show "\<exists>t. rbind (FileHeader_ByteToSector h (j * SectorSize)) (\<lambda>s.
      rbind (subarray buf ((j - first) * SectorSize) SectorSize) (\<lambda>data. WriteSector E s data v)) = Inr t \<and>
      write_state h w first buf (j + 1) t"
    by (simp add: SectorSize_def)
qed

lemma write_state_bytes:
  assumes h: "header_ok h" and st: "write_state h w first buf (lst + 1) v"
    and first: "0 \<le> first" "first \<le> lst" and lst: "lst * 128 < numBytes h"
    and L: "int (length buf) = (lst + 1 - first) * 128"
    and k: "0 \<le> k" "k < numBytes h"
  shows "file_byte h (sectors v) k =
    (if first * 128 \<le> k \<and> k < (lst + 1) * 128 then buf ! nat (k - first * 128)
     else file_byte h (sectors w) k)"
proof -
  define i where "i = k div 128"
  have i: "0 \<le> i" "i * 128 < numBytes h" "i * 128 \<le> k" "k < i * 128 + 128"
    using k unfolding i_def by (presburger+)
  have kb: "k mod 128 = k - i * 128" unfolding i_def by presburger
  show ?thesis
  proof (cases "first * 128 \<le> k \<and> k < (lst + 1) * 128")
    case True
    then have "first * 128 \<le> k" "k < (lst + 1) * 128" by simp_all
    then have "first * 128 < (i + 1) * 128" "i * 128 < (lst + 1) * 128"
      using i by (simp_all add: distrib_right)
    then have r: "first \<le> i" "i < lst + 1" by simp_all
    have a: "0 \<le> (i - first) * 128" "0 \<le> k - i * 128" using r i by simp_all
    have e: "nat ((i - first) * 128) + nat (k - i * 128) = nat (k - first * 128)"
      using nat_add_distrib [OF a] by (simp add: algebra_simps)
    have "(i - first) * 128 \<le> (lst + 1 - first) * 128" using r by simp
    then have d: "nat ((i - first) * 128) \<le> length buf" using L by linarith
    have "sectors v (dataSectors h ! nat i) = take 128 (drop (nat ((i - first) * 128)) buf)"
      using st r by (simp add: write_state_def)
    moreover have "nat (k - i * 128) < 128" using i by linarith
    ultimately show ?thesis
      using True e d kb by (simp add: file_byte_def i_def [symmetric])
  next
    case False
    then have "k < first * 128 \<or> lst * 128 + 128 \<le> k" by (auto simp: distrib_right)
    with i have out: "i < first \<or> lst < i" by linarith
    have "dataSectors h ! nat i \<noteq> dataSectors h ! nat j" if "first \<le> j" "j < lst + 1" for j
    proof -
      have "0 \<le> j" "j * 128 < numBytes h" using that first lst by linarith+
      from header_sector_inj [OF h i(1,2) this] that out show ?thesis by auto
    qed
    then have "sectors v (dataSectors h ! nat i) = sectors w (dataSectors h ! nat i)"
      using st by (simp add: write_state_def)
    with False show ?thesis by (auto simp: file_byte_def i_def [symmetric])
  qed
qed

text \<open>
  The buffer that \<open>WriteAt\<close> writes back holds the new bytes of the range and, wherever else it
  covers the file, the old ones.
\<close>

definition merged :: "FileHeader \<Rightarrow> 'w \<Rightarrow> byte list \<Rightarrow> int \<Rightarrow> int \<Rightarrow> int \<Rightarrow> byte list \<Rightarrow> bool" where
  "merged h w src pos c first buf \<longleftrightarrow>
     (\<forall>q. 0 \<le> q \<and> q < int (length buf) \<and> first * 128 + q < numBytes h \<longrightarrow>
       buf ! nat q =
         (if pos \<le> first * 128 + q \<and> first * 128 + q < pos + c then src ! nat (first * 128 + q - pos)
          else file_byte h (sectors w) (first * 128 + q)))"

lemma WriteAt_law:
  assumes h: "header_ok (hdr f)" and ok: "ok w" and n: "0 < n"
    and pos: "0 \<le> pos" "pos < numBytes (hdr f)" and fit: "in_int (pos + n)"
    and c: "c = min n (numBytes (hdr f) - pos)" and src: "c \<le> int (length src)"
  shows "\<exists>w'. OpenFile_WriteAt E f src n pos w = Inr (c, w') \<and> ok w' \<and>
    (\<forall>s. s \<notin> set (data_list (hdr f)) \<longrightarrow> sectors w' s = sectors w s) \<and>
    (\<forall>k. 0 \<le> k \<and> k < numBytes (hdr f) \<longrightarrow> file_byte (hdr f) (sectors w') k =
      (if pos \<le> k \<and> k < pos + c then src ! nat (k - pos) else file_byte (hdr f) (sectors w) k))"
proof -
  let ?h = "hdr f"
  have c_eq: "(if pos + n > numBytes ?h then numBytes ?h - pos else n) = c"
    using c by (simp add: min_def)
  have c0: "0 < c" "pos + c \<le> numBytes ?h" using c n pos by auto
  define first where "first = pos div 128"
  define lst where "lst = (pos + c - 1) div 128"
  have bounds: "0 \<le> first" "first \<le> lst" "lst * 128 < numBytes ?h"
    "first * 128 \<le> pos" "pos < first * 128 + 128" "pos + c \<le> (lst + 1) * 128" "lst * 128 < pos + c"
    using sector_range [OF pos(1) c0, folded first_def lst_def] by simp_all
  let ?L = "(lst + 1 - first) * 128"
  define buf0 where "buf0 = new_bytes E 0 w ?L"
  have L0: "int (length buf0) = ?L" using bounds by (simp add: buf0_def)
  define al where "al = (pos = first * 128)"
  define bl where "bl = (pos + c = (lst + 1) * 128)"
  obtain n1 buf1 w1 where s1:
    "(if \<not> al then OpenFile_ReadAt E f buf0 0 SectorSize (first * SectorSize) w
      else Inr (0, buf0, w)) = Inr (n1, buf1, w1)"
    "ok w1" "sectors w1 = sectors w" "int (length buf1) = ?L"
    "\<not> al \<longrightarrow> (\<forall>q. 0 \<le> q \<and> q < ?L \<and> q < 128 \<and> first * 128 + q < numBytes ?h \<longrightarrow>
      buf1 ! nat q = file_byte ?h (sectors w) (first * 128 + q))"
  proof (cases al)
    case True
    with ok L0 that show ?thesis by auto
  next
    case False
    with fill_law [OF h ok bounds(1) order_refl bounds(2,3) L0] L0 that show ?thesis by fastforce
  qed
  let ?second = "\<not> bl \<and> (first \<noteq> lst \<or> al)"
  obtain n2 buf2 w2 where s2:
    "(if ?second then OpenFile_ReadAt E f buf1 ((lst - first) * SectorSize) SectorSize (lst * SectorSize) w1
      else Inr (0, buf1, w1)) = Inr (n2, buf2, w2)"
    "ok w2" "sectors w2 = sectors w" "int (length buf2) = ?L"
    "\<forall>q. 0 \<le> q \<and> q < ?L \<longrightarrow> buf2 ! nat q =
      (if ?second \<and> lst * 128 \<le> first * 128 + q \<and> first * 128 + q < lst * 128 + 128 \<and>
          first * 128 + q < numBytes ?h
       then file_byte ?h (sectors w) (first * 128 + q) else buf1 ! nat q)"
  proof (cases ?second)
    case True
    with fill_law [OF h s1(2) bounds(1,2) order_refl bounds(3) s1(4)] s1(3,4) that show ?thesis
      by fastforce
  next
    case False
    then show ?thesis using s1(2-4) that [of 0 buf1 w1] by (simp only: if_False) simp
  qed
  have i: "0 \<le> pos - first * 128" "pos - first * 128 + c \<le> int (length buf2)"
    using bounds s2(4) by (simp_all add: algebra_simps)
  have "0 + c \<le> int (length src)" using src by simp
  from bcopy_ok [OF c0(1) order_refl this i] obtain buf3 where s3:
    "bcopy src 0 buf2 (pos - first * 128) c = Inr buf3" "int (length buf3) = ?L"
    "\<forall>q. 0 \<le> q \<and> q < ?L \<longrightarrow> buf3 ! nat q =
      (if pos - first * 128 \<le> q \<and> q < pos - first * 128 + c
       then src ! nat (q - (pos - first * 128) + 0) else buf2 ! nat q)"
    using s2(4) by auto
  have merged: "merged ?h w src pos c first buf3"
    unfolding merged_def
  proof (intro allI impI)
    fix q assume q: "0 \<le> q \<and> q < int (length buf3) \<and> first * 128 + q < numBytes ?h"
    then have qL: "q < ?L" using s3(2) by simp
    show "buf3 ! nat q =
        (if pos \<le> first * 128 + q \<and> first * 128 + q < pos + c then src ! nat (first * 128 + q - pos)
         else file_byte ?h (sectors w) (first * 128 + q))"
    proof (cases "pos \<le> first * 128 + q \<and> first * 128 + q < pos + c")
      case True
      then have "pos - first * 128 \<le> q \<and> q < pos - first * 128 + c" by linarith
      then have "buf3 ! nat q = src ! nat (q - (pos - first * 128))" using s3(3) q qL by simp
      also have "q - (pos - first * 128) = first * 128 + q - pos" by simp
      finally show ?thesis using True by simp
    next
      case out: False
      then have b3: "buf3 ! nat q = buf2 ! nat q" using s3(3) q qL by auto
      have "buf2 ! nat q = file_byte ?h (sectors w) (first * 128 + q)"
      proof (cases "?second \<and> lst * 128 \<le> first * 128 + q")
        case True
        then show ?thesis using s2(5) q qL by (simp add: algebra_simps)
      next
        case not2: False
        have "\<not> al \<and> q < 128"
        proof (rule ccontr)
          assume "\<not> (\<not> al \<and> q < 128)"
          then show False using out not2 q qL bounds unfolding al_def bl_def by (cases "first = lst"; cases al) (auto simp: algebra_simps al_def bl_def)
        qed
        with s1(5) q qL not2 s2(5) show ?thesis by auto
      qed
      with b3 out show ?thesis by auto
    qed
  qed
  obtain v where v: "write_sectors E ?h buf3 first lst w2 = Inr v"
    "write_state ?h w2 first buf3 (lst + 1) v"
    using write_sectors_law [OF h s2(2) bounds(1,2,3) s3(2)] by blast
  have vs: "sectors v s = sectors w s" if "s \<notin> set (data_list ?h)" for s
  proof -
    have "s \<noteq> dataSectors ?h ! nat i" if "first \<le> i" "i < lst + 1" for i
    proof -
      have "0 \<le> i" "i * 128 < numBytes ?h" using that bounds by linarith+
      from header_sector(5) [OF h this] \<open>s \<notin> set (data_list ?h)\<close> show ?thesis by auto
    qed
    then show ?thesis using v(2) s2(3) by (simp add: write_state_def)
  qed
  have same: "file_byte ?h (sectors w2) k = file_byte ?h (sectors w) k" for k
    by (simp add: file_byte_def s2(3))
  have bytes: "file_byte ?h (sectors v) k =
      (if pos \<le> k \<and> k < pos + c then src ! nat (k - pos) else file_byte ?h (sectors w) k)"
    if k: "0 \<le> k" "k < numBytes ?h" for k
  proof (cases "first * 128 \<le> k \<and> k < (lst + 1) * 128")
    case True
    then have "0 \<le> k - first * 128 \<and> k - first * 128 < int (length buf3)"
      using s3(2) by (simp add: algebra_simps)
    with merged k have "buf3 ! nat (k - first * 128) =
        (if pos \<le> k \<and> k < pos + c then src ! nat (k - pos) else file_byte ?h (sectors w) k)"
      by (simp add: merged_def)
    with True write_state_bytes [OF h v(2) bounds(1-3) s3(2) k] show ?thesis by simp
  next
    case False
    with write_state_bytes [OF h v(2) bounds(1-3) s3(2) k] same bounds show ?thesis by auto
  qed
  have div: "divRoundDown pos SectorSize = first" "divRoundDown (pos + c - 1) SectorSize = lst"
    using pos c0 by (simp_all add: divRoundDown_def SectorSize_def first_def lst_def)
  have buf0: "new_bytes E 0 w ((1 + lst - first) * SectorSize) = buf0"
    by (simp add: buf0_def SectorSize_def algebra_simps)
  have al: "(pos = first * SectorSize) = al" and bl: "(pos + c = (lst + 1) * SectorSize) = bl"
    by (simp_all add: al_def bl_def SectorSize_def)
  have n0: "\<not> (n \<le> 0 \<or> pos \<ge> numBytes ?h)" using n pos by simp
  have "OpenFile_WriteAt E f src n pos w = Inr (c, v)"
    unfolding OpenFile_WriteAt_def FileHeader_FileLength_def Let_def int_add_def
      if_not_P [OF n0] if_P [OF fit] rbind_Inr c_eq div al bl buf0 s1(1) s2(1) prod.case
    using s3(1) v(1) by (simp add: SectorSize_def)
  with v(2) vs bytes show ?thesis by (auto simp: write_state_def)
qed

text \<open>The same two facts over the file as a list of bytes.\<close>

lemma ReadAt_list:
  assumes h: "header_ok (hdr f)" and ok: "ok w" and n: "0 < n"
    and pos: "0 \<le> pos" "pos < numBytes (hdr f)" and fit: "in_int (pos + n)"
    and c: "c = min n (numBytes (hdr f) - pos)" and into: "0 \<le> off" "off + c \<le> int (length into)"
  shows "\<exists>w'. OpenFile_ReadAt E f into off n pos w =
      Inr (c, take (nat off) into @ take (nat c) (drop (nat pos) (file_bytes (hdr f) (sectors w))) @
        drop (nat (off + c)) into, w') \<and>
    ok w' \<and> sectors w' = sectors w"
proof -
  obtain into' w' where r: "OpenFile_ReadAt E f into off n pos w = Inr (c, into', w')"
    "ok w'" "sectors w' = sectors w" "length into' = length into"
    "\<forall>q. 0 \<le> q \<and> q < int (length into) \<longrightarrow> into' ! nat q =
      (if off \<le> q \<and> q < off + c then file_byte (hdr f) (sectors w) (pos + (q - off)) else into ! nat q)"
    using ReadAt_law [OF assms] by blast
  let ?mid = "take (nat c) (drop (nat pos) (file_bytes (hdr f) (sectors w)))"
  have c0: "0 < c" "pos + c \<le> numBytes (hdr f)" using c n pos by auto
  have len: "int (length ?mid) = c" using c0 pos by simp
  have mid: "?mid ! nat (q - off) = file_byte (hdr f) (sectors w) (pos + (q - off))"
    if "off \<le> q" "q < off + c" for q
  proof -
    have "nat (q - off) < nat c" "nat pos + nat (q - off) < nat (numBytes (hdr f))"
      "int (nat pos + nat (q - off)) = pos + (q - off)" "nat pos \<le> nat (numBytes (hdr f))"
      using that c0 pos by linarith+
    then show ?thesis by (simp add: file_bytes_def)
  qed
  have "into' = take (nat off) into @ ?mid @ drop (nat (off + c)) into"
    by (rule splice_eq [OF c0(1) into len r(4)]) (use r(5) mid in simp)
  with r(1-3) show ?thesis by blast
qed

lemma WriteAt_list:
  assumes h: "header_ok (hdr f)" and ok: "ok w" and n: "0 < n"
    and pos: "0 \<le> pos" "pos < numBytes (hdr f)" and fit: "in_int (pos + n)"
    and c: "c = min n (numBytes (hdr f) - pos)" and src: "c \<le> int (length src)"
  shows "\<exists>w'. OpenFile_WriteAt E f src n pos w = Inr (c, w') \<and> ok w' \<and>
    (\<forall>s. s \<notin> set (data_list (hdr f)) \<longrightarrow> sectors w' s = sectors w s) \<and>
    file_bytes (hdr f) (sectors w') =
      take (nat pos) (file_bytes (hdr f) (sectors w)) @ take (nat c) src @
      drop (nat (pos + c)) (file_bytes (hdr f) (sectors w))"
proof -
  obtain w' where r: "OpenFile_WriteAt E f src n pos w = Inr (c, w')" "ok w'"
    "\<forall>s. s \<notin> set (data_list (hdr f)) \<longrightarrow> sectors w' s = sectors w s"
    "\<forall>k. 0 \<le> k \<and> k < numBytes (hdr f) \<longrightarrow> file_byte (hdr f) (sectors w') k =
      (if pos \<le> k \<and> k < pos + c then src ! nat (k - pos) else file_byte (hdr f) (sectors w) k)"
    using WriteAt_law [OF assms] by blast
  have c0: "0 < c" "pos + c \<le> numBytes (hdr f)" using c n pos by auto
  have "file_bytes (hdr f) (sectors w') =
      take (nat pos) (file_bytes (hdr f) (sectors w)) @ take (nat c) src @
      drop (nat (pos + c)) (file_bytes (hdr f) (sectors w))"
  proof (rule splice_eq [OF c0(1) pos(1)])
    show "pos + c \<le> int (length (file_bytes (hdr f) (sectors w)))" using c0 pos by simp
    show "int (length (take (nat c) src)) = c" using c0 src by simp
    fix q assume q: "0 \<le> q" "q < int (length (file_bytes (hdr f) (sectors w)))"
    then have nb: "q < numBytes (hdr f)" "nat q < nat (numBytes (hdr f))" by (auto split: if_splits)
    then show "file_bytes (hdr f) (sectors w') ! nat q =
        (if pos \<le> q \<and> q < pos + c then take (nat c) src ! nat (q - pos)
         else file_bytes (hdr f) (sectors w) ! nat q)"
      using r(4) q(1) by (simp add: file_bytes_def nat_less_eq_zless)
  qed simp
  with r show ?thesis by blast
qed

lemma ReadAt_none:
  "n \<le> 0 \<or> numBytes (hdr f) \<le> pos \<Longrightarrow> OpenFile_ReadAt E f into off n pos w = Inr (0, into, w)"
  by (auto simp: OpenFile_ReadAt_def FileHeader_FileLength_def)

lemma WriteAt_none:
  "n \<le> 0 \<or> numBytes (hdr f) \<le> pos \<Longrightarrow> OpenFile_WriteAt E f src n pos w = Inr (0, w)"
  by (auto simp: OpenFile_WriteAt_def FileHeader_FileLength_def)

lemma new_file_law:
  assumes "ok w" and "sector_number s"
  shows "\<exists>w'. OpenFile_new E s w =
      Inr (\<lparr>hdr = FileHeader_of_bytes (sectors w s), seekPosition = 0\<rparr>, w') \<and>
    ok w' \<and> sectors w' = sectors w"
  using header_fetch_law [OF assms] by (auto simp: OpenFile_new_def)

end

subsection \<open>Properties\<close>

definition sample_file :: OpenFile where
  "sample_file = \<lparr>hdr = sample_header, seekPosition = 0\<rparr>"

text \<open>
  C16: \<open>ReadAt\<close> of \<open>n\<close> bytes at a position that is not negative returns the number of bytes
  between the position and the end of the file, at most \<open>n\<close> (none for a request of no bytes
  or from the end on), puts exactly those bytes of the file where the caller's pointer points,
  leaves the rest of the caller's array alone, and does not change the disk.
\<close>

theorem OpenFile_ReadAt_exact:
  assumes "sector_device E ok sectors" and "ok w" and "header_ok (hdr f)"
    and "0 \<le> pos" and "in_int (pos + n)"
    and "c = (if n \<le> 0 \<or> numBytes (hdr f) \<le> pos then 0 else min n (numBytes (hdr f) - pos))"
    and "0 \<le> off" and "off + c \<le> int (length into)"
  shows "\<exists>w'. OpenFile_ReadAt E f into off n pos w =
      Inr (c, take (nat off) into @ take (nat c) (drop (nat pos) (file_bytes (hdr f) (sectors w))) @
        drop (nat (off + c)) into, w') \<and>
    ok w' \<and> sectors w' = sectors w"
proof (cases "n \<le> 0 \<or> numBytes (hdr f) \<le> pos")
  case True
  with assms sector_device.ReadAt_none [OF assms(1), of n f pos into off w] show ?thesis by simp
next
  case False
  with sector_device.ReadAt_list [OF assms(1), OF assms(3,2) _ assms(4) _ assms(5) _ assms(7)] assms(6,8)
  show ?thesis by simp
qed

theorem OpenFile_ReadAt_exact_witness:
  "\<exists>w'. OpenFile_ReadAt mem_env sample_file (replicate 20 1) 2 50 190 blank_disk =
    Inr (10, replicate 2 1 @ take 10 (drop 190 (file_bytes sample_header blank_disk)) @ replicate 8 1, w')"
  using OpenFile_ReadAt_exact [OF mem_disk.sector_device_axioms, OF blank_disk_ok, of sample_file 190 50 10 2
      "replicate 20 1"] sample_header_ok
  by (auto simp: sample_file_def in_int_def int_min_def int_max_def sample_header_def)

text \<open>
  C15: \<open>WriteAt\<close> at a position that is not negative writes the bytes that fit into the file and
  returns their number: afterwards the file holds the new bytes in the range and its old bytes
  before and behind it, even inside a sector that is written partially, and no sector outside
  the file has changed. The size of the file never changes.
\<close>

theorem OpenFile_WriteAt_exact:
  assumes "sector_device E ok sectors" and "ok w" and "header_ok (hdr f)"
    and "0 \<le> pos" and "in_int (pos + n)"
    and "c = (if n \<le> 0 \<or> numBytes (hdr f) \<le> pos then 0 else min n (numBytes (hdr f) - pos))"
    and "c \<le> int (length src)"
  shows "\<exists>w'. OpenFile_WriteAt E f src n pos w = Inr (c, w') \<and> ok w' \<and>
    (\<forall>s. s \<notin> set (data_list (hdr f)) \<longrightarrow> sectors w' s = sectors w s) \<and>
    file_bytes (hdr f) (sectors w') =
      (if c = 0 then file_bytes (hdr f) (sectors w)
       else take (nat pos) (file_bytes (hdr f) (sectors w)) @ take (nat c) src @
         drop (nat (pos + c)) (file_bytes (hdr f) (sectors w)))"
proof (cases "n \<le> 0 \<or> numBytes (hdr f) \<le> pos")
  case True
  with assms sector_device.WriteAt_none [OF assms(1), of n f pos src w] show ?thesis by simp
next
  case False
  then have c: "c = min n (numBytes (hdr f) - pos)" "c \<noteq> 0" "0 < n" "pos < numBytes (hdr f)"
    using assms(6) by auto
  from sector_device.WriteAt_list [OF assms(1), OF assms(3,2) c(3) assms(4) c(4) assms(5) c(1) assms(7)] c(2)
  show ?thesis by auto
qed

theorem OpenFile_WriteAt_exact_witness:
  "\<exists>w'. OpenFile_WriteAt mem_env sample_file [1, 2, 3, 4] 4 126 blank_disk = Inr (4, w') \<and>
    file_bytes sample_header w' = take 126 (file_bytes sample_header blank_disk) @ [1, 2, 3, 4] @
      drop 130 (file_bytes sample_header blank_disk) \<and> w' 6 = blank_disk 6"
  using OpenFile_WriteAt_exact [OF mem_disk.sector_device_axioms, OF blank_disk_ok, of sample_file 126 4 4
      "[1, 2, 3, 4]"] sample_header_ok
  by (auto simp: sample_file_def in_int_def int_min_def int_max_def sample_header_def data_list_def
      numeral_2_eq_2)

text \<open>
  \<open>Write\<close> followed by \<open>Seek\<close> back to where it began and \<open>Read\<close> of as many bytes gives back
  what was written; both move the seek position behind the bytes they transferred.
\<close>

theorem OpenFile_Write_Seek_Read:
  assumes dev: "sector_device E ok sectors" and w: "ok w" and h: "header_ok (hdr f)"
    and p: "0 \<le> seekPosition f" "seekPosition f + n \<le> numBytes (hdr f)" and n: "0 < n"
    and src: "int (length src) = n" and into: "int (length into) = n"
  shows "\<exists>f' w' f'' w''. OpenFile_Write E f src n w = Inr (n, f', w') \<and>
    seekPosition f' = seekPosition f + n \<and>
    OpenFile_Read E (OpenFile_Seek f' (seekPosition f)) into 0 n w' = Inr (n, f'', src, w'') \<and>
    seekPosition f'' = seekPosition f + n"
proof -
  let ?p = "seekPosition f"
  have size: "numBytes (hdr f) \<le> 3840" using h by (simp add: header_ok_def MaxFileSize_value)
  then have fit: "in_int (?p + n)" using p n by (simp add: in_int_def int_min_def int_max_def)
  have pos: "?p < numBytes (hdr f)" and c: "n = min n (numBytes (hdr f) - ?p)" using p n by auto
  have len: "n \<le> int (length src)" "0 + n \<le> int (length into)" using src into by simp_all
  obtain w' where w': "OpenFile_WriteAt E f src n ?p w = Inr (n, w')" "ok w'"
    "file_bytes (hdr f) (sectors w') = take (nat ?p) (file_bytes (hdr f) (sectors w)) @
      take (nat n) src @ drop (nat (?p + n)) (file_bytes (hdr f) (sectors w))"
    using sector_device.WriteAt_list [OF dev, OF h w n p(1) pos fit c len(1)] by blast
  let ?f = "f\<lparr>seekPosition := ?p + n\<rparr>"
  have run: "OpenFile_Write E f src n w = Inr (n, ?f, w')"
    using w'(1) fit by (simp add: OpenFile_Write_def int_add_def)
  have again: "OpenFile_Seek ?f ?p = f" by (simp add: OpenFile_Seek_def)
  obtain w'' where w'': "OpenFile_ReadAt E f into 0 n ?p w' =
      Inr (n, take (nat 0) into @ take (nat n) (drop (nat ?p) (file_bytes (hdr f) (sectors w'))) @
        drop (nat (0 + n)) into, w'')"
    using sector_device.ReadAt_list [OF dev, OF h w'(2) n p(1) pos fit c order_refl len(2)] by blast
  have "nat ?p \<le> length (file_bytes (hdr f) (sectors w))" using pos by simp
  then have "take (nat n) (drop (nat ?p) (file_bytes (hdr f) (sectors w'))) = src"
    using src by (simp add: w'(3) min_def)
  moreover have "drop (nat (0 + n)) into = []" using into by simp
  ultimately have "OpenFile_Read E f into 0 n w' = Inr (n, ?f, src, w'')"
    using w'' fit by (simp add: OpenFile_Read_def int_add_def)
  with run again show ?thesis by auto
qed

theorem OpenFile_Write_Seek_Read_witness:
  "\<exists>f' w' f'' w''.
    OpenFile_Write mem_env (OpenFile_Seek sample_file 100) [9, 8, 7] 3 blank_disk = Inr (3, f', w') \<and>
    OpenFile_Read mem_env (OpenFile_Seek f' 100) [0, 0, 0] 0 3 w' = Inr (3, f'', [9, 8, 7], w'')"
  using OpenFile_Write_Seek_Read [OF mem_disk.sector_device_axioms, OF blank_disk_ok,
      of "OpenFile_Seek sample_file 100" 3 "[9, 8, 7]" "[0, 0, 0]"] sample_header_ok
  by (auto simp: sample_file_def OpenFile_Seek_def sample_header_def)

end
