(* ===== verification/Addr_Space.thy ===== *)
theory Addr_Space
  imports Mips_Instructions Open_File
begin

section \<open>Address spaces, userprog/addrspace.cc\<close>

text \<open>
  Loading a user program from a NOFF file into memory, the page table that maps it, and what a
  context switch saves and restores of a user program (\<open>threads/thread.cc\<close>,
  \<open>SaveUserState\<close> and \<open>RestoreUserState\<close>). With these the locale \<open>user_state\<close> of the scheduler is
  interpreted on the kernel that runs user programs.
\<close>

subsection \<open>The data\<close>

record Segment =
  virtualAddr :: "32 word"
  inFileAddr :: "32 word"
  seg_size :: "32 word"

record NoffHeader =
  noffMagic :: "32 word"
  code :: Segment
  initData :: Segment
  uninitData :: Segment

definition NOFFMAGIC :: "32 word" where "NOFFMAGIC = 0xbadfad"

definition UserStackSize :: "32 word" where "UserStackSize = 1024"

record AddrSpace =
  spPageTable :: nat
  numPages :: "32 word"

record 'h pkernel = "'h ukernel" +
  spaces :: "nat \<Rightarrow> AddrSpace option"

definition segment_at :: "byte list \<Rightarrow> nat \<Rightarrow> Segment" where
  "segment_at bs n = \<lparr>virtualAddr = bytes_word (drop n bs), inFileAddr = bytes_word (drop (n + 4) bs),
     seg_size = bytes_word (drop (n + 8) bs)\<rparr>"

text \<open>The 40 bytes of the header as the host's structure.\<close>

definition noff_of_bytes :: "byte list \<Rightarrow> NoffHeader" where
  "noff_of_bytes bs = \<lparr>noffMagic = bytes_word bs, code = segment_at bs 4,
     initData = segment_at bs 16, uninitData = segment_at bs 28\<rparr>"

definition SwapSegment :: "Segment \<Rightarrow> Segment" where
  "SwapSegment s = \<lparr>virtualAddr = WordToHost (virtualAddr s), inFileAddr = WordToHost (inFileAddr s),
     seg_size = WordToHost (seg_size s)\<rparr>"

definition SwapHeader :: "NoffHeader \<Rightarrow> NoffHeader" where
  "SwapHeader h = \<lparr>noffMagic = WordToHost (noffMagic h), code = SwapSegment (code h),
     initData = SwapSegment (initData h), uninitData = SwapSegment (uninitData h)\<rparr>"

subsection \<open>Building an address space\<close>

definition page_entry :: "nat \<Rightarrow> TranslationEntry" where
  "page_entry i = \<lparr>virtualPage = word_of_nat i, physicalPage = word_of_nat i, valid = True,
     readOnly = False, used = False, dirty = False\<rparr>"

text \<open>\<open>size\<close> and \<open>numPages\<close> are unsigned, so the sum of the segment sizes wraps.\<close>

definition program_size :: "NoffHeader \<Rightarrow> 32 word" where
  "program_size h = seg_size (code h) + seg_size (initData h) + seg_size (uninitData h) + UserStackSize"

definition pages_needed :: "32 word \<Rightarrow> 32 word" where
  "pages_needed n = n div word_of_int PageSize + (if n mod word_of_int PageSize > 0 then 1 else 0)"

text \<open>
  A segment is read straight into main memory. \<open>ReadAt\<close> copies to its caller's array only when all
  sectors are in, so reading into an array of the segment's size and copying what came is the same.
\<close>

definition load_segment ::
  "('h, 'm) ukernel_scheme fs_env \<Rightarrow> OpenFile \<Rightarrow> Segment \<Rightarrow> ('h, 'm) ukernel_scheme \<Rightarrow>
    ('h, 'm) ukernel_scheme result" where
  "load_segment E f seg k =
     (if sint (seg_size seg) > 0 then
        rbind (OpenFile_ReadAt E f (replicate (nat (sint (seg_size seg))) 0) 0
                 (sint (seg_size seg)) (sint (inFileAddr seg)) k) (\<lambda>(count, bytes, k).
        rbind (bcopy bytes 0 (mainMemory (mach k)) (sint (virtualAddr seg)) count) (\<lambda>mem.
        Inr (set_memory mem k)))
      else Inr k)"

text \<open>\<open>table\<close> is the address that \<open>new TranslationEntry[numPages]\<close> returns.\<close>

definition AddrSpace_new ::
  "('h, 'm) ukernel_scheme fs_env \<Rightarrow> nat \<Rightarrow> OpenFile \<Rightarrow> ('h, 'm) ukernel_scheme \<Rightarrow>
    (AddrSpace \<times> ('h, 'm) ukernel_scheme) result" where
  "AddrSpace_new E table f k =
     rbind (OpenFile_ReadAt E f (new_bytes E 0 k 40) 0 40 0 k) (\<lambda>(_, bytes, k).
     let noffH = noff_of_bytes bytes;
         noffH = (if noffMagic noffH \<noteq> NOFFMAGIC \<and> WordToHost (noffMagic noffH) = NOFFMAGIC
                  then SwapHeader noffH else noffH) in
     rbind (ASSERT (noffMagic noffH = NOFFMAGIC)) (\<lambda>_.
     let n = pages_needed (program_size noffH);
         bytes_used = n * word_of_int PageSize in
     rbind (ASSERT (n \<le> word_of_int NumPhysPages)) (\<lambda>_.
     let k = k\<lparr>tables := (tables k)(table \<mapsto> map page_entry [0..<unat n])\<rparr>;
         k = set_memory (replicate (unat bytes_used) 0 @ drop (unat bytes_used) (mainMemory (mach k))) k in
     rbind (load_segment E f (code noffH) k) (\<lambda>k.
     rbind (load_segment E f (initData noffH) k) (\<lambda>k.
     Inr (\<lparr>spPageTable = table, numPages = n\<rparr>, k))))))"

definition AddrSpace_delete ::
  "AddrSpace \<Rightarrow> ('h, 'm) ukernel_scheme \<Rightarrow> ('h, 'm) ukernel_scheme" where
  "AddrSpace_delete sp k = k\<lparr>tables := (tables k)(spPageTable sp := None)\<rparr>"

definition InitRegisters :: "AddrSpace \<Rightarrow> ('h, 'm) ukernel_scheme \<Rightarrow> ('h, 'm) ukernel_scheme result" where
  "InitRegisters sp k =
     rbind (for_range 0 (int NumTotalRegs) (\<lambda>i. WriteRegister i 0) k) (\<lambda>k.
     rbind (WriteRegister (int PCReg) 0 k) (\<lambda>k.
     rbind (WriteRegister (int NextPCReg) 4 k) (\<lambda>k.
     WriteRegister (int StackReg) (numPages sp * word_of_int PageSize - 16) k)))"

definition AddrSpace_SaveState :: "AddrSpace \<Rightarrow> ('h, 'm) ukernel_scheme \<Rightarrow> ('h, 'm) ukernel_scheme" where
  "AddrSpace_SaveState sp k = k"

definition AddrSpace_RestoreState :: "AddrSpace \<Rightarrow> ('h, 'm) ukernel_scheme \<Rightarrow> ('h, 'm) ukernel_scheme" where
  "AddrSpace_RestoreState sp k =
     k\<lparr>mach := (mach k)\<lparr>pageTable := Some (spPageTable sp), pageTableSize := numPages sp\<rparr>\<rparr>"

subsection \<open>User programs and context switches\<close>

text \<open>The loops over all registers, as one update each.\<close>

definition SaveUserState :: "tid \<Rightarrow> ('h, 'm) ukernel_scheme \<Rightarrow> ('h, 'm) ukernel_scheme" where
  "SaveUserState t k = k\<lparr>userRegisters := (userRegisters k)(t := (\<lambda>i.
     if i < NumTotalRegs then reg i k else userRegisters k t i))\<rparr>"

definition RestoreUserState :: "tid \<Rightarrow> ('h, 'm) ukernel_scheme \<Rightarrow> ('h, 'm) ukernel_scheme" where
  "RestoreUserState t k = k\<lparr>mach := (mach k)\<lparr>registers := (\<lambda>i.
     if i < NumTotalRegs then userRegisters k t i else reg i k)\<rparr>\<rparr>"

text \<open>The address space of a thread, through its pointer \<open>space\<close>.\<close>

definition space_of :: "tid \<Rightarrow> ('h, 'm) pkernel_scheme \<Rightarrow> AddrSpace option" where
  "space_of t k = Option.bind (threads k t) (\<lambda>c. Option.bind (space c) (spaces k))"

definition user_cpu ::
  "('h, ('h, 'm) pkernel_scheme) cpu \<Rightarrow> ('h, ('h, 'm) pkernel_scheme) cpu" where
  "user_cpu c = c\<lparr>
     flush_load := (\<lambda>k. case DelayedLoad 0 0 k of Inr k' \<Rightarrow> k' | Inl _ \<Rightarrow> k),
     save_user := (\<lambda>t k. case space_of t k of
         None \<Rightarrow> SaveUserState t k | Some sp \<Rightarrow> AddrSpace_SaveState sp (SaveUserState t k)),
     restore_user := (\<lambda>t k. case space_of t k of
         None \<Rightarrow> RestoreUserState t k
       | Some sp \<Rightarrow> AddrSpace_RestoreState sp (RestoreUserState t k))\<rparr>"

interpretation user_programs: user_state "user_cpu c"
  by unfold_locales (auto simp: user_cpu_def kernel.truncate_def SaveUserState_def RestoreUserState_def
      AddrSpace_SaveState_def AddrSpace_RestoreState_def split: option.splits)

subsection \<open>What reading a file leaves alone\<close>

text \<open>
  The disk is a device of the kernel: reading a sector may run the clock and handlers, but in the
  states \<open>ok\<close> of the disk it changes neither the simulated memory nor the translation tables.
\<close>

definition machine_part :: "('h, 'm) ukernel_scheme \<Rightarrow>
    byte list \<times> nat option \<times> (nat \<Rightarrow> TranslationEntry list option)" where
  "machine_part k = (mainMemory (mach k), tlb (mach k), tables k)"

definition machine_frame ::
  "('h, 'm) ukernel_scheme fs_env \<Rightarrow> (('h, 'm) ukernel_scheme \<Rightarrow> bool) \<Rightarrow> bool" where
  "machine_frame E ok \<longleftrightarrow>
     (\<forall>s k d k'. ok k \<longrightarrow> ReadSector E s k = Inr (d, k') \<longrightarrow> ok k' \<and> machine_part k' = machine_part k) \<and>
     (\<forall>k m ts. ok k \<longrightarrow> ok (set_memory m k) \<and> ok (k\<lparr>tables := ts\<rparr>))"

lemma ReadAt_frame:
  assumes E: "machine_frame E ok" and ok: "ok k"
    and run: "OpenFile_ReadAt E f into off n position k = Inr (r, into', k')"
  shows "ok k' \<and> machine_part k' = machine_part k \<and> length into' = length into"
proof (cases "n \<le> 0 \<or> position \<ge> FileHeader_FileLength (hdr f)")
  case True
  with run ok show ?thesis by (simp add: OpenFile_ReadAt_def Let_def)
next
  case False
  have loop: "ok w' \<and> machine_part w' = machine_part w"
    if w: "ok w" and "read_sectors E h a b (buf, w) = Inr (buf', w')" for h a b buf buf' w w'
  proof (cases "a \<le> b + 1")
    case True
    have "(\<lambda>(_, x). ok x \<and> machine_part x = machine_part w) (buf', w')"
      using that(2) unfolding read_sectors_def
    proof (rule for_range_inv [where P = "\<lambda>_. \<lambda>(_, x). ok x \<and> machine_part x = machine_part w"])
      show "a \<le> b + 1" by (rule True)
      fix j :: int and t t' :: "byte list \<times> ('a, 'b) ukernel_scheme"
      assume "case t of (_, x) \<Rightarrow> ok x \<and> machine_part x = machine_part w"
        and "(case t of (buf, w) \<Rightarrow>
          rbind (FileHeader_ByteToSector h (j * SectorSize)) (\<lambda>s.
          rbind (ReadSector E s w) (\<lambda>(data, w').
          rbind (bcopy data 0 buf ((j - a) * SectorSize) SectorSize) (\<lambda>buf'.
          Inr (buf', w'))))) = Inr t'"
      then show "case t' of (_, x) \<Rightarrow> ok x \<and> machine_part x = machine_part w"
        using E unfolding machine_frame_def by (auto split: prod.splits)
    qed (simp add: w)
    then show ?thesis by simp
  next
    case False
    with that show ?thesis by (simp add: read_sectors_def)
  qed
  from False run show ?thesis
    by (auto simp: OpenFile_ReadAt_def Let_def dest!: loop [OF ok] bcopy_length split: prod.splits)
qed

lemma load_segment_frame:
  assumes E: "machine_frame E ok" and ok: "ok k" and "load_segment E f seg k = Inr k'"
  shows "ok k' \<and> tables k' = tables k \<and> tlb (mach k') = tlb (mach k) \<and>
    length (mainMemory (mach k')) = length (mainMemory (mach k))"
  using assms
  by (auto simp: load_segment_def machine_part_def machine_frame_def
      dest!: ReadAt_frame [OF E ok] bcopy_length split: if_splits)

subsection \<open>The page table of a new address space\<close>

lemma pages_limit:
  assumes "(n :: 32 word) \<le> word_of_int NumPhysPages"
  shows "uint n \<le> 32" and "unat (n * word_of_int PageSize) = nat (uint n * 128)"
    and "nat (uint n * 128) \<le> nat MemorySize"
proof -
  show n: "uint n \<le> 32" using assms by (simp add: word_le_def page_sizes)
  then have "uint (n * word_of_int PageSize) = uint n * 128"
    by (simp add: page_sizes uint_word_ariths)
  then show "unat (n * word_of_int PageSize) = nat (uint n * 128)" by (simp flip: nat_uint_eq)
  show "nat (uint n * 128) \<le> nat MemorySize" using n by (simp add: page_sizes)
qed

lemma AddrSpace_new_spec:
  assumes E: "machine_frame E ok" and ok: "ok k" and run: "AddrSpace_new E t f k = Inr (sp, k1)"
    and mem: "int (length (mainMemory (mach k))) = MemorySize"
  shows "spPageTable sp = t \<and> uint (numPages sp) \<le> 32 \<and>
    tables k1 = (tables k)(t \<mapsto> map page_entry [0..<unat (numPages sp)]) \<and>
    tlb (mach k1) = tlb (mach k) \<and> length (mainMemory (mach k1)) = length (mainMemory (mach k))"
proof -
  obtain c bytes k0 h n k2 where
    k0: "OpenFile_ReadAt E f (new_bytes E 0 k 40) 0 40 0 k = Inr (c, bytes, k0)" and
    n: "n = pages_needed (program_size h)" "n \<le> word_of_int NumPhysPages" and
    k2: "load_segment E f (code h) (set_memory (replicate (unat (n * word_of_int PageSize)) 0 @
        drop (unat (n * word_of_int PageSize)) (mainMemory (mach (k0\<lparr>tables :=
          (tables k0)(t \<mapsto> map page_entry [0..<unat n])\<rparr>))))
        (k0\<lparr>tables := (tables k0)(t \<mapsto> map page_entry [0..<unat n])\<rparr>)) = Inr k2" and
    k1: "load_segment E f (initData h) k2 = Inr k1" and sp: "sp = \<lparr>spPageTable = t, numPages = n\<rparr>"
    using run unfolding AddrSpace_new_def Let_def
    by (elim rbind_eq_InrE) (simp split: prod.splits, elim rbind_eq_InrE, simp)
  note 0 = ReadAt_frame [OF E ok k0]
  have "ok (set_memory (replicate (unat (n * word_of_int PageSize)) 0 @
        drop (unat (n * word_of_int PageSize)) (mainMemory (mach (k0\<lparr>tables :=
          (tables k0)(t \<mapsto> map page_entry [0..<unat n])\<rparr>))))
        (k0\<lparr>tables := (tables k0)(t \<mapsto> map page_entry [0..<unat n])\<rparr>))"
    using 0 E by (simp add: machine_frame_def)
  note 1 = load_segment_frame [OF E this k2]
  note 2 = load_segment_frame [OF E conjunct1 [OF 1] k1]
  show ?thesis using 0 1 2 n sp pages_limit [OF n(2)] mem by (simp add: machine_part_def)
qed

subsection \<open>Starting a user program\<close>

lemma InitRegisters_spec:
  fixes k :: "('h, 'm) ukernel_scheme"
  shows "\<exists>r. InitRegisters sp k = Inr (k\<lparr>mach := (mach k)\<lparr>registers := r\<rparr>\<rparr>) \<and>
    (\<forall>i < NumTotalRegs. r i = (if i = NextPCReg then 4
       else if i = StackReg then numPages sp * word_of_int PageSize - 16 else 0))"
proof -
  define P where "P n x \<longleftrightarrow> (\<exists>r. x = k\<lparr>mach := (mach k)\<lparr>registers := r\<rparr>\<rparr> \<and> (\<forall>i < nat n. r i = 0))"
    for n :: int and x :: "('h, 'm) ukernel_scheme"
  have "\<exists>k1. for_range 0 (int NumTotalRegs) (\<lambda>i. WriteRegister i 0) k = Inr k1 \<and> P (int NumTotalRegs) k1"
  proof (rule for_range_rule)
    have "k = k\<lparr>mach := (mach k)\<lparr>registers := registers (mach k)\<rparr>\<rparr>" by simp
    then show "P 0 k" unfolding P_def by (intro exI [of _ "registers (mach k)"]) simp
    fix j x assume j: "0 \<le> j" "j < int NumTotalRegs" and "P j x"
    then obtain r where r: "x = k\<lparr>mach := (mach k)\<lparr>registers := r\<rparr>\<rparr>" "\<forall>i < nat j. r i = 0"
      by (auto simp: P_def)
    have "set_reg (nat j) 0 x = k\<lparr>mach := (mach k)\<lparr>registers := r(nat j := 0)\<rparr>\<rparr>"
      by (simp add: set_reg_def r(1))
    moreover have "\<forall>i < nat (j + 1). (r(nat j := 0)) i = 0" using r(2) j by (auto simp: nat_add_distrib)
    ultimately show "\<exists>x'. WriteRegister j 0 x = Inr x' \<and> P (j + 1) x'"
      using j unfolding P_def WriteRegister_def by (intro exI [of _ "set_reg (nat j) 0 x"]) auto
  qed simp
  then obtain r where "for_range 0 (int NumTotalRegs) (\<lambda>i. WriteRegister i 0) k =
      Inr (k\<lparr>mach := (mach k)\<lparr>registers := r\<rparr>\<rparr>)" "\<forall>i < NumTotalRegs. r i = 0"
    by (auto simp: P_def)
  then show ?thesis
    by (simp add: InitRegisters_def WriteRegister_def reg_numbers set_reg_def)
      (rule exI [of _ "r(34 := 0, 35 := 4, 29 := numPages sp * word_of_int PageSize - 16)"], simp)
qed

text \<open>
  The page table of a program: one valid, writable entry for every page, which maps it to the
  frame of its number. Accesses only set the marks \<open>used\<close> and \<open>dirty\<close>.
\<close>

definition identity_map :: "('h, 'm) ukernel_scheme \<Rightarrow> bool" where
  "identity_map k \<longleftrightarrow> tlb (mach k) = None \<and> uint (pageTableSize (mach k)) \<le> NumPhysPages \<and>
     (\<exists>t es. pageTable (mach k) = Some t \<and> tables k t = Some es \<and>
        length es = unat (pageTableSize (mach k)) \<and>
        (\<forall>i < length es. physicalPage (es ! i) = word_of_nat i \<and> valid (es ! i) \<and> \<not> readOnly (es ! i)))"

lemma identity_map_frame:
  "tables k' = tables k \<Longrightarrow> tlb (mach k') = tlb (mach k) \<Longrightarrow> pageTable (mach k') = pageTable (mach k) \<Longrightarrow>
    pageTableSize (mach k') = pageTableSize (mach k) \<Longrightarrow> identity_map k' = identity_map k"
  by (simp add: identity_map_def)

lemma identity_map_new:
  assumes "tlb (mach k) = None" and "pageTable (mach k) = Some t" and "uint (pageTableSize (mach k)) \<le> 32"
    and "tables k t = Some (map page_entry [0..<unat (pageTableSize (mach k))])"
  shows "identity_map k"
  using assms by (simp add: identity_map_def NumPhysPages_def page_entry_def)

lemma identity_map_used:
  assumes "identity_map k" and "entry_at p i k = Inr e"
  shows "identity_map (put_entry p i (e\<lparr>used := u, dirty := d\<rparr>) k)"
proof -
  obtain t es where t: "pageTable (mach k) = Some t" "tables k t = Some es"
    "length es = unat (pageTableSize (mach k))"
    "\<forall>i < length es. physicalPage (es ! i) = word_of_nat i \<and> valid (es ! i) \<and> \<not> readOnly (es ! i)"
    using assms(1) by (auto simp: identity_map_def)
  show ?thesis
  proof (cases "p = t")
    case False
    with assms(1) t show ?thesis by (auto simp: identity_map_def put_entry_def)
  next
    case True
    then have e: "e = es ! i" "i < length es" using assms(2) t(2) by (auto simp: entry_at_def aget_eq_Inr)
    then have "\<forall>j < length (es[i := e\<lparr>used := u, dirty := d\<rparr>]).
        physicalPage (es[i := e\<lparr>used := u, dirty := d\<rparr>] ! j) = word_of_nat j \<and>
        valid (es[i := e\<lparr>used := u, dirty := d\<rparr>] ! j) \<and> \<not> readOnly (es[i := e\<lparr>used := u, dirty := d\<rparr>] ! j)"
      using t(4) by (simp add: nth_list_update)
    with assms(1) t(1-3) True show ?thesis by (simp add: identity_map_def put_entry_def)
  qed
qed

lemma identity_Translate:
  assumes id: "identity_map k" and sz: "sz = 1 \<or> sz = 2 \<or> sz = 4"
    and al: "sz = 4 \<longrightarrow> uint a mod 4 = 0" "sz = 2 \<longrightarrow> uint a mod 2 = 0"
  shows "\<exists>k'. identity_map k' \<and> k' = k\<lparr>tables := tables k'\<rparr> \<and> Translate a sz wr k =
    (if uint a < uint (pageTableSize (mach k)) * PageSize then Inr (NoException, Some (uint a), k')
     else Inr (AddressErrorException, None, k))"
proof -
  obtain t es where t: "tlb (mach k) = None" "pageTable (mach k) = Some t" "tables k t = Some es"
    "length es = unat (pageTableSize (mach k))" "uint (pageTableSize (mach k)) \<le> 32"
    "\<And>i. i < length es \<Longrightarrow> physicalPage (es ! i) = word_of_nat i \<and> valid (es ! i) \<and> \<not> readOnly (es ! i)"
    using id by (auto simp: identity_map_def NumPhysPages_def)
  have ok: "translation_ok k" using t by (simp add: translation_ok_def)
  define i where "i = unat (a div 128)"
  have lt: "a div 128 < pageTableSize (mach k) \<longleftrightarrow> uint a < uint (pageTableSize (mach k)) * PageSize"
    by (simp add: word_less_def uint_div page_sizes) linarith
  show ?thesis
  proof (cases "a div 128 < pageTableSize (mach k)")
    case True
    then have i: "i < length es" by (simp add: i_def t(4) word_less_nat_alt)
    have e: "entry_at t i k = Inr (es ! i)" by (rule entry_at_nth [OF t(3) i])
    then have f: "find_entry (a div 128) k = Inr (Inr (t, i))"
      using True t(1,2) t(6) [OF i] by (simp add: find_entry_def i_def)
    have pp: "physicalPage (es ! i) = a div 128" using t(6) [OF i] by (simp add: i_def)
    have "uint (a div 128) < 32" using True t(5) by (simp add: word_less_def)
    then have "\<not> (readOnly (es ! i) \<and> wr \<or> physicalPage (es ! i) \<ge> 32)"
      using t(6) [OF i] by (simp add: pp word_le_def)
    from Translate_found [OF ok sz al f e this]
    have "Translate a sz wr k = Inr (NoException, Some (physical (es ! i) a),
        put_entry t i ((es ! i)\<lparr>used := True, dirty := dirty (es ! i) \<or> wr\<rparr>) k)" .
    moreover have "physical (es ! i) a = uint a" by (simp add: physical_def pp uint_div)
    ultimately show ?thesis using True lt identity_map_used [OF id e]
      by (intro exI [of _ "put_entry t i ((es ! i)\<lparr>used := True, dirty := dirty (es ! i) \<or> wr\<rparr>) k"])
        (simp, simp add: put_entry_def)
  next
    case False
    then have "find_entry (a div 128) k = Inr (Inl AddressErrorException)"
      using t(1,2) by (simp add: find_entry_def not_le not_less)
    from Translate_unfold [OF ok sz al this] show ?thesis using False lt id by auto
  qed
qed

subsection \<open>The image of a program\<close>

text \<open>A disk of the kernel: what it stores does not depend on the simulated machine.\<close>

definition program_disk ::
  "('h, 'm) ukernel_scheme fs_env \<Rightarrow> (('h, 'm) ukernel_scheme \<Rightarrow> bool) \<Rightarrow>
    (('h, 'm) ukernel_scheme \<Rightarrow> int \<Rightarrow> byte list) \<Rightarrow> bool" where
  "program_disk E ok sectors \<longleftrightarrow> sector_device E ok sectors \<and> machine_frame E ok \<and>
     (\<forall>k m ts. ok k \<longrightarrow> sectors (set_memory m k) = sectors k \<and> sectors (k\<lparr>tables := ts\<rparr>) = sectors k)"

text \<open>A segment that lies inside the file and inside memory, and memory with it in place.\<close>

definition segment_fits :: "int \<Rightarrow> Segment \<Rightarrow> bool" where
  "segment_fits fileLength seg \<longleftrightarrow> sint (seg_size seg) > 0 \<longrightarrow>
     0 \<le> sint (virtualAddr seg) \<and> sint (virtualAddr seg) + sint (seg_size seg) \<le> MemorySize \<and>
     0 \<le> sint (inFileAddr seg) \<and> sint (inFileAddr seg) + sint (seg_size seg) \<le> fileLength"

definition put_segment :: "Segment \<Rightarrow> byte list \<Rightarrow> byte list \<Rightarrow> byte list" where
  "put_segment seg file mem =
     (if sint (seg_size seg) > 0 then
        take (nat (sint (virtualAddr seg))) mem @
        take (nat (sint (seg_size seg))) (drop (nat (sint (inFileAddr seg))) file) @
        drop (nat (sint (virtualAddr seg) + sint (seg_size seg))) mem
      else mem)"

lemma length_put_segment:
  assumes "segment_fits (int (length file)) seg" and "int (length mem) = MemorySize"
  shows "int (length (put_segment seg file mem)) = MemorySize"
  using assms by (auto simp: put_segment_def segment_fits_def)

lemma load_segment_spec:
  assumes E: "program_disk E ok sectors" and ok: "ok k" and h: "header_ok (hdr f)"
    and fits: "segment_fits (numBytes (hdr f)) seg"
    and mem: "int (length (mainMemory (mach k))) = MemorySize"
  shows "\<exists>k'. load_segment E f seg k = Inr k' \<and> ok k' \<and> sectors k' = sectors k \<and>
    tables k' = tables k \<and>
    mainMemory (mach k') = put_segment seg (file_bytes (hdr f) (sectors k)) (mainMemory (mach k))"
proof (cases "sint (seg_size seg) > 0")
  case False
  with ok show ?thesis by (simp add: load_segment_def put_segment_def)
next
  case True
  let ?n = "sint (seg_size seg)" and ?p = "sint (inFileAddr seg)" and ?v = "sint (virtualAddr seg)"
  let ?file = "file_bytes (hdr f) (sectors k)"
  have r: "0 \<le> ?v" "?v + ?n \<le> MemorySize" "0 \<le> ?p" "?p + ?n \<le> numBytes (hdr f)"
    using fits True by (simp_all add: segment_fits_def)
  have dev: "sector_device E ok sectors" and fr: "machine_frame E ok"
    and ind: "\<And>m k. ok k \<Longrightarrow> ok (set_memory m k) \<and> sectors (set_memory m k) = sectors k"
    using E by (simp_all add: program_disk_def machine_frame_def)
  have "numBytes (hdr f) \<le> 3840" using h by (simp add: header_ok_def MaxFileSize_value)
  with r True have fit: "in_int (?p + ?n)" by (simp add: in_int_def int_min_def int_max_def)
  have "\<exists>w'. OpenFile_ReadAt E f (replicate (nat ?n) 0) 0 ?n ?p k =
      Inr (?n, take (nat 0) (replicate (nat ?n) 0) @ take (nat ?n) (drop (nat ?p) ?file) @
        drop (nat (0 + ?n)) (replicate (nat ?n) 0), w') \<and> ok w' \<and> sectors w' = sectors k"
    by (rule sector_device.ReadAt_list [OF dev h ok True r(3) _ fit]) (use r True in auto)
  then obtain k1 where k1: "OpenFile_ReadAt E f (replicate (nat ?n) 0) 0 ?n ?p k =
      Inr (?n, take (nat ?n) (drop (nat ?p) ?file), k1)" "ok k1" "sectors k1 = sectors k"
    by auto
  note frame = ReadAt_frame [OF fr ok k1(1), unfolded machine_part_def]
  have "int (length (take (nat ?n) (drop (nat ?p) ?file))) = ?n" using r True by simp
  then have "bcopy (take (nat ?n) (drop (nat ?p) ?file)) 0 (mainMemory (mach k1)) ?v ?n =
      Inr (put_segment seg ?file (mainMemory (mach k)))"
    using frame r True mem by (simp add: bcopy_def put_segment_def)
  with k1 frame ind [OF k1(2)] True show ?thesis by (simp add: load_segment_def)
qed

definition noff_header :: "byte list \<Rightarrow> NoffHeader" where
  "noff_header prog = noff_of_bytes (take 40 prog)"

definition program_image :: "byte list \<Rightarrow> byte list \<Rightarrow> byte list" where
  "program_image prog mem =
     (let h = noff_header prog; n = nat (uint (pages_needed (program_size h)) * PageSize) in
      put_segment (initData h) prog (put_segment (code h) prog (replicate n 0 @ drop n mem)))"

text \<open>A file that can be loaded.\<close>

definition loadable :: "byte list \<Rightarrow> bool" where
  "loadable prog \<longleftrightarrow> 40 \<le> length prog \<and> noffMagic (noff_header prog) = NOFFMAGIC \<and>
     pages_needed (program_size (noff_header prog)) \<le> word_of_int NumPhysPages \<and>
     segment_fits (int (length prog)) (code (noff_header prog)) \<and>
     segment_fits (int (length prog)) (initData (noff_header prog))"

text \<open>A file that \<open>AddrSpace\<close> refuses: it is not an object file, or it needs too many pages.\<close>

definition refused :: "byte list \<Rightarrow> bool" where
  "refused prog \<longleftrightarrow> 40 \<le> length prog \<and> (noffMagic (noff_header prog) \<noteq> NOFFMAGIC \<or>
     \<not> pages_needed (program_size (noff_header prog)) \<le> word_of_int NumPhysPages)"

lemma AddrSpace_header:
  assumes E: "program_disk E ok sectors" and ok: "ok k" and h: "header_ok (hdr f)"
    and prog: "file_bytes (hdr f) (sectors k) = prog" and len: "40 \<le> length prog"
  shows "\<exists>k0. OpenFile_ReadAt E f (new_bytes E 0 k 40) 0 40 0 k = Inr (40, take 40 prog, k0) \<and> ok k0 \<and>
    sectors k0 = sectors k"
proof -
  have dev: "sector_device E ok sectors" using E by (simp add: program_disk_def)
  have n: "40 \<le> numBytes (hdr f)" using h len unfolding prog [symmetric] by (simp add: header_ok_def)
  have "\<exists>w'. OpenFile_ReadAt E f (new_bytes E 0 k 40) 0 40 0 k =
      Inr (40, take (nat 0) (new_bytes E 0 k 40) @ take (nat 40) (drop (nat 0) (file_bytes (hdr f) (sectors k))) @
        drop (nat (0 + 40)) (new_bytes E 0 k 40), w') \<and> ok w' \<and> sectors w' = sectors k"
    by (rule sector_device.ReadAt_list [OF dev h ok])
      (use n in \<open>simp_all add: in_int_def int_min_def int_max_def\<close>)
  then show ?thesis by (auto simp: prog)
qed

lemma AddrSpace_new_refuses:
  assumes "program_disk E ok sectors" and "ok k" and "header_ok (hdr f)"
    and "file_bytes (hdr f) (sectors k) = prog" and rf: "refused prog"
  shows "AddrSpace_new E t f k = Inl AssertFailed"
proof -
  have "40 \<le> length prog" using rf by (simp add: refused_def)
  then obtain k0 where "OpenFile_ReadAt E f (new_bytes E 0 k 40) 0 40 0 k = Inr (40, take 40 prog, k0)"
    using AddrSpace_header [OF assms(1-4)] by blast
  then show ?thesis
    using rf by (auto simp: AddrSpace_new_def refused_def noff_header_def WordToHost_def Let_def ASSERT_def)
qed

lemma AddrSpace_new_loads:
  assumes E: "program_disk E ok sectors" and ok: "ok k" and h: "header_ok (hdr f)"
    and prog: "file_bytes (hdr f) (sectors k) = prog" and ld: "loadable prog"
    and mem: "int (length (mainMemory (mach k))) = MemorySize"
  shows "\<exists>k1. AddrSpace_new E t f k =
      Inr (\<lparr>spPageTable = t, numPages = pages_needed (program_size (noff_header prog))\<rparr>, k1) \<and> ok k1 \<and>
    sectors k1 = sectors k \<and> mainMemory (mach k1) = program_image prog (mainMemory (mach k))"
proof -
  define noff where "noff = noff_header prog"
  let ?file = "file_bytes (hdr f) (sectors k)" and ?n = "pages_needed (program_size noff)"
  have pl: "int (length prog) = numBytes (hdr f)" using h unfolding prog [symmetric] by (simp add: header_ok_def)
  have len: "40 \<le> numBytes (hdr f)" and magic: "noffMagic noff = NOFFMAGIC"
    and lim: "pages_needed (program_size noff) \<le> word_of_int NumPhysPages"
    and fits: "segment_fits (numBytes (hdr f)) (code noff)" "segment_fits (numBytes (hdr f)) (initData noff)"
    using ld pl by (simp_all add: loadable_def noff_def)
  have dev: "sector_device E ok sectors" and fr: "machine_frame E ok"
    and ind: "\<And>m k. ok k \<Longrightarrow> ok (set_memory m k) \<and> sectors (set_memory m k) = sectors k"
      "\<And>ts k. ok k \<Longrightarrow> ok (k\<lparr>tables := ts\<rparr>) \<and> sectors (k\<lparr>tables := ts\<rparr>) = sectors k"
    using E by (simp_all add: program_disk_def machine_frame_def)
  obtain k0 where k0: "OpenFile_ReadAt E f (new_bytes E 0 k 40) 0 40 0 k = Inr (40, take 40 ?file, k0)"
    "ok k0" "sectors k0 = sectors k"
    using AddrSpace_header [OF E ok h prog] ld prog by (auto simp: loadable_def)
  note m0 = ReadAt_frame [OF fr ok k0(1), unfolded machine_part_def]
  define k2 where "k2 = k0\<lparr>tables := (tables k0)(t \<mapsto> map page_entry [0..<unat ?n])\<rparr>"
  define zero where "zero = replicate (unat (?n * word_of_int PageSize)) 0 @
    drop (unat (?n * word_of_int PageSize)) (mainMemory (mach k2))"
  define k3 where "k3 = set_memory zero k2"
  have k2: "ok k2" "sectors k2 = sectors k" "mainMemory (mach k2) = mainMemory (mach k)" using ind(2) [OF k0(2)] k0(3) m0
    by (simp_all add: k2_def)
  have k3: "ok k3" "sectors k3 = sectors k" "mainMemory (mach k3) = zero"
    using ind(1) [OF k2(1)] k2(2) by (simp_all add: k3_def)
  have zl: "int (length zero) = MemorySize"
    using pages_limit [OF lim] mem k2(3) by (simp add: zero_def)
  obtain k4 where k4: "load_segment E f (code noff) k3 = Inr k4" "ok k4" "sectors k4 = sectors k"
    "mainMemory (mach k4) = put_segment (code noff) ?file zero"
    using load_segment_spec [OF E k3(1) h fits(1)] k3 zl by auto
  have 4: "int (length (mainMemory (mach k4))) = MemorySize"
    using length_put_segment [of ?file "code noff" zero] fits(1) zl h k4(4) by (simp add: header_ok_def)
  obtain k5 where k5: "load_segment E f (initData noff) k4 = Inr k5" "ok k5" "sectors k5 = sectors k"
    "mainMemory (mach k5) = put_segment (initData noff) ?file (put_segment (code noff) ?file zero)"
    using load_segment_spec [OF E k4(2) h fits(2) 4] k4 by auto
  have noff': "noff_of_bytes (take 40 ?file) = noff" by (simp add: noff_def noff_header_def prog)
  have run: "AddrSpace_new E t f k = Inr (\<lparr>spPageTable = t, numPages = ?n\<rparr>, k5)"
    using k4(1) k5(1) lim magic unfolding k3_def zero_def k2_def
    by (simp add: AddrSpace_new_def k0(1) noff' Let_def)
  have "zero = replicate (nat (uint ?n * PageSize)) 0 @ drop (nat (uint ?n * PageSize)) (mainMemory (mach k))"
    using pages_limit [OF lim] k2(3) by (simp add: zero_def) (simp add: page_sizes)
  with run k5 show ?thesis
    by (simp add: program_image_def Let_def noff_def [symmetric] prog)
qed

text \<open>The state in which a program starts.\<close>

lemma start_state:
  assumes "tables k (spPageTable sp) = Some (map page_entry [0..<unat (numPages sp)])"
    and "uint (numPages sp) \<le> 32" and "tlb (mach k) = None"
    and "int (length (mainMemory (mach k))) = MemorySize"
  shows "\<exists>k1 m. InitRegisters sp k = Inr k1 \<and> AddrSpace_RestoreState sp k1 = k\<lparr>mach := m\<rparr> \<and>
    identity_map (k\<lparr>mach := m\<rparr>) \<and> mach_ok (k\<lparr>mach := m\<rparr>) \<and> pageTableSize m = numPages sp \<and>
    registers m PCReg = 0 \<and> registers m NextPCReg = 4 \<and> registers m LoadReg = 0 \<and>
    registers m StackReg = numPages sp * word_of_int PageSize - 16 \<and>
    singleStep m = singleStep (mach k) \<and> mainMemory m = mainMemory (mach k) \<and> tlb m = None"
proof -
  obtain r where r: "InitRegisters sp k = Inr (k\<lparr>mach := (mach k)\<lparr>registers := r\<rparr>\<rparr>)"
    "\<forall>i < NumTotalRegs. r i = (if i = NextPCReg then 4
       else if i = StackReg then numPages sp * word_of_int PageSize - 16 else 0)"
    using InitRegisters_spec [of sp k] by blast
  define m where "m = (mach k)\<lparr>registers := r, pageTable := Some (spPageTable sp), pageTableSize := numPages sp\<rparr>"
  let ?k = "k\<lparr>mach := m\<rparr>"
  have "AddrSpace_RestoreState sp (k\<lparr>mach := (mach k)\<lparr>registers := r\<rparr>\<rparr>) = ?k"
    by (simp add: AddrSpace_RestoreState_def m_def)
  moreover have "translation_ok ?k" using assms(1,3) by (simp add: translation_ok_def m_def)
  then have "mach_ok ?k" using r(2) assms(4) by (simp add: mach_ok_def reg_numbers m_def)
  moreover have "identity_map ?k"
    by (rule identity_map_new [of _ "spPageTable sp"]) (use assms in \<open>simp_all add: m_def\<close>)
  ultimately show ?thesis using r assms(3)
    by (intro exI [of _ "k\<lparr>mach := (mach k)\<lparr>registers := r\<rparr>\<rparr>"] exI [of _ m])
      (simp add: m_def reg_numbers StackReg_def)
qed

subsection \<open>A kernel with a program on its disk, for the witnesses\<close>

definition halt_program :: "byte list" where
  "halt_program =
     word_bytes NOFFMAGIC @
     word_bytes 0 @ word_bytes 40 @ word_bytes 8 @
     word_bytes 0 @ word_bytes 0 @ word_bytes 0 @
     word_bytes 0 @ word_bytes 0 @ word_bytes 0 @
     word_bytes 0x24020000 @ word_bytes 0x0000000C @ replicate 80 0"

text \<open>The disk is the extension of the kernel's record: sector 5 holds the program's first sector.\<close>

definition boot_image :: "int \<Rightarrow> byte list" where
  "boot_image = blank_disk(5 := halt_program)"

definition boot :: "(unit, int \<Rightarrow> byte list) ukernel_scheme" where
  "boot = ukernel.extend (kernel.extend Initialize
     (ukernel.fields (Machine_new False 0 0) Map.empty (\<lambda>_ _. 0))) boot_image"

definition boot_disk :: "(unit, int \<Rightarrow> byte list) ukernel_scheme fs_env" where
  "boot_disk = \<lparr>
     ReadSector = (\<lambda>s k. rbind (ASSERT (s \<ge> 0 \<and> s < NumSectors)) (\<lambda>_. Inr (ukernel.more k s, k))),
     WriteSector = (\<lambda>s data k. rbind (ASSERT (s \<ge> 0 \<and> s < NumSectors)) (\<lambda>_.
        Inr (ukernel.more_update (\<lambda>w. w(s := data)) k))),
     fresh_mem = (\<lambda>j k i. 0xA5)\<rparr>"

lemma boot_simps [simp]:
  "mach boot = Machine_new False 0 0" "tables boot = Map.empty"
  "ukernel.more boot = boot_image"
  by (simp_all add: boot_def kernel.defs ukernel.defs)

lemma boot_disk_ok: "program_disk boot_disk (\<lambda>k. mem_ok (ukernel.more k)) ukernel.more"
proof -
  have "sector_device boot_disk (\<lambda>k. mem_ok (ukernel.more k)) ukernel.more"
    by unfold_locales (auto simp: boot_disk_def mem_ok_def sector_number_def)
  moreover have "machine_frame boot_disk (\<lambda>k. mem_ok (ukernel.more k))"
    by (auto simp: machine_frame_def boot_disk_def set_memory_def)
  ultimately show ?thesis by (simp add: program_disk_def set_memory_def)
qed

lemma halt_program_length: "length halt_program = 128"
  by (simp add: halt_program_def)

lemma boot_ok: "mem_ok boot_image"
  by (simp add: boot_image_def mem_ok_def halt_program_length blank_disk_def)

lemma sample_file_bytes:
  assumes "length (D 5) = 128" and "length (D 9) = 128"
  shows "file_bytes sample_header D = D 5 @ take 72 (D 9)"
proof (rule nth_equalityI)
  show "length (file_bytes sample_header D) = length (D 5 @ take 72 (D 9))"
    using assms by (simp add: sample_header_def)
  fix i assume "i < length (file_bytes sample_header D)"
  then have i: "i < 200" by (simp add: sample_header_def)
  show "file_bytes sample_header D ! i = (D 5 @ take 72 (D 9)) ! i"
  proof (cases "i < 128")
    case True
    then have "int i div 128 = 0" "int i mod 128 = int i" by simp_all
    with True i assms show ?thesis
      by (simp add: file_bytes_def file_byte_def nth_append sample_header_def)
  next
    case False
    define j where "j = int i - 128"
    have "int i = j + 1 * 128" "0 \<le> j" "j < 128" "int (i - 128) = j"
      using False i by (simp_all add: j_def)
    then have "int i div 128 = 1" "int i mod 128 = int (i - 128)"
      by (simp_all only: div_mult_self1 mod_mult_self1) simp_all
    moreover have "nat (int i - 128) = i - 128" by simp
    ultimately show ?thesis using False i assms
      by (simp add: file_bytes_def file_byte_def nth_append sample_header_def)
  qed
qed

lemma boot_file: "file_bytes sample_header boot_image = halt_program @ replicate 72 0"
  by (subst sample_file_bytes) (simp_all add: boot_image_def halt_program_length blank_disk_def)

lemma bytes_word_append [simp]: "bytes_word (word_bytes w @ r) = w"
proof -
  have "bytes_word (word_bytes w @ r) = bytes_word (word_bytes w)"
    by (simp add: bytes_word_def nth_append)
  then show ?thesis by simp
qed

lemma boot_noff: "noff_header (halt_program @ replicate 72 0) =
  \<lparr>noffMagic = NOFFMAGIC, code = \<lparr>virtualAddr = 0, inFileAddr = 40, seg_size = 8\<rparr>,
   initData = \<lparr>virtualAddr = 0, inFileAddr = 0, seg_size = 0\<rparr>,
   uninitData = \<lparr>virtualAddr = 0, inFileAddr = 0, seg_size = 0\<rparr>\<rparr>"
  unfolding noff_header_def halt_program_def
  by (simp add: noff_of_bytes_def segment_at_def)

lemma boot_size: "pages_needed (program_size (noff_header (halt_program @ replicate 72 0))) = 9"
  by (simp add: boot_noff program_size_def UserStackSize_def pages_needed_def page_sizes)

lemma boot_loadable: "loadable (halt_program @ replicate 72 0)"
  unfolding loadable_def boot_size
  by (simp add: boot_noff halt_program_length segment_fits_def page_sizes)

text \<open>The image of this program: its two instructions, then zeros.\<close>

lemma boot_program_image:
  "program_image (halt_program @ replicate 72 0) mem =
    word_bytes 0x24020000 @ word_bytes 0x0000000C @ replicate 1144 0 @ drop 1152 mem"
proof -
  have n: "nat (uint (9 :: 32 word) * PageSize) = 1152" by (simp add: page_sizes)
  have c: "take 8 (drop 40 (halt_program @ replicate 72 0)) = word_bytes 0x24020000 @ word_bytes 0x0000000C"
    by (simp add: halt_program_def)
  have "program_image (halt_program @ replicate 72 0) mem =
      take 8 (drop 40 (halt_program @ replicate 72 0)) @ drop 8 (replicate 1152 0 @ drop 1152 mem)"
    unfolding program_image_def Let_def boot_size n unfolding boot_noff by (simp add: put_segment_def)
  also have "drop 8 (replicate 1152 0 @ drop 1152 mem) = replicate 1144 0 @ drop 1152 mem"
    by (simp only: drop_append length_replicate drop_replicate) simp
  finally show ?thesis by (simp only: c append_assoc)
qed

lemma boot_memory: "int (length (mainMemory (mach boot))) = MemorySize"
  by (simp add: Machine_new_def page_sizes)

lemma sample_file_hdr: "hdr sample_file = sample_header"
  by (simp add: sample_file_def)

subsection \<open>Properties\<close>

text \<open>
  C18: Building an address space from a NOFF file whose segments lie inside the file and inside
  memory, and whose size fits, returns, and main memory then holds the program's image: the code
  segment and on top of it the initialised data, as the file has them, zeros in the rest of the
  pages of the program, and what was there before behind them. The disk has not changed.
\<close>

theorem AddrSpace_loads_program:
  assumes "program_disk E ok sectors" and "ok k" and "header_ok (hdr f)"
    and "prog = file_bytes (hdr f) (sectors k)" and "loadable prog"
    and "int (length (mainMemory (mach k))) = MemorySize"
  shows "\<exists>k1. AddrSpace_new E t f k =
      Inr (\<lparr>spPageTable = t, numPages = pages_needed (program_size (noff_header prog))\<rparr>, k1) \<and>
    sectors k1 = sectors k \<and>
    mainMemory (mach k1) = program_image prog (mainMemory (mach k))"
  using AddrSpace_new_loads [OF assms(1-3) assms(4) [symmetric] assms(5,6), of t] by blast

lemma boot_loads:
  "mem_ok (ukernel.more boot)" "header_ok (hdr sample_file)"
  "halt_program @ replicate 72 0 = file_bytes (hdr sample_file) (ukernel.more boot)"
  using boot_ok sample_header_ok boot_file by (simp_all add: sample_file_hdr)

theorem AddrSpace_loads_program_witness:
  "\<exists>k1. AddrSpace_new boot_disk 7 sample_file boot = Inr (\<lparr>spPageTable = 7, numPages = 9\<rparr>, k1) \<and>
    take 8 (mainMemory (mach k1)) = word_bytes 0x24020000 @ word_bytes 0x0000000C"
proof -
  from AddrSpace_loads_program [OF boot_disk_ok boot_loads boot_loadable boot_memory, of 7]
  obtain k1 where "AddrSpace_new boot_disk 7 sample_file boot = Inr (\<lparr>spPageTable = 7, numPages = 9\<rparr>, k1)"
    "mainMemory (mach k1) = program_image (halt_program @ replicate 72 0) (mainMemory (mach boot))"
    by (auto simp: boot_size)
  then show ?thesis unfolding boot_program_image by simp
qed

text \<open>
  Whatever the program file holds, an address space that could be built has at most the pages
  of memory, and once its registers are set and its state is restored the machine is well-formed:
  execution starts at address 0, the stack at the end of the space, and an aligned address of the
  program is translated to itself, or to an address error from the end of the space on.
\<close>

theorem AddrSpace_starts:
  assumes "machine_frame E ok" and "ok k" and "AddrSpace_new E t f k = Inr (sp, k1)" and "tlb (mach k) = None"
    and "int (length (mainMemory (mach k))) = MemorySize"
  shows "\<exists>k2 k3. InitRegisters sp k1 = Inr k2 \<and> AddrSpace_RestoreState sp k2 = k3 \<and> mach_ok k3 \<and>
    uint (numPages sp) \<le> NumPhysPages \<and>
    reg PCReg k3 = 0 \<and> reg NextPCReg k3 = 4 \<and>
    reg StackReg k3 = numPages sp * word_of_int PageSize - 16 \<and>
    (\<forall>a sz wr. (sz = 1 \<or> sz = 2 \<and> uint a mod 2 = 0 \<or> sz = 4 \<and> uint a mod 4 = 0) \<longrightarrow>
      (\<exists>k4. Translate a sz wr k3 =
        (if uint a < uint (numPages sp) * PageSize then Inr (NoException, Some (uint a), k4)
         else Inr (AddressErrorException, None, k3))))"
proof -
  note new = AddrSpace_new_spec [OF assms(1,2,3,5)]
  obtain k2 m where m: "InitRegisters sp k1 = Inr k2" "AddrSpace_RestoreState sp k2 = k1\<lparr>mach := m\<rparr>"
    "identity_map (k1\<lparr>mach := m\<rparr>)" "mach_ok (k1\<lparr>mach := m\<rparr>)" "pageTableSize m = numPages sp"
    "registers m PCReg = 0" "registers m NextPCReg = 4"
    "registers m StackReg = numPages sp * word_of_int PageSize - 16"
    using start_state [of k1 sp] new assms(4,5) by (elim exE conjE) auto
  let ?k3 = "k1\<lparr>mach := m\<rparr>"
  have "\<exists>k4. Translate a sz wr ?k3 =
      (if uint a < uint (numPages sp) * PageSize then Inr (NoException, Some (uint a), k4)
       else Inr (AddressErrorException, None, ?k3))"
    if "sz = 1 \<or> sz = 2 \<and> uint a mod 2 = 0 \<or> sz = 4 \<and> uint a mod 4 = 0" for a sz wr
    using identity_Translate [OF m(3), of sz a wr] that m(5) by auto
  with m(1,2,4,6-8) new show ?thesis by (intro exI [of _ k2] exI [of _ ?k3]) (simp add: page_sizes)
qed

theorem AddrSpace_starts_witness:
  "\<exists>sp k1 k2. AddrSpace_new boot_disk 7 sample_file boot = Inr (sp, k1) \<and>
    InitRegisters sp k1 = Inr k2 \<and> mach_ok (AddrSpace_RestoreState sp k2)"
proof -
  obtain k1 where k1: "AddrSpace_new boot_disk 7 sample_file boot = Inr (\<lparr>spPageTable = 7, numPages = 9\<rparr>, k1)"
    using AddrSpace_new_loads [OF boot_disk_ok boot_loads(1,2) boot_loads(3) [symmetric] boot_loadable boot_memory,
      of 7] by (auto simp: boot_size)
  have "machine_frame boot_disk (\<lambda>k. mem_ok (ukernel.more k))" using boot_disk_ok by (simp add: program_disk_def)
  note start = AddrSpace_starts [OF this, of boot, OF boot_loads(1) k1]
  have "tlb (mach boot) = None" by (simp add: Machine_new_def)
  from start [OF this boot_memory] k1 show ?thesis by blast
qed

end
