(* ===== verification/Synchronization.thy ===== *)
theory Synchronization
  imports Addr_Space
begin

section \<open>Semaphores, locks and condition variables, threads/synch.cc\<close>

text \<open>
  The objects live in the kernel's state, since threads share them by pointer; the waiting
  threads of a semaphore are the abstract list of \<open>Linked_List\<close>. The operations are given as a
  caller sees them, with \<open>Sleep\<close> and \<open>SWITCH\<close>, and as the steps between two switches, which the
  transition system of all threads is built of: interrupts are off from the test of the value to
  its update, so nothing comes between them.
\<close>

subsection \<open>The data\<close>

record Semaphore =
  sem_value :: int
  squeue :: "tid list"

text \<open>\<open>Lock::Lock\<close> leaves \<open>threadHoldLock\<close> uninitialised: \<open>junk\<close> is what it holds.\<close>

record Lock =
  Sema :: nat
  threadHoldLock :: "tid option"

record Condition =
  cSema :: nat
  blockNum :: int

record 'h skernel = "'h pkernel" +
  semaphores :: "nat \<Rightarrow> Semaphore option"
  locks :: "nat \<Rightarrow> Lock option"
  conditions :: "nat \<Rightarrow> Condition option"

definition Semaphore_new :: "int \<Rightarrow> Semaphore" where
  "Semaphore_new initialValue = \<lparr>sem_value = initialValue, squeue = []\<rparr>"

definition Semaphore_delete :: "nat \<Rightarrow> ('h, 'm) skernel_scheme \<Rightarrow> ('h, 'm) skernel_scheme" where
  "Semaphore_delete s k = k\<lparr>semaphores := (semaphores k)(s := None)\<rparr>"

definition sem_at :: "nat \<Rightarrow> ('h, 'm) skernel_scheme \<Rightarrow> Semaphore result" where
  "sem_at s k = (case semaphores k s of None \<Rightarrow> Inl DanglingPointer | Some c \<Rightarrow> Inr c)"

definition lock_at :: "nat \<Rightarrow> ('h, 'm) skernel_scheme \<Rightarrow> Lock result" where
  "lock_at l k = (case locks k l of None \<Rightarrow> Inl DanglingPointer | Some c \<Rightarrow> Inr c)"

definition cond_at :: "nat \<Rightarrow> ('h, 'm) skernel_scheme \<Rightarrow> Condition result" where
  "cond_at l k = (case conditions k l of None \<Rightarrow> Inl DanglingPointer | Some c \<Rightarrow> Inr c)"

definition put_sem :: "nat \<Rightarrow> Semaphore \<Rightarrow> ('h, 'm) skernel_scheme \<Rightarrow> ('h, 'm) skernel_scheme" where
  "put_sem s c k = k\<lparr>semaphores := (semaphores k)(s \<mapsto> c)\<rparr>"

subsection \<open>Semaphores\<close>

text \<open>\<open>queue->Append((void *)currentThread)\<close>\<close>

definition P_append :: "nat \<Rightarrow> ('h, 'm) skernel_scheme \<Rightarrow> ('h, 'm) skernel_scheme result" where
  "P_append s k =
     rbind (sem_at s k) (\<lambda>c. Inr (put_sem s (c\<lparr>squeue := squeue c @ [currentThread k]\<rparr>) k))"

text \<open>\<open>value--\<close>\<close>

definition P_take :: "nat \<Rightarrow> ('h, 'm) skernel_scheme \<Rightarrow> ('h, 'm) skernel_scheme result" where
  "P_take s k =
     rbind (sem_at s k) (\<lambda>c. Inr (put_sem s (c\<lparr>sem_value := sem_value c - 1\<rparr>) k))"

text \<open>The body of \<open>V\<close> between the two calls of \<open>SetLevel\<close>.\<close>

definition V_give :: "nat \<Rightarrow> ('h, 'm) skernel_scheme \<Rightarrow> ('h, 'm) skernel_scheme result" where
  "V_give s k =
     rbind (sem_at s k) (\<lambda>c.
     rbind (case squeue c of
              [] \<Rightarrow> Inr k
            | thread # rest \<Rightarrow> ReadyToRun thread (put_sem s (c\<lparr>squeue := rest\<rparr>) k)) (\<lambda>k.
     rbind (sem_at s k) (\<lambda>c.
     Inr (put_sem s (c\<lparr>sem_value := sem_value c + 1\<rparr>) k))))"

text \<open>\<open>while (value == 0) { queue->Append(currentThread); currentThread->Sleep(); }\<close>\<close>

partial_function (option) P_loop ::
  "('h, ('h, 'm) skernel_scheme) cpu \<Rightarrow> nat \<Rightarrow> ('h, 'm) skernel_scheme \<Rightarrow>
    ('h, 'm) skernel_scheme result option" where
  "P_loop cpu s k =
     orbind (Some (sem_at s k)) (\<lambda>c.
     if sem_value c = 0 then
       orbind (Some (P_append s k)) (\<lambda>k.
       orbind (Sleep cpu (currentThread k) k) (P_loop cpu s))
     else Some (Inr k))"

definition Semaphore_P ::
  "('h, ('h, 'm) skernel_scheme) cpu \<Rightarrow> nat \<Rightarrow> ('h, 'm) skernel_scheme \<Rightarrow>
    ('h, 'm) skernel_scheme result option" where
  "Semaphore_P cpu s k =
     orbind (SetLevel cpu IntOff k) (\<lambda>(oldLevel, k).
     orbind (P_loop cpu s k) (\<lambda>k.
     orbind (Some (P_take s k)) (\<lambda>k.
     orbind (SetLevel cpu oldLevel k) (\<lambda>(_, k).
     Some (Inr k)))))"

definition Semaphore_V ::
  "('h, ('h, 'm) skernel_scheme) cpu \<Rightarrow> nat \<Rightarrow> ('h, 'm) skernel_scheme \<Rightarrow>
    ('h, 'm) skernel_scheme result option" where
  "Semaphore_V cpu s k =
     orbind (SetLevel cpu IntOff k) (\<lambda>(oldLevel, k).
     orbind (Some (V_give s k)) (\<lambda>k.
     orbind (SetLevel cpu oldLevel k) (\<lambda>(_, k).
     Some (Inr k))))"

subsection \<open>Locks\<close>

definition Lock_new :: "nat \<Rightarrow> nat \<Rightarrow> tid option \<Rightarrow> ('h, 'm) skernel_scheme \<Rightarrow> ('h, 'm) skernel_scheme" where
  "Lock_new l s junk k =
     put_sem s (Semaphore_new 1) (k\<lparr>locks := (locks k)(l \<mapsto> \<lparr>Sema = s, threadHoldLock = junk\<rparr>)\<rparr>)"

definition Lock_delete :: "nat \<Rightarrow> ('h, 'm) skernel_scheme \<Rightarrow> ('h, 'm) skernel_scheme result" where
  "Lock_delete l k =
     rbind (lock_at l k) (\<lambda>c. Inr ((Semaphore_delete (Sema c) k)\<lparr>locks := (locks k)(l := None)\<rparr>))"

definition set_holder ::
  "nat \<Rightarrow> tid option \<Rightarrow> ('h, 'm) skernel_scheme \<Rightarrow> ('h, 'm) skernel_scheme result" where
  "set_holder l t k =
     rbind (lock_at l k) (\<lambda>c. Inr (k\<lparr>locks := (locks k)(l \<mapsto> c\<lparr>threadHoldLock := t\<rparr>)\<rparr>))"

definition Lock_Acquire ::
  "('h, ('h, 'm) skernel_scheme) cpu \<Rightarrow> nat \<Rightarrow> ('h, 'm) skernel_scheme \<Rightarrow>
    ('h, 'm) skernel_scheme result option" where
  "Lock_Acquire cpu l k =
     orbind (Some (lock_at l k)) (\<lambda>c.
     orbind (Semaphore_P cpu (Sema c) k) (\<lambda>k.
     Some (set_holder l (Some (currentThread k)) k)))"

definition Lock_Release ::
  "('h, ('h, 'm) skernel_scheme) cpu \<Rightarrow> nat \<Rightarrow> ('h, 'm) skernel_scheme \<Rightarrow>
    ('h, 'm) skernel_scheme result option" where
  "Lock_Release cpu l k =
     orbind (Some (set_holder l None k)) (\<lambda>k.
     orbind (Some (lock_at l k)) (\<lambda>c.
     Semaphore_V cpu (Sema c) k))"

definition isHeldByCurrentThread :: "nat \<Rightarrow> ('h, 'm) skernel_scheme \<Rightarrow> bool result" where
  "isHeldByCurrentThread l k =
     rbind (lock_at l k) (\<lambda>c. Inr (threadHoldLock c = Some (currentThread k)))"

subsection \<open>Condition variables\<close>

definition Condition_new :: "nat \<Rightarrow> nat \<Rightarrow> ('h, 'm) skernel_scheme \<Rightarrow> ('h, 'm) skernel_scheme" where
  "Condition_new l s k =
     put_sem s (Semaphore_new 0) (k\<lparr>conditions := (conditions k)(l \<mapsto> \<lparr>cSema = s, blockNum = 0\<rparr>)\<rparr>)"

definition Condition_delete :: "nat \<Rightarrow> ('h, 'm) skernel_scheme \<Rightarrow> ('h, 'm) skernel_scheme result" where
  "Condition_delete l k =
     rbind (cond_at l k) (\<lambda>c.
     Inr ((Semaphore_delete (cSema c) k)\<lparr>conditions := (conditions k)(l := None)\<rparr>))"

definition add_blocked :: "nat \<Rightarrow> int \<Rightarrow> ('h, 'm) skernel_scheme \<Rightarrow> ('h, 'm) skernel_scheme result" where
  "add_blocked l n k =
     rbind (cond_at l k) (\<lambda>c. Inr (k\<lparr>conditions := (conditions k)(l \<mapsto> c\<lparr>blockNum := blockNum c + n\<rparr>)\<rparr>))"

definition Condition_Wait ::
  "('h, ('h, 'm) skernel_scheme) cpu \<Rightarrow> nat \<Rightarrow> nat \<Rightarrow> ('h, 'm) skernel_scheme \<Rightarrow>
    ('h, 'm) skernel_scheme result option" where
  "Condition_Wait cpu l conditionLock k =
     orbind (Lock_Release cpu conditionLock k) (\<lambda>k.
     orbind (Some (cond_at l k)) (\<lambda>c.
     orbind (Semaphore_P cpu (cSema c) k) (\<lambda>k.
     orbind (Some (add_blocked l 1 k)) (\<lambda>k.
     Lock_Acquire cpu conditionLock k))))"

definition Condition_Signal ::
  "('h, ('h, 'm) skernel_scheme) cpu \<Rightarrow> nat \<Rightarrow> ('h, 'm) skernel_scheme \<Rightarrow>
    ('h, 'm) skernel_scheme result option" where
  "Condition_Signal cpu l k =
     orbind (Some (cond_at l k)) (\<lambda>c.
     orbind (Semaphore_V cpu (cSema c) k) (\<lambda>k.
     Some (add_blocked l (- 1) k)))"

partial_function (option) Condition_Broadcast ::
  "('h, ('h, 'm) skernel_scheme) cpu \<Rightarrow> nat \<Rightarrow> ('h, 'm) skernel_scheme \<Rightarrow>
    ('h, 'm) skernel_scheme result option" where
  "Condition_Broadcast cpu l k =
     orbind (Some (cond_at l k)) (\<lambda>c.
     if blockNum c \<noteq> 0 then
       orbind (Semaphore_V cpu (cSema c) k) (\<lambda>k.
       orbind (Some (add_blocked l (- 1) k)) (\<lambda>k.
       Condition_Broadcast cpu l k))
     else Some (Inr k))"

text \<open>\<open>Signal\<close> of \<open>synch-sem.cc\<close>, the variant of this file that differs from it in this function.\<close>

definition Condition_Signal_sem ::
  "('h, ('h, 'm) skernel_scheme) cpu \<Rightarrow> nat \<Rightarrow> ('h, 'm) skernel_scheme \<Rightarrow>
    ('h, 'm) skernel_scheme result option" where
  "Condition_Signal_sem cpu l k =
     orbind (Some (cond_at l k)) (\<lambda>c.
     orbind (if blockNum c > 0 then Semaphore_V cpu (cSema c) k else Some (Inr k)) (\<lambda>k.
     Some (add_blocked l (- 1) k)))"

subsection \<open>The threads of the machine around one semaphore\<close>

type_synonym ('h, 'm) sthreads = "('h, 'm skernel_ext pkernel_ext ukernel_ext) machine_state"

text \<open>
  One pass of the loop of \<open>P\<close> by the running thread, up to the switch: it takes the value and goes
  on (\<^const>\<open>True\<close>), or queues itself and sleeps, to try again when it is next dispatched.
\<close>

definition P_try ::
  "nat \<Rightarrow> ('h, 'm) sthreads \<Rightarrow> (bool \<times> ('h, 'm) sthreads) result" where
  "P_try s m =
     rbind (sem_at s (kern m)) (\<lambda>c.
     if sem_value c = 0 then
       rbind (P_append s (kern m)) (\<lambda>k. rbind (sleep_step (m\<lparr>kern := k\<rparr>)) (\<lambda>m. Inr (False, m)))
     else rbind (P_take s (kern m)) (\<lambda>k. Inr (True, m\<lparr>kern := k\<rparr>)))"

definition V_try :: "nat \<Rightarrow> ('h, 'm) sthreads \<Rightarrow> ('h, 'm) sthreads result" where
  "V_try s m = rbind (V_give s (kern m)) (\<lambda>k. Inr (m\<lparr>kern := k\<rparr>))"

text \<open>The threads inside the loop of \<open>P\<close>, and how often \<open>P\<close> and \<open>V\<close> have completed.\<close>

record ('h, 'm) sem_state =
  sm :: "('h, 'm) sthreads"
  inP :: "tid set"
  completedP :: nat
  completedV :: nat

abbreviation running_thread :: "('h, 'm, 'z) sem_state_scheme \<Rightarrow> tid" where
  "running_thread S \<equiv> currentThread (kern (sm S))"

definition P_event ::
  "nat \<Rightarrow> ('h, 'm, 'z) sem_state_scheme \<Rightarrow> (bool \<times> ('h, 'm, 'z) sem_state_scheme) result" where
  "P_event s S =
     rbind (P_try s (sm S)) (\<lambda>(got, m).
     Inr (got,
       if got then S\<lparr>sm := m, inP := inP S - {running_thread S}, completedP := completedP S + 1\<rparr>
       else S\<lparr>sm := m, inP := insert (running_thread S) (inP S)\<rparr>))"

definition V_event ::
  "nat \<Rightarrow> ('h, 'm, 'z) sem_state_scheme \<Rightarrow> ('h, 'm, 'z) sem_state_scheme result" where
  "V_event s S =
     rbind (V_try s (sm S)) (\<lambda>m. Inr (S\<lparr>sm := m, completedV := completedV S + 1\<rparr>))"

definition blocked :: "('h, 'm) machine_state \<Rightarrow> tid \<Rightarrow> bool" where
  "blocked m t \<longleftrightarrow> status_of (threads (kern m)) t = Some BLOCKED"

text \<open>
  What else happens: any step of the scheduler, as long as a thread inside \<open>P\<close> does nothing but
  try again, and nothing but \<open>V\<close> wakes a thread that waits in \<open>P\<close>.
\<close>

definition other_event ::
  "('h, ('h, 'm) skernel_scheme) cpu \<Rightarrow> ('h, 'm, 'z) sem_state_scheme \<Rightarrow> ('h, 'm, 'z) sem_state_scheme \<Rightarrow> bool" where
  "other_event cpu S S' \<longleftrightarrow>
     (\<exists>m. sched_step cpu (sm S) m \<and> S' = S\<lparr>sm := m\<rparr> \<and>
       (running (sm S) \<longrightarrow> running_thread S \<notin> inP S) \<and>
       (\<forall>t \<in> inP S. blocked (sm S) t \<longrightarrow> blocked m t))"

text \<open>\<open>V\<close> is called by the running thread or by an interrupt handler.\<close>

inductive sem_step ::
  "('h, ('h, 'm) skernel_scheme) cpu \<Rightarrow> nat \<Rightarrow> ('h, 'm) sem_state \<Rightarrow> ('h, 'm) sem_state \<Rightarrow> bool"
  for cpu s where
  tries: "running (sm S) \<Longrightarrow> P_event s S = Inr (got, S') \<Longrightarrow> sem_step cpu s S S'"
| gives: "V_event s S = Inr S' \<Longrightarrow> sem_step cpu s S S'"
| others: "other_event cpu S S' \<Longrightarrow> sem_step cpu s S S'"

text \<open>
  The invariant: the value is not negative and accounts for every \<open>P\<close> and \<open>V\<close>; the queue holds
  exactly the threads in \<open>P\<close> that are asleep; and as long as threads are queued, there are at
  least as many awake in \<open>P\<close>, to take the value, as there are units to take.
\<close>

definition sem_inv ::
  "(tid \<Rightarrow> 'h Thread option) \<Rightarrow> tid set \<Rightarrow> Semaphore \<Rightarrow> tid set \<Rightarrow> bool" where
  "sem_inv T done c waiting \<longleftrightarrow>
     0 \<le> sem_value c \<and> distinct (squeue c) \<and> set (squeue c) \<subseteq> waiting \<and>
     finite waiting \<and> waiting \<inter> done = {} \<and>
     (\<forall>t \<in> waiting. status_of T t \<noteq> None \<and> (t \<in> set (squeue c) \<longleftrightarrow> status_of T t = Some BLOCKED)) \<and>
     (squeue c \<noteq> [] \<longrightarrow> sem_value c \<le> int (card (waiting - set (squeue c))))"

definition sem_ok :: "nat \<Rightarrow> int \<Rightarrow> ('h, 'm, 'z) sem_state_scheme \<Rightarrow> bool" where
  "sem_ok s init S \<longleftrightarrow> sched_ok (sm S) \<and>
     (\<exists>c. semaphores (kern (sm S)) s = Some c \<and>
        sem_value c + int (completedP S) = init + int (completedV S) \<and>
        sem_inv (threads (kern (sm S))) (finished (sm S)) c (inP S))"

lemma put_sem_simps [simp]:
  "semaphores (put_sem s c k) = (semaphores k)(s \<mapsto> c)" "threads (put_sem s c k) = threads k"
  "currentThread (put_sem s c k) = currentThread k" "readyList (put_sem s c k) = readyList k"
  "threadToBeDestroyed (put_sem s c k) = threadToBeDestroyed k"
  by (simp_all add: put_sem_def)

lemma sem_at_Some [simp]: "semaphores k s = Some c \<Longrightarrow> sem_at s k = Inr c"
  by (simp add: sem_at_def)

lemma put_thread_sems [simp]: "semaphores (put_thread t c k) = semaphores k"
  by (simp add: put_thread_def)

subsection \<open>Scheduling leaves semaphores alone\<close>

definition synch_part :: "('h, 'm) skernel_scheme \<Rightarrow>
    (nat \<Rightarrow> Semaphore option) \<times> (nat \<Rightarrow> Lock option) \<times> (nat \<Rightarrow> Condition option)" where
  "synch_part k = (semaphores k, locks k, conditions k)"

lemma synch_part_simps [simp]:
  "synch_part (put_thread t c k) = synch_part k" "synch_part (k\<lparr>readyList := r\<rparr>) = synch_part k"
  "synch_part (k\<lparr>currentThread := u\<rparr>) = synch_part k" "synch_part (k\<lparr>threads := T\<rparr>) = synch_part k"
  "synch_part (k\<lparr>threadToBeDestroyed := d\<rparr>) = synch_part k"
  by (simp_all add: synch_part_def put_thread_def)

locale synch_state = user_state cpu
  for cpu :: "('h, ('h, 'm) skernel_scheme) cpu" +
  assumes save_synch: "synch_part (save_user cpu t k) = synch_part k"
    and restore_synch: "synch_part (restore_user cpu t k) = synch_part k"

context user_state
begin

lemmas save_simps [simp] = truncate_eqD [OF save_law]
lemmas restore_simps [simp] = truncate_eqD [OF restore_law]

text \<open>A switch changes the status of the thread it runs, and may delete the dead one.\<close>

lemma Run_before_frame:
  assumes "Run_before cpu t k = Inr k'"
  shows "status_of (threads k') = (status_of (threads k))(t \<mapsto> RUNNING) \<and>
    threadToBeDestroyed k' = threadToBeDestroyed k \<and> currentThread k' = t"
  using assms by (auto simp: Run_before_def Let_def setStatus_def thread_at_def split: option.splits if_splits)

lemma Run_after_frame:
  assumes "Run_after cpu k = Inr k'"
  shows "status_of (threads k') (currentThread k) = status_of (threads k) (currentThread k) \<and>
    (\<forall>d. threadToBeDestroyed k \<noteq> Some d \<longrightarrow> status_of (threads k') d = status_of (threads k) d) \<and>
    currentThread k' = currentThread k"
  using assms
  by (auto simp: Run_after_def Thread_delete_def thread_at_def split: option.splits if_splits)

lemma switch_to_frame:
  assumes "switch_to cpu t m = Inr m'"
  shows "status_of (threads (kern m')) t = Some RUNNING \<and>
    (\<forall>d. d \<noteq> t \<longrightarrow> threadToBeDestroyed (kern m) \<noteq> Some d \<longrightarrow>
      status_of (threads (kern m')) d = status_of (threads (kern m)) d) \<and>
    finished m' = finished m"
  using assms
  by (auto simp: switch_to_def dest!: Run_before_frame Run_after_frame split: if_splits)

lemma yield_step_frame:
  assumes "yield_step cpu m = Inr m'" and "threadToBeDestroyed (kern m) \<noteq> Some d"
    and "status_of (threads (kern m)) d \<noteq> None"
  shows "status_of (threads (kern m')) d \<noteq> None \<and> (blocked m' d \<longrightarrow> blocked m d) \<and> finished m' = finished m"
proof (cases "readyList (kern m)")
  case Nil
  with assms show ?thesis by (simp add: yield_step_def FindNextToRun_def)
next
  case (Cons t ts)
  obtain k where k: "ReadyToRun (currentThread (kern m)) (kern m\<lparr>readyList := ts\<rparr>) = Inr k"
    and sw: "switch_to cpu t (m\<lparr>kern := k\<rparr>) = Inr m'"
    using assms(1) Cons by (auto simp: yield_step_def FindNextToRun_def)
  have 1: "status_of (threads k) = (status_of (threads (kern m)))(currentThread (kern m) \<mapsto> READY)"
    "threadToBeDestroyed k = threadToBeDestroyed (kern m)"
    using k by (auto simp: ReadyToRun_def setStatus_def thread_at_def split: option.splits)
  show ?thesis using switch_to_frame [OF sw] 1 assms(2,3)
    by (cases "d = t") (auto simp: blocked_def)
qed

lemma dispatch_step_frame:
  assumes "dispatch_step cpu m = Inr m'" and "threadToBeDestroyed (kern m) \<noteq> Some d"
    and "status_of (threads (kern m)) d \<noteq> None"
  shows "status_of (threads (kern m')) d \<noteq> None \<and> (blocked m' d \<longrightarrow> blocked m d) \<and> finished m' = finished m"
proof (cases "readyList (kern m)")
  case Nil
  with assms show ?thesis by (simp add: dispatch_step_def FindNextToRun_def)
next
  case (Cons t ts)
  then have "switch_to cpu t (m\<lparr>kern := (kern m)\<lparr>readyList := ts\<rparr>\<rparr>) = Inr m'"
    using assms(1) by (simp add: dispatch_step_def FindNextToRun_def)
  from switch_to_frame [OF this] assms(2,3) show ?thesis
    by (cases "d = t") (auto simp: blocked_def)
qed

text \<open>Only the running thread goes to sleep or finishes.\<close>

lemma sched_step_frame:
  assumes "sched_step cpu m m'" and "sched_ok m" and "status_of (threads (kern m)) d \<noteq> None"
    and "d \<notin> finished m"
  shows "status_of (threads (kern m')) d \<noteq> None \<and>
    (blocked m' d \<longrightarrow> blocked m d \<or> running m \<and> d = currentThread (kern m)) \<and>
    (d \<in> finished m' \<longrightarrow> running m \<and> d = currentThread (kern m))"
proof -
  have alive: "threadToBeDestroyed (kern m) \<noteq> Some d"
    using sched_inv_dead(1) [OF sched_okD [OF assms(2)]] assms(4) by blast
  from assms(1) show ?thesis
  proof cases
    case yields
    with yield_step_frame [OF _ alive assms(3)] assms(4) show ?thesis by blast
  next
    case sleeps
    with assms(3,4) show ?thesis
      by (auto simp: sleep_step_def setStatus_def thread_at_def blocked_def split: option.splits if_splits)
  next
    case finishes
    with assms(3,4) show ?thesis
      by (auto simp: finish_step_def sleep_step_def setStatus_def thread_at_def blocked_def Let_def
          split: option.splits if_splits)
  next
    case dispatches
    with dispatch_step_frame [OF _ alive assms(3)] assms(4) show ?thesis by blast
  next
    case (wakes t c)
    with assms(3,4) show ?thesis
      by (auto simp: wake_step_def ReadyToRun_def blocked_def split: if_splits)
  next
    case (forks t name func a)
    then have "d \<noteq> t" using assms(3) by (auto simp: status_of_def)
    with forks assms(3,4) show ?thesis
      by (auto simp: fork_step_def StackAllocate_def ReadyToRun_def blocked_def split: if_splits)
  qed
qed

end

lemma setStatus_synch: "setStatus t st k = Inr k' \<Longrightarrow> synch_part k' = synch_part k"
  by (auto simp: setStatus_def thread_at_def put_thread_def split: option.splits)

lemma ReadyToRun_synch: "ReadyToRun t k = Inr k' \<Longrightarrow> synch_part k' = synch_part k"
  by (auto simp: ReadyToRun_def dest: setStatus_synch)

lemma sleep_step_synch: "sleep_step m = Inr m' \<Longrightarrow> synch_part (kern m') = synch_part (kern m)"
  by (auto simp: sleep_step_def dest: setStatus_synch)

context synch_state
begin

lemma Run_before_synch: "Run_before cpu t k = Inr k' \<Longrightarrow> synch_part k' = synch_part k"
  by (auto simp: Run_before_def Let_def save_synch dest!: setStatus_synch split: if_splits)

lemma Run_after_synch: "Run_after cpu k = Inr k' \<Longrightarrow> synch_part k' = synch_part k"
  by (auto simp: Run_after_def Thread_delete_def restore_synch split: option.splits if_splits)

lemma switch_to_synch: "switch_to cpu t m = Inr m' \<Longrightarrow> synch_part (kern m') = synch_part (kern m)"
  by (auto simp: switch_to_def dest!: Run_before_synch Run_after_synch split: if_splits)

lemma sched_step_synch:
  assumes "sched_step cpu m m'"
  shows "synch_part (kern m') = synch_part (kern m)"
  using assms
proof cases
  case yields
  then show ?thesis
    by (auto simp: yield_step_def FindNextToRun_def dest!: switch_to_synch ReadyToRun_synch split: list.splits)
next
  case sleeps
  then show ?thesis by (auto dest: sleep_step_synch)
next
  case finishes
  then show ?thesis by (auto simp: finish_step_def Let_def dest!: sleep_step_synch)
next
  case dispatches
  then show ?thesis
    by (auto simp: dispatch_step_def FindNextToRun_def dest!: switch_to_synch split: list.splits)
next
  case (wakes t c)
  then show ?thesis by (auto simp: wake_step_def dest!: ReadyToRun_synch)
next
  case (forks t name func a)
  then show ?thesis by (auto simp: fork_step_def StackAllocate_def dest!: ReadyToRun_synch)
qed

end

subsection \<open>The invariant of a semaphore\<close>

text \<open>The steps of \<open>P\<close> and \<open>V\<close> on the queue, the value and the threads.\<close>

lemma sem_inv_queue:
  assumes inv: "sem_inv T done c waiting" and zero: "sem_value c = 0" and t: "t \<notin> set (squeue c)"
    and "t \<notin> done"
    and T': "status_of T' = (status_of T)(t \<mapsto> BLOCKED)"
  shows "sem_inv T' done (c\<lparr>squeue := squeue c @ [t]\<rparr>) (insert t waiting)"
  using assms unfolding sem_inv_def by auto

lemma sem_invD:
  assumes "sem_inv T done c waiting"
  shows "0 \<le> sem_value c" and "distinct (squeue c)" and "set (squeue c) \<subseteq> waiting" and "finite waiting"
    and "waiting \<inter> done = {}" and "t \<in> waiting \<Longrightarrow> status_of T t \<noteq> None"
    and "t \<in> waiting \<Longrightarrow> t \<in> set (squeue c) \<longleftrightarrow> status_of T t = Some BLOCKED"
    and "squeue c \<noteq> [] \<Longrightarrow> sem_value c \<le> int (card (waiting - set (squeue c)))"
  using assms unfolding sem_inv_def by blast+

lemma sem_invI:
  assumes "0 \<le> sem_value c" and "distinct (squeue c)" and "set (squeue c) \<subseteq> waiting" and "finite waiting"
    and "waiting \<inter> done = {}" and "\<And>t. t \<in> waiting \<Longrightarrow> status_of T t \<noteq> None"
    and "\<And>t. t \<in> waiting \<Longrightarrow> t \<in> set (squeue c) \<longleftrightarrow> status_of T t = Some BLOCKED"
    and "squeue c \<noteq> [] \<Longrightarrow> sem_value c \<le> int (card (waiting - set (squeue c)))"
  shows "sem_inv T done c waiting"
  using assms unfolding sem_inv_def by blast

lemma sem_inv_take:
  assumes inv: "sem_inv T done c waiting" and pos: "sem_value c \<noteq> 0" and t: "t \<notin> set (squeue c)"
  shows "sem_inv T done (c\<lparr>sem_value := sem_value c - 1\<rparr>) (waiting - {t})"
proof (rule sem_invI)
  note D = sem_invD [OF inv]
  show "0 \<le> sem_value (c\<lparr>sem_value := sem_value c - 1\<rparr>)" using D(1) pos by simp
  show "set (squeue (c\<lparr>sem_value := sem_value c - 1\<rparr>)) \<subseteq> waiting - {t}" using D(3) t by auto
  assume "squeue (c\<lparr>sem_value := sem_value c - 1\<rparr>) \<noteq> []"
  then have "sem_value c \<le> int (card (waiting - set (squeue c)))" using D(8) by simp
  moreover have "card (waiting - set (squeue c)) \<le> Suc (card (waiting - {t} - set (squeue c)))"
  proof -
    let ?B = "waiting - {t} - set (squeue c)"
    have fin: "finite ?B" using D(4) by simp
    have "waiting - set (squeue c) \<subseteq> insert t ?B" by blast
    then have "card (waiting - set (squeue c)) \<le> card (insert t ?B)" by (rule card_mono [rotated]) (simp add: fin)
    also have "\<dots> \<le> Suc (card ?B)" by (simp only: card_insert_if [OF fin]) simp
    finally show ?thesis .
  qed
  ultimately show "sem_value (c\<lparr>sem_value := sem_value c - 1\<rparr>) \<le>
      int (card (waiting - {t} - set (squeue (c\<lparr>sem_value := sem_value c - 1\<rparr>))))"
    by simp
next
  fix u assume "u \<in> waiting - {t}"
  then show "status_of T u \<noteq> None" "u \<in> set (squeue (c\<lparr>sem_value := sem_value c - 1\<rparr>)) \<longleftrightarrow>
      status_of T u = Some BLOCKED" using sem_invD(6,7) [OF inv, of u] by simp_all
qed (use sem_invD(2,4,5) [OF inv] in \<open>simp_all, blast\<close>)

lemma sem_inv_wake:
  assumes inv: "sem_inv T done c waiting" and q: "squeue c = t # rest"
    and T': "status_of T' = (status_of T)(t \<mapsto> READY)"
  shows "sem_inv T' done (c\<lparr>squeue := rest, sem_value := sem_value c + 1\<rparr>) waiting"
proof (rule sem_invI)
  note D = sem_invD [OF inv]
  have t: "t \<in> waiting" "t \<notin> set rest" "finite waiting" using D(2,3,4) q by auto
  have sq: "set (squeue c) = insert t (set rest)" using q by simp
  have "waiting - set rest = insert t (waiting - set (squeue c))" unfolding sq using t(1,2) by blast
  moreover have "t \<notin> waiting - set (squeue c)" "finite (waiting - set (squeue c))"
    using t(3) sq by simp_all
  ultimately have "card (waiting - set rest) = Suc (card (waiting - set (squeue c)))"
    by (metis card_insert_disjoint)
  then show "sem_value (c\<lparr>squeue := rest, sem_value := sem_value c + 1\<rparr>)
      \<le> int (card (waiting - set (squeue (c\<lparr>squeue := rest, sem_value := sem_value c + 1\<rparr>))))"
    using D(8) q by simp
  show "u \<in> set (squeue (c\<lparr>squeue := rest, sem_value := sem_value c + 1\<rparr>)) \<longleftrightarrow>
      status_of T' u = Some BLOCKED" if "u \<in> waiting" for u
    using D(7) [OF that] t q T' by auto
  show "status_of T' u \<noteq> None" if "u \<in> waiting" for u using D(6) [OF that] T' by simp
qed (use sem_invD(1-5) [OF inv] q in simp_all)

lemma sem_inv_give:
  assumes "sem_inv T done c waiting" and "squeue c = []"
  shows "sem_inv T done (c\<lparr>sem_value := sem_value c + 1\<rparr>) waiting"
  using assms by (simp add: sem_inv_def)

lemma sem_inv_status:
  assumes inv: "sem_inv T done c waiting"
    and "\<And>t. t \<in> waiting \<Longrightarrow> status_of T' t \<noteq> None \<and>
      (status_of T' t = Some BLOCKED \<longleftrightarrow> status_of T t = Some BLOCKED) \<and> t \<notin> done'"
  shows "sem_inv T' done' c waiting"
  using assms unfolding sem_inv_def by auto

subsection \<open>Every step keeps it\<close>

lemma P_event_ok:
  assumes ok: "sem_ok s init S" and run: "running (sm S)"
  shows "\<exists>got S'. P_event s S = Inr (got, S') \<and> sem_ok s init S'"
proof -
  define k where "k = kern (sm S)"
  define t where "t = currentThread k"
  obtain c where c: "semaphores k s = Some c"
    and count: "sem_value c + int (completedP S) = init + int (completedV S)"
    and inv: "sem_inv (threads k) (finished (sm S)) c (inP S)"
    using ok by (auto simp: sem_ok_def k_def)
  have sched: "sched_ok (sm S)" using ok by (simp add: sem_ok_def)
  obtain th where th: "threads k t = Some th" "tstatus th = RUNNING"
    using run by (auto simp: running_def k_def t_def)
  have st: "status_of (threads k) t = Some RUNNING" using th by (simp add: status_of_def)
  have t1: "t \<notin> finished (sm S)"
    by (rule sched_inv_running(2) [OF sched_okD [OF sched]]) (use st in \<open>simp add: k_def\<close>)
  have t2: "t \<notin> set (squeue c)"
    using sem_invD(3) [OF inv] sem_invD(7) [OF inv, of t] st by auto
  show ?thesis
  proof (cases "sem_value c = 0")
    case True
    let ?c = "c\<lparr>squeue := squeue c @ [t]\<rparr>"
    define k1 where "k1 = put_thread t (th\<lparr>tstatus := BLOCKED\<rparr>) (put_sem s ?c k)"
    have "sleep_step (sm S\<lparr>kern := put_sem s ?c k\<rparr>) = Inr (sm S\<lparr>kern := k1\<rparr>)"
      using th by (simp add: sleep_step_def k1_def t_def)
    then have run: "P_event s S = Inr (False, S\<lparr>sm := sm S\<lparr>kern := k1\<rparr>, inP := insert t (inP S)\<rparr>)"
      using c True by (simp add: P_event_def P_try_def P_append_def k_def [symmetric] t_def)
    have "sem_inv (threads k1) (finished (sm S)) ?c (insert t (inP S))"
      by (rule sem_inv_queue [OF inv True t2 t1]) (simp add: k1_def)
    moreover have "sched_ok (sm S\<lparr>kern := k1\<rparr>)"
      using sched_inv_block [of "threads k" t] sched_okD [OF sched] th
      by (simp add: sched_ok_def k1_def k_def [symmetric] t_def)
    moreover have "semaphores k1 s = Some ?c" by (simp add: k1_def)
    ultimately have "sem_ok s init (S\<lparr>sm := sm S\<lparr>kern := k1\<rparr>, inP := insert t (inP S)\<rparr>)"
      using count by (simp add: sem_ok_def)
    with run show ?thesis by blast
  next
    case False
    let ?c = "c\<lparr>sem_value := sem_value c - 1\<rparr>"
    have run: "P_event s S = Inr (True, S\<lparr>sm := sm S\<lparr>kern := put_sem s ?c k\<rparr>, inP := inP S - {t},
        completedP := completedP S + 1\<rparr>)"
      using c False by (simp add: P_event_def P_try_def P_take_def k_def [symmetric] t_def)
    have "sched_ok (sm S\<lparr>kern := put_sem s ?c k\<rparr>)"
      using sched by (simp add: sched_ok_def k_def)
    then have "sem_ok s init (S\<lparr>sm := sm S\<lparr>kern := put_sem s ?c k\<rparr>, inP := inP S - {t},
        completedP := completedP S + 1\<rparr>)"
      using count sem_inv_take [OF inv False t2] by (simp add: sem_ok_def)
    with run show ?thesis by blast
  qed
qed

lemma V_event_ok:
  assumes ok: "sem_ok s init S"
  shows "\<exists>S'. V_event s S = Inr S' \<and> sem_ok s init S'"
proof -
  define k where "k = kern (sm S)"
  obtain c where c: "semaphores k s = Some c"
    and count: "sem_value c + int (completedP S) = init + int (completedV S)"
    and inv: "sem_inv (threads k) (finished (sm S)) c (inP S)"
    using ok by (auto simp: sem_ok_def k_def)
  have sched: "sched_ok (sm S)" using ok by (simp add: sem_ok_def)
  show ?thesis
  proof (cases "squeue c")
    case Nil
    let ?c = "c\<lparr>sem_value := sem_value c + 1\<rparr>"
    have run: "V_event s S = Inr (S\<lparr>sm := sm S\<lparr>kern := put_sem s ?c k\<rparr>, completedV := completedV S + 1\<rparr>)"
      using c Nil by (simp add: V_event_def V_try_def V_give_def k_def [symmetric])
    have "sched_ok (sm S\<lparr>kern := put_sem s ?c k\<rparr>)"
      using sched by (simp add: sched_ok_def k_def)
    then have "sem_ok s init (S\<lparr>sm := sm S\<lparr>kern := put_sem s ?c k\<rparr>, completedV := completedV S + 1\<rparr>)"
      using count sem_inv_give [OF inv Nil] by (simp add: sem_ok_def)
    with run show ?thesis by blast
  next
    case (Cons t rest)
    let ?c = "c\<lparr>squeue := rest, sem_value := sem_value c + 1\<rparr>"
    have t: "t \<in> inP S" "t \<notin> finished (sm S)" using sem_invD(3,5) [OF inv] Cons by auto
    then have st: "status_of (threads k) t = Some BLOCKED" using sem_invD(7) [OF inv, of t] Cons by simp
    then obtain th where th: "threads k t = Some th" "tstatus th = BLOCKED" by (auto simp: status_of_def)
    define k1 where "k1 = put_sem s ?c ((put_thread t (th\<lparr>tstatus := READY\<rparr>)
      (put_sem s (c\<lparr>squeue := rest\<rparr>) k))\<lparr>readyList := readyList k @ [t]\<rparr>)"
    have run: "V_event s S = Inr (S\<lparr>sm := sm S\<lparr>kern := k1\<rparr>, completedV := completedV S + 1\<rparr>)"
      using c Cons th by (simp add: V_event_def V_try_def V_give_def ReadyToRun_def k1_def k_def [symmetric])
    have 1: "threads k1 = (threads k)(t \<mapsto> th\<lparr>tstatus := READY\<rparr>)" "readyList k1 = readyList k @ [t]"
      "currentThread k1 = currentThread k" "threadToBeDestroyed k1 = threadToBeDestroyed k"
      "semaphores k1 s = Some ?c"
      by (simp_all add: k1_def)
    have "sched_ok (sm S\<lparr>kern := k1\<rparr>)"
      using sched_inv_wake [OF sched_okD [OF sched], of t th] th t 1
      by (simp add: sched_ok_def k_def [symmetric])
    moreover have "sem_inv (threads k1) (finished (sm S)) ?c (inP S)"
      by (rule sem_inv_wake [OF inv Cons]) (simp add: 1)
    ultimately have "sem_ok s init (S\<lparr>sm := sm S\<lparr>kern := k1\<rparr>, completedV := completedV S + 1\<rparr>)"
      using count 1(5) by (simp add: sem_ok_def)
    with run show ?thesis by blast
  qed
qed

context synch_state
begin

lemma other_event_ok:
  assumes "other_event cpu S S'" and ok: "sem_ok s init S"
  shows "sem_ok s init S'"
proof -
  obtain m where m: "sched_step cpu (sm S) m" "S' = S\<lparr>sm := m\<rparr>"
    "running (sm S) \<longrightarrow> running_thread S \<notin> inP S"
    "\<forall>t \<in> inP S. blocked (sm S) t \<longrightarrow> blocked m t"
    using assms(1) by (auto simp: other_event_def)
  obtain c where c: "semaphores (kern (sm S)) s = Some c"
    and count: "sem_value c + int (completedP S) = init + int (completedV S)"
    and inv: "sem_inv (threads (kern (sm S))) (finished (sm S)) c (inP S)"
    and sched: "sched_ok (sm S)"
    using ok by (auto simp: sem_ok_def)
  have "sem_inv (threads (kern m)) (finished m) c (inP S)"
  proof (rule sem_inv_status [OF inv])
    fix t assume t: "t \<in> inP S"
    then have "status_of (threads (kern (sm S))) t \<noteq> None" "t \<notin> finished (sm S)"
      using sem_invD(5) [OF inv] sem_invD(6) [OF inv, of t] by auto
    from sched_step_frame [OF m(1) sched this] m(3,4) t
    show "status_of (threads (kern m)) t \<noteq> None \<and>
        (status_of (threads (kern m)) t = Some BLOCKED \<longleftrightarrow>
         status_of (threads (kern (sm S))) t = Some BLOCKED) \<and> t \<notin> finished m"
      unfolding blocked_def by metis
  qed
  then show ?thesis
    using sched_step_ok [OF m(1) sched] sched_step_synch [OF m(1)] c count m(2)
    by (simp add: sem_ok_def synch_part_def)
qed

lemma sem_step_ok: "sem_step cpu s S S' \<Longrightarrow> sem_ok s init S \<Longrightarrow> sem_ok s init S'"
  by (induction rule: sem_step.induct)
    (use P_event_ok V_event_ok other_event_ok in fastforce)+

lemma sem_reachable_ok: "rtranclp (sem_step cpu s) S S' \<Longrightarrow> sem_ok s init S \<Longrightarrow> sem_ok s init S'"
  by (induction rule: rtranclp_induct) (auto dest: sem_step_ok)

end

subsection \<open>The threads of the machine around one lock\<close>

text \<open>
  \<open>Acquire\<close> is a \<open>P\<close> and then the assignment of \<open>threadHoldLock\<close>, \<open>Release\<close> the assignment of
  NULL and then a \<open>V\<close>: other threads can run between the two. A thread may try to acquire the
  lock at any time, even while it holds it; it releases it only if it holds it.
\<close>

datatype phase = Outside | Acquired | Inside | Leaving

record ('h, 'm) lock_state = "('h, 'm) sem_state" +
  phase :: "tid \<Rightarrow> phase"

definition acquire_event ::
  "nat \<Rightarrow> ('h, 'm, 'z) lock_state_scheme \<Rightarrow> ('h, 'm, 'z) lock_state_scheme result" where
  "acquire_event s S =
     rbind (P_event s S) (\<lambda>(got, S').
     Inr (if got then S'\<lparr>phase := (phase S)(running_thread S := Acquired)\<rparr> else S'))"

definition hold_event ::
  "nat \<Rightarrow> ('h, 'm, 'z) lock_state_scheme \<Rightarrow> ('h, 'm, 'z) lock_state_scheme result" where
  "hold_event l S =
     rbind (set_holder l (Some (running_thread S)) (kern (sm S))) (\<lambda>k.
     Inr (S\<lparr>sm := sm S\<lparr>kern := k\<rparr>, phase := (phase S)(running_thread S := Inside)\<rparr>))"

definition unhold_event ::
  "nat \<Rightarrow> ('h, 'm, 'z) lock_state_scheme \<Rightarrow> ('h, 'm, 'z) lock_state_scheme result" where
  "unhold_event l S =
     rbind (set_holder l None (kern (sm S))) (\<lambda>k.
     Inr (S\<lparr>sm := sm S\<lparr>kern := k\<rparr>, phase := (phase S)(running_thread S := Leaving)\<rparr>))"

definition release_event ::
  "nat \<Rightarrow> ('h, 'm, 'z) lock_state_scheme \<Rightarrow> ('h, 'm, 'z) lock_state_scheme result" where
  "release_event s S =
     rbind (V_event s S) (\<lambda>S'. Inr (S'\<lparr>phase := (phase S)(running_thread S := Outside)\<rparr>))"

inductive lock_step ::
  "('h, ('h, 'm) skernel_scheme) cpu \<Rightarrow> nat \<Rightarrow> nat \<Rightarrow> ('h, 'm) lock_state \<Rightarrow> ('h, 'm) lock_state \<Rightarrow> bool"
  for cpu l s where
  acquires: "running (sm S) \<Longrightarrow> phase S (running_thread S) = Outside \<or> phase S (running_thread S) = Inside \<Longrightarrow>
    acquire_event s S = Inr S' \<Longrightarrow> lock_step cpu l s S S'"
| holds: "running (sm S) \<Longrightarrow> phase S (running_thread S) = Acquired \<Longrightarrow>
    hold_event l S = Inr S' \<Longrightarrow> lock_step cpu l s S S'"
| unholds: "running (sm S) \<Longrightarrow> phase S (running_thread S) = Inside \<Longrightarrow> running_thread S \<notin> inP S \<Longrightarrow>
    unhold_event l S = Inr S' \<Longrightarrow> lock_step cpu l s S S'"
| releases: "running (sm S) \<Longrightarrow> phase S (running_thread S) = Leaving \<Longrightarrow>
    release_event s S = Inr S' \<Longrightarrow> lock_step cpu l s S S'"
| others: "other_event cpu S S' \<Longrightarrow> lock_step cpu l s S S'"

text \<open>
  Whether the assignment in \<open>Acquire\<close> has been executed yet, by any thread: until then
  \<open>threadHoldLock\<close> holds what the constructor left there, \<open>junk\<close>.
\<close>

definition entered :: "('h, 'm) lock_state \<Rightarrow> bool" where
  "entered S \<longleftrightarrow> 0 < completedV S \<or> (\<exists>t. phase S t = Inside \<or> phase S t = Leaving)"

definition lock_ok :: "tid option \<Rightarrow> nat \<Rightarrow> nat \<Rightarrow> ('h, 'm) lock_state \<Rightarrow> bool" where
  "lock_ok junk l s S \<longleftrightarrow> sem_ok s 1 S \<and> finite {t. phase S t \<noteq> Outside} \<and>
     completedP S = completedV S + card {t. phase S t \<noteq> Outside} \<and>
     (\<exists>c. locks (kern (sm S)) l = Some c \<and> Sema c = s \<and>
        (\<forall>t. phase S t = Inside \<longrightarrow> threadHoldLock c = Some t) \<and>
        ((\<forall>t. phase S t \<noteq> Inside) \<longrightarrow> threadHoldLock c = (if entered S then None else junk)))"

text \<open>With the value not negative, the account of the semaphore leaves room for one holder.\<close>

lemma lock_ok_one:
  assumes "lock_ok junk l s S"
  shows "\<exists>c. semaphores (kern (sm S)) s = Some c \<and>
    sem_value c = 1 - int (card {t. phase S t \<noteq> Outside}) \<and> card {t. phase S t \<noteq> Outside} \<le> 1"
  using assms unfolding lock_ok_def sem_ok_def sem_inv_def by force

lemma lock_ok_unique:
  assumes ok: "lock_ok junk l s S" and "phase S t \<noteq> Outside" and "phase S u \<noteq> Outside"
  shows "t = u"
proof -
  have fin: "finite {t. phase S t \<noteq> Outside}" using ok by (simp add: lock_ok_def)
  have "card {t. phase S t \<noteq> Outside} \<le> 1" using lock_ok_one [OF ok] by blast
  with fin assms(2,3) show ?thesis by (auto simp: card_le_Suc0_iff_eq)
qed

lemma P_event_result:
  assumes "P_event s S = Inr (got, S')"
  shows "completedV S' = completedV S \<and> completedP S' = (if got then completedP S + 1 else completedP S) \<and>
    phase S' = phase S \<and> locks (kern (sm S')) = locks (kern (sm S)) \<and>
    (got \<longrightarrow> (\<forall>c. semaphores (kern (sm S)) s = Some c \<longrightarrow> sem_value c \<noteq> 0))"
  using assms
  by (auto simp: P_event_def P_try_def P_append_def P_take_def sleep_step_def setStatus_def thread_at_def
      put_sem_def put_thread_def split: if_splits option.splits)

lemma V_event_result:
  assumes "V_event s S = Inr S'"
  shows "completedV S' = completedV S + 1 \<and> completedP S' = completedP S \<and>
    phase S' = phase S \<and> locks (kern (sm S')) = locks (kern (sm S))"
  using assms
  by (auto simp: V_event_def V_try_def V_give_def ReadyToRun_def setStatus_def thread_at_def
      put_sem_def put_thread_def split: if_splits option.splits list.splits)

lemma holders_insert:
  "P t = Outside \<Longrightarrow> p \<noteq> Outside \<Longrightarrow> {u. (P(t := p)) u \<noteq> Outside} = insert t {u. P u \<noteq> Outside}"
  by auto

lemma holders_remove: "{u. (P(t := Outside)) u \<noteq> Outside} = {u. P u \<noteq> Outside} - {t}"
  by auto

lemma holders_same: "P t \<noteq> Outside \<Longrightarrow> p \<noteq> Outside \<Longrightarrow> {u. (P(t := p)) u \<noteq> Outside} = {u. P u \<noteq> Outside}"
  by auto

lemma sem_ok_phase [simp]: "sem_ok s init (S\<lparr>phase := p\<rparr>) = sem_ok s init S"
  by (simp add: sem_ok_def)

lemma sem_ok_locks: "sem_ok s init S \<Longrightarrow>
    sem_ok s init (S\<lparr>sm := sm S\<lparr>kern := (kern (sm S))\<lparr>locks := L\<rparr>\<rparr>\<rparr>)"
  by (simp add: sem_ok_def sched_ok_def)

lemma acquire_event_ok:
  assumes ok: "lock_ok junk l s S" and run: "running (sm S)"
    and ph: "phase S (running_thread S) = Outside \<or> phase S (running_thread S) = Inside"
  shows "\<exists>S'. acquire_event s S = Inr S' \<and> lock_ok junk l s S'"
proof -
  let ?t = "running_thread S" and ?H = "{t. phase S t \<noteq> Outside}"
  have fin: "finite ?H" and cnt: "completedP S = completedV S + card ?H" and sem: "sem_ok s 1 S"
    using ok by (simp_all add: lock_ok_def)
  obtain c where c: "locks (kern (sm S)) l = Some c" "Sema c = s"
    "\<And>t. phase S t = Inside \<longrightarrow> threadHoldLock c = Some t"
    "(\<forall>t. phase S t \<noteq> Inside) \<longrightarrow> threadHoldLock c = (if entered S then None else junk)"
    using ok by (auto simp: lock_ok_def)
  obtain got S1 where P: "P_event s S = Inr (got, S1)" "sem_ok s 1 S1"
    using P_event_ok [OF sem run] by blast
  note r = P_event_result [OF P(1)]
  show ?thesis
  proof (cases got)
    case False
    moreover have "entered S1 = entered S" using r by (simp add: entered_def)
    ultimately show ?thesis using P r c fin cnt by (simp add: acquire_event_def lock_ok_def)
  next
    case True
    obtain d where "semaphores (kern (sm S)) s = Some d" "sem_value d = 1 - int (card ?H)" "card ?H \<le> 1"
      using lock_ok_one [OF ok] by blast
    with r True have "card ?H = 0" by force
    then have H: "?H = {}" using fin by simp
    then have out: "phase S u = Outside" for u by auto
    have "{u. ((phase S)(?t := Acquired)) u \<noteq> Outside} = {?t}" using out by auto
    moreover have "((phase S)(?t := Acquired)) u \<noteq> Inside" for u using out [of u] by simp
    moreover have "threadHoldLock c = (if entered S then None else junk)" using c(4) out by simp
    moreover have "entered (S1\<lparr>phase := (phase S)(?t := Acquired)\<rparr>) = entered S"
      using r out by (auto simp: entered_def)
    ultimately show ?thesis
      using P r c(1,2) True cnt H by (simp add: acquire_event_def lock_ok_def del: fun_upd_apply)
  qed
qed

lemma hold_event_ok:
  assumes ok: "lock_ok junk l s S" and ph: "phase S (running_thread S) = Acquired"
  shows "\<exists>S'. hold_event l S = Inr S' \<and> lock_ok junk l s S'"
proof -
  let ?t = "running_thread S"
  obtain c where c: "locks (kern (sm S)) l = Some c" "Sema c = s" using ok by (auto simp: lock_ok_def)
  have uni: "phase S u = Outside" if "u \<noteq> ?t" for u
    using lock_ok_unique [OF ok, of u ?t] ph that by auto
  have "((phase S)(?t := Inside)) u = Inside \<longleftrightarrow> ?t = u" for u using uni [of u] by auto
  moreover from this have "\<not> (\<forall>u. ((phase S)(?t := Inside)) u \<noteq> Inside)" by blast
  moreover have "{u. ((phase S)(?t := Inside)) u \<noteq> Outside} = {u. phase S u \<noteq> Outside}"
    by (rule holders_same) (simp_all add: ph)
  ultimately show ?thesis
    using ok c sem_ok_locks [of s 1 S] by (simp add: hold_event_def set_holder_def lock_at_def lock_ok_def)
qed

lemma unhold_event_ok:
  assumes ok: "lock_ok junk l s S" and ph: "phase S (running_thread S) = Inside"
  shows "\<exists>S'. unhold_event l S = Inr S' \<and> lock_ok junk l s S'"
proof -
  let ?t = "running_thread S"
  obtain c where c: "locks (kern (sm S)) l = Some c" "Sema c = s" using ok by (auto simp: lock_ok_def)
  have uni: "phase S u = Outside" if "u \<noteq> ?t" for u
    using lock_ok_unique [OF ok, of u ?t] ph that by auto
  have "((phase S)(?t := Leaving)) u \<noteq> Inside" for u using uni [of u] by auto
  moreover have "entered (S\<lparr>sm := m, phase := (phase S)(?t := Leaving)\<rparr>)" for m by (auto simp: entered_def)
  moreover have "{u. ((phase S)(?t := Leaving)) u \<noteq> Outside} = {u. phase S u \<noteq> Outside}"
    by (rule holders_same) (simp_all add: ph)
  ultimately show ?thesis
    using ok c sem_ok_locks [of s 1 S] by (simp add: unhold_event_def set_holder_def lock_at_def lock_ok_def)
qed

lemma release_event_ok:
  assumes ok: "lock_ok junk l s S" and ph: "phase S (running_thread S) = Leaving"
  shows "\<exists>S'. release_event s S = Inr S' \<and> lock_ok junk l s S'"
proof -
  let ?t = "running_thread S" and ?H = "{t. phase S t \<noteq> Outside}"
  have fin: "finite ?H" and cnt: "completedP S = completedV S + card ?H" and sem: "sem_ok s 1 S"
    using ok by (simp_all add: lock_ok_def)
  obtain c where c: "locks (kern (sm S)) l = Some c" "Sema c = s"
    "(\<forall>t. phase S t \<noteq> Inside) \<longrightarrow> threadHoldLock c = (if entered S then None else junk)"
    using ok by (auto simp: lock_ok_def)
  have "entered S" using ph by (auto simp: entered_def)
  moreover have uni: "phase S u \<noteq> Inside" for u using lock_ok_unique [OF ok, of u ?t] ph by auto
  ultimately have free: "threadHoldLock c = None" using c(3) by simp
  obtain S1 where V: "V_event s S = Inr S1" "sem_ok s 1 S1" using V_event_ok [OF sem] by blast
  have "card ?H = Suc (card (?H - {?t}))"
    using fin ph by (intro card.remove) auto
  moreover have "((phase S)(?t := Outside)) u \<noteq> Inside" for u using uni [of u] by simp
  moreover have "entered (S1\<lparr>phase := (phase S)(?t := Outside)\<rparr>)"
    using V_event_result [OF V(1)] by (simp add: entered_def)
  ultimately show ?thesis
    using V V_event_result [OF V(1)] c(1,2) cnt fin free
    by (simp add: release_event_def lock_ok_def holders_remove del: fun_upd_apply)
qed

context synch_state
begin

lemma other_event_lock_ok:
  assumes o: "other_event cpu S S'" and ok: "lock_ok junk l s S"
  shows "lock_ok junk l s S'"
proof -
  have sem: "sem_ok s 1 S'" by (rule other_event_ok [OF o]) (use ok in \<open>simp add: lock_ok_def\<close>)
  obtain m where m: "sched_step cpu (sm S) m" "S' = S\<lparr>sm := m\<rparr>" using o by (auto simp: other_event_def)
  have "locks (kern m) = locks (kern (sm S))" using sched_step_synch [OF m(1)] by (simp add: synch_part_def)
  moreover have "entered S' = entered S" using m(2) by (simp add: entered_def)
  ultimately show ?thesis using sem ok m(2) by (simp add: lock_ok_def)
qed

lemma lock_step_ok: "lock_step cpu l s S S' \<Longrightarrow> lock_ok junk l s S \<Longrightarrow> lock_ok junk l s S'"
proof (induction rule: lock_step.induct)
  case (acquires S S')
  then show ?case using acquire_event_ok [of junk l s S] by auto
next
  case (holds S S')
  then show ?case using hold_event_ok [of junk l s S] by auto
next
  case (unholds S S')
  then show ?case using unhold_event_ok [of junk l s S] by auto
next
  case (releases S S')
  then show ?case using release_event_ok [of junk l s S] by auto
next
  case (others S S')
  then show ?case using other_event_lock_ok by blast
qed

lemma lock_reachable_ok: "rtranclp (lock_step cpu l s) S S' \<Longrightarrow> lock_ok junk l s S \<Longrightarrow> lock_ok junk l s S'"
  by (induction rule: rtranclp_induct) (auto dest: lock_step_ok)

end

interpretation user_threads: synch_state "user_cpu c"
  by unfold_locales (auto simp: user_cpu_def SaveUserState_def RestoreUserState_def synch_part_def
      AddrSpace_SaveState_def AddrSpace_RestoreState_def kernel.truncate_def split: option.splits)

subsection \<open>Ticks with nothing pending\<close>

definition tick :: "('h, 'm) kernel_scheme \<Rightarrow> ('h, 'm) kernel_scheme" where
  "tick k = (advance_clock k)\<lparr>level := IntOn\<rparr>"

lemma fire_due_none: "pending k = [] \<Longrightarrow> level k = IntOff \<Longrightarrow> fire_due cpu k = Some (Inr k)"
  by (subst fire_due.simps) (simp add: CheckIfDue_def Let_def)

lemma OneTick_none:
  assumes "pending k = []" and "\<not> yieldOnReturn k" and "level k = IntOn"
  shows "OneTick cpu k = Some (Inr (tick k))"
proof -
  have "pending (advance_clock k) = []" "\<not> yieldOnReturn (advance_clock k)"
    using assms by (simp_all add: advance_clock_def Let_def)
  then show ?thesis
    by (subst OneTick.simps) (simp add: Let_def ChangeLevel_def fire_due_none tick_def)
qed

lemma SetLevel_IntOff: "SetLevel cpu IntOff k = Some (Inr (level k, k\<lparr>level := IntOff\<rparr>))"
  by (simp add: SetLevel_def SetLevel_with_def Let_def ChangeLevel_def)

lemma SetLevel_on_none:
  assumes "pending k = []" and "\<not> yieldOnReturn k" and "level k = IntOff" and "\<not> inHandler k"
  shows "SetLevel cpu IntOn k = Some (Inr (IntOff, tick k))"
proof -
  have "tick (k\<lparr>level := IntOn\<rparr>) = tick k" by (simp add: tick_def advance_clock_def Let_def)
  then show ?thesis using assms OneTick_none [of "k\<lparr>level := IntOn\<rparr>" cpu]
    by (simp add: SetLevel_def SetLevel_with_def Let_def ChangeLevel_def)
qed

lemma tick_simps [simp]:
  "level (tick k) = IntOn" "pending (tick k) = pending k" "inHandler (tick k) = inHandler k"
  "yieldOnReturn (tick k) = yieldOnReturn k" "status (tick k) = status k"
  "readyList (tick k) = readyList k" "threads (tick k) = threads k" "currentThread (tick k) = currentThread k"
  "threadToBeDestroyed (tick k) = threadToBeDestroyed k"
  by (simp_all add: tick_def advance_clock_def Let_def)

lemma tick_synch_simps [simp]:
  fixes k :: "('h, 'm) skernel_scheme"
  shows "semaphores (tick k) = semaphores k" "locks (tick k) = locks k" "conditions (tick k) = conditions k"
    "mach (tick k) = mach k" "tables (tick k) = tables k"
  by (simp_all add: tick_def advance_clock_def Let_def)

lemma tick_now: "now k < now (tick k)"
  by (simp add: tick_def advance_clock_def Let_def SystemTick_def UserTick_def)

text \<open>A semaphore that is free, and one that nobody waits for.\<close>

lemma P_free:
  assumes "semaphores k s = Some c" and "sem_value c \<noteq> 0"
    and "pending k = []" "\<not> yieldOnReturn k" "level k = IntOn" "\<not> inHandler k"
  shows "Semaphore_P cpu s k =
    Some (Inr (tick (put_sem s (c\<lparr>sem_value := sem_value c - 1\<rparr>) (k\<lparr>level := IntOff\<rparr>))))"
proof -
  let ?k = "k\<lparr>level := IntOff\<rparr>"
  have "P_loop cpu s ?k = Some (Inr ?k)" using assms by (subst P_loop.simps) simp
  moreover have "SetLevel cpu IntOn (put_sem s (c\<lparr>sem_value := sem_value c - 1\<rparr>) ?k) =
      Some (Inr (IntOff, tick (put_sem s (c\<lparr>sem_value := sem_value c - 1\<rparr>) ?k)))"
    by (rule SetLevel_on_none) (use assms in \<open>simp_all add: put_sem_def\<close>)
  ultimately show ?thesis using assms
    by (simp add: Semaphore_P_def SetLevel_IntOff P_take_def)
qed

lemma V_free:
  assumes "semaphores k s = Some c" and "squeue c = []"
    and "pending k = []" "\<not> yieldOnReturn k" "level k = IntOn" "\<not> inHandler k"
  shows "Semaphore_V cpu s k =
    Some (Inr (tick (put_sem s (c\<lparr>sem_value := sem_value c + 1\<rparr>) (k\<lparr>level := IntOff\<rparr>))))"
proof -
  let ?k = "k\<lparr>level := IntOff\<rparr>"
  have "SetLevel cpu IntOn (put_sem s (c\<lparr>sem_value := sem_value c + 1\<rparr>) ?k) =
      Some (Inr (IntOff, tick (put_sem s (c\<lparr>sem_value := sem_value c + 1\<rparr>) ?k)))"
    by (rule SetLevel_on_none) (use assms in \<open>simp_all add: put_sem_def\<close>)
  then show ?thesis using assms
    by (simp add: Semaphore_V_def SetLevel_IntOff V_give_def)
qed

subsection \<open>What a condition variable does wrong\<close>

text \<open>
  \<open>blockNum\<close> is raised only behind the \<open>P\<close> of \<open>Wait\<close>, so it never counts the waiting threads, and
  \<open>Signal\<close> lowers it whether somebody waits or not. As long as nothing else runs: a signal that nobody waits for is kept by the semaphore, for a later \<open>Wait\<close> to find, and
  leaves \<open>blockNum\<close> below zero, from where \<open>Broadcast\<close> counts down for ever.
\<close>

definition quiet :: "('h, 'm) kernel_scheme \<Rightarrow> bool" where
  "quiet k \<longleftrightarrow> level k = IntOff \<or> pending k = [] \<and> \<not> yieldOnReturn k \<and> \<not> inHandler k"

lemma Semaphore_V_alone:
  assumes "quiet k" and "semaphores k s = Some c" and "squeue c = []"
  shows "\<exists>k'. Semaphore_V cpu s k = Some (Inr k') \<and> quiet k' \<and>
    semaphores k' = (semaphores k)(s \<mapsto> c\<lparr>sem_value := sem_value c + 1\<rparr>) \<and> conditions k' = conditions k"
proof (cases "level k = IntOff")
  case True
  with assms(2,3) show ?thesis by (simp add: Semaphore_V_def SetLevel_IntOff V_give_def put_sem_def quiet_def)
next
  case False
  then have on: "level k = IntOn" by (cases "level k") simp_all
  with assms(1) have q: "pending k = []" "\<not> yieldOnReturn k" "\<not> inHandler k" by (simp_all add: quiet_def)
  show ?thesis using V_free [OF assms(2,3) q(1,2) on q(3), of cpu] q
    by (simp add: quiet_def put_sem_def)
qed

lemma Condition_Signal_alone:
  assumes "quiet k" and "conditions k l = Some d" and "cSema d = s"
    and "semaphores k s = Some c" and "squeue c = []"
  shows "\<exists>k'. Condition_Signal cpu l k = Some (Inr k') \<and> quiet k' \<and>
    semaphores k' s = Some (c\<lparr>sem_value := sem_value c + 1\<rparr>) \<and>
    conditions k' l = Some (d\<lparr>blockNum := blockNum d - 1\<rparr>)"
proof -
  obtain k1 where "Semaphore_V cpu s k = Some (Inr k1)" "quiet k1"
    "semaphores k1 = (semaphores k)(s \<mapsto> c\<lparr>sem_value := sem_value c + 1\<rparr>)" "conditions k1 = conditions k"
    using Semaphore_V_alone [OF assms(1,4,5), of cpu] by blast
  with assms show ?thesis by (simp add: Condition_Signal_def cond_at_def add_blocked_def quiet_def)
qed

definition negative_alone :: "nat \<Rightarrow> ('h, 'm) skernel_scheme \<Rightarrow> bool" where
  "negative_alone l k \<longleftrightarrow> quiet k \<and>
     (\<exists>d c. conditions k l = Some d \<and> blockNum d < 0 \<and>
        semaphores k (cSema d) = Some c \<and> squeue c = [])"

lemma Condition_Broadcast_returns:
  assumes "Condition_Broadcast cpu l k = Some r"
  shows "\<not> negative_alone l k"
  using assms
proof (rule Condition_Broadcast.raw_induct [rotated])
  fix rec :: "('h, ('h, 'm) skernel_scheme) cpu \<Rightarrow> nat \<Rightarrow> ('h, 'm) skernel_scheme \<Rightarrow>
      ('h, 'm) skernel_scheme result option"
    and cpu :: "('h, ('h, 'm) skernel_scheme) cpu" and l k r
  assume IH: "\<And>cpu l k r. rec cpu l k = Some r \<Longrightarrow> \<not> negative_alone l k"
    and run: "orbind (Some (cond_at l k)) (\<lambda>c.
      if blockNum c \<noteq> 0 then
        orbind (Semaphore_V cpu (cSema c) k) (\<lambda>k. orbind (Some (add_blocked l (- 1) k)) (rec cpu l))
      else Some (Inr k)) = Some r"
  show "\<not> negative_alone l k"
  proof
    assume n: "negative_alone l k"
    then obtain d c where d: "quiet k" "conditions k l = Some d" "blockNum d < 0"
      "semaphores k (cSema d) = Some c" "squeue c = []"
      by (auto simp: negative_alone_def)
    obtain k1 where k1: "Semaphore_V cpu (cSema d) k = Some (Inr k1)" "quiet k1"
      "semaphores k1 = (semaphores k)(cSema d \<mapsto> c\<lparr>sem_value := sem_value c + 1\<rparr>)"
      "conditions k1 = conditions k"
      using Semaphore_V_alone [OF d(1,4,5), of cpu] by blast
    define k2 where "k2 = k1\<lparr>conditions := (conditions k1)(l \<mapsto> d\<lparr>blockNum := blockNum d - 1\<rparr>)\<rparr>"
    have "add_blocked l (- 1) k1 = Inr k2" using d k1 by (simp add: add_blocked_def cond_at_def k2_def)
    then have "rec cpu l k2 = Some r" using run d k1(1) by (simp add: cond_at_def)
    then have "\<not> negative_alone l k2" by (rule IH)
    moreover have "negative_alone l k2" using d k1 by (simp add: negative_alone_def k2_def quiet_def)
    ultimately show False by blast
  qed
qed

subsection \<open>Properties\<close>

text \<open>The kernel of \<open>Initialize\<close> with a semaphore of value 0, a lock and a condition, for the witnesses.\<close>

definition synch_kernel :: "(unit, unit) skernel_scheme" where
  "synch_kernel = Condition_new 0 2 (Lock_new 0 1 None
     (put_sem 0 (Semaphore_new 0)
       (pkernel.extend
         (ukernel.extend
           (kernel.extend Initialize (ukernel.fields (Machine_new False 0 0) Map.empty (\<lambda>_ _. 0)))
           (pkernel.fields Map.empty))
         (skernel.fields Map.empty Map.empty Map.empty))))"

lemma synch_kernel_simps [simp]:
  "threads synch_kernel = [0 \<mapsto> (Thread_new ''main'')\<lparr>tstatus := RUNNING\<rparr>]" "readyList synch_kernel = []"
  "currentThread synch_kernel = 0" "threadToBeDestroyed synch_kernel = None" "level synch_kernel = IntOff"
  "semaphores synch_kernel = [0 \<mapsto> Semaphore_new 0, 1 \<mapsto> Semaphore_new 1, 2 \<mapsto> Semaphore_new 0]"
  "locks synch_kernel = [0 \<mapsto> \<lparr>Sema = 1, threadHoldLock = None\<rparr>]"
  "conditions synch_kernel = [0 \<mapsto> \<lparr>cSema = 2, blockNum = 0\<rparr>]"
  by (simp_all add: synch_kernel_def Condition_new_def Lock_new_def put_sem_def pkernel.defs ukernel.defs
      kernel.defs skernel.defs Initialize_def fun_upd_twist)

definition synch_threads :: "(unit, unit) sthreads" where
  "synch_threads = \<lparr>kern = synch_kernel, fresh = {}, finished = {}\<rparr>"

lemma synch_threads_ok: "sched_ok synch_threads" "running synch_threads"
  by (auto simp: sched_ok_def sched_inv_def running_def synch_threads_def status_of_def stack_ok_def
      Thread_new_def)

text \<open>
  C6: A semaphore, from its creation on, through every interleaving of threads that call \<open>P\<close> and
  \<open>V\<close>, of handlers that call \<open>V\<close>, and of everything else the scheduler does: its value is never
  negative and equals the initial value plus the completed \<open>V\<close>s less the completed \<open>P\<close>s; its queue
  holds exactly the threads inside \<open>P\<close> that are asleep, each once; no wake-up is lost: while
  threads are queued, at least as many are awake inside \<open>P\<close> as the value has units, so the value is
  0 once those have run. Neither \<open>P\<close> nor \<open>V\<close> can fail.
\<close>

theorem Semaphore_safe:
  assumes "synch_state cpu" and "sched_ok (sm S0)" and "0 \<le> init"
    and "semaphores (kern (sm S0)) s = Some (Semaphore_new init)"
    and "inP S0 = {}" and "completedP S0 = 0" and "completedV S0 = 0"
    and "rtranclp (sem_step cpu s) S0 S"
  shows "\<exists>c. semaphores (kern (sm S)) s = Some c \<and> 0 \<le> sem_value c \<and>
    sem_value c = init + int (completedV S) - int (completedP S) \<and>
    distinct (squeue c) \<and> set (squeue c) = {t \<in> inP S. blocked (sm S) t} \<and>
    (squeue c \<noteq> [] \<longrightarrow> sem_value c \<le> int (card {t \<in> inP S. \<not> blocked (sm S) t})) \<and>
    (running (sm S) \<longrightarrow> (\<exists>got S'. P_event s S = Inr (got, S'))) \<and> (\<exists>S'. V_event s S = Inr S')"
proof -
  have "sem_ok s init S0"
    using assms(2-7) by (simp add: sem_ok_def sem_inv_def Semaphore_new_def)
  then have ok: "sem_ok s init S" by (rule synch_state.sem_reachable_ok [OF assms(1,8)])
  then obtain c where c: "semaphores (kern (sm S)) s = Some c"
    "sem_value c + int (completedP S) = init + int (completedV S)"
    and inv: "sem_inv (threads (kern (sm S))) (finished (sm S)) c (inP S)"
    by (auto simp: sem_ok_def)
  note D = sem_invD [OF inv]
  have "set (squeue c) = {t \<in> inP S. blocked (sm S) t}"
    using D(3,7) unfolding blocked_def by blast
  moreover from this have "{t \<in> inP S. \<not> blocked (sm S) t} = inP S - set (squeue c)" by blast
  ultimately show ?thesis
    using c D(1,2,8) P_event_ok [OF ok] V_event_ok [OF ok] by (intro exI [of _ c]) (simp, blast)
qed

theorem Semaphore_safe_witness:
  "\<exists>S. V_event 0 \<lparr>sm = synch_threads, inP = {}, completedP = 0, completedV = 0\<rparr> = Inr S \<and>
    (\<exists>c. semaphores (kern (sm S)) 0 = Some c \<and> sem_value c = 1)"
proof -
  let ?S0 = "\<lparr>sm = synch_threads, inP = {}, completedP = 0, completedV = 0\<rparr>"
  define S where "S = ?S0\<lparr>sm := synch_threads\<lparr>kern := put_sem 0 (Semaphore_new 1) synch_kernel\<rparr>, completedV := 1\<rparr>"
  have V: "V_event 0 ?S0 = Inr S"
    by (simp add: V_event_def V_try_def V_give_def synch_threads_def Semaphore_new_def S_def)
  then have step: "rtranclp (sem_step (user_cpu base_cpu) 0) ?S0 S"
    by (intro r_into_rtranclp sem_step.gives)
  have "completedV S = 1" "completedP S = 0" by (simp_all add: S_def)
  with Semaphore_safe [OF user_threads.synch_state_axioms _ _ _ _ _ _ step, of 0] V synch_threads_ok
  show ?thesis by (auto simp: synch_threads_def)
qed

text \<open>
  C7: A new lock of \<open>synch.cc\<close> excludes: whatever threads do, as long as a thread calls
  \<open>Release\<close> only while it holds the lock (\<open>unholds\<close>), at most one thread is between its \<open>Acquire\<close>
  and its \<open>Release\<close>, and a free lock is acquired without waiting. \<open>isHeldByCurrentThread\<close> is true
  for exactly the thread inside from the first completed \<open>Acquire\<close> on; before it the answer is
  that of \<open>threadHoldLock\<close> as the constructor leaves it, uninitialised: any value \<open>junk\<close>.
\<close>

theorem Lock_excludes:
  assumes "synch_state cpu" and "sched_ok (sm S0)"
    and "locks (kern (sm S0)) l = Some \<lparr>Sema = s, threadHoldLock = junk\<rparr>"
    and "semaphores (kern (sm S0)) s = Some (Semaphore_new 1)"
    and "inP S0 = {}" and "completedP S0 = 0" and "completedV S0 = 0" and "phase S0 = (\<lambda>_. Outside)"
    and "rtranclp (lock_step cpu l s) S0 S"
  shows "(\<forall>t u. phase S t \<noteq> Outside \<and> phase S u \<noteq> Outside \<longrightarrow> t = u) \<and>
    isHeldByCurrentThread l (kern (sm S)) =
      Inr (if entered S then phase S (running_thread S) = Inside else junk = Some (running_thread S)) \<and>
    (running (sm S) \<and> (\<forall>t. phase S t = Outside) \<longrightarrow>
      (\<exists>S'. acquire_event s S = Inr S' \<and> phase S' (running_thread S) = Acquired))"
proof -
  have "lock_ok junk l s S0"
    using assms(2-8) by (simp add: lock_ok_def entered_def sem_ok_def sem_inv_def Semaphore_new_def)
  then have ok: "lock_ok junk l s S" by (rule synch_state.lock_reachable_ok [OF assms(1,9)])
  obtain c where c: "locks (kern (sm S)) l = Some c" "\<And>t. phase S t = Inside \<Longrightarrow> threadHoldLock c = Some t"
    "(\<forall>t. phase S t \<noteq> Inside) \<Longrightarrow> threadHoldLock c = (if entered S then None else junk)"
    using ok by (auto simp: lock_ok_def)
  have "threadHoldLock c = Some (running_thread S) \<longleftrightarrow>
      (if entered S then phase S (running_thread S) = Inside else junk = Some (running_thread S))"
  proof (cases "\<exists>t. phase S t = Inside")
    case True
    then obtain t where t: "phase S t = Inside" by blast
    then have "entered S" by (auto simp: entered_def)
    moreover have "phase S u = Inside \<longleftrightarrow> u = t" for u using lock_ok_unique [OF ok, of u t] t by auto
    ultimately show ?thesis using c(2) [OF t] by auto
  next
    case False
    then show ?thesis using c(3) by auto
  qed
  then have "isHeldByCurrentThread l (kern (sm S)) =
      Inr (if entered S then phase S (running_thread S) = Inside else junk = Some (running_thread S))"
    using c(1) by (simp add: isHeldByCurrentThread_def lock_at_def)
  moreover have "\<exists>S'. acquire_event s S = Inr S' \<and> phase S' (running_thread S) = Acquired"
    if "\<forall>t. phase S t = Outside"
  proof -
    have "{t. phase S t \<noteq> Outside} = {}" using that by simp
    then obtain c where "semaphores (kern (sm S)) s = Some c" "sem_value c = 1"
      using lock_ok_one [OF ok] by auto
    then show ?thesis by (simp add: acquire_event_def P_event_def P_try_def P_take_def)
  qed
  ultimately show ?thesis using lock_ok_unique [OF ok] by blast
qed

text \<open>The witness is a lock whose uninitialised pointer happens to be the current thread.\<close>

theorem Lock_excludes_witness:
  "\<exists>S. acquire_event 1 \<lparr>sm = synch_threads\<lparr>kern := Lock_new 0 1 (Some 0) synch_kernel\<rparr>, inP = {},
      completedP = 0, completedV = 0, phase = (\<lambda>_. Outside)\<rparr> = Inr S \<and>
    (\<forall>t u. phase S t \<noteq> Outside \<and> phase S u \<noteq> Outside \<longrightarrow> t = u) \<and>
    phase S 0 = Acquired \<and> isHeldByCurrentThread 0 (kern (sm S)) = Inr True"
proof -
  let ?k = "Lock_new 0 1 (Some 0) synch_kernel"
  let ?S0 = "\<lparr>sm = synch_threads\<lparr>kern := ?k\<rparr>, inP = {}, completedP = 0, completedV = 0, phase = (\<lambda>_. Outside)\<rparr>"
  define S where "S = ?S0\<lparr>sm := synch_threads\<lparr>kern := put_sem 1 (Semaphore_new 0) ?k\<rparr>,
    completedP := 1, phase := (\<lambda>_. Outside)(0 := Acquired)\<rparr>"
  have A: "acquire_event 1 ?S0 = Inr S"
    by (simp add: acquire_event_def P_event_def P_try_def P_take_def Semaphore_new_def S_def Lock_new_def put_sem_def)
  have r: "running (sm ?S0)"
    using synch_threads_ok(2) by (simp add: running_def Lock_new_def put_sem_def synch_threads_def)
  have step: "rtranclp (lock_step (user_cpu base_cpu) 0 1) ?S0 S"
    by (rule r_into_rtranclp, rule lock_step.acquires [OF _ _ A]) (simp_all add: r [simplified])
  have init: "sched_ok (sm ?S0)" "locks (kern (sm ?S0)) 0 = Some \<lparr>Sema = 1, threadHoldLock = Some 0\<rparr>"
    "semaphores (kern (sm ?S0)) 1 = Some (Semaphore_new 1)" "inP ?S0 = {}" "completedP ?S0 = 0"
    "completedV ?S0 = 0" "phase ?S0 = (\<lambda>_. Outside)"
    using synch_threads_ok(1) by (simp_all add: sched_ok_def Lock_new_def put_sem_def synch_threads_def)
  have "running_thread S = 0" "phase S 0 = Acquired" "\<not> entered S"
    by (simp_all add: S_def entered_def Lock_new_def put_sem_def)
  with Lock_excludes [OF user_threads.synch_state_axioms init step] A
  show ?thesis by (intro exI [of _ S]) simp
qed

text \<open>
  With nothing pending that could run in between, \<open>Signal\<close> on a condition that nobody waits
  for is not lost but raises the semaphore of the condition, and the \<open>Broadcast\<close> that follows never
  returns: it counts \<open>blockNum\<close> down from below zero.
\<close>

theorem Signal_breaks_Broadcast:
  assumes "quiet k" and "conditions k l = Some \<lparr>cSema = s, blockNum = 0\<rparr>"
    and "semaphores k s = Some c" and "squeue c = []"
  shows "\<exists>k'. Condition_Signal cpu l k = Some (Inr k') \<and>
    semaphores k' s = Some (c\<lparr>sem_value := sem_value c + 1\<rparr>) \<and> Condition_Broadcast cpu l k' = None"
proof -
  obtain k' where k': "Condition_Signal cpu l k = Some (Inr k')" "quiet k'"
    "semaphores k' s = Some (c\<lparr>sem_value := sem_value c + 1\<rparr>)"
    "conditions k' l = Some \<lparr>cSema = s, blockNum = - 1\<rparr>"
    using Condition_Signal_alone [OF assms(1,2) _ assms(3,4), of cpu] by auto
  have "Condition_Broadcast cpu l k' = None"
    using Condition_Broadcast_returns [of cpu l k'] k' assms(4)
    by (cases "Condition_Broadcast cpu l k'") (auto simp: negative_alone_def)
  with k' show ?thesis by blast
qed

theorem Signal_breaks_Broadcast_witness:
  "\<exists>k'. Condition_Signal (user_cpu base_cpu) 0 synch_kernel = Some (Inr k') \<and>
    Condition_Broadcast (user_cpu base_cpu) 0 k' = None"
proof -
  have "quiet synch_kernel" by (simp add: quiet_def)
  from Signal_breaks_Broadcast [OF this, of 0 2 "Semaphore_new 0" "user_cpu base_cpu"] show ?thesis
    by (auto simp: Semaphore_new_def)
qed

end
