(* ===== verification/Device_Threads.thy ===== *)
theory Device_Threads
  imports Synchronization
begin

section \<open>Threads that wait for a device\<close>

text \<open>
  A thread that requests something of a device sleeps on a semaphore until the interrupt handler of
  the device raises it: \<open>Sleep\<close> calls \<open>Idle\<close> until some handler has made a thread ready, and
  dispatches it. The lemmas here are shared by the disk, the console and the network. The locale
  \<open>device_state\<close> says what the hooks of a context switch leave alone in a kernel with devices.
\<close>

subsection \<open>One thread\<close>

text \<open>No thread but the running one exists for the scheduler.\<close>

definition only_thread :: "('h, 'm) kernel_scheme \<Rightarrow> bool" where
  "only_thread k \<longleftrightarrow> readyList k = [] \<and> threadToBeDestroyed k = None \<and>
     (\<exists>c. threads k (currentThread k) = Some c \<and> stack_ok (Some c))"

lemma only_thread_simps [simp]:
  "only_thread (tick k) = only_thread k" "only_thread (k\<lparr>level := l\<rparr>) = only_thread k"
  by (simp_all add: only_thread_def)

lemma only_thread_put_sem [simp]: "only_thread (put_sem s c k) = only_thread k"
  by (simp add: only_thread_def)

lemma wait_for_ready_unfold:
  "readyList k = [] \<Longrightarrow> wait_for_ready cpu k = orbind (Idle cpu k) (wait_for_ready cpu)"
  "readyList k = t # ts \<Longrightarrow> wait_for_ready cpu k = Some (Inr (t, k\<lparr>readyList := ts\<rparr>))"
  by (subst wait_for_ready.simps, simp add: FindNextToRun_def)+

text \<open>
  The loop ends when \<open>Idle\<close> keeps an invariant and either makes a thread ready or decreases a
  measure.
\<close>

lemma wait_for_ready_variant:
  fixes m :: "('h, 'm) kernel_scheme \<Rightarrow> nat"
  assumes inv: "I k"
    and step: "\<And>k. I k \<Longrightarrow> readyList k = [] \<Longrightarrow>
      \<exists>k'. Idle cpu k = Some (Inr k') \<and> I k' \<and> (readyList k' \<noteq> [] \<or> m k' < m k)"
  shows "\<exists>k' t ts. I k' \<and> readyList k' = t # ts \<and> wait_for_ready cpu k = Some (Inr (t, k'\<lparr>readyList := ts\<rparr>))"
  using inv
proof (induction "m k" arbitrary: k rule: less_induct)
  case less
  show ?case
  proof (cases "readyList k")
    case Nil
    then obtain k1 where k1: "Idle cpu k = Some (Inr k1)" "I k1" "readyList k1 \<noteq> [] \<or> m k1 < m k"
      using step [OF less.prems] by blast
    have w: "wait_for_ready cpu k = wait_for_ready cpu k1" using Nil k1(1) by (simp add: wait_for_ready_unfold)
    show ?thesis
    proof (cases "readyList k1")
      case Nil
      with k1(3) have "m k1 < m k" by simp
      from less.hyps [OF this k1(2)] w show ?thesis by simp
    next
      case (Cons t ts)
      with k1(2) w show ?thesis by (auto simp: wait_for_ready_unfold)
    qed
  next
    case (Cons t ts)
    with less.prems show ?thesis by (auto simp: wait_for_ready_unfold)
  qed
qed

text \<open>
  Interrupt handlers run with interrupts off (\<open>CheckIfDue\<close> asserts it), where the two calls of
  \<open>SetLevel\<close> in \<open>V\<close> change nothing: calling \<open>V\<close> is its body.
\<close>

lemma V_interrupts_off:
  assumes "level k = IntOff"
  shows "Semaphore_V cpu s k = Some (V_give s k)"
proof -
  have k: "k\<lparr>level := IntOff\<rparr> = k" using assms by (cases k) simp
  have "level k' = IntOff \<and> k'\<lparr>level := IntOff\<rparr> = k'" if "V_give s k = Inr k'" for k'
  proof -
    have "level k' = IntOff" using that assms
      by (auto simp: V_give_def ReadyToRun_def setStatus_def put_thread_def put_sem_def split: list.splits)
    then show ?thesis by (cases k') simp
  qed
  then show ?thesis
    by (cases "V_give s k") (simp_all add: Semaphore_V_def SetLevel_IntOff assms k)
qed

lemma V_give_empty:
  "semaphores k s = Some c \<Longrightarrow> squeue c = [] \<Longrightarrow>
    V_give s k = Inr (put_sem s (c\<lparr>sem_value := sem_value c + 1\<rparr>) k)"
  by (simp add: V_give_def)

lemma V_give_one:
  "semaphores k s = Some c \<Longrightarrow> squeue c = [t] \<Longrightarrow> threads k t = Some th \<Longrightarrow>
    V_give s k = Inr (put_sem s (c\<lparr>squeue := [], sem_value := sem_value c + 1\<rparr>)
      ((put_thread t (th\<lparr>tstatus := READY\<rparr>) k)\<lparr>readyList := readyList k @ [t]\<rparr>))"
  by (simp add: V_give_def ReadyToRun_def put_sem_def put_thread_def)

subsection \<open>Hooks and devices\<close>

locale device_state = synch_state cpu
  for cpu :: "('h, ('h, 'm) skernel_scheme) cpu" +
  fixes dev :: "('h, 'm) skernel_scheme \<Rightarrow> 'd"
  assumes save_dev: "dev (save_user cpu t k) = dev k"
    and restore_dev: "dev (restore_user cpu t k) = dev k"
    and flush_dev: "dev (flush_load cpu k) = dev k"
    and flush_law: "kernel.truncate (flush_load cpu k) = kernel.truncate k"
    and flush_synch: "synch_part (flush_load cpu k) = synch_part k"
    and dev_threads: "dev (k\<lparr>threads := T\<rparr>) = dev k"
    and dev_current: "dev (k\<lparr>currentThread := t\<rparr>) = dev k"
begin

text \<open>The thread that went to sleep is the one that is dispatched.\<close>

lemma Run_self:
  assumes "threads k (currentThread k) = Some th" and "stack_ok (Some th)" and "threadToBeDestroyed k = None"
  shows "\<exists>k'. Run cpu (currentThread k) k = Some (Inr k') \<and>
    kernel.truncate k' = kernel.truncate (put_thread (currentThread k) (th\<lparr>tstatus := RUNNING\<rparr>) k) \<and>
    synch_part k' = synch_part k \<and> dev k' = dev k"
proof -
  let ?t = "currentThread k"
  define k1 where "k1 = (if space th \<noteq> None then save_user cpu ?t k else k)"
  have k1: "kernel.truncate k1 = kernel.truncate k" "synch_part k1 = synch_part k" "dev k1 = dev k"
    by (simp_all add: k1_def save_law save_synch save_dev)
  note f1 = truncate_eqD [OF k1(1)]
  define k2 where "k2 = put_thread ?t (th\<lparr>tstatus := RUNNING\<rparr>) (k1\<lparr>currentThread := ?t\<rparr>)"
  have "CheckOverflow ?t k1 = Inr ()"
    using assms f1 by (auto simp: CheckOverflow_def stack_ok_def)
  moreover have "Run_before cpu ?t k = rbind (CheckOverflow ?t k1)
      (\<lambda>_. setStatus ?t RUNNING (k1\<lparr>currentThread := ?t\<rparr>))"
    using assms(1) by (simp add: Run_before_def Let_def k1_def)
  ultimately have before: "Run_before cpu ?t k = Inr k2"
    using assms(1) f1 by (simp add: k2_def)
  define k3 where "k3 = (if space th \<noteq> None then restore_user cpu ?t k2 else k2)"
  have "Run_after cpu k2 = Inr k3"
    using assms f1 by (simp add: Run_after_def k2_def k3_def)
  with before have run: "Run cpu ?t k = Some (Inr k3)" by (simp add: Run_def)
  have k2: "kernel.truncate k2 = kernel.truncate (put_thread ?t (th\<lparr>tstatus := RUNNING\<rparr>) k)"
    "synch_part k2 = synch_part k" "dev k2 = dev k"
    using f1 k1 by (simp_all add: k2_def put_thread_def kernel.truncate_def dev_threads dev_current synch_part_def)
  then show ?thesis using run
    by (intro exI [of _ k3]) (simp add: k3_def restore_law restore_synch restore_dev)
qed

end

text \<open>
  The hooks for user programs leave everything that extends the synchronisation objects alone, and
  the machine's memory.
\<close>

interpretation user_devices: device_state "user_cpu c" "\<lambda>k. (skernel.more k, machine_part k)"
  by unfold_locales (auto simp: user_cpu_def DelayedLoad_def set_reg_def Let_def synch_part_def
      machine_part_def kernel.truncate_def SaveUserState_def RestoreUserState_def AddrSpace_SaveState_def
      AddrSpace_RestoreState_def split: option.splits sum.splits)

lemma user_flush [simp]:
  "threads (flush_load (user_cpu c) k) = threads k" "readyList (flush_load (user_cpu c) k) = readyList k"
  "currentThread (flush_load (user_cpu c) k) = currentThread k" "level (flush_load (user_cpu c) k) = level k"
  "threadToBeDestroyed (flush_load (user_cpu c) k) = threadToBeDestroyed k"
  "pending (flush_load (user_cpu c) k) = pending k" "stats (flush_load (user_cpu c) k) = stats k"
  "yieldOnReturn (flush_load (user_cpu c) k) = yieldOnReturn k"
  "semaphores (flush_load (user_cpu c) k) = semaphores k" "locks (flush_load (user_cpu c) k) = locks k"
  "skernel.more (flush_load (user_cpu c) k) = skernel.more k"
  using truncate_eqD [OF user_devices.flush_law [of c k]] user_devices.flush_synch [of c k]
    user_devices.flush_dev [of c k] by (simp_all add: synch_part_def)

end
