(* ===== verification/Disk.thy ===== *)
theory Disk
  imports Device_Threads
begin

section \<open>The simulated disk, machine/disk.cc\<close>

text \<open>
  The disk transfers a sector at once to or from the UNIX file that stands for it and schedules an
  interrupt for when the transfer would be over: after the seek, the rotation and the sector
  itself, or sooner if the track buffer has the sector. The file is its bytes, behind a magic
  number. The kernel has one disk, so the pointers to it that the interrupts carry are not kept.
\<close>

subsection \<open>The data\<close>

definition MagicNumber :: "32 word" where "MagicNumber = 0x456789ab"
definition MagicSize :: int where "MagicSize = 4"
definition DiskSize :: int where "DiskSize = MagicSize + NumSectors * SectorSize"

record 'h Disk =
  unix_file :: "byte list"
  callWhenDone :: 'h
  handlerArg :: int
  active :: bool
  lastSector :: int
  bufferInit :: int

record 'h dkernel = "'h skernel" +
  rawDisk :: "'h Disk"

text \<open>
  \<open>existing\<close> is the UNIX file, if there is one. \<open>Read\<close> stops the program when the file is too
  short; a new file has its magic number and an end, and zeros between.
\<close>

definition Disk_new :: "byte list option \<Rightarrow> 'h \<Rightarrow> int \<Rightarrow> 'h Disk result" where
  "Disk_new existing h a =
     (case existing of
        Some bytes \<Rightarrow>
          rbind (ASSERT (int (length bytes) \<ge> MagicSize)) (\<lambda>_.
          rbind (ASSERT (bytes_word bytes = MagicNumber)) (\<lambda>_.
          Inr \<lparr>unix_file = bytes, callWhenDone = h, handlerArg = a, active = False, lastSector = 0, bufferInit = 0\<rparr>))
      | None \<Rightarrow>
          Inr \<lparr>unix_file = word_bytes MagicNumber @ replicate (nat (DiskSize - MagicSize)) 0,
            callWhenDone = h, handlerArg = a, active = False, lastSector = 0, bufferInit = 0\<rparr>)"

definition seek_to :: "int \<Rightarrow> int" where
  "seek_to sectorNumber = SectorSize * sectorNumber + MagicSize"

subsection \<open>The time a request takes\<close>

text \<open>\<open>TimeToSeek\<close> returns the seek time and \<open>*rotation\<close>.\<close>

definition TimeToSeek :: "int \<Rightarrow> ('h, 'm) dkernel_scheme \<Rightarrow> int \<times> int" where
  "TimeToSeek newSector k =
     (let newTrack = newSector sdiv SectorsPerTrack;
          oldTrack = lastSector (rawDisk k) sdiv SectorsPerTrack;
          seek = \<bar>newTrack - oldTrack\<bar> * SeekTime;
          over = (now k + seek) smod RotationTime
      in (seek, if over > 0 then RotationTime - over else 0))"

definition ModuloDiff :: "int \<Rightarrow> int \<Rightarrow> int" where
  "ModuloDiff to from =
     (let toOffset = to smod SectorsPerTrack;
          fromOffset = from smod SectorsPerTrack
      in (toOffset - fromOffset + SectorsPerTrack) smod SectorsPerTrack)"

definition ComputeLatency :: "int \<Rightarrow> bool \<Rightarrow> ('h, 'm) dkernel_scheme \<Rightarrow> int" where
  "ComputeLatency newSector wr k =
     (let (seek, rotation) = TimeToSeek newSector k;
          timeAfter = now k + seek + rotation
      in if \<not> wr \<and> seek = 0 \<and>
            (timeAfter - bufferInit (rawDisk k)) sdiv RotationTime >
              ModuloDiff newSector (bufferInit (rawDisk k) sdiv RotationTime)
         then RotationTime
         else seek + (rotation + ModuloDiff newSector (timeAfter sdiv RotationTime) * RotationTime) + RotationTime)"

definition UpdateLast :: "int \<Rightarrow> ('h, 'm) dkernel_scheme \<Rightarrow> ('h, 'm) dkernel_scheme" where
  "UpdateLast newSector k =
     (let (seek, rotate) = TimeToSeek newSector k;
          d = rawDisk k;
          d = (if seek \<noteq> 0 then d\<lparr>bufferInit := now k + seek + rotate\<rparr> else d)
      in k\<lparr>rawDisk := d\<lparr>lastSector := newSector\<rparr>\<rparr>)"

subsection \<open>Requests\<close>

text \<open>
  \<open>ASSERT(!active)\<close> and the range check, in the order of the code; \<open>Read\<close> of the file stops the
  program when the sector is not there. \<open>DiskDone\<close> is the value that stands for the handler.
\<close>

definition ReadRequest ::
  "'h \<Rightarrow> int \<Rightarrow> ('h, 'm) dkernel_scheme \<Rightarrow> (byte list \<times> ('h, 'm) dkernel_scheme) result" where
  "ReadRequest DiskDone sectorNumber k =
     (let ticks = ComputeLatency sectorNumber False k in
      rbind (ASSERT (\<not> active (rawDisk k))) (\<lambda>_.
      rbind (ASSERT (sectorNumber \<ge> 0 \<and> sectorNumber < NumSectors)) (\<lambda>_.
      rbind (ASSERT (seek_to sectorNumber + SectorSize \<le> int (length (unix_file (rawDisk k))))) (\<lambda>_.
      rbind (subarray (unix_file (rawDisk k)) (seek_to sectorNumber) SectorSize) (\<lambda>data.
      let k = k\<lparr>rawDisk := (rawDisk k)\<lparr>active := True\<rparr>\<rparr>;
          k = UpdateLast sectorNumber k;
          k = k\<lparr>stats := (stats k)\<lparr>numDiskReads := numDiskReads (stats k) + 1\<rparr>\<rparr>
      in rbind (Schedule DiskDone 0 ticks DiskInt k) (\<lambda>k. Inr (data, k)))))))"

text \<open>\<open>write\<close> to the file behind its end extends it, with zeros in between.\<close>

definition write_file :: "byte list \<Rightarrow> int \<Rightarrow> byte list \<Rightarrow> byte list" where
  "write_file bs pos data =
     take (nat pos) (bs @ replicate (nat pos - length bs) 0) @ data @ drop (nat pos + length data) bs"

definition WriteRequest ::
  "'h \<Rightarrow> int \<Rightarrow> byte list \<Rightarrow> ('h, 'm) dkernel_scheme \<Rightarrow> ('h, 'm) dkernel_scheme result" where
  "WriteRequest DiskDone sectorNumber data k =
     (let ticks = ComputeLatency sectorNumber True k in
      rbind (ASSERT (\<not> active (rawDisk k))) (\<lambda>_.
      rbind (ASSERT (sectorNumber \<ge> 0 \<and> sectorNumber < NumSectors)) (\<lambda>_.
      rbind (subarray data 0 SectorSize) (\<lambda>bytes.
      let k = k\<lparr>rawDisk := (rawDisk k)\<lparr>unix_file := write_file (unix_file (rawDisk k)) (seek_to sectorNumber) bytes\<rparr>\<rparr>;
          k = k\<lparr>rawDisk := (rawDisk k)\<lparr>active := True\<rparr>\<rparr>;
          k = UpdateLast sectorNumber k;
          k = k\<lparr>stats := (stats k)\<lparr>numDiskWrites := numDiskWrites (stats k) + 1\<rparr>\<rparr>
      in Schedule DiskDone 0 ticks DiskInt k))))"

text \<open>\<open>call\<close> is \<open>(*handler)(handlerArg)\<close>.\<close>

definition HandleInterrupt ::
  "('h \<Rightarrow> int \<Rightarrow> ('h, 'm) dkernel_scheme \<Rightarrow> ('h, 'm) dkernel_scheme result) \<Rightarrow>
    ('h, 'm) dkernel_scheme \<Rightarrow> ('h, 'm) dkernel_scheme result" where
  "HandleInterrupt call k =
     (let k = k\<lparr>rawDisk := (rawDisk k)\<lparr>active := False\<rparr>\<rparr> in
      call (callWhenDone (rawDisk k)) (handlerArg (rawDisk k)) k)"

subsection \<open>Properties of the latency\<close>

lemmas disk_times = RotationTime_def SeekTime_def SectorsPerTrack_def

lemma ModuloDiff_nonneg:
  assumes "0 \<le> a" and "0 \<le> b"
  shows "ModuloDiff a b = (a - b) mod 32" and "0 \<le> ModuloDiff a b" and "ModuloDiff a b < 32"
proof -
  have "0 \<le> a mod 32 - b mod 32 + 32" using pos_mod_bound [of 32 b] pos_mod_sign [of 32 a] by linarith
  then have "ModuloDiff a b = (a mod 32 - b mod 32 + 32) mod 32"
    using assms by (simp add: ModuloDiff_def SectorsPerTrack_def Let_def)
  then show e: "ModuloDiff a b = (a - b) mod 32" by (simp add: mod_simps)
  show "0 \<le> ModuloDiff a b" "ModuloDiff a b < 32" unfolding e by simp_all
qed

text \<open>The seek and the rotation end on a sector boundary.\<close>

lemma TimeToSeek_spec:
  assumes t: "0 \<le> now k" and s: "sector_number s" and l: "sector_number (lastSector (rawDisk k))"
  shows "\<exists>seek rot. TimeToSeek s k = (seek, rot) \<and> 0 \<le> seek \<and> seek \<le> 31 * 500 \<and> 0 \<le> rot \<and> rot < 500 \<and>
    (now k + seek + rot) mod 500 = 0 \<and> (seek = 0 \<longleftrightarrow> s div 32 = lastSector (rawDisk k) div 32)"
proof -
  let ?l = "lastSector (rawDisk k)"
  define seek where "seek = \<bar>s div 32 - ?l div 32\<bar> * 500"
  define over where "over = (now k + seek) mod 500"
  have d: "0 \<le> s div 32" "s div 32 \<le> 31" "0 \<le> ?l div 32" "?l div 32 \<le> 31"
    using s l by (auto simp: sector_number_iff)
  have "\<bar>s div 32 - ?l div 32\<bar> \<le> 31" using d by linarith
  then have seek: "0 \<le> seek" "seek \<le> 31 * 500" unfolding seek_def by simp_all
  have o: "0 \<le> over" "over < 500" by (simp_all add: over_def)
  define rot where "rot = (if over > 0 then 500 - over else 0)"
  have "TimeToSeek s k = (seek, rot)"
    using s l t seek(1) by (simp add: TimeToSeek_def Let_def disk_times sector_number_iff seek_def over_def rot_def)
  moreover have "(now k + seek + rot) mod 500 = 0"
  proof (cases "over > 0")
    case True
    have "(now k + seek + rot) mod 500 = (over + rot) mod 500" by (simp add: over_def mod_simps)
    with True show ?thesis by (simp add: rot_def)
  qed (use o in \<open>simp add: rot_def over_def\<close>)
  moreover have "0 \<le> rot" "rot < 500" using o by (auto simp: rot_def)
  moreover have "seek = 0 \<longleftrightarrow> s div 32 = ?l div 32" by (simp add: seek_def)
  ultimately show ?thesis using seek by (intro exI [of _ seek] exI [of _ rot]) simp
qed

lemma ComputeLatency_write:
  assumes t: "0 \<le> now k" and s: "sector_number s" and l: "sector_number (lastSector (rawDisk k))"
  shows "500 \<le> ComputeLatency s True k \<and> ComputeLatency s True k < 64 * 500 \<and>
    (now k + ComputeLatency s True k) mod 500 = 0 \<and>
    ((now k + ComputeLatency s True k) div 500 - 1) mod 32 = s mod 32"
proof -
  obtain seek rot where st: "TimeToSeek s k = (seek, rot)" and b: "0 \<le> seek" "seek \<le> 31 * 500"
    "0 \<le> rot" "rot < 500" "(now k + seek + rot) mod 500 = 0"
    using TimeToSeek_spec [OF assms] by (elim exE conjE) (rule that)
  define after where "after = now k + seek + rot"
  define q where "q = after div 500"
  have aq: "after = q * 500" using b(5) unfolding q_def after_def by (simp add: dvd_div_mult_self mod_0_imp_dvd)
  have q: "0 \<le> q" unfolding q_def after_def using t b by simp
  have s0: "0 \<le> s" using s by (simp add: sector_number_iff)
  define m where "m = ModuloDiff s q"
  have m: "m = (s - q) mod 32" "0 \<le> m" "m < 32" using ModuloDiff_nonneg [OF s0 q] by (simp_all add: m_def)
  have c: "ComputeLatency s True k = seek + (rot + m * 500) + 500"
    using st q t b by (simp add: ComputeLatency_def disk_times after_def [symmetric] m_def q_def)
  have e: "now k + ComputeLatency s True k = (q + m + 1) * 500"
    using c aq by (simp add: after_def algebra_simps)
  have "(q + m) mod 32 = s mod 32" by (simp add: m(1) mod_simps)
  then have "((q + m + 1) * 500 div 500 - 1) mod 32 = s mod 32" by simp
  then show ?thesis unfolding e using c b m by simp
qed

lemma ComputeLatency_read:
  "ComputeLatency s False k = ComputeLatency s True k \<or> ComputeLatency s False k = RotationTime"
  by (auto simp: ComputeLatency_def Let_def case_prod_beta)

text \<open>
  The track buffer. The head passes one sector per \<open>RotationTime\<close>, sector \<open>j mod SectorsPerTrack\<close>
  from time \<open>j * RotationTime\<close> on. The buffer has a sector of the current track when its pass began
  between \<open>bufferInit\<close>, the end of the last seek, and now.
\<close>

definition track_buffer_ok :: "('h, 'm) dkernel_scheme \<Rightarrow> bool" where
  "track_buffer_ok k \<longleftrightarrow> 0 \<le> bufferInit (rawDisk k) \<and> bufferInit (rawDisk k) mod RotationTime = 0"

definition in_track_buffer :: "int \<Rightarrow> ('h, 'm) dkernel_scheme \<Rightarrow> bool" where
  "in_track_buffer s k \<longleftrightarrow> s div SectorsPerTrack = lastSector (rawDisk k) div SectorsPerTrack \<and>
     (\<exists>j. bufferInit (rawDisk k) \<le> j * RotationTime \<and> j * RotationTime < now k \<and>
       j mod SectorsPerTrack = s mod SectorsPerTrack)"

lemma slots_since:
  fixes i q s :: int
  shows "(s - i) mod 32 < q - i \<longleftrightarrow> (\<exists>j. i \<le> j \<and> j < q \<and> j mod 32 = s mod 32)"
proof
  assume "(s - i) mod 32 < q - i"
  moreover have "(i + (s - i) mod 32) mod 32 = s mod 32" by (simp add: mod_simps)
  ultimately show "\<exists>j. i \<le> j \<and> j < q \<and> j mod 32 = s mod 32"
    by (intro exI [of _ "i + (s - i) mod 32"]) simp
next
  assume "\<exists>j. i \<le> j \<and> j < q \<and> j mod 32 = s mod 32"
  then obtain j where j: "i \<le> j" "j < q" "j mod 32 = s mod 32" by blast
  have "(s - i) mod 32 = (j - i) mod 32" by (rule mod_diff_cong) (simp_all only: j(3))
  also have "\<dots> \<le> j - i" using j(1) by (simp add: zmod_le_nonneg_dividend)
  finally show "(s - i) mod 32 < q - i" using j(2) by simp
qed

lemma sdiv_multiple: "(x * 500) sdiv 500 = (x :: int)"
  by (simp add: signed_divide_int_def abs_mult sgn_mult sgn_mult_abs)

lemma ComputeLatency_buffered:
  assumes t: "0 \<le> now k" and s: "sector_number s" and l: "sector_number (lastSector (rawDisk k))"
    and b: "track_buffer_ok k"
  shows "ComputeLatency s False k = (if in_track_buffer s k then RotationTime else ComputeLatency s True k)"
proof -
  let ?b = "bufferInit (rawDisk k)"
  obtain seek rot where st: "TimeToSeek s k = (seek, rot)" "0 \<le> seek" "0 \<le> rot" "rot < 500"
    "(now k + seek + rot) mod 500 = 0" "seek = 0 \<longleftrightarrow> s div 32 = lastSector (rawDisk k) div 32"
    using TimeToSeek_spec [OF t s l] by (elim exE conjE) (rule that)
  have "(now k + seek + rot - ?b) sdiv 500 > ModuloDiff s (?b sdiv 500) \<longleftrightarrow>
      (\<exists>j. ?b \<le> j * 500 \<and> j * 500 < now k \<and> j mod 32 = s mod 32)" if z: "seek = 0"
  proof -
    obtain i where i: "?b = i * 500" "0 \<le> i"
      using b by (auto simp: track_buffer_ok_def RotationTime_def elim!: dvdE dest!: mod_0_imp_dvd)
    obtain q where q: "now k + rot = q * 500"
      using st(5) z by (auto simp: mult.commute elim!: dvdE dest!: mod_0_imp_dvd)
    have "now k + seek + rot - ?b = (q - i) * 500" using q i z by (simp add: algebra_simps)
    then have "(now k + seek + rot - ?b) sdiv 500 = q - i" by (simp only: sdiv_multiple)
    moreover have "ModuloDiff s (?b sdiv 500) = (s - i) mod 32"
      using ModuloDiff_nonneg(1) [of s i] s i by (simp add: sector_number_iff)
    moreover have "j * 500 < now k \<longleftrightarrow> j < q" "i * 500 \<le> j * 500 \<longleftrightarrow> i \<le> j" for j using q st(3,4) by linarith+
    ultimately show ?thesis using slots_since [of s i q] i(1) by simp
  qed
  then show ?thesis using st(1,6)
    by (auto simp: ComputeLatency_def in_track_buffer_def disk_times)
qed

lemma UpdateLast_track_buffer:
  assumes "0 \<le> now k" and "sector_number s" and "sector_number (lastSector (rawDisk k))" and "track_buffer_ok k"
  shows "track_buffer_ok (UpdateLast s k)"
proof -
  obtain seek rot where "TimeToSeek s k = (seek, rot)" "0 \<le> seek" "0 \<le> rot" "(now k + seek + rot) mod 500 = 0"
    using TimeToSeek_spec [OF assms(1-3)] by (elim exE conjE) (rule that)
  then show ?thesis using assms(1,4) by (simp add: UpdateLast_def track_buffer_ok_def RotationTime_def Let_def)
qed

lemma ComputeLatency_pos:
  assumes "0 \<le> now k" and "sector_number s" and "sector_number (lastSector (rawDisk k))"
  shows "0 < ComputeLatency s wr k"
  using ComputeLatency_write [OF assms] ComputeLatency_read [of s k]
  by (cases wr) (auto simp: RotationTime_def)

subsection \<open>The sectors of the file\<close>

definition file_sector :: "byte list \<Rightarrow> int \<Rightarrow> byte list" where
  "file_sector bs s = take 128 (drop (nat (seek_to s)) bs)"

definition file_ok :: "byte list \<Rightarrow> bool" where
  "file_ok bs \<longleftrightarrow> int (length bs) = DiskSize"

lemmas file_sizes = DiskSize_def MagicSize_def NumSectors_value SectorSize_def

lemma seek_to_range:
  assumes "sector_number s"
  shows "0 \<le> seek_to s" and "seek_to s + 128 \<le> DiskSize"
  using assms by (simp_all add: sector_number_iff seek_to_def file_sizes)

lemma length_file_sector: "file_ok bs \<Longrightarrow> sector_number s \<Longrightarrow> length (file_sector bs s) = 128"
proof -
  assume bs: "file_ok bs" and s: "sector_number s"
  have "nat (seek_to s) + 128 \<le> length bs" using seek_to_range [OF s] bs by (simp add: file_ok_def)
  then show ?thesis by (simp add: file_sector_def)
qed

lemma Disk_new_ok:
  "\<exists>d. Disk_new None h a = Inr d \<and> file_ok (unix_file d) \<and> Disk_new (Some (unix_file d)) h a = Inr d"
proof -
  have m: "bytes_word (word_bytes MagicNumber @ r) = MagicNumber" for r by simp
  show ?thesis by (simp add: Disk_new_def file_ok_def file_sizes)
qed

lemma write_file_spec:
  assumes bs: "file_ok bs" and s: "sector_number s" and d: "length data = 128"
  shows "file_ok (write_file bs (seek_to s) data)"
    and "sector_number u \<Longrightarrow> file_sector (write_file bs (seek_to s) data) u = ((file_sector bs)(s := data)) u"
proof -
  define p where "p = nat (seek_to s)"
  have p: "p + 128 \<le> length bs" using seek_to_range [OF s] bs by (simp add: file_ok_def p_def)
  have eq: "write_file bs (seek_to s) data = take p bs @ data @ drop (p + 128) bs"
    using p d by (simp add: write_file_def p_def [symmetric])
  show "file_ok (write_file bs (seek_to s) data)"
    using p d bs by (simp add: eq file_ok_def)
  assume u: "sector_number u"
  define q where "q = nat (seek_to u)"
  have q: "q + 128 \<le> length bs" using seek_to_range [OF u] bs by (simp add: file_ok_def q_def)
  have fs: "file_sector (write_file bs (seek_to s) data) u = take 128 (drop q (take p bs @ data @ drop (p + 128) bs))"
    by (simp add: file_sector_def eq q_def)
  have pq: "p = nat (128 * s + 4)" "q = nat (128 * u + 4)"
    by (simp_all add: p_def q_def seek_to_def SectorSize_def MagicSize_def)
  have "0 \<le> s" "0 \<le> u" using s u by (simp_all add: sector_number_iff)
  then consider "u = s" "q = p" | "u < s" "q + 128 \<le> p" | "s < u" "p + 128 \<le> q"
    using pq by (cases "u < s"; cases "u = s") auto
  then show "file_sector (write_file bs (seek_to s) data) u = ((file_sector bs)(s := data)) u"
  proof cases
    case 1
    then show ?thesis using p d unfolding fs by simp
  next
    case 2
    then have "drop q (take p bs) = take (p - q) (drop q bs)" by (simp add: drop_take)
    with 2 p show ?thesis unfolding fs by (simp add: file_sector_def q_def [symmetric])
  next
    case 3
    then have "drop (q - length (take p bs) - length data) (drop (p + 128) bs) = drop q bs"
      using p d by (simp add: min_def)
    with 3 p d show ?thesis unfolding fs by (simp add: file_sector_def q_def [symmetric])
  qed
qed

subsection \<open>What a request does\<close>

text \<open>An idle disk with its whole file and its head over a sector.\<close>

definition disk_idle :: "('h, 'm) dkernel_scheme \<Rightarrow> bool" where
  "disk_idle k \<longleftrightarrow> \<not> active (rawDisk k) \<and> file_ok (unix_file (rawDisk k)) \<and>
     sector_number (lastSector (rawDisk k)) \<and> 0 \<le> now k"

text \<open>The disk interrupt that a request leaves pending.\<close>

definition disk_interrupt :: "'h \<Rightarrow> int \<Rightarrow> 'h PendingInterrupt" where
  "disk_interrupt h w = \<lparr>handler = h, arg = 0, whenDue = w, itype = DiskInt\<rparr>"

definition disk_busy ::
  "'h \<Rightarrow> byte list \<Rightarrow> int \<Rightarrow> int \<Rightarrow> int \<Rightarrow> Statistics \<Rightarrow> ('h, 'm) dkernel_scheme \<Rightarrow> ('h, 'm) dkernel_scheme" where
  "disk_busy h bs s b w st k =
     k\<lparr>stats := st, pending := sorted_insert w (disk_interrupt h w) (pending k),
       rawDisk := (rawDisk k)\<lparr>unix_file := bs, active := True, lastSector := s, bufferInit := b\<rparr>\<rparr>"

lemma UpdateLast_spec: "\<exists>b. UpdateLast s k =
    k\<lparr>rawDisk := (rawDisk k)\<lparr>lastSector := s, bufferInit := b\<rparr>\<rparr>"
proof (cases "fst (TimeToSeek s k) \<noteq> 0")
  case True
  then show ?thesis
    by (intro exI [of _ "now k + fst (TimeToSeek s k) + snd (TimeToSeek s k)"])
      (simp add: UpdateLast_def Let_def case_prod_beta)
next
  case False
  then have "UpdateLast s k = k\<lparr>rawDisk := (rawDisk k)\<lparr>lastSector := s\<rparr>\<rparr>"
    by (simp add: UpdateLast_def Let_def case_prod_beta)
  then show ?thesis by (intro exI [of _ "bufferInit (rawDisk k)"]) simp
qed

lemma ReadRequest_spec:
  assumes k: "disk_idle k" and s: "sector_number s"
  shows "\<exists>b st. ReadRequest h s k = Inr (file_sector (unix_file (rawDisk k)) s,
      disk_busy h (unix_file (rawDisk k)) s b (now k + ComputeLatency s False k) st k) \<and>
    totalTicks st = now k \<and> numDiskReads st = numDiskReads (stats k) + 1"
proof -
  let ?f = "unix_file (rawDisk k)" and ?l = "ComputeLatency s False k"
  have f: "file_ok ?f" "\<not> active (rawDisk k)" and l: "0 < ?l"
    using k ComputeLatency_pos [OF _ s, of k False] by (simp_all add: disk_idle_def)
  define k1 where "k1 = k\<lparr>rawDisk := (rawDisk k)\<lparr>active := True\<rparr>\<rparr>"
  obtain b where b: "UpdateLast s k1 = k1\<lparr>rawDisk := (rawDisk k1)\<lparr>lastSector := s, bufferInit := b\<rparr>\<rparr>"
    using UpdateLast_spec by blast
  define st where "st = (stats k)\<lparr>numDiskReads := numDiskReads (stats k) + 1\<rparr>"
  have "seek_to s + 128 \<le> int (length ?f)" "0 \<le> seek_to s"
    using seek_to_range [OF s] f(1) by (simp_all add: file_ok_def)
  then have "ReadRequest h s k = rbind (Schedule h 0 ?l DiskInt ((UpdateLast s k1)\<lparr>stats := st\<rparr>))
      (\<lambda>k. Inr (file_sector ?f s, k))"
    using s f by (simp add: ReadRequest_def Let_def sector_number_iff NumSectors_value SectorSize_def
        subarray_def file_sector_def k1_def [symmetric] b st_def) (simp add: k1_def)
  also have "Schedule h 0 ?l DiskInt ((UpdateLast s k1)\<lparr>stats := st\<rparr>) = Inr (disk_busy h ?f s b (now k + ?l) st k)"
    using l by (simp add: Schedule_spec b) (simp add: k1_def disk_busy_def disk_interrupt_def st_def)
  finally show ?thesis by (intro exI [of _ b] exI [of _ st]) (simp add: st_def)
qed

lemma WriteRequest_spec:
  assumes k: "disk_idle k" and s: "sector_number s" and d: "length data = 128"
  shows "\<exists>b st. WriteRequest h s data k =
      Inr (disk_busy h (write_file (unix_file (rawDisk k)) (seek_to s) data) s b
        (now k + ComputeLatency s True k) st k) \<and>
    totalTicks st = now k \<and> numDiskWrites st = numDiskWrites (stats k) + 1"
proof -
  let ?f = "write_file (unix_file (rawDisk k)) (seek_to s) data" and ?l = "ComputeLatency s True k"
  have f: "\<not> active (rawDisk k)" and l: "0 < ?l"
    using k ComputeLatency_pos [OF _ s, of k True] by (simp_all add: disk_idle_def)
  define k1 where "k1 = k\<lparr>rawDisk := (rawDisk k)\<lparr>unix_file := ?f, active := True\<rparr>\<rparr>"
  obtain b where b: "UpdateLast s k1 = k1\<lparr>rawDisk := (rawDisk k1)\<lparr>lastSector := s, bufferInit := b\<rparr>\<rparr>"
    using UpdateLast_spec by blast
  define st where "st = (stats k)\<lparr>numDiskWrites := numDiskWrites (stats k) + 1\<rparr>"
  have "WriteRequest h s data k = Schedule h 0 ?l DiskInt ((UpdateLast s k1)\<lparr>stats := st\<rparr>)"
    using s f d by (simp add: WriteRequest_def Let_def sector_number_iff NumSectors_value SectorSize_def
        subarray_def k1_def [symmetric] b st_def) (simp add: k1_def)
  also have "\<dots> = Inr (disk_busy h ?f s b (now k + ?l) st k)"
    using l by (simp add: Schedule_spec b) (simp add: k1_def disk_busy_def disk_interrupt_def st_def)
  finally show ?thesis by (intro exI [of _ b] exI [of _ st]) (simp add: st_def)
qed

lemma request_out_of_range:
  "\<not> sector_number s \<Longrightarrow> ReadRequest h s k = Inl AssertFailed"
  "\<not> sector_number s \<Longrightarrow> WriteRequest h s data k = Inl AssertFailed"
  by (auto simp: ReadRequest_def WriteRequest_def Let_def ASSERT_def sector_number_def)

subsection \<open>Properties\<close>

definition new_disk_kernel :: "(unit, unit) dkernel_scheme" where
  "new_disk_kernel = skernel.extend synch_kernel (dkernel.fields
     \<lparr>unix_file = word_bytes MagicNumber @ replicate 131072 0, callWhenDone = (), handlerArg = 0,
      active = False, lastSector = 0, bufferInit = 0\<rparr>)"

lemma new_disk_kernel_simps [simp]:
  "now new_disk_kernel = 0" "lastSector (rawDisk new_disk_kernel) = 0" "bufferInit (rawDisk new_disk_kernel) = 0"
  by (simp_all add: new_disk_kernel_def skernel.defs dkernel.defs synch_kernel_def Condition_new_def
      Lock_new_def put_sem_def pkernel.defs ukernel.defs kernel.defs Initialize_def Statistics_new_def)

definition later :: "int \<Rightarrow> ('h, 'm) dkernel_scheme \<Rightarrow> ('h, 'm) dkernel_scheme" where
  "later d k = k\<lparr>stats := (stats k)\<lparr>totalTicks := totalTicks (stats k) + d\<rparr>\<rparr>"

lemma later_simps [simp]: "now (later d k) = now k + d" "rawDisk (later d k) = rawDisk k"
  by (simp_all add: later_def)

text \<open>
  C38: The time a request takes: at least the transfer of one sector, and less than a seek over all
  tracks and one rotation. A write ends on a sector boundary of the rotation, just when the sector asked
  for has passed the head. A read takes only the transfer time exactly when the track buffer has the
  sector: it is on the track the head is on, and began to pass the head since the last seek ended;
  otherwise a read takes as long as a write. The end of the last seek is a sector boundary, as it is
  for a new disk, and stays one with every request.
\<close>

theorem Disk_latency:
  assumes "0 \<le> now k" and "sector_number s" and "sector_number (lastSector (rawDisk k))" and "track_buffer_ok k"
  shows "RotationTime \<le> ComputeLatency s True k \<and>
    ComputeLatency s True k < NumTracks * SeekTime + SectorsPerTrack * RotationTime \<and>
    (now k + ComputeLatency s True k) mod RotationTime = 0 \<and>
    ((now k + ComputeLatency s True k) div RotationTime - 1) mod SectorsPerTrack = s mod SectorsPerTrack \<and>
    ComputeLatency s False k = (if in_track_buffer s k then RotationTime else ComputeLatency s True k) \<and>
    track_buffer_ok (UpdateLast s k)"
  using ComputeLatency_write [OF assms(1-3)] ComputeLatency_buffered [OF assms] UpdateLast_track_buffer [OF assms]
  by (simp add: disk_times NumTracks_def)

text \<open>
  On the new disk, at time 0, nothing has passed the head yet; 1200 ticks later sectors 0, 1 and 2 have.
\<close>

theorem Disk_latency_witness:
  "ComputeLatency 40 True new_disk_kernel = 4500 \<and> (4500 div RotationTime - 1) mod SectorsPerTrack = 8 \<and>
    ComputeLatency 2 False new_disk_kernel = ComputeLatency 2 True new_disk_kernel \<and>
    ComputeLatency 2 False (later 1200 new_disk_kernel) = 500 \<and>
    ComputeLatency 3 False (later 1200 new_disk_kernel) = ComputeLatency 3 True (later 1200 new_disk_kernel)"
proof -
  let ?k = "later 1200 new_disk_kernel"
  have c: "ComputeLatency 40 True new_disk_kernel = 4500"
    by (simp add: ComputeLatency_def TimeToSeek_def ModuloDiff_def disk_times Let_def)
  have n: "sector_number 40" "sector_number 2" "sector_number 3" "sector_number (lastSector (rawDisk new_disk_kernel))"
    "sector_number (lastSector (rawDisk ?k))" "0 \<le> now new_disk_kernel" "0 \<le> now ?k"
    "track_buffer_ok new_disk_kernel" "track_buffer_ok ?k"
    by (simp_all add: sector_number_iff track_buffer_ok_def)
  have "\<not> in_track_buffer 2 new_disk_kernel" by (auto simp: in_track_buffer_def disk_times)
  moreover have "in_track_buffer 2 ?k" by (auto simp: in_track_buffer_def disk_times intro!: exI [of _ 2])
  moreover have "\<not> in_track_buffer 3 ?k"
  proof
    assume "in_track_buffer 3 ?k"
    then obtain j :: int where "0 \<le> j * 500" "j * 500 < 1200" "j mod 32 = 3"
      by (auto simp: in_track_buffer_def disk_times)
    then show False by (cases "j = 0"; cases "j = 1"; cases "j = 2") auto
  qed
  ultimately show ?thesis
    using Disk_latency [OF n(6,1,4,8)] Disk_latency [OF n(6,2,4,8)] Disk_latency [OF n(7,2,5,9)]
      Disk_latency [OF n(7,3,5,9)] c by (simp add: disk_times)
qed

end
