(* ===== verification/Synch_Disk.thy ===== *)
theory Synch_Disk
  imports Disk
begin

section \<open>The synchronous disk, filesys/synchdisk.cc\<close>

text \<open>
  A thread that reads or writes a sector takes the lock, makes the request, sleeps on a semaphore
  until the disk's interrupt handler raises it, and releases the lock. Here the pieces meet: the
  scheduler, the clock, the pending interrupts, the semaphore and the disk. The kernel has one
  such disk; its handlers are values of a datatype, and \<open>disk_cpu\<close> says what calling them does.
\<close>

subsection \<open>The data and the handlers\<close>

record SynchDisk =
  sd_semaphore :: nat
  sd_lock :: nat

record 'h sdkernel = "'h dkernel" +
  synchDisk :: SynchDisk

datatype disk_handler = DiskDone | DiskRequestDone

text \<open>
  \<open>SynchDisk::SynchDisk\<close>: a semaphore, a lock with its own semaphore, at addresses that \<open>new\<close>
  returned, and the disk.
\<close>

definition SynchDisk_new ::
  "nat \<Rightarrow> nat \<Rightarrow> nat \<Rightarrow> tid option \<Rightarrow> byte list option \<Rightarrow> (disk_handler, 'm) sdkernel_scheme \<Rightarrow>
    (disk_handler, 'm) sdkernel_scheme result" where
  "SynchDisk_new sem l lsem junk existing k =
     rbind (Disk_new existing DiskRequestDone 0) (\<lambda>d.
     Inr ((Lock_new l lsem junk (put_sem sem (Semaphore_new 0) k))\<lparr>rawDisk := d,
       synchDisk := \<lparr>sd_semaphore = sem, sd_lock = l\<rparr>\<rparr>))"

text \<open>\<open>delete disk\<close> only closes the UNIX file.\<close>

definition SynchDisk_delete :: "('h, 'm) sdkernel_scheme \<Rightarrow> ('h, 'm) sdkernel_scheme result" where
  "SynchDisk_delete k =
     rbind (Lock_delete (sd_lock (synchDisk k)) k) (\<lambda>k.
     Inr (Semaphore_delete (sd_semaphore (synchDisk k)) k))"

text \<open>\<open>RequestDone\<close> runs in an interrupt handler, with interrupts off: see \<open>V_interrupts_off\<close>.\<close>

definition RequestDone :: "('h, 'm) sdkernel_scheme \<Rightarrow> ('h, 'm) sdkernel_scheme result" where
  "RequestDone k = V_give (sd_semaphore (synchDisk k)) k"

text \<open>
  A disk whose handler is \<^const>\<open>DiskRequestDone\<close>, as the constructor installs it; one that had
  \<open>DiskDone\<close> itself would call itself until the stack overflows.
\<close>

definition call_handler ::
  "disk_handler \<Rightarrow> int \<Rightarrow> (disk_handler, 'm) sdkernel_scheme \<Rightarrow> (disk_handler, 'm) sdkernel_scheme result" where
  "call_handler h a k =
     (case h of
        DiskRequestDone \<Rightarrow> RequestDone k
      | DiskDone \<Rightarrow> HandleInterrupt (\<lambda>h a k.
          case h of DiskRequestDone \<Rightarrow> RequestDone k | DiskDone \<Rightarrow> Inl OutOfBounds) k)"

definition disk_cpu ::
  "(disk_handler, (disk_handler, 'm) sdkernel_scheme) cpu \<Rightarrow>
    (disk_handler, (disk_handler, 'm) sdkernel_scheme) cpu" where
  "disk_cpu c = user_cpu (c\<lparr>invoke := call_handler\<rparr>)"

subsection \<open>Reading and writing a sector\<close>

definition SynchDisk_ReadSector ::
  "(disk_handler, (disk_handler, 'm) sdkernel_scheme) cpu \<Rightarrow> int \<Rightarrow> (disk_handler, 'm) sdkernel_scheme \<Rightarrow>
    (byte list \<times> (disk_handler, 'm) sdkernel_scheme) result option" where
  "SynchDisk_ReadSector cpu sectorNumber k =
     orbind (Lock_Acquire cpu (sd_lock (synchDisk k)) k) (\<lambda>k.
     orbind (Some (ReadRequest DiskDone sectorNumber k)) (\<lambda>(data, k).
     orbind (Semaphore_P cpu (sd_semaphore (synchDisk k)) k) (\<lambda>k.
     orbind (Lock_Release cpu (sd_lock (synchDisk k)) k) (\<lambda>k.
     Some (Inr (data, k))))))"

definition SynchDisk_WriteSector ::
  "(disk_handler, (disk_handler, 'm) sdkernel_scheme) cpu \<Rightarrow> int \<Rightarrow> byte list \<Rightarrow>
    (disk_handler, 'm) sdkernel_scheme \<Rightarrow> (disk_handler, 'm) sdkernel_scheme result option" where
  "SynchDisk_WriteSector cpu sectorNumber data k =
     orbind (Lock_Acquire cpu (sd_lock (synchDisk k)) k) (\<lambda>k.
     orbind (Some (WriteRequest DiskDone sectorNumber data k)) (\<lambda>k.
     orbind (Semaphore_P cpu (sd_semaphore (synchDisk k)) k) (\<lambda>k.
     Lock_Release cpu (sd_lock (synchDisk k)) k)))"

lemma tick_disk_simps [simp]:
  fixes k :: "('h, 'm) sdkernel_scheme"
  shows "rawDisk (tick k) = rawDisk k" "synchDisk (tick k) = synchDisk k"
  by (simp_all add: tick_def advance_clock_def Let_def)

subsection \<open>One thread and the disk\<close>

text \<open>
  The states a request passes through when no other thread is ready: the running thread, the
  disk's file, whether the disk is busy, the semaphore of the disk, the value of the lock's
  semaphore, the pending interrupts, a lower bound of the clock, and the part of the machine that
  must not change.
\<close>

definition sd_at ::
  "SynchDisk \<Rightarrow> byte list \<times> nat option \<times> (nat \<Rightarrow> TranslationEntry list option) \<Rightarrow> byte list \<Rightarrow> bool \<Rightarrow>
    Semaphore \<Rightarrow> int \<Rightarrow> (int \<times> disk_handler PendingInterrupt) list \<Rightarrow> int \<Rightarrow>
    (disk_handler, 'm) sdkernel_scheme \<Rightarrow> bool" where
  "sd_at sd mp bs a c v q T k \<longleftrightarrow>
     level k = IntOn \<and> \<not> inHandler k \<and> \<not> yieldOnReturn k \<and> status k = SystemMode \<and>
     pending k = q \<and> only_thread k \<and> 0 \<le> T \<and> T \<le> now k \<and>
     file_ok bs \<and> unix_file (rawDisk k) = bs \<and> active (rawDisk k) = a \<and>
     sector_number (lastSector (rawDisk k)) \<and> callWhenDone (rawDisk k) = DiskRequestDone \<and>
     synchDisk k = sd \<and> semaphores k (sd_semaphore sd) = Some c \<and>
     (\<exists>l. locks k (sd_lock sd) = Some l \<and> Sema l \<noteq> sd_semaphore sd \<and>
        semaphores k (Sema l) = Some \<lparr>sem_value = v, squeue = []\<rparr>) \<and>
     machine_part k = mp"

lemma Acquire_alone:
  assumes k: "sd_at sd mp bs a c 1 [] T k"
  shows "\<exists>k'. Lock_Acquire cpu (sd_lock (synchDisk k)) k = Some (Inr k') \<and> sd_at sd mp bs a c 0 [] T k'"
proof -
  obtain l where l: "locks k (sd_lock sd) = Some l" "Sema l \<noteq> sd_semaphore sd"
    "semaphores k (Sema l) = Some \<lparr>sem_value = 1, squeue = []\<rparr>"
    using k by (auto simp: sd_at_def)
  define k1 where "k1 = tick (put_sem (Sema l) \<lparr>sem_value = 0, squeue = []\<rparr> (k\<lparr>level := IntOff\<rparr>))"
  have "Semaphore_P cpu (Sema l) k = Some (Inr k1)"
    using P_free [OF l(3), of cpu] k by (simp add: sd_at_def k1_def)
  moreover have "now k < now k1"
    using tick_now [of "put_sem (Sema l) \<lparr>sem_value = 0, squeue = []\<rparr> (k\<lparr>level := IntOff\<rparr>)"]
    by (simp add: k1_def put_sem_def)
  moreover have "synchDisk k = sd" using k by (simp add: sd_at_def)
  ultimately show ?thesis using l k
    by (simp add: Lock_Acquire_def lock_at_def set_holder_def)
      (simp add: sd_at_def k1_def put_sem_def machine_part_def only_thread_def)
qed

lemma Release_alone:
  assumes k: "sd_at sd mp bs a c 0 [] T k"
  shows "\<exists>k'. Lock_Release cpu (sd_lock (synchDisk k)) k = Some (Inr k') \<and> sd_at sd mp bs a c 1 [] T k'"
proof -
  obtain l where l: "locks k (sd_lock sd) = Some l" "Sema l \<noteq> sd_semaphore sd"
    "semaphores k (Sema l) = Some \<lparr>sem_value = 0, squeue = []\<rparr>"
    using k by (auto simp: sd_at_def)
  define k0 where "k0 = k\<lparr>locks := (locks k)(sd_lock sd \<mapsto> l\<lparr>threadHoldLock := None\<rparr>)\<rparr>"
  define k1 where "k1 = tick (put_sem (Sema l) \<lparr>sem_value = 1, squeue = []\<rparr> (k0\<lparr>level := IntOff\<rparr>))"
  have sd: "synchDisk k = sd" using k by (simp add: sd_at_def)
  have "semaphores k0 (Sema l) = Some \<lparr>sem_value = 0, squeue = []\<rparr>" using l by (simp add: k0_def)
  from V_free [OF this, of cpu] k have "Semaphore_V cpu (Sema l) k0 = Some (Inr k1)"
    by (simp add: sd_at_def k1_def k0_def)
  moreover have "now k < now k1"
    using tick_now [of "put_sem (Sema l) \<lparr>sem_value = 1, squeue = []\<rparr> (k0\<lparr>level := IntOff\<rparr>)"]
    by (simp add: k1_def put_sem_def k0_def)
  moreover have "set_holder (sd_lock sd) None k = Inr k0" using l sd by (simp add: set_holder_def lock_at_def k0_def)
  moreover have "locks k0 (sd_lock sd) = Some (l\<lparr>threadHoldLock := None\<rparr>)" by (simp add: k0_def)
  ultimately show ?thesis using l k sd
    by (simp add: Lock_Release_def lock_at_def)
      (simp add: sd_at_def k1_def k0_def put_sem_def machine_part_def only_thread_def)
qed

lemma disk_busy_at:
  assumes k: "sd_at sd mp bs False c v [] T k" and "file_ok bs'" and "sector_number s"
    and "now k + 500 \<le> w" and "totalTicks st = now k"
  shows "sd_at sd mp bs' True c v [(w, disk_interrupt DiskDone w)] T (disk_busy DiskDone bs' s b w st k)"
  using assms by (simp add: sd_at_def disk_busy_def only_thread_def machine_part_def)

lemma sd_at_idle: "sd_at sd mp bs False c v [] T k \<Longrightarrow> disk_idle k"
  by (simp add: sd_at_def disk_idle_def)

lemma latency_min: "disk_idle k \<Longrightarrow> sector_number s \<Longrightarrow> 500 \<le> ComputeLatency s wr k"
  using ComputeLatency_write [of k s] ComputeLatency_read [of s k]
  by (cases wr) (auto simp: disk_idle_def RotationTime_def)

subsection \<open>Sleeping until the disk is done\<close>

text \<open>The fields that the hooks for user programs leave alone.\<close>

definition kernel_part :: "('h, 'm) sdkernel_scheme \<Rightarrow> 'h kernel \<times>
    ((nat \<Rightarrow> Semaphore option) \<times> (nat \<Rightarrow> Lock option) \<times> (nat \<Rightarrow> Condition option)) \<times>
    'h Disk \<times> SynchDisk \<times> byte list \<times> nat option \<times> (nat \<Rightarrow> TranslationEntry list option)" where
  "kernel_part k = (kernel.truncate k, synch_part k, rawDisk k, synchDisk k, machine_part k)"

lemma kernel_part_eqD:
  assumes "kernel_part a = kernel_part b"
  shows "kernel.truncate a = kernel.truncate b" and "synch_part a = synch_part b"
    and "semaphores a = semaphores b" and "locks a = locks b" and "conditions a = conditions b"
    and "rawDisk a = rawDisk b" and "synchDisk a = synchDisk b" and "machine_part a = machine_part b"
  using assms by (simp_all add: kernel_part_def synch_part_def)

lemma hooks_part:
  "kernel_part (flush_load (disk_cpu c) k) = kernel_part k"
  "kernel_part (save_user (disk_cpu c) t k) = kernel_part k"
  "kernel_part (restore_user (disk_cpu c) t k) = kernel_part k"
  by (auto simp: disk_cpu_def user_cpu_def DelayedLoad_def set_reg_def Let_def kernel_part_def synch_part_def
      machine_part_def kernel.truncate_def SaveUserState_def RestoreUserState_def AddrSpace_SaveState_def
      AddrSpace_RestoreState_def split: option.splits sum.splits)

lemmas hooks_simps [simp] =
  truncate_eqD [OF kernel_part_eqD(1) [OF hooks_part(1)]] kernel_part_eqD(3-8) [OF hooks_part(1)]
  truncate_eqD [OF kernel_part_eqD(1) [OF hooks_part(2)]] kernel_part_eqD(3-8) [OF hooks_part(2)]
  truncate_eqD [OF kernel_part_eqD(1) [OF hooks_part(3)]] kernel_part_eqD(3-8) [OF hooks_part(3)]

lemma invoke_disk [simp]: "invoke (disk_cpu c) = call_handler"
  by (simp add: disk_cpu_def user_cpu_def)

lemma machine_part_update [simp]:
  fixes k :: "('h, 'm) sdkernel_scheme"
  shows "machine_part (k\<lparr>stats := a1\<rparr>) = machine_part k" "machine_part (k\<lparr>level := a2\<rparr>) = machine_part k"
    "machine_part (k\<lparr>pending := a3\<rparr>) = machine_part k" "machine_part (k\<lparr>inHandler := a4\<rparr>) = machine_part k"
    "machine_part (k\<lparr>yieldOnReturn := a5\<rparr>) = machine_part k" "machine_part (k\<lparr>status := a6\<rparr>) = machine_part k"
    "machine_part (k\<lparr>readyList := a7\<rparr>) = machine_part k" "machine_part (k\<lparr>threads := a8\<rparr>) = machine_part k"
    "machine_part (k\<lparr>currentThread := a9\<rparr>) = machine_part k"
    "machine_part (k\<lparr>semaphores := b1\<rparr>) = machine_part k" "machine_part (k\<lparr>locks := b2\<rparr>) = machine_part k"
    "machine_part (k\<lparr>rawDisk := b3\<rparr>) = machine_part k"
    "machine_part (put_thread t c k) = machine_part k" "machine_part (put_sem s d k) = machine_part k"
    "machine_part (tick k) = machine_part k"
  by (simp_all add: machine_part_def put_thread_def put_sem_def)

text \<open>The handler of the disk wakes the one waiting thread.\<close>

lemma DiskDone_wakes:
  assumes "callWhenDone (rawDisk k) = DiskRequestDone" and "semaphores k (sd_semaphore (synchDisk k)) = Some c"
    and "squeue c = [t]" and "threads k t = Some th"
  shows "call_handler DiskDone a k =
    Inr (put_sem (sd_semaphore (synchDisk k)) (c\<lparr>squeue := [], sem_value := sem_value c + 1\<rparr>)
      ((put_thread t (th\<lparr>tstatus := READY\<rparr>) (k\<lparr>rawDisk := (rawDisk k)\<lparr>active := False\<rparr>\<rparr>))\<lparr>
        readyList := readyList k @ [t]\<rparr>))"
  using assms
  by (simp add: call_handler_def HandleInterrupt_def RequestDone_def V_give_def ReadyToRun_def setStatus_def
      thread_at_def put_sem_def put_thread_def Let_def)

lemma Idle_disk:
  assumes "level k = IntOff" and "pending k = [(w, disk_interrupt DiskDone w)]" and "now k < w"
    and "callWhenDone (rawDisk k) = DiskRequestDone" and "semaphores k (sd_semaphore (synchDisk k)) = Some c"
    and "squeue c = [t]" and "threads k t = Some th"
  shows "\<exists>k'. Idle (disk_cpu cp) k = Some (Inr k') \<and> level k' = IntOff \<and> pending k' = [] \<and>
    status k' = SystemMode \<and> \<not> inHandler k' \<and> \<not> yieldOnReturn k' \<and> now k' = w \<and>
    readyList k' = readyList k @ [t] \<and> threads k' = (threads k)(t \<mapsto> th\<lparr>tstatus := READY\<rparr>) \<and>
    currentThread k' = currentThread k \<and> threadToBeDestroyed k' = threadToBeDestroyed k \<and>
    semaphores k' = (semaphores k)(sd_semaphore (synchDisk k) \<mapsto> c\<lparr>squeue := [], sem_value := sem_value c + 1\<rparr>) \<and>
    locks k' = locks k \<and> synchDisk k' = synchDisk k \<and> rawDisk k' = (rawDisk k)\<lparr>active := False\<rparr> \<and>
    machine_part k' = machine_part k"
proof -
  define st where "st = (stats k)\<lparr>idleTicks := idleTicks (stats k) + (w - now k), totalTicks := w\<rparr>"
  define k1 where "k1 = flush_load (disk_cpu cp) (k\<lparr>status := IdleMode, pending := [], stats := st\<rparr>)"
  define k2 where "k2 = k1\<lparr>inHandler := True, status := SystemMode\<rparr>"
  define k3 where "k3 = put_sem (sd_semaphore (synchDisk k2)) (c\<lparr>squeue := [], sem_value := sem_value c + 1\<rparr>)
      ((put_thread t (th\<lparr>tstatus := READY\<rparr>) (k2\<lparr>rawDisk := (rawDisk k2)\<lparr>active := False\<rparr>\<rparr>))\<lparr>
        readyList := readyList k2 @ [t]\<rparr>)"
  have 1: "call_handler DiskDone 0 k2 = Inr k3"
    unfolding k3_def by (rule DiskDone_wakes) (use assms in \<open>simp_all add: k2_def k1_def\<close>)
  have "CheckIfDue (disk_cpu cp) True (k\<lparr>status := IdleMode\<rparr>) = Inr (True, k3\<lparr>status := IdleMode, inHandler := False\<rparr>)"
    using assms(1-3) 1 unfolding k2_def k1_def st_def
    by (simp add: CheckIfDue_def Let_def disk_interrupt_def)
  moreover have "fire_due (disk_cpu cp) (k3\<lparr>status := IdleMode, inHandler := False\<rparr>) =
      Some (Inr (k3\<lparr>status := IdleMode, inHandler := False\<rparr>))"
    by (rule fire_due_none) (use assms(1) in \<open>simp_all add: k3_def k2_def k1_def put_sem_def put_thread_def\<close>)
  ultimately have "Idle (disk_cpu cp) k = Some (Inr (k3\<lparr>status := IdleMode, inHandler := False,
      yieldOnReturn := False, status := SystemMode\<rparr>))"
    by (simp add: Idle_def)
  then show ?thesis using assms
    by (simp add: k3_def k2_def k1_def st_def put_sem_def put_thread_def)
qed

text \<open>The hooks of a context switch leave the disk and the memory alone.\<close>

interpretation disk_threads: device_state "disk_cpu c"
  "\<lambda>k :: (disk_handler, 'm) sdkernel_scheme. (rawDisk k, synchDisk k, machine_part k)"
  by unfold_locales (simp_all add: kernel_part_eqD [OF hooks_part(1)] kernel_part_eqD [OF hooks_part(2)]
      kernel_part_eqD [OF hooks_part(3)])

text \<open>
  \<open>P\<close> on the semaphore of a busy disk: the thread sleeps, the clock jumps to the end of the
  transfer, the handler wakes the thread, and it takes the value.
\<close>

lemma Sleep_disk:
  assumes "level k = IntOff" and "only_thread k" and "pending k = [(w, disk_interrupt DiskDone w)]"
    and "now k < w" and "callWhenDone (rawDisk k) = DiskRequestDone"
    and "semaphores k (sd_semaphore (synchDisk k)) = Some \<lparr>sem_value = 0, squeue = [currentThread k]\<rparr>"
  shows "\<exists>k'. Sleep (disk_cpu cp) (currentThread k) k = Some (Inr k') \<and> level k' = IntOff \<and>
    only_thread k' \<and> pending k' = [] \<and> status k' = SystemMode \<and> \<not> inHandler k' \<and> \<not> yieldOnReturn k' \<and>
    now k' = w \<and>
    semaphores k' = (semaphores k)(sd_semaphore (synchDisk k) \<mapsto> \<lparr>sem_value = 1, squeue = []\<rparr>) \<and>
    locks k' = locks k \<and> synchDisk k' = synchDisk k \<and> rawDisk k' = (rawDisk k)\<lparr>active := False\<rparr> \<and>
    machine_part k' = machine_part k"
proof -
  let ?t = "currentThread k"
  obtain th where th: "threads k ?t = Some th" "stack_ok (Some th)" "readyList k = []"
    "threadToBeDestroyed k = None"
    using assms(2) by (auto simp: only_thread_def)
  define k1 where "k1 = put_thread ?t (th\<lparr>tstatus := BLOCKED\<rparr>) k"
  have k1: "setStatus ?t BLOCKED k = Inr k1" using th by (simp add: k1_def)
  obtain k2 where k2: "Idle (disk_cpu cp) k1 = Some (Inr k2)" "level k2 = IntOff" "pending k2 = []"
    "status k2 = SystemMode" "\<not> inHandler k2" "\<not> yieldOnReturn k2" "now k2 = w" "readyList k2 = [?t]"
    "threads k2 = (threads k1)(?t \<mapsto> th\<lparr>tstatus := READY\<rparr>)" "currentThread k2 = ?t"
    "threadToBeDestroyed k2 = None"
    "semaphores k2 = (semaphores k)(sd_semaphore (synchDisk k) \<mapsto> \<lparr>sem_value = 1, squeue = []\<rparr>)"
    "locks k2 = locks k" "synchDisk k2 = synchDisk k" "rawDisk k2 = (rawDisk k)\<lparr>active := False\<rparr>"
    "machine_part k2 = machine_part k"
  proof -
    have "\<exists>k'. Idle (disk_cpu cp) k1 = Some (Inr k') \<and> level k' = IntOff \<and> pending k' = [] \<and>
      status k' = SystemMode \<and> \<not> inHandler k' \<and> \<not> yieldOnReturn k' \<and> now k' = w \<and>
      readyList k' = readyList k1 @ [?t] \<and> threads k' = (threads k1)(?t \<mapsto> th\<lparr>tstatus := BLOCKED, tstatus := READY\<rparr>) \<and>
      currentThread k' = currentThread k1 \<and> threadToBeDestroyed k' = threadToBeDestroyed k1 \<and>
      semaphores k' = (semaphores k1)(sd_semaphore (synchDisk k1) \<mapsto>
        \<lparr>sem_value = 0, squeue = [?t]\<rparr>\<lparr>squeue := [], sem_value := sem_value \<lparr>sem_value = 0, squeue = [?t]\<rparr> + 1\<rparr>) \<and>
      locks k' = locks k1 \<and> synchDisk k' = synchDisk k1 \<and> rawDisk k' = (rawDisk k1)\<lparr>active := False\<rparr> \<and>
      machine_part k' = machine_part k1"
      by (rule Idle_disk) (use assms in \<open>simp_all add: k1_def\<close>, simp_all add: put_thread_def)
    then show ?thesis
      using that th unfolding k1_def by (auto simp: put_thread_def)
  qed
  have "readyList k1 = []" using th(3) by (simp add: k1_def)
  then have "wait_for_ready (disk_cpu cp) k1 = Some (Inr (?t, k2\<lparr>readyList := []\<rparr>))"
    using k2(1,8) by (simp add: wait_for_ready_unfold)
  then have "Sleep (disk_cpu cp) ?t k = Run (disk_cpu cp) ?t (k2\<lparr>readyList := []\<rparr>)"
    using assms(1) k1 by (simp add: Sleep_def)
  moreover obtain k' where r: "Run (disk_cpu cp) ?t (k2\<lparr>readyList := []\<rparr>) = Some (Inr k')"
    "kernel.truncate k' = kernel.truncate (put_thread ?t (th\<lparr>tstatus := RUNNING\<rparr>) (k2\<lparr>readyList := []\<rparr>))"
    "synch_part k' = synch_part k2" "rawDisk k' = rawDisk k2" "synchDisk k' = synchDisk k2"
    "machine_part k' = machine_part k2"
    using disk_threads.Run_self [of "k2\<lparr>readyList := []\<rparr>" "th\<lparr>tstatus := READY\<rparr>" cp] k2 th
    by (auto simp: synch_part_def)
  ultimately show ?thesis using k2 th truncate_eqD [OF r(2)]
    by (intro exI [of _ k']) (auto simp: only_thread_def put_thread_def synch_part_def)
qed

lemma P_disk:
  assumes k: "sd_at sd mp bs True \<lparr>sem_value = 0, squeue = []\<rparr> v [(w, disk_interrupt DiskDone w)] T k"
    and w: "now k < w"
  shows "\<exists>k'. Semaphore_P (disk_cpu cp) (sd_semaphore (synchDisk k)) k = Some (Inr k') \<and>
    sd_at sd mp bs False \<lparr>sem_value = 0, squeue = []\<rparr> v [] w k'"
proof -
  let ?s = "sd_semaphore sd" and ?cpu = "disk_cpu cp"
  have sd: "synchDisk k = sd" using k by (simp add: sd_at_def)
  define k0 where "k0 = k\<lparr>level := IntOff\<rparr>"
  define k1 where "k1 = put_sem ?s \<lparr>sem_value = 0, squeue = [currentThread k]\<rparr> k0"
  have sem: "semaphores k0 ?s = Some \<lparr>sem_value = 0, squeue = []\<rparr>" using k by (simp add: sd_at_def k0_def)
  have app: "P_append ?s k0 = Inr k1" using sem by (simp add: P_append_def k1_def) (simp add: k0_def)
  have "\<exists>k'. Sleep ?cpu (currentThread k1) k1 = Some (Inr k') \<and> level k' = IntOff \<and>
    only_thread k' \<and> pending k' = [] \<and> status k' = SystemMode \<and> \<not> inHandler k' \<and> \<not> yieldOnReturn k' \<and>
    now k' = w \<and>
    semaphores k' = (semaphores k1)(sd_semaphore (synchDisk k1) \<mapsto> \<lparr>sem_value = 1, squeue = []\<rparr>) \<and>
    locks k' = locks k1 \<and> synchDisk k' = synchDisk k1 \<and> rawDisk k' = (rawDisk k1)\<lparr>active := False\<rparr> \<and>
    machine_part k' = machine_part k1"
    by (rule Sleep_disk) (use k w in \<open>simp_all add: k1_def k0_def sd_at_def put_sem_def only_thread_def\<close>)
  then obtain k2 where k2: "Sleep ?cpu (currentThread k1) k1 = Some (Inr k2)" "level k2 = IntOff"
    "only_thread k2" "pending k2 = []" "status k2 = SystemMode" "\<not> inHandler k2" "\<not> yieldOnReturn k2"
    "now k2 = w"
    "semaphores k2 = (semaphores k1)(sd_semaphore (synchDisk k1) \<mapsto> \<lparr>sem_value = 1, squeue = []\<rparr>)"
    "locks k2 = locks k1" "synchDisk k2 = synchDisk k1" "rawDisk k2 = (rawDisk k1)\<lparr>active := False\<rparr>"
    "machine_part k2 = machine_part k1"
    by (elim exE conjE) (rule that)
  have 1: "synchDisk k1 = sd" using sd by (simp add: k1_def k0_def put_sem_def)
  have s2: "semaphores k2 ?s = Some \<lparr>sem_value = 1, squeue = []\<rparr>" using k2(9) 1 by simp
  have "P_loop ?cpu ?s k2 = Some (Inr k2)" using s2 by (subst P_loop.simps) simp
  then have "P_loop ?cpu ?s k0 = Some (Inr k2)"
    using sem app k2(1) by (subst P_loop.simps) simp
  moreover define k3 where "k3 = put_sem ?s \<lparr>sem_value = 0, squeue = []\<rparr> k2"
  have "P_take ?s k2 = Inr k3" using s2 by (simp add: P_take_def k3_def)
  moreover have "SetLevel ?cpu IntOn k3 = Some (Inr (IntOff, tick k3))"
    by (rule SetLevel_on_none) (use k2 in \<open>simp_all add: k3_def put_sem_def\<close>)
  moreover have "level k = IntOn" using k by (simp add: sd_at_def)
  ultimately have run: "Semaphore_P ?cpu ?s k = Some (Inr (tick k3))"
    by (simp add: Semaphore_P_def SetLevel_IntOff k0_def)
  have "w \<le> now (tick k3)" using tick_now [of k3] k2(8) by (simp add: k3_def put_sem_def)
  moreover have "only_thread (tick k3)" using k2(3) by (simp add: k3_def)
  moreover have "0 \<le> w" using w k by (simp add: sd_at_def)
  ultimately have "sd_at sd mp bs False \<lparr>sem_value = 0, squeue = []\<rparr> v [] w (tick k3)"
    using k k2 1 by (auto simp: sd_at_def k3_def k1_def k0_def put_sem_def)
  with run sd show ?thesis by auto
qed

text \<open>The state between two requests, and the sectors of the disk in it.\<close>

definition sd_ready :: "SynchDisk \<Rightarrow> (disk_handler, 'm) sdkernel_scheme \<Rightarrow> bool" where
  "sd_ready sd k \<longleftrightarrow> sd_at sd (machine_part k) (unix_file (rawDisk k)) False \<lparr>sem_value = 0, squeue = []\<rparr> 1 [] 0 k"

definition disk_sectors :: "('h, 'm) dkernel_scheme \<Rightarrow> int \<Rightarrow> byte list" where
  "disk_sectors k s = (if sector_number s then file_sector (unix_file (rawDisk k)) s else [])"

lemma sd_at_ready:
  "sd_at sd mp bs False \<lparr>sem_value = 0, squeue = []\<rparr> 1 [] T k \<Longrightarrow>
    sd_ready sd k \<and> machine_part k = mp \<and> unix_file (rawDisk k) = bs \<and> T \<le> now k"
  by (simp add: sd_ready_def sd_at_def)

lemma sd_readyD:
  assumes "sd_ready sd k"
  shows "sd_at sd (machine_part k) (unix_file (rawDisk k)) False \<lparr>sem_value = 0, squeue = []\<rparr> 1 [] (now k) k"
    and "file_ok (unix_file (rawDisk k))"
  using assms by (auto simp: sd_ready_def sd_at_def)

lemma SynchDisk_ReadSector_spec:
  assumes k: "sd_ready sd k" and s: "sector_number s"
  shows "\<exists>k'. SynchDisk_ReadSector (disk_cpu cp) s k = Some (Inr (disk_sectors k s, k')) \<and> sd_ready sd k' \<and>
    disk_sectors k' = disk_sectors k \<and> machine_part k' = machine_part k \<and> now k + RotationTime \<le> now k'"
proof -
  let ?f = "unix_file (rawDisk k)" and ?sem = "\<lparr>sem_value = 0, squeue = []\<rparr>" and ?mp = "machine_part k"
  obtain k1 where k1: "Lock_Acquire (disk_cpu cp) (sd_lock (synchDisk k)) k = Some (Inr k1)"
    "sd_at sd ?mp ?f False ?sem 0 [] (now k) k1"
    using Acquire_alone [OF sd_readyD(1) [OF k]] by blast
  have idle: "disk_idle k1" by (rule sd_at_idle [OF k1(2)])
  have f1: "unix_file (rawDisk k1) = ?f" "now k \<le> now k1" using k1(2) by (simp_all add: sd_at_def)
  let ?w = "now k1 + ComputeLatency s False k1"
  obtain b st where rq: "ReadRequest DiskDone s k1 =
      Inr (file_sector ?f s, disk_busy DiskDone ?f s b ?w st k1)" and st: "totalTicks st = now k1"
    using ReadRequest_spec [OF idle s, of DiskDone] f1(1) by auto
  define k2 where "k2 = disk_busy DiskDone ?f s b ?w st k1"
  have w: "now k1 + 500 \<le> ?w" using latency_min [OF idle s, of False] by simp
  have k2: "sd_at sd ?mp ?f True ?sem 0 [(?w, disk_interrupt DiskDone ?w)] (now k) k2"
    unfolding k2_def by (rule disk_busy_at [OF k1(2) sd_readyD(2) [OF k] s w st])
  have "now k2 = now k1" using st by (simp add: k2_def disk_busy_def)
  with w have "now k2 < ?w" by simp
  from P_disk [OF k2 this] obtain k3 where
    k3: "Semaphore_P (disk_cpu cp) (sd_semaphore (synchDisk k2)) k2 = Some (Inr k3)"
    "sd_at sd ?mp ?f False ?sem 0 [] ?w k3" by blast
  obtain k4 where k4: "Lock_Release (disk_cpu cp) (sd_lock (synchDisk k3)) k3 = Some (Inr k4)"
    "sd_at sd ?mp ?f False ?sem 1 [] ?w k4"
    using Release_alone [OF k3(2)] by blast
  have "SynchDisk_ReadSector (disk_cpu cp) s k = Some (Inr (disk_sectors k s, k4))"
    using k1(1) rq k3(1) k4(1) s by (simp add: SynchDisk_ReadSector_def k2_def disk_sectors_def)
  with sd_at_ready [OF k4(2)] w f1 show ?thesis
    by (intro exI [of _ k4]) (simp add: disk_sectors_def fun_eq_iff RotationTime_def)
qed

lemma SynchDisk_WriteSector_spec:
  assumes k: "sd_ready sd k" and s: "sector_number s" and d: "length data = 128"
  shows "\<exists>k'. SynchDisk_WriteSector (disk_cpu cp) s data k = Some (Inr k') \<and> sd_ready sd k' \<and>
    disk_sectors k' = (disk_sectors k)(s := data) \<and> machine_part k' = machine_part k \<and>
    now k + RotationTime \<le> now k'"
proof -
  let ?f = "unix_file (rawDisk k)" and ?sem = "\<lparr>sem_value = 0, squeue = []\<rparr>" and ?mp = "machine_part k"
  let ?g = "write_file ?f (seek_to s) data"
  obtain k1 where k1: "Lock_Acquire (disk_cpu cp) (sd_lock (synchDisk k)) k = Some (Inr k1)"
    "sd_at sd ?mp ?f False ?sem 0 [] (now k) k1"
    using Acquire_alone [OF sd_readyD(1) [OF k]] by blast
  have idle: "disk_idle k1" by (rule sd_at_idle [OF k1(2)])
  have f1: "unix_file (rawDisk k1) = ?f" "now k \<le> now k1" using k1(2) by (simp_all add: sd_at_def)
  let ?w = "now k1 + ComputeLatency s True k1"
  obtain b st where rq: "WriteRequest DiskDone s data k1 = Inr (disk_busy DiskDone ?g s b ?w st k1)"
    and st: "totalTicks st = now k1"
    using WriteRequest_spec [OF idle s d, of DiskDone] f1(1) by auto
  define k2 where "k2 = disk_busy DiskDone ?g s b ?w st k1"
  have w: "now k1 + 500 \<le> ?w" using latency_min [OF idle s, of True] by simp
  note g = write_file_spec [OF sd_readyD(2) [OF k] s d]
  have k2: "sd_at sd ?mp ?g True ?sem 0 [(?w, disk_interrupt DiskDone ?w)] (now k) k2"
    unfolding k2_def by (rule disk_busy_at [OF k1(2) g(1) s w st])
  have "now k2 = now k1" using st by (simp add: k2_def disk_busy_def)
  with w have "now k2 < ?w" by simp
  from P_disk [OF k2 this] obtain k3 where
    k3: "Semaphore_P (disk_cpu cp) (sd_semaphore (synchDisk k2)) k2 = Some (Inr k3)"
    "sd_at sd ?mp ?g False ?sem 0 [] ?w k3" by blast
  obtain k4 where k4: "Lock_Release (disk_cpu cp) (sd_lock (synchDisk k3)) k3 = Some (Inr k4)"
    "sd_at sd ?mp ?g False ?sem 1 [] ?w k4"
    using Release_alone [OF k3(2)] by blast
  have "SynchDisk_WriteSector (disk_cpu cp) s data k = Some (Inr k4)"
    using k1(1) rq k3(1) k4(1) by (simp add: SynchDisk_WriteSector_def k2_def)
  moreover have "disk_sectors k4 = (disk_sectors k)(s := data)"
    using sd_at_ready [OF k4(2)] g(2) s by (auto simp: disk_sectors_def fun_eq_iff)
  ultimately show ?thesis using sd_at_ready [OF k4(2)] w f1
    by (intro exI [of _ k4]) (simp add: RotationTime_def)
qed

lemma SynchDisk_out_of_range:
  assumes k: "sd_ready sd k" and s: "\<not> sector_number s"
  shows "SynchDisk_ReadSector (disk_cpu cp) s k = Some (Inl AssertFailed)"
    and "SynchDisk_WriteSector (disk_cpu cp) s data k = Some (Inl AssertFailed)"
proof -
  obtain k1 where "Lock_Acquire (disk_cpu cp) (sd_lock (synchDisk k)) k = Some (Inr k1)"
    using Acquire_alone [OF sd_readyD(1) [OF k]] by blast
  then show "SynchDisk_ReadSector (disk_cpu cp) s k = Some (Inl AssertFailed)"
    "SynchDisk_WriteSector (disk_cpu cp) s data k = Some (Inl AssertFailed)"
    by (simp_all add: SynchDisk_ReadSector_def SynchDisk_WriteSector_def request_out_of_range [OF s])
qed

subsection \<open>A sector device\<close>

text \<open>
  The file system's view of the disk: in the states between two requests \<open>ReadSector\<close> and
  \<open>WriteSector\<close> return. A request that would wait for ever has no value for the file system, which
  is a program that calls it; it is \<open>Halted\<close> here and does not occur in those states. \<open>junk\<close> is
  what fresh memory holds.
\<close>

definition returned :: "'a result option \<Rightarrow> 'a result" where
  "returned r = (case r of None \<Rightarrow> Inl Halted | Some x \<Rightarrow> x)"

definition synch_env ::
  "(disk_handler, (disk_handler, 'm) sdkernel_scheme) cpu \<Rightarrow>
    (nat \<Rightarrow> (disk_handler, 'm) sdkernel_scheme \<Rightarrow> nat \<Rightarrow> byte) \<Rightarrow>
    (disk_handler, 'm) sdkernel_scheme fs_env" where
  "synch_env c junk = \<lparr>
     ReadSector = (\<lambda>s k. returned (SynchDisk_ReadSector (disk_cpu c) s k)),
     WriteSector = (\<lambda>s data k. returned (SynchDisk_WriteSector (disk_cpu c) s data k)),
     fresh_mem = junk\<rparr>"

lemma returned_Some [simp]: "returned (Some r) = r"
  by (simp add: returned_def)

interpretation synch_disk: sector_device "synch_env c junk" "sd_ready sd" disk_sectors
proof unfold_locales
  fix w :: "(disk_handler, 'a) sdkernel_scheme" and s data
  assume w: "sd_ready sd w"
  show "length (disk_sectors w s) = 128" if "sector_number s"
    using that length_file_sector [OF sd_readyD(2) [OF w] that] by (simp add: disk_sectors_def)
  show "\<exists>w'. ReadSector (synch_env c junk) s w = Inr (disk_sectors w s, w') \<and> sd_ready sd w' \<and>
      disk_sectors w' = disk_sectors w" if "sector_number s"
    using SynchDisk_ReadSector_spec [OF w that, of c] by (auto simp: synch_env_def)
  show "\<exists>w'. WriteSector (synch_env c junk) s data w = Inr w' \<and> sd_ready sd w' \<and>
      disk_sectors w' = (disk_sectors w)(s := data)" if "sector_number s" "length data = 128"
    using SynchDisk_WriteSector_spec [OF w that, of c] by (auto simp: synch_env_def)
  show "ReadSector (synch_env c junk) s w = Inl AssertFailed" if "\<not> sector_number s"
    using SynchDisk_out_of_range(1) [OF w that, of c] by (simp add: synch_env_def)
  show "WriteSector (synch_env c junk) s data w = Inl AssertFailed"
    if "\<not> sector_number s" "length data = 128"
    using SynchDisk_out_of_range(2) [OF w that(1), of c data] by (simp add: synch_env_def)
qed

text \<open>Programs can be loaded from it.\<close>

lemma sd_ready_machine:
  "sd_ready sd (set_memory m k) = sd_ready sd k" "sd_ready sd (k\<lparr>tables := ts\<rparr>) = sd_ready sd k"
  "disk_sectors (set_memory m k) = disk_sectors k" "disk_sectors (k\<lparr>tables := ts\<rparr>) = disk_sectors k"
  by (auto simp: sd_ready_def sd_at_def only_thread_def set_memory_def disk_sectors_def fun_eq_iff)

lemma synch_disk_programs: "program_disk (synch_env c junk) (sd_ready sd) disk_sectors"
proof -
  have "sd_ready sd k' \<and> machine_part k' = machine_part k"
    if k: "sd_ready sd k" and r: "ReadSector (synch_env c junk) s k = Inr (d, k')" for s k d k'
  proof -
    have s: "sector_number s"
      using r SynchDisk_out_of_range(1) [OF k, of s c] by (cases "sector_number s") (auto simp: synch_env_def)
    show ?thesis using SynchDisk_ReadSector_spec [OF k s, of c] r by (auto simp: synch_env_def)
  qed
  then have "machine_frame (synch_env c junk) (sd_ready sd)"
    by (auto simp: machine_frame_def sd_ready_machine)
  then show ?thesis using synch_disk.sector_device_axioms by (simp add: program_disk_def sd_ready_machine)
qed

subsection \<open>The disk's interrupts\<close>

text \<open>
  What the interrupt simulation relies on, for the handlers of this kernel: nothing but requests of
  the disk is pending, and the threads that wait for it exist.
\<close>

definition disk_dev_ok :: "(disk_handler, 'm) sdkernel_scheme \<Rightarrow> bool" where
  "disk_dev_ok k \<longleftrightarrow>
     (\<forall>e \<in> set (pending k). handler (snd e) = DiskDone) \<and> callWhenDone (rawDisk k) = DiskRequestDone \<and>
     (\<exists>c. semaphores k (sd_semaphore (synchDisk k)) = Some c \<and> (\<forall>t \<in> set (squeue c). threads k t \<noteq> None))"

lemma disk_dev_ok_update [simp]:
  "disk_dev_ok (k\<lparr>level := l\<rparr>) = disk_dev_ok k" "disk_dev_ok (k\<lparr>status := st\<rparr>) = disk_dev_ok k"
  "disk_dev_ok (k\<lparr>yieldOnReturn := b\<rparr>) = disk_dev_ok k" "disk_dev_ok (k\<lparr>inHandler := b\<rparr>) = disk_dev_ok k"
  "disk_dev_ok (k\<lparr>stats := t\<rparr>) = disk_dev_ok k"
  by (simp_all add: disk_dev_ok_def)

lemma DiskDone_handles:
  assumes "callWhenDone (rawDisk k) = DiskRequestDone"
    and "semaphores k (sd_semaphore (synchDisk k)) = Some c" "\<forall>t \<in> set (squeue c). threads k t \<noteq> None"
    and "\<forall>e \<in> set (pending k). handler (snd e) = DiskDone"
  shows "\<exists>k'. call_handler DiskDone a k = Inr k' \<and> disk_dev_ok k' \<and> level k' = level k \<and>
    stats k' = stats k \<and> status k' = status k \<and> pending k' = pending k \<and> yieldOnReturn k' = yieldOnReturn k"
proof (cases "squeue c")
  case Nil
  with assms show ?thesis
    by (simp add: call_handler_def HandleInterrupt_def RequestDone_def V_give_def put_sem_def Let_def disk_dev_ok_def)
next
  case (Cons t ts)
  then obtain th where "threads k t = Some th" using assms(3) by auto
  with assms Cons show ?thesis
    by (simp add: call_handler_def HandleInterrupt_def RequestDone_def V_give_def ReadyToRun_def setStatus_def
        thread_at_def put_sem_def put_thread_def Let_def disk_dev_ok_def)
qed

lemma disk_dev_ok_order: "disk_dev_ok k \<Longrightarrow> mset q = mset (pending k) \<Longrightarrow> disk_dev_ok (k\<lparr>pending := q\<rparr>)"
  using mset_eq_setD [of q "pending k"] by (simp add: disk_dev_ok_def)

lemma disk_fires:
  assumes dev: "disk_dev_ok k" and p: "pending k = (w, p) # rest" and off: "level k = IntOff"
  shows "\<exists>k'. invoke (disk_cpu c) (handler p) (arg p)
      ((flush_load (disk_cpu c) (k\<lparr>pending := rest\<rparr>))\<lparr>inHandler := True, status := SystemMode\<rparr>) = Inr k' \<and>
    disk_dev_ok k' \<and> level k' = IntOff \<and> stats k' = stats k \<and> status k' = SystemMode \<and>
    pending k' = rest \<and> yieldOnReturn k' = yieldOnReturn k"
proof -
  define k1 where "k1 = (flush_load (disk_cpu c) (k\<lparr>pending := rest\<rparr>))\<lparr>inHandler := True, status := SystemMode\<rparr>"
  obtain d where d: "semaphores k (sd_semaphore (synchDisk k)) = Some d" "\<forall>t \<in> set (squeue d). threads k t \<noteq> None"
    using dev by (auto simp: disk_dev_ok_def)
  have h: "handler p = DiskDone" using dev p by (simp add: disk_dev_ok_def)
  have "\<exists>k'. call_handler DiskDone (arg p) k1 = Inr k' \<and> disk_dev_ok k' \<and> level k' = level k1 \<and>
    stats k' = stats k1 \<and> status k' = status k1 \<and> pending k' = pending k1 \<and> yieldOnReturn k' = yieldOnReturn k1"
    by (rule DiskDone_handles [of k1 d]) (use dev p d in \<open>simp_all add: k1_def disk_dev_ok_def\<close>)
  then show ?thesis using h off by (auto simp: k1_def [symmetric]) (auto simp: k1_def)
qed

interpretation disk_interrupts: quiet_devices "disk_cpu c" disk_dev_ok
proof unfold_locales
  fix k k' :: "(disk_handler, 'a) sdkernel_scheme" and w p rest
  assume k: "disk_dev_ok k" "pending k = (w, p) # rest" "level k = IntOff"
  note f = disk_fires [OF k, of c]
  show "\<exists>k' new. invoke (disk_cpu c) (handler p) (arg p)
      ((flush_load (disk_cpu c) (k\<lparr>pending := rest\<rparr>))\<lparr>inHandler := True, status := SystemMode\<rparr>) = Inr k' \<and>
    disk_dev_ok (k'\<lparr>inHandler := False\<rparr>) \<and> level k' = IntOff \<and> clock k' = clock k \<and> status k' = SystemMode \<and>
    pending k' = insert_all new rest \<and> (\<forall>e \<in> set new. now k < fst e \<and> fst e = whenDue (snd e))"
    using f by (auto simp: insert_all_def clock_def intro!: exI [of _ "[]"])
  show "yieldOnReturn k' = yieldOnReturn k"
    if "invoke (disk_cpu c) (handler p) (arg p)
      ((flush_load (disk_cpu c) (k\<lparr>pending := rest\<rparr>))\<lparr>inHandler := True, status := SystemMode\<rparr>) = Inr k'"
    using f that by auto
qed (simp_all add: disk_dev_ok_order)

text \<open>A busy disk with a waiting thread is such a state, so its interrupts are delivered.\<close>

lemma disk_interrupt_delivered:
  assumes "disk_dev_ok k" and "level k = IntOff" and "pending_ok k" and "\<not> inHandler k" and "status k \<noteq> IdleMode"
  shows "\<exists>k'. fire_due (disk_cpu c) k = Some (Inr k') \<and> disk_dev_ok k' \<and> none_due k' \<and> now k' = now k"
  using disk_interrupts.fire_due_quiet [OF assms] clockD(1) by blast

subsection \<open>Properties\<close>

text \<open>A kernel with a new disk and the main thread, interrupts on, for the witnesses.\<close>

definition disk_base :: "(disk_handler, unit) sdkernel_scheme" where
  "disk_base =
     (dkernel.extend
       (skernel.extend
         (pkernel.extend
           (ukernel.extend
             (kernel.extend Initialize (ukernel.fields (Machine_new False 0 0) Map.empty (\<lambda>_ _. 0)))
             (pkernel.fields Map.empty))
           (skernel.fields Map.empty Map.empty Map.empty))
         (dkernel.fields \<lparr>unix_file = [], callWhenDone = DiskDone, handlerArg = 0, active = False,
            lastSector = 0, bufferInit = 0\<rparr>))
       (sdkernel.fields \<lparr>sd_semaphore = 0, sd_lock = 0\<rparr>))\<lparr>level := IntOn\<rparr>"

definition disk_boot :: "(disk_handler, unit) sdkernel_scheme" where
  "disk_boot = (case SynchDisk_new 0 0 1 None None disk_base of Inr k \<Rightarrow> k | Inl _ \<Rightarrow> disk_base)"

lemma disk_boot_new: "SynchDisk_new 0 0 1 None None disk_base = Inr disk_boot"
  by (simp add: disk_boot_def SynchDisk_new_def Disk_new_def)

definition idle_cpu :: "(disk_handler, (disk_handler, 'm) sdkernel_scheme) cpu" where
  "idle_cpu = \<lparr>invoke = call_handler, flush_load = (\<lambda>k. k), SWITCH = (\<lambda>_ _ _. None),
     save_user = (\<lambda>_ k. k), restore_user = (\<lambda>_ k. k)\<rparr>"

text \<open>A disk that was just made is ready.\<close>

lemma SynchDisk_new_ready:
  assumes "SynchDisk_new sem l lsem junk None k = Inr k'" and "sem \<noteq> lsem"
    and "level k = IntOn" "\<not> inHandler k" "\<not> yieldOnReturn k" "status k = SystemMode"
      "pending k = []" "only_thread k" "0 \<le> now k"
  shows "sd_ready \<lparr>sd_semaphore = sem, sd_lock = l\<rparr> k'"
  using assms
  by (auto simp: SynchDisk_new_def Disk_new_def sd_ready_def sd_at_def Lock_new_def put_sem_def only_thread_def
      Semaphore_new_def file_ok_def file_sizes sector_number_iff)

lemma disk_boot_ready: "sd_ready \<lparr>sd_semaphore = 0, sd_lock = 0\<rparr> disk_boot"
  by (rule SynchDisk_new_ready [OF disk_boot_new])
    (simp_all add: disk_base_def skernel.defs dkernel.defs pkernel.defs ukernel.defs kernel.defs sdkernel.defs
      Initialize_def Statistics_new_def only_thread_def stack_ok_def Thread_new_def)

text \<open>
  C8: The synchronous disk, as the only running thread uses it: \<open>WriteSector\<close> and \<open>ReadSector\<close> of
  a sector return, after the thread has slept until the clock reached the end of the transfer and
  the disk's interrupt handler woke it; what was written is read back and no other sector changes;
  each takes at least the transfer time; the lock and the semaphore are then as before. A sector
  number out of range stops the program by the disk's \<open>ASSERT\<close>.
\<close>

theorem SynchDisk_write_read:
  assumes "sd_ready sd k" and "length data = 128"
  shows "(sector_number s \<longrightarrow>
      (\<exists>k1 k2. SynchDisk_WriteSector (disk_cpu c) s data k = Some (Inr k1) \<and>
        SynchDisk_ReadSector (disk_cpu c) s k1 = Some (Inr (data, k2)) \<and>
        (\<forall>u. u \<noteq> s \<longrightarrow> disk_sectors k2 u = disk_sectors k u) \<and> sd_ready sd k1 \<and> sd_ready sd k2 \<and>
        now k + RotationTime \<le> now k1 \<and> now k1 + RotationTime \<le> now k2)) \<and>
    (\<not> sector_number s \<longrightarrow> SynchDisk_ReadSector (disk_cpu c) s k = Some (Inl AssertFailed) \<and>
      SynchDisk_WriteSector (disk_cpu c) s data k = Some (Inl AssertFailed))"
proof -
  have "\<exists>k1 k2. SynchDisk_WriteSector (disk_cpu c) s data k = Some (Inr k1) \<and>
        SynchDisk_ReadSector (disk_cpu c) s k1 = Some (Inr (data, k2)) \<and>
        (\<forall>u. u \<noteq> s \<longrightarrow> disk_sectors k2 u = disk_sectors k u) \<and> sd_ready sd k1 \<and> sd_ready sd k2 \<and>
        now k + RotationTime \<le> now k1 \<and> now k1 + RotationTime \<le> now k2" if s: "sector_number s"
  proof -
    obtain k1 where k1: "SynchDisk_WriteSector (disk_cpu c) s data k = Some (Inr k1)" "sd_ready sd k1"
      "disk_sectors k1 = (disk_sectors k)(s := data)" "now k + RotationTime \<le> now k1"
      using SynchDisk_WriteSector_spec [OF assms(1) s assms(2), of c] by blast
    obtain k2 where "SynchDisk_ReadSector (disk_cpu c) s k1 = Some (Inr (disk_sectors k1 s, k2))"
      "sd_ready sd k2" "disk_sectors k2 = disk_sectors k1" "now k1 + RotationTime \<le> now k2"
      using SynchDisk_ReadSector_spec [OF k1(2) s, of c] by blast
    with k1 show ?thesis by (intro exI [of _ k1] exI [of _ k2]) simp
  qed
  with SynchDisk_out_of_range [OF assms(1), of s] show ?thesis by blast
qed

theorem SynchDisk_write_read_witness:
  "\<exists>k1 k2. SynchDisk_WriteSector (disk_cpu idle_cpu) 7 (replicate 128 42) disk_boot = Some (Inr k1) \<and>
    SynchDisk_ReadSector (disk_cpu idle_cpu) 7 k1 = Some (Inr (replicate 128 42, k2))"
proof -
  have "length (replicate 128 (42 :: byte)) = 128" "sector_number 7" by (simp_all add: sector_number_iff)
  with SynchDisk_write_read [OF disk_boot_ready, of "replicate 128 42" 7 idle_cpu] show ?thesis by blast
qed

end
