(* ===== verification/Directory.thy ===== *)
theory Directory
  imports Open_File
begin

section \<open>The directory, filesys/directory.cc\<close>

text \<open>
  A directory is a table of 20-byte entries: an in-use flag, the sector of a file header and a
  name of at most nine characters. The abstraction is the map from stored names to header
  sectors (\<open>dir_map\<close>); \<open>Find\<close>, \<open>Add\<close> and \<open>Remove\<close> are lookup, insertion and deletion in it.
  A C string argument is the list of its bytes before the terminating \<open>NUL\<close>.
\<close>

definition FileNameMaxLen :: nat where "FileNameMaxLen = 9"

text \<open>\<open>de_pad\<close>: the three and two bytes the compiler leaves behind the flag and the name.\<close>

record DirectoryEntry =
  inUse :: byte
  sector :: int
  name :: "byte list"
  de_pad :: "byte list"

record Directory =
  tableSize :: int
  table :: "DirectoryEntry list"

definition sizeof_DirectoryEntry :: int where "sizeof_DirectoryEntry = 20"

subsection \<open>C strings\<close>

fun strncmp_eq :: "nat \<Rightarrow> byte list \<Rightarrow> byte list \<Rightarrow> bool" where
  "strncmp_eq (Suc n) (x # xs) (y # ys) \<longleftrightarrow> x = y \<and> (x = 0 \<or> strncmp_eq n xs ys)"
| "strncmp_eq (Suc n) xs ys \<longleftrightarrow> xs = ys"
| "strncmp_eq 0 xs ys \<longleftrightarrow> True"

definition strncpy :: "byte list \<Rightarrow> byte list \<Rightarrow> nat \<Rightarrow> byte list" where
  "strncpy dst src n = take n (takeWhile (\<lambda>b. b \<noteq> 0) src @ replicate n 0) @ drop n dst"

definition c_string :: "byte list \<Rightarrow> byte list" where
  "c_string s = s @ [0]"

text \<open>\<open>printf("%s", a)\<close> of a character array: the bytes before the first \<open>NUL\<close>.\<close>

definition printf_s :: "byte list \<Rightarrow> byte list result" where
  "printf_s a = (if 0 \<in> set a then Inr (takeWhile (\<lambda>b. b \<noteq> 0) a) else Inl OutOfBounds)"

subsection \<open>The table as bytes\<close>

definition entry_bytes :: "DirectoryEntry \<Rightarrow> byte list" where
  "entry_bytes e = [inUse e] @ take 3 (de_pad e) @ int_bytes (sector e) @ name e @ drop 3 (de_pad e)"

definition entry_of_bytes :: "byte list \<Rightarrow> DirectoryEntry" where
  "entry_of_bytes bs = \<lparr>inUse = bs ! 0, sector = bytes_int (take 4 (drop 4 bs)),
     name = take 10 (drop 8 bs), de_pad = take 3 (drop 1 bs) @ take 2 (drop 18 bs)\<rparr>"

definition table_bytes :: "DirectoryEntry list \<Rightarrow> byte list" where
  "table_bytes es = concat (map entry_bytes es)"

definition table_of_bytes :: "nat \<Rightarrow> byte list \<Rightarrow> DirectoryEntry list" where
  "table_of_bytes n bs = map (\<lambda>i. entry_of_bytes (take 20 (drop (20 * i) bs))) [0..<n]"

definition entry_typed :: "DirectoryEntry \<Rightarrow> bool" where
  "entry_typed e \<longleftrightarrow> in_int (sector e) \<and> length (name e) = 10 \<and> length (de_pad e) = 5"

lemma length_entry_bytes: "entry_typed e \<Longrightarrow> length (entry_bytes e) = 20"
  by (simp add: entry_typed_def entry_bytes_def)

lemma length_table_bytes: "\<forall>e \<in> set es. entry_typed e \<Longrightarrow> length (table_bytes es) = 20 * length es"
  by (induction es) (simp_all add: table_bytes_def length_entry_bytes)

lemma entry_roundtrip:
  assumes "entry_typed e"
  shows "entry_of_bytes (entry_bytes e) = e"
proof -
  obtain a b c d f where pad: "de_pad e = [a, b, c, d, f]"
    using assms by (auto simp: entry_typed_def numeral_eq_Suc length_Suc_conv)
  have len: "length (int_bytes (sector e)) = 4" "length (name e) = 10"
    using assms by (simp_all add: entry_typed_def)
  show ?thesis
    using assms len
    by (cases e) (simp add: entry_of_bytes_def entry_bytes_def pad numeral_eq_Suc entry_typed_def)
qed

lemma entry_of_bytes_typed: "length bs = 20 \<Longrightarrow> entry_typed (entry_of_bytes bs)"
  by (simp add: entry_typed_def entry_of_bytes_def)

lemma drop_table_bytes:
  "\<forall>e \<in> set es. entry_typed e \<Longrightarrow> i < length es \<Longrightarrow>
    take 20 (drop (20 * i) (table_bytes es)) = entry_bytes (es ! i)"
proof (induction es arbitrary: i)
  case Nil
  then show ?case by simp
next
  case (Cons e es)
  then show ?case
    by (cases i) (simp_all add: table_bytes_def length_entry_bytes)
qed

lemma table_roundtrip:
  assumes "\<forall>e \<in> set es. entry_typed e" and "n = length es"
  shows "table_of_bytes n (table_bytes es) = es"
  unfolding table_of_bytes_def
  by (rule nth_equalityI) (use assms in \<open>auto simp: drop_table_bytes entry_roundtrip\<close>)

lemma table_of_bytes_typed:
  assumes "length bs = 20 * n"
  shows "\<forall>e \<in> set (table_of_bytes n bs). entry_typed e"
  using assms by (auto simp: table_of_bytes_def intro!: entry_of_bytes_typed)

subsection \<open>The operations\<close>

text \<open>The constructor: the table is \<open>new\<close> memory (\<open>raw\<close>), only the flags are set.\<close>

definition Directory_new :: "byte list \<Rightarrow> int \<Rightarrow> Directory result" where
  "Directory_new raw sz =
     for_range 0 sz (\<lambda>i d.
         rbind (aget (table d) i) (\<lambda>e.
         rbind (aset (table d) i (e\<lparr>inUse := 0\<rparr>)) (\<lambda>t.
         Inr (d\<lparr>table := t\<rparr>))))
       \<lparr>tableSize = sz, table = table_of_bytes (nat sz) raw\<rparr>"

definition Directory_FetchFrom ::
  "'w fs_env \<Rightarrow> Directory \<Rightarrow> OpenFile \<Rightarrow> 'w \<Rightarrow> (Directory \<times> 'w) result" where
  "Directory_FetchFrom E d file w =
     rbind (OpenFile_ReadAt E file (table_bytes (table d)) 0 (tableSize d * sizeof_DirectoryEntry) 0 w)
       (\<lambda>(_, bs, w'). Inr (d\<lparr>table := table_of_bytes (length (table d)) bs\<rparr>, w'))"

definition Directory_WriteBack ::
  "'w fs_env \<Rightarrow> Directory \<Rightarrow> OpenFile \<Rightarrow> 'w \<Rightarrow> 'w result" where
  "Directory_WriteBack E d file w =
     rbind (OpenFile_WriteAt E file (table_bytes (table d)) (tableSize d * sizeof_DirectoryEntry) 0 w)
       (\<lambda>(_, w'). Inr w')"

definition Directory_FindIndex :: "Directory \<Rightarrow> byte list \<Rightarrow> int result" where
  "Directory_FindIndex d nm =
     find_range 0 (tableSize d) (\<lambda>i.
       rbind (aget (table d) i) (\<lambda>e.
       Inr (inUse e \<noteq> 0 \<and> strncmp_eq FileNameMaxLen (name e) (c_string nm))))"

definition Directory_Find :: "Directory \<Rightarrow> byte list \<Rightarrow> int result" where
  "Directory_Find d nm =
     rbind (Directory_FindIndex d nm) (\<lambda>i.
       if i \<noteq> - 1 then rbind (aget (table d) i) (\<lambda>e. Inr (sector e)) else Inr (- 1))"

definition Directory_Add :: "Directory \<Rightarrow> byte list \<Rightarrow> int \<Rightarrow> (bool \<times> Directory) result" where
  "Directory_Add d nm newSector =
     rbind (Directory_FindIndex d nm) (\<lambda>i.
       if i \<noteq> - 1 then Inr (False, d)
       else rbind (find_range 0 (tableSize d) (\<lambda>i. rbind (aget (table d) i) (\<lambda>e. Inr (\<not> inUse e \<noteq> 0))))
         (\<lambda>i. if i = - 1 then Inr (False, d)
              else rbind (aget (table d) i) (\<lambda>e.
                   rbind (aset (table d) i (e\<lparr>inUse := 1,
                       name := strncpy (name e) nm FileNameMaxLen, sector := newSector\<rparr>)) (\<lambda>t.
                   Inr (True, d\<lparr>table := t\<rparr>)))))"

definition Directory_Remove :: "Directory \<Rightarrow> byte list \<Rightarrow> (bool \<times> Directory) result" where
  "Directory_Remove d nm =
     rbind (Directory_FindIndex d nm) (\<lambda>i.
       if i = - 1 then Inr (False, d)
       else rbind (aget (table d) i) (\<lambda>e.
            rbind (aset (table d) i (e\<lparr>inUse := 0\<rparr>)) (\<lambda>t.
            Inr (True, d\<lparr>table := t\<rparr>))))"

text \<open>\<open>List\<close> and \<open>Print\<close>: what they print.\<close>

definition Directory_List :: "Directory \<Rightarrow> byte list list result" where
  "Directory_List d =
     for_range 0 (tableSize d) (\<lambda>i out.
       rbind (aget (table d) i) (\<lambda>e.
         if inUse e \<noteq> 0 then rbind (printf_s (name e)) (\<lambda>s. Inr (out @ [s])) else Inr out)) []"

definition Directory_Print ::
  "'w fs_env \<Rightarrow> Directory \<Rightarrow> 'w \<Rightarrow>
    ((byte list \<times> int \<times> int list \<times> printed list list) list \<times> 'w) result" where
  "Directory_Print E d w =
     for_range 0 (tableSize d) (\<lambda>i (out, w).
       rbind (aget (table d) i) (\<lambda>e.
         if inUse e \<noteq> 0
         then rbind (printf_s (name e)) (\<lambda>s.
              rbind (FileHeader_FetchFrom E (sector e) w) (\<lambda>(h, w).
              rbind (FileHeader_Print E h w) (\<lambda>(shown, w).
              Inr (out @ [(s, sector e, shown)], w))))
         else Inr (out, w))) ([], w)"

subsection \<open>The directory as a map\<close>

text \<open>The name under which a string is stored: its first nine characters.\<close>

definition stored :: "byte list \<Rightarrow> byte list" where
  "stored s = take FileNameMaxLen (takeWhile (\<lambda>b. b \<noteq> 0) s)"

definition pairs :: "DirectoryEntry list \<Rightarrow> (byte list \<times> int) list" where
  "pairs es = map (\<lambda>e. (stored (name e), sector e)) (filter (\<lambda>e. inUse e \<noteq> 0) es)"

definition dir_map :: "Directory \<Rightarrow> byte list \<Rightarrow> int option" where
  "dir_map d = map_of (pairs (table d))"

definition dir_ok :: "Directory \<Rightarrow> bool" where
  "dir_ok d \<longleftrightarrow> tableSize d = int (length (table d)) \<and>
     (\<forall>e \<in> set (table d). entry_typed e) \<and> distinct (map fst (pairs (table d)))"

lemma strncmp_eq_iff:
  assumes "0 \<in> set a \<or> n \<le> length a" and "0 \<in> set b \<or> n \<le> length b"
  shows "strncmp_eq n a b \<longleftrightarrow> take n (takeWhile (\<lambda>x. x \<noteq> 0) a) = take n (takeWhile (\<lambda>x. x \<noteq> 0) b)"
  using assms by (induction n a b rule: strncmp_eq.induct) auto

lemma takeWhile_append_zero:
  "takeWhile (\<lambda>b. b \<noteq> 0) (s @ [0]) = takeWhile (\<lambda>b. b \<noteq> (0::byte)) s"
  by (induction s) auto

lemma takeWhile_take: "takeWhile P (take n xs) = take n (takeWhile P xs)"
  by (induction xs arbitrary: n) (auto simp: take_Cons split: nat.splits)

lemma stored_c_string [simp]: "stored (c_string s) = stored s"
  by (simp add: stored_def c_string_def takeWhile_append_zero)

lemma entry_matches:
  assumes "entry_typed e"
  shows "strncmp_eq FileNameMaxLen (name e) (c_string nm) \<longleftrightarrow> stored (name e) = stored nm"
proof -
  have "strncmp_eq FileNameMaxLen (name e) (c_string nm) \<longleftrightarrow> stored (name e) = stored (c_string nm)"
    unfolding stored_def
    by (rule strncmp_eq_iff) (use assms in \<open>auto simp: entry_typed_def FileNameMaxLen_def c_string_def\<close>)
  then show ?thesis by simp
qed

lemma stored_strncpy:
  assumes "length dst = 10"
  shows "stored (strncpy dst nm FileNameMaxLen) = stored nm"
    and "length (strncpy dst nm FileNameMaxLen) = 10"
proof -
  let ?s = "takeWhile (\<lambda>b. b \<noteq> 0) nm"
  let ?t = "take 9 (?s @ replicate 9 0)"
  have "take 9 (takeWhile (\<lambda>b. b \<noteq> 0) (?t @ drop 9 dst)) = take 9 ?s"
  proof (cases "length ?s < 9")
    case True
    then have "?t = ?s @ 0 # replicate (8 - length ?s) 0"
      by (simp add: take_Cons' flip: replicate_Suc)
    moreover have "\<forall>x \<in> set ?s. x \<noteq> 0" by (auto dest: set_takeWhileD)
    then have "takeWhile (\<lambda>b. b \<noteq> 0) (?s @ 0 # replicate (8 - length ?s) 0 @ drop 9 dst) = ?s"
      by (subst takeWhile_append2) auto
    ultimately show ?thesis by simp
  next
    case False
    then have t: "?t = take 9 ?s" by simp
    have "takeWhile (\<lambda>b. b \<noteq> 0) (take 9 ?s @ drop 9 dst) = take 9 ?s @ takeWhile (\<lambda>b. b \<noteq> 0) (drop 9 dst)"
    proof (rule takeWhile_append2)
      fix x assume "x \<in> set (take 9 ?s)"
      then have "x \<in> set ?s" by (rule in_set_takeD)
      then show "x \<noteq> 0" by (auto dest: set_takeWhileD)
    qed
    with False show ?thesis unfolding t by simp
  qed
  then show "stored (strncpy dst nm FileNameMaxLen) = stored nm"
    by (simp add: stored_def strncpy_def FileNameMaxLen_def)
  show "length (strncpy dst nm FileNameMaxLen) = 10"
    using assms by (simp add: strncpy_def FileNameMaxLen_def)
qed

subsection \<open>Lookup, insertion and deletion\<close>

lemma pairs_append [simp]: "pairs (xs @ ys) = pairs xs @ pairs ys"
  by (simp add: pairs_def)

lemma pairs_Cons: "pairs (e # es) = (if inUse e \<noteq> 0 then (stored (name e), sector e) # pairs es else pairs es)"
  by (simp add: pairs_def)

lemma pairs_Nil [simp]: "pairs [] = []"
  by (simp add: pairs_def)

lemma keys_pairs: "fst ` set (pairs es) = {stored (name e) | e. e \<in> set es \<and> inUse e \<noteq> 0}"
  by (force simp: pairs_def)

text \<open>A match splits the table; without one the name is not in the map.\<close>

lemma FindIndex_spec:
  assumes ok: "dir_ok d"
  shows "(dir_map d (stored nm) = None \<and> Directory_FindIndex d nm = Inr (- 1)) \<or>
    (\<exists>xs e ys. table d = xs @ e # ys \<and> inUse e \<noteq> 0 \<and> stored (name e) = stored nm \<and>
      dir_map d (stored nm) = Some (sector e) \<and>
      Directory_FindIndex d nm = Inr (int (length xs)))"
proof -
  let ?t = "table d"
  let ?P = "\<lambda>i. inUse (?t ! nat i) \<noteq> 0 \<and> stored (name (?t ! nat i)) = stored nm"
  have sz: "tableSize d = int (length ?t)" and typed: "\<forall>e \<in> set ?t. entry_typed e"
    using ok by (auto simp: dir_ok_def)
  have "\<exists>r. Directory_FindIndex d nm = Inr r \<and>
      (r = - 1 \<and> (\<forall>j. 0 \<le> j \<and> j < tableSize d \<longrightarrow> \<not> ?P j) \<or>
       0 \<le> r \<and> r < tableSize d \<and> ?P r \<and> (\<forall>j. 0 \<le> j \<and> j < r \<longrightarrow> \<not> ?P j))"
    unfolding Directory_FindIndex_def
  proof (rule find_range_spec)
    fix j assume j: "0 \<le> j" "j < tableSize d"
    then have "?t ! nat j \<in> set ?t" using sz by (intro nth_mem) linarith
    then show "rbind (aget ?t j) (\<lambda>e. Inr (inUse e \<noteq> 0 \<and> strncmp_eq FileNameMaxLen (name e) (c_string nm))) =
        Inr (?P j)"
      using j sz typed by (simp add: entry_matches)
  qed
  then obtain r where r: "Directory_FindIndex d nm = Inr r"
    "r = - 1 \<and> (\<forall>j. 0 \<le> j \<and> j < tableSize d \<longrightarrow> \<not> ?P j) \<or>
     0 \<le> r \<and> r < tableSize d \<and> ?P r \<and> (\<forall>j. 0 \<le> j \<and> j < r \<longrightarrow> \<not> ?P j)" by blast
  from r(2) show ?thesis
  proof (elim disjE conjE)
    assume "r = - 1" and none: "\<forall>j. 0 \<le> j \<and> j < tableSize d \<longrightarrow> \<not> ?P j"
    have "stored nm \<notin> fst ` set (pairs ?t)"
    proof
      assume "stored nm \<in> fst ` set (pairs ?t)"
      then obtain i where "i < length ?t" "inUse (?t ! i) \<noteq> 0" "stored (name (?t ! i)) = stored nm"
        by (auto simp: keys_pairs in_set_conv_nth)
      then show False using none sz by (auto dest: spec [of _ "int i"])
    qed
    then show ?thesis using r(1) \<open>r = - 1\<close> by (simp add: dir_map_def map_of_eq_None_iff)
  next
    assume *: "0 \<le> r" "r < tableSize d" "inUse (?t ! nat r) \<noteq> 0"
      "stored (name (?t ! nat r)) = stored nm"
    then have "nat r < length ?t" using sz by linarith
    then obtain xs e ys where split: "?t = xs @ e # ys" "e = ?t ! nat r" "length xs = nat r"
      using id_take_nth_drop [of "nat r" ?t] by fastforce
    have e: "inUse e \<noteq> 0" "stored (name e) = stored nm"
      using *(3,4) unfolding split(2) by blast+
    then have "(stored nm, sector e) \<in> set (pairs (xs @ e # ys))" by (simp add: pairs_Cons)
    then have "(stored nm, sector e) \<in> set (pairs ?t)" unfolding split(1) .
    then have "dir_map d (stored nm) = Some (sector e)"
      using ok by (simp add: dir_map_def dir_ok_def map_of_eq_Some_iff)
    moreover have "Directory_FindIndex d nm = Inr (int (length xs))"
      using r(1) split(3) *(1) by simp
    ultimately show ?thesis using split(1) e by blast
  qed
qed

lemma Find_spec_dir:
  assumes "dir_ok d"
  shows "Directory_Find d nm = Inr (case dir_map d (stored nm) of None \<Rightarrow> - 1 | Some s \<Rightarrow> s)"
  using FindIndex_spec [OF assms, of nm] by (auto simp: Directory_Find_def aget_def)

lemma map_of_insert_middle:
  assumes "k \<notin> fst ` set xs"
  shows "map_of (xs @ (k, v) # ys) = (map_of (xs @ ys))(k \<mapsto> v)"
proof -
  have "map_of xs k = None" using assms by (simp add: map_of_eq_None_iff)
  then show ?thesis by (intro ext) (auto simp: map_add_def split: option.splits)
qed

lemma map_of_delete_middle:
  assumes "distinct (map fst (xs @ (k, v) # ys))"
  shows "map_of (xs @ ys) = (map_of (xs @ (k, v) # ys))(k := None)"
proof -
  have "map_of xs k = None" "map_of ys k = None" using assms by (auto simp: map_of_eq_None_iff)
  then show ?thesis by (intro ext) (auto simp: map_add_def split: option.splits)
qed

text \<open>Free entries: \<open>Add\<close> fails only without one.\<close>

definition dir_full :: "Directory \<Rightarrow> bool" where
  "dir_full d \<longleftrightarrow> (\<forall>e \<in> set (table d). inUse e \<noteq> 0)"

lemma Add_spec:
  assumes ok: "dir_ok d" and s: "in_int s"
  shows "if dir_map d (stored nm) \<noteq> None \<or> dir_full d then Directory_Add d nm s = Inr (False, d)
    else \<exists>d'. Directory_Add d nm s = Inr (True, d') \<and> dir_ok d' \<and> tableSize d' = tableSize d \<and>
      dir_map d' = (dir_map d)(stored nm \<mapsto> s)"
proof (cases "dir_map d (stored nm)")
  case Some
  with FindIndex_spec [OF ok, of nm] show ?thesis by (auto simp: Directory_Add_def)
next
  case None
  then have idx: "Directory_FindIndex d nm = Inr (- 1)" using FindIndex_spec [OF ok, of nm] by auto
  let ?t = "table d"
  let ?P = "\<lambda>i. inUse (?t ! nat i) = 0"
  have sz: "tableSize d = int (length ?t)" and typed: "\<forall>e \<in> set ?t. entry_typed e"
    using ok by (auto simp: dir_ok_def)
  have "\<exists>r. find_range 0 (tableSize d) (\<lambda>i. rbind (aget ?t i) (\<lambda>e. Inr (\<not> inUse e \<noteq> 0))) = Inr r \<and>
      (r = - 1 \<and> (\<forall>j. 0 \<le> j \<and> j < tableSize d \<longrightarrow> \<not> ?P j) \<or>
       0 \<le> r \<and> r < tableSize d \<and> ?P r \<and> (\<forall>j. 0 \<le> j \<and> j < r \<longrightarrow> \<not> ?P j))"
    by (rule find_range_spec) (use sz in simp)
  then obtain r where r:
    "find_range 0 (tableSize d) (\<lambda>i. rbind (aget ?t i) (\<lambda>e. Inr (\<not> inUse e \<noteq> 0))) = Inr r"
    "r = - 1 \<and> (\<forall>j. 0 \<le> j \<and> j < tableSize d \<longrightarrow> \<not> ?P j) \<or>
     0 \<le> r \<and> r < tableSize d \<and> ?P r \<and> (\<forall>j. 0 \<le> j \<and> j < r \<longrightarrow> \<not> ?P j)" by blast
  from r(2) show ?thesis
  proof (elim disjE conjE)
    assume "r = - 1" and none: "\<forall>j. 0 \<le> j \<and> j < tableSize d \<longrightarrow> \<not> ?P j"
    have "dir_full d"
      unfolding dir_full_def
    proof
      fix e assume "e \<in> set ?t"
      then obtain i where "i < length ?t" "e = ?t ! i" by (auto simp: in_set_conv_nth)
      then show "inUse e \<noteq> 0" using none sz by (auto dest: spec [of _ "int i"])
    qed
    then show ?thesis using idx r(1) \<open>r = - 1\<close> by (simp add: Directory_Add_def)
  next
    assume *: "0 \<le> r" "r < tableSize d" "?P r"
    then have n: "nat r < length ?t" using sz by linarith
    let ?e = "?t ! nat r"
    let ?e' = "?e\<lparr>inUse := 1, name := strncpy (name ?e) nm FileNameMaxLen, sector := s\<rparr>"
    let ?d = "d\<lparr>table := ?t[nat r := ?e']\<rparr>"
    have run: "Directory_Add d nm s = Inr (True, ?d)"
      using idx r(1) * sz by (simp add: Directory_Add_def)
    have te: "entry_typed ?e" using typed n by simp
    have nm: "stored (strncpy (name ?e) nm FileNameMaxLen) = stored nm"
      "length (strncpy (name ?e) nm FileNameMaxLen) = 10"
      using stored_strncpy [of "name ?e" nm] te by (simp_all add: entry_typed_def)
    have upd: "?t[nat r := ?e'] = take (nat r) ?t @ ?e' # drop (Suc (nat r)) ?t"
      by (rule upd_conv_take_nth_drop [OF n])
    have old: "?t = take (nat r) ?t @ ?e # drop (Suc (nat r)) ?t"
      by (rule id_take_nth_drop [OF n])
    let ?A = "pairs (take (nat r) ?t)" and ?B = "pairs (drop (Suc (nat r)) ?t)"
    have p: "pairs ?t = ?A @ ?B" using *(3) by (subst old) (simp add: pairs_Cons)
    have p': "pairs (table ?d) = ?A @ (stored nm, s) # ?B"
      using nm(1) by (simp add: upd pairs_Cons)
    have new: "stored nm \<notin> fst ` set (?A @ ?B)"
      using None p by (simp add: dir_map_def map_of_eq_None_iff image_Un)
    have "dir_map ?d = (dir_map d)(stored nm \<mapsto> s)"
      unfolding dir_map_def p' p using new by (intro map_of_insert_middle) auto
    moreover have "dir_ok ?d"
      unfolding dir_ok_def p'
    proof (intro conjI ballI)
      show "tableSize ?d = int (length (table ?d))" using sz by simp
      show "distinct (map fst (?A @ (stored nm, s) # ?B))"
        using ok new by (auto simp: dir_ok_def p)
      fix e assume "e \<in> set (table ?d)"
      then have "e \<in> insert ?e' (set ?t)" using set_update_subset_insert [of ?t "nat r" ?e'] by auto
      then show "entry_typed e" using typed te nm(2) s by (auto simp: entry_typed_def)
    qed
    moreover have "\<not> dir_full d" using *(3) n by (auto simp: dir_full_def)
    ultimately show ?thesis using None run by auto
  qed
qed

lemma Remove_spec:
  assumes ok: "dir_ok d"
  shows "if dir_map d (stored nm) = None then Directory_Remove d nm = Inr (False, d)
    else \<exists>d'. Directory_Remove d nm = Inr (True, d') \<and> dir_ok d' \<and> tableSize d' = tableSize d \<and>
      dir_map d' = (dir_map d)(stored nm := None)"
proof (cases "dir_map d (stored nm)")
  case None
  with FindIndex_spec [OF ok, of nm] show ?thesis by (auto simp: Directory_Remove_def)
next
  case (Some s)
  then obtain xs e ys where t: "table d = xs @ e # ys" "inUse e \<noteq> 0" "stored (name e) = stored nm"
    "Directory_FindIndex d nm = Inr (int (length xs))"
    using FindIndex_spec [OF ok, of nm] by auto
  let ?d = "d\<lparr>table := xs @ e\<lparr>inUse := 0\<rparr> # ys\<rparr>"
  have run: "Directory_Remove d nm = Inr (True, ?d)"
    using t by (simp add: Directory_Remove_def aget_def aset_def)
  have p: "pairs (table d) = pairs xs @ (stored nm, sector e) # pairs ys"
    and p': "pairs (table ?d) = pairs xs @ pairs ys"
    using t by (simp_all add: pairs_Cons)
  have dist: "distinct (map fst (pairs xs @ (stored nm, sector e) # pairs ys))"
    using ok p by (simp add: dir_ok_def)
  have "dir_map ?d = (dir_map d)(stored nm := None)"
    unfolding dir_map_def p p' by (rule map_of_delete_middle [OF dist])
  moreover have "dir_ok ?d"
    using ok dist unfolding dir_ok_def p p' by (auto simp: t(1) entry_typed_def)
  ultimately show ?thesis using Some run by auto
qed

lemma in_use_table:
  assumes "length t = n" and "\<forall>j < n. inUse (t ! j) = 0"
  shows "pairs t = []"
  using assms by (auto simp: pairs_def filter_empty_conv in_set_conv_nth)

lemma Directory_new_spec:
  assumes "length raw = 20 * nat n" and "0 \<le> n"
  shows "\<exists>d. Directory_new raw n = Inr d \<and> dir_ok d \<and> tableSize d = n \<and> dir_map d = Map.empty \<and>
    (\<forall>e \<in> set (table d). inUse e = 0)"
proof -
  let ?d = "\<lparr>tableSize = n, table = table_of_bytes (nat n) raw\<rparr>"
  let ?P = "\<lambda>i d. tableSize d = n \<and> int (length (table d)) = n \<and>
    (\<forall>e \<in> set (table d). entry_typed e) \<and> (\<forall>j. int j < i \<longrightarrow> inUse (table d ! j) = 0)"
  have "?P 0 ?d"
    using table_of_bytes_typed [OF assms(1)] assms(2) by (auto simp: table_of_bytes_def)
  then have "\<exists>d. for_range 0 n (\<lambda>i d. rbind (aget (table d) i) (\<lambda>e.
      rbind (aset (table d) i (e\<lparr>inUse := 0\<rparr>)) (\<lambda>t. Inr (d\<lparr>table := t\<rparr>)))) ?d = Inr d \<and> ?P n d"
  proof (rule for_range_rule [OF _ assms(2)])
    fix j d assume j: "0 \<le> j" "j < n" and P: "?P j d"
    let ?e = "(table d ! nat j)\<lparr>inUse := 0\<rparr>"
    let ?d' = "d\<lparr>table := (table d)[nat j := ?e]\<rparr>"
    have n: "nat j < length (table d)" using j P by linarith
    have "?P (j + 1) ?d'"
    proof (intro conjI ballI allI impI)
      fix e assume "e \<in> set (table ?d')"
      then have "e \<in> insert ?e (set (table d))"
        using set_update_subset_insert [of "table d" "nat j" ?e] by auto
      then show "entry_typed e" using P nth_mem [OF n] by (auto simp: entry_typed_def)
    next
      fix i assume "int i < j + 1"
      then show "inUse (table ?d' ! i) = 0"
        using P n by (cases "i = nat j") (auto simp: nth_list_update)
    qed (use P in auto)
    with j P show "\<exists>d'. rbind (aget (table d) j) (\<lambda>e. rbind (aset (table d) j (e\<lparr>inUse := 0\<rparr>))
        (\<lambda>t. Inr (d\<lparr>table := t\<rparr>))) = Inr d' \<and> ?P (j + 1) d'"
      by simp
  qed
  then obtain d where d: "Directory_new raw n = Inr d" "?P n d"
    unfolding Directory_new_def by blast
  then have p: "pairs (table d) = []" by (intro in_use_table [OF refl]) auto
  have "\<forall>e \<in> set (table d). inUse e = 0" using d(2) by (auto simp: in_set_conv_nth)
  with d p show ?thesis by (auto simp: dir_ok_def dir_map_def)
qed

lemma ten_split:
  assumes "length xs = 10"
  shows "xs = take 9 xs @ [xs ! 9]"
proof -
  have "take (Suc 9) xs = take 9 xs @ [xs ! 9]" using assms by (intro take_Suc_conv_app_nth) simp
  then show ?thesis using assms by simp
qed

text \<open>\<open>List\<close> prints the stored names in table order, when every name in use is terminated.\<close>

lemma List_spec:
  assumes ok: "dir_ok d" and nul: "\<forall>e \<in> set (table d). inUse e \<noteq> 0 \<longrightarrow> name e ! 9 = 0"
  shows "Directory_List d = Inr (map fst (pairs (table d)))"
proof -
  let ?body = "\<lambda>i out. rbind (aget (table d) i) (\<lambda>e.
    if inUse e \<noteq> 0 then rbind (printf_s (name e)) (\<lambda>s. Inr (out @ [s])) else Inr out)"
  have sz: "tableSize d = int (length (table d))" using ok by (simp add: dir_ok_def)
  have "\<exists>out. for_range 0 (tableSize d) ?body [] = Inr out \<and>
      out = map fst (pairs (take (nat (tableSize d)) (table d)))"
  proof (rule for_range_rule)
    fix j out assume j: "0 \<le> j" "j < tableSize d"
      and out: "out = map fst (pairs (take (nat j) (table d)))"
    let ?e = "table d ! nat j"
    have e: "?e \<in> set (table d)" using j sz by (intro nth_mem) linarith
    have take: "take (nat (j + 1)) (table d) = take (nat j) (table d) @ [?e]"
      using j sz by (intro take_nat_Suc) auto
    have "printf_s (name ?e) = Inr (stored (name ?e))" if "inUse ?e \<noteq> 0"
    proof -
      have len: "length (name ?e) = 10" using ok e by (simp add: dir_ok_def entry_typed_def)
      then have split: "name ?e = take 9 (name ?e) @ [name ?e ! 9]"
        by (rule ten_split)
      have z: "name ?e ! 9 = 0" using nul e that by blast
      then have "takeWhile (\<lambda>b. b \<noteq> 0) (name ?e) = takeWhile (\<lambda>b. b \<noteq> 0) (take 9 (name ?e))"
        by (subst split) (simp only: z takeWhile_append_zero)
      also have "\<dots> = take 9 (takeWhile (\<lambda>b. b \<noteq> 0) (name ?e))"
        by (rule takeWhile_take)
      finally have "takeWhile (\<lambda>b. b \<noteq> 0) (name ?e) = stored (name ?e)"
        by (simp add: stored_def FileNameMaxLen_def)
      moreover have "0 \<in> set (name ?e)" using nth_mem [of 9 "name ?e"] z len by simp
      ultimately show ?thesis by (simp add: printf_s_def)
    qed
    with j sz out take show "\<exists>t. ?body j out = Inr t \<and> t = map fst (pairs (take (nat (j + 1)) (table d)))"
      by (auto simp: pairs_Cons)
  qed (use sz in auto)
  with sz show ?thesis by (simp add: Directory_List_def)
qed

subsection \<open>The directory file\<close>

context sector_device
begin

lemma directory_fetch_law:
  assumes "header_ok (hdr f)" and "ok w" and "numBytes (hdr f) = 20 * int n" and "0 < n"
    and "\<forall>e \<in> set (table d). entry_typed e" and "length (table d) = n" and "tableSize d = int n"
  shows "\<exists>w'. Directory_FetchFrom E d f w =
      Inr (d\<lparr>table := table_of_bytes n (file_bytes (hdr f) (sectors w))\<rparr>, w') \<and>
    ok w' \<and> sectors w' = sectors w"
proof -
  have size: "numBytes (hdr f) \<le> 3840" using assms(1) by (simp add: header_ok_def MaxFileSize_value)
  have len: "int (length (table_bytes (table d))) = 20 * int n"
    using length_table_bytes [OF assms(5)] assms(6) by simp
  obtain w' where "OpenFile_ReadAt E f (table_bytes (table d)) 0 (20 * int n) 0 w =
      Inr (20 * int n, take (nat (20 * int n)) (file_bytes (hdr f) (sectors w)) @
        drop (nat (20 * int n)) (table_bytes (table d)), w')"
    "ok w'" "sectors w' = sectors w"
    using ReadAt_list [OF assms(1,2), of "20 * int n" 0 "20 * int n" 0 "table_bytes (table d)"]
      assms(3,4) len size by (auto simp: in_int_def int_min_def int_max_def)
  moreover have "take (nat (20 * int n)) (file_bytes (hdr f) (sectors w)) = file_bytes (hdr f) (sectors w)"
    using assms(3) by simp
  moreover have "drop (nat (20 * int n)) (table_bytes (table d)) = []" using len by simp
  ultimately show ?thesis
    using assms(6,7) by (auto simp: Directory_FetchFrom_def sizeof_DirectoryEntry_def mult.commute)
qed

lemma directory_write_law:
  assumes "header_ok (hdr f)" and "ok w" and "numBytes (hdr f) = 20 * int n" and "0 < n"
    and "\<forall>e \<in> set (table d). entry_typed e" and "length (table d) = n" and "tableSize d = int n"
  shows "\<exists>w'. Directory_WriteBack E d f w = Inr w' \<and> ok w' \<and>
    (\<forall>s. s \<notin> set (data_list (hdr f)) \<longrightarrow> sectors w' s = sectors w s) \<and>
    file_bytes (hdr f) (sectors w') = table_bytes (table d)"
proof -
  have size: "numBytes (hdr f) \<le> 3840" using assms(1) by (simp add: header_ok_def MaxFileSize_value)
  have len: "int (length (table_bytes (table d))) = 20 * int n"
    using length_table_bytes [OF assms(5)] assms(6) by simp
  obtain w' where "OpenFile_WriteAt E f (table_bytes (table d)) (20 * int n) 0 w = Inr (20 * int n, w')"
    "ok w'" "\<forall>s. s \<notin> set (data_list (hdr f)) \<longrightarrow> sectors w' s = sectors w s"
    "file_bytes (hdr f) (sectors w') = take (nat (20 * int n)) (table_bytes (table d)) @
      drop (nat (20 * int n)) (file_bytes (hdr f) (sectors w))"
    using WriteAt_list [OF assms(1,2), of "20 * int n" 0 "20 * int n" "table_bytes (table d)"]
      assms(3,4) len size by (auto simp: in_int_def int_min_def int_max_def)
  moreover have "drop (nat (20 * int n)) (file_bytes (hdr f) (sectors w)) = []"
    using assms(3) by simp
  moreover have "take (nat (20 * int n)) (table_bytes (table d)) = table_bytes (table d)"
    using len by simp
  ultimately show ?thesis
    using assms(6,7) by (auto simp: Directory_WriteBack_def sizeof_DirectoryEntry_def mult.commute)
qed

end

subsection \<open>Properties\<close>

definition str :: "string \<Rightarrow> byte list" where
  "str s = map (\<lambda>c. of_nat (of_char c)) s"

lemma empty_directory_exists:
  "\<exists>d. Directory_new (replicate 200 1) 10 = Inr d \<and> dir_ok d \<and> dir_map d = Map.empty \<and> \<not> dir_full d"
proof -
  obtain d where d: "Directory_new (replicate 200 1) 10 = Inr d" "dir_ok d" "tableSize d = 10"
    "dir_map d = Map.empty" "\<forall>e \<in> set (table d). inUse e = 0"
    using Directory_new_spec [of "replicate 200 1" 10] by auto
  then have "table d \<noteq> []" by (auto simp: dir_ok_def)
  with d show ?thesis by (auto simp: dir_full_def neq_Nil_conv)
qed

text \<open>
  C24: A directory is a map from stored names, the first nine characters, to sectors. \<open>Find\<close>
  returns the sector of a name or -1; \<open>Add\<close> of a new name while an entry is free extends the
  map with it, and otherwise (the name is present, or the table is full) says false and changes
  nothing; \<open>Remove\<close> deletes the name, or says false and changes nothing when it is not there.
  Both keep the directory well formed, so no name is ever in it twice.
\<close>

theorem Directory_is_a_map:
  assumes "dir_ok d" and "in_int s"
  shows "Directory_Find d nm = Inr (case dir_map d (stored nm) of None \<Rightarrow> - 1 | Some t \<Rightarrow> t) \<and>
    (if dir_map d (stored nm) \<noteq> None \<or> dir_full d then Directory_Add d nm s = Inr (False, d)
     else \<exists>d'. Directory_Add d nm s = Inr (True, d') \<and> dir_ok d' \<and>
       dir_map d' = (dir_map d)(stored nm \<mapsto> s)) \<and>
    (if dir_map d (stored nm) = None then Directory_Remove d nm = Inr (False, d)
     else \<exists>d'. Directory_Remove d nm = Inr (True, d') \<and> dir_ok d' \<and>
       dir_map d' = (dir_map d)(stored nm := None))"
  using Find_spec_dir [OF assms(1), of nm] Add_spec [OF assms, of nm] Remove_spec [OF assms(1), of nm]
  by (auto split: if_splits)

theorem Directory_is_a_map_witness:
  "\<exists>d d'. Directory_new (replicate 200 1) 10 = Inr d \<and> Directory_Add d (str ''shell'') 17 = Inr (True, d') \<and>
    dir_map d' (stored (str ''shell'')) = Some 17"
proof -
  obtain d where d: "Directory_new (replicate 200 1) 10 = Inr d" "dir_ok d" "dir_map d = Map.empty"
    "\<not> dir_full d" using empty_directory_exists by blast
  then show ?thesis
    using Directory_is_a_map [OF d(2), of 17 "str ''shell''"]
    by (auto simp: in_int_def int_min_def int_max_def)
qed

text \<open>
  Names are compared and stored by their first nine characters only: after a file is added,
  every name that agrees with its name on those is found as that file, and can be neither added
  again nor told apart when it is removed.
\<close>

theorem Directory_names_truncated:
  assumes "dir_ok d" and "in_int s" and "Directory_Add d nm s = Inr (True, d')"
    and "stored other = stored nm"
  shows "Directory_Find d' other = Inr s \<and> Directory_Add d' other t = Inr (False, d') \<and>
    (\<exists>d''. Directory_Remove d' other = Inr (True, d'') \<and> Directory_Find d'' nm = Inr (- 1))"
proof -
  have d': "dir_ok d'" "dir_map d' = (dir_map d)(stored nm \<mapsto> s)"
    using Add_spec [OF assms(1,2), of nm] assms(3) by (auto split: if_splits)
  obtain d'' where d'': "Directory_Remove d' other = Inr (True, d'')" "dir_ok d''"
    "dir_map d'' = (dir_map d')(stored nm := None)"
    using Remove_spec [OF d'(1), of other] d'(2) assms(4) by auto
  have "Directory_Add d' other t = Inr (False, d')"
    using FindIndex_spec [OF d'(1), of other] d'(2) assms(4) by (auto simp: Directory_Add_def)
  then show ?thesis
    using d' d'' Find_spec_dir [OF d'(1), of other] Find_spec_dir [OF d''(2), of nm] assms(4) by auto
qed

theorem Directory_names_truncated_witness:
  "\<exists>d d'. Directory_new (replicate 200 1) 10 = Inr d \<and>
    Directory_Add d (str ''notebook-1'') 17 = Inr (True, d') \<and>
    Directory_Find d' (str ''notebook-2'') = Inr 17"
proof -
  obtain d where d: "Directory_new (replicate 200 1) 10 = Inr d" "dir_ok d" "dir_map d = Map.empty"
    "\<not> dir_full d" using empty_directory_exists by blast
  have s: "in_int 17" by (simp add: in_int_def int_min_def int_max_def)
  obtain d' where d': "Directory_Add d (str ''notebook-1'') 17 = Inr (True, d')"
    using Add_spec [OF d(2) s, of "str ''notebook-1''"] d(3,4) by auto
  have "stored (str ''notebook-2'') = stored (str ''notebook-1'')"
    by (simp add: stored_def str_def FileNameMaxLen_def)
  from Directory_names_truncated [OF d(2) s d' this] d(1) d' show ?thesis by blast
qed

text \<open>
  On every disk that keeps the sector contract, a directory written back to its file and
  fetched from it into any directory object of the same size is the same table, entry by entry.
\<close>

theorem Directory_disk_roundtrip:
  assumes "sector_device E ok sectors" and "ok w" and "header_ok (hdr f)"
    and "numBytes (hdr f) = tableSize d * sizeof_DirectoryEntry" and "0 < tableSize d"
    and "dir_ok d" and "dir_ok d0" and "tableSize d0 = tableSize d"
  shows "\<exists>w' w''. Directory_WriteBack E d f w = Inr w' \<and>
    Directory_FetchFrom E d0 f w' = Inr (d, w'')"
proof -
  let ?n = "length (table d)"
  have t: "\<forall>e \<in> set (table d). entry_typed e" "tableSize d = int ?n"
    "\<forall>e \<in> set (table d0). entry_typed e" "length (table d0) = ?n" "tableSize d0 = int ?n"
    using assms(6-8) by (auto simp: dir_ok_def)
  have n: "numBytes (hdr f) = 20 * int ?n" "0 < ?n"
    using assms(4,5) t(2) by (simp_all add: sizeof_DirectoryEntry_def)
  obtain w' where w': "Directory_WriteBack E d f w = Inr w'" "ok w'"
    "file_bytes (hdr f) (sectors w') = table_bytes (table d)"
    using sector_device.directory_write_law [OF assms(1), OF assms(3,2) n t(1) refl t(2)] by auto
  obtain w'' where "Directory_FetchFrom E d0 f w' =
      Inr (d0\<lparr>table := table_of_bytes ?n (table_bytes (table d))\<rparr>, w'')"
    using sector_device.directory_fetch_law [OF assms(1), OF assms(3) w'(2) n t(3-5)] w'(3) by auto
  moreover have "d0\<lparr>table := table d\<rparr> = d" using assms(8) by (cases d; cases d0) simp
  ultimately show ?thesis using w'(1) table_roundtrip [OF t(1) refl] by simp
qed

theorem Directory_disk_roundtrip_witness:
  "\<exists>d w' w''. Directory_new (replicate 200 1) 10 = Inr d \<and>
    Directory_WriteBack mem_env d sample_file blank_disk = Inr w' \<and>
    Directory_FetchFrom mem_env d sample_file w' = Inr (d, w'')"
proof -
  obtain d where d: "Directory_new (replicate 200 1) 10 = Inr d" "dir_ok d" "tableSize d = 10"
    using Directory_new_spec [of "replicate 200 1" 10] by auto
  then show ?thesis
    using Directory_disk_roundtrip [OF mem_disk.sector_device_axioms, OF blank_disk_ok, of sample_file d d]
      sample_header_ok
    by (simp add: sample_file_def sizeof_DirectoryEntry_def) (simp add: sample_header_def)
qed

lemma unterminated_name:
  "\<exists>d0 d1. Directory_new (replicate 20 1) 1 = Inr d0 \<and>
    Directory_Add d0 (str ''ninechars'') 17 = Inr (True, d1) \<and> Directory_List d1 = Inl OutOfBounds"
proof -
  define p :: "byte list" where "p = replicate 3 1 @ replicate 2 1"
  define x where "x = bytes_int (replicate 4 1)"
  let ?e = "\<lparr>inUse = 1, sector = x, name = replicate 10 1, de_pad = p\<rparr>"
  have e: "entry_of_bytes (replicate 20 1) = ?e"
    by (simp add: entry_of_bytes_def x_def p_def)
  have tb: "table_of_bytes 1 (replicate 20 1) = [?e]"
    by (simp add: table_of_bytes_def e)
  have new: "Directory_new (replicate 20 1) 1 = Inr \<lparr>tableSize = 1, table = [?e\<lparr>inUse := 0\<rparr>]\<rparr>"
    using tb by (simp add: Directory_new_def for_range_step)
  let ?d = "\<lparr>tableSize = 1, table = [?e\<lparr>inUse := 0\<rparr>]\<rparr>"
  let ?nm = "str ''ninechars'' @ [1]"
  have cpy: "strncpy (replicate 10 1) (str ''ninechars'') FileNameMaxLen = ?nm"
    by (simp add: strncpy_def str_def FileNameMaxLen_def)
  have add: "Directory_Add ?d (str ''ninechars'') 17 =
      Inr (True, \<lparr>tableSize = 1, table = [\<lparr>inUse = 1, sector = 17, name = ?nm, de_pad = p\<rparr>]\<rparr>)"
    using cpy by (simp add: Directory_Add_def Directory_FindIndex_def find_range.simps)
  have "printf_s ?nm = Inl OutOfBounds"
    by (simp add: printf_s_def str_def)
  then have "Directory_List \<lparr>tableSize = 1, table = [\<lparr>inUse = 1, sector = 17, name = ?nm, de_pad = p\<rparr>]\<rparr>
      = Inl OutOfBounds"
    by (simp add: Directory_List_def for_range_step)
  with new add show ?thesis by blast
qed

text \<open>
  \<open>List\<close> prints exactly the stored names of the entries in use when each of those names
  is terminated. But \<open>Add\<close> never writes the tenth byte of a name and the constructor leaves it
  as it was allocated: for a name of nine characters in such an entry \<open>List\<close> reads past the end
  of the name.
\<close>

theorem Directory_List_needs_terminator:
  assumes "dir_ok d"
  shows "((\<forall>e \<in> set (table d). inUse e \<noteq> 0 \<longrightarrow> name e ! 9 = 0) \<longrightarrow>
      Directory_List d = Inr (map fst (pairs (table d)))) \<and>
    (\<exists>d0 d1. Directory_new (replicate 20 1) 1 = Inr d0 \<and>
      Directory_Add d0 (str ''ninechars'') 17 = Inr (True, d1) \<and> Directory_List d1 = Inl OutOfBounds)"
proof (intro conjI impI)
  show "Directory_List d = Inr (map fst (pairs (table d)))"
    if "\<forall>e \<in> set (table d). inUse e \<noteq> 0 \<longrightarrow> name e ! 9 = 0"
    by (rule List_spec [OF assms that])
  show "\<exists>d0 d1. Directory_new (replicate 20 1) 1 = Inr d0 \<and>
      Directory_Add d0 (str ''ninechars'') 17 = Inr (True, d1) \<and> Directory_List d1 = Inl OutOfBounds"
    by (rule unterminated_name)
qed

theorem Directory_List_needs_terminator_witness:
  "\<exists>d. dir_ok d \<and> Directory_List d = Inr []"
proof -
  obtain d where d: "dir_ok d" "tableSize d = 10" "\<forall>e \<in> set (table d). inUse e = 0"
    using Directory_new_spec [of "replicate 200 1" 10] by auto
  then have "pairs (table d) = []" by (simp add: pairs_def filter_empty_conv)
  then show ?thesis using Directory_List_needs_terminator [OF d(1)] d by auto
qed

end
