(* ===== verification/File_System.thy ===== *)
theory File_System
  imports Directory
begin

section \<open>The file system, filesys/filesys.cc\<close>

text \<open>
  \<open>FileSystem\<close> keeps two open files, the bitmap of used sectors and the directory. Every
  operation reads both afresh, changes them in memory and, when it succeeds, writes them back.
  The lemmas show that the disk always holds a consistent file system (\<open>fs_ok\<close>): headers and
  data sectors of all files are pairwise disjoint and are exactly the marked sectors; and that,
  seen as a map from names to contents, the operations are insertion, lookup, update and
  deletion.
\<close>

definition BitsInByte :: int where "BitsInByte = 8"

definition FreeMapSector :: int where "FreeMapSector = 0"

definition DirectorySector :: int where "DirectorySector = 1"

definition FreeMapFileSize :: int where "FreeMapFileSize = NumSectors div BitsInByte"

definition NumDirEntries :: int where "NumDirEntries = 10"

definition DirectoryFileSize :: int where
  "DirectoryFileSize = sizeof_DirectoryEntry * NumDirEntries"

record FileSystem =
  freeMapFile :: OpenFile
  directoryFile :: OpenFile

subsection \<open>The bitmap in a file\<close>

definition words_bytes :: "32 word list \<Rightarrow> byte list" where
  "words_bytes ws = concat (map word_bytes ws)"

definition words_of_bytes :: "nat \<Rightarrow> byte list \<Rightarrow> 32 word list" where
  "words_of_bytes n bs = map (\<lambda>i. bytes_word (take 4 (drop (4 * i) bs))) [0..<n]"

definition BitMap_FetchFrom :: "'w fs_env \<Rightarrow> BitMap \<Rightarrow> OpenFile \<Rightarrow> 'w \<Rightarrow> (BitMap \<times> 'w) result" where
  "BitMap_FetchFrom E b file w =
     rbind (OpenFile_ReadAt E file (words_bytes (bwords b)) 0 (numWords b * 4) 0 w)
       (\<lambda>(_, bs, w'). Inr (b\<lparr>bwords := words_of_bytes (length (bwords b)) bs\<rparr>, w'))"

definition BitMap_WriteBack :: "'w fs_env \<Rightarrow> BitMap \<Rightarrow> OpenFile \<Rightarrow> 'w \<Rightarrow> 'w result" where
  "BitMap_WriteBack E b file w =
     rbind (OpenFile_WriteAt E file (words_bytes (bwords b)) (numWords b * 4) 0 w)
       (\<lambda>(_, w'). Inr w')"

subsection \<open>The objects the operations allocate\<close>

definition new_BitMap :: "'w fs_env \<Rightarrow> nat \<Rightarrow> 'w \<Rightarrow> BitMap result" where
  "new_BitMap E k w =
     BitMap_new (\<lambda>i. bytes_word (map (fresh_mem E k w) [4 * i..<4 * i + 4])) NumSectors"

definition new_Directory :: "'w fs_env \<Rightarrow> nat \<Rightarrow> 'w \<Rightarrow> Directory result" where
  "new_Directory E k w = Directory_new (new_bytes E k w DirectoryFileSize) NumDirEntries"

definition new_FileHeader :: "'w fs_env \<Rightarrow> nat \<Rightarrow> 'w \<Rightarrow> FileHeader" where
  "new_FileHeader E k w = FileHeader_of_bytes (new_bytes E k w SectorSize)"

subsection \<open>The operations\<close>

text \<open>\<open>dbg\<close> is \<open>DebugIsEnabled('f')\<close>; what it prints is dropped.\<close>

definition FileSystem_format :: "'w fs_env \<Rightarrow> bool \<Rightarrow> 'w \<Rightarrow> (FileSystem \<times> 'w) result" where
  "FileSystem_format E dbg w =
     rbind (new_BitMap E 0 w) (\<lambda>freeMap.
     rbind (new_Directory E 1 w) (\<lambda>directory.
     rbind (BitMap_Mark freeMap FreeMapSector) (\<lambda>freeMap.
     rbind (BitMap_Mark freeMap DirectorySector) (\<lambda>freeMap.
     rbind (FileHeader_Allocate (new_FileHeader E 2 w) freeMap FreeMapFileSize) (\<lambda>(ok1, mapHdr, freeMap).
     rbind (ASSERT ok1) (\<lambda>_.
     rbind (FileHeader_Allocate (new_FileHeader E 3 w) freeMap DirectoryFileSize) (\<lambda>(ok2, dirHdr, freeMap).
     rbind (ASSERT ok2) (\<lambda>_.
     rbind (FileHeader_WriteBack E mapHdr FreeMapSector w) (\<lambda>w.
     rbind (FileHeader_WriteBack E dirHdr DirectorySector w) (\<lambda>w.
     rbind (OpenFile_new E FreeMapSector w) (\<lambda>(mf, w).
     rbind (OpenFile_new E DirectorySector w) (\<lambda>(df, w).
     rbind (BitMap_WriteBack E freeMap mf w) (\<lambda>w.
     rbind (Directory_WriteBack E directory df w) (\<lambda>w.
     rbind (if dbg
            then rbind (BitMap_Print freeMap) (\<lambda>_. rbind (Directory_Print E directory w) (\<lambda>(_, w). Inr w))
            else Inr w) (\<lambda>w.
     Inr (\<lparr>freeMapFile = mf, directoryFile = df\<rparr>, w))))))))))))))))"

definition FileSystem_new :: "'w fs_env \<Rightarrow> bool \<Rightarrow> bool \<Rightarrow> 'w \<Rightarrow> (FileSystem \<times> 'w) result" where
  "FileSystem_new E dbg format w =
     (if format then FileSystem_format E dbg w
      else rbind (OpenFile_new E FreeMapSector w) (\<lambda>(mf, w).
           rbind (OpenFile_new E DirectorySector w) (\<lambda>(df, w).
           Inr (\<lparr>freeMapFile = mf, directoryFile = df\<rparr>, w))))"

definition FileSystem_Create ::
  "'w fs_env \<Rightarrow> FileSystem \<Rightarrow> byte list \<Rightarrow> int \<Rightarrow> 'w \<Rightarrow> (bool \<times> 'w) result" where
  "FileSystem_Create E fs nm initialSize w =
     rbind (new_Directory E 0 w) (\<lambda>directory.
     rbind (Directory_FetchFrom E directory (directoryFile fs) w) (\<lambda>(directory, w).
     rbind (Directory_Find directory nm) (\<lambda>found.
     if found \<noteq> - 1 then Inr (False, w)
     else rbind (new_BitMap E 1 w) (\<lambda>freeMap.
          rbind (BitMap_FetchFrom E freeMap (freeMapFile fs) w) (\<lambda>(freeMap, w).
          rbind (BitMap_Find freeMap) (\<lambda>(sector, freeMap).
          if sector = - 1 then Inr (False, w)
          else rbind (Directory_Add directory nm sector) (\<lambda>(added, directory).
               if \<not> added then Inr (False, w)
               else rbind (FileHeader_Allocate (new_FileHeader E 2 w) freeMap initialSize)
                      (\<lambda>(room, header, freeMap).
                    if \<not> room then Inr (False, w)
                    else rbind (FileHeader_WriteBack E header sector w) (\<lambda>w.
                         rbind (Directory_WriteBack E directory (directoryFile fs) w) (\<lambda>w.
                         rbind (BitMap_WriteBack E freeMap (freeMapFile fs) w) (\<lambda>w.
                         Inr (True, w))))))))))))"

definition FileSystem_Open ::
  "'w fs_env \<Rightarrow> FileSystem \<Rightarrow> byte list \<Rightarrow> 'w \<Rightarrow> (OpenFile option \<times> 'w) result" where
  "FileSystem_Open E fs nm w =
     rbind (new_Directory E 0 w) (\<lambda>directory.
     rbind (Directory_FetchFrom E directory (directoryFile fs) w) (\<lambda>(directory, w).
     rbind (Directory_Find directory nm) (\<lambda>sector.
     if sector \<ge> 0 then rbind (OpenFile_new E sector w) (\<lambda>(f, w). Inr (Some f, w))
     else Inr (None, w))))"

definition FileSystem_Remove ::
  "'w fs_env \<Rightarrow> FileSystem \<Rightarrow> byte list \<Rightarrow> 'w \<Rightarrow> (bool \<times> 'w) result" where
  "FileSystem_Remove E fs nm w =
     rbind (new_Directory E 0 w) (\<lambda>directory.
     rbind (Directory_FetchFrom E directory (directoryFile fs) w) (\<lambda>(directory, w).
     rbind (Directory_Find directory nm) (\<lambda>sector.
     if sector = - 1 then Inr (False, w)
     else rbind (FileHeader_FetchFrom E sector w) (\<lambda>(fileHdr, w).
          rbind (new_BitMap E 1 w) (\<lambda>freeMap.
          rbind (BitMap_FetchFrom E freeMap (freeMapFile fs) w) (\<lambda>(freeMap, w).
          rbind (FileHeader_Deallocate fileHdr freeMap) (\<lambda>freeMap.
          rbind (BitMap_Clear freeMap sector) (\<lambda>freeMap.
          rbind (Directory_Remove directory nm) (\<lambda>(_, directory).
          rbind (BitMap_WriteBack E freeMap (freeMapFile fs) w) (\<lambda>w.
          rbind (Directory_WriteBack E directory (directoryFile fs) w) (\<lambda>w.
          Inr (True, w))))))))))))"

definition FileSystem_List :: "'w fs_env \<Rightarrow> FileSystem \<Rightarrow> 'w \<Rightarrow> (byte list list \<times> 'w) result" where
  "FileSystem_List E fs w =
     rbind (new_Directory E 0 w) (\<lambda>directory.
     rbind (Directory_FetchFrom E directory (directoryFile fs) w) (\<lambda>(directory, w).
     rbind (Directory_List directory) (\<lambda>out. Inr (out, w))))"

definition FileSystem_Print ::
  "'w fs_env \<Rightarrow> FileSystem \<Rightarrow> 'w \<Rightarrow>
    (((int list \<times> printed list list) \<times> (int list \<times> printed list list) \<times> int list \<times>
      (byte list \<times> int \<times> int list \<times> printed list list) list) \<times> 'w) result" where
  "FileSystem_Print E fs w =
     rbind (new_BitMap E 2 w) (\<lambda>freeMap.
     rbind (new_Directory E 3 w) (\<lambda>directory.
     rbind (FileHeader_FetchFrom E FreeMapSector w) (\<lambda>(bitHdr, w).
     rbind (FileHeader_Print E bitHdr w) (\<lambda>(out1, w).
     rbind (FileHeader_FetchFrom E DirectorySector w) (\<lambda>(dirHdr, w).
     rbind (FileHeader_Print E dirHdr w) (\<lambda>(out2, w).
     rbind (BitMap_FetchFrom E freeMap (freeMapFile fs) w) (\<lambda>(freeMap, w).
     rbind (BitMap_Print freeMap) (\<lambda>out3.
     rbind (Directory_FetchFrom E directory (directoryFile fs) w) (\<lambda>(directory, w).
     rbind (Directory_Print E directory w) (\<lambda>(out4, w).
     Inr ((out1, out2, out3, out4), w)))))))))))"

subsection \<open>What the disk holds\<close>

definition header_at :: "(int \<Rightarrow> byte list) \<Rightarrow> int \<Rightarrow> FileHeader" where
  "header_at D s = FileHeader_of_bytes (D s)"

definition map_in :: "FileHeader \<Rightarrow> (int \<Rightarrow> byte list) \<Rightarrow> BitMap" where
  "map_in h D = \<lparr>numBits = 1024, numWords = 32, bwords = words_of_bytes 32 (file_bytes h D)\<rparr>"

definition dir_in :: "FileHeader \<Rightarrow> (int \<Rightarrow> byte list) \<Rightarrow> Directory" where
  "dir_in h D = \<lparr>tableSize = 10, table = table_of_bytes 10 (file_bytes h D)\<rparr>"

text \<open>The sectors of the file whose header is in sector \<open>s\<close>; the files of the system.\<close>

definition owned :: "(int \<Rightarrow> byte list) \<Rightarrow> int \<Rightarrow> int set" where
  "owned D s = insert s (set (data_list (header_at D s)))"

definition fs_dir :: "(int \<Rightarrow> byte list) \<Rightarrow> byte list \<Rightarrow> int option" where
  "fs_dir D = dir_map (dir_in (header_at D DirectorySector) D)"

definition file_sectors :: "(int \<Rightarrow> byte list) \<Rightarrow> int set" where
  "file_sectors D = {FreeMapSector, DirectorySector} \<union> ran (fs_dir D)"

definition fs_map :: "(int \<Rightarrow> byte list) \<Rightarrow> int set" where
  "fs_map D = marked (map_in (header_at D FreeMapSector) D)"

definition fs_ok :: "(int \<Rightarrow> byte list) \<Rightarrow> bool" where
  "fs_ok D \<longleftrightarrow>
     numBytes (header_at D FreeMapSector) = 128 \<and>
     numBytes (header_at D DirectorySector) = 200 \<and>
     dir_ok (dir_in (header_at D DirectorySector) D) \<and>
     (\<forall>s \<in> file_sectors D. sector_number s \<and> length (D s) = 128 \<and> header_ok (header_at D s) \<and>
        s \<notin> set (data_list (header_at D s))) \<and>
     (\<forall>s \<in> file_sectors D. \<forall>t \<in> file_sectors D. s \<noteq> t \<longrightarrow> owned D s \<inter> owned D t = {}) \<and>
     inj_on (fs_dir D) (dom (fs_dir D)) \<and>
     FreeMapSector \<notin> ran (fs_dir D) \<and> DirectorySector \<notin> ran (fs_dir D) \<and>
     fs_map D = (\<Union>s \<in> file_sectors D. owned D s)"

text \<open>The \<open>FileSystem\<close> object has the headers of the two files that are on the disk.\<close>

definition fs_open :: "FileSystem \<Rightarrow> (int \<Rightarrow> byte list) \<Rightarrow> bool" where
  "fs_open fs D \<longleftrightarrow> hdr (freeMapFile fs) = header_at D FreeMapSector \<and>
     hdr (directoryFile fs) = header_at D DirectorySector"

text \<open>The contents of the files, by stored name: what the file system is for its users.\<close>

definition fs_files :: "(int \<Rightarrow> byte list) \<Rightarrow> byte list \<Rightarrow> byte list option" where
  "fs_files D nm = map_option (\<lambda>s. file_bytes (header_at D s) D) (fs_dir D nm)"

subsection \<open>Encoding of the bitmap\<close>

lemma length_words_bytes [simp]: "length (words_bytes ws) = 4 * length ws"
  by (induction ws) (simp_all add: words_bytes_def)

lemma drop_words_bytes:
  "i < length ws \<Longrightarrow> take 4 (drop (4 * i) (words_bytes ws)) = word_bytes (ws ! i)"
proof (induction ws arbitrary: i)
  case Nil
  then show ?case by simp
next
  case (Cons w ws)
  then show ?case by (cases i) (simp_all add: words_bytes_def)
qed

lemma words_roundtrip: "n = length ws \<Longrightarrow> words_of_bytes n (words_bytes ws) = ws"
  unfolding words_of_bytes_def
  by (rule nth_equalityI) (auto simp: drop_words_bytes)

lemma length_words_of_bytes [simp]: "length (words_of_bytes n bs) = n"
  by (simp add: words_of_bytes_def)

lemma bitmap_ok_map_in: "bitmap_ok (map_in h D)"
  by (simp add: bitmap_ok_def map_in_def divRoundUp_def BitsInWord_def)

lemma map_in_unique:
  assumes "bitmap_ok b" and "numBits b = 1024" and "file_bytes h D = words_bytes (bwords b)"
  shows "map_in h D = b"
proof -
  have "numWords b = 32" "length (bwords b) = 32"
    using assms(1,2) by (auto simp: bitmap_ok_def divRoundUp_def BitsInWord_def)
  then show ?thesis using assms(2,3) by (cases b) (simp add: map_in_def words_roundtrip)
qed

lemma dir_in_unique:
  assumes "dir_ok d" and "tableSize d = 10" and "file_bytes h D = table_bytes (table d)"
  shows "dir_in h D = d"
  using assms by (cases d) (simp add: dir_in_def dir_ok_def table_roundtrip)

lemma file_bytes_cong:
  assumes h: "header_ok h" and same: "\<And>s. s \<in> set (data_list h) \<Longrightarrow> D' s = D s"
  shows "file_bytes h D' = file_bytes h D"
proof -
  have "file_byte h D' (int k) = file_byte h D (int k)" if "k < nat (numBytes h)" for k
  proof -
    have "int k div 128 * 128 \<le> int k" by presburger
    then have "0 \<le> int k div 128" "int k div 128 * 128 < numBytes h" using that by linarith+
    from header_sector(5) [OF h this] same show ?thesis by (simp add: file_byte_def)
  qed
  then show ?thesis by (simp add: file_bytes_def)
qed

subsection \<open>Consistency under change\<close>

lemma fs_sectors [simp]: "FreeMapSector = 0" "DirectorySector = 1"
  by (simp_all add: FreeMapSector_def DirectorySector_def)

lemma fs_ok_file:
  assumes "fs_ok D" and "s \<in> file_sectors D"
  shows "sector_number s" and "length (D s) = 128" and "header_ok (header_at D s)"
    and "s \<notin> set (data_list (header_at D s))" and "owned D s \<subseteq> fs_map D"
  using assms by (auto simp: fs_ok_def)

lemma fs_ok_system:
  assumes "fs_ok D"
  shows "numBytes (header_at D 0) = 128" and "numBytes (header_at D 1) = 200"
    and "dir_ok (dir_in (header_at D 1) D)" and "header_ok (header_at D 0)" and "header_ok (header_at D 1)"
  using assms by (simp_all add: fs_ok_def FreeMapSector_def DirectorySector_def file_sectors_def)

lemma map_in_facts [simp]: "bitmap_ok (map_in h D)" "numBits (map_in h D) = 1024"
  by (rule bitmap_ok_map_in) (simp add: map_in_def)

lemma dir_in_size [simp]: "tableSize (dir_in h D) = 10"
  by (simp add: dir_in_def)

lemma fs_open_hdr:
  assumes "fs_open fs D"
  shows "hdr (freeMapFile fs) = header_at D 0" and "hdr (directoryFile fs) = header_at D 1"
  using assms by (simp_all add: fs_open_def FreeMapSector_def DirectorySector_def)

lemma fs_ok_disjoint:
  "fs_ok D \<Longrightarrow> s \<in> file_sectors D \<Longrightarrow> t \<in> file_sectors D \<Longrightarrow> s \<noteq> t \<Longrightarrow> owned D s \<inter> owned D t = {}"
  by (simp add: fs_ok_def)

lemma fs_ok_map: "fs_ok D \<Longrightarrow> fs_map D = (\<Union>s \<in> file_sectors D. owned D s)"
  by (simp add: fs_ok_def)

lemma system_files [simp]: "0 \<in> file_sectors D" "1 \<in> file_sectors D"
  by (simp_all add: file_sectors_def)

lemma file_sector_outside:
  assumes ok: "fs_ok D" and s: "s \<in> file_sectors D" and t: "t \<in> file_sectors D"
  shows "s \<notin> set (data_list (header_at D t))"
  using fs_ok_disjoint [OF ok s t] fs_ok_file(4) [OF ok s] by (cases "s = t") (auto simp: owned_def)

text \<open>
  A change of the disk that spares every marked sector except the data of the bitmap and of the
  directory leaves all headers and the contents of all files as they were.
\<close>

lemma fs_frame:
  assumes ok: "fs_ok D"
    and same: "\<And>t. t \<in> fs_map D \<Longrightarrow> t \<notin> set (data_list (header_at D 0)) \<Longrightarrow>
      t \<notin> set (data_list (header_at D 1)) \<Longrightarrow> D' t = D t"
  shows "r \<in> file_sectors D \<Longrightarrow> D' r = D r"
    and "r \<in> ran (fs_dir D) \<Longrightarrow> file_bytes (header_at D r) D' = file_bytes (header_at D r) D"
proof -
  show hd: "D' r = D r" if r: "r \<in> file_sectors D" for r
  proof (rule same)
    show "r \<in> fs_map D" using fs_ok_file(5) [OF ok r] by (auto simp: owned_def)
  qed (simp_all add: file_sector_outside [OF ok r])
  assume "r \<in> ran (fs_dir D)"
  then have r: "r \<in> file_sectors D" "r \<noteq> 0" "r \<noteq> 1"
    using ok by (auto simp: file_sectors_def fs_ok_def)
  show "file_bytes (header_at D r) D' = file_bytes (header_at D r) D"
  proof (rule file_bytes_cong [OF fs_ok_file(3) [OF ok r(1)]])
    fix s assume s: "s \<in> set (data_list (header_at D r))"
    show "D' s = D s"
    proof (rule same)
      show "s \<in> fs_map D" using fs_ok_file(5) [OF ok r(1)] s by (auto simp: owned_def)
      show "s \<notin> set (data_list (header_at D 0))" "s \<notin> set (data_list (header_at D 1))"
        using s fs_ok_disjoint [OF ok r(1), of 0] fs_ok_disjoint [OF ok r(1), of 1] r(2,3)
        by (auto simp: owned_def)
    qed
  qed
qed

text \<open>The change that adds the file \<open>k\<close> with the header \<open>h\<close> in the sector \<open>s\<close>.\<close>

lemma fs_add_file:
  assumes ok: "fs_ok D"
    and new: "fs_dir D k = None" "s \<notin> fs_map D" "sector_number s"
    and h: "header_ok h" "set (data_list h) \<inter> insert s (fs_map D) = {}"
    and d: "dir_ok d" "tableSize d = 10" "dir_map d = (fs_dir D)(k \<mapsto> s)"
    and m: "bitmap_ok m" "numBits m = 1024" "marked m = insert s (fs_map D) \<union> set (data_list h)"
    and D': "D' s = FileHeader_bytes h"
      "file_bytes (header_at D 1) D' = table_bytes (table d)"
      "file_bytes (header_at D 0) D' = words_bytes (bwords m)"
      "\<And>t. t \<noteq> s \<Longrightarrow> t \<notin> set (data_list (header_at D 0)) \<Longrightarrow>
        t \<notin> set (data_list (header_at D 1)) \<Longrightarrow> D' t = D t"
  shows "fs_ok D'" and "fs_dir D' = (fs_dir D)(k \<mapsto> s)"
    and "\<forall>r \<in> {0, 1}. header_at D' r = header_at D r"
    and "fs_files D' = (fs_files D)(k \<mapsto> file_bytes h D')"
proof -
  have same: "D' t = D t" if "t \<in> fs_map D" "t \<notin> set (data_list (header_at D 0))"
    "t \<notin> set (data_list (header_at D 1))" for t
    by (rule D'(4)) (use that new(2) in auto)
  have frame: "r \<in> file_sectors D \<Longrightarrow> D' r = D r"
    "r \<in> ran (fs_dir D) \<Longrightarrow> file_bytes (header_at D r) D' = file_bytes (header_at D r) D" for r
    using fs_frame [OF ok, of D'] same by blast+
  have hd: "header_at D' r = header_at D r" "owned D' r = owned D r" if "r \<in> file_sectors D" for r
    using frame(1) that by (auto simp: header_at_def owned_def)
  then show sys: "\<forall>r \<in> {0, 1}. header_at D' r = header_at D r" by simp
  have typed: "header_typed h" using h(1) by (simp add: header_ok_def)
  have hs: "header_at D' s = h" by (simp add: header_at_def D'(1) FileHeader_roundtrip [OF typed])
  have os: "owned D' s = insert s (set (data_list h))" by (simp add: owned_def hs)
  have dir: "dir_in (header_at D' 1) D' = d"
    using d D'(2) sys by (intro dir_in_unique) auto
  have map: "map_in (header_at D' 0) D' = m"
    using m D'(3) sys by (intro map_in_unique) auto
  show fsd: "fs_dir D' = (fs_dir D)(k \<mapsto> s)" by (simp add: fs_dir_def dir d(3))
  have files: "file_sectors D' = insert s (file_sectors D)"
    using new(1) by (simp add: file_sectors_def fsd insert_commute)
  have s_new: "s \<notin> file_sectors D" using fs_ok_file(5) [OF ok, of s] new(2) by (auto simp: owned_def)
  have disj: "owned D' s \<inter> owned D' r = {}" if "r \<in> file_sectors D" for r
    using fs_ok_file(5) [OF ok that] hd(2) [OF that] h(2) new(2) by (auto simp: os)
  show "fs_ok D'"
    unfolding fs_ok_def
  proof (intro conjI ballI impI)
    show "numBytes (header_at D' FreeMapSector) = 128" "numBytes (header_at D' DirectorySector) = 200"
      using ok sys by (simp_all add: fs_ok_def)
    show "dir_ok (dir_in (header_at D' DirectorySector) D')" using dir d(1) by simp
    fix r assume r: "r \<in> file_sectors D'"
    have "sector_number r \<and> length (D' r) = 128 \<and> header_ok (header_at D' r) \<and>
        r \<notin> set (data_list (header_at D' r))"
    proof (cases "r = s")
      case True
      have "s \<notin> set (data_list h)" using h(2) by blast
      then show ?thesis
        unfolding True hs D'(1) using FileHeader_bytes_length [OF typed] h(1) new(3) by simp
    next
      case False
      then have "r \<in> file_sectors D" using r by (simp add: files)
      then show ?thesis using fs_ok_file(1-4) [OF ok] frame(1) hd(1) by simp
    qed
    then show "sector_number r" "length (D' r) = 128" "header_ok (header_at D' r)"
      "r \<notin> set (data_list (header_at D' r))" by blast+
    fix t assume t: "t \<in> file_sectors D'" and ne: "r \<noteq> t"
    consider "r = s" "t \<in> file_sectors D" | "t = s" "r \<in> file_sectors D"
      | "r \<in> file_sectors D" "t \<in> file_sectors D"
      using r t ne by (auto simp: files)
    then show "owned D' r \<inter> owned D' t = {}"
    proof cases
      case 1
      then show ?thesis using disj by simp
    next
      case 2
      then show ?thesis using disj by (simp add: Int_commute)
    next
      case 3
      then show ?thesis using fs_ok_disjoint [OF ok _ _ ne] hd(2) by simp
    qed
  next
    show "inj_on (fs_dir D') (dom (fs_dir D'))"
      using ok s_new unfolding fsd by (auto simp: fs_ok_def inj_on_def file_sectors_def ran_def)
    show "FreeMapSector \<notin> ran (fs_dir D')" "DirectorySector \<notin> ran (fs_dir D')"
      using ok s_new new(1) by (auto simp: fsd fs_ok_def file_sectors_def)
    show "fs_map D' = (\<Union>r \<in> file_sectors D'. owned D' r)"
      using fs_ok_map [OF ok] hd(2) by (simp add: fs_map_def map m(3) files os Un_commute)
  qed
  have "fs_files D' x = ((fs_files D)(k \<mapsto> file_bytes h D')) x" for x
  proof (cases "x = k")
    case True
    then show ?thesis by (simp add: fs_files_def fsd hs)
  next
    case False
    show ?thesis
    proof (cases "fs_dir D x")
      case (Some r)
      then have "r \<in> ran (fs_dir D)" by (rule ranI)
      then show ?thesis
        using Some False hd(1) frame(2) by (simp add: fs_files_def fsd file_sectors_def)
    qed (simp add: fs_files_def fsd False)
  qed
  then show "fs_files D' = (fs_files D)(k \<mapsto> file_bytes h D')" by (rule ext)
qed

text \<open>The change that removes the file \<open>k\<close>, whose header is in the sector \<open>s\<close>.\<close>

lemma fs_remove_file:
  assumes ok: "fs_ok D" and s: "fs_dir D k = Some s"
    and d: "dir_ok d" "tableSize d = 10" "dir_map d = (fs_dir D)(k := None)"
    and m: "bitmap_ok m" "numBits m = 1024" "marked m = fs_map D - owned D s"
    and D': "file_bytes (header_at D 1) D' = table_bytes (table d)"
      "file_bytes (header_at D 0) D' = words_bytes (bwords m)"
      "\<And>t. t \<notin> set (data_list (header_at D 0)) \<Longrightarrow>
        t \<notin> set (data_list (header_at D 1)) \<Longrightarrow> D' t = D t"
  shows "fs_ok D'" and "fs_dir D' = (fs_dir D)(k := None)"
    and "\<forall>r \<in> {0, 1}. header_at D' r = header_at D r"
    and "fs_files D' = (fs_files D)(k := None)"
proof -
  have same: "D' t = D t" if "t \<in> fs_map D" "t \<notin> set (data_list (header_at D 0))"
    "t \<notin> set (data_list (header_at D 1))" for t
    by (rule D'(3)) (use that in auto)
  have frame: "r \<in> file_sectors D \<Longrightarrow> D' r = D r"
    "r \<in> ran (fs_dir D) \<Longrightarrow> file_bytes (header_at D r) D' = file_bytes (header_at D r) D" for r
    using fs_frame [OF ok, of D'] same by blast+
  have hd: "header_at D' r = header_at D r" "owned D' r = owned D r" if "r \<in> file_sectors D" for r
    using frame(1) that by (auto simp: header_at_def owned_def)
  then show sys: "\<forall>r \<in> {0, 1}. header_at D' r = header_at D r" by simp
  have dir: "dir_in (header_at D' 1) D' = d"
    using d D'(1) sys by (intro dir_in_unique) auto
  have map: "map_in (header_at D' 0) D' = m"
    using m D'(2) sys by (intro map_in_unique) auto
  show fsd: "fs_dir D' = (fs_dir D)(k := None)" by (simp add: fs_dir_def dir d(3))
  have inj: "inj_on (fs_dir D) (dom (fs_dir D))" using ok by (simp add: fs_ok_def)
  then have ran: "ran ((fs_dir D)(k := None)) = ran (fs_dir D) - {s}"
    using s by (auto simp: ran_def inj_on_def dom_def) (metis option.inject)
  have "s \<in> ran (fs_dir D)" using s by (rule ranI)
  then have s01: "s \<in> file_sectors D" "s \<noteq> 0" "s \<noteq> 1" using ok by (auto simp: fs_ok_def file_sectors_def)
  then have files: "file_sectors D' = file_sectors D - {s}" by (auto simp: file_sectors_def fsd ran)
  show "fs_ok D'"
    unfolding fs_ok_def
  proof (intro conjI ballI impI)
    show "numBytes (header_at D' FreeMapSector) = 128" "numBytes (header_at D' DirectorySector) = 200"
      using ok sys by (simp_all add: fs_ok_def)
    show "dir_ok (dir_in (header_at D' DirectorySector) D')" using dir d(1) by simp
    fix r assume "r \<in> file_sectors D'"
    then have r: "r \<in> file_sectors D" by (simp add: files)
    show "sector_number r" "length (D' r) = 128" "header_ok (header_at D' r)"
      "r \<notin> set (data_list (header_at D' r))"
      using fs_ok_file(1-4) [OF ok r] frame(1) [OF r] hd(1) [OF r] by simp_all
    fix t assume "t \<in> file_sectors D'" "r \<noteq> t"
    then show "owned D' r \<inter> owned D' t = {}"
      using r fs_ok_disjoint [OF ok r, of t] hd(2) by (simp add: files)
  next
    show "inj_on (fs_dir D') (dom (fs_dir D'))"
      using inj unfolding fsd by (auto simp: inj_on_def)
    show "FreeMapSector \<notin> ran (fs_dir D')" "DirectorySector \<notin> ran (fs_dir D')"
      using ok by (auto simp: fsd ran fs_ok_def)
    have "fs_map D - owned D s = (\<Union>r \<in> file_sectors D - {s}. owned D r)"
      using fs_ok_map [OF ok] fs_ok_disjoint [OF ok _ s01(1)] by blast
    then show "fs_map D' = (\<Union>r \<in> file_sectors D'. owned D' r)"
      using hd(2) by (simp add: fs_map_def map m(3) files)
  qed
  have "fs_files D' x = ((fs_files D)(k := None)) x" for x
  proof (cases "fs_dir D x")
    case (Some r)
    then have "r \<in> ran (fs_dir D)" by (rule ranI)
    then show ?thesis using Some hd(1) frame(2) by (simp add: fs_files_def fsd file_sectors_def)
  qed (simp add: fs_files_def fsd)
  then show "fs_files D' = (fs_files D)(k := None)" by (rule ext)
qed

text \<open>The change of the data of the file \<open>k\<close>, whose header is in the sector \<open>s\<close>.\<close>

lemma fs_change_data:
  assumes ok: "fs_ok D" and k: "fs_dir D k = Some s"
    and same: "\<And>t. t \<notin> set (data_list (header_at D s)) \<Longrightarrow> D' t = D t"
  shows "fs_ok D'" and "fs_dir D' = fs_dir D" and "\<forall>r \<in> file_sectors D. header_at D' r = header_at D r"
    and "fs_files D' = (fs_files D)(k \<mapsto> file_bytes (header_at D s) D')"
proof -
  have "s \<in> ran (fs_dir D)" using k by (rule ranI)
  then have s: "s \<in> file_sectors D" "s \<noteq> 0" "s \<noteq> 1" using ok by (auto simp: fs_ok_def file_sectors_def)
  have at: "D' r = D r" if "r \<in> file_sectors D" for r
    by (rule same) (rule file_sector_outside [OF ok that s(1)])
  then have hd: "header_at D' r = header_at D r" "owned D' r = owned D r" if "r \<in> file_sectors D" for r
    using that by (auto simp: header_at_def owned_def)
  then show hds: "\<forall>r \<in> file_sectors D. header_at D' r = header_at D r" by simp
  have bytes: "file_bytes (header_at D r) D' = file_bytes (header_at D r) D"
    if r: "r \<in> file_sectors D" "r \<noteq> s" for r
  proof (rule file_bytes_cong [OF fs_ok_file(3) [OF ok r(1)]])
    fix t assume "t \<in> set (data_list (header_at D r))"
    then show "D' t = D t"
      using fs_ok_disjoint [OF ok r(1) s(1) r(2)] by (intro same) (auto simp: owned_def)
  qed
  have dir: "dir_in (header_at D' 1) D' = dir_in (header_at D 1) D"
    using bytes [of 1] hd(1) [of 1] s by (simp add: dir_in_def)
  have map: "map_in (header_at D' 0) D' = map_in (header_at D 0) D"
    using bytes [of 0] hd(1) [of 0] s by (simp add: map_in_def)
  show fsd: "fs_dir D' = fs_dir D" by (simp add: fs_dir_def dir)
  have files: "file_sectors D' = file_sectors D" by (simp add: file_sectors_def fsd)
  have mp: "fs_map D' = fs_map D" by (simp add: fs_map_def map)
  show "fs_ok D'"
    using ok dir at hd unfolding fs_ok_def files fsd mp by simp
  have inj: "inj_on (fs_dir D) (dom (fs_dir D))" using ok by (simp add: fs_ok_def)
  have "fs_files D' x = ((fs_files D)(k \<mapsto> file_bytes (header_at D s) D')) x" for x
  proof (cases "x = k")
    case True
    then show ?thesis using k hd(1) [OF s(1)] by (simp add: fs_files_def fsd)
  next
    case False
    show ?thesis
    proof (cases "fs_dir D x")
      case (Some r)
      then have "r \<in> file_sectors D" by (auto simp: file_sectors_def intro: ranI)
      moreover have "r \<noteq> s" using inj Some k False by (auto simp: inj_on_def dom_def)
      ultimately show ?thesis using Some False hd(1) bytes by (simp add: fs_files_def fsd)
    qed (simp add: fs_files_def fsd False)
  qed
  then show "fs_files D' = (fs_files D)(k \<mapsto> file_bytes (header_at D s) D')" by (rule ext)
qed

subsection \<open>The operations on a consistent disk\<close>

text \<open>
  \<open>Create\<close> has room when the name is new, the directory has a free entry, and there is a free
  sector for the header besides those for the data.
\<close>

definition has_room :: "(int \<Rightarrow> byte list) \<Rightarrow> byte list \<Rightarrow> int \<Rightarrow> bool" where
  "has_room D nm n \<longleftrightarrow>
     fs_dir D (stored nm) = None \<and> \<not> dir_full (dir_in (header_at D 1) D) \<and>
     divRoundUp n SectorSize + 1 \<le> NumSectors - int (card (fs_map D))"

lemma new_BitMap_law:
  "\<exists>b. new_BitMap E k w = Inr b \<and> bitmap_ok b \<and> numBits b = 1024 \<and> marked b = {}"
  unfolding new_BitMap_def NumSectors_value by (rule BitMap_new_spec) simp

lemma new_Directory_law:
  "\<exists>d. new_Directory E k w = Inr d \<and> dir_ok d \<and> tableSize d = 10 \<and> dir_map d = Map.empty \<and>
    (\<forall>e \<in> set (table d). inUse e = 0)"
  unfolding new_Directory_def DirectoryFileSize_def NumDirEntries_def sizeof_DirectoryEntry_def
  by (rule Directory_new_spec) simp_all

lemma new_FileHeader_typed: "header_typed (new_FileHeader E k w)"
  unfolding new_FileHeader_def
  by (rule FileHeader_of_bytes_typed) (simp add: SectorSize_def)

context sector_device
begin

lemma bitmap_fetch_law:
  assumes "header_ok (hdr f)" and "ok w" and "numBytes (hdr f) = 128"
    and "bitmap_ok b" and "numBits b = 1024"
  shows "\<exists>w'. BitMap_FetchFrom E b f w = Inr (map_in (hdr f) (sectors w), w') \<and>
    ok w' \<and> sectors w' = sectors w"
proof -
  have b: "numWords b = 32" "length (bwords b) = 32"
    using assms(4,5) by (auto simp: bitmap_ok_def divRoundUp_def BitsInWord_def)
  obtain w' where "OpenFile_ReadAt E f (words_bytes (bwords b)) 0 128 0 w =
      Inr (128, take 128 (file_bytes (hdr f) (sectors w)) @ drop 128 (words_bytes (bwords b)), w')"
    "ok w'" "sectors w' = sectors w"
    using ReadAt_list [OF assms(1,2), of 128 0 128 0 "words_bytes (bwords b)"] assms(3) b(2)
    by (auto simp: in_int_def int_min_def int_max_def)
  moreover have "take 128 (file_bytes (hdr f) (sectors w)) = file_bytes (hdr f) (sectors w)"
    using assms(3) by simp
  ultimately show ?thesis
    using b assms(5) by (cases b) (simp add: BitMap_FetchFrom_def map_in_def)
qed

lemma bitmap_write_law:
  assumes "header_ok (hdr f)" and "ok w" and "numBytes (hdr f) = 128"
    and "bitmap_ok b" and "numBits b = 1024"
  shows "\<exists>w'. BitMap_WriteBack E b f w = Inr w' \<and> ok w' \<and>
    (\<forall>s. s \<notin> set (data_list (hdr f)) \<longrightarrow> sectors w' s = sectors w s) \<and>
    file_bytes (hdr f) (sectors w') = words_bytes (bwords b)"
proof -
  have b: "numWords b = 32" "length (bwords b) = 32"
    using assms(4,5) by (auto simp: bitmap_ok_def divRoundUp_def BitsInWord_def)
  obtain w' where "OpenFile_WriteAt E f (words_bytes (bwords b)) 128 0 w = Inr (128, w')"
    "ok w'" "\<forall>s. s \<notin> set (data_list (hdr f)) \<longrightarrow> sectors w' s = sectors w s"
    "file_bytes (hdr f) (sectors w') =
      take 128 (words_bytes (bwords b)) @ drop 128 (file_bytes (hdr f) (sectors w))"
    using WriteAt_list [OF assms(1,2), of 128 0 128 "words_bytes (bwords b)"] assms(3) b(2)
    by (auto simp: in_int_def int_min_def int_max_def)
  then show ?thesis using b assms(3) by (simp add: BitMap_WriteBack_def)
qed

text \<open>The first steps of every operation: the directory and the bitmap into memory.\<close>

lemma load_directory:
  assumes "fs_ok (sectors w)" and "fs_open fs (sectors w)" and "ok w"
  shows "\<exists>d w'. new_Directory E k w = Inr d \<and>
    Directory_FetchFrom E d (directoryFile fs) w =
      Inr (dir_in (header_at (sectors w) 1) (sectors w), w') \<and> ok w' \<and> sectors w' = sectors w"
proof -
  obtain d where d: "new_Directory E k w = Inr d" "dir_ok d" "tableSize d = 10"
    using new_Directory_law [of E k w] by auto
  then have t: "\<forall>e \<in> set (table d). entry_typed e" "length (table d) = 10" "tableSize d = int 10"
    by (auto simp: dir_ok_def)
  have h: "header_ok (hdr (directoryFile fs))" "numBytes (hdr (directoryFile fs)) = 20 * int 10"
    using fs_ok_system [OF assms(1)] by (simp_all add: fs_open_hdr [OF assms(2)])
  obtain w' where "Directory_FetchFrom E d (directoryFile fs) w =
      Inr (d\<lparr>table := table_of_bytes 10 (file_bytes (hdr (directoryFile fs)) (sectors w))\<rparr>, w')"
    "ok w'" "sectors w' = sectors w"
    using directory_fetch_law [OF h(1) assms(3) h(2) _ t] by auto
  moreover have "d\<lparr>table := t\<rparr> = \<lparr>tableSize = 10, table = t\<rparr>" for t using d(3) by (cases d) simp
  ultimately show ?thesis using d(1) by (auto simp: dir_in_def fs_open_hdr [OF assms(2)])
qed

lemma load_bitmap:
  assumes "fs_ok (sectors w)" and "fs_open fs (sectors w)" and "ok w"
  shows "\<exists>b w'. new_BitMap E k w = Inr b \<and>
    BitMap_FetchFrom E b (freeMapFile fs) w =
      Inr (map_in (header_at (sectors w) 0) (sectors w), w') \<and> ok w' \<and> sectors w' = sectors w"
proof -
  obtain b where b: "new_BitMap E k w = Inr b" "bitmap_ok b" "numBits b = 1024"
    using new_BitMap_law [of E k w] by auto
  have h: "header_ok (hdr (freeMapFile fs))" "numBytes (hdr (freeMapFile fs)) = 128"
    using fs_ok_system [OF assms(1)] by (simp_all add: fs_open_hdr [OF assms(2)])
  from bitmap_fetch_law [OF h(1) assms(3) h(2) b(2,3)] b(1) show ?thesis
    by (auto simp: fs_open_hdr [OF assms(2)])
qed

lemma fs_dir_sector:
  assumes "fs_ok (sectors w)" and "fs_dir (sectors w) k = Some s"
  shows "s \<in> file_sectors (sectors w)" and "sector_number s" and "0 \<le> s" and "s \<noteq> - 1"
proof -
  have "s \<in> ran (fs_dir (sectors w))" using assms(2) by (rule ranI)
  then show s: "s \<in> file_sectors (sectors w)" by (simp add: file_sectors_def)
  from fs_ok_file(1) [OF assms(1) s] show "sector_number s" "0 \<le> s" "s \<noteq> - 1"
    by (auto simp: sector_number_def)
qed

lemma dir_lookup:
  "fs_ok (sectors w) \<Longrightarrow> Directory_Find (dir_in (header_at (sectors w) 1) (sectors w)) nm =
    Inr (case fs_dir (sectors w) (stored nm) of None \<Rightarrow> - 1 | Some s \<Rightarrow> s)"
  by (subst Find_spec_dir) (simp_all add: fs_ok_system(3) fs_dir_def)

lemma Open_law:
  assumes ok: "fs_ok (sectors w)" and op: "fs_open fs (sectors w)" and w: "ok w"
  shows "\<exists>w'. FileSystem_Open E fs nm w =
      Inr (map_option (\<lambda>s. \<lparr>hdr = header_at (sectors w) s, seekPosition = 0\<rparr>)
             (fs_dir (sectors w) (stored nm)), w') \<and>
    ok w' \<and> sectors w' = sectors w"
proof -
  obtain d w1 where d: "new_Directory E 0 w = Inr d"
    "Directory_FetchFrom E d (directoryFile fs) w = Inr (dir_in (header_at (sectors w) 1) (sectors w), w1)"
    "ok w1" "sectors w1 = sectors w"
    using load_directory [OF ok op w] by blast
  show ?thesis
  proof (cases "fs_dir (sectors w) (stored nm)")
    case None
    then show ?thesis using d dir_lookup [OF ok, of nm] by (simp add: FileSystem_Open_def)
  next
    case (Some s)
    with new_file_law [OF d(3), of s] fs_dir_sector [OF ok Some] d dir_lookup [OF ok, of nm]
    show ?thesis by (auto simp: FileSystem_Open_def header_at_def)
  qed
qed

lemma Remove_law:
  assumes ok: "fs_ok (sectors w)" and op: "fs_open fs (sectors w)" and w: "ok w"
  shows "\<exists>w'. FileSystem_Remove E fs nm w = Inr (fs_dir (sectors w) (stored nm) \<noteq> None, w') \<and>
    ok w' \<and> fs_ok (sectors w') \<and> fs_open fs (sectors w') \<and>
    fs_dir (sectors w') = (fs_dir (sectors w))(stored nm := None) \<and>
    fs_files (sectors w') = (fs_files (sectors w))(stored nm := None) \<and>
    (fs_dir (sectors w) (stored nm) = None \<longrightarrow> sectors w' = sectors w)"
proof -
  let ?D = "sectors w"
  let ?d = "dir_in (header_at ?D 1) ?D" and ?m = "map_in (header_at ?D 0) ?D"
  obtain d w1 where d: "new_Directory E 0 w = Inr d"
    "Directory_FetchFrom E d (directoryFile fs) w = Inr (?d, w1)" "ok w1" "sectors w1 = ?D"
    using load_directory [OF ok op w] by blast
  show ?thesis
  proof (cases "fs_dir ?D (stored nm)")
    case None
    then have "(fs_dir ?D)(stored nm := None) = fs_dir ?D" "(fs_files ?D)(stored nm := None) = fs_files ?D"
      by (auto simp: fs_files_def)
    with None d ok op dir_lookup [OF ok, of nm] show ?thesis by (simp add: FileSystem_Remove_def)
  next
    case (Some s)
    note s = fs_dir_sector [OF ok Some]
    let ?h = "header_at ?D s"
    obtain w2 where w2: "FileHeader_FetchFrom E s w1 = Inr (?h, w2)" "ok w2" "sectors w2 = ?D"
      using header_fetch_law [OF d(3) s(2)] d(4) by (auto simp: header_at_def)
    obtain b w3 where w3: "new_BitMap E 1 w2 = Inr b"
      "BitMap_FetchFrom E b (freeMapFile fs) w2 = Inr (?m, w3)" "ok w3" "sectors w3 = ?D"
      using load_bitmap [of w2 fs 1] ok op w2(2,3) by auto
    have m: "bitmap_ok ?m" "numBits ?m = 1024" "marked ?m = fs_map ?D"
      by (simp_all add: fs_map_def)
    have own: "owned ?D s \<subseteq> marked ?m" using fs_ok_file(5) [OF ok s(1)] m(3) by simp
    obtain m1 where m1: "FileHeader_Deallocate ?h ?m = Inr m1" "bitmap_ok m1" "numBits m1 = 1024"
      "marked m1 = fs_map ?D - set (data_list ?h)"
      using Deallocate_spec [OF fs_ok_file(3) [OF ok s(1)] m(1)] own m(2,3) by (auto simp: owned_def)
    obtain m2 where m2: "BitMap_Clear m1 s = Inr m2" "bitmap_ok m2" "numBits m2 = 1024"
      "marked m2 = fs_map ?D - owned ?D s"
      using Clear_spec [OF m1(2), of s] m1(3,4) s(2)
      by (auto simp: owned_def sector_number_iff)
    have dok: "dir_ok ?d" by (rule fs_ok_system(3) [OF ok])
    have dmap: "dir_map ?d = fs_dir ?D" by (simp add: fs_dir_def)
    obtain d2 where d2: "Directory_Remove ?d nm = Inr (True, d2)" "dir_ok d2" "tableSize d2 = 10"
      "dir_map d2 = (fs_dir ?D)(stored nm := None)"
      using Remove_spec [OF dok, of nm] Some dmap by auto
    note mf = fs_open_hdr [OF op]
    have hok: "header_ok (header_at ?D 0)" "header_ok (header_at ?D 1)"
      "numBytes (header_at ?D 0) = 128" "numBytes (header_at ?D 1) = 20 * int 10"
      using fs_ok_system [OF ok] by simp_all
    obtain w4 where w4: "BitMap_WriteBack E m2 (freeMapFile fs) w3 = Inr w4" "ok w4"
      "\<forall>t. t \<notin> set (data_list (header_at ?D 0)) \<longrightarrow> sectors w4 t = ?D t"
      "file_bytes (header_at ?D 0) (sectors w4) = words_bytes (bwords m2)"
      using bitmap_write_law [of "freeMapFile fs" w3 m2] hok mf w3(3,4) m2(2,3) by auto
    have t2: "\<forall>e \<in> set (table d2). entry_typed e" "length (table d2) = 10" "tableSize d2 = int 10"
      using d2(2,3) by (auto simp: dir_ok_def)
    obtain w5 where w5: "Directory_WriteBack E d2 (directoryFile fs) w4 = Inr w5" "ok w5"
      "\<forall>t. t \<notin> set (data_list (header_at ?D 1)) \<longrightarrow> sectors w5 t = sectors w4 t"
      "file_bytes (header_at ?D 1) (sectors w5) = table_bytes (table d2)"
      using directory_write_law [of "directoryFile fs" w4 10 d2] hok mf w4(2) t2 by auto
    have disj: "set (data_list (header_at ?D 0)) \<inter> set (data_list (header_at ?D 1)) = {}"
      using fs_ok_disjoint [OF ok, of 0 1] by (auto simp: owned_def)
    have map_kept: "file_bytes (header_at ?D 0) (sectors w5) = words_bytes (bwords m2)"
      using file_bytes_cong [OF hok(1), of "sectors w5" "sectors w4"] w5(3) w4(4) disj by auto
    have other: "sectors w5 t = ?D t" if "t \<notin> set (data_list (header_at ?D 0))"
      "t \<notin> set (data_list (header_at ?D 1))" for t
      using w5(3) w4(3) that by simp
    note upd = fs_remove_file [OF ok Some d2(2-4) m2(2-4) w5(4) map_kept other]
    have "FileSystem_Remove E fs nm w = Inr (True, w5)"
      using d w2 w3 m1(1) m2(1) d2(1) w4(1) w5(1) Some s(4) dir_lookup [OF ok, of nm]
      by (simp add: FileSystem_Remove_def)
    with upd w5(2) op Some show ?thesis by (auto simp: fs_open_def)
  qed
qed

text \<open>The steps of \<open>Create\<close> up to the allocation of the data sectors.\<close>

lemma Create_prefix:
  assumes ok: "fs_ok (sectors w)" and op: "fs_open fs (sectors w)" and w: "ok w" and n: "0 \<le> n"
  defines "D \<equiv> sectors w"
  shows "(\<not> has_room D nm n \<longrightarrow>
      (\<exists>w'. FileSystem_Create E fs nm n w = Inr (False, w') \<and> ok w' \<and> sectors w' = D)) \<and>
    (has_room D nm n \<longrightarrow> (\<exists>s m d v h.
      sector_number s \<and> s \<notin> fs_map D \<and> bitmap_ok m \<and> numBits m = 1024 \<and> marked m = insert s (fs_map D) \<and>
      dir_ok d \<and> tableSize d = 10 \<and> dir_map d = (fs_dir D)(stored nm \<mapsto> s) \<and>
      ok v \<and> sectors v = D \<and> header_typed h \<and>
      divRoundUp n SectorSize \<le> numBits m - int (card (marked m)) \<and>
      FileSystem_Create E fs nm n w =
        rbind (FileHeader_Allocate h m n) (\<lambda>(room, header, freeMap).
          if \<not> room then Inr (False, v)
          else rbind (FileHeader_WriteBack E header s v) (\<lambda>w.
               rbind (Directory_WriteBack E d (directoryFile fs) w) (\<lambda>w.
               rbind (BitMap_WriteBack E freeMap (freeMapFile fs) w) (\<lambda>w. Inr (True, w)))))))"
proof -
  let ?d = "dir_in (header_at D 1) D" and ?m = "map_in (header_at D 0) D"
  obtain d0 w1 where d0: "new_Directory E 0 w = Inr d0"
    "Directory_FetchFrom E d0 (directoryFile fs) w = Inr (?d, w1)" "ok w1" "sectors w1 = D"
    using load_directory [OF ok op w] unfolding D_def by blast
  obtain b w2 where w2: "new_BitMap E 1 w1 = Inr b"
    "BitMap_FetchFrom E b (freeMapFile fs) w1 = Inr (?m, w2)" "ok w2" "sectors w2 = D"
    using load_bitmap [of w1 fs 1] ok op d0(3,4) unfolding D_def by auto
  note look = dir_lookup [OF ok, of nm, folded D_def]
  have m: "bitmap_ok ?m" "numBits ?m = 1024" "marked ?m = fs_map D" by (simp_all add: fs_map_def)
  have dok: "dir_ok ?d" and dmap: "dir_map ?d = fs_dir D"
    using fs_ok_system(3) [OF ok] by (simp_all add: fs_dir_def D_def)
  have k: "0 \<le> divRoundUp n SectorSize" by (rule sectors_of_size(1) [OF n])
  have fin: "finite (fs_map D)" unfolding fs_map_def by simp
  have sub: "fs_map D \<subseteq> {0..<1024}" using marked_range [of ?m] m by simp
  consider (found) s where "fs_dir D (stored nm) = Some s"
    | (full) "fs_dir D (stored nm) = None" "{0..<1024} \<subseteq> fs_map D"
    | (free) "fs_dir D (stored nm) = None" "\<not> {0..<1024} \<subseteq> fs_map D"
    by (cases "fs_dir D (stored nm)") auto
  then show ?thesis
  proof cases
    case found
    then have "s \<noteq> - 1" using fs_dir_sector(4) [OF ok] by (simp add: D_def)
    with found d0 look have "FileSystem_Create E fs nm n w = Inr (False, w1)"
      by (simp add: FileSystem_Create_def)
    with found d0 show ?thesis by (auto simp: has_room_def)
  next
    case full
    then have "fs_map D = {0..<1024}" using sub by blast
    then have "\<not> has_room D nm n" using k by (simp add: has_room_def NumSectors_value)
    moreover have "FileSystem_Create E fs nm n w = Inr (False, w2)"
      using full d0 look w2 Find_spec [OF m(1)] m by (simp add: FileSystem_Create_def)
    ultimately show ?thesis using w2 by blast
  next
    case free
    obtain s m1 where s: "BitMap_Find ?m = Inr (s, m1)" "0 \<le> s" "s < 1024" "s \<notin> fs_map D"
      "bitmap_ok m1" "numBits m1 = 1024" "marked m1 = insert s (fs_map D)"
      using Find_spec [OF m(1)] free m by auto
    have s': "s \<noteq> - 1" "sector_number s" "in_int s"
      using s by (simp_all add: sector_number_iff in_int_def int_min_def int_max_def)
    have create: "FileSystem_Create E fs nm n w =
        rbind (Directory_Add ?d nm s) (\<lambda>(added, directory).
          if \<not> added then Inr (False, w2)
          else rbind (FileHeader_Allocate (new_FileHeader E 2 w2) m1 n) (\<lambda>(room, header, freeMap).
            if \<not> room then Inr (False, w2)
            else rbind (FileHeader_WriteBack E header s w2) (\<lambda>w.
                 rbind (Directory_WriteBack E directory (directoryFile fs) w) (\<lambda>w.
                 rbind (BitMap_WriteBack E freeMap (freeMapFile fs) w) (\<lambda>w. Inr (True, w))))))"
      using d0(1,2) look free(1) w2(1,2) s(1) s'(1) by (simp add: FileSystem_Create_def)
    show ?thesis
    proof (cases "dir_full ?d")
      case True
      then have "FileSystem_Create E fs nm n w = Inr (False, w2)"
        using create Add_spec [OF dok s'(3), of nm] by simp
      with True w2 show ?thesis by (auto simp: has_room_def)
    next
      case False
      then obtain d where d: "Directory_Add ?d nm s = Inr (True, d)" "dir_ok d" "tableSize d = 10"
        "dir_map d = (fs_dir D)(stored nm \<mapsto> s)"
        using Add_spec [OF dok s'(3), of nm] free(1) dmap by auto
      have card: "int (card (marked m1)) = int (card (fs_map D)) + 1" using s(4,7) fin by simp
      have room: "has_room D nm n \<longleftrightarrow> divRoundUp n SectorSize \<le> numBits m1 - int (card (marked m1))"
        using False free(1) card s(6) by (simp add: has_room_def NumSectors_value)
      show ?thesis
      proof (cases "has_room D nm n")
        case True
        with room create d(1) s s' d(2-4) w2(3,4) new_FileHeader_typed [of E 2 w2]
        show ?thesis by (intro conjI impI exI [of _ s] exI [of _ m1] exI [of _ d] exI [of _ w2]
            exI [of _ "new_FileHeader E 2 w2"]) simp_all
      next
        case False
        then have "FileSystem_Create E fs nm n w = Inr (False, w2)"
          using room create d(1) Allocate_no_room [OF s(5)] by simp
        with False w2 show ?thesis by blast
      qed
    qed
  qed
qed

lemma Create_fails:
  assumes "fs_ok (sectors w)" and "fs_open fs (sectors w)" and "ok w" and "0 \<le> n"
    and "\<not> has_room (sectors w) nm n"
  shows "\<exists>w'. FileSystem_Create E fs nm n w = Inr (False, w') \<and> ok w' \<and> sectors w' = sectors w"
  using Create_prefix [OF assms(1-4), of nm] assms(5) by blast

lemma Create_overflows:
  assumes "fs_ok (sectors w)" and "fs_open fs (sectors w)" and "ok w" and "MaxFileSize < n"
    and "has_room (sectors w) nm n"
  shows "FileSystem_Create E fs nm n w = Inl OutOfBounds"
proof -
  have "0 \<le> n" using assms(4) by (simp add: MaxFileSize_value)
  with Create_prefix [OF assms(1-3) this, of nm] assms(5) Allocate_too_big [OF _ _ assms(4)]
  show ?thesis by fastforce
qed

lemma Create_law:
  assumes ok: "fs_ok (sectors w)" and op: "fs_open fs (sectors w)" and w: "ok w"
    and n: "0 \<le> n" "n \<le> MaxFileSize" and room: "has_room (sectors w) nm n"
  shows "\<exists>w' s bs. FileSystem_Create E fs nm n w = Inr (True, w') \<and> ok w' \<and> fs_ok (sectors w') \<and>
    fs_open fs (sectors w') \<and> fs_dir (sectors w') = (fs_dir (sectors w))(stored nm \<mapsto> s) \<and>
    fs_files (sectors w') = (fs_files (sectors w))(stored nm \<mapsto> bs) \<and> int (length bs) = n"
proof -
  let ?D = "sectors w"
  obtain s m d v h where c: "sector_number s" "s \<notin> fs_map ?D" "bitmap_ok m" "numBits m = 1024"
    "marked m = insert s (fs_map ?D)" "dir_ok d" "tableSize d = 10"
    "dir_map d = (fs_dir ?D)(stored nm \<mapsto> s)" "ok v" "sectors v = ?D" "header_typed h"
    "divRoundUp n SectorSize \<le> numBits m - int (card (marked m))"
    and create: "FileSystem_Create E fs nm n w =
        rbind (FileHeader_Allocate h m n) (\<lambda>(room, header, freeMap).
          if \<not> room then Inr (False, v)
          else rbind (FileHeader_WriteBack E header s v) (\<lambda>w.
               rbind (Directory_WriteBack E d (directoryFile fs) w) (\<lambda>w.
               rbind (BitMap_WriteBack E freeMap (freeMapFile fs) w) (\<lambda>w. Inr (True, w)))))"
    using Create_prefix [OF ok op w n(1), of nm] room by blast
  have size: "numBits m = NumSectors" using c(4) by (simp add: NumSectors_value)
  obtain h' m' where a: "FileHeader_Allocate h m n = Inr (True, h', m')" "header_ok h'"
    "numBytes h' = n" "bitmap_ok m'" "numBits m' = 1024"
    "set (data_list h') \<inter> marked m = {}" "marked m' = marked m \<union> set (data_list h')"
    using Allocate_spec [OF c(11,3) size n c(12)] NumSectors_value by auto
  have typed: "header_typed h'" using a(2) by (simp add: header_ok_def)
  obtain w1 where w1: "FileHeader_WriteBack E h' s v = Inr w1" "ok w1"
    "sectors w1 = ?D(s := FileHeader_bytes h')"
    using header_write_law [OF c(9,1) typed] c(10) by auto
  note sys = fs_ok_system [OF ok] and mf = fs_open_hdr [OF op]
  have t: "\<forall>e \<in> set (table d). entry_typed e" "length (table d) = 10" "tableSize d = int 10"
    using c(6,7) by (auto simp: dir_ok_def)
  obtain w2 where w2: "Directory_WriteBack E d (directoryFile fs) w1 = Inr w2" "ok w2"
    "\<forall>t. t \<notin> set (data_list (header_at ?D 1)) \<longrightarrow> sectors w2 t = sectors w1 t"
    "file_bytes (header_at ?D 1) (sectors w2) = table_bytes (table d)"
    using directory_write_law [of "directoryFile fs" w1 10 d] sys mf w1(2) t by auto
  obtain w3 where w3: "BitMap_WriteBack E m' (freeMapFile fs) w2 = Inr w3" "ok w3"
    "\<forall>t. t \<notin> set (data_list (header_at ?D 0)) \<longrightarrow> sectors w3 t = sectors w2 t"
    "file_bytes (header_at ?D 0) (sectors w3) = words_bytes (bwords m')"
    using bitmap_write_law [of "freeMapFile fs" w2 m'] sys mf w2(2) a(4,5) by auto
  have disj: "set (data_list (header_at ?D 0)) \<inter> set (data_list (header_at ?D 1)) = {}"
    using fs_ok_disjoint [OF ok, of 0 1] by (auto simp: owned_def)
  have s_out: "s \<notin> set (data_list (header_at ?D 0))" "s \<notin> set (data_list (header_at ?D 1))"
    using fs_ok_file(5) [OF ok, of 0] fs_ok_file(5) [OF ok, of 1] c(2) by (auto simp: owned_def)
  have dir_kept: "file_bytes (header_at ?D 1) (sectors w3) = table_bytes (table d)"
    using file_bytes_cong [OF sys(5), of "sectors w3" "sectors w2"] w3(3) w2(4) disj by auto
  have at_s: "sectors w3 s = FileHeader_bytes h'" using w3(3) w2(3) w1(3) s_out by simp
  have other: "sectors w3 t = ?D t" if "t \<noteq> s" "t \<notin> set (data_list (header_at ?D 0))"
    "t \<notin> set (data_list (header_at ?D 1))" for t
    using w3(3) w2(3) w1(3) that by simp
  have new: "fs_dir ?D (stored nm) = None" using room by (simp add: has_room_def)
  have fresh: "set (data_list h') \<inter> insert s (fs_map ?D) = {}"
    and marks: "marked m' = insert s (fs_map ?D) \<union> set (data_list h')" using a(6,7) c(5) by auto
  have upd: "fs_ok (sectors w3)" "fs_dir (sectors w3) = (fs_dir ?D)(stored nm \<mapsto> s)"
    "\<forall>r \<in> {0, 1}. header_at (sectors w3) r = header_at ?D r"
    "fs_files (sectors w3) = (fs_files ?D)(stored nm \<mapsto> file_bytes h' (sectors w3))"
    using fs_add_file [OF ok new c(2,1) a(2) fresh c(6-8) a(4,5) marks at_s dir_kept w3(4)] other
    by blast+
  have "FileSystem_Create E fs nm n w = Inr (True, w3)"
    using create a(1) w1(1) w2(1) w3(1) by simp
  moreover have "fs_open fs (sectors w3)" using upd(3) mf by (simp add: fs_open_def)
  moreover have "int (length (file_bytes h' (sectors w3))) = n" using a(3) n by simp
  ultimately show ?thesis using upd(1,2,4) w3(2) by blast
qed

text \<open>A write to an open file of the system changes the contents of that file and nothing else.\<close>

lemma file_write_law:
  assumes ok: "fs_ok (sectors w)" and w: "ok w" and k: "fs_dir (sectors w) k = Some s"
    and f: "hdr f = header_at (sectors w) s" and old: "fs_files (sectors w) k = Some old"
    and n: "0 < n" and pos: "0 \<le> pos" "pos < int (length old)" and fit: "in_int (pos + n)"
    and c: "c = min n (int (length old) - pos)" and src: "c \<le> int (length src)"
  shows "\<exists>w'. OpenFile_WriteAt E f src n pos w = Inr (c, w') \<and> ok w' \<and> fs_ok (sectors w') \<and>
    fs_dir (sectors w') = fs_dir (sectors w) \<and>
    header_at (sectors w') s = header_at (sectors w) s \<and>
    (\<forall>r \<in> {0, 1}. header_at (sectors w') r = header_at (sectors w) r) \<and>
    fs_files (sectors w') = (fs_files (sectors w))
      (k \<mapsto> take (nat pos) old @ take (nat c) src @ drop (nat (pos + c)) old)"
proof -
  let ?h = "header_at (sectors w) s"
  have s: "s \<in> file_sectors (sectors w)" by (rule fs_dir_sector(1) [OF ok k])
  have h: "header_ok (hdr f)" using fs_ok_file(3) [OF ok s] f by simp
  have o: "old = file_bytes ?h (sectors w)" using old k by (simp add: fs_files_def)
  then have len: "int (length old) = numBytes ?h" using h f by (simp add: header_ok_def)
  obtain w' where w': "OpenFile_WriteAt E f src n pos w = Inr (c, w')" "ok w'"
    "\<forall>t. t \<notin> set (data_list ?h) \<longrightarrow> sectors w' t = sectors w t"
    "file_bytes ?h (sectors w') = take (nat pos) old @ take (nat c) src @ drop (nat (pos + c)) old"
    using WriteAt_list [OF h w n pos(1) _ fit _ src] pos(2) c len by (auto simp: f o)
  have same: "sectors w' t = sectors w t" if "t \<notin> set (data_list ?h)" for t using w'(3) that by simp
  note upd = fs_change_data [OF ok k same]
  have "header_at (sectors w') r = header_at (sectors w) r" if "r \<in> {0, 1, s}" for r
    using upd(3) that s by auto
  with w' upd(1,2,4) show ?thesis by auto
qed

subsection \<open>Formatting and mounting\<close>

lemma print_empty_directory:
  assumes "tableSize d = int (length (table d))" and "\<forall>e \<in> set (table d). inUse e = 0"
  shows "Directory_Print E d w = Inr ([], w)"
proof -
  let ?body = "\<lambda>i (out, w). rbind (aget (table d) i) (\<lambda>e.
         if inUse e \<noteq> 0
         then rbind (printf_s (name e)) (\<lambda>s.
              rbind (FileHeader_FetchFrom E (sector e) w) (\<lambda>(h, w).
              rbind (FileHeader_Print E h w) (\<lambda>(shown, w).
              Inr (out @ [(s, sector e, shown)], w))))
         else Inr (out, w))"
  have "\<exists>s. for_range 0 (tableSize d) ?body ([], w) = Inr s \<and> s = ([], w)"
  proof (rule for_range_rule)
    fix j and s :: "(byte list \<times> int \<times> int list \<times> printed list list) list \<times> 'w"
    assume j: "0 \<le> j" "j < tableSize d" and s: "s = ([], w)"
    then have "table d ! nat j \<in> set (table d)" using assms(1) by (intro nth_mem) linarith
    then show "\<exists>t. ?body j s = Inr t \<and> t = ([], w)" using assms j s by simp
  qed (use assms in auto)
  then show ?thesis by (simp add: Directory_Print_def)
qed

lemma format_law:
  assumes w: "ok w"
  shows "\<exists>fs w'. FileSystem_new E dbg True w = Inr (fs, w') \<and> ok w' \<and> fs_ok (sectors w') \<and>
    fs_open fs (sectors w') \<and> fs_dir (sectors w') = Map.empty \<and> fs_files (sectors w') = Map.empty"
proof -
  obtain m0 where m0: "new_BitMap E 0 w = Inr m0" "bitmap_ok m0" "numBits m0 = 1024" "marked m0 = {}"
    using new_BitMap_law [of E 0 w] by auto
  obtain d where d: "new_Directory E 1 w = Inr d" "dir_ok d" "tableSize d = 10"
    "dir_map d = Map.empty" "\<forall>e \<in> set (table d). inUse e = 0"
    using new_Directory_law [of E 1 w] by auto
  obtain m1 where m1: "BitMap_Mark m0 0 = Inr m1" "bitmap_ok m1" "numBits m1 = 1024" "marked m1 = {0}"
    using Mark_spec [OF m0(2), of 0] m0(3,4) by auto
  obtain m2 where m2: "BitMap_Mark m1 1 = Inr m2" "bitmap_ok m2" "numBits m2 = NumSectors"
    "marked m2 = {0, 1}"
    using Mark_spec [OF m1(2), of 1] m1(3,4) by (auto simp: NumSectors_value)
  have sizes: "FreeMapFileSize = 128" "DirectoryFileSize = 200"
    by (simp_all add: FreeMapFileSize_def NumSectors_value BitsInByte_def DirectoryFileSize_def
        sizeof_DirectoryEntry_def NumDirEntries_def)
  have secs: "divRoundUp 128 SectorSize = 1" "divRoundUp 200 SectorSize = 2"
    by (simp_all add: divRoundUp_def SectorSize_def)
  obtain mh m3 where mh: "FileHeader_Allocate (new_FileHeader E 2 w) m2 128 = Inr (True, mh, m3)"
    "header_ok mh" "numBytes mh = 128" "bitmap_ok m3" "numBits m3 = NumSectors"
    "set (data_list mh) \<inter> {0, 1} = {}" "marked m3 = {0, 1} \<union> set (data_list mh)"
    using Allocate_spec [OF new_FileHeader_typed [of E 2 w] m2(2,3), of 128] m2(4)
    by (auto simp: secs NumSectors_value MaxFileSize_value m2(3))
  have "numSectors mh = 1" using mh(2,3) secs by (simp add: header_ok_def)
  then have "card (set (data_list mh)) \<le> 1"
    using card_length [of "data_list mh"] by (simp add: data_list_def)
  then have "card (marked m3) \<le> 3"
    using card_Un_le [of "{0, 1}" "set (data_list mh)"] mh(7) by simp
  then obtain dh m4 where dh: "FileHeader_Allocate (new_FileHeader E 3 w) m3 200 = Inr (True, dh, m4)"
    "header_ok dh" "numBytes dh = 200" "bitmap_ok m4" "numBits m4 = NumSectors"
    "set (data_list dh) \<inter> marked m3 = {}" "marked m4 = marked m3 \<union> set (data_list dh)"
    using Allocate_spec [OF new_FileHeader_typed [of E 3 w] mh(4,5), of 200] mh(5)
    by (auto simp: secs NumSectors_value MaxFileSize_value)
  have typed: "header_typed mh" "header_typed dh" using mh(2) dh(2) by (simp_all add: header_ok_def)
  have sec01: "sector_number 0" "sector_number 1" by (simp_all add: sector_number_iff)
  obtain w1 where w1: "FileHeader_WriteBack E mh 0 w = Inr w1" "ok w1"
    "sectors w1 = (sectors w)(0 := FileHeader_bytes mh)"
    using header_write_law [OF w sec01(1) typed(1)] by blast
  obtain w2 where w2: "FileHeader_WriteBack E dh 1 w1 = Inr w2" "ok w2"
    "sectors w2 = (sectors w1)(1 := FileHeader_bytes dh)"
    using header_write_law [OF w1(2) sec01(2) typed(2)] by blast
  let ?mf = "\<lparr>hdr = mh, seekPosition = 0\<rparr>" and ?df = "\<lparr>hdr = dh, seekPosition = 0\<rparr>"
  obtain w3 where w3: "OpenFile_new E 0 w2 = Inr (?mf, w3)" "ok w3" "sectors w3 = sectors w2"
    using new_file_law [OF w2(2) sec01(1)] w1(3) w2(3) FileHeader_roundtrip [OF typed(1)] by auto
  obtain w4 where w4: "OpenFile_new E 1 w3 = Inr (?df, w4)" "ok w4" "sectors w4 = sectors w2"
    using new_file_law [OF w3(2) sec01(2)] w3(3) w2(3) FileHeader_roundtrip [OF typed(2)] by auto
  have m4: "numBits m4 = 1024" using dh(5) by (simp add: NumSectors_value)
  obtain w5 where w5: "BitMap_WriteBack E m4 ?mf w4 = Inr w5" "ok w5"
    "\<forall>s. s \<notin> set (data_list mh) \<longrightarrow> sectors w5 s = sectors w4 s"
    "file_bytes mh (sectors w5) = words_bytes (bwords m4)"
    using bitmap_write_law [of ?mf w4 m4] mh(2,3) w4(2) dh(4) m4 by auto
  have t: "\<forall>e \<in> set (table d). entry_typed e" "length (table d) = 10" "tableSize d = int 10"
    using d(2,3) by (auto simp: dir_ok_def)
  obtain w6 where w6: "Directory_WriteBack E d ?df w5 = Inr w6" "ok w6"
    "\<forall>s. s \<notin> set (data_list dh) \<longrightarrow> sectors w6 s = sectors w5 s"
    "file_bytes dh (sectors w6) = table_bytes (table d)"
    using directory_write_law [of ?df w5 10 d] dh(2,3) w5(2) t by auto
  let ?fs = "\<lparr>freeMapFile = ?mf, directoryFile = ?df\<rparr>" and ?D = "sectors w6"
  obtain out where out: "BitMap_Print m4 = Inr out" using Print_spec [OF dh(4)] by blast
  have pr: "Directory_Print E d w6 = Inr ([], w6)"
    by (rule print_empty_directory) (use t d(5) in auto)
  have run: "FileSystem_new E dbg True w = Inr (?fs, w6)"
    using m0(1) d(1) m1(1) m2(1) mh(1) dh(1) w1(1) w2(1) w3(1) w4(1) w5(1) w6(1) out pr
    by (simp add: FileSystem_new_def FileSystem_format_def sizes)
  have out01: "0 \<notin> set (data_list mh)" "1 \<notin> set (data_list mh)"
    "0 \<notin> set (data_list dh)" "1 \<notin> set (data_list dh)"
    using mh(6,7) dh(6) by auto
  have disj: "set (data_list mh) \<inter> set (data_list dh) = {}" using mh(7) dh(6) by auto
  have D01: "?D 0 = FileHeader_bytes mh" "?D 1 = FileHeader_bytes dh"
    using w6(3) w5(3) w4(3) w2(3) w1(3) out01 by simp_all
  then have hd: "header_at ?D 0 = mh" "header_at ?D 1 = dh"
    using FileHeader_roundtrip typed by (simp_all add: header_at_def)
  have "file_bytes mh ?D = words_bytes (bwords m4)"
    using file_bytes_cong [OF mh(2), of ?D "sectors w5"] w6(3) w5(4) disj by auto
  then have map: "map_in mh ?D = m4" using dh(4) m4 by (intro map_in_unique)
  have dir: "dir_in dh ?D = d" by (rule dir_in_unique [OF d(2,3) w6(4)])
  have fsd: "fs_dir ?D = Map.empty" by (simp add: fs_dir_def hd dir d(4))
  have files: "file_sectors ?D = {0, 1}" by (simp add: file_sectors_def fsd)
  have own: "owned ?D 0 = insert 0 (set (data_list mh))" "owned ?D 1 = insert 1 (set (data_list dh))"
    by (simp_all add: owned_def hd)
  have "fs_map ?D = marked m4" by (simp add: fs_map_def hd map)
  then have mp: "fs_map ?D = (\<Union>s \<in> {0, 1}. owned ?D s)" using own dh(7) mh(7) by auto
  have apart: "owned ?D 0 \<inter> owned ?D 1 = {}" using own out01 disj by auto
  have "fs_ok ?D"
    unfolding fs_ok_def files fsd
    using hd mh(2,3) dh(2,3) d(2) dir sec01 out01 apart mp D01 typed
    by (simp add: FileHeader_bytes_length Int_commute)
  moreover have "fs_open ?fs ?D" by (simp add: fs_open_def hd)
  moreover have "fs_files ?D = Map.empty" by (rule ext) (simp add: fs_files_def fsd)
  ultimately show ?thesis using run w6(2) fsd by blast
qed

text \<open>Mounting a formatted disk changes nothing on it.\<close>

lemma mount_law:
  assumes w: "ok w" and ok: "fs_ok (sectors w)"
  shows "\<exists>fs w'. FileSystem_new E dbg False w = Inr (fs, w') \<and> ok w' \<and> sectors w' = sectors w \<and>
    fs_open fs (sectors w)"
proof -
  have s: "sector_number 0" "sector_number 1" by (simp_all add: sector_number_iff)
  obtain w1 where w1: "OpenFile_new E 0 w = Inr (\<lparr>hdr = header_at (sectors w) 0, seekPosition = 0\<rparr>, w1)"
    "ok w1" "sectors w1 = sectors w"
    using new_file_law [OF w s(1)] by (auto simp: header_at_def)
  obtain w2 where w2: "OpenFile_new E 1 w1 = Inr (\<lparr>hdr = header_at (sectors w) 1, seekPosition = 0\<rparr>, w2)"
    "ok w2" "sectors w2 = sectors w"
    using new_file_law [OF w1(2) s(2)] w1(3) by (auto simp: header_at_def)
  show ?thesis using w1 w2 by (auto simp: FileSystem_new_def fs_open_def)
qed

end

subsection \<open>Properties\<close>

text \<open>
  C36: Formatting any disk that keeps the sector contract succeeds (the assertions of the
  constructor hold), with or without debugging, and leaves a consistent, empty file system whose
  two open files are the bitmap and the directory on the disk; mounting that disk again without
  formatting opens the same two files and changes nothing.
\<close>

theorem FileSystem_format_consistent:
  assumes "sector_device E ok sectors" and "ok w"
  shows "\<exists>fs w' fs' w''. FileSystem_new E dbg True w = Inr (fs, w') \<and>
    fs_ok (sectors w') \<and> fs_open fs (sectors w') \<and> fs_files (sectors w') = Map.empty \<and>
    FileSystem_new E dbg False w' = Inr (fs', w'') \<and> ok w'' \<and> fs_open fs' (sectors w'') \<and>
    sectors w'' = sectors w'"
proof -
  obtain fs w' where f: "FileSystem_new E dbg True w = Inr (fs, w')" "ok w'" "fs_ok (sectors w')"
    "fs_open fs (sectors w')" "fs_files (sectors w') = Map.empty"
    using sector_device.format_law [OF assms(1), OF assms(2)] by blast
  moreover obtain fs' w'' where "FileSystem_new E dbg False w' = Inr (fs', w'')" "ok w''"
    "sectors w'' = sectors w'" "fs_open fs' (sectors w')"
    using sector_device.mount_law [OF assms(1), OF f(2,3)] by blast
  ultimately show ?thesis by metis
qed

theorem FileSystem_format_consistent_witness:
  "\<exists>fs w'. FileSystem_new mem_env True True blank_disk = Inr (fs, w') \<and> fs_ok w' \<and>
    fs_files w' = Map.empty"
  using FileSystem_format_consistent [OF mem_disk.sector_device_axioms, OF blank_disk_ok, of True] by blast

text \<open>A formatted disk in memory, on which the witnesses run.\<close>

lemma formatted_disk:
  "\<exists>fs w. FileSystem_new mem_env False True blank_disk = Inr (fs, w) \<and> mem_ok w \<and> fs_ok w \<and>
    fs_open fs w \<and> fs_dir w = Map.empty \<and> fs_files w = Map.empty"
  using mem_disk.format_law [OF blank_disk_ok, of False] by blast

text \<open>
  C1: \<open>Create\<close> on a consistent file system, for a name that is not in use, a free directory
  entry, a size up to \<open>MaxFileSize\<close> and enough free sectors for header and data, returns true,
  leaves the file system consistent, and adds one file of exactly that size to its contents; all
  other files keep their names and contents.
\<close>

theorem FileSystem_Create_adds_file:
  assumes "sector_device E ok sectors" and "ok w" and "fs_ok (sectors w)" and "fs_open fs (sectors w)"
    and "0 \<le> n" and "n \<le> MaxFileSize" and "has_room (sectors w) nm n"
  shows "\<exists>w' bs. FileSystem_Create E fs nm n w = Inr (True, w') \<and> ok w' \<and> fs_ok (sectors w') \<and>
    fs_open fs (sectors w') \<and> fs_files (sectors w') = (fs_files (sectors w))(stored nm \<mapsto> bs) \<and>
    int (length bs) = n"
  using sector_device.Create_law [OF assms(1), OF assms(3,4,2,5-7)] by blast

lemma formatted_room:
  assumes "fs_ok w" and "fs_dir w = Map.empty" and "0 \<le> n" and "n \<le> MaxFileSize"
  shows "has_room w nm n"
proof -
  have own: "card (owned w s) \<le> 31" if "s \<in> {0, 1}" for s
  proof -
    have "header_ok (header_at w s)" using fs_ok_system(4,5) [OF assms(1)] that by auto
    then have "length (data_list (header_at w s)) \<le> 30"
      by (simp add: header_ok_def header_typed_def data_list_def)
    then have "card (set (data_list (header_at w s))) \<le> 30"
      using card_length [of "data_list (header_at w s)"] by linarith
    then show ?thesis
      using card_insert_le_m1 [of 31 "set (data_list (header_at w s))" s] by (simp add: owned_def)
  qed
  have "fs_map w = owned w 0 \<union> owned w 1"
    using fs_ok_map [OF assms(1)] assms(2) by (simp add: file_sectors_def)
  then have "card (fs_map w) \<le> 62"
    using card_Un_le [of "owned w 0" "owned w 1"] own [of 0] own [of 1] by simp
  moreover have "divRoundUp n SectorSize \<le> 30"
    using sectors_of_size(2) [OF assms(3)] assms(4) by simp
  moreover have "\<not> dir_full (dir_in (header_at w 1) w)"
  proof -
    let ?t = "table (dir_in (header_at w 1) w)"
    have "map_of (pairs ?t) = Map.empty" using assms(2) by (simp add: fs_dir_def dir_map_def)
    then have none: "pairs ?t = []" by simp
    have "length ?t = 10" using fs_ok_system(3) [OF assms(1)] by (simp add: dir_ok_def)
    then obtain e es where "?t = e # es" by (cases ?t) auto
    with none show ?thesis by (auto simp: dir_full_def pairs_def filter_empty_conv)
  qed
  ultimately show ?thesis using assms(2) by (simp add: has_room_def NumSectors_value)
qed

theorem FileSystem_Create_adds_file_witness:
  "\<exists>fs w w' bs. FileSystem_new mem_env False True blank_disk = Inr (fs, w) \<and>
    FileSystem_Create mem_env fs (str ''a'') 500 w = Inr (True, w') \<and> fs_ok w' \<and>
    fs_files w' = [stored (str ''a'') \<mapsto> bs] \<and> length bs = 500"
proof -
  obtain fs w where w: "FileSystem_new mem_env False True blank_disk = Inr (fs, w)" "mem_ok w" "fs_ok w"
    "fs_open fs w" "fs_dir w = Map.empty" "fs_files w = Map.empty" using formatted_disk by blast
  have n: "(0::int) \<le> 500" "500 \<le> MaxFileSize" by (simp_all add: MaxFileSize_value)
  have room: "has_room w (str ''a'') 500" by (rule formatted_room [OF w(3,5) n])
  from FileSystem_Create_adds_file [OF mem_disk.sector_device_axioms, OF w(2-4) n room] w(1,6)
  show ?thesis by auto
qed

text \<open>
  C37: \<open>Create\<close> without room (the name exists, the directory is full, or sectors are missing for
  the header or the data) returns false and leaves every sector of the disk as it was. With room
  for a file larger than \<open>MaxFileSize\<close> it does not fail cleanly: it overruns the header.
\<close>

theorem FileSystem_Create_failure:
  assumes "sector_device E ok sectors" and "ok w" and "fs_ok (sectors w)" and "fs_open fs (sectors w)"
    and "0 \<le> n"
  shows "(\<not> has_room (sectors w) nm n \<longrightarrow>
      (\<exists>w'. FileSystem_Create E fs nm n w = Inr (False, w') \<and> sectors w' = sectors w)) \<and>
    (has_room (sectors w) nm n \<and> MaxFileSize < n \<longrightarrow> FileSystem_Create E fs nm n w = Inl OutOfBounds)"
  using sector_device.Create_fails [OF assms(1), OF assms(3,4,2,5)]
    sector_device.Create_overflows [OF assms(1), OF assms(3,4,2)] by blast

theorem FileSystem_Create_failure_witness:
  "\<exists>fs w w'. FileSystem_new mem_env False True blank_disk = Inr (fs, w) \<and>
    FileSystem_Create mem_env fs (str ''a'') 200000 w = Inr (False, w') \<and> w' = w"
proof -
  obtain fs w where w: "FileSystem_new mem_env False True blank_disk = Inr (fs, w)" "mem_ok w" "fs_ok w"
    "fs_open fs w" using formatted_disk by blast
  have "\<not> has_room w (str ''a'') 200000"
    by (simp add: has_room_def NumSectors_value divRoundUp_def SectorSize_def)
  with FileSystem_Create_failure [OF mem_disk.sector_device_axioms, OF w(2-4)] w(1) show ?thesis
    by auto
qed

text \<open>
  C9: \<open>Remove\<close> on a consistent file system returns whether the file was there; it deletes
  exactly that file from the contents, leaves the file system consistent, and afterwards no
  sector is marked that does not belong to a remaining file: header and data sectors are free
  again. The assertion of \<open>Deallocate\<close> never fails.
\<close>

theorem FileSystem_Remove_deletes_file:
  assumes "sector_device E ok sectors" and "ok w" and "fs_ok (sectors w)" and "fs_open fs (sectors w)"
  shows "\<exists>w'. FileSystem_Remove E fs nm w = Inr (fs_files (sectors w) (stored nm) \<noteq> None, w') \<and>
    ok w' \<and> fs_ok (sectors w') \<and> fs_open fs (sectors w') \<and>
    fs_files (sectors w') = (fs_files (sectors w))(stored nm := None) \<and>
    fs_map (sectors w') = (\<Union>s \<in> file_sectors (sectors w'). owned (sectors w') s)"
proof -
  obtain w' where w': "FileSystem_Remove E fs nm w = Inr (fs_dir (sectors w) (stored nm) \<noteq> None, w')"
    "ok w'" "fs_ok (sectors w')" "fs_open fs (sectors w')"
    "fs_files (sectors w') = (fs_files (sectors w))(stored nm := None)"
    using sector_device.Remove_law [OF assms(1), OF assms(3,4,2)] by blast
  have "(fs_dir (sectors w) (stored nm) \<noteq> None) = (fs_files (sectors w) (stored nm) \<noteq> None)"
    by (simp add: fs_files_def)
  with w' fs_ok_map [OF w'(3)] show ?thesis by auto
qed

theorem FileSystem_Remove_deletes_file_witness:
  "\<exists>fs w w1 w2. FileSystem_new mem_env False True blank_disk = Inr (fs, w) \<and>
    FileSystem_Create mem_env fs (str ''a'') 500 w = Inr (True, w1) \<and>
    FileSystem_Remove mem_env fs (str ''a'') w1 = Inr (True, w2) \<and> fs_files w2 = Map.empty"
proof -
  obtain fs w where w: "FileSystem_new mem_env False True blank_disk = Inr (fs, w)" "mem_ok w" "fs_ok w"
    "fs_open fs w" "fs_dir w = Map.empty" "fs_files w = Map.empty" using formatted_disk by blast
  have n: "(0::int) \<le> 500" "500 \<le> MaxFileSize" by (simp_all add: MaxFileSize_value)
  have room: "has_room w (str ''a'') 500" by (rule formatted_room [OF w(3,5) n])
  obtain w1 bs where w1: "FileSystem_Create mem_env fs (str ''a'') 500 w = Inr (True, w1)" "mem_ok w1"
    "fs_ok w1" "fs_open fs w1" "fs_files w1 = (fs_files w)(stored (str ''a'') \<mapsto> bs)"
    using mem_disk.Create_law [OF w(3,4,2) n room] by blast
  from FileSystem_Remove_deletes_file [OF mem_disk.sector_device_axioms, OF w1(2-4), of "str ''a''"]
  show ?thesis using w(1,6) w1(1,5) by auto
qed

text \<open>
  C10: \<open>Open\<close> of a name in a consistent file system returns an open file positioned at its
  beginning whose header is that of the file, and \<open>NULL\<close> for a name that is not there; writing
  through an open file at a position inside it changes the bytes of the range in that file only:
  the file system stays consistent and every other file keeps its contents.
\<close>

theorem FileSystem_Open_Write:
  assumes "sector_device E ok sectors" and "ok w" and "fs_ok (sectors w)" and "fs_open fs (sectors w)"
    and "0 < n" and "0 \<le> pos" and "in_int (pos + n)" and "n \<le> int (length src)"
  shows "\<exists>r w'. FileSystem_Open E fs nm w = Inr (r, w') \<and> sectors w' = sectors w \<and>
    (case fs_files (sectors w) (stored nm) of
       None \<Rightarrow> r = None
     | Some old \<Rightarrow> \<exists>f. r = Some f \<and> seekPosition f = 0 \<and> OpenFile_Length f = int (length old) \<and>
         (pos < int (length old) \<longrightarrow>
           (\<exists>w''. OpenFile_WriteAt E f src n pos w' = Inr (min n (int (length old) - pos), w'') \<and>
              fs_ok (sectors w'') \<and> fs_open fs (sectors w'') \<and>
              fs_files (sectors w'') = (fs_files (sectors w))(stored nm \<mapsto>
                take (nat pos) old @ take (nat (min n (int (length old) - pos))) src @
                drop (nat (pos + min n (int (length old) - pos))) old))))"
proof -
  let ?D = "sectors w"
  obtain w' where w': "FileSystem_Open E fs nm w =
      Inr (map_option (\<lambda>s. \<lparr>hdr = header_at ?D s, seekPosition = 0\<rparr>) (fs_dir ?D (stored nm)), w')"
    "ok w'" "sectors w' = ?D"
    using sector_device.Open_law [OF assms(1), OF assms(3,4,2)] by blast
  show ?thesis
  proof (cases "fs_dir ?D (stored nm)")
    case None
    with w' show ?thesis by (simp add: fs_files_def)
  next
    case (Some s)
    let ?f = "\<lparr>hdr = header_at ?D s, seekPosition = 0\<rparr>"
    let ?old = "file_bytes (header_at ?D s) ?D"
    let ?c = "min n (int (length ?old) - pos)"
    have old: "fs_files ?D (stored nm) = Some ?old" using Some by (simp add: fs_files_def)
    have "header_ok (header_at ?D s)"
      using Some fs_ok_file(3) [OF assms(3)] by (auto simp: file_sectors_def intro: ranI)
    then have len: "OpenFile_Length ?f = int (length ?old)"
      by (simp add: OpenFile_Length_def FileHeader_FileLength_def header_ok_def)
    have "\<exists>w''. OpenFile_WriteAt E ?f src n pos w' = Inr (?c, w'') \<and>
        fs_ok (sectors w'') \<and> fs_open fs (sectors w'') \<and>
        fs_files (sectors w'') = (fs_files ?D)(stored nm \<mapsto>
          take (nat pos) ?old @ take (nat ?c) src @ drop (nat (pos + ?c)) ?old)"
      if pos: "pos < int (length ?old)"
    proof -
      have c: "?c \<le> int (length src)" using assms(8) by auto
      from sector_device.file_write_law [OF assms(1), of w' "stored nm" s ?f ?old n pos ?c src]
        w'(2,3) assms(3,5,6,7) Some old pos c
      obtain w'' where "OpenFile_WriteAt E ?f src n pos w' = Inr (?c, w'')" "fs_ok (sectors w'')"
        "\<forall>r \<in> {0, 1}. header_at (sectors w'') r = header_at ?D r"
        "fs_files (sectors w'') = (fs_files ?D)(stored nm \<mapsto>
          take (nat pos) ?old @ take (nat ?c) src @ drop (nat (pos + ?c)) ?old)"
        by auto
      then show ?thesis using assms(4) by (auto simp: fs_open_def)
    qed
    with w' Some old len show ?thesis by simp
  qed
qed

theorem FileSystem_Open_Write_witness:
  "\<exists>fs w w1 f w2 w3. FileSystem_new mem_env False True blank_disk = Inr (fs, w) \<and>
    FileSystem_Create mem_env fs (str ''a'') 2 w = Inr (True, w1) \<and>
    FileSystem_Open mem_env fs (str ''a'') w1 = Inr (Some f, w2) \<and>
    OpenFile_WriteAt mem_env f [7, 8, 9] 3 0 w2 = Inr (2, w3) \<and>
    fs_files w3 = [stored (str ''a'') \<mapsto> [7, 8]]"
proof -
  obtain fs w where w: "FileSystem_new mem_env False True blank_disk = Inr (fs, w)" "mem_ok w" "fs_ok w"
    "fs_open fs w" "fs_dir w = Map.empty" "fs_files w = Map.empty" using formatted_disk by blast
  have n: "(0::int) \<le> 2" "2 \<le> MaxFileSize" by (simp_all add: MaxFileSize_value)
  have room: "has_room w (str ''a'') 2" by (rule formatted_room [OF w(3,5) n])
  obtain w1 bs where w1: "FileSystem_Create mem_env fs (str ''a'') 2 w = Inr (True, w1)" "mem_ok w1"
    "fs_ok w1" "fs_open fs w1" "fs_files w1 = (fs_files w)(stored (str ''a'') \<mapsto> bs)"
    "int (length bs) = 2"
    using mem_disk.Create_law [OF w(3,4,2) n room] by blast
  have "in_int (0 + 3)" by (simp add: in_int_def int_min_def int_max_def)
  from FileSystem_Open_Write [OF mem_disk.sector_device_axioms, OF w1(2-4), of 3 0 "[7, 8, 9]" "str ''a''"] this
  show ?thesis using w(1,6) w1(1,5,6) by auto
qed

end
