(* ===== verification/Fs_Test.thy ===== *)
theory Fs_Test
  imports File_System
begin

section \<open>The file system's test programs, filesys/fstest.cc\<close>

text \<open>
  \<open>Copy\<close> copies a Unix file into a new Nachos file ten bytes at a time, \<open>Print\<close> prints a Nachos
  file ten bytes at a time, \<open>PerformanceTest\<close> is meant to write and read back a large file. They
  are the clients of the whole file system; the lemmas use its contracts only. A Unix file is
  its contents, \<^const>\<open>None\<close> when it cannot be opened.
\<close>

definition TransferSize :: int where "TransferSize = 10"

datatype copy_outcome = NoInput | NoOutput | Copied

subsection \<open>Copy and Print\<close>

function copy_loop ::
  "'w fs_env \<Rightarrow> OpenFile \<Rightarrow> byte list \<Rightarrow> 'w \<Rightarrow> (OpenFile \<times> 'w) result" where
  "copy_loop E f unread w =
     (if unread = [] then Inr (f, w)
      else let buffer = take (nat TransferSize) unread in
           rbind (OpenFile_Write E f buffer (int (length buffer)) w) (\<lambda>(_, f', w').
             copy_loop E f' (drop (nat TransferSize) unread) w'))"
  by pat_completeness auto
termination
  by (relation "measure (\<lambda>(_, _, unread, _). length unread)") (auto simp: TransferSize_def)

declare copy_loop.simps [simp del]

definition Copy ::
  "'w fs_env \<Rightarrow> FileSystem \<Rightarrow> byte list option \<Rightarrow> byte list \<Rightarrow> 'w \<Rightarrow> (copy_outcome \<times> 'w) result" where
  "Copy E fs fp to w =
     (case fp of
        None \<Rightarrow> Inr (NoInput, w)
      | Some contents \<Rightarrow>
          rbind (FileSystem_Create E fs to (int (length contents)) w) (\<lambda>(created, w).
          if \<not> created then Inr (NoOutput, w)
          else rbind (FileSystem_Open E fs to w) (\<lambda>(openFile, w).
               case openFile of
                 None \<Rightarrow> Inl AssertFailed
               | Some f \<Rightarrow> rbind (copy_loop E f contents w) (\<lambda>(_, w). Inr (Copied, w)))))"

text \<open>The loop of \<open>Print\<close> ends when \<open>Read\<close> returns nothing.\<close>

partial_function (option) print_loop ::
  "'w fs_env \<Rightarrow> OpenFile \<Rightarrow> byte list \<Rightarrow> byte list \<Rightarrow> 'w \<Rightarrow> (byte list \<times> 'w) result option" where
  "print_loop E f buffer out w =
     (case OpenFile_Read E f buffer 0 TransferSize w of
        Inl e \<Rightarrow> Some (Inl e)
      | Inr r \<Rightarrow>
          if fst r > 0
          then print_loop E (fst (snd r)) (fst (snd (snd r)))
                 (out @ take (nat (fst r)) (fst (snd (snd r)))) (snd (snd (snd r)))
          else Some (Inr (out, snd (snd (snd r)))))"

definition Print ::
  "'w fs_env \<Rightarrow> FileSystem \<Rightarrow> byte list \<Rightarrow> 'w \<Rightarrow> (byte list option \<times> 'w) result option" where
  "Print E fs nm w =
     (case FileSystem_Open E fs nm w of
        Inl e \<Rightarrow> Some (Inl e)
      | Inr (None, w) \<Rightarrow> Some (Inr (None, w))
      | Inr (Some f, w) \<Rightarrow>
          map_option (map_sum id (\<lambda>(out, w). (Some out, w)))
            (print_loop E f (new_bytes E 0 w TransferSize) [] w))"

subsection \<open>The performance test\<close>

definition FileName :: "byte list" where "FileName = str ''TestFile''"

definition Contents :: "byte list" where "Contents = str ''1234567890''"

definition ContentSize :: int where "ContentSize = int (length Contents)"

definition FileSize :: int where "FileSize = ContentSize * 5000"

datatype perf_outcome = CannotCreate | CannotOpen | CannotWrite | CannotRead | CannotRemove | Passed

lemma ContentSize_value: "ContentSize = 10"
  by (simp add: ContentSize_def Contents_def str_def)

function write_loop :: "'w fs_env \<Rightarrow> OpenFile \<Rightarrow> int \<Rightarrow> 'w \<Rightarrow> (perf_outcome \<times> 'w) result" where
  "write_loop E f i w =
     (if i < FileSize
      then rbind (OpenFile_Write E f Contents ContentSize w) (\<lambda>(n, f', w').
        if n < 10 then Inr (CannotWrite, w') else write_loop E f' (i + ContentSize) w')
      else Inr (Passed, w))"
  by pat_completeness auto
termination
  by (relation "measure (\<lambda>(_, _, i, _). nat (FileSize - i))") (auto simp: ContentSize_value)

declare write_loop.simps [simp del]

definition FileWrite :: "'w fs_env \<Rightarrow> FileSystem \<Rightarrow> 'w \<Rightarrow> (perf_outcome \<times> 'w) result" where
  "FileWrite E fs w =
     rbind (FileSystem_Create E fs FileName 0 w) (\<lambda>(created, w).
     if \<not> created then Inr (CannotCreate, w)
     else rbind (FileSystem_Open E fs FileName w) (\<lambda>(openFile, w).
          case openFile of
            None \<Rightarrow> Inr (CannotOpen, w)
          | Some f \<Rightarrow> write_loop E f 0 w))"

function read_loop ::
  "'w fs_env \<Rightarrow> OpenFile \<Rightarrow> byte list \<Rightarrow> int \<Rightarrow> 'w \<Rightarrow> (perf_outcome \<times> 'w) result" where
  "read_loop E f buffer i w =
     (if i < FileSize
      then rbind (OpenFile_Read E f buffer 0 ContentSize w) (\<lambda>(n, f', buffer', w').
        if n < 10 \<or> \<not> strncmp_eq (nat ContentSize) buffer' (c_string Contents)
        then Inr (CannotRead, w') else read_loop E f' buffer' (i + ContentSize) w')
      else Inr (Passed, w))"
  by pat_completeness auto
termination
  by (relation "measure (\<lambda>(_, _, _, i, _). nat (FileSize - i))") (auto simp: ContentSize_value)

declare read_loop.simps [simp del]

definition FileRead :: "'w fs_env \<Rightarrow> FileSystem \<Rightarrow> 'w \<Rightarrow> (perf_outcome \<times> 'w) result" where
  "FileRead E fs w =
     rbind (FileSystem_Open E fs FileName w) (\<lambda>(openFile, w).
     case openFile of
       None \<Rightarrow> Inr (CannotOpen, w)
     | Some f \<Rightarrow> read_loop E f (new_bytes E 0 w ContentSize) 0 w)"

definition PerformanceTest ::
  "'w fs_env \<Rightarrow> FileSystem \<Rightarrow> 'w \<Rightarrow> ((perf_outcome \<times> perf_outcome \<times> perf_outcome) \<times> 'w) result" where
  "PerformanceTest E fs w =
     rbind (FileWrite E fs w) (\<lambda>(wr, w).
     rbind (FileRead E fs w) (\<lambda>(rd, w).
     rbind (FileSystem_Remove E fs FileName w) (\<lambda>(removed, w).
     Inr ((wr, rd, if removed then Passed else CannotRemove), w))))"

subsection \<open>The loops\<close>

context sector_device
begin

lemma copy_loop_law:
  assumes "ok w" and "fs_ok (sectors w)" and "fs_dir (sectors w) k = Some s"
    and "hdr f = header_at (sectors w) s" and "fs_files (sectors w) k = Some old"
    and "0 \<le> seekPosition f" and "seekPosition f + int (length unread) \<le> int (length old)"
    and "length old \<le> 3840"
  shows "\<exists>f' w'. copy_loop E f unread w = Inr (f', w') \<and> ok w' \<and> fs_ok (sectors w') \<and>
    (\<forall>r \<in> {0, 1}. header_at (sectors w') r = header_at (sectors w) r) \<and>
    fs_files (sectors w') = (fs_files (sectors w))
      (k \<mapsto> take (nat (seekPosition f)) old @ unread @
        drop (nat (seekPosition f) + length unread) old)"
  using assms
proof (induction "length unread" arbitrary: f w old unread rule: less_induct)
  case less
  show ?case
  proof (cases "unread = []")
    case True
    with less.prems show ?thesis by (auto simp: copy_loop.simps fun_upd_idem)
  next
    case False
    let ?p = "seekPosition f"
    let ?b = "take 10 unread"
    let ?n = "int (length ?b)"
    have n: "0 < ?n" "?n \<le> int (length unread)" using False by simp_all
    have pos: "?p < int (length old)" using less.prems(7) n by linarith
    have fit: "in_int (?p + ?n)"
      using less.prems(6-8) n by (simp add: in_int_def int_min_def int_max_def)
    have c: "?n = min ?n (int (length old) - ?p)" using less.prems(7) n(2) by simp
    have tb: "take (nat ?n) ?b = ?b" by (simp only: nat_int) (rule take_all, rule order_refl)
    let ?new = "take (nat ?p) old @ ?b @ drop (nat (?p + ?n)) old"
    obtain w1 where w1: "OpenFile_WriteAt E f ?b ?n ?p w = Inr (?n, w1)" "ok w1" "fs_ok (sectors w1)"
      "fs_dir (sectors w1) = fs_dir (sectors w)" "header_at (sectors w1) s = header_at (sectors w) s"
      "\<forall>r \<in> {0, 1}. header_at (sectors w1) r = header_at (sectors w) r"
      "fs_files (sectors w1) = (fs_files (sectors w))(k \<mapsto> ?new)"
      using file_write_law [OF less.prems(2,1,3-5) n(1) less.prems(6) pos fit c order_refl]
      unfolding tb by blast
    let ?f = "f\<lparr>seekPosition := ?p + ?n\<rparr>"
    have step: "copy_loop E f unread w = copy_loop E ?f (drop 10 unread) w1"
      using False w1(1) fit
      by (subst copy_loop.simps) (simp add: TransferSize_def OpenFile_Write_def int_add_def Let_def)
    have len: "length ?new = length old" using less.prems(6,7) n by simp
    have "\<exists>f' w'. copy_loop E ?f (drop 10 unread) w1 = Inr (f', w') \<and> ok w' \<and> fs_ok (sectors w') \<and>
        (\<forall>r \<in> {0, 1}. header_at (sectors w') r = header_at (sectors w1) r) \<and>
        fs_files (sectors w') = (fs_files (sectors w1))
          (k \<mapsto> take (nat (seekPosition ?f)) ?new @ drop 10 unread @
            drop (nat (seekPosition ?f) + length (drop 10 unread)) ?new)"
    proof (rule less.hyps)
      show "length (drop 10 unread) < length unread" using False by simp
      show "fs_dir (sectors w1) k = Some s" using w1(4) less.prems(3) by simp
      show "hdr ?f = header_at (sectors w1) s" using w1(5) less.prems(4) by simp
      show "fs_files (sectors w1) k = Some ?new" using w1(7) by simp
      show "seekPosition ?f + int (length (drop 10 unread)) \<le> int (length ?new)"
        unfolding len using less.prems(7) by simp
    qed (use w1 less.prems(6,8) len in simp_all)
    moreover have "take (nat (?p + ?n)) ?new @ drop 10 unread @
        drop (nat (?p + ?n) + length (drop 10 unread)) ?new =
      take (nat ?p) old @ unread @ drop (nat ?p + length unread) old"
    proof -
      have prefix: "take (n + length ys) ((xs @ ys) @ zs) = xs @ ys" if "length xs = n"
        for n and xs ys zs :: "byte list" using that by simp
      have l: "nat (?p + ?n) = nat ?p + length ?b" using less.prems(6) by (simp add: nat_add_distrib)
      have l2: "length (take (nat ?p) old) = nat ?p" using pos by simp
      have e: "length ?b + length (drop 10 unread) = length unread"
        by (metis append_take_drop_id length_append)
      have "take (nat (?p + ?n)) ?new = take (nat ?p) old @ ?b"
        unfolding l by (simp only: append_assoc [symmetric]) (rule prefix [OF l2])
      moreover have "drop (nat (?p + ?n) + length (drop 10 unread)) ?new =
          drop (nat ?p + length unread) old"
        unfolding l using l2 e by (simp add: add.commute add.left_commute)
      ultimately show ?thesis by simp
    qed
    ultimately show ?thesis using step w1(6,7) by auto
  qed
qed

lemma print_loop_law:
  assumes "ok w" and "header_ok (hdr f)" and "0 \<le> seekPosition f"
    and "seekPosition f \<le> numBytes (hdr f)" and "length buffer = 10"
  shows "\<exists>w'. print_loop E f buffer out w =
    Some (Inr (out @ drop (nat (seekPosition f)) (file_bytes (hdr f) (sectors w)), w')) \<and>
    ok w' \<and> sectors w' = sectors w"
  using assms
proof (induction "nat (numBytes (hdr f) - seekPosition f)" arbitrary: f w buffer out rule: less_induct)
  case less
  let ?p = "seekPosition f" and ?N = "numBytes (hdr f)" and ?bs = "file_bytes (hdr f) (sectors w)"
  show ?case
  proof (cases "?p < ?N")
    case False
    then have "OpenFile_Read E f buffer 0 TransferSize w = Inr (0, f, buffer, w)"
      using less.prems by (simp add: OpenFile_Read_def ReadAt_none int_add_def in_int_def int_min_def
          int_max_def header_ok_def MaxFileSize_value)
    moreover have "drop (nat ?p) ?bs = []" using False by simp
    ultimately show ?thesis using less.prems(1) by (subst print_loop.simps) simp
  next
    case True
    let ?c = "min 10 (?N - ?p)"
    have size: "?N \<le> 3840" using less.prems(2) by (simp add: header_ok_def MaxFileSize_value)
    have fit: "in_int (?p + 10)" "in_int (?p + ?c)"
      using less.prems(3) True size by (auto simp: in_int_def int_min_def int_max_def)
    have off: "0 + ?c \<le> int (length buffer)" using less.prems(5) by simp
    obtain w1 where w1: "OpenFile_ReadAt E f buffer 0 10 ?p w =
        Inr (?c, take (nat 0) buffer @ take (nat ?c) (drop (nat ?p) ?bs) @ drop (nat (0 + ?c)) buffer, w1)"
      "ok w1" "sectors w1 = sectors w"
      using ReadAt_list [OF less.prems(2,1) _ less.prems(3) True fit(1) refl order_refl off] by auto
    let ?buf = "take (nat ?c) (drop (nat ?p) ?bs) @ drop (nat ?c) buffer"
    let ?f = "f\<lparr>seekPosition := ?p + ?c\<rparr>"
    have c0: "0 < ?c" using True by simp
    have rd: "OpenFile_Read E f buffer 0 TransferSize w = Inr (?c, ?f, ?buf, w1)"
      using w1(1) fit(2) by (simp add: OpenFile_Read_def TransferSize_def int_add_def)
    have l: "length (take (nat ?c) (drop (nat ?p) ?bs)) = nat ?c" using less.prems(3) True by auto
    moreover have "nat ?c \<le> 10" by (auto simp: min_def)
    ultimately have lb: "length ?buf = 10" using less.prems(5) by simp
    have "\<exists>w'. print_loop E ?f ?buf (out @ take (nat ?c) ?buf) w1 =
        Some (Inr ((out @ take (nat ?c) ?buf) @ drop (nat (seekPosition ?f)) (file_bytes (hdr ?f) (sectors w1)), w')) \<and>
        ok w' \<and> sectors w' = sectors w1"
      by (rule less.hyps) (use less.prems True w1(2) lb in auto)
    moreover have "print_loop E f buffer out w = print_loop E ?f ?buf (out @ take (nat ?c) ?buf) w1"
      by (subst print_loop.simps) (use rd c0 in simp)
    moreover have "take (nat ?c) ?buf @ drop (nat (?p + ?c)) ?bs = drop (nat ?p) ?bs"
    proof -
      have a: "take (nat ?c) (xs @ ys) = xs" if "length xs = nat ?c" for xs ys :: "byte list"
        using that by simp
      have "take (nat ?c) ?buf = take (nat ?c) (drop (nat ?p) ?bs)" by (rule a [OF l])
      moreover have "drop (nat (?p + ?c)) ?bs = drop (nat ?c) (drop (nat ?p) ?bs)"
        using less.prems(3) c0 by (simp add: nat_add_distrib add.commute)
      ultimately show ?thesis by (simp only: append_take_drop_id)
    qed
    ultimately show ?thesis using w1(3) by simp
  qed
qed

text \<open>A file found in a consistent file system, as \<open>Open\<close> returns it.\<close>

lemma open_found:
  assumes "fs_ok (sectors w)" and "fs_open fs (sectors w)" and "ok w"
    and "fs_files (sectors w) (stored nm) = Some bs"
  shows "\<exists>s f w'. fs_dir (sectors w) (stored nm) = Some s \<and>
    FileSystem_Open E fs nm w = Inr (Some f, w') \<and> ok w' \<and> sectors w' = sectors w \<and>
    hdr f = header_at (sectors w) s \<and> seekPosition f = 0 \<and> header_ok (hdr f) \<and>
    bs = file_bytes (hdr f) (sectors w) \<and> numBytes (hdr f) = int (length bs)"
proof -
  obtain s where s: "fs_dir (sectors w) (stored nm) = Some s"
    "bs = file_bytes (header_at (sectors w) s) (sectors w)"
    using assms(4) by (auto simp: fs_files_def)
  have h: "header_ok (header_at (sectors w) s)"
    using fs_ok_file(3) [OF assms(1) fs_dir_sector(1) [OF assms(1) s(1)]] .
  then have "0 \<le> numBytes (header_at (sectors w) s)" by (simp add: header_ok_def)
  with Open_law [OF assms(1-3), of nm] s h show ?thesis by auto
qed

lemma Copy_law:
  assumes "fs_ok (sectors w)" and "fs_open fs (sectors w)" and "ok w"
    and n: "int (length contents) \<le> MaxFileSize"
    and room: "has_room (sectors w) nm (int (length contents))"
  shows "\<exists>w'. Copy E fs (Some contents) nm w = Inr (Copied, w') \<and> ok w' \<and> fs_ok (sectors w') \<and>
    fs_open fs (sectors w') \<and> fs_files (sectors w') = (fs_files (sectors w))(stored nm \<mapsto> contents)"
proof -
  obtain w1 s bs where w1: "FileSystem_Create E fs nm (int (length contents)) w = Inr (True, w1)" "ok w1"
    "fs_ok (sectors w1)" "fs_open fs (sectors w1)"
    "fs_files (sectors w1) = (fs_files (sectors w))(stored nm \<mapsto> bs)"
    "int (length bs) = int (length contents)"
    using Create_law [OF assms(1-3) _ n room] by auto
  then have found: "fs_files (sectors w1) (stored nm) = Some bs" by simp
  obtain s f w2 where w2: "fs_dir (sectors w1) (stored nm) = Some s"
    "FileSystem_Open E fs nm w1 = Inr (Some f, w2)" "ok w2" "sectors w2 = sectors w1"
    "hdr f = header_at (sectors w1) s" "seekPosition f = 0"
    using open_found [OF w1(3,4,2) found] by blast
  have len: "length bs \<le> 3840" using w1(6) n by (simp add: MaxFileSize_value)
  obtain f' w3 where w3: "copy_loop E f contents w2 = Inr (f', w3)" "ok w3" "fs_ok (sectors w3)"
    "\<forall>r \<in> {0, 1}. header_at (sectors w3) r = header_at (sectors w1) r"
    "fs_files (sectors w3) = (fs_files (sectors w1))(stored nm \<mapsto>
      take 0 bs @ contents @ drop (length contents) bs)"
    using copy_loop_law [of w2 "stored nm" s f bs contents] w2 w1(3,6) found len by auto
  have "drop (length contents) bs = []" using w1(6) by simp
  then have "fs_files (sectors w3) = (fs_files (sectors w))(stored nm \<mapsto> contents)"
    using w3(5) w1(5) by simp
  moreover have "fs_open fs (sectors w3)" using w1(4) w3(4) by (simp add: fs_open_def)
  ultimately show ?thesis using w1(1) w2(2) w3(1-3) by (simp add: Copy_def)
qed

lemma Print_law:
  assumes "fs_ok (sectors w)" and "fs_open fs (sectors w)" and "ok w"
  shows "\<exists>w'. Print E fs nm w = Some (Inr (fs_files (sectors w) (stored nm), w')) \<and>
    sectors w' = sectors w"
proof (cases "fs_files (sectors w) (stored nm)")
  case None
  then have "fs_dir (sectors w) (stored nm) = None" by (simp add: fs_files_def)
  with Open_law [OF assms, of nm] None show ?thesis by (auto simp: Print_def)
next
  case (Some bs)
  obtain f w1 where w1: "FileSystem_Open E fs nm w = Inr (Some f, w1)" "ok w1" "sectors w1 = sectors w"
    "seekPosition f = 0" "header_ok (hdr f)" "bs = file_bytes (hdr f) (sectors w)"
    using open_found [OF assms Some] by blast
  have "0 \<le> numBytes (hdr f)" using w1(5) by (simp add: header_ok_def)
  with print_loop_law [OF w1(2,5), of "new_bytes E 0 w1 TransferSize" "[]"] w1 Some show ?thesis
    by (auto simp: Print_def TransferSize_def)
qed

text \<open>\<open>FileWrite\<close> creates a file of size 0, which can hold nothing.\<close>

lemma PerformanceTest_law:
  assumes "fs_ok (sectors w)" and "fs_open fs (sectors w)" and "ok w"
    and room: "has_room (sectors w) FileName 0"
  shows "\<exists>w'. PerformanceTest E fs w = Inr ((CannotWrite, CannotRead, Passed), w') \<and>
    fs_files (sectors w') = fs_files (sectors w)"
proof -
  let ?k = "stored FileName"
  obtain w1 bs where w1: "FileSystem_Create E fs FileName 0 w = Inr (True, w1)" "ok w1"
    "fs_ok (sectors w1)" "fs_open fs (sectors w1)"
    "fs_files (sectors w1) = (fs_files (sectors w))(?k \<mapsto> bs)" "int (length bs) = 0"
    using Create_law [OF assms(1-3) order_refl _ room] by (auto simp: MaxFileSize_value)
  then have found: "fs_files (sectors w1) ?k = Some bs" by simp
  obtain f w2 where w2: "FileSystem_Open E fs FileName w1 = Inr (Some f, w2)" "ok w2"
    "sectors w2 = sectors w1" "seekPosition f = 0" "numBytes (hdr f) = 0"
    using open_found [OF w1(3,4,2) found] w1(6) by auto
  have loops: "0 < FileSize" by (simp add: FileSize_def ContentSize_value)
  have "write_loop E f 0 w2 = Inr (CannotWrite, w2)"
    using loops w2(4,5) by (subst write_loop.simps)
      (simp add: OpenFile_Write_def WriteAt_none int_add_def in_int_def int_min_def int_max_def)
  then have fw: "FileWrite E fs w = Inr (CannotWrite, w2)"
    using w1(1) w2(1) by (simp add: FileWrite_def)
  obtain g w3 where w3: "FileSystem_Open E fs FileName w2 = Inr (Some g, w3)" "ok w3"
    "sectors w3 = sectors w1" "seekPosition g = 0" "numBytes (hdr g) = 0"
    using open_found [of w2 fs FileName bs] w1(3,4,6) w2(2,3) found by auto
  have "read_loop E g b 0 w3 = Inr (CannotRead, w3)" for b
    using loops w3(4,5) by (subst read_loop.simps)
      (simp add: OpenFile_Read_def ReadAt_none int_add_def in_int_def int_min_def int_max_def)
  then have fr: "FileRead E fs w2 = Inr (CannotRead, w3)"
    using w3(1) by (simp add: FileRead_def)
  obtain w4 where w4: "FileSystem_Remove E fs FileName w3 = Inr (True, w4)"
    "fs_files (sectors w4) = (fs_files (sectors w1))(?k := None)"
    using Remove_law [of w3 fs FileName] w1(3,4) w3(2,3) found
    by (auto simp: fs_files_def)
  have "fs_files (sectors w) ?k = None" using room by (simp add: has_room_def fs_files_def)
  then have "(fs_files (sectors w1))(?k := None) = fs_files (sectors w)" using w1(5) by auto
  with fw fr w4 show ?thesis by (simp add: PerformanceTest_def)
qed

end

subsection \<open>Properties\<close>

text \<open>
  From a freshly formatted disk on, whenever there is room, \<open>Copy\<close> of a Unix file of at
  most \<open>MaxFileSize\<close> bytes stores exactly its contents under the given name, and \<open>Print\<close> of that
  name then ends and prints exactly those bytes: the ten-byte transfers through sectors of 128
  bytes lose, repeat and reorder nothing.
\<close>

theorem Copy_then_Print:
  assumes "sector_device E ok sectors" and "ok w" and "fs_ok (sectors w)" and "fs_open fs (sectors w)"
    and "int (length contents) \<le> MaxFileSize" and "has_room (sectors w) nm (int (length contents))"
  shows "\<exists>w' w''. Copy E fs (Some contents) nm w = Inr (Copied, w') \<and> fs_ok (sectors w') \<and>
    fs_files (sectors w') = (fs_files (sectors w))(stored nm \<mapsto> contents) \<and>
    Print E fs nm w' = Some (Inr (Some contents, w''))"
proof -
  obtain w' where w': "Copy E fs (Some contents) nm w = Inr (Copied, w')" "ok w'" "fs_ok (sectors w')"
    "fs_open fs (sectors w')" "fs_files (sectors w') = (fs_files (sectors w))(stored nm \<mapsto> contents)"
    using sector_device.Copy_law [OF assms(1), OF assms(3,4,2,5,6)] by blast
  with sector_device.Print_law [OF assms(1), OF w'(3,4,2), of nm] show ?thesis by auto
qed

theorem Copy_then_Print_witness:
  "\<exists>fs w w' w''. FileSystem_new mem_env False True blank_disk = Inr (fs, w) \<and>
    Copy mem_env fs (Some (replicate 1000 5)) (str ''big'') w = Inr (Copied, w') \<and>
    Print mem_env fs (str ''big'') w' = Some (Inr (Some (replicate 1000 5), w''))"
proof -
  obtain fs w where w: "FileSystem_new mem_env False True blank_disk = Inr (fs, w)" "mem_ok w" "fs_ok w"
    "fs_open fs w" "fs_dir w = Map.empty" using formatted_disk by blast
  have n: "(0::int) \<le> int (length (replicate 1000 (5::byte)))"
    "int (length (replicate 1000 (5::byte))) \<le> MaxFileSize" by (simp_all add: MaxFileSize_value)
  have room: "has_room w (str ''big'') (int (length (replicate 1000 (5::byte))))"
    by (rule formatted_room [OF w(3,5) n])
  from Copy_then_Print [OF mem_disk.sector_device_axioms, OF w(2-4) n(2) room] w(1) show ?thesis by blast
qed

text \<open>
  \<open>PerformanceTest\<close> can never pass: it creates its file with size 0, files cannot grow, so
  on every consistent file system with room for it the first write already fails, reading fails
  as well, and the file is removed again.
\<close>

theorem PerformanceTest_always_fails:
  assumes "sector_device E ok sectors" and "ok w" and "fs_ok (sectors w)" and "fs_open fs (sectors w)"
    and "has_room (sectors w) FileName 0"
  shows "\<exists>w'. PerformanceTest E fs w = Inr ((CannotWrite, CannotRead, Passed), w') \<and>
    fs_files (sectors w') = fs_files (sectors w)"
  using sector_device.PerformanceTest_law [OF assms(1), OF assms(3,4,2,5)] .

theorem PerformanceTest_always_fails_witness:
  "\<exists>fs w w'. FileSystem_new mem_env False True blank_disk = Inr (fs, w) \<and>
    PerformanceTest mem_env fs w = Inr ((CannotWrite, CannotRead, Passed), w')"
proof -
  obtain fs w where w: "FileSystem_new mem_env False True blank_disk = Inr (fs, w)" "mem_ok w" "fs_ok w"
    "fs_open fs w" "fs_dir w = Map.empty" using formatted_disk by blast
  have room: "has_room w FileName 0"
    by (rule formatted_room [OF w(3,5)]) (simp_all add: MaxFileSize_value)
  from PerformanceTest_always_fails [OF mem_disk.sector_device_axioms, OF w(2-4) room] w(1)
  show ?thesis by blast
qed

end
