(* ===== verification/Start_Process.thy ===== *)
theory Start_Process
  imports Synch_Disk Fs_Test
begin

section \<open>Running a user program, userprog/progtest.cc\<close>

text \<open>
  \<open>StartProcess\<close> is where the parts of the kernel meet: the file system on the synchronous disk
  finds the program, the address space loads it into the simulated machine's memory, and the
  machine runs it. The lemmas compose the contracts of these parts; at the end a kernel formats
  its disk, copies a program onto it and runs it until it halts the machine.
\<close>

subsection \<open>StartProcess\<close>

text \<open>
  \<open>sp\<close> and \<open>tab\<close> are the addresses that \<open>new AddrSpace\<close> and \<open>new TranslationEntry[]\<close> return;
  \<open>delete executable\<close> frees the open file, which has no state outside itself.
\<close>

definition set_space ::
  "nat \<Rightarrow> AddrSpace \<Rightarrow> ('h, 'm) pkernel_scheme \<Rightarrow> ('h, 'm) pkernel_scheme result" where
  "set_space sp a k =
     rbind (thread_at (currentThread k) k) (\<lambda>c.
     Inr ((put_thread (currentThread k) (c\<lparr>space := Some sp\<rparr>) k)\<lparr>spaces := (spaces k)(sp \<mapsto> a)\<rparr>))"

definition StartProcess ::
  "('h, 'm) pkernel_scheme fs_env \<Rightarrow> ('h, 'm pkernel_ext) exception_handler \<Rightarrow>
    ('h, ('h, 'm) pkernel_scheme) cpu \<Rightarrow> (('h, 'm) pkernel_scheme \<Rightarrow> ('h, 'm) pkernel_scheme result) \<Rightarrow>
    FileSystem \<Rightarrow> nat \<Rightarrow> nat \<Rightarrow> byte list \<Rightarrow> ('h, 'm) pkernel_scheme \<Rightarrow> ('h, 'm) pkernel_scheme result option" where
  "StartProcess E eh cpu debugger fs sp tab filename k =
     orbind (Some (FileSystem_Open E fs filename k)) (\<lambda>(prog, k).
     case prog of
       None \<Rightarrow> Some (Inr k)
     | Some f \<Rightarrow>
         orbind (Some (AddrSpace_new E tab f k)) (\<lambda>(a, k).
         orbind (Some (set_space sp a k)) (\<lambda>k.
         orbind (Some (InitRegisters a k)) (\<lambda>k.
         orbind (Machine_Run eh cpu debugger (AddrSpace_RestoreState a k)) (\<lambda>k.
         Some (rbind (ASSERT False) (\<lambda>_. Inr k)))))))"

text \<open>A program that could be opened never comes back.\<close>

lemma StartProcess_no_return:
  assumes "FileSystem_Open E fs nm k = Inr (Some f, k0)"
  shows "StartProcess E eh cpu debugger fs sp tab nm k \<noteq> Some (Inr k')"
proof
  assume "StartProcess E eh cpu debugger fs sp tab nm k = Some (Inr k')"
  then show False by (auto simp: StartProcess_def assms)
qed

subsection \<open>The file system on the synchronous disk\<close>

text \<open>Its operations leave the simulated memory and the translation tables alone.\<close>

lemma synch_disk_keeps:
  "sector_device (synch_env c junk) (\<lambda>k. sd_ready sd k \<and> machine_part k = mp) disk_sectors"
proof unfold_locales
  fix k :: "(disk_handler, 'a) sdkernel_scheme" and s data
  assume k: "sd_ready sd k \<and> machine_part k = mp"
  then have k: "sd_ready sd k" "machine_part k = mp" by simp_all
  show "length (disk_sectors k s) = 128" if "sector_number s"
    by (rule synch_disk.sector_length [OF k(1) that])
  show "\<exists>w'. ReadSector (synch_env c junk) s k = Inr (disk_sectors k s, w') \<and>
      (sd_ready sd w' \<and> machine_part w' = mp) \<and> disk_sectors w' = disk_sectors k" if "sector_number s"
    using SynchDisk_ReadSector_spec [OF k(1) that, of c] k(2) by (auto simp: synch_env_def)
  show "\<exists>w'. WriteSector (synch_env c junk) s data k = Inr w' \<and>
      (sd_ready sd w' \<and> machine_part w' = mp) \<and> disk_sectors w' = (disk_sectors k)(s := data)"
    if "sector_number s" "length data = 128"
    using SynchDisk_WriteSector_spec [OF k(1) that, of c] k(2) by (auto simp: synch_env_def)
  show "ReadSector (synch_env c junk) s k = Inl AssertFailed" if "\<not> sector_number s"
    by (rule synch_disk.read_range [OF k(1) that])
  show "WriteSector (synch_env c junk) s data k = Inl AssertFailed"
    if "\<not> sector_number s" "length data = 128"
    by (rule synch_disk.write_range [OF k(1) that])
qed

lemma sd_ready_thread:
  assumes "sd_ready sd k"
  shows "\<exists>c. threads k (currentThread k) = Some c"
  using assms by (auto simp: sd_ready_def sd_at_def only_thread_def)

text \<open>
  What \<open>StartProcess\<close> does with a program that can be loaded: it runs the machine, from a state
  in which the disk and the scheduler are idle, on the program's image.
\<close>

lemma StartProcess_law:
  assumes k: "sd_ready sd k" and ok: "fs_ok (disk_sectors k)" and op: "fs_open fs (disk_sectors k)"
    and mem: "int (length (mainMemory (mach k))) = MemorySize" and tlb: "tlb (mach k) = None"
    and prog: "fs_files (disk_sectors k) (stored nm) = Some prog" and ld: "loadable prog"
  shows "\<exists>k2. StartProcess (synch_env c junk) eh (disk_cpu c) debugger fs sp tab nm k =
      Machine_Run eh (disk_cpu c) debugger k2 \<and>
    identity_map k2 \<and> mach_ok k2 \<and> level k2 = IntOn \<and> pending k2 = [] \<and> \<not> yieldOnReturn k2 \<and>
    pageTableSize (mach k2) = pages_needed (program_size (noff_header prog)) \<and>
    reg PCReg k2 = 0 \<and> reg NextPCReg k2 = 4 \<and> reg LoadReg k2 = 0 \<and>
    mainMemory (mach k2) = program_image prog (mainMemory (mach k)) \<and>
    disk_sectors k2 = disk_sectors k \<and>
    space_of (currentThread k2) k2 = Some \<lparr>spPageTable = tab,
      numPages = pages_needed (program_size (noff_header prog))\<rparr>"
proof -
  let ?E = "synch_env c junk" and ?a = "\<lparr>spPageTable = tab, numPages = pages_needed (program_size (noff_header prog))\<rparr>"
  obtain s where s: "fs_dir (disk_sectors k) (stored nm) = Some s"
    "file_bytes (header_at (disk_sectors k) s) (disk_sectors k) = prog"
    using prog by (auto simp: fs_files_def)
  let ?f = "\<lparr>hdr = header_at (disk_sectors k) s, seekPosition = 0\<rparr>"
  obtain k0 where k0: "FileSystem_Open ?E fs nm k = Inr (Some ?f, k0)" "sd_ready sd k0"
    "machine_part k0 = machine_part k" "disk_sectors k0 = disk_sectors k"
    using sector_device.Open_law [OF synch_disk_keeps [of c junk sd "machine_part k"], OF ok op, of nm] k s by auto
  have h: "header_ok (hdr ?f)"
    using s(1) fs_ok_file(3) [OF ok] by (auto simp: file_sectors_def intro: ranI)
  have m0: "mainMemory (mach k0) = mainMemory (mach k)" "tlb (mach k0) = None"
    using k0(3) tlb by (simp_all add: machine_part_def)
  have prog0: "file_bytes (hdr ?f) (disk_sectors k0) = prog" using s(2) k0(4) by simp
  obtain k1 where k1: "AddrSpace_new ?E tab ?f k0 = Inr (?a, k1)" "sd_ready sd k1"
    "disk_sectors k1 = disk_sectors k0" "mainMemory (mach k1) = program_image prog (mainMemory (mach k))"
    using AddrSpace_new_loads [OF synch_disk_programs [of c junk] k0(2) h prog0 ld, of tab] m0 mem by auto
  have frame: "machine_frame ?E (sd_ready sd)" using synch_disk_programs [of c junk sd] by (simp add: program_disk_def)
  have mem0: "int (length (mainMemory (mach k0))) = MemorySize" using m0(1) mem by simp
  note new = AddrSpace_new_spec [OF frame k0(2) k1(1) mem0]
  obtain th where th: "threads k1 (currentThread k1) = Some th" using sd_ready_thread [OF k1(2)] by blast
  define k2 where "k2 = (put_thread (currentThread k1) (th\<lparr>space := Some sp\<rparr>) k1)\<lparr>spaces := (spaces k1)(sp \<mapsto> ?a)\<rparr>"
  have k2: "mach k2 = mach k1" "tables k2 = tables k1" by (simp_all add: k2_def put_thread_def)
  have space: "set_space sp ?a k1 = Inr k2" using th by (simp add: set_space_def thread_at_def k2_def)
  obtain k3 m where m: "InitRegisters ?a k2 = Inr k3" "AddrSpace_RestoreState ?a k3 = k2\<lparr>mach := m\<rparr>"
    "identity_map (k2\<lparr>mach := m\<rparr>)" "mach_ok (k2\<lparr>mach := m\<rparr>)" "pageTableSize m = numPages ?a"
    "registers m PCReg = 0" "registers m NextPCReg = 4" "registers m LoadReg = 0"
    "mainMemory m = mainMemory (mach k2)"
    using start_state [of k2 ?a] new k2 m0(2) mem0 by (elim exE conjE) auto
  let ?k = "k2\<lparr>mach := m\<rparr>"
  have "Machine_Run eh (disk_cpu c) debugger ?k \<noteq> Some (Inr x)" for x
    unfolding Machine_Run_def by (rule run_loop_no_return)
  then have "orbind (Machine_Run eh (disk_cpu c) debugger ?k) (\<lambda>k. Some (rbind (ASSERT False) (\<lambda>_. Inr k))) =
      Machine_Run eh (disk_cpu c) debugger ?k"
    by (cases "Machine_Run eh (disk_cpu c) debugger ?k") (auto simp: orbind_Some split: sum.splits)
  then have "StartProcess ?E eh (disk_cpu c) debugger fs sp tab nm k = Machine_Run eh (disk_cpu c) debugger ?k"
    using k0(1) k1(1) space m(1,2) by (simp add: StartProcess_def)
  moreover have "rawDisk ?k = rawDisk k1" by (simp add: k2_def put_thread_def)
  then have "disk_sectors ?k = disk_sectors k1" by (simp add: disk_sectors_def fun_eq_iff)
  then have "disk_sectors ?k = disk_sectors k" using k1(3) k0(4) by simp
  moreover have "level ?k = IntOn \<and> pending ?k = [] \<and> \<not> yieldOnReturn ?k \<and>
      space_of (currentThread ?k) ?k = Some ?a"
    using k1(2) by (simp add: k2_def put_thread_def sd_ready_def sd_at_def space_of_def)
  ultimately show ?thesis using m k1(4) k2(1) by (intro exI [of _ ?k]) simp
qed

subsection \<open>A program that halts the machine\<close>

text \<open>Fetching and executing one instruction of a mapped page.\<close>

lemma fetch_identity:
  assumes id: "identity_map k" and ok: "mach_ok k" and a: "uint a mod 4 = 0"
    and lim: "uint a < uint (pageTableSize (mach k)) * PageSize"
    and w: "take 4 (drop (nat (uint a)) (mainMemory (mach k))) = word_bytes w"
  shows "\<exists>ts. ReadMem eh a 4 k = Inr (Some w, k\<lparr>tables := ts\<rparr>) \<and> identity_map (k\<lparr>tables := ts\<rparr>) \<and>
    mach_ok (k\<lparr>tables := ts\<rparr>)"
proof -
  have sz: "(4::int) = 1 \<or> (4::int) = 2 \<or> (4::int) = 4" by simp
  obtain k' where k': "identity_map k'" "k' = k\<lparr>tables := tables k'\<rparr>"
    "Translate a 4 False k = Inr (NoException, Some (uint a), k')"
    using identity_Translate [OF id sz, of a False] a lim by auto
  have "ReadMem eh a 4 k = Inr (Some w, k')"
    using ReadMem_hit [OF ok sz k'(3), of eh] w by (simp add: load_bytes_def WordToHost_def)
  moreover have "mach_ok k'"
  proof -
    have "mach k' = mach k" by (subst k'(2)) simp
    then show ?thesis using k'(1) ok by (auto simp: mach_ok_def identity_map_def translation_ok_def)
  qed
  ultimately show ?thesis using k'(1,2) by metis
qed

lemma Decode_halt:
  "opCode (Decode 0x24020000) = OP_ADDIU" "rs (Decode 0x24020000) = 0" "rt (Decode 0x24020000) = 2"
  "extra (Decode 0x24020000) = 0" "opCode (Decode 0x0000000C) = OP_SYSCALL"
  by (simp_all add: Decode_def decode_op_def decode_extra_def opTable_def specialTable_def)

lemma Run_halts:
  assumes id: "identity_map k" and ok: "mach_ok k" and on: "level k = IntOn" "pending k = []" "\<not> yieldOnReturn k"
    and regs: "reg PCReg k = 0" "reg NextPCReg k = 4" "reg LoadReg k = 0"
    and pages: "0 < uint (pageTableSize (mach k))"
    and mem: "take 8 (mainMemory (mach k)) = word_bytes 0x24020000 @ word_bytes 0x0000000C"
  shows "Machine_Run ExceptionHandler cpu Inr k = Some (Inl Halted)"
proof -
  let ?k = "k\<lparr>status := UserMode\<rparr>" and ?mem = "mainMemory (mach k)"
  have w: "take 4 ?mem = word_bytes 0x24020000" "take 4 (drop 4 ?mem) = word_bytes 0x0000000C"
    using arg_cong [OF mem, of "take 4"] arg_cong [OF mem, of "drop 4"] by (simp_all add: drop_take)
  have id0: "identity_map ?k" and ok0: "mach_ok ?k"
    using id ok by (simp_all add: identity_map_def mach_ok_def translation_ok_def)
  obtain ts where ts: "ReadMem ExceptionHandler (reg PCReg ?k) 4 ?k = Inr (Some 0x24020000, ?k\<lparr>tables := ts\<rparr>)"
    "identity_map (?k\<lparr>tables := ts\<rparr>)" "mach_ok (?k\<lparr>tables := ts\<rparr>)"
    using fetch_identity [OF id0 ok0, of 0 "0x24020000" ExceptionHandler] w(1) pages regs(1)
    by (auto simp: page_sizes)
  have z: "reg 0 k = 0" using ok by (simp add: mach_ok_def)
  obtain r where r: "OneInstruction ExceptionHandler ?k = Inr (?k\<lparr>tables := ts, mach := (mach k)\<lparr>registers := r\<rparr>\<rparr>)"
    "r PCReg = 4" "r NextPCReg = 8" "r LoadReg = 0" "r 2 = 0" "r 0 = 0"
    using ts(1) regs z
    by (simp add: OneInstruction_def execute_def exec_ADDIU_def Decode_halt DelayedLoad_def Let_def
        set_reg_def reg_numbers)
  define k1 where "k1 = ?k\<lparr>tables := ts, mach := (mach k)\<lparr>registers := r\<rparr>\<rparr>"
  define k2 where "k2 = tick k1"
  have "OneTick cpu k1 = Some (Inr k2)"
    unfolding k2_def by (rule OneTick_none) (use on in \<open>simp_all add: k1_def\<close>)
  then have step1: "user_step ExceptionHandler cpu Inr ?k = Some (Inr k2)"
    using r(1) by (simp add: user_step_def k1_def)
  have m2: "mach k2 = (mach k)\<lparr>registers := r\<rparr>" "tables k2 = ts"
    by (simp_all add: k2_def k1_def tick_def advance_clock_def Let_def)
  have id2: "identity_map k2" using ts(2) m2 by (simp add: identity_map_def)
  have ok2: "mach_ok k2" using ts(3) m2 r(4,6) by (simp add: mach_ok_def translation_ok_def reg_numbers)
  obtain ts' where ts': "ReadMem ExceptionHandler (reg PCReg k2) 4 k2 = Inr (Some 0x0000000C, k2\<lparr>tables := ts'\<rparr>)"
    using fetch_identity [OF id2 ok2, of 4 "0x0000000C" ExceptionHandler] w(2) pages r(2) m2
    by (auto simp: page_sizes)
  have "OneInstruction ExceptionHandler k2 = Inl Halted"
    using ts' m2 r(2-6)
    by (simp add: OneInstruction_def execute_def exec_SYSCALL_def Decode_halt trap_def RaiseException_def
        DelayedLoad_def Let_def ExceptionHandler_def ReadRegister_def SC_Halt_def Halt_def reg_numbers)
  then have "user_step ExceptionHandler cpu Inr k2 = Some (Inl Halted)" by (simp add: user_step_def)
  then have "run_loop ExceptionHandler cpu Inr k2 = Some (Inl Halted)" by (subst run_loop.simps) simp
  then have "run_loop ExceptionHandler cpu Inr ?k = Some (Inl Halted)"
    using step1 by (subst run_loop.simps) simp
  then show ?thesis by (simp add: Machine_Run_def)
qed

lemma StartProcess_refuses:
  assumes k: "sd_ready sd k" and ok: "fs_ok (disk_sectors k)" and op: "fs_open fs (disk_sectors k)"
    and prog: "fs_files (disk_sectors k) (stored nm) = Some prog" and rf: "refused prog"
  shows "StartProcess (synch_env c junk) eh cpu debugger fs sp tab nm k = Some (Inl AssertFailed)"
proof -
  let ?E = "synch_env c junk"
  obtain s where s: "fs_dir (disk_sectors k) (stored nm) = Some s"
    "file_bytes (header_at (disk_sectors k) s) (disk_sectors k) = prog"
    using prog by (auto simp: fs_files_def)
  let ?f = "\<lparr>hdr = header_at (disk_sectors k) s, seekPosition = 0\<rparr>"
  obtain k0 where k0: "FileSystem_Open ?E fs nm k = Inr (Some ?f, k0)" "sd_ready sd k0"
    "disk_sectors k0 = disk_sectors k"
    using sector_device.Open_law [OF synch_disk_keeps [of c junk sd "machine_part k"], OF ok op, of nm] k s by auto
  have h: "header_ok (hdr ?f)"
    using s(1) fs_ok_file(3) [OF ok] by (auto simp: file_sectors_def intro: ranI)
  have "file_bytes (hdr ?f) (disk_sectors k0) = prog" using s(2) k0(3) by simp
  then have "AddrSpace_new ?E tab ?f k0 = Inl AssertFailed"
    by (rule AddrSpace_new_refuses [OF synch_disk_programs [of c junk] k0(2) h _ rf])
  then show ?thesis by (simp add: StartProcess_def k0(1))
qed

text \<open>Whatever the file holds, a program that is there never gives the prompt back.\<close>

lemma StartProcess_existing:
  assumes k: "sd_ready sd k" and ok: "fs_ok (disk_sectors k)" and op: "fs_open fs (disk_sectors k)"
    and prog: "fs_files (disk_sectors k) (stored nm) \<noteq> None"
  shows "StartProcess (synch_env c junk) eh cpu debugger fs sp tab nm k \<noteq> Some (Inr k1)"
proof -
  obtain s where "fs_dir (disk_sectors k) (stored nm) = Some s" using prog by (auto simp: fs_files_def)
  then obtain f k0 where "FileSystem_Open (synch_env c junk) fs nm k = Inr (Some f, k0)"
    using sector_device.Open_law [OF synch_disk_keeps [of c junk sd "machine_part k"], OF ok op, of nm] k by auto
  then show ?thesis by (rule StartProcess_no_return)
qed

subsection \<open>Properties\<close>

text \<open>
  C2: On a kernel whose consistent file system lies on the synchronous disk, \<open>StartProcess\<close>
  returns, with the disk unchanged, exactly when there is no file of that name. A file of at least
  40 bytes that is not an object file (its magic number is another) or needs more pages than the
  machine has stops the kernel at an assertion of \<open>AddrSpace\<close>. A file that can be loaded
  (\<open>loadable\<close>: it is neither of these, and its code and data lie within the file and the machine's
  memory) becomes a run of the simulated machine from a well-formed state in which memory holds the
  image of that file, execution starts at address 0, the page table of the program is in place and
  the current thread owns the address space. Of the files that are neither, those shorter than a
  header and those with a segment outside the file or the memory, which the code does not check,
  it says only that the call does not return.
\<close>

theorem StartProcess_runs:
  assumes "sd_ready sd k" and "fs_ok (disk_sectors k)" and "fs_open fs (disk_sectors k)"
    and "int (length (mainMemory (mach k))) = MemorySize" and "tlb (mach k) = None"
  shows "(fs_files (disk_sectors k) (stored nm) = None \<longrightarrow>
      (\<exists>k1. StartProcess (synch_env c junk) eh (disk_cpu c) debugger fs sp tab nm k = Some (Inr k1) \<and>
        disk_sectors k1 = disk_sectors k)) \<and>
    (fs_files (disk_sectors k) (stored nm) \<noteq> None \<longrightarrow>
      (\<forall>k1. StartProcess (synch_env c junk) eh (disk_cpu c) debugger fs sp tab nm k \<noteq> Some (Inr k1))) \<and>
    (\<forall>prog. fs_files (disk_sectors k) (stored nm) = Some prog \<and> refused prog \<longrightarrow>
      StartProcess (synch_env c junk) eh (disk_cpu c) debugger fs sp tab nm k = Some (Inl AssertFailed)) \<and>
    (\<forall>prog. fs_files (disk_sectors k) (stored nm) = Some prog \<and> loadable prog \<longrightarrow>
      (\<exists>k2. StartProcess (synch_env c junk) eh (disk_cpu c) debugger fs sp tab nm k =
          Machine_Run eh (disk_cpu c) debugger k2 \<and> mach_ok k2 \<and> reg PCReg k2 = 0 \<and> reg NextPCReg k2 = 4 \<and>
        mainMemory (mach k2) = program_image prog (mainMemory (mach k)) \<and> disk_sectors k2 = disk_sectors k \<and>
        pageTable (mach k2) \<noteq> None \<and>
        space_of (currentThread k2) k2 = Some \<lparr>spPageTable = tab,
          numPages = pages_needed (program_size (noff_header prog))\<rparr>))"
proof -
  let ?P = "StartProcess (synch_env c junk) eh (disk_cpu c) debugger fs sp tab nm k"
  have "\<exists>k1. ?P = Some (Inr k1) \<and> disk_sectors k1 = disk_sectors k"
    if none: "fs_files (disk_sectors k) (stored nm) = None"
    using sector_device.Open_law [OF synch_disk_keeps [of c junk sd "machine_part k"], OF assms(2,3), of nm]
      assms(1) none
    by (auto simp: StartProcess_def fs_files_def)
  moreover have "?P \<noteq> Some (Inr k1)" if "fs_files (disk_sectors k) (stored nm) \<noteq> None" for k1
    by (rule StartProcess_existing [OF assms(1-3) that])
  moreover have "?P = Some (Inl AssertFailed)"
    if "fs_files (disk_sectors k) (stored nm) = Some prog" "refused prog" for prog
    by (rule StartProcess_refuses [OF assms(1-3) that])
  moreover have "(\<exists>k2. ?P = Machine_Run eh (disk_cpu c) debugger k2 \<and> mach_ok k2 \<and> reg PCReg k2 = 0 \<and> reg NextPCReg k2 = 4 \<and>
        mainMemory (mach k2) = program_image prog (mainMemory (mach k)) \<and> disk_sectors k2 = disk_sectors k \<and>
        pageTable (mach k2) \<noteq> None \<and>
        space_of (currentThread k2) k2 = Some \<lparr>spPageTable = tab,
          numPages = pages_needed (program_size (noff_header prog))\<rparr>)"
    if "fs_files (disk_sectors k) (stored nm) = Some prog" "loadable prog" for prog
  proof -
    note law = StartProcess_law [OF assms that, of c junk eh debugger sp tab]
    obtain k2 where k2: "?P = Machine_Run eh (disk_cpu c) debugger k2" "identity_map k2" "mach_ok k2"
      "reg PCReg k2 = 0" "reg NextPCReg k2 = 4" "mainMemory (mach k2) = program_image prog (mainMemory (mach k))"
      "disk_sectors k2 = disk_sectors k" "space_of (currentThread k2) k2 = Some \<lparr>spPageTable = tab,
          numPages = pages_needed (program_size (noff_header prog))\<rparr>"
      using law by (elim exE conjE) (rule that)
    have "pageTable (mach k2) \<noteq> None" using k2(2) by (auto simp: identity_map_def)
    then show ?thesis using k2 by (intro conjI exI [of _ k2]) simp_all
  qed
  ultimately show ?thesis by blast
qed

text \<open>
  The kernel formats its disk, copies the halting program onto it and runs it: the machine halts.
  It is what \<open>nachos -f -cp halt halt\<close> followed by \<open>nachos -x halt\<close> does.
\<close>

lemma disk_boot_machine:
  "int (length (mainMemory (mach disk_boot))) = MemorySize" "tlb (mach disk_boot) = None"
proof -
  have "mach disk_boot = mach disk_base"
    by (simp add: disk_boot_def SynchDisk_new_def Disk_new_def Lock_new_def put_sem_def)
  moreover have "mach disk_base = Machine_new False 0 0"
    by (simp add: disk_base_def skernel.defs dkernel.defs pkernel.defs ukernel.defs kernel.defs sdkernel.defs)
  ultimately show "int (length (mainMemory (mach disk_boot))) = MemorySize" "tlb (mach disk_boot) = None"
    by (simp_all add: Machine_new_def page_sizes)
qed

theorem StartProcess_runs_witness:
  "\<exists>fs k k1. FileSystem_new (synch_env idle_cpu (\<lambda>_ _ _. 0xA5)) False True disk_boot = Inr (fs, k) \<and>
    Copy (synch_env idle_cpu (\<lambda>_ _ _. 0xA5)) fs (Some (halt_program @ replicate 72 0)) (str ''halt'') k =
      Inr (Copied, k1) \<and>
    StartProcess (synch_env idle_cpu (\<lambda>_ _ _. 0xA5)) ExceptionHandler (disk_cpu idle_cpu) Inr fs 0 1
      (str ''halt'') k1 = Some (Inl Halted) \<and>
    (\<exists>k2. StartProcess (synch_env idle_cpu (\<lambda>_ _ _. 0xA5)) ExceptionHandler (disk_cpu idle_cpu) Inr fs 0 1
      (str ''none'') k1 = Some (Inr k2))"
proof -
  let ?E = "synch_env idle_cpu (\<lambda>_ _ _. 0xA5)" and ?sd = "\<lparr>sd_semaphore = 0, sd_lock = 0\<rparr>"
  let ?mp = "machine_part disk_boot" and ?prog = "halt_program @ replicate 72 0"
  note dev = synch_disk_keeps [of idle_cpu "\<lambda>_ _ _. 0xA5" ?sd ?mp]
  obtain fs k where k: "FileSystem_new ?E False True disk_boot = Inr (fs, k)" "sd_ready ?sd k"
    "machine_part k = ?mp" "fs_ok (disk_sectors k)" "fs_open fs (disk_sectors k)"
    "fs_dir (disk_sectors k) = Map.empty" "fs_files (disk_sectors k) = Map.empty"
    using sector_device.format_law [OF dev, of disk_boot False] disk_boot_ready by auto
  have n: "(0::int) \<le> int (length ?prog)" "int (length ?prog) \<le> MaxFileSize"
    by (simp_all add: MaxFileSize_value halt_program_length)
  have "has_room (disk_sectors k) (str ''halt'') (int (length ?prog))"
    by (rule formatted_room [OF k(4,6) n])
  from sector_device.Copy_law [OF dev, OF k(4,5) _ n(2) this] k(2,3)
  obtain k1 where k1: "Copy ?E fs (Some ?prog) (str ''halt'') k = Inr (Copied, k1)" "sd_ready ?sd k1"
    "machine_part k1 = ?mp" "fs_ok (disk_sectors k1)" "fs_open fs (disk_sectors k1)"
    "fs_files (disk_sectors k1) = [stored (str ''halt'') \<mapsto> ?prog]"
    using k(7) by auto
  have m: "int (length (mainMemory (mach k1))) = MemorySize" "tlb (mach k1) = None"
    using k1(3) disk_boot_machine by (simp_all add: machine_part_def)
  have "fs_files (disk_sectors k1) (stored (str ''halt'')) = Some ?prog" using k1(6) by simp
  note run = StartProcess_law [OF k1(2,4,5) m this boot_loadable, of idle_cpu "\<lambda>_ _ _. 0xA5" ExceptionHandler Inr 0 1]
  have "StartProcess ?E ExceptionHandler (disk_cpu idle_cpu) Inr fs 0 1 (str ''halt'') k1 = Some (Inl Halted)"
    using run
  proof (elim exE conjE)
    fix k2
    assume k2: "StartProcess ?E ExceptionHandler (disk_cpu idle_cpu) Inr fs 0 1 (str ''halt'') k1 =
        Machine_Run ExceptionHandler (disk_cpu idle_cpu) Inr k2"
      "identity_map k2" "mach_ok k2" "level k2 = IntOn" "pending k2 = []" "\<not> yieldOnReturn k2"
      "pageTableSize (mach k2) = pages_needed (program_size (noff_header ?prog))"
      "reg PCReg k2 = 0" "reg NextPCReg k2 = 4" "reg LoadReg k2 = 0"
      "mainMemory (mach k2) = program_image ?prog (mainMemory (mach k1))"
    have "0 < uint (pageTableSize (mach k2))" unfolding k2(7) boot_size by simp
    moreover have "take 8 (mainMemory (mach k2)) = word_bytes 0x24020000 @ word_bytes 0x0000000C"
      unfolding k2(11) boot_program_image by simp
    ultimately show ?thesis unfolding k2(1) by (rule Run_halts [OF k2(2-6,8-10)])
  qed
  moreover have "stored (str ''none'') \<noteq> stored (str ''halt'')"
    by (simp add: stored_def str_def FileNameMaxLen_def)
  then have "\<exists>k2. StartProcess ?E ExceptionHandler (disk_cpu idle_cpu) Inr fs 0 1 (str ''none'') k1 = Some (Inr k2)"
    using StartProcess_runs [OF k1(2,4,5) m, of "str ''none''" idle_cpu "\<lambda>_ _ _. 0xA5" ExceptionHandler Inr 0 1] k1(6)
    by auto
  ultimately show ?thesis using k(1) k1(1) by blast
qed

end
