(* ===== verification/Polled_Device.thy ===== *)
theory Polled_Device
  imports Device_Threads
begin

section \<open>Devices that are polled\<close>

text \<open>
  The console and the network are the same kind of device: a poll every so many ticks moves what has
  arrived into a buffer of one and raises a semaphore; an output occupies the device until an
  interrupt raises another. The locale \<open>polled_device\<close> states this contract; what a single thread
  sees of such a device when it calls \<open>P\<close> on the two semaphores is proved in it once.
\<close>

subsection \<open>The state of the thread and the device\<close>

text \<open>Between two steps of the thread: nothing is due, and no handler runs.\<close>

definition settled :: "('h, 'm) kernel_scheme \<Rightarrow> bool" where
  "settled k \<longleftrightarrow> pending_ok k \<and> none_due k \<and> ticks_ok k \<and> status k = SystemMode \<and> \<not> inHandler k \<and>
     \<not> yieldOnReturn k"

lemma settled_update [simp]:
  "settled (k\<lparr>level := l\<rparr>) = settled k" "settled (k\<lparr>readyList := r\<rparr>) = settled k"
  "settled (put_thread t th k) = settled k"
  by (simp_all add: settled_def pending_ok_def none_due_def ticks_ok_def put_thread_def)

lemma settled_put_sem [simp]: "settled (put_sem s c k) = settled k"
  by (simp add: settled_def pending_ok_def none_due_def ticks_ok_def put_sem_def)

lemma settled_truncate: "kernel.truncate k' = kernel.truncate k \<Longrightarrow> settled k' = settled k"
  using truncate_eqD [of k' k] by (simp add: settled_def pending_ok_def none_due_def ticks_ok_def)

lemma settled_Schedule:
  assumes "settled k" and "0 < d"
  shows "\<exists>k'. Schedule h a d ty k = Inr k' \<and> settled k' \<and>
    k' = k\<lparr>pending := insert_all [(now k + d, \<lparr>handler = h, arg = a, whenDue = now k + d, itype = ty\<rparr>)] (pending k)\<rparr>"
proof -
  let ?k = "k\<lparr>pending := sorted_insert (now k + d) \<lparr>handler = h, arg = a, whenDue = now k + d, itype = ty\<rparr> (pending k)\<rparr>"
  have "settled ?k"
    using assms by (auto simp: settled_def pending_ok_def none_due_def sorted_sorted_insert) fastforce
  then show ?thesis using assms(2) by (simp add: Schedule_spec insert_all_def)
qed

text \<open>
  Where the thread stands: what the device and the rest of the kernel hold, whether it has taken the
  first semaphore but not the buffer, when its last output is done (from the output to the end of
  \<open>P\<close> on the second semaphore), on which semaphore it sleeps; and the poll counter and the time of
  the next poll when it went to sleep.
\<close>

datatype dev_wait = Runs | WaitsRead | WaitsWrite

record 'c dev_ghost =
  g_thread :: tid
  g_content :: 'c
  g_held :: bool
  g_out :: "int option"
  g_wait :: dev_wait
  g_polls :: nat
  g_due :: int

text \<open>A thread that sleeps on one semaphore, or was just woken from it.\<close>

definition sleeps_on :: "tid \<Rightarrow> Semaphore \<Rightarrow> tid list \<Rightarrow> bool" where
  "sleeps_on t c ready \<longleftrightarrow>
     ready = [] \<and> squeue c = [t] \<and> sem_value c = 0 \<or> ready = [t] \<and> squeue c = [] \<and> sem_value c = 1"

text \<open>What the semaphores say, of a device whose buffer is full or not and that is writing or not.\<close>

definition dev_sems :: "'c dev_ghost \<Rightarrow> bool \<Rightarrow> bool \<Rightarrow> Semaphore \<Rightarrow> Semaphore \<Rightarrow> tid list \<Rightarrow> bool" where
  "dev_sems g full busy r w ready \<longleftrightarrow>
     0 \<le> sem_value r \<and> 0 \<le> sem_value w \<and>
     sem_value r + of_bool (g_held g) = of_bool full \<and>
     sem_value w + of_bool busy = of_bool (g_out g \<noteq> None) \<and>
     (case g_wait g of
        Runs \<Rightarrow> ready = [] \<and> squeue r = [] \<and> squeue w = []
      | WaitsRead \<Rightarrow> squeue w = [] \<and> sleeps_on (g_thread g) r ready
      | WaitsWrite \<Rightarrow> squeue r = [] \<and> sleeps_on (g_thread g) w ready)"

definition out_busy :: "'c dev_ghost \<Rightarrow> Semaphore \<Rightarrow> bool" where
  "out_busy g w \<longleftrightarrow> g_out g \<noteq> None \<and> sem_value w = 0"

lemma out_busy_ghost [simp]:
  "out_busy (g\<lparr>g_wait := x\<rparr>) = out_busy g" "out_busy (g\<lparr>g_polls := n\<rparr>) = out_busy g"
  "out_busy (g\<lparr>g_due := d\<rparr>) = out_busy g" "out_busy (g\<lparr>g_held := h\<rparr>) = out_busy g"
  "out_busy (g\<lparr>g_content := c\<rparr>) = out_busy g" "\<not> out_busy (g\<lparr>g_out := None\<rparr>) w"
  "out_busy g (w\<lparr>squeue := q\<rparr>) = out_busy g w"
  by (simp_all add: out_busy_def fun_eq_iff)

definition dev_thread :: "'c dev_ghost \<Rightarrow> ('h, 'm) kernel_scheme \<Rightarrow> bool" where
  "dev_thread g k \<longleftrightarrow> currentThread k = g_thread g \<and> threadToBeDestroyed k = None \<and>
     (\<exists>c. threads k (g_thread g) = Some c \<and> stack_ok (Some c))"

lemma dev_content_update [simp]:
  "dev_thread (g\<lparr>g_content := c\<rparr>) k = dev_thread g k"
  "dev_sems (g\<lparr>g_content := c\<rparr>) full busy r w ready = dev_sems g full busy r w ready"
  by (cases "g_wait g"; simp add: dev_thread_def dev_sems_def)+

definition dev_entry :: "'h \<Rightarrow> IntType \<Rightarrow> int \<Rightarrow> int \<times> 'h PendingInterrupt" where
  "dev_entry h ty w = (w, \<lparr>handler = h, arg = 0, whenDue = w, itype = ty\<rparr>)"

lemma dev_entry_simps [simp]: "fst (dev_entry h ty w) = w" "whenDue (snd (dev_entry h ty w)) = w"
  by (simp_all add: dev_entry_def)

text \<open>There was a poll since the ghost state was set, or it is due at the time noted there.\<close>

definition moved :: "'c dev_ghost \<Rightarrow> int \<Rightarrow> nat \<Rightarrow> bool \<Rightarrow> bool" where
  "moved g pw n full \<longleftrightarrow> g_polls g < n \<or> g_polls g = n \<and> pw = g_due g \<or> full"

lemma dev_sems_read:
  assumes "dev_sems g False busy r w ready"
  shows "squeue r = [] \<or> squeue r = [g_thread g]"
    and "dev_sems g True busy (r\<lparr>squeue := [], sem_value := sem_value r + 1\<rparr>) w (ready @ squeue r)"
  using assms by (auto simp: dev_sems_def sleeps_on_def of_bool_def split: dev_wait.splits if_splits)

lemma dev_sems_written:
  assumes "dev_sems g full True r w ready"
  shows "squeue w = [] \<or> squeue w = [g_thread g]"
    and "dev_sems g full False r (w\<lparr>squeue := [], sem_value := sem_value w + 1\<rparr>) (ready @ squeue w)"
  using assms by (auto simp: dev_sems_def sleeps_on_def of_bool_def split: dev_wait.splits if_splits)

text \<open>The handlers raise a semaphore, with the thread asleep on it or not.\<close>

lemma V_give_at:
  assumes "semaphores k s = Some c" and "squeue c = [] \<or> squeue c = [t]" and "threads k t = Some th"
  shows "\<exists>T. V_give s k = Inr (put_sem s (c\<lparr>squeue := [], sem_value := sem_value c + 1\<rparr>)
      (k\<lparr>threads := T, readyList := readyList k @ squeue c\<rparr>)) \<and>
    (\<exists>th'. T t = Some th' \<and> stack th' = stack th)"
proof (cases "squeue c = []")
  case True
  then obtain v where c: "c = \<lparr>sem_value = v, squeue = []\<rparr>" by (cases c) simp
  have "k\<lparr>threads := threads k, readyList := readyList k\<rparr> = k" by (cases k) simp
  then show ?thesis using assms(1,3)
    by (intro exI [of _ "threads k"]) (simp add: V_give_empty [OF assms(1)] c)
next
  case False
  then have "squeue c = [t]" using assms(2) by simp
  then show ?thesis
    by (intro exI [of _ "(threads k)(t \<mapsto> th\<lparr>tstatus := READY\<rparr>)"])
      (simp add: V_give_one [OF assms(1) _ assms(3)] put_thread_def)
qed

text \<open>A step of a device that leaves scheduler and semaphores alone.\<close>

definition dev_step :: "('h, 'm) skernel_scheme \<Rightarrow> ('h, 'm) skernel_scheme \<Rightarrow> bool" where
  "dev_step k k' \<longleftrightarrow> synch_part k' = synch_part k \<and> clock k' = clock k \<and> threads k' = threads k \<and>
     readyList k' = readyList k \<and> currentThread k' = currentThread k \<and>
     threadToBeDestroyed k' = threadToBeDestroyed k \<and> level k' = level k \<and> status k' = status k \<and>
     yieldOnReturn k' = yieldOnReturn k"

subsection \<open>The contract\<close>

text \<open>
  \<open>call\<close> calls a handler; \<open>hp\<close> and \<open>hd\<close> are the handlers of the poll and of the end of an output. What
  the device and the kernel around it hold is \<open>content\<close>, for a value of a type \<open>'c\<close>; \<open>rs\<close> and \<open>ws\<close> are
  the two semaphores, \<open>arrives c n\<close> says that poll \<open>n\<close> will find something if the buffer is empty
  until then.
\<close>

locale polled_device =
  fixes call :: "'h \<Rightarrow> int \<Rightarrow> ('h, 'm) skernel_scheme \<Rightarrow> ('h, 'm) skernel_scheme result"
    and hp :: 'h and hd :: 'h and tp :: IntType and td :: IntType and period :: int
    and full :: "('h, 'm) skernel_scheme \<Rightarrow> bool"
    and polls :: "('h, 'm) skernel_scheme \<Rightarrow> nat"
    and content :: "'c \<Rightarrow> bool \<Rightarrow> ('h, 'm) skernel_scheme \<Rightarrow> bool"
    and rs :: "'c \<Rightarrow> nat" and ws :: "'c \<Rightarrow> nat" and arrives :: "'c \<Rightarrow> nat \<Rightarrow> bool"
  assumes content_frame: "skernel.more k' = skernel.more k \<Longrightarrow> locks k' = locks k \<Longrightarrow> conditions k' = conditions k \<Longrightarrow>
      (\<And>s. s \<noteq> rs c \<Longrightarrow> s \<noteq> ws c \<Longrightarrow> semaphores k' s = semaphores k s) \<Longrightarrow> content c b k' = content c b k"
    and full_frame: "skernel.more k' = skernel.more k \<Longrightarrow> full k' = full k"
    and polls_frame: "skernel.more k' = skernel.more k \<Longrightarrow> polls k' = polls k"
    and apart: "content c b k \<Longrightarrow> rs c \<noteq> ws c"
    and kinds: "tp \<noteq> TimerInt" "td \<noteq> TimerInt" and period: "0 < period"
    and poll_law: "content c b k \<Longrightarrow> \<exists>k1. dev_step k k1 \<and> content c b k1 \<and>
      pending k1 = insert_all [dev_entry hp tp (now k + period)] (pending k) \<and>
      (call hp 0 k = Inr k1 \<and> full k1 = full k \<and> (full k \<or> polls k < polls k1) \<or>
       call hp 0 k = V_give (rs c) k1 \<and> \<not> full k \<and> full k1)"
    and done_law: "content c True k \<Longrightarrow> \<exists>k1. dev_step k k1 \<and> content c False k1 \<and> full k1 = full k \<and>
      polls k1 = polls k \<and> pending k1 = pending k \<and> call hd 0 k = V_give (ws c) k1"
    and arrives_law: "content c b k \<Longrightarrow> \<not> full k \<Longrightarrow> arrives c n \<Longrightarrow> polls k \<le> n"
begin

definition dev_pending :: "int \<Rightarrow> bool \<Rightarrow> int option \<Rightarrow> (int \<times> 'h PendingInterrupt) multiset" where
  "dev_pending pw b out = {# dev_entry hp tp pw #} +
     (if b then image_mset (dev_entry hd td) (mset (case out of None \<Rightarrow> [] | Some w \<Rightarrow> [w])) else {#})"

text \<open>An output is on its way as long as the second semaphore has not been raised for it.\<close>

definition at_dev :: "'c dev_ghost \<Rightarrow> Semaphore \<Rightarrow> Semaphore \<Rightarrow> int \<Rightarrow> ('h, 'm) skernel_scheme \<Rightarrow> bool" where
  "at_dev g r w pw k \<longleftrightarrow>
     dev_thread g k \<and> content (g_content g) (out_busy g w) k \<and>
     semaphores k (rs (g_content g)) = Some r \<and> semaphores k (ws (g_content g)) = Some w \<and>
     dev_sems g (full k) (out_busy g w) r w (readyList k) \<and>
     mset (pending k) = dev_pending pw (out_busy g w) (g_out g)"

definition dev_inv :: "'c dev_ghost \<Rightarrow> ('h, 'm) skernel_scheme \<Rightarrow> bool" where
  "dev_inv g k \<longleftrightarrow> (\<exists>r w pw. at_dev g r w pw k \<and> moved g pw (polls k) (full k))"

lemma content_update [simp]:
  "content c b (k\<lparr>level := l\<rparr>) = content c b k" "content c b (k\<lparr>status := st\<rparr>) = content c b k"
  "content c b (k\<lparr>yieldOnReturn := y\<rparr>) = content c b k" "content c b (k\<lparr>inHandler := y\<rparr>) = content c b k"
  "content c b (k\<lparr>stats := t\<rparr>) = content c b k" "content c b (k\<lparr>pending := q\<rparr>) = content c b k"
  "content c b (k\<lparr>readyList := rl\<rparr>) = content c b k" "content c b (k\<lparr>threads := T\<rparr>) = content c b k"
  by (rule content_frame; simp)+

lemma state_update [simp]:
  "full (k\<lparr>level := l\<rparr>) = full k" "full (k\<lparr>status := st\<rparr>) = full k"
  "full (k\<lparr>yieldOnReturn := b\<rparr>) = full k" "full (k\<lparr>inHandler := b\<rparr>) = full k"
  "full (k\<lparr>stats := t\<rparr>) = full k" "full (k\<lparr>pending := q\<rparr>) = full k"
  "full (k\<lparr>readyList := rl\<rparr>) = full k" "full (k\<lparr>threads := T\<rparr>) = full k" "full (k\<lparr>semaphores := S\<rparr>) = full k"
  "polls (k\<lparr>level := l\<rparr>) = polls k" "polls (k\<lparr>status := st\<rparr>) = polls k"
  "polls (k\<lparr>yieldOnReturn := b\<rparr>) = polls k" "polls (k\<lparr>inHandler := b\<rparr>) = polls k"
  "polls (k\<lparr>stats := t\<rparr>) = polls k" "polls (k\<lparr>pending := q\<rparr>) = polls k"
  "polls (k\<lparr>readyList := rl\<rparr>) = polls k" "polls (k\<lparr>threads := T\<rparr>) = polls k" "polls (k\<lparr>semaphores := S\<rparr>) = polls k"
  by (rule full_frame polls_frame; simp)+

lemma at_dev_update [simp]:
  "at_dev g r w pw (k\<lparr>level := l\<rparr>) = at_dev g r w pw k" "at_dev g r w pw (k\<lparr>status := st\<rparr>) = at_dev g r w pw k"
  "at_dev g r w pw (k\<lparr>yieldOnReturn := b\<rparr>) = at_dev g r w pw k"
  "at_dev g r w pw (k\<lparr>inHandler := b\<rparr>) = at_dev g r w pw k" "at_dev g r w pw (k\<lparr>stats := t\<rparr>) = at_dev g r w pw k"
  by (simp_all add: at_dev_def dev_thread_def)

lemma dev_inv_update [simp]:
  "dev_inv g (k\<lparr>level := l\<rparr>) = dev_inv g k" "dev_inv g (k\<lparr>status := st\<rparr>) = dev_inv g k"
  "dev_inv g (k\<lparr>yieldOnReturn := b\<rparr>) = dev_inv g k" "dev_inv g (k\<lparr>inHandler := b\<rparr>) = dev_inv g k"
  "dev_inv g (k\<lparr>stats := t\<rparr>) = dev_inv g k"
  by (simp_all add: dev_inv_def)

lemma dev_inv_order: "dev_inv g k \<Longrightarrow> mset q = mset (pending k) \<Longrightarrow> dev_inv g (k\<lparr>pending := q\<rparr>)"
  by (simp add: dev_inv_def at_dev_def dev_thread_def)

lemma at_dev_ghost [simp]:
  "at_dev (g\<lparr>g_polls := n\<rparr>) r w pw k = at_dev g r w pw k" "at_dev (g\<lparr>g_due := d\<rparr>) r w pw k = at_dev g r w pw k"
  by (cases "g_wait g"; simp add: at_dev_def dev_thread_def dev_sems_def)+

text \<open>Raising one of the two semaphores.\<close>

lemma raise_at:
  assumes c: "content c b k" and s: "s = rs c \<or> s = ws c" and sem: "semaphores k s = Some x"
    and q: "squeue x = [] \<or> squeue x = [t]" and th: "threads k t = Some th" "stack_ok (Some th)"
  shows "\<exists>k'. V_give s k = Inr k' \<and> content c b k' \<and> semaphores k' =
      (semaphores k)(s \<mapsto> x\<lparr>squeue := [], sem_value := sem_value x + 1\<rparr>) \<and>
    readyList k' = readyList k @ squeue x \<and> (\<exists>th'. threads k' t = Some th' \<and> stack_ok (Some th')) \<and>
    full k' = full k \<and> polls k' = polls k \<and> pending k' = pending k \<and> clock k' = clock k \<and>
    level k' = level k \<and> status k' = status k \<and> yieldOnReturn k' = yieldOnReturn k \<and>
    currentThread k' = currentThread k \<and> threadToBeDestroyed k' = threadToBeDestroyed k"
proof -
  let ?x = "x\<lparr>squeue := [], sem_value := sem_value x + 1\<rparr>"
  obtain T th' where v: "V_give s k = Inr (put_sem s ?x (k\<lparr>threads := T, readyList := readyList k @ squeue x\<rparr>))"
    and T: "T t = Some th'" "stack th' = stack th"
    using V_give_at [OF sem q th(1)] by blast
  let ?k = "put_sem s ?x (k\<lparr>threads := T, readyList := readyList k @ squeue x\<rparr>)"
  have "content c b ?k = content c b k" by (rule content_frame) (use s in \<open>auto simp: put_sem_def\<close>)
  with c have "content c b ?k" by simp
  then show ?thesis using v T th(2)
    by (intro exI [of _ ?k]) (simp add: put_sem_def clock_def stack_ok_def)
qed

text \<open>A poll.\<close>

lemma poll_keeps:
  assumes k: "at_dev g r w pw k" and mv: "moved g pw (polls k) (full k)"
    and p: "mset (pending k) = add_mset (dev_entry hp tp pw) (mset rest)"
  shows "\<exists>k'. call hp 0 (k\<lparr>pending := rest\<rparr>) = Inr k' \<and> dev_inv g k' \<and>
    level k' = level k \<and> clock k' = clock k \<and> status k' = status k \<and> yieldOnReturn k' = yieldOnReturn k \<and>
    pending k' = insert_all [dev_entry hp tp (now k + period)] rest"
proof -
  let ?c = "g_content g" and ?pw = "now k + period" and ?k = "k\<lparr>pending := rest\<rparr>" and ?b = "out_busy g w"
  have "content ?c ?b ?k" using k by (simp add: at_dev_def)
  from poll_law [OF this] obtain k1 where k1: "dev_step ?k k1" "content ?c ?b k1"
    "pending k1 = insert_all [dev_entry hp tp ?pw] rest"
    and run: "call hp 0 ?k = Inr k1 \<and> full k1 = full k \<and> (full k \<or> polls k < polls k1) \<or>
      call hp 0 ?k = V_give (rs ?c) k1 \<and> \<not> full k \<and> full k1"
    by auto
  note same = k1(1) [unfolded dev_step_def synch_part_def, simplified]
  have m: "mset (pending k1) = dev_pending ?pw ?b (g_out g)"
    using k p by (simp add: k1(3) mset_insert_all at_dev_def dev_pending_def)
  have sems: "semaphores k1 (rs ?c) = Some r" "semaphores k1 (ws ?c) = Some w" "dev_thread g k1"
    "dev_sems g (full k) ?b r w (readyList k1)"
    using k same by (simp_all add: at_dev_def dev_thread_def)
  from run show ?thesis
  proof
    assume r: "call hp 0 ?k = Inr k1 \<and> full k1 = full k \<and> (full k \<or> polls k < polls k1)"
    then have "at_dev g r w ?pw k1" using sems m k1(2) by (simp add: at_dev_def)
    moreover have "moved g ?pw (polls k1) (full k1)" using r mv by (auto simp: moved_def)
    ultimately show ?thesis using r same k1(3) by (intro exI [of _ k1]) (auto simp: dev_inv_def clock_def)
  next
    assume r: "call hp 0 ?k = V_give (rs ?c) k1 \<and> \<not> full k \<and> full k1"
    then have s: "dev_sems g False ?b r w (readyList k1)" using sems(4) by simp
    obtain th where th: "threads k1 (g_thread g) = Some th" "stack_ok (Some th)"
      using sems(3) by (auto simp: dev_thread_def)
    from raise_at [OF k1(2) _ sems(1) dev_sems_read(1) [OF s] th] obtain k2 where
      k2: "V_give (rs ?c) k1 = Inr k2" "content ?c ?b k2"
        "semaphores k2 = (semaphores k1)(rs ?c \<mapsto> r\<lparr>squeue := [], sem_value := sem_value r + 1\<rparr>)"
        "readyList k2 = readyList k1 @ squeue r" "\<exists>th'. threads k2 (g_thread g) = Some th' \<and> stack_ok (Some th')"
        "full k2 = full k1" "pending k2 = pending k1" "clock k2 = clock k1"
        "level k2 = level k1" "status k2 = status k1" "yieldOnReturn k2 = yieldOnReturn k1"
        "currentThread k2 = currentThread k1" "threadToBeDestroyed k2 = threadToBeDestroyed k1"
      by auto
    have "at_dev g (r\<lparr>squeue := [], sem_value := sem_value r + 1\<rparr>) w ?pw k2"
      unfolding at_dev_def using k2 sems m r dev_sems_read(2) [OF s] apart [OF k1(2)]
      by (simp add: dev_thread_def)
    moreover have "moved g ?pw (polls k2) (full k2)" using k2 r by (simp add: moved_def)
    ultimately show ?thesis using r k2 same k1(3) by (intro exI [of _ k2]) (auto simp: dev_inv_def clock_def)
  qed
qed

text \<open>The end of an output.\<close>

lemma done_keeps:
  assumes k: "at_dev g r w pw k" and mv: "moved g pw (polls k) (full k)" and b: "out_busy g w"
    and p: "mset rest = dev_pending pw False (g_out g)"
  shows "\<exists>k'. call hd 0 (k\<lparr>pending := rest\<rparr>) = Inr k' \<and> dev_inv g k' \<and>
    level k' = level k \<and> clock k' = clock k \<and> status k' = status k \<and> yieldOnReturn k' = yieldOnReturn k \<and>
    pending k' = rest"
proof -
  let ?c = "g_content g" and ?k = "k\<lparr>pending := rest\<rparr>"
  have "content ?c True ?k" using k b by (simp add: at_dev_def)
  from done_law [OF this] obtain k1 where k1: "dev_step ?k k1" "content ?c False k1" "full k1 = full k"
    "polls k1 = polls k" "pending k1 = rest" "call hd 0 ?k = V_give (ws ?c) k1"
    by auto
  note same = k1(1) [unfolded dev_step_def synch_part_def, simplified]
  have sems: "semaphores k1 (rs ?c) = Some r" "semaphores k1 (ws ?c) = Some w" "dev_thread g k1"
    "dev_sems g (full k) True r w (readyList k1)"
    using k same b by (simp_all add: at_dev_def dev_thread_def)
  obtain th where th: "threads k1 (g_thread g) = Some th" "stack_ok (Some th)"
    using sems(3) by (auto simp: dev_thread_def)
  from raise_at [OF k1(2) _ sems(2) dev_sems_written(1) [OF sems(4)] th] obtain k2 where
    k2: "V_give (ws ?c) k1 = Inr k2" "content ?c False k2"
      "semaphores k2 = (semaphores k1)(ws ?c \<mapsto> w\<lparr>squeue := [], sem_value := sem_value w + 1\<rparr>)"
      "readyList k2 = readyList k1 @ squeue w" "\<exists>th'. threads k2 (g_thread g) = Some th' \<and> stack_ok (Some th')"
      "full k2 = full k1" "polls k2 = polls k1" "pending k2 = pending k1" "clock k2 = clock k1"
      "level k2 = level k1" "status k2 = status k1" "yieldOnReturn k2 = yieldOnReturn k1"
      "currentThread k2 = currentThread k1" "threadToBeDestroyed k2 = threadToBeDestroyed k1"
    by auto
  have "\<not> out_busy g (w\<lparr>squeue := [], sem_value := sem_value w + 1\<rparr>)" using b by (simp add: out_busy_def)
  then have "at_dev g r (w\<lparr>squeue := [], sem_value := sem_value w + 1\<rparr>) pw k2"
    unfolding at_dev_def using k2 sems p k1 dev_sems_written(2) [OF sems(4)] apart [OF k1(2)]
    by (simp add: dev_thread_def)
  moreover have "moved g pw (polls k2) (full k2)" using k2 k1 mv by simp
  ultimately show ?thesis using k2 same k1 by (intro exI [of _ k2]) (auto simp: dev_inv_def clock_def)
qed

lemma dev_fires:
  assumes inv: "dev_inv g k" and p: "pending k = (t, p) # rest" and off: "level k = IntOff"
  shows "\<exists>k' new. invoke (user_cpu (c\<lparr>invoke := call\<rparr>)) (handler p) (arg p)
      ((flush_load (user_cpu (c\<lparr>invoke := call\<rparr>)) (k\<lparr>pending := rest\<rparr>))\<lparr>inHandler := True, status := SystemMode\<rparr>) = Inr k' \<and>
    dev_inv g k' \<and> level k' = IntOff \<and> clock k' = clock k \<and> status k' = SystemMode \<and>
    yieldOnReturn k' = yieldOnReturn k \<and>
    pending k' = insert_all new rest \<and> (\<forall>e \<in> set new. now k < fst e \<and> fst e = whenDue (snd e))"
proof -
  let ?cpu = "user_cpu (c\<lparr>invoke := call\<rparr>)"
  define f where "f = (flush_load ?cpu (k\<lparr>pending := rest\<rparr>))\<lparr>inHandler := True, status := SystemMode\<rparr>"
  define k0 where "k0 = f\<lparr>pending := pending k\<rparr>"
  have call: "invoke ?cpu = call" by (simp add: user_cpu_def)
  obtain r w pw where at: "at_dev g r w pw k" and mv: "moved g pw (polls k) (full k)"
    using inv by (auto simp: dev_inv_def)
  have f: "k0\<lparr>pending := rest\<rparr> = f" by (simp add: k0_def f_def)
  have more: "skernel.more k0 = skernel.more k" "locks k0 = locks k" "conditions k0 = conditions k"
    "semaphores k0 = semaphores k"
    using user_devices.flush_synch [of "c\<lparr>invoke := call\<rparr>" "k\<lparr>pending := rest\<rparr>"]
    by (simp_all add: k0_def f_def synch_part_def)
  have same: "full k0 = full k" "polls k0 = polls k" "\<And>b. content (g_content g) b k0 = content (g_content g) b k"
    using full_frame [OF more(1)] polls_frame [OF more(1)] content_frame [OF more(1-3)] more(4)
    by simp_all
  have at0: "at_dev g r w pw k0"
    using at same more(4) by (simp add: at_dev_def) (simp add: k0_def f_def dev_thread_def)
  have mv0: "moved g pw (polls k0) (full k0)" using mv same by simp
  have kept: "clock k0 = clock k" "status k0 = SystemMode" "level k0 = IntOff"
    "yieldOnReturn k0 = yieldOnReturn k" "pending k0 = pending k" "now k0 = now k"
    using off by (simp_all add: k0_def f_def clock_def)
  have "mset (pending k) = dev_pending pw (out_busy g w) (g_out g)" using at by (simp add: at_dev_def)
  then have m: "add_mset (t, p) (mset rest) = dev_pending pw (out_busy g w) (g_out g)" using p by simp
  then have "(t, p) \<in># dev_pending pw (out_busy g w) (g_out g)" by (metis union_single_eq_member)
  then consider "(t, p) = dev_entry hp tp pw"
    | w' where "(t, p) = dev_entry hd td w'" "out_busy g w" "g_out g = Some w'"
    by (auto simp: dev_pending_def split: if_splits option.splits)
  then show ?thesis
  proof cases
    case 1
    with m p kept have "mset (pending k0) = add_mset (dev_entry hp tp pw) (mset rest)" by simp
    from poll_keeps [OF at0 mv0 this] 1 kept period show ?thesis
      unfolding f_def [symmetric] f call
      by (auto simp: dev_entry_def intro!: exI [of _ "[dev_entry hp tp (now k + period)]"])
  next
    case 2
    then have "mset rest = dev_pending pw False (g_out g)" using m by (simp add: dev_pending_def)
    from done_keeps [OF at0 mv0 _ this] 2 kept same show ?thesis
      unfolding f_def [symmetric] f call
      by (auto simp: dev_entry_def insert_all_def intro!: exI [of _ "[]"])
  qed
qed

lemma dev_quiet: "quiet_devices (user_cpu (c\<lparr>invoke := call\<rparr>)) (dev_inv g)"
proof unfold_locales
  fix k k' :: "('h, 'm) skernel_scheme" and t p rest
  let ?cpu = "user_cpu (c\<lparr>invoke := call\<rparr>)"
  assume k: "dev_inv g k" "pending k = (t, p) # rest" "level k = IntOff"
  note f = dev_fires [OF k, of c]
  show "\<exists>k' new. invoke ?cpu (handler p) (arg p)
      ((flush_load ?cpu (k\<lparr>pending := rest\<rparr>))\<lparr>inHandler := True, status := SystemMode\<rparr>) = Inr k' \<and>
    dev_inv g (k'\<lparr>inHandler := False\<rparr>) \<and> level k' = IntOff \<and> clock k' = clock k \<and> status k' = SystemMode \<and>
    pending k' = insert_all new rest \<and> (\<forall>e \<in> set new. now k < fst e \<and> fst e = whenDue (snd e))"
    using f by auto
  show "yieldOnReturn k' = yieldOnReturn k"
    if "invoke ?cpu (handler p) (arg p)
      ((flush_load ?cpu (k\<lparr>pending := rest\<rparr>))\<lparr>inHandler := True, status := SystemMode\<rparr>) = Inr k'"
    using f that by auto
qed (simp_all add: dev_inv_order)

end

subsection \<open>Waiting for the device\<close>

sublocale polled_device \<subseteq> dev_interrupts: quiet_devices "user_cpu (c\<lparr>invoke := call\<rparr>)" "dev_inv g"
  for c :: "('h, ('h, 'm) skernel_scheme) cpu" and g
  by (rule dev_quiet)

context polled_device
begin

text \<open>One call of \<open>Idle\<close>: the clock reaches the next interrupt, and the poll was due only if it ran.\<close>

lemma Idle_dev:
  assumes at: "at_dev g r w pw k" and off: "level k = IntOff" and s: "settled k"
  shows "\<exists>k' r' w' pw'. Idle (user_cpu (c\<lparr>invoke := call\<rparr>)) k = Some (Inr k') \<and> at_dev g r' w' pw' k' \<and>
    level k' = IntOff \<and> settled k' \<and> now k < now k' \<and> now k' < pw' \<and>
    (now k' < pw \<or> polls k < polls k' \<or> full k') \<and>
    (pending k = [dev_entry hp tp pw] \<longrightarrow> now k' = pw)"
proof -
  let ?g = "g\<lparr>g_polls := polls k, g_due := pw\<rparr>" and ?cpu = "user_cpu (c\<lparr>invoke := call\<rparr>)"
  have inv: "dev_inv ?g k" unfolding dev_inv_def using at by (auto simp: moved_def)
  have m: "mset (pending k) = dev_pending pw (out_busy g w) (g_out g)" using at by (simp add: at_dev_def)
  then obtain e rest where e: "pending k = e # rest" by (cases "pending k") (auto simp: dev_pending_def)
  obtain t p where p: "e = (t, p)" by (cases e)
  have types: "itype (snd x) \<noteq> TimerInt" if "x \<in># dev_pending d b out" for x d b out
    using that kinds by (auto simp: dev_pending_def dev_entry_def split: if_splits option.splits)
  have "(t, p) \<in># dev_pending pw (out_busy g w) (g_out g)" using m e p by (metis set_mset_mset list.set_intros(1))
  then have "itype p \<noteq> TimerInt" using types by force
  then have "itype p = TimerInt \<longrightarrow> rest \<noteq> []" by simp
  from dev_interrupts.Idle_law [OF inv off _ e [unfolded p] this, of c] s
  obtain k' where k': "Idle ?cpu k = Some (Inr k')" "dev_inv ?g k'" "level k' = IntOff" "pending_ok k'"
    "now k' = max t (now k)" "ticks_ok k'" "status k' = SystemMode" "\<not> inHandler k'" "\<not> yieldOnReturn k'"
    and due: "none_due k' \<or> (\<exists>w p. pending k' = [(w, p)] \<and> itype p = TimerInt)"
    by (auto simp: settled_def)
  obtain r' w' pw' where at': "at_dev ?g r' w' pw' k'" and mv: "moved ?g pw' (polls k') (full k')"
    using k'(2) by (auto simp: dev_inv_def)
  have m': "mset (pending k') = dev_pending pw' (out_busy g w') (g_out g)" using at' by (simp add: at_dev_def)
  then have "dev_entry hp tp pw' \<in> set (pending k')"
    by (metis dev_pending_def set_mset_mset union_iff union_single_eq_member)
  have none: "none_due k'"
  proof (rule ccontr)
    assume "\<not> none_due k'"
    then obtain w p where "pending k' = [(w, p)]" "itype p = TimerInt" using due by blast
    then show False using types [of "(w, p)"] m' by (metis list.set_intros(1) set_mset_mset snd_conv)
  qed
  have t: "now k < t" using s e p by (simp add: settled_def none_due_def)
  have "now k' < pw'" using none \<open>dev_entry hp tp pw' \<in> set (pending k')\<close> by (auto simp: none_due_def dev_entry_def)
  moreover have "at_dev g r' w' pw' k'" using at' by simp
  moreover have "pending k = [dev_entry hp tp pw] \<longrightarrow> t = pw" using e p by (simp add: dev_entry_def)
  ultimately show ?thesis using k' none t mv
    by (intro exI [of _ k'] exI [of _ r'] exI [of _ w'] exI [of _ pw']) (auto simp: settled_def moved_def)
qed

definition dev_sleeps :: "'c dev_ghost \<Rightarrow> ('h, 'm) skernel_scheme \<Rightarrow> bool" where
  "dev_sleeps g k \<longleftrightarrow> (\<exists>r w pw. at_dev g r w pw k) \<and> level k = IntOff \<and> settled k"

definition progresses :: "('h, ('h, 'm) skernel_scheme) cpu \<Rightarrow> 'c dev_ghost \<Rightarrow> bool" where
  "progresses c g \<longleftrightarrow> (\<exists>m :: _ \<Rightarrow> nat. \<forall>k. dev_sleeps g k \<and> readyList k = [] \<longrightarrow>
     (\<exists>k'. Idle (user_cpu (c\<lparr>invoke := call\<rparr>)) k = Some (Inr k') \<and> dev_sleeps g k' \<and>
       (readyList k' \<noteq> [] \<or> m k' < m k)))"

lemma waits_write:
  assumes w: "g_wait g = WaitsWrite" and out: "g_out g = Some ow"
  shows "progresses c g"
  unfolding progresses_def
proof (intro exI [of _ "\<lambda>k. nat (ow - now k)"] allI impI, elim conjE)
  fix k :: "('h, 'm) skernel_scheme"
  assume k: "dev_sleeps g k" "readyList k = []"
  then obtain r w pw where at: "at_dev g r w pw k" by (auto simp: dev_sleeps_def)
  then obtain k' r' w' pw' where k': "Idle (user_cpu (c\<lparr>invoke := call\<rparr>)) k = Some (Inr k')" "at_dev g r' w' pw' k'"
      "level k' = IntOff" "settled k'" "now k < now k'"
    using Idle_dev [OF at, of c] k(1) unfolding dev_sleeps_def by blast
  have "now k' < ow" if "readyList k' = []"
  proof -
    have "sem_value w' = 0" using k'(2) that w by (auto simp: at_dev_def dev_sems_def sleeps_on_def)
    then have "out_busy g w'" using out by (simp add: out_busy_def)
    then have "mset (pending k') = {# dev_entry hp tp pw', dev_entry hd td ow #}"
      using k'(2) out by (simp add: at_dev_def dev_pending_def)
    then have "dev_entry hd td ow \<in> set (pending k')" unfolding set_mset_mset [symmetric] by simp
    then show ?thesis using k'(4) by (auto simp: settled_def none_due_def dev_entry_def)
  qed
  then show "\<exists>k'. Idle (user_cpu (c\<lparr>invoke := call\<rparr>)) k = Some (Inr k') \<and> dev_sleeps g k' \<and>
      (readyList k' \<noteq> [] \<or> nat (ow - now k') < nat (ow - now k))"
    using k' k(1) by (intro exI [of _ k']) (auto simp: dev_sleeps_def)
qed

lemma waits_read:
  assumes w: "g_wait g = WaitsRead" and out: "g_out g = None" "\<not> g_held g" and N: "arrives (g_content g) N"
  shows "progresses c g"
  unfolding progresses_def
proof (intro exI [of _ "\<lambda>k. Suc N - polls k"] allI impI, elim conjE)
  fix k :: "('h, 'm) skernel_scheme"
  assume k: "dev_sleeps g k" "readyList k = []"
  then obtain r w pw where at: "at_dev g r w pw k" and s: "level k = IntOff" "settled k"
    by (auto simp: dev_sleeps_def)
  have empty: "\<not> full x" if "at_dev g r w pw x" "readyList x = []" for r w pw x
  proof -
    have "sem_value r = 0" using that \<open>g_wait g = WaitsRead\<close> by (auto simp: at_dev_def dev_sems_def sleeps_on_def)
    then show ?thesis using that(1) out by (auto simp: at_dev_def dev_sems_def of_bool_def split: if_splits)
  qed
  have "content (g_content g) (out_busy g w) k" using at by (simp add: at_dev_def)
  from arrives_law [OF this empty [OF at k(2)] N] have N': "polls k \<le> N" .
  have "mset (pending k) = {# dev_entry hp tp pw #}" using at out by (simp add: at_dev_def dev_pending_def)
  then have "pending k = [dev_entry hp tp pw]" by simp
  moreover obtain k' r' w' pw' where k': "Idle (user_cpu (c\<lparr>invoke := call\<rparr>)) k = Some (Inr k')"
      "at_dev g r' w' pw' k'" "level k' = IntOff" "settled k'" "now k' < pw \<or> polls k < polls k' \<or> full k'"
      "pending k = [dev_entry hp tp pw] \<longrightarrow> now k' = pw"
    using Idle_dev [OF at s, of c] by (elim exE conjE) (rule that)
  ultimately have "polls k < polls k' \<or> full k'" by auto
  then have "readyList k' \<noteq> [] \<or> Suc N - polls k' < Suc N - polls k"
    using empty [OF k'(2)] N' by (cases "readyList k' = []") (simp_all add: diff_less_mono2)
  then show "\<exists>k'. Idle (user_cpu (c\<lparr>invoke := call\<rparr>)) k = Some (Inr k') \<and> dev_sleeps g k' \<and>
      (readyList k' \<noteq> [] \<or> Suc N - polls k' < Suc N - polls k)"
    using k' by (intro exI [of _ k']) (auto simp: dev_sleeps_def)
qed

subsection \<open>P on the device's semaphores\<close>

definition sem_of :: "dev_wait \<Rightarrow> 'c dev_ghost \<Rightarrow> nat" where
  "sem_of W g = (if W = WaitsWrite then ws (g_content g) else rs (g_content g))"

text \<open>The loop of \<open>P\<close> ends, awake and with the semaphore at 1.\<close>

lemma sleeps_wakes:
  assumes k: "dev_sleeps (g\<lparr>g_wait := W\<rparr>) k" and W: "W \<noteq> Runs" and prog: "progresses c (g\<lparr>g_wait := W\<rparr>)"
  shows "\<exists>k' r w pw. wait_for_ready (user_cpu (c\<lparr>invoke := call\<rparr>)) k = Some (Inr (g_thread g, k')) \<and>
    at_dev (g\<lparr>g_wait := Runs\<rparr>) r w pw k' \<and> level k' = IntOff \<and> settled k' \<and>
    sem_value (if W = WaitsWrite then w else r) = 1"
proof -
  let ?cpu = "user_cpu (c\<lparr>invoke := call\<rparr>)"
  obtain m :: "_ \<Rightarrow> nat" where m: "\<And>k. dev_sleeps (g\<lparr>g_wait := W\<rparr>) k \<Longrightarrow> readyList k = [] \<Longrightarrow>
      \<exists>k'. Idle ?cpu k = Some (Inr k') \<and> dev_sleeps (g\<lparr>g_wait := W\<rparr>) k' \<and> (readyList k' \<noteq> [] \<or> m k' < m k)"
    using prog unfolding progresses_def by blast
  obtain k' t ts where k': "dev_sleeps (g\<lparr>g_wait := W\<rparr>) k'" "readyList k' = t # ts"
    "wait_for_ready ?cpu k = Some (Inr (t, k'\<lparr>readyList := ts\<rparr>))"
    using wait_for_ready_variant [where I = "dev_sleeps (g\<lparr>g_wait := W\<rparr>)" and m = m, OF k m] by blast
  then obtain r w pw where at: "at_dev (g\<lparr>g_wait := W\<rparr>) r w pw k'" by (auto simp: dev_sleeps_def)
  have ts: "t = g_thread g" "ts = []" "squeue r = []" "squeue w = []" "sem_value (if W = WaitsWrite then w else r) = 1"
    using at k'(2) W by (cases W; auto simp: at_dev_def dev_sems_def sleeps_on_def)+
  have "at_dev (g\<lparr>g_wait := Runs\<rparr>) r w pw (k'\<lparr>readyList := []\<rparr>)"
    using at ts(3,4) by (simp add: at_dev_def dev_sems_def dev_thread_def)
  then show ?thesis using k' ts
    by (intro exI [of _ "k'\<lparr>readyList := []\<rparr>"] exI [of _ r] exI [of _ w] exI [of _ pw])
      (simp add: dev_sleeps_def)
qed

lemma Run_dev:
  assumes at: "at_dev g r w pw k" and off: "level k = IntOff" "settled k"
  shows "\<exists>k'. Run (user_cpu (c\<lparr>invoke := call\<rparr>)) (g_thread g) k = Some (Inr k') \<and> at_dev g r w pw k' \<and>
    level k' = IntOff \<and> settled k'"
proof -
  obtain th where th: "threads k (g_thread g) = Some th" "stack_ok (Some th)" "threadToBeDestroyed k = None"
    "currentThread k = g_thread g"
    using at by (auto simp: at_dev_def dev_thread_def)
  from user_devices.Run_self [of k th "c\<lparr>invoke := call\<rparr>"] th
  obtain k' where r: "Run (user_cpu (c\<lparr>invoke := call\<rparr>)) (g_thread g) k = Some (Inr k')"
    and k': "kernel.truncate k' = kernel.truncate (put_thread (g_thread g) (th\<lparr>tstatus := RUNNING\<rparr>) k)"
      "semaphores k' = semaphores k" "locks k' = locks k" "conditions k' = conditions k" "skernel.more k' = skernel.more k"
    by (auto simp: synch_part_def)
  have same: "full k' = full k" "polls k' = polls k" "\<And>b. content (g_content g) b k' = content (g_content g) b k"
    using full_frame [OF k'(5)] polls_frame [OF k'(5)] content_frame [OF k'(5,3,4)] k'(2)
    by simp_all
  have "settled k'" using settled_truncate [OF k'(1)] off(2) by simp
  then show ?thesis using r off at th truncate_eqD [OF k'(1)] k'(2) same
    by (intro exI [of _ k']) (simp add: at_dev_def dev_thread_def, simp add: put_thread_def stack_ok_def)
qed

lemma content_sem:
  "content c b k \<Longrightarrow> s = rs c \<or> s = ws c \<Longrightarrow> content c b (put_sem s x k)"
  using content_frame [of "put_sem s x k" k c b] by (auto simp: put_sem_def)

lemma state_sem [simp]:
  "full (put_sem s x k) = full k" "polls (put_sem s x k) = polls k"
  by (rule full_frame polls_frame; simp add: put_sem_def)+

lemma P_loop_dev:
  assumes at: "at_dev g r w pw k" and runs: "g_wait g = Runs" and off: "level k = IntOff" "settled k"
    and W: "W \<noteq> Runs" and prog: "progresses c (g\<lparr>g_wait := W\<rparr>)"
  shows "\<exists>k' r w pw. P_loop (user_cpu (c\<lparr>invoke := call\<rparr>)) (sem_of W g) k = Some (Inr k') \<and> at_dev g r w pw k' \<and>
    level k' = IntOff \<and> settled k' \<and> sem_value (if W = WaitsWrite then w else r) = 1"
proof -
  let ?s = "sem_of W g" and ?c = "if W = WaitsWrite then w else r" and ?cpu = "user_cpu (c\<lparr>invoke := call\<rparr>)"
  have c: "semaphores k ?s = Some ?c" "squeue r = []" "squeue w = []" and content: "content (g_content g) (out_busy g w) k"
    using at runs by (auto simp: at_dev_def sem_of_def dev_sems_def)
  note apart = apart [OF content]
  show ?thesis
  proof (cases "sem_value ?c = 0")
    case False
    then have "sem_value ?c = 1"
      using at by (auto simp: at_dev_def dev_sems_def of_bool_def split: if_splits)
    moreover have "P_loop ?cpu ?s k = Some (Inr k)" using c(1) False by (subst P_loop.simps) simp
    ultimately show ?thesis using at off by blast
  next
    case True
    let ?t = "g_thread g"
    obtain th where th: "threads k ?t = Some th" "stack_ok (Some th)" "currentThread k = ?t"
      using at by (auto simp: at_dev_def dev_thread_def)
    define ka where "ka = put_sem ?s (?c\<lparr>squeue := [?t]\<rparr>) k"
    define kb where "kb = put_thread ?t (th\<lparr>tstatus := BLOCKED\<rparr>) ka"
    have "sem_value ?c = 0" "P_append ?s k = Inr ka"
      using True c th by (simp_all add: P_append_def ka_def)
    moreover have "setStatus (currentThread ka) BLOCKED ka = Inr kb" "level ka = IntOff" "currentThread ka = ?t"
      using th off by (simp_all add: ka_def kb_def put_sem_def)
    ultimately have p: "P_loop ?cpu ?s k =
        orbind (orbind (wait_for_ready ?cpu kb) (\<lambda>(t, k). Run ?cpu t k)) (P_loop ?cpu ?s)"
      using c(1) by (subst P_loop.simps) (simp add: Sleep_def)
    have "content (g_content g) (out_busy g w) ka"
      unfolding ka_def by (rule content_sem [OF content]) (auto simp: sem_of_def)
    then have "content (g_content g) (out_busy g w) kb" by (simp add: kb_def put_thread_def)
    then have "at_dev (g\<lparr>g_wait := W\<rparr>) (if W = WaitsWrite then r else r\<lparr>squeue := [?t]\<rparr>)
        (if W = WaitsWrite then w\<lparr>squeue := [?t]\<rparr> else w) pw kb"
      using at th True W runs apart
      by (cases W) (simp_all add: at_dev_def dev_sems_def dev_thread_def sleeps_on_def kb_def ka_def
          sem_of_def stack_ok_def put_sem_def put_thread_def)
    moreover have "settled kb" "level kb = IntOff"
      using off by (simp add: kb_def ka_def) (simp add: kb_def ka_def put_sem_def put_thread_def off)
    ultimately have "dev_sleeps (g\<lparr>g_wait := W\<rparr>) kb" unfolding dev_sleeps_def by blast
    from sleeps_wakes [OF this W prog] obtain k1 r1 w1 pw1 where
      k1: "wait_for_ready ?cpu kb = Some (Inr (?t, k1))" "at_dev (g\<lparr>g_wait := Runs\<rparr>) r1 w1 pw1 k1"
        "level k1 = IntOff" "settled k1" "sem_value (if W = WaitsWrite then w1 else r1) = 1"
      by blast
    have "g\<lparr>g_wait := Runs\<rparr> = g" using runs by (cases g) simp
    with k1(2) have "at_dev g r1 w1 pw1 k1" by simp
    from Run_dev [OF this k1(3,4), of c] obtain k2 where
      k2: "Run ?cpu ?t k1 = Some (Inr k2)" "at_dev g r1 w1 pw1 k2" "level k2 = IntOff" "settled k2"
      by blast
    have "semaphores k2 ?s = Some (if W = WaitsWrite then w1 else r1)"
      using k2(2) by (simp add: at_dev_def sem_of_def)
    then have "P_loop ?cpu ?s k2 = Some (Inr k2)" using k1(5) by (subst P_loop.simps) simp
    then have "P_loop ?cpu ?s k = Some (Inr k2)" using p k1(1) k2(1) by simp
    with k1(5) k2 show ?thesis by blast
  qed
qed

text \<open>Turning interrupts on again: a tick, in which the device may act.\<close>

lemma on_dev:
  assumes at: "at_dev g r w pw k" and off: "level k = IntOff" "settled k"
  shows "\<exists>k' r w pw. SetLevel (user_cpu (c\<lparr>invoke := call\<rparr>)) IntOn k = Some (Inr (IntOff, k')) \<and>
    at_dev g r w pw k' \<and> level k' = IntOn \<and> settled k'"
proof -
  let ?g = "g\<lparr>g_polls := polls k, g_due := pw\<rparr>"
  have "dev_inv ?g k"
    unfolding dev_inv_def using at by (auto simp: moved_def)
  from dev_interrupts.SetLevel_on [OF this, of c] off obtain k' where
    k': "SetLevel (user_cpu (c\<lparr>invoke := call\<rparr>)) IntOn k = Some (Inr (IntOff, k'))" "dev_inv ?g k'"
      "level k' = IntOn" "settled k'"
    by (auto simp: settled_def)
  moreover obtain r w pw where "at_dev g r w pw k'" using k'(2) by (auto simp: dev_inv_def)
  ultimately show ?thesis by blast
qed

lemma P_dev:
  assumes at: "at_dev g r w pw k" and runs: "g_wait g = Runs" and on: "level k = IntOn" "settled k"
    and W: "W \<noteq> Runs" "W = WaitsRead \<longrightarrow> \<not> g_held g" and prog: "progresses c (g\<lparr>g_wait := W\<rparr>)"
  shows "\<exists>k' r w pw. Semaphore_P (user_cpu (c\<lparr>invoke := call\<rparr>)) (sem_of W g) k = Some (Inr k') \<and>
    at_dev (if W = WaitsWrite then g\<lparr>g_out := None\<rparr> else g\<lparr>g_held := True\<rparr>) r w pw k' \<and>
    level k' = IntOn \<and> settled k'"
proof -
  let ?cpu = "user_cpu (c\<lparr>invoke := call\<rparr>)" and ?s = "sem_of W g"
  let ?g = "if W = WaitsWrite then g\<lparr>g_out := None\<rparr> else g\<lparr>g_held := True\<rparr>"
  define k0 where "k0 = k\<lparr>level := IntOff\<rparr>"
  have "at_dev g r w pw k0" "level k0 = IntOff" "settled k0" using at on by (simp_all add: k0_def)
  from P_loop_dev [OF this(1) runs this(2,3) W(1) prog] obtain k1 r1 w1 pw1 where
    k1: "P_loop ?cpu ?s k0 = Some (Inr k1)" "at_dev g r1 w1 pw1 k1" "level k1 = IntOff" "settled k1"
      "sem_value (if W = WaitsWrite then w1 else r1) = 1"
    by blast
  have content: "content (g_content g) (out_busy g w1) k1" using k1(2) by (simp add: at_dev_def)
  let ?c = "(if W = WaitsWrite then w1 else r1)\<lparr>sem_value := 0\<rparr>"
  define k2 where "k2 = put_sem ?s ?c k1"
  have take: "P_take ?s k1 = Inr k2"
    using k1(2,5) by (auto simp: P_take_def at_dev_def sem_of_def k2_def)
  have "content (g_content g) (out_busy g w1) k2"
    unfolding k2_def by (rule content_sem [OF content]) (auto simp: sem_of_def)
  then have "at_dev ?g (if W = WaitsWrite then r1 else r1\<lparr>sem_value := 0\<rparr>)
      (if W = WaitsWrite then w1\<lparr>sem_value := 0\<rparr> else w1) pw1 k2"
    using k1(2,5) W runs apart [OF content]
    by (cases W) (auto simp: at_dev_def dev_sems_def dev_thread_def k2_def sem_of_def dev_pending_def put_sem_def
        of_bool_def split: if_splits)
  moreover have "settled k2" "level k2 = IntOff"
    using k1(3,4) by (simp_all add: k2_def) (simp add: put_sem_def)
  ultimately obtain k3 r3 w3 pw3 where k3: "SetLevel ?cpu IntOn k2 = Some (Inr (IntOff, k3))"
    "at_dev ?g r3 w3 pw3 k3" "level k3 = IntOn" "settled k3"
    using on_dev [of ?g _ _ pw1 k2 c] by blast
  have "Semaphore_P ?cpu ?s k = Some (Inr k3)"
    using k1(1) take k3(1) on(1) by (simp add: Semaphore_P_def dev_interrupts.SetLevel_off k0_def)
  then show ?thesis using k3(2-4) by blast
qed

end

end
