(* ===== verification/Console.thy ===== *)
theory Console
  imports Polled_Device
begin

section \<open>The console, machine/console.cc and ConsoleTest\<close>

text \<open>
  The simulated serial line to a terminal: a poll every \<open>ConsoleTime\<close> ticks moves a typed character
  into a buffer of one, \<open>PutChar\<close> shows a character at once and reports it done later. The keyboard
  is what \<open>PollFile\<close> and \<open>Read\<close> of its UNIX file answer, poll by poll; the display is the list of the
  characters written. \<open>ConsoleTest\<close> of \<open>userprog/progtest.cc\<close> echoes what is typed, with a semaphore
  for each direction that the interrupt handlers raise.
\<close>

subsection \<open>The data\<close>

text \<open>
  A poll finds nothing, a character, or a file at its end: \<open>select\<close> calls that readable, and \<open>Read\<close>
  then asserts that it got a character.
\<close>

datatype keyboard = NoChar | Typed byte | Closed

record 'h Console =
  con_in :: "nat \<Rightarrow> keyboard"
  con_polls :: nat
  con_display :: "byte list"
  writeHandler :: 'h
  readHandler :: 'h
  con_arg :: int
  putBusy :: bool
  incoming :: byte

text \<open>\<open>EOF\<close> as a \<open>char\<close>.\<close>

definition EOF :: byte where "EOF = 0xff"

text \<open>The static variables of \<open>progtest.cc\<close> that point to the semaphores come with the console.\<close>

record 'h ckernel = "'h skernel" +
  console :: "'h Console"
  con_readAvail :: nat
  con_writeDone :: nat

subsection \<open>The device\<close>

text \<open>\<open>poll\<close> and \<open>done\<close> are the values that stand for the two static functions; \<open>this\<close> is not kept.\<close>

definition Console_new ::
  "'h \<Rightarrow> (nat \<Rightarrow> keyboard) \<Rightarrow> 'h \<Rightarrow> 'h \<Rightarrow> int \<Rightarrow> ('h, 'm) ckernel_scheme \<Rightarrow> ('h, 'm) ckernel_scheme result" where
  "Console_new poll keys readAvail writeDone callArg k =
     Schedule poll 0 ConsoleTime ConsoleReadInt
       (k\<lparr>console := \<lparr>con_in = keys, con_polls = 0, con_display = [], writeHandler = writeDone,
          readHandler = readAvail, con_arg = callArg, putBusy = False, incoming = EOF\<rparr>\<rparr>)"

definition CheckCharAvail ::
  "'h \<Rightarrow> ('h \<Rightarrow> int \<Rightarrow> ('h, 'm) ckernel_scheme \<Rightarrow> ('h, 'm) ckernel_scheme result) \<Rightarrow>
    ('h, 'm) ckernel_scheme \<Rightarrow> ('h, 'm) ckernel_scheme result" where
  "CheckCharAvail poll call k =
     rbind (Schedule poll 0 ConsoleTime ConsoleReadInt k) (\<lambda>k.
     if incoming (console k) \<noteq> EOF then Inr k
     else
       let answer = con_in (console k) (con_polls (console k));
           k = k\<lparr>console := (console k)\<lparr>con_polls := con_polls (console k) + 1\<rparr>\<rparr>
       in case answer of
            NoChar \<Rightarrow> Inr k
          | Closed \<Rightarrow> Inl AssertFailed
          | Typed c \<Rightarrow>
              let k = k\<lparr>console := (console k)\<lparr>incoming := c\<rparr>\<rparr>;
                  k = k\<lparr>stats := (stats k)\<lparr>numConsoleCharsRead := numConsoleCharsRead (stats k) + 1\<rparr>\<rparr>
              in call (readHandler (console k)) (con_arg (console k)) k)"

definition Console_WriteDone ::
  "('h \<Rightarrow> int \<Rightarrow> ('h, 'm) ckernel_scheme \<Rightarrow> ('h, 'm) ckernel_scheme result) \<Rightarrow>
    ('h, 'm) ckernel_scheme \<Rightarrow> ('h, 'm) ckernel_scheme result" where
  "Console_WriteDone call k =
     (let k = k\<lparr>console := (console k)\<lparr>putBusy := False\<rparr>\<rparr>;
          k = k\<lparr>stats := (stats k)\<lparr>numConsoleCharsWritten := numConsoleCharsWritten (stats k) + 1\<rparr>\<rparr>
      in call (writeHandler (console k)) (con_arg (console k)) k)"

definition GetChar :: "('h, 'm) ckernel_scheme \<Rightarrow> byte \<times> ('h, 'm) ckernel_scheme" where
  "GetChar k = (incoming (console k), k\<lparr>console := (console k)\<lparr>incoming := EOF\<rparr>\<rparr>)"

definition PutChar :: "'h \<Rightarrow> byte \<Rightarrow> ('h, 'm) ckernel_scheme \<Rightarrow> ('h, 'm) ckernel_scheme result" where
  "PutChar done ch k =
     rbind (ASSERT (\<not> putBusy (console k))) (\<lambda>_.
     let k = k\<lparr>console := (console k)\<lparr>con_display := con_display (console k) @ [ch]\<rparr>\<rparr>;
         k = k\<lparr>console := (console k)\<lparr>putBusy := True\<rparr>\<rparr>
     in Schedule done 0 ConsoleTime ConsoleWriteInt k)"

subsection \<open>The handlers and the echo\<close>

datatype console_handler = ConsoleReadPoll | ConsoleWriteDone | ReadAvail | WriteDone

text \<open>\<open>ReadAvail\<close> and \<open>WriteDone\<close>, which run with interrupts off: see \<open>V_interrupts_off\<close>.\<close>

definition callee ::
  "console_handler \<Rightarrow> int \<Rightarrow> (console_handler, 'm) ckernel_scheme \<Rightarrow> (console_handler, 'm) ckernel_scheme result" where
  "callee h a k =
     (case h of
        ReadAvail \<Rightarrow> V_give (con_readAvail k) k
      | WriteDone \<Rightarrow> V_give (con_writeDone k) k
      | _ \<Rightarrow> Inl OutOfBounds)"

text \<open>A console whose own handlers were installed as its callees would call itself; not modelled.\<close>

definition console_call ::
  "console_handler \<Rightarrow> int \<Rightarrow> (console_handler, 'm) ckernel_scheme \<Rightarrow> (console_handler, 'm) ckernel_scheme result" where
  "console_call h a k =
     (case h of
        ConsoleReadPoll \<Rightarrow> CheckCharAvail ConsoleReadPoll callee k
      | ConsoleWriteDone \<Rightarrow> Console_WriteDone callee k
      | _ \<Rightarrow> callee h a k)"

definition console_cpu ::
  "(console_handler, (console_handler, 'm) ckernel_scheme) cpu \<Rightarrow>
    (console_handler, (console_handler, 'm) ckernel_scheme) cpu" where
  "console_cpu c = user_cpu (c\<lparr>invoke := console_call\<rparr>)"

text \<open>The loop \<open>for (;;)\<close>; 113 is \<open>'q'\<close>.\<close>

partial_function (option) console_loop ::
  "(console_handler, (console_handler, 'm) ckernel_scheme) cpu \<Rightarrow> (console_handler, 'm) ckernel_scheme \<Rightarrow>
    (console_handler, 'm) ckernel_scheme result option" where
  "console_loop cpu k =
     orbind (Semaphore_P cpu (con_readAvail k) k) (\<lambda>k.
     case GetChar k of (ch, k) \<Rightarrow>
     orbind (Some (PutChar ConsoleWriteDone ch k)) (\<lambda>k.
     orbind (Semaphore_P cpu (con_writeDone k) k) (\<lambda>k.
     if ch = 113 then Some (Inr k) else console_loop cpu k)))"

text \<open>\<open>r\<close> and \<open>w\<close> are the addresses that \<open>new\<close> returns.\<close>

definition ConsoleTest ::
  "(console_handler, (console_handler, 'm) ckernel_scheme) cpu \<Rightarrow> nat \<Rightarrow> nat \<Rightarrow> (nat \<Rightarrow> keyboard) \<Rightarrow>
    (console_handler, 'm) ckernel_scheme \<Rightarrow> (console_handler, 'm) ckernel_scheme result option" where
  "ConsoleTest cpu r w keys k =
     orbind (Some (Console_new ConsoleReadPoll keys ReadAvail WriteDone 0 k)) (\<lambda>k.
     let k = (put_sem r (Semaphore_new 0) k)\<lparr>con_readAvail := r\<rparr>;
         k = (put_sem w (Semaphore_new 0) k)\<lparr>con_writeDone := w\<rparr>
     in console_loop cpu k)"

subsection \<open>What stays true while the echo runs\<close>

text \<open>The characters that the first \<open>n\<close> polls find.\<close>

definition typed :: "(nat \<Rightarrow> keyboard) \<Rightarrow> nat \<Rightarrow> byte list" where
  "typed keys n = concat (map (\<lambda>i. case keys i of Typed c \<Rightarrow> [c] | _ \<Rightarrow> []) [0..<n])"

lemma typed_0 [simp]: "typed keys 0 = []"
  by (simp add: typed_def)

lemma typed_Suc [simp]: "typed keys (Suc n) = typed keys n @ (case keys n of Typed c \<Rightarrow> [c] | _ \<Rightarrow> [])"
  by (simp add: typed_def)

text \<open>A keyboard that the kernel can poll for ever: not at its end, and never the byte that \<open>EOF\<close> is.\<close>

definition keys_ok :: "(nat \<Rightarrow> keyboard) \<Rightarrow> bool" where
  "keys_ok keys \<longleftrightarrow> (\<forall>i. keys i \<noteq> Closed \<and> keys i \<noteq> Typed EOF)"

lemma typed_prefix: "m \<le> n \<Longrightarrow> \<exists>xs. typed keys n = typed keys m @ xs"
  by (induction n) (auto simp: le_Suc_eq)

text \<open>What the console holds: the keyboard, what has been shown, and the two semaphores.\<close>

record con_content =
  c_keys :: "nat \<Rightarrow> keyboard"
  c_shown :: "byte list"
  c_read :: nat
  c_write :: nat

definition con_chars :: "con_content \<Rightarrow> console_handler Console \<Rightarrow> bool" where
  "con_chars c C \<longleftrightarrow> keys_ok (c_keys c) \<and>
     readHandler C = ReadAvail \<and> writeHandler C = WriteDone \<and> con_in C = c_keys c \<and> con_display C = c_shown c \<and>
     typed (c_keys c) (con_polls C) = c_shown c @ (if incoming C = EOF then [] else [incoming C])"

definition con_holds :: "con_content \<Rightarrow> bool \<Rightarrow> (console_handler, 'm) ckernel_scheme \<Rightarrow> bool" where
  "con_holds c b k \<longleftrightarrow> putBusy (console k) = b \<and> con_chars c (console k) \<and> con_readAvail k = c_read c \<and> con_writeDone k = c_write c \<and>
     c_read c \<noteq> c_write c"

text \<open>The next character comes at poll \<open>n\<close>.\<close>

definition next_at :: "con_content \<Rightarrow> nat \<Rightarrow> bool" where
  "next_at c n \<longleftrightarrow> typed (c_keys c) n = c_shown c \<and> (\<exists>ch. c_keys c n = Typed ch)"

lemma console_more_eqD:
  fixes a b :: "('h, 'm) ckernel_scheme"
  assumes "skernel.more a = skernel.more b"
  shows "console a = console b" and "con_readAvail a = con_readAvail b" and "con_writeDone a = con_writeDone b"
  using assms by (cases a; cases b; simp)+

lemma next_char_read:
  assumes t: "typed keys n = shown @ [x]" and N: "typed keys N = shown" "keys N = Typed ch"
  shows "x = ch"
proof -
  have "N < n"
  proof (rule ccontr)
    assume "\<not> N < n"
    then obtain xs where "typed keys N = typed keys n @ xs" using typed_prefix [of n N] by (meson not_less)
    then show False using t N(1) by simp
  qed
  then obtain xs where "typed keys n = typed keys (Suc N) @ xs" using typed_prefix [of "Suc N"] by (meson Suc_leI)
  then show ?thesis using t N by simp
qed

interpretation console_device: polled_device console_call ConsoleReadPoll ConsoleWriteDone ConsoleReadInt
  ConsoleWriteInt ConsoleTime "\<lambda>k. incoming (console k) \<noteq> EOF" "\<lambda>k. con_polls (console k)"
  con_holds c_read c_write next_at
proof unfold_locales
  fix k :: "(console_handler, 'a) ckernel_scheme" and c b
  let ?C = "console k"
  assume c: "con_holds c b k"
  then have C: "con_in ?C = c_keys c" "readHandler ?C = ReadAvail" "writeHandler ?C = WriteDone" "keys_ok (c_keys c)"
    and T: "typed (c_keys c) (con_polls ?C) = c_shown c @ (if incoming ?C = EOF then [] else [incoming ?C])"
    by (simp_all add: con_holds_def con_chars_def)
  show "c_read c \<noteq> c_write c" using c by (simp add: con_holds_def)
  define k1 where "k1 = k\<lparr>pending := insert_all [dev_entry ConsoleReadPoll ConsoleReadInt (now k + ConsoleTime)] (pending k)\<rparr>"
  have s: "Schedule ConsoleReadPoll 0 ConsoleTime ConsoleReadInt k = Inr k1"
    by (simp add: Schedule_spec ConsoleTime_def k1_def insert_all_def dev_entry_def)
  show "\<exists>k1. dev_step k k1 \<and> con_holds c b k1 \<and>
      pending k1 = insert_all [dev_entry ConsoleReadPoll ConsoleReadInt (now k + ConsoleTime)] (pending k) \<and>
      (console_call ConsoleReadPoll 0 k = Inr k1 \<and> (incoming (console k1) \<noteq> EOF) = (incoming ?C \<noteq> EOF) \<and>
        (incoming ?C \<noteq> EOF \<or> con_polls ?C < con_polls (console k1)) \<or>
       console_call ConsoleReadPoll 0 k = V_give (c_read c) k1 \<and> \<not> incoming ?C \<noteq> EOF \<and> incoming (console k1) \<noteq> EOF)"
  proof (cases "incoming ?C = EOF")
    case False
    then show ?thesis using s c
      by (intro exI [of _ k1]) (simp add: console_call_def CheckCharAvail_def k1_def dev_step_def clock_def synch_part_def
          con_holds_def)
  next
    case True
    note eof = True
    show ?thesis
    proof (cases "c_keys c (con_polls ?C)")
      case NoChar
      then show ?thesis using s c C T eof
        by (intro exI [of _ "k1\<lparr>console := ?C\<lparr>con_polls := con_polls ?C + 1\<rparr>\<rparr>"])
          (simp add: console_call_def CheckCharAvail_def k1_def dev_step_def clock_def synch_part_def con_holds_def
            con_chars_def)
    next
      case Closed
      with C(4) show ?thesis by (simp add: keys_ok_def)
    next
      case (Typed ch)
      then have "ch \<noteq> EOF" using C(4) by (auto simp: keys_ok_def)
      then show ?thesis using s c C T eof Typed
        by (intro exI [of _ "k1\<lparr>console := ?C\<lparr>con_polls := con_polls ?C + 1, incoming := ch\<rparr>,
            stats := (stats k)\<lparr>numConsoleCharsRead := numConsoleCharsRead (stats k) + 1\<rparr>\<rparr>"])
          (simp add: console_call_def CheckCharAvail_def k1_def dev_step_def clock_def synch_part_def con_holds_def
            con_chars_def callee_def)
    qed
  qed
  show "\<exists>k1. dev_step k k1 \<and> con_holds c False k1 \<and>
      (incoming (console k1) \<noteq> EOF) = (incoming ?C \<noteq> EOF) \<and> con_polls (console k1) = con_polls ?C \<and>
      pending k1 = pending k \<and> console_call ConsoleWriteDone 0 k = V_give (c_write c) k1"
    using c C
    by (intro exI [of _ "k\<lparr>console := ?C\<lparr>putBusy := False\<rparr>,
        stats := (stats k)\<lparr>numConsoleCharsWritten := numConsoleCharsWritten (stats k) + 1\<rparr>\<rparr>"])
      (simp add: console_call_def Console_WriteDone_def dev_step_def clock_def synch_part_def con_holds_def
        con_chars_def callee_def)
  show "con_polls ?C \<le> n" if "\<not> incoming ?C \<noteq> EOF" "next_at c n" for n
  proof (rule ccontr)
    assume "\<not> con_polls ?C \<le> n"
    then obtain xs where "typed (c_keys c) (con_polls ?C) = typed (c_keys c) (Suc n) @ xs"
      using typed_prefix [of "Suc n"] by (metis not_less_eq_eq)
    then show False using T that by (auto simp: next_at_def)
  qed
qed (auto simp: con_holds_def ConsoleTime_def dest: console_more_eqD)

subsection \<open>The echo\<close>

text \<open>The head of the loop, with what \<open>c\<close> says on the display.\<close>

definition echo_ghost :: "tid \<Rightarrow> con_content \<Rightarrow> con_content dev_ghost" where
  "echo_ghost t c = \<lparr>g_thread = t, g_content = c, g_held = False, g_out = None, g_wait = Runs, g_polls = 0, g_due = 0\<rparr>"

lemma echo_ghost_simps [simp]:
  "g_thread (echo_ghost t c) = t" "g_content (echo_ghost t c) = c" "\<not> g_held (echo_ghost t c)"
  "g_out (echo_ghost t c) = None" "g_wait (echo_ghost t c) = Runs"
  by (simp_all add: echo_ghost_def)

definition echo_head :: "tid \<Rightarrow> con_content \<Rightarrow> (console_handler, 'm) ckernel_scheme \<Rightarrow> bool" where
  "echo_head t c k \<longleftrightarrow> (\<exists>r w pw. console_device.at_dev (echo_ghost t c) r w pw k) \<and> level k = IntOn \<and> settled k"

lemma settled_console [simp]: "settled ((k :: ('h, 'm) ckernel_scheme)\<lparr>console := C\<rparr>) = settled k"
  by (simp add: settled_def pending_ok_def none_due_def ticks_ok_def)

text \<open>A character is taken from the buffer and shown.\<close>

lemma show_char:
  assumes at: "console_device.at_dev ((echo_ghost t c)\<lparr>g_held := True\<rparr>) r w pw k" and s: "settled k"
    and N: "typed (c_keys c) N = c_shown c" "c_keys c N = Typed ch"
  shows "\<exists>k'. (case GetChar k of (c, k) \<Rightarrow> rbind (PutChar ConsoleWriteDone c k) (\<lambda>k. Inr (c, k))) = Inr (ch, k') \<and>
    console_device.at_dev ((echo_ghost t (c\<lparr>c_shown := c_shown c @ [ch]\<rparr>))\<lparr>g_out := Some (now k + 100)\<rparr>) r w pw k' \<and>
    level k' = level k \<and> settled k'"
proof -
  let ?C = "console k" and ?c = "c\<lparr>c_shown := c_shown c @ [ch]\<rparr>"
  have c: "con_holds c False k" and full: "incoming ?C \<noteq> EOF" "sem_value r = 0"
    and idle: "\<not> putBusy ?C" "sem_value w = 0"
    using at by (auto simp: console_device.at_dev_def dev_sems_def of_bool_def out_busy_def con_holds_def split: if_splits)
  have t: "typed (c_keys c) (con_polls ?C) = c_shown c @ [incoming ?C]"
    using c full by (simp add: con_holds_def con_chars_def)
  have ch: "incoming ?C = ch" by (rule next_char_read [OF t N])
  let ?C' = "?C\<lparr>incoming := EOF, con_display := con_display ?C @ [ch], putBusy := True\<rparr>"
  have "settled (k\<lparr>console := ?C'\<rparr>)" using s by simp
  from settled_Schedule [OF this, of 100 ConsoleWriteDone 0 ConsoleWriteInt] obtain k' where
    k': "Schedule ConsoleWriteDone 0 100 ConsoleWriteInt (k\<lparr>console := ?C'\<rparr>) = Inr k'" "settled k'"
    "k' = k\<lparr>console := ?C', pending := insert_all [dev_entry ConsoleWriteDone ConsoleWriteInt (now k + 100)] (pending k)\<rparr>"
    by (auto simp: dev_entry_def)
  have "(case GetChar k of (c, k) \<Rightarrow> rbind (PutChar ConsoleWriteDone c k) (\<lambda>k. Inr (c, k))) = Inr (ch, k')"
    using k'(1) idle ch by (simp add: GetChar_def PutChar_def ConsoleTime_def)
  moreover have "con_holds ?c True k'" using c t ch by (simp add: con_holds_def con_chars_def k'(3))
  then have "console_device.at_dev ((echo_ghost t ?c)\<lparr>g_out := Some (now k + 100)\<rparr>) r w pw k'"
    using at full idle
    by (simp add: out_busy_def console_device.at_dev_def dev_thread_def dev_sems_def console_device.dev_pending_def mset_insert_all k'(3))
  ultimately show ?thesis using k'(2,3) by (intro exI [of _ k']) simp
qed

lemma echo_one:
  assumes head: "echo_head t c k" and N: "typed (c_keys c) N = c_shown c" "c_keys c N = Typed ch"
  shows "\<exists>k'. echo_head t (c\<lparr>c_shown := c_shown c @ [ch]\<rparr>) k' \<and>
    console_loop (console_cpu cp) k = (if ch = 113 then Some (Inr k') else console_loop (console_cpu cp) k')"
proof -
  let ?cpu = "console_cpu cp" and ?g = "echo_ghost t c" and ?c = "c\<lparr>c_shown := c_shown c @ [ch]\<rparr>"
  obtain r w pw where at: "console_device.at_dev ?g r w pw k" and k: "level k = IntOn" "settled k"
    using head by (auto simp: echo_head_def)
  have "console_device.progresses cp (?g\<lparr>g_wait := WaitsRead\<rparr>)"
    by (rule console_device.waits_read [where N = N]) (use N in \<open>simp_all add: next_at_def\<close>)
  from console_device.P_dev [OF at _ k _ _ this] obtain k1 r1 w1 pw1 where
    k1: "Semaphore_P ?cpu (c_read c) k = Some (Inr k1)" "console_device.at_dev (?g\<lparr>g_held := True\<rparr>) r1 w1 pw1 k1"
      "level k1 = IntOn" "settled k1"
    by (auto simp: console_device.sem_of_def console_cpu_def)
  let ?g' = "(echo_ghost t ?c)\<lparr>g_out := Some (now k1 + 100)\<rparr>"
  from show_char [OF k1(2,4) N] k1(3) obtain k2 where
    k2: "(case GetChar k1 of (c, k) \<Rightarrow> rbind (PutChar ConsoleWriteDone c k) (\<lambda>k. Inr (c, k))) = Inr (ch, k2)"
      "console_device.at_dev ?g' r1 w1 pw1 k2" "level k2 = IntOn" "settled k2"
    by auto
  have "console_device.progresses cp (?g'\<lparr>g_wait := WaitsWrite\<rparr>)"
    by (rule console_device.waits_write [where ow = "now k1 + 100"]) simp_all
  from console_device.P_dev [OF k2(2) _ k2(3,4) _ _ this] obtain k3 r3 w3 pw3 where
    k3: "Semaphore_P ?cpu (c_write c) k2 = Some (Inr k3)" "console_device.at_dev (?g'\<lparr>g_out := None\<rparr>) r3 w3 pw3 k3"
      "level k3 = IntOn" "settled k3"
    by (auto simp: console_device.sem_of_def console_cpu_def)
  have eq: "?g'\<lparr>g_out := None\<rparr> = echo_ghost t ?c" by (simp add: echo_ghost_def)
  have "echo_head t ?c k3"
    unfolding echo_head_def using k3(2-4) [unfolded eq] by blast
  moreover have "con_readAvail k = c_read c" "con_writeDone k2 = c_write c"
    using at k2(2) by (simp_all add: console_device.at_dev_def con_holds_def)
  moreover obtain kx where "GetChar k1 = (ch, kx)" "PutChar ConsoleWriteDone ch kx = Inr k2"
    using k2(1) by (cases "GetChar k1") auto
  ultimately show ?thesis using k1(1) k3(1)
    by (intro exI [of _ k3]) (subst console_loop.simps, simp)
qed

text \<open>The next character that is not shown yet, when some typed one is not.\<close>

lemma next_char:
  assumes "typed keys n = shown @ rest" and "rest \<noteq> []"
  shows "\<exists>N c. typed keys N = shown \<and> keys N = Typed c"
  using assms
proof (induction n arbitrary: rest)
  case (Suc n)
  show ?case
  proof (cases "keys n")
    case (Typed c)
    then have *: "typed keys n @ [c] = shown @ rest" using Suc.prems by simp
    show ?thesis
    proof (cases "butlast rest = []")
      case True
      then have "rest = [last rest]" using Suc.prems(2) by (metis append_butlast_last_id append_Nil)
      then have "typed keys n = shown" using * by (metis butlast_append butlast_snoc list.discI append_Nil2 butlast.simps(2))
      with Typed show ?thesis by blast
    next
      case False
      have "typed keys n = butlast (shown @ rest)" using * by (metis butlast_snoc)
      then have "typed keys n = shown @ butlast rest" using Suc.prems(2) by (simp add: butlast_append)
      from Suc.IH [OF this False] show ?thesis .
    qed
  qed (use Suc in auto)
qed simp

lemma typed_mem: "x \<in> set (typed keys n) \<longleftrightarrow> (\<exists>i < n. keys i = Typed x)"
  by (induction n) (auto simp: less_Suc_eq split: keyboard.splits)

text \<open>Until the first \<open>'q'\<close>, at poll \<open>n\<close>.\<close>

lemma echo_loop:
  assumes "echo_head t c k" and q: "c_keys c n = Typed 113" "\<And>i. i < n \<Longrightarrow> c_keys c i \<noteq> Typed 113"
    and "113 \<notin> set (c_shown c)"
  shows "\<exists>k'. console_loop (console_cpu cp) k = Some (Inr k') \<and>
    echo_head t (c\<lparr>c_shown := typed (c_keys c) (Suc n)\<rparr>) k'"
  using assms
proof (induction "length (typed (c_keys c) (Suc n)) - length (c_shown c)" arbitrary: c k rule: less_induct)
  case less
  let ?keys = "c_keys c"
  obtain xs where xs: "typed ?keys (con_polls (console k)) = c_shown c @ xs"
    using less.prems(1) by (auto simp: echo_head_def console_device.at_dev_def con_holds_def con_chars_def)
  define M where "M = max (con_polls (console k)) (Suc n)"
  obtain ys where ys: "typed ?keys M = c_shown c @ ys"
    using xs typed_prefix [of "con_polls (console k)" M ?keys] by (auto simp: M_def)
  have "113 \<in> set (typed ?keys M)"
    unfolding typed_mem using less.prems(2) by (intro exI [of _ n]) (simp add: M_def)
  then have "ys \<noteq> []" using ys less.prems(4) by auto
  from next_char [OF ys this] obtain N ch where N: "typed ?keys N = c_shown c" "?keys N = Typed ch" by blast
  have "N \<le> n"
  proof (rule ccontr)
    assume "\<not> N \<le> n"
    then have "113 \<in> set (typed ?keys N)" unfolding typed_mem using less.prems(2) by (intro exI [of _ n]) simp
    then show False using N(1) less.prems(4) by simp
  qed
  let ?g = "c\<lparr>c_shown := c_shown c @ [ch]\<rparr>"
  obtain k' where k': "echo_head t ?g k'"
    "console_loop (console_cpu cp) k = (if ch = 113 then Some (Inr k') else console_loop (console_cpu cp) k')"
    using echo_one [OF less.prems(1) N, of cp] by blast
  show ?case
  proof (cases "ch = 113")
    case True
    then have "N = n" using N(2) less.prems(3) [of N] \<open>N \<le> n\<close> by (cases "N = n") auto
    then have "typed ?keys (Suc n) = c_shown c @ [ch]" using N by simp
    then show ?thesis using k' True by (intro exI [of _ k']) simp
  next
    case False
    then have "N < n" using \<open>N \<le> n\<close> N(2) less.prems(2) by (cases "N = n") auto
    then obtain zs where zs: "typed ?keys (Suc n) = c_shown c @ [ch] @ zs"
      using typed_prefix [of "Suc N" "Suc n" ?keys] N by auto
    have "length (typed (c_keys ?g) (Suc n)) - length (c_shown ?g) < length (typed ?keys (Suc n)) - length (c_shown c)"
      using zs by simp
    from less.hyps [OF this k'(1)] less.prems False k'(2) show ?thesis by simp
  qed
qed

subsection \<open>Properties\<close>

text \<open>A kernel with the main thread, interrupts on, for the witnesses.\<close>

definition console_boot :: "(console_handler, unit) ckernel_scheme" where
  "console_boot =
     (skernel.extend
       (pkernel.extend
         (ukernel.extend
           (kernel.extend Initialize (ukernel.fields (Machine_new False 0 0) Map.empty (\<lambda>_ _. 0)))
           (pkernel.fields Map.empty))
         (skernel.fields Map.empty Map.empty Map.empty))
       (ckernel.fields \<lparr>con_in = (\<lambda>_. NoChar), con_polls = 0, con_display = [], writeHandler = WriteDone,
          readHandler = ReadAvail, con_arg = 0, putBusy = False, incoming = EOF\<rparr> 0 0))\<lparr>level := IntOn\<rparr>"

text \<open>An \<open>'h'\<close> is typed before the third poll, an \<open>'i'\<close> and a \<open>'q'\<close> soon after, then nothing.\<close>

definition some_keys :: "nat \<Rightarrow> keyboard" where
  "some_keys i = (if i = 2 then Typed 104 else if i = 3 then Typed 105 else if i = 5 then Typed 113 else NoChar)"

text \<open>
  C12: The console echo. Started by the only thread of a kernel with nothing pending, with a
  keyboard whose first \<open>'q'\<close> comes at poll \<open>n\<close>, \<open>ConsoleTest\<close> returns, whatever the times at which
  the other characters come: it has shown what was typed up to the first \<open>'q'\<close>, that included,
  each character once and in order. The keyboard must be one the console can cope with
  (\<open>keys_ok\<close>): its file is not at its end at any poll, which would fail the \<open>ASSERT\<close> of \<open>Read\<close>, and
  no byte is 0xff, which as a \<open>char\<close> is \<open>EOF\<close> and would look like an empty buffer.
\<close>

theorem ConsoleTest_echoes:
  assumes "only_thread k" and "level k = IntOn" and "pending k = []" and "ticks_ok k"
    and "status k = SystemMode" and "\<not> inHandler k" and "\<not> yieldOnReturn k" and "r \<noteq> w"
    and "keys_ok keys" and "keys n = Typed 113" and "\<forall>i < n. keys i \<noteq> Typed 113"
  shows "\<exists>k'. ConsoleTest (console_cpu c) r w keys k = Some (Inr k') \<and>
    con_display (console k') = typed keys (Suc n) \<and> level k' = IntOn \<and> only_thread k'"
proof -
  define g where "g = \<lparr>c_keys = keys, c_shown = [], c_read = r, c_write = w\<rparr>"
  define k1 where "k1 = (k\<lparr>console := \<lparr>con_in = keys, con_polls = 0, con_display = [], writeHandler = WriteDone,
      readHandler = ReadAvail, con_arg = 0, putBusy = False, incoming = EOF\<rparr>\<rparr>)\<lparr>
      pending := [dev_entry ConsoleReadPoll ConsoleReadInt (now k + 100)]\<rparr>"
  define k2 where "k2 = (put_sem w (Semaphore_new 0) ((put_sem r (Semaphore_new 0) k1)\<lparr>con_readAvail := r\<rparr>))\<lparr>con_writeDone := w\<rparr>"
  have test: "ConsoleTest (console_cpu c) r w keys k = console_loop (console_cpu c) k2"
    using assms(3) by (simp add: ConsoleTest_def Console_new_def Schedule_spec ConsoleTime_def k2_def k1_def dev_entry_def
        sorted_insert_def)
  have "con_holds g False k2" using assms(8,9) by (simp add: con_holds_def con_chars_def g_def k2_def k1_def put_sem_def)
  then have "console_device.at_dev (echo_ghost (currentThread k) g) (Semaphore_new 0) (Semaphore_new 0) (now k + 100) k2"
    using assms(1,8)
    by (simp add: out_busy_def console_device.at_dev_def dev_thread_def dev_sems_def console_device.dev_pending_def g_def k2_def
        k1_def put_sem_def only_thread_def Semaphore_new_def)
  moreover have "settled k2" "level k2 = IntOn"
    using assms(2,4-7) by (simp_all add: k2_def k1_def settled_def pending_ok_def none_due_def ticks_ok_def put_sem_def)
  ultimately have "echo_head (currentThread k) g k2" unfolding echo_head_def by blast
  from echo_loop [OF this, of n c] assms(10,11) obtain k' where
    k': "console_loop (console_cpu c) k2 = Some (Inr k')" "echo_head (currentThread k) (g\<lparr>c_shown := typed keys (Suc n)\<rparr>) k'"
    by (auto simp: g_def)
  then show ?thesis using test
    by (intro exI [of _ k'])
      (auto simp: echo_head_def console_device.at_dev_def con_holds_def con_chars_def dev_sems_def dev_thread_def
        only_thread_def)
qed

theorem ConsoleTest_echoes_witness:
  "\<exists>k'. ConsoleTest (console_cpu base_cpu) 0 1 some_keys console_boot = Some (Inr k') \<and>
    con_display (console k') = [104, 105, 113]"
proof -
  have k: "only_thread console_boot" "level console_boot = IntOn" "pending console_boot = []" "ticks_ok console_boot"
    "status console_boot = SystemMode" "\<not> inHandler console_boot" "\<not> yieldOnReturn console_boot"
    by (simp_all add: console_boot_def skernel.defs pkernel.defs ukernel.defs kernel.defs ckernel.defs
        Initialize_def Statistics_new_def only_thread_def stack_ok_def Thread_new_def ticks_ok_def)
  have "keys_ok some_keys" "some_keys 5 = Typed 113" "\<forall>i < 5. some_keys i \<noteq> Typed 113"
    by (auto simp: keys_ok_def some_keys_def EOF_def)
  note echo = ConsoleTest_echoes [OF k _ this, of 0 1 base_cpu]
  have "typed some_keys (Suc 5) = [104, 105, 113]" by (simp add: typed_def some_keys_def numeral_eq_Suc)
  with echo show ?thesis by auto
qed

end
