(* ===== verification/Calm_Kernel.thy ===== *)
theory Calm_Kernel
  imports Device_Threads
begin

section \<open>One thread in a calm kernel\<close>

text \<open>
  Monitors (locks with conditions) as the only thread sees them. Every \<open>P\<close> and \<open>V\<close> turns the
  interrupts on again, which is a tick, and in a tick devices may act. The locale \<open>calm_kernel\<close>
  states what the monitor code relies on then: nothing becomes ready, and nothing that belongs to
  the client changes. A kernel with nothing pending is calm, and so is one whose device keeps to
  itself.
\<close>

lemma put_sem_others [simp]:
  "locks (put_sem s x k) = locks k" "conditions (put_sem s x k) = conditions k" "level (put_sem s x k) = level k"
  "pending (put_sem s x k) = pending k" "inHandler (put_sem s x k) = inHandler k"
  "yieldOnReturn (put_sem s x k) = yieldOnReturn k" "stats (put_sem s x k) = stats k" "status (put_sem s x k) = status k"
  by (simp_all add: put_sem_def)

text \<open>
  A condition whose semaphore nobody sleeps on and that is not the lock's; a monitor, that is a lock,
  held or not, with its conditions.
\<close>

definition signalled :: "nat set \<Rightarrow> nat \<Rightarrow> nat \<Rightarrow> ('h, 'm) skernel_scheme \<Rightarrow> bool" where
  "signalled own ls c k \<longleftrightarrow> (\<exists>C x. conditions k c = Some C \<and> cSema C \<in> own \<and> cSema C \<noteq> ls \<and>
     semaphores k (cSema C) = Some x \<and> squeue x = [] \<and> 0 \<le> sem_value x)"

definition monitor :: "nat set \<Rightarrow> bool \<Rightarrow> nat \<Rightarrow> nat set \<Rightarrow> ('h, 'm) skernel_scheme \<Rightarrow> bool" where
  "monitor own held l cs k \<longleftrightarrow> (\<exists>L. locks k l = Some L \<and> Sema L \<in> own \<and>
     semaphores k (Sema L) = Some (Semaphore_new (if held then 0 else 1)) \<and> (\<forall>c \<in> cs. signalled own (Sema L) c k))"

subsection \<open>The contract\<close>

text \<open>
  \<open>calm\<close> is the state between two operations, \<open>own\<close> are the semaphores of the client, and \<open>cmore\<close> is
  what else belongs to it.
\<close>

locale calm_kernel =
  fixes cpu :: "('h, ('h, 'm) skernel_scheme) cpu"
    and calm :: "('h, 'm) skernel_scheme \<Rightarrow> bool"
    and own :: "nat set"
    and cmore :: "('h, 'm) skernel_scheme \<Rightarrow> 'c"
  assumes calm_ready: "calm k \<Longrightarrow> readyList k = []"
    and calm_quick: "calm k \<Longrightarrow> \<not> inHandler k"
    and calm_on: "calm k \<Longrightarrow> level k = IntOff \<Longrightarrow> \<exists>k'. SetLevel cpu IntOn k = Some (Inr (IntOff, k')) \<and> calm k' \<and>
      level k' = IntOn \<and> (\<forall>s \<in> own. semaphores k' s = semaphores k s) \<and> locks k' = locks k \<and>
      conditions k' = conditions k \<and> currentThread k' = currentThread k \<and> cmore k' = cmore k"
    and calm_level: "calm (k\<lparr>level := l\<rparr>) = calm k" and cmore_level: "cmore (k\<lparr>level := l\<rparr>) = cmore k"
    and calm_sem: "s \<in> own \<Longrightarrow> calm (put_sem s x k) = calm k" and cmore_sem: "cmore (put_sem s x k) = cmore k"
    and calm_locks: "calm (k\<lparr>locks := L\<rparr>) = calm k" and cmore_locks: "cmore (k\<lparr>locks := L\<rparr>) = cmore k"
    and calm_conditions: "calm (k\<lparr>conditions := C\<rparr>) = calm k" and cmore_conditions: "cmore (k\<lparr>conditions := C\<rparr>) = cmore k"
begin

lemmas calm_simps [simp] =
  calm_level cmore_level calm_sem cmore_sem calm_locks cmore_locks calm_conditions cmore_conditions

text \<open>Two states that the client cannot tell apart.\<close>

definition same :: "('h, 'm) skernel_scheme \<Rightarrow> ('h, 'm) skernel_scheme \<Rightarrow> bool" where
  "same k k' \<longleftrightarrow> calm k' \<and> level k' = IntOn \<and> (\<forall>s \<in> own. semaphores k' s = semaphores k s) \<and>
     locks k' = locks k \<and> conditions k' = conditions k \<and> currentThread k' = currentThread k \<and> cmore k' = cmore k"

lemma same_trans: "same k1 k2 \<Longrightarrow> same k2 k3 \<Longrightarrow> same k1 k3"
  by (simp add: same_def)

lemma calm_SetLevel:
  "calm k \<Longrightarrow> level k = IntOff \<Longrightarrow> \<exists>k'. SetLevel cpu IntOn k = Some (Inr (IntOff, k')) \<and> same k k'"
  using calm_on [of k] by (auto simp: same_def)

lemma calm_P:
  assumes k: "calm k" "level k = IntOn" and s: "s \<in> own" "semaphores k s = Some x" "sem_value x \<noteq> 0"
  shows "\<exists>k'. Semaphore_P cpu s k = Some (Inr k') \<and> same (put_sem s (x\<lparr>sem_value := sem_value x - 1\<rparr>) k) k'"
proof -
  let ?k = "put_sem s (x\<lparr>sem_value := sem_value x - 1\<rparr>) (k\<lparr>level := IntOff\<rparr>)"
  have "calm ?k" "level ?k = IntOff" using k s by simp_all
  from calm_SetLevel [OF this] obtain k' where k': "SetLevel cpu IntOn ?k = Some (Inr (IntOff, k'))" "same ?k k'"
    by blast
  have "P_loop cpu s (k\<lparr>level := IntOff\<rparr>) = Some (Inr (k\<lparr>level := IntOff\<rparr>))"
    using s by (subst P_loop.simps) simp
  then have "Semaphore_P cpu s k = Some (Inr k')"
    using k s k'(1) by (simp add: Semaphore_P_def SetLevel_IntOff P_take_def)
  moreover have "cmore ?k = cmore (put_sem s (x\<lparr>sem_value := sem_value x - 1\<rparr>) k)" by simp
  ultimately show ?thesis using k'(2) by (intro exI [of _ k']) (simp add: same_def put_sem_def)
qed

lemma calm_V:
  assumes k: "calm k" "level k = IntOn" and s: "s \<in> own" "semaphores k s = Some x" "squeue x = []"
  shows "\<exists>k'. Semaphore_V cpu s k = Some (Inr k') \<and> same (put_sem s (x\<lparr>sem_value := sem_value x + 1\<rparr>) k) k'"
proof -
  let ?k = "put_sem s (x\<lparr>sem_value := sem_value x + 1\<rparr>) (k\<lparr>level := IntOff\<rparr>)"
  have "calm ?k" "level ?k = IntOff" using k s by simp_all
  from calm_SetLevel [OF this] obtain k' where k': "SetLevel cpu IntOn ?k = Some (Inr (IntOff, k'))" "same ?k k'"
    by blast
  have "Semaphore_V cpu s k = Some (Inr k')"
    using k s k'(1) V_give_empty [of "k\<lparr>level := IntOff\<rparr>" s x] by (simp add: Semaphore_V_def SetLevel_IntOff)
  moreover have "cmore ?k = cmore (put_sem s (x\<lparr>sem_value := sem_value x + 1\<rparr>) k)" by simp
  ultimately show ?thesis using k'(2) by (intro exI [of _ k']) (simp add: same_def put_sem_def)
qed

lemma calm_Yield:
  assumes k: "calm k" "level k = IntOn"
  shows "\<exists>k'. Thread_Yield cpu (currentThread k) k = Some (Inr k') \<and> same k k'"
proof -
  obtain k' where k': "SetLevel cpu IntOn (k\<lparr>level := IntOff\<rparr>) = Some (Inr (IntOff, k'))" "same (k\<lparr>level := IntOff\<rparr>) k'"
    using calm_SetLevel [of "k\<lparr>level := IntOff\<rparr>"] k by auto
  have "Thread_Yield cpu (currentThread k) k = Some (Inr k')"
    using k' calm_ready [OF k(1)] k(2) SetLevel_IntOff [of cpu k, unfolded SetLevel_def]
    by (simp add: Thread_Yield_def Yield_with_def FindNextToRun_def SetLevel_def)
  then show ?thesis using k'(2) by (intro exI [of _ k']) (simp add: same_def)
qed

subsection \<open>Locks and conditions\<close>

definition lock_free :: "nat \<Rightarrow> ('h, 'm) skernel_scheme \<Rightarrow> bool" where
  "lock_free l k \<longleftrightarrow> (\<exists>L. locks k l = Some L \<and> Sema L \<in> own \<and> semaphores k (Sema L) = Some (Semaphore_new 1))"

lemma Semaphore_new_simps [simp]:
  "sem_value (Semaphore_new n) = n" "squeue (Semaphore_new n) = []"
  "(Semaphore_new n)\<lparr>sem_value := i\<rparr> = Semaphore_new i"
  by (simp_all add: Semaphore_new_def)

lemma calm_Acquire:
  assumes k: "calm k" "level k = IntOn" and l: "locks k l = Some L" "Sema L \<in> own"
    "semaphores k (Sema L) = Some (Semaphore_new 1)"
  shows "\<exists>k'. Lock_Acquire cpu l k = Some (Inr k') \<and>
    same ((put_sem (Sema L) (Semaphore_new 0) k)\<lparr>locks := (locks k)(l \<mapsto> L\<lparr>threadHoldLock := Some (currentThread k)\<rparr>)\<rparr>) k'"
proof -
  obtain k1 where k1: "Semaphore_P cpu (Sema L) k = Some (Inr k1)"
    "same (put_sem (Sema L) (Semaphore_new 0) k) k1"
    using calm_P [OF k l(2,3)] by auto
  have "locks k1 = locks k" "currentThread k1 = currentThread k" using k1(2) by (simp_all add: same_def put_sem_def)
  then have "Lock_Acquire cpu l k =
      Some (Inr (k1\<lparr>locks := (locks k)(l \<mapsto> L\<lparr>threadHoldLock := Some (currentThread k)\<rparr>)\<rparr>))"
    using k1(1) l(1) by (simp add: Lock_Acquire_def lock_at_def set_holder_def)
  then show ?thesis using k1(2)
    by (intro exI [of _ "k1\<lparr>locks := (locks k)(l \<mapsto> L\<lparr>threadHoldLock := Some (currentThread k)\<rparr>)\<rparr>"])
      (simp add: same_def)
qed

lemma calm_Release:
  assumes k: "calm k" "level k = IntOn" and l: "locks k l = Some L" "Sema L \<in> own"
    "semaphores k (Sema L) = Some (Semaphore_new 0)"
  shows "\<exists>k'. Lock_Release cpu l k = Some (Inr k') \<and>
    same ((put_sem (Sema L) (Semaphore_new 1) k)\<lparr>locks := (locks k)(l \<mapsto> L\<lparr>threadHoldLock := None\<rparr>)\<rparr>) k'"
proof -
  define k0 where "k0 = k\<lparr>locks := (locks k)(l \<mapsto> L\<lparr>threadHoldLock := None\<rparr>)\<rparr>"
  have "calm k0" "level k0 = IntOn" "semaphores k0 (Sema L) = Some (Semaphore_new 0)"
    using k l by (simp_all add: k0_def)
  from calm_V [OF this(1,2) l(2) this(3)] obtain k1 where k1: "Semaphore_V cpu (Sema L) k0 = Some (Inr k1)"
    "same (put_sem (Sema L) (Semaphore_new 1) k0) k1"
    by auto
  have "Lock_Release cpu l k = Some (Inr k1)"
    using k1(1) l(1) by (simp add: Lock_Release_def lock_at_def set_holder_def k0_def)
  moreover have "put_sem (Sema L) (Semaphore_new 1) k0 =
      (put_sem (Sema L) (Semaphore_new 1) k)\<lparr>locks := (locks k)(l \<mapsto> L\<lparr>threadHoldLock := None\<rparr>)\<rparr>"
    by (simp add: k0_def put_sem_def)
  ultimately show ?thesis using k1(2) by auto
qed

lemma calm_Signal:
  assumes k: "calm k" "level k = IntOn" and c: "conditions k c = Some C" "cSema C \<in> own"
    "semaphores k (cSema C) = Some x" "squeue x = []"
  shows "\<exists>k'. Condition_Signal cpu c k = Some (Inr k') \<and>
    same ((put_sem (cSema C) (x\<lparr>sem_value := sem_value x + 1\<rparr>) k)\<lparr>conditions :=
      (conditions k)(c \<mapsto> C\<lparr>blockNum := blockNum C - 1\<rparr>)\<rparr>) k'"
proof -
  obtain k1 where k1: "Semaphore_V cpu (cSema C) k = Some (Inr k1)"
    "same (put_sem (cSema C) (x\<lparr>sem_value := sem_value x + 1\<rparr>) k) k1"
    using calm_V [OF k c(2,3,4)] by auto
  have "conditions k1 = conditions k" using k1(2) by (simp add: same_def put_sem_def)
  then have "Condition_Signal cpu c k =
      Some (Inr (k1\<lparr>conditions := (conditions k)(c \<mapsto> C\<lparr>blockNum := blockNum C - 1\<rparr>)\<rparr>))"
    using k1(1) c(1) by (simp add: Condition_Signal_def cond_at_def add_blocked_def)
  then show ?thesis using k1(2)
    by (intro exI [of _ "k1\<lparr>conditions := (conditions k)(c \<mapsto> C\<lparr>blockNum := blockNum C - 1\<rparr>)\<rparr>"])
      (simp add: same_def)
qed

subsection \<open>Monitors\<close>

text \<open>
  With what a monitor needs in place, entering it, signalling in it and leaving it returns, and only
  the monitor's own lock, conditions and semaphores move.
\<close>

lemma monitor_enter:
  assumes k: "calm k" "level k = IntOn" and m: "monitor own False l cs k"
  shows "\<exists>k'. Lock_Acquire cpu l k = Some (Inr k') \<and> calm k' \<and> level k' = IntOn \<and> monitor own True l cs k' \<and>
    cmore k' = cmore k \<and> currentThread k' = currentThread k"
proof -
  obtain L where L: "locks k l = Some L" "Sema L \<in> own" "semaphores k (Sema L) = Some (Semaphore_new 1)"
    and c: "\<forall>c \<in> cs. signalled own (Sema L) c k"
    using m by (auto simp: monitor_def)
  obtain k' where k': "Lock_Acquire cpu l k = Some (Inr k')"
    "same ((put_sem (Sema L) (Semaphore_new 0) k)\<lparr>locks := (locks k)(l \<mapsto> L\<lparr>threadHoldLock := Some (currentThread k)\<rparr>)\<rparr>) k'"
    using calm_Acquire [OF k L] by blast
  note same = k'(2) [unfolded same_def]
  have "signalled own (Sema L) c k'" if "c \<in> cs" for c
    using bspec [OF c that] same by (auto simp: signalled_def put_sem_def)
  then have "monitor own True l cs k'" using same L by (auto simp: monitor_def)
  then show ?thesis using k'(1) same by auto
qed

lemma monitor_leave:
  assumes k: "calm k" "level k = IntOn" and m: "monitor own True l cs k"
  shows "\<exists>k'. Lock_Release cpu l k = Some (Inr k') \<and> calm k' \<and> level k' = IntOn \<and> monitor own False l cs k' \<and>
    cmore k' = cmore k \<and> currentThread k' = currentThread k"
proof -
  obtain L where L: "locks k l = Some L" "Sema L \<in> own" "semaphores k (Sema L) = Some (Semaphore_new 0)"
    and c: "\<forall>c \<in> cs. signalled own (Sema L) c k"
    using m by (auto simp: monitor_def)
  obtain k' where k': "Lock_Release cpu l k = Some (Inr k')"
    "same ((put_sem (Sema L) (Semaphore_new 1) k)\<lparr>locks := (locks k)(l \<mapsto> L\<lparr>threadHoldLock := None\<rparr>)\<rparr>) k'"
    using calm_Release [OF k L] by blast
  note same = k'(2) [unfolded same_def]
  have "signalled own (Sema L) c k'" if "c \<in> cs" for c
    using bspec [OF c that] same by (auto simp: signalled_def put_sem_def)
  then have "monitor own False l cs k'" using same L by (auto simp: monitor_def)
  then show ?thesis using k'(1) same by auto
qed

lemma monitor_signal:
  assumes k: "calm k" "level k = IntOn" and m: "monitor own True l cs k" and c: "c \<in> cs"
  shows "\<exists>k'. Condition_Signal cpu c k = Some (Inr k') \<and> calm k' \<and> level k' = IntOn \<and> monitor own True l cs k' \<and>
    cmore k' = cmore k \<and> currentThread k' = currentThread k"
proof -
  obtain L where L: "locks k l = Some L" "Sema L \<in> own" "semaphores k (Sema L) = Some (Semaphore_new 0)"
    and sig: "\<forall>c \<in> cs. signalled own (Sema L) c k"
    using m by (auto simp: monitor_def)
  obtain C x where C: "conditions k c = Some C" "cSema C \<in> own" "cSema C \<noteq> Sema L" "semaphores k (cSema C) = Some x" "squeue x = []"
      "0 \<le> sem_value x"
    using bspec [OF sig c] by (auto simp: signalled_def)
  obtain k' where k': "Condition_Signal cpu c k = Some (Inr k')"
    "same ((put_sem (cSema C) (x\<lparr>sem_value := sem_value x + 1\<rparr>) k)\<lparr>conditions :=
      (conditions k)(c \<mapsto> C\<lparr>blockNum := blockNum C - 1\<rparr>)\<rparr>) k'"
    using calm_Signal [OF k C(1,2,4,5)] by blast
  note same = k'(2) [unfolded same_def]
  have "signalled own (Sema L) a k'" if "a \<in> cs" for a
    using bspec [OF sig that] same C by (cases "a = c") (auto simp: signalled_def put_sem_def)
  then have "monitor own True l cs k'" using same L C(3) by (auto simp: monitor_def put_sem_def)
  then show ?thesis using k'(1) same by auto
qed

end

subsection \<open>A kernel with nothing pending\<close>

definition still :: "('h, 'm) skernel_scheme \<Rightarrow> bool" where
  "still k \<longleftrightarrow> pending k = [] \<and> \<not> yieldOnReturn k \<and> \<not> inHandler k \<and> readyList k = [] \<and>
     threads k (currentThread k) \<noteq> None"

lemma tick_more [simp]: "skernel.more (tick k) = skernel.more k"
  by (simp add: tick_def advance_clock_def Let_def)

interpretation still: calm_kernel cpu still own skernel.more
  by unfold_locales (auto simp: still_def SetLevel_on_none, simp_all add: put_sem_def)

subsection \<open>Waiting for what nobody will do\<close>

text \<open>The only thread, going to sleep with nothing pending, halts the machine.\<close>

lemma Idle_nothing: "level k = IntOff \<Longrightarrow> pending k = [] \<Longrightarrow> Idle cpu k = Some (Inl Halted)"
  by (simp add: Idle_def CheckIfDue_def Let_def Halt_def)

lemma still_P_halts:
  assumes k: "still k" "level k = IntOn" and x: "semaphores k s = Some x" "sem_value x = 0"
  shows "Semaphore_P cpu s k = Some (Inl Halted)"
proof -
  let ?k = "k\<lparr>level := IntOff\<rparr>"
  obtain th where th: "threads k (currentThread k) = Some th" using k(1) by (auto simp: still_def)
  let ?k1 = "put_thread (currentThread k) (th\<lparr>tstatus := BLOCKED\<rparr>) (put_sem s (x\<lparr>squeue := squeue x @ [currentThread k]\<rparr>) ?k)"
  have "Idle cpu ?k1 = Some (Inl Halted)"
    by (rule Idle_nothing) (use k in \<open>simp_all add: still_def put_thread_def\<close>)
  then have "wait_for_ready cpu ?k1 = Some (Inl Halted)"
    using k(1) by (subst wait_for_ready.simps) (simp add: FindNextToRun_def still_def put_thread_def)
  then have "P_loop cpu s ?k = Some (Inl Halted)"
    using x th by (subst P_loop.simps) (simp add: P_append_def Sleep_def)
  then show ?thesis using k(2) by (simp add: Semaphore_P_def SetLevel_IntOff)
qed

text \<open>
  A loop that calls \<open>Wait\<close> until the client's state changes: it uses up the signals that the
  condition remembers, and then halts the machine.
\<close>

lemma still_wait_halts:
  assumes W: "\<And>k. skernel.more k = M \<Longrightarrow> W k = orbind (Condition_Wait cpu c l k) W"
    and k: "still k" "level k = IntOn" and m: "monitor UNIV True l cs k" and c: "c \<in> cs" and M: "skernel.more k = M"
  shows "W k = Some (Inl Halted)"
proof -
  obtain L where L: "locks k l = Some L" "semaphores k (Sema L) = Some (Semaphore_new 0)"
    and sig: "\<forall>c \<in> cs. signalled UNIV (Sema L) c k"
    using m by (auto simp: monitor_def)
  obtain C x where C: "conditions k c = Some C" "cSema C \<noteq> Sema L" "semaphores k (cSema C) = Some x"
    "0 \<le> sem_value x"
    using bspec [OF sig c] by (auto simp: signalled_def)
  show ?thesis using k L C M
  proof (induction "nat (sem_value x)" arbitrary: k C L x)
    case (0 x k C L)
    obtain k1 where k1: "Lock_Release cpu l k = Some (Inr k1)"
      "still.same UNIV ((put_sem (Sema L) (Semaphore_new 1) k)\<lparr>locks := (locks k)(l \<mapsto> L\<lparr>threadHoldLock := None\<rparr>)\<rparr>) k1"
      using still.calm_Release [OF 0(2,3,4) UNIV_I 0(5)] by blast
    note same = k1(2) [unfolded still.same_def]
    have "Semaphore_P cpu (cSema C) k1 = Some (Inl Halted)"
      by (rule still_P_halts [of _ _ x]) (use same 0 in simp_all)
    moreover have "conditions k1 c = Some C" using same 0 by simp
    ultimately have "Condition_Wait cpu c l k = Some (Inl Halted)"
      using k1(1) by (simp add: Condition_Wait_def cond_at_def)
    then show ?case using W [OF 0(10)] by simp
  next
    case (Suc n x k C L)
    obtain k1 where k1: "Lock_Release cpu l k = Some (Inr k1)"
      "still.same UNIV ((put_sem (Sema L) (Semaphore_new 1) k)\<lparr>locks := (locks k)(l \<mapsto> L\<lparr>threadHoldLock := None\<rparr>)\<rparr>) k1"
      using still.calm_Release [OF Suc(3,4,5) UNIV_I Suc(6)] by blast
    note s1 = k1(2) [unfolded still.same_def]
    have "semaphores k1 (cSema C) = Some x" "sem_value x \<noteq> 0" using s1 Suc by simp_all
    then obtain k2 where k2: "Semaphore_P cpu (cSema C) k1 = Some (Inr k2)"
      "still.same UNIV (put_sem (cSema C) (x\<lparr>sem_value := sem_value x - 1\<rparr>) k1) k2"
      using still.calm_P [of k1 "cSema C" UNIV x cpu] s1 by auto
    note s2 = k2(2) [unfolded still.same_def]
    define C' where "C' = C\<lparr>blockNum := blockNum C + 1\<rparr>"
    define k3 where "k3 = k2\<lparr>conditions := (conditions k2)(c \<mapsto> C')\<rparr>"
    have c2: "conditions k2 c = Some C" "conditions k1 c = Some C" using s2 s1 Suc by simp_all
    have L3: "locks k3 l = Some (L\<lparr>threadHoldLock := None\<rparr>)"
      "semaphores k3 (Sema (L\<lparr>threadHoldLock := None\<rparr>)) = Some (Semaphore_new 1)" "still k3" "level k3 = IntOn"
      using s1 s2 Suc(8) by (simp_all add: k3_def)
    obtain k4 where k4: "Lock_Acquire cpu l k3 = Some (Inr k4)"
      "still.same UNIV ((put_sem (Sema L) (Semaphore_new 0) k3)\<lparr>locks :=
        (locks k3)(l \<mapsto> L\<lparr>threadHoldLock := Some (currentThread k3)\<rparr>)\<rparr>) k4"
      using still.calm_Acquire [OF L3(3,4,1) UNIV_I L3(2), of cpu] by auto
    note s4 = k4(2) [unfolded still.same_def]
    have "Condition_Wait cpu c l k = Some (Inr k4)"
      using k1(1) k2(1) k4(1) c2 by (simp add: Condition_Wait_def cond_at_def add_blocked_def k3_def C'_def)
    moreover have "W k4 = Some (Inl Halted)"
    proof (rule Suc(1) [of "x\<lparr>sem_value := sem_value x - 1\<rparr>" k4 "L\<lparr>threadHoldLock := Some (currentThread k3)\<rparr>" C'])
      show "skernel.more k4 = M" using s4 s2 s1 Suc(11) by (simp add: k3_def)
    qed (use s4 s2 s1 Suc in \<open>simp_all add: k3_def C'_def\<close>)
    ultimately show ?case using W [OF Suc(11)] by simp
  qed
qed

end
