(* ===== verification/Synch_List.thy ===== *)
theory Synch_List
  imports Calm_Kernel
begin

section \<open>Synchronized lists, threads/synchlist.cc\<close>

text \<open>
  A list behind a lock, with a condition for threads that wait until it has an element. The list is
  the abstract list of \<open>Linked_List\<close>; the objects are shared by pointer and live in a map.
\<close>

subsection \<open>The data\<close>

record 'i SynchList =
  sl_list :: "'i list"
  sl_lock :: nat
  sl_empty :: nat

record ('h, 'i) lkernel = "'h skernel" +
  synchLists :: "nat \<Rightarrow> 'i SynchList option"

definition sl_at :: "nat \<Rightarrow> ('h, 'i, 'm) lkernel_scheme \<Rightarrow> 'i SynchList result" where
  "sl_at a k = (case synchLists k a of None \<Rightarrow> Inl DanglingPointer | Some s \<Rightarrow> Inr s)"

definition put_list :: "nat \<Rightarrow> 'i list \<Rightarrow> ('h, 'i, 'm) lkernel_scheme \<Rightarrow> ('h, 'i, 'm) lkernel_scheme result" where
  "put_list a xs k = rbind (sl_at a k) (\<lambda>s. Inr (k\<lparr>synchLists := (synchLists k)(a \<mapsto> s\<lparr>sl_list := xs\<rparr>)\<rparr>))"

text \<open>
  The addresses of the list, its lock and condition and their semaphores are what \<open>new\<close> returns;
  \<open>junk\<close> is what the new lock's holder holds.
\<close>

definition SynchList_new ::
  "nat \<Rightarrow> nat \<Rightarrow> nat \<Rightarrow> tid option \<Rightarrow> nat \<Rightarrow> nat \<Rightarrow> ('h, 'i, 'm) lkernel_scheme \<Rightarrow> ('h, 'i, 'm) lkernel_scheme" where
  "SynchList_new a l lsem junk c csem k =
     (Condition_new c csem (Lock_new l lsem junk k))\<lparr>synchLists :=
       (synchLists k)(a \<mapsto> \<lparr>sl_list = [], sl_lock = l, sl_empty = c\<rparr>)\<rparr>"

definition SynchList_delete :: "nat \<Rightarrow> ('h, 'i, 'm) lkernel_scheme \<Rightarrow> ('h, 'i, 'm) lkernel_scheme result" where
  "SynchList_delete a k =
     rbind (sl_at a k) (\<lambda>s.
     rbind (Lock_delete (sl_lock s) k) (\<lambda>k.
     rbind (Condition_delete (sl_empty s) k) (\<lambda>k.
     Inr (k\<lparr>synchLists := (synchLists k)(a := None)\<rparr>))))"

subsection \<open>The operations\<close>

text \<open>\<open>Append\<close> yields between the insertion and the signal, with the lock held.\<close>

definition SynchList_Append ::
  "('h, ('h, 'i, 'm) lkernel_scheme) cpu \<Rightarrow> nat \<Rightarrow> 'i \<Rightarrow> ('h, 'i, 'm) lkernel_scheme \<Rightarrow>
    ('h, 'i, 'm) lkernel_scheme result option" where
  "SynchList_Append cpu a item k =
     orbind (Some (sl_at a k)) (\<lambda>s.
     orbind (Lock_Acquire cpu (sl_lock s) k) (\<lambda>k.
     orbind (Some (rbind (sl_at a k) (\<lambda>s. put_list a (sl_list s @ [item]) k))) (\<lambda>k.
     orbind (Thread_Yield cpu (currentThread k) k) (\<lambda>k.
     orbind (Condition_Signal cpu (sl_empty s) k) (\<lambda>k.
     Lock_Release cpu (sl_lock s) k)))))"

text \<open>\<open>while (list->IsEmpty()) listEmpty->Wait(lock);\<close>\<close>

partial_function (option) wait_nonempty ::
  "('h, ('h, 'i, 'm) lkernel_scheme) cpu \<Rightarrow> nat \<Rightarrow> ('h, 'i, 'm) lkernel_scheme \<Rightarrow>
    ('h, 'i, 'm) lkernel_scheme result option" where
  "wait_nonempty cpu a k =
     orbind (Some (sl_at a k)) (\<lambda>s.
     if sl_list s = [] then orbind (Condition_Wait cpu (sl_empty s) (sl_lock s) k) (wait_nonempty cpu a)
     else Some (Inr k))"

text \<open>\<open>List::Remove\<close> of an empty list returns \<open>NULL\<close>, which the \<open>ASSERT\<close> catches.\<close>

definition SynchList_Remove ::
  "('h, ('h, 'i, 'm) lkernel_scheme) cpu \<Rightarrow> nat \<Rightarrow> ('h, 'i, 'm) lkernel_scheme \<Rightarrow>
    ('i \<times> ('h, 'i, 'm) lkernel_scheme) result option" where
  "SynchList_Remove cpu a k =
     orbind (Some (sl_at a k)) (\<lambda>s.
     orbind (Lock_Acquire cpu (sl_lock s) k) (\<lambda>k.
     orbind (wait_nonempty cpu a k) (\<lambda>k.
     orbind (Some (rbind (sl_at a k) (\<lambda>s.
       case sl_list s of
         [] \<Rightarrow> Inl AssertFailed
       | item # rest \<Rightarrow> rbind (put_list a rest k) (\<lambda>k. Inr (item, k))))) (\<lambda>(item, k).
     orbind (Lock_Release cpu (sl_lock s) k) (\<lambda>k.
     Some (Inr (item, k)))))))"

fun map_items :: "('i \<Rightarrow> 's \<Rightarrow> 's result option) \<Rightarrow> 'i list \<Rightarrow> 's \<Rightarrow> 's result option" where
  "map_items func [] k = Some (Inr k)"
| "map_items func (x # xs) k = orbind (func x k) (map_items func xs)"

definition SynchList_Mapcar ::
  "('h, ('h, 'i, 'm) lkernel_scheme) cpu \<Rightarrow> nat \<Rightarrow>
    ('i \<Rightarrow> ('h, 'i, 'm) lkernel_scheme \<Rightarrow> ('h, 'i, 'm) lkernel_scheme result option) \<Rightarrow>
    ('h, 'i, 'm) lkernel_scheme \<Rightarrow> ('h, 'i, 'm) lkernel_scheme result option" where
  "SynchList_Mapcar cpu a func k =
     orbind (Some (sl_at a k)) (\<lambda>s.
     orbind (Lock_Acquire cpu (sl_lock s) k) (\<lambda>k.
     orbind (Some (sl_at a k)) (\<lambda>s'.
     orbind (map_items func (sl_list s') k) (\<lambda>k.
     Lock_Release cpu (sl_lock s) k))))"

subsection \<open>One thread\<close>

text \<open>A list that nobody uses at the moment, with what is in it.\<close>

definition sl_ready :: "nat set \<Rightarrow> nat \<Rightarrow> 'i list \<Rightarrow> ('h, 'i, 'm) lkernel_scheme \<Rightarrow> bool" where
  "sl_ready own a xs k \<longleftrightarrow> (\<exists>l c L C x.
     synchLists k a = Some \<lparr>sl_list = xs, sl_lock = l, sl_empty = c\<rparr> \<and>
     locks k l = Some L \<and> Sema L \<in> own \<and> semaphores k (Sema L) = Some (Semaphore_new 1) \<and>
     conditions k c = Some C \<and> cSema C \<in> own \<and> cSema C \<noteq> Sema L \<and>
     semaphores k (cSema C) = Some x \<and> squeue x = [])"

text \<open>The semaphores, the lock and the condition that belong to a list; lists that share none.\<close>

definition sl_parts :: "nat \<Rightarrow> ('h, 'i, 'm) lkernel_scheme \<Rightarrow> (nat \<times> nat \<times> nat \<times> nat) option" where
  "sl_parts a k = (case synchLists k a of None \<Rightarrow> None | Some s \<Rightarrow>
     (case (locks k (sl_lock s), conditions k (sl_empty s)) of
        (Some L, Some C) \<Rightarrow> Some (sl_lock s, sl_empty s, Sema L, cSema C) | _ \<Rightarrow> None))"

definition others_kept ::
  "nat set \<Rightarrow> nat \<Rightarrow> ('h, 'i, 'm) lkernel_scheme \<Rightarrow> ('h, 'i, 'm) lkernel_scheme \<Rightarrow> bool" where
  "others_kept own a k k' \<longleftrightarrow> (\<exists>l c sl sc. sl_parts a k = Some (l, c, sl, sc) \<and> sl_parts a k' = Some (l, c, sl, sc) \<and>
     (\<forall>s \<in> own. s \<noteq> sl \<and> s \<noteq> sc \<longrightarrow> semaphores k' s = semaphores k s) \<and>
     (\<forall>x. x \<noteq> l \<longrightarrow> locks k' x = locks k x) \<and> (\<forall>x. x \<noteq> c \<longrightarrow> conditions k' x = conditions k x) \<and>
     (\<forall>x. x \<noteq> a \<longrightarrow> synchLists k' x = synchLists k x) \<and> currentThread k' = currentThread k)"

lemma put_sem_lists [simp]:
  "synchLists (put_sem s x k) = synchLists k" "lkernel.more (put_sem s x k) = lkernel.more k"
  by (simp_all add: put_sem_def)

lemma lists_locks: "synchLists (k\<lparr>locks := L\<rparr>) = synchLists k"
  by simp

locale calm_lists = calm_kernel cpu calm own "\<lambda>k. (synchLists k, crest k)"
  for cpu :: "('h, ('h, 'i, 'm) lkernel_scheme) cpu" and calm own
    and crest :: "('h, 'i, 'm) lkernel_scheme \<Rightarrow> 'c" +
  assumes calm_lists: "calm (k\<lparr>synchLists := S\<rparr>) = calm k" and crest_lists: "crest (k\<lparr>synchLists := S\<rparr>) = crest k"
begin

lemma list_simps [simp]:
  "calm (k\<lparr>synchLists := S\<rparr>) = calm k" "crest (k\<lparr>synchLists := S\<rparr>) = crest k" "crest (put_sem s x k) = crest k"
  "crest (k\<lparr>locks := L\<rparr>) = crest k" "crest (k\<lparr>conditions := C\<rparr>) = crest k"
  supply calm_simps [simp del]
  using cmore_sem [where s = s and x = x and k = k] cmore_locks [where k = k and L = L]
    cmore_conditions [where k = k and C = C] by (simp_all add: calm_lists crest_lists)

lemma sameD:
  assumes "same k k'"
  shows "calm k'" "level k' = IntOn" "\<And>s. s \<in> own \<Longrightarrow> semaphores k' s = semaphores k s" "locks k' = locks k"
    "conditions k' = conditions k" "currentThread k' = currentThread k" "synchLists k' = synchLists k" "crest k' = crest k"
  using assms by (simp_all add: same_def)

lemma SynchList_Append_calm:
  assumes k: "calm k" "level k = IntOn" and ready: "sl_ready own a xs k"
  shows "\<exists>k'. SynchList_Append cpu a x k = Some (Inr k') \<and> calm k' \<and> level k' = IntOn \<and>
    sl_ready own a (xs @ [x]) k' \<and> others_kept own a k k' \<and> crest k' = crest k"
proof -
  obtain l c L C y where
    s: "synchLists k a = Some \<lparr>sl_list = xs, sl_lock = l, sl_empty = c\<rparr>"
    and L: "locks k l = Some L" "Sema L \<in> own" "semaphores k (Sema L) = Some (Semaphore_new 1)"
    and C: "conditions k c = Some C" "cSema C \<in> own" "cSema C \<noteq> Sema L" "semaphores k (cSema C) = Some y" "squeue y = []"
    using ready unfolding sl_ready_def by (elim exE conjE) (rule that)
  let ?L = "L\<lparr>threadHoldLock := Some (currentThread k)\<rparr>"
  obtain k1 where k1: "Lock_Acquire cpu l k = Some (Inr k1)"
    "same ((put_sem (Sema L) (Semaphore_new 0) k)\<lparr>locks := (locks k)(l \<mapsto> ?L)\<rparr>) k1"
    using calm_Acquire [OF k L] by blast
  note m1 = sameD [OF k1(2)]
  define k2 where "k2 = k1\<lparr>synchLists := (synchLists k)(a \<mapsto> \<lparr>sl_list = xs @ [x], sl_lock = l, sl_empty = c\<rparr>)\<rparr>"
  have lists1: "synchLists k1 = synchLists k" using m1(7) by (simp only: lists_locks put_sem_lists)
  have k2: "rbind (sl_at a k1) (\<lambda>s. put_list a (sl_list s @ [x]) k1) = Inr k2"
    using s lists1 by (simp add: sl_at_def put_list_def k2_def)
  have "calm k2" "level k2 = IntOn" using m1 by (simp_all add: k2_def)
  then obtain k3 where k3: "Thread_Yield cpu (currentThread k2) k2 = Some (Inr k3)" "same k2 k3"
    using calm_Yield by blast
  note m3 = sameD [OF k3(2)]
  have C3: "conditions k3 c = Some C" "semaphores k3 (cSema C) = Some y"
    using m3 m1 C by (simp_all add: k2_def)
  obtain k4 where k4: "Condition_Signal cpu c k3 = Some (Inr k4)"
    "same ((put_sem (cSema C) (y\<lparr>sem_value := sem_value y + 1\<rparr>) k3)\<lparr>conditions :=
      (conditions k3)(c \<mapsto> C\<lparr>blockNum := blockNum C - 1\<rparr>)\<rparr>) k4"
    using calm_Signal [of k3 c C y] m3 C C3 by blast
  note m4 = sameD [OF k4(2)]
  have L4: "locks k4 l = Some ?L" "Sema ?L \<in> own" "semaphores k4 (Sema ?L) = Some (Semaphore_new 0)"
    using m4 m3 m1 L C by (simp_all add: k2_def)
  obtain k5 where k5: "Lock_Release cpu l k4 = Some (Inr k5)"
    "same ((put_sem (Sema ?L) (Semaphore_new 1) k4)\<lparr>locks := (locks k4)(l \<mapsto> ?L\<lparr>threadHoldLock := None\<rparr>)\<rparr>) k5"
    using calm_Release [OF _ _ L4] m4 by blast
  note m5 = sameD [OF k5(2)]
  have run: "SynchList_Append cpu a x k = Some (Inr k5)"
    using k1(1) k2 k3(1) k4(1) k5(1) s by (simp add: SynchList_Append_def sl_at_def)
  have cur: "currentThread k5 = currentThread k" using m1 m3 m4 m5 by (simp add: k2_def)
  have lk: "locks k5 = (locks k)(l \<mapsto> ?L\<lparr>threadHoldLock := None\<rparr>)"
    using m1 m3 m4 m5 by (simp add: k2_def)
  have cd: "conditions k5 = (conditions k)(c \<mapsto> C\<lparr>blockNum := blockNum C - 1\<rparr>)"
    using m1 m3 m4 m5 by (simp add: k2_def)
  have ls: "synchLists k5 = (synchLists k)(a \<mapsto> \<lparr>sl_list = xs @ [x], sl_lock = l, sl_empty = c\<rparr>)" "crest k5 = crest k"
    using m1 m3 m4 m5 by (simp_all add: k2_def)
  have sm: "semaphores k5 (Sema L) = Some (Semaphore_new 1)"
    "semaphores k5 (cSema C) = Some (y\<lparr>sem_value := sem_value y + 1\<rparr>)"
    "\<forall>s \<in> own. s \<noteq> Sema L \<and> s \<noteq> cSema C \<longrightarrow> semaphores k5 s = semaphores k s"
    using m1 m3 m4 m5 L C by (simp_all add: k2_def)
  have "sl_ready own a (xs @ [x]) k5"
    unfolding sl_ready_def using lk cd ls sm L C
    by (intro exI [of _ l] exI [of _ c] exI [of _ "?L\<lparr>threadHoldLock := None\<rparr>"]
        exI [of _ "C\<lparr>blockNum := blockNum C - 1\<rparr>"] exI [of _ "y\<lparr>sem_value := sem_value y + 1\<rparr>"]) simp
  moreover have "others_kept own a k k5"
    unfolding others_kept_def using lk cd ls sm L C s cur
    by (intro exI [of _ l] exI [of _ c] exI [of _ "Sema L"] exI [of _ "cSema C"]) (simp add: sl_parts_def)
  ultimately show ?thesis using run m5 ls by blast
qed

lemma SynchList_Remove_calm:
  assumes k: "calm k" "level k = IntOn" and ready: "sl_ready own a (x # xs) k"
  shows "\<exists>k'. SynchList_Remove cpu a k = Some (Inr (x, k')) \<and> calm k' \<and> level k' = IntOn \<and>
    sl_ready own a xs k' \<and> others_kept own a k k' \<and> crest k' = crest k"
proof -
  obtain l c L C y where
    s: "synchLists k a = Some \<lparr>sl_list = x # xs, sl_lock = l, sl_empty = c\<rparr>"
    and L: "locks k l = Some L" "Sema L \<in> own" "semaphores k (Sema L) = Some (Semaphore_new 1)"
    and C: "conditions k c = Some C" "cSema C \<in> own" "cSema C \<noteq> Sema L" "semaphores k (cSema C) = Some y" "squeue y = []"
    using ready unfolding sl_ready_def by (elim exE conjE) (rule that)
  let ?L = "L\<lparr>threadHoldLock := Some (currentThread k)\<rparr>"
  obtain k1 where k1: "Lock_Acquire cpu l k = Some (Inr k1)"
    "same ((put_sem (Sema L) (Semaphore_new 0) k)\<lparr>locks := (locks k)(l \<mapsto> ?L)\<rparr>) k1"
    using calm_Acquire [OF k L] by blast
  note m1 = sameD [OF k1(2)]
  have lists1: "synchLists k1 = synchLists k" using m1(7) by (simp only: lists_locks put_sem_lists)
  have w: "wait_nonempty cpu a k1 = Some (Inr k1)"
    using s lists1 by (subst wait_nonempty.simps) (simp add: sl_at_def)
  define k2 where "k2 = k1\<lparr>synchLists := (synchLists k)(a \<mapsto> \<lparr>sl_list = xs, sl_lock = l, sl_empty = c\<rparr>)\<rparr>"
  have L2: "locks k2 l = Some ?L" "Sema ?L \<in> own" "semaphores k2 (Sema ?L) = Some (Semaphore_new 0)"
    using m1 L by (simp_all add: k2_def)
  have "calm k2" "level k2 = IntOn" using m1 by (simp_all add: k2_def)
  from calm_Release [OF this L2] obtain k3 where k3: "Lock_Release cpu l k2 = Some (Inr k3)"
    "same ((put_sem (Sema ?L) (Semaphore_new 1) k2)\<lparr>locks := (locks k2)(l \<mapsto> ?L\<lparr>threadHoldLock := None\<rparr>)\<rparr>) k3"
    by blast
  note m3 = sameD [OF k3(2)]
  have run: "SynchList_Remove cpu a k = Some (Inr (x, k3))"
    using k1(1) w k3(1) s lists1 by (simp add: SynchList_Remove_def sl_at_def put_list_def k2_def)
  have cur: "currentThread k3 = currentThread k" using m1 m3 by (simp add: k2_def)
  have lk: "locks k3 = (locks k)(l \<mapsto> ?L\<lparr>threadHoldLock := None\<rparr>)" using m1 m3 by (simp add: k2_def)
  have cd: "conditions k3 = conditions k" using m1 m3 by (simp add: k2_def)
  have ls: "synchLists k3 = (synchLists k)(a \<mapsto> \<lparr>sl_list = xs, sl_lock = l, sl_empty = c\<rparr>)" "crest k3 = crest k"
    using m1 m3 by (simp_all add: k2_def)
  have sm: "semaphores k3 (Sema L) = Some (Semaphore_new 1)" "semaphores k3 (cSema C) = Some y"
    "\<forall>s \<in> own. s \<noteq> Sema L \<and> s \<noteq> cSema C \<longrightarrow> semaphores k3 s = semaphores k s"
    using m1 m3 L C by (simp_all add: k2_def)
  have "sl_ready own a xs k3"
    unfolding sl_ready_def using lk cd ls sm L C
    by (intro exI [of _ l] exI [of _ c] exI [of _ "?L\<lparr>threadHoldLock := None\<rparr>"] exI [of _ C] exI [of _ y]) simp
  moreover have "others_kept own a k k3"
    unfolding others_kept_def using lk cd ls sm L C s cur
    by (intro exI [of _ l] exI [of _ c] exI [of _ "Sema L"] exI [of _ "cSema C"]) (simp add: sl_parts_def)
  ultimately show ?thesis using run m3 ls by blast
qed

end

subsection \<open>Several lists\<close>

text \<open>Lists that share no lock, condition or semaphore, with what is in each.\<close>

definition parts_apart :: "nat \<Rightarrow> nat \<Rightarrow> ('h, 'i, 'm) lkernel_scheme \<Rightarrow> bool" where
  "parts_apart a b k \<longleftrightarrow> (case (sl_parts a k, sl_parts b k) of
     (Some (l, c, s, sc), Some (l', c', s', sc')) \<Rightarrow> l \<noteq> l' \<and> c \<noteq> c' \<and> s \<noteq> s' \<and> s \<noteq> sc' \<and> sc \<noteq> s' \<and> sc \<noteq> sc'
   | _ \<Rightarrow> False)"

definition lists_hold :: "nat set \<Rightarrow> nat list \<Rightarrow> 'i list list \<Rightarrow> ('h, 'i, 'm) lkernel_scheme \<Rightarrow> bool" where
  "lists_hold own bs xss k \<longleftrightarrow> length xss = length bs \<and> (\<forall>i < length bs. sl_ready own (bs ! i) (xss ! i) k) \<and>
     (\<forall>i < length bs. \<forall>j < length bs. i \<noteq> j \<longrightarrow> bs ! i \<noteq> bs ! j \<and> parts_apart (bs ! i) (bs ! j) k)"

lemma sl_ready_others:
  assumes "others_kept own a k k'" and "parts_apart a b k" and "a \<noteq> b" and "sl_ready own b xs k"
  shows "sl_ready own b xs k'" and "sl_parts b k' = sl_parts b k"
proof -
  obtain l c L C x where b: "synchLists k b = Some \<lparr>sl_list = xs, sl_lock = l, sl_empty = c\<rparr>"
    "locks k l = Some L" "Sema L \<in> own" "semaphores k (Sema L) = Some (Semaphore_new 1)"
    "conditions k c = Some C" "cSema C \<in> own" "cSema C \<noteq> Sema L" "semaphores k (cSema C) = Some x" "squeue x = []"
    using assms(4) unfolding sl_ready_def by (elim exE conjE) (rule that)
  then have p: "sl_parts b k = Some (l, c, Sema L, cSema C)" by (simp add: sl_parts_def)
  have k': "synchLists k' b = synchLists k b" "locks k' l = locks k l" "conditions k' c = conditions k c"
    "semaphores k' (Sema L) = semaphores k (Sema L)" "semaphores k' (cSema C) = semaphores k (cSema C)"
    using assms(1-3) b p by (auto simp: others_kept_def parts_apart_def)
  show "sl_ready own b xs k'" unfolding sl_ready_def using b k'
    by (intro exI [of _ l] exI [of _ c] exI [of _ L] exI [of _ C] exI [of _ x]) simp
  show "sl_parts b k' = sl_parts b k" using b k' p by (simp add: sl_parts_def)
qed

lemma lists_hold_update:
  assumes h: "lists_hold own bs xss k" and i: "i < length bs" and r: "sl_ready own (bs ! i) ys k'"
    and o: "others_kept own (bs ! i) k k'"
  shows "lists_hold own bs (xss[i := ys]) k'"
proof -
  have len: "length xss = length bs" using h by (simp add: lists_hold_def)
  have other: "sl_ready own (bs ! j) (xss ! j) k'" "sl_parts (bs ! j) k' = sl_parts (bs ! j) k"
    if "j < length bs" "j \<noteq> i" for j
    using sl_ready_others [OF o, of "bs ! j" "xss ! j"] h that i by (auto simp: lists_hold_def)
  have "sl_parts (bs ! i) k' = sl_parts (bs ! i) k" using o by (auto simp: others_kept_def)
  then have p: "sl_parts (bs ! j) k' = sl_parts (bs ! j) k" if "j < length bs" for j
    using other that by (cases "j = i") simp_all
  have "parts_apart (bs ! a) (bs ! b) k'" if "a < length bs" "b < length bs" "a \<noteq> b" for a b
    using h that p [OF that(1)] p [OF that(2)] by (simp add: lists_hold_def parts_apart_def)
  moreover have "sl_ready own (bs ! j) (xss[i := ys] ! j) k'" if "j < length bs" for j
    using r other(1) that len by (cases "j = i") simp_all
  ultimately show ?thesis using h len by (simp add: lists_hold_def)
qed

lemma lists_hold_frame:
  assumes "synchLists k' = synchLists k" and "locks k' = locks k" and "conditions k' = conditions k"
    and "\<And>s. s \<in> own \<Longrightarrow> semaphores k' s = semaphores k s"
  shows "lists_hold own bs xss k \<Longrightarrow> lists_hold own bs xss k'"
proof -
  have "sl_parts a k' = sl_parts a k" for a unfolding sl_parts_def assms(1-3) ..
  moreover have "sl_ready own a xs k'" if "sl_ready own a xs k" for a xs
    using that assms unfolding sl_ready_def by metis
  ultimately show "lists_hold own bs xss k \<Longrightarrow> lists_hold own bs xss k'"
    by (simp add: lists_hold_def parts_apart_def)
qed

text \<open>A lock that belongs to none of the lists may change hands.\<close>

definition lock_apart :: "nat \<Rightarrow> nat \<Rightarrow> nat list \<Rightarrow> ('h, 'i, 'm) lkernel_scheme \<Rightarrow> bool" where
  "lock_apart l s bs k \<longleftrightarrow> (\<forall>b \<in> set bs. case sl_parts b k of
     Some (l', c', s', sc') \<Rightarrow> l \<noteq> l' \<and> s \<noteq> s' \<and> s \<noteq> sc' | None \<Rightarrow> False)"

lemma lists_hold_lock:
  assumes "synchLists k' = synchLists k" and "\<And>x. x \<noteq> l \<Longrightarrow> locks k' x = locks k x" and "conditions k' = conditions k"
    and sem: "\<And>s. s \<in> own \<Longrightarrow> semaphores k' s = semaphores k s" and apart: "lock_apart l s bs k" and h: "lists_hold own bs xss k"
  shows "lists_hold own bs xss k'" and "lock_apart l s bs k'"
proof -
  have p: "sl_parts b k' = sl_parts b k" if "b \<in> set bs" for b
    using bspec [OF apart [unfolded lock_apart_def] that] assms(1-3)
    by (auto simp: sl_parts_def split: option.splits)
  then show "lock_apart l s bs k'" using apart by (simp add: lock_apart_def)
  have "sl_ready own b xs k'" if b: "b \<in> set bs" and r: "sl_ready own b xs k" for b xs
  proof -
    obtain m c L C x where m: "synchLists k b = Some \<lparr>sl_list = xs, sl_lock = m, sl_empty = c\<rparr>"
      "locks k m = Some L" "Sema L \<in> own" "semaphores k (Sema L) = Some (Semaphore_new 1)"
      "conditions k c = Some C" "cSema C \<in> own" "cSema C \<noteq> Sema L" "semaphores k (cSema C) = Some x" "squeue x = []"
      using r unfolding sl_ready_def by (elim exE conjE) (rule that)
    then have "l \<noteq> m" using bspec [OF apart [unfolded lock_apart_def] b] by (simp add: sl_parts_def)
    then show ?thesis unfolding sl_ready_def using m assms(1-3) sem
      by (intro exI [of _ m] exI [of _ c] exI [of _ L] exI [of _ C] exI [of _ x]) simp
  qed
  then show "lists_hold own bs xss k'" using h p by (simp add: lists_hold_def parts_apart_def)
qed

lemma lock_apart_others:
  assumes o: "others_kept own (bs ! i) k k'" and i: "i < length bs" and h: "lists_hold own bs xss k" and a: "lock_apart l s bs k"
  shows "lock_apart l s bs k'" and "locks k' l = locks k l" and "s \<in> own \<Longrightarrow> semaphores k' s = semaphores k s"
proof -
  have "sl_parts (bs ! j) k' = sl_parts (bs ! j) k" if "j < length bs" for j
  proof (cases "j = i")
    case True
    then show ?thesis using o by (auto simp: others_kept_def)
  next
    case False
    then show ?thesis using sl_ready_others(2) [OF o, of "bs ! j" "xss ! j"] h that i by (simp add: lists_hold_def)
  qed
  then show "lock_apart l s bs k'" using a by (simp add: lock_apart_def all_set_conv_all_nth)
  have "bs ! i \<in> set bs" using i by simp
  from bspec [OF a [unfolded lock_apart_def] this] o
  show "locks k' l = locks k l" and "s \<in> own \<Longrightarrow> semaphores k' s = semaphores k s"
    by (auto simp: others_kept_def)
qed

lemma tick_list:
  fixes k :: "('h, 'i, 'm) lkernel_scheme"
  shows "synchLists (tick k) = synchLists k" "lkernel.more (tick k) = lkernel.more k"
  by (simp_all add: tick_def advance_clock_def Let_def)

interpretation still_lists: calm_lists cpu still own "\<lambda>k. lkernel.more k"
  by unfold_locales (auto simp: still_def SetLevel_on_none tick_list)

subsection \<open>Properties\<close>

text \<open>The kernel of the examples in \<open>Synchronization\<close>, interrupts on, with a list of two numbers at address 7.\<close>

definition list_kernel :: "(unit, nat, unit) lkernel_scheme" where
  "list_kernel = (SynchList_new 7 5 8 None 6 9 (skernel.extend synch_kernel (lkernel.fields Map.empty)))\<lparr>level := IntOn\<rparr>"

lemma list_kernel_simps:
  "still list_kernel" "level list_kernel = IntOn" "sl_ready UNIV 7 [] list_kernel"
  by (auto simp: list_kernel_def still_def SynchList_new_def Condition_new_def Lock_new_def synch_kernel_def pkernel.defs
      ukernel.defs kernel.defs skernel.defs lkernel.defs Initialize_def sl_ready_def put_sem_def Semaphore_new_def)

text \<open>
  A synchronized list is a queue for the only thread of a kernel with nothing pending: \<open>Append\<close>
  returns, with the item behind the others, although it yields inside; \<open>Remove\<close> of a list that has
  elements returns the first one; the lock is free again, and no other list, lock or condition has
  changed.
\<close>

theorem SynchList_queue:
  assumes "still k" and "level k = IntOn" and "sl_ready UNIV a xs k"
  shows "(\<exists>k'. SynchList_Append cpu a x k = Some (Inr k') \<and> sl_ready UNIV a (xs @ [x]) k' \<and> still k' \<and>
      level k' = IntOn \<and> others_kept UNIV a k k') \<and>
    (\<forall>y ys. xs = y # ys \<longrightarrow> (\<exists>k'. SynchList_Remove cpu a k = Some (Inr (y, k')) \<and> sl_ready UNIV a ys k' \<and>
      still k' \<and> level k' = IntOn \<and> others_kept UNIV a k k'))"
  using still_lists.SynchList_Append_calm [OF assms, of cpu x]
    still_lists.SynchList_Remove_calm [of k UNIV a _ _ cpu] assms by blast

theorem SynchList_queue_witness:
  "\<exists>k1 k2. SynchList_Append base_cpu 7 3 list_kernel = Some (Inr k1) \<and>
    SynchList_Append base_cpu 7 4 k1 = Some (Inr k2) \<and> (\<exists>k3. SynchList_Remove base_cpu 7 k2 = Some (Inr (3, k3)))"
proof -
  obtain k1 where k1: "SynchList_Append base_cpu 7 3 list_kernel = Some (Inr k1)" "sl_ready UNIV 7 [3] k1"
    "still k1" "level k1 = IntOn"
    using SynchList_queue [OF list_kernel_simps, of base_cpu 3] by auto
  obtain k2 where k2: "SynchList_Append base_cpu 7 4 k1 = Some (Inr k2)" "sl_ready UNIV 7 [3, 4] k2"
    "still k2" "level k2 = IntOn"
    using SynchList_queue [OF k1(3,4,2), of base_cpu 4] by auto
  from SynchList_queue [OF k2(3,4,2), of base_cpu 0] k1(1) k2(1) show ?thesis by blast
qed

end
