(* ===== verification/Network.thy ===== *)
theory Network
  imports Polled_Device Synch_List Complex_Main
begin

section \<open>The network device, machine/network.cc\<close>

text \<open>
  Packets of a fixed size go to the sockets of other machines; a poll every \<open>NetworkTime\<close> ticks
  moves a packet that has arrived into a buffer of one. What \<open>PollSocket\<close> and \<open>ReadFromSocket\<close>
  answer, poll by poll, is a parameter, and so is what \<open>Random()\<close> returns; what was sent is the list
  of the addresses and packets given to \<open>SendToSocket\<close>.
\<close>

subsection \<open>Packets\<close>

record PacketHeader =
  ph_to :: "32 word"
  ph_from :: "32 word"
  ph_length :: "32 word"

definition MaxWireSize :: int where "MaxWireSize = 64"
definition sizeof_PacketHeader :: int where "sizeof_PacketHeader = 12"
definition MaxPacketSize :: int where "MaxPacketSize = MaxWireSize - sizeof_PacketHeader"

text \<open>A header in memory, and the header that the cast of a buffer reads.\<close>

definition header_bytes :: "PacketHeader \<Rightarrow> byte list" where
  "header_bytes h = word_bytes (ph_to h) @ word_bytes (ph_from h) @ word_bytes (ph_length h)"

definition read_header :: "byte list \<Rightarrow> PacketHeader result" where
  "read_header bs =
     rbind (subarray bs 0 sizeof_PacketHeader) (\<lambda>h.
     Inr \<lparr>ph_to = bytes_word (take 4 h), ph_from = bytes_word (take 4 (drop 4 h)),
       ph_length = bytes_word (drop 8 h)\<rparr>)"

subsection \<open>The device\<close>

record 'h Network =
  net_ident :: "32 word"
  net_open :: bool
  chanceToWork :: real
  net_in :: "nat \<Rightarrow> byte list option"
  net_polls :: nat
  net_wire :: "(32 word \<times> byte list) list"
  net_writeHandler :: 'h
  net_readHandler :: 'h
  net_arg :: int
  sendBusy :: bool
  inHdr :: PacketHeader
  inbox :: "byte list"

record ('h, 'i) nkernel = "('h, 'i) lkernel" +
  network :: "'h Network"

text \<open>
  \<open>junk\<close> is what the uninitialised header fields and the buffer hold. \<open>net_open\<close> says whether the
  socket is open and has its name; no operation looks at it. Exact real arithmetic stands for
  \<open>double\<close>.
\<close>

definition Network_new ::
  "'h \<Rightarrow> PacketHeader \<Rightarrow> byte list \<Rightarrow> (nat \<Rightarrow> byte list option) \<Rightarrow> 32 word \<Rightarrow> real \<Rightarrow> 'h \<Rightarrow> 'h \<Rightarrow> int \<Rightarrow>
    ('h, 'i, 'm) nkernel_scheme \<Rightarrow> ('h, 'i, 'm) nkernel_scheme result" where
  "Network_new poll junkHdr junk incoming addr reliability readAvail writeDone callArg k =
     (let chance = (if reliability < 0 then 0 else if reliability > 1 then 1 else reliability) in
      Schedule poll 0 NetworkTime NetworkRecvInt
        (k\<lparr>network := \<lparr>net_ident = addr, net_open = True, chanceToWork = chance, net_in = incoming, net_polls = 0, net_wire = [],
           net_writeHandler = writeDone, net_readHandler = readAvail, net_arg = callArg, sendBusy = False,
           inHdr = junkHdr\<lparr>ph_length := 0\<rparr>, inbox = junk\<rparr>\<rparr>))"

text \<open>\<open>Network::~Network\<close> closes the socket and takes its name back.\<close>

definition Network_delete :: "('h, 'i, 'm) nkernel_scheme \<Rightarrow> ('h, 'i, 'm) nkernel_scheme" where
  "Network_delete k = k\<lparr>network := (network k)\<lparr>net_open := False\<rparr>\<rparr>"

text \<open>\<open>recvfrom\<close> cuts what is longer than the buffer; a shorter packet fails the \<open>ASSERT\<close> of \<open>ReadFromSocket\<close>.\<close>

definition CheckPktAvail ::
  "'h \<Rightarrow> ('h \<Rightarrow> int \<Rightarrow> ('h, 'i, 'm) nkernel_scheme \<Rightarrow> ('h, 'i, 'm) nkernel_scheme result) \<Rightarrow>
    ('h, 'i, 'm) nkernel_scheme \<Rightarrow> ('h, 'i, 'm) nkernel_scheme result" where
  "CheckPktAvail poll call k =
     rbind (Schedule poll 0 NetworkTime NetworkRecvInt k) (\<lambda>k.
     if ph_length (inHdr (network k)) \<noteq> 0 then Inr k
     else
       let answer = net_in (network k) (net_polls (network k));
           k = k\<lparr>network := (network k)\<lparr>net_polls := net_polls (network k) + 1\<rparr>\<rparr>
       in case answer of
            None \<Rightarrow> Inr k
          | Some packet \<Rightarrow>
              rbind (ASSERT (int (length packet) \<ge> MaxWireSize)) (\<lambda>_.
              let buffer = take (nat MaxWireSize) packet in
              rbind (read_header buffer) (\<lambda>ph.
              let k = k\<lparr>network := (network k)\<lparr>inHdr := ph\<rparr>\<rparr> in
              rbind (ASSERT (ph_to ph = net_ident (network k) \<and> uint (ph_length ph) \<le> MaxPacketSize)) (\<lambda>_.
              rbind (bcopy buffer sizeof_PacketHeader (inbox (network k)) 0 (uint (ph_length ph))) (\<lambda>box.
              let k = k\<lparr>network := (network k)\<lparr>inbox := box\<rparr>\<rparr>;
                  k = k\<lparr>stats := (stats k)\<lparr>numPacketsRecvd := numPacketsRecvd (stats k) + 1\<rparr>\<rparr>
              in call (net_readHandler (network k)) (net_arg (network k)) k)))))"

definition Network_SendDone ::
  "('h \<Rightarrow> int \<Rightarrow> ('h, 'i, 'm) nkernel_scheme \<Rightarrow> ('h, 'i, 'm) nkernel_scheme result) \<Rightarrow>
    ('h, 'i, 'm) nkernel_scheme \<Rightarrow> ('h, 'i, 'm) nkernel_scheme result" where
  "Network_SendDone call k =
     (let k = k\<lparr>network := (network k)\<lparr>sendBusy := False\<rparr>\<rparr>;
          k = k\<lparr>stats := (stats k)\<lparr>numPacketsSent := numPacketsSent (stats k) + 1\<rparr>\<rparr>
      in call (net_writeHandler (network k)) (net_arg (network k)) k)"

text \<open>\<open>random\<close> is what \<open>Random()\<close> returns, and \<open>junk\<close> what the new buffer holds.\<close>

definition Network_Send ::
  "'h \<Rightarrow> int \<Rightarrow> byte list \<Rightarrow> PacketHeader \<Rightarrow> byte list \<Rightarrow> ('h, 'i, 'm) nkernel_scheme \<Rightarrow>
    ('h, 'i, 'm) nkernel_scheme result" where
  "Network_Send sendDone random junk ph data k =
     rbind (ASSERT (\<not> sendBusy (network k) \<and> ph_length ph > 0 \<and> uint (ph_length ph) \<le> MaxPacketSize \<and>
       ph_from ph = net_ident (network k))) (\<lambda>_.
     rbind (Schedule sendDone 0 NetworkTime NetworkSendInt k) (\<lambda>k.
     if real_of_int (random smod 100) \<ge> chanceToWork (network k) * 100 then Inr k
     else
       rbind (bcopy (header_bytes ph) 0 junk 0 sizeof_PacketHeader) (\<lambda>buffer.
       rbind (bcopy data 0 buffer sizeof_PacketHeader (uint (ph_length ph))) (\<lambda>buffer.
       Inr (k\<lparr>network := (network k)\<lparr>net_wire := net_wire (network k) @ [(ph_to ph, buffer)]\<rparr>\<rparr>)))))"

text \<open>The header, and what the caller's array \<open>data\<close> then holds.\<close>

definition Network_Receive ::
  "byte list \<Rightarrow> ('h, 'i, 'm) nkernel_scheme \<Rightarrow> (PacketHeader \<times> byte list \<times> ('h, 'i, 'm) nkernel_scheme) result" where
  "Network_Receive data k =
     (let ph = inHdr (network k);
          k = k\<lparr>network := (network k)\<lparr>inHdr := ph\<lparr>ph_length := 0\<rparr>\<rparr>\<rparr>
      in rbind (if ph_length ph \<noteq> 0 then bcopy (inbox (network k)) 0 data 0 (uint (ph_length ph)) else Inr data)
           (\<lambda>data. Inr (ph, data, k)))"

subsection \<open>What is sent arrives\<close>

lemmas packet_sizes = MaxWireSize_def sizeof_PacketHeader_def MaxPacketSize_def

lemma length_header_bytes [simp]: "length (header_bytes h) = 12"
  by (simp add: header_bytes_def)

lemma read_header_bytes [simp]: "read_header (header_bytes h @ xs) = Inr h"
proof -
  have "bytes_word (take 4 (word_bytes a @ ys)) = a" for a ys by simp
  then show ?thesis
    by (simp add: read_header_def subarray_def sizeof_PacketHeader_def header_bytes_def)
qed

text \<open>The packet on the wire: the header, the data, and what the buffer held before.\<close>

definition wire_packet :: "byte list \<Rightarrow> PacketHeader \<Rightarrow> byte list \<Rightarrow> byte list" where
  "wire_packet junk ph data =
     header_bytes ph @ take (unat (ph_length ph)) data @ drop (12 + unat (ph_length ph)) junk"

definition header_ok :: "PacketHeader \<Rightarrow> bool" where
  "header_ok ph \<longleftrightarrow> 0 < unat (ph_length ph) \<and> unat (ph_length ph) \<le> 52"

lemma uint_unat: "uint (w :: 32 word) = int (unat w)"
  by simp

lemma header_ok_iff: "header_ok ph \<longleftrightarrow> ph_length ph > 0 \<and> uint (ph_length ph) \<le> MaxPacketSize"
  by (auto simp: header_ok_def packet_sizes uint_unat word_less_nat_alt simp del: int_nat_eq of_nat_unat)

lemma send_buffer:
  assumes "header_ok ph" and "length junk = 64" and "unat (ph_length ph) \<le> length data"
  shows "rbind (bcopy (header_bytes ph) 0 junk 0 sizeof_PacketHeader) (\<lambda>buffer.
      bcopy data 0 buffer sizeof_PacketHeader (uint (ph_length ph))) = Inr (wire_packet junk ph data)"
    and "length (wire_packet junk ph data) = 64"
proof -
  let ?n = "unat (ph_length ph)"
  have n: "0 < ?n" "?n \<le> 52" using assms(1) by (simp_all add: header_ok_def)
  have "bcopy (header_bytes ph) 0 junk 0 sizeof_PacketHeader = Inr (header_bytes ph @ drop 12 junk)"
    using assms(2) by (simp add: bcopy_def sizeof_PacketHeader_def)
  moreover have "bcopy data 0 (header_bytes ph @ drop 12 junk) sizeof_PacketHeader (uint (ph_length ph)) =
      Inr (wire_packet junk ph data)"
    using n assms(2,3)
    by (simp add: bcopy_def sizeof_PacketHeader_def uint_unat wire_packet_def nat_add_distrib add.commute
        del: int_nat_eq of_nat_unat)
  ultimately show "rbind (bcopy (header_bytes ph) 0 junk 0 sizeof_PacketHeader) (\<lambda>buffer.
      bcopy data 0 buffer sizeof_PacketHeader (uint (ph_length ph))) = Inr (wire_packet junk ph data)" by simp
  show "length (wire_packet junk ph data) = 64" using n assms(2,3) by (simp add: wire_packet_def)
qed

lemma Network_Send_spec:
  assumes "header_ok ph" and "ph_from ph = net_ident (network k)" and "\<not> sendBusy (network k)"
    and "length junk = 64" and "unat (ph_length ph) \<le> length data"
  shows "Network_Send sendDone random junk ph data k =
    (let k = k\<lparr>pending := insert_all [dev_entry sendDone NetworkSendInt (now k + NetworkTime)] (pending k)\<rparr> in
     Inr (if real_of_int (random smod 100) \<ge> chanceToWork (network k) * 100 then k
       else k\<lparr>network := (network k)\<lparr>net_wire := net_wire (network k) @ [(ph_to ph, wire_packet junk ph data)]\<rparr>\<rparr>))"
proof -
  have "Schedule sendDone 0 NetworkTime NetworkSendInt k =
      Inr (k\<lparr>pending := insert_all [dev_entry sendDone NetworkSendInt (now k + NetworkTime)] (pending k)\<rparr>)"
    by (simp add: Schedule_spec NetworkTime_def insert_all_def dev_entry_def)
  moreover note send_buffer(1) [OF assms(1,4,5)]
  ultimately show ?thesis using assms(1-3)
    by (auto simp: Network_Send_def header_ok_iff Let_def rbind_eq_Inr_iff)
qed

lemma Network_Send_fails:
  "\<not> header_ok ph \<or> ph_from ph \<noteq> net_ident (network k) \<Longrightarrow>
    Network_Send sendDone random junk ph data k = Inl AssertFailed"
  by (auto simp: Network_Send_def header_ok_iff ASSERT_def)

text \<open>What the poll makes of a packet, and what \<open>Receive\<close> returns of it then.\<close>

definition packet_header :: "byte list \<Rightarrow> PacketHeader" where
  "packet_header p = \<lparr>ph_to = bytes_word (take 4 p), ph_from = bytes_word (take 4 (drop 4 p)),
     ph_length = bytes_word (take 4 (drop 8 p))\<rparr>"

definition packet_ok :: "32 word \<Rightarrow> byte list \<Rightarrow> bool" where
  "packet_ok ident p \<longleftrightarrow> length p = 64 \<and> header_ok (packet_header p) \<and> ph_to (packet_header p) = ident"

definition packet_data :: "byte list \<Rightarrow> byte list" where
  "packet_data p = take (unat (ph_length (packet_header p))) (drop 12 p)"

lemma read_header_packet: "length p = 64 \<Longrightarrow> read_header p = Inr (packet_header p)"
  by (simp add: read_header_def subarray_def sizeof_PacketHeader_def packet_header_def drop_take)

lemma wire_packet_parts:
  assumes "header_ok ph" and "length junk = 64" and "unat (ph_length ph) \<le> length data"
  shows "packet_header (wire_packet junk ph data) = ph" and "packet_data (wire_packet junk ph data) = take (unat (ph_length ph)) data"
    and "packet_ok (ph_to ph) (wire_packet junk ph data)"
proof -
  note len = send_buffer(2) [OF assms]
  have "read_header (wire_packet junk ph data) = Inr ph" by (simp add: wire_packet_def)
  then show h: "packet_header (wire_packet junk ph data) = ph" using read_header_packet [OF len] by simp
  show "packet_data (wire_packet junk ph data) = take (unat (ph_length ph)) data"
    unfolding packet_data_def h using assms(3) by (simp add: wire_packet_def)
  show "packet_ok (ph_to ph) (wire_packet junk ph data)" using h len assms(1) by (simp add: packet_ok_def)
qed

lemma length_packet_data: "packet_ok i p \<Longrightarrow> length (packet_data p) = unat (ph_length (packet_header p))"
  by (auto simp: packet_ok_def packet_data_def header_ok_def)

text \<open>The buffered packet, in the state of the device.\<close>

definition buffered :: "'h Network \<Rightarrow> byte list \<Rightarrow> bool" where
  "buffered N p \<longleftrightarrow> inHdr N = packet_header p \<and> length (inbox N) = 52 \<and>
     take (length (packet_data p)) (inbox N) = packet_data p"

lemma CheckPktAvail_spec:
  fixes k :: "('h, 'i, 'm) nkernel_scheme" and poll :: 'h
  defines "k1 \<equiv> k\<lparr>pending := insert_all [dev_entry poll NetworkRecvInt (now k + NetworkTime)] (pending k)\<rparr>"
  assumes box: "length (inbox (network k)) = 52"
    and ok: "\<And>p. net_in (network k) (net_polls (network k)) = Some p \<Longrightarrow> packet_ok (net_ident (network k)) p"
  shows "CheckPktAvail poll call k =
    (if ph_length (inHdr (network k)) \<noteq> 0 then Inr k1
     else case net_in (network k) (net_polls (network k)) of
       None \<Rightarrow> Inr (k1\<lparr>network := (network k)\<lparr>net_polls := net_polls (network k) + 1\<rparr>\<rparr>)
     | Some p \<Rightarrow> call (net_readHandler (network k)) (net_arg (network k))
         (k1\<lparr>network := (network k)\<lparr>net_polls := net_polls (network k) + 1, inHdr := packet_header p,
            inbox := packet_data p @ drop (length (packet_data p)) (inbox (network k))\<rparr>,
          stats := (stats k)\<lparr>numPacketsRecvd := numPacketsRecvd (stats k) + 1\<rparr>\<rparr>))"
proof -
  have s: "Schedule poll 0 NetworkTime NetworkRecvInt k = Inr k1"
    by (simp add: Schedule_spec NetworkTime_def insert_all_def dev_entry_def k1_def)
  show ?thesis
  proof (cases "net_in (network k) (net_polls (network k))")
    case None
    then show ?thesis using s by (simp add: CheckPktAvail_def k1_def)
  next
    case (Some p)
    let ?n = "unat (ph_length (packet_header p))"
    have p: "packet_ok (net_ident (network k)) p" by (rule ok [OF Some])
    then have len: "length p = 64" "0 < ?n" "?n \<le> 52" "ph_to (packet_header p) = net_ident (network k)"
      by (simp_all add: packet_ok_def header_ok_def)
    have "bcopy p sizeof_PacketHeader (inbox (network k)) 0 (uint (ph_length (packet_header p))) =
        Inr (packet_data p @ drop (length (packet_data p)) (inbox (network k)))"
      using len box length_packet_data [OF p]
      by (simp add: bcopy_def uint_unat sizeof_PacketHeader_def packet_data_def del: int_nat_eq of_nat_unat)
    moreover have "uint (ph_length (packet_header p)) \<le> MaxPacketSize"
      using p by (simp add: packet_ok_def header_ok_iff)
    ultimately show ?thesis using s Some len read_header_packet [OF len(1)]
      by (simp add: CheckPktAvail_def k1_def packet_sizes)
  qed
qed

lemma buffered_new:
  assumes "packet_ok i p" and "length (inbox N) = 52"
  shows "buffered (N\<lparr>net_polls := n, inHdr := packet_header p,
      inbox := packet_data p @ drop (length (packet_data p)) (inbox N)\<rparr>) p"
  using assms length_packet_data [OF assms(1)]
  by (auto simp: buffered_def packet_ok_def header_ok_def)

lemma Network_Receive_spec:
  assumes "buffered (network k) p" and "packet_ok i p" and "length data = 52"
  shows "Network_Receive data k = Inr (packet_header p, packet_data p @ drop (length (packet_data p)) data,
    k\<lparr>network := (network k)\<lparr>inHdr := (packet_header p)\<lparr>ph_length := 0\<rparr>\<rparr>\<rparr>)"
proof -
  let ?n = "unat (ph_length (packet_header p))"
  have n: "0 < ?n" "?n \<le> 52" "length (packet_data p) = ?n"
    using assms(2) length_packet_data [OF assms(2)] by (simp_all add: packet_ok_def header_ok_def)
  have "bcopy (inbox (network k)) 0 data 0 (uint (ph_length (packet_header p))) =
      Inr (packet_data p @ drop (length (packet_data p)) data)"
    using n assms(1,3) by (simp add: bcopy_def uint_unat buffered_def del: int_nat_eq of_nat_unat)
  moreover have "ph_length (packet_header p) \<noteq> 0" using n(1) by auto
  ultimately show ?thesis using assms(1) by (simp add: Network_Receive_def buffered_def Let_def)
qed

end
