(* ===== verification/Post_Office.thy ===== *)
theory Post_Office
  imports Network
begin

section \<open>The post office, network/post.cc\<close>

text \<open>
  Messages between mailboxes of different machines, on top of the network: \<open>Send\<close> puts a header in
  front of the message and waits until the device can take the next packet; a thread, the postal
  worker, waits for packets and puts them into the mailbox that they name. A mailbox is a
  synchronized list of \<open>Mail\<close>. The kernel has one post office, so the pointers to it that threads and
  interrupts carry are not kept.
\<close>

subsection \<open>Mail\<close>

record MailHeader =
  mh_to :: "32 word"
  mh_from :: "32 word"
  mh_length :: "32 word"

definition sizeof_MailHeader :: int where "sizeof_MailHeader = 12"
definition MaxMailSize :: int where "MaxMailSize = MaxPacketSize - sizeof_MailHeader"

definition mail_header_bytes :: "MailHeader \<Rightarrow> byte list" where
  "mail_header_bytes h = word_bytes (mh_to h) @ word_bytes (mh_from h) @ word_bytes (mh_length h)"

definition read_mail_header :: "byte list \<Rightarrow> MailHeader result" where
  "read_mail_header bs =
     rbind (subarray bs 0 sizeof_MailHeader) (\<lambda>h.
     Inr \<lparr>mh_to = bytes_word (take 4 h), mh_from = bytes_word (take 4 (drop 4 h)),
       mh_length = bytes_word (drop 8 h)\<rparr>)"

record Mail =
  pktHdr :: PacketHeader
  mailHdr :: MailHeader
  mail_data :: "byte list"

text \<open>\<open>junk\<close> is what the array of the new object holds; \<open>msgData\<close> what the pointer points to.\<close>

definition Mail_new :: "byte list \<Rightarrow> PacketHeader \<Rightarrow> MailHeader \<Rightarrow> byte list \<Rightarrow> Mail result" where
  "Mail_new junk pktH mailH msgData =
     rbind (ASSERT (uint (mh_length mailH) \<le> MaxMailSize)) (\<lambda>_.
     rbind (bcopy msgData 0 junk 0 (uint (mh_length mailH))) (\<lambda>d.
     Inr \<lparr>pktHdr = pktH, mailHdr = mailH, mail_data = d\<rparr>))"

subsection \<open>Mailboxes\<close>

text \<open>A mailbox is the address of its list.\<close>

definition MailBox_Put ::
  "('h, ('h, Mail, 'm) lkernel_scheme) cpu \<Rightarrow> byte list \<Rightarrow> nat \<Rightarrow> PacketHeader \<Rightarrow> MailHeader \<Rightarrow> byte list \<Rightarrow>
    ('h, Mail, 'm) lkernel_scheme \<Rightarrow> ('h, Mail, 'm) lkernel_scheme result option" where
  "MailBox_Put cpu junk box pktH mailH data k =
     orbind (Some (Mail_new junk pktH mailH data)) (\<lambda>mail. SynchList_Append cpu box mail k)"

text \<open>\<open>data\<close> is the array of the caller.\<close>

definition MailBox_Get ::
  "('h, ('h, Mail, 'm) lkernel_scheme) cpu \<Rightarrow> nat \<Rightarrow> byte list \<Rightarrow> ('h, Mail, 'm) lkernel_scheme \<Rightarrow>
    (PacketHeader \<times> MailHeader \<times> byte list \<times> ('h, Mail, 'm) lkernel_scheme) result option" where
  "MailBox_Get cpu box data k =
     orbind (SynchList_Remove cpu box k) (\<lambda>(mail, k).
     orbind (Some (bcopy (mail_data mail) 0 data 0 (uint (mh_length (mailHdr mail))))) (\<lambda>data.
     Some (Inr (pktHdr mail, mailHdr mail, data, k))))"

subsection \<open>The post office\<close>

record PostOffice =
  messageAvailable :: nat
  messageSent :: nat
  sendLock :: nat
  netAddr :: "32 word"
  numBoxes :: int
  boxes :: "nat list"

record 'h okernel = "('h, Mail) nkernel" +
  postOffice :: PostOffice

datatype net_handler = NetworkReadPoll | NetworkSendDone | NetReadAvail | NetWriteDone | PostalHelper

text \<open>The addresses that \<open>new\<close> returns for a mailbox: the list, its lock and condition and their semaphores.\<close>

type_synonym box_addresses = "nat \<times> nat \<times> nat \<times> nat \<times> nat"

definition MailBox_new ::
  "tid option \<Rightarrow> box_addresses \<Rightarrow> ('h, Mail, 'm) lkernel_scheme \<Rightarrow> ('h, Mail, 'm) lkernel_scheme" where
  "MailBox_new junk = (\<lambda>(a, l, lsem, c, csem). SynchList_new a l lsem junk c csem)"

definition PostOffice_new ::
  "(net_handler, (net_handler, 'm) okernel_scheme) cpu \<Rightarrow> nat \<Rightarrow> nat \<Rightarrow> nat \<times> nat \<Rightarrow> tid option \<Rightarrow>
    (nat \<Rightarrow> box_addresses) \<Rightarrow> tid \<Rightarrow> PacketHeader \<Rightarrow> byte list \<Rightarrow> (nat \<Rightarrow> byte list option) \<Rightarrow>
    32 word \<Rightarrow> real \<Rightarrow> int \<Rightarrow> (net_handler, 'm) okernel_scheme \<Rightarrow> (net_handler, 'm) okernel_scheme result option" where
  "PostOffice_new cpu av sent lk junk mem t junkHdr junkBox incoming addr reliability nBoxes k =
     (let k = put_sem av (Semaphore_new 0) k;
          k = put_sem sent (Semaphore_new 0) k;
          k = Lock_new (fst lk) (snd lk) junk k;
          k = fold (\<lambda>i. MailBox_new junk (mem i)) [0..<nat nBoxes] k;
          k = k\<lparr>postOffice := \<lparr>messageAvailable = av, messageSent = sent, sendLock = fst lk, netAddr = addr,
            numBoxes = nBoxes, boxes = map (\<lambda>i. fst (mem i)) [0..<nat nBoxes]\<rparr>\<rparr>
      in orbind (Some (Network_new NetworkReadPoll junkHdr junkBox incoming addr reliability NetReadAvail NetWriteDone 0 k)) (\<lambda>k.
         Fork cpu t PostalHelper 0 (put_thread t (Thread_new ''postal worker'') k)))"

fun delete_boxes :: "nat list \<Rightarrow> ('h, Mail, 'm) lkernel_scheme \<Rightarrow> ('h, Mail, 'm) lkernel_scheme result" where
  "delete_boxes [] k = Inr k"
| "delete_boxes (b # bs) k = rbind (SynchList_delete b k) (delete_boxes bs)"

definition PostOffice_delete :: "('h, 'm) okernel_scheme \<Rightarrow> ('h, 'm) okernel_scheme result" where
  "PostOffice_delete k =
     (let po = postOffice k;
          k = Network_delete k
      in rbind (delete_boxes (rev (boxes po)) k) (\<lambda>k.
      let k = Semaphore_delete (messageSent po) (Semaphore_delete (messageAvailable po) k)
      in Lock_delete (sendLock po) k))"

text \<open>\<open>boxes[i]\<close>\<close>

definition box_at :: "int \<Rightarrow> ('h, 'm) okernel_scheme \<Rightarrow> nat result" where
  "box_at i k =
     (let bs = boxes (postOffice k) in
      if 0 \<le> i \<and> i < int (length bs) then Inr (bs ! nat i) else Inl OutOfBounds)"

text \<open>
  One pass of the loop of the postal worker; \<open>buffer\<close> is its array, \<open>junk\<close> what the array of the new
  \<open>Mail\<close> holds.
\<close>

definition deliver_one ::
  "('h, ('h, 'm) okernel_scheme) cpu \<Rightarrow> byte list \<Rightarrow> byte list \<Rightarrow> ('h, 'm) okernel_scheme \<Rightarrow>
    (byte list \<times> ('h, 'm) okernel_scheme) result option" where
  "deliver_one cpu junk buffer k =
     orbind (Semaphore_P cpu (messageAvailable (postOffice k)) k) (\<lambda>k.
     orbind (Some (Network_Receive buffer k)) (\<lambda>(pktH, buffer, k).
     orbind (Some (read_mail_header buffer)) (\<lambda>mailH.
     orbind (Some (ASSERT (0 \<le> sint (mh_to mailH) \<and> sint (mh_to mailH) < numBoxes (postOffice k)))) (\<lambda>_.
     orbind (Some (ASSERT (uint (mh_length mailH) \<le> MaxMailSize))) (\<lambda>_.
     orbind (Some (box_at (sint (mh_to mailH)) k)) (\<lambda>box.
     orbind (MailBox_Put cpu junk box pktH mailH (drop (nat sizeof_MailHeader) buffer) k) (\<lambda>k.
     Some (Inr (buffer, k)))))))))"

partial_function (option) PostalDelivery ::
  "('h, ('h, 'm) okernel_scheme) cpu \<Rightarrow> byte list \<Rightarrow> byte list \<Rightarrow> ('h, 'm) okernel_scheme \<Rightarrow>
    unit result option" where
  "PostalDelivery cpu junk buffer k =
     orbind (deliver_one cpu junk buffer k) (\<lambda>(buffer, k). PostalDelivery cpu junk buffer k)"

text \<open>\<open>random\<close> is what \<open>Random()\<close> returns, \<open>junk\<close> and \<open>wjunk\<close> what the two new buffers hold.\<close>

definition PostOffice_Send ::
  "(net_handler, (net_handler, 'm) okernel_scheme) cpu \<Rightarrow> int \<Rightarrow> byte list \<Rightarrow> byte list \<Rightarrow> PacketHeader \<Rightarrow> MailHeader \<Rightarrow>
    byte list \<Rightarrow> (net_handler, 'm) okernel_scheme \<Rightarrow> (net_handler, 'm) okernel_scheme result option" where
  "PostOffice_Send cpu random junk wjunk pktH mailH data k =
     orbind (Some (ASSERT (uint (mh_length mailH) \<le> MaxMailSize))) (\<lambda>_.
     orbind (Some (ASSERT (0 \<le> sint (mh_to mailH) \<and> sint (mh_to mailH) < numBoxes (postOffice k)))) (\<lambda>_.
     let pktH = pktH\<lparr>ph_from := netAddr (postOffice k), ph_length := mh_length mailH + word_of_int sizeof_MailHeader\<rparr> in
     orbind (Some (bcopy (mail_header_bytes mailH) 0 junk 0 sizeof_MailHeader)) (\<lambda>buffer.
     orbind (Some (bcopy data 0 buffer sizeof_MailHeader (uint (mh_length mailH)))) (\<lambda>buffer.
     orbind (Lock_Acquire cpu (sendLock (postOffice k)) k) (\<lambda>k.
     orbind (Some (Network_Send NetworkSendDone random wjunk pktH buffer k)) (\<lambda>k.
     orbind (Semaphore_P cpu (messageSent (postOffice k)) k) (\<lambda>k.
     Lock_Release cpu (sendLock (postOffice k)) k)))))))"

definition PostOffice_Receive ::
  "('h, ('h, 'm) okernel_scheme) cpu \<Rightarrow> int \<Rightarrow> byte list \<Rightarrow> ('h, 'm) okernel_scheme \<Rightarrow>
    (PacketHeader \<times> MailHeader \<times> byte list \<times> ('h, 'm) okernel_scheme) result option" where
  "PostOffice_Receive cpu box data k =
     orbind (Some (ASSERT (box \<ge> 0 \<and> box < numBoxes (postOffice k)))) (\<lambda>_.
     orbind (Some (box_at box k)) (\<lambda>b.
     orbind (MailBox_Get cpu b data k) (\<lambda>(pktH, mailH, data, k).
     orbind (Some (ASSERT (uint (mh_length mailH) \<le> MaxMailSize))) (\<lambda>_.
     Some (Inr (pktH, mailH, data, k))))))"

text \<open>The handlers \<open>IncomingPacket\<close> and \<open>PacketSent\<close> run with interrupts off: see \<open>V_interrupts_off\<close>.\<close>

definition IncomingPacket :: "('h, 'm) okernel_scheme \<Rightarrow> ('h, 'm) okernel_scheme result" where
  "IncomingPacket k = V_give (messageAvailable (postOffice k)) k"

definition PacketSent :: "('h, 'm) okernel_scheme \<Rightarrow> ('h, 'm) okernel_scheme result" where
  "PacketSent k = V_give (messageSent (postOffice k)) k"

definition net_callee ::
  "net_handler \<Rightarrow> int \<Rightarrow> (net_handler, 'm) okernel_scheme \<Rightarrow> (net_handler, 'm) okernel_scheme result" where
  "net_callee h a k =
     (case h of NetReadAvail \<Rightarrow> IncomingPacket k | NetWriteDone \<Rightarrow> PacketSent k | _ \<Rightarrow> Inl OutOfBounds)"

definition net_call ::
  "net_handler \<Rightarrow> int \<Rightarrow> (net_handler, 'm) okernel_scheme \<Rightarrow> (net_handler, 'm) okernel_scheme result" where
  "net_call h a k =
     (case h of
        NetworkReadPoll \<Rightarrow> CheckPktAvail NetworkReadPoll net_callee k
      | NetworkSendDone \<Rightarrow> Network_SendDone net_callee k
      | _ \<Rightarrow> net_callee h a k)"

definition net_cpu ::
  "(net_handler, (net_handler, 'm) okernel_scheme) cpu \<Rightarrow> (net_handler, (net_handler, 'm) okernel_scheme) cpu" where
  "net_cpu c = user_cpu (c\<lparr>invoke := net_call\<rparr>)"

end
