(* ===== verification/Mail_Delivery.thy ===== *)
theory Mail_Delivery
  imports Post_Office
begin

section \<open>Sending and delivering mail\<close>

text \<open>
  The post office on its network device, as the only running thread uses it: \<open>Send\<close>, and one pass of
  the postal worker. The network satisfies the contract \<open>polled_device\<close>, and a kernel with it is a
  \<open>calm_kernel\<close>, so the synchronized lists of the mailboxes work on it.
\<close>

subsection \<open>What the network and the kernel around it hold\<close>

record net_core =
  n_from :: nat
  n_in :: "nat \<Rightarrow> byte list option"
  n_ident :: "32 word"
  n_chance :: real
  n_wire :: "(32 word \<times> byte list) list"
  n_office :: PostOffice

record net_content =
  n_core :: net_core
  n_locks :: "nat \<Rightarrow> Lock option"
  n_conds :: "nat \<Rightarrow> Condition option"
  n_lists :: "nat \<Rightarrow> Mail SynchList option"
  n_sems :: "nat \<Rightarrow> Semaphore option"

text \<open>Since poll \<open>n_from\<close> nothing has come, or one packet that is still in the buffer.\<close>

definition arrived :: "net_core \<Rightarrow> 'h Network \<Rightarrow> bool" where
  "arrived c N \<longleftrightarrow> n_from c \<le> net_polls N \<and>
     (if ph_length (inHdr N) = 0 then \<forall>j. n_from c \<le> j \<and> j < net_polls N \<longrightarrow> n_in c j = None
      else \<exists>i p. n_from c \<le> i \<and> net_polls N = Suc i \<and> n_in c i = Some p \<and> buffered N p \<and>
        (\<forall>j. n_from c \<le> j \<and> j < i \<longrightarrow> n_in c j = None))"

definition net_ok :: "net_core \<Rightarrow> net_handler Network \<Rightarrow> bool" where
  "net_ok c N \<longleftrightarrow> net_ident N = n_ident c \<and> chanceToWork N = n_chance c \<and> net_in N = n_in c \<and> net_wire N = n_wire c \<and>
     net_readHandler N = NetReadAvail \<and> net_writeHandler N = NetWriteDone \<and> \<not> sendBusy N \<and>
     length (inbox N) = 52 \<and> (\<forall>j p. n_in c j = Some p \<longrightarrow> packet_ok (n_ident c) p) \<and> arrived c N"

definition net_holds :: "net_content \<Rightarrow> bool \<Rightarrow> (net_handler, 'm) okernel_scheme \<Rightarrow> bool" where
  "net_holds c b k \<longleftrightarrow>
     net_ok (n_core c) (network k) \<and> postOffice k = n_office (n_core c) \<and>
     messageAvailable (n_office (n_core c)) \<noteq> messageSent (n_office (n_core c)) \<and>
     locks k = n_locks c \<and> conditions k = n_conds c \<and> synchLists k = n_lists c \<and>
     (\<forall>s. s \<noteq> messageAvailable (n_office (n_core c)) \<and> s \<noteq> messageSent (n_office (n_core c)) \<longrightarrow>
       semaphores k s = n_sems c s)"

lemma net_holds_update [simp]:
  "net_holds c b (k\<lparr>pending := q\<rparr>) = net_holds c b k" "net_holds c b (k\<lparr>stats := st\<rparr>) = net_holds c b k"
  by (simp_all add: net_holds_def)

lemma net_holds_network:
  "net_holds c b k \<Longrightarrow> net_ok (n_core c) N \<Longrightarrow> net_holds c b' (k\<lparr>network := N\<rparr>)"
  by (simp add: net_holds_def)

definition n_read :: "net_content \<Rightarrow> nat" where "n_read c = messageAvailable (n_office (n_core c))"
definition n_write :: "net_content \<Rightarrow> nat" where "n_write c = messageSent (n_office (n_core c))"

definition packet_at :: "net_content \<Rightarrow> nat \<Rightarrow> bool" where
  "packet_at c n \<longleftrightarrow> n_from (n_core c) \<le> n \<and> n_in (n_core c) n \<noteq> None"

lemma net_more_eqD:
  fixes a b :: "('h, 'm) okernel_scheme"
  assumes "skernel.more a = skernel.more b"
  shows "network a = network b" and "postOffice a = postOffice b" and "synchLists a = synchLists b"
  using assms by (cases a; cases b; simp)+

lemma arrived_none:
  assumes "arrived c N" and "ph_length (inHdr N) = 0" and "n_in c (net_polls N) = None"
  shows "arrived c (N\<lparr>net_polls := net_polls N + 1\<rparr>)"
  using assms by (auto simp: arrived_def less_Suc_eq)

lemma arrived_packet:
  assumes "arrived c N" and "ph_length (inHdr N) = 0" and "n_in c (net_polls N) = Some p"
    and "packet_ok i p" and "length (inbox N) = 52"
  shows "arrived c (N\<lparr>net_polls := net_polls N + 1, inHdr := packet_header p,
      inbox := packet_data p @ drop (length (packet_data p)) (inbox N)\<rparr>)" (is "arrived c ?N")
proof -
  have "buffered ?N p" by (rule buffered_new [OF assms(4,5)])
  moreover have "ph_length (packet_header p) \<noteq> 0" using assms(4) by (auto simp: packet_ok_def header_ok_def)
  ultimately show ?thesis using assms(1-3) by (auto simp: arrived_def)
qed

interpretation net_device: polled_device net_call NetworkReadPoll NetworkSendDone NetworkRecvInt
  NetworkSendInt NetworkTime "\<lambda>k. ph_length (inHdr (network k)) \<noteq> 0" "\<lambda>k. net_polls (network k)"
  net_holds n_read n_write packet_at
proof unfold_locales
  fix k :: "(net_handler, 'a) okernel_scheme" and c b
  let ?N = "network k"
  assume c: "net_holds c b k"
  then have N: "net_ok (n_core c) ?N" "postOffice k = n_office (n_core c)" by (simp_all add: net_holds_def)
  then have F: "net_ident ?N = n_ident (n_core c)" "net_in ?N = n_in (n_core c)" "net_readHandler ?N = NetReadAvail"
    "net_writeHandler ?N = NetWriteDone" "length (inbox ?N) = 52" "arrived (n_core c) ?N"
    "\<And>j p. n_in (n_core c) j = Some p \<Longrightarrow> packet_ok (n_ident (n_core c)) p" "\<not> sendBusy ?N"
    by (auto simp: net_ok_def)
  show "n_read c \<noteq> n_write c" using c N(2) by (auto simp: net_holds_def n_read_def n_write_def)
  let ?k1 = "k\<lparr>pending := insert_all [dev_entry NetworkReadPoll NetworkRecvInt (now k + NetworkTime)] (pending k)\<rparr>"
  have spec: "net_call NetworkReadPoll 0 k =
    (if ph_length (inHdr ?N) \<noteq> 0 then Inr ?k1
     else case n_in (n_core c) (net_polls ?N) of
       None \<Rightarrow> Inr (?k1\<lparr>network := ?N\<lparr>net_polls := net_polls ?N + 1\<rparr>\<rparr>)
     | Some p \<Rightarrow> net_callee NetReadAvail (net_arg ?N)
         (?k1\<lparr>network := ?N\<lparr>net_polls := net_polls ?N + 1, inHdr := packet_header p,
            inbox := packet_data p @ drop (length (packet_data p)) (inbox ?N)\<rparr>,
          stats := (stats k)\<lparr>numPacketsRecvd := numPacketsRecvd (stats k) + 1\<rparr>\<rparr>))"
    using CheckPktAvail_spec [of k NetworkReadPoll net_callee] F by (simp add: net_call_def split: option.split)
  show "\<exists>k1. dev_step k k1 \<and> net_holds c b k1 \<and>
      pending k1 = insert_all [dev_entry NetworkReadPoll NetworkRecvInt (now k + NetworkTime)] (pending k) \<and>
      (net_call NetworkReadPoll 0 k = Inr k1 \<and>
        (ph_length (inHdr (network k1)) \<noteq> 0) = (ph_length (inHdr ?N) \<noteq> 0) \<and>
        (ph_length (inHdr ?N) \<noteq> 0 \<or> net_polls ?N < net_polls (network k1)) \<or>
       net_call NetworkReadPoll 0 k = V_give (n_read c) k1 \<and> \<not> ph_length (inHdr ?N) \<noteq> 0 \<and>
        ph_length (inHdr (network k1)) \<noteq> 0)"
  proof (cases "ph_length (inHdr ?N) = 0")
    case False
    then show ?thesis using spec c
      by (intro exI [of _ ?k1]) (simp add: dev_step_def clock_def synch_part_def)
  next
    case True
    show ?thesis
    proof (cases "n_in (n_core c) (net_polls ?N)")
      case None
      have "net_ok (n_core c) (?N\<lparr>net_polls := net_polls ?N + 1\<rparr>)"
        using N(1) arrived_none [OF F(6) True None] by (simp add: net_ok_def)
      then show ?thesis using spec c True None
        by (intro exI [of _ "?k1\<lparr>network := ?N\<lparr>net_polls := net_polls ?N + 1\<rparr>\<rparr>"])
          (simp add: dev_step_def clock_def synch_part_def net_holds_network)
    next
      case (Some p)
      note p = F(7) [OF Some]
      let ?N' = "?N\<lparr>net_polls := net_polls ?N + 1, inHdr := packet_header p,
        inbox := packet_data p @ drop (length (packet_data p)) (inbox ?N)\<rparr>"
      have "net_ok (n_core c) ?N'"
        using N(1) arrived_packet [OF F(6) True Some p F(5)] p length_packet_data [OF p]
        by (auto simp: net_ok_def packet_ok_def header_ok_def)
      moreover have "ph_length (packet_header p) \<noteq> 0" using p by (auto simp: packet_ok_def header_ok_def)
      ultimately show ?thesis using spec c True Some
        by (intro exI [of _ "?k1\<lparr>network := ?N', stats := (stats k)\<lparr>numPacketsRecvd := numPacketsRecvd (stats k) + 1\<rparr>\<rparr>"])
          (simp add: dev_step_def clock_def synch_part_def net_holds_network net_callee_def IncomingPacket_def n_read_def N(2))
    qed
  qed
  show "\<exists>k1. dev_step k k1 \<and> net_holds c False k1 \<and>
      (ph_length (inHdr (network k1)) \<noteq> 0) = (ph_length (inHdr ?N) \<noteq> 0) \<and> net_polls (network k1) = net_polls ?N \<and>
      pending k1 = pending k \<and> net_call NetworkSendDone 0 k = V_give (n_write c) k1"
  proof -
    have "?N\<lparr>sendBusy := False\<rparr> = ?N" using F(8) by (cases ?N) simp
    moreover have "net_holds c False k" using c by (simp add: net_holds_def)
    ultimately show ?thesis using F(4)
      by (intro exI [of _ "k\<lparr>stats := (stats k)\<lparr>numPacketsSent := numPacketsSent (stats k) + 1\<rparr>\<rparr>"])
        (simp add: net_call_def Network_SendDone_def dev_step_def clock_def synch_part_def
          net_callee_def PacketSent_def n_write_def N(2))
  qed
  show "net_polls ?N \<le> n" if "\<not> ph_length (inHdr ?N) \<noteq> 0" "packet_at c n" for n
    using F(6) that by (auto simp: arrived_def packet_at_def not_le)
qed (auto simp: NetworkTime_def net_holds_def n_read_def n_write_def dest: net_more_eqD)

subsection \<open>The kernel with the network is calm\<close>

definition office_ghost :: "tid \<Rightarrow> net_content \<Rightarrow> net_content dev_ghost" where
  "office_ghost t c = \<lparr>g_thread = t, g_content = c, g_held = False, g_out = None, g_wait = Runs, g_polls = 0, g_due = 0\<rparr>"

lemma office_ghost_simps [simp]:
  "g_thread (office_ghost t c) = t" "g_content (office_ghost t c) = c" "\<not> g_held (office_ghost t c)"
  "g_out (office_ghost t c) = None" "g_wait (office_ghost t c) = Runs" "\<not> out_busy (office_ghost t c) w"
  by (simp_all add: office_ghost_def out_busy_def)

text \<open>
  The thread runs, the device is not writing, and what it holds is \<open>n\<close>; \<open>own\<close> are semaphores that
  are not the device's.
\<close>

definition net_calm :: "tid \<Rightarrow> net_core \<Rightarrow> nat set \<Rightarrow> (net_handler, 'm) okernel_scheme \<Rightarrow> bool" where
  "net_calm t n own k \<longleftrightarrow> settled k \<and> messageAvailable (n_office n) \<notin> own \<and> messageSent (n_office n) \<notin> own \<and>
     (\<exists>c r w pw. n_core c = n \<and> net_device.at_dev (office_ghost t c) r w pw k)"

text \<open>The ghost state of the kernel around the device can be read off the kernel.\<close>

definition content_of :: "net_core \<Rightarrow> (net_handler, 'm) okernel_scheme \<Rightarrow> net_content" where
  "content_of n k = \<lparr>n_core = n, n_locks = locks k, n_conds = conditions k, n_lists = synchLists k, n_sems = semaphores k\<rparr>"

lemma content_of_simps [simp]: "n_core (content_of n k) = n" "n_read (content_of n k) = messageAvailable (n_office n)"
  "n_write (content_of n k) = messageSent (n_office n)"
  by (simp_all add: content_of_def n_read_def n_write_def)

lemma net_holds_content_of:
  "net_holds (content_of n k) b k \<longleftrightarrow> net_ok n (network k) \<and> postOffice k = n_office n \<and>
    messageAvailable (n_office n) \<noteq> messageSent (n_office n)"
  by (auto simp: net_holds_def content_of_def)

lemma net_holds_others:
  assumes "net_holds (content_of n k) b k'" and "messageAvailable (n_office n) \<notin> own" and "messageSent (n_office n) \<notin> own"
  shows "\<forall>s \<in> own. semaphores k' s = semaphores k s"
proof
  fix s assume "s \<in> own"
  then have "s \<noteq> messageAvailable (n_office n)" "s \<noteq> messageSent (n_office n)" using assms(2,3) by blast+
  then show "semaphores k' s = semaphores k s" using assms(1) by (auto simp: net_holds_def content_of_def)
qed

definition net_state ::
  "tid \<Rightarrow> net_core \<Rightarrow> Semaphore \<Rightarrow> Semaphore \<Rightarrow> int \<Rightarrow> (net_handler, 'm) okernel_scheme \<Rightarrow> bool" where
  "net_state t n r w pw k \<longleftrightarrow> net_device.at_dev (office_ghost t (content_of n k)) r w pw k"

lemma at_dev_content:
  assumes "net_device.at_dev g r w pw k" and "n_core (g_content g) = n"
  shows "net_device.at_dev (g\<lparr>g_content := content_of n k\<rparr>) r w pw k"
proof -
  have "n_read (g_content g) = messageAvailable (n_office n)" "n_write (g_content g) = messageSent (n_office n)"
    using assms(2) by (simp_all add: n_read_def n_write_def)
  moreover have "net_holds (g_content g) (out_busy g w) k" using assms(1) by (simp add: net_device.at_dev_def)
  then have "net_holds (content_of n k) (out_busy g w) k"
    using assms(2) unfolding net_holds_content_of by (simp add: net_holds_def)
  ultimately show ?thesis using assms(1) by (simp add: net_device.at_dev_def)
qed

lemma net_calm_state:
  "net_calm t n own k \<longleftrightarrow> settled k \<and> messageAvailable (n_office n) \<notin> own \<and> messageSent (n_office n) \<notin> own \<and>
    (\<exists>r w pw. net_state t n r w pw k)"
proof -
  have "(office_ghost t c)\<lparr>g_content := c'\<rparr> = office_ghost t c'" for c c' by (simp add: office_ghost_def)
  then show ?thesis
    unfolding net_calm_def net_state_def using at_dev_content [of "office_ghost t c" for c]
    by (metis content_of_simps(1) office_ghost_simps(2))
qed

lemma net_state_iff:
  "net_state t n r w pw k \<longleftrightarrow> dev_thread (office_ghost t (content_of n k)) k \<and> net_ok n (network k) \<and>
    postOffice k = n_office n \<and> messageAvailable (n_office n) \<noteq> messageSent (n_office n) \<and>
    semaphores k (messageAvailable (n_office n)) = Some r \<and> semaphores k (messageSent (n_office n)) = Some w \<and>
    r = Semaphore_new (of_bool (ph_length (inHdr (network k)) \<noteq> 0)) \<and> w = Semaphore_new 0 \<and> readyList k = [] \<and>
    pending k = [dev_entry NetworkReadPoll NetworkRecvInt pw]"
proof -
  have "dev_sems (office_ghost t c) full False r w ready \<longleftrightarrow>
      r = Semaphore_new (of_bool full) \<and> w = Semaphore_new 0 \<and> ready = []" for c full r w ready
    by (cases r; cases w) (auto simp: dev_sems_def Semaphore_new_def)
  then show ?thesis
    by (auto simp: net_state_def net_device.at_dev_def net_holds_content_of net_device.dev_pending_def)
qed

interpretation net_calm: calm_lists "net_cpu c" "net_calm t n own" own postOffice
proof unfold_locales
  fix k :: "(net_handler, 'a) okernel_scheme"
  show "readyList k = []" if "net_calm t n own k" using that by (auto simp: net_calm_state net_state_iff)
  show "\<not> inHandler k" if "net_calm t n own k" using that by (auto simp: net_calm_state settled_def)
  show "\<exists>k'. SetLevel (net_cpu c) IntOn k = Some (Inr (IntOff, k')) \<and> net_calm t n own k' \<and> level k' = IntOn \<and>
      (\<forall>s \<in> own. semaphores k' s = semaphores k s) \<and> locks k' = locks k \<and> conditions k' = conditions k \<and>
      currentThread k' = currentThread k \<and> (synchLists k', postOffice k') = (synchLists k, postOffice k)"
    if k: "net_calm t n own k" "level k = IntOff"
  proof -
    obtain r w pw where at: "net_state t n r w pw k" and s: "settled k" and o: "messageAvailable (n_office n) \<notin> own"
      "messageSent (n_office n) \<notin> own"
      using k(1) by (auto simp: net_calm_state)
    let ?g = "office_ghost t (content_of n k)"
    obtain k' r' w' pw' where k': "SetLevel (net_cpu c) IntOn k = Some (Inr (IntOff, k'))"
      "net_device.at_dev ?g r' w' pw' k'" "level k' = IntOn" "settled k'"
      using net_device.on_dev [OF at [unfolded net_state_def] k(2) s, of c] unfolding net_cpu_def by blast
    have "net_calm t n own k'"
      unfolding net_calm_def using k'(2,4) o by (intro conjI exI [of _ "content_of n k"] exI) (assumption | simp)+
    moreover have h: "net_holds (content_of n k) False k'" "currentThread k' = t"
      using k'(2) by (simp_all add: net_device.at_dev_def dev_thread_def)
    moreover have "\<forall>s \<in> own. semaphores k' s = semaphores k s" by (rule net_holds_others [OF h(1) o])
    moreover have "currentThread k = t" "postOffice k = n_office n"
      using at by (simp_all add: net_state_iff dev_thread_def)
    ultimately show ?thesis using k' h by (simp add: net_holds_def content_of_def)
  qed
qed (auto simp: net_calm_state net_state_iff dev_thread_def put_sem_def settled_def pending_ok_def none_due_def ticks_ok_def)

end
