(* ===== verification/Mail_Transfer.thy ===== *)
theory Mail_Transfer
  imports Mail_Delivery
begin

section \<open>From \<open>Send\<close> on one machine to \<open>Receive\<close> on another\<close>

text \<open>
  What one pass of the postal worker does with the next packet, what \<open>Send\<close> puts on the wire, and
  that \<open>Receive\<close> returns on the second machine what \<open>Send\<close> was given on the first.
\<close>

subsection \<open>The post office between two operations\<close>

definition office_idle :: "tid \<Rightarrow> net_core \<Rightarrow> nat set \<Rightarrow> Mail list list \<Rightarrow> (net_handler, 'm) okernel_scheme \<Rightarrow> bool" where
  "office_idle t n own xss k \<longleftrightarrow> net_calm t n own k \<and> level k = IntOn \<and> netAddr (n_office n) = n_ident n \<and>
     numBoxes (n_office n) = int (length (boxes (n_office n))) \<and> lists_hold own (boxes (n_office n)) xss k \<and>
     (\<exists>L. locks k (sendLock (n_office n)) = Some L \<and> Sema L \<in> own \<and> semaphores k (Sema L) = Some (Semaphore_new 1) \<and>
       lock_apart (sendLock (n_office n)) (Sema L) (boxes (n_office n)) k)"

lemma settled_network [simp]: "settled ((k :: ('h, 'i, 'm) nkernel_scheme)\<lparr>network := N\<rparr>) = settled k"
  by (simp add: settled_def pending_ok_def none_due_def ticks_ok_def)

text \<open>The next packet, in the poll that finds it.\<close>

definition first_packet :: "net_core \<Rightarrow> nat \<Rightarrow> byte list \<Rightarrow> bool" where
  "first_packet n N p \<longleftrightarrow> n_from n \<le> N \<and> n_in n N = Some p \<and> (\<forall>j. n_from n \<le> j \<and> j < N \<longrightarrow> n_in n j = None)"

lemma arrived_first:
  assumes "arrived n N" and "ph_length (inHdr N) \<noteq> 0" and "first_packet n i p"
  shows "net_polls N = Suc i \<and> buffered N p"
proof -
  obtain i' p' where "n_from n \<le> i'" "net_polls N = Suc i'" "n_in n i' = Some p'" "buffered N p'"
    "\<forall>j. n_from n \<le> j \<and> j < i' \<longrightarrow> n_in n j = None"
    using assms(1,2) by (auto simp: arrived_def)
  moreover from this assms(3) have "i' = i"
    by (cases i' i rule: linorder_cases) (auto simp: first_packet_def)
  ultimately show ?thesis using assms(3) by (auto simp: first_packet_def)
qed

lemma office_waits:
  assumes "first_packet n N p"
  shows "net_device.progresses c ((office_ghost t (content_of n k))\<lparr>g_wait := WaitsRead\<rparr>)"
  by (rule net_device.waits_read [where N = N]) (use assms in \<open>auto simp: packet_at_def first_packet_def\<close>)

text \<open>\<open>P\<close> on \<open>messageAvailable\<close>, and the packet taken from the device.\<close>

lemma take_packet:
  assumes k: "net_calm t n own k" "level k = IntOn" and f: "first_packet n N p" and b: "length buffer = 52"
  shows "\<exists>k1 k2. Semaphore_P (net_cpu c) (messageAvailable (n_office n)) k = Some (Inr k1) \<and>
    Network_Receive buffer k1 = Inr (packet_header p, packet_data p @ drop (length (packet_data p)) buffer, k2) \<and>
    net_calm t (n\<lparr>n_from := Suc N\<rparr>) own k2 \<and> level k2 = IntOn \<and> synchLists k2 = synchLists k \<and> locks k2 = locks k \<and>
    conditions k2 = conditions k \<and> (\<forall>s \<in> own. semaphores k2 s = semaphores k s)"
proof -
  let ?c = "content_of n k" and ?n = "n\<lparr>n_from := Suc N\<rparr>"
  let ?g = "office_ghost t ?c"
  obtain r w pw where at: "net_device.at_dev ?g r w pw k" and s: "settled k"
    and own: "messageAvailable (n_office n) \<notin> own" "messageSent (n_office n) \<notin> own"
    using k(1) by (auto simp: net_calm_state net_state_def)
  from net_device.P_dev [OF at _ k(2) s _ _ office_waits [OF f, where c = c]] obtain k1 r1 w1 pw1 where
    k1: "Semaphore_P (net_cpu c) (messageAvailable (n_office n)) k = Some (Inr k1)"
      "net_device.at_dev (?g\<lparr>g_held := True\<rparr>) r1 w1 pw1 k1" "level k1 = IntOn" "settled k1"
    by (auto simp: net_device.sem_of_def net_cpu_def)
  have h: "net_holds ?c False k1" and full: "ph_length (inHdr (network k1)) \<noteq> 0" "r1 = Semaphore_new 0"
    "w1 = Semaphore_new 0" "readyList k1 = []" and th: "dev_thread ?g k1"
    and sems: "semaphores k1 (messageAvailable (n_office n)) = Some r1" "semaphores k1 (messageSent (n_office n)) = Some w1"
    and p1: "pending k1 = [dev_entry NetworkReadPoll NetworkRecvInt pw1]"
    using k1(2) by (cases r1; cases w1; auto simp: net_device.at_dev_def dev_sems_def Semaphore_new_def out_busy_def
        dev_thread_def net_device.dev_pending_def net_holds_def of_bool_def split: if_splits)+
  have ok: "net_ok n (network k1)" "postOffice k1 = n_office n" using h by (simp_all add: net_holds_def)
  then have p: "packet_ok (n_ident n) p" and box: "net_polls (network k1) = Suc N" "buffered (network k1) p"
    using f arrived_first [OF _ full(1) f] by (auto simp: net_ok_def first_packet_def)
  define k2 where "k2 = k1\<lparr>network := (network k1)\<lparr>inHdr := (packet_header p)\<lparr>ph_length := 0\<rparr>\<rparr>\<rparr>"
  have "net_ok ?n (network k2)" using ok box by (auto simp: net_ok_def arrived_def k2_def)
  then have "net_state t ?n r1 w1 pw1 k2"
    using ok h th full sems p1 by (auto simp: net_state_iff k2_def dev_thread_def net_holds_def)
  moreover have "settled k2" using k1(4) by (simp add: k2_def)
  ultimately have "net_calm t ?n own k2" using own by (auto simp: net_calm_state)
  moreover have "synchLists k2 = synchLists k" "locks k2 = locks k" "conditions k2 = conditions k"
    using h by (simp_all add: k2_def net_holds_def content_of_def)
  moreover have "\<forall>s \<in> own. semaphores k2 s = semaphores k s"
    using net_holds_others [OF h own] by (simp add: k2_def)
  moreover note Network_Receive_spec [OF box(2) p b]
  ultimately show ?thesis using k1(1,3) by (intro exI [of _ k1] exI [of _ k2]) (simp add: k2_def)
qed

subsection \<open>The postal worker\<close>

text \<open>The mail header at the start of a buffer, and the \<open>Mail\<close> made of a packet; \<open>buffer\<close> is the worker's.\<close>

definition mail_header_of :: "byte list \<Rightarrow> MailHeader" where
  "mail_header_of bs = \<lparr>mh_to = bytes_word (take 4 bs), mh_from = bytes_word (take 4 (drop 4 bs)),
     mh_length = bytes_word (take 4 (drop 8 bs))\<rparr>"

definition received :: "byte list \<Rightarrow> byte list \<Rightarrow> byte list" where
  "received p buffer = packet_data p @ drop (length (packet_data p)) buffer"

definition mail_of :: "byte list \<Rightarrow> byte list \<Rightarrow> byte list \<Rightarrow> Mail" where
  "mail_of junk p buffer = (let h = mail_header_of (received p buffer) in
     \<lparr>pktHdr = packet_header p, mailHdr = h,
      mail_data = take (unat (mh_length h)) (drop 12 (received p buffer)) @ drop (unat (mh_length h)) junk\<rparr>)"

definition mail_header_ok :: "int \<Rightarrow> MailHeader \<Rightarrow> bool" where
  "mail_header_ok n h \<longleftrightarrow> 0 \<le> sint (mh_to h) \<and> sint (mh_to h) < n \<and> unat (mh_length h) \<le> 40"

lemma mail_header_ok_iff:
  "mail_header_ok n h \<longleftrightarrow> (0 \<le> sint (mh_to h) \<and> sint (mh_to h) < n) \<and> uint (mh_length h) \<le> MaxMailSize"
  by (auto simp: mail_header_ok_def MaxMailSize_def packet_sizes sizeof_MailHeader_def uint_unat simp del: int_nat_eq of_nat_unat)

lemma length_received: "packet_ok i p \<Longrightarrow> length buffer = 52 \<Longrightarrow> length (received p buffer) = 52"
  using length_packet_data [of i p] by (auto simp: received_def packet_ok_def header_ok_def)

lemma read_mail_header_of: "12 \<le> length bs \<Longrightarrow> read_mail_header bs = Inr (mail_header_of bs)"
  by (simp add: read_mail_header_def subarray_def sizeof_MailHeader_def mail_header_of_def drop_take)

lemma deliver_packet:
  assumes k: "office_idle t n own xss k" and f: "first_packet n N p" and b: "length buffer = 52" and j: "length junk = 40"
  defines "h \<equiv> mail_header_of (received p buffer)" and "i \<equiv> nat (sint (mh_to (mail_header_of (received p buffer))))"
  shows "mail_header_ok (int (length xss)) h \<longrightarrow> (\<exists>k'. deliver_one (net_cpu c) junk buffer k = Some (Inr (received p buffer, k')) \<and>
      office_idle t (n\<lparr>n_from := Suc N\<rparr>) own (xss[i := xss ! i @ [mail_of junk p buffer]]) k')"
    and "\<not> mail_header_ok (int (length xss)) h \<longrightarrow> deliver_one (net_cpu c) junk buffer k = Some (Inl AssertFailed)"
proof -
  let ?o = "n_office n" and ?n = "n\<lparr>n_from := Suc N\<rparr>"
  have idle: "net_calm t n own k" "level k = IntOn" "netAddr ?o = n_ident n" "numBoxes ?o = int (length (boxes ?o))"
    "lists_hold own (boxes ?o) xss k"
    using k by (simp_all add: office_idle_def)
  obtain L where L: "locks k (sendLock ?o) = Some L" "Sema L \<in> own" "semaphores k (Sema L) = Some (Semaphore_new 1)"
    "lock_apart (sendLock ?o) (Sema L) (boxes ?o) k"
    using k by (auto simp: office_idle_def)
  have len: "length xss = length (boxes ?o)" using idle(5) by (simp add: lists_hold_def)
  obtain k1 k2 where k1: "Semaphore_P (net_cpu c) (messageAvailable ?o) k = Some (Inr k1)"
    "Network_Receive buffer k1 = Inr (packet_header p, received p buffer, k2)"
    and k2: "net_calm t ?n own k2" "level k2 = IntOn" "synchLists k2 = synchLists k" "locks k2 = locks k"
    "conditions k2 = conditions k" "\<forall>s \<in> own. semaphores k2 s = semaphores k s"
    using take_packet [OF idle(1,2) f b, of c] unfolding received_def by blast
  have o: "postOffice k = ?o" "postOffice k2 = ?o" using idle(1) k2(1) by (auto simp: net_calm_state net_state_iff)
  have hold2: "lists_hold own (boxes ?o) xss k2" and apart2: "lock_apart (sendLock ?o) (Sema L) (boxes ?o) k2"
    using lists_hold_lock [OF k2(3) _ k2(5) _ L(4) idle(5)] k2(4,6) by auto
  have p: "packet_ok (n_ident n) p"
    using f idle(1) by (auto simp: net_calm_state net_state_iff net_ok_def first_packet_def)
  have h: "read_mail_header (received p buffer) = Inr h"
    unfolding h_def by (rule read_mail_header_of) (simp add: length_received [OF p b])
  note run = deliver_one_def [of "net_cpu c" junk buffer k, unfolded o(1)] k1 h o(2) idle(4) len
  show "\<not> mail_header_ok (int (length xss)) h \<longrightarrow> deliver_one (net_cpu c) junk buffer k = Some (Inl AssertFailed)"
    by (auto simp: mail_header_ok_iff run ASSERT_def)
  show "mail_header_ok (int (length xss)) h \<longrightarrow> (\<exists>k'. deliver_one (net_cpu c) junk buffer k = Some (Inr (received p buffer, k')) \<and>
      office_idle t ?n own (xss[i := xss ! i @ [mail_of junk p buffer]]) k')"
  proof
    assume ok: "mail_header_ok (int (length xss)) h"
    let ?m = "mail_of junk p buffer" and ?b = "boxes ?o ! i"
    have i: "i < length (boxes ?o)" using ok len by (auto simp: mail_header_ok_def i_def h_def)
    have box: "box_at (sint (mh_to h)) k2 = Inr ?b" using ok o(2) len by (simp add: box_at_def mail_header_ok_def i_def h_def)
    have "bcopy (drop 12 (received p buffer)) 0 junk 0 (uint (mh_length h)) = Inr (mail_data ?m)"
      using ok j length_received [OF p b]
      by (simp add: bcopy_def uint_unat mail_header_ok_def mail_of_def Let_def h_def del: int_nat_eq of_nat_unat)
    then have mail: "Mail_new junk (packet_header p) h (drop 12 (received p buffer)) = Inr ?m"
      using ok by (simp add: Mail_new_def mail_header_ok_iff) (simp add: mail_of_def Let_def h_def)
    have "sl_ready own ?b (xss ! i) k2" using hold2 i by (simp add: lists_hold_def)
    from net_calm.SynchList_Append_calm [OF k2(1,2) this] obtain k3 where
      k3: "SynchList_Append (net_cpu c) ?b ?m k2 = Some (Inr k3)" "net_calm t ?n own k3" "level k3 = IntOn"
        "sl_ready own ?b (xss ! i @ [?m]) k3" "others_kept own ?b k2 k3"
      by blast
    note kept = lock_apart_others [OF k3(5) i hold2 apart2]
    have "office_idle t ?n own (xss[i := xss ! i @ [?m]]) k3"
      unfolding office_idle_def
      using k3 idle(3,4) lists_hold_update [OF hold2 i k3(4,5)] kept L k2(4,6)
      by (intro conjI exI [of _ L]) simp_all
    then show "\<exists>k'. deliver_one (net_cpu c) junk buffer k = Some (Inr (received p buffer, k')) \<and>
        office_idle t ?n own (xss[i := xss ! i @ [?m]]) k'"
      using ok box mail k3(1) by (intro exI [of _ k3]) (simp add: run mail_header_ok_iff MailBox_Put_def sizeof_MailHeader_def)
  qed
qed

subsection \<open>Send\<close>

text \<open>The header and the packet that \<open>Send\<close> makes; \<open>junk\<close> is what its buffer held before.\<close>

definition sent_header :: "net_core \<Rightarrow> PacketHeader \<Rightarrow> MailHeader \<Rightarrow> PacketHeader" where
  "sent_header n pktH mailH = pktH\<lparr>ph_from := n_ident n, ph_length := mh_length mailH + 12\<rparr>"

definition sent_data :: "byte list \<Rightarrow> MailHeader \<Rightarrow> byte list \<Rightarrow> byte list" where
  "sent_data junk mailH data =
     mail_header_bytes mailH @ take (unat (mh_length mailH)) data @ drop (12 + unat (mh_length mailH)) junk"

lemma sent_length:
  assumes "unat (mh_length mailH) \<le> 40"
  shows "unat (ph_length (sent_header n pktH mailH)) = 12 + unat (mh_length mailH)" and "header_ok (sent_header n pktH mailH)"
proof -
  have "unat (mh_length mailH + 12) = unat (mh_length mailH) + unat (12 :: 32 word)"
    by (rule unat_add_lem [THEN iffD1]) (use assms in simp)
  then show "unat (ph_length (sent_header n pktH mailH)) = 12 + unat (mh_length mailH)" by (simp add: sent_header_def)
  then show "header_ok (sent_header n pktH mailH)" using assms by (simp add: header_ok_def)
qed

lemma length_mail_header_bytes [simp]: "length (mail_header_bytes h) = 12"
  by (simp add: mail_header_bytes_def)

lemma send_data_buffer:
  assumes "unat (mh_length mailH) \<le> 40" and "unat (mh_length mailH) \<le> length data" and "length junk = 52"
  shows "rbind (bcopy (mail_header_bytes mailH) 0 junk 0 sizeof_MailHeader) (\<lambda>buffer.
      bcopy data 0 buffer sizeof_MailHeader (uint (mh_length mailH))) = Inr (sent_data junk mailH data)"
    and "length (sent_data junk mailH data) = 52"
proof -
  let ?n = "unat (mh_length mailH)"
  have "bcopy (mail_header_bytes mailH) 0 junk 0 sizeof_MailHeader = Inr (mail_header_bytes mailH @ drop 12 junk)"
    using assms(3) by (simp add: bcopy_def sizeof_MailHeader_def)
  moreover have "bcopy data 0 (mail_header_bytes mailH @ drop 12 junk) sizeof_MailHeader (uint (mh_length mailH)) =
      Inr (sent_data junk mailH data)"
    using assms by (simp add: bcopy_def sizeof_MailHeader_def uint_unat sent_data_def nat_add_distrib add.commute
        del: int_nat_eq of_nat_unat)
  ultimately show "rbind (bcopy (mail_header_bytes mailH) 0 junk 0 sizeof_MailHeader) (\<lambda>buffer.
      bcopy data 0 buffer sizeof_MailHeader (uint (mh_length mailH))) = Inr (sent_data junk mailH data)" by simp
  show "length (sent_data junk mailH data) = 52" using assms by (simp add: sent_data_def)
qed

definition sent_packet :: "net_core \<Rightarrow> byte list \<Rightarrow> byte list \<Rightarrow> PacketHeader \<Rightarrow> MailHeader \<Rightarrow> byte list \<Rightarrow> byte list" where
  "sent_packet n junk wjunk pktH mailH data = wire_packet wjunk (sent_header n pktH mailH) (sent_data junk mailH data)"

text \<open>The output, from the state in which the lock is held.\<close>

definition wire_after :: "net_core \<Rightarrow> int \<Rightarrow> byte list \<Rightarrow> PacketHeader \<Rightarrow> byte list \<Rightarrow> net_core" where
  "wire_after n random wjunk ph data =
     (if real_of_int (random smod 100) \<ge> n_chance n * 100 then n
      else n\<lparr>n_wire := n_wire n @ [(ph_to ph, wire_packet wjunk ph data)]\<rparr>)"

lemma wire_after_simps [simp]:
  "n_office (wire_after n r j ph d) = n_office n" "n_ident (wire_after n r j ph d) = n_ident n"
  "n_in (wire_after n r j ph d) = n_in n" "n_from (wire_after n r j ph d) = n_from n"
  "n_chance (wire_after n r j ph d) = n_chance n"
  by (simp_all add: wire_after_def)

lemma arrived_wire [simp]:
  "arrived n (N\<lparr>net_wire := W\<rparr>) = arrived n N" "arrived (n\<lparr>n_wire := W\<rparr>) N = arrived n N"
  by (simp_all add: arrived_def buffered_def)

lemma send_packet:
  fixes random :: int
  assumes k: "net_calm t n own k" "level k = IntOn" and h: "header_ok ph" "ph_from ph = n_ident n"
    and j: "length wjunk = 64" "unat (ph_length ph) \<le> length data"
  defines "n' \<equiv> wire_after n random wjunk ph data"
  shows "\<exists>k1 k2. Network_Send NetworkSendDone random wjunk ph data k = Inr k1 \<and> postOffice k1 = n_office n \<and>
    Semaphore_P (net_cpu c) (messageSent (n_office n)) k1 = Some (Inr k2) \<and>
    net_calm t n' own k2 \<and> level k2 = IntOn \<and> synchLists k2 = synchLists k \<and> locks k2 = locks k \<and>
    conditions k2 = conditions k \<and> (\<forall>s \<in> own. semaphores k2 s = semaphores k s)"
proof -
  obtain r w pw where at: "net_state t n r w pw k" and s: "settled k"
    and own: "messageAvailable (n_office n) \<notin> own" "messageSent (n_office n) \<notin> own"
    using k(1) by (auto simp: net_calm_state)
  then have N: "net_ok n (network k)" "postOffice k = n_office n" by (simp_all add: net_state_iff)
  let ?N = "if real_of_int (random smod 100) \<ge> n_chance n * 100 then network k
    else (network k)\<lparr>net_wire := net_wire (network k) @ [(ph_to ph, wire_packet wjunk ph data)]\<rparr>"
  define k1 where "k1 = k\<lparr>pending := insert_all [dev_entry NetworkSendDone NetworkSendInt (now k + 100)] (pending k), network := ?N\<rparr>"
  have "net_ident (network k) = n_ident n" "\<not> sendBusy (network k)" "chanceToWork (network k) = n_chance n"
    using N by (simp_all add: net_ok_def)
  then have send: "Network_Send NetworkSendDone random wjunk ph data k = Inr k1"
    using Network_Send_spec [OF h(1) _ _ j, of k NetworkSendDone random] h(2)
    by (simp add: k1_def NetworkTime_def Let_def)
  have "settled (k\<lparr>pending := insert_all [dev_entry NetworkSendDone NetworkSendInt (now k + 100)] (pending k)\<rparr>)"
    using settled_Schedule [OF s, of 100 NetworkSendDone 0 NetworkSendInt] by (auto simp: dev_entry_def)
  then have s1: "settled k1" by (simp add: k1_def)
  let ?c = "content_of n' k1"
  let ?g = "(office_ghost t ?c)\<lparr>g_out := Some (now k + 100)\<rparr>"
  have net1: "net_ok n' (network k1)" using N(1) by (simp add: net_ok_def k1_def n'_def wire_after_def)
  have at1: "net_device.at_dev ?g r w pw k1"
    using at net1 by (auto simp: net_device.at_dev_def net_state_iff net_holds_content_of dev_thread_def dev_sems_def
        out_busy_def net_device.dev_pending_def mset_insert_all k1_def n'_def Semaphore_new_def)
  have prog: "net_device.progresses c (?g\<lparr>g_wait := WaitsWrite\<rparr>)"
    by (rule net_device.waits_write [where ow = "now k + 100"]) simp_all
  have n': "n_office n' = n_office n" and on: "level k1 = IntOn" using k(2) by (simp_all add: n'_def k1_def)
  from net_device.P_dev [OF at1 _ on s1 _ _ prog] obtain k2 r2 w2 pw2 where
    k2: "Semaphore_P (net_cpu c) (messageSent (n_office n)) k1 = Some (Inr k2)"
      "net_device.at_dev (?g\<lparr>g_out := None\<rparr>) r2 w2 pw2 k2" "level k2 = IntOn" "settled k2"
    by (auto simp: net_device.sem_of_def net_cpu_def n')
  have eq: "?g\<lparr>g_out := None\<rparr> = office_ghost t ?c" by (simp add: office_ghost_def)
  have h2: "net_holds ?c False k2" using k2(2) [unfolded eq] by (simp add: net_device.at_dev_def)
  have "net_calm t n' own k2"
    unfolding net_calm_def using k2(2) [unfolded eq] k2(4) own
    by (intro conjI exI [of _ ?c] exI) (assumption | simp add: n'_def)+
  moreover have "\<forall>s \<in> own. semaphores k2 s = semaphores k s"
    using net_holds_others [OF h2] own by (simp add: k1_def n'_def)
  moreover have "synchLists k2 = synchLists k" "locks k2 = locks k" "conditions k2 = conditions k"
    using h2 by (simp_all add: net_holds_def content_of_def k1_def)
  moreover have "postOffice k1 = n_office n" using N(2) by (simp add: k1_def)
  ultimately show ?thesis using send k2(1,3) by blast
qed

lemma Send_idle:
  fixes random :: int and pktH :: PacketHeader
  assumes k: "office_idle t n own xss k" and m: "mail_header_ok (int (length xss)) mailH"
    and j: "length junk = 52" "length wjunk = 64" "unat (mh_length mailH) \<le> length data"
  defines "n' \<equiv> wire_after n random wjunk (sent_header n pktH mailH) (sent_data junk mailH data)"
  shows "\<exists>k'. PostOffice_Send (net_cpu c) random junk wjunk pktH mailH data k = Some (Inr k') \<and> office_idle t n' own xss k'"
proof -
  let ?o = "n_office n" and ?ph = "sent_header n pktH mailH" and ?d = "sent_data junk mailH data"
  have idle: "net_calm t n own k" "level k = IntOn" "netAddr ?o = n_ident n" "numBoxes ?o = int (length (boxes ?o))"
    "lists_hold own (boxes ?o) xss k"
    using k by (simp_all add: office_idle_def)
  obtain L where L: "locks k (sendLock ?o) = Some L" "Sema L \<in> own" "semaphores k (Sema L) = Some (Semaphore_new 1)"
    "lock_apart (sendLock ?o) (Sema L) (boxes ?o) k"
    using k by (auto simp: office_idle_def)
  let ?L = "L\<lparr>threadHoldLock := Some (currentThread k)\<rparr>"
  have len: "length xss = length (boxes ?o)" using idle(5) by (simp add: lists_hold_def)
  have m40: "unat (mh_length mailH) \<le> 40" using m by (simp add: mail_header_ok_def)
  note size = sent_length [OF m40, of n pktH] and buf = send_data_buffer [OF m40 j(3,1)]
  have o: "postOffice k = ?o" using idle(1) by (auto simp: net_calm_state net_state_iff)
  obtain k1 where k1: "Lock_Acquire (net_cpu c) (sendLock ?o) k = Some (Inr k1)"
    "net_calm.same t n own ((put_sem (Sema L) (Semaphore_new 0) k)\<lparr>locks := (locks k)(sendLock ?o \<mapsto> ?L)\<rparr>) k1"
    using net_calm.calm_Acquire [OF idle(1,2) L(1-3)] by blast
  note s1 = net_calm.sameD [OF k1(2)]
  have "unat (ph_length ?ph) \<le> length ?d" using size(1) buf(2) m40 by simp
  from send_packet [OF s1(1,2) size(2) _ j(2) this, of random c] obtain k2 k3 where
    k2: "Network_Send NetworkSendDone random wjunk ?ph ?d k1 = Inr k2" "postOffice k2 = ?o"
      "Semaphore_P (net_cpu c) (messageSent ?o) k2 = Some (Inr k3)"
    and k3: "net_calm t n' own k3" "level k3 = IntOn" "synchLists k3 = synchLists k1" "locks k3 = locks k1"
      "conditions k3 = conditions k1" "\<forall>s \<in> own. semaphores k3 s = semaphores k1 s"
    by (auto simp: sent_header_def n'_def)
  have L3: "locks k3 (sendLock ?o) = Some ?L" "Sema ?L \<in> own" "semaphores k3 (Sema ?L) = Some (Semaphore_new 0)"
    using s1 k3 L by simp_all
  obtain k4 where k4: "Lock_Release (net_cpu c) (sendLock ?o) k3 = Some (Inr k4)"
    "net_calm.same t n' own ((put_sem (Sema ?L) (Semaphore_new 1) k3)\<lparr>locks :=
      (locks k3)(sendLock ?o \<mapsto> ?L\<lparr>threadHoldLock := None\<rparr>)\<rparr>) k4"
    using net_calm.calm_Release [OF k3(1,2) L3] by blast
  note s4 = net_calm.sameD [OF k4(2)]
  have o3: "postOffice k3 = ?o" using k3(1) by (auto simp: net_calm_state net_state_iff n'_def)
  have sem: "semaphores k4 s = semaphores k s" if "s \<in> own" for s
    using that s4(3) [OF that] s1(3) [OF that] k3(6) L(3) by (cases "s = Sema L") (simp_all add: put_sem_def)
  have lk: "locks k4 = (locks k)(sendLock ?o \<mapsto> ?L\<lparr>threadHoldLock := None\<rparr>)" using s4(4) k3(4) s1(4) by simp
  have "synchLists k4 = synchLists k" "conditions k4 = conditions k"
    using s4(5,7) k3(3,5) s1(5,7) by (simp_all add: lists_locks)
  note hold4 = lists_hold_lock [OF this(1) _ this(2) sem L(4) idle(5)]
  have "office_idle t n' own xss k4"
    unfolding office_idle_def using s4(1,2) idle(3,4) hold4 sem L lk
    by (intro conjI exI [of _ "?L\<lparr>threadHoldLock := None\<rparr>"]) (simp_all add: n'_def)
  moreover have "PostOffice_Send (net_cpu c) random junk wjunk pktH mailH data k = Some (Inr k4)"
    using m buf(1) k1(1) k2 k4(1) o o3 idle(3,4) len s1(8)
    by (auto simp: PostOffice_Send_def mail_header_ok_iff sent_header_def sizeof_MailHeader_def Let_def rbind_eq_Inr_iff)
  ultimately show ?thesis by blast
qed

lemma Send_fails:
  assumes "office_idle t n own xss k" and "\<not> mail_header_ok (int (length xss)) mailH"
  shows "PostOffice_Send (net_cpu c) random junk wjunk pktH mailH data k = Some (Inl AssertFailed)"
proof -
  have "postOffice k = n_office n" "numBoxes (n_office n) = int (length xss)"
    using assms(1) by (auto simp: office_idle_def net_calm_state net_state_iff lists_hold_def)
  then show ?thesis using assms(2) by (auto simp: PostOffice_Send_def mail_header_ok_iff ASSERT_def)
qed

subsection \<open>Receive\<close>

lemma Receive_idle:
  assumes k: "office_idle t n own xss k" and b: "0 \<le> box" "box < int (length xss)" and m: "xss ! nat box = m # ms"
    and l: "unat (mh_length (mailHdr m)) \<le> 40" "length (mail_data m) = 40" "unat (mh_length (mailHdr m)) \<le> length data"
  defines "l \<equiv> unat (mh_length (mailHdr m))"
  shows "\<exists>k'. PostOffice_Receive (net_cpu c) box data k =
      Some (Inr (pktHdr m, mailHdr m, take l (mail_data m) @ drop l data, k')) \<and>
    office_idle t n own (xss[nat box := ms]) k'"
proof -
  let ?o = "n_office n" and ?i = "nat box"
  let ?b = "boxes ?o ! ?i"
  have idle: "net_calm t n own k" "level k = IntOn" "netAddr ?o = n_ident n" "numBoxes ?o = int (length (boxes ?o))"
    "lists_hold own (boxes ?o) xss k"
    using k by (simp_all add: office_idle_def)
  obtain L where L: "locks k (sendLock ?o) = Some L" "Sema L \<in> own" "semaphores k (Sema L) = Some (Semaphore_new 1)"
    "lock_apart (sendLock ?o) (Sema L) (boxes ?o) k"
    using k by (auto simp: office_idle_def)
  have len: "length xss = length (boxes ?o)" using idle(5) by (simp add: lists_hold_def)
  then have i: "?i < length (boxes ?o)" using b by simp
  have o: "postOffice k = ?o" using idle(1) by (auto simp: net_calm_state net_state_iff)
  have "sl_ready own ?b (m # ms) k" using idle(5) i m by (auto simp: lists_hold_def)
  from net_calm.SynchList_Remove_calm [OF idle(1,2) this] obtain k1 where
    k1: "SynchList_Remove (net_cpu c) ?b k = Some (Inr (m, k1))" "net_calm t n own k1" "level k1 = IntOn"
      "sl_ready own ?b ms k1" "others_kept own ?b k k1"
    by blast
  note kept = lock_apart_others [OF k1(5) i idle(5) L(4)]
  have "office_idle t n own (xss[?i := ms]) k1"
    unfolding office_idle_def using k1 idle(3,4) lists_hold_update [OF idle(5) i k1(4,5)] kept L
    by (intro conjI exI [of _ L]) simp_all
  moreover have "bcopy (mail_data m) 0 data 0 (uint (mh_length (mailHdr m))) = Inr (take l (mail_data m) @ drop l data)"
    using l by (simp add: bcopy_def uint_unat l_def del: int_nat_eq of_nat_unat)
  moreover have "uint (mh_length (mailHdr m)) \<le> MaxMailSize"
    using l(1) by (simp add: MaxMailSize_def packet_sizes sizeof_MailHeader_def uint_unat del: int_nat_eq of_nat_unat)
  ultimately show ?thesis using k1(1) b idle(4) len o
    by (intro exI [of _ k1]) (simp add: PostOffice_Receive_def box_at_def MailBox_Get_def)
qed

subsection \<open>The same mail\<close>

lemma mail_of_sent:
  assumes "unat (mh_length mailH) \<le> 40" and "unat (mh_length mailH) \<le> length data" and "length junk = 52"
    and "length wjunk = 64"
  shows "mail_header_of (received (sent_packet n junk wjunk pktH mailH data) buffer) = mailH"
    and "mail_of mjunk (sent_packet n junk wjunk pktH mailH data) buffer =
      \<lparr>pktHdr = sent_header n pktH mailH, mailHdr = mailH,
       mail_data = take (unat (mh_length mailH)) data @ drop (unat (mh_length mailH)) mjunk\<rparr>"
proof -
  let ?l = "unat (mh_length mailH)" and ?ph = "sent_header n pktH mailH" and ?d = "sent_data junk mailH data"
  let ?p = "sent_packet n junk wjunk pktH mailH data"
  note size = sent_length [OF assms(1), of n pktH] and d = send_data_buffer [OF assms(1-3)]
  have "unat (ph_length ?ph) \<le> length ?d" using size(1) d(2) assms(1) by simp
  note parts = wire_packet_parts [OF size(2) assms(4) this, folded sent_packet_def]
  have r: "received ?p buffer = mail_header_bytes mailH @ take ?l data @ drop (12 + ?l) buffer"
    unfolding received_def parts(2) size(1) using assms(1-3) by (simp add: sent_data_def)
  show h: "mail_header_of (received ?p buffer) = mailH"
    unfolding r by (simp add: mail_header_of_def mail_header_bytes_def)
  show "mail_of mjunk ?p buffer = \<lparr>pktHdr = ?ph, mailHdr = mailH, mail_data = take ?l data @ drop ?l mjunk\<rparr>"
    using assms(2) h [unfolded r] unfolding mail_of_def Let_def parts(1) r by simp
qed

subsection \<open>Properties\<close>

text \<open>
  A machine for the witnesses: one thread, interrupts on, one mailbox at address 7, the first poll
  of the network at time 100; \<open>incoming\<close> is what the polls find.
\<close>

definition office_core :: "32 word \<Rightarrow> (nat \<Rightarrow> byte list option) \<Rightarrow> net_core" where
  "office_core ident incoming = \<lparr>n_from = 0, n_in = incoming, n_ident = ident, n_chance = 1, n_wire = [],
     n_office = \<lparr>messageAvailable = 0, messageSent = 1, sendLock = 10, netAddr = ident, numBoxes = 1, boxes = [7]\<rparr>\<rparr>"

definition office_boot :: "32 word \<Rightarrow> (nat \<Rightarrow> byte list option) \<Rightarrow> (net_handler, unit) okernel_scheme" where
  "office_boot ident incoming =
     (let k = skernel.extend
          (pkernel.extend
            (ukernel.extend
              (kernel.extend Initialize (ukernel.fields (Machine_new False 0 0) Map.empty (\<lambda>_ _. 0)))
              (pkernel.fields Map.empty))
            (skernel.fields Map.empty Map.empty Map.empty))
          (lkernel.fields Map.empty);
        k = nkernel.extend
          (lkernel.extend k (nkernel.fields \<lparr>net_ident = ident, net_open = True, chanceToWork = 1, net_in = incoming, net_polls = 0, net_wire = [],
             net_writeHandler = NetWriteDone, net_readHandler = NetReadAvail, net_arg = 0, sendBusy = False,
             inHdr = \<lparr>ph_to = 0, ph_from = 0, ph_length = 0\<rparr>, inbox = replicate 52 0\<rparr>))
          (okernel.fields (n_office (office_core ident incoming)));
        k = put_sem 0 (Semaphore_new 0) (put_sem 1 (Semaphore_new 0) k)
      in SynchList_new 7 5 8 None 6 9 (Lock_new 10 11 None (k\<lparr>level := IntOn,
           pending := [dev_entry NetworkReadPoll NetworkRecvInt 100]\<rparr>)))"

lemma office_boot_idle:
  assumes "\<And>i p. incoming i = Some p \<Longrightarrow> packet_ok ident p"
  shows "office_idle 0 (office_core ident incoming) {8, 9, 11} [[]] (office_boot ident incoming)"
proof -
  let ?k = "office_boot ident incoming" and ?n = "office_core ident incoming"
  note boot = office_boot_def office_core_def skernel.defs pkernel.defs ukernel.defs kernel.defs lkernel.defs nkernel.defs
    okernel.defs Initialize_def Statistics_new_def Thread_new_def SynchList_new_def Lock_new_def Condition_new_def
    put_sem_def Semaphore_new_def Let_def
  have "settled ?k" by (simp add: boot settled_def pending_ok_def none_due_def ticks_ok_def)
  moreover have "net_state 0 ?n (Semaphore_new 0) (Semaphore_new 0) 100 ?k"
    using assms by (simp add: net_state_iff dev_thread_def stack_ok_def net_ok_def arrived_def boot)
  moreover have "lists_hold {8, 9, 11} [7] [[]] ?k"
    by (simp add: lists_hold_def sl_ready_def boot)
  moreover have "lock_apart 10 11 [7] ?k" by (simp add: lock_apart_def sl_parts_def boot)
  moreover have "locks ?k 10 = Some \<lparr>Sema = 11, threadHoldLock = None\<rparr>" "semaphores ?k 11 = Some (Semaphore_new 1)"
    "level ?k = IntOn"
    by (simp_all add: boot)
  moreover have "n_office ?n = \<lparr>messageAvailable = 0, messageSent = 1, sendLock = 10, netAddr = ident, numBoxes = 1, boxes = [7]\<rparr>"
    "n_ident ?n = ident"
    by (simp_all add: office_core_def)
  ultimately show ?thesis
    unfolding office_idle_def net_calm_state
    by (intro conjI exI) (assumption | simp)+
qed

text \<open>
  C21: One pass of the postal worker. When the next packet \<open>p\<close> comes at poll \<open>N\<close>, the pass returns:
  with the mail behind the others in the mailbox that its header names, every other mailbox as it
  was and the device ready for the next packet, if the box exists and the length fits; and otherwise
  with the failed \<open>ASSERT\<close> that stops the kernel, whoever sent the packet.
\<close>

theorem deliver_one_files_mail:
  assumes "office_idle t n own xss k" and "first_packet n N p" and "length buffer = 52" and "length junk = 40"
  shows "if mail_header_ok (int (length xss)) (mail_header_of (received p buffer))
    then \<exists>k'. deliver_one (net_cpu c) junk buffer k = Some (Inr (received p buffer, k')) \<and>
      (let i = nat (sint (mh_to (mail_header_of (received p buffer)))) in
       office_idle t (n\<lparr>n_from := Suc N\<rparr>) own (xss[i := xss ! i @ [mail_of junk p buffer]]) k')
    else deliver_one (net_cpu c) junk buffer k = Some (Inl AssertFailed)"
  using deliver_packet [OF assms, of c] by (simp add: Let_def)

text \<open>A packet with a mail of two bytes, and one that names a mailbox that does not exist.\<close>

definition some_packet :: "32 word \<Rightarrow> byte list" where
  "some_packet box =
     wire_packet (replicate 64 0) \<lparr>ph_to = 1, ph_from = 0, ph_length = 14\<rparr>
       (mail_header_bytes \<lparr>mh_to = box, mh_from = 0, mh_length = 2\<rparr> @ [104, 105])"

lemma some_packet_ok: "packet_ok 1 (some_packet box)" "mail_header_of (received (some_packet box) (replicate 52 0)) =
    \<lparr>mh_to = box, mh_from = 0, mh_length = 2\<rparr>"
proof -
  have "header_ok \<lparr>ph_to = 1, ph_from = 0, ph_length = 14\<rparr>" by (simp add: header_ok_def)
  note parts = wire_packet_parts [OF this, of "replicate 64 0"
    "mail_header_bytes \<lparr>mh_to = box, mh_from = 0, mh_length = 2\<rparr> @ [104, 105]", folded some_packet_def]
  show "packet_ok 1 (some_packet box)" using parts(3) by simp
  have "packet_data (some_packet box) = mail_header_bytes \<lparr>mh_to = box, mh_from = 0, mh_length = 2\<rparr> @ [104, 105]"
    using parts(2) by simp
  then show "mail_header_of (received (some_packet box) (replicate 52 0)) = \<lparr>mh_to = box, mh_from = 0, mh_length = 2\<rparr>"
    by (simp add: received_def mail_header_of_def mail_header_bytes_def)
qed

theorem deliver_one_files_mail_witness:
  "(\<exists>k'. deliver_one (net_cpu base_cpu) (replicate 40 0) (replicate 52 0)
      (office_boot 1 [3 \<mapsto> some_packet 0]) = Some (Inr (received (some_packet 0) (replicate 52 0), k'))) \<and>
   deliver_one (net_cpu base_cpu) (replicate 40 0) (replicate 52 0)
      (office_boot 1 [3 \<mapsto> some_packet 2]) = Some (Inl AssertFailed)"
proof -
  have idle: "office_idle 0 (office_core 1 [3 \<mapsto> some_packet b]) {8, 9, 11} [[]] (office_boot 1 [3 \<mapsto> some_packet b])" for b
    by (rule office_boot_idle) (auto simp: some_packet_ok split: if_splits)
  have first: "first_packet (office_core 1 [3 \<mapsto> some_packet b]) 3 (some_packet b)" for b
    by (simp add: first_packet_def office_core_def)
  have "mail_header_ok 1 \<lparr>mh_to = 0, mh_from = 0, mh_length = 2\<rparr>" "\<not> mail_header_ok 1 \<lparr>mh_to = 2, mh_from = 0, mh_length = 2\<rparr>"
    by (simp_all add: mail_header_ok_def)
  with deliver_one_files_mail [OF idle first, of "replicate 52 0" "replicate 40 0" 0 base_cpu]
    deliver_one_files_mail [OF idle first, of "replicate 52 0" "replicate 40 0" 2 base_cpu]
  show ?thesis by (auto simp: some_packet_ok Let_def)
qed

text \<open>
  C11: From \<open>Send\<close> to \<open>Receive\<close>. A \<open>Send\<close> with a legal header returns, and unless the network drops
  it (\<open>Random() % 100\<close> against the reliability) its packet is the next on the wire. When that packet
  is the next one that a second machine finds, the postal worker there files it, and \<open>Receive\<close> from
  its mailbox returns, with the packet header as sent (the sender's address and the length filled
  in), the mail header and the bytes of the message, in front of what the receiver's array held.
\<close>

theorem Send_Receive_round_trip:
  assumes "office_idle tA nA ownA xsA kA" and "office_idle tB nB ownB xsB kB"
    and "mail_header_ok (int (length xsA)) mailH" and "mail_header_ok (int (length xsB)) mailH"
    and "xsB ! nat (sint (mh_to mailH)) = []"
    and "length junk = 52" and "length wjunk = 64" and "length mjunk = 40" and "length buffer = 52"
    and "unat (mh_length mailH) \<le> length data" and "unat (mh_length mailH) \<le> length out"
    and "real_of_int (random smod 100) < n_chance nA * 100"
    and "first_packet nB N (sent_packet nA junk wjunk pktH mailH data)"
  shows "(\<exists>kA'. PostOffice_Send (net_cpu cA) random junk wjunk pktH mailH data kA = Some (Inr kA') \<and>
      net_wire (network kA') = net_wire (network kA) @ [(ph_to pktH, sent_packet nA junk wjunk pktH mailH data)]) \<and>
    (\<exists>buffer' kB' kB''. deliver_one (net_cpu cB) mjunk buffer kB = Some (Inr (buffer', kB')) \<and>
      PostOffice_Receive (net_cpu cB) (sint (mh_to mailH)) out kB' = Some (Inr (sent_header nA pktH mailH, mailH,
        take (unat (mh_length mailH)) data @ drop (unat (mh_length mailH)) out, kB'')))"
proof (rule conjI)
  have wire: "net_wire (network k) = n_wire n" if "office_idle t n own xs k" for t n own xs k
    using that by (auto simp: office_idle_def net_calm_state net_state_iff net_ok_def)
  show "\<exists>kA'. PostOffice_Send (net_cpu cA) random junk wjunk pktH mailH data kA = Some (Inr kA') \<and>
      net_wire (network kA') = net_wire (network kA) @ [(ph_to pktH, sent_packet nA junk wjunk pktH mailH data)]"
    using Send_idle [OF assms(1,3,6,7,10), of cA random pktH] assms(12) wire [OF assms(1)]
    by (auto simp: wire_after_def sent_packet_def sent_header_def dest!: wire)
  have m: "unat (mh_length mailH) \<le> 40" and i: "0 \<le> sint (mh_to mailH)" "sint (mh_to mailH) < int (length xsB)"
    using assms(4) by (simp_all add: mail_header_ok_def)
  note same = mail_of_sent [OF m assms(10,6,7), where n = nA and pktH = pktH]
  let ?p = "sent_packet nA junk wjunk pktH mailH data" and ?i = "nat (sint (mh_to mailH))"
  obtain kB' where kB': "deliver_one (net_cpu cB) mjunk buffer kB = Some (Inr (received ?p buffer, kB'))"
    "office_idle tB (nB\<lparr>n_from := Suc N\<rparr>) ownB (xsB[?i := [mail_of mjunk ?p buffer]]) kB'"
    using deliver_packet(1) [OF assms(2,13,9,8), of cB] assms(4,5) by (auto simp: same(1))
  from Receive_idle [OF kB'(2), of "sint (mh_to mailH)" "mail_of mjunk ?p buffer" "[]" out cB] m i assms(8,10,11)
  show "\<exists>buffer' kB' kB''. deliver_one (net_cpu cB) mjunk buffer kB = Some (Inr (buffer', kB')) \<and>
      PostOffice_Receive (net_cpu cB) (sint (mh_to mailH)) out kB' = Some (Inr (sent_header nA pktH mailH, mailH,
        take (unat (mh_length mailH)) data @ drop (unat (mh_length mailH)) out, kB''))"
    using kB'(1) by (auto simp: same(2))
qed

theorem Send_Receive_round_trip_witness:
  "\<exists>p buffer' kB' kB''. deliver_one (net_cpu base_cpu) (replicate 40 0) (replicate 52 0) (office_boot 1 [3 \<mapsto> p]) =
      Some (Inr (buffer', kB')) \<and>
    PostOffice_Receive (net_cpu base_cpu) 0 (replicate 40 0) kB' =
      Some (Inr (\<lparr>ph_to = 1, ph_from = 0, ph_length = 14\<rparr>, \<lparr>mh_to = 0, mh_from = 5, mh_length = 2\<rparr>,
        [104, 105] @ replicate 38 0, kB''))"
proof -
  let ?h = "\<lparr>mh_to = 0, mh_from = 5, mh_length = 2\<rparr>" and ?ph = "\<lparr>ph_to = 1, ph_from = 7, ph_length = 0\<rparr>"
  let ?A = "office_core 0 Map.empty"
  let ?p = "sent_packet ?A (replicate 52 0) (replicate 64 0) ?ph ?h [104, 105]"
  have sent: "sent_header ?A ?ph ?h = \<lparr>ph_to = 1, ph_from = 0, ph_length = 14\<rparr>"
    by (simp add: sent_header_def office_core_def)
  have "header_ok (sent_header ?A ?ph ?h)" unfolding sent by (simp add: header_ok_def)
  note p = wire_packet_parts(3) [OF this, of "replicate 64 0" "sent_data (replicate 52 0) ?h [104, 105]"]
  have "length (sent_data (replicate 52 0) ?h [104, 105]) = 52" by (rule send_data_buffer(2)) simp_all
  with p have p: "packet_ok 1 ?p" by (simp add: sent sent_packet_def)
  have A: "office_idle 0 ?A {8, 9, 11} [[]] (office_boot 0 Map.empty)" by (rule office_boot_idle) simp
  have B: "office_idle 0 (office_core 1 [3 \<mapsto> ?p]) {8, 9, 11} [[]] (office_boot 1 [3 \<mapsto> ?p])"
    by (rule office_boot_idle) (use p in \<open>simp split: if_splits\<close>)
  have first: "first_packet (office_core 1 [3 \<mapsto> ?p]) 3 ?p" by (simp add: first_packet_def office_core_def)
  have chance: "real_of_int (7 smod 100) < n_chance ?A * 100" by (simp add: office_core_def)
  have h: "mail_header_ok (int (length [[] :: Mail list])) ?h" by (simp add: mail_header_ok_def)
  show ?thesis
    using Send_Receive_round_trip [OF A B h h _ _ _ _ _ _ _ chance first, of "replicate 40 0" "replicate 52 0"
        "replicate 40 0" base_cpu base_cpu]
    by (auto simp: sent)
qed

end
