(* ===== verification/Bounded_Buffer.thy ===== *)
theory Bounded_Buffer
  imports Calm_Kernel
begin

section \<open>The bounded buffer, threads/BoundedBuffer.cc\<close>

text \<open>
  A ring of bytes behind a lock, with a condition for writers that wait for room and one for readers
  that wait for bytes. What it promises is a queue of bytes; the buffers are shared by pointer and
  live in a map. Sizes are taken to stay below \<open>2 ^ 30\<close>, so that the indices do not overflow.
\<close>

subsection \<open>The data\<close>

record BoundedBuffer =
  maxSize :: int
  bb_head :: int
  bb_tail :: int
  usedSize :: int
  bb_bytes :: "byte list"
  bb_lock :: nat
  bb_full :: nat
  bb_empty :: nat

record 'h bkernel = "'h skernel" +
  buffers :: "nat \<Rightarrow> BoundedBuffer option"

definition bb_at :: "nat \<Rightarrow> ('h, 'm) bkernel_scheme \<Rightarrow> BoundedBuffer result" where
  "bb_at a k = (case buffers k a of None \<Rightarrow> Inl DanglingPointer | Some b \<Rightarrow> Inr b)"

definition put_bb :: "nat \<Rightarrow> BoundedBuffer \<Rightarrow> ('h, 'm) bkernel_scheme \<Rightarrow> ('h, 'm) bkernel_scheme" where
  "put_bb a b k = k\<lparr>buffers := (buffers k)(a \<mapsto> b)\<rparr>"

text \<open>\<open>bytes\<close> is what the new array holds; the pairs are the addresses of a condition and its semaphore.\<close>

definition BoundedBuffer_new ::
  "nat \<Rightarrow> nat \<times> nat \<Rightarrow> tid option \<Rightarrow> nat \<times> nat \<Rightarrow> nat \<times> nat \<Rightarrow> byte list \<Rightarrow> int \<Rightarrow>
    ('h, 'm) bkernel_scheme \<Rightarrow> ('h, 'm) bkernel_scheme" where
  "BoundedBuffer_new a l junk fc ec bytes sz k =
     (let k = Lock_new (fst l) (snd l) junk k;
          k = Condition_new (fst fc) (snd fc) k;
          k = Condition_new (fst ec) (snd ec) k
      in put_bb a \<lparr>maxSize = sz, bb_head = 0, bb_tail = 0, usedSize = 0, bb_bytes = bytes,
           bb_lock = fst l, bb_full = fst fc, bb_empty = fst ec\<rparr> k)"

definition BoundedBuffer_delete :: "nat \<Rightarrow> ('h, 'm) bkernel_scheme \<Rightarrow> ('h, 'm) bkernel_scheme result" where
  "BoundedBuffer_delete a k =
     rbind (bb_at a k) (\<lambda>b.
     rbind (Lock_delete (bb_lock b) k) (\<lambda>k.
     rbind (Condition_delete (bb_full b) k) (\<lambda>k.
     rbind (Condition_delete (bb_empty b) k) (\<lambda>k.
     Inr (k\<lparr>buffers := (buffers k)(a := None)\<rparr>)))))"

subsection \<open>The operations\<close>

text \<open>What \<open>Write\<close> and \<open>Read\<close> do to the buffer once they may; \<open>data\<close> is the caller's array.\<close>

definition write_bytes :: "byte list \<Rightarrow> int \<Rightarrow> BoundedBuffer \<Rightarrow> BoundedBuffer result" where
  "write_bytes data sz b =
     rbind (for_range 0 sz (\<lambda>i bs.
       rbind (crem (bb_tail b + i) (maxSize b)) (\<lambda>j.
       rbind (aget data i) (\<lambda>c. aset bs j c))) (bb_bytes b)) (\<lambda>bs.
     rbind (crem (bb_tail b + sz) (maxSize b)) (\<lambda>t.
     Inr (b\<lparr>bb_tail := t, usedSize := usedSize b + sz, bb_bytes := bs\<rparr>)))"

definition read_bytes :: "byte list \<Rightarrow> int \<Rightarrow> BoundedBuffer \<Rightarrow> (byte list \<times> BoundedBuffer) result" where
  "read_bytes data sz b =
     rbind (for_range 0 sz (\<lambda>i data.
       rbind (crem (bb_head b + i) (maxSize b)) (\<lambda>j.
       rbind (aget (bb_bytes b) j) (\<lambda>c. aset data i c))) data) (\<lambda>data.
     rbind (crem (bb_head b + sz) (maxSize b)) (\<lambda>h.
     Inr (data, b\<lparr>bb_head := h, usedSize := usedSize b - sz\<rparr>)))"

partial_function (option) wait_room ::
  "('h, ('h, 'm) bkernel_scheme) cpu \<Rightarrow> nat \<Rightarrow> int \<Rightarrow> ('h, 'm) bkernel_scheme \<Rightarrow>
    ('h, 'm) bkernel_scheme result option" where
  "wait_room cpu a sz k =
     orbind (Some (bb_at a k)) (\<lambda>b.
     if maxSize b - usedSize b < sz then orbind (Condition_Wait cpu (bb_full b) (bb_lock b) k) (wait_room cpu a sz)
     else Some (Inr k))"

partial_function (option) wait_bytes ::
  "('h, ('h, 'm) bkernel_scheme) cpu \<Rightarrow> nat \<Rightarrow> int \<Rightarrow> ('h, 'm) bkernel_scheme \<Rightarrow>
    ('h, 'm) bkernel_scheme result option" where
  "wait_bytes cpu a sz k =
     orbind (Some (bb_at a k)) (\<lambda>b.
     if usedSize b - sz < 0 then orbind (Condition_Wait cpu (bb_empty b) (bb_lock b) k) (wait_bytes cpu a sz)
     else Some (Inr k))"

definition BoundedBuffer_Write ::
  "('h, ('h, 'm) bkernel_scheme) cpu \<Rightarrow> nat \<Rightarrow> byte list \<Rightarrow> int \<Rightarrow> ('h, 'm) bkernel_scheme \<Rightarrow>
    ('h, 'm) bkernel_scheme result option" where
  "BoundedBuffer_Write cpu a data sz k =
     orbind (Some (bb_at a k)) (\<lambda>b.
     orbind (Some (ASSERT (sz \<le> maxSize b))) (\<lambda>_.
     orbind (Lock_Acquire cpu (bb_lock b) k) (\<lambda>k.
     orbind (wait_room cpu a sz k) (\<lambda>k.
     orbind (Some (rbind (bb_at a k) (\<lambda>b. rbind (write_bytes data sz b) (\<lambda>b. Inr (put_bb a b k))))) (\<lambda>k.
     orbind (Condition_Signal cpu (bb_empty b) k) (\<lambda>k.
     Lock_Release cpu (bb_lock b) k))))))"

definition BoundedBuffer_Read ::
  "('h, ('h, 'm) bkernel_scheme) cpu \<Rightarrow> nat \<Rightarrow> byte list \<Rightarrow> int \<Rightarrow> ('h, 'm) bkernel_scheme \<Rightarrow>
    (byte list \<times> ('h, 'm) bkernel_scheme) result option" where
  "BoundedBuffer_Read cpu a data sz k =
     orbind (Some (bb_at a k)) (\<lambda>b.
     orbind (Lock_Acquire cpu (bb_lock b) k) (\<lambda>k.
     orbind (wait_bytes cpu a sz k) (\<lambda>k.
     orbind (Some (rbind (bb_at a k) (\<lambda>b. rbind (read_bytes data sz b) (\<lambda>(data, b). Inr (data, put_bb a b k))))) (\<lambda>(data, k).
     orbind (Condition_Signal cpu (bb_full b) k) (\<lambda>k.
     orbind (Lock_Release cpu (bb_lock b) k) (\<lambda>k.
     Some (Inr (data, k))))))))"

text \<open>The bytes that the loop of \<open>Print\<close> prints from index \<open>i\<close> on.\<close>

partial_function (option) print_bytes :: "BoundedBuffer \<Rightarrow> int \<Rightarrow> byte list result option" where
  "print_bytes b i =
     (if i = bb_tail b then Some (Inr [])
      else orbind (Some (aget (bb_bytes b) i)) (\<lambda>c.
           orbind (Some (crem (i + 1) (maxSize b))) (\<lambda>j.
           orbind (print_bytes b j) (\<lambda>cs. Some (Inr (c # cs))))))"

definition BoundedBuffer_Print :: "BoundedBuffer \<Rightarrow> byte list result option" where
  "BoundedBuffer_Print b = print_bytes b (bb_head b)"

definition getUsed :: "BoundedBuffer \<Rightarrow> int" where "getUsed b = usedSize b"

subsection \<open>The ring as a queue\<close>

definition bb_ok :: "BoundedBuffer \<Rightarrow> bool" where
  "bb_ok b \<longleftrightarrow> 0 < maxSize b \<and> int (length (bb_bytes b)) = maxSize b \<and> 0 \<le> bb_head b \<and> bb_head b < maxSize b \<and>
     0 \<le> usedSize b \<and> usedSize b \<le> maxSize b \<and> bb_tail b = (bb_head b + usedSize b) mod maxSize b"

definition contents :: "BoundedBuffer \<Rightarrow> byte list" where
  "contents b = map (\<lambda>i. bb_bytes b ! nat ((bb_head b + int i) mod maxSize b)) [0..<nat (usedSize b)]"

lemma length_contents [simp]: "length (contents b) = nat (usedSize b)"
  by (simp add: contents_def)

lemma contents_nth: "int n < usedSize b \<Longrightarrow> contents b ! n = bb_bytes b ! nat ((bb_head b + int n) mod maxSize b)"
  by (simp add: contents_def zless_nat_eq_int_zless)

lemma ring_inj:
  assumes "0 \<le> i" "i < m" "0 \<le> j" "j < m" and "(t + i) mod m = (t + j) mod (m :: int)"
  shows "i = j"
proof -
  have "m dvd (t + i) - (t + j)" using assms(5) by (simp add: mod_eq_dvd_iff)
  then have "m dvd i - j" by simp
  then show ?thesis using assms zdvd_not_zless [of "i - j" m] zdvd_not_zless [of "j - i" m]
    by (metis (no_types, opaque_lifting) diff_ge_0_iff_ge diff_gt_0_iff_gt dvd_diff_commute less_iff_diff_less_0
        linorder_cases less_add_same_cancel1 diff_add_cancel add.commute diff_less_eq add_strict_increasing2)
qed

lemma write_bytes_spec:
  assumes ok: "bb_ok b" and sz: "0 \<le> sz" "sz \<le> maxSize b - usedSize b" "sz \<le> int (length data)"
  shows "\<exists>b'. write_bytes data sz b = Inr b' \<and> bb_ok b' \<and> contents b' = contents b @ take (nat sz) data \<and>
    maxSize b' = maxSize b \<and> bb_lock b' = bb_lock b \<and> bb_full b' = bb_full b \<and> bb_empty b' = bb_empty b"
proof -
  let ?m = "maxSize b" and ?t = "bb_tail b" and ?h = "bb_head b" and ?u = "usedSize b"
  have m: "0 < ?m" "int (length (bb_bytes b)) = ?m" "0 \<le> ?t" "0 \<le> ?u" "?t = (?h + ?u) mod ?m" "0 \<le> ?h" "?h < ?m"
    using ok by (simp_all add: bb_ok_def)
  define P where "P = (\<lambda>j bs. length bs = length (bb_bytes b) \<and>
    (\<forall>i. 0 \<le> i \<and> i < j \<longrightarrow> bs ! nat ((?t + i) mod ?m) = data ! nat i) \<and>
    (\<forall>q. 0 \<le> q \<and> q < ?m \<and> (\<forall>i. 0 \<le> i \<and> i < j \<longrightarrow> (?t + i) mod ?m \<noteq> q) \<longrightarrow> bs ! nat q = bb_bytes b ! nat q))"
  let ?body = "\<lambda>i bs. rbind (crem (?t + i) ?m) (\<lambda>j. rbind (aget data i) (\<lambda>c. aset bs j c))"
  have "\<exists>bs. for_range 0 sz ?body (bb_bytes b) = Inr bs \<and> P sz bs"
  proof (rule for_range_rule)
    show "P 0 (bb_bytes b)" by (auto simp: P_def)
    fix j bs assume j: "0 \<le> j" "j < sz" "P j bs"
    let ?q = "(?t + j) mod ?m"
    have q: "0 \<le> ?q" "?q < ?m" using m by simp_all
    have len: "length bs = length (bb_bytes b)" using j(3) by (simp add: P_def)
    have "?body j bs = Inr (bs[nat ?q := data ! nat j])" using j m sz q len by simp
    moreover have "P (j + 1) (bs[nat ?q := data ! nat j])"
      unfolding P_def
    proof (intro conjI allI impI)
      fix i assume i: "0 \<le> i \<and> i < j + 1"
      show "bs[nat ?q := data ! nat j] ! nat ((?t + i) mod ?m) = data ! nat i"
      proof (cases "i = j")
        case True
        then show ?thesis using q m len by (simp add: nat_less_iff)
      next
        case False
        then have "(?t + i) mod ?m \<noteq> ?q" using ring_inj [of i ?m j ?t] i j m sz by auto
        then have "nat ((?t + i) mod ?m) \<noteq> nat ?q" using m q by (simp add: eq_nat_nat_iff)
        then show ?thesis using j(3) i False by (simp add: P_def)
      qed
    next
      fix r assume r: "0 \<le> r \<and> r < ?m \<and> (\<forall>i. 0 \<le> i \<and> i < j + 1 \<longrightarrow> (?t + i) mod ?m \<noteq> r)"
      then have "r \<noteq> ?q" using j by auto
      then have "nat r \<noteq> nat ?q" using r q by (simp add: eq_nat_nat_iff)
      then show "bs[nat ?q := data ! nat j] ! nat r = bb_bytes b ! nat r" using j(3) r by (simp add: P_def)
    qed (simp add: len)
    ultimately have "?body j bs = Inr (bs[nat ?q := data ! nat j]) \<and> P (j + 1) (bs[nat ?q := data ! nat j])" by (rule conjI)
    then show "\<exists>bs'. ?body j bs = Inr bs' \<and> P (j + 1) bs'" by (rule exI)
  qed (use sz in simp)
  then obtain bs where bs: "for_range 0 sz ?body (bb_bytes b) = Inr bs" "P sz bs" by blast
  let ?b = "b\<lparr>bb_tail := (?t + sz) mod ?m, usedSize := ?u + sz, bb_bytes := bs\<rparr>"
  have run: "write_bytes data sz b = Inr ?b" using bs(1) m sz by (simp add: write_bytes_def)
  have "bb_ok ?b" using ok bs(2) sz m by (simp add: bb_ok_def P_def mod_add_left_eq add.assoc)
  moreover have "contents ?b = contents b @ take (nat sz) data"
  proof (rule nth_equalityI)
    show "length (contents ?b) = length (contents b @ take (nat sz) data)"
      using m sz by (simp add: nat_add_distrib)
    fix n assume "n < length (contents ?b)"
    then have n: "int n < ?u + sz" by simp
    have at: "contents ?b ! n = bs ! nat ((?h + int n) mod ?m)" using n contents_nth [of n ?b] by simp
    show "contents ?b ! n = (contents b @ take (nat sz) data) ! n"
    proof (cases "int n < ?u")
      case True
      have "(?t + i) mod ?m \<noteq> (?h + int n) mod ?m" if "0 \<le> i" "i < sz" for i
      proof
        assume "(?t + i) mod ?m = (?h + int n) mod ?m"
        then have "(?h + (?u + i)) mod ?m = (?h + int n) mod ?m" unfolding m(5) by (simp add: mod_add_left_eq add.assoc)
        from ring_inj [OF _ _ _ _ this] show False using True that sz m by auto
      qed
      then have "bs ! nat ((?h + int n) mod ?m) = bb_bytes b ! nat ((?h + int n) mod ?m)"
        using bs(2) m by (auto simp: P_def)
      then show ?thesis using at True by (simp add: nth_append contents_nth zless_nat_eq_int_zless)
    next
      case False
      let ?i = "int n - ?u"
      have i: "0 \<le> ?i" "?i < sz" using False n by simp_all
      have "(?h + int n) mod ?m = (?t + ?i) mod ?m" unfolding m(5) by (simp add: mod_add_left_eq)
      then have "contents ?b ! n = data ! nat ?i" using at bs(2) i by (simp add: P_def)
      moreover have "nat ?i = n - nat ?u" "n - nat ?u < nat sz" "\<not> n < nat ?u" using i m False by linarith+
      ultimately show ?thesis using sz by (simp add: nth_append)
    qed
  qed
  ultimately show ?thesis using run by (intro exI [of _ ?b]) simp
qed

lemma read_bytes_spec:
  assumes ok: "bb_ok b" and sz: "0 \<le> sz" "sz \<le> usedSize b" "sz \<le> int (length data)"
  shows "\<exists>b'. read_bytes data sz b = Inr (take (nat sz) (contents b) @ drop (nat sz) data, b') \<and> bb_ok b' \<and>
    contents b' = drop (nat sz) (contents b) \<and> maxSize b' = maxSize b \<and> bb_lock b' = bb_lock b \<and>
    bb_full b' = bb_full b \<and> bb_empty b' = bb_empty b"
proof -
  let ?m = "maxSize b" and ?h = "bb_head b" and ?u = "usedSize b"
  have m: "0 < ?m" "int (length (bb_bytes b)) = ?m" "0 \<le> ?h" "?h < ?m" "?u \<le> ?m"
    using ok by (simp_all add: bb_ok_def)
  define P where "P = (\<lambda>j d. d = take (nat j) (contents b) @ drop (nat j) data)"
  let ?body = "\<lambda>i d. rbind (crem (?h + i) ?m) (\<lambda>j. rbind (aget (bb_bytes b) j) (\<lambda>c. aset d i c))"
  have "\<exists>d. for_range 0 sz ?body data = Inr d \<and> P sz d"
  proof (rule for_range_rule)
    show "P 0 data" by (simp add: P_def)
    fix j d assume j: "0 \<le> j" "j < sz" "P j d"
    have q: "0 \<le> (?h + j) mod ?m" "(?h + j) mod ?m < ?m" using m by simp_all
    have c: "contents b ! nat j = bb_bytes b ! nat ((?h + j) mod ?m)"
      using j sz contents_nth [of "nat j" b] by simp
    have len: "length d = length data" using j sz by (simp add: P_def)
    have "?body j d = Inr (d[nat j := contents b ! nat j])" using j m sz q c len by simp
    moreover have "P (j + 1) (d[nat j := contents b ! nat j])"
    proof -
      have "nat j < length data" "nat j < length (contents b)" "nat (j + 1) = Suc (nat j)" using j sz by simp_all
      then show ?thesis using j(3)
        by (simp add: P_def list_update_append take_Suc_conv_app_nth flip: Cons_nth_drop_Suc [of "nat j" data])
    qed
    ultimately have "?body j d = Inr (d[nat j := contents b ! nat j]) \<and> P (j + 1) (d[nat j := contents b ! nat j])"
      by (rule conjI)
    then show "\<exists>d'. ?body j d = Inr d' \<and> P (j + 1) d'" by (rule exI)
  qed (use sz in simp)
  then obtain d where d: "for_range 0 sz ?body data = Inr d" "P sz d" by blast
  let ?b = "b\<lparr>bb_head := (?h + sz) mod ?m, usedSize := ?u - sz\<rparr>"
  have run: "read_bytes data sz b = Inr (d, ?b)" using d(1) m sz by (simp add: read_bytes_def)
  have "bb_ok ?b" using ok sz by (simp add: bb_ok_def mod_add_left_eq)
  moreover have "contents ?b = drop (nat sz) (contents b)"
  proof (rule nth_equalityI)
    show "length (contents ?b) = length (drop (nat sz) (contents b))" using sz by (simp add: nat_diff_distrib)
    fix n assume "n < length (contents ?b)"
    then have n: "int n < ?u - sz" by simp
    have "((?h + sz) mod ?m + int n) mod ?m = (?h + int (nat sz + n)) mod ?m"
      using sz(1) by (simp add: mod_add_left_eq add.assoc)
    moreover have "int (nat sz + n) < ?u" using n sz by simp
    ultimately show "contents ?b ! n = drop (nat sz) (contents b) ! n"
      using sz n contents_nth [of n ?b] contents_nth [of "nat sz + n" b] by simp
  qed
  ultimately show ?thesis using run d(2) unfolding P_def by (intro exI [of _ ?b]) simp
qed

text \<open>\<open>Print\<close> prints the bytes of a buffer that is not full; of a full one it prints nothing.\<close>

lemma print_bytes_spec:
  assumes ok: "bb_ok b" and n: "n \<le> nat (usedSize b)" and u: "usedSize b < maxSize b"
  shows "print_bytes b ((bb_head b + int n) mod maxSize b) = Some (Inr (drop n (contents b)))"
  using n
proof (induction "nat (usedSize b) - n" arbitrary: n)
  case 0
  have "0 \<le> usedSize b" using ok by (simp add: bb_ok_def)
  then have "int n = usedSize b" using 0 by linarith
  then show ?case using 0 ok by (subst print_bytes.simps) (simp add: bb_ok_def)
next
  case (Suc d)
  let ?m = "maxSize b" and ?h = "bb_head b" and ?u = "usedSize b"
  have m: "0 < ?m" "int (length (bb_bytes b)) = ?m" "bb_tail b = (?h + ?u) mod ?m" "0 \<le> ?u" using ok by (simp_all add: bb_ok_def)
  have n: "int n < ?u" using Suc(2) by simp
  let ?i = "(?h + int n) mod ?m" and ?j = "(?h + int (Suc n)) mod ?m"
  have i: "?i \<noteq> bb_tail b"
  proof
    assume "?i = bb_tail b"
    then have "?i = (?h + ?u) mod ?m" using m(3) by (rule trans)
    from ring_inj [OF _ _ _ _ this] n m(4) u show False by linarith
  qed
  have "0 \<le> ?i + 1" using m(1) by simp
  moreover have "(?i + 1) mod ?m = ?j" by (simp only: mod_add_left_eq of_nat_Suc add.assoc add.commute [of 1])
  ultimately have j: "crem (?i + 1) ?m = Inr ?j" using m(1) by (simp only: crem_pos)
  have c: "aget (bb_bytes b) ?i = Inr (contents b ! n)" using m contents_nth [OF n] by simp
  have p: "print_bytes b ?j = Some (Inr (drop (Suc n) (contents b)))"
    by (rule Suc(1)) (use Suc(2,3) n in linarith)+
  have "print_bytes b ?i = Some (Inr (contents b ! n # drop (Suc n) (contents b)))"
    by (subst print_bytes.simps) (simp only: i if_False c j p orbind_simps prod.case)
  also have "contents b ! n # drop (Suc n) (contents b) = drop n (contents b)" using n by (simp add: Cons_nth_drop_Suc)
  finally show ?case .
qed

lemma BoundedBuffer_Print_spec:
  assumes "bb_ok b"
  shows "BoundedBuffer_Print b = Some (Inr (if usedSize b < maxSize b then contents b else []))"
proof (cases "usedSize b < maxSize b")
  case True
  have "0 \<le> bb_head b" "bb_head b < maxSize b" using assms by (simp_all add: bb_ok_def)
  then show ?thesis using print_bytes_spec [OF assms _ True, of 0] True by (simp add: BoundedBuffer_Print_def)
next
  case False
  then have "bb_tail b = bb_head b" using assms by (simp add: bb_ok_def)
  then show ?thesis using False by (simp add: BoundedBuffer_Print_def print_bytes.simps)
qed

subsection \<open>One thread\<close>

definition bb_ready :: "nat \<Rightarrow> BoundedBuffer \<Rightarrow> ('h, 'm) bkernel_scheme \<Rightarrow> bool" where
  "bb_ready a b k \<longleftrightarrow> still k \<and> level k = IntOn \<and> buffers k a = Some b \<and> bb_ok b \<and>
     monitor UNIV False (bb_lock b) {bb_full b, bb_empty b} k"

lemma put_bb_simps [simp]:
  "buffers (put_bb a b k) = (buffers k)(a \<mapsto> b)" "still (put_bb a b k) = still k" "level (put_bb a b k) = level k"
  "monitor own held l cs (put_bb a b k) = monitor own held l cs k"
  by (simp_all add: put_bb_def still_def monitor_def signalled_def)

lemma buffers_more: "skernel.more k' = skernel.more k \<Longrightarrow> buffers k' = buffers (k :: ('h, 'm) bkernel_scheme)"
  by (cases k; cases k') simp

lemma Write_ready:
  assumes k: "bb_ready a b k" and sz: "0 \<le> sz" "sz \<le> maxSize b - usedSize b" "sz \<le> int (length data)"
  shows "\<exists>k' b'. BoundedBuffer_Write cpu a data sz k = Some (Inr k') \<and> bb_ready a b' k' \<and>
    contents b' = contents b @ take (nat sz) data \<and> maxSize b' = maxSize b"
proof -
  let ?cs = "{bb_full b, bb_empty b}" and ?l = "bb_lock b"
  have b: "still k" "level k = IntOn" "buffers k a = Some b" "bb_ok b" "monitor UNIV False ?l ?cs k"
    using k by (simp_all add: bb_ready_def)
  obtain b' where b': "write_bytes data sz b = Inr b'" "bb_ok b'" "contents b' = contents b @ take (nat sz) data"
    "maxSize b' = maxSize b" "bb_lock b' = ?l" "bb_full b' = bb_full b" "bb_empty b' = bb_empty b"
    using write_bytes_spec [OF b(4) sz] by blast
  obtain k1 where k1: "Lock_Acquire cpu ?l k = Some (Inr k1)" "still k1" "level k1 = IntOn" "monitor UNIV True ?l ?cs k1"
    "skernel.more k1 = skernel.more k"
    using still.monitor_enter [OF b(1,2,5)] by blast
  have at1: "bb_at a k1 = Inr b" using buffers_more [OF k1(5)] b(3) by (simp add: bb_at_def)
  define k2 where "k2 = put_bb a b' k1"
  obtain k3 where k3: "Condition_Signal cpu (bb_empty b) k2 = Some (Inr k3)" "still k3" "level k3 = IntOn"
    "monitor UNIV True ?l ?cs k3" "skernel.more k3 = skernel.more k2"
    using still.monitor_signal [of k2 UNIV ?l ?cs "bb_empty b" cpu] k1 by (auto simp: k2_def)
  obtain k4 where k4: "Lock_Release cpu ?l k3 = Some (Inr k4)" "still k4" "level k4 = IntOn"
    "monitor UNIV False ?l ?cs k4" "skernel.more k4 = skernel.more k3"
    using still.monitor_leave [OF k3(2-4)] by blast
  have "buffers k4 a = Some b'" using buffers_more [OF trans [OF k4(5) k3(5)]] by (simp add: k2_def)
  then have "bb_ready a b' k4" using k4 b' by (simp add: bb_ready_def)
  moreover have "wait_room cpu a sz k1 = Some (Inr k1)" using at1 sz by (subst wait_room.simps) simp
  moreover have "bb_at a k = Inr b" "sz \<le> maxSize b" using b sz by (simp_all add: bb_at_def bb_ok_def)
  ultimately show ?thesis using b' at1 k1(1) k3(1) k4(1)
    by (intro exI [of _ k4] exI [of _ b']) (simp add: BoundedBuffer_Write_def k2_def)
qed

lemma Read_ready:
  assumes k: "bb_ready a b k" and sz: "0 \<le> sz" "sz \<le> usedSize b" "sz \<le> int (length data)"
  shows "\<exists>k' b'. BoundedBuffer_Read cpu a data sz k = Some (Inr (take (nat sz) (contents b) @ drop (nat sz) data, k')) \<and>
    bb_ready a b' k' \<and> contents b' = drop (nat sz) (contents b) \<and> maxSize b' = maxSize b"
proof -
  let ?cs = "{bb_full b, bb_empty b}" and ?l = "bb_lock b"
  have b: "still k" "level k = IntOn" "buffers k a = Some b" "bb_ok b" "monitor UNIV False ?l ?cs k"
    using k by (simp_all add: bb_ready_def)
  obtain b' where b': "read_bytes data sz b = Inr (take (nat sz) (contents b) @ drop (nat sz) data, b')" "bb_ok b'"
    "contents b' = drop (nat sz) (contents b)"
    "maxSize b' = maxSize b" "bb_lock b' = ?l" "bb_full b' = bb_full b" "bb_empty b' = bb_empty b"
    using read_bytes_spec [OF b(4) sz] by blast
  obtain k1 where k1: "Lock_Acquire cpu ?l k = Some (Inr k1)" "still k1" "level k1 = IntOn" "monitor UNIV True ?l ?cs k1"
    "skernel.more k1 = skernel.more k"
    using still.monitor_enter [OF b(1,2,5)] by blast
  have at1: "bb_at a k1 = Inr b" using buffers_more [OF k1(5)] b(3) by (simp add: bb_at_def)
  define k2 where "k2 = put_bb a b' k1"
  obtain k3 where k3: "Condition_Signal cpu (bb_full b) k2 = Some (Inr k3)" "still k3" "level k3 = IntOn"
    "monitor UNIV True ?l ?cs k3" "skernel.more k3 = skernel.more k2"
    using still.monitor_signal [of k2 UNIV ?l ?cs "bb_full b" cpu] k1 by (auto simp: k2_def)
  obtain k4 where k4: "Lock_Release cpu ?l k3 = Some (Inr k4)" "still k4" "level k4 = IntOn"
    "monitor UNIV False ?l ?cs k4" "skernel.more k4 = skernel.more k3"
    using still.monitor_leave [OF k3(2-4)] by blast
  have "buffers k4 a = Some b'" using buffers_more [OF trans [OF k4(5) k3(5)]] by (simp add: k2_def)
  then have "bb_ready a b' k4" using k4 b' by (simp add: bb_ready_def)
  moreover have "wait_bytes cpu a sz k1 = Some (Inr k1)" using at1 sz by (subst wait_bytes.simps) simp
  moreover have "bb_at a k = Inr b" using b by (simp add: bb_at_def)
  ultimately show ?thesis using b' at1 k1(1) k3(1) k4(1)
    by (intro exI [of _ k4] exI [of _ b']) (simp add: BoundedBuffer_Read_def k2_def)
qed

text \<open>Waiting for room or bytes that no other thread will make.\<close>

lemma Write_halts:
  assumes k: "bb_ready a b k" and sz: "maxSize b - usedSize b < sz" "sz \<le> maxSize b"
  shows "BoundedBuffer_Write cpu a data sz k = Some (Inl Halted)"
proof -
  let ?cs = "{bb_full b, bb_empty b}" and ?l = "bb_lock b"
  have b: "still k" "level k = IntOn" "buffers k a = Some b" "monitor UNIV False ?l ?cs k"
    using k by (simp_all add: bb_ready_def)
  obtain k1 where k1: "Lock_Acquire cpu ?l k = Some (Inr k1)" "still k1" "level k1 = IntOn" "monitor UNIV True ?l ?cs k1"
    "skernel.more k1 = skernel.more k"
    using still.monitor_enter [OF b(1,2,4)] by blast
  have "wait_room cpu a sz k' = orbind (Condition_Wait cpu (bb_full b) ?l k') (wait_room cpu a sz)"
    if "skernel.more k' = skernel.more k" for k'
    using buffers_more [OF that] b(3) sz(1) by (subst wait_room.simps) (simp add: bb_at_def)
  from still_wait_halts [OF this k1(2-4) _ k1(5)] have "wait_room cpu a sz k1 = Some (Inl Halted)" by simp
  then show ?thesis using k1(1) b(3) sz(2) by (simp add: BoundedBuffer_Write_def bb_at_def)
qed

lemma Read_halts:
  assumes k: "bb_ready a b k" and sz: "usedSize b < sz"
  shows "BoundedBuffer_Read cpu a data sz k = Some (Inl Halted)"
proof -
  let ?cs = "{bb_full b, bb_empty b}" and ?l = "bb_lock b"
  have b: "still k" "level k = IntOn" "buffers k a = Some b" "monitor UNIV False ?l ?cs k"
    using k by (simp_all add: bb_ready_def)
  obtain k1 where k1: "Lock_Acquire cpu ?l k = Some (Inr k1)" "still k1" "level k1 = IntOn" "monitor UNIV True ?l ?cs k1"
    "skernel.more k1 = skernel.more k"
    using still.monitor_enter [OF b(1,2,4)] by blast
  have "wait_bytes cpu a sz k' = orbind (Condition_Wait cpu (bb_empty b) ?l k') (wait_bytes cpu a sz)"
    if "skernel.more k' = skernel.more k" for k'
    using buffers_more [OF that] b(3) sz by (subst wait_bytes.simps) (simp add: bb_at_def)
  from still_wait_halts [OF this k1(2-4) _ k1(5)] have "wait_bytes cpu a sz k1 = Some (Inl Halted)" by simp
  then show ?thesis using k1(1) b(3) by (simp add: BoundedBuffer_Read_def bb_at_def)
qed

subsection \<open>All threads\<close>

text \<open>
  The calls of all threads, as they run between the points where another thread can come in. A call
  first checks its size (\<open>call_check\<close>, the \<open>ASSERT\<close> of \<open>Write\<close>); it is then before \<open>lock->Acquire()\<close>
  (\<open>Locking\<close>), holds the lock and is at the test of its while loop (\<open>Testing\<close>), or sleeps in \<open>Wait\<close>,
  which has given the lock back (\<open>Waiting\<close>) and takes it again when it wakes. With the lock held a
  pass of the loop is \<open>serve\<close>: it waits (\<^const>\<open>None\<close>), or runs the body behind the loop, after which
  \<open>Signal\<close> and \<open>Release\<close> end the call. A waiting call may wake at any time, which covers every
  \<open>Signal\<close>.
\<close>

datatype request = Writing "byte list" int | Reading "byte list" int

definition call_check :: "request \<Rightarrow> BoundedBuffer \<Rightarrow> unit result" where
  "call_check r b =
     (case r of
        Writing data sz \<Rightarrow> ASSERT (sz \<le> maxSize b)
      | Reading data sz \<Rightarrow> Inr ())"

definition must_wait :: "request \<Rightarrow> BoundedBuffer \<Rightarrow> bool" where
  "must_wait r b \<longleftrightarrow>
     (case r of
        Writing data sz \<Rightarrow> maxSize b - usedSize b < sz
      | Reading data sz \<Rightarrow> usedSize b - sz < 0)"

definition transfer :: "request \<Rightarrow> BoundedBuffer \<Rightarrow> (byte list \<times> BoundedBuffer) result" where
  "transfer r b =
     (case r of
        Writing data sz \<Rightarrow> rbind (write_bytes data sz b) (\<lambda>b. Inr (data, b))
      | Reading data sz \<Rightarrow> read_bytes data sz b)"

definition serve :: "request \<Rightarrow> BoundedBuffer \<Rightarrow> (byte list \<times> BoundedBuffer) result option" where
  "serve r b = (if must_wait r b then None else Some (transfer r b))"

lemmas serve_defs = serve_def must_wait_def transfer_def

text \<open>The loops and bodies of the operations are these passes.\<close>

lemma wait_room_serve:
  assumes "bb_at a k = Inr b"
  shows "wait_room cpu a sz k =
    (if serve (Writing data sz) b = None then orbind (Condition_Wait cpu (bb_full b) (bb_lock b) k) (wait_room cpu a sz)
     else Some (Inr k))"
  using assms by (subst wait_room.simps) (simp add: serve_defs)

lemma wait_bytes_serve:
  assumes "bb_at a k = Inr b"
  shows "wait_bytes cpu a sz k =
    (if serve (Reading data sz) b = None then orbind (Condition_Wait cpu (bb_empty b) (bb_lock b) k) (wait_bytes cpu a sz)
     else Some (Inr k))"
  using assms by (subst wait_bytes.simps) (simp add: serve_defs)

text \<open>A caller gives a size that is not negative and an array that long.\<close>

fun legal :: "request \<Rightarrow> bool" where
  "legal (Writing data sz) \<longleftrightarrow> 0 \<le> sz \<and> sz \<le> int (length data)"
| "legal (Reading data sz) \<longleftrightarrow> 0 \<le> sz \<and> sz \<le> int (length data)"

datatype call_place = Locking | Testing | Waiting

record buf_run =
  run_buffer :: BoundedBuffer
  run_calls :: "tid \<Rightarrow> request option"
  run_place :: "tid \<Rightarrow> call_place"
  run_holder :: "tid option"
  run_written :: "byte list"
  run_read :: "byte list"

inductive buf_step :: "buf_run \<Rightarrow> buf_run \<Rightarrow> bool" where
  calls: "run_calls S t = None \<Longrightarrow> legal r \<Longrightarrow> call_check r (run_buffer S) = Inr () \<Longrightarrow>
    buf_step S (S\<lparr>run_calls := (run_calls S)(t \<mapsto> r), run_place := (run_place S)(t := Locking)\<rparr>)"
| locks: "run_calls S t \<noteq> None \<Longrightarrow> run_place S t = Locking \<Longrightarrow> run_holder S = None \<Longrightarrow>
    buf_step S (S\<lparr>run_place := (run_place S)(t := Testing), run_holder := Some t\<rparr>)"
| waits: "run_holder S = Some t \<Longrightarrow> run_calls S t = Some r \<Longrightarrow> serve r (run_buffer S) = None \<Longrightarrow>
    buf_step S (S\<lparr>run_place := (run_place S)(t := Waiting), run_holder := None\<rparr>)"
| wakes: "run_calls S t \<noteq> None \<Longrightarrow> run_place S t = Waiting \<Longrightarrow>
    buf_step S (S\<lparr>run_place := (run_place S)(t := Locking)\<rparr>)"
| writes: "run_holder S = Some t \<Longrightarrow> run_calls S t = Some (Writing data sz) \<Longrightarrow>
    serve (Writing data sz) (run_buffer S) = Some (Inr (d, b)) \<Longrightarrow>
    buf_step S (S\<lparr>run_buffer := b, run_calls := (run_calls S)(t := None), run_holder := None,
      run_written := run_written S @ take (nat sz) data\<rparr>)"
| reads: "run_holder S = Some t \<Longrightarrow> run_calls S t = Some (Reading data sz) \<Longrightarrow>
    serve (Reading data sz) (run_buffer S) = Some (Inr (d, b)) \<Longrightarrow>
    buf_step S (S\<lparr>run_buffer := b, run_calls := (run_calls S)(t := None), run_holder := None,
      run_read := run_read S @ take (nat sz) d\<rparr>)"

definition buf_start :: "BoundedBuffer \<Rightarrow> buf_run" where
  "buf_start b = \<lparr>run_buffer = b, run_calls = (\<lambda>_. None), run_place = (\<lambda>_. Locking), run_holder = None,
     run_written = [], run_read = []\<rparr>"

text \<open>
  The invariant. The holder of the lock is in a call and at its test, and it alone; every call in
  progress is legal and has passed its \<open>ASSERT\<close>.
\<close>

definition one_holder :: "buf_run \<Rightarrow> bool" where
  "one_holder S \<longleftrightarrow> {t. run_calls S t \<noteq> None \<and> run_place S t = Testing} = set_option (run_holder S)"

definition buf_inv :: "int \<Rightarrow> buf_run \<Rightarrow> bool" where
  "buf_inv m S \<longleftrightarrow> bb_ok (run_buffer S) \<and> maxSize (run_buffer S) = m \<and>
     run_written S = run_read S @ contents (run_buffer S) \<and>
     (\<forall>t r. run_calls S t = Some r \<longrightarrow> legal r \<and> call_check r (run_buffer S) = Inr ())"

lemma one_holder_step: "buf_step S S' \<Longrightarrow> one_holder S \<Longrightarrow> one_holder S'"
proof (induction rule: buf_step.induct)
  case (calls S t r)
  then have "t \<notin> set_option (run_holder S)" unfolding one_holder_def by blast
  with calls show ?case by (auto simp: one_holder_def set_eq_iff)
next
  case (locks S t)
  then have "{u. run_calls S u \<noteq> None \<and> run_place S u = Testing} = {}" by (simp add: one_holder_def)
  then have "run_calls S u = None \<or> run_place S u \<noteq> Testing" for u by blast
  then have "u = t \<or> run_calls S u = None \<or> run_place S u \<noteq> Testing" for u by blast
  then have "{u. run_calls S u \<noteq> None \<and> ((run_place S)(t := Testing)) u = Testing} = {t}"
    using locks(1) by (auto; metis option.distinct(1))
  then show ?case by (simp add: one_holder_def)
next
  case (waits S t r)
  then have "{u. run_calls S u \<noteq> None \<and> run_place S u = Testing} = {t}" by (simp add: one_holder_def)
  then show ?case by (auto simp: one_holder_def)
next
  case (wakes S t)
  then have "{u. run_calls S u \<noteq> None \<and> ((run_place S)(t := Locking)) u = Testing} =
      {u. run_calls S u \<noteq> None \<and> run_place S u = Testing}" by auto
  with wakes show ?case by (simp add: one_holder_def)
next
  case (writes S t data sz d b)
  then have "{u. run_calls S u \<noteq> None \<and> run_place S u = Testing} = {t}" by (simp add: one_holder_def)
  then show ?case by (auto simp: one_holder_def)
next
  case (reads S t data sz d b)
  then have "{u. run_calls S u \<noteq> None \<and> run_place S u = Testing} = {t}" by (simp add: one_holder_def)
  then show ?case by (auto simp: one_holder_def)
qed

lemma call_check_maxSize: "maxSize b' = maxSize b \<Longrightarrow> call_check r b' = call_check r b"
  by (simp add: call_check_def split: request.splits)

lemma serve_legal:
  assumes "bb_ok b" and "legal r"
  shows "serve r b = None \<or> (\<exists>d b'. serve r b = Some (Inr (d, b')) \<and> bb_ok b' \<and> maxSize b' = maxSize b \<and>
    (case r of Writing data sz \<Rightarrow> contents b' = contents b @ take (nat sz) data
     | Reading data sz \<Rightarrow> contents b = take (nat sz) d @ contents b'))"
proof (cases r)
  case (Writing data sz)
  then show ?thesis using assms write_bytes_spec [of b sz data]
    by (cases "maxSize b - usedSize b < sz") (auto simp: serve_defs)
next
  case (Reading data sz)
  show ?thesis
  proof (cases "usedSize b - sz < 0")
    case True
    then show ?thesis using Reading by (simp add: serve_defs)
  next
    case False
    then obtain b' where b': "read_bytes data sz b = Inr (take (nat sz) (contents b) @ drop (nat sz) data, b')" "bb_ok b'"
      "contents b' = drop (nat sz) (contents b)" "maxSize b' = maxSize b"
      using read_bytes_spec [of b sz data] assms Reading by auto
    moreover have "nat sz \<le> nat (usedSize b)" using False by simp
    ultimately show ?thesis using Reading False by (auto simp: serve_defs)
  qed
qed

lemma buf_step_inv: "buf_step S S' \<Longrightarrow> buf_inv m S \<Longrightarrow> buf_inv m S'"
proof (induction rule: buf_step.induct)
  case (writes S t data sz d b)
  then have ok: "bb_ok (run_buffer S)" "legal (Writing data sz)" unfolding buf_inv_def by blast+
  from serve_legal [OF this] writes have "maxSize b = maxSize (run_buffer S)" by auto
  from call_check_maxSize [OF this] serve_legal [OF ok] writes show ?case by (auto simp: buf_inv_def)
next
  case (reads S t data sz d b)
  then have ok: "bb_ok (run_buffer S)" "legal (Reading data sz)" unfolding buf_inv_def by blast+
  from serve_legal [OF this] reads have "maxSize b = maxSize (run_buffer S)" by auto
  from call_check_maxSize [OF this] serve_legal [OF ok] reads show ?case by (auto simp: buf_inv_def)
qed (auto simp: buf_inv_def)

subsection \<open>Properties\<close>

text \<open>The kernel of the examples in \<open>Synchronization\<close>, interrupts on, with an empty buffer of three bytes at address 7.\<close>

definition buf_kernel :: "(unit, unit) bkernel_scheme" where
  "buf_kernel = (BoundedBuffer_new 7 (5, 8) None (6, 9) (10, 11) [0, 0, 0] 3
     (skernel.extend synch_kernel (bkernel.fields Map.empty)))\<lparr>level := IntOn\<rparr>"

definition empty_buffer :: BoundedBuffer where
  "empty_buffer = \<lparr>maxSize = 3, bb_head = 0, bb_tail = 0, usedSize = 0, bb_bytes = [0, 0, 0], bb_lock = 5,
     bb_full = 6, bb_empty = 10\<rparr>"

lemma buf_kernel_ready: "bb_ready 7 empty_buffer buf_kernel"
  by (simp add: bb_ready_def buf_kernel_def BoundedBuffer_new_def Let_def Condition_new_def Lock_new_def put_sem_def
      put_bb_def synch_kernel_def empty_buffer_def still_def monitor_def signalled_def bb_ok_def Semaphore_new_def
      pkernel.defs ukernel.defs kernel.defs skernel.defs bkernel.defs Initialize_def)

text \<open>
  C22: The bounded buffer is a stream for all threads together. Whatever the order in which calls of
  \<open>Write\<close> and \<open>Read\<close> get the lock, wait and wake, from an empty buffer on: what was read so far, and
  then what is in the buffer, is what was written, byte by byte and in order; the buffer never holds
  more than its size; and a call that has not to wait never fails, nor the \<open>ASSERT\<close> of a \<open>Write\<close> of
  at most the size of the buffer. At most one call is between its \<open>Acquire\<close> and its \<open>Wait\<close> or
  \<open>Release\<close>. In particular a \<open>Read\<close> of more than the size of the buffer, which unlike \<open>Write\<close> does
  not check it, waits for ever.
\<close>

theorem BoundedBuffer_stream:
  assumes "bb_ok b" and "usedSize b = 0" and "buf_step\<^sup>*\<^sup>* (buf_start b) S"
  shows "run_written S = run_read S @ contents (run_buffer S) \<and>
    length (contents (run_buffer S)) \<le> nat (maxSize b) \<and>
    (\<forall>t r. run_calls S t = Some r \<longrightarrow> serve r (run_buffer S) = None \<or>
      (\<exists>d b'. serve r (run_buffer S) = Some (Inr (d, b')))) \<and>
    (\<forall>t data sz. run_calls S t = Some (Reading data sz) \<and> maxSize b < sz \<longrightarrow> serve (Reading data sz) (run_buffer S) = None) \<and>
    (\<forall>data sz. call_check (Writing data sz) (run_buffer S) = (if sz \<le> maxSize b then Inr () else Inl AssertFailed)) \<and>
    (\<forall>t u. run_calls S t \<noteq> None \<and> run_place S t = Testing \<and> run_calls S u \<noteq> None \<and> run_place S u = Testing \<longrightarrow> t = u)"
proof -
  have "contents b = []" using assms(2) by (simp add: contents_def)
  then have "buf_inv (maxSize b) (buf_start b)" using assms(1) by (simp add: buf_inv_def buf_start_def)
  with assms(3) have inv: "buf_inv (maxSize b) S"
    by (induction rule: rtranclp_induct) (auto intro: buf_step_inv)
  have "one_holder (buf_start b)" by (simp add: one_holder_def buf_start_def)
  with assms(3) have one: "one_holder S" by (induction rule: rtranclp_induct) (auto intro: one_holder_step)
  from inv have ok: "bb_ok (run_buffer S)" "maxSize (run_buffer S) = maxSize b" by (simp_all add: buf_inv_def)
  have "serve r (run_buffer S) = None \<or> (\<exists>d b'. serve r (run_buffer S) = Some (Inr (d, b')))"
    if "run_calls S t = Some r" for t r
    using serve_legal [OF ok(1), of r] inv that by (auto simp: buf_inv_def)
  moreover have "t = u" if "run_calls S t \<noteq> None" "run_place S t = Testing" "run_calls S u \<noteq> None" "run_place S u = Testing" for t u
  proof -
    have "t \<in> set_option (run_holder S)" "u \<in> set_option (run_holder S)" using one that unfolding one_holder_def by blast+
    then show ?thesis by simp
  qed
  moreover have "serve (Reading data sz) (run_buffer S) = None" if "maxSize b < sz" for data sz
    using ok that by (auto simp: bb_ok_def serve_defs)
  moreover have "call_check (Writing data sz) (run_buffer S) = (if sz \<le> maxSize b then Inr () else Inl AssertFailed)" for data sz
    using ok(2) by (simp add: call_check_def ASSERT_def)
  moreover have "length (contents (run_buffer S)) \<le> nat (maxSize b)" using ok by (auto simp: bb_ok_def)
  ultimately show ?thesis using inv unfolding buf_inv_def by blast
qed

theorem BoundedBuffer_stream_witness:
  "\<exists>S. buf_step\<^sup>*\<^sup>* (buf_start empty_buffer) S \<and> run_calls S 1 = Some (Reading [0, 0, 0, 0] 4) \<and>
    run_written S = [97, 98] \<and> run_read S @ contents (run_buffer S) = [97, 98] \<and>
    serve (Reading [0, 0, 0, 0] 4) (run_buffer S) = None"
proof -
  let ?w = "Writing [97, 98] 2" and ?r = "Reading [0, 0, 0, 0] 4"
  let ?S0 = "buf_start empty_buffer"
  let ?S1 = "?S0\<lparr>run_calls := (run_calls ?S0)(0 \<mapsto> ?w), run_place := (run_place ?S0)(0 := Locking)\<rparr>"
  let ?S2 = "?S1\<lparr>run_place := (run_place ?S1)(0 := Testing), run_holder := Some 0\<rparr>"
  have 1: "buf_step ?S0 ?S1"
    by (rule buf_step.calls) (simp_all add: buf_start_def call_check_def empty_buffer_def)
  have 2: "buf_step ?S1 ?S2" by (rule buf_step.locks) (simp_all add: buf_start_def)
  obtain d b where b: "serve ?w empty_buffer = Some (Inr (d, b))"
    using serve_legal [of empty_buffer ?w] by (auto simp: empty_buffer_def bb_ok_def serve_defs)
  let ?S3 = "?S2\<lparr>run_buffer := b, run_calls := (run_calls ?S2)(0 := None), run_holder := None,
    run_written := run_written ?S2 @ take (nat 2) [97, 98]\<rparr>"
  have 3: "buf_step ?S2 ?S3" by (rule buf_step.writes) (use b in \<open>simp_all add: buf_start_def\<close>)
  let ?S4 = "?S3\<lparr>run_calls := (run_calls ?S3)(1 \<mapsto> ?r), run_place := (run_place ?S3)(1 := Locking)\<rparr>"
  have 4: "buf_step ?S3 ?S4" by (rule buf_step.calls) (simp_all add: buf_start_def call_check_def)
  define S where "S = ?S4"
  have run: "buf_step\<^sup>*\<^sup>* ?S0 S"
    unfolding S_def using 1 2 3 4 by (meson r_into_rtranclp rtranclp.rtrancl_into_rtrancl)
  have "bb_ok empty_buffer" "usedSize empty_buffer = 0" by (simp_all add: empty_buffer_def bb_ok_def)
  note stream = BoundedBuffer_stream [OF this run]
  have calls: "run_calls S 1 = Some ?r" and written: "run_written S = [97, 98]" by (simp_all add: S_def buf_start_def)
  have "maxSize empty_buffer < 4" by (simp add: empty_buffer_def)
  then have "serve ?r (run_buffer S) = None" using stream calls by blast
  moreover have "run_read S @ contents (run_buffer S) = [97, 98]" using conjunct1 [OF stream] written by metis
  ultimately show ?thesis using run calls written by blast
qed

text \<open>
  What the only thread of a kernel sees of \<open>Write\<close> and \<open>Read\<close> with their lock and conditions:
  when they need not wait they return, with the bytes added behind the others, or the oldest bytes in
  front of the caller's array and removed, and the monitor ready again; \<open>Write\<close> of more than the
  buffer can ever hold fails its \<open>ASSERT\<close>; and where they wait, the machine halts.
\<close>

theorem BoundedBuffer_one_thread:
  assumes "bb_ready a b k" and "0 \<le> sz" and "sz \<le> int (length data)"
  shows "(if maxSize b < sz then BoundedBuffer_Write cpu a data sz k = Some (Inl AssertFailed)
     else if maxSize b - usedSize b < sz then BoundedBuffer_Write cpu a data sz k = Some (Inl Halted)
     else \<exists>k' b'. BoundedBuffer_Write cpu a data sz k = Some (Inr k') \<and> bb_ready a b' k' \<and>
       contents b' = contents b @ take (nat sz) data) \<and>
    (if usedSize b < sz then BoundedBuffer_Read cpu a data sz k = Some (Inl Halted)
     else \<exists>k' b'. BoundedBuffer_Read cpu a data sz k = Some (Inr (take (nat sz) (contents b) @ drop (nat sz) data, k')) \<and>
       bb_ready a b' k' \<and> contents b' = drop (nat sz) (contents b))"
proof -
  have "BoundedBuffer_Write cpu a data sz k = Some (Inl AssertFailed)" if "maxSize b < sz"
    using assms(1) that by (simp add: BoundedBuffer_Write_def bb_at_def bb_ready_def ASSERT_def)
  then show ?thesis
    using Write_ready [OF assms(1,2) _ assms(3), of cpu] Read_ready [OF assms(1,2) _ assms(3), of cpu]
      Write_halts [OF assms(1), of sz cpu data] Read_halts [OF assms(1), of sz cpu data]
    by (auto simp: not_less)
qed

theorem BoundedBuffer_one_thread_witness:
  "BoundedBuffer_Write base_cpu 7 [97, 98, 99, 100] 4 buf_kernel = Some (Inl AssertFailed) \<and>
   BoundedBuffer_Read base_cpu 7 [0] 1 buf_kernel = Some (Inl Halted) \<and>
   (\<exists>k k'. BoundedBuffer_Write base_cpu 7 [97, 98] 2 buf_kernel = Some (Inr k) \<and>
     BoundedBuffer_Read base_cpu 7 [0] 1 k = Some (Inr ([97], k')))"
proof -
  note b = buf_kernel_ready
  have c: "contents empty_buffer = []" "maxSize empty_buffer = 3" "usedSize empty_buffer = 0"
    by (simp_all add: contents_def empty_buffer_def)
  obtain k b' where k: "BoundedBuffer_Write base_cpu 7 [97, 98] 2 buf_kernel = Some (Inr k)" "bb_ready 7 b' k"
    "contents b' = [97, 98]"
    using BoundedBuffer_one_thread [OF b, of 2 "[97, 98]" base_cpu] c by auto
  have "usedSize b' = 2"
    using arg_cong [OF k(3), of length] k(2) by (simp add: bb_ready_def bb_ok_def)
  then obtain k' where "BoundedBuffer_Read base_cpu 7 [0] 1 k = Some (Inr ([97], k'))"
    using BoundedBuffer_one_thread [OF k(2), of 1 "[0]" base_cpu] k(3) by auto
  then show ?thesis
    using k(1) BoundedBuffer_one_thread [OF b, of 4 "[97, 98, 99, 100]" base_cpu]
      BoundedBuffer_one_thread [OF b, of 1 "[0]" base_cpu] c by auto
qed

end
