(* ===== verification/Kernel_Table.thy ===== *)
theory Kernel_Table
  imports Calm_Kernel
begin

section \<open>Tables of objects, threads/Table.cc\<close>

text \<open>
  A table that hands out small integers for objects, behind a lock. What it promises is a finite map.
  A pointer to an object is \<^typ>\<open>nat option\<close>, with \<^const>\<open>None\<close> for \<open>NULL\<close>; the tables are shared by
  pointer and live in a map.
\<close>

subsection \<open>The data\<close>

record Table =
  cnt :: int
  TableSize :: int
  tableBase :: "nat option list"
  tb_lock :: nat
  tb_empty :: nat

record 'h tkernel = "'h skernel" +
  object_tables :: "nat \<Rightarrow> Table option"

definition tb_at :: "nat \<Rightarrow> ('h, 'm) tkernel_scheme \<Rightarrow> Table result" where
  "tb_at a k = (case object_tables k a of None \<Rightarrow> Inl DanglingPointer | Some t \<Rightarrow> Inr t)"

definition put_tb :: "nat \<Rightarrow> Table \<Rightarrow> ('h, 'm) tkernel_scheme \<Rightarrow> ('h, 'm) tkernel_scheme" where
  "put_tb a t k = k\<lparr>object_tables := (object_tables k)(a \<mapsto> t)\<rparr>"

text \<open>\<open>base\<close> is what the new array holds; the pairs are the addresses of the lock and the condition with their semaphores.\<close>

definition Table_new ::
  "nat \<Rightarrow> nat \<times> nat \<Rightarrow> tid option \<Rightarrow> nat \<times> nat \<Rightarrow> nat option list \<Rightarrow> int \<Rightarrow>
    ('h, 'm) tkernel_scheme \<Rightarrow> ('h, 'm) tkernel_scheme result" where
  "Table_new a l junk ec base n k =
     (let k = Lock_new (fst l) (snd l) junk k;
          k = Condition_new (fst ec) (snd ec) k
      in rbind (for_range 0 n (\<lambda>i ts. aset ts i None) base) (\<lambda>ts.
         Inr (put_tb a \<lparr>cnt = 0, TableSize = n, tableBase = ts, tb_lock = fst l, tb_empty = fst ec\<rparr> k)))"

definition Table_delete :: "nat \<Rightarrow> ('h, 'm) tkernel_scheme \<Rightarrow> ('h, 'm) tkernel_scheme result" where
  "Table_delete a k =
     rbind (tb_at a k) (\<lambda>t.
     rbind (Lock_delete (tb_lock t) k) (\<lambda>k.
     rbind (Condition_delete (tb_empty t) k) (\<lambda>k.
     Inr (k\<lparr>object_tables := (object_tables k)(a := None)\<rparr>))))"

subsection \<open>The operations\<close>

text \<open>\<open>while(tableBase[index] != NULL && index < TableSize) index++;\<close>\<close>

function find_free :: "nat option list \<Rightarrow> int \<Rightarrow> int \<Rightarrow> int result" where
  "find_free ts n index =
     rbind (aget ts index) (\<lambda>x. if x \<noteq> None \<and> index < n then find_free ts n (index + 1) else Inr index)"
  by pat_completeness auto
termination
  by (relation "measure (\<lambda>(ts, n, i). nat (n - i))") auto

declare find_free.simps [simp del]

definition alloc_slot :: "nat option \<Rightarrow> Table \<Rightarrow> (int \<times> Table) result" where
  "alloc_slot object t =
     rbind (find_free (tableBase t) (TableSize t) 0) (\<lambda>index.
     rbind (if index \<ge> TableSize t then Inr (- 1, tableBase t)
            else rbind (aset (tableBase t) index object) (\<lambda>ts. Inr (index, ts))) (\<lambda>(ret, ts).
     rbind (ASSERT (ret \<noteq> - 1)) (\<lambda>_.
     Inr (ret, t\<lparr>cnt := cnt t + 1, tableBase := ts\<rparr>))))"

definition Table_Alloc ::
  "('h, ('h, 'm) tkernel_scheme) cpu \<Rightarrow> nat \<Rightarrow> nat option \<Rightarrow> ('h, 'm) tkernel_scheme \<Rightarrow>
    (int \<times> ('h, 'm) tkernel_scheme) result option" where
  "Table_Alloc cpu a object k =
     orbind (Some (tb_at a k)) (\<lambda>t.
     orbind (Lock_Acquire cpu (tb_lock t) k) (\<lambda>k.
     orbind (Some (rbind (tb_at a k) (\<lambda>t. rbind (alloc_slot object t) (\<lambda>(ret, t). Inr (ret, put_tb a t k))))) (\<lambda>(ret, k).
     orbind (Condition_Signal cpu (tb_empty t) k) (\<lambda>k.
     orbind (Lock_Release cpu (tb_lock t) k) (\<lambda>k.
     Some (Inr (ret, k)))))))"

text \<open>\<open>while(tableBase[index] == NULL) tableEmpty->Wait(lock);\<close>\<close>

partial_function (option) wait_used ::
  "('h, ('h, 'm) tkernel_scheme) cpu \<Rightarrow> nat \<Rightarrow> int \<Rightarrow> ('h, 'm) tkernel_scheme \<Rightarrow>
    ('h, 'm) tkernel_scheme result option" where
  "wait_used cpu a index k =
     orbind (Some (tb_at a k)) (\<lambda>t.
     orbind (Some (aget (tableBase t) index)) (\<lambda>x.
     if x = None then orbind (Condition_Wait cpu (tb_empty t) (tb_lock t) k) (wait_used cpu a index)
     else Some (Inr k)))"

definition free_slot :: "int \<Rightarrow> Table \<Rightarrow> Table result" where
  "free_slot index t = rbind (aset (tableBase t) index None) (\<lambda>ts. Inr (t\<lparr>cnt := cnt t - 1, tableBase := ts\<rparr>))"

definition Table_Release ::
  "('h, ('h, 'm) tkernel_scheme) cpu \<Rightarrow> nat \<Rightarrow> int \<Rightarrow> ('h, 'm) tkernel_scheme \<Rightarrow>
    ('h, 'm) tkernel_scheme result option" where
  "Table_Release cpu a index k =
     orbind (Some (tb_at a k)) (\<lambda>t.
     orbind (Lock_Acquire cpu (tb_lock t) k) (\<lambda>k.
     orbind (wait_used cpu a index k) (\<lambda>k.
     orbind (Some (rbind (tb_at a k) (\<lambda>t. rbind (free_slot index t) (\<lambda>t. Inr (put_tb a t k))))) (\<lambda>k.
     Lock_Release cpu (tb_lock t) k))))"

definition get_slot :: "int \<Rightarrow> Table \<Rightarrow> nat option result" where
  "get_slot index t = (if index \<ge> TableSize t then Inr None else aget (tableBase t) index)"

definition Table_Get ::
  "('h, ('h, 'm) tkernel_scheme) cpu \<Rightarrow> nat \<Rightarrow> int \<Rightarrow> ('h, 'm) tkernel_scheme \<Rightarrow>
    (nat option \<times> ('h, 'm) tkernel_scheme) result option" where
  "Table_Get cpu a index k =
     orbind (Some (tb_at a k)) (\<lambda>t.
     orbind (Lock_Acquire cpu (tb_lock t) k) (\<lambda>k.
     orbind (Some (rbind (tb_at a k) (get_slot index))) (\<lambda>ret.
     orbind (Lock_Release cpu (tb_lock t) k) (\<lambda>k.
     Some (Inr (ret, k))))))"

definition getSize :: "Table \<Rightarrow> int" where "getSize t = TableSize t"

subsection \<open>The table as a map\<close>

definition tb_ok :: "Table \<Rightarrow> bool" where
  "tb_ok t \<longleftrightarrow> int (length (tableBase t)) = TableSize t"

definition objects :: "Table \<Rightarrow> int \<Rightarrow> nat option" where
  "objects t i = (if 0 \<le> i \<and> i < int (length (tableBase t)) then tableBase t ! nat i else None)"

text \<open>The search stops at the first free slot, or reads the slot behind the last one.\<close>

lemma find_free_spec:
  assumes "n = int (length ts)" and "0 \<le> i" and "i \<le> n"
  shows "(\<exists>j. i \<le> j \<and> j < n \<and> ts ! nat j = None \<and> (\<forall>q. i \<le> q \<and> q < j \<longrightarrow> ts ! nat q \<noteq> None) \<and> find_free ts n i = Inr j) \<or>
    (\<forall>q. i \<le> q \<and> q < n \<longrightarrow> ts ! nat q \<noteq> None) \<and> find_free ts n i = Inl OutOfBounds"
  using assms
proof (induction "nat (n - i)" arbitrary: i)
  case 0
  then show ?case by (subst (1 2) find_free.simps) (auto simp: aget_def)
next
  case (Suc d)
  show ?case
  proof (cases "ts ! nat i = None")
    case True
    have "i < n" using Suc(2) by simp
    moreover have "find_free ts n i = Inr i" using True Suc(2-) by (subst find_free.simps) simp
    ultimately show ?thesis using True by (intro disjI1 exI [of _ i]) auto
  next
    case False
    have "i < n" using Suc(2) by simp
    then have eq: "find_free ts n i = find_free ts n (i + 1)" using False Suc(3-) by (subst find_free.simps) auto
    have q: "i \<le> q \<longleftrightarrow> q = i \<or> i + 1 \<le> q" for q by auto
    have "d = nat (n - (i + 1))" "0 \<le> i + 1" "i + 1 \<le> n" using Suc(2,4) \<open>i < n\<close> by simp_all
    from Suc(1) [OF this(1) Suc(3) this(2,3)] show ?thesis
    proof (elim disjE exE conjE)
      fix j assume "i + 1 \<le> j" "j < n" "ts ! nat j = None" "\<forall>q. i + 1 \<le> q \<and> q < j \<longrightarrow> ts ! nat q \<noteq> None"
        "find_free ts n (i + 1) = Inr j"
      then show ?thesis unfolding eq using False by (intro disjI1 exI [of _ j]) (auto simp: q)
    next
      assume "\<forall>q. i + 1 \<le> q \<and> q < n \<longrightarrow> ts ! nat q \<noteq> None" "find_free ts n (i + 1) = Inl OutOfBounds"
      then show ?thesis unfolding eq using False by (intro disjI2) (auto simp: q)
    qed
  qed
qed

lemma alloc_slot_spec:
  assumes "tb_ok t"
  shows "(\<exists>i t'. 0 \<le> i \<and> i < TableSize t \<and> objects t i = None \<and> (\<forall>q. 0 \<le> q \<and> q < i \<longrightarrow> objects t q \<noteq> None) \<and>
      alloc_slot x t = Inr (i, t') \<and> tb_ok t' \<and> objects t' = (objects t)(i := x) \<and> TableSize t' = TableSize t \<and>
      cnt t' = cnt t + 1 \<and> tb_lock t' = tb_lock t \<and> tb_empty t' = tb_empty t) \<or>
    (\<forall>q. 0 \<le> q \<and> q < TableSize t \<longrightarrow> objects t q \<noteq> None) \<and> alloc_slot x t = Inl OutOfBounds"
proof -
  have n: "TableSize t = int (length (tableBase t))" using assms by (simp add: tb_ok_def)
  from find_free_spec [OF n, of 0] consider
      j where "0 \<le> j" "j < TableSize t" "tableBase t ! nat j = None" "\<forall>q. 0 \<le> q \<and> q < j \<longrightarrow> tableBase t ! nat q \<noteq> None"
        "find_free (tableBase t) (TableSize t) 0 = Inr j"
    | "\<forall>q. 0 \<le> q \<and> q < TableSize t \<longrightarrow> tableBase t ! nat q \<noteq> None" "find_free (tableBase t) (TableSize t) 0 = Inl OutOfBounds"
    using n by auto
  then show ?thesis
  proof cases
    case 1
    let ?t = "t\<lparr>cnt := cnt t + 1, tableBase := (tableBase t)[nat j := x]\<rparr>"
    have "alloc_slot x t = Inr (j, ?t)" using 1 n by (simp add: alloc_slot_def)
    moreover have "objects ?t = (objects t)(j := x)" using 1 n by (auto simp: objects_def fun_eq_iff nth_list_update)
    ultimately show ?thesis using 1 n by (intro disjI1 exI [of _ j] exI [of _ ?t]) (simp add: objects_def tb_ok_def)
  next
    case 2
    then show ?thesis using n by (intro disjI2) (simp add: alloc_slot_def objects_def)
  qed
qed

subsection \<open>One thread\<close>

definition tb_ready :: "nat \<Rightarrow> Table \<Rightarrow> ('h, 'm) tkernel_scheme \<Rightarrow> bool" where
  "tb_ready a t k \<longleftrightarrow> still k \<and> level k = IntOn \<and> object_tables k a = Some t \<and> tb_ok t \<and>
     monitor UNIV False (tb_lock t) {tb_empty t} k"

lemma put_tb_simps [simp]:
  "object_tables (put_tb a t k) = (object_tables k)(a \<mapsto> t)" "still (put_tb a t k) = still k"
  "level (put_tb a t k) = level k" "monitor own held l cs (put_tb a t k) = monitor own held l cs k"
  by (simp_all add: put_tb_def still_def monitor_def signalled_def)

lemma tables_more:
  "skernel.more k' = skernel.more k \<Longrightarrow> object_tables k' = object_tables (k :: ('h, 'm) tkernel_scheme)"
  by (cases k; cases k') simp

text \<open>Inside the lock, and leaving it with the table \<open>t'\<close>.\<close>

lemma tb_enter:
  assumes "tb_ready a t k"
  shows "\<exists>k1. Lock_Acquire cpu (tb_lock t) k = Some (Inr k1) \<and> still k1 \<and> level k1 = IntOn \<and>
    monitor UNIV True (tb_lock t) {tb_empty t} k1 \<and> object_tables k1 a = Some t \<and> skernel.more k1 = skernel.more k"
  using still.monitor_enter [of k UNIV "tb_lock t" "{tb_empty t}" cpu] assms tables_more
  unfolding tb_ready_def by metis

lemma tb_leave:
  assumes "still k" "level k = IntOn" "monitor UNIV True (tb_lock t) {tb_empty t} k"
    and "object_tables k a = Some t" "tb_ok t"
  shows "\<exists>k'. Lock_Release cpu (tb_lock t) k = Some (Inr k') \<and> tb_ready a t k'"
  using still.monitor_leave [OF assms(1-3), of cpu] assms(4,5) tables_more
  unfolding tb_ready_def by metis

lemma Alloc_ready:
  assumes k: "tb_ready a t k" and s: "alloc_slot x t = Inr (i, t')" "tb_ok t'" "tb_lock t' = tb_lock t" "tb_empty t' = tb_empty t"
  shows "\<exists>k'. Table_Alloc cpu a x k = Some (Inr (i, k')) \<and> tb_ready a t' k'"
proof -
  obtain k1 where k1: "Lock_Acquire cpu (tb_lock t) k = Some (Inr k1)" "still k1" "level k1 = IntOn"
    "monitor UNIV True (tb_lock t) {tb_empty t} k1" "object_tables k1 a = Some t"
    using tb_enter [OF k] by blast
  define k2 where "k2 = put_tb a t' k1"
  obtain k3 where k3: "Condition_Signal cpu (tb_empty t) k2 = Some (Inr k3)" "still k3" "level k3 = IntOn"
    "monitor UNIV True (tb_lock t) {tb_empty t} k3" "skernel.more k3 = skernel.more k2"
    using still.monitor_signal [of k2 UNIV "tb_lock t" "{tb_empty t}" "tb_empty t" cpu] k1 by (auto simp: k2_def)
  have "object_tables k3 a = Some t'" using tables_more [OF k3(5)] by (simp add: k2_def)
  with tb_leave [of k3 t' a cpu] k3 s obtain k4 where "Lock_Release cpu (tb_lock t) k3 = Some (Inr k4)" "tb_ready a t' k4"
    by auto
  moreover have "tb_at a k1 = Inr t" "tb_at a k = Inr t" using k k1 by (simp_all add: tb_at_def tb_ready_def)
  ultimately show ?thesis using k1(1) k3(1) s(1)
    by (intro exI [of _ k4]) (simp add: Table_Alloc_def k2_def)
qed

lemma Alloc_fails:
  "tb_ready a t k \<Longrightarrow> alloc_slot x t = Inl e \<Longrightarrow> Table_Alloc cpu a x k = Some (Inl e)"
  using tb_enter [of a t k cpu] by (auto simp: Table_Alloc_def tb_at_def tb_ready_def)

lemma Get_ready:
  assumes k: "tb_ready a t k" and s: "get_slot i t = Inr x"
  shows "\<exists>k'. Table_Get cpu a i k = Some (Inr (x, k')) \<and> tb_ready a t k'"
proof -
  obtain k1 where k1: "Lock_Acquire cpu (tb_lock t) k = Some (Inr k1)" "still k1" "level k1 = IntOn"
    "monitor UNIV True (tb_lock t) {tb_empty t} k1" "object_tables k1 a = Some t"
    using tb_enter [OF k] by blast
  moreover obtain k2 where "Lock_Release cpu (tb_lock t) k1 = Some (Inr k2)" "tb_ready a t k2"
    using tb_leave [OF k1(2-5)] k by (auto simp: tb_ready_def)
  moreover have "tb_at a k1 = Inr t" "tb_at a k = Inr t" using k k1 by (simp_all add: tb_at_def tb_ready_def)
  ultimately show ?thesis using s by (intro exI [of _ k2]) (simp add: Table_Get_def)
qed

lemma Release_ready:
  assumes k: "tb_ready a t k" and i: "objects t i \<noteq> None"
  shows "\<exists>k' t'. Table_Release cpu a i k = Some (Inr k') \<and> tb_ready a t' k' \<and> objects t' = (objects t)(i := None) \<and>
    TableSize t' = TableSize t \<and> cnt t' = cnt t - 1"
proof -
  obtain k1 where k1: "Lock_Acquire cpu (tb_lock t) k = Some (Inr k1)" "still k1" "level k1 = IntOn"
    "monitor UNIV True (tb_lock t) {tb_empty t} k1" "object_tables k1 a = Some t"
    using tb_enter [OF k] by blast
  have r: "0 \<le> i" "i < int (length (tableBase t))" "tableBase t ! nat i \<noteq> None" using i by (auto simp: objects_def split: if_splits)
  have at: "tb_at a k1 = Inr t" "tb_at a k = Inr t" using k k1 by (simp_all add: tb_at_def tb_ready_def)
  have w: "wait_used cpu a i k1 = Some (Inr k1)" using at r by (subst wait_used.simps) auto
  let ?t = "t\<lparr>cnt := cnt t - 1, tableBase := (tableBase t)[nat i := None]\<rparr>"
  have f: "free_slot i t = Inr ?t" using r by (simp add: free_slot_def)
  obtain k2 where "Lock_Release cpu (tb_lock t) (put_tb a ?t k1) = Some (Inr k2)" "tb_ready a ?t k2"
    using tb_leave [of "put_tb a ?t k1" ?t a cpu] k1 k by (auto simp: tb_ready_def tb_ok_def)
  moreover have "objects ?t = (objects t)(i := None)" using r by (auto simp: objects_def fun_eq_iff nth_list_update)
  ultimately show ?thesis using k1(1) at w f
    by (intro exI [of _ k2] exI [of _ ?t]) (simp add: Table_Release_def)
qed

lemma Release_waits:
  assumes k: "tb_ready a t k" and i: "0 \<le> i" "i < TableSize t" "objects t i = None"
  shows "Table_Release cpu a i k = Some (Inl Halted)"
proof -
  obtain k1 where k1: "Lock_Acquire cpu (tb_lock t) k = Some (Inr k1)" "still k1" "level k1 = IntOn"
    "monitor UNIV True (tb_lock t) {tb_empty t} k1" "object_tables k1 a = Some t" "skernel.more k1 = skernel.more k"
    using tb_enter [OF k] by blast
  have t: "object_tables k a = Some t" "tb_ok t" using k by (simp_all add: tb_ready_def)
  have "wait_used cpu a i k' = orbind (Condition_Wait cpu (tb_empty t) (tb_lock t) k') (wait_used cpu a i)"
    if "skernel.more k' = skernel.more k" for k'
    using tables_more [OF that] t i by (subst wait_used.simps) (simp add: tb_at_def tb_ok_def objects_def)
  from still_wait_halts [OF this k1(2-4) _ k1(6)] have "wait_used cpu a i k1 = Some (Inl Halted)" by simp
  then show ?thesis using k1(1) t(1) by (simp add: Table_Release_def tb_at_def)
qed

lemma Release_outside:
  assumes k: "tb_ready a t k" and i: "i < 0 \<or> TableSize t \<le> i"
  shows "Table_Release cpu a i k = Some (Inl OutOfBounds)"
proof -
  obtain k1 where k1: "Lock_Acquire cpu (tb_lock t) k = Some (Inr k1)" "object_tables k1 a = Some t"
    using tb_enter [OF k] by blast
  have "tb_ok t" "object_tables k a = Some t" using k by (simp_all add: tb_ready_def)
  moreover from this have "wait_used cpu a i k1 = Some (Inl OutOfBounds)" using k1(2) i
    by (subst wait_used.simps) (auto simp: tb_at_def tb_ok_def aget_def)
  ultimately show ?thesis using k1(1) by (simp add: Table_Release_def tb_at_def)
qed

subsection \<open>Properties\<close>

text \<open>The kernel of the examples in \<open>Synchronization\<close>, interrupts on, with a table of two slots at address 7.\<close>

definition empty_table :: Table where
  "empty_table = \<lparr>cnt = 0, TableSize = 2, tableBase = [None, None], tb_lock = 5, tb_empty = 6\<rparr>"

definition table_kernel :: "(unit, unit) tkernel_scheme" where
  "table_kernel = (put_tb 7 empty_table (Condition_new 6 9 (Lock_new 5 8 None
     (skernel.extend synch_kernel (tkernel.fields Map.empty)))))\<lparr>level := IntOn\<rparr>"

lemma table_kernel_ready: "tb_ready 7 empty_table table_kernel" "objects empty_table = (\<lambda>_. None)" "TableSize empty_table = 2"
  by (simp_all add: tb_ready_def table_kernel_def Condition_new_def Lock_new_def put_sem_def put_tb_def synch_kernel_def
      empty_table_def still_def monitor_def signalled_def tb_ok_def Semaphore_new_def objects_def fun_eq_iff less_Suc_eq
      nth_Cons' pkernel.defs ukernel.defs kernel.defs skernel.defs tkernel.defs Initialize_def)

text \<open>
  C39: A table is a finite map from small integers, for the only thread of a kernel with nothing
  pending. \<open>Alloc\<close> of an object returns the least free integer, now bound to the object; when none is
  free it does not return \<open>-1\<close> but reads behind the array, since it looks at the slot before it
  compares the index. \<open>Get\<close> looks up, and gives \<open>NULL\<close> from the size of the table on. \<open>Release\<close>
  unbinds. \<open>cnt\<close> goes up by one with each \<open>Alloc\<close> and down by one with each \<open>Release\<close>, and nothing
  else changes it. \<open>Release\<close> of an integer that is not bound waits, here for ever, and outside the table it
  reads outside the array.
\<close>

theorem Table_is_a_map:
  assumes "tb_ready a t k"
  shows "((\<exists>i k' t'. Table_Alloc cpu a (Some x) k = Some (Inr (i, k')) \<and> 0 \<le> i \<and> i < TableSize t \<and> objects t i = None \<and>
        (\<forall>q. 0 \<le> q \<and> q < i \<longrightarrow> objects t q \<noteq> None) \<and> tb_ready a t' k' \<and> objects t' = (objects t)(i \<mapsto> x) \<and>
        TableSize t' = TableSize t \<and> cnt t' = cnt t + 1) \<or>
      (\<forall>q. 0 \<le> q \<and> q < TableSize t \<longrightarrow> objects t q \<noteq> None) \<and> Table_Alloc cpu a (Some x) k = Some (Inl OutOfBounds)) \<and>
    (0 \<le> i \<longrightarrow> (\<exists>k'. Table_Get cpu a i k = Some (Inr (objects t i, k')) \<and> tb_ready a t k')) \<and>
    (if objects t i \<noteq> None then \<exists>k' t'. Table_Release cpu a i k = Some (Inr k') \<and> tb_ready a t' k' \<and> objects t' = (objects t)(i := None) \<and>
       TableSize t' = TableSize t \<and> cnt t' = cnt t - 1
     else if 0 \<le> i \<and> i < TableSize t then Table_Release cpu a i k = Some (Inl Halted)
     else Table_Release cpu a i k = Some (Inl OutOfBounds))"
proof (intro conjI)
  have t: "tb_ok t" using assms by (simp add: tb_ready_def)
  show "(\<exists>i k' t'. Table_Alloc cpu a (Some x) k = Some (Inr (i, k')) \<and> 0 \<le> i \<and> i < TableSize t \<and> objects t i = None \<and>
        (\<forall>q. 0 \<le> q \<and> q < i \<longrightarrow> objects t q \<noteq> None) \<and> tb_ready a t' k' \<and> objects t' = (objects t)(i \<mapsto> x) \<and>
        TableSize t' = TableSize t \<and> cnt t' = cnt t + 1) \<or>
      (\<forall>q. 0 \<le> q \<and> q < TableSize t \<longrightarrow> objects t q \<noteq> None) \<and> Table_Alloc cpu a (Some x) k = Some (Inl OutOfBounds)"
    using alloc_slot_spec [OF t, of "Some x"] Alloc_ready [OF assms, of "Some x"] Alloc_fails [OF assms, of "Some x"] by blast
  show "0 \<le> i \<longrightarrow> (\<exists>k'. Table_Get cpu a i k = Some (Inr (objects t i, k')) \<and> tb_ready a t k')"
  proof
    assume "0 \<le> i"
    then have "get_slot i t = Inr (objects t i)" using t by (simp add: get_slot_def objects_def tb_ok_def)
    from Get_ready [OF assms this] show "\<exists>k'. Table_Get cpu a i k = Some (Inr (objects t i, k')) \<and> tb_ready a t k'" .
  qed
  show "if objects t i \<noteq> None then \<exists>k' t'. Table_Release cpu a i k = Some (Inr k') \<and> tb_ready a t' k' \<and> objects t' = (objects t)(i := None) \<and>
       TableSize t' = TableSize t \<and> cnt t' = cnt t - 1
     else if 0 \<le> i \<and> i < TableSize t then Table_Release cpu a i k = Some (Inl Halted)
     else Table_Release cpu a i k = Some (Inl OutOfBounds)"
    using Release_ready [OF assms, of i cpu] Release_waits [OF assms, of i cpu] Release_outside [OF assms, of i cpu]
    by (cases "objects t i = None"; cases "0 \<le> i \<and> i < TableSize t") (auto simp: not_le)
qed

theorem Table_is_a_map_witness:
  "\<exists>k1 k2 k3. Table_Alloc base_cpu 7 (Some 40) table_kernel = Some (Inr (0, k1)) \<and>
    Table_Alloc base_cpu 7 (Some 41) k1 = Some (Inr (1, k2)) \<and> Table_Alloc base_cpu 7 (Some 42) k2 = Some (Inl OutOfBounds) \<and>
    Table_Get base_cpu 7 1 k2 = Some (Inr (Some 41, k3)) \<and> Table_Release base_cpu 7 0 table_kernel = Some (Inl Halted)"
proof -
  note k = table_kernel_ready
  let ?t = empty_table
  obtain i k1 t1 where k1: "Table_Alloc base_cpu 7 (Some 40) table_kernel = Some (Inr (i, k1))" "0 \<le> i" "i < 2"
    "\<forall>q. 0 \<le> q \<and> q < i \<longrightarrow> objects ?t q \<noteq> None" "tb_ready 7 t1 k1" "objects t1 = (objects ?t)(i \<mapsto> 40)" "TableSize t1 = 2"
    using conjunct1 [OF Table_is_a_map [OF k(1), of base_cpu 40 0]] k(2,3) by auto
  have i: "i = 0" using k1(2,4) k(2) by (cases "i = 0") auto
  obtain j k2 t2 where k2: "Table_Alloc base_cpu 7 (Some 41) k1 = Some (Inr (j, k2))" "0 \<le> j" "j < 2" "objects t1 j = None"
    "tb_ready 7 t2 k2" "objects t2 = (objects t1)(j \<mapsto> 41)" "TableSize t2 = 2"
    using conjunct1 [OF Table_is_a_map [OF k1(5), of base_cpu 41 0]] k1(6,7) i k(2) by (auto simp: all_conj_distrib dest: spec [of _ 1])
  have j: "j = 1" using k2(2-4) k1(6) i by (cases "j = 0") auto
  have "\<not> (0 \<le> q \<and> q < TableSize t2 \<and> objects t2 q = None)" for q
    using k2(6,7) k1(6) i j by auto
  then have "Table_Alloc base_cpu 7 (Some 42) k2 = Some (Inl OutOfBounds)"
    using conjunct1 [OF Table_is_a_map [OF k2(5), of base_cpu 42 0]] by blast
  moreover have "objects t2 1 = Some 41" using k2(6) j by simp
  then obtain k3 where "Table_Get base_cpu 7 1 k2 = Some (Inr (Some 41, k3))"
    using conjunct1 [OF conjunct2 [OF Table_is_a_map [OF k2(5), of base_cpu 42 1]]] by auto
  moreover have "Table_Release base_cpu 7 0 table_kernel = Some (Inl Halted)"
    using conjunct2 [OF conjunct2 [OF Table_is_a_map [OF k(1), of base_cpu 42 0]]] k(2,3) by simp
  ultimately show ?thesis using k1(1) k2(1) i j by blast
qed

end
