(* ===== verification/Dl_List.thy ===== *)
theory Dl_List
  imports Calm_Kernel
begin

section \<open>The doubly linked list, threads/dllist.cc\<close>

text \<open>
  A doubly linked list of keyed items behind a lock, as a pointer structure: the elements live in a
  map from addresses, where \<open>delete\<close> removes them. The switches \<open>yield_flag\<close> and \<open>testnum\<close>, which
  make \<open>SortedInsert\<close> yield half way, are part of the state.
\<close>

subsection \<open>The data\<close>

record DLLElement =
  dl_next :: "nat option"
  dl_prev :: "nat option"
  dl_key :: int
  dl_item :: "nat option"

record DLList =
  dl_first :: "nat option"
  dl_last :: "nat option"
  dl_lock :: nat
  dl_empty :: nat

record 'h dlkernel = "'h skernel" +
  dl_nodes :: "nat \<Rightarrow> DLLElement option"
  dl_lists :: "nat \<Rightarrow> DLList option"
  yield_flag :: bool
  testnum :: int

definition DLLElement_new :: "nat option \<Rightarrow> int \<Rightarrow> DLLElement" where
  "DLLElement_new itemPtr sortKey = \<lparr>dl_next = None, dl_prev = None, dl_key = sortKey, dl_item = itemPtr\<rparr>"

definition dl_at :: "nat \<Rightarrow> ('h, 'm) dlkernel_scheme \<Rightarrow> DLList result" where
  "dl_at a k = (case dl_lists k a of None \<Rightarrow> Inl DanglingPointer | Some l \<Rightarrow> Inr l)"

definition put_dl :: "nat \<Rightarrow> DLList \<Rightarrow> ('h, 'm) dlkernel_scheme \<Rightarrow> ('h, 'm) dlkernel_scheme" where
  "put_dl a l k = k\<lparr>dl_lists := (dl_lists k)(a \<mapsto> l)\<rparr>"

text \<open>Reading and writing \<open>*p\<close>.\<close>

definition deref :: "nat option \<Rightarrow> ('h, 'm) dlkernel_scheme \<Rightarrow> DLLElement result" where
  "deref p k = (case p of None \<Rightarrow> Inl NullDeref | Some x \<Rightarrow>
     (case dl_nodes k x of None \<Rightarrow> Inl DanglingPointer | Some e \<Rightarrow> Inr e))"

definition modify ::
  "nat option \<Rightarrow> (DLLElement \<Rightarrow> DLLElement) \<Rightarrow> ('h, 'm) dlkernel_scheme \<Rightarrow> ('h, 'm) dlkernel_scheme result" where
  "modify p f k = rbind (deref p k) (\<lambda>e. Inr (k\<lparr>dl_nodes := (dl_nodes k)(the p \<mapsto> f e)\<rparr>))"

definition delete_node :: "nat option \<Rightarrow> ('h, 'm) dlkernel_scheme \<Rightarrow> ('h, 'm) dlkernel_scheme result" where
  "delete_node p k = rbind (deref p k) (\<lambda>_. Inr (k\<lparr>dl_nodes := (dl_nodes k)(the p := None)\<rparr>))"

definition set_first :: "nat \<Rightarrow> nat option \<Rightarrow> ('h, 'm) dlkernel_scheme \<Rightarrow> ('h, 'm) dlkernel_scheme result" where
  "set_first a p k = rbind (dl_at a k) (\<lambda>l. Inr (put_dl a (l\<lparr>dl_first := p\<rparr>) k))"

definition set_last :: "nat \<Rightarrow> nat option \<Rightarrow> ('h, 'm) dlkernel_scheme \<Rightarrow> ('h, 'm) dlkernel_scheme result" where
  "set_last a p k = rbind (dl_at a k) (\<lambda>l. Inr (put_dl a (l\<lparr>dl_last := p\<rparr>) k))"

subsection \<open>The operations\<close>

text \<open>The addresses of the new objects are arguments: \<open>nd\<close> is that of a new element.\<close>

definition DLList_new ::
  "nat \<Rightarrow> nat \<times> nat \<Rightarrow> tid option \<Rightarrow> nat \<times> nat \<Rightarrow> ('h, 'm) dlkernel_scheme \<Rightarrow> ('h, 'm) dlkernel_scheme" where
  "DLList_new a l junk ec k =
     (let k = Lock_new (fst l) (snd l) junk k;
          k = Condition_new (fst ec) (snd ec) k
      in put_dl a \<lparr>dl_first = None, dl_last = None, dl_lock = fst l, dl_empty = fst ec\<rparr> k)"

partial_function (option) delete_elements ::
  "nat \<Rightarrow> ('h, 'm) dlkernel_scheme \<Rightarrow> ('h, 'm) dlkernel_scheme result option" where
  "delete_elements a k =
     orbind (Some (dl_at a k)) (\<lambda>l.
     if dl_first l = None then Some (Inr k)
     else orbind (Some (rbind (deref (dl_first l) k) (\<lambda>e.
          rbind (set_first a (dl_next e) k) (delete_node (dl_first l))))) (delete_elements a))"

definition DLList_delete :: "nat \<Rightarrow> ('h, 'm) dlkernel_scheme \<Rightarrow> ('h, 'm) dlkernel_scheme result option" where
  "DLList_delete a k =
     orbind (delete_elements a k) (\<lambda>k.
     orbind (Some (dl_at a k)) (\<lambda>l.
     orbind (Some (Lock_delete (dl_lock l) k)) (\<lambda>k.
     orbind (Some (Condition_delete (dl_empty l) k)) (\<lambda>k.
     Some (Inr (k\<lparr>dl_lists := (dl_lists k)(a := None)\<rparr>))))))"

definition DLList_IsEmpty :: "DLList \<Rightarrow> bool" where
  "DLList_IsEmpty l \<longleftrightarrow> dl_first l = None \<and> dl_last l = None"

definition new_node :: "nat \<Rightarrow> nat option \<Rightarrow> int \<Rightarrow> ('h, 'm) dlkernel_scheme \<Rightarrow> ('h, 'm) dlkernel_scheme" where
  "new_node nd item key k = k\<lparr>dl_nodes := (dl_nodes k)(nd \<mapsto> DLLElement_new item key)\<rparr>"

definition DLList_Prepend ::
  "nat \<Rightarrow> nat \<Rightarrow> nat option \<Rightarrow> ('h, 'm) dlkernel_scheme \<Rightarrow> ('h, 'm) dlkernel_scheme result" where
  "DLList_Prepend a nd item k =
     rbind (dl_at a k) (\<lambda>l.
     if dl_first l = None then
       rbind (set_first a (Some nd) (new_node nd item 1 k)) (set_last a (Some nd))
     else
       rbind (deref (dl_first l) k) (\<lambda>e.
       rbind (int_add (dl_key e) (- 1)) (\<lambda>key.
       rbind (modify (dl_first l) (dl_prev_update (\<lambda>_. Some nd)) (new_node nd item key k)) (\<lambda>k.
       rbind (modify (Some nd) (dl_next_update (\<lambda>_. dl_first l)) k) (set_first a (Some nd))))))"

text \<open>\<open>last->next = newnode; last = newnode\<close>\<close>

definition link_last :: "nat \<Rightarrow> nat \<Rightarrow> ('h, 'm) dlkernel_scheme \<Rightarrow> ('h, 'm) dlkernel_scheme result" where
  "link_last a nd k =
     rbind (dl_at a k) (\<lambda>l.
     rbind (modify (dl_last l) (dl_next_update (\<lambda>_. Some nd)) k) (set_last a (Some nd)))"

definition DLList_Append ::
  "('h, ('h, 'm) dlkernel_scheme) cpu \<Rightarrow> nat \<Rightarrow> nat \<Rightarrow> nat option \<Rightarrow> ('h, 'm) dlkernel_scheme \<Rightarrow>
    ('h, 'm) dlkernel_scheme result option" where
  "DLList_Append cpu a nd item k =
     orbind (Some (dl_at a k)) (\<lambda>l0.
     orbind (Lock_Acquire cpu (dl_lock l0) k) (\<lambda>k.
     orbind (Some (let k = new_node nd item 1 k in
       rbind (dl_at a k) (\<lambda>l.
       if DLList_IsEmpty l then rbind (set_first a (Some nd) k) (set_last a (Some nd))
       else rbind (modify (dl_last l) (dl_next_update (\<lambda>_. Some nd)) k) (\<lambda>k.
            rbind (modify (Some nd) (dl_prev_update (\<lambda>_. dl_last l)) k) (set_last a (Some nd)))))) (\<lambda>k.
     orbind (Condition_Signal cpu (dl_empty l0) k) (\<lambda>k.
     Lock_Release cpu (dl_lock l0) k))))"

text \<open>\<open>while(IsEmpty()) dllistEmpty->Wait(lock);\<close>\<close>

partial_function (option) wait_elements ::
  "('h, ('h, 'm) dlkernel_scheme) cpu \<Rightarrow> nat \<Rightarrow> ('h, 'm) dlkernel_scheme \<Rightarrow> ('h, 'm) dlkernel_scheme result option" where
  "wait_elements cpu a k =
     orbind (Some (dl_at a k)) (\<lambda>l.
     if DLList_IsEmpty l then orbind (Condition_Wait cpu (dl_empty l) (dl_lock l) k) (wait_elements cpu a)
     else Some (Inr k))"

text \<open>The body of \<open>Remove\<close>; the result is the item and the key, which is stored when \<open>keyPtr\<close> is not \<open>NULL\<close>.\<close>

definition take_first ::
  "nat \<Rightarrow> ('h, 'm) dlkernel_scheme \<Rightarrow> (nat option \<times> int \<times> ('h, 'm) dlkernel_scheme) result" where
  "take_first a k =
     rbind (dl_at a k) (\<lambda>l.
     rbind (deref (dl_first l) k) (\<lambda>e.
     rbind (if dl_first l = dl_last l \<and> dl_next e = None then rbind (set_first a None k) (set_last a None)
            else set_first a (dl_next e) k) (\<lambda>k.
     rbind (delete_node (dl_first l) k) (\<lambda>k.
     Inr (dl_item e, dl_key e, k)))))"

definition DLList_Remove ::
  "('h, ('h, 'm) dlkernel_scheme) cpu \<Rightarrow> nat \<Rightarrow> ('h, 'm) dlkernel_scheme \<Rightarrow>
    (nat option \<times> int \<times> ('h, 'm) dlkernel_scheme) result option" where
  "DLList_Remove cpu a k =
     orbind (Some (dl_at a k)) (\<lambda>l.
     orbind (Lock_Acquire cpu (dl_lock l) k) (\<lambda>k.
     orbind (wait_elements cpu a k) (\<lambda>k.
     orbind (Some (take_first a k)) (\<lambda>(item, key, k).
     orbind (Lock_Release cpu (dl_lock l) k) (\<lambda>k.
     Some (Inr (item, key, k)))))))"

text \<open>\<open>if(yield_flag && (testnum == 2 ||  testnum == 3)) currentThread->Yield();\<close>\<close>

definition maybe_yield ::
  "('h, ('h, 'm) dlkernel_scheme) cpu \<Rightarrow> ('h, 'm) dlkernel_scheme \<Rightarrow> ('h, 'm) dlkernel_scheme result option" where
  "maybe_yield cpu k =
     (if yield_flag k \<and> (testnum k = 2 \<or> testnum k = 3) then Thread_Yield cpu (currentThread k) k else Some (Inr k))"

text \<open>The loop of \<open>SortedInsert\<close>, up to the element behind which the new one goes; \<^const>\<open>None\<close> is the end.\<close>

partial_function (option) find_place ::
  "int \<Rightarrow> nat option \<Rightarrow> ('h, 'm) dlkernel_scheme \<Rightarrow> nat option result option" where
  "find_place sortKey p k =
     orbind (Some (deref p k)) (\<lambda>e.
     if dl_next e = None then Some (Inr None)
     else orbind (Some (deref (dl_next e) k)) (\<lambda>e'.
          if sortKey < dl_key e' then Some (Inr p) else find_place sortKey (dl_next e) k))"

definition DLList_SortedInsert ::
  "('h, ('h, 'm) dlkernel_scheme) cpu \<Rightarrow> nat \<Rightarrow> nat \<Rightarrow> nat option \<Rightarrow> int \<Rightarrow> ('h, 'm) dlkernel_scheme \<Rightarrow>
    ('h, 'm) dlkernel_scheme result option" where
  "DLList_SortedInsert cpu a nd item sortKey k =
     orbind (Some (dl_at a k)) (\<lambda>l0.
     orbind (Lock_Acquire cpu (dl_lock l0) k) (\<lambda>k.
     let k = new_node nd item sortKey k;
         finish = (\<lambda>k. orbind (Condition_Signal cpu (dl_empty l0) k) (Lock_Release cpu (dl_lock l0)))
     in
     orbind (Some (dl_at a k)) (\<lambda>l.
     if DLList_IsEmpty l then
       orbind (Some (rbind (set_first a (Some nd) k) (set_last a (Some nd)))) finish
     else
       orbind (Some (deref (dl_first l) k)) (\<lambda>f.
       if sortKey < dl_key f then
         orbind (Some (modify (Some nd) (dl_next_update (\<lambda>_. dl_first l)) k)) (\<lambda>k.
         orbind (maybe_yield cpu k) (\<lambda>k.
         orbind (Some (dl_at a k)) (\<lambda>l.
         Some (rbind (modify (dl_first l) (dl_prev_update (\<lambda>_. Some nd)) k) (set_first a (Some nd))))))
       else
         orbind (find_place sortKey (dl_first l) k) (\<lambda>place.
         case place of
           Some _ \<Rightarrow>
             orbind (Some (deref place k)) (\<lambda>e.
             orbind (Some (rbind (modify (Some nd) (dl_next_update (\<lambda>_. dl_next e)) k)
               (modify (Some nd) (dl_prev_update (\<lambda>_. place))))) (\<lambda>k.
             orbind (maybe_yield cpu k) (\<lambda>k.
             Some (rbind (deref place k) (\<lambda>e.
               rbind (modify (dl_next e) (dl_prev_update (\<lambda>_. Some nd)) k)
                 (modify place (dl_next_update (\<lambda>_. Some nd))))))))
         | None \<Rightarrow>
             orbind (Some (modify (Some nd) (dl_prev_update (\<lambda>_. dl_last l)) k)) (\<lambda>k.
             orbind (maybe_yield cpu k) (\<lambda>k.
             orbind (Some (link_last a nd k)) finish)))))))"

text \<open>
  The loop of \<open>SortedRemove\<close>, from the element \<open>p\<close> on, and what \<open>TB_return\<close> holds after it; \<open>junk\<close>
  below is what that variable, which has no initial value, holds at first.
\<close>

partial_function (option) remove_loop ::
  "int \<Rightarrow> nat option \<Rightarrow> nat option \<Rightarrow> ('h, 'm) dlkernel_scheme \<Rightarrow>
    (nat option \<times> nat option \<times> ('h, 'm) dlkernel_scheme) result option" where
  "remove_loop sortKey p TB_return k =
     orbind (Some (deref p k)) (\<lambda>e.
     if dl_next e = None then Some (Inr (p, TB_return, k))
     else
       let TB_return = dl_item e in
       orbind (Some (if dl_key e = sortKey then
           rbind (modify (dl_prev e) (dl_next_update (\<lambda>_. dl_next e)) k) (\<lambda>k.
           rbind (modify (dl_next e) (dl_prev_update (\<lambda>_. dl_prev e)) k) (delete_node p))
         else Inr k)) (\<lambda>k.
       orbind (Some (deref p k)) (\<lambda>e. remove_loop sortKey (dl_next e) TB_return k)))"

definition DLList_SortedRemove ::
  "('h, ('h, 'm) dlkernel_scheme) cpu \<Rightarrow> nat \<Rightarrow> nat option \<Rightarrow> int \<Rightarrow> ('h, 'm) dlkernel_scheme \<Rightarrow>
    (nat option \<times> ('h, 'm) dlkernel_scheme) result option" where
  "DLList_SortedRemove cpu a junk sortKey k =
     orbind (Some (dl_at a k)) (\<lambda>l0.
     orbind (Lock_Acquire cpu (dl_lock l0) k) (\<lambda>k.
     orbind (wait_elements cpu a k) (\<lambda>k.
     orbind (Some (dl_at a k)) (\<lambda>l.
     orbind (Some (deref (dl_first l) k)) (\<lambda>f.
     if dl_key f = sortKey then
       orbind (Some (rbind (set_first a None k) (set_last a None))) (\<lambda>k.
       orbind (Lock_Release cpu (dl_lock l0) k) (\<lambda>k. Some (Inr (junk, k))))
     else
       orbind (remove_loop sortKey (dl_next f) junk k) (\<lambda>(p, _, k).
       orbind (Some (deref p k)) (\<lambda>e.
       if dl_key e = sortKey then
         orbind (Some (rbind (modify (dl_prev e) (dl_next_update (\<lambda>_. None)) k) (\<lambda>k.
           rbind (set_last a (dl_prev e) k) (delete_node p)))) (\<lambda>k.
         orbind (Lock_Release cpu (dl_lock l0) k) (\<lambda>k. Some (Inr (dl_item e, k))))
       else Some (Inr (None, k)))))))))"

text \<open>The two calls of \<open>dllist-driver.cc\<close> that do more than print.\<close>

definition InsertItem ::
  "('h, ('h, 'm) dlkernel_scheme) cpu \<Rightarrow> nat \<Rightarrow> nat \<Rightarrow> int \<Rightarrow> ('h, 'm) dlkernel_scheme \<Rightarrow>
    ('h, 'm) dlkernel_scheme result option" where
  "InsertItem cpu dllist nd keyv k = DLList_SortedInsert cpu dllist nd None keyv k"

definition RemoveItem ::
  "('h, ('h, 'm) dlkernel_scheme) cpu \<Rightarrow> nat \<Rightarrow> nat option \<Rightarrow> int \<Rightarrow> ('h, 'm) dlkernel_scheme \<Rightarrow>
    ('h, 'm) dlkernel_scheme result option" where
  "RemoveItem cpu dllist junk keyv k =
     orbind (DLList_SortedRemove cpu dllist junk keyv k) (\<lambda>(_, k). Some (Inr k))"

subsection \<open>The list in memory\<close>

type_synonym entry = "nat \<times> int \<times> nat option"

text \<open>The elements from \<open>p\<close> on up to \<open>nx\<close>, linked both ways; \<open>pr\<close> comes before them, \<open>la\<close> is the last one.\<close>

fun dl_seg :: "(nat \<Rightarrow> DLLElement option) \<Rightarrow> nat option \<Rightarrow> nat option \<Rightarrow> entry list \<Rightarrow> nat option \<Rightarrow> nat option \<Rightarrow> bool" where
  "dl_seg N pr p [] nx la \<longleftrightarrow> p = nx \<and> pr = la"
| "dl_seg N pr p ((a, key, item) # xs) nx la \<longleftrightarrow> p = Some a \<and>
     (\<exists>n. N a = Some \<lparr>dl_next = n, dl_prev = pr, dl_key = key, dl_item = item\<rparr> \<and> dl_seg N (Some a) n xs nx la)"

text \<open>\<open>Remove\<close> leaves a pointer before the first element; nothing follows it.\<close>

definition dl_rep :: "(nat \<Rightarrow> DLLElement option) \<Rightarrow> DLList \<Rightarrow> entry list \<Rightarrow> bool" where
  "dl_rep N l xs \<longleftrightarrow> distinct (map fst xs) \<and>
     (if xs = [] then dl_first l = None \<and> dl_last l = None else \<exists>pr. dl_seg N pr (dl_first l) xs None (dl_last l))"

lemma dl_seg_append:
  "dl_seg N pr p (xs @ ys) nx la \<longleftrightarrow> (\<exists>m lm. dl_seg N pr p xs m lm \<and> dl_seg N lm m ys nx la)"
  by (induction xs arbitrary: pr p) (auto, blast+)

lemma dl_seg_frame: "x \<notin> fst ` set xs \<Longrightarrow> dl_seg (N(x := v)) pr p xs nx la = dl_seg N pr p xs nx la"
  by (induction xs arbitrary: pr p) auto

lemma dl_seg_ends:
  "dl_seg N pr p xs nx la \<Longrightarrow> xs \<noteq> [] \<Longrightarrow> p = Some (fst (hd xs)) \<and> la = Some (fst (last xs))"
  by (induction xs arbitrary: pr p) (auto split: if_splits)

lemma dl_seg_fresh: "dl_seg N pr p xs nx la \<Longrightarrow> N x = None \<Longrightarrow> x \<notin> fst ` set xs"
  by (induction xs arbitrary: pr p) (auto, metis fst_conv image_eqI)

lemma dl_seg_set_prev:
  "dl_seg N pr p ((a, key, item) # xs) nx la \<Longrightarrow> a \<notin> fst ` set xs \<Longrightarrow> N a = Some e \<Longrightarrow>
    dl_seg (N(a \<mapsto> e\<lparr>dl_prev := q\<rparr>)) q p ((a, key, item) # xs) nx la"
  by (auto simp: dl_seg_frame)

lemma dl_seg_set_next:
  "dl_seg N pr p (xs @ [(a, key, item)]) nx la \<Longrightarrow> a \<notin> fst ` set xs \<Longrightarrow> N a = Some e \<Longrightarrow>
    dl_seg (N(a \<mapsto> e\<lparr>dl_next := m\<rparr>)) pr p (xs @ [(a, key, item)]) m la"
  by (auto simp: dl_seg_append dl_seg_frame)

text \<open>Where \<open>find_place\<close> stops.\<close>

definition upto_key :: "int \<Rightarrow> entry list \<Rightarrow> entry list" where
  "upto_key sk = takeWhile (\<lambda>(_, key, _). key \<le> sk)"

definition from_key :: "int \<Rightarrow> entry list \<Rightarrow> entry list" where
  "from_key sk = dropWhile (\<lambda>(_, key, _). key \<le> sk)"

lemma upto_from: "upto_key sk xs @ from_key sk xs = xs"
  by (simp add: upto_key_def from_key_def)

lemma key_Cons [simp]:
  "upto_key sk ((a, key, item) # xs) = (if key \<le> sk then (a, key, item) # upto_key sk xs else [])"
  "from_key sk ((a, key, item) # xs) = (if key \<le> sk then from_key sk xs else (a, key, item) # xs)"
  "upto_key sk [] = []" "from_key sk [] = []"
  by (simp_all add: upto_key_def from_key_def)

lemma find_place_spec:
  assumes "dl_seg (dl_nodes k) pr p (x # xs) None la"
  shows "find_place sk p k = Some (Inr (if from_key sk xs = [] then None else Some (fst (last (x # upto_key sk xs)))))"
  using assms
proof (induction xs arbitrary: x pr p)
  case Nil
  obtain a key item where x: "x = (a, key, item)" by (cases x)
  show ?case using Nil by (subst find_place.simps) (auto simp: x deref_def)
next
  case (Cons y ys)
  obtain a key item where x: "x = (a, key, item)" by (cases x)
  obtain b key' item' where y: "y = (b, key', item')" by (cases y)
  obtain e e' where e: "p = Some a" "dl_nodes k a = Some e" "dl_next e = Some b" "dl_nodes k b = Some e'" "dl_key e' = key'"
    and rest: "dl_seg (dl_nodes k) (Some a) (Some b) (y # ys) None la"
    using Cons.prems by (auto simp: x y)
  have "find_place sk p k = (if sk < key' then Some (Inr p) else find_place sk (Some b) k)"
    using e by (subst find_place.simps) (simp add: deref_def)
  then show ?case using Cons.IH [OF rest] e(1) by (auto simp: x y)
qed

text \<open>Linking a new element in, at the front, in the middle and at the end.\<close>

lemma dl_front:
  assumes "dl_seg N pr p ((a, key, item) # xs) None la" and "a \<notin> fst ` set xs" and "nd \<notin> fst ` set ((a, key, item) # xs)"
    and "N a = Some e"
  shows "dl_seg (N(nd \<mapsto> \<lparr>dl_next = Some a, dl_prev = None, dl_key = sk, dl_item = it\<rparr>, a \<mapsto> e\<lparr>dl_prev := Some nd\<rparr>)) None (Some nd)
    ((nd, sk, it) # (a, key, item) # xs) None la"
proof -
  let ?N = "N(nd \<mapsto> \<lparr>dl_next = Some a, dl_prev = None, dl_key = sk, dl_item = it\<rparr>)"
  have "dl_seg ?N pr p ((a, key, item) # xs) None la" using assms(1,3) by (simp add: dl_seg_frame)
  moreover have "?N a = Some e" using assms(3,4) by auto
  ultimately have "dl_seg (?N(a \<mapsto> e\<lparr>dl_prev := Some nd\<rparr>)) (Some nd) p ((a, key, item) # xs) None la"
    using assms(2) by (intro dl_seg_set_prev)
  moreover have "p = Some a" using assms(1) by simp
  ultimately show ?thesis using assms(3) by auto
qed

lemma dl_middle:
  assumes seg: "dl_seg N pr p (us @ [(u, uk, ui)] @ (v, vk, vi) # vs) None la"
    and d: "distinct (map fst (us @ [(u, uk, ui)] @ (v, vk, vi) # vs))" and nd: "nd \<notin> fst ` set (us @ [(u, uk, ui)] @ (v, vk, vi) # vs)"
    and e: "N u = Some eu" "N v = Some ev"
  shows "dl_seg (N(nd \<mapsto> \<lparr>dl_next = Some v, dl_prev = Some u, dl_key = sk, dl_item = it\<rparr>, v \<mapsto> ev\<lparr>dl_prev := Some nd\<rparr>,
    u \<mapsto> eu\<lparr>dl_next := Some nd\<rparr>)) pr p (us @ [(u, uk, ui)] @ (nd, sk, it) # (v, vk, vi) # vs) None la"
    (is "dl_seg ?N' _ _ _ _ _")
proof -
  let ?N = "N(nd \<mapsto> \<lparr>dl_next = Some v, dl_prev = Some u, dl_key = sk, dl_item = it\<rparr>)"
  have d': "u \<notin> fst ` set us" "v \<notin> fst ` set us" "u \<noteq> v" "v \<notin> fst ` set vs" "u \<notin> fst ` set vs"
    using d by auto
  have n: "nd \<noteq> u" "nd \<noteq> v" "nd \<notin> fst ` set us" "nd \<notin> fst ` set vs" using nd by auto
  obtain m lm where 1: "dl_seg N pr p (us @ [(u, uk, ui)]) m lm" and 2: "dl_seg N lm m ((v, vk, vi) # vs) None la"
    using seg dl_seg_append [of N pr p "us @ [(u, uk, ui)]" "(v, vk, vi) # vs" None la] by auto
  have lm: "lm = Some u" "m = Some v" using dl_seg_ends [OF 1] 2 by simp_all
  have "dl_seg (N(u \<mapsto> eu\<lparr>dl_next := Some nd\<rparr>)) pr p (us @ [(u, uk, ui)]) (Some nd) lm"
    by (rule dl_seg_set_next [OF 1 d'(1) e(1)])
  then have "dl_seg ((N(u \<mapsto> eu\<lparr>dl_next := Some nd\<rparr>))(nd \<mapsto> \<lparr>dl_next = Some v, dl_prev = Some u, dl_key = sk, dl_item = it\<rparr>,
      v \<mapsto> ev\<lparr>dl_prev := Some nd\<rparr>)) pr p (us @ [(u, uk, ui)]) (Some nd) lm"
    using d' n by (simp add: dl_seg_frame)
  moreover have "(N(u \<mapsto> eu\<lparr>dl_next := Some nd\<rparr>))(nd \<mapsto> \<lparr>dl_next = Some v, dl_prev = Some u, dl_key = sk, dl_item = it\<rparr>,
      v \<mapsto> ev\<lparr>dl_prev := Some nd\<rparr>) = ?N'"
    using d' n by (auto simp: fun_eq_iff)
  ultimately have first: "dl_seg ?N' pr p (us @ [(u, uk, ui)]) (Some nd) (Some u)" using lm by simp
  have "dl_seg ?N lm m ((v, vk, vi) # vs) None la" using 2 n by (simp add: dl_seg_frame)
  from dl_seg_set_prev [OF this d'(4), of ev "Some nd"] e(2) n
  have "dl_seg (?N(v \<mapsto> ev\<lparr>dl_prev := Some nd\<rparr>)) (Some nd) m ((v, vk, vi) # vs) None la" by simp
  then have second: "dl_seg ?N' (Some nd) (Some v) ((v, vk, vi) # vs) None la"
    using d' lm by (simp add: dl_seg_frame)
  have "dl_seg ?N' (Some u) (Some nd) [(nd, sk, it)] (Some v) (Some nd)" using n by simp
  then have "dl_seg ?N' (Some u) (Some nd) ((nd, sk, it) # (v, vk, vi) # vs) None la"
    using second dl_seg_append [of ?N' "Some u" "Some nd" "[(nd, sk, it)]" "(v, vk, vi) # vs"] by auto
  then show ?thesis using first dl_seg_append [of ?N' pr p "us @ [(u, uk, ui)]"] by (simp only: append_assoc) blast
qed

lemma dl_end:
  assumes seg: "dl_seg N pr p (us @ [(u, uk, ui)]) None la"
    and d: "distinct (map fst (us @ [(u, uk, ui)]))" and nd: "nd \<notin> fst ` set (us @ [(u, uk, ui)])" and e: "N u = Some eu"
  shows "dl_seg (N(nd \<mapsto> \<lparr>dl_next = None, dl_prev = Some u, dl_key = sk, dl_item = it\<rparr>, u \<mapsto> eu\<lparr>dl_next := Some nd\<rparr>)) pr p
    (us @ [(u, uk, ui)] @ [(nd, sk, it)]) None (Some nd)" (is "dl_seg ?N' _ _ _ _ _")
proof -
  have d': "u \<notin> fst ` set us" "nd \<noteq> u" "nd \<notin> fst ` set us" using d nd by auto
  have la: "la = Some u" using dl_seg_ends [OF seg] by simp
  have "dl_seg (N(u \<mapsto> eu\<lparr>dl_next := Some nd\<rparr>)) pr p (us @ [(u, uk, ui)]) (Some nd) la"
    by (rule dl_seg_set_next [OF seg d'(1) e])
  then have "dl_seg ((N(u \<mapsto> eu\<lparr>dl_next := Some nd\<rparr>))(nd \<mapsto> \<lparr>dl_next = None, dl_prev = Some u, dl_key = sk, dl_item = it\<rparr>))
      pr p (us @ [(u, uk, ui)]) (Some nd) la"
    using d' by (simp add: dl_seg_frame)
  moreover have "(N(u \<mapsto> eu\<lparr>dl_next := Some nd\<rparr>))(nd \<mapsto> \<lparr>dl_next = None, dl_prev = Some u, dl_key = sk, dl_item = it\<rparr>) = ?N'"
    using d' by (auto simp: fun_eq_iff)
  ultimately have "dl_seg ?N' pr p (us @ [(u, uk, ui)]) (Some nd) (Some u)" using la by simp
  moreover have "dl_seg ?N' (Some u) (Some nd) [(nd, sk, it)] None (Some nd)" using d' by simp
  ultimately show ?thesis using dl_seg_append [of ?N' pr p "us @ [(u, uk, ui)]"] by (simp only: append_assoc) blast
qed

subsection \<open>One thread\<close>

definition dl_state :: "bool \<Rightarrow> nat \<Rightarrow> entry list \<Rightarrow> ('h, 'm) dlkernel_scheme \<Rightarrow> bool" where
  "dl_state held a xs k \<longleftrightarrow> still k \<and> level k = IntOn \<and> (\<exists>l. dl_lists k a = Some l \<and> dl_rep (dl_nodes k) l xs \<and>
     monitor UNIV held (dl_lock l) {dl_empty l} k)"

lemma dl_updates [simp]:
  "still (put_dl a l k) = still k" "level (put_dl a l k) = level k" "dl_nodes (put_dl a l k) = dl_nodes k"
  "dl_lists (put_dl a l k) = (dl_lists k)(a \<mapsto> l)" "monitor own held x cs (put_dl a l k) = monitor own held x cs k"
  "still (k\<lparr>dl_nodes := N\<rparr>) = still k" "monitor own held x cs (k\<lparr>dl_nodes := N\<rparr>) = monitor own held x cs k"
  "dl_lists (new_node nd it sk k) = dl_lists k" "still (new_node nd it sk k) = still k"
  "level (new_node nd it sk k) = level k" "monitor own held x cs (new_node nd it sk k) = monitor own held x cs k"
  "dl_nodes (new_node nd it sk k) = (dl_nodes k)(nd \<mapsto> \<lparr>dl_next = None, dl_prev = None, dl_key = sk, dl_item = it\<rparr>)"
  by (simp_all add: put_dl_def still_def monitor_def signalled_def new_node_def DLLElement_new_def)

lemma dl_more:
  fixes k :: "('h, 'm) dlkernel_scheme"
  assumes "skernel.more k' = skernel.more k"
  shows "dl_nodes k' = dl_nodes k" and "dl_lists k' = dl_lists k" and "yield_flag k' = yield_flag k" and "testnum k' = testnum k"
  using assms by (cases k; cases k'; simp)+

text \<open>Entering, signalling and leaving, with the list as it is.\<close>

lemma dl_enter:
  assumes "dl_state False a xs k" and "dl_lists k a = Some l"
  shows "\<exists>k1. Lock_Acquire cpu (dl_lock l) k = Some (Inr k1) \<and> dl_state True a xs k1 \<and> skernel.more k1 = skernel.more k"
proof -
  have "still k" "level k = IntOn" "monitor UNIV False (dl_lock l) {dl_empty l} k" "dl_rep (dl_nodes k) l xs"
    using assms by (auto simp: dl_state_def)
  moreover from still.monitor_enter [OF this(1-3)] obtain k1 where
    k1: "Lock_Acquire cpu (dl_lock l) k = Some (Inr k1)" "still k1" "level k1 = IntOn"
      "monitor UNIV True (dl_lock l) {dl_empty l} k1" "skernel.more k1 = skernel.more k"
    by blast
  ultimately show ?thesis using assms(2) dl_more [OF k1(5)] by (auto simp: dl_state_def)
qed

lemma dl_signal:
  assumes "dl_state True a xs k" and "dl_lists k a = Some l"
  shows "\<exists>k1. Condition_Signal cpu (dl_empty l) k = Some (Inr k1) \<and> dl_state True a xs k1 \<and> skernel.more k1 = skernel.more k"
proof -
  have "still k" "level k = IntOn" "monitor UNIV True (dl_lock l) {dl_empty l} k" "dl_rep (dl_nodes k) l xs"
    using assms by (auto simp: dl_state_def)
  moreover from still.monitor_signal [OF this(1-3), of "dl_empty l" cpu] obtain k1 where
    k1: "Condition_Signal cpu (dl_empty l) k = Some (Inr k1)" "still k1" "level k1 = IntOn"
      "monitor UNIV True (dl_lock l) {dl_empty l} k1" "skernel.more k1 = skernel.more k"
    by auto
  ultimately show ?thesis using assms(2) dl_more [OF k1(5)] by (auto simp: dl_state_def)
qed

lemma dl_leave:
  assumes "dl_state True a xs k" and "dl_lists k a = Some l"
  shows "\<exists>k1. Lock_Release cpu (dl_lock l) k = Some (Inr k1) \<and> dl_state False a xs k1 \<and> skernel.more k1 = skernel.more k"
proof -
  have "still k" "level k = IntOn" "monitor UNIV True (dl_lock l) {dl_empty l} k" "dl_rep (dl_nodes k) l xs"
    using assms by (auto simp: dl_state_def)
  moreover from still.monitor_leave [OF this(1-3)] obtain k1 where
    k1: "Lock_Release cpu (dl_lock l) k = Some (Inr k1)" "still k1" "level k1 = IntOn"
      "monitor UNIV False (dl_lock l) {dl_empty l} k1" "skernel.more k1 = skernel.more k"
    by blast
  ultimately show ?thesis using assms(2) dl_more [OF k1(5)] by (auto simp: dl_state_def)
qed

lemma dl_finish:
  assumes "dl_state True a xs k" and "dl_lists k a = Some l"
  shows "\<exists>k1. orbind (Condition_Signal cpu (dl_empty l) k) (Lock_Release cpu (dl_lock l)) = Some (Inr k1) \<and> dl_state False a xs k1"
proof -
  obtain k1 where k1: "Condition_Signal cpu (dl_empty l) k = Some (Inr k1)" "dl_state True a xs k1" "dl_lists k1 a = Some l"
    using dl_signal [OF assms] dl_more(2) assms(2) by metis
  then show ?thesis using dl_leave [OF k1(2,3)] by auto
qed

text \<open>A yield in between, with the only thread, changes nothing.\<close>

lemma dl_yield:
  assumes "still k" and "level k = IntOn" and "monitor UNIV True x cs k"
  shows "\<exists>k1. maybe_yield cpu k = Some (Inr k1) \<and> still k1 \<and> level k1 = IntOn \<and> monitor UNIV True x cs k1 \<and>
    skernel.more k1 = skernel.more k"
proof -
  have "\<exists>k1. maybe_yield cpu k = Some (Inr k1) \<and> (k1 = k \<or> still.same UNIV k k1)"
    using still.calm_Yield [OF assms(1,2)] by (auto simp: maybe_yield_def)
  then show ?thesis using assms by (auto simp: still.same_def monitor_def signalled_def)
qed

lemma SortedInsert_empty:
  assumes k: "dl_state False a [] k"
  shows "\<exists>k'. DLList_SortedInsert cpu a nd it sk k = Some (Inr k') \<and> dl_state False a [(nd, sk, it)] k'"
proof -
  obtain l where l: "dl_lists k a = Some l" "dl_first l = None" "dl_last l = None"
    using k by (auto simp: dl_state_def dl_rep_def)
  obtain k1 where k1: "Lock_Acquire cpu (dl_lock l) k = Some (Inr k1)" "dl_state True a [] k1" "dl_lists k1 a = Some l"
    using dl_enter [OF k l(1), of cpu] dl_more(2) l(1) by metis
  let ?l = "l\<lparr>dl_first := Some nd, dl_last := Some nd\<rparr>"
  let ?k = "put_dl a ?l (put_dl a (l\<lparr>dl_first := Some nd\<rparr>) (new_node nd it sk k1))"
  have "dl_state True a [(nd, sk, it)] ?k" using k1(2,3) by (auto simp: dl_state_def dl_rep_def)
  from dl_finish [OF this, of ?l cpu] show ?thesis using l k1
    by (auto simp: DLList_SortedInsert_def dl_at_def DLList_IsEmpty_def set_first_def set_last_def Let_def)
qed

lemma modify_at: "dl_nodes k x = Some e \<Longrightarrow> modify (Some x) f k = Inr (k\<lparr>dl_nodes := (dl_nodes k)(x \<mapsto> f e)\<rparr>)"
  by (simp add: modify_def deref_def)

text \<open>The three ways into a list that has elements; only the last one gives the lock back.\<close>

lemma SortedInsert_enter:
  assumes k: "dl_state False a (x # xs) k" and nd: "dl_nodes k nd = None"
  shows "\<exists>l k1 pr f. dl_lists k a = Some l \<and> Lock_Acquire cpu (dl_lock l) k = Some (Inr k1) \<and> still k1 \<and> level k1 = IntOn \<and>
    monitor UNIV True (dl_lock l) {dl_empty l} k1 \<and> dl_lists k1 a = Some l \<and> dl_seg (dl_nodes k1) pr (dl_first l) (x # xs) None (dl_last l) \<and>
    distinct (map fst (x # xs)) \<and> nd \<notin> fst ` set (x # xs) \<and> dl_first l = Some (fst x) \<and>
    dl_nodes k1 (fst x) = Some f \<and> dl_key f = fst (snd x) \<and> dl_nodes k1 = dl_nodes k"
proof -
  obtain l where l: "dl_lists k a = Some l" using k by (auto simp: dl_state_def)
  obtain k1 where k1: "Lock_Acquire cpu (dl_lock l) k = Some (Inr k1)" "dl_state True a (x # xs) k1" "skernel.more k1 = skernel.more k"
    using dl_enter [OF k l, of cpu] by blast
  note same = dl_more [OF k1(3)]
  have rep: "dl_rep (dl_nodes k1) l (x # xs)" using k1(2) same(2) l by (auto simp: dl_state_def)
  then obtain pr where seg: "dl_seg (dl_nodes k1) pr (dl_first l) (x # xs) None (dl_last l)" by (auto simp: dl_rep_def)
  have "nd \<notin> fst ` set (x # xs)" by (rule dl_seg_fresh [OF seg]) (use nd same(1) in simp)
  moreover obtain f where "dl_first l = Some (fst x)" "dl_nodes k1 (fst x) = Some f" "dl_key f = fst (snd x)"
    using seg by (cases x) auto
  ultimately show ?thesis using k1 l rep seg same
    by (intro exI [of _ l] exI [of _ k1] exI [of _ pr] exI [of _ f]) (simp add: dl_state_def dl_rep_def)
qed

lemma SortedInsert_front:
  assumes k: "dl_state False a ((x, key, item) # xs) k" and nd: "dl_nodes k nd = None" and lt: "sk < key"
  shows "\<exists>k'. DLList_SortedInsert cpu a nd it sk k = Some (Inr k') \<and> dl_state True a ((nd, sk, it) # (x, key, item) # xs) k'"
proof -
  obtain l k1 pr f where l: "dl_lists k a = Some l" and k1: "Lock_Acquire cpu (dl_lock l) k = Some (Inr k1)" "still k1"
    "level k1 = IntOn" "monitor UNIV True (dl_lock l) {dl_empty l} k1" "dl_lists k1 a = Some l"
    and seg: "dl_seg (dl_nodes k1) pr (dl_first l) ((x, key, item) # xs) None (dl_last l)"
    and d: "distinct (map fst ((x, key, item) # xs))" "nd \<notin> fst ` set ((x, key, item) # xs)"
    and f: "dl_first l = Some x" "dl_nodes k1 x = Some f" "dl_key f = key"
    using SortedInsert_enter [OF k nd, of cpu] unfolding fst_conv snd_conv by (elim exE conjE) (rule that)
  let ?N = "(dl_nodes k1)(nd \<mapsto> \<lparr>dl_next = Some x, dl_prev = None, dl_key = sk, dl_item = it\<rparr>)"
  define k3 where "k3 = (new_node nd it sk k1)\<lparr>dl_nodes := ?N\<rparr>"
  obtain k4 where k4: "maybe_yield cpu k3 = Some (Inr k4)" "still k4" "level k4 = IntOn"
    "monitor UNIV True (dl_lock l) {dl_empty l} k4" "skernel.more k4 = skernel.more k3"
    using dl_yield [of k3 "dl_lock l" "{dl_empty l}" cpu] k1 by (auto simp: k3_def)
  note same = dl_more [OF k4(5)]
  have x: "nd \<noteq> x" using d by auto
  let ?k = "put_dl a (l\<lparr>dl_first := Some nd\<rparr>) (k4\<lparr>dl_nodes := ?N(x \<mapsto> f\<lparr>dl_prev := Some nd\<rparr>)\<rparr>)"
  have "dl_seg (?N(x \<mapsto> f\<lparr>dl_prev := Some nd\<rparr>)) None (Some nd) ((nd, sk, it) # (x, key, item) # xs) None (dl_last l)"
    using dl_front [OF seg _ d(2) f(2), of sk it] d(1) by simp
  then have "dl_state True a ((nd, sk, it) # (x, key, item) # xs) ?k"
    using k4 d same by (auto simp: dl_state_def dl_rep_def)
  moreover have "modify (Some nd) (dl_next_update (\<lambda>_. Some x)) (new_node nd it sk k1) = Inr k3"
    by (simp add: modify_at k3_def)
  moreover have "modify (Some x) (dl_prev_update (\<lambda>_. Some nd)) k4 = Inr (k4\<lparr>dl_nodes := ?N(x \<mapsto> f\<lparr>dl_prev := Some nd\<rparr>)\<rparr>)"
    using same(1) f x by (simp add: modify_at k3_def)
  moreover have "dl_lists k4 a = Some l" using same(2) k1(5) by (simp add: k3_def)
  ultimately show ?thesis using l k1(1,5) k4(1) f lt x
    by (intro exI [of _ ?k]) (simp add: DLList_SortedInsert_def dl_at_def DLList_IsEmpty_def Let_def deref_def set_first_def)
qed

lemma SortedInsert_middle:
  assumes k: "dl_state False a ((x, key, item) # xs) k" and nd: "dl_nodes k nd = None" and le: "key \<le> sk"
    and fk: "from_key sk xs \<noteq> []"
  shows "\<exists>k'. DLList_SortedInsert cpu a nd it sk k = Some (Inr k') \<and>
    dl_state True a ((x, key, item) # upto_key sk xs @ [(nd, sk, it)] @ from_key sk xs) k'"
proof -
  obtain l k1 pr f where l: "dl_lists k a = Some l" and k1: "Lock_Acquire cpu (dl_lock l) k = Some (Inr k1)" "still k1"
    "level k1 = IntOn" "monitor UNIV True (dl_lock l) {dl_empty l} k1" "dl_lists k1 a = Some l"
    and seg: "dl_seg (dl_nodes k1) pr (dl_first l) ((x, key, item) # xs) None (dl_last l)"
    and d: "distinct (map fst ((x, key, item) # xs))" "nd \<notin> fst ` set ((x, key, item) # xs)"
    and f: "dl_first l = Some x" "dl_nodes k1 x = Some f" "dl_key f = key"
    using SortedInsert_enter [OF k nd, of cpu] unfolding fst_conv snd_conv by (elim exE conjE) (rule that)
  obtain us u uk ui where us: "(x, key, item) # upto_key sk xs = us @ [(u, uk, ui)]"
    using append_butlast_last_id [of "(x, key, item) # upto_key sk xs"] by (metis list.discI prod_cases3)
  obtain v vk vi vs where vs: "from_key sk xs = (v, vk, vi) # vs" using fk by (metis list.exhaust prod_cases3)
  have xs: "(x, key, item) # xs = us @ [(u, uk, ui)] @ (v, vk, vi) # vs"
    using upto_from [of sk xs] us vs by (metis append_Cons append_assoc)
  obtain eu ev where e: "dl_nodes k1 u = Some eu" "dl_next eu = Some v" "dl_nodes k1 v = Some ev"
    using seg unfolding xs by (auto simp: dl_seg_append)
  have n: "nd \<noteq> u" "nd \<noteq> v" "u \<noteq> v" using d unfolding xs by auto
  let ?new = "\<lparr>dl_next = Some v, dl_prev = Some u, dl_key = sk, dl_item = it\<rparr>"
  let ?N = "(dl_nodes k1)(nd \<mapsto> ?new)" and ?k2 = "new_node nd it sk k1"
  define k3 where "k3 = ?k2\<lparr>dl_nodes := ?N\<rparr>"
  obtain k4 where k4: "maybe_yield cpu k3 = Some (Inr k4)" "still k4" "level k4 = IntOn"
    "monitor UNIV True (dl_lock l) {dl_empty l} k4" "skernel.more k4 = skernel.more k3"
    using dl_yield [of k3 "dl_lock l" "{dl_empty l}" cpu] k1 by (auto simp: k3_def)
  note same = dl_more [OF k4(5)]
  have seg2: "dl_seg (dl_nodes ?k2) pr (Some x) ((x, key, item) # xs) None (dl_last l)"
    using seg d(2) f(1) by (simp add: dl_seg_frame)
  have "last ((x, key, item) # upto_key sk xs) = (u, uk, ui)" unfolding us by simp
  then have place: "find_place sk (Some x) ?k2 = Some (Inr (Some u))"
    using find_place_spec [OF seg2, of sk] fk by simp
  have deref2: "deref (Some u) ?k2 = Inr eu" using e(1) n by (simp add: deref_def)
  have set_new: "rbind (modify (Some nd) (dl_next_update (\<lambda>_. Some v)) ?k2) (modify (Some nd) (dl_prev_update (\<lambda>_. Some u))) = Inr k3"
    by (simp add: modify_at k3_def)
  let ?k5 = "k4\<lparr>dl_nodes := ?N(v \<mapsto> ev\<lparr>dl_prev := Some nd\<rparr>)\<rparr>"
  let ?k6 = "?k5\<lparr>dl_nodes := ?N(v \<mapsto> ev\<lparr>dl_prev := Some nd\<rparr>, u \<mapsto> eu\<lparr>dl_next := Some nd\<rparr>)\<rparr>"
  have "deref (Some u) k4 = Inr eu" using same(1) e(1) n by (simp add: deref_def k3_def)
  moreover have "modify (Some v) (dl_prev_update (\<lambda>_. Some nd)) k4 = Inr ?k5"
    using same(1) e(3) n by (simp add: modify_at k3_def)
  moreover have "modify (Some u) (dl_next_update (\<lambda>_. Some nd)) ?k5 = Inr ?k6"
    using e(1) n by (simp add: modify_at)
  ultimately have link: "rbind (deref (Some u) k4) (\<lambda>e. rbind (modify (dl_next e) (dl_prev_update (\<lambda>_. Some nd)) k4)
      (modify (Some u) (dl_next_update (\<lambda>_. Some nd)))) = Inr ?k6" using e(2) by simp
  have "dl_seg (?N(v \<mapsto> ev\<lparr>dl_prev := Some nd\<rparr>, u \<mapsto> eu\<lparr>dl_next := Some nd\<rparr>)) pr (dl_first l)
      (us @ [(u, uk, ui)] @ (nd, sk, it) # (v, vk, vi) # vs) None (dl_last l)"
    by (rule dl_middle [OF seg [unfolded xs] d(1) [unfolded xs] d(2) [unfolded xs] e(1,3)])
  moreover have "(x, key, item) # upto_key sk xs @ [(nd, sk, it)] @ from_key sk xs = us @ [(u, uk, ui)] @ (nd, sk, it) # (v, vk, vi) # vs"
    using us vs by (metis append_Cons append_Nil append_assoc)
  moreover have "distinct (map fst (us @ [(u, uk, ui)] @ (nd, sk, it) # (v, vk, vi) # vs))"
    using d unfolding xs by auto
  moreover have "dl_lists ?k6 a = Some l" using same(2) k1(5) by (simp add: k3_def)
  ultimately have "dl_state True a ((x, key, item) # upto_key sk xs @ [(nd, sk, it)] @ from_key sk xs) ?k6"
    using k4 by (auto simp: dl_state_def dl_rep_def)
  moreover have "DLList_SortedInsert cpu a nd it sk k = Some (Inr ?k6)"
    using l k1(1,5) k4(1) f le place deref2 set_new link d(2) e(2)
    by (simp add: DLList_SortedInsert_def dl_at_def DLList_IsEmpty_def deref_def)
  ultimately show ?thesis by blast
qed

lemma SortedInsert_end:
  assumes k: "dl_state False a ((x, key, item) # xs) k" and nd: "dl_nodes k nd = None" and le: "key \<le> sk"
    and fk: "from_key sk xs = []"
  shows "\<exists>k'. DLList_SortedInsert cpu a nd it sk k = Some (Inr k') \<and> dl_state False a ((x, key, item) # xs @ [(nd, sk, it)]) k'"
proof -
  obtain l k1 pr f where l: "dl_lists k a = Some l" and k1: "Lock_Acquire cpu (dl_lock l) k = Some (Inr k1)" "still k1"
    "level k1 = IntOn" "monitor UNIV True (dl_lock l) {dl_empty l} k1" "dl_lists k1 a = Some l"
    and seg: "dl_seg (dl_nodes k1) pr (dl_first l) ((x, key, item) # xs) None (dl_last l)"
    and d: "distinct (map fst ((x, key, item) # xs))" "nd \<notin> fst ` set ((x, key, item) # xs)"
    and f: "dl_first l = Some x" "dl_nodes k1 x = Some f" "dl_key f = key"
    using SortedInsert_enter [OF k nd, of cpu] unfolding fst_conv snd_conv by (elim exE conjE) (rule that)
  obtain us u uk ui where us: "(x, key, item) # xs = us @ [(u, uk, ui)]"
    using append_butlast_last_id [of "(x, key, item) # xs"] by (metis list.discI prod_cases3)
  obtain eu where e: "dl_nodes k1 u = Some eu" using seg unfolding us by (auto simp: dl_seg_append)
  have la: "dl_last l = Some u" using dl_seg_ends [OF seg] unfolding us by simp
  have n: "nd \<noteq> u" using d unfolding us by auto
  let ?new = "\<lparr>dl_next = None, dl_prev = Some u, dl_key = sk, dl_item = it\<rparr>"
  let ?N = "(dl_nodes k1)(nd \<mapsto> ?new)" and ?k2 = "new_node nd it sk k1"
  define k3 where "k3 = ?k2\<lparr>dl_nodes := ?N\<rparr>"
  obtain k4 where k4: "maybe_yield cpu k3 = Some (Inr k4)" "still k4" "level k4 = IntOn"
    "monitor UNIV True (dl_lock l) {dl_empty l} k4" "skernel.more k4 = skernel.more k3"
    using dl_yield [of k3 "dl_lock l" "{dl_empty l}" cpu] k1 by (auto simp: k3_def)
  note same = dl_more [OF k4(5)]
  have seg2: "dl_seg (dl_nodes ?k2) pr (Some x) ((x, key, item) # xs) None (dl_last l)"
    using seg d(2) f(1) by (simp add: dl_seg_frame)
  have place: "find_place sk (Some x) ?k2 = Some (Inr None)" using find_place_spec [OF seg2, of sk] fk by simp
  have set_new: "modify (Some nd) (dl_prev_update (\<lambda>_. Some u)) ?k2 = Inr k3" by (simp add: modify_at k3_def)
  let ?l = "l\<lparr>dl_last := Some nd\<rparr>" and ?k5 = "k4\<lparr>dl_nodes := ?N(u \<mapsto> eu\<lparr>dl_next := Some nd\<rparr>)\<rparr>"
  have l4: "dl_lists k4 a = Some l" using same(2) k1(5) by (simp add: k3_def)
  have link: "link_last a nd k4 = Inr (put_dl a ?l ?k5)"
    using l4 la same(1) e n by (simp add: link_last_def dl_at_def modify_at set_last_def k3_def)
  have "dl_seg (?N(u \<mapsto> eu\<lparr>dl_next := Some nd\<rparr>)) pr (dl_first l) (us @ [(u, uk, ui)] @ [(nd, sk, it)]) None (Some nd)"
    by (rule dl_end [OF seg [unfolded us] d(1) [unfolded us] d(2) [unfolded us] e])
  moreover have "distinct (map fst (us @ [(u, uk, ui)] @ [(nd, sk, it)]))" using d unfolding us by auto
  ultimately have "dl_state True a (us @ [(u, uk, ui)] @ [(nd, sk, it)]) (put_dl a ?l ?k5)"
    using k4 by (auto simp: dl_state_def dl_rep_def)
  moreover have "us @ [(u, uk, ui)] @ [(nd, sk, it)] = (x, key, item) # xs @ [(nd, sk, it)]"
    using us by (metis append_Cons append_assoc)
  ultimately have "dl_state True a ((x, key, item) # xs @ [(nd, sk, it)]) (put_dl a ?l ?k5)" by (simp only:)
  from dl_finish [OF this, of ?l cpu] obtain k6 where
    "orbind (Condition_Signal cpu (dl_empty l) (put_dl a ?l ?k5)) (Lock_Release cpu (dl_lock l)) = Some (Inr k6)"
    "dl_state False a ((x, key, item) # xs @ [(nd, sk, it)]) k6"
    by auto
  moreover have "DLList_SortedInsert cpu a nd it sk k = Some (Inr k6)"
    using l k1(1,5) k4(1) f le place set_new link d(2) la calculation(1)
    by (simp add: DLList_SortedInsert_def dl_at_def DLList_IsEmpty_def deref_def)
  ultimately show ?thesis by blast
qed

lemma from_key_Nil: "from_key sk xs = [] \<Longrightarrow> upto_key sk xs = xs"
  using upto_from [of sk xs] by simp

lemma SortedInsert_spec:
  assumes "dl_state False a xs k" and "dl_nodes k nd = None"
  shows "\<exists>k'. DLList_SortedInsert cpu a nd it sk k = Some (Inr k') \<and>
    dl_state (from_key sk xs \<noteq> []) a (upto_key sk xs @ [(nd, sk, it)] @ from_key sk xs) k'"
proof (cases xs)
  case Nil
  then show ?thesis using SortedInsert_empty [of a k cpu nd it sk] assms(1) by simp
next
  case (Cons y ys)
  then obtain x key item where y: "xs = (x, key, item) # ys" by (metis prod_cases3)
  note k = assms(1) [unfolded y]
  show ?thesis unfolding y
    using SortedInsert_front [OF k assms(2), of sk cpu it] SortedInsert_middle [OF k assms(2), of sk cpu it]
      SortedInsert_end [OF k assms(2), of sk cpu it] from_key_Nil [of sk ys]
    by (cases "key \<le> sk"; cases "from_key sk ys = []") auto
qed

subsection \<open>Removing\<close>

lemma remove_loop_spec:
  assumes "dl_seg (dl_nodes k) (Some q) p xs None la" and "xs \<noteq> []" and "dl_nodes k q \<noteq> None"
  shows "if \<exists>e \<in> set (butlast xs). fst (snd e) = sk then remove_loop sk p tb k = Some (Inl DanglingPointer)
    else \<exists>tb'. remove_loop sk p tb k = Some (Inr (la, tb', k))"
  using assms
proof (induction xs arbitrary: q p tb)
  case (Cons y ys)
  obtain b key item where y: "y = (b, key, item)" by (cases y)
  obtain n where e: "p = Some b" "dl_nodes k b = Some \<lparr>dl_next = n, dl_prev = Some q, dl_key = key, dl_item = item\<rparr>"
    and rest: "dl_seg (dl_nodes k) (Some b) n ys None la"
    using Cons.prems(1) by (auto simp: y)
  let ?e = "\<lparr>dl_next = n, dl_prev = Some q, dl_key = key, dl_item = item\<rparr>"
  have at: "deref p k = Inr ?e" using e by (simp add: deref_def)
  show ?case
  proof (cases ys)
    case Nil
    then have "n = None" "la = p" using rest e(1) by simp_all
    then show ?thesis using at Nil by (subst (1 2) remove_loop.simps) simp
  next
    case (Cons z zs)
    then obtain c where n: "n = Some c" "dl_nodes k c \<noteq> None" using rest by (cases z) auto
    show ?thesis
    proof (cases "key = sk")
      case True
      obtain eq ec where eq: "dl_nodes k q = Some eq" and ec: "dl_nodes k c = Some ec" using Cons.prems(3) n by blast
      let ?k1 = "k\<lparr>dl_nodes := (dl_nodes k)(q \<mapsto> eq\<lparr>dl_next := n\<rparr>)\<rparr>"
      have 1: "modify (Some q) (dl_next_update (\<lambda>_. n)) k = Inr ?k1" using eq by (simp add: modify_at)
      obtain ec' where "dl_nodes ?k1 c = Some ec'" using ec by (cases "c = q") auto
      then have 2: "modify n (dl_prev_update (\<lambda>_. Some q)) ?k1 =
          Inr (?k1\<lparr>dl_nodes := (dl_nodes ?k1)(c \<mapsto> ec'\<lparr>dl_prev := Some q\<rparr>)\<rparr>)" (is "_ = Inr ?k2")
        using n(1) by (simp add: modify_at)
      have "dl_nodes ?k2 b \<noteq> None" using e(2) by auto
      then obtain k3 where 3: "delete_node p ?k2 = Inr k3" "dl_nodes k3 b = None"
        using e(1) by (auto simp: delete_node_def deref_def split: option.splits)
      have "remove_loop sk p tb k = Some (Inl DanglingPointer)"
        using at n(1) True 1 2 3 e(1) by (subst remove_loop.simps) (simp add: deref_def)
      then show ?thesis using True Cons by (simp add: y)
    next
      case False
      have "remove_loop sk p tb k = remove_loop sk n item k"
        using at n(1) False by (subst remove_loop.simps) simp
      then show ?thesis using Cons.IH [OF rest] e(2) Cons False by (auto simp: y)
    qed
  qed
qed simp

lemma SortedRemove_enter:
  assumes k: "dl_state False a ((x, key, item) # xs) k"
  shows "\<exists>l k1 pr f. dl_lists k a = Some l \<and> Lock_Acquire cpu (dl_lock l) k = Some (Inr k1) \<and> dl_lists k1 a = Some l \<and>
    dl_state True a ((x, key, item) # xs) k1 \<and> wait_elements cpu a k1 = Some (Inr k1) \<and>
    dl_seg (dl_nodes k1) pr (Some x) ((x, key, item) # xs) None (dl_last l) \<and> dl_first l = Some x \<and>
    dl_nodes k1 x = Some f \<and> dl_key f = key \<and> dl_seg (dl_nodes k1) (Some x) (dl_next f) xs None (dl_last l)"
proof -
  obtain l where l: "dl_lists k a = Some l" using k by (auto simp: dl_state_def)
  obtain k1 where k1: "Lock_Acquire cpu (dl_lock l) k = Some (Inr k1)" "dl_state True a ((x, key, item) # xs) k1"
    "skernel.more k1 = skernel.more k"
    using dl_enter [OF k l, of cpu] by blast
  note same = dl_more [OF k1(3)]
  have l1: "dl_lists k1 a = Some l" using same(2) l by simp
  then obtain pr where seg: "dl_seg (dl_nodes k1) pr (dl_first l) ((x, key, item) # xs) None (dl_last l)"
    using k1(2) by (auto simp: dl_state_def dl_rep_def)
  then obtain n where f: "dl_first l = Some x" "dl_nodes k1 x = Some \<lparr>dl_next = n, dl_prev = pr, dl_key = key, dl_item = item\<rparr>"
    "dl_seg (dl_nodes k1) (Some x) n xs None (dl_last l)" by auto
  have "wait_elements cpu a k1 = Some (Inr k1)"
    using l1 f(1) by (subst wait_elements.simps) (simp add: dl_at_def DLList_IsEmpty_def)
  then show ?thesis using l k1 l1 seg f
    by (intro exI [of _ l] exI [of _ k1] exI [of _ pr] exI [of _ "\<lparr>dl_next = n, dl_prev = pr, dl_key = key, dl_item = item\<rparr>"]) simp
qed

lemma SortedRemove_head:
  assumes k: "dl_state False a ((x, sk, item) # xs) k"
  shows "\<exists>k'. DLList_SortedRemove cpu a junk sk k = Some (Inr (junk, k')) \<and> dl_state False a [] k'"
proof -
  obtain l k1 pr f where l: "dl_lists k a = Some l" and k1: "Lock_Acquire cpu (dl_lock l) k = Some (Inr k1)" "dl_lists k1 a = Some l"
    "dl_state True a ((x, sk, item) # xs) k1" "wait_elements cpu a k1 = Some (Inr k1)"
    and f: "dl_first l = Some x" "dl_nodes k1 x = Some f" "dl_key f = sk"
    using SortedRemove_enter [OF k, of cpu] by (elim exE conjE) (rule that)
  let ?l = "l\<lparr>dl_first := None, dl_last := None\<rparr>"
  let ?k = "put_dl a ?l (put_dl a (l\<lparr>dl_first := None\<rparr>) k1)"
  have "dl_state True a [] ?k" using k1(2,3) by (auto simp: dl_state_def dl_rep_def)
  from dl_leave [OF this, of ?l cpu] show ?thesis using l k1 f
    by (auto simp: DLList_SortedRemove_def dl_at_def deref_def set_first_def set_last_def)
qed

lemma SortedRemove_later:
  assumes k: "dl_state False a ((x, key, item) # xs) k" and ne: "key \<noteq> sk" "xs \<noteq> []"
  shows "if \<exists>e \<in> set (butlast xs). fst (snd e) = sk then DLList_SortedRemove cpu a junk sk k = Some (Inl DanglingPointer)
    else if fst (snd (last xs)) = sk then \<exists>k'. DLList_SortedRemove cpu a junk sk k = Some (Inr (snd (snd (last xs)), k')) \<and>
      dl_state False a ((x, key, item) # butlast xs) k'
    else \<exists>k'. DLList_SortedRemove cpu a junk sk k = Some (Inr (None, k')) \<and> dl_state True a ((x, key, item) # xs) k'"
proof -
  obtain l k1 pr f where l: "dl_lists k a = Some l" and k1: "Lock_Acquire cpu (dl_lock l) k = Some (Inr k1)" "dl_lists k1 a = Some l"
    "dl_state True a ((x, key, item) # xs) k1" "wait_elements cpu a k1 = Some (Inr k1)"
    and seg: "dl_seg (dl_nodes k1) pr (Some x) ((x, key, item) # xs) None (dl_last l)"
    and f: "dl_first l = Some x" "dl_nodes k1 x = Some f" "dl_key f = key"
    and rest: "dl_seg (dl_nodes k1) (Some x) (dl_next f) xs None (dl_last l)"
    using SortedRemove_enter [OF k, of cpu] by (elim exE conjE) (rule that)
  obtain y yk yi where y: "last xs = (y, yk, yi)" by (cases "last xs")
  have loop: "if \<exists>e \<in> set (butlast xs). fst (snd e) = sk then remove_loop sk (dl_next f) junk k1 = Some (Inl DanglingPointer)
      else \<exists>tb'. remove_loop sk (dl_next f) junk k1 = Some (Inr (dl_last l, tb', k1))"
    using remove_loop_spec [OF rest ne(2)] f(2) by simp
  have la: "dl_last l = Some y" using dl_seg_ends [OF rest ne(2)] y by simp
  obtain us u uk ui where us: "(x, key, item) # butlast xs = us @ [(u, uk, ui)]"
    using append_butlast_last_id [of "(x, key, item) # butlast xs"] by (metis list.discI prod_cases3)
  have xs: "(x, key, item) # xs = us @ [(u, uk, ui)] @ [(y, yk, yi)]"
    using us y ne(2) by (metis append_Cons append_assoc append_butlast_last_id)
  have d: "distinct (map fst ((x, key, item) # xs))" using k1(2,3) by (auto simp: dl_state_def dl_rep_def)
  obtain m lm where seg1: "dl_seg (dl_nodes k1) pr (Some x) (us @ [(u, uk, ui)]) m lm" and seg2: "dl_seg (dl_nodes k1) lm m [(y, yk, yi)] None (dl_last l)"
    using seg dl_seg_append [of "dl_nodes k1" pr "Some x" "us @ [(u, uk, ui)]" "[(y, yk, yi)]"] unfolding xs by auto
  have lm: "lm = Some u" using dl_seg_ends [OF seg1] by simp
  obtain eu where eu: "dl_nodes k1 u = Some eu" using seg1 by (auto simp: dl_seg_append)
  have ey: "dl_nodes k1 y = Some \<lparr>dl_next = None, dl_prev = Some u, dl_key = yk, dl_item = yi\<rparr>" using seg2 lm by auto
  have uy: "u \<noteq> y" "u \<notin> fst ` set us" "y \<notin> fst ` set us" using d unfolding xs by auto
  have start: "DLList_SortedRemove cpu a junk sk k = orbind (remove_loop sk (dl_next f) junk k1) (\<lambda>(p, _, k).
       orbind (Some (deref p k)) (\<lambda>e.
       if dl_key e = sk then
         orbind (Some (rbind (modify (dl_prev e) (dl_next_update (\<lambda>_. None)) k) (\<lambda>k.
           rbind (set_last a (dl_prev e) k) (delete_node p)))) (\<lambda>k.
         orbind (Lock_Release cpu (dl_lock l) k) (\<lambda>k. Some (Inr (dl_item e, k))))
       else Some (Inr (None, k))))"
    using l k1 f ne(1) by (simp add: DLList_SortedRemove_def dl_at_def deref_def)
  show ?thesis
  proof (cases "\<exists>e \<in> set (butlast xs). fst (snd e) = sk")
    case True
    then show ?thesis using loop start by simp
  next
    case False
    then obtain tb where lp: "remove_loop sk (dl_next f) junk k1 = Some (Inr (Some y, tb, k1))" using loop la by auto
    show ?thesis
    proof (cases "yk = sk")
      case True
      let ?N = "(dl_nodes k1)(u \<mapsto> eu\<lparr>dl_next := None\<rparr>)" and ?l = "l\<lparr>dl_last := Some u\<rparr>"
      let ?k = "put_dl a ?l (k1\<lparr>dl_nodes := ?N\<rparr>)"
      have "dl_seg ?N pr (Some x) (us @ [(u, uk, ui)]) None lm" by (rule dl_seg_set_next [OF seg1 uy(2) eu])
      then have "dl_seg (?N(y := None)) pr (Some x) (us @ [(u, uk, ui)]) None (Some u)"
        using uy lm by (simp add: dl_seg_frame)
      moreover have "distinct (map fst (us @ [(u, uk, ui)]))" using d unfolding xs by auto
      ultimately have "dl_state True a (us @ [(u, uk, ui)]) (?k\<lparr>dl_nodes := ?N(y := None)\<rparr>)"
        using k1(2,3) f(1) by (auto simp: dl_state_def dl_rep_def)
      then have "dl_state True a ((x, key, item) # butlast xs) (?k\<lparr>dl_nodes := ?N(y := None)\<rparr>)" unfolding us .
      from dl_leave [OF this, of ?l cpu] obtain k5 where
        k5: "Lock_Release cpu (dl_lock l) (?k\<lparr>dl_nodes := ?N(y := None)\<rparr>) = Some (Inr k5)"
          "dl_state False a ((x, key, item) # butlast xs) k5"
        by (auto simp: put_dl_def)
      have "rbind (modify (Some u) (dl_next_update (\<lambda>_. None)) k1) (\<lambda>k. rbind (set_last a (Some u) k) (delete_node (Some y))) =
          Inr (?k\<lparr>dl_nodes := ?N(y := None)\<rparr>)"
        using eu ey uy k1(2) by (simp add: modify_at set_last_def dl_at_def delete_node_def deref_def put_dl_def)
      then have "DLList_SortedRemove cpu a junk sk k = Some (Inr (yi, k5))"
        using start lp ey True k5(1) by (simp add: deref_def)
      then show ?thesis using False True y k5(2) by auto
    next
      case other: False
      have "DLList_SortedRemove cpu a junk sk k = Some (Inr (None, k1))"
        using start lp ey other by (simp add: deref_def)
      then show ?thesis using False other y k1(3) by auto
    qed
  qed
qed

text \<open>The lock that is not given back.\<close>

lemma held_halts:
  assumes "dl_state True a xs k" and "dl_lists k a = Some l"
  shows "Lock_Acquire cpu (dl_lock l) k = Some (Inl Halted)"
proof -
  obtain L where L: "locks k (dl_lock l) = Some L" "semaphores k (Sema L) = Some (Semaphore_new 0)" "still k" "level k = IntOn"
    using assms by (auto simp: dl_state_def monitor_def)
  have "Semaphore_P cpu (Sema L) k = Some (Inl Halted)" by (rule still_P_halts [OF L(3,4,2)]) (simp add: Semaphore_new_def)
  then show ?thesis using L(1) by (simp add: Lock_Acquire_def lock_at_def)
qed

subsection \<open>Properties\<close>

text \<open>
  The kernel of the examples in \<open>Synchronization\<close>, interrupts on, with a list at address 7 that holds one
  element, at address 20 with key 5; \<open>SortedInsert\<close> yields.
\<close>

definition dl_kernel :: "(unit, unit) dlkernel_scheme" where
  "dl_kernel = (put_dl 7 \<lparr>dl_first = Some 20, dl_last = Some 20, dl_lock = 5, dl_empty = 6\<rparr>
     (Condition_new 6 9 (Lock_new 5 8 None
       (skernel.extend synch_kernel (dlkernel.fields [20 \<mapsto> DLLElement_new (Some 40) 5] Map.empty True 2)))))\<lparr>level := IntOn\<rparr>"

lemma dl_kernel_state: "dl_state False 7 [(20, 5, Some 40)] dl_kernel" "dl_nodes dl_kernel 21 = None"
  by (auto simp: dl_state_def dl_kernel_def Condition_new_def Lock_new_def put_sem_def put_dl_def DLLElement_new_def
      synch_kernel_def still_def monitor_def signalled_def dl_rep_def Semaphore_new_def
      pkernel.defs ukernel.defs kernel.defs skernel.defs dlkernel.defs Initialize_def)

text \<open>
  C40: \<open>SortedInsert\<close> keeps the links right and gives back the lock only at the end. For the only
  thread, whether it yields half way or not, the new element goes before the first one with a larger
  key, linked in both directions; a sorted list stays sorted. But when an element comes after the new
  one the function returns with the lock held, and the next \<open>SortedInsert\<close> or \<open>SortedRemove\<close> of
  this list never gets it.
\<close>

theorem DLList_SortedInsert_order:
  assumes "dl_state False a xs k" and "dl_nodes k nd = None"
  shows "\<exists>k'. DLList_SortedInsert cpu a nd it sk k = Some (Inr k') \<and>
    dl_state (from_key sk xs \<noteq> []) a (upto_key sk xs @ [(nd, sk, it)] @ from_key sk xs) k' \<and>
    (sorted (map (fst \<circ> snd) xs) \<longrightarrow> sorted (map (fst \<circ> snd) (upto_key sk xs @ [(nd, sk, it)] @ from_key sk xs))) \<and>
    (from_key sk xs \<noteq> [] \<longrightarrow> DLList_SortedInsert cpu' a nd' it' sk' k' = Some (Inl Halted) \<and>
      DLList_SortedRemove cpu' a junk sk' k' = Some (Inl Halted))"
proof -
  obtain k' where k': "DLList_SortedInsert cpu a nd it sk k = Some (Inr k')"
    "dl_state (from_key sk xs \<noteq> []) a (upto_key sk xs @ [(nd, sk, it)] @ from_key sk xs) k'"
    using SortedInsert_spec [OF assms] by blast
  have "sorted (map (fst \<circ> snd) (upto_key sk xs @ [(nd, sk, it)] @ from_key sk xs))" if s: "sorted (map (fst \<circ> snd) xs)"
  proof -
    have up: "\<forall>e \<in> set (upto_key sk xs). fst (snd e) \<le> sk"
      by (auto simp: upto_key_def dest!: set_takeWhileD)
    have s': "sorted (map (fst \<circ> snd) (upto_key sk xs @ from_key sk xs))" using s upto_from [of sk xs] by simp
    have "\<forall>e \<in> set (from_key sk xs). sk \<le> fst (snd e)"
    proof (cases "from_key sk xs")
      case (Cons y ys)
      then have "\<not> fst (snd y) \<le> sk"
        using hd_dropWhile [of "\<lambda>(_, key, _). key \<le> sk" xs] by (auto simp: from_key_def split: prod.splits)
      then show ?thesis using Cons s' by (auto simp: sorted_append)
    qed simp
    with up s' show ?thesis by (force simp: sorted_append)
  qed
  moreover have "DLList_SortedInsert cpu' a nd' it' sk' k' = Some (Inl Halted) \<and>
      DLList_SortedRemove cpu' a junk sk' k' = Some (Inl Halted)" if "from_key sk xs \<noteq> []"
  proof -
    have held: "dl_state True a (upto_key sk xs @ [(nd, sk, it)] @ from_key sk xs) k'" using k'(2) that by simp
    then obtain l where l: "dl_lists k' a = Some l" by (auto simp: dl_state_def)
    from held_halts [OF held l] show ?thesis
      using l by (simp add: DLList_SortedInsert_def DLList_SortedRemove_def dl_at_def)
  qed
  ultimately show ?thesis using k' by (intro exI [of _ k'] conjI) blast+
qed

theorem DLList_SortedInsert_order_witness:
  "\<exists>k. DLList_SortedInsert base_cpu 7 21 None 3 dl_kernel = Some (Inr k) \<and>
    dl_state True 7 [(21, 3, None), (20, 5, Some 40)] k \<and> DLList_SortedInsert base_cpu 7 22 None 4 k = Some (Inl Halted)"
  using DLList_SortedInsert_order [OF dl_kernel_state, of base_cpu None 3 base_cpu 22 None 4 None] by auto

text \<open>
  What \<open>SortedRemove\<close> does with each kind of key, for the only thread. A key at the head empties
  the whole list and returns whatever the result variable happened to hold; a key at the end is
  removed and its item returned; a key in between uses the element after deleting it; a key that is
  not there returns \<open>NULL\<close> with the lock held, or follows \<open>NULL\<close> when the list has one element;
  and an empty list makes it wait.
\<close>

theorem DLList_SortedRemove_outcomes:
  assumes "dl_state False a xs k"
  shows "case xs of
      [] \<Rightarrow> DLList_SortedRemove cpu a junk sk k = Some (Inl Halted)
    | (x, key, item) # ys \<Rightarrow>
        if key = sk then \<exists>k'. DLList_SortedRemove cpu a junk sk k = Some (Inr (junk, k')) \<and> dl_state False a [] k'
        else if ys = [] then DLList_SortedRemove cpu a junk sk k = Some (Inl NullDeref)
        else if \<exists>e \<in> set (butlast ys). fst (snd e) = sk then DLList_SortedRemove cpu a junk sk k = Some (Inl DanglingPointer)
        else if fst (snd (last ys)) = sk then \<exists>k'. DLList_SortedRemove cpu a junk sk k = Some (Inr (snd (snd (last ys)), k')) \<and>
          dl_state False a ((x, key, item) # butlast ys) k'
        else \<exists>k'. DLList_SortedRemove cpu a junk sk k = Some (Inr (None, k')) \<and> dl_state True a xs k'"
proof (cases xs)
  case Nil
  note k = assms [unfolded Nil]
  obtain l where l: "dl_lists k a = Some l" "dl_first l = None" "dl_last l = None" using k by (auto simp: dl_state_def dl_rep_def)
  obtain k1 where k1: "Lock_Acquire cpu (dl_lock l) k = Some (Inr k1)" "dl_state True a [] k1" "skernel.more k1 = skernel.more k"
    using dl_enter [OF k l(1), of cpu] by blast
  have "wait_elements cpu a k' = orbind (Condition_Wait cpu (dl_empty l) (dl_lock l) k') (wait_elements cpu a)"
    if "skernel.more k' = skernel.more k" for k'
    using dl_more(2) [OF that] l by (subst wait_elements.simps) (simp add: dl_at_def DLList_IsEmpty_def)
  moreover have "still k1" "level k1 = IntOn" "monitor UNIV True (dl_lock l) {dl_empty l} k1"
    using k1(2) dl_more(2) [OF k1(3)] l(1) by (auto simp: dl_state_def)
  ultimately have "wait_elements cpu a k1 = Some (Inl Halted)" using k1(3) by (intro still_wait_halts) auto
  then show ?thesis using Nil l(1) k1(1) by (simp add: DLList_SortedRemove_def dl_at_def)
next
  case (Cons y ys)
  obtain x key item where y: "y = (x, key, item)" by (cases y)
  note k = assms [unfolded Cons y]
  have "DLList_SortedRemove cpu a junk sk k = Some (Inl NullDeref)" if "key \<noteq> sk" "ys = []"
  proof -
    obtain l k1 pr f where l: "dl_lists k a = Some l" "Lock_Acquire cpu (dl_lock l) k = Some (Inr k1)" "dl_lists k1 a = Some l"
      "dl_state True a ((x, key, item) # ys) k1" "wait_elements cpu a k1 = Some (Inr k1)"
      "dl_seg (dl_nodes k1) pr (Some x) ((x, key, item) # ys) None (dl_last l)"
      "dl_first l = Some x" "dl_nodes k1 x = Some f" "dl_key f = key" "dl_seg (dl_nodes k1) (Some x) (dl_next f) ys None (dl_last l)"
      using SortedRemove_enter [OF k, of cpu] by (elim exE conjE) (rule that)
    have f: "deref (Some x) k1 = Inr f" using l(8) by (simp add: deref_def)
    have n: "dl_next f = None" using l(10) that by simp
    have "remove_loop sk None junk k1 = Some (Inl NullDeref)" by (subst remove_loop.simps) (simp add: deref_def)
    then show ?thesis using l(1-3,5,7,9) f n that(1) by (simp add: DLList_SortedRemove_def dl_at_def)
  qed
  moreover have "\<exists>k'. DLList_SortedRemove cpu a junk sk k = Some (Inr (junk, k')) \<and> dl_state False a [] k'" if "key = sk"
    using SortedRemove_head k that by blast
  ultimately show ?thesis using SortedRemove_later [OF k, of sk cpu junk] by (auto simp: Cons y)
qed

theorem DLList_SortedRemove_outcomes_witness:
  "(\<exists>k. DLList_SortedRemove base_cpu 7 (Some 99) 5 dl_kernel = Some (Inr (Some 99, k)) \<and> dl_state False 7 [] k) \<and>
   DLList_SortedRemove base_cpu 7 (Some 99) 6 dl_kernel = Some (Inl NullDeref)"
  using DLList_SortedRemove_outcomes [OF dl_kernel_state(1), of base_cpu "Some 99" 5]
    DLList_SortedRemove_outcomes [OF dl_kernel_state(1), of base_cpu "Some 99" 6] by simp

end
