(* ===== verification/Sleep_Lock.thy ===== *)
theory Sleep_Lock
  imports Synchronization
begin

section \<open>Locks and conditions on Sleep, threads/synch-sleep.cc\<close>

text \<open>
  The variant of \<open>synch.cc\<close> whose locks and conditions keep a queue of sleeping threads themselves.
  Its semaphores are those of \<open>Synchronization\<close>. The operations are given as their caller sees them,
  and as steps of the machine, with which a run is shown that lets two threads hold a lock.
\<close>

subsection \<open>The data\<close>

record SleepLock =
  lk_state :: bool
  lk_queue :: "tid list"
  lk_holder :: "tid option"

record 'h slkernel = "'h skernel" +
  sleep_locks :: "nat \<Rightarrow> SleepLock option"
  sleep_conds :: "nat \<Rightarrow> tid list option"

definition slock_at :: "nat \<Rightarrow> ('h, 'm) slkernel_scheme \<Rightarrow> SleepLock result" where
  "slock_at l k = (case sleep_locks k l of None \<Rightarrow> Inl DanglingPointer | Some c \<Rightarrow> Inr c)"

definition scond_at :: "nat \<Rightarrow> ('h, 'm) slkernel_scheme \<Rightarrow> tid list result" where
  "scond_at c k = (case sleep_conds k c of None \<Rightarrow> Inl DanglingPointer | Some q \<Rightarrow> Inr q)"

definition put_slock :: "nat \<Rightarrow> SleepLock \<Rightarrow> ('h, 'm) slkernel_scheme \<Rightarrow> ('h, 'm) slkernel_scheme" where
  "put_slock l c k = k\<lparr>sleep_locks := (sleep_locks k)(l \<mapsto> c)\<rparr>"

definition put_scond :: "nat \<Rightarrow> tid list \<Rightarrow> ('h, 'm) slkernel_scheme \<Rightarrow> ('h, 'm) slkernel_scheme" where
  "put_scond c q k = k\<lparr>sleep_conds := (sleep_conds k)(c \<mapsto> q)\<rparr>"

subsection \<open>Locks\<close>

text \<open>\<open>junk\<close> and \<open>holder\<close> are what the fields that the constructor leaves alone hold.\<close>

definition SleepLock_new :: "nat \<Rightarrow> bool \<Rightarrow> tid option \<Rightarrow> ('h, 'm) slkernel_scheme \<Rightarrow> ('h, 'm) slkernel_scheme" where
  "SleepLock_new l junk holder = put_slock l \<lparr>lk_state = junk, lk_queue = [], lk_holder = holder\<rparr>"

definition SleepLock_delete :: "nat \<Rightarrow> ('h, 'm) slkernel_scheme \<Rightarrow> ('h, 'm) slkernel_scheme result" where
  "SleepLock_delete l k = rbind (slock_at l k) (\<lambda>_. Inr (k\<lparr>sleep_locks := (sleep_locks k)(l := None)\<rparr>))"

text \<open>\<open>queue->Append(currentThread)\<close>, and the assignments after the test.\<close>

definition lock_append :: "nat \<Rightarrow> ('h, 'm) slkernel_scheme \<Rightarrow> ('h, 'm) slkernel_scheme result" where
  "lock_append l k = rbind (slock_at l k) (\<lambda>c. Inr (put_slock l (c\<lparr>lk_queue := lk_queue c @ [currentThread k]\<rparr>) k))"

definition lock_take :: "nat \<Rightarrow> ('h, 'm) slkernel_scheme \<Rightarrow> ('h, 'm) slkernel_scheme result" where
  "lock_take l k =
     rbind (slock_at l k) (\<lambda>c. Inr (put_slock l (c\<lparr>lk_state := True, lk_holder := Some (currentThread k)\<rparr>) k))"

definition SleepLock_Acquire ::
  "('h, ('h, 'm) slkernel_scheme) cpu \<Rightarrow> nat \<Rightarrow> ('h, 'm) slkernel_scheme \<Rightarrow> ('h, 'm) slkernel_scheme result option" where
  "SleepLock_Acquire cpu l k =
     orbind (SetLevel cpu IntOff k) (\<lambda>(oldLevel, k).
     orbind (Some (slock_at l k)) (\<lambda>c.
     orbind (if lk_state c then orbind (Some (lock_append l k)) (\<lambda>k. Sleep cpu (currentThread k) k) else Some (Inr k)) (\<lambda>k.
     orbind (Some (lock_take l k)) (\<lambda>k.
     orbind (SetLevel cpu oldLevel k) (\<lambda>(_, k). Some (Inr k))))))"

text \<open>The body of \<open>Release\<close> between the two calls of \<open>SetLevel\<close>.\<close>

definition lock_give :: "nat \<Rightarrow> ('h, 'm) slkernel_scheme \<Rightarrow> ('h, 'm) slkernel_scheme result" where
  "lock_give l k =
     rbind (slock_at l k) (\<lambda>c.
     rbind (case lk_queue c of [] \<Rightarrow> Inr k | thread # rest \<Rightarrow> ReadyToRun thread (put_slock l (c\<lparr>lk_queue := rest\<rparr>) k)) (\<lambda>k.
     rbind (slock_at l k) (\<lambda>c. Inr (put_slock l (c\<lparr>lk_state := False, lk_holder := None\<rparr>) k))))"

definition SleepLock_Release ::
  "('h, ('h, 'm) slkernel_scheme) cpu \<Rightarrow> nat \<Rightarrow> ('h, 'm) slkernel_scheme \<Rightarrow> ('h, 'm) slkernel_scheme result option" where
  "SleepLock_Release cpu l k =
     orbind (SetLevel cpu IntOff k) (\<lambda>(oldLevel, k).
     orbind (Some (lock_give l k)) (\<lambda>k.
     orbind (SetLevel cpu oldLevel k) (\<lambda>(_, k). Some (Inr k))))"

definition SleepLock_isHeldByCurrentThread :: "nat \<Rightarrow> ('h, 'm) slkernel_scheme \<Rightarrow> bool result" where
  "SleepLock_isHeldByCurrentThread l k = rbind (slock_at l k) (\<lambda>c. Inr (Some (currentThread k) = lk_holder c))"

subsection \<open>Conditions\<close>

definition SleepCondition_new :: "nat \<Rightarrow> ('h, 'm) slkernel_scheme \<Rightarrow> ('h, 'm) slkernel_scheme" where
  "SleepCondition_new c = put_scond c []"

definition SleepCondition_delete :: "nat \<Rightarrow> ('h, 'm) slkernel_scheme \<Rightarrow> ('h, 'm) slkernel_scheme result" where
  "SleepCondition_delete c k = rbind (scond_at c k) (\<lambda>_. Inr (k\<lparr>sleep_conds := (sleep_conds k)(c := None)\<rparr>))"

definition SleepCondition_Wait ::
  "('h, ('h, 'm) slkernel_scheme) cpu \<Rightarrow> nat \<Rightarrow> nat \<Rightarrow> ('h, 'm) slkernel_scheme \<Rightarrow>
    ('h, 'm) slkernel_scheme result option" where
  "SleepCondition_Wait cpu c conditionLock k =
     orbind (SetLevel cpu IntOff k) (\<lambda>(oldLevel, k).
     orbind (Some (SleepLock_isHeldByCurrentThread conditionLock k)) (\<lambda>held.
     orbind (Some (ASSERT held)) (\<lambda>_.
     orbind (Some (rbind (scond_at c k) (\<lambda>q. Inr (put_scond c (q @ [currentThread k]) k)))) (\<lambda>k.
     orbind (SleepLock_Release cpu conditionLock k) (\<lambda>k.
     orbind (Sleep cpu (currentThread k) k) (\<lambda>k.
     orbind (SleepLock_Acquire cpu conditionLock k) (\<lambda>k.
     orbind (SetLevel cpu oldLevel k) (\<lambda>(_, k). Some (Inr k)))))))))"

text \<open>\<open>thread = queue->Remove(); if(thread != NULL) scheduler->ReadyToRun(thread)\<close>, and whether there was one.\<close>

definition cond_give :: "nat \<Rightarrow> ('h, 'm) slkernel_scheme \<Rightarrow> (bool \<times> ('h, 'm) slkernel_scheme) result" where
  "cond_give c k =
     rbind (scond_at c k) (\<lambda>q. case q of
       [] \<Rightarrow> Inr (False, k)
     | thread # rest \<Rightarrow> rbind (ReadyToRun thread (put_scond c rest k)) (\<lambda>k. Inr (True, k)))"

definition SleepCondition_Signal ::
  "('h, ('h, 'm) slkernel_scheme) cpu \<Rightarrow> nat \<Rightarrow> ('h, 'm) slkernel_scheme \<Rightarrow> ('h, 'm) slkernel_scheme result option" where
  "SleepCondition_Signal cpu c k =
     orbind (SetLevel cpu IntOff k) (\<lambda>(oldLevel, k).
     orbind (Some (cond_give c k)) (\<lambda>(_, k).
     orbind (SetLevel cpu oldLevel k) (\<lambda>(_, k). Some (Inr k))))"

partial_function (option) wake_all ::
  "nat \<Rightarrow> ('h, 'm) slkernel_scheme \<Rightarrow> ('h, 'm) slkernel_scheme result option" where
  "wake_all c k = orbind (Some (cond_give c k)) (\<lambda>(more, k). if more then wake_all c k else Some (Inr k))"

definition SleepCondition_Broadcast ::
  "('h, ('h, 'm) slkernel_scheme) cpu \<Rightarrow> nat \<Rightarrow> ('h, 'm) slkernel_scheme \<Rightarrow> ('h, 'm) slkernel_scheme result option" where
  "SleepCondition_Broadcast cpu c k =
     orbind (SetLevel cpu IntOff k) (\<lambda>(oldLevel, k).
     orbind (wake_all c k) (\<lambda>k.
     orbind (SetLevel cpu oldLevel k) (\<lambda>(_, k). Some (Inr k))))"

subsection \<open>Broadcast wakes every waiter\<close>

lemma wake_all_spec:
  assumes "sleep_conds k c = Some q" and "distinct q" and "\<forall>t \<in> set q. threads k t \<noteq> None"
  shows "\<exists>k'. wake_all c k = Some (Inr k') \<and> sleep_conds k' = (sleep_conds k)(c \<mapsto> []) \<and> readyList k' = readyList k @ q \<and>
    (\<forall>t. status_of (threads k') t = (if t \<in> set q then Some READY else status_of (threads k) t)) \<and>
    sleep_locks k' = sleep_locks k \<and> level k' = level k \<and> currentThread k' = currentThread k"
  using assms
proof (induction q arbitrary: k)
  case Nil
  then have "(sleep_conds k)(c \<mapsto> []) = sleep_conds k" by auto
  then show ?case using Nil by (subst wake_all.simps) (simp add: cond_give_def scond_at_def)
next
  case (Cons t ts)
  obtain th where th: "threads k t = Some th" using Cons.prems(3) by auto
  define k1 where "k1 = (put_thread t (th\<lparr>tstatus := READY\<rparr>) (put_scond c ts k))\<lparr>readyList := readyList k @ [t]\<rparr>"
  have "cond_give c k = Inr (True, k1)"
    using Cons.prems(1) th by (simp add: cond_give_def scond_at_def ReadyToRun_def put_scond_def k1_def put_thread_def)
  then have w: "wake_all c k = wake_all c k1" by (subst wake_all.simps) simp
  have "sleep_conds k1 c = Some ts" "distinct ts" "\<forall>u \<in> set ts. threads k1 u \<noteq> None"
    using Cons.prems by (auto simp: k1_def put_scond_def put_thread_def)
  from Cons.IH [OF this] obtain k' where k': "wake_all c k1 = Some (Inr k')" "sleep_conds k' = (sleep_conds k1)(c \<mapsto> [])"
    "readyList k' = readyList k1 @ ts" "\<forall>u. status_of (threads k') u = (if u \<in> set ts then Some READY else status_of (threads k1) u)"
    "sleep_locks k' = sleep_locks k1" "level k' = level k1" "currentThread k' = currentThread k1"
    by blast
  then show ?case unfolding w
    by (intro exI [of _ k']) (auto simp: k1_def put_scond_def put_thread_def)
qed

subsection \<open>The lock as steps of the machine\<close>

type_synonym ('h, 'm) slthreads = "('h, 'm slkernel_ext skernel_ext pkernel_ext ukernel_ext) machine_state"

text \<open>Who is in the lock, and who is in \<open>Acquire\<close> behind the call of \<open>Sleep\<close>.\<close>

record ('h, 'm) lock_run =
  lr :: "('h, 'm) slthreads"
  inside :: "tid set"
  asleep :: "tid set"

datatype lock_event = Acquires | Resumes | Releases | Yields | Dispatches | Forks tid 

text \<open>
  What the running thread does: \<open>Acquire\<close> up to the end or to the switch in \<open>Sleep\<close>, the rest of
  \<open>Acquire\<close> when it is dispatched again, \<open>Release\<close>; and what the scheduler does.
\<close>

definition lock_event_do ::
  "('h, ('h, 'm) slkernel_scheme) cpu \<Rightarrow> 'h \<Rightarrow> nat \<Rightarrow> lock_event \<Rightarrow> ('h, 'm) lock_run \<Rightarrow> ('h, 'm) lock_run result" where
  "lock_event_do cpu func l e S =
     (let m = lr S; k = kern m; t = currentThread k; awake = tstatus (the (threads k t)) = RUNNING in
      case e of
        Acquires \<Rightarrow>
          rbind (ASSERT (awake \<and> t \<notin> inside S \<and> t \<notin> asleep S)) (\<lambda>_.
          rbind (slock_at l k) (\<lambda>c.
          if lk_state c then
            rbind (lock_append l k) (\<lambda>k. rbind (sleep_step (m\<lparr>kern := k\<rparr>)) (\<lambda>m. Inr (S\<lparr>lr := m, asleep := insert t (asleep S)\<rparr>)))
          else rbind (lock_take l k) (\<lambda>k. Inr (S\<lparr>lr := m\<lparr>kern := k\<rparr>, inside := insert t (inside S)\<rparr>))))
      | Resumes \<Rightarrow>
          rbind (ASSERT (awake \<and> t \<in> asleep S)) (\<lambda>_.
          rbind (lock_take l k) (\<lambda>k. Inr (S\<lparr>lr := m\<lparr>kern := k\<rparr>, inside := insert t (inside S), asleep := asleep S - {t}\<rparr>)))
      | Releases \<Rightarrow>
          rbind (ASSERT (awake \<and> t \<in> inside S)) (\<lambda>_.
          rbind (lock_give l k) (\<lambda>k. Inr (S\<lparr>lr := m\<lparr>kern := k\<rparr>, inside := inside S - {t}\<rparr>)))
      | Yields \<Rightarrow>
          rbind (ASSERT (awake \<and> t \<notin> asleep S)) (\<lambda>_. rbind (yield_step cpu m) (\<lambda>m. Inr (S\<lparr>lr := m\<rparr>)))
      | Dispatches \<Rightarrow>
          rbind (ASSERT (\<not> awake)) (\<lambda>_. rbind (dispatch_step cpu m) (\<lambda>m. Inr (S\<lparr>lr := m\<rparr>)))
      | Forks u \<Rightarrow>
          rbind (ASSERT (awake \<and> t \<notin> asleep S \<and> threads k u = None)) (\<lambda>_.
          rbind (fork_step u ''forked'' func 0 m) (\<lambda>m. Inr (S\<lparr>lr := m\<rparr>))))"

fun lock_events_do ::
  "('h, ('h, 'm) slkernel_scheme) cpu \<Rightarrow> 'h \<Rightarrow> nat \<Rightarrow> lock_event list \<Rightarrow> ('h, 'm) lock_run \<Rightarrow> ('h, 'm) lock_run result" where
  "lock_events_do cpu func l [] S = Inr S"
| "lock_events_do cpu func l (e # es) S = rbind (lock_event_do cpu func l e S) (lock_events_do cpu func l es)"

definition sl_boot :: "(unit, unit) lock_run" where
  "sl_boot = \<lparr>lr = \<lparr>kern = SleepLock_new 3 False None
     (skernel.extend synch_kernel (slkernel.fields Map.empty Map.empty)), fresh = {}, finished = {}\<rparr>, inside = {}, asleep = {}\<rparr>"

lemmas lock_run_defs = lock_event_do_def Let_def
      fork_step_def StackAllocate_def ReadyToRun_def put_thread_def Thread_new_def setStatus_def thread_at_def put_slock_def
      slock_at_def lock_take_def lock_append_def lock_give_def sleep_step_def yield_step_def dispatch_step_def
      FindNextToRun_def switch_to_def Run_before_def Run_after_def CheckOverflow_def base_cpu_def

lemmas sl_boot_defs = sl_boot_def SleepLock_new_def synch_kernel_def Condition_new_def Lock_new_def put_sem_def
      Semaphore_new_def pkernel.defs ukernel.defs kernel.defs skernel.defs slkernel.defs Initialize_def

text \<open>
  The lock of \<open>synch-sleep.cc\<close> does not exclude: \<open>Acquire\<close> tests \<open>state\<close> once, so a thread woken by
  \<open>Release\<close> takes the lock without looking whether another thread took it first. From the kernel that
  \<open>Initialize\<close> makes, the releasing thread takes the lock again before the woken one runs, and both are inside.
\<close>

theorem SleepLock_not_exclusive:
  "\<exists>S. lock_events_do base_cpu () 3 [Forks 1, Acquires, Yields, Acquires, Dispatches, Releases, Acquires, Yields, Resumes]
    sl_boot = Inr S \<and> inside S = {0, 1} \<and> currentThread (kern (lr S)) = 1 \<and>
    slock_at 3 (kern (lr S)) = Inr \<lparr>lk_state = True, lk_queue = [], lk_holder = Some 1\<rparr>"
  by (simp add: sl_boot_defs del: One_nat_def) (simp add: lock_run_defs insert_commute del: One_nat_def)

end
