(* ===== verification/Coff_Noff.thy ===== *)
theory Coff_Noff
  imports Addr_Space
begin

section \<open>From object files to programs, bin/coff2noff.c\<close>

text \<open>
  The tool that turns a COFF file of the cross compiler into the NOFF file that \<open>AddrSpace\<close> loads: it
  reads the headers of \<open>bin/coff.h\<close>, copies the code and the initialised data behind one another, and
  writes the header last. The two files are byte lists with a position; \<open>limit\<close> is the size at which
  the host refuses to write on, and \<open>junk\<close> what the uninitialised header holds at first. A failure
  leaves no output: every \<open>exit(1)\<close> is behind an \<open>unlink\<close>.
\<close>

subsection \<open>The structures of the file\<close>

text \<open>\<open>long\<close> has four bytes, as the cross compiler and the host of that time have it.\<close>

record filehdr =
  f_magic :: "16 word"
  f_nscns :: "16 word"
  f_timdat :: "32 word"
  f_symptr :: "32 word"
  f_nsyms :: "32 word"
  f_opthdr :: "16 word"
  f_flags :: "16 word"

record scnhdr =
  s_name :: "byte list"
  s_paddr :: "32 word"
  s_vaddr :: "32 word"
  s_size :: "32 word"
  s_scnptr :: "32 word"
  s_relptr :: "32 word"
  s_lnnoptr :: "32 word"
  s_nreloc :: "16 word"
  s_nlnno :: "16 word"
  s_flags :: "32 word"

definition MIPSELMAGIC :: "16 word" where "MIPSELMAGIC = 0x0162"

definition OMAGIC :: "16 word" where "OMAGIC = 263"

text \<open>Their bytes; of the 56 of \<open>struct aouthdr\<close> only the first two are looked at.\<close>

definition filehdr_of :: "byte list \<Rightarrow> filehdr" where
  "filehdr_of bs = \<lparr>f_magic = bytes_short bs, f_nscns = bytes_short (drop 2 bs), f_timdat = bytes_word (drop 4 bs),
     f_symptr = bytes_word (drop 8 bs), f_nsyms = bytes_word (drop 12 bs), f_opthdr = bytes_short (drop 16 bs),
     f_flags = bytes_short (drop 18 bs)\<rparr>"

definition scnhdr_of :: "byte list \<Rightarrow> scnhdr" where
  "scnhdr_of bs = \<lparr>s_name = take 8 bs, s_paddr = bytes_word (drop 8 bs), s_vaddr = bytes_word (drop 12 bs),
     s_size = bytes_word (drop 16 bs), s_scnptr = bytes_word (drop 20 bs), s_relptr = bytes_word (drop 24 bs),
     s_lnnoptr = bytes_word (drop 28 bs), s_nreloc = bytes_short (drop 32 bs), s_nlnno = bytes_short (drop 34 bs),
     s_flags = bytes_word (drop 36 bs)\<rparr>"

definition scnhdrs_of :: "nat \<Rightarrow> byte list \<Rightarrow> scnhdr list" where
  "scnhdrs_of n bs = map (\<lambda>i. scnhdr_of (drop (40 * i) bs)) [0..<n]"

definition swap_section :: "scnhdr \<Rightarrow> scnhdr" where
  "swap_section s = s\<lparr>s_paddr := WordToHost (s_paddr s), s_size := WordToHost (s_size s), s_scnptr := WordToHost (s_scnptr s)\<rparr>"

text \<open>\<open>strcmp\<close> of the eight characters, which need not be terminated, with a shorter literal.\<close>

definition named :: "string \<Rightarrow> scnhdr \<Rightarrow> bool" where
  "named lit s \<longleftrightarrow> takeWhile (\<lambda>c. c \<noteq> 0) (s_name s) = map of_char lit"

definition segment_bytes :: "Segment \<Rightarrow> byte list" where
  "segment_bytes s = word_bytes (virtualAddr s) @ word_bytes (inFileAddr s) @ word_bytes (seg_size s)"

definition noff_bytes :: "NoffHeader \<Rightarrow> byte list" where
  "noff_bytes h = word_bytes (noffMagic h) @ segment_bytes (code h) @ segment_bytes (initData h) @ segment_bytes (uninitData h)"

subsection \<open>Reading and writing\<close>

datatype coff_error =
    FileTooShort
  | CannotWrite
  | NotMipsel
  | NotOmagic
  | DataAndRdata
  | BssAndSbss
  | UnknownSegment
  | HugeSize

type_synonym 'a converted = "coff_error + 'a"

record descriptor =
  fd_bytes :: "byte list"
  fd_pos :: nat

text \<open>\<open>lseek(fd, off, 0)\<close>, which refuses a negative offset and then leaves the position alone.\<close>

definition lseek :: "32 word \<Rightarrow> descriptor \<Rightarrow> descriptor" where
  "lseek off fd = (if sint off < 0 then fd else fd\<lparr>fd_pos := nat (sint off)\<rparr>)"

text \<open>
  A negative \<open>nBytes\<close> comes from a negative section size; \<open>malloc\<close> and \<open>read\<close> take it as one above two
  gigabytes, and what they make of that is up to the host: \<open>HugeSize\<close>.
\<close>

definition coff_Read :: "int \<Rightarrow> descriptor \<Rightarrow> (byte list \<times> descriptor) converted" where
  "coff_Read nBytes fd =
     (if nBytes < 0 then Inl HugeSize
      else
        let buf = take (nat nBytes) (drop (fd_pos fd) (fd_bytes fd)) in
        if int (length buf) \<noteq> nBytes then Inl FileTooShort
        else Inr (buf, fd\<lparr>fd_pos := fd_pos fd + length buf\<rparr>))"

text \<open>Bytes between the end of the file and the position become zero.\<close>

definition coff_Write :: "nat \<Rightarrow> byte list \<Rightarrow> descriptor \<Rightarrow> descriptor converted" where
  "coff_Write limit buf fd =
     (let p = fd_pos fd; bs = fd_bytes fd @ replicate (p - length (fd_bytes fd)) 0 in
      if p + length buf > limit then Inl CannotWrite
      else Inr \<lparr>fd_bytes = take p bs @ buf @ drop (p + length buf) bs, fd_pos = p + length buf\<rparr>)"

subsection \<open>The conversion\<close>

record conversion =
  fdIn :: descriptor
  fdOut :: descriptor
  noffH :: NoffHeader
  inNoffFile :: "32 word"

text \<open>What the cases of code and of data have in common, from the \<open>lseek\<close> on.\<close>

definition copy_section :: "nat \<Rightarrow> scnhdr \<Rightarrow> conversion \<Rightarrow> conversion converted" where
  "copy_section limit s c =
     ebind (coff_Read (sint (s_size s)) (lseek (s_scnptr s) (fdIn c))) (\<lambda>(buffer, inp).
     ebind (coff_Write limit buffer (fdOut c)) (\<lambda>out.
     Inr (c\<lparr>fdIn := inp, fdOut := out, inNoffFile := inNoffFile c + s_size s\<rparr>)))"

definition here :: "scnhdr \<Rightarrow> conversion \<Rightarrow> Segment" where
  "here s c = \<lparr>virtualAddr = s_paddr s, inFileAddr = inNoffFile c, seg_size = s_size s\<rparr>"

definition load_section :: "nat \<Rightarrow> scnhdr \<Rightarrow> conversion \<Rightarrow> conversion converted" where
  "load_section limit s c =
     (if s_size s = 0 then Inr c
      else if named ''.text'' s then copy_section limit s (c\<lparr>noffH := (noffH c)\<lparr>code := here s c\<rparr>\<rparr>)
      else if named ''.data'' s \<or> named ''.rdata'' s then
        if seg_size (initData (noffH c)) \<noteq> 0 then Inl DataAndRdata
        else copy_section limit s (c\<lparr>noffH := (noffH c)\<lparr>initData := here s c\<rparr>\<rparr>)
      else if named ''.bss'' s \<or> named ''.sbss'' s then
        let u = uninitData (noffH c) in
        if seg_size u \<noteq> 0 then
          if s_paddr s = virtualAddr u + seg_size u then Inl BssAndSbss
          else Inr (c\<lparr>noffH := (noffH c)\<lparr>uninitData := u\<lparr>seg_size := seg_size u + s_size s\<rparr>\<rparr>\<rparr>)
        else Inr (c\<lparr>noffH := (noffH c)\<lparr>uninitData := u\<lparr>virtualAddr := s_paddr s, seg_size := s_size s\<rparr>\<rparr>\<rparr>)
      else Inl UnknownSegment)"

fun load_sections :: "nat \<Rightarrow> scnhdr list \<Rightarrow> conversion \<Rightarrow> conversion converted" where
  "load_sections limit [] c = Inr c"
| "load_sections limit (s # ss) c = ebind (load_section limit s c) (load_sections limit ss)"

definition empty_header :: "NoffHeader \<Rightarrow> NoffHeader" where
  "empty_header junk = junk\<lparr>noffMagic := NOFFMAGIC, code := (code junk)\<lparr>seg_size := 0\<rparr>,
     initData := (initData junk)\<lparr>seg_size := 0\<rparr>, uninitData := (uninitData junk)\<lparr>seg_size := 0\<rparr>\<rparr>"

definition read_headers :: "byte list \<Rightarrow> (scnhdr list \<times> descriptor) converted" where
  "read_headers inp =
     ebind (coff_Read 20 \<lparr>fd_bytes = inp, fd_pos = 0\<rparr>) (\<lambda>(bs, f).
     let fileh = filehdr_of bs in
     if ShortToHost (f_magic fileh) \<noteq> MIPSELMAGIC then Inl NotMipsel
     else
       ebind (coff_Read 56 f) (\<lambda>(bs, f).
       if ShortToHost (bytes_short bs) \<noteq> OMAGIC then Inl NotOmagic
       else
         let numsections = unat (ShortToHost (f_nscns fileh)) in
         ebind (coff_Read (int numsections * 40) f) (\<lambda>(bs, f).
         Inr (map swap_section (scnhdrs_of numsections bs), f))))"

definition coff2noff :: "nat \<Rightarrow> NoffHeader \<Rightarrow> byte list \<Rightarrow> byte list converted" where
  "coff2noff limit junk inp =
     ebind (read_headers inp) (\<lambda>(sections, f).
     ebind (load_sections limit sections
       \<lparr>fdIn = f, fdOut = \<lparr>fd_bytes = [], fd_pos = 40\<rparr>, noffH = empty_header junk, inNoffFile = 40\<rparr>) (\<lambda>c.
     ebind (coff_Write limit (noff_bytes (noffH c)) ((fdOut c)\<lparr>fd_pos := 0\<rparr>)) (\<lambda>out.
     Inr (fd_bytes out))))"

subsection \<open>What the output holds\<close>

definition is_text :: "scnhdr \<Rightarrow> bool" where
  "is_text s \<longleftrightarrow> s_size s \<noteq> 0 \<and> named ''.text'' s"

definition is_data :: "scnhdr \<Rightarrow> bool" where
  "is_data s \<longleftrightarrow> s_size s \<noteq> 0 \<and> (named ''.data'' s \<or> named ''.rdata'' s)"

definition is_bss :: "scnhdr \<Rightarrow> bool" where
  "is_bss s \<longleftrightarrow> s_size s \<noteq> 0 \<and> (named ''.bss'' s \<or> named ''.sbss'' s)"

lemma name_bytes:
  "map of_char ''.text'' = [0x2e, 0x74, 0x65, 0x78, 0x74 :: byte]" "map of_char ''.data'' = [0x2e, 0x64, 0x61, 0x74, 0x61 :: byte]"
  "map of_char ''.rdata'' = [0x2e, 0x72, 0x64, 0x61, 0x74, 0x61 :: byte]" "map of_char ''.bss'' = [0x2e, 0x62, 0x73, 0x73 :: byte]"
  "map of_char ''.sbss'' = [0x2e, 0x73, 0x62, 0x73, 0x73 :: byte]"
  by code_simp+

lemma kinds_disjoint: "is_text s \<Longrightarrow> \<not> is_data s" "is_text s \<Longrightarrow> \<not> is_bss s" "is_data s \<Longrightarrow> \<not> is_bss s"
  by (auto simp: is_text_def is_data_def is_bss_def named_def name_bytes)

text \<open>The contents of a section in the input, and the section of a kind that counts: the last one.\<close>

definition section_bytes :: "byte list \<Rightarrow> scnhdr \<Rightarrow> byte list" where
  "section_bytes inp s = take (nat (sint (s_size s))) (drop (nat (sint (s_scnptr s))) inp)"

definition last_section :: "(scnhdr \<Rightarrow> bool) \<Rightarrow> scnhdr list \<Rightarrow> scnhdr option" where
  "last_section P ss = (case filter P ss of [] \<Rightarrow> None | xs \<Rightarrow> Some (last xs))"

lemma last_section_snoc: "last_section P (ss @ [s]) = (if P s then Some s else last_section P ss)"
  by (cases "filter P ss") (simp_all add: last_section_def)

lemma last_section_Nil [simp]: "last_section P [] = None"
  by (simp add: last_section_def)

text \<open>The bytes behind the header: every section that is copied, in the order of the input.\<close>

definition body :: "byte list \<Rightarrow> scnhdr list \<Rightarrow> byte list" where
  "body inp ss = concat (map (section_bytes inp) (filter (\<lambda>s. is_text s \<or> is_data s) ss))"

lemma body_snoc: "body inp (ss @ [s]) = body inp ss @ (if is_text s \<or> is_data s then section_bytes inp s else [])"
  by (simp add: body_def)

definition segment_of :: "byte list \<Rightarrow> byte list \<Rightarrow> Segment \<Rightarrow> scnhdr option \<Rightarrow> bool" where
  "segment_of inp b seg so \<longleftrightarrow> (case so of
     None \<Rightarrow> seg_size seg = 0
   | Some s \<Rightarrow> \<exists>p. inFileAddr seg = word_of_nat (40 + p) \<and> virtualAddr seg = s_paddr s \<and> seg_size seg = s_size s \<and>
       0 < sint (s_size s) \<and> p + nat (sint (s_size s)) \<le> length b \<and>
       take (nat (sint (s_size s))) (drop p b) = section_bytes inp s)"

lemma segment_of_append: "segment_of inp b seg so \<Longrightarrow> segment_of inp (b @ x) seg so"
  unfolding segment_of_def by (cases so) (simp, force)

definition bss_of :: "Segment \<Rightarrow> scnhdr list \<Rightarrow> bool" where
  "bss_of u ss \<longleftrightarrow> (case filter is_bss ss of
     [] \<Rightarrow> seg_size u = 0
   | [s] \<Rightarrow> virtualAddr u = s_paddr s \<and> seg_size u = s_size s
   | _ \<Rightarrow> True)"

definition coff_inv :: "byte list \<Rightarrow> scnhdr list \<Rightarrow> conversion \<Rightarrow> bool" where
  "coff_inv inp ss c \<longleftrightarrow> (let b = body inp ss in
     fd_bytes (fdIn c) = inp \<and> fd_pos (fdOut c) = 40 + length b \<and>
     fd_bytes (fdOut c) = (if b = [] then [] else replicate 40 0 @ b) \<and> inNoffFile c = word_of_nat (40 + length b) \<and>
     noffMagic (noffH c) = NOFFMAGIC \<and>
     segment_of inp b (code (noffH c)) (last_section is_text ss) \<and>
     segment_of inp b (initData (noffH c)) (last_section is_data ss) \<and> bss_of (uninitData (noffH c)) ss)"

lemma copy_section_spec:
  assumes run: "copy_section limit s c = Inr c'" and b: "fd_bytes (fdIn c) = inp" "fd_pos (fdOut c) = 40 + length b"
    "fd_bytes (fdOut c) = (if b = [] then [] else replicate 40 0 @ b)" "inNoffFile c = word_of_nat (40 + length b)"
    and s: "s_size s \<noteq> 0" "0 \<le> sint (s_scnptr s)"
  shows "0 < sint (s_size s) \<and> length (section_bytes inp s) = nat (sint (s_size s)) \<and> fd_bytes (fdIn c') = inp \<and>
    fd_pos (fdOut c') = 40 + length (b @ section_bytes inp s) \<and> fd_bytes (fdOut c') = replicate 40 0 @ b @ section_bytes inp s \<and>
    inNoffFile c' = word_of_nat (40 + length (b @ section_bytes inp s)) \<and> noffH c' = noffH c"
proof -
  obtain out where r: "0 \<le> sint (s_size s)" "int (length (section_bytes inp s)) = sint (s_size s)"
    and out: "coff_Write limit (section_bytes inp s) (fdOut c) = Inr out"
    and c': "fd_bytes (fdIn c') = inp" "fdOut c' = out" "inNoffFile c' = inNoffFile c + s_size s" "noffH c' = noffH c"
    using run b(1) s(2) by (auto simp: copy_section_def coff_Read_def lseek_def section_bytes_def Let_def split: if_splits)
  have pos: "0 < sint (s_size s)" using r(1) s(1) signed_eq_0_iff [of "s_size s"] by (simp add: order_less_le)
  have w: "s_size s = word_of_nat (length (section_bytes inp s))"
  proof -
    have "(word_of_int (sint (s_size s)) :: 32 word) = word_of_nat (length (section_bytes inp s))"
      unfolding r(2) [symmetric] by simp
    then show ?thesis by simp
  qed
  have "fd_pos out = 40 + length b + length (section_bytes inp s)" "fd_bytes out = replicate 40 0 @ b @ section_bytes inp s"
    using out b(2,3) by (auto simp: coff_Write_def Let_def split: if_splits)
  with c' pos r w b(4) show ?thesis by simp
qed

lemma load_section_inv:
  assumes run: "load_section limit s c = Inr c'" and inv: "coff_inv inp ss c" and s: "0 \<le> sint (s_scnptr s)"
  shows "coff_inv inp (ss @ [s]) c'"
proof -
  note I = inv [unfolded coff_inv_def Let_def]
  consider (none) "s_size s = 0" | (is_code) "is_text s" | (data) "is_data s" | (bss) "is_bss s"
    using run by (auto simp: load_section_def is_text_def is_data_def is_bss_def split: if_splits)
  then show ?thesis
  proof cases
    case none
    then have "c' = c" "\<not> is_text s" "\<not> is_data s" "\<not> is_bss s"
      using run by (simp_all add: load_section_def is_text_def is_data_def is_bss_def)
    then show ?thesis using I by (simp add: coff_inv_def Let_def body_snoc last_section_snoc bss_of_def)
  next
    case is_code
    then have n: "\<not> is_data s" "\<not> is_bss s" "s_size s \<noteq> 0" "named ''.text'' s"
      using kinds_disjoint by (auto simp: is_text_def)
    then have "copy_section limit s (c\<lparr>noffH := (noffH c)\<lparr>code := here s c\<rparr>\<rparr>) = Inr c'" using run by (simp add: load_section_def)
    from copy_section_spec [OF this _ _ _ _ n(3) s, of inp "body inp ss"] I
    show ?thesis using is_code n I
      by (auto simp: coff_inv_def Let_def body_snoc last_section_snoc bss_of_def segment_of_append segment_of_def [of _ _ _ "Some s"]
          here_def)
  next
    case data
    then have n: "\<not> is_text s" "\<not> is_bss s" "s_size s \<noteq> 0" "\<not> named ''.text'' s" "named ''.data'' s \<or> named ''.rdata'' s"
      using kinds_disjoint by (auto simp: is_data_def is_text_def)
    then have "copy_section limit s (c\<lparr>noffH := (noffH c)\<lparr>initData := here s c\<rparr>\<rparr>) = Inr c'"
      using run by (auto simp: load_section_def split: if_splits)
    from copy_section_spec [OF this _ _ _ _ n(3) s, of inp "body inp ss"] I
    show ?thesis using data n I
      by (auto simp: coff_inv_def Let_def body_snoc last_section_snoc bss_of_def segment_of_append segment_of_def [of _ _ _ "Some s"]
          here_def)
  next
    case bss
    then have n: "\<not> is_text s" "\<not> is_data s" "s_size s \<noteq> 0" "\<not> named ''.text'' s" "\<not> named ''.data'' s"
      "\<not> named ''.rdata'' s" "named ''.bss'' s \<or> named ''.sbss'' s"
      using kinds_disjoint by (auto simp: is_bss_def is_data_def is_text_def)
    have u: "\<exists>u. c' = c\<lparr>noffH := (noffH c)\<lparr>uninitData := u\<rparr>\<rparr> \<and>
        (seg_size (uninitData (noffH c)) = 0 \<longrightarrow> virtualAddr u = s_paddr s \<and> seg_size u = s_size s)"
      using run n by (auto simp: load_section_def Let_def split: if_splits)
    then obtain u where u: "c' = c\<lparr>noffH := (noffH c)\<lparr>uninitData := u\<rparr>\<rparr>"
      "seg_size (uninitData (noffH c)) = 0 \<longrightarrow> virtualAddr u = s_paddr s \<and> seg_size u = s_size s" by blast
    have "bss_of u (ss @ [s])" using I u(2) bss by (auto simp: bss_of_def split: list.splits)
    then show ?thesis using I n u(1) by (simp add: coff_inv_def Let_def body_snoc last_section_snoc)
  qed
qed

lemma load_sections_inv:
  assumes "load_sections limit rest c = Inr c'" and "coff_inv inp ss c" and "\<forall>s \<in> set rest. 0 \<le> sint (s_scnptr s)"
  shows "coff_inv inp (ss @ rest) c'"
  using assms
proof (induction rest arbitrary: ss c)
  case (Cons s rest)
  then obtain c1 where c1: "load_section limit s c = Inr c1" "load_sections limit rest c1 = Inr c'" by auto
  have "coff_inv inp (ss @ [s]) c1" by (rule load_section_inv [OF c1(1)]) (use Cons.prems in auto)
  from Cons.IH [OF c1(2) this] Cons.prems(3) show ?case by simp
qed simp

text \<open>
  Two sections of uninitialised data: the ones that lie behind one another, which the header could
  describe, are refused; others are taken, and the header describes only the first place.
\<close>

lemma two_bss:
  assumes "is_bss s" and "is_bss s'" and "seg_size (uninitData (noffH c)) = 0"
  shows "load_sections limit [s, s'] c =
    (if s_paddr s' = s_paddr s + s_size s then Inl BssAndSbss
     else Inr (c\<lparr>noffH := (noffH c)\<lparr>uninitData := (uninitData (noffH c))\<lparr>virtualAddr := s_paddr s,
       seg_size := s_size s + s_size s'\<rparr>\<rparr>\<rparr>))"
proof -
  have n: "s_size t \<noteq> 0" "\<not> named ''.text'' t" "\<not> named ''.data'' t" "\<not> named ''.rdata'' t"
    "named ''.bss'' t \<or> named ''.sbss'' t" if "is_bss t" for t
    using that kinds_disjoint by (auto simp: is_bss_def is_data_def is_text_def)
  show ?thesis using n [OF assms(1)] n [OF assms(2)] assms(3) by (simp add: load_section_def Let_def)
qed

lemma length_noff_bytes [simp]: "length (noff_bytes h) = 40"
  by (simp add: noff_bytes_def segment_bytes_def)

text \<open>Writing the header and reading it back.\<close>

lemma noff_header_bytes: "noff_header (noff_bytes h @ b) = h"
proof -
  have "segment_at (w @ segment_bytes g @ r) (length w) = g" for w g r
    by (simp add: segment_at_def segment_bytes_def)
  from this [of "word_bytes (noffMagic h)" "code h"] this [of "word_bytes (noffMagic h) @ segment_bytes (code h)" "initData h"]
    this [of "word_bytes (noffMagic h) @ segment_bytes (code h) @ segment_bytes (initData h)" "uninitData h" "[]"]
  show ?thesis by (simp add: noff_header_def noff_of_bytes_def noff_bytes_def segment_bytes_def)
qed

lemma coff2noff_shape:
  assumes run: "coff2noff limit junk inp = Inr out" and rd: "read_headers inp = Inr (ss, f)"
    and pos: "\<forall>s \<in> set ss. 0 \<le> sint (s_scnptr s)"
  shows "\<exists>h. out = noff_bytes h @ body inp ss \<and> noffMagic h = NOFFMAGIC \<and>
    segment_of inp (body inp ss) (code h) (last_section is_text ss) \<and>
    segment_of inp (body inp ss) (initData h) (last_section is_data ss) \<and> bss_of (uninitData h) ss"
proof -
  let ?c0 = "\<lparr>fdIn = f, fdOut = \<lparr>fd_bytes = [], fd_pos = 40\<rparr>, noffH = empty_header junk, inNoffFile = 40\<rparr>"
  obtain c out' where c: "load_sections limit ss ?c0 = Inr c"
    and out: "coff_Write limit (noff_bytes (noffH c)) ((fdOut c)\<lparr>fd_pos := 0\<rparr>) = Inr out'" "out = fd_bytes out'"
    using run rd by (auto simp: coff2noff_def)
  have "fd_bytes f = inp"
    using rd by (auto simp: read_headers_def coff_Read_def Let_def split: if_splits)
  then have "coff_inv inp [] ?c0"
    by (simp add: coff_inv_def body_def segment_of_def bss_of_def empty_header_def)
  from load_sections_inv [OF c this pos] have I: "coff_inv inp ss c" by simp
  then have "out = noff_bytes (noffH c) @ body inp ss"
    using out by (auto simp: coff_Write_def coff_inv_def Let_def split: if_splits)
  with I show ?thesis unfolding coff_inv_def Let_def by blast
qed

subsection \<open>From the compiler's output to memory\<close>

definition in_section :: "scnhdr option \<Rightarrow> nat \<Rightarrow> bool" where
  "in_section so a \<longleftrightarrow> (case so of None \<Rightarrow> False
     | Some s \<Rightarrow> nat (sint (s_paddr s)) \<le> a \<and> a < nat (sint (s_paddr s)) + nat (sint (s_size s)))"

definition section_byte :: "byte list \<Rightarrow> scnhdr option \<Rightarrow> nat \<Rightarrow> byte" where
  "section_byte inp so a = section_bytes inp (the so) ! (a - nat (sint (s_paddr (the so))))"

lemma put_segment_nth:
  assumes seg: "segment_of inp b g so" and b: "40 + length b < 2 ^ 31" and h: "length h = 40"
    and fits: "segment_fits (int (length (h @ b))) g" and mem: "int (length mem) = MemorySize"
    and a: "a < length mem"
  shows "put_segment g (h @ b) mem ! a = (if in_section so a then section_byte inp so a else mem ! a)"
proof (cases so)
  case None
  then show ?thesis using seg by (simp add: segment_of_def put_segment_def in_section_def)
next
  case (Some s)
  then obtain p where p: "inFileAddr g = word_of_nat (40 + p)" "virtualAddr g = s_paddr s" "seg_size g = s_size s"
    "0 < sint (s_size s)" "p + nat (sint (s_size s)) \<le> length b" "take (nat (sint (s_size s))) (drop p b) = section_bytes inp s"
    using seg by (auto simp: segment_of_def)
  have "int (40 + p) < 2 ^ 31" using p(5) b by simp
  then have i: "sint (inFileAddr g) = int (40 + p)"
    unfolding p(1) by (subst signed_of_nat) (simp add: signed_take_bit_int_eq_self)
  have v: "0 \<le> sint (s_paddr s)" "sint (s_paddr s) + sint (s_size s) \<le> int (length mem)"
    using fits p(2-4) mem by (auto simp: segment_fits_def)
  have d: "drop (nat (sint (inFileAddr g))) (h @ b) = drop p b" using h by (simp add: i nat_add_distrib)
  have e: "put_segment g (h @ b) mem = take (nat (sint (s_paddr s))) mem @ section_bytes inp s @
      drop (nat (sint (s_paddr s) + sint (s_size s))) mem"
    unfolding put_segment_def d using p(2-4,6) by simp
  have l: "length (section_bytes inp s) = nat (sint (s_size s))" using p(5) unfolding p(6) [symmetric] by simp
  have lm: "nat (sint (s_paddr s)) \<le> length mem" using v p(4) by linarith
  have sum: "nat (sint (s_paddr s) + sint (s_size s)) = nat (sint (s_paddr s)) + nat (sint (s_size s))"
    using v(1) p(4) by (simp add: nat_add_distrib)
  show ?thesis
  proof (cases "a < nat (sint (s_paddr s))")
    case True
    then show ?thesis using lm Some by (simp add: e nth_append in_section_def)
  next
    case False
    then show ?thesis using lm l a Some v(2) sum
      by (auto simp: e nth_append in_section_def section_byte_def)
  qed
qed

text \<open>An object file with a \<open>.text\<close> of two instructions and a \<open>.data\<close>, and what it is converted to.\<close>

definition section_header :: "byte list \<Rightarrow> 32 word \<Rightarrow> 32 word \<Rightarrow> 32 word \<Rightarrow> byte list" where
  "section_header nm a sz ptr = nm @ word_bytes a @ word_bytes a @ word_bytes sz @ word_bytes ptr @ word_bytes 0 @ word_bytes 0 @
     [0, 0, 0, 0] @ word_bytes 0"

definition hello_sections :: "scnhdr list" where
  "hello_sections =
     [\<lparr>s_name = [0x2e, 0x74, 0x65, 0x78, 0x74, 0, 0, 0], s_paddr = 0, s_vaddr = 0, s_size = 8, s_scnptr = 156,
       s_relptr = 0, s_lnnoptr = 0, s_nreloc = 0, s_nlnno = 0, s_flags = 0\<rparr>,
      \<lparr>s_name = [0x2e, 0x64, 0x61, 0x74, 0x61, 0, 0, 0], s_paddr = 128, s_vaddr = 128, s_size = 152, s_scnptr = 164,
       s_relptr = 0, s_lnnoptr = 0, s_nreloc = 0, s_nlnno = 0, s_flags = 0\<rparr>]"

definition hello_coff :: "byte list" where
  "hello_coff = ([0x62, 0x01, 2, 0] @ replicate 16 0) @ ([0x07, 0x01] @ replicate 54 0) @
     (section_header [0x2e, 0x74, 0x65, 0x78, 0x74, 0, 0, 0] 0 8 156 @
      section_header [0x2e, 0x64, 0x61, 0x74, 0x61, 0, 0, 0] 128 152 164) @
     (word_bytes 0x24020000 @ word_bytes 0x0000000C) @ replicate 152 7"

definition hello_header :: NoffHeader where
  "hello_header = \<lparr>noffMagic = NOFFMAGIC, code = \<lparr>virtualAddr = 0, inFileAddr = 40, seg_size = 8\<rparr>,
     initData = \<lparr>virtualAddr = 128, inFileAddr = 48, seg_size = 152\<rparr>,
     uninitData = \<lparr>virtualAddr = 0, inFileAddr = 0, seg_size = 0\<rparr>\<rparr>"

definition hello_noff :: "byte list" where
  "hello_noff = noff_bytes hello_header @ (word_bytes 0x24020000 @ word_bytes 0x0000000C) @ replicate 152 7"

definition zero_header :: NoffHeader where
  "zero_header = \<lparr>noffMagic = 0, code = \<lparr>virtualAddr = 0, inFileAddr = 0, seg_size = 0\<rparr>,
     initData = \<lparr>virtualAddr = 0, inFileAddr = 0, seg_size = 0\<rparr>,
     uninitData = \<lparr>virtualAddr = 0, inFileAddr = 0, seg_size = 0\<rparr>\<rparr>"

lemma coff_Read_part:
  "int (length bs) = n \<Longrightarrow> coff_Read n \<lparr>fd_bytes = pre @ bs @ post, fd_pos = length pre\<rparr> =
    Inr (bs, \<lparr>fd_bytes = pre @ bs @ post, fd_pos = length (pre @ bs)\<rparr>)"
  by (auto simp: coff_Read_def Let_def)

lemma length_section_header [simp]: "length (section_header nm a sz ptr) = length nm + 32"
  by (simp add: section_header_def)

lemma scnhdr_of_header:
  "length nm = 8 \<Longrightarrow> scnhdr_of (section_header nm a sz ptr @ r) =
    \<lparr>s_name = nm, s_paddr = a, s_vaddr = a, s_size = sz, s_scnptr = ptr,
     s_relptr = 0, s_lnnoptr = 0, s_nreloc = 0, s_nlnno = 0, s_flags = 0\<rparr>"
  by (simp add: scnhdr_of_def section_header_def bytes_short_def)

lemma hello_headers: "read_headers hello_coff = Inr (hello_sections, \<lparr>fd_bytes = hello_coff, fd_pos = 156\<rparr>)"
proof -
  let ?h = "[0x62, 0x01, 2, 0] @ replicate 16 0 :: byte list" and ?a = "[0x07, 0x01] @ replicate 54 0 :: byte list"
    and ?s = "section_header [0x2e, 0x74, 0x65, 0x78, 0x74, 0, 0, 0] 0 8 156 @
      section_header [0x2e, 0x64, 0x61, 0x74, 0x61, 0, 0, 0] 128 152 164"
    and ?r = "(word_bytes 0x24020000 @ word_bytes 0x0000000C) @ replicate 152 7"
  have c: "hello_coff = [] @ ?h @ ?a @ ?s @ ?r" "hello_coff = ?h @ ?a @ ?s @ ?r" "hello_coff = (?h @ ?a) @ ?s @ ?r"
    by (simp_all only: hello_coff_def append_Nil append_assoc)
  have "coff_Read 20 \<lparr>fd_bytes = hello_coff, fd_pos = 0\<rparr> = Inr (?h, \<lparr>fd_bytes = hello_coff, fd_pos = 20\<rparr>)"
    using coff_Read_part [of ?h 20 "[]" "?a @ ?s @ ?r"] unfolding c(1) [symmetric] by simp
  moreover have "coff_Read 56 \<lparr>fd_bytes = hello_coff, fd_pos = 20\<rparr> = Inr (?a, \<lparr>fd_bytes = hello_coff, fd_pos = 76\<rparr>)"
    using coff_Read_part [of ?a 56 ?h "?s @ ?r"] unfolding c(2) [symmetric] by simp
  moreover have "coff_Read (int 2 * 40) \<lparr>fd_bytes = hello_coff, fd_pos = 76\<rparr> = Inr (?s, \<lparr>fd_bytes = hello_coff, fd_pos = 156\<rparr>)"
    using coff_Read_part [of ?s 80 "?h @ ?a" ?r] unfolding c(3) [symmetric] by simp
  moreover have "f_magic (filehdr_of ?h) = MIPSELMAGIC" "unat (f_nscns (filehdr_of ?h)) = 2" "bytes_short ?a = OMAGIC"
    by (simp_all add: filehdr_of_def bytes_short_def MIPSELMAGIC_def OMAGIC_def)
  moreover have "map swap_section (scnhdrs_of 2 ?s) = hello_sections"
    by (simp add: scnhdrs_of_def upt_rec scnhdr_of_header scnhdr_of_header [of _ _ _ _ "[]", simplified] swap_section_def
        WordToHost_def hello_sections_def)
  ultimately show ?thesis by (simp add: read_headers_def ShortToHost_def Let_def)
qed

lemma hello_parts: "length hello_coff = 316" "drop 156 hello_coff = word_bytes 0x24020000 @ word_bytes 0x0000000C @ replicate 152 7"
  "drop 164 hello_coff = replicate 152 7"
  by (simp_all add: hello_coff_def)

lemma hello_names: "named ''.text'' (hello_sections ! 0)" "\<not> named ''.text'' (hello_sections ! 1)" "named ''.data'' (hello_sections ! 1)"
  by (simp_all add: named_def name_bytes hello_sections_def)

lemma hello_converted: "coff2noff 1000 zero_header hello_coff = Inr hello_noff"
proof -
  let ?c = "\<lparr>fdIn = \<lparr>fd_bytes = hello_coff, fd_pos = 156\<rparr>, fdOut = \<lparr>fd_bytes = [], fd_pos = 40\<rparr>,
      noffH = empty_header zero_header, inNoffFile = 40\<rparr>"
  let ?c1 = "\<lparr>fdIn = \<lparr>fd_bytes = hello_coff, fd_pos = 164\<rparr>,
      fdOut = \<lparr>fd_bytes = replicate 40 0 @ word_bytes 0x24020000 @ word_bytes 0x0000000C, fd_pos = 48\<rparr>,
      noffH = (empty_header zero_header)\<lparr>code := \<lparr>virtualAddr = 0, inFileAddr = 40, seg_size = 8\<rparr>\<rparr>, inNoffFile = 48\<rparr>"
  let ?c2 = "\<lparr>fdIn = \<lparr>fd_bytes = hello_coff, fd_pos = 316\<rparr>,
      fdOut = \<lparr>fd_bytes = replicate 40 0 @ word_bytes 0x24020000 @ word_bytes 0x0000000C @ replicate 152 7, fd_pos = 200\<rparr>,
      noffH = hello_header, inNoffFile = 200\<rparr>"
  have "load_section 1000 (hello_sections ! 0) ?c = Inr ?c1"
    using hello_names(1)
    by (simp add: load_section_def) (simp add: hello_sections_def copy_section_def coff_Read_def lseek_def coff_Write_def Let_def
        hello_parts here_def)
  moreover have "load_section 1000 (hello_sections ! 1) ?c1 = Inr ?c2"
    using hello_names(2,3)
    by (simp add: load_section_def) (simp add: hello_sections_def copy_section_def coff_Read_def lseek_def coff_Write_def Let_def
        hello_parts here_def empty_header_def zero_header_def hello_header_def)
  moreover have "hello_sections = [hello_sections ! 0, hello_sections ! 1]" by (simp add: hello_sections_def)
  ultimately have "load_sections 1000 hello_sections ?c = Inr ?c2" by (metis ebind_simps(2) load_sections.simps)
  then show ?thesis by (simp add: coff2noff_def hello_headers coff_Write_def hello_noff_def)
qed

definition hello_boot :: "(unit, int \<Rightarrow> byte list) ukernel_scheme" where
  "hello_boot = ukernel.more_update (\<lambda>_. blank_disk(5 := take 128 hello_noff, 9 := drop 128 hello_noff @ replicate 56 0)) boot"

lemma length_hello_noff: "length hello_noff = 200"
  by (simp add: hello_noff_def)

lemma hello_boot_simps [simp]:
  "mach hello_boot = Machine_new False 0 0"
  "ukernel.more hello_boot = blank_disk(5 := take 128 hello_noff, 9 := drop 128 hello_noff @ replicate 56 0)"
  by (simp_all add: hello_boot_def)

lemma hello_boot_ok: "mem_ok (ukernel.more hello_boot)"
  by (simp add: mem_ok_def length_hello_noff blank_disk_def)

lemma hello_file: "hello_noff = file_bytes (hdr sample_file) (ukernel.more hello_boot)"
  by (simp add: sample_file_hdr sample_file_bytes length_hello_noff)

lemma hello_loadable: "loadable hello_noff"
proof -
  have "noff_header hello_noff = hello_header" unfolding hello_noff_def by (rule noff_header_bytes)
  then show ?thesis
    by (simp add: loadable_def length_hello_noff hello_header_def segment_fits_def page_sizes pages_needed_def
        program_size_def UserStackSize_def)
qed

lemma hello_last: "last_section is_text hello_sections = Some (hello_sections ! 0)"
  "last_section is_data hello_sections = Some (hello_sections ! 1)"
  by (simp_all add: last_section_def is_text_def is_data_def hello_sections_def named_def name_bytes)

subsection \<open>Properties\<close>

text \<open>
  C25: What the compiler put into its object file is what the program finds in memory. If \<open>coff2noff\<close>
  converts a COFF file, and the output is the contents of a file that fits the machine (\<open>loadable\<close>: its pages and its
  segments lie within the memory and the file), then \<open>AddrSpace\<close> loads it: every byte of the last \<open>.text\<close> section and
  of the last \<open>.data\<close> or \<open>.rdata\<close> section is at the address that the COFF file gives it, and every other byte of the
  program's pages is zero. This is for COFF files in which no section has a negative \<open>s_scnptr\<close> and these two
  sections do not overlap; \<open>coff2noff\<close> checks neither.
\<close>

theorem coff2noff_loads:
  assumes E: "program_disk E ok sectors" and k: "ok k" "header_ok (hdr f)"
    and prog: "prog = file_bytes (hdr f) (sectors k)" "loadable prog" and mem: "int (length (mainMemory (mach k))) = MemorySize"
    and run: "coff2noff limit junk coff = Inr prog" "read_headers coff = Inr (ss, fd)"
    and pos: "\<forall>s \<in> set ss. 0 \<le> sint (s_scnptr s)"
    and apart: "\<forall>a. \<not> (in_section (last_section is_text ss) a \<and> in_section (last_section is_data ss) a)"
  shows "\<exists>n k1. AddrSpace_new E t f k = Inr (\<lparr>spPageTable = t, numPages = n\<rparr>, k1) \<and>
    (\<forall>a < length (mainMemory (mach k)). mainMemory (mach k1) ! a =
      (if in_section (last_section is_text ss) a then section_byte coff (last_section is_text ss) a
       else if in_section (last_section is_data ss) a then section_byte coff (last_section is_data ss) a
       else if a < unat n * 128 then 0 else mainMemory (mach k) ! a))"
proof -
  let ?m = "mainMemory (mach k)" and ?t = "last_section is_text ss" and ?d = "last_section is_data ss"
  obtain h where h: "prog = noff_bytes h @ body coff ss" "segment_of coff (body coff ss) (code h) ?t"
    "segment_of coff (body coff ss) (initData h) ?d"
    using coff2noff_shape [OF run pos] by blast
  have hd: "noff_header prog = h" unfolding h(1) by (rule noff_header_bytes)
  define n where "n = pages_needed (program_size h)"
  have n: "n \<le> word_of_int NumPhysPages" using prog(2) by (simp add: loadable_def hd n_def)
  obtain k1 where k1: "AddrSpace_new E t f k = Inr (\<lparr>spPageTable = t, numPages = n\<rparr>, k1)"
    "mainMemory (mach k1) = program_image prog ?m"
    using AddrSpace_new_loads [OF E k prog(1) [symmetric] prog(2) mem, of t] by (auto simp: hd n_def)
  let ?z = "replicate (nat (uint n * PageSize)) 0 @ drop (nat (uint n * PageSize)) ?m"
  have nz: "nat (uint n * PageSize) = unat n * 128" "unat n * 128 \<le> length ?m"
    using pages_limit [OF n] mem by (simp_all add: page_sizes nat_mult_distrib flip: nat_uint_eq)
  have zl: "int (length ?z) = MemorySize" using nz mem by simp
  have fits: "segment_fits (int (length prog)) (code h)" "segment_fits (int (length prog)) (initData h)"
    using prog(2) by (simp_all add: loadable_def hd)
  have img: "program_image prog ?m = put_segment (initData h) prog (put_segment (code h) prog ?z)"
    by (simp add: program_image_def Let_def hd n_def)
  have "int (length prog) = numBytes (hdr f)" using k(2) prog(1) by (simp add: header_ok_def)
  then have "int (length prog) \<le> 3840" using k(2) by (simp add: header_ok_def MaxFileSize_value)
  then have b: "40 + length (body coff ss) < 2 ^ 31" by (simp add: h(1))
  have "mainMemory (mach k1) ! a = (if in_section ?t a then section_byte coff ?t a
      else if in_section ?d a then section_byte coff ?d a else if a < unat n * 128 then 0 else ?m ! a)"
    if a: "a < length ?m" for a
  proof -
    have l1: "int (length (put_segment (code h) prog ?z)) = MemorySize" by (rule length_put_segment [OF fits(1) zl])
    have az: "a < length ?z" "a < length (put_segment (code h) prog ?z)" using a mem zl l1 by linarith+
    have "?z ! a = (if a < unat n * 128 then 0 else ?m ! a)" using nz a by (simp add: nth_append)
    moreover note put_segment_nth [OF h(2) b length_noff_bytes fits(1) [unfolded h(1)] zl az(1)]
      put_segment_nth [OF h(3) b length_noff_bytes fits(2) [unfolded h(1)] l1 [unfolded h(1)] az(2) [unfolded h(1)]]
    ultimately show ?thesis using apart unfolding k1(2) unfolding img unfolding h(1) by simp
  qed
  with k1(1) show ?thesis by blast
qed

theorem coff2noff_loads_witness:
  "\<exists>n k1. AddrSpace_new boot_disk 7 sample_file hello_boot = Inr (\<lparr>spPageTable = 7, numPages = n\<rparr>, k1) \<and>
    mainMemory (mach k1) ! 4 = 0x0C \<and> mainMemory (mach k1) ! 130 = 7 \<and> mainMemory (mach k1) ! 2000 = 0"
proof -
  have pos: "\<forall>s \<in> set hello_sections. 0 \<le> sint (s_scnptr s)" by (simp add: hello_sections_def)
  have sec: "in_section (last_section is_text hello_sections) a \<longleftrightarrow> a < 8"
    "in_section (last_section is_data hello_sections) a \<longleftrightarrow> 128 \<le> a \<and> a < 280" for a
    unfolding hello_last by (auto simp: in_section_def hello_sections_def)
  have mem: "int (length (mainMemory (mach hello_boot))) = MemorySize" using boot_memory by simp
  have "header_ok (hdr sample_file)" using sample_header_ok by (simp add: sample_file_hdr)
  from coff2noff_loads [OF boot_disk_ok hello_boot_ok this hello_file hello_loadable mem hello_converted hello_headers pos, of 7] sec
  obtain n k1 where k1: "AddrSpace_new boot_disk 7 sample_file hello_boot = Inr (\<lparr>spPageTable = 7, numPages = n\<rparr>, k1)"
    "\<forall>a < length (mainMemory (mach hello_boot)). mainMemory (mach k1) ! a =
      (if a < 8 then section_byte hello_coff (last_section is_text hello_sections) a
       else if 128 \<le> a \<and> a < 280 then section_byte hello_coff (last_section is_data hello_sections) a
       else if a < unat n * 128 then 0 else mainMemory (mach hello_boot) ! a)"
    by auto
  have l: "length (mainMemory (mach hello_boot)) = 4096" using mem by (simp add: page_sizes)
  have m: "mainMemory (Machine_new False 0 0) ! 2000 = 0" by (simp add: Machine_new_def page_sizes)
  have "section_byte hello_coff (last_section is_text hello_sections) 4 = 0x0C"
    "section_byte hello_coff (last_section is_data hello_sections) 130 = 7"
    unfolding hello_last
    by (simp_all add: section_byte_def section_bytes_def hello_parts hello_sections_def) (simp_all add: word_bytes_def)
  with k1(1) k1(2) [rule_format, of 4] k1(2) [rule_format, of 130] k1(2) [rule_format, of 2000] show ?thesis
    unfolding l by (auto simp: m)
qed

end
