(* ===== verification/Host_Interpreter.thy ===== *)
theory Host_Interpreter
  imports Mips_Instructions
begin

section \<open>The stand-alone interpreter, bin/execute.c\<close>

text \<open>
  A second interpreter of MIPS programs, which runs on the host without the kernel: its memory is one array
  from address \<open>memoffset\<close> on, a load takes effect at once, and system calls go to the host
  (\<open>bin/system.c\<close>). As in \<open>machine/mipssim.cc\<close> an \<open>int\<close> is a word that wraps around. What C leaves
  undefined and the host does not do silently is a way to stop: a shift by more than 31, a division by zero, an
  access outside the memory.
\<close>

subsection \<open>Instructions, encode.h and instr.h\<close>

text \<open>\<open>I_COPROC\<close> stands for the twelve coprocessor instructions, \<open>I_NONE\<close> for the numbers without a name.\<close>

datatype (plugins only: code) host_op =
    I_SPECIAL | I_BCOND | I_J | I_JAL | I_BEQ | I_BNE | I_BLEZ | I_BGTZ | I_ADDI | I_ADDIU | I_SLTI | I_SLTIU
  | I_ANDI | I_ORI | I_XORI | I_LUI | I_COPROC | I_LB | I_LH | I_LWL | I_LW | I_LBU | I_LHU | I_LWR
  | I_SB | I_SH | I_SWL | I_SW | I_SWR
  | I_SLL | I_SRL | I_SRA | I_SLLV | I_SRLV | I_SRAV | I_JR | I_JALR | I_SYSCALL | I_BREAK
  | I_MFHI | I_MTHI | I_MFLO | I_MTLO | I_MULT | I_MULTU | I_DIV | I_DIVU
  | I_ADD | I_ADDU | I_SUB | I_SUBU | I_AND | I_OR | I_XOR | I_NOR | I_SLT | I_SLTU
  | I_BLTZ | I_BGEZ | I_BLTZAL | I_BGEZAL | I_NONE

definition normal_opcodes :: "host_op list" where
  "normal_opcodes =
     [I_SPECIAL, I_BCOND, I_J, I_JAL, I_BEQ, I_BNE, I_BLEZ, I_BGTZ,
      I_ADDI, I_ADDIU, I_SLTI, I_SLTIU, I_ANDI, I_ORI, I_XORI, I_LUI,
      I_COPROC, I_COPROC, I_COPROC, I_COPROC, I_NONE, I_NONE, I_NONE, I_NONE,
      I_NONE, I_NONE, I_NONE, I_NONE, I_NONE, I_NONE, I_NONE, I_NONE,
      I_LB, I_LH, I_LWL, I_LW, I_LBU, I_LHU, I_LWR, I_NONE,
      I_SB, I_SH, I_SWL, I_SW, I_NONE, I_NONE, I_SWR, I_NONE,
      I_COPROC, I_COPROC, I_COPROC, I_COPROC, I_NONE, I_NONE, I_NONE, I_NONE,
      I_COPROC, I_COPROC, I_COPROC, I_COPROC, I_NONE, I_NONE, I_NONE, I_NONE]"

definition special_opcodes :: "host_op list" where
  "special_opcodes =
     [I_SLL, I_NONE, I_SRL, I_SRA, I_SLLV, I_NONE, I_SRLV, I_SRAV,
      I_JR, I_JALR, I_NONE, I_NONE, I_SYSCALL, I_BREAK, I_NONE, I_NONE,
      I_MFHI, I_MTHI, I_MFLO, I_MTLO, I_NONE, I_NONE, I_NONE, I_NONE,
      I_MULT, I_MULTU, I_DIV, I_DIVU, I_NONE, I_NONE, I_NONE, I_NONE,
      I_ADD, I_ADDU, I_SUB, I_SUBU, I_AND, I_OR, I_XOR, I_NOR,
      I_NONE, I_NONE, I_SLT, I_SLTU, I_NONE, I_NONE, I_NONE, I_NONE] @ replicate 16 I_NONE"

definition bcond_opcode :: "nat \<Rightarrow> host_op" where
  "bcond_opcode n = (if n = 0 then I_BLTZ else if n = 1 then I_BGEZ else if n = 16 then I_BLTZAL
     else if n = 17 then I_BGEZAL else I_NONE)"

text \<open>The fields; \<open>i >> n\<close> shifts an \<open>int\<close>.\<close>

definition i_rd :: "32 word \<Rightarrow> nat" where "i_rd i = unat (signed_drop_bit 11 i AND 0x1f)"
definition i_rt :: "32 word \<Rightarrow> nat" where "i_rt i = unat (signed_drop_bit 16 i AND 0x1f)"
definition i_rs :: "32 word \<Rightarrow> nat" where "i_rs i = unat (signed_drop_bit 21 i AND 0x1f)"
definition shamt :: "32 word \<Rightarrow> nat" where "shamt i = unat (signed_drop_bit 6 i AND 0x1f)"
definition immed :: "32 word \<Rightarrow> 32 word" where
  "immed i = (if i AND 0x8000 \<noteq> 0 then i OR - 0x8000 else i AND 0x7fff)"

subsection \<open>The state\<close>

definition MEMSIZE :: int where "MEMSIZE = 2 ^ 24"

definition memoffset :: int where "memoffset = 0x10000000"

record interpreter =
  Reg :: "nat \<Rightarrow> 32 word"
  HI :: "32 word"
  LO :: "32 word"
  host_mem :: "byte list"
  host_pc :: "32 word"
  host_npc :: "32 word"

text \<open>\<open>Exited\<close> is \<open>exit\<close> with its argument.\<close>

datatype host_stop = Exited int | BadAccess | BadShift | BadDivision

type_synonym run_result = "host_stop + interpreter"

definition set_Reg :: "nat \<Rightarrow> 32 word \<Rightarrow> interpreter \<Rightarrow> interpreter" where
  "set_Reg r v S = S\<lparr>Reg := (Reg S)(r := v)\<rparr>"

text \<open>The macros of \<open>int.h\<close>: \<open>n\<close> bytes at an address.\<close>

definition host_load :: "nat \<Rightarrow> 32 word \<Rightarrow> interpreter \<Rightarrow> host_stop + byte list" where
  "host_load n addr S =
     (let i = sint addr - memoffset in
      if 0 \<le> i \<and> i + int n \<le> int (length (host_mem S)) then Inr (take n (drop (nat i) (host_mem S))) else Inl BadAccess)"

definition host_store :: "32 word \<Rightarrow> byte list \<Rightarrow> interpreter \<Rightarrow> run_result" where
  "host_store addr bs S =
     (let i = sint addr - memoffset in
      if 0 \<le> i \<and> i + int (length bs) \<le> int (length (host_mem S))
      then Inr (S\<lparr>host_mem := take (nat i) (host_mem S) @ bs @ drop (nat i + length bs) (host_mem S)\<rparr>) else Inl BadAccess)"

definition fetch :: "32 word \<Rightarrow> interpreter \<Rightarrow> host_stop + 32 word" where
  "fetch addr S = ebind (host_load 4 addr S) (\<lambda>bs. Inr (bytes_word bs))"

subsection \<open>One instruction\<close>

text \<open>A shift whose count is an \<open>int\<close>.\<close>

definition host_shift :: "(nat \<Rightarrow> 32 word \<Rightarrow> 32 word) \<Rightarrow> 32 word \<Rightarrow> 32 word \<Rightarrow> host_stop + 32 word" where
  "host_shift f v cnt = (if uint cnt < 32 then Inr (f (unat cnt) v) else Inl BadShift)"

definition host_mult :: "32 word \<Rightarrow> 32 word \<Rightarrow> 32 word \<times> 32 word" where
  "host_mult t1 t2 =
     (let t1l = t1 AND 0xffff; t1h = signed_drop_bit 16 t1 AND 0xffff;
          t2l = t2 AND 0xffff; t2h = signed_drop_bit 16 t2 AND 0xffff
      in (t1h * t2h + signed_drop_bit 16 (t1h * t2l) + signed_drop_bit 16 (t2h * t1l), t1 * t2))"

definition host_MULT :: "32 word \<Rightarrow> 32 word \<Rightarrow> 32 word \<times> 32 word" where
  "host_MULT t1 t2 =
     (let neg = ((t1 <s 0) \<noteq> (t2 <s 0));
          (hi, lo) = host_mult (if t1 <s 0 then - t1 else t1) (if t2 <s 0 then - t2 else t2)
      in if neg then
           let lo = NOT lo + 1 in (if lo = 0 then NOT hi + 1 else NOT hi, lo)
         else (hi, lo))"

definition host_div :: "bool \<Rightarrow> 32 word \<Rightarrow> 32 word \<Rightarrow> interpreter \<Rightarrow> run_result" where
  "host_div sgnd a b S =
     (if b = 0 \<or> sgnd \<and> a = SIGN_BIT \<and> b = - 1 then Inl BadDivision
      else if sgnd then Inr (S\<lparr>LO := word_of_int (sint a sdiv sint b), HI := word_of_int (sint a smod sint b)\<rparr>)
      else Inr (S\<lparr>LO := a div b, HI := a mod b\<rparr>))"

text \<open>
  The cases of \<open>I_SPECIAL\<close>. \<open>sys\<close> is \<open>system_trap()\<close>.
\<close>

definition host_special ::
  "(interpreter \<Rightarrow> run_result) \<Rightarrow> 32 word \<Rightarrow> 32 word \<Rightarrow> interpreter \<Rightarrow> run_result" where
  "host_special sys xpc i S =
     (let a = Reg S (i_rs i); b = Reg S (i_rt i); setd = (\<lambda>v. Inr (set_Reg (i_rd i) v S)) in
      case special_opcodes ! unat (i AND 0x3f) of
        I_SLL \<Rightarrow> setd (push_bit (shamt i) b)
      | I_SRL \<Rightarrow> setd (drop_bit (shamt i) b)
      | I_SRA \<Rightarrow> setd (signed_drop_bit (shamt i) b)
      | I_SLLV \<Rightarrow> ebind (host_shift push_bit b a) setd
      | I_SRLV \<Rightarrow> ebind (host_shift drop_bit b a) setd
      | I_SRAV \<Rightarrow> ebind (host_shift signed_drop_bit b a) setd
      | I_JR \<Rightarrow> Inr (S\<lparr>host_npc := a\<rparr>)
      | I_JALR \<Rightarrow> Inr (set_Reg (i_rd i) (xpc + 8) (S\<lparr>host_npc := a\<rparr>))
      | I_SYSCALL \<Rightarrow> sys S
      | I_BREAK \<Rightarrow> sys S
      | I_MFHI \<Rightarrow> setd (HI S)
      | I_MTHI \<Rightarrow> Inr (S\<lparr>HI := a\<rparr>)
      | I_MFLO \<Rightarrow> setd (LO S)
      | I_MTLO \<Rightarrow> Inr (S\<lparr>LO := a\<rparr>)
      | I_MULT \<Rightarrow> (let (hi, lo) = host_MULT a b in Inr (S\<lparr>HI := hi, LO := lo\<rparr>))
      | I_MULTU \<Rightarrow> (let (hi, lo) = host_mult a b in Inr (S\<lparr>HI := hi, LO := lo\<rparr>))
      | I_DIV \<Rightarrow> host_div True a b S
      | I_DIVU \<Rightarrow> host_div False a b S
      | I_ADD \<Rightarrow> setd (a + b)
      | I_ADDU \<Rightarrow> setd (a + b)
      | I_SUB \<Rightarrow> setd (a - b)
      | I_SUBU \<Rightarrow> setd (a - b)
      | I_AND \<Rightarrow> setd (a AND b)
      | I_OR \<Rightarrow> setd (a OR b)
      | I_XOR \<Rightarrow> setd (a XOR b)
      | I_NOR \<Rightarrow> setd (NOT (a OR b))
      | I_SLT \<Rightarrow> setd (if a <s b then 1 else 0)
      | I_SLTU \<Rightarrow> setd (if a < b then 1 else 0)
      | _ \<Rightarrow> Inl (Exited 2))"

definition branch :: "bool \<Rightarrow> 32 word \<Rightarrow> 32 word \<Rightarrow> interpreter \<Rightarrow> interpreter" where
  "branch c xpc i S = (if c then S\<lparr>host_npc := xpc + 4 + push_bit 2 (immed i)\<rparr> else S)"

definition host_bcond :: "32 word \<Rightarrow> 32 word \<Rightarrow> interpreter \<Rightarrow> run_result" where
  "host_bcond xpc i S =
     (let S' = set_Reg 31 (xpc + 8) S in
      case bcond_opcode (i_rt i) of
        I_BLTZ \<Rightarrow> Inr (branch (Reg S (i_rs i) <s 0) xpc i S)
      | I_BGEZ \<Rightarrow> Inr (branch (0 \<le>s Reg S (i_rs i)) xpc i S)
      | I_BLTZAL \<Rightarrow> Inr (branch (Reg S' (i_rs i) <s 0) xpc i S')
      | I_BGEZAL \<Rightarrow> Inr (branch (0 \<le>s Reg S' (i_rs i)) xpc i S')
      | _ \<Rightarrow> Inl (Exited 2))"

text \<open>Loads and stores; \<open>ad\<close> is \<open>Reg[rs(instr)] + immed(instr)\<close>.\<close>

definition host_memory :: "host_op \<Rightarrow> 32 word \<Rightarrow> interpreter \<Rightarrow> run_result" where
  "host_memory oc i S =
     (let ad = Reg S (i_rs i) + immed i; t = i_rt i; sett = (\<lambda>v. Inr (set_Reg t v S)) in
      case oc of
        I_LB \<Rightarrow> ebind (host_load 1 ad S) (\<lambda>bs. sett (scast (bs ! 0)))
      | I_LH \<Rightarrow> ebind (host_load 2 ad S) (\<lambda>bs. sett (scast (bytes_short bs)))
      | I_LWL \<Rightarrow>
          ebind (fetch (ad AND 0xfffffffc) S) (\<lambda>v.
          sett ((Reg S t AND signed_drop_bit (8 * unat (- ad AND 0x3)) (- 1)) OR push_bit (8 * unat (ad AND 0x3)) v))
      | I_LW \<Rightarrow> ebind (fetch ad S) sett
      | I_LBU \<Rightarrow> ebind (host_load 1 ad S) (\<lambda>bs. sett (ucast (bs ! 0)))
      | I_LHU \<Rightarrow> ebind (host_load 2 ad S) (\<lambda>bs. sett (ucast (bytes_short bs)))
      | I_LWR \<Rightarrow>
          ebind (fetch (ad AND 0xfffffffc) S) (\<lambda>v.
          sett ((if ad AND 0x3 = 0 then 0 else Reg S t AND push_bit (8 * unat (ad AND 0x3)) (- 1)) OR
            signed_drop_bit (8 * unat (- ad AND 0x3)) v))
      | I_SB \<Rightarrow> host_store ad [ucast (Reg S t)] S
      | I_SH \<Rightarrow> host_store ad (short_bytes (ucast (Reg S t))) S
      | I_SW \<Rightarrow> host_store ad (word_bytes (Reg S t)) S
      | _ \<Rightarrow> Inl (Exited 2))"

text \<open>The switch, after \<open>xpc = pc; pc = npc; npc = pc + 4\<close>.\<close>

definition host_execute ::
  "(interpreter \<Rightarrow> run_result) \<Rightarrow> 32 word \<Rightarrow> 32 word \<Rightarrow> interpreter \<Rightarrow> run_result" where
  "host_execute sys xpc i S =
     (let a = Reg S (i_rs i); b = Reg S (i_rt i); sett = (\<lambda>v. Inr (set_Reg (i_rt i) v S));
          target = (xpc AND 0xf0000000) OR push_bit 2 (i AND 0x03ffffff);
          oc = normal_opcodes ! unat (signed_drop_bit 26 i AND 0x3f) in
      case oc of
        I_SPECIAL \<Rightarrow> host_special sys xpc i S
      | I_BCOND \<Rightarrow> host_bcond xpc i S
      | I_J \<Rightarrow> Inr (S\<lparr>host_npc := target\<rparr>)
      | I_JAL \<Rightarrow> Inr (set_Reg 31 (xpc + 8) S\<lparr>host_npc := target\<rparr>)
      | I_BEQ \<Rightarrow> Inr (branch (a = b) xpc i S)
      | I_BNE \<Rightarrow> Inr (branch (a \<noteq> b) xpc i S)
      | I_BLEZ \<Rightarrow> Inr (branch (a \<le>s 0) xpc i S)
      | I_BGTZ \<Rightarrow> Inr (branch (0 <s a) xpc i S)
      | I_ADDI \<Rightarrow> sett (a + immed i)
      | I_ADDIU \<Rightarrow> sett (a + immed i)
      | I_SLTI \<Rightarrow> sett (if a <s immed i then 1 else 0)
      | I_SLTIU \<Rightarrow> sett (if a < immed i then 1 else 0)
      | I_ANDI \<Rightarrow> sett (a AND immed i)
      | I_ORI \<Rightarrow> sett (a OR immed i)
      | I_XORI \<Rightarrow> sett (a XOR immed i)
      | I_LUI \<Rightarrow> sett (push_bit 16 i)
      | I_SWL \<Rightarrow> Inl (Exited 2)
      | I_SWR \<Rightarrow> Inl (Exited 2)
      | I_COPROC \<Rightarrow> Inl (Exited 2)
      | I_NONE \<Rightarrow> Inl (Exited 2)
      | _ \<Rightarrow> host_memory oc i S)"

text \<open>One turn of the endless loop of \<open>runprogram\<close>.\<close>

definition host_step :: "(interpreter \<Rightarrow> run_result) \<Rightarrow> interpreter \<Rightarrow> run_result" where
  "host_step sys S =
     (let xpc = host_pc S; S = S\<lparr>host_pc := host_npc S, host_npc := host_npc S + 4\<rparr> in
      ebind (fetch xpc S) (\<lambda>i.
      let S = set_Reg 0 0 S in
      if i = 0 then Inr S else host_execute sys xpc i S))"

text \<open>Before the loop: the stack pointer, and the arguments on the stack, as pointers and strings.\<close>

fun store_args :: "32 word \<Rightarrow> 32 word \<Rightarrow> byte list list \<Rightarrow> interpreter \<Rightarrow> run_result" where
  "store_args aci ai [] S = Inr S"
| "store_args aci ai (str # strs) S =
     ebind (host_store ai (str @ [0]) S) (\<lambda>S.
     ebind (host_store aci (word_bytes ai) S) (\<lambda>S.
     store_args (aci + 4) (ai + word_of_nat (length str + 1)) strs S))"

definition runprogram_start :: "32 word \<Rightarrow> byte list list \<Rightarrow> interpreter \<Rightarrow> run_result" where
  "runprogram_start startpc argv S =
     (let i = word_of_int (MEMSIZE - 1024 + memoffset);
          S = set_Reg 29 i (S\<lparr>host_pc := startpc, host_npc := startpc + 4\<rparr>) in
      ebind (host_store i (word_bytes (word_of_nat (length argv))) S) (store_args (i + 4) (i + 36) argv))"

text \<open>\<open>runprogram\<close>, which never returns: it ends, when it ends, by a stop.\<close>

partial_function (option) host_loop :: "(interpreter \<Rightarrow> run_result) \<Rightarrow> interpreter \<Rightarrow> host_stop option" where
  "host_loop sys S = (case host_step sys S of Inl stop \<Rightarrow> Some stop | Inr S' \<Rightarrow> host_loop sys S')"

definition runprogram ::
  "(interpreter \<Rightarrow> run_result) \<Rightarrow> 32 word \<Rightarrow> byte list list \<Rightarrow> interpreter \<Rightarrow> host_stop option" where
  "runprogram sys startpc argv S =
     (case runprogram_start startpc argv S of Inl stop \<Rightarrow> Some stop | Inr S' \<Rightarrow> host_loop sys S')"

subsection \<open>System calls, bin/system.c\<close>

text \<open>
  \<open>host\<close> is the operating system below: what a call with this number and these arguments returns, and what it does
  to the memory of the program, into which \<open>u_to_int_addr\<close> points. \<open>u_to_int_fd\<close> is the identity, and
  \<open>printstatistics\<close> has no statements left.
\<close>

definition system_trap :: "(nat \<Rightarrow> 32 word list \<Rightarrow> byte list \<Rightarrow> 32 word \<times> byte list) \<Rightarrow> interpreter \<Rightarrow> run_result" where
  "system_trap host S =
     (let syscallno = sint (Reg S 2); o0 = Reg S 4; o1 = Reg S 5; o2 = Reg S 6;
          ret = (\<lambda>v. Inr (set_Reg 1 v S));
          call = (\<lambda>n os. let (v, m) = host n os (host_mem S) in Inr (set_Reg 1 v (S\<lparr>host_mem := m\<rparr>))) in
      if syscallno = 1 then Inl (Exited 0)
      else if syscallno = 3 then call 3 [o0, o1, o2]
      else if syscallno = 4 then call 4 [o0, o1, o2]
      else if syscallno = 5 then call 5 [o0, o1, o2]
      else if syscallno = 6 then ret 0
      else if syscallno = 17 then ret (word_of_int ((sint o0 sdiv 8192 + 1) * 8192))
      else if syscallno = 19 then call 19 [o0, o1, o2]
      else if syscallno = 54 then
        let size = signed_drop_bit 16 o1 AND 0x7f;
            o1' = (if signed_drop_bit 8 o1 AND 0xff = 0x74 \<and> size = 8 then (o1 AND NOT 0x7f0000) OR 0x60000 else o1)
        in ebind (call 54 [o0, o1', o2]) (\<lambda>S. Inr (set_Reg 1 0 S))
      else if syscallno = 62 then call 62 [o1, o2]
      else if syscallno = 64 then call 64 []
      else Inl (Exited 2))"

subsection \<open>Base-two logarithm\<close>

text \<open>\<open>ilog2\<close>: five halvings of the word.\<close>

definition halve :: "32 word \<Rightarrow> nat \<Rightarrow> 32 word \<times> nat \<Rightarrow> 32 word \<times> nat" where
  "halve m n = (\<lambda>(i, l). let j = i AND m in if j \<noteq> 0 then (j, l + n) else (i, l))"

definition ilog2 :: "32 word \<Rightarrow> nat" where
  "ilog2 i =
     (if i = 0 then 0
      else snd (halve 0xaaaaaaaa 1 (halve 0xcccccccc 2 (halve 0xf0f0f0f0 4 (halve 0xff00ff00 8 (halve 0xffff0000 16 (i, 1)))))))"

end
