(* ===== verification/Interpreters_Agree.thy ===== *)
theory Interpreters_Agree
  imports Host_Interpreter
begin

section \<open>Where the two MIPS interpreters agree\<close>

text \<open>
  \<open>bin/execute.c\<close> and \<open>machine/mipssim.cc\<close> interpret the same instruction set, and were written apart. Here
  they run side by side on related states.
\<close>

subsection \<open>The two decoders\<close>

text \<open>The same instruction in the tables of \<open>mipssim.cc\<close>, which has no coprocessor and no BREAK.\<close>

fun op_of :: "host_op \<Rightarrow> OpCode" where
  "op_of I_SPECIAL = SPECIAL" | "op_of I_BCOND = BCOND" | "op_of I_J = OP_J" | "op_of I_JAL = OP_JAL"
| "op_of I_BEQ = OP_BEQ" | "op_of I_BNE = OP_BNE" | "op_of I_BLEZ = OP_BLEZ" | "op_of I_BGTZ = OP_BGTZ"
| "op_of I_ADDI = OP_ADDI" | "op_of I_ADDIU = OP_ADDIU" | "op_of I_SLTI = OP_SLTI" | "op_of I_SLTIU = OP_SLTIU"
| "op_of I_ANDI = OP_ANDI" | "op_of I_ORI = OP_ORI" | "op_of I_XORI = OP_XORI" | "op_of I_LUI = OP_LUI"
| "op_of I_COPROC = OP_UNIMP" | "op_of I_LB = OP_LB" | "op_of I_LH = OP_LH" | "op_of I_LWL = OP_LWL"
| "op_of I_LW = OP_LW" | "op_of I_LBU = OP_LBU" | "op_of I_LHU = OP_LHU" | "op_of I_LWR = OP_LWR"
| "op_of I_SB = OP_SB" | "op_of I_SH = OP_SH" | "op_of I_SWL = OP_SWL" | "op_of I_SW = OP_SW" | "op_of I_SWR = OP_SWR"
| "op_of I_SLL = OP_SLL" | "op_of I_SRL = OP_SRL" | "op_of I_SRA = OP_SRA" | "op_of I_SLLV = OP_SLLV"
| "op_of I_SRLV = OP_SRLV" | "op_of I_SRAV = OP_SRAV" | "op_of I_JR = OP_JR" | "op_of I_JALR = OP_JALR"
| "op_of I_SYSCALL = OP_SYSCALL" | "op_of I_BREAK = OP_UNIMP" | "op_of I_MFHI = OP_MFHI" | "op_of I_MTHI = OP_MTHI"
| "op_of I_MFLO = OP_MFLO" | "op_of I_MTLO = OP_MTLO" | "op_of I_MULT = OP_MULT" | "op_of I_MULTU = OP_MULTU"
| "op_of I_DIV = OP_DIV" | "op_of I_DIVU = OP_DIVU" | "op_of I_ADD = OP_ADD" | "op_of I_ADDU = OP_ADDU"
| "op_of I_SUB = OP_SUB" | "op_of I_SUBU = OP_SUBU" | "op_of I_AND = OP_AND" | "op_of I_OR = OP_OR"
| "op_of I_XOR = OP_XOR" | "op_of I_NOR = OP_NOR" | "op_of I_SLT = OP_SLT" | "op_of I_SLTU = OP_SLTU"
| "op_of I_BLTZ = OP_BLTZ" | "op_of I_BGEZ = OP_BGEZ" | "op_of I_BLTZAL = OP_BLTZAL" | "op_of I_BGEZAL = OP_BGEZAL"
| "op_of I_NONE = OP_RES"

lemma tables_agree: "map op_of normal_opcodes = map fst opTable" "map op_of special_opcodes = specialTable"
  by (simp_all add: normal_opcodes_def opTable_def special_opcodes_def specialTable_def numeral_eq_Suc)

text \<open>The operation of a word, through the three switches.\<close>

definition host_opcode :: "32 word \<Rightarrow> host_op" where
  "host_opcode i =
     (let oc = normal_opcodes ! unat (signed_drop_bit 26 i AND 0x3f) in
      if oc = I_SPECIAL then special_opcodes ! unat (i AND 0x3f)
      else if oc = I_BCOND then bcond_opcode (i_rt i) else oc)"

lemma field_bits: "n + LENGTH(5) \<le> 32 \<Longrightarrow> signed_drop_bit n w AND 0x1f = drop_bit n w AND 0x1f" for w :: "32 word"
proof -
  assume n: "n + LENGTH(5) \<le> 32"
  have m: "(0x1f :: 32 word) = mask 5" by (simp add: mask_eq_exp_minus_1)
  show ?thesis
    unfolding m using n by (intro bit_word_eqI) (auto simp: bit_and_iff bit_mask_iff bit_signed_drop_bit_iff bit_drop_bit_eq min_def)
qed


subsection \<open>Fields\<close>

lemma host_fields: "i_rs w = rs (Decode w)" "i_rt w = rt (Decode w)" "i_rd w = rd (Decode w)"
  by (simp_all add: i_rs_def i_rt_def i_rd_def Decode_def field_bits case_prod_beta)

lemma opcode_field: "signed_drop_bit 26 w AND 0x3f = drop_bit 26 w AND 0x3f" for w :: "32 word"
proof -
  have m: "(0x3f :: 32 word) = mask 6" by (simp add: mask_eq_exp_minus_1)
  show ?thesis
    unfolding m by (intro bit_word_eqI) (auto simp: bit_and_iff bit_mask_iff bit_signed_drop_bit_iff bit_drop_bit_eq min_def)
qed

lemma immed_extends: "immed w = signed_take_bit 15 w"
proof -
  have s: "w AND 0x8000 \<noteq> 0 \<longleftrightarrow> bit w 15"
    using half_sign [of w] unfolding and.assoc by simp
  have m: "(0x7fff :: 32 word) = mask 15" "(- 0x8000 :: 32 word) = NOT (mask 15)"
    by (simp_all add: mask_eq_exp_minus_1 not_eq_complement)
  show ?thesis
    unfolding immed_def s m
    by (intro bit_word_eqI) (auto simp: bit_or_iff bit_and_iff bit_not_iff bit_mask_iff bit_signed_take_bit_iff min_def)
qed

lemma bcond_field:
  fixes w c :: "32 word"
  assumes "c = 0 \<or> c = 1 \<or> c = 0x10 \<or> c = 0x11"
  shows "w AND 0x1f0000 = push_bit 16 c \<longleftrightarrow> drop_bit 16 w AND 0x1f = c"
proof
  assume "w AND 0x1f0000 = push_bit 16 c"
  then have "drop_bit 16 (w AND 0x1f0000) = drop_bit 16 (push_bit 16 c)" by simp
  then show "drop_bit 16 w AND 0x1f = c" using assms by (auto simp: drop_bit_and)
next
  have e: "w AND 0x1f0000 = push_bit 16 (drop_bit 16 w AND 0x1f)"
  proof -
    have m: "(0x1f0000 :: 32 word) = push_bit 16 (mask 5)" "(0x1f :: 32 word) = mask 5"
      by (simp_all add: push_bit_eq_mult mask_eq_exp_minus_1)
    show ?thesis
      unfolding m by (intro bit_word_eqI) (auto simp: bit_and_iff bit_mask_iff bit_push_bit_iff bit_drop_bit_eq)
  qed
  show "w AND 0x1f0000 = push_bit 16 c" if "drop_bit 16 w AND 0x1f = c"
    unfolding e that ..
qed

lemma bcond_agree:
  "decode_op BCOND w = (if bcond_opcode (i_rt w) = I_NONE then OP_UNIMP else op_of (bcond_opcode (i_rt w)))"
proof -
  have u: "unat x = 0 \<longleftrightarrow> x = 0" "unat x = Suc 0 \<longleftrightarrow> x = 1" "unat x = 16 \<longleftrightarrow> x = 0x10" "unat x = 17 \<longleftrightarrow> x = 0x11" for x :: "32 word"
    by (simp_all add: word_unat_eq_iff)
  note b = bcond_field [where c = 0 and w = w] bcond_field [where c = 1 and w = w] bcond_field [where c = "0x10" and w = w] bcond_field [where c = "0x11" and w = w]
  show ?thesis
    using b by (auto simp: bcond_opcode_def i_rt_def field_bits u decode_op_def split: if_splits)
qed

subsection \<open>Operations\<close>

definition selects :: "host_op \<Rightarrow> bool" where
  "selects oc \<longleftrightarrow> oc = I_SPECIAL \<or> oc = I_BCOND"

lemma opcode_entries:
  fixes w :: "32 word"
  assumes "n = unat (drop_bit 26 w AND 0x3f)"
  shows "op_of (normal_opcodes ! n) = fst (opTable ! n)"
proof -
  have "n < length opTable" using six_bits [of "drop_bit 26 w"] assms by (simp add: opTable_entries(1))
  moreover from this have "n < length normal_opcodes"
    using tables_agree(1) by (metis length_map)
  ultimately show ?thesis using tables_agree(1) by (metis nth_map)
qed

lemma special_entries: "op_of (special_opcodes ! unat (w AND 0x3f)) = specialTable ! unat (w AND 0x3f)" for w :: "32 word"
proof -
  have "unat (w AND 0x3f) < length specialTable" using six_bits [of w] by (simp add: specialTable_entries(1))
  moreover from this have "unat (w AND 0x3f) < length special_opcodes"
    using tables_agree(2) by (metis length_map)
  ultimately show ?thesis using tables_agree(2) by (metis nth_map)
qed

lemma op_of_selects: "op_of oc = SPECIAL \<longleftrightarrow> oc = I_SPECIAL" "op_of oc = BCOND \<longleftrightarrow> oc = I_BCOND"
  by (cases oc; simp)+

text \<open>Both decoders find the same operation.\<close>

lemma decoders_agree:
  assumes "host_opcode w \<noteq> I_NONE"
  shows "op_of (host_opcode w) = opCode (Decode w)"
  using assms opcode_entries [OF refl, of w] special_entries [of w] bcond_agree [of w]
  by (auto simp: host_opcode_def Decode_def decode_op_def case_prod_beta opcode_field op_of_selects Let_def split: if_splits
    simp flip: op_of_selects)

lemma decoders_none:
  assumes "host_opcode w = I_NONE"
  shows "opCode (Decode w) \<in> {OP_RES, OP_UNIMP}"
  using assms opcode_entries [OF refl, of w] special_entries [of w] bcond_agree [of w]
  by (auto simp: host_opcode_def Decode_def decode_op_def case_prod_beta opcode_field Let_def split: if_splits)

lemma normal_entries: "normal_opcodes ! unat (drop_bit 26 w AND 0x3f) \<in> set normal_opcodes" for w :: "32 word"
proof (rule nth_mem)
  have "unat (drop_bit 26 w AND 0x3f) < 64" by (rule six_bits)
  then show "unat (drop_bit 26 w AND 0x3f) < length normal_opcodes" by (simp add: normal_opcodes_def)
qed

lemma special_in_table: "special_opcodes ! unat (w AND 0x3f) \<in> set special_opcodes" for w :: "32 word"
proof (rule nth_mem)
  have "unat (w AND 0x3f) < 64" by (rule six_bits)
  then show "unat (w AND 0x3f) < length special_opcodes" by (simp add: special_opcodes_def)
qed

lemma formats:
  fixes w :: "32 word"
  assumes "n = unat (drop_bit 26 w AND 0x3f)"
  shows "snd (opTable ! n) = (if normal_opcodes ! n = I_SPECIAL then RFMT
    else if normal_opcodes ! n = I_J \<or> normal_opcodes ! n = I_JAL then JFMT else IFMT)"
proof -
  have "list_all (\<lambda>(oc, f). f = (if oc = SPECIAL then RFMT else if oc = OP_J \<or> oc = OP_JAL then JFMT else IFMT)) opTable"
    by (simp add: opTable_def)
  moreover have "n < length opTable" using six_bits [of "drop_bit 26 w"] assms by (simp add: opTable_entries(1))
  ultimately have "snd (opTable ! n) = (let oc = fst (opTable ! n) in
      if oc = SPECIAL then RFMT else if oc = OP_J \<or> oc = OP_JAL then JFMT else IFMT)"
    by (simp add: list_all_length case_prod_beta Let_def)
  moreover have "op_of oc = OP_J \<longleftrightarrow> oc = I_J" "op_of oc = OP_JAL \<longleftrightarrow> oc = I_JAL" for oc
    by (cases oc; simp)+
  ultimately show ?thesis
    by (simp only: Let_def opcode_entries [OF assms, symmetric] op_of_selects)
qed

lemma extra_field:
  "extra (Decode w) =
     (if normal_opcodes ! unat (drop_bit 26 w AND 0x3f) = I_SPECIAL then drop_bit 6 w AND 0x1f
      else if normal_opcodes ! unat (drop_bit 26 w AND 0x3f) \<in> {I_J, I_JAL} then w AND 0x3ffffff else immed w)"
  by (simp add: Decode_def case_prod_beta formats [OF refl] immed_extends immediate [symmetric]) (simp add: decode_extra_def)

text \<open>Which of the three switches handles an operation.\<close>

lemma switch_special:
  assumes "host_opcode w = oc" and "oc \<in> set special_opcodes" and "oc \<noteq> I_NONE"
  shows "host_execute sys xpc w S = host_special sys xpc w S" and "special_opcodes ! unat (w AND 0x3f) = oc"
    and "unat (extra (Decode w)) = shamt w"
proof -
  have "oc \<notin> set normal_opcodes" "oc \<notin> {I_BLTZ, I_BGEZ, I_BLTZAL, I_BGEZAL}"
    using assms(2,3) by (auto simp: special_opcodes_def normal_opcodes_def)
  then have "normal_opcodes ! unat (drop_bit 26 w AND 0x3f) = I_SPECIAL" "special_opcodes ! unat (w AND 0x3f) = oc"
    using assms(1,3) normal_entries [of w]
    by (auto simp: host_opcode_def opcode_field Let_def bcond_opcode_def split: if_splits)
  then show "host_execute sys xpc w S = host_special sys xpc w S" "special_opcodes ! unat (w AND 0x3f) = oc"
    "unat (extra (Decode w)) = shamt w"
    by (simp_all add: host_execute_def opcode_field extra_field shamt_def field_bits)
qed

lemma switch_bcond:
  assumes "host_opcode w = oc" and "oc \<in> {I_BLTZ, I_BGEZ, I_BLTZAL, I_BGEZAL}"
  shows "host_execute sys xpc w S = host_bcond xpc w S" and "bcond_opcode (i_rt w) = oc" and "extra (Decode w) = immed w"
proof -
  have "oc \<notin> set normal_opcodes" "oc \<notin> set special_opcodes"
    using assms(2) by (auto simp: special_opcodes_def normal_opcodes_def)
  then have "normal_opcodes ! unat (drop_bit 26 w AND 0x3f) = I_BCOND" "bcond_opcode (i_rt w) = oc"
    using assms(1) normal_entries [of w] special_in_table [of w]
    by (auto simp: host_opcode_def opcode_field Let_def split: if_splits)
  then show "host_execute sys xpc w S = host_bcond xpc w S" "bcond_opcode (i_rt w) = oc" "extra (Decode w) = immed w"
    by (simp_all add: host_execute_def opcode_field extra_field)
qed

lemma switch_normal:
  assumes "host_opcode w = oc" and "oc \<in> set normal_opcodes" and "oc \<noteq> I_NONE"
  shows "normal_opcodes ! unat (drop_bit 26 w AND 0x3f) = oc"
    and "extra (Decode w) = (if oc \<in> {I_J, I_JAL} then w AND 0x3ffffff else immed w)"
proof -
  have "oc \<notin> set special_opcodes" "oc \<notin> {I_BLTZ, I_BGEZ, I_BLTZAL, I_BGEZAL}"
    using assms(2,3) by (auto simp: special_opcodes_def normal_opcodes_def)
  then have n: "normal_opcodes ! unat (drop_bit 26 w AND 0x3f) = oc"
    using assms(1,3) special_in_table [of w]
    by (auto simp: host_opcode_def opcode_field Let_def bcond_opcode_def split: if_splits)
  then have "oc \<noteq> I_SPECIAL"
    using assms(1) special_in_table [of w] by (auto simp: host_opcode_def opcode_field Let_def special_opcodes_def)
  with n show "normal_opcodes ! unat (drop_bit 26 w AND 0x3f) = oc"
    "extra (Decode w) = (if oc \<in> {I_J, I_JAL} then w AND 0x3ffffff else immed w)"
    by (simp_all add: extra_field)
qed

subsection \<open>One operation in both\<close>

text \<open>
  The operands on which the two agree. They part where \<open>execute.c\<close> wraps and \<open>mipssim.cc\<close> traps, where
  \<open>mipssim.cc\<close> takes the sign of an unsigned shift or forgets the second operand of OR, where \<open>execute.c\<close>
  extends the sign of a logical immediate, and in the targets of jumps and branches out of a delay slot.
  Multiplication, memory and system calls are left out.
\<close>

definition in_common :: "Instruction \<Rightarrow> ('h, 'm) ukernel_scheme \<Rightarrow> bool" where
  "in_common i k \<longleftrightarrow>
     (let a = reg (rs i) k; b = reg (rt i) k; pc = reg PCReg k;
          straight = (reg NextPCReg k = pc + 4); oc = opCode i in
      if oc \<in> {OP_SLL, OP_SRA, OP_MFHI, OP_MTHI, OP_MFLO, OP_MTLO, OP_ADDU, OP_SUBU, OP_AND, OP_XOR, OP_NOR, OP_SLT, OP_SLTU,
                OP_JR, OP_ADDIU, OP_SLTI, OP_SLTIU, OP_LUI} then True
      else if oc = OP_ADD then in_range (sint a + sint b)
      else if oc = OP_ADDI then in_range (sint a + sint (extra i))
      else if oc = OP_SUB then in_range (sint a - sint b)
      else if oc = OP_SLLV \<or> oc = OP_SRAV then a < 32
      else if oc = OP_SRL then 0 \<le>s b
      else if oc = OP_SRLV then a < 32 \<and> 0 \<le>s b
      else if oc = OP_DIV then b \<noteq> 0 \<and> \<not> (a = SIGN_BIT \<and> b = - 1)
      else if oc = OP_DIVU then b \<noteq> 0
      else if oc = OP_OR then a OR b = a
      else if oc \<in> {OP_ANDI, OP_ORI, OP_XORI} then 0 \<le>s extra i
      else if oc = OP_JALR then straight \<and> rd i \<noteq> rs i
      else if oc \<in> {OP_BEQ, OP_BNE, OP_BLEZ, OP_BGTZ, OP_BLTZ, OP_BGEZ, OP_BLTZAL, OP_BGEZAL} then straight
      else if oc \<in> {OP_J, OP_JAL} then straight \<and> pc AND 0xf0000000 = (pc + 8) AND 0xf0000000
      else False)"

definition same_registers :: "interpreter \<Rightarrow> ('h, 'm) ukernel_scheme \<Rightarrow> bool" where
  "same_registers S k \<longleftrightarrow> (\<forall>j. 0 < j \<and> j < NumGPRegs \<longrightarrow> Reg S j = reg j k) \<and> HI S = reg HiReg k \<and> LO S = reg LoReg k"

text \<open>The outcomes of the two switches, from \<open>S\<close> and \<open>k\<close>.\<close>

definition alike :: "interpreter \<Rightarrow> ('h, 'm) ukernel_scheme \<Rightarrow> run_result \<Rightarrow> ('h, 'm) ukernel_scheme flow result \<Rightarrow> bool" where
  "alike S k hr mr \<longleftrightarrow>
     (case (hr, mr) of
        (Inr S', Inr (Break k' pc r v)) \<Rightarrow>
          same_registers S' k' \<and> host_npc S' = pc \<and> host_pc S' = host_pc S \<and> host_mem S' = host_mem S \<and> r = 0 \<and> v = 0 \<and>
          mainMemory (mach k') = mainMemory (mach k) \<and>
          (\<forall>j. j = PCReg \<or> j = NextPCReg \<or> j = LoadReg \<longrightarrow> reg j k' = reg j k)
      | _ \<Rightarrow> False)"

lemma alike_Inr [simp]:
  "alike S k (Inr S') (Inr (Break k' pc r v)) \<longleftrightarrow>
     same_registers S' k' \<and> host_npc S' = pc \<and> host_pc S' = host_pc S \<and> host_mem S' = host_mem S \<and> r = 0 \<and> v = 0 \<and>
     mainMemory (mach k') = mainMemory (mach k) \<and>
     reg PCReg k' = reg PCReg k \<and> reg NextPCReg k' = reg NextPCReg k \<and> reg LoadReg k' = reg LoadReg k"
  by (auto simp: alike_def)

text \<open>Before the switch: the program counters have advanced in \<open>execute.c\<close> only, and register 0 is 0 in both.\<close>

definition paired :: "interpreter \<Rightarrow> ('h, 'm) ukernel_scheme \<Rightarrow> bool" where
  "paired S k \<longleftrightarrow> (\<forall>j < NumGPRegs. Reg S j = reg j k) \<and> HI S = reg HiReg k \<and> LO S = reg LoReg k \<and>
     host_pc S = reg NextPCReg k \<and> host_npc S = reg NextPCReg k + 4"

lemma paired_Reg:
  assumes "paired S k"
  shows "Reg S (rs (Decode w)) = reg (rs (Decode w)) k" "Reg S (rt (Decode w)) = reg (rt (Decode w)) k"
  using assms Decode_ok [of w] by (simp_all add: paired_def instr_ok_def)

lemma same_set:
  assumes "paired S k" and "d < NumGPRegs"
  shows "same_registers (set_Reg d v S) (set_reg d v k)"
  using assms by (auto simp: paired_def same_registers_def set_Reg_def reg_numbers)

lemma same_self: "paired S k \<Longrightarrow> same_registers S k"
  by (simp add: paired_def same_registers_def)

lemma dest: "rd (Decode w) < NumGPRegs" "rt (Decode w) < NumGPRegs"
  using Decode_ok [of w] by (simp_all add: instr_ok_def)

lemma logical_shift: "0 \<le>s b \<Longrightarrow> signed_drop_bit n b = drop_bit n b" for b :: "32 word"
proof -
  assume "0 \<le>s b"
  then have "\<not> bit b 31" by (simp add: bit_sign word_sle_eq)
  then show ?thesis
    by (intro bit_word_eqI) (auto simp: bit_signed_drop_bit_iff bit_drop_bit_eq min_def dest: bit_imp_le_length)
qed

lemma small_count: "a < 32 \<Longrightarrow> uint a < 32 \<and> a AND 0x1f = a" for a :: "32 word"
proof -
  assume a: "a < 32"
  have m: "(0x1f :: 32 word) = mask 5" by (simp add: mask_eq_exp_minus_1)
  have "take_bit 5 a = a"
    using a by (intro word_uint_eqI) (simp add: unsigned_take_bit_eq take_bit_int_eq_self word_less_def)
  then show ?thesis using a unfolding m by (simp add: word_less_def flip: take_bit_eq_mask)
qed

text \<open>The three switches.\<close>

lemma special_set: "set special_opcodes =
  {I_SLL, I_SRL, I_SRA, I_SLLV, I_SRLV, I_SRAV, I_JR, I_JALR, I_SYSCALL, I_BREAK, I_MFHI, I_MTHI, I_MFLO, I_MTLO,
   I_MULT, I_MULTU, I_DIV, I_DIVU, I_ADD, I_ADDU, I_SUB, I_SUBU, I_AND, I_OR, I_XOR, I_NOR, I_SLT, I_SLTU, I_NONE}"
  by (auto simp: special_opcodes_def)

lemma paired_rest:
  assumes "paired S k"
  shows "HI S = reg HiReg k" "LO S = reg LoReg k" "host_pc S = reg NextPCReg k" "host_npc S = reg NextPCReg k + 4"
  using assms by (simp_all add: paired_def)

lemma same_HI_LO:
  assumes "paired S k"
  shows "same_registers (S\<lparr>HI := v\<rparr>) (set_reg HiReg v k)" "same_registers (S\<lparr>LO := v\<rparr>) (set_reg LoReg v k)"
    "same_registers (S\<lparr>HI := v, LO := u\<rparr>) (set_reg HiReg v (set_reg LoReg u k))"
    "same_registers (S\<lparr>LO := u, HI := v\<rparr>) (set_reg HiReg v (set_reg LoReg u k))"
  using assms by (auto simp: paired_def same_registers_def reg_numbers)

lemma same_npc [simp]: "same_registers (S\<lparr>host_npc := v\<rparr>) k = same_registers S k"
  by (simp add: same_registers_def)

lemma set_Reg_frame [simp]:
  "host_pc (set_Reg d v S) = host_pc S" "host_npc (set_Reg d v S) = host_npc S" "host_mem (set_Reg d v S) = host_mem S"
  "HI (set_Reg d v S) = HI S" "LO (set_Reg d v S) = LO S" "set_Reg d v (S\<lparr>host_npc := u\<rparr>) = set_Reg d v S\<lparr>host_npc := u\<rparr>"
  by (simp_all add: set_Reg_def)

lemma dest_numbers:
  "rd (Decode w) < 32" "rt (Decode w) < 32"
  "rd (Decode w) \<noteq> 34" "rd (Decode w) \<noteq> 35" "rd (Decode w) \<noteq> 37" "rt (Decode w) \<noteq> 34" "rt (Decode w) \<noteq> 35" "rt (Decode w) \<noteq> 37"
  using dest [of w] by (auto simp: NumGPRegs_def)

text \<open>The facts that each switch needs, on a pair of states and a decoded word.\<close>

lemmas agree_simps = execute_def in_common_def Let_def alu_defs trap_defs host_fields add_overflow addi_overflow sub_overflow
  dest_numbers logical_shift host_shift_def small_count word_sless_alt host_div_def reg_numbers

lemma agree_special:
  assumes p: "paired S k" and oc: "host_opcode w = oc" "oc \<in> set special_opcodes" "oc \<noteq> I_NONE"
    and c: "in_common (Decode w) k"
  shows "alike S k (host_execute sys (reg PCReg k) w S) (execute eh (Decode w) (reg NextPCReg k + 4) k)"
proof -
  have op: "opCode (Decode w) = op_of oc" using decoders_agree [of w] oc by simp
  note sw = switch_special [OF oc]
  note s = sw(2,3) op paired_Reg [OF p] paired_rest [OF p] same_set [OF p] same_HI_LO [OF p] same_self [OF p]
    same_HI_LO [OF p, unfolded reg_numbers]
  have comm: "8 + x = x + 8" for x :: "32 word" by simp
  show ?thesis
    unfolding sw(1) using c oc(2,3)
    by (simp add: special_set, elim disjE) (auto simp: s host_special_def agree_simps comm)
qed

lemma Reg_set_Reg [simp]: "Reg (set_Reg d v S) j = (if j = d then v else Reg S j)"
  by (simp add: set_Reg_def)

lemma sign_clear: "v AND SIGN_BIT = 0 \<longleftrightarrow> 0 \<le> sint v"
  using sign_bit_iff [of v] by auto

lemma agree_bcond:
  assumes p: "paired S k" and oc: "host_opcode w = oc" "oc \<in> {I_BLTZ, I_BGEZ, I_BLTZAL, I_BGEZAL}"
    and c: "in_common (Decode w) k"
  shows "alike S k (host_execute sys (reg PCReg k) w S) (execute eh (Decode w) (reg NextPCReg k + 4) k)"
proof -
  have op: "opCode (Decode w) = op_of oc" using decoders_agree [of w] oc by auto
  note sw = switch_bcond [OF oc]
  note s = sw(2) [unfolded host_fields] sw(3) op paired_Reg [OF p] paired_rest [OF p] same_set [OF p] same_self [OF p]
  have comm: "8 + x = x + 8" for x :: "32 word" by simp
  show ?thesis
    unfolding sw(1) using c oc(2)
    by (simp, elim disjE)
      (auto simp: s host_bcond_def agree_simps branch_def R31_def IndexToAddr_def sign_clear word_sle_eq comm)
qed

lemma normal_set: "set normal_opcodes =
  {I_SPECIAL, I_BCOND, I_J, I_JAL, I_BEQ, I_BNE, I_BLEZ, I_BGTZ, I_ADDI, I_ADDIU, I_SLTI, I_SLTIU, I_ANDI, I_ORI, I_XORI, I_LUI,
   I_COPROC, I_NONE, I_LB, I_LH, I_LWL, I_LW, I_LBU, I_LHU, I_LWR, I_SB, I_SH, I_SWL, I_SW, I_SWR}"
  by (auto simp: normal_opcodes_def)

lemma immed_positive: "0 \<le> sint (immed w) \<Longrightarrow> immed w AND 0xffff = immed w"
proof -
  assume "0 \<le> sint (immed w)"
  moreover have "bit (immed w) 31 = bit w 15" by (simp add: immed_extends bit_signed_take_bit_iff)
  ultimately have "\<not> bit w 15" by (simp add: bit_sign)
  then show ?thesis
    unfolding immed_extends
    by (intro bit_word_eqI) (auto simp: bit_and_iff bit_signed_take_bit_iff bit_low_half min_def split: if_splits)
qed

lemma immed_high: "push_bit 16 (immed w) = push_bit 16 w"
proof (rule bit_word_eqI)
  fix n assume n: "n < LENGTH(32)"
  show "bit (push_bit 16 (immed w)) n = bit (push_bit 16 w) n"
  proof (cases "n = 31")
    case False
    then have "n - 16 < 15" using n by simp
    then show ?thesis by (simp add: immed_extends bit_push_bit_iff bit_signed_take_bit_iff min_def)
  qed (simp add: immed_extends bit_push_bit_iff bit_signed_take_bit_iff)
qed

lemma agree_normal:
  assumes p: "paired S k" and oc: "host_opcode w = oc" "oc \<in> set normal_opcodes" "oc \<noteq> I_NONE"
    and c: "in_common (Decode w) k"
  shows "alike S k (host_execute sys (reg PCReg k) w S) (execute eh (Decode w) (reg NextPCReg k + 4) k)"
proof -
  have op: "opCode (Decode w) = op_of oc" using decoders_agree [of w] oc by simp
  note sw = switch_normal [OF oc]
  note s = sw op paired_Reg [OF p] paired_rest [OF p] same_set [OF p] same_self [OF p]
  have comm: "8 + x = x + 8" for x :: "32 word" by simp
  show ?thesis
    using c oc(2,3)
    by (simp add: normal_set, elim disjE)
      (auto simp: s host_execute_def opcode_field agree_simps branch_def R31_def IndexToAddr_def word_sle_eq comm
        immed_positive immed_high)
qed

subsection \<open>One step of both\<close>

lemma switches_agree:
  assumes p: "paired S k" and c: "in_common (Decode w) k"
  shows "alike S k (host_execute sys (reg PCReg k) w S) (execute eh (Decode w) (reg NextPCReg k + 4) k)"
proof -
  have n: "host_opcode w \<noteq> I_NONE"
  proof
    assume "host_opcode w = I_NONE"
    then have "opCode (Decode w) \<in> {OP_RES, OP_UNIMP}" by (rule decoders_none)
    with c show False by (auto simp: in_common_def Let_def)
  qed
  have "host_opcode w \<in> set special_opcodes \<or> host_opcode w \<in> {I_BLTZ, I_BGEZ, I_BLTZAL, I_BGEZAL} \<or>
      host_opcode w \<in> set normal_opcodes"
    using n normal_entries [of w] special_in_table [of w]
    by (auto simp: host_opcode_def opcode_field Let_def bcond_opcode_def split: if_splits)
  then show ?thesis
    using agree_special [OF p refl _ n c] agree_bcond [OF p refl _ c] agree_normal [OF p refl _ n c] by blast
qed

text \<open>Both are about to execute the instruction at the same address, with the same registers, and no load is pending.\<close>

definition at_same_point :: "interpreter \<Rightarrow> ('h, 'm) ukernel_scheme \<Rightarrow> bool" where
  "at_same_point S k \<longleftrightarrow> same_registers S k \<and> host_pc S = reg PCReg k \<and> host_npc S = reg NextPCReg k \<and> reg LoadReg k = 0"

lemma fetch_counters: "fetch a (S\<lparr>host_pc := x, host_npc := y\<rparr>) = fetch a S"
  by (simp add: fetch_def host_load_def Let_def)

lemma paired_start:
  assumes "at_same_point S k" and "reg 0 k = 0"
  shows "paired (set_Reg 0 0 (S\<lparr>host_pc := host_npc S, host_npc := host_npc S + 4\<rparr>)) k"
  using assms by (auto simp: at_same_point_def same_registers_def paired_def set_Reg_def)

text \<open>After the switch of \<open>mipssim.cc\<close>: the idle delayed load, then the program counters.\<close>

lemma after_break:
  assumes "alike S k (Inr S') (Inr (Break k' pc r v))" and "paired S k" and "reg LoadReg k = 0"
  shows "\<exists>k''. rbind (DelayedLoad (word_of_nat r) v k') (\<lambda>k.
      let k = set_reg PrevPCReg (reg PCReg k) k; k = set_reg PCReg (reg NextPCReg k) k in
      Inr (set_reg NextPCReg pc k)) = Inr k'' \<and>
    at_same_point S' k'' \<and> mainMemory (mach k'') = mainMemory (mach k)"
  using assms by (auto simp: DelayedLoad_def Let_def reg_numbers at_same_point_def same_registers_def paired_def)

lemma no_op:
  assumes "paired S k"
  shows "alike S k (Inr S) (execute eh (Decode 0) (reg NextPCReg k + 4) k)"
proof -
  have d: "opCode (Decode 0) = OP_SLL" "rd (Decode 0) = 0"
    by (simp_all add: Decode_def decode_op_def opTable_def specialTable_def)
  show ?thesis
    using assms by (auto simp: execute_def d exec_SLL_def same_registers_def paired_def reg_numbers)
qed

lemma step_agrees:
  assumes ok: "mach_ok k" and pt: "at_same_point S k"
    and host: "fetch (host_pc S) S = Inr w" and mips: "ReadMem eh (reg PCReg k) 4 k = Inr (Some w, k1)"
    and c: "in_common (Decode w) k"
  shows "\<exists>S' k'. host_step sys S = Inr S' \<and> OneInstruction eh k = Inr k' \<and> at_same_point S' k' \<and>
    host_mem S' = host_mem S \<and> mainMemory (mach k') = mainMemory (mach k)"
proof -
  define S1 where "S1 = set_Reg 0 0 (S\<lparr>host_pc := host_npc S, host_npc := host_npc S + 4\<rparr>)"
  define hr where "hr = (if w = 0 then Inr S1 else host_execute sys (reg PCReg k) w S1)"
  have m: "mach k1 = mach k" by (rule ReadMem_Some_mach [OF ok mips])
  have "paired S1 k"
    unfolding S1_def by (rule paired_start [OF pt]) (use ok in \<open>simp add: mach_ok_def\<close>)
  then have p: "paired S1 k1" unfolding paired_def m .
  have "in_common (Decode w) k1" using c m by (simp add: in_common_def)
  then have a: "alike S1 k1 hr (execute eh (Decode w) (reg NextPCReg k1 + 4) k1)"
    using switches_agree [OF p, of w sys eh] no_op [OF p, of eh] by (simp add: hr_def m)
  then obtain S' k' pc r v where e: "hr = Inr S'" "execute eh (Decode w) (reg NextPCReg k1 + 4) k1 = Inr (Break k' pc r v)"
    by (auto simp: alike_def split: sum.splits flow.splits)
  have "reg LoadReg k1 = 0" using pt m by (simp add: at_same_point_def)
  from after_break [OF a [unfolded e] p this] obtain k'' where
    "OneInstruction eh k = Inr k''" "at_same_point S' k''" "mainMemory (mach k'') = mainMemory (mach k1)"
    by (auto simp: OneInstruction_def mips e(2))
  moreover have "host_step sys S = hr"
    using host pt by (simp add: host_step_def fetch_counters Let_def hr_def S1_def at_same_point_def)
  ultimately show ?thesis
    using a e m by (auto simp: S1_def)
qed

subsection \<open>The property\<close>

text \<open>
  C14: The two interpreters agree: about to execute the same instruction with the same registers and no load pending,
  on an operation and operands that the two treat alike, one turn of the loop of \<open>execute.c\<close> and one
  \<open>OneInstruction\<close> of the kernel's machine both complete, with the same registers, the same program counter
  and next program counter, and memory unchanged.
\<close>

theorem interpreters_agree:
  assumes "mach_ok k" and "at_same_point S k"
    and "fetch (host_pc S) S = Inr w" and "ReadMem eh (reg PCReg k) 4 k = Inr (Some w, k1)"
    and "in_common (Decode w) k"
  shows "\<exists>S' k'. host_step sys S = Inr S' \<and> OneInstruction eh k = Inr k' \<and> at_same_point S' k' \<and>
    host_mem S' = host_mem S \<and> mainMemory (mach k') = mainMemory (mach k)"
  by (rule step_agrees [OF assms])

text \<open>
  The word 0x00430821 is ADDU r1,r2,r3. \<open>execute.c\<close> loads programs at 0x10000000, so the machine maps that page,
  through its TLB.
\<close>

definition addu_tlb :: "TranslationEntry list" where
  "addu_tlb = replicate 4 \<lparr>virtualPage = 0x200000, physicalPage = 3, valid = True, readOnly = False, used = False, dirty = False\<rparr>"

definition addu_machine :: "(unit, unit) ukernel_scheme" where
  "addu_machine = kernel.extend Initialize (ukernel.fields
     \<lparr>mainMemory = replicate 384 0 @ word_bytes 0x00430821 @ replicate 3708 0,
      registers = (\<lambda>_. 0)(2 := 4, 3 := 8, PCReg := 0x10000000, NextPCReg := 0x10000004),
      tlb = Some 1, pageTable = None, pageTableSize = 0, singleStep = False, runUntilTime = 0\<rparr>
     [1 \<mapsto> addu_tlb] (\<lambda>_ _. 0))"

definition addu_host :: interpreter where
  "addu_host = \<lparr>Reg = (\<lambda>_. 0)(2 := 4, 3 := 8), HI = 0, LO = 0, host_mem = word_bytes 0x00430821,
     host_pc = 0x10000000, host_npc = 0x10000004\<rparr>"

lemma addu_machine_simps [simp]:
  "mach addu_machine = \<lparr>mainMemory = replicate 384 0 @ word_bytes 0x00430821 @ replicate 3708 0,
      registers = (\<lambda>_. 0)(2 := 4, 3 := 8, PCReg := 0x10000000, NextPCReg := 0x10000004),
      tlb = Some 1, pageTable = None, pageTableSize = 0, singleStep = False, runUntilTime = 0\<rparr>"
  "tables addu_machine = [1 \<mapsto> addu_tlb]"
  by (simp_all add: addu_machine_def kernel.defs ukernel.defs)

lemma addu_machine_ok: "mach_ok addu_machine"
  by (simp add: mach_ok_def translation_ok_def reg_numbers page_sizes addu_tlb_def)

lemma addu_fetch: "\<exists>k1. ReadMem ExceptionHandler 0x10000000 4 addu_machine = Inr (Some 0x00430821, k1)"
proof -
  let ?e = "\<lparr>virtualPage = 0x200000, physicalPage = 3, valid = True, readOnly = False, used = False, dirty = False\<rparr>"
  have f: "find_entry (0x10000000 div 128) addu_machine = Inr (Inr (1, 0))"
    by (simp add: find_entry_def entry_at_def addu_tlb_def TLBSize_def find_range.simps [of 0])
  have "translation_ok addu_machine" using addu_machine_ok by (simp add: mach_ok_def)
  moreover have "(4::int) = 1 \<or> (4::int) = 2 \<or> (4::int) = 4" by simp
  ultimately have "\<exists>k1. Translate 0x10000000 4 False addu_machine = Inr (NoException, Some (physical ?e 0x10000000), k1)"
    using Translate_found [of addu_machine 4 "0x10000000" 1 0 ?e False] f
    by (simp add: entry_at_def addu_tlb_def)
  then obtain k1 where t: "Translate 0x10000000 4 False addu_machine = Inr (NoException, Some 384, k1)"
    by (auto simp: physical_def)
  have "take 4 (drop 384 (mainMemory (mach addu_machine))) = word_bytes 0x00430821" by simp
  with ReadMem_hit [OF addu_machine_ok _ t, of ExceptionHandler] show ?thesis
    by (simp add: load_bytes_def WordToHost_def)
qed

theorem interpreters_agree_witness:
  "\<exists>S' k'. host_step (\<lambda>_. Inl (Exited 2)) addu_host = Inr S' \<and> OneInstruction ExceptionHandler addu_machine = Inr k' \<and>
    at_same_point S' k' \<and> host_pc S' = 0x10000004 \<and> Reg S' 1 = 12 \<and> reg 1 k' = 12"
proof -
  have d: "opCode (Decode 0x00430821) = OP_ADDU"
    by (simp add: Decode_def decode_op_def opTable_def specialTable_def)
  have pt: "at_same_point addu_host addu_machine"
    by (simp add: at_same_point_def same_registers_def addu_host_def reg_numbers)
  have h: "fetch (host_pc addu_host) addu_host = Inr 0x00430821"
    by (simp add: fetch_def host_load_def addu_host_def memoffset_def)
  obtain k1 where f: "ReadMem ExceptionHandler (reg PCReg addu_machine) 4 addu_machine = Inr (Some 0x00430821, k1)"
    using addu_fetch by (auto simp: reg_numbers)
  have c: "in_common (Decode 0x00430821) addu_machine" by (simp add: in_common_def d)
  from interpreters_agree [OF addu_machine_ok pt h f c, of "\<lambda>_. Inl (Exited 2)"] obtain S' k' where
    s: "host_step (\<lambda>_. Inl (Exited 2)) addu_host = Inr S'" "OneInstruction ExceptionHandler addu_machine = Inr k'"
      "at_same_point S' k'" by blast
  moreover have "host_pc S' = 0x10000004 \<and> Reg S' 1 = 12"
    using s(1) h
    by (simp add: host_step_def fetch_counters Let_def host_execute_def host_special_def normal_opcodes_def
      special_opcodes_def i_rs_def i_rt_def i_rd_def) (auto simp: addu_host_def set_Reg_def)
  moreover have "reg 1 k' = Reg S' 1" using s(3) by (simp add: at_same_point_def same_registers_def NumGPRegs_def)
  ultimately show ?thesis by auto
qed

end
