(* ===== verification/Host_Log.thy ===== *)
theory Host_Log
  imports Host_Interpreter
begin

section \<open>The logarithm of bin/execute.c\<close>

text \<open>\<open>ilog2\<close> halves the word five times by a mask that keeps the positions with one bit of their number set.\<close>

definition top_bit :: "32 word \<Rightarrow> nat \<Rightarrow> bool" where
  "top_bit i h \<longleftrightarrow> bit i h \<and> (\<forall>n. bit i n \<longrightarrow> n \<le> h)"

text \<open>The positions of the bits left agree with the highest above bit \<open>b\<close> of the position.\<close>

definition agree_above :: "nat \<Rightarrow> 32 word \<Rightarrow> nat \<Rightarrow> bool" where
  "agree_above b i h \<longleftrightarrow> (\<forall>n. bit i n \<longrightarrow> n div 2 ^ b = h div 2 ^ b)"

lemma div_step: "n div 2 ^ b = 2 * (n div 2 ^ Suc b) + of_bool (bit n b)" for n :: nat
proof -
  have "n div 2 ^ Suc b = n div 2 ^ b div 2" by (simp only: power_Suc2 div_mult2_eq)
  moreover have "of_bool (bit n b) = n div 2 ^ b mod 2" by (simp add: bit_iff_odd mod_2_eq_odd)
  ultimately show ?thesis by simp
qed

lemma halve_step:
  assumes top: "top_bit i h" and up: "agree_above (Suc b) i h" and m: "\<And>n. n < 32 \<Longrightarrow> bit m n \<longleftrightarrow> bit n b"
  shows "\<exists>i'. halve m (2 ^ b) (i, l) = (i', l + 2 ^ b * of_bool (bit h b)) \<and> top_bit i' h \<and> agree_above b i' h"
proof -
  have j: "bit (i AND m) n \<longleftrightarrow> bit i n \<and> bit n b" for n
    using m [of n] bit_imp_le_length [of i n] by (auto simp: bit_and_iff)
  have same: "n div 2 ^ b = h div 2 ^ b" if "bit i n" "bit n b = bit h b" for n
    using that up div_step [of n b] div_step [of h b] by (simp add: agree_above_def)
  show ?thesis
  proof (cases "bit h b")
    case True
    with top have h: "bit (i AND m) h" by (simp add: j top_bit_def)
    then have "i AND m \<noteq> 0" by (metis bit_0_eq bot_apply bot_bool_def)
    then have "halve m (2 ^ b) (i, l) = (i AND m, l + 2 ^ b * of_bool (bit h b))" using True by (simp add: halve_def)
    moreover have "top_bit (i AND m) h" using top h by (simp add: top_bit_def j)
    moreover have "agree_above b (i AND m) h" using True same by (simp add: agree_above_def j)
    ultimately show ?thesis by blast
  next
    case False
    have up': "\<not> bit n b" if "bit i n" for n
    proof
      assume "bit n b"
      with that up False div_step [of n b] div_step [of h b] have "n div 2 ^ b = Suc (h div 2 ^ b)"
        by (simp add: agree_above_def)
      moreover have "n div 2 ^ b \<le> h div 2 ^ b" using that top by (simp add: top_bit_def div_le_mono)
      ultimately show False by simp
    qed
    then have "i AND m = 0" by (intro bit_word_eqI) (auto simp: j)
    then have "halve m (2 ^ b) (i, l) = (i, l + 2 ^ b * of_bool (bit h b))" using False by (simp add: halve_def)
    moreover have "agree_above b i h" using False same up' by (simp add: agree_above_def)
    ultimately show ?thesis using top by blast
  qed
qed

lemma position_masks:
  "\<forall>n\<in>set [0..<32]. bit (0xffff0000 :: 32 word) n \<longleftrightarrow> bit n 4"
  "\<forall>n\<in>set [0..<32]. bit (0xff00ff00 :: 32 word) n \<longleftrightarrow> bit n 3"
  "\<forall>n\<in>set [0..<32]. bit (0xf0f0f0f0 :: 32 word) n \<longleftrightarrow> bit n 2"
  "\<forall>n\<in>set [0..<32]. bit (0xcccccccc :: 32 word) n \<longleftrightarrow> bit n 1"
  "\<forall>n\<in>set [0..<32]. bit (0xaaaaaaaa :: 32 word) n \<longleftrightarrow> bit n 0"
  by code_simp+

lemma position_mask:
  assumes "n < 32"
  shows "bit (0xffff0000 :: 32 word) n \<longleftrightarrow> bit n 4" "bit (0xff00ff00 :: 32 word) n \<longleftrightarrow> bit n 3"
    "bit (0xf0f0f0f0 :: 32 word) n \<longleftrightarrow> bit n 2" "bit (0xcccccccc :: 32 word) n \<longleftrightarrow> bit n 1"
    "bit (0xaaaaaaaa :: 32 word) n \<longleftrightarrow> bit n 0"
proof -
  have "n \<in> set [0..<32]" using assms by simp
  from bspec [OF position_masks(1) this] bspec [OF position_masks(2) this] bspec [OF position_masks(3) this]
    bspec [OF position_masks(4) this] bspec [OF position_masks(5) this]
  show "bit (0xffff0000 :: 32 word) n \<longleftrightarrow> bit n 4" "bit (0xff00ff00 :: 32 word) n \<longleftrightarrow> bit n 3"
    "bit (0xf0f0f0f0 :: 32 word) n \<longleftrightarrow> bit n 2" "bit (0xcccccccc :: 32 word) n \<longleftrightarrow> bit n 1"
    "bit (0xaaaaaaaa :: 32 word) n \<longleftrightarrow> bit n 0" .
qed

lemma position_sum:
  "h < 32 \<Longrightarrow> 16 * of_bool (bit h 4) + 8 * of_bool (bit h 3) + 4 * of_bool (bit h 2) + 2 * of_bool (bit h 1) + of_bool (bit h 0) = h"
  for h :: nat
proof -
  have "\<forall>h\<in>set [0..<32]. 16 * of_bool (bit h 4) + 8 * of_bool (bit h 3) + 4 * of_bool (bit h 2) + 2 * of_bool (bit h 1)
      + of_bool (bit h 0) = (h :: nat)"
    by code_simp
  then show "h < 32 \<Longrightarrow> ?thesis" by simp
qed

lemma ilog2_top:
  assumes top: "top_bit i h"
  shows "ilog2 i = Suc h"
proof -
  have h: "bit i h" "h < 32" using top bit_imp_le_length [of i h] by (auto simp: top_bit_def)
  then have i: "i \<noteq> 0" by (metis bit_0_eq bot_apply bot_bool_def)
  have "agree_above (Suc 4) i h"
    using h bit_imp_le_length [of i] by (auto simp: agree_above_def)
  from halve_step [OF top this position_mask(1), of 1] obtain i4 where
    4: "halve 0xffff0000 16 (i, 1) = (i4, 1 + 16 * of_bool (bit h 4))" "top_bit i4 h" "agree_above 4 i4 h" by auto
  from halve_step [OF 4(2) _ position_mask(2), of "1 + 16 * of_bool (bit h 4)"] 4(3) obtain i3 where
    3: "halve 0xff00ff00 8 (halve 0xffff0000 16 (i, 1)) = (i3, 1 + 16 * of_bool (bit h 4) + 8 * of_bool (bit h 3))"
      "top_bit i3 h" "agree_above 3 i3 h" using 4(1) by auto
  let ?l3 = "1 + 16 * of_bool (bit h 4) + 8 * of_bool (bit h 3)"
  from halve_step [OF 3(2) _ position_mask(3), of ?l3] 3(3) obtain i2 where
    2: "halve 0xf0f0f0f0 4 (i3, ?l3) = (i2, ?l3 + 4 * of_bool (bit h 2))" "top_bit i2 h" "agree_above 2 i2 h" by auto
  let ?l2 = "?l3 + 4 * of_bool (bit h 2)"
  have "agree_above (Suc 1) i2 h" using 2(3) by (simp add: numeral_2_eq_2)
  from halve_step [OF 2(2) this position_mask(4), of ?l2] obtain i1 where
    1: "halve 0xcccccccc 2 (i2, ?l2) = (i1, ?l2 + 2 * of_bool (bit h 1))" "top_bit i1 h" "agree_above 1 i1 h" by auto
  let ?l1 = "?l2 + 2 * of_bool (bit h 1)"
  from halve_step [OF 1(2) _ position_mask(5), of ?l1] 1(3) obtain i0 where
    0: "halve 0xaaaaaaaa 1 (i1, ?l1) = (i0, ?l1 + of_bool (bit h 0))" by auto
  have "ilog2 i = ?l1 + of_bool (bit h 0)"
    using i by (simp only: ilog2_def if_False 3(1) 2(1) 1(1) 0 snd_conv)
  then show ?thesis using position_sum [OF h(2)] by linarith
qed

lemma top_bit_ex:
  assumes "i \<noteq> 0"
  shows "\<exists>h. top_bit i h"
proof -
  have f: "finite {n. bit i n}"
    by (rule finite_subset [of _ "{..<32}"]) (auto dest: bit_imp_le_length)
  moreover have "{n. bit i n} \<noteq> {}" using assms by (auto simp: bit_eq_iff)
  ultimately have "Max {n. bit i n} \<in> {n. bit i n}" by (rule Max_in)
  with f show ?thesis by (auto simp: top_bit_def intro!: exI [of _ "Max {n. bit i n}"])
qed

lemma top_bit_bounds:
  assumes "top_bit i h"
  shows "2 ^ h \<le> uint i" "uint i < 2 ^ Suc h"
proof -
  have b: "bit (uint i) n \<longleftrightarrow> bit i n" for n by (auto simp: bit_uint_iff dest: bit_imp_le_length)
  have "take_bit (Suc h) (uint i) = uint i"
    using assms by (intro bit_eqI) (auto simp: bit_take_bit_iff b top_bit_def less_Suc_eq_le)
  then show "uint i < 2 ^ Suc h" using take_bit_int_less_exp [of "Suc h" "uint i"] by simp
  show "2 ^ h \<le> uint i"
  proof (rule ccontr)
    assume "\<not> 2 ^ h \<le> uint i"
    then have "take_bit h (uint i) = uint i" by (intro take_bit_int_eq_self) simp_all
    then have "\<not> bit (uint i) h" by (metis bit_take_bit_iff less_irrefl)
    with assms show False by (simp add: b top_bit_def)
  qed
qed

text \<open>
  \<open>ilog2\<close> is the number of binary digits of its argument, read as unsigned: 0 for 0, and otherwise the \<open>n\<close> between
  1 and 32 with the argument between \<open>2 ^ (n - 1)\<close> and \<open>2 ^ n - 1\<close>.
\<close>

theorem ilog2_digits:
  "(i = 0 \<and> ilog2 i = 0) \<or>
   (1 \<le> ilog2 i \<and> ilog2 i \<le> 32 \<and> 2 ^ (ilog2 i - 1) \<le> uint i \<and> uint i < 2 ^ ilog2 i)"
proof (cases "i = 0")
  case False
  then obtain h where h: "top_bit i h" using top_bit_ex by blast
  then have "h < 32" by (auto simp: top_bit_def dest: bit_imp_le_length)
  then show ?thesis using ilog2_top [OF h] top_bit_bounds [OF h] by simp
qed (simp add: ilog2_def)

end
