(* ===== verification/Philosophers.thy ===== *)
theory Philosophers
  imports Nachos_Prelude
begin

section \<open>Dining philosophers, unix/homework/homework_5/philosopher.c\<close>

text \<open>
  Five processes, one for every philosopher, that share five forks. A fork is taken by creating its lock file,
  which the host does for one process at a time (\<open>O_CREAT|O_EXCL\<close>), and put down by unlinking it; who
  finds the file there sleeps and tries again. Every philosopher takes the fork with the higher
  number first, the last one, whose right-hand fork is number 0, too.
\<close>

subsection \<open>The program\<close>

definition NUM :: nat where "NUM = 5"

definition forks :: "string list" where "forks = [''fork0'', ''fork1'', ''fork2'', ''fork3'', ''fork4'']"

text \<open>What a process does that others can see, and thinking and eating.\<close>

datatype action = Thinking | Locking string | Eating | Unlocking string

definition takefork :: "nat \<Rightarrow> action list" where
  "takefork i =
     (if i = NUM - 1 then [Locking (forks ! (NUM - 1)), Locking (forks ! 0)]
      else [Locking (forks ! (i + 1)), Locking (forks ! i)])"

definition putfork :: "nat \<Rightarrow> action list" where
  "putfork i =
     (if i = NUM - 1 then [Unlocking (forks ! (NUM - 1)), Unlocking (forks ! 0)]
      else [Unlocking (forks ! (i + 1)), Unlocking (forks ! i)])"

text \<open>One round of the endless loop.\<close>

definition philosopher_round :: "nat \<Rightarrow> action list" where
  "philosopher_round i = Thinking # takefork i @ Eating # putfork i"

text \<open>The lock files that exist, and what is left of every philosopher's round.\<close>

record dinner =
  files :: "string set"
  todo :: "nat \<Rightarrow> action list"

definition initlock :: "string set \<Rightarrow> string set" where
  "initlock fs = fs - set (take NUM forks)"

definition dinner_start :: "string set \<Rightarrow> dinner" where
  "dinner_start fs = \<lparr>files = initlock fs, todo = (\<lambda>_. [])\<rparr>"

text \<open>
  A step of one process; \<open>retries\<close> is the attempt to take a fork that is taken, with the \<open>sleep(1)\<close> behind it.
\<close>

inductive dinner_step :: "dinner \<Rightarrow> dinner \<Rightarrow> bool" where
  begins: "i < NUM \<Longrightarrow> todo s i = [] \<Longrightarrow> dinner_step s (s\<lparr>todo := (todo s)(i := philosopher_round i)\<rparr>)"
| thinks: "i < NUM \<Longrightarrow> todo s i = Thinking # as \<Longrightarrow> dinner_step s (s\<lparr>todo := (todo s)(i := as)\<rparr>)"
| eats: "i < NUM \<Longrightarrow> todo s i = Eating # as \<Longrightarrow> dinner_step s (s\<lparr>todo := (todo s)(i := as)\<rparr>)"
| locks: "i < NUM \<Longrightarrow> todo s i = Locking f # as \<Longrightarrow> f \<notin> files s \<Longrightarrow>
    dinner_step s (s\<lparr>files := insert f (files s), todo := (todo s)(i := as)\<rparr>)"
| retries: "i < NUM \<Longrightarrow> todo s i = Locking f # as \<Longrightarrow> f \<in> files s \<Longrightarrow> dinner_step s s"
| unlocks: "i < NUM \<Longrightarrow> todo s i = Unlocking f # as \<Longrightarrow>
    dinner_step s (s\<lparr>files := files s - {f}, todo := (todo s)(i := as)\<rparr>)"

definition eating :: "nat \<Rightarrow> dinner \<Rightarrow> bool" where
  "eating i s \<longleftrightarrow> (case todo s i of Eating # _ \<Rightarrow> True | _ \<Rightarrow> False)"

subsection \<open>The invariant\<close>

text \<open>A fork is held from its being locked to its being unlocked; a lock file is a fork that somebody holds.\<close>

definition held :: "action list \<Rightarrow> string set" where
  "held as = {f. Unlocking f \<in> set as \<and> Locking f \<notin> set as}"

definition suffixes_of :: "nat \<Rightarrow> action list set" where
  "suffixes_of i = set (map (\<lambda>n. drop n (philosopher_round i)) [0..<7])"

definition dinner_ok :: "dinner \<Rightarrow> bool" where
  "dinner_ok s \<longleftrightarrow> (\<forall>i < NUM. todo s i \<in> suffixes_of i) \<and> files s \<inter> set forks = (\<Union>i < NUM. held (todo s i)) \<and>
     (\<forall>i < NUM. \<forall>j < NUM. i \<noteq> j \<longrightarrow> held (todo s i) \<inter> held (todo s j) = {})"

lemma below_NUM: "i < NUM \<longleftrightarrow> i = 0 \<or> i = 1 \<or> i = 2 \<or> i = 3 \<or> i = 4"
  by (auto simp: NUM_def)

lemmas round_defs = philosopher_round_def takefork_def putfork_def forks_def NUM_def

text \<open>What an action does to the forks that its process holds.\<close>

definition after_action :: "action \<Rightarrow> string set \<Rightarrow> string set" where
  "after_action a F = (case a of Locking f \<Rightarrow> insert f F | Unlocking f \<Rightarrow> F - {f} | _ \<Rightarrow> F)"

lemma round_numbers:
  assumes "i < NUM"
  obtains p q where "philosopher_round i = [Thinking, Locking (forks ! p), Locking (forks ! q), Eating,
      Unlocking (forks ! p), Unlocking (forks ! q)]" "q < p" "p < NUM" "{p, q} = {i, (i + 1) mod NUM}"
proof (cases "i = NUM - 1")
  case True
  then show thesis by (intro that [of 4 0]) (auto simp: philosopher_round_def takefork_def putfork_def NUM_def)
next
  case False
  then have "(i + 1) mod NUM = i + 1" using assms by (simp add: NUM_def)
  then show thesis using False assms
    by (intro that [of "i + 1" i]) (auto simp: philosopher_round_def takefork_def putfork_def NUM_def)
qed

lemma forks_distinct: "length forks = NUM" "distinct forks"
  by (simp_all add: forks_def NUM_def)

lemma forks_nth [simp]: "p < NUM \<Longrightarrow> q < NUM \<Longrightarrow> forks ! p = forks ! q \<longleftrightarrow> p = q" "p < NUM \<Longrightarrow> forks ! p \<in> set forks"
  using forks_distinct by (simp_all add: nth_eq_iff_index_eq)

lemma round_parts:
  assumes "i < NUM"
  obtains f g where "philosopher_round i = [Thinking, Locking f, Locking g, Eating, Unlocking f, Unlocking g]"
    "f \<noteq> g" "f \<in> set forks" "g \<in> set forks"
proof -
  obtain p q where "philosopher_round i = [Thinking, Locking (forks ! p), Locking (forks ! q), Eating,
      Unlocking (forks ! p), Unlocking (forks ! q)]" "q < p" "p < NUM" by (rule round_numbers [OF assms])
  then show thesis by (intro that [of "forks ! p" "forks ! q"]) simp_all
qed

lemma suffix_step:
  assumes i: "i < NUM" and as: "a # as \<in> suffixes_of i"
  shows "as \<in> suffixes_of i" and "held as = after_action a (held (a # as))"
    and "\<And>f. a = Locking f \<Longrightarrow> f \<in> set forks \<and> f \<notin> held (a # as)"
    and "\<And>f. a = Unlocking f \<Longrightarrow> f \<in> set forks \<and> f \<in> held (a # as)"
proof -
  obtain f g where r: "philosopher_round i = [Thinking, Locking f, Locking g, Eating, Unlocking f, Unlocking g]"
    "f \<noteq> g" "f \<in> set forks" "g \<in> set forks" by (rule round_parts [OF i])
  have c: "a # as \<in> {[Thinking, Locking f, Locking g, Eating, Unlocking f, Unlocking g],
      [Locking f, Locking g, Eating, Unlocking f, Unlocking g], [Locking g, Eating, Unlocking f, Unlocking g],
      [Eating, Unlocking f, Unlocking g], [Unlocking f, Unlocking g], [Unlocking g]}"
    using as by (auto simp: suffixes_of_def r(1) upt_rec)
  show "as \<in> suffixes_of i" using c by (auto simp: suffixes_of_def r(1) upt_rec)
  show "held as = after_action a (held (a # as))" using c r(2) by (auto simp: held_def after_action_def)
  show "f' \<in> set forks \<and> f' \<notin> held (a # as)" if "a = Locking f'" for f' using that c r by (auto simp: held_def)
  show "f' \<in> set forks \<and> f' \<in> held (a # as)" if "a = Unlocking f'" for f' using that c r by (auto simp: held_def)
qed

lemma suffix_idle: "[] \<in> suffixes_of i" "philosopher_round i \<in> suffixes_of i"
  by (simp_all add: suffixes_of_def upt_rec philosopher_round_def takefork_def putfork_def)

lemma held_idle [simp]: "held [] = {}" by (simp add: held_def)

lemma held_round: "i < NUM \<Longrightarrow> held (philosopher_round i) = {}"
  by (erule round_parts) (auto simp: held_def)

lemma dinner_start_ok: "dinner_ok (dinner_start fs)"
  by (auto simp: dinner_ok_def dinner_start_def suffix_idle initlock_def NUM_def forks_def)

text \<open>One process moves: its forks change as its action says, and so do the lock files.\<close>

lemma dinner_ok_update:
  assumes ok: "dinner_ok s" and i: "i < NUM" and as: "as \<in> suffixes_of i"
    and fs: "fs \<inter> set forks = (files s \<inter> set forks - held (todo s i)) \<union> held as"
    and new: "\<forall>f \<in> held as - held (todo s i). f \<notin> files s" and forks: "held as \<subseteq> set forks"
  shows "dinner_ok (s\<lparr>files := fs, todo := (todo s)(i := as)\<rparr>)"
proof -
  have un: "files s \<inter> set forks = (\<Union>j < NUM. held (todo s j))"
    and dis: "\<And>j l. j < NUM \<Longrightarrow> l < NUM \<Longrightarrow> j \<noteq> l \<Longrightarrow> held (todo s j) \<inter> held (todo s l) = {}"
    using ok by (simp_all add: dinner_ok_def)
  have in_files: "held (todo s j) \<subseteq> files s" if "j < NUM" for j using un that by blast
  have rest: "held (todo s j) \<inter> held as = {}" if "j < NUM" "j \<noteq> i" for j
    using new dis [OF that(1) i that(2)] in_files [OF that(1)] by blast
  have "(\<Union>j < NUM. held (((todo s)(i := as)) j)) = held as \<union> (\<Union>j \<in> {..<NUM} - {i}. held (todo s j))"
    using i by (auto split: if_splits)
  also have "(\<Union>j \<in> {..<NUM} - {i}. held (todo s j)) = (\<Union>j < NUM. held (todo s j)) - held (todo s i)"
    using dis [OF _ i] by blast
  finally have "(\<Union>j < NUM. held (((todo s)(i := as)) j)) = fs \<inter> set forks" by (simp add: fs un Un_commute)
  moreover have "held (((todo s)(i := as)) j) \<inter> held (((todo s)(i := as)) l) = {}" if "j < NUM" "l < NUM" "j \<noteq> l" for j l
    using that dis [OF that] rest by (auto simp: Int_commute)
  ultimately show ?thesis using ok as by (simp add: dinner_ok_def)
qed

lemma held_forks: "i < NUM \<Longrightarrow> as \<in> suffixes_of i \<Longrightarrow> held as \<subseteq> set forks"
  by (erule round_parts) (auto simp: suffixes_of_def upt_rec held_def)

lemma held_in_files: "dinner_ok s \<Longrightarrow> i < NUM \<Longrightarrow> held (todo s i) \<subseteq> files s"
  unfolding dinner_ok_def by blast

lemma dinner_step_ok:
  assumes "dinner_step s s'" and "dinner_ok s"
  shows "dinner_ok s'"
  using assms(1)
proof cases
  case (begins i)
  have "dinner_ok (s\<lparr>files := files s, todo := (todo s)(i := philosopher_round i)\<rparr>)"
    by (rule dinner_ok_update [OF assms(2) begins(2) suffix_idle(2)])
      (use begins held_round in \<open>simp_all\<close>)
  then show ?thesis by (simp add: begins(1))
next
  case (thinks i as)
  have "Thinking # as \<in> suffixes_of i" using assms(2) thinks by (metis dinner_ok_def)
  note m = suffix_step [OF thinks(2) this]
  have "dinner_ok (s\<lparr>files := files s, todo := (todo s)(i := as)\<rparr>)"
    by (rule dinner_ok_update [OF assms(2) thinks(2) m(1)])
      (use m(2) thinks(3-) held_in_files [OF assms(2) thinks(2)] held_forks [OF thinks(2) m(1)] in \<open>auto simp: after_action_def\<close>)
  then show ?thesis by (simp add: thinks(1))
next
  case (eats i as)
  have "Eating # as \<in> suffixes_of i" using assms(2) eats by (metis dinner_ok_def)
  note m = suffix_step [OF eats(2) this]
  have "dinner_ok (s\<lparr>files := files s, todo := (todo s)(i := as)\<rparr>)"
    by (rule dinner_ok_update [OF assms(2) eats(2) m(1)])
      (use m(2) eats(3-) held_in_files [OF assms(2) eats(2)] held_forks [OF eats(2) m(1)] in \<open>auto simp: after_action_def\<close>)
  then show ?thesis by (simp add: eats(1))
next
  case (locks i f as)
  have "Locking f # as \<in> suffixes_of i" using assms(2) locks by (metis dinner_ok_def)
  note m = suffix_step [OF locks(2) this]
  show ?thesis unfolding locks(1)
    by (rule dinner_ok_update [OF assms(2) locks(2) m(1)])
      (use m(2,3) locks(3-) held_in_files [OF assms(2) locks(2)] held_forks [OF locks(2) m(1)] in \<open>auto simp: after_action_def\<close>)
next
  case (retries i f as)
  then show ?thesis using assms(2) by simp
next
  case (unlocks i f as)
  have "Unlocking f # as \<in> suffixes_of i" using assms(2) unlocks by (metis dinner_ok_def)
  note m = suffix_step [OF unlocks(2) this]
  show ?thesis unfolding unlocks(1)
    by (rule dinner_ok_update [OF assms(2) unlocks(2) m(1)])
      (use m(2,4) unlocks(3-) held_in_files [OF assms(2) unlocks(2)] held_forks [OF unlocks(2) m(1)] in \<open>auto simp: after_action_def\<close>)
qed

lemma dinner_steps_ok: "dinner_step\<^sup>*\<^sup>* s s' \<Longrightarrow> dinner_ok s \<Longrightarrow> dinner_ok s'"
  by (induction rule: rtranclp_induct) (auto intro: dinner_step_ok)

subsection \<open>No deadlock\<close>

text \<open>
  Whoever is blocked and holds a fork waits for one with a lower number. So the holder of the taken fork
  with the lowest number is not blocked.
\<close>

lemma someone_moves:
  assumes ok: "dinner_ok s" and busy: "i < NUM" "todo s i \<noteq> []"
  shows "\<exists>j < NUM. \<exists>a as. todo s j = a # as \<and> (\<forall>f. a = Locking f \<longrightarrow> f \<notin> files s)"
proof (rule ccontr)
  assume no: "\<not> ?thesis"
  have blocked: "\<exists>f as. todo s j = Locking f # as \<and> f \<in> files s" if "j < NUM" "todo s j \<noteq> []" for j
    using no that by (metis list.exhaust)
  have suf: "todo s j \<in> suffixes_of j" if "j < NUM" for j using ok that by (simp add: dinner_ok_def)
  obtain f as where f: "todo s i = Locking f # as" "f \<in> files s" using blocked [OF busy] by blast
  have "f \<in> set forks" using suffix_step(3) [of i "Locking f" as] suf [OF busy(1)] f(1) busy(1) by simp
  then obtain n where n: "n < NUM" "f = forks ! n" using forks_distinct by (auto simp: in_set_conv_nth)
  define m where "m = (LEAST n. n < NUM \<and> forks ! n \<in> files s)"
  have m: "m < NUM" "forks ! m \<in> files s" using LeastI [of "\<lambda>n. n < NUM \<and> forks ! n \<in> files s" n] n f(2) by (auto simp: m_def)
  have least: "m \<le> q" if "q < NUM" "forks ! q \<in> files s" for q unfolding m_def using that by (intro Least_le) simp
  have "forks ! m \<in> (\<Union>j < NUM. held (todo s j))" using ok m by (auto simp: dinner_ok_def)
  then obtain j where j: "j < NUM" "forks ! m \<in> held (todo s j)" by auto
  then have "todo s j \<noteq> []" by auto
  from blocked [OF j(1) this] obtain g bs where g: "todo s j = Locking g # bs" "g \<in> files s" by blast
  obtain p q where r: "philosopher_round j = [Thinking, Locking (forks ! p), Locking (forks ! q), Eating,
      Unlocking (forks ! p), Unlocking (forks ! q)]" "q < p" "p < NUM" by (rule round_numbers [OF j(1)])
  have "todo s j \<in> {[Locking (forks ! p), Locking (forks ! q), Eating, Unlocking (forks ! p), Unlocking (forks ! q)],
      [Locking (forks ! q), Eating, Unlocking (forks ! p), Unlocking (forks ! q)]}"
    using suf [OF j(1)] g(1) by (auto simp: suffixes_of_def r(1) upt_rec)
  then have "m = p" "g = forks ! q" using j(2) g(1) m(1) r by (auto simp: held_def)
  then show False using least [of q] g(2) r by simp
qed

text \<open>So all can finish their rounds, and then everybody can take the forks.\<close>

lemma all_finish:
  assumes "dinner_ok s"
  shows "\<exists>s'. dinner_step\<^sup>*\<^sup>* s s' \<and> dinner_ok s' \<and> (\<forall>i < NUM. todo s' i = [])"
  using assms
proof (induction "\<Sum>i < NUM. length (todo s i)" arbitrary: s rule: less_induct)
  case less
  show ?case
  proof (cases "\<forall>i < NUM. todo s i = []")
    case True
    with less.prems show ?thesis by blast
  next
    case False
    then obtain j a as where j: "j < NUM" "todo s j = a # as" "\<forall>f. a = Locking f \<longrightarrow> f \<notin> files s"
      using someone_moves [OF less.prems] by blast
    have "\<exists>fs. dinner_step s (s\<lparr>files := fs, todo := (todo s)(j := as)\<rparr>)"
    proof (cases a)
      case Thinking
      have "dinner_step s (s\<lparr>files := files s, todo := (todo s)(j := as)\<rparr>)" using thinks [OF j(1)] j(2) Thinking by simp
      then show ?thesis by blast
    next
      case Eating
      have "dinner_step s (s\<lparr>files := files s, todo := (todo s)(j := as)\<rparr>)" using eats [OF j(1)] j(2) Eating by simp
      then show ?thesis by blast
    next
      case (Locking f)
      then show ?thesis using locks [OF j(1)] j by blast
    next
      case (Unlocking f)
      then show ?thesis using unlocks [OF j(1)] j by blast
    qed
    then obtain fs where step: "dinner_step s (s\<lparr>files := fs, todo := (todo s)(j := as)\<rparr>)" (is "dinner_step s ?s") by blast
    have "(\<Sum>i < NUM. length (todo ?s i)) < (\<Sum>i < NUM. length (todo s i))"
      by (rule sum_strict_mono_ex1) (use j in auto)
    from less.hyps [OF this dinner_step_ok [OF step less.prems]] step show ?thesis
      by (meson converse_rtranclp_into_rtranclp)
  qed
qed

lemma dinner_reachable: "dinner_step\<^sup>*\<^sup>* (dinner_start fs) s \<Longrightarrow> dinner_ok s"
  by (rule dinner_steps_ok [OF _ dinner_start_ok])

lemma eating_holds:
  assumes "dinner_ok s" "i < NUM" "eating i s"
  shows "held (todo s i) = {forks ! i, forks ! ((i + 1) mod NUM)}"
proof -
  obtain p q where r: "philosopher_round i = [Thinking, Locking (forks ! p), Locking (forks ! q), Eating,
      Unlocking (forks ! p), Unlocking (forks ! q)]" "q < p" "p < NUM" "{p, q} = {i, (i + 1) mod NUM}"
    by (rule round_numbers [OF assms(2)])
  have "todo s i \<in> suffixes_of i" using assms by (simp add: dinner_ok_def)
  then have "todo s i = [Eating, Unlocking (forks ! p), Unlocking (forks ! q)]"
    using assms(3) by (auto simp: suffixes_of_def r(1) upt_rec eating_def)
  then have "held (todo s i) = (!) forks ` {p, q}" by (auto simp: held_def)
  then show ?thesis by (simp add: r(4))
qed

lemma reaches_eating:
  assumes "dinner_ok s" and "i < NUM"
  shows "\<exists>s'. dinner_step\<^sup>*\<^sup>* s s' \<and> eating i s'"
proof -
  obtain s1 where s1: "dinner_step\<^sup>*\<^sup>* s s1" "dinner_ok s1" "\<forall>i < NUM. todo s1 i = []"
    using all_finish [OF assms(1)] by blast
  then have free: "files s1 \<inter> set forks = {}" by (simp add: dinner_ok_def)
  obtain f g where r: "philosopher_round i = [Thinking, Locking f, Locking g, Eating, Unlocking f, Unlocking g]"
    "f \<noteq> g" "f \<in> set forks" "g \<in> set forks" by (rule round_parts [OF assms(2)])
  let ?s = "\<lambda>n fs. s1\<lparr>files := fs, todo := (todo s1)(i := drop n (philosopher_round i))\<rparr>"
  have "dinner_step s1 (?s 0 (files s1))" using begins [of i s1] assms(2) s1(3) by simp
  moreover have "dinner_step (?s 0 (files s1)) (?s 1 (files s1))"
    using thinks [of i "?s 0 (files s1)"] assms(2) by (simp add: r(1))
  moreover have "dinner_step (?s 1 (files s1)) (?s 2 (insert f (files s1)))"
    using locks [of i "?s 1 (files s1)"] assms(2) free r by auto
  moreover have "dinner_step (?s 2 (insert f (files s1))) (?s 3 (insert g (insert f (files s1))))"
    using locks [of i "?s 2 (insert f (files s1))"] assms(2) free r by auto
  moreover have "eating i (?s 3 (insert g (insert f (files s1))))" by (simp add: eating_def r(1))
  ultimately show ?thesis using s1(1) by (meson rtranclp.rtrancl_into_rtrancl)
qed

text \<open>
  C27: However the five processes are scheduled and whatever lock files were left over from an earlier run: a
  philosopher who eats holds exactly the two forks beside him, their lock files exist and no other philosopher
  holds one of them; and two neighbours never eat at the same time.
\<close>

theorem philosophers_exclude:
  assumes "dinner_step\<^sup>*\<^sup>* (dinner_start fs) s" and "i < NUM"
  shows "(eating i s \<longrightarrow> held (todo s i) = {forks ! i, forks ! ((i + 1) mod NUM)} \<and>
      held (todo s i) \<subseteq> files s \<and> (\<forall>j < NUM. j \<noteq> i \<longrightarrow> held (todo s j) \<inter> held (todo s i) = {})) \<and>
    \<not> (eating i s \<and> eating ((i + 1) mod NUM) s)"
proof -
  note ok = dinner_reachable [OF assms(1)]
  have j: "(i + 1) mod NUM < NUM" "i \<noteq> (i + 1) mod NUM" using assms(2) unfolding below_NUM by (auto simp: NUM_def)
  have "\<not> (eating i s \<and> eating ((i + 1) mod NUM) s)"
  proof
    assume e: "eating i s \<and> eating ((i + 1) mod NUM) s"
    have "forks ! ((i + 1) mod NUM) \<in> held (todo s i) \<inter> held (todo s ((i + 1) mod NUM))"
      using eating_holds [OF ok assms(2)] eating_holds [OF ok j(1)] e by simp
    with ok assms(2) j show False unfolding dinner_ok_def by blast
  qed
  moreover have "held (todo s i) \<subseteq> files s" "\<forall>j < NUM. j \<noteq> i \<longrightarrow> held (todo s j) \<inter> held (todo s i) = {}"
    using ok assms(2) unfolding dinner_ok_def by blast+
  ultimately show ?thesis using eating_holds [OF ok assms(2)] by blast
qed

text \<open>
  C28: There is no deadlock, and nobody is shut out: from every state that the five processes can reach, every
  one of them can still get to eat.
\<close>

theorem philosophers_can_eat:
  assumes "dinner_step\<^sup>*\<^sup>* (dinner_start fs) s" and "i < NUM"
  shows "\<exists>s'. dinner_step\<^sup>*\<^sup>* s s' \<and> eating i s'"
  by (rule reaches_eating [OF dinner_reachable [OF assms(1)] assms(2)])

lemma dinner_example: "dinner_step\<^sup>*\<^sup>* (dinner_start {''fork3''}) (dinner_start {''fork3''})" "3 < NUM"
  by (simp_all add: NUM_def)

theorem philosophers_exclude_witness:
  "\<exists>s. dinner_step\<^sup>*\<^sup>* (dinner_start {''fork3''}) s \<and> eating 3 s \<and> \<not> eating 4 s \<and>
    held (todo s 3) = {''fork3'', ''fork4''}"
proof -
  obtain s where s: "dinner_step\<^sup>*\<^sup>* (dinner_start {''fork3''}) s" "eating 3 s"
    using reaches_eating [OF dinner_start_ok dinner_example(2)] by blast
  from philosophers_exclude [OF s(1) dinner_example(2)] s show ?thesis
    by (intro exI [of _ s]) (simp add: NUM_def forks_def)
qed

theorem philosophers_can_eat_witness: "\<exists>s'. dinner_step\<^sup>*\<^sup>* (dinner_start {''fork3''}) s' \<and> eating 3 s'"
  by (rule philosophers_can_eat [OF dinner_example])

end
