(* ===== verification/Example_Stacks.thy ===== *)
theory Example_Stacks
  imports Nachos_Prelude
begin

section \<open>The stacks of nachos/c++example\<close>

text \<open>
  Stacks as the examples of \<open>inheritstack.cc\<close> and \<open>templatestack.cc\<close> have them: one on an array, one on the linked
  list of \<open>list.cc\<close>, behind one abstract class. The locale \<open>lifo\<close> is the promise of that class; both
  implementations are interpreted in it, and what the shared \<open>SelfTest\<close> prints is proved there once.
\<close>

subsection \<open>The stack on an array\<close>

record 'a ArrayStack =
  as_size :: int
  as_top :: int
  as_stack :: "'a list"

text \<open>\<open>cells\<close> is what the new array holds.\<close>

definition ArrayStack_new :: "'a list \<Rightarrow> int \<Rightarrow> 'a ArrayStack result" where
  "ArrayStack_new cells sz =
     rbind (ASSERT (sz \<ge> 1)) (\<lambda>_. Inr \<lparr>as_size = sz, as_top = 0, as_stack = cells\<rparr>)"

definition ArrayStack_Full :: "'a ArrayStack \<Rightarrow> bool" where
  "ArrayStack_Full s \<longleftrightarrow> as_top s = as_size s"

definition ArrayStack_Empty :: "'a ArrayStack \<Rightarrow> bool" where
  "ArrayStack_Empty s \<longleftrightarrow> as_top s = 0"

definition ArrayStack_Push :: "'a \<Rightarrow> 'a ArrayStack \<Rightarrow> 'a ArrayStack result" where
  "ArrayStack_Push v s =
     rbind (ASSERT (\<not> ArrayStack_Full s)) (\<lambda>_.
     rbind (aset (as_stack s) (as_top s) v) (\<lambda>st.
     Inr (s\<lparr>as_top := as_top s + 1, as_stack := st\<rparr>)))"

definition ArrayStack_Pop :: "'a ArrayStack \<Rightarrow> ('a \<times> 'a ArrayStack) result" where
  "ArrayStack_Pop s =
     rbind (ASSERT (\<not> ArrayStack_Empty s)) (\<lambda>_.
     let t = as_top s - 1 in
     rbind (aget (as_stack s) t) (\<lambda>v. Inr (v, s\<lparr>as_top := t\<rparr>)))"

subsection \<open>The list of list.cc\<close>

record Element =
  el_item :: int
  el_next :: "nat option"

record ItemList =
  elements :: "nat \<Rightarrow> Element option"
  il_first :: "nat option"
  il_last :: "nat option"

definition element_at :: "nat option \<Rightarrow> ItemList \<Rightarrow> Element result" where
  "element_at p l = (case p of None \<Rightarrow> Inl NullDeref
     | Some a \<Rightarrow> (case elements l a of None \<Rightarrow> Inl DanglingPointer | Some e \<Rightarrow> Inr e))"

definition ItemList_new :: ItemList where
  "ItemList_new = \<lparr>elements = Map.empty, il_first = None, il_last = None\<rparr>"

definition ItemList_Empty :: "ItemList \<Rightarrow> bool" where
  "ItemList_Empty l \<longleftrightarrow> il_first l = None"

text \<open>\<open>nd\<close> is the address of the new element.\<close>

definition ItemList_Prepend :: "nat \<Rightarrow> int \<Rightarrow> ItemList \<Rightarrow> ItemList" where
  "ItemList_Prepend nd v l =
     (if ItemList_Empty l then
        l\<lparr>elements := (elements l)(nd \<mapsto> \<lparr>el_item = v, el_next = None\<rparr>), il_first := Some nd, il_last := Some nd\<rparr>
      else
        l\<lparr>elements := (elements l)(nd \<mapsto> \<lparr>el_item = v, el_next = il_first l\<rparr>), il_first := Some nd\<rparr>)"

definition ItemList_Remove :: "ItemList \<Rightarrow> (int \<times> ItemList) result" where
  "ItemList_Remove l =
     rbind (ASSERT (\<not> ItemList_Empty l)) (\<lambda>_.
     rbind (element_at (il_first l) l) (\<lambda>e.
     let l' = (if il_first l = il_last l then l\<lparr>il_first := None, il_last := None\<rparr> else l\<lparr>il_first := el_next e\<rparr>) in
     Inr (el_item e, l'\<lparr>elements := (elements l')(the (il_first l) := None)\<rparr>)))"

partial_function (option) ItemList_delete :: "ItemList \<Rightarrow> ItemList result option" where
  "ItemList_delete l =
     (if ItemList_Empty l then Some (Inr l)
      else orbind (Some (ItemList_Remove l)) (\<lambda>(_, l). ItemList_delete l))"

subsection \<open>The stack on the list\<close>

definition ListStack_new :: ItemList where "ListStack_new = ItemList_new"

definition ListStack_Push :: "nat \<Rightarrow> int \<Rightarrow> ItemList \<Rightarrow> ItemList result" where
  "ListStack_Push nd v s = Inr (ItemList_Prepend nd v s)"

definition ListStack_Full :: "ItemList \<Rightarrow> bool" where "ListStack_Full s \<longleftrightarrow> False"

definition ListStack_Empty :: "ItemList \<Rightarrow> bool" where "ListStack_Empty s \<longleftrightarrow> ItemList_Empty s"

definition ListStack_Pop :: "ItemList \<Rightarrow> (int \<times> ItemList) result" where
  "ListStack_Pop s = rbind (ASSERT (\<not> ListStack_Empty s)) (\<lambda>_. ItemList_Remove s)"

subsection \<open>The self test, shared by all stacks\<close>

datatype printed = Pushing int | Popping int

text \<open>
  The calls are virtual, so the operations of the stack are arguments; \<open>nds\<close> has for every push the address
  that its \<open>new\<close> would return, and there are as many as pushes.
\<close>

fun push_numbers ::
  "('n \<Rightarrow> int \<Rightarrow> 's \<Rightarrow> 's result) \<Rightarrow> ('s \<Rightarrow> bool) \<Rightarrow> 'n list \<Rightarrow> int \<Rightarrow> 's \<Rightarrow> (printed list \<times> 's) result" where
  "push_numbers push full [] count s = Inr ([], s)"
| "push_numbers push full (nd # nds) count s =
     rbind (ASSERT (\<not> full s)) (\<lambda>_.
     rbind (push nd count s) (\<lambda>s.
     rbind (push_numbers push full nds (count + 1) s) (\<lambda>(out, s). Inr (Pushing count # out, s))))"

partial_function (option) pop_numbers ::
  "('s \<Rightarrow> (int \<times> 's) result) \<Rightarrow> ('s \<Rightarrow> bool) \<Rightarrow> 's \<Rightarrow> (printed list \<times> 's) result option" where
  "pop_numbers pop emp s =
     (if emp s then Some (Inr ([], s))
      else orbind (Some (pop s)) (\<lambda>(v, s).
           orbind (pop_numbers pop emp s) (\<lambda>(out, s). Some (Inr (Popping v # out, s)))))"

definition Stack_SelfTest ::
  "('n \<Rightarrow> int \<Rightarrow> 's \<Rightarrow> 's result) \<Rightarrow> ('s \<Rightarrow> (int \<times> 's) result) \<Rightarrow> ('s \<Rightarrow> bool) \<Rightarrow> ('s \<Rightarrow> bool) \<Rightarrow> 'n list \<Rightarrow> 's \<Rightarrow>
    (printed list \<times> 's) result option" where
  "Stack_SelfTest push pop full emp nds s =
     orbind (Some (push_numbers push full nds 17 s)) (\<lambda>(out, s).
     orbind (pop_numbers pop emp s) (\<lambda>(out', s). Some (Inr (out @ out', s))))"

text \<open>The self test of \<open>stack.cc\<close> and \<open>templatestack.cc\<close> instead pushes until the stack is full; \<open>inc\<close> is \<open>count++\<close>.\<close>

partial_function (option) fill_stack :: "('a \<Rightarrow> 'a) \<Rightarrow> 'a \<Rightarrow> 'a ArrayStack \<Rightarrow> ('a list \<times> 'a ArrayStack) result option" where
  "fill_stack inc count s =
     (if ArrayStack_Full s then Some (Inr ([], s))
      else orbind (Some (ArrayStack_Push count s)) (\<lambda>s.
           orbind (fill_stack inc (inc count) s) (\<lambda>(out, s). Some (Inr (count # out, s)))))"

partial_function (option) drain_stack :: "'a ArrayStack \<Rightarrow> ('a list \<times> 'a ArrayStack) result option" where
  "drain_stack s =
     (if ArrayStack_Empty s then Some (Inr ([], s))
      else orbind (Some (ArrayStack_Pop s)) (\<lambda>(v, s).
           orbind (drain_stack s) (\<lambda>(out, s). Some (Inr (v # out, s)))))"

definition TemplateStack_SelfTest ::
  "('a \<Rightarrow> 'a) \<Rightarrow> 'a \<Rightarrow> 'a ArrayStack \<Rightarrow> ('a list \<times> 'a list \<times> 'a ArrayStack) result option" where
  "TemplateStack_SelfTest inc start s =
     orbind (fill_stack inc start s) (\<lambda>(pushed, s).
     orbind (drain_stack s) (\<lambda>(popped, s). Some (Inr (pushed, popped, s))))"

subsection \<open>The promise of the abstract class\<close>

definition numbers :: "int \<Rightarrow> nat \<Rightarrow> int list" where
  "numbers count n = map (\<lambda>i. count + int i) [0..<n]"

lemma numbers_Suc: "numbers count (Suc n) = count # numbers (count + 1) n"
  by (simp add: numbers_def upt_conv_Cons map_Suc_upt [symmetric] del: upt_Suc)

text \<open>
  \<open>rep s xs\<close>: the stack holds \<open>xs\<close>, the top first; \<open>room\<close> is how many it can hold; \<open>unused\<close> the addresses that
  \<open>new\<close> may return.
\<close>

locale lifo =
  fixes push :: "'n \<Rightarrow> int \<Rightarrow> 's \<Rightarrow> 's result" and pop :: "'s \<Rightarrow> (int \<times> 's) result"
    and full :: "'s \<Rightarrow> bool" and emp :: "'s \<Rightarrow> bool"
    and rep :: "'s \<Rightarrow> int list \<Rightarrow> bool" and room :: "'s \<Rightarrow> nat option" and unused :: "'n \<Rightarrow> 's \<Rightarrow> bool"
  assumes push_rep: "rep s xs \<Longrightarrow> \<not> full s \<Longrightarrow> unused nd s \<Longrightarrow>
      \<exists>s'. push nd v s = Inr s' \<and> rep s' (v # xs) \<and> room s' = room s \<and>
        (\<forall>nd'. unused nd' s \<longrightarrow> nd' \<noteq> nd \<longrightarrow> unused nd' s')"
    and pop_rep: "rep s (v # xs) \<Longrightarrow> \<exists>s'. pop s = Inr (v, s') \<and> rep s' xs \<and> room s' = room s"
    and pop_none: "rep s [] \<Longrightarrow> pop s = Inl AssertFailed"
    and emp_rep: "rep s xs \<Longrightarrow> emp s \<longleftrightarrow> xs = []"
    and full_rep: "rep s xs \<Longrightarrow> full s \<longleftrightarrow> room s = Some (length xs)"
    and rep_room: "rep s xs \<Longrightarrow> room s = Some n \<Longrightarrow> length xs \<le> n"
begin

lemma push_numbers_fit:
  assumes "rep s xs" and "distinct nds" and "\<forall>nd \<in> set nds. unused nd s"
    and "\<And>n. room s = Some n \<Longrightarrow> length xs + length nds \<le> n"
  shows "\<exists>s'. push_numbers push full nds count s = Inr (map Pushing (numbers count (length nds)), s') \<and>
    rep s' (rev (numbers count (length nds)) @ xs) \<and> room s' = room s"
  using assms
proof (induction nds arbitrary: s xs count)
  case Nil
  then show ?case by (simp add: numbers_def)
next
  case (Cons nd nds)
  have "\<not> full s" using full_rep [OF Cons.prems(1)] Cons.prems(4) by force
  from push_rep [OF Cons.prems(1) this, of nd count] Cons.prems(3)
  obtain s1 where s1: "push nd count s = Inr s1" "rep s1 (count # xs)" "room s1 = room s"
    "\<forall>nd'. unused nd' s \<longrightarrow> nd' \<noteq> nd \<longrightarrow> unused nd' s1" by auto
  have "\<forall>nd' \<in> set nds. unused nd' s1" using s1(4) Cons.prems(2,3) by auto
  from Cons.IH [OF s1(2) _ this, of "count + 1"] Cons.prems(2,4) s1(3)
  obtain s2 where "push_numbers push full nds (count + 1) s1 = Inr (map Pushing (numbers (count + 1) (length nds)), s2)"
    "rep s2 (rev (numbers (count + 1) (length nds)) @ count # xs)" "room s2 = room s" by fastforce
  with s1(1) \<open>\<not> full s\<close> show ?case by (simp add: numbers_Suc)
qed

lemma push_numbers_overflow:
  assumes "rep s xs" and "distinct nds" and "\<forall>nd \<in> set nds. unused nd s"
    and "room s = Some n" and "n < length xs + length nds"
  shows "push_numbers push full nds count s = Inl AssertFailed"
  using assms
proof (induction nds arbitrary: s xs count)
  case Nil
  then show ?case using rep_room by fastforce
next
  case (Cons nd nds)
  show ?case
  proof (cases "full s")
    case True
    then show ?thesis by simp
  next
    case False
    from push_rep [OF Cons.prems(1) this, of nd count] Cons.prems(3)
    obtain s1 where s1: "push nd count s = Inr s1" "rep s1 (count # xs)" "room s1 = room s"
      "\<forall>nd'. unused nd' s \<longrightarrow> nd' \<noteq> nd \<longrightarrow> unused nd' s1" by auto
    have "\<forall>nd' \<in> set nds. unused nd' s1" using s1(4) Cons.prems(2,3) by auto
    from Cons.IH [OF s1(2) _ this] Cons.prems(2,4,5) s1 False show ?thesis by simp
  qed
qed

lemma pop_numbers_all:
  assumes "rep s xs"
  shows "\<exists>s'. pop_numbers pop emp s = Some (Inr (map Popping xs, s')) \<and> rep s' [] \<and> room s' = room s"
  using assms
proof (induction xs arbitrary: s)
  case Nil
  then show ?case using emp_rep [OF Nil] by (subst pop_numbers.simps) simp
next
  case (Cons v xs)
  obtain s1 where s1: "pop s = Inr (v, s1)" "rep s1 xs" "room s1 = room s" using pop_rep [OF Cons.prems] by blast
  with Cons.IH [OF s1(2)] emp_rep [OF Cons.prems] show ?case by (subst pop_numbers.simps) auto
qed

lemma SelfTest_prints:
  assumes "rep s []" and "distinct nds" and "\<forall>nd \<in> set nds. unused nd s" and "\<And>n. room s = Some n \<Longrightarrow> length nds \<le> n"
  shows "\<exists>s'. Stack_SelfTest push pop full emp nds s =
    Some (Inr (map Pushing (numbers 17 (length nds)) @ map Popping (rev (numbers 17 (length nds))), s')) \<and> rep s' []"
proof -
  obtain s1 where s1: "push_numbers push full nds 17 s = Inr (map Pushing (numbers 17 (length nds)), s1)"
    "rep s1 (rev (numbers 17 (length nds)))"
    using push_numbers_fit [OF assms(1-3), of 17] assms(4) by auto
  from pop_numbers_all [OF s1(2)] s1(1) show ?thesis by (auto simp: Stack_SelfTest_def)
qed

lemma SelfTest_overflows:
  assumes "rep s []" and "distinct nds" and "\<forall>nd \<in> set nds. unused nd s" and "room s = Some n" and "n < length nds"
  shows "Stack_SelfTest push pop full emp nds s = Some (Inl AssertFailed)"
  using push_numbers_overflow [OF assms(1-4), of 17] assms(5) by (simp add: Stack_SelfTest_def)

end

subsection \<open>Both implementations keep it\<close>

definition as_rep :: "'a ArrayStack \<Rightarrow> 'a list \<Rightarrow> bool" where
  "as_rep s xs \<longleftrightarrow> 0 \<le> as_top s \<and> as_top s \<le> as_size s \<and> int (length (as_stack s)) = as_size s \<and>
     xs = rev (take (nat (as_top s)) (as_stack s))"

lemma as_push:
  assumes "as_rep s xs" and "\<not> ArrayStack_Full s"
  shows "\<exists>s'. ArrayStack_Push v s = Inr s' \<and> as_rep s' (v # xs) \<and> as_size s' = as_size s"
  using assms by (auto simp: as_rep_def ArrayStack_Push_def ArrayStack_Full_def take_nat_update)

lemma as_pop:
  assumes "as_rep s (v # xs)"
  shows "\<exists>s'. ArrayStack_Pop s = Inr (v, s') \<and> as_rep s' xs \<and> as_size s' = as_size s"
proof -
  have xs: "v # xs = rev (take (nat (as_top s)) (as_stack s))" using assms by (simp add: as_rep_def)
  then have "as_top s \<noteq> 0" by auto
  then have t: "0 < as_top s" "as_top s \<le> int (length (as_stack s))" using assms by (auto simp: as_rep_def)
  have "take (nat (as_top s)) (as_stack s) = take (nat (as_top s - 1)) (as_stack s) @ [as_stack s ! nat (as_top s - 1)]"
    using take_nat_Suc [of "as_top s - 1" "as_stack s"] t by simp
  with xs have "v = as_stack s ! nat (as_top s - 1)" "xs = rev (take (nat (as_top s - 1)) (as_stack s))" by simp_all
  with assms t show ?thesis by (auto simp: as_rep_def ArrayStack_Pop_def ArrayStack_Empty_def Let_def)
qed

lemma as_ends:
  assumes "as_rep s xs"
  shows "ArrayStack_Empty s \<longleftrightarrow> xs = []" "ArrayStack_Full s \<longleftrightarrow> nat (as_size s) = length xs" "length xs \<le> nat (as_size s)"
  using assms by (auto simp: as_rep_def ArrayStack_Empty_def ArrayStack_Full_def)

interpretation array: lifo "\<lambda>_. ArrayStack_Push" ArrayStack_Pop ArrayStack_Full ArrayStack_Empty as_rep
    "\<lambda>s. Some (nat (as_size s))" "\<lambda>(_ :: 'n) _. True"
proof unfold_locales
  fix s :: "int ArrayStack" and v and xs :: "int list"
  show "\<exists>s'. ArrayStack_Pop s = Inr (v, s') \<and> as_rep s' xs \<and> Some (nat (as_size s')) = Some (nat (as_size s))" if "as_rep s (v # xs)"
    using as_pop [OF that] by auto
  show "ArrayStack_Pop s = Inl AssertFailed" if "as_rep s []"
    using as_ends [OF that] by (simp add: ArrayStack_Pop_def)
qed (use as_push as_ends in \<open>fastforce+\<close>)

text \<open>The list: the elements from \<open>p\<close> on, and that the last pointer is that of the last of them.\<close>

fun chain :: "(nat \<Rightarrow> Element option) \<Rightarrow> nat option \<Rightarrow> (nat \<times> int) list \<Rightarrow> bool" where
  "chain h p [] \<longleftrightarrow> p = None"
| "chain h p ((a, v) # es) \<longleftrightarrow> p = Some a \<and> (\<exists>e. h a = Some e \<and> el_item e = v \<and> chain h (el_next e) es)"

definition il_rep :: "ItemList \<Rightarrow> int list \<Rightarrow> bool" where
  "il_rep l xs \<longleftrightarrow> (\<exists>es. chain (elements l) (il_first l) es \<and> distinct (map fst es) \<and> map snd es = xs \<and>
     il_last l = (if es = [] then None else Some (fst (last es))))"

lemma chain_frame: "a \<notin> fst ` set es \<Longrightarrow> chain (h(a := x)) p es = chain h p es"
  by (induction h p es rule: chain.induct) (auto split: if_splits)

lemma il_push:
  assumes "il_rep l xs" and "elements l nd = None"
  shows "\<exists>l'. ListStack_Push nd v l = Inr l' \<and> il_rep l' (v # xs) \<and>
    (\<forall>nd'. elements l nd' = None \<longrightarrow> nd' \<noteq> nd \<longrightarrow> elements l' nd' = None)"
proof -
  obtain es where es: "chain (elements l) (il_first l) es" "distinct (map fst es)" "map snd es = xs"
    "il_last l = (if es = [] then None else Some (fst (last es)))"
    using assms(1) by (auto simp: il_rep_def)
  have in_dom: "fst ` set es \<subseteq> dom h" if "chain h p es" for h p
    using that by (induction h p es rule: chain.induct) auto
  then have "nd \<notin> fst ` set es" using es(1) assms(2) by blast
  moreover have "il_first l = None \<longleftrightarrow> es = []" using es(1) by (cases es) auto
  ultimately have "il_rep (ItemList_Prepend nd v l) (v # xs)"
    using es unfolding il_rep_def
    by (intro exI [of _ "(nd, v) # es"]) (auto simp: ItemList_Prepend_def ItemList_Empty_def chain_frame)
  then show ?thesis by (auto simp: ListStack_Push_def ItemList_Prepend_def)
qed

lemma il_remove:
  assumes "il_rep l (v # xs)"
  shows "\<exists>l'. ItemList_Remove l = Inr (v, l') \<and> il_rep l' xs"
proof -
  obtain a es e where es: "il_first l = Some a" "elements l a = Some e" "el_item e = v" "chain (elements l) (el_next e) es"
    "a \<notin> fst ` set es" "distinct (map fst es)" "map snd es = xs" "il_last l = Some (fst (last ((a, v) # es)))"
    using assms unfolding il_rep_def by (auto simp: map_eq_Cons_conv)
  show ?thesis
  proof (cases es)
    case Nil
    then show ?thesis using es
      by (simp add: ItemList_Remove_def ItemList_Empty_def element_at_def il_rep_def)
  next
    case (Cons f fs)
    have "fst (last es) \<in> fst ` set es" using Cons by (intro imageI last_in_set) simp
    then have "il_last l \<noteq> il_first l" using es(1,5,8) Cons by auto
    then show ?thesis using es Cons
      by (auto simp: ItemList_Remove_def ItemList_Empty_def element_at_def il_rep_def chain_frame intro!: exI [of _ es])
  qed
qed

lemma il_empty: "il_rep l xs \<Longrightarrow> ItemList_Empty l \<longleftrightarrow> xs = []"
  by (auto simp: il_rep_def ItemList_Empty_def) (case_tac es, auto)

interpretation linked: lifo ListStack_Push ListStack_Pop ListStack_Full ListStack_Empty il_rep "\<lambda>_. None"
    "\<lambda>nd l. elements l nd = None"
proof unfold_locales
  fix l :: ItemList and v xs
  show "\<exists>l'. ListStack_Pop l = Inr (v, l') \<and> il_rep l' xs \<and> None = None" if "il_rep l (v # xs)"
    using il_remove [OF that] il_empty [OF that] by (simp add: ListStack_Pop_def ListStack_Empty_def)
  show "ListStack_Pop l = Inl AssertFailed" if "il_rep l []"
    using il_empty [OF that] by (simp add: ListStack_Pop_def ListStack_Empty_def)
qed (use il_push il_empty in \<open>auto simp: ListStack_Full_def ListStack_Empty_def\<close>)

subsection \<open>New stacks, and the test that fills one\<close>

lemma ArrayStack_new_rep:
  "1 \<le> sz \<Longrightarrow> int (length cells) = sz \<Longrightarrow> \<exists>s. ArrayStack_new cells sz = Inr s \<and> as_rep s [] \<and> as_size s = sz"
  by (simp add: ArrayStack_new_def as_rep_def)

lemma ListStack_new_rep: "il_rep ListStack_new []" "elements ListStack_new nd = None"
  by (simp_all add: ListStack_new_def ItemList_new_def il_rep_def)

lemma ItemList_delete_ends: "il_rep l xs \<Longrightarrow> \<exists>l'. ItemList_delete l = Some (Inr l') \<and> ItemList_Empty l'"
proof (induction xs arbitrary: l)
  case Nil
  then show ?case using il_empty [OF Nil] by (subst ItemList_delete.simps) simp
next
  case (Cons v xs)
  obtain l' where "ItemList_Remove l = Inr (v, l')" "il_rep l' xs" using il_remove [OF Cons.prems] by blast
  with Cons.IH il_empty [OF Cons.prems] show ?case by (subst ItemList_delete.simps) simp
qed

lemma fill_stack_fills:
  assumes "as_rep s xs"
  shows "\<exists>s'. fill_stack inc count s = Some (Inr (map (\<lambda>i. (inc ^^ i) count) [0..<nat (as_size s) - length xs], s')) \<and>
    as_rep s' (rev (map (\<lambda>i. (inc ^^ i) count) [0..<nat (as_size s) - length xs]) @ xs)"
  using assms
proof (induction "nat (as_size s) - length xs" arbitrary: s xs count)
  case 0
  then have "ArrayStack_Full s" using as_ends [OF 0(2)] by linarith
  then show ?case using 0 by (subst fill_stack.simps) simp
next
  case (Suc n)
  then have "\<not> ArrayStack_Full s" using as_ends [OF Suc.prems] by linarith
  from as_push [OF Suc.prems this] obtain s1 where
    s1: "ArrayStack_Push count s = Inr s1" "as_rep s1 (count # xs)" "as_size s1 = as_size s" by blast
  have n: "n = nat (as_size s1) - length (count # xs)" using Suc(2) s1(3) by simp
  have up: "[0..<Suc n] = 0 # map Suc [0..<n]" by (simp add: upt_conv_Cons map_Suc_upt del: upt_Suc)
  have it: "map (\<lambda>i. (inc ^^ i) count) [0..<Suc n] = count # map (\<lambda>i. (inc ^^ i) (inc count)) [0..<n]"
    unfolding up by (simp add: funpow_swap1)
  from Suc.hyps(1) [OF n s1(2), of "inc count"] obtain s2 where
    "fill_stack inc (inc count) s1 = Some (Inr (map (\<lambda>i. (inc ^^ i) (inc count)) [0..<n], s2))"
    "as_rep s2 (rev (map (\<lambda>i. (inc ^^ i) (inc count)) [0..<n]) @ count # xs)"
    unfolding n [symmetric] by blast
  then show ?case unfolding Suc.hyps(2) [symmetric] it using s1(1) \<open>\<not> ArrayStack_Full s\<close>
    by (subst fill_stack.simps) simp
qed

lemma drain_stack_drains: "as_rep s xs \<Longrightarrow> \<exists>s'. drain_stack s = Some (Inr (xs, s')) \<and> as_rep s' []"
proof (induction xs arbitrary: s)
  case Nil
  then show ?case using as_ends [OF Nil] by (subst drain_stack.simps) simp
next
  case (Cons v xs)
  obtain s' where "ArrayStack_Pop s = Inr (v, s')" "as_rep s' xs" using as_pop [OF Cons.prems] by blast
  moreover obtain s'' where "drain_stack s' = Some (Inr (xs, s''))" "as_rep s'' []" using Cons.IH [OF calculation(2)] by blast
  ultimately show ?case using as_ends(1) [OF Cons.prems] by (subst drain_stack.simps) simp
qed

lemma TemplateStack_SelfTest_prints:
  assumes "as_rep s []"
  shows "\<exists>s'. TemplateStack_SelfTest inc start s = Some (Inr (map (\<lambda>i. (inc ^^ i) start) [0..<nat (as_size s)],
    rev (map (\<lambda>i. (inc ^^ i) start) [0..<nat (as_size s)]), s')) \<and> as_rep s' []"
proof -
  obtain s1 where "fill_stack inc start s = Some (Inr (map (\<lambda>i. (inc ^^ i) start) [0..<nat (as_size s)], s1))"
    "as_rep s1 (rev (map (\<lambda>i. (inc ^^ i) start) [0..<nat (as_size s)]))"
    using fill_stack_fills [OF assms, of inc start] by auto
  with drain_stack_drains show ?thesis by (fastforce simp: TemplateStack_SelfTest_def)
qed

text \<open>
  The two implementations of the abstract class cannot be told apart by its self test, as long as the array
  has room: both print the numbers from 17 on as they are pushed, and then the same numbers
  backwards, and are empty again. A self test with more numbers than the array has places fails in its \<open>ASSERT\<close>; the
  list takes them all.
\<close>

theorem stacks_agree:
  assumes "1 \<le> sz" and "int (length cells) = sz" and "distinct nds"
  shows "\<exists>s s' l'. ArrayStack_new cells sz = Inr s \<and>
    Stack_SelfTest (\<lambda>_. ArrayStack_Push) ArrayStack_Pop ArrayStack_Full ArrayStack_Empty nds s =
      Some (if int (length nds) \<le> sz
        then Inr (map Pushing (numbers 17 (length nds)) @ map Popping (rev (numbers 17 (length nds))), s') else Inl AssertFailed) \<and>
    Stack_SelfTest ListStack_Push ListStack_Pop ListStack_Full ListStack_Empty nds ListStack_new =
      Some (Inr (map Pushing (numbers 17 (length nds)) @ map Popping (rev (numbers 17 (length nds))), l')) \<and>
    (int (length nds) \<le> sz \<longrightarrow> ArrayStack_Empty s') \<and> ListStack_Empty l'"
proof -
  obtain s where s: "ArrayStack_new cells sz = Inr s" "as_rep s []" "as_size s = sz"
    using ArrayStack_new_rep [OF assms(1,2)] by blast
  obtain l' where l': "Stack_SelfTest ListStack_Push ListStack_Pop ListStack_Full ListStack_Empty nds ListStack_new =
      Some (Inr (map Pushing (numbers 17 (length nds)) @ map Popping (rev (numbers 17 (length nds))), l'))" "il_rep l' []"
    using linked.SelfTest_prints [OF ListStack_new_rep(1) assms(3)] ListStack_new_rep(2) by auto
  show ?thesis
  proof (cases "int (length nds) \<le> sz")
    case True
    then have "length nds \<le> nat (as_size s)" using s(3) by simp
    with array.SelfTest_prints [OF s(2) assms(3)] obtain s' where
      "Stack_SelfTest (\<lambda>_. ArrayStack_Push) ArrayStack_Pop ArrayStack_Full ArrayStack_Empty nds s =
        Some (Inr (map Pushing (numbers 17 (length nds)) @ map Popping (rev (numbers 17 (length nds))), s'))" "as_rep s' []"
      by auto
    with True s l' as_ends il_empty show ?thesis by (auto simp: ListStack_Empty_def)
  next
    case False
    then have "nat (as_size s) < length nds" using s(3) assms(1) by linarith
    with array.SelfTest_overflows [OF s(2) assms(3)]
    have "Stack_SelfTest (\<lambda>_. ArrayStack_Push) ArrayStack_Pop ArrayStack_Full ArrayStack_Empty nds s = Some (Inl AssertFailed)"
      by auto
    with False s l' il_empty show ?thesis by (auto simp: ListStack_Empty_def)
  qed
qed

theorem stacks_agree_witness:
  "\<exists>s' l'. Stack_SelfTest (\<lambda>_. ArrayStack_Push) ArrayStack_Pop ArrayStack_Full ArrayStack_Empty [4, 9 :: nat]
      \<lparr>as_size = 2, as_top = 0, as_stack = [0, 0]\<rparr> = Some (Inr ([Pushing 17, Pushing 18, Popping 18, Popping 17], s')) \<and>
    Stack_SelfTest ListStack_Push ListStack_Pop ListStack_Full ListStack_Empty [4, 9] ListStack_new =
      Some (Inr ([Pushing 17, Pushing 18, Popping 18, Popping 17], l'))"
  using stacks_agree [of 2 "[0, 0]" "[4, 9]"] by (auto simp: ArrayStack_new_def numbers_def upt_rec)

end
