(* ===== verification/Command_Line.thy ===== *)
theory Command_Line
  imports Nachos_Prelude
begin

section \<open>The command line, threads/main.cc and system.cc\<close>

text \<open>
  What the kernel does with its arguments: \<open>Initialize\<close> takes the flags, then \<open>main\<close> runs the test of the threads
  assignment or the commands. The makefiles choose what is compiled in: a \<open>build\<close>. \<open>argc\<close> and \<open>argv\<close>
  are the list of the arguments that are left, \<open>argv[argc]\<close> is \<open>NULL\<close>.
\<close>

record build =
  THREADS :: bool
  USER_PROGRAM :: bool
  FILESYS_NEEDED :: bool
  FILESYS :: bool
  NETWORK :: bool

subsection \<open>Numbers in arguments\<close>

definition is_digit :: "char \<Rightarrow> bool" where
  "is_digit c \<longleftrightarrow> of_char c \<ge> (48 :: nat) \<and> of_char c \<le> (57 :: nat)"

definition is_space :: "char \<Rightarrow> bool" where
  "is_space c \<longleftrightarrow> c = CHR '' '' \<or> of_char c \<ge> (9 :: nat) \<and> of_char c \<le> (13 :: nat)"

definition digits_value :: "string \<Rightarrow> int" where
  "digits_value s = foldl (\<lambda>n c. 10 * n + (of_char c - 48)) 0 (takeWhile is_digit s)"

definition atoi :: "string \<Rightarrow> int" where
  "atoi s = (case dropWhile is_space s of
     c # r \<Rightarrow> if c = CHR ''-'' then - digits_value r else if c = CHR ''+'' then digits_value r else digits_value (c # r)
   | [] \<Rightarrow> 0)"

subsection \<open>Initialize\<close>

text \<open>\<open>rely\<close> is the argument of \<open>atof\<close>, \<open>seed\<close> that of \<open>RandomInit\<close>.\<close>

record boot_flags =
  debugArgs :: string
  randomYield :: bool
  seed :: "int option"
  debugUserProg :: bool
  format :: bool
  rely :: "string option"
  netname :: int

definition no_flags :: boot_flags where
  "no_flags = \<lparr>debugArgs = '''', randomYield = False, seed = None, debugUserProg = False, format = False, rely = None, netname = 0\<rparr>"

text \<open>One turn of the loop, with \<open>argCount\<close>.\<close>

definition initialize_arg :: "build \<Rightarrow> string \<Rightarrow> string list \<Rightarrow> boot_flags \<Rightarrow> (boot_flags \<times> nat) result" where
  "initialize_arg b arg others f =
     rbind
       (if arg = ''-d'' then
          Inr (if others = [] then (f\<lparr>debugArgs := ''+''\<rparr>, 1) else (f\<lparr>debugArgs := hd others\<rparr>, 2))
        else if arg = ''-rs'' then
          rbind (ASSERT (others \<noteq> [])) (\<lambda>_. Inr (f\<lparr>seed := Some (atoi (hd others)), randomYield := True\<rparr>, 2))
        else Inr (f, 1)) (\<lambda>(f, argCount).
     let f = (if USER_PROGRAM b \<and> arg = ''-s'' then f\<lparr>debugUserProg := True\<rparr> else f);
         f = (if FILESYS_NEEDED b \<and> arg = ''-f'' then f\<lparr>format := True\<rparr> else f) in
     if NETWORK b \<and> arg = ''-l'' then rbind (ASSERT (others \<noteq> [])) (\<lambda>_. Inr (f\<lparr>rely := Some (hd others)\<rparr>, 2))
     else if NETWORK b \<and> arg = ''-m'' then rbind (ASSERT (others \<noteq> [])) (\<lambda>_. Inr (f\<lparr>netname := atoi (hd others)\<rparr>, 2))
     else Inr (f, argCount))"

function initialize_args :: "build \<Rightarrow> string list \<Rightarrow> boot_flags \<Rightarrow> boot_flags result" where
  "initialize_args b [] f = Inr f"
| "initialize_args b (arg # others) f =
     rbind (initialize_arg b arg others f) (\<lambda>(f, argCount). initialize_args b (drop (argCount - 1) others) f)"
  by pat_completeness auto
termination
  by (relation "measure (\<lambda>(_, args, _). length args)") auto

subsection \<open>The test of the threads assignment\<close>

record test_params =
  testnum :: int
  threadnum :: int
  oprnum :: int
  yield_flag :: bool

definition default_params :: test_params where
  "default_params = \<lparr>testnum = 1, threadnum = 2, oprnum = 2, yield_flag = False\<rparr>"

text \<open>\<open>argv[0][1]\<close>: the terminating zero of a single character, and one past it of none.\<close>

definition second_char :: "string \<Rightarrow> char result" where
  "second_char s = (case s of [] \<Rightarrow> Inl OutOfBounds | [_] \<Rightarrow> Inr (CHR 0x00) | _ # c # _ \<Rightarrow> Inr c)"

definition atoi_arg :: "string list \<Rightarrow> int result" where
  "atoi_arg others = (case others of [] \<Rightarrow> Inl NullDeref | s # _ \<Rightarrow> Inr (atoi s))"

definition threads_arg :: "string \<Rightarrow> string list \<Rightarrow> test_params \<Rightarrow> (test_params \<times> nat) result" where
  "threads_arg arg others p =
     rbind (second_char arg) (\<lambda>c.
     if c = CHR ''q'' then rbind (atoi_arg others) (\<lambda>n. Inr (p\<lparr>testnum := n\<rparr>, 2))
     else if c = CHR ''t'' then rbind (atoi_arg others) (\<lambda>n. Inr (p\<lparr>threadnum := n\<rparr>, 2))
     else if c = CHR ''n'' then rbind (atoi_arg others) (\<lambda>n. Inr (p\<lparr>oprnum := n\<rparr>, 2))
     else if c = CHR ''y'' then rbind (atoi_arg others) (\<lambda>n. Inr (p\<lparr>yield_flag := (n \<noteq> 0)\<rparr>, 2))
     else Inr (p\<lparr>testnum := 1, threadnum := 2, oprnum := 2\<rparr>, 1))"

function threads_args :: "string list \<Rightarrow> test_params \<Rightarrow> test_params result" where
  "threads_args [] p = Inr p"
| "threads_args (arg # others) p =
     rbind (threads_arg arg others p) (\<lambda>(p, argCount). threads_args (drop (argCount - 1) others) p)"
  by pat_completeness auto
termination
  by (relation "measure (\<lambda>(args, _). length args)") auto

text \<open>\<open>threadtest.cc\<close>: the threads that \<open>ThreadTest\<close> forks, each with its name, its function and its argument.\<close>

datatype self_test = DLListTest | DLListTest1 | DLListTest2 | DLListTest3 | SynchTest | TableTest | BoundedBufferTest

definition getThreadName :: "int \<Rightarrow> string" where
  "getThreadName i =
     (if 0 \<le> i \<and> i \<le> 9 then
        [''Fork Thread 0'', ''Fork Thread 1'', ''Fork Thread 2'', ''Fork Thread 3'', ''Fork Thread 4'',
         ''Fork Thread 5'', ''Fork Thread 6'', ''Fork Thread 7'', ''Fork Thread 8'', ''Fork Thread 9''] ! nat i
      else ''Fork Thread X'')"

definition toDLListTest :: "test_params \<Rightarrow> self_test \<Rightarrow> (string \<times> self_test \<times> int) list" where
  "toDLListTest p func = map (\<lambda>i. (getThreadName i, func, i)) [0..threadnum p - 1]"

definition ThreadTest :: "test_params \<Rightarrow> (string \<times> self_test \<times> int) list" where
  "ThreadTest p =
     (if testnum p = 0 then toDLListTest p DLListTest
      else if testnum p = 1 then toDLListTest p DLListTest1
      else if testnum p = 2 then toDLListTest p DLListTest2
      else if testnum p = 3 then toDLListTest p DLListTest3
      else if testnum p = 4 then toDLListTest p SynchTest
      else if testnum p = 5 then toDLListTest p TableTest
      else if testnum p = 6 then toDLListTest p BoundedBufferTest
      else [])"

subsection \<open>main\<close>

text \<open>The calls that \<open>main\<close> makes, as long as each returns, and how it ends.\<close>

datatype boot_call =
    ForkThreads "(string \<times> self_test \<times> int) list"
  | PrintCopyright
  | StartProcess_call string
  | ConsoleTest_call "(string \<times> string) option"
  | Copy_call string string
  | Print_call string
  | Remove_call string
  | List_call
  | PrintFs_call
  | PerformanceTest_call
  | MailTest_call int

datatype boot_end = Finishes | Halts | Fails nerror

text \<open>One turn of the second loop: its calls, whether it halts, and \<open>argCount\<close>.\<close>

definition command_arg :: "build \<Rightarrow> string \<Rightarrow> string list \<Rightarrow> (boot_call list \<times> bool \<times> nat) result" where
  "command_arg b arg others =
     (let copyright = (if arg = ''-z'' then [PrintCopyright] else []) in
      rbind
        (if USER_PROGRAM b \<and> arg = ''-x'' then
           rbind (ASSERT (others \<noteq> [])) (\<lambda>_. Inr ([StartProcess_call (hd others)], False, 2))
         else if USER_PROGRAM b \<and> arg = ''-c'' then
           if others = [] then Inr ([ConsoleTest_call None], True, 1)
           else rbind (ASSERT (length others > 1)) (\<lambda>_. Inr ([ConsoleTest_call (Some (hd others, others ! 1))], True, 3))
         else Inr ([], False, 1)) (\<lambda>(user, halt, argCount).
      rbind
        (if FILESYS b \<and> arg = ''-cp'' then
           rbind (ASSERT (length others > 1)) (\<lambda>_. Inr ([Copy_call (hd others) (others ! 1)], 3))
         else if FILESYS b \<and> arg = ''-p'' then
           rbind (ASSERT (others \<noteq> [])) (\<lambda>_. Inr ([Print_call (hd others)], 2))
         else if FILESYS b \<and> arg = ''-r'' then
           rbind (ASSERT (others \<noteq> [])) (\<lambda>_. Inr ([Remove_call (hd others)], 2))
         else if FILESYS b \<and> arg = ''-l'' then Inr ([List_call], argCount)
         else if FILESYS b \<and> arg = ''-D'' then Inr ([PrintFs_call], argCount)
         else if FILESYS b \<and> arg = ''-t'' then Inr ([PerformanceTest_call], argCount)
         else Inr ([], argCount)) (\<lambda>(files, argCount).
      if NETWORK b \<and> arg = ''-o'' then
        rbind (ASSERT (others \<noteq> [])) (\<lambda>_. Inr (copyright @ user @ files @ [MailTest_call (atoi (hd others))], halt, 2))
      else Inr (copyright @ user @ files, halt, argCount))))"

function command_args :: "build \<Rightarrow> string list \<Rightarrow> boot_call list \<times> boot_end" where
  "command_args b [] = ([], Finishes)"
| "command_args b (arg # others) =
     (case command_arg b arg others of
        Inl e \<Rightarrow> ([], Fails e)
      | Inr (calls, halt, argCount) \<Rightarrow>
          if halt then (calls, Halts)
          else (let (calls', e) = command_args b (drop (argCount - 1) others) in (calls @ calls', e)))"
  by pat_completeness auto
termination
  by (relation "measure (\<lambda>(_, args). length args)") auto

text \<open>
  Both loops begin with \<open>argc--, argv++\<close>. The first one leaves nothing, and then \<open>argc\<close> becomes negative:
  \<^term>\<open>tl []\<close> is empty as well.
\<close>

definition nachos_main :: "build \<Rightarrow> string list \<Rightarrow> boot_call list \<times> boot_end" where
  "nachos_main b argv =
     (case initialize_args b (tl argv) no_flags of
        Inl e \<Rightarrow> ([], Fails e)
      | Inr f \<Rightarrow>
          if THREADS b then
            (case threads_args (tl argv) default_params of
               Inl e \<Rightarrow> ([], Fails e)
             | Inr p \<Rightarrow> let (calls, e) = command_args b (tl []) in (ForkThreads (ThreadTest p) # calls, e))
          else command_args b (tl argv))"

subsection \<open>Debug flags, utility.cc\<close>

text \<open>\<open>strchr\<close> finds the terminating zero too.\<close>

definition strchr :: "string \<Rightarrow> char \<Rightarrow> bool" where
  "strchr s c \<longleftrightarrow> c = CHR 0x00 \<or> c \<in> set s"

definition DebugIsEnabled :: "string option \<Rightarrow> char \<Rightarrow> bool" where
  "DebugIsEnabled enableFlags flag \<longleftrightarrow>
     (case enableFlags of None \<Rightarrow> False | Some flags \<Rightarrow> strchr flags flag \<or> strchr flags (CHR ''+''))"

subsection \<open>What reaches the commands\<close>

lemma initialize_arg_fails: "initialize_arg b arg others f = Inl e \<Longrightarrow> e = AssertFailed"
  by (auto simp: initialize_arg_def ASSERT_def Let_def split: if_splits)

lemma initialize_args_fails: "initialize_args b args f = Inl e \<Longrightarrow> e = AssertFailed"
proof (induction b args f rule: initialize_args.induct)
  case (2 b arg others f)
  show ?case
  proof (cases "initialize_arg b arg others f")
    case (Inl e')
    with 2 show ?thesis by (auto dest: initialize_arg_fails)
  next
    case (Inr p)
    with 2 show ?thesis by (cases p) auto
  qed
qed simp

lemma command_arg_fails: "command_arg b arg others = Inl e \<Longrightarrow> e = AssertFailed"
  by (auto simp: command_arg_def ASSERT_def Let_def split: if_splits)

lemma command_args_fails: "command_args b args = (calls, Fails e) \<Longrightarrow> e = AssertFailed"
proof (induction b args arbitrary: calls rule: command_args.induct)
  case (2 b arg others)
  show ?case
  proof (cases "command_arg b arg others")
    case (Inl e')
    with 2 show ?thesis by (auto dest: command_arg_fails)
  next
    case (Inr p)
    with 2 show ?thesis by (cases p) (auto split: if_splits prod.splits)
  qed
qed simp

text \<open>What can be asked of the kernel on its command line: the arguments and the call they stand for.\<close>

datatype command =
    ShowCopyright
  | RunProgram string
  | CopyFile string string
  | PrintFile string
  | RemoveFile string
  | ListFiles
  | PrintFiles
  | TestFiles
  | SendMail string

fun arguments :: "command \<Rightarrow> string list" where
  "arguments ShowCopyright = [''-z'']"
| "arguments (RunProgram f) = [''-x'', f]"
| "arguments (CopyFile u n) = [''-cp'', u, n]"
| "arguments (PrintFile f) = [''-p'', f]"
| "arguments (RemoveFile f) = [''-r'', f]"
| "arguments ListFiles = [''-l'']"
| "arguments PrintFiles = [''-D'']"
| "arguments TestFiles = [''-t'']"
| "arguments (SendMail n) = [''-o'', n]"

fun call_of :: "command \<Rightarrow> boot_call" where
  "call_of ShowCopyright = PrintCopyright"
| "call_of (RunProgram f) = StartProcess_call f"
| "call_of (CopyFile u n) = Copy_call u n"
| "call_of (PrintFile f) = Print_call f"
| "call_of (RemoveFile f) = Remove_call f"
| "call_of ListFiles = List_call"
| "call_of PrintFiles = PrintFs_call"
| "call_of TestFiles = PerformanceTest_call"
| "call_of (SendMail n) = MailTest_call (atoi n)"

text \<open>The commands that a build has.\<close>

fun available :: "build \<Rightarrow> command \<Rightarrow> bool" where
  "available b ShowCopyright \<longleftrightarrow> True"
| "available b (RunProgram f) \<longleftrightarrow> USER_PROGRAM b"
| "available b (SendMail n) \<longleftrightarrow> NETWORK b"
| "available b c \<longleftrightarrow> FILESYS b"

text \<open>The console test, which can only stand last: without files, or with the two of them.\<close>

fun console_arguments :: "(string \<times> string) option option \<Rightarrow> string list" where
  "console_arguments None = []"
| "console_arguments (Some None) = [''-c'']"
| "console_arguments (Some (Some (i, out))) = [''-c'', i, out]"

fun console_calls :: "(string \<times> string) option option \<Rightarrow> boot_call list \<times> boot_end" where
  "console_calls None = ([], Finishes)"
| "console_calls (Some files) = ([ConsoleTest_call files], Halts)"

text \<open>What \<open>Initialize\<close> takes for a flag, wherever it stands.\<close>

definition flags :: "build \<Rightarrow> string set" where
  "flags b = {''-d'', ''-rs''} \<union> (if USER_PROGRAM b then {''-s''} else {}) \<union>
     (if FILESYS_NEEDED b then {''-f''} else {}) \<union> (if NETWORK b then {''-l'', ''-m''} else {})"

lemma command_args_command:
  assumes "available b c"
  shows "command_args b (arguments c @ others) = (let (calls, e) = command_args b others in (call_of c # calls, e))"
  using assms by (cases c) (auto simp: command_arg_def split: prod.splits)

lemma command_args_console:
  "con \<noteq> None \<longrightarrow> USER_PROGRAM b \<Longrightarrow> command_args b (console_arguments con) = console_calls con"
  by (cases con rule: console_arguments.cases) (auto simp: command_arg_def)

lemma command_args_commands:
  assumes "\<forall>c \<in> set cs. available b c" and "con \<noteq> None \<longrightarrow> USER_PROGRAM b"
  shows "command_args b (concat (map arguments cs) @ console_arguments con) =
    (map call_of cs @ fst (console_calls con), snd (console_calls con))"
  using assms(1)
proof (induction cs)
  case Nil
  show ?case using command_args_console [OF assms(2)] by simp
next
  case (Cons c cs)
  then show ?case by (simp add: command_args_command)
qed

text \<open>Arguments that are none of the flags of \<open>Initialize\<close> leave the flags as they are.\<close>

lemma initialize_args_none:
  assumes "set args \<inter> flags b = {}"
  shows "initialize_args b args f = Inr f"
  using assms
proof (induction args arbitrary: f)
  case (Cons a args)
  then have a: "a \<notin> flags b" and rest: "set args \<inter> flags b = {}" by simp_all
  have "initialize_arg b a args f = Inr (f, 1)"
    using a by (cases "USER_PROGRAM b"; cases "FILESYS_NEEDED b"; cases "NETWORK b")
      (simp_all add: initialize_arg_def flags_def Let_def)
  with Cons.IH [OF rest] show ?case by simp
qed simp

lemma main_fails_by_assert: "\<not> THREADS b \<Longrightarrow> nachos_main b argv = (calls, Fails e) \<Longrightarrow> e = AssertFailed"
  by (auto simp: nachos_main_def split: sum.splits dest: initialize_args_fails command_args_fails)

text \<open>In a build with the network \<open>-l\<close> is the reliability as well, and cannot stand last.\<close>

lemma network_list_fails: "NETWORK b \<Longrightarrow> nachos_main b [prog, ''-l''] = ([], Fails AssertFailed)"
  by (simp add: nachos_main_def initialize_arg_def ASSERT_def Let_def)

lemma ThreadTest_forks: "0 \<le> testnum p \<and> testnum p \<le> 6 \<Longrightarrow> length (ThreadTest p) = nat (threadnum p)"
  by (auto simp: ThreadTest_def toDLListTest_def)

subsection \<open>Properties\<close>

text \<open>The builds of \<open>userprog/Makefile\<close> (with the stub of the file system), \<open>network/Makefile\<close> and \<open>filesys/Makefile\<close>.\<close>

definition userprog_build :: build where
  "userprog_build = \<lparr>THREADS = False, USER_PROGRAM = True, FILESYS_NEEDED = True, FILESYS = False, NETWORK = False\<rparr>"

definition network_build :: build where
  "network_build = \<lparr>THREADS = False, USER_PROGRAM = True, FILESYS_NEEDED = True, FILESYS = True, NETWORK = True\<rparr>"

definition filesys_build :: build where
  "filesys_build = \<lparr>THREADS = True, USER_PROGRAM = True, FILESYS_NEEDED = True, FILESYS = True, NETWORK = False\<rparr>"

text \<open>
  C30: In any build without the test of the threads assignment, \<open>main\<close> makes exactly the calls that its
  arguments ask for, in their order, as long as every call returns: the arguments written for a list of commands
  that the build has (\<open>-x\<close> with user programs, \<open>-o\<close> with the network, \<open>-z\<close> always, the others with the
  file system), followed or not by the console test, are read back as this list; \<open>main\<close> then finishes, or halts behind
  the console test. \<open>Initialize\<close> keeps its defaults. No argument, not even a file name, may be a flag that
  \<open>Initialize\<close> of this build looks for: \<open>-d\<close> and \<open>-rs\<close>; \<open>-s\<close> with user programs; \<open>-f\<close> where a file system is
  needed; \<open>-l\<close>, also the command that lists the directory, and \<open>-m\<close> with the network.
\<close>

theorem main_runs_commands:
  assumes "\<not> THREADS b" and "\<forall>c \<in> set cs. available b c" and "con \<noteq> None \<longrightarrow> USER_PROGRAM b"
    and "set (concat (map arguments cs) @ console_arguments con) \<inter> flags b = {}"
  shows "nachos_main b (prog # concat (map arguments cs) @ console_arguments con) =
      (map call_of cs @ fst (console_calls con), snd (console_calls con)) \<and>
    initialize_args b (concat (map arguments cs) @ console_arguments con) no_flags = Inr no_flags"
  using initialize_args_none [OF assms(4), of no_flags] command_args_commands [OF assms(2,3)] assms(1)
  by (simp add: nachos_main_def)

theorem main_runs_commands_witness:
  "nachos_main userprog_build [''nachos'', ''-z'', ''-x'', ''halt''] = ([PrintCopyright, StartProcess_call ''halt''], Finishes) \<and>
   nachos_main network_build [''nachos'', ''-cp'', ''a'', ''b'', ''-o'', ''1'', ''-c''] =
     ([Copy_call ''a'' ''b'', MailTest_call 1, ConsoleTest_call None], Halts)"
proof -
  have "atoi ''1'' = 1" by (simp add: atoi_def is_space_def digits_value_def is_digit_def)
  then show ?thesis
    using main_runs_commands [of userprog_build "[ShowCopyright, RunProgram ''halt'']" None "''nachos''"]
      main_runs_commands [of network_build "[CopyFile ''a'' ''b'', SendMail ''1'']" "Some None" "''nachos''"]
    by (simp add: userprog_build_def network_build_def flags_def)
qed

text \<open>
  With the test of the threads assignment no command is reached, whatever the arguments: \<open>main\<close> forks the
  threads of the test and finishes, or fails before. The loop of the test consumes all arguments,
  and the loop of the commands then starts with \<open>argc\<close> below zero. \<open>filesys/Makefile\<close> builds such a kernel:
  it cannot be told to copy, print or run a file.
\<close>

theorem threads_build_runs_no_command:
  assumes "THREADS b"
  shows "(\<exists>p. nachos_main b argv = ([ForkThreads (ThreadTest p)], Finishes)) \<or> (\<exists>e. nachos_main b argv = ([], Fails e))"
  using assms by (auto simp: nachos_main_def split: sum.splits)

theorem threads_build_runs_no_command_witness:
  "nachos_main filesys_build [''nachos'', ''-cp'', ''halt'', ''h''] =
     ([ForkThreads [(''Fork Thread 0'', DLListTest1, 0), (''Fork Thread 1'', DLListTest1, 1)]], Finishes) \<and>
   nachos_main filesys_build [''nachos'', ''-t''] = ([], Fails NullDeref)"
proof -
  have "THREADS filesys_build" by (simp add: filesys_build_def)
  from threads_build_runs_no_command [OF this, of "[''nachos'', ''-t'']"]
  have "nachos_main filesys_build [''nachos'', ''-t''] = ([], Fails NullDeref)"
    by (simp add: nachos_main_def filesys_build_def initialize_arg_def threads_arg_def second_char_def atoi_arg_def Let_def)
  moreover have "nachos_main filesys_build [''nachos'', ''-cp'', ''halt'', ''h''] =
     ([ForkThreads [(''Fork Thread 0'', DLListTest1, 0), (''Fork Thread 1'', DLListTest1, 1)]], Finishes)"
    by (simp add: nachos_main_def filesys_build_def initialize_arg_def threads_arg_def second_char_def atoi_arg_def Let_def
      ThreadTest_def toDLListTest_def getThreadName_def upto.simps)
  ultimately show ?thesis by blast
qed

end
