(* ===== verification/Disassembler.thy ===== *)
theory Disassembler
  imports Interpreters_Agree
begin

section \<open>The disassembler, bin/d.c and opstrings.c\<close>

text \<open>
  \<open>dump_ascii\<close> prints one instruction, for \<open>bin/disasm.c\<close>, for \<open>bin/out.c\<close> and for the trace of
  \<open>bin/execute.c\<close>, whose field macros it uses. Here it returns what it prints.
\<close>

subsection \<open>Names\<close>

definition normalops :: "string list" where
  "normalops =
     [''special'', ''bcond'', ''j'', ''jal'', ''beq'', ''bne'', ''blez'', ''bgtz'', ''addi'', ''addiu'',
      ''slti'', ''sltiu'', ''andi'', ''ori'', ''xori'', ''lui'', ''cop0'', ''cop1'', ''cop2'', ''cop3'',
      ''024'', ''025'', ''026'', ''027'', ''030'', ''031'', ''032'', ''033'', ''034'', ''035'', ''036'',
      ''037'', ''lb'', ''lh'', ''lwl'', ''lw'', ''lbu'', ''lhu'', ''lwr'', ''047'', ''sb'', ''sh'', ''swl'',
      ''sw'', ''054'', ''055'', ''swr'', ''057'', ''lwc0'', ''lwc1'', ''lwc2'', ''lwc3'', ''064'', ''065'',
      ''066'', ''067'', ''swc0'', ''swc1'', ''swc2'', ''swc3'', ''074'', ''075'', ''076'', ''077'']"

definition specialops :: "string list" where
  "specialops =
     [''sll'', ''001'', ''srl'', ''sra'', ''sllv'', ''005'', ''srlv'', ''srav'', ''jr'', ''jalr'', ''012'',
      ''013'', ''syscall'', ''break'', ''016'', ''017'', ''mfhi'', ''mthi'', ''mflo'', ''mtlo'', ''024'',
      ''025'', ''026'', ''027'', ''mult'', ''multu'', ''div'', ''divu'', ''034'', ''035'', ''036'', ''037'',
      ''add'', ''addu'', ''sub'', ''subu'', ''and'', ''or'', ''xor'', ''nor'', ''050'', ''051'', ''slt'',
      ''sltu'', ''054'', ''055'', ''056'', ''057'', ''060'', ''061'', ''062'', ''063'', ''064'', ''065'',
      ''066'', ''067'', ''070'', ''071'', ''072'', ''073'', ''074'', ''075'', ''076'', ''077'']"

definition regstrings :: "string list" where
  "regstrings =
     [''0'', ''r1'', ''r2'', ''r3'', ''r4'', ''r5'', ''r6'', ''r7'', ''r8'', ''r9'', ''r10'', ''r11'', ''r12'',
      ''r13'', ''r14'', ''r15'', ''r16'', ''r17'', ''r18'', ''r19'', ''r20'', ''r21'', ''r22'', ''r23'',
      ''r24'', ''r25'', ''r26'', ''r27'', ''gp'', ''sp'', ''r30'', ''r31'']"

subsection \<open>Printing numbers\<close>

definition hex_digit :: "nat \<Rightarrow> char" where
  "hex_digit n = ''0123456789abcdef'' ! n"

fun hex :: "nat \<Rightarrow> string" where
  "hex n = (if n < 16 then [hex_digit n] else hex (n div 16) @ [hex_digit (n mod 16)])"

declare hex.simps [simp del]

text \<open>\<open>%x\<close> and \<open>%08x\<close>.\<close>

definition print_x :: "32 word \<Rightarrow> string" where "print_x w = hex (unat w)"

definition print_08x :: "32 word \<Rightarrow> string" where
  "print_08x w = replicate (8 - length (print_x w)) (CHR ''0'') @ print_x w"

definition tab :: char where "tab = CHR 0x09"

subsection \<open>The macros of instr.h\<close>

definition off26 :: "32 word \<Rightarrow> 32 word" where "off26 i = push_bit 2 (i AND 0x3ffffff)"
definition top4 :: "32 word \<Rightarrow> 32 word" where "top4 i = i AND NOT 0xfffffff"
definition off16 :: "32 word \<Rightarrow> 32 word" where "off16 i = push_bit 2 (immed i)"

subsection \<open>One instruction\<close>

definition R :: "nat \<Rightarrow> string" where "R i = regstrings ! i"

text \<open>What the inner switch prints for a special instruction.\<close>

definition special_operands :: "host_op \<Rightarrow> 32 word \<Rightarrow> string" where
  "special_operands oc i =
     (if oc \<in> {I_SLL, I_SRL, I_SRA} then
        R (i_rd i) @ '','' @ R (i_rt i) @ '',0x'' @ print_x (word_of_nat (shamt i))
      else if oc \<in> {I_SLLV, I_SRLV, I_SRAV} then R (i_rd i) @ '','' @ R (i_rt i) @ '','' @ R (i_rs i)
      else if oc \<in> {I_JR, I_JALR, I_MFLO, I_MTLO} then R (i_rs i)
      else if oc \<in> {I_MFHI, I_MTHI} then R (i_rd i)
      else if oc \<in> {I_MULT, I_MULTU, I_DIV, I_DIVU} then R (i_rs i) @ '','' @ R (i_rt i)
      else if oc \<in> {I_ADD, I_ADDU, I_SUB, I_SUBU, I_AND, I_OR, I_XOR, I_NOR, I_SLT, I_SLTU} then
        R (i_rd i) @ '','' @ R (i_rs i) @ '','' @ R (i_rt i)
      else '''')"

definition bcond_name :: "host_op \<Rightarrow> string" where
  "bcond_name oc =
     (if oc = I_BLTZ then ''bltz'' else if oc = I_BGEZ then ''bgez'' else if oc = I_BLTZAL then ''bltzal''
      else if oc = I_BGEZAL then ''bgezal'' else ''BCOND'')"

text \<open>The loads and stores, those of the coprocessors included.\<close>

definition memory_op :: "nat \<Rightarrow> bool" where
  "memory_op opcode \<longleftrightarrow> 32 \<le> opcode \<and> opcode \<le> 38 \<or> 40 \<le> opcode \<and> opcode \<le> 43 \<or> opcode = 46 \<or>
     48 \<le> opcode \<and> opcode \<le> 51 \<or> 56 \<le> opcode \<and> opcode \<le> 59"

definition normal_operands :: "nat \<Rightarrow> 32 word \<Rightarrow> 32 word \<Rightarrow> string" where
  "normal_operands opcode pc i =
     (let oc = normal_opcodes ! opcode in
      if oc \<in> {I_J, I_JAL} then print_08x (top4 pc OR off26 i)
      else if oc \<in> {I_BEQ, I_BNE} then R (i_rt i) @ '','' @ R (i_rs i) @ '','' @ print_08x (off16 i + pc + 4)
      else if oc \<in> {I_ADDI, I_ADDIU, I_SLTI, I_SLTIU, I_ANDI, I_ORI, I_XORI} then
        R (i_rt i) @ '','' @ R (i_rs i) @ '',0x'' @ print_x (immed i)
      else if oc = I_LUI then R (i_rt i) @ '',0x'' @ print_x (immed i)
      else if memory_op opcode then R (i_rt i) @ '',0x'' @ print_x (immed i) @ ''('' @ R (i_rs i) @ '')''
      else '''')"

definition dump_ascii :: "bool \<Rightarrow> 32 word \<Rightarrow> 32 word \<Rightarrow> string" where
  "dump_ascii longdis i pc =
     (if longdis then print_08x pc @ '': '' @ print_08x i @ ''  '' else '''') @ [tab] @
     (let opcode = unat (drop_bit 26 i); oc = normal_opcodes ! opcode in
      if i = 0 then ''nop''
      else if oc = I_SPECIAL then
        let opcode = unat (i AND 0x3f)
        in specialops ! opcode @ [tab] @ special_operands (special_opcodes ! opcode) i
      else if oc = I_BCOND then
        bcond_name (bcond_opcode (i_rt i)) @ [tab] @ R (i_rs i) @ '','' @ print_08x (off16 i + pc + 4)
      else normalops ! opcode @ [tab] @ normal_operands opcode pc i)"

subsection \<open>Reading numbers and names back\<close>

definition digit_of :: "char \<Rightarrow> nat" where
  "digit_of c = length (takeWhile (\<lambda>d. d \<noteq> c) ''0123456789abcdef'')"

definition hex_value :: "string \<Rightarrow> nat" where
  "hex_value s = foldl (\<lambda>n c. 16 * n + digit_of c) 0 s"

lemma digit_of_digits: "\<forall>n\<in>set [0..<16]. digit_of (hex_digit n) = n \<and> hex_digit n \<notin> {CHR '','', CHR ''('', CHR 0x09}"
  by code_simp

lemma digit_of_hex_digit: "n < 16 \<Longrightarrow> digit_of (hex_digit n) = n" "n < 16 \<Longrightarrow> hex_digit n \<notin> {CHR '','', CHR ''('', CHR 0x09}"
proof -
  assume "n < 16"
  then have "n \<in> set [0..<16]" by simp
  from bspec [OF digit_of_digits this]
  show "digit_of (hex_digit n) = n" "hex_digit n \<notin> {CHR '','', CHR ''('', CHR 0x09}" by blast+
qed

lemma hex_value_hex: "hex_value (hex n) = n"
proof (induction n rule: hex.induct)
  case (1 n)
  show ?case
  proof (cases "n < 16")
    case True
    then show ?thesis by (simp add: hex.simps [of n] hex_value_def digit_of_hex_digit)
  next
    case False
    with 1 have "foldl (\<lambda>n c. 16 * n + digit_of c) 0 (hex (n div 16)) = n div 16" by (simp add: hex_value_def)
    then show ?thesis using False by (simp add: hex.simps [of n] hex_value_def digit_of_hex_digit)
  qed
qed

lemma hex_chars: "c \<in> {CHR '','', CHR ''('', CHR 0x09} \<Longrightarrow> c \<notin> set (hex n)"
proof (induction n rule: hex.induct)
  case (1 n)
  then show ?case
    using digit_of_hex_digit(2) [of n] digit_of_hex_digit(2) [of "n mod 16"] by (auto simp: hex.simps [of n])
qed

lemma hex_value_zeros: "hex_value (replicate k (CHR ''0'') @ s) = hex_value s"
proof -
  have "digit_of (CHR ''0'') = 0" by (simp add: digit_of_def)
  then have "foldl (\<lambda>n c. 16 * n + digit_of c) 0 (replicate k (CHR ''0'')) = 0" by (induction k) simp_all
  then show ?thesis by (simp add: hex_value_def)
qed

lemma print_x_inj [simp]: "print_x v = print_x w \<longleftrightarrow> v = w"
  by (metis hex_value_hex print_x_def word_unat_eq_iff)

lemma print_08x_inj [simp]: "print_08x v = print_08x w \<longleftrightarrow> v = w"
  by (metis hex_value_hex hex_value_zeros print_08x_def print_x_def word_unat_eq_iff)

lemma print_x_chars: "CHR '','' \<notin> set (print_x w)" "CHR ''('' \<notin> set (print_x w)"
  by (simp_all add: print_x_def hex_chars)

lemma separated: "c \<notin> set a \<Longrightarrow> c \<notin> set a' \<Longrightarrow> a @ c # b = a' @ c # b' \<longleftrightarrow> a = a' \<and> b = b'"
proof (induction a arbitrary: a')
  case Nil
  then show ?case by (cases a') auto
next
  case (Cons x a)
  then show ?case by (cases a') auto
qed

lemma registers_table:
  "distinct regstrings" "length regstrings = 32" "list_all (\<lambda>r. CHR '','' \<notin> set r \<and> CHR ''('' \<notin> set r \<and> CHR '')'' \<notin> set r) regstrings"
  by code_simp+

lemma R_inj: "i < 32 \<Longrightarrow> j < 32 \<Longrightarrow> R i = R j \<longleftrightarrow> i = j"
  using registers_table by (simp add: R_def nth_eq_iff_index_eq)

lemma R_chars: "i < 32 \<Longrightarrow> CHR '','' \<notin> set (R i)"
  using registers_table(2,3) by (simp add: R_def list_all_length)

lemma field_range: "i_rd w < 32" "i_rt w < 32" "i_rs w < 32" "shamt w < 32"
  by (simp_all add: i_rd_def i_rt_def i_rs_def shamt_def reg_field)

text \<open>The mnemonic, and the operation it names.\<close>

definition mnemonic :: "32 word \<Rightarrow> string" where
  "mnemonic i =
     (let opcode = unat (drop_bit 26 i AND 0x3f); oc = normal_opcodes ! opcode in
      if oc = I_SPECIAL then specialops ! unat (i AND 0x3f)
      else if oc = I_BCOND then bcond_name (bcond_opcode (i_rt i)) else normalops ! opcode)"

definition op_named :: "string \<Rightarrow> host_op" where
  "op_named s = (case map_of (zip normalops normal_opcodes @ zip specialops special_opcodes @
       [(''bltz'', I_BLTZ), (''bgez'', I_BGEZ), (''bltzal'', I_BLTZAL), (''bgezal'', I_BGEZAL)]) s of
     Some oc \<Rightarrow> oc | None \<Rightarrow> I_NONE)"

lemma named_tables:
  "map op_named normalops = normal_opcodes" "map op_named specialops = special_opcodes"
  by code_simp+

lemma named_bcond: "op_named (bcond_name (bcond_opcode n)) = bcond_opcode n"
proof -
  have "op_named ''bltz'' = I_BLTZ" "op_named ''bgez'' = I_BGEZ" "op_named ''bltzal'' = I_BLTZAL"
    "op_named ''bgezal'' = I_BGEZAL" "op_named ''BCOND'' = I_NONE"
    by code_simp+
  then show ?thesis by (simp add: bcond_name_def bcond_opcode_def)
qed

lemma op_named_mnemonic: "op_named (mnemonic w) = host_opcode w"
proof -
  have n: "length normalops = 64" "length specialops = 64"
    by (simp_all add: normalops_def specialops_def)
  have "op_named (normalops ! unat (drop_bit 26 w AND 0x3f)) = normal_opcodes ! unat (drop_bit 26 w AND 0x3f)"
    using nth_map [of "unat (drop_bit 26 w AND 0x3f)" normalops op_named] six_bits [of "drop_bit 26 w"]
    by (simp add: n named_tables)
  moreover have "op_named (specialops ! unat (w AND 0x3f)) = special_opcodes ! unat (w AND 0x3f)"
    using nth_map [of "unat (w AND 0x3f)" specialops op_named] six_bits [of w] by (simp add: n named_tables)
  ultimately show ?thesis
    by (simp add: mnemonic_def host_opcode_def opcode_field Let_def named_bcond)
qed

lemma mnemonic_chars: "tab \<notin> set (mnemonic w)"
proof -
  have "list_all (\<lambda>s. tab \<notin> set s) normalops" "list_all (\<lambda>s. tab \<notin> set s) specialops" "length normalops = 64" "length specialops = 64"
    by code_simp+
  then show ?thesis
    using six_bits [of "drop_bit 26 w"] six_bits [of w]
    by (simp add: mnemonic_def Let_def list_all_length bcond_name_def tab_def)
qed

definition operands :: "32 word \<Rightarrow> 32 word \<Rightarrow> string" where
  "operands i pc =
     (let opcode = unat (drop_bit 26 i AND 0x3f); oc = normal_opcodes ! opcode in
      if oc = I_SPECIAL then special_operands (special_opcodes ! unat (i AND 0x3f)) i
      else if oc = I_BCOND then R (i_rs i) @ '','' @ print_08x (off16 i + pc + 4)
      else normal_operands opcode pc i)"

lemma high_bits: "drop_bit 26 w AND 0x3f = drop_bit 26 w" for w :: "32 word"
proof -
  have m: "(0x3f :: 32 word) = mask 6" by (simp add: mask_eq_exp_minus_1)
  show ?thesis
    unfolding m by (intro bit_word_eqI) (auto simp: bit_and_iff bit_mask_iff bit_drop_bit_eq dest: bit_imp_le_length)
qed

lemma dump_ascii_split:
  "w \<noteq> 0 \<Longrightarrow> dump_ascii False w pc = tab # mnemonic w @ tab # operands w pc" "dump_ascii False 0 pc = tab # ''nop''"
  by (simp_all add: dump_ascii_def mnemonic_def operands_def high_bits Let_def)

lemma dump_ascii_eq:
  assumes "dump_ascii False w pc = dump_ascii False w' pc" and "w \<noteq> 0" and "w' \<noteq> 0"
  shows "host_opcode w = host_opcode w'" and "operands w pc = operands w' pc"
proof -
  have "mnemonic w = mnemonic w' \<and> operands w pc = operands w' pc"
    using assms separated [OF mnemonic_chars [of w] mnemonic_chars [of w']] by (simp add: dump_ascii_split)
  then show "host_opcode w = host_opcode w'" "operands w pc = operands w' pc"
    by (metis op_named_mnemonic, blast)
qed

lemma dump_nop: "dump_ascii False w pc = dump_ascii False 0 pc \<Longrightarrow> w = 0"
proof (rule ccontr)
  assume e: "dump_ascii False w pc = dump_ascii False 0 pc" and w: "w \<noteq> 0"
  have "tab \<in> set (mnemonic w @ tab # operands w pc)" by simp
  also have "mnemonic w @ tab # operands w pc = ''nop''" using e w by (simp add: dump_ascii_split)
  finally have "tab \<in> set ''nop''" .
  then show False by (simp add: tab_def)
qed

subsection \<open>What the text determines\<close>

lemma comma_R:
  assumes "i < 32" "i' < 32"
  shows "R i @ CHR '','' # s = R i' @ CHR '','' # s' \<longleftrightarrow> i = i' \<and> s = s'"
  using assms by (simp add: separated R_chars R_inj)

lemma paren_R:
  assumes "i < 32" "i' < 32"
  shows "print_x v @ CHR ''('' # R i @ s = print_x v' @ CHR ''('' # R i' @ s \<longleftrightarrow> v = v' \<and> i = i'"
  using assms by (simp add: separated print_x_chars R_inj)

lemma shamt_word: "word_of_nat (shamt w) = (word_of_nat (shamt w') :: 32 word) \<longleftrightarrow> shamt w = shamt w'"
proof -
  have "unat (word_of_nat (shamt v) :: 32 word) = shamt v" for v
    using field_range(4) [of v] by (simp add: unsigned_of_nat take_bit_nat_eq_self_iff)
  then show ?thesis by metis
qed

lemmas text_simps = comma_R R_inj paren_R print_x_inj print_08x_inj shamt_word field_range

text \<open>The operations whose text leaves out what they use.\<close>

definition printed_badly :: "host_op set" where
  "printed_badly = {I_JALR, I_MFLO, I_MTHI, I_BLEZ, I_BGTZ}"

lemma same_special:
  assumes oc: "host_opcode w = oc" "host_opcode w' = oc" "oc \<in> set special_opcodes" "oc \<noteq> I_NONE" "oc \<notin> printed_badly"
    and e: "operands w pc = operands w' pc"
  shows "host_execute sys pc w S = host_execute sys pc w' S"
proof -
  note s = switch_special [OF oc(1,3,4)] switch_special [OF oc(2,3,4)]
  have "normal_opcodes ! unat (drop_bit 26 v AND 0x3f) = I_SPECIAL" if "host_opcode v = oc" for v
  proof -
    have "oc \<notin> set normal_opcodes" "oc \<notin> {I_BLTZ, I_BGEZ, I_BLTZAL, I_BGEZAL}"
      using oc(3,4) by (auto simp: special_set normal_set)
    with that oc(4) normal_entries [of v] show ?thesis
      by (auto simp: host_opcode_def opcode_field Let_def bcond_opcode_def split: if_splits)
  qed
  with e s oc have "special_operands oc w = special_operands oc w'" by (simp add: operands_def)
  with oc(3,4,5) show ?thesis
    unfolding s(1,4)
    by (simp add: special_set printed_badly_def, elim disjE)
      (simp_all add: special_operands_def host_special_def s(2,5) text_simps Let_def)
qed

lemma normal_not_special:
  assumes "host_opcode v = oc" "oc \<in> set normal_opcodes" "oc \<noteq> I_NONE"
  shows "normal_opcodes ! unat (drop_bit 26 v AND 0x3f) = oc" "oc \<noteq> I_SPECIAL" "oc \<noteq> I_BCOND"
proof -
  show n: "normal_opcodes ! unat (drop_bit 26 v AND 0x3f) = oc" by (rule switch_normal(1) [OF assms])
  have "oc \<notin> set special_opcodes" "oc \<notin> {I_BLTZ, I_BGEZ, I_BLTZAL, I_BGEZAL}"
    using assms(2,3) by (auto simp: special_set normal_set)
  with n assms(1,3) show "oc \<noteq> I_SPECIAL" "oc \<noteq> I_BCOND"
    using special_in_table [of v] by (auto simp: host_opcode_def opcode_field Let_def bcond_opcode_def split: if_splits)
qed

lemma memory_ops:
  assumes "n < 64" and "normal_opcodes ! n \<in> {I_LB, I_LH, I_LWL, I_LW, I_LBU, I_LHU, I_LWR, I_SB, I_SH, I_SW}"
  shows "memory_op n"
proof -
  have "\<forall>n\<in>set [0..<64]. normal_opcodes ! n \<in> set [I_LB, I_LH, I_LWL, I_LW, I_LBU, I_LHU, I_LWR, I_SB, I_SH, I_SW] \<longrightarrow> memory_op n"
    by code_simp
  moreover have "n \<in> set [0..<64]" using assms(1) by simp
  ultimately show ?thesis using assms(2) by (metis list.set(1) list.set(2))
qed

lemma same_normal:
  assumes oc: "host_opcode w = oc" "host_opcode w' = oc" "oc \<in> set normal_opcodes" "oc \<noteq> I_NONE" "oc \<notin> printed_badly"
    and e: "operands w pc = operands w' pc"
  shows "host_execute sys pc w S = host_execute sys pc w' S"
proof -
  note n = normal_not_special [OF oc(1,3,4)] normal_not_special [OF oc(2,3,4)]
  have eq: "normal_operands (unat (drop_bit 26 w AND 0x3f)) pc w = normal_operands (unat (drop_bit 26 w' AND 0x3f)) pc w'"
    using e n by (simp add: operands_def)
  have "memory_op (unat (drop_bit 26 v AND 0x3f))"
    if "host_opcode v = oc" "oc \<in> {I_LB, I_LH, I_LWL, I_LW, I_LBU, I_LHU, I_LWR, I_SB, I_SH, I_SW}" for v
    using memory_ops [OF six_bits [of "drop_bit 26 v"]] normal_not_special(1) [OF that(1) oc(3,4)] that(2) by simp
  note mem = this [OF oc(1)] this [OF oc(2)]
  have "(NOT 0xfffffff :: 32 word) = 0xf0000000" by simp
  then have top: "top4 pc = pc AND 0xf0000000" by (simp only: top4_def)
  note ops = eq [unfolded normal_operands_def n(1,4) Let_def]
  have jump: "(pc AND 0xf0000000) OR push_bit 2 (w AND 0x3ffffff) = (pc AND 0xf0000000) OR push_bit 2 (w' AND 0x3ffffff)"
    if "oc \<in> {I_J, I_JAL}"
    using ops that by (simp only: if_True top off26_def print_08x_inj)
  have br: "i_rt w = i_rt w' \<and> i_rs w = i_rs w' \<and> push_bit 2 (immed w) = push_bit 2 (immed w')" if "oc \<in> {I_BEQ, I_BNE}"
    using ops that by (auto simp: text_simps off16_def)
  have imm: "i_rt w = i_rt w' \<and> i_rs w = i_rs w' \<and> immed w = immed w'"
    if "oc \<in> {I_ADDI, I_ADDIU, I_SLTI, I_SLTIU, I_ANDI, I_ORI, I_XORI}"
    using ops that by (auto simp: text_simps)
  have lui: "i_rt w = i_rt w' \<and> immed w = immed w'" if "oc = I_LUI"
    using ops that by (auto simp: text_simps)
  have memo: "i_rt w = i_rt w' \<and> i_rs w = i_rs w' \<and> immed w = immed w'"
    if "oc \<in> {I_LB, I_LH, I_LWL, I_LW, I_LBU, I_LHU, I_LWR, I_SB, I_SH, I_SW}"
    using ops that mem by (auto simp: text_simps)
  have lui': "push_bit 16 w = push_bit 16 w'" if "oc = I_LUI"
    using lui [OF that] immed_high [of w] immed_high [of w'] by simp
  note run = host_execute_def opcode_field n(1,4) Let_def
  consider (j) "oc \<in> {I_J, I_JAL}" | (b) "oc \<in> {I_BEQ, I_BNE}" | (l) "oc = I_LUI"
    | (i) "oc \<in> {I_ADDI, I_ADDIU, I_SLTI, I_SLTIU, I_ANDI, I_ORI, I_XORI}"
    | (m) "oc \<in> {I_LB, I_LH, I_LWL, I_LW, I_LBU, I_LHU, I_LWR, I_SB, I_SH, I_SW}"
    | (x) "oc \<in> {I_COPROC, I_SWL, I_SWR}"
    using oc(3,4,5) n(2,3) by (auto simp: normal_set printed_badly_def)
  then show ?thesis
  proof cases
    case j
    then show ?thesis using jump [OF j] by (auto simp: run)
  next
    case b
    then show ?thesis using br [OF b] by (auto simp: run branch_def)
  next
    case l
    then show ?thesis using lui [OF l] lui' [OF l] by (simp add: run)
  next
    case i
    then show ?thesis using imm [OF i] by (auto simp: run)
  next
    case m
    then show ?thesis using memo [OF m] by (auto simp: run host_memory_def)
  next
    case x
    then show ?thesis by (auto simp: run)
  qed
qed

lemma same_bcond:
  assumes oc: "host_opcode w = oc" "host_opcode w' = oc" "oc \<in> {I_BLTZ, I_BGEZ, I_BLTZAL, I_BGEZAL}"
    and e: "operands w pc = operands w' pc"
  shows "host_execute sys pc w S = host_execute sys pc w' S"
proof -
  note s = switch_bcond [OF oc(1,3)] switch_bcond [OF oc(2,3)]
  have "normal_opcodes ! unat (drop_bit 26 v AND 0x3f) = I_BCOND" if "host_opcode v = oc" for v
  proof -
    have "oc \<notin> set normal_opcodes" "oc \<notin> set special_opcodes" using oc(3) by (auto simp: special_set normal_set)
    with that normal_entries [of v] special_in_table [of v] show ?thesis
      by (auto simp: host_opcode_def opcode_field Let_def split: if_splits)
  qed
  with oc e have "R (i_rs w) @ '','' @ print_08x (off16 w + pc + 4) = R (i_rs w') @ '','' @ print_08x (off16 w' + pc + 4)"
    by (simp add: operands_def)
  then have "i_rs w = i_rs w'" "push_bit 2 (immed w) = push_bit 2 (immed w')"
    by (auto simp: text_simps off16_def)
  with oc(3) show ?thesis unfolding s(1,4) by (auto simp: host_bcond_def s(2,5) branch_def Let_def)
qed

lemma none_exits:
  assumes "host_opcode w = I_NONE"
  shows "host_execute sys pc w S = Inl (Exited 2)"
  using assms by (auto simp: host_opcode_def host_execute_def host_special_def host_bcond_def Let_def split: if_splits)

lemma same_text_same_run:
  assumes e: "dump_ascii False w pc = dump_ascii False w' pc" and w: "w \<noteq> 0" "w' \<noteq> 0" and ok: "host_opcode w \<notin> printed_badly"
  shows "host_execute sys pc w S = host_execute sys pc w' S"
proof -
  define oc where "oc = host_opcode w"
  have o: "host_opcode w = oc" "host_opcode w' = oc" "operands w pc = operands w' pc" "oc \<notin> printed_badly"
    using dump_ascii_eq [OF e w] ok by (simp_all add: oc_def)
  have "oc = I_NONE \<or> oc \<in> set special_opcodes \<or> oc \<in> {I_BLTZ, I_BGEZ, I_BLTZAL, I_BGEZAL} \<or> oc \<in> set normal_opcodes"
    using o(1) normal_entries [of w] special_in_table [of w]
    by (auto simp: host_opcode_def opcode_field Let_def bcond_opcode_def split: if_splits)
  then show ?thesis
    using same_special [OF o(1,2) _ _ o(4,3)] same_bcond [OF o(1,2) _ o(3)] same_normal [OF o(1,2) _ _ o(4,3)]
      none_exits [of w] none_exits [of w'] o(1,2) by (cases "oc = I_NONE") (simp, blast)
qed

text \<open>The text of MFLO shows the field rs, which is not used, instead of its target.\<close>

lemma MFLO_text_ambiguous:
  "dump_ascii False 0x00000812 pc = dump_ascii False 0x00001012 pc"
  "host_execute sys pc 0x00000812 S \<noteq> host_execute sys pc 0x00001012 S \<or> Reg S 1 = LO S \<or> Reg S 2 = LO S"
proof -
  show "dump_ascii False 0x00000812 pc = dump_ascii False 0x00001012 pc"
    by (simp add: dump_ascii_def normal_opcodes_def special_opcodes_def special_operands_def i_rs_def)
  have "set_Reg 1 (LO S) S = set_Reg 2 (LO S) S \<Longrightarrow> Reg S 1 = LO S"
    by (drule arg_cong [where f = "\<lambda>S. Reg S 1"]) simp
  then show "host_execute sys pc 0x00000812 S \<noteq> host_execute sys pc 0x00001012 S \<or> Reg S 1 = LO S \<or> Reg S 2 = LO S"
    by (auto simp: host_execute_def host_special_def normal_opcodes_def special_opcodes_def i_rd_def)
qed

subsection \<open>The property\<close>

text \<open>
  C31: What is printed of an instruction determines what the interpreter does: two words that print alike (without
  the hexadecimal columns), at the same address, are both the empty instruction or are executed alike in every
  state, except for JALR, MFLO, MTHI, BLEZ and BGTZ, whose text leaves out a register or the target.
\<close>

theorem text_determines_execution:
  assumes "dump_ascii False w pc = dump_ascii False w' pc" and "host_opcode w \<notin> {I_JALR, I_MFLO, I_MTHI, I_BLEZ, I_BGTZ}"
  shows "w = 0 \<and> w' = 0 \<or> w \<noteq> 0 \<and> w' \<noteq> 0 \<and> host_execute sys pc w S = host_execute sys pc w' S"
  using same_text_same_run [OF assms(1)] assms dump_nop [of w pc] dump_nop [of w' pc]
  by (cases "w = 0"; cases "w' = 0") (auto simp: printed_badly_def)

text \<open>ADDU r1,r2,r3 with and without bits in the unused field.\<close>

theorem text_determines_execution_witness:
  "host_execute (\<lambda>_. Inl (Exited 2)) 0 0x00430821 addu_host = host_execute (\<lambda>_. Inl (Exited 2)) 0 0x00430fe1 addu_host"
proof -
  have t: "dump_ascii False 0x00430821 0 = dump_ascii False 0x00430fe1 0"
    by (simp add: dump_ascii_def normal_opcodes_def special_opcodes_def special_operands_def i_rs_def i_rt_def i_rd_def)
  have o: "host_opcode 0x00430821 = I_ADDU"
    by (simp add: host_opcode_def normal_opcodes_def special_opcodes_def)
  from text_determines_execution [OF t, of "\<lambda>_. Inl (Exited 2)" addu_host] o show ?thesis by simp
qed

end
