(* ===== verification/Find_Files.thy ===== *)
theory Find_Files
  imports Nachos_Prelude
begin

section \<open>Walking directories, unix/homework/homework_2/myfind.c\<close>

text \<open>
  A program that walks a directory tree and counts the files of each kind, or prints those with the contents
  of a given file, or those with given names. The file system below is an argument: \<open>lstat\<close>, the names that
  \<open>readdir\<close> yields of a directory that can be opened, the contents of files, and the name that \<open>getcwd\<close> gives
  a directory after \<open>chdir\<close> to it.
\<close>

datatype file_kind = Regular | BlockSpecial | CharSpecial | Fifo | SymLink | Socket | Folder | OtherKind

record stat =
  st_mode :: file_kind
  st_size :: int

record host_files =
  lstat :: "string \<Rightarrow> stat option"
  readdir :: "string \<Rightarrow> string list option"
  contents :: "string \<Rightarrow> byte list option"
  real_dir :: "string \<Rightarrow> string"

definition PATHSIZE :: nat where "PATHSIZE = 255"
definition NAMESIZE :: nat where "NAMESIZE = 55"
definition STRNUM :: nat where "STRNUM = 15"

text \<open>\<open>PathOverflow\<close> and \<open>NameOverflow\<close> are writes past a buffer, \<open>Overread\<close> a read past one.\<close>

datatype find_stop = Exit int | PathOverflow | NameOverflow | Overread | NullPointer

text \<open>The global variables that the walk changes, and what it prints to \<open>stdout\<close>.\<close>

record find_state =
  fullpath :: string
  nreg :: int
  ndir :: int
  nblk :: int
  nchr :: int
  nfifo :: int
  nslink :: int
  nsock :: int
  nlit :: int
  printed :: "string list"

type_synonym find_result = "find_stop + int \<times> find_state"

datatype find_type = FIND_F | FIND_D | FIND_DNR | FIND_NS

datatype walk_type = TYPE_P | TYPE_C | TYPE_N

text \<open>\<open>strrchr(s, '/')\<close> as the two halves of the string, without the slash.\<close>

definition at_last_slash :: "string \<Rightarrow> (string \<times> string) option" where
  "at_last_slash s =
     (if CHR ''/'' \<in> set s
      then let name = rev (takeWhile (\<lambda>c. c \<noteq> CHR ''/'') (rev s)) in Some (take (length s - length name - 1) s, name)
      else None)"

definition path_noloop :: "string \<Rightarrow> find_stop + bool" where
  "path_noloop pathname = (case at_last_slash pathname of
     None \<Rightarrow> Inl (Exit 1)
   | Some (_, name) \<Rightarrow> Inr (name \<noteq> ''.'' \<and> name \<noteq> ''..''))"

subsection \<open>What is done with a file\<close>

type_synonym Myfunc = "string \<Rightarrow> stat option \<Rightarrow> find_type \<Rightarrow> find_state \<Rightarrow> find_result"

definition count_kind :: "file_kind \<Rightarrow> find_state \<Rightarrow> find_state" where
  "count_kind m s = (case m of
     Regular \<Rightarrow> s\<lparr>nreg := nreg s + 1\<rparr>
   | BlockSpecial \<Rightarrow> s\<lparr>nblk := nblk s + 1\<rparr>
   | CharSpecial \<Rightarrow> s\<lparr>nchr := nchr s + 1\<rparr>
   | Fifo \<Rightarrow> s\<lparr>nfifo := nfifo s + 1\<rparr>
   | SymLink \<Rightarrow> s\<lparr>nslink := nslink s + 1\<rparr>
   | Socket \<Rightarrow> s\<lparr>nsock := nsock s + 1\<rparr>
   | _ \<Rightarrow> s)"

definition myfunc1 :: Myfunc where
  "myfunc1 pathname st type s =
     (case (type, st) of
        (FIND_F, Some st) \<Rightarrow>
          let s = count_kind (st_mode st) s in
          Inr (0, if st_size st \<le> 4096 then s\<lparr>nlit := nlit s + 1\<rparr> else s)
      | (FIND_D, _) \<Rightarrow> Inr (0, s\<lparr>ndir := ndir s + 1\<rparr>)
      | _ \<Rightarrow> Inr (0, s))"

text \<open>\<open>curpath\<close> up to the last slash, made absolute, and \<open>pos\<close>, the name with its slash.\<close>

definition print_place :: "host_files \<Rightarrow> string \<Rightarrow> find_state \<Rightarrow> find_result" where
  "print_place h pathname s = (case (at_last_slash (fullpath s), at_last_slash pathname) of
     (Some (curpath, _), Some (_, name)) \<Rightarrow> Inr (0, s\<lparr>printed := printed s @ [real_dir h curpath @ ''/'' @ name]\<rparr>)
   | _ \<Rightarrow> Inl NullPointer)"

text \<open>
  \<open>c_filebuf\<close> holds the \<open>c_filelen\<close> bytes of the file to compare with; \<open>fullbuf\<close> has as many, and holds \<open>junk\<close>
  where nothing was read into it. The \<open>memset\<close> behind \<open>malloc\<close>, of the size of a pointer, is left out.
\<close>

definition myfunc2 :: "host_files \<Rightarrow> byte list \<Rightarrow> byte list \<Rightarrow> Myfunc" where
  "myfunc2 h c_filebuf junk pathname st type s =
     (case (type, st) of
        (FIND_F, Some st) \<Rightarrow>
          let c_filelen = length c_filebuf;
              got = (case contents h pathname of None \<Rightarrow> [] | Some bs \<Rightarrow> take c_filelen bs);
              fullbuf = got @ take (c_filelen - length got) (drop (length got) junk) in
          if st_size st > int c_filelen then Inl Overread
          else if take (nat (st_size st)) fullbuf = take (nat (st_size st)) c_filebuf then print_place h pathname s
          else Inr (0, s)
      | _ \<Rightarrow> Inr (0, s))"

definition myfunc3 :: "host_files \<Rightarrow> string list \<Rightarrow> Myfunc" where
  "myfunc3 h name_str pathname st type s =
     (if type = FIND_F then
        case at_last_slash pathname of
          None \<Rightarrow> Inl NullPointer
        | Some (_, namebuf) \<Rightarrow>
            if length namebuf \<ge> NAMESIZE then Inl NameOverflow
            else if namebuf \<in> set name_str then print_place h pathname s
            else Inr (0, s)
      else Inr (0, s))"

subsection \<open>The walk\<close>

text \<open>
  The three cases of \<open>dopath\<close> do the same but for \<open>TYPE_P\<close>, which calls the function for a directory too
  and takes its result for \<open>ret\<close>; the others leave \<open>ret\<close> uninitialised: \<open>junk\<close>. \<open>entries\<close> is the loop. The
  calls inside it leave the first \<open>n\<close> characters of \<open>fullpath\<close> alone, which are \<open>base\<close>, the path with its slash.
\<close>

definition set_path :: "string \<Rightarrow> find_state \<Rightarrow> find_stop + find_state" where
  "set_path p s = (if length p < PATHSIZE then Inr (s\<lparr>fullpath := p\<rparr>) else Inl PathOverflow)"

function dopath :: "host_files \<Rightarrow> Myfunc \<Rightarrow> walk_type \<Rightarrow> int \<Rightarrow> find_state \<Rightarrow> find_result"
  and entries :: "host_files \<Rightarrow> Myfunc \<Rightarrow> walk_type \<Rightarrow> int \<Rightarrow> string \<Rightarrow> string list \<Rightarrow> int \<Rightarrow> find_state \<Rightarrow> find_result" where
  "dopath h func type junk s =
     (case lstat h (fullpath s) of
        None \<Rightarrow> func (fullpath s) None FIND_NS s
      | Some st \<Rightarrow>
          if st_mode st \<noteq> Folder then func (fullpath s) (Some st) FIND_F s
          else
            ebind (if type = TYPE_P then func (fullpath s) (Some st) FIND_D s else Inr (junk, s)) (\<lambda>(ret, s1).
            if type = TYPE_P \<and> ret \<noteq> 0 then Inr (ret, s1)
            else (case readdir h (fullpath s) of
               None \<Rightarrow> func (fullpath s) (Some st) FIND_DNR s1
             | Some names \<Rightarrow>
                 if length (fullpath s) + 1 < PATHSIZE then
                   ebind (entries h func type junk (fullpath s @ ''/'') names ret (s1\<lparr>fullpath := fullpath s @ ''/''\<rparr>)) (\<lambda>(ret, s2).
                   Inr (ret, s2\<lparr>fullpath := fullpath s\<rparr>))
                 else Inl PathOverflow)))"
| "entries h func type junk base [] ret s = Inr (ret, s)"
| "entries h func type junk base (d_name # names) ret s =
     (if length (base @ d_name) < PATHSIZE then
        ebind (path_noloop (base @ d_name)) (\<lambda>b.
        if b then
          ebind (dopath h func type junk (s\<lparr>fullpath := base @ d_name\<rparr>)) (\<lambda>(r, s).
          if r \<noteq> 0 then Inr (1, s) else entries h func type junk base names 0 s)
        else entries h func type junk base names ret (s\<lparr>fullpath := base @ d_name\<rparr>))
      else Inl PathOverflow)"
  by pat_completeness auto
termination
  by (relation "inv_image (less_than <*lex*> less_than)
    (\<lambda>x. case x of Inl (h, func, type, junk, s) \<Rightarrow> (PATHSIZE - length (fullpath s), 0)
       | Inr (h, func, type, junk, base, names, ret, s) \<Rightarrow> (PATHSIZE - length base, Suc (length names)))") auto

definition myfind :: "host_files \<Rightarrow> string \<Rightarrow> Myfunc \<Rightarrow> walk_type \<Rightarrow> int \<Rightarrow> find_state \<Rightarrow> find_result" where
  "myfind h pathname func type junk s =
     ebind (set_path pathname s) (\<lambda>s.
     case lstat h (fullpath s) of
       None \<Rightarrow> Inl (Exit 1)
     | Some st \<Rightarrow> if st_mode st \<noteq> Folder then Inl (Exit 1) else dopath h func type junk s)"

subsection \<open>The command line\<close>

definition find_start :: find_state where
  "find_start = \<lparr>fullpath = [], nreg = 0, ndir = 0, nblk = 0, nchr = 0, nfifo = 0, nslink = 0, nsock = 0, nlit = 0, printed = []\<rparr>"

text \<open>\<open>strcpy(name_str[i], argv[i + 3])\<close> for every name.\<close>

definition copy_names :: "string list \<Rightarrow> find_stop + string list" where
  "copy_names names =
     (if length names > STRNUM \<or> (\<exists>n \<in> set names. length n \<ge> NAMESIZE) then Inl NameOverflow else Inr names)"

text \<open>\<open>main\<close> up to the printing of the counts; the file to compare with is taken to fit into its buffer of a gigabyte.\<close>

definition find_main :: "host_files \<Rightarrow> string list \<Rightarrow> int \<Rightarrow> byte list \<Rightarrow> find_result" where
  "find_main h argv junk heap =
     (case argv of
        [prog, path] \<Rightarrow> myfind h path myfunc1 TYPE_P junk find_start
      | prog # path # option # arg # args \<Rightarrow>
          if option = ''-comp'' then
            if args \<noteq> [] then Inl (Exit 1)
            else if lstat h path = None then Inl (Exit 1)
            else if length arg \<ge> PATHSIZE then Inl PathOverflow
            else (case lstat h arg of
              None \<Rightarrow> Inl (Exit 1)
            | Some st \<Rightarrow>
                if st_mode st = Folder then Inl (Exit 1)
                else (case contents h arg of
                  None \<Rightarrow> Inl (Exit 1)
                | Some c_filebuf \<Rightarrow> myfind h path (myfunc2 h c_filebuf heap) TYPE_C junk find_start))
          else if option = ''-name'' then
            ebind (copy_names (arg # args)) (\<lambda>name_str. myfind h path (myfunc3 h name_str) TYPE_N junk find_start)
          else Inl (Exit 1)
      | _ \<Rightarrow> Inl (Exit 1))"

subsection \<open>Trees\<close>

text \<open>What is below a path: a file, nothing, a directory that cannot be opened, or a directory.\<close>

datatype ftree = File stat | Gone | Closed | Dir "(string \<times> ftree) list"

definition is_folder :: "host_files \<Rightarrow> string \<Rightarrow> bool" where
  "is_folder h p \<longleftrightarrow> (case lstat h p of None \<Rightarrow> False | Some st \<Rightarrow> st_mode st = Folder)"

definition proper :: "string list \<Rightarrow> string list" where
  "proper names = filter (\<lambda>n. n \<noteq> ''.'' \<and> n \<noteq> ''..'') names"

text \<open>The tree is what the file system shows below \<open>p\<close>, and its paths fit into the buffer.\<close>

fun represents :: "host_files \<Rightarrow> string \<Rightarrow> ftree \<Rightarrow> bool" where
  "represents h p (File st) \<longleftrightarrow> lstat h p = Some st \<and> st_mode st \<noteq> Folder"
| "represents h p Gone \<longleftrightarrow> lstat h p = None"
| "represents h p Closed \<longleftrightarrow> is_folder h p \<and> readdir h p = None"
| "represents h p (Dir es) \<longleftrightarrow> is_folder h p \<and> length p + 1 < PATHSIZE \<and>
     (case readdir h p of None \<Rightarrow> False
      | Some names \<Rightarrow> proper names = map fst es \<and> (\<forall>n \<in> set names. CHR ''/'' \<notin> set n \<and> length p + 1 + length n < PATHSIZE)) \<and>
     (\<forall>(n, t) \<in> set es. represents h (p @ ''/'' @ n) t)"

fun files_of :: "string \<Rightarrow> ftree \<Rightarrow> (string \<times> stat) list" where
  "files_of p (File st) = [(p, st)]"
| "files_of p Gone = []"
| "files_of p Closed = []"
| "files_of p (Dir es) = concat (map (\<lambda>(n, t). files_of (p @ ''/'' @ n) t) es)"

fun folders_of :: "ftree \<Rightarrow> nat" where
  "folders_of (File st) = 0"
| "folders_of Gone = 0"
| "folders_of Closed = 1"
| "folders_of (Dir es) = Suc (sum_list (map (\<lambda>(n, t). folders_of t) es))"

lemma at_last_slash_app: "CHR ''/'' \<notin> set n \<Longrightarrow> at_last_slash (p @ CHR ''/'' # n) = Some (p, n)"
proof -
  assume n: "CHR ''/'' \<notin> set n"
  have "takeWhile (\<lambda>c. c \<noteq> CHR ''/'') (rev (p @ CHR ''/'' # n)) = rev n"
    using n by (simp, subst takeWhile_append2) auto
  then show ?thesis by (simp add: at_last_slash_def Let_def)
qed

lemma path_noloop_app: "CHR ''/'' \<notin> set n \<Longrightarrow> path_noloop (p @ CHR ''/'' # n) = Inr (n \<noteq> ''.'' \<and> n \<noteq> ''..'')"
  by (simp add: path_noloop_def at_last_slash_app)

declare dopath.simps [simp del] entries.simps [simp del]

subsection \<open>The walk as a visit of the tree\<close>

text \<open>
  The contract between the walk and its function: what the function does with a file, on \<open>fullpath\<close> and reported
  as returning 0, what it does with a directory, and that it leaves \<open>fullpath\<close> alone.
\<close>

locale visitor =
  fixes func :: "string \<Rightarrow> stat option \<Rightarrow> find_type \<Rightarrow> find_state \<Rightarrow> find_result"
    and good :: "string \<Rightarrow> stat \<Rightarrow> bool"
    and on_file :: "string \<Rightarrow> stat \<Rightarrow> find_state \<Rightarrow> find_state"
    and on_folder :: "find_state \<Rightarrow> find_state"
  assumes func_file: "fullpath s = p \<Longrightarrow> good p st \<Longrightarrow> func p (Some st) FIND_F s = Inr (0, on_file p st s)"
    and func_folder: "func p so FIND_D s = Inr (0, on_folder s)"
    and func_closed: "func p so FIND_DNR s = Inr (0, s)"
    and func_gone: "func p so FIND_NS s = Inr (0, s)"
    and file_path: "on_file p st (s\<lparr>fullpath := q\<rparr>) = (on_file p st s)\<lparr>fullpath := q\<rparr>"
    and folder_path: "on_folder (s\<lparr>fullpath := q\<rparr>) = (on_folder s)\<lparr>fullpath := q\<rparr>"
begin

text \<open>The files in their order, before them their directory.\<close>

fun visit :: "walk_type \<Rightarrow> string \<Rightarrow> ftree \<Rightarrow> find_state \<Rightarrow> find_state" where
  "visit type p (File st) s = on_file p st s"
| "visit type p Gone s = s"
| "visit type p Closed s = (if type = TYPE_P then on_folder s else s)"
| "visit type p (Dir es) s =
     fold (\<lambda>(n, t). visit type (p @ ''/'' @ n) t) es (if type = TYPE_P then on_folder s else s)"

lemma visit_path: "visit type p t (s\<lparr>fullpath := q\<rparr>) = (visit type p t s)\<lparr>fullpath := q\<rparr>"
proof (induction type p t s arbitrary: q rule: visit.induct)
  case (4 type p es s)
  have f: "fold (\<lambda>(n, t). visit type (p @ ''/'' @ n) t) es' (s\<lparr>fullpath := q\<rparr>) =
      (fold (\<lambda>(n, t). visit type (p @ ''/'' @ n) t) es' s)\<lparr>fullpath := q\<rparr>" if "set es' \<subseteq> set es" for es' s
    using that
  proof (induction es' arbitrary: s)
    case (Cons e es')
    then have "visit type (p @ ''/'' @ fst e) (snd e) (s\<lparr>fullpath := q\<rparr>) = (visit type (p @ ''/'' @ fst e) (snd e) s)\<lparr>fullpath := q\<rparr>"
      using 4 by (cases e) fastforce
    with Cons show ?case by (simp add: case_prod_beta)
  qed simp
  show ?case
    using f [OF subset_refl, of "on_folder s"] f [OF subset_refl, of s] by (cases "type = TYPE_P") (simp_all add: folder_path)
qed (simp_all add: file_path folder_path)

lemma visit_fullpath: "fullpath (visit type p t s) = fullpath s"
  using visit_path [of type p t "fullpath s" s] by (metis find_state.select_convs(1) find_state.surjective find_state.update_convs(1))

lemma folder_fullpath: "fullpath (on_folder s) = fullpath s"
proof -
  have "s\<lparr>fullpath := fullpath s\<rparr> = s" by simp
  with folder_path [of "fullpath s" s] have "on_folder s = (on_folder s)\<lparr>fullpath := fullpath s\<rparr>" by simp
  from arg_cong [OF this, of fullpath] show ?thesis by simp
qed

lemma fold_visit_path:
  "fold (\<lambda>(n, t). visit type (p @ ''/'' @ n) t) es (s\<lparr>fullpath := q\<rparr>) =
    (fold (\<lambda>(n, t). visit type (p @ ''/'' @ n) t) es s)\<lparr>fullpath := q\<rparr>"
  by (induction es arbitrary: s) (auto simp: visit_path)

lemma fold_visit_fullpath: "fullpath (fold (\<lambda>(n, t). visit type (p @ ''/'' @ n) t) es s) = fullpath s"
  by (induction es arbitrary: s) (auto simp: visit_fullpath)

text \<open>Without junk in \<open>ret\<close>, or where it is set, the walk visits the tree and returns 0.\<close>

lemma entries_visit:
  assumes IH: "\<And>n t s. (n, t) \<in> set es \<Longrightarrow> fullpath s = p @ ''/'' @ n \<Longrightarrow>
      dopath h func type junk s = Inr (0, visit type (p @ ''/'' @ n) t s)"
    and "proper names = map fst es" and "\<forall>n \<in> set names. CHR ''/'' \<notin> set n \<and> length p + 1 + length n < PATHSIZE"
  shows "\<exists>q. entries h func type junk (p @ ''/'') names 0 s =
    Inr (0, (fold (\<lambda>(n, t). visit type (p @ ''/'' @ n) t) es s)\<lparr>fullpath := q\<rparr>)"
  using assms
proof (induction names arbitrary: es s)
  case Nil
  then show ?case by (auto simp: entries.simps proper_def intro: exI [of _ "fullpath s"])
next
  case (Cons n names)
  have n: "CHR ''/'' \<notin> set n" "length p + 1 + length n < PATHSIZE" using Cons.prems(3) by auto
  let ?step = "\<lambda>(n, t). visit type (p @ ''/'' @ n) t"
  show ?case
  proof (cases "n = ''.'' \<or> n = ''..''")
    case True
    then have "proper names = map fst es" using Cons.prems(2) by (auto simp: proper_def)
    from Cons.IH [OF Cons.prems(1) this, of "s\<lparr>fullpath := p @ ''/'' @ n\<rparr>"] Cons.prems(3)
    obtain q where "entries h func type junk (p @ ''/'') names 0 (s\<lparr>fullpath := p @ ''/'' @ n\<rparr>) =
        Inr (0, (fold ?step es (s\<lparr>fullpath := p @ ''/'' @ n\<rparr>))\<lparr>fullpath := q\<rparr>)" by auto
    then show ?thesis using True n(2) path_noloop_app [OF n(1), of p]
      by (auto simp: entries.simps fold_visit_path [simplified])
  next
    case False
    then obtain t es' where es: "es = (n, t) # es'" "proper names = map fst es'"
      using Cons.prems(2) by (cases es) (auto simp: proper_def)
    let ?s = "s\<lparr>fullpath := p @ ''/'' @ n\<rparr>"
    have d: "dopath h func type junk ?s = Inr (0, visit type (p @ ''/'' @ n) t ?s)"
      by (rule Cons.prems(1)) (simp_all add: es)
    from Cons.IH [OF _ es(2), of "visit type (p @ ''/'' @ n) t ?s"] Cons.prems(1,3)
    obtain q where "entries h func type junk (p @ ''/'') names 0 (visit type (p @ ''/'' @ n) t ?s) =
        Inr (0, (fold ?step es' (visit type (p @ ''/'' @ n) t ?s))\<lparr>fullpath := q\<rparr>)" by (auto simp: es(1))
    then show ?thesis using False d n(2) path_noloop_app [OF n(1), of p]
      by (auto simp: entries.simps es(1) visit_path fold_visit_path [simplified])
  qed
qed

lemma dopath_visits:
  assumes "represents h p t" and "fullpath s = p" and "type = TYPE_P \<or> junk = 0" and "\<forall>(q, st) \<in> set (files_of p t). good q st"
  shows "dopath h func type junk s = Inr (0, visit type p t s)"
  using assms
proof (induction h p t arbitrary: s rule: represents.induct)
  case (1 h p st)
  then show ?case by (simp add: dopath.simps func_file)
next
  case (2 h p)
  then show ?case by (simp add: dopath.simps func_gone)
next
  case (3 h p)
  then show ?case
    by (cases "type = TYPE_P") (auto simp: dopath.simps func_folder func_closed is_folder_def split: option.splits)
next
  case (4 h p es)
  obtain st names where st: "lstat h p = Some st" "st_mode st = Folder" and names: "readdir h p = Some names"
    "proper names = map fst es" "\<forall>n \<in> set names. CHR ''/'' \<notin> set n \<and> length p + 1 + length n < PATHSIZE"
    and p: "length p + 1 < PATHSIZE"
    using "4.prems"(1) by (auto simp: is_folder_def split: option.splits)
  have IH: "dopath h func type junk s' = Inr (0, visit type (p @ ''/'' @ n) t s')"
    if "(n, t) \<in> set es" "fullpath s' = p @ ''/'' @ n" for n t s'
    by (rule "4.IH" [OF that(1) refl _ that(2) "4.prems"(3)]) (use "4.prems"(1,4) that(1) in auto)
  let ?s = "if type = TYPE_P then on_folder s else s"
  from entries_visit [OF IH names(2,3), of "?s\<lparr>fullpath := p @ ''/''\<rparr>"] obtain q where
    q: "entries h func type junk (p @ ''/'') names 0 (?s\<lparr>fullpath := p @ ''/''\<rparr>) =
      Inr (0, (fold (\<lambda>(n, t). visit type (p @ ''/'' @ n) t) es ?s)\<lparr>fullpath := q\<rparr>)"
    by (auto simp: fold_visit_path fold_visit_path [simplified])
  have f: "fullpath ?s = p" using "4.prems"(2) by (simp add: folder_fullpath)
  have "(fold (\<lambda>(n, t). visit type (p @ ''/'' @ n) t) es ?s)\<lparr>fullpath := p\<rparr> =
      fold (\<lambda>(n, t). visit type (p @ ''/'' @ n) t) es ?s"
    using fold_visit_fullpath [of type p es ?s] f by simp
  then show ?case
    using st names(1) p q "4.prems"(2,3)
    by (cases "type = TYPE_P") (simp_all add: dopath.simps func_folder)
qed

text \<open>What a visit does to a counter, and to what is printed.\<close>

lemma visit_counts:
  assumes fileC: "\<And>p st s. c (on_file p st s) = c s + f st" and foldC: "\<And>s. c (on_folder s) = c s + (d :: int)"
  shows "c (visit TYPE_P p t s) = c s + sum_list (map (f \<circ> snd) (files_of p t)) + d * int (folders_of t)"
proof (induction TYPE_P p t s rule: visit.induct)
  case (4 p es s)
  have "c (fold (\<lambda>(n, t). visit TYPE_P (p @ ''/'' @ n) t) es' s') =
      c s' + sum_list (map (f \<circ> snd) (files_of p (Dir es'))) + d * int (sum_list (map (\<lambda>(n, t). folders_of t) es'))"
    if "set es' \<subseteq> set es" for es' s'
    using that
  proof (induction es' arbitrary: s')
    case (Cons e es')
    obtain n u where e: "e = (n, u)" by (cases e)
    have "c (visit TYPE_P (p @ ''/'' @ n) u s') =
        c s' + sum_list (map (f \<circ> snd) (files_of (p @ ''/'' @ n) u)) + d * int (folders_of u)"
      using 4 Cons.prems e by fastforce
    with Cons show ?case by (simp add: e algebra_simps comp_def)
  qed simp
  from this [OF subset_refl, of "on_folder s"] show ?case by (simp add: foldC algebra_simps)
qed (simp_all add: fileC foldC)

lemma visit_prints:
  assumes fileC: "\<And>p st s. out (on_file p st s) = out s @ g p st" and foldC: "\<And>s. out (on_folder s) = out s"
  shows "out (visit type p t s) = out s @ concat (map (\<lambda>(p, st). g p st) (files_of p t))"
proof (induction type p t s rule: visit.induct)
  case (4 type p es s)
  have "out (fold (\<lambda>(n, t). visit type (p @ ''/'' @ n) t) es' s') =
      out s' @ concat (map (\<lambda>(p, st). g p st) (files_of p (Dir es')))"
    if "set es' \<subseteq> set es" for es' s'
    using that
  proof (induction es' arbitrary: s')
    case (Cons e es')
    obtain n u where e: "e = (n, u)" by (cases e)
    have "out (visit type (p @ ''/'' @ n) u s') = out s' @ concat (map (\<lambda>(p, st). g p st) (files_of (p @ ''/'' @ n) u))"
      using 4 Cons.prems e by fastforce
    with Cons show ?case by (simp add: e)
  qed simp
  from this [OF subset_refl, of "on_folder s"] this [OF subset_refl, of s] show ?case
    by (cases "type = TYPE_P") (simp_all add: foldC)
qed (simp_all add: fileC foldC)

end

subsection \<open>Counting\<close>

definition count_file :: "string \<Rightarrow> stat \<Rightarrow> find_state \<Rightarrow> find_state" where
  "count_file p st s =
     (let s = count_kind (st_mode st) s in if st_size st \<le> 4096 then s\<lparr>nlit := nlit s + 1\<rparr> else s)"

definition count_folder :: "find_state \<Rightarrow> find_state" where
  "count_folder s = s\<lparr>ndir := ndir s + 1\<rparr>"

interpretation counting: visitor myfunc1 "\<lambda>_ _. True" count_file count_folder
  by unfold_locales (auto simp: myfunc1_def count_file_def count_folder_def count_kind_def Let_def split: file_kind.splits)

text \<open>How many files have a property.\<close>

definition how_many :: "(stat \<Rightarrow> bool) \<Rightarrow> (string \<times> stat) list \<Rightarrow> int" where
  "how_many P fs = sum_list (map ((\<lambda>st. if P st then 1 else 0) \<circ> snd) fs)"

lemma how_many_length: "how_many P fs = int (length (filter (P \<circ> snd) fs))"
  by (induction fs) (auto simp: how_many_def)

lemma counting_visit:
  "nreg (counting.visit TYPE_P p t s) = nreg s + how_many (\<lambda>st. st_mode st = Regular) (files_of p t)"
  "nblk (counting.visit TYPE_P p t s) = nblk s + how_many (\<lambda>st. st_mode st = BlockSpecial) (files_of p t)"
  "nchr (counting.visit TYPE_P p t s) = nchr s + how_many (\<lambda>st. st_mode st = CharSpecial) (files_of p t)"
  "nfifo (counting.visit TYPE_P p t s) = nfifo s + how_many (\<lambda>st. st_mode st = Fifo) (files_of p t)"
  "nslink (counting.visit TYPE_P p t s) = nslink s + how_many (\<lambda>st. st_mode st = SymLink) (files_of p t)"
  "nsock (counting.visit TYPE_P p t s) = nsock s + how_many (\<lambda>st. st_mode st = Socket) (files_of p t)"
  "nlit (counting.visit TYPE_P p t s) = nlit s + how_many (\<lambda>st. st_size st \<le> 4096) (files_of p t)"
  "ndir (counting.visit TYPE_P p t s) = ndir s + int (folders_of t)"
proof -
  note c = count_file_def count_folder_def count_kind_def Let_def
  show "nreg (counting.visit TYPE_P p t s) = nreg s + how_many (\<lambda>st. st_mode st = Regular) (files_of p t)"
    "nblk (counting.visit TYPE_P p t s) = nblk s + how_many (\<lambda>st. st_mode st = BlockSpecial) (files_of p t)"
    "nchr (counting.visit TYPE_P p t s) = nchr s + how_many (\<lambda>st. st_mode st = CharSpecial) (files_of p t)"
    "nfifo (counting.visit TYPE_P p t s) = nfifo s + how_many (\<lambda>st. st_mode st = Fifo) (files_of p t)"
    "nslink (counting.visit TYPE_P p t s) = nslink s + how_many (\<lambda>st. st_mode st = SymLink) (files_of p t)"
    "nsock (counting.visit TYPE_P p t s) = nsock s + how_many (\<lambda>st. st_mode st = Socket) (files_of p t)"
    "nlit (counting.visit TYPE_P p t s) = nlit s + how_many (\<lambda>st. st_size st \<le> 4096) (files_of p t)"
    unfolding how_many_def
    by (subst counting.visit_counts [where d = 0]; simp add: c split: file_kind.splits)+
  show "ndir (counting.visit TYPE_P p t s) = ndir s + int (folders_of t)"
    using counting.visit_counts [of ndir "\<lambda>_. 0" 1 p t s] by (simp add: c comp_def split: file_kind.splits)
qed

subsection \<open>Names and contents\<close>

definition place :: "host_files \<Rightarrow> string \<Rightarrow> string" where
  "place h p = (case at_last_slash p of Some (dir, name) \<Rightarrow> real_dir h dir @ ''/'' @ name | None \<Rightarrow> [])"

definition print_if :: "host_files \<Rightarrow> (string \<Rightarrow> stat \<Rightarrow> bool) \<Rightarrow> string \<Rightarrow> stat \<Rightarrow> find_state \<Rightarrow> find_state" where
  "print_if h P p st s = (if P p st then s\<lparr>printed := printed s @ [place h p]\<rparr> else s)"

definition has_name :: "string list \<Rightarrow> string \<Rightarrow> bool" where
  "has_name names p = (case at_last_slash p of Some (_, name) \<Rightarrow> name \<in> set names | None \<Rightarrow> False)"

definition short_name :: "string \<Rightarrow> bool" where
  "short_name p = (case at_last_slash p of Some (_, name) \<Rightarrow> length name < NAMESIZE | None \<Rightarrow> False)"

definition has_contents :: "host_files \<Rightarrow> byte list \<Rightarrow> string \<Rightarrow> stat \<Rightarrow> bool" where
  "has_contents h bs p st \<longleftrightarrow> (\<exists>cs. contents h p = Some cs \<and> int (length cs) = st_size st \<and> cs = take (length cs) bs)"

interpretation naming: visitor "myfunc3 h names" "\<lambda>p _. short_name p" "print_if h (\<lambda>p _. has_name names p)" "\<lambda>s. s" for h names
  by unfold_locales
    (auto simp: myfunc3_def short_name_def print_if_def has_name_def print_place_def place_def split: option.splits prod.splits)

text \<open>Files whose size is right, that can be read, and that are not longer than the file to compare with.\<close>

definition comparable :: "host_files \<Rightarrow> byte list \<Rightarrow> string \<Rightarrow> stat \<Rightarrow> bool" where
  "comparable h bs p st \<longleftrightarrow> (\<exists>cs. contents h p = Some cs \<and> int (length cs) = st_size st \<and> length cs \<le> length bs)"

definition readable :: "host_files \<Rightarrow> byte list \<Rightarrow> string \<Rightarrow> stat \<Rightarrow> bool" where
  "readable h bs p st \<longleftrightarrow> at_last_slash p \<noteq> None \<and> comparable h bs p st"

lemma myfunc2_file:
  assumes "readable h bs p st" and "fullpath s = p"
  shows "myfunc2 h bs heap p (Some st) FIND_F s = Inr (0, print_if h (has_contents h bs) p st s)"
proof -
  obtain cs dir name where cs: "contents h p = Some cs" "st_size st = int (length cs)" "length cs \<le> length bs"
    and name: "at_last_slash p = Some (dir, name)"
    using assms(1) by (auto simp: readable_def comparable_def)
  have "myfunc2 h bs heap p (Some st) FIND_F s = (if cs = take (length cs) bs then print_place h p s else Inr (0, s))"
    using cs by (simp add: myfunc2_def Let_def)
  moreover have "has_contents h bs p st \<longleftrightarrow> cs = take (length cs) bs" using cs by (auto simp: has_contents_def)
  ultimately show ?thesis using assms(2) name by (simp add: print_if_def print_place_def place_def)
qed

interpretation comparing: visitor "myfunc2 h bs heap" "readable h bs" "print_if h (has_contents h bs)" "\<lambda>s. s" for h bs heap
  by unfold_locales (simp_all add: myfunc2_file, simp_all add: myfunc2_def print_if_def)

lemma naming_prints:
  "printed (naming.visit h names type p t s) = printed s @ map (place h \<circ> fst) (filter (\<lambda>(p, st). has_name names p) (files_of p t))"
  (is ?A)
  and comparing_prints:
  "printed (comparing.visit h bs type p t s) =
    printed s @ map (place h \<circ> fst) (filter (\<lambda>(p, st). has_contents h bs p st) (files_of p t))"
  (is ?B)
proof -
  have c: "concat (map (\<lambda>(p, st). if P p st then [place h p] else []) fs) = map (place h \<circ> fst) (filter (\<lambda>(p, st). P p st) fs)"
    for P and fs :: "(string \<times> stat) list"
    by (induction fs) auto
  have "printed (naming.visit h names type p t s) =
      printed s @ concat (map (\<lambda>(p, st). if has_name names p then [place h p] else []) (files_of p t))"
    by (rule naming.visit_prints) (simp_all add: print_if_def)
  then show ?A by (simp add: c)
  have "printed (comparing.visit h bs type p t s) =
      printed s @ concat (map (\<lambda>(p, st). if has_contents h bs p st then [place h p] else []) (files_of p t))"
    by (rule comparing.visit_prints) (simp_all add: print_if_def)
  then show ?B by (simp add: c)
qed

lemma myfind_starts:
  assumes "represents h path t" and "is_folder h path" and "length path < PATHSIZE"
  shows "myfind h path func type junk s = dopath h func type junk (s\<lparr>fullpath := path\<rparr>)"
  using assms by (auto simp: myfind_def set_path_def is_folder_def split: option.splits)

text \<open>The paths of files below a directory have a slash.\<close>

lemma files_of_prefix: "(q, st) \<in> set (files_of p t) \<Longrightarrow> \<exists>r. q = p @ r"
proof (induction p t rule: files_of.induct)
  case (4 p es)
  then obtain n u where "(n, u) \<in> set es" "(q, st) \<in> set (files_of (p @ ''/'' @ n) u)" by auto
  with "4.IH" [of "(n, u)" n u] show ?case by auto
qed auto

lemma files_of_slash:
  assumes "represents h p t" and "is_folder h p" and "(q, st) \<in> set (files_of p t)"
  shows "at_last_slash q \<noteq> None"
proof (cases t)
  case (Dir es)
  then obtain n u where "(q, st) \<in> set (files_of (p @ ''/'' @ n) u)" using assms(3) by auto
  then show ?thesis using files_of_prefix by (fastforce simp: at_last_slash_def Let_def)
qed (use assms in \<open>auto simp: is_folder_def\<close>)

text \<open>A directory without entries gives back what \<open>ret\<close> happens to hold, and the directory above then stops.\<close>

lemma empty_folder_stops:
  assumes "type \<noteq> TYPE_P" and "junk \<noteq> 0" and p: "is_folder h p" "readdir h p = Some (''.'' # ''..'' # e # rest)"
    and e: "is_folder h (p @ ''/'' @ e)" "readdir h (p @ ''/'' @ e) = Some [''.'', ''..'']"
      "e \<noteq> ''.''" "e \<noteq> ''..''" "CHR ''/'' \<notin> set e" "length p + length e + 4 < PATHSIZE"
    and s: "fullpath s = p"
  shows "dopath h func type junk s = Inr (1, s)"
proof -
  have dots: "path_noloop (q @ ''/.'') = Inr False" "path_noloop (q @ ''/..'') = Inr False" for q
    using path_noloop_app [of "''.''" q] path_noloop_app [of "''..''" q] by simp_all
  have n: "path_noloop (p @ CHR ''/'' # e) = Inr True" using path_noloop_app [OF e(5), of p] e(3,4) by simp
  have inner: "dopath h func type junk (s'\<lparr>fullpath := p @ CHR ''/'' # e\<rparr>) = Inr (junk, s'\<lparr>fullpath := p @ CHR ''/'' # e\<rparr>)" for s'
    using e dots [of "p @ CHR ''/'' # e"] assms(1)
    by (auto simp: dopath.simps [of _ _ _ _ "s'\<lparr>fullpath := p @ CHR ''/'' # e\<rparr>"] entries.simps is_folder_def split: option.splits)
  show ?thesis
    using p s e(6) assms(1,2) dots [of p] n inner
    by (auto simp: dopath.simps [of _ _ _ _ s] entries.simps is_folder_def split: option.splits)
qed

subsection \<open>Properties\<close>

text \<open>
  C33: Counting: started on a directory whose tree fits into the path buffer, the program ends with 0, and its
  counters are the numbers of files of each kind in the whole tree, the number of directories, that of
  directories that cannot be opened included, and the number of files of at most 4096 bytes.
\<close>

theorem myfind_counts:
  assumes "represents h path t" and "is_folder h path" and "length path < PATHSIZE"
  shows "\<exists>s. find_main h [prog, path] junk heap = Inr (0, s) \<and>
    nreg s = how_many (\<lambda>st. st_mode st = Regular) (files_of path t) \<and>
    nblk s = how_many (\<lambda>st. st_mode st = BlockSpecial) (files_of path t) \<and>
    nchr s = how_many (\<lambda>st. st_mode st = CharSpecial) (files_of path t) \<and>
    nfifo s = how_many (\<lambda>st. st_mode st = Fifo) (files_of path t) \<and>
    nslink s = how_many (\<lambda>st. st_mode st = SymLink) (files_of path t) \<and>
    nsock s = how_many (\<lambda>st. st_mode st = Socket) (files_of path t) \<and>
    nlit s = how_many (\<lambda>st. st_size st \<le> 4096) (files_of path t) \<and> ndir s = int (folders_of t)"
proof -
  have "find_main h [prog, path] junk heap = Inr (0, counting.visit TYPE_P path t (find_start\<lparr>fullpath := path\<rparr>))"
    using counting.dopath_visits [OF assms(1), of "find_start\<lparr>fullpath := path\<rparr>" TYPE_P junk]
    by (simp add: find_main_def myfind_starts [OF assms])
  then show ?thesis by (simp add: counting_visit find_start_def)
qed

text \<open>
  C34: Started on a directory whose tree fits into the path buffer, and with a \<open>ret\<close> that happens to hold 0
  where it is not initialised. With \<open>-name\<close>, and at most 15 names, each shorter than 55 characters, the program prints
  exactly the places of the files in the tree that have one of the names, in the order of the walk, if the names
  of all files in the tree are shorter than 55 characters too. With \<open>-comp\<close> and a file that can be read, it
  prints exactly the places of the files whose contents are a prefix of that file, if all files in the
  tree can be read (\<open>comparable\<close>), are as long as \<open>lstat\<close> says and not longer than the given one; a longer
  one is compared behind the end of the buffer, and one that cannot be read with what is left there.
\<close>

theorem myfind_prints:
  assumes "represents h path t" and "is_folder h path" and "length path < PATHSIZE"
  shows "(names \<noteq> [] \<and> length names \<le> STRNUM \<and> (\<forall>n \<in> set names. length n < NAMESIZE) \<and>
      (\<forall>(p, st) \<in> set (files_of path t). short_name p) \<longrightarrow>
      (\<exists>s. find_main h (prog # path # ''-name'' # names) 0 heap = Inr (0, s) \<and>
        printed s = map (place h \<circ> fst) (filter (\<lambda>(p, st). has_name names p) (files_of path t)))) \<and>
    (length f < PATHSIZE \<and> lstat h f = Some st0 \<and> st_mode st0 \<noteq> Folder \<and> contents h f = Some bs \<and>
      (\<forall>(p, st) \<in> set (files_of path t). comparable h bs p st) \<longrightarrow>
      (\<exists>s. find_main h [prog, path, ''-comp'', f] 0 heap = Inr (0, s) \<and>
        printed s = map (place h \<circ> fst) (filter (\<lambda>(p, st). has_contents h bs p st) (files_of path t))))"
proof -
  let ?s = "find_start\<lparr>fullpath := path\<rparr>"
  have "\<exists>s. find_main h (prog # path # ''-name'' # names) 0 heap = Inr (0, s) \<and>
      printed s = map (place h \<circ> fst) (filter (\<lambda>(p, st). has_name names p) (files_of path t))"
    if n: "names \<noteq> []" "length names \<le> STRNUM" "\<forall>n \<in> set names. length n < NAMESIZE"
      and good: "\<forall>(p, st) \<in> set (files_of path t). short_name p"
  proof -
    have "find_main h (prog # path # ''-name'' # names) 0 heap = myfind h path (myfunc3 h names) TYPE_N 0 find_start"
      using n by (cases names) (auto simp: find_main_def copy_names_def)
    also have "\<dots> = Inr (0, naming.visit h names TYPE_N path t ?s)"
      using naming.dopath_visits [OF assms(1) _ _ good, of ?s TYPE_N 0] by (simp add: myfind_starts [OF assms])
    finally show ?thesis by (simp add: naming_prints find_start_def)
  qed
  moreover have "\<exists>s. find_main h [prog, path, ''-comp'', f] 0 heap = Inr (0, s) \<and>
      printed s = map (place h \<circ> fst) (filter (\<lambda>(p, st). has_contents h bs p st) (files_of path t))"
    if f: "length f < PATHSIZE" "lstat h f = Some st0" "st_mode st0 \<noteq> Folder" "contents h f = Some bs"
      and good: "\<forall>(p, st) \<in> set (files_of path t). comparable h bs p st"
  proof -
    have r: "\<forall>(p, st) \<in> set (files_of path t). readable h bs p st"
      using good files_of_slash [OF assms(1,2)] by (auto simp: readable_def)
    have "find_main h [prog, path, ''-comp'', f] 0 heap = myfind h path (myfunc2 h bs heap) TYPE_C 0 find_start"
      using f assms(2) by (auto simp: find_main_def is_folder_def split: option.splits)
    also have "\<dots> = Inr (0, comparing.visit h bs TYPE_C path t ?s)"
      using comparing.dopath_visits [OF assms(1) _ _ r, of ?s TYPE_C 0] by (simp add: myfind_starts [OF assms])
    finally show ?thesis by (simp add: comparing_prints find_start_def)
  qed
  ultimately show ?thesis by blast
qed

text \<open>
  If \<open>ret\<close> holds anything but 0, the search ends in a directory whose first entry is an empty directory,
  without a look at the other entries, and reports failure to the directory above.
\<close>

theorem empty_directory_hides:
  assumes "type \<noteq> TYPE_P" and "junk \<noteq> 0" and "is_folder h p" and "readdir h p = Some (''.'' # ''..'' # e # rest)"
    and "is_folder h (p @ ''/'' @ e)" and "readdir h (p @ ''/'' @ e) = Some [''.'', ''..'']"
    and "e \<noteq> ''.''" and "e \<noteq> ''..''" and "CHR ''/'' \<notin> set e" and "length p + length e + 4 < PATHSIZE"
    and "fullpath s = p"
  shows "dopath h func type junk s = Inr (1, s)"
  by (rule empty_folder_stops [OF assms])

text \<open>A directory \<open>/d\<close> with an empty directory \<open>e\<close> and a file \<open>f\<close>; beside it a file \<open>/g\<close>.\<close>

definition small_files :: host_files where
  "small_files = \<lparr>
     lstat = [''/d'' \<mapsto> \<lparr>st_mode = Folder, st_size = 4096\<rparr>, ''/d/e'' \<mapsto> \<lparr>st_mode = Folder, st_size = 4096\<rparr>,
       ''/d/f'' \<mapsto> \<lparr>st_mode = Regular, st_size = 2\<rparr>, ''/g'' \<mapsto> \<lparr>st_mode = Regular, st_size = 3\<rparr>],
     readdir = [''/d'' \<mapsto> [''.'', ''..'', ''e'', ''f''], ''/d/e'' \<mapsto> [''.'', ''..'']],
     contents = [''/d/f'' \<mapsto> [1, 2], ''/g'' \<mapsto> [1, 2, 3]], real_dir = (\<lambda>d. d)\<rparr>"

definition small_tree :: ftree where
  "small_tree = Dir [(''e'', Dir []), (''f'', File \<lparr>st_mode = Regular, st_size = 2\<rparr>)]"

lemma small_tree_represents: "represents small_files ''/d'' small_tree" "is_folder small_files ''/d''"
  by (simp_all add: small_files_def small_tree_def is_folder_def proper_def PATHSIZE_def)

theorem myfind_counts_witness:
  "\<exists>s. find_main small_files [''myfind'', ''/d''] 7 [] = Inr (0, s) \<and> nreg s = 1 \<and> ndir s = 2 \<and> nlit s = 1"
  using myfind_counts [OF small_tree_represents, of "''myfind''" 7 "[]"]
  by (auto simp: PATHSIZE_def small_tree_def how_many_def)

theorem myfind_prints_witness:
  "(\<exists>s. find_main small_files [''myfind'', ''/d'', ''-name'', ''f''] 0 [] = Inr (0, s) \<and> printed s = [''/d/f'']) \<and>
   (\<exists>s. find_main small_files [''myfind'', ''/d'', ''-comp'', ''/g''] 0 [] = Inr (0, s) \<and> printed s = [''/d/f''])"
  using myfind_prints [OF small_tree_represents, of "[''f'']" "''myfind''" "[]" "''/g''" "\<lparr>st_mode = Regular, st_size = 3\<rparr>" "[1, 2, 3]"]
  by (auto simp: PATHSIZE_def STRNUM_def small_tree_def small_files_def short_name_def comparable_def at_last_slash_def Let_def
    NAMESIZE_def has_name_def has_contents_def place_def)

theorem empty_directory_hides_witness:
  "dopath small_files (myfunc3 small_files [''f'']) TYPE_N 1 (find_start\<lparr>fullpath := ''/d''\<rparr>) =
     Inr (1, find_start\<lparr>fullpath := ''/d''\<rparr>)"
  by (rule empty_directory_hides [of _ _ _ "''/d''" "''e''" "[''f'']"])
    (simp_all add: small_files_def is_folder_def PATHSIZE_def)

end
