(* ===== verification/Shell.thy ===== *)
theory Shell
  imports Nachos_Prelude
begin

section \<open>A small shell, unix/homework/homework_3/shell.c\<close>

text \<open>
  A loop that reads a line, splits it at spaces, and runs it: \<open>cd\<close> and \<open>pwd\<close> by itself, anything else in a
  child with its input and output redirected. The host below is an argument.
\<close>

subsection \<open>Reading a command\<close>

definition MAXLINE :: nat where "MAXLINE = 1024"

record command_line =
  argv :: "string list"
  rf :: "string option"
  wf :: "string option"

text \<open>\<open>strtok(buf, " ")\<close>, called until it returns \<open>NULL\<close>.\<close>

fun tokens :: "string \<Rightarrow> string \<Rightarrow> string list" where
  "tokens tok [] = (if tok = [] then [] else [tok])"
| "tokens tok (c # cs) =
     (if c = CHR '' '' then (if tok = [] then tokens [] cs else tok # tokens [] cs) else tokens (tok @ [c]) cs)"

text \<open>The loop over the tokens; \<open>type\<close> 1 and 2 mean that the token before was \<open><\<close> or \<open>></\<close>.\<close>

fun read_tokens :: "nat \<Rightarrow> string list \<Rightarrow> command_line \<Rightarrow> command_line" where
  "read_tokens type [] c = c"
| "read_tokens type (token # ts) c =
     (if type = 1 then read_tokens 0 ts (c\<lparr>rf := Some token\<rparr>)
      else if type = 2 then read_tokens 0 ts (c\<lparr>wf := Some token\<rparr>)
      else if token = ''<'' then read_tokens 1 ts c
      else if token = ''>'' then read_tokens 2 ts c
      else read_tokens type ts (c\<lparr>argv := argv c @ [token]\<rparr>))"

definition no_command :: command_line where "no_command = \<lparr>argv = [], rf = None, wf = None\<rparr>"

text \<open>\<open>buf[strlen(buf) - 1]\<close> of an empty line is in front of the buffer.\<close>

definition read_from_buf :: "string \<Rightarrow> command_line result" where
  "read_from_buf buf =
     (if buf = [] then Inl OutOfBounds
      else Inr (read_tokens 0 (tokens [] (if last buf = CHR 0x0A then butlast buf else buf)) no_command))"

subsection \<open>Running it\<close>

text \<open>
  What the shell asks of the host: a child with its descriptors and its arguments, or a change or print of the
  directory; \<open>Quit\<close> is \<open>exit(1)\<close>.
\<close>

datatype child = Child_exits | Child_runs "string option" "string option" "string list"

datatype shell_act = Chdir string | PrintDir | Fork child | Quit

record shell_host =
  chdir_ok :: "string \<Rightarrow> bool"
  getenv_HOME :: "string option"
  can_read :: "string \<Rightarrow> bool"
  can_write :: "string \<Rightarrow> bool"
  fork_ok :: bool

text \<open>In the child: \<open>redirect\<close>, then \<open>execve\<close> with \<open>argv[0]\<close> as the path.\<close>

definition redirect :: "shell_host \<Rightarrow> command_line \<Rightarrow> child" where
  "redirect h c =
     (if (case rf c of Some f \<Rightarrow> \<not> can_read h f | None \<Rightarrow> False) then Child_exits
      else if (case wf c of Some f \<Rightarrow> \<not> can_write h f | None \<Rightarrow> False) then Child_exits
      else Child_runs (rf c) (wf c) (argv c))"

text \<open>One turn of the loop; \<open>argv[0]\<close> of a line without words is \<open>NULL\<close>, and so is \<open>HOME\<close> when it is not set.\<close>

definition shell_line :: "shell_host \<Rightarrow> string \<Rightarrow> shell_act result" where
  "shell_line h buf =
     rbind (read_from_buf buf) (\<lambda>c.
     case argv c of
       [] \<Rightarrow> Inl NullDeref
     | cmd # args \<Rightarrow>
         if cmd = ''cd'' then
           Inr (case (if args = [] \<or> hd args = ''~'' then getenv_HOME h else Some (hd args)) of
             None \<Rightarrow> Quit
           | Some dir \<Rightarrow> if chdir_ok h dir then Chdir dir else Quit)
         else if cmd = ''pwd'' then Inr PrintDir
         else if fork_ok h then Inr (Fork (redirect h c)) else Inr Quit)"

text \<open>What \<open>strtok\<close> leaves of the line in the buffer: it ends the first token with a zero.\<close>

definition left_in_buf :: "string \<Rightarrow> string" where
  "left_in_buf buf =
     (let b = (if last buf = CHR 0x0A then butlast buf else buf) in
      takeWhile (\<lambda>c. c = CHR '' '') b @ takeWhile (\<lambda>c. c \<noteq> CHR '' '') (dropWhile (\<lambda>c. c = CHR '' '') b))"

text \<open>
  The loop, on what \<open>fgets\<close> yields: it ignores the end of the input, where \<open>fgets\<close> leaves the buffer alone.
  Here for as many turns as there are results of \<open>fgets\<close>.
\<close>

fun shell_loop :: "shell_host \<Rightarrow> string \<Rightarrow> string option list \<Rightarrow> shell_act list \<times> nerror option" where
  "shell_loop h buf [] = ([], None)"
| "shell_loop h buf (line # ls) =
     (let buf = (case line of Some l \<Rightarrow> l | None \<Rightarrow> buf) in
      case shell_line h buf of
        Inl e \<Rightarrow> ([], Some e)
      | Inr a \<Rightarrow> if a = Quit then ([Quit], None)
          else (let (as, e) = shell_loop h (left_in_buf buf) ls in (a # as, e)))"

subsection \<open>Command lines\<close>

text \<open>A command as it is meant: its words and its redirections, in the order they are written in.\<close>

datatype item = Word string | Input string | Output string

fun item_tokens :: "item \<Rightarrow> string list" where
  "item_tokens (Word w) = [w]"
| "item_tokens (Input f) = [''<'', f]"
| "item_tokens (Output f) = [''>'', f]"

definition plain :: "string \<Rightarrow> bool" where
  "plain t \<longleftrightarrow> t \<noteq> [] \<and> CHR '' '' \<notin> set t \<and> CHR 0x0A \<notin> set t"

fun item_ok :: "item \<Rightarrow> bool" where
  "item_ok (Word w) \<longleftrightarrow> plain w \<and> w \<noteq> ''<'' \<and> w \<noteq> ''>''"
| "item_ok (Input f) \<longleftrightarrow> plain f"
| "item_ok (Output f) \<longleftrightarrow> plain f"

definition words :: "item list \<Rightarrow> string list" where
  "words is = concat (map (\<lambda>i. case i of Word w \<Rightarrow> [w] | _ \<Rightarrow> []) is)"

definition inputs :: "item list \<Rightarrow> string list" where
  "inputs is = concat (map (\<lambda>i. case i of Input f \<Rightarrow> [f] | _ \<Rightarrow> []) is)"

definition outputs :: "item list \<Rightarrow> string list" where
  "outputs is = concat (map (\<lambda>i. case i of Output f \<Rightarrow> [f] | _ \<Rightarrow> []) is)"

definition last_of :: "string list \<Rightarrow> string option" where
  "last_of xs = (if xs = [] then None else Some (last xs))"

text \<open>
  The line: \<open>k\<close> spaces, and behind every token the spaces that its number says, and one more where
  another token follows.
\<close>

fun line_of :: "nat \<Rightarrow> (string \<times> nat) list \<Rightarrow> string" where
  "line_of k [] = replicate k (CHR '' '')"
| "line_of k [(t, n)] = replicate k (CHR '' '') @ t @ replicate n (CHR '' '')"
| "line_of k ((t, n) # x # ts) = replicate k (CHR '' '') @ t @ line_of (Suc n) (x # ts)"

lemma line_of_Suc: "line_of (Suc k) ts = CHR '' '' # line_of k ts"
  by (cases "(k, ts)" rule: line_of.cases) simp_all

lemma tokens_spaces: "tokens [] (replicate k (CHR '' '') @ s) = tokens [] s"
  by (induction k) simp_all

lemma tokens_plain: "CHR '' '' \<notin> set t \<Longrightarrow> tokens tok (t @ s) = tokens (tok @ t) s"
  by (induction t arbitrary: tok) auto

lemma tokens_end: "t \<noteq> [] \<Longrightarrow> tokens t (replicate n (CHR '' '')) = [t]"
  using tokens_spaces [of "n - 1" "[]"] by (cases n) simp_all

lemma tokens_line: "\<forall>(t, n) \<in> set ts. plain t \<Longrightarrow> tokens [] (line_of k ts) = map fst ts"
proof (induction k ts rule: line_of.induct)
  case (1 k)
  then show ?case using tokens_spaces [of k "[]"] by simp
next
  case (2 k t n)
  then have "t \<noteq> []" "CHR '' '' \<notin> set t" by (auto simp: plain_def)
  then show ?case by (simp add: tokens_spaces tokens_plain tokens_end)
next
  case (3 k t n x ts)
  then have t: "t \<noteq> []" "CHR '' '' \<notin> set t" by (auto simp: plain_def)
  have "tokens [] (line_of k ((t, n) # x # ts)) = tokens t (CHR '' '' # line_of n (x # ts))"
    by (simp add: tokens_spaces tokens_plain t line_of_Suc)
  also have "\<dots> = t # tokens [] (line_of (Suc n) (x # ts))" using t by (simp add: line_of_Suc)
  finally show ?case using 3 by simp
qed

lemma read_items:
  assumes "\<forall>i \<in> set is. item_ok i"
  shows "read_tokens 0 (concat (map item_tokens is)) c =
    \<lparr>argv = argv c @ words is, rf = (if inputs is = [] then rf c else last_of (inputs is)),
      wf = (if outputs is = [] then wf c else last_of (outputs is))\<rparr>"
  using assms
proof (induction "is" arbitrary: c)
  case (Cons i "is")
  then show ?case
    by (cases i) (auto simp: words_def inputs_def outputs_def last_of_def)
qed (simp add: words_def inputs_def outputs_def)

lemma line_no_newline: "\<forall>(t, n) \<in> set ts. plain t \<Longrightarrow> CHR 0x0A \<notin> set (line_of k ts)"
  by (induction k ts rule: line_of.induct) (auto simp: plain_def)

lemma item_tokens_plain: "\<forall>i \<in> set is. item_ok i \<Longrightarrow> \<forall>t \<in> set (concat (map item_tokens is)). plain t"
proof
  fix t assume i: "\<forall>i \<in> set is. item_ok i" and t: "t \<in> set (concat (map item_tokens is))"
  then obtain i where "i \<in> set is" "t \<in> set (item_tokens i)" by auto
  with i show "plain t" by (cases i) (auto simp: plain_def)
qed

text \<open>The words of a line that is left over: only the first.\<close>

lemma skip_spaces:
  assumes "c \<noteq> CHR '' ''"
  shows "takeWhile (\<lambda>c. c = CHR '' '') (replicate k (CHR '' '') @ c # s) = replicate k (CHR '' '')"
    and "dropWhile (\<lambda>c. c = CHR '' '') (replicate k (CHR '' '') @ c # s) = c # s"
  using assms by (induction k) simp_all

lemma last_plain: "plain w \<Longrightarrow> last (s @ w) \<noteq> CHR 0x0A"
  by (metis last_appendR last_in_set plain_def)

lemma left_in_buf_line:
  assumes "plain w"
  shows "left_in_buf (replicate k (CHR '' '') @ w @ CHR '' '' # s @ [CHR 0x0A]) = replicate k (CHR '' '') @ w"
    and "left_in_buf (replicate k (CHR '' '') @ w) = replicate k (CHR '' '') @ w"
proof -
  obtain c v where w: "w = c # v" using assms by (cases w) (simp_all add: plain_def)
  have n: "\<forall>c \<in> set w. c \<noteq> CHR '' ''" using assms by (auto simp: plain_def)
  have c: "c \<noteq> CHR '' ''" using n w by simp
  have t: "takeWhile (\<lambda>c. c = CHR '' '') (replicate k (CHR '' '') @ w @ r) = replicate k (CHR '' '')"
    "dropWhile (\<lambda>c. c = CHR '' '') (replicate k (CHR '' '') @ w @ r) = w @ r" for r
    using skip_spaces [OF c, of k "v @ r"] by (simp_all add: w)
  have e: "takeWhile (\<lambda>c. c \<noteq> CHR '' '') (w @ CHR '' '' # r) = w" "takeWhile (\<lambda>c. c \<noteq> CHR '' '') w = w" for r
    using n by (simp_all add: takeWhile_append2 takeWhile_eq_all_conv)
  have b: "butlast (replicate k (CHR '' '') @ w @ CHR '' '' # s @ [CHR 0x0A]) = replicate k (CHR '' '') @ w @ CHR '' '' # s"
    by (simp add: butlast_append)
  show "left_in_buf (replicate k (CHR '' '') @ w @ CHR '' '' # s @ [CHR 0x0A]) = replicate k (CHR '' '') @ w"
    unfolding left_in_buf_def b by (simp add: t e)
  show "left_in_buf (replicate k (CHR '' '') @ w) = replicate k (CHR '' '') @ w"
    using t [of "[]"] e last_plain [OF assms] by (simp add: left_in_buf_def)
qed

lemma one_word:
  assumes "plain w" and "w \<noteq> ''<''" and "w \<noteq> ''>''"
  shows "read_from_buf (replicate k (CHR '' '') @ w) = Inr \<lparr>argv = [w], rf = None, wf = None\<rparr>"
proof -
  have w: "w \<noteq> []" "CHR '' '' \<notin> set w" "CHR 0x0A \<notin> set w" using assms(1) by (auto simp: plain_def)
  have "tokens [] (replicate k (CHR '' '') @ w) = [w]"
    using tokens_spaces [of k w] tokens_plain [OF w(2), of "[]" "[]"] w by simp
  then show ?thesis using assms(2,3) w last_plain [OF assms(1)] by (simp add: read_from_buf_def no_command_def)
qed

lemma shell_repeats:
  assumes "plain w" and "w \<notin> {''<'', ''>'', ''cd'', ''pwd''}" and "fork_ok h"
  shows "shell_loop h (replicate k (CHR '' '') @ w) (replicate n None) =
    (replicate n (Fork (Child_runs None None [w])), None)"
proof (induction n)
  case (Suc n)
  have "shell_line h (replicate k (CHR '' '') @ w) = Inr (Fork (Child_runs None None [w]))"
    using one_word [of w k] assms by (simp add: shell_line_def redirect_def)
  with Suc show ?case using left_in_buf_line(2) [OF assms(1)] by simp
qed simp

subsection \<open>Properties\<close>

text \<open>
  C35: A command line is read as it is meant: whatever the numbers of spaces before, between and behind its tokens,
  none before the first and behind the last included, and with or without the newline that the last line of the input
  may lack, \<open>argv\<close> are its words in their order, \<open>rf\<close> and \<open>wf\<close> the last files behind \<open><\<close> and \<open>>\<close>,
  wherever these stand, also files that are called \<open><\<close> or \<open>>\<close>.
\<close>

theorem read_from_buf_reads:
  assumes "\<forall>i \<in> set is. item_ok i" and "map fst ts = concat (map item_tokens is)"
    and "nl = [CHR 0x0A] \<or> nl = [] \<and> line_of k ts \<noteq> []"
  shows "read_from_buf (line_of k ts @ nl) =
    Inr \<lparr>argv = words is, rf = last_of (inputs is), wf = last_of (outputs is)\<rparr>"
proof -
  have plain: "\<forall>(t, n) \<in> set ts. plain t"
  proof clarify
    fix t n assume "(t, n) \<in> set ts"
    then have "t \<in> set (map fst ts)" by force
    then show "plain t" using item_tokens_plain [OF assms(1)] unfolding assms(2) by blast
  qed
  then have "tokens [] (line_of k ts) = concat (map item_tokens is)" by (rule tokens_line [of ts k, unfolded assms(2)])
  moreover have "last (line_of k ts) \<noteq> CHR 0x0A" if "line_of k ts \<noteq> []"
    using line_no_newline [OF plain, of k] last_in_set [OF that] by metis
  ultimately show ?thesis using read_items [OF assms(1), of no_command] assms(3)
    by (auto simp: read_from_buf_def no_command_def last_of_def)
qed

text \<open>\<open>sort < in  -r > out\<close>, and a last line \<open>  ls -l\<close> without its newline.\<close>

theorem read_from_buf_reads_witness:
  "read_from_buf (''sort < in  -r > out'' @ [CHR 0x0A]) =
    Inr \<lparr>argv = [''sort'', ''-r''], rf = Some ''in'', wf = Some ''out''\<rparr> \<and>
   read_from_buf ''  ls -l'' = Inr \<lparr>argv = [''ls'', ''-l''], rf = None, wf = None\<rparr>"
  using read_from_buf_reads [of "[Word ''sort'', Input ''in'', Word ''-r'', Output ''out'']"
      "[(''sort'', 0), (''<'', 0), (''in'', 1), (''-r'', 0), (''>'', 0), (''out'', 0)]" "[CHR 0x0A]" 0]
    read_from_buf_reads [of "[Word ''ls'', Word ''-l'']" "[(''ls'', 0), (''-l'', 0)]" "[]" 2]
  by (simp add: plain_def words_def inputs_def outputs_def last_of_def numeral_2_eq_2)

text \<open>
  At the end of its input the shell does not end: after a line that begins with a word \<open>w\<close> and a space, it runs
  \<open>w\<close> again for every further read, without the other words and the redirections.
\<close>

theorem shell_repeats_at_end:
  assumes "plain w" and "w \<notin> {''<'', ''>'', ''cd'', ''pwd''}" and "fork_ok h"
    and "line = replicate k (CHR '' '') @ w @ CHR '' '' # s @ [CHR 0x0A]"
    and "shell_line h line = Inr a" and "a \<noteq> Quit"
  shows "shell_loop h buf (Some line # replicate n None) = (a # replicate n (Fork (Child_runs None None [w])), None)"
  using assms(5,6) left_in_buf_line(1) [OF assms(1), of k s] shell_repeats [OF assms(1-3), of k n]
  by (simp add: assms(4))

theorem shell_repeats_at_end_witness:
  "shell_loop \<lparr>chdir_ok = (\<lambda>_. True), getenv_HOME = None, can_read = (\<lambda>_. True), can_write = (\<lambda>_. True), fork_ok = True\<rparr> []
     [Some (''wc < in'' @ [CHR 0x0A]), None, None] =
   ([Fork (Child_runs (Some ''in'') None [''wc'']), Fork (Child_runs None None [''wc'']), Fork (Child_runs None None [''wc''])], None)"
proof -
  let ?h = "\<lparr>chdir_ok = (\<lambda>_. True), getenv_HOME = None, can_read = (\<lambda>_. True), can_write = (\<lambda>_. True), fork_ok = True\<rparr>"
  have "shell_line ?h (''wc < in'' @ [CHR 0x0A]) = Inr (Fork (Child_runs (Some ''in'') None [''wc'']))"
    by (simp add: shell_line_def read_from_buf_def no_command_def redirect_def)
  from shell_repeats_at_end [of "''wc''" ?h "''wc < in'' @ [CHR 0x0A]" 0 "''< in''", OF _ _ _ _ this, of "[]" 2]
  show ?thesis by (simp add: plain_def numeral_2_eq_2)
qed

end
