(* ===== verification/Coff_Flat.thy ===== *)
theory Coff_Flat
  imports Coff_Noff
begin

section \<open>From object files to memory images, bin/coff2flat.c\<close>

text \<open>
  The older converter: the flat file is meant to be copied to address 0 and run. The headers are those
  of \<open>bin/coff.h\<close>, which has the structures of the library headers the tool includes; files are as in \<open>Coff_Noff\<close>, except
  that a failure leaves what was written.
\<close>

definition StackSize :: "32 word" where "StackSize = 1024"

definition flat_headers :: "byte list \<Rightarrow> (scnhdr list \<times> descriptor) converted" where
  "flat_headers inp =
     ebind (coff_Read 20 \<lparr>fd_bytes = inp, fd_pos = 0\<rparr>) (\<lambda>(bs, f).
     let fileh = filehdr_of bs in
     if f_magic fileh \<noteq> MIPSELMAGIC then Inl NotMipsel
     else
       ebind (coff_Read 56 f) (\<lambda>(bs, f).
       if bytes_short bs \<noteq> OMAGIC then Inl NotOmagic
       else
         let numsections = unat (f_nscns fileh) in
         ebind (coff_Read (int numsections * 40) f) (\<lambda>(bs, f). Inr (scnhdrs_of numsections bs, f))))"

text \<open>One turn of the loop: \<open>top\<close>, and the section behind what is written so far.\<close>

definition no_copy :: "scnhdr \<Rightarrow> bool" where
  "no_copy s \<longleftrightarrow> named ''.bss'' s \<or> named ''.sbss'' s"

definition flat_section ::
  "nat \<Rightarrow> scnhdr \<Rightarrow> descriptor \<times> descriptor \<times> 32 word \<Rightarrow> (descriptor \<times> descriptor \<times> 32 word) converted" where
  "flat_section limit s = (\<lambda>(fdi, fdo, top).
     let top = (if sint (s_paddr s + s_size s) > sint top then s_paddr s + s_size s else top) in
     if no_copy s then Inr (fdi, fdo, top)
     else
       ebind (coff_Read (sint (s_size s)) (lseek (s_scnptr s) fdi)) (\<lambda>(buffer, fdi).
       ebind (coff_Write limit buffer fdo) (\<lambda>fdo. Inr (fdi, fdo, top))))"

fun flat_sections ::
  "nat \<Rightarrow> scnhdr list \<Rightarrow> descriptor \<times> descriptor \<times> 32 word \<Rightarrow> (descriptor \<times> descriptor \<times> 32 word) converted" where
  "flat_sections limit [] c = Inr c"
| "flat_sections limit (s # ss) c = ebind (flat_section limit s c) (flat_sections limit ss)"

definition coff2flat :: "nat \<Rightarrow> byte list \<Rightarrow> byte list converted" where
  "coff2flat limit inp =
     ebind (flat_headers inp) (\<lambda>(sections, f).
     ebind (flat_sections limit sections (f, \<lparr>fd_bytes = [], fd_pos = 0\<rparr>, 0)) (\<lambda>(_, fdo, top).
     ebind (coff_Write limit (word_bytes 0) (lseek (top + StackSize - 4) fdo)) (\<lambda>fdo. Inr (fd_bytes fdo))))"

subsection \<open>Sections that lie behind one another\<close>

definition section_end :: "scnhdr \<Rightarrow> int" where
  "section_end s = sint (s_paddr s) + sint (s_size s)"

text \<open>The sections that are copied are placed without gaps from an address on, all of them below \<open>2 ^ 31 - 1024\<close>.\<close>

definition placed :: "scnhdr \<Rightarrow> bool" where
  "placed s \<longleftrightarrow> 0 \<le> sint (s_paddr s) \<and> 0 \<le> sint (s_size s) \<and> 0 \<le> sint (s_scnptr s) \<and> section_end s < 2 ^ 31 - 1024"

fun laid_out :: "nat \<Rightarrow> scnhdr list \<Rightarrow> bool" where
  "laid_out p [] \<longleftrightarrow> True"
| "laid_out p (s # ss) \<longleftrightarrow> placed s \<and>
     (if no_copy s then laid_out p ss else sint (s_paddr s) = int p \<and> laid_out (p + nat (sint (s_size s))) ss)"

definition flat_image :: "byte list \<Rightarrow> scnhdr list \<Rightarrow> byte list" where
  "flat_image inp ss = concat (map (section_bytes inp) (filter (\<lambda>s. \<not> no_copy s) ss))"

definition highest :: "int \<Rightarrow> scnhdr list \<Rightarrow> int" where
  "highest t ss = foldl (\<lambda>t s. max t (section_end s)) t ss"

lemma highest_simps [simp]: "highest t [] = t" "highest t (s # ss) = highest (max t (section_end s)) ss"
  by (simp_all add: highest_def)

lemma highest_less: "t < m \<Longrightarrow> \<forall>s \<in> set ss. section_end s < m \<Longrightarrow> highest t ss < m"
  by (induction ss arbitrary: t) simp_all

lemma laid_out_placed: "laid_out p ss \<Longrightarrow> \<forall>s \<in> set ss. placed s"
  by (induction ss arbitrary: p) (auto split: if_splits)

lemma placed_end:
  assumes "placed s"
  shows "sint (s_paddr s + s_size s) = section_end s"
proof -
  have "s_paddr s + s_size s = word_of_int (section_end s)" by (simp add: section_end_def)
  moreover have "- (2 ^ 31) \<le> section_end s" "section_end s < 2 ^ 31" using assms by (simp_all add: placed_def section_end_def)
  ultimately show ?thesis by (simp add: signed_of_int signed_take_bit_int_eq_self)
qed

lemma flat_section_run:
  assumes run: "flat_section limit s (fdi, fdo, tp) = Inr c'" and s: "placed s"
    and st: "fd_bytes fdi = inp" "fdo = \<lparr>fd_bytes = b, fd_pos = length b\<rparr>"
  shows "\<exists>fdi' tp'. c' = (fdi', \<lparr>fd_bytes = b @ flat_image inp [s], fd_pos = length (b @ flat_image inp [s])\<rparr>, tp') \<and> fd_bytes fdi' = inp \<and>
    sint tp' = max (sint tp) (section_end s) \<and> (\<not> no_copy s \<longrightarrow> length (section_bytes inp s) = nat (sint (s_size s)))"
proof (cases "no_copy s")
  case True
  then show ?thesis using run st placed_end [OF s] by (auto simp: flat_section_def flat_image_def Let_def max_def)
next
  case False
  then show ?thesis using run s st placed_end [OF s]
    by (auto simp: flat_section_def flat_image_def Let_def coff_Read_def lseek_def coff_Write_def section_bytes_def placed_def max_def
        split: if_splits)
qed

lemma flat_sections_run:
  assumes "flat_sections limit ss (fdi, fdo, tp) = Inr c'" and "laid_out (length b) ss"
    and "fd_bytes fdi = inp" "fdo = \<lparr>fd_bytes = b, fd_pos = length b\<rparr>" and "int (length b) \<le> sint tp"
  shows "\<exists>fdi' tp'. c' = (fdi', \<lparr>fd_bytes = b @ flat_image inp ss, fd_pos = length (b @ flat_image inp ss)\<rparr>, tp') \<and>
    sint tp' = highest (sint tp) ss \<and> int (length (b @ flat_image inp ss)) \<le> sint tp' \<and>
    (\<forall>s \<in> set ss. \<not> no_copy s \<longrightarrow>
      take (nat (sint (s_size s))) (drop (nat (sint (s_paddr s))) (b @ flat_image inp ss)) = section_bytes inp s \<and>
      length (section_bytes inp s) = nat (sint (s_size s)))"
  using assms
proof (induction ss arbitrary: fdi fdo tp b)
  case (Cons s ss)
  then obtain c1 where c1: "flat_section limit s (fdi, fdo, tp) = Inr c1" "flat_sections limit ss c1 = Inr c'" by auto
  have s: "placed s" using Cons.prems by simp
  let ?b = "b @ flat_image inp [s]"
  obtain fdi1 tp1 where c: "c1 = (fdi1, \<lparr>fd_bytes = ?b, fd_pos = length ?b\<rparr>, tp1)" "fd_bytes fdi1 = inp"
    "sint tp1 = max (sint tp) (section_end s)" "\<not> no_copy s \<longrightarrow> length (section_bytes inp s) = nat (sint (s_size s))"
    using flat_section_run [OF c1(1) s Cons.prems(3,4)] by blast
  have len: "length ?b = (if no_copy s then length b else length b + nat (sint (s_size s)))" using c(4) by (simp add: flat_image_def)
  have "laid_out (length ?b) ss" using Cons.prems(2) len by (simp split: if_splits)
  moreover have "int (length ?b) \<le> sint tp1"
    using Cons.prems(2,5) len c(3) s by (auto simp: section_end_def placed_def split: if_splits)
  ultimately obtain fdi2 tp2 where d: "c' = (fdi2, \<lparr>fd_bytes = ?b @ flat_image inp ss, fd_pos = length (?b @ flat_image inp ss)\<rparr>, tp2)"
    "sint tp2 = highest (sint tp1) ss" "int (length (?b @ flat_image inp ss)) \<le> sint tp2"
    "\<forall>s \<in> set ss. \<not> no_copy s \<longrightarrow>
      take (nat (sint (s_size s))) (drop (nat (sint (s_paddr s))) (?b @ flat_image inp ss)) = section_bytes inp s \<and>
      length (section_bytes inp s) = nat (sint (s_size s))"
    using Cons.IH [OF c1(2) [unfolded c(1)] _ c(2)] by blast
  have i: "flat_image inp (s # ss) = flat_image inp [s] @ flat_image inp ss" by (simp add: flat_image_def)
  have "take (nat (sint (s_size s))) (drop (nat (sint (s_paddr s))) (b @ flat_image inp (s # ss))) = section_bytes inp s"
    if "\<not> no_copy s"
    using that Cons.prems(2) c(4) by (simp add: flat_image_def)
  with d c(3,4) show ?case by (auto simp: i)
qed (auto simp: flat_image_def)

subsection \<open>Properties\<close>

text \<open>
  C26: For a file whose copied sections are placed one behind the other from address 0 on, the flat file is the
  memory to run: every section is at its address, zeros follow, and the file ends 1024 bytes above the
  end of the highest section, those that are not copied included.
\<close>

theorem coff2flat_places:
  assumes "coff2flat limit inp = Inr out" and "flat_headers inp = Inr (ss, f)" and "laid_out 0 ss"
  shows "int (length out) = highest 0 ss + 1024 \<and>
    (\<forall>s \<in> set ss. \<not> no_copy s \<longrightarrow>
      take (nat (sint (s_size s))) (drop (nat (sint (s_paddr s))) out) = section_bytes inp s \<and>
      length (section_bytes inp s) = nat (sint (s_size s))) \<and>
    out = flat_image inp ss @ replicate (length out - length (flat_image inp ss)) 0"
proof -
  obtain fdi fdo tp where run: "flat_sections limit ss (f, \<lparr>fd_bytes = [], fd_pos = 0\<rparr>, 0) = Inr (fdi, fdo, tp)"
    and out: "ebind (coff_Write limit (word_bytes 0) (lseek (tp + StackSize - 4) fdo)) (\<lambda>fdo. Inr (fd_bytes fdo)) = Inr out"
    using assms(1,2) by (auto simp: coff2flat_def)
  have "fd_bytes f = inp" using assms(2) by (auto simp: flat_headers_def coff_Read_def Let_def split: if_splits)
  from flat_sections_run [OF run, of "[]", OF _ this] assms(3)
  have fdo: "fdo = \<lparr>fd_bytes = flat_image inp ss, fd_pos = length (flat_image inp ss)\<rparr>" and tp: "sint tp = highest 0 ss"
    "int (length (flat_image inp ss)) \<le> sint tp"
    and at: "\<forall>s \<in> set ss. \<not> no_copy s \<longrightarrow>
      take (nat (sint (s_size s))) (drop (nat (sint (s_paddr s))) (flat_image inp ss)) = section_bytes inp s \<and>
      length (section_bytes inp s) = nat (sint (s_size s))"
    by auto
  have "sint tp < 2 ^ 31 - 1024"
    unfolding tp(1) using laid_out_placed [OF assms(3)] by (intro highest_less) (auto simp: placed_def)
  moreover have "tp + StackSize - 4 = word_of_int (sint tp + 1020)" by (simp add: StackSize_def)
  ultimately have l: "sint (tp + StackSize - 4) = sint tp + 1020"
    using tp(2) by (simp only: signed_of_int) (simp add: signed_take_bit_int_eq_self)
  then have "out = flat_image inp ss @ replicate (nat (sint tp) + 1020 - length (flat_image inp ss)) 0 @ [0, 0, 0, 0]"
    using out tp(2) by (auto simp: coff_Write_def lseek_def fdo word_bytes_def Let_def nat_add_distrib split: if_splits)
  moreover have "replicate (nat (sint tp) + 1020 - length (flat_image inp ss)) 0 @ [0, 0, 0, 0 :: byte] =
      replicate (nat (sint tp) + 1024 - length (flat_image inp ss)) 0"
    using tp(2) by (simp add: replicate_app_Cons_same flip: replicate_Suc)
  ultimately have o: "out = flat_image inp ss @ replicate (nat (sint tp) + 1024 - length (flat_image inp ss)) 0" by simp
  have n: "int (length out) = sint tp + 1024" using tp(2) by (simp add: o)
  moreover have "out = flat_image inp ss @ replicate (length out - length (flat_image inp ss)) 0"
    using o n tp(2) by (metis add_diff_cancel_left' length_append length_replicate)
  moreover have "take (nat (sint (s_size s))) (drop (nat (sint (s_paddr s))) out) = section_bytes inp s"
    if "s \<in> set ss" "\<not> no_copy s" for s
  proof -
    have "length (take (nat (sint (s_size s))) (drop (nat (sint (s_paddr s))) (flat_image inp ss))) = nat (sint (s_size s))"
      using at that by auto
    then have "nat (sint (s_size s)) \<le> length (drop (nat (sint (s_paddr s))) (flat_image inp ss))" by simp
    then show ?thesis using at that by (simp add: o)
  qed
  ultimately show ?thesis using at tp(1) by simp
qed

text \<open>A file with eight bytes of code at 0 and sixteen of \<open>.bss\<close> behind them.\<close>

definition small_sections :: "scnhdr list" where
  "small_sections =
     [\<lparr>s_name = [0x2e, 0x74, 0x65, 0x78, 0x74, 0, 0, 0], s_paddr = 0, s_vaddr = 0, s_size = 8, s_scnptr = 156,
       s_relptr = 0, s_lnnoptr = 0, s_nreloc = 0, s_nlnno = 0, s_flags = 0\<rparr>,
      \<lparr>s_name = [0x2e, 0x62, 0x73, 0x73, 0, 0, 0, 0], s_paddr = 8, s_vaddr = 8, s_size = 16, s_scnptr = 0,
       s_relptr = 0, s_lnnoptr = 0, s_nreloc = 0, s_nlnno = 0, s_flags = 0\<rparr>]"

definition small_coff :: "byte list" where
  "small_coff = ([0x62, 0x01, 2, 0] @ replicate 16 0) @ ([0x07, 0x01] @ replicate 54 0) @
     (section_header [0x2e, 0x74, 0x65, 0x78, 0x74, 0, 0, 0] 0 8 156 @ section_header [0x2e, 0x62, 0x73, 0x73, 0, 0, 0, 0] 8 16 0) @
     (word_bytes 0x24020000 @ word_bytes 0x0000000C)"

lemma small_headers: "flat_headers small_coff = Inr (small_sections, \<lparr>fd_bytes = small_coff, fd_pos = 156\<rparr>)"
proof -
  let ?h = "[0x62, 0x01, 2, 0] @ replicate 16 0 :: byte list" and ?a = "[0x07, 0x01] @ replicate 54 0 :: byte list"
    and ?s = "section_header [0x2e, 0x74, 0x65, 0x78, 0x74, 0, 0, 0] 0 8 156 @ section_header [0x2e, 0x62, 0x73, 0x73, 0, 0, 0, 0] 8 16 0"
    and ?r = "word_bytes 0x24020000 @ word_bytes 0x0000000C"
  have c: "small_coff = [] @ ?h @ ?a @ ?s @ ?r" "small_coff = ?h @ ?a @ ?s @ ?r" "small_coff = (?h @ ?a) @ ?s @ ?r"
    by (simp_all only: small_coff_def append_Nil append_assoc)
  have "coff_Read 20 \<lparr>fd_bytes = small_coff, fd_pos = 0\<rparr> = Inr (?h, \<lparr>fd_bytes = small_coff, fd_pos = 20\<rparr>)"
    using coff_Read_part [of ?h 20 "[]" "?a @ ?s @ ?r"] unfolding c(1) [symmetric] by simp
  moreover have "coff_Read 56 \<lparr>fd_bytes = small_coff, fd_pos = 20\<rparr> = Inr (?a, \<lparr>fd_bytes = small_coff, fd_pos = 76\<rparr>)"
    using coff_Read_part [of ?a 56 ?h "?s @ ?r"] unfolding c(2) [symmetric] by simp
  moreover have "coff_Read (int 2 * 40) \<lparr>fd_bytes = small_coff, fd_pos = 76\<rparr> = Inr (?s, \<lparr>fd_bytes = small_coff, fd_pos = 156\<rparr>)"
    using coff_Read_part [of ?s 80 "?h @ ?a" ?r] unfolding c(3) [symmetric] by simp
  moreover have "f_magic (filehdr_of ?h) = MIPSELMAGIC" "unat (f_nscns (filehdr_of ?h)) = 2" "bytes_short ?a = OMAGIC"
    by (simp_all add: filehdr_of_def bytes_short_def MIPSELMAGIC_def OMAGIC_def)
  moreover have "scnhdrs_of 2 ?s = small_sections"
    by (simp add: scnhdrs_of_def upt_rec scnhdr_of_header scnhdr_of_header [of _ _ _ _ "[]", simplified] small_sections_def)
  ultimately show ?thesis by (simp add: flat_headers_def Let_def)
qed

lemma small_bytes: "drop 156 small_coff = word_bytes 0x24020000 @ word_bytes 0x0000000C"
  by (simp add: small_coff_def)

lemma small_layout: "laid_out 0 small_sections" "\<not> no_copy (small_sections ! 0)" "no_copy (small_sections ! 1)"
  by (simp_all add: no_copy_def named_def name_bytes small_sections_def placed_def section_end_def)

lemma small_flat: "coff2flat 2000 small_coff = Inr (word_bytes 0x24020000 @ word_bytes 0x0000000C @ replicate 1040 0)"
proof -
  let ?c = "(\<lparr>fd_bytes = small_coff, fd_pos = 156\<rparr>, \<lparr>fd_bytes = [], fd_pos = 0\<rparr>, 0 :: 32 word)"
  let ?b = "word_bytes 0x24020000 @ word_bytes 0x0000000C"
  let ?o = "\<lparr>fd_bytes = ?b, fd_pos = 8\<rparr>"
  have "flat_section 2000 (small_sections ! 0) ?c = Inr (\<lparr>fd_bytes = small_coff, fd_pos = 164\<rparr>, ?o, 8)"
    using small_layout(2)
    by (simp add: flat_section_def) (simp add: small_sections_def coff_Read_def lseek_def coff_Write_def Let_def small_bytes)
  moreover have "flat_section 2000 (small_sections ! 1) (\<lparr>fd_bytes = small_coff, fd_pos = 164\<rparr>, ?o, 8) =
      Inr (\<lparr>fd_bytes = small_coff, fd_pos = 164\<rparr>, ?o, 24)"
    using small_layout(3) by (simp add: flat_section_def) (simp add: small_sections_def)
  moreover have "small_sections = [small_sections ! 0, small_sections ! 1]" by (simp add: small_sections_def)
  ultimately have s: "flat_sections 2000 small_sections ?c = Inr (\<lparr>fd_bytes = small_coff, fd_pos = 164\<rparr>, ?o, 24)"
    by (metis ebind_simps(2) flat_sections.simps)
  have "lseek (24 + StackSize - 4) ?o = \<lparr>fd_bytes = ?b, fd_pos = 1044\<rparr>" by (simp add: lseek_def StackSize_def)
  moreover have "coff_Write 2000 (word_bytes 0) \<lparr>fd_bytes = ?b, fd_pos = 1044\<rparr> =
      Inr \<lparr>fd_bytes = ?b @ replicate 1036 0 @ word_bytes 0, fd_pos = 1048\<rparr>"
    by (simp add: coff_Write_def Let_def)
  moreover have "replicate 1036 0 @ word_bytes 0 = replicate 1040 0"
    using replicate_add [of 1036 4 "0 :: byte"] by (simp add: word_bytes_def numeral_eq_Suc)
  ultimately show ?thesis by (simp add: coff2flat_def small_headers s)
qed

theorem coff2flat_places_witness:
  "\<exists>out. coff2flat 2000 small_coff = Inr out \<and> length out = 1048 \<and> take 8 out = word_bytes 0x24020000 @ word_bytes 0x0000000C"
proof -
  let ?out = "word_bytes 0x24020000 @ word_bytes 0x0000000C @ replicate 1040 0" and ?s = "small_sections ! 0"
  have s: "section_bytes small_coff ?s = word_bytes 0x24020000 @ word_bytes 0x0000000C"
    "s_paddr ?s = 0" "s_size ?s = 8" "?s \<in> set small_sections" "highest 0 small_sections = 24"
    by (simp_all add: section_bytes_def small_bytes small_sections_def section_end_def)
  have nat_sint_8: "nat (sint (8 :: 32 word)) = 8" by simp
  note c = coff2flat_places [OF small_flat small_headers small_layout(1)]
  have "int (length ?out) = 1048" using c [THEN conjunct1] s(5) by simp
  moreover have "take 8 ?out = section_bytes small_coff ?s"
    using c [THEN conjunct2, THEN conjunct1, rule_format, OF s(4) small_layout(2), THEN conjunct1] s(2,3)
    by (simp only: sint_0 nat_0 drop0 nat_sint_8)
  ultimately show ?thesis unfolding s(1) using small_flat by (intro exI [of _ ?out]) simp
qed

end
