(* ===== verification/Object_Loader.thy ===== *)
theory Object_Loader
  imports Coff_Noff Disassembler
begin

section \<open>Loading and listing an object file, bin/main.c and bin/disasm.c\<close>

text \<open>
  The two programs around the interpreter and the disassembler: each loads the sections of an object file into the array
  \<open>mem\<close>, the one runs it, the other prints its code. The file is read by the library of the MIPS
  vendor, whose results are an argument: what \<open>ldopen\<close> returns, and which header \<open>ldnshread\<close> finds under a name.
  \<open>getc(fp)\<close> is taken to read the stream of \<open>ldopen\<close>, as it does on the host: \<open>fp\<close> itself is closed by then. What is
  printed to the standard output, the messages for missing sections included, comes with the result; the options
  are left out.
\<close>

record object_file =
  o_type :: "16 word"
  o_section :: "string \<Rightarrow> scnhdr option"
  o_bytes :: "byte list"

subsection \<open>Sections\<close>

text \<open>
  The loop over the bytes of a section; \<open>getc\<close> gives -1 behind the end of the file. \<open>disasm.c\<close> tests
  every address before it writes, \<open>main.c\<close> only the last one, and afterwards.
\<close>

fun load_stream :: "bool \<Rightarrow> 32 word \<Rightarrow> byte list \<Rightarrow> nat \<Rightarrow> interpreter \<Rightarrow> run_result" where
  "load_stream test pc bs 0 S = Inr S"
| "load_stream test pc bs (Suc n) S =
     (if test \<and> sint pc - memoffset \<ge> MEMSIZE then Inl (Exited 1)
      else ebind (host_store pc [case bs of [] \<Rightarrow> - 1 | b # _ \<Rightarrow> b] S) (load_stream test (pc + 1) (tl bs) n))"

text \<open>\<open>load_section\<close> of \<open>disasm.c\<close>, and the macro of \<open>main.c\<close>; a position in the file is not negative.\<close>

definition disasm_load_section :: "object_file \<Rightarrow> scnhdr \<Rightarrow> interpreter \<Rightarrow> run_result" where
  "disasm_load_section ob head S =
     (if s_scnptr head \<noteq> 0 then load_stream True (s_vaddr head) (drop (nat (sint (s_scnptr head))) (o_bytes ob)) (nat (sint (s_size head))) S
      else Inr S)"

definition LOADSECTION :: "object_file \<Rightarrow> scnhdr \<Rightarrow> interpreter \<Rightarrow> run_result" where
  "LOADSECTION ob head S =
     (if s_scnptr head \<noteq> 0 then
        ebind (load_stream False (s_vaddr head) (drop (nat (sint (s_scnptr head))) (o_bytes ob)) (nat (sint (s_size head))) S) (\<lambda>S.
        if sint (s_vaddr head + word_of_nat (nat (sint (s_size head)))) - memoffset \<ge> MEMSIZE then Inl (Exited 1) else Inr S)
      else Inr S)"

text \<open>
  The section headers one after the other, with what is printed: a line for each that is missing, and one before the only
  \<open>exit(1)\<close>, of a section that does not fit.
\<close>

definition newline :: char where "newline = CHR 0x0A"

definition missing_message :: "string \<Rightarrow> string" where
  "missing_message nm = tl nm @ '' section header missing'' @ [newline]"

definition stop_message :: "host_stop \<Rightarrow> string" where
  "stop_message stop = (if stop = Exited 1 then ''MEMSIZE too small. Fix and recompile.'' @ [newline] else [])"

definition section_names :: "string list" where
  "section_names = [''.text'', ''.rdata'', ''.data'', ''.sdata'', ''.sbss'', ''.bss'']"

fun load_named ::
  "(object_file \<Rightarrow> scnhdr \<Rightarrow> interpreter \<Rightarrow> run_result) \<Rightarrow> object_file \<Rightarrow> string list \<Rightarrow> interpreter \<Rightarrow> string \<times> run_result" where
  "load_named load ob [] S = ([], Inr S)"
| "load_named load ob (nm # nms) S =
     (case o_section ob nm of
        None \<Rightarrow> let (out, r) = load_named load ob nms S in (missing_message nm @ out, r)
      | Some head \<Rightarrow>
          (case load ob head S of
             Inl stop \<Rightarrow> (stop_message stop, Inl stop)
           | Inr S \<Rightarrow> load_named load ob nms S))"

definition load_program ::
  "(object_file \<Rightarrow> scnhdr \<Rightarrow> interpreter \<Rightarrow> run_result) \<Rightarrow> object_file option \<Rightarrow> interpreter \<Rightarrow> string \<times> run_result" where
  "load_program load ld S =
     (case ld of
        None \<Rightarrow> ([], Inl (Exited 0))
      | Some ob \<Rightarrow> if o_type ob \<noteq> 0x162 then ([], Inl (Exited 0)) else load_named load ob section_names S)"

subsection \<open>The programs\<close>

text \<open>\<open>dis1\<close> at one address after the other; \<open>texthead\<close> is zero when there is no \<open>.text\<close>.\<close>

definition dis1 :: "32 word \<Rightarrow> interpreter \<Rightarrow> host_stop + string" where
  "dis1 pc S = ebind (fetch pc S) (\<lambda>instr. Inr (dump_ascii True instr pc @ [newline]))"

fun disasm_from :: "nat \<Rightarrow> 32 word \<Rightarrow> interpreter \<Rightarrow> string \<times> host_stop option" where
  "disasm_from 0 pc S = ([], None)"
| "disasm_from (Suc n) pc S =
     (case dis1 pc S of
        Inl stop \<Rightarrow> ([], Some stop)
      | Inr l \<Rightarrow> let (ls, e) = disasm_from n (pc + 4) S in (l @ ls, e))"

definition disasm :: "object_file \<Rightarrow> interpreter \<Rightarrow> string \<times> host_stop option" where
  "disasm ob S =
     (let size = (case o_section ob ''.text'' of Some head \<Rightarrow> s_size head | None \<Rightarrow> 0) in
      disasm_from (nat ((sint size + 3) div 4)) (word_of_int memoffset) S)"

definition disasm_main :: "object_file option \<Rightarrow> interpreter \<Rightarrow> string \<times> host_stop option" where
  "disasm_main ld S =
     (let (out, r) = load_program disasm_load_section ld S in
      case r of
        Inl stop \<Rightarrow> (out, Some stop)
      | Inr S \<Rightarrow> let (ls, e) = disasm (the ld) S in (out @ ls, e))"

text \<open>What the interpreted program prints is a matter of its system calls.\<close>

definition interpreter_main ::
  "(interpreter \<Rightarrow> run_result) \<Rightarrow> byte list list \<Rightarrow> object_file option \<Rightarrow> interpreter \<Rightarrow> string \<times> host_stop option" where
  "interpreter_main sys argv ld S =
     (let (out, r) = load_program LOADSECTION ld S in
      case r of
        Inl stop \<Rightarrow> (out, Some stop)
      | Inr S \<Rightarrow> (out, runprogram sys (word_of_int memoffset) argv S))"

subsection \<open>What is in memory\<close>

definition room :: "int \<Rightarrow> int \<Rightarrow> interpreter \<Rightarrow> bool" where
  "room a n S \<longleftrightarrow> memoffset \<le> a \<and> 0 \<le> n \<and> a + n \<le> memoffset + MEMSIZE \<and> int (length (host_mem S)) = MEMSIZE"

text \<open>\<open>n\<close> bytes of the stream.\<close>

definition stream :: "nat \<Rightarrow> byte list \<Rightarrow> byte list" where
  "stream n bs = take n bs @ replicate (n - length bs) (- 1)"

lemma length_stream [simp]: "length (stream n bs) = n"
  by (simp add: stream_def)

lemma stream_Suc: "stream (Suc n) bs = (case bs of [] \<Rightarrow> - 1 | b # _ \<Rightarrow> b) # stream n (tl bs)"
  by (cases bs) (simp_all add: stream_def)

lemma sint_next:
  assumes "memoffset \<le> sint (pc :: 32 word)" and "sint pc < memoffset + MEMSIZE"
  shows "sint (pc + 1) = sint pc + 1"
proof -
  have "pc + 1 = word_of_int (sint pc + 1)" by simp
  then show ?thesis
    by (simp only: signed_of_int) (use assms in \<open>simp add: signed_take_bit_int_eq_self memoffset_def MEMSIZE_def\<close>)
qed

lemma load_stream_run:
  assumes "room (sint pc) (int n) S"
  shows "load_stream test pc bs n S = Inr (S\<lparr>host_mem := take (nat (sint pc - memoffset)) (host_mem S) @ stream n bs @
    drop (nat (sint pc - memoffset) + n) (host_mem S)\<rparr>)"
  using assms
proof (induction n arbitrary: pc bs S)
  case 0
  then show ?case by (simp add: stream_def)
next
  case (Suc n)
  let ?p = "nat (sint pc - memoffset)" and ?b = "case bs of [] \<Rightarrow> - 1 | b # _ \<Rightarrow> b"
  let ?S = "S\<lparr>host_mem := take ?p (host_mem S) @ ?b # drop (Suc ?p) (host_mem S)\<rparr>"
  have r: "memoffset \<le> sint pc" "sint pc < memoffset + MEMSIZE" "int (length (host_mem S)) = MEMSIZE"
    using Suc.prems by (simp_all add: room_def)
  note nxt = sint_next [OF r(1,2)]
  have p: "?p < length (host_mem S)" using r by linarith
  have "host_store pc [?b] S = Inr ?S" using r by (simp add: host_store_def Let_def)
  moreover have "load_stream test (pc + 1) (tl bs) n ?S = Inr (?S\<lparr>host_mem := take (Suc ?p) (host_mem ?S) @ stream n (tl bs) @
      drop (Suc ?p + n) (host_mem ?S)\<rparr>)"
    using Suc.IH [of "pc + 1" ?S "tl bs"] Suc.prems r p
    by (simp add: room_def nxt nat_add_distrib Suc_nat_eq_nat_zadd1 [symmetric] diff_add_eq [symmetric])
  ultimately show ?case using r p by (simp add: stream_Suc min_def Suc_diff_le add.commute [of n])
qed

text \<open>A section that does not touch the first \<open>m\<close> bytes of the memory.\<close>

definition behind :: "int \<Rightarrow> object_file \<Rightarrow> scnhdr \<Rightarrow> bool" where
  "behind m ob s \<longleftrightarrow> s_scnptr s = 0 \<or> memoffset + m \<le> sint (s_vaddr s) \<and> 0 \<le> sint (s_size s) \<and>
     sint (s_vaddr s) + sint (s_size s) \<le> memoffset + MEMSIZE"

definition starts_with :: "byte list \<Rightarrow> interpreter \<Rightarrow> bool" where
  "starts_with bs S \<longleftrightarrow> int (length (host_mem S)) = MEMSIZE \<and> take (length bs) (host_mem S) = bs"

lemma load_section_run:
  assumes "s_scnptr s \<noteq> 0" and "room (sint (s_vaddr s)) (sint (s_size s)) S"
  shows "disasm_load_section ob s S = Inr (S\<lparr>host_mem := take (nat (sint (s_vaddr s) - memoffset)) (host_mem S) @
    stream (nat (sint (s_size s))) (drop (nat (sint (s_scnptr s))) (o_bytes ob)) @
    drop (nat (sint (s_vaddr s) - memoffset) + nat (sint (s_size s))) (host_mem S)\<rparr>)"
  using load_stream_run [of "s_vaddr s" "nat (sint (s_size s))" S] assms
  by (simp add: disasm_load_section_def room_def)

lemma load_behind:
  assumes "behind (int (length bs)) ob s" and "starts_with bs S"
  shows "\<exists>S'. disasm_load_section ob s S = Inr S' \<and> starts_with bs S'"
proof (cases "s_scnptr s = 0")
  case True
  then show ?thesis using assms(2) by (simp add: disasm_load_section_def)
next
  case False
  let ?p = "nat (sint (s_vaddr s) - memoffset)"
  have p: "length bs \<le> ?p" "?p + nat (sint (s_size s)) \<le> length (host_mem S)"
    using assms False by (auto simp: behind_def starts_with_def)
  then have "take (length bs) (take ?p (host_mem S) @ r) = bs" for r using assms(2) by (simp add: starts_with_def min_def)
  then show ?thesis
    using load_section_run [OF False, of S ob] assms False p by (auto simp: behind_def room_def starts_with_def)
qed

definition missing :: "object_file \<Rightarrow> string list \<Rightarrow> string" where
  "missing ob nms = concat (map missing_message (filter (\<lambda>nm. o_section ob nm = None) nms))"

lemma load_named_behind:
  assumes "\<forall>nm \<in> set nms. \<forall>s. o_section ob nm = Some s \<longrightarrow> behind (int (length bs)) ob s" and "starts_with bs S"
  shows "\<exists>S'. load_named disasm_load_section ob nms S = (missing ob nms, Inr S') \<and> starts_with bs S'"
  using assms
proof (induction nms arbitrary: S)
  case Nil
  then show ?case by (simp add: missing_def)
next
  case (Cons nm nms)
  show ?case
  proof (cases "o_section ob nm")
    case None
    obtain S' where "load_named disasm_load_section ob nms S = (missing ob nms, Inr S')" "starts_with bs S'"
      using Cons.IH [of S] Cons.prems by auto
    then show ?thesis using None by (simp add: missing_def)
  next
    case (Some s)
    then obtain S1 where S1: "disasm_load_section ob s S = Inr S1" "starts_with bs S1"
      using load_behind [of bs ob s S] Cons.prems by auto
    obtain S' where "load_named disasm_load_section ob nms S1 = (missing ob nms, Inr S')" "starts_with bs S'"
      using Cons.IH [of S1] Cons.prems(1) S1(2) by auto
    then show ?thesis using Some S1(1) by (simp add: missing_def)
  qed
qed

text \<open>The words of the code, one after the other.\<close>

lemma fetch_start:
  assumes "starts_with bs S" and "4 * i + 4 \<le> length bs"
  shows "fetch (word_of_int (memoffset + int (4 * i))) S = Inr (bytes_word (take 4 (drop (4 * i) bs)))"
proof -
  have m: "length bs \<le> length (host_mem S)" "int (length (host_mem S)) = MEMSIZE"
    using assms(1) unfolding starts_with_def by (metis length_take min.cobounded1, simp)
  have "sint (word_of_int (memoffset + int (4 * i)) :: 32 word) = memoffset + int (4 * i)"
    using assms(2) m by (simp only: signed_of_int) (simp add: signed_take_bit_int_eq_self memoffset_def MEMSIZE_def)
  moreover have "take 4 (drop (4 * i) (host_mem S)) = take 4 (drop (4 * i) bs)"
  proof -
    have "take 4 (drop (4 * i) (host_mem S)) = take 4 (drop (4 * i) (take (length bs) (host_mem S)))"
      using assms(2) by (simp add: drop_take min_def)
    then show ?thesis using assms(1) by (simp add: starts_with_def)
  qed
  ultimately show ?thesis using assms(2) m by (simp add: fetch_def host_load_def Let_def nat_mult_distrib)
qed

definition listing :: "byte list \<Rightarrow> nat list \<Rightarrow> string" where
  "listing bs is = concat (map (\<lambda>i. dump_ascii True (bytes_word (take 4 (drop (4 * i) bs))) (word_of_int (memoffset + int (4 * i))) @
     [newline]) is)"

lemma disasm_from_lists:
  assumes "starts_with bs S" and "4 * (i + n) \<le> length bs"
  shows "disasm_from n (word_of_int (memoffset + int (4 * i))) S = (listing bs [i..<i + n], None)"
  using assms(2)
proof (induction n arbitrary: i)
  case (Suc n)
  have "(word_of_int (memoffset + int (4 * i)) :: 32 word) + 4 = word_of_int (memoffset + int (4 * Suc i))" by simp
  moreover have "disasm_from n (word_of_int (memoffset + int (4 * Suc i))) S = (listing bs [Suc i..<Suc i + n], None)"
    using Suc.IH [of "Suc i"] Suc.prems by simp
  moreover have "[i..<i + Suc n] = i # [Suc i..<Suc i + n]" by (simp add: upt_conv_Cons)
  ultimately show ?case
    using fetch_start [OF assms(1), of i] Suc.prems by (simp only: disasm_from.simps) (simp add: dis1_def listing_def)
qed (simp add: listing_def)

text \<open>
  The two loaders leave the same memory when a section ends below the end of the memory. One that ends exactly
  there is loaded by the disassembler and refused by the interpreter.
\<close>

lemma loaders_agree:
  assumes "s_scnptr s \<noteq> 0" and "room (sint (s_vaddr s)) (sint (s_size s)) S"
  shows "LOADSECTION ob s S =
    (if sint (s_vaddr s) + sint (s_size s) < memoffset + MEMSIZE then disasm_load_section ob s S else Inl (Exited 1))"
proof -
  have "s_vaddr s + word_of_nat (nat (sint (s_size s))) = word_of_int (sint (s_vaddr s) + sint (s_size s))"
    using assms(2) by (simp add: room_def)
  moreover have "sint (word_of_int (sint (s_vaddr s) + sint (s_size s)) :: 32 word) = sint (s_vaddr s) + sint (s_size s)"
    using assms(2)
    by (simp only: signed_of_int) (simp add: signed_take_bit_int_eq_self room_def memoffset_def MEMSIZE_def)
  ultimately show ?thesis
    using load_stream_run [of "s_vaddr s" "nat (sint (s_size s))" S] assms
    by (simp add: LOADSECTION_def disasm_load_section_def room_def not_less)
qed

subsection \<open>Properties\<close>

text \<open>
  C32: The listing is the program: for an object file whose code is linked at the start of the memory and whose other
  sections lie behind it, all in reach, \<open>disasm\<close> loads it and prints, behind a message for every one of the other
  five sections that the file does not have, a line for every word of the section \<open>.text\<close> in the file, with its address,
  in their order, and nothing else to its standard output.
\<close>

theorem disasm_lists_text:
  assumes "o_type ob = 0x162" and "o_section ob ''.text'' = Some s" and "s_vaddr s = word_of_int memoffset"
    and "s_scnptr s \<noteq> 0" and "0 \<le> sint (s_scnptr s)" and "sint (s_size s) = 4 * int n"
    and "nat (sint (s_scnptr s)) + 4 * n \<le> length (o_bytes ob)"
    and "4 * int n \<le> MEMSIZE" and "int (length (host_mem S)) = MEMSIZE"
    and "\<forall>nm \<in> set (tl section_names). \<forall>g. o_section ob nm = Some g \<longrightarrow> behind (4 * int n) ob g"
  shows "disasm_main (Some ob) S =
    (missing ob (tl section_names) @ listing (section_bytes (o_bytes ob) s) [0..<n], None)"
proof -
  have names: "section_names = ''.text'' # tl section_names" by (simp add: section_names_def)
  let ?bs = "section_bytes (o_bytes ob) s"
  have b: "stream (4 * n) (drop (nat (sint (s_scnptr s))) (o_bytes ob)) = ?bs" "length ?bs = 4 * n"
    using assms(5-7) by (simp_all add: stream_def section_bytes_def nat_mult_distrib)
  have v: "sint (s_vaddr s) = memoffset" unfolding assms(3) by (simp add: memoffset_def)
  have sz: "nat (sint (s_size s)) = 4 * n" using assms(6) by simp
  let ?S = "S\<lparr>host_mem := ?bs @ drop (4 * n) (host_mem S)\<rparr>"
  have "room (sint (s_vaddr s)) (sint (s_size s)) S" using assms(6,8,9) by (simp add: room_def v)
  from load_section_run [OF assms(4) this, of ob] have "disasm_load_section ob s S = Inr ?S" by (simp add: v sz b)
  moreover have "starts_with ?bs ?S" using assms(8,9) b by (simp add: starts_with_def)
  then obtain S' where S': "load_named disasm_load_section ob (tl section_names) ?S = (missing ob (tl section_names), Inr S')" "starts_with ?bs S'"
    using load_named_behind [of "tl section_names" ob ?bs ?S] assms(10) b(2) by auto
  ultimately have "load_named disasm_load_section ob section_names S = (missing ob (tl section_names), Inr S')"
    using assms(2) by (subst names) simp
  then have "load_program disasm_load_section (Some ob) S = (missing ob (tl section_names), Inr S')" using assms(1) by (simp add: load_program_def)
  moreover have "nat ((sint (s_size s) + 3) div 4) = n" using assms(6) by simp
  ultimately show ?thesis
    using disasm_from_lists [OF S'(2), of 0 n] assms(2) b(2) by (simp add: disasm_main_def disasm_def)
qed

definition two_words :: object_file where
  "two_words = \<lparr>o_type = 0x162, o_section = [''.text'' \<mapsto>
     \<lparr>s_name = [0x2e, 0x74, 0x65, 0x78, 0x74, 0, 0, 0], s_paddr = 0x10000000, s_vaddr = 0x10000000, s_size = 8, s_scnptr = 4,
       s_relptr = 0, s_lnnoptr = 0, s_nreloc = 0, s_nlnno = 0, s_flags = 0\<rparr>],
     o_bytes = [0, 0, 0, 0, 1, 0, 2, 0x24, 0x0c, 0, 0, 0]\<rparr>"

definition two_lines :: string where
  "two_lines = ''10000000: 24020001  '' @ [tab] @ ''addiu'' @ [tab] @ ''r2,0,0x1'' @ [newline] @
     ''10000004: 0000000c  '' @ [tab] @ ''syscall'' @ [tab] @ [newline]"

definition five_missing :: string where
  "five_missing = ''rdata section header missing'' @ [newline] @ ''data section header missing'' @ [newline] @
     ''sdata section header missing'' @ [newline] @ ''sbss section header missing'' @ [newline] @
     ''bss section header missing'' @ [newline]"

lemma listing_two_words: "listing [1, 0, 2, 0x24, 0x0c, 0, 0, 0] [0, 1] = two_lines"
proof -
  have zeros: "replicate 7 (CHR ''0'') = ''0000000''" by code_simp
  have x: "print_08x 0x10000000 = ''10000000''" "print_08x 0x10000004 = ''10000004''" "print_08x 0x24020001 = ''24020001''"
    "print_08x 0xC = ''0000000c''" "print_x 1 = ''1''"
    by (simp_all add: print_08x_def print_x_def hex.simps hex_digit_def zeros)
  have "bytes_word [1, 0, 2, 0x24] = 0x24020001" "bytes_word [0x0c, 0, 0, 0] = 0xC"
    by (simp_all add: bytes_word_def)
  moreover have "dump_ascii True 0x24020001 0x10000000 = ''10000000: 24020001  '' @ [tab] @ ''addiu'' @ [tab] @ ''r2,0,0x1''"
    by (simp add: dump_ascii_def x normal_opcodes_def normalops_def normal_operands_def R_def regstrings_def i_rt_def i_rs_def
      immed_def memory_op_def)
  moreover have "dump_ascii True 0xC 0x10000004 = ''10000004: 0000000c  '' @ [tab] @ ''syscall'' @ [tab]"
    by (simp add: dump_ascii_def x normal_opcodes_def special_opcodes_def specialops_def special_operands_def)
  ultimately show ?thesis by (simp add: listing_def two_lines_def memoffset_def)
qed

theorem disasm_lists_text_witness:
  "disasm_main (Some two_words) \<lparr>Reg = (\<lambda>_. 0), HI = 0, LO = 0, host_mem = replicate (nat MEMSIZE) 0, host_pc = 0, host_npc = 0\<rparr> =
    (five_missing @ two_lines, None)"
proof -
  let ?S = "\<lparr>Reg = (\<lambda>_. 0), HI = 0, LO = 0, host_mem = replicate (nat MEMSIZE) 0, host_pc = 0, host_npc = 0\<rparr>"
  let ?s = "\<lparr>s_name = [0x2e, 0x74, 0x65, 0x78, 0x74, 0, 0, 0], s_paddr = 0x10000000, s_vaddr = 0x10000000, s_size = 8, s_scnptr = 4,
       s_relptr = 0, s_lnnoptr = 0, s_nreloc = 0, s_nlnno = 0, s_flags = 0\<rparr> :: scnhdr"
  have "listing [1, 0, 2, 0x24, 0x0c, 0, 0, 0] [0, 1] = two_lines" by (rule listing_two_words)
  moreover have "disasm_main (Some two_words) ?S =
      (missing two_words (tl section_names) @ listing (section_bytes (o_bytes two_words) ?s) [0..<2], None)"
    by (rule disasm_lists_text [of _ ?s])
      (simp_all add: two_words_def memoffset_def MEMSIZE_def section_names_def)
  moreover have "section_bytes (o_bytes two_words) ?s = [1, 0, 2, 0x24, 0x0c, 0, 0, 0]" "[0..<2] = [0, 1]"
    by (simp_all add: section_bytes_def two_words_def upt_rec)
  moreover have "missing two_words (tl section_names) = five_missing"
    by (simp add: missing_def missing_message_def two_words_def section_names_def five_missing_def)
  ultimately show ?thesis by simp
qed

end
