(* ===== verification/Spec2Isabelle.thy ===== *)
theory Spec2Isabelle
  imports Linked_List Start_Process Console Mail_Transfer Bounded_Buffer Kernel_Table Dl_List Sleep_Lock
    Coff_Noff Interpreters_Agree Host_Log Philosophers Example_Stacks Command_Line Disassembler Find_Files Shell
    Coff_Flat Object_Loader
begin

text \<open>
  Nachos, the instructional operating system under \<open>nachos/code\<close>: a kernel in C++ that runs on a
  machine it simulates itself; the tools around it (\<open>bin\<close>: the converter of object files, a second
  interpreter of MIPS programs and its disassembler; \<open>c++example\<close>: two stacks); and three of the Unix exercises,
  the dining philosophers, a file finder and a shell.
  The host is the i386 of the build files: little-endian, 32-bit
  \<open>int\<close>, signed \<open>char\<close>.

  \<^bold>\<open>How the parts interact.\<close> The simulated time moves in \<open>machine/interrupt.cc\<close>: a tick for every user
  instruction and every re-enabling of interrupts, and jumps when nothing is runnable. Devices
  (timer, disk, console, network) schedule interrupts, whose handlers raise semaphores. Threads are scheduled from a
  ready list; semaphores and locks put them to sleep on it and wake them. The synchronous disk
  turns the disk's interrupts into blocking reads and writes of sectors; on these the file system
  keeps its bitmap, its directory and its files. A user program is a file in it, which an address
  space loads into the simulated memory, and which the MIPS simulator executes. The console echo waits
  for characters; the post office sends mail over the network and files what arrives into mailboxes,
  which are synchronized lists. Bounded buffers, object tables and doubly linked lists are monitors on
  the same locks and conditions.

  \<^bold>\<open>State.\<close> The global variables of the kernel are one record, extended by each layer:
  \<open>kernel\<close> (Interrupts: clock, pending interrupts, ready list, threads), \<open>ukernel\<close> (Mips_Machine:
  registers, memory, translation tables), \<open>pkernel\<close> (Addr_Space: address spaces), \<open>skernel\<close>
  (Synchronization: semaphores, locks, conditions), \<open>dkernel\<close> (Disk), \<open>sdkernel\<close> (Synch_Disk).
  On \<open>skernel\<close> stand as well \<open>ckernel\<close> (Console), \<open>lkernel\<close>, \<open>nkernel\<close>, \<open>okernel\<close> (Synch_List, Network,
  Post_Office, one on the other), and \<open>bkernel\<close>, \<open>tkernel\<close>, \<open>dlkernel\<close>, \<open>slkernel\<close> (the monitors).
  Every operation is polymorphic in what extends its layer, so each is used unchanged above it.
  Objects that are shared by pointer live in maps from addresses; the address that \<open>new\<close> returns
  is an argument. An operation that can fail returns a sum, whose left side names how the program
  stops (\<open>nerror\<close> in the prelude: a failed \<open>ASSERT\<close>, an access outside an array, a dangling
  pointer, \<open>Halt\<close>); one that may wait for ever returns an option on top, \<^const>\<open>None\<close> for not
  returning. What \<open>new\<close> leaves uninitialised is an argument too.

  \<^bold>\<open>The theories.\<close>
  \<^item> \<open>Nachos_Prelude\<close>: results, C arrays, C division, counted loops, bytes of words.
  \<^item> \<open>Linked_List\<close> (\<open>threads/list.cc\<close>): the list as a pointer structure, its refinement of abstract
    lists, and the locale \<open>keyed_queue\<close>.
  \<^item> \<open>Interrupts\<close> (\<open>machine/interrupt.cc\<close>, \<open>stats\<close>, \<open>timer\<close>): pending interrupts, \<open>CheckIfDue\<close>, \<open>Idle\<close>;
    the loop that fires what is due ends under the laws of the locale \<open>device_handlers\<close>, which the
    timer and the disk satisfy.
  \<^item> \<open>Threads\<close> (\<open>threads/thread.cc\<close>, \<open>scheduler.cc\<close>): every operation as its caller sees it, with the
    assembly routine \<open>SWITCH\<close> a parameter, and as a transition system between switches with its
    invariant, from which safety and round-robin fairness follow. The locale \<open>user_state\<close> says what
    the hooks for user registers keep.
  \<^item> \<open>Synchronization\<close> (\<open>threads/synch.cc\<close>): semaphores, locks, conditions; the transition system of all
    threads around a semaphore and around a lock, with invariants.
  \<^item> \<open>Mips_Decode\<close>, \<open>Mips_Mult\<close>, \<open>Mips_Machine\<close>, \<open>Mips_Instructions\<close> (\<open>machine/mipssim.cc\<close>,
    \<open>machine.cc\<close>, \<open>translate.cc\<close>, \<open>userprog/exception.cc\<close>): the simulated CPU, one definition for every
    case of its switch, with \<open>32 word\<close> registers; \<open>mach_ok\<close> is its well-formedness, and \<open>alu_outcome\<close> and
    \<open>registers_after\<close> say what the instructions that only compute are to do.
  \<^item> \<open>Addr_Space\<close> (\<open>userprog/addrspace.cc\<close>, \<open>bin/noff.h\<close>): loading programs, the state they start in,
    and the interpretation of \<open>user_state\<close>.
  \<^item> \<open>Sector_Device\<close>: the contract between the file system and its disk, a locale; interpreted on a
    disk in memory here and on the synchronous disk of the kernel in \<open>Synch_Disk\<close>.
  \<^item> \<open>Bitmap\<close>, \<open>File_Header\<close>, \<open>Open_File\<close>, \<open>Directory\<close>, \<open>File_System\<close>, \<open>Fs_Test\<close> (\<open>userprog/bitmap.cc\<close>,
    \<open>filesys/\<close>): the file system, bottom up. Each has an abstraction (set of marked sectors, bytes of a
    file, map from names, map from names to contents) which its operations implement; \<open>fs_ok\<close> is the
    consistency of the disk, kept by every operation.
  \<^item> \<open>Disk\<close>, \<open>Synch_Disk\<close> (\<open>machine/disk.cc\<close>, \<open>filesys/synchdisk.cc\<close>): the device with its latencies and
    the blocking interface over semaphore, lock, scheduler and interrupts. The contract of
    \<open>Sector_Device\<close> is proved for a kernel whose only runnable thread makes the request.
  \<^item> \<open>Start_Process\<close> (\<open>userprog/progtest.cc\<close>): everything together; its witness formats the disk, copies
    a program onto it and runs it until it halts the machine.
  \<^item> \<open>Device_Threads\<close>, \<open>Polled_Device\<close>: a thread that waits for the interrupt of a device, for every
    device; the locale \<open>polled_device\<close> is the contract of console and network.
  \<^item> \<open>Console\<close> (\<open>machine/console.cc\<close>, \<open>ConsoleTest\<close> of \<open>progtest.cc\<close>): the device and the echo, whose liveness
    is proved for every timing of the keyboard.
  \<^item> \<open>Calm_Kernel\<close>: monitors as the only thread sees them, in the locale \<open>calm_kernel\<close>; \<open>Synch_List\<close>
    (\<open>threads/synchlist.cc\<close>) extends it to \<open>calm_lists\<close>.
  \<^item> \<open>Network\<close>, \<open>Post_Office\<close>, \<open>Mail_Delivery\<close>, \<open>Mail_Transfer\<close> (\<open>machine/network.cc\<close>, \<open>network/post.cc\<close>): packets
    byte by byte, the postal worker, and the way of a message from \<open>Send\<close> to \<open>Receive\<close>.
  \<^item> \<open>Bounded_Buffer\<close>, \<open>Kernel_Table\<close>, \<open>Dl_List\<close> (\<open>threads/BoundedBuffer.cc\<close>, \<open>Table.cc\<close>, \<open>dllist.cc\<close>):
    the three monitors with their abstractions, a queue of bytes, a map, a list of keys; each
    operation for the only thread, what does not return included, and the buffer also for calls of
    any number of threads that take the lock, wait and wake in any order.
  \<^item> \<open>Sleep_Lock\<close> (\<open>threads/synch-sleep.cc\<close>): locks that keep their own queue, and a run in which two
    threads hold one.
  \<^item> \<open>Coff_Noff\<close> (\<open>bin/coff2noff.c\<close>): from object files to the programs that \<open>Addr_Space\<close> loads; what the one
    writes the other is proved to read. Its errors are a type of their own, threaded by \<open>ebind\<close>. \<open>Coff_Flat\<close> (\<open>bin/coff2flat.c\<close>): the
    older converter, to images of the memory.
  \<^item> \<open>Host_Interpreter\<close>, \<open>Interpreters_Agree\<close>, \<open>Host_Log\<close> (\<open>bin/execute.c\<close>, \<open>instr.h\<close>, \<open>encode.h\<close>, \<open>int.h\<close>,
    \<open>system.c\<close>): the stand-alone interpreter; its tables and its switch against those of
    \<open>Mips_Decode\<close> and \<open>Mips_Instructions\<close>, step by step on related states; its logarithm.
  \<^item> \<open>Disassembler\<close> (\<open>bin/d.c\<close>, \<open>opstrings.c\<close>): the text of an instruction, from which its execution
    can be told, with the instructions for which it cannot. \<open>Object_Loader\<close> (\<open>bin/disasm.c\<close>, \<open>main.c\<close>): loading
    an object file, with the messages about its sections, for the listing and for the interpreter.
  \<^item> \<open>Command_Line\<close> (\<open>threads/main.cc\<close>, \<open>system.cc\<close>, \<open>threadtest.cc\<close>): what a build of the kernel makes of its
    arguments, and the builds that cannot be told anything.
  \<^item> \<open>Find_Files\<close> (\<open>unix/homework/homework_2/myfind.c\<close>): the walk over a directory tree; the locale \<open>visitor\<close> is
    what the walk asks of the function it applies, interpreted on the three functions of the program.
  \<^item> \<open>Shell\<close> (\<open>unix/homework/homework_3/shell.c\<close>): reading command lines, and the loop around them.
  \<^item> \<open>Philosophers\<close> (\<open>unix/homework/homework_5/philosopher.c\<close>): a step relation of the five processes, with mutual
    exclusion and freedom from deadlock.
  \<^item> \<open>Example_Stacks\<close> (\<open>c++example\<close>): the promise of an abstract class as the locale \<open>lifo\<close>, its two
    implementations as interpretations.

  \<^bold>\<open>Loops.\<close> Counted loops are \<open>for_range\<close>. Loops that end are functions with a termination proof;
  those that may not (\<open>P\<close>, \<open>fire_due\<close>, \<open>Sleep\<close>, \<open>Broadcast\<close>, the CPU, \<open>Print\<close>, the waits of the monitors, walks over
  pointers) are partial functions into
  options, and where they return this is proved; no fuel is used.

  \<^bold>\<open>Not modelled.\<close> Output (\<open>DEBUG\<close>, \<open>Print\<close> of state that nothing reads), the layout of the first stack
  frame and the assembly of \<open>SWITCH\<close>, the Unix calls of \<open>machine/sysdep.cc\<close> (devices take their results
  as arguments), overflow of counters and of simulated time, destructors at exit, the bodies of the self
  tests, the two threads of \<open>network/nettest.cc\<close> in one run (each step of the mail's way is proved by itself); \<open>bin/out.c\<close>, which prints tables of object files
  in the formats of the MIPS vendor; shell scripts, network and ROS exercises.
\<close>

end
